(* ===== verification/Prelude.thy ===== *)
theory Prelude
  imports Main "HOL-Library.Word" "HOL-Library.Monad_Syntax"
begin

unbundle bit_operations_syntax

text \<open>
  The shared vocabulary of the development.

  It fixes how Rust values are read: a byte string is a HOL \<^typ>\<open>string\<close>, an
  integer of a fixed width is a word, a computation that may panic (an index out of
  range, a failed \<open>unwrap\<close>) or that may not return is an \<open>option\<close> whose \<open>None\<close> is the
  panic, and \<open>std::cmp::Ordering\<close> is the datatype \<open>ordering\<close>.  The theory holds the
  list operations of the Rust standard library that several components use
  (\<open>position\<close>, \<open>retain\<close>, \<open>split_at\<close>-style surgery) with their lemmas, and the
  collections \<open>dom_simps\<close>, \<open>reg_simps\<close> and \<open>step_simps\<close> that the component theories
  fill.
\<close>

named_theorems dom_simps "evaluation rules of the DOM operations"
named_theorems reg_simps "evaluation rules of the id registries"
named_theorems step_simps "evaluation rules of the lifecycle state machines"

section \<open>Results that may panic, orderings\<close>

type_synonym 'a may_panic = "'a option"
type_synonym u32 = "32 word"
type_synonym u64 = "64 word"

text \<open>Floats are carried as their bits; arithmetic on them is a parameter where it is needed.\<close>
type_synonym f32 = "32 word"
type_synonym f64 = "64 word"

datatype ordering = Less | Equal | Greater

definition ordering_reverse :: "ordering \<Rightarrow> ordering" where
  "ordering_reverse o1 = (case o1 of Less \<Rightarrow> Greater | Equal \<Rightarrow> Equal | Greater \<Rightarrow> Less)"

definition cmp_of :: "'a::linorder \<Rightarrow> 'a \<Rightarrow> ordering" where
  "cmp_of a b = (if a < b then Less else if a = b then Equal else Greater)"

text \<open>\<open>Ordering::then_with\<close>.\<close>
definition ordering_then :: "ordering \<Rightarrow> ordering \<Rightarrow> ordering" where
  "ordering_then a b = (case a of Equal \<Rightarrow> b | _ \<Rightarrow> a)"

lemma ordering_then_simps [simp]:
  "ordering_then Less b = Less" "ordering_then Greater b = Greater" "ordering_then Equal b = b"
  by (simp_all add: ordering_then_def)

lemma ordering_reverse_simps [simp]:
  "ordering_reverse Less = Greater" "ordering_reverse Equal = Equal" "ordering_reverse Greater = Less"
  by (simp_all add: ordering_reverse_def)

lemma ordering_reverse_reverse [simp]: "ordering_reverse (ordering_reverse x) = x"
  by (cases x) simp_all

lemma ordering_reverse_eq_Equal [simp]: "ordering_reverse x = Equal \<longleftrightarrow> x = Equal"
  by (cases x) simp_all

lemma ordering_reverse_then:
  "ordering_reverse (ordering_then x y) = ordering_then (ordering_reverse x) (ordering_reverse y)"
  by (cases x) simp_all

lemma ordering_then_eq_Equal [simp]: "ordering_then x y = Equal \<longleftrightarrow> x = Equal \<and> y = Equal"
  by (cases x) simp_all

lemma cmp_of_simps [simp]:
  "cmp_of a b = Equal \<longleftrightarrow> a = b"
  "cmp_of a b = Less \<longleftrightarrow> a < b"
  "cmp_of a b = Greater \<longleftrightarrow> b < a"
  by (auto simp: cmp_of_def)

lemma cmp_of_reverse: "cmp_of b a = ordering_reverse (cmp_of a b)"
  by (auto simp: cmp_of_def)

section \<open>The first index with a property\<close>

text \<open>\<open>iter().position(..)\<close>.\<close>
fun position :: "('a \<Rightarrow> bool) \<Rightarrow> 'a list \<Rightarrow> nat option" where
  "position P [] = None"
| "position P (x # xs) = (if P x then Some 0 else map_option Suc (position P xs))"

abbreviation index_of :: "'a \<Rightarrow> 'a list \<Rightarrow> nat option" where
  "index_of a xs \<equiv> position (\<lambda>x. x = a) xs"

lemma position_None_iff: "position P xs = None \<longleftrightarrow> (\<forall>x\<in>set xs. \<not> P x)"
  by (induction xs) auto

lemma position_Some_iff:
  "position P xs = Some k \<longleftrightarrow> k < length xs \<and> P (xs ! k) \<and> (\<forall>j<k. \<not> P (xs ! j))"
proof (induction xs arbitrary: k)
  case (Cons x xs)
  show ?case
  proof (cases k)
    case 0
    then show ?thesis by auto
  next
    case (Suc m)
    have "(\<forall>j<Suc m. \<not> P ((x # xs) ! j)) \<longleftrightarrow> \<not> P x \<and> (\<forall>j<m. \<not> P (xs ! j))"
      by (auto simp: less_Suc_eq_0_disj)
    with Suc Cons.IH [of m] show ?thesis by auto
  qed
qed simp

lemma position_lt: "position P xs = Some k \<Longrightarrow> k < length xs"
  by (simp add: position_Some_iff)

lemma index_of_distinct:
  assumes "distinct xs" "k < length xs"
  shows "index_of (xs ! k) xs = Some k"
  using assms by (auto simp: position_Some_iff nth_eq_iff_index_eq)

lemma index_of_append_notin [simp]:
  "a \<notin> set us \<Longrightarrow> index_of a (us @ a # vs) = Some (length us)"
  by (induction us) auto

lemma index_of_append1: "a \<in> set us \<Longrightarrow> index_of a (us @ vs) = index_of a us"
  by (induction us) auto

lemma index_of_append2:
  "a \<notin> set us \<Longrightarrow> index_of a (us @ vs) = map_option (\<lambda>k. k + length us) (index_of a vs)"
proof (induction us)
  case Nil
  then show ?case by (cases "index_of a vs") auto
next
  case (Cons u us)
  then show ?case by (cases "index_of a vs") auto
qed

lemma index_of_in: "a \<in> set xs \<Longrightarrow> \<exists>k. index_of a xs = Some k \<and> k < length xs \<and> xs ! k = a"
proof (induction xs)
  case (Cons x xs)
  then show ?case by (cases "x = a") auto
qed simp

section \<open>Lists\<close>

lemma find_append: "List.find P (xs @ ys) = (case List.find P xs of None \<Rightarrow> List.find P ys | Some x \<Rightarrow> Some x)"
  by (induction xs) auto

lemma find_None_filter: "List.find P xs = None \<longleftrightarrow> filter P xs = []"
  by (induction xs) auto

lemma find_hd_filter: "filter P xs \<noteq> [] \<Longrightarrow> List.find P xs = Some (hd (filter P xs))"
  by (induction xs) auto

lemma find_Some_set: "List.find P xs = Some x \<Longrightarrow> x \<in> set xs \<and> P x"
  by (induction xs) (auto split: if_splits)

lemma find_unique:
  assumes "i \<in> set xs" "P i" "\<forall>j\<in>set xs. P j \<longrightarrow> j = i"
  shows "List.find P xs = Some i"
proof (cases "List.find P xs")
  case None
  with assms(1,2) show ?thesis by (metis find_None_iff)
next
  case (Some y)
  with find_Some_set [OF Some] assms(3) show ?thesis by blast
qed

lemma filter_neq_id [simp]: "a \<notin> set xs \<Longrightarrow> filter (\<lambda>x. x \<noteq> a) xs = xs"
  by (induction xs) auto

lemma filter_neq_distinct:
  "distinct (us @ a # vs) \<Longrightarrow> filter (\<lambda>x. x \<noteq> a) (us @ a # vs) = us @ vs"
  by simp

lemma last_concat_map: "xs \<noteq> [] \<Longrightarrow> f (last xs) \<noteq> [] \<Longrightarrow> last (concat (map f xs)) = last (f (last xs))"
  by (induction xs rule: rev_induct) auto

section \<open>Total correctness of computations that may panic\<close>

text \<open>\<open>succeeds x Q\<close>: the computation returns, and its result satisfies \<open>Q\<close>.\<close>
definition succeeds :: "'a option \<Rightarrow> ('a \<Rightarrow> bool) \<Rightarrow> bool" where
  "succeeds x Q \<longleftrightarrow> (\<exists>y. x = Some y \<and> Q y)"

named_theorems succ_intros "rules that take a computation apart"

lemma succeeds_Some [simp]: "succeeds (Some y) Q \<longleftrightarrow> Q y"
  by (simp add: succeeds_def)

lemma succeeds_None [simp]: "succeeds None Q \<longleftrightarrow> False"
  by (simp add: succeeds_def)

lemma succeeds_bind [succ_intros]: "succeeds x (\<lambda>y. succeeds (f y) Q) \<Longrightarrow> succeeds (Option.bind x f) Q"
  by (auto simp: succeeds_def)

lemma succeeds_map: "succeeds x (\<lambda>y. Q (f y)) \<Longrightarrow> succeeds (map_option f x) Q"
  by (auto simp: succeeds_def)

lemma succeeds_if [succ_intros]:
  "(b \<Longrightarrow> succeeds x Q) \<Longrightarrow> (\<not> b \<Longrightarrow> succeeds y Q) \<Longrightarrow> succeeds (if b then x else y) Q"
  by simp

lemma succeeds_mono: "succeeds x P \<Longrightarrow> (\<And>y. x = Some y \<Longrightarrow> P y \<Longrightarrow> Q y) \<Longrightarrow> succeeds x Q"
  by (auto simp: succeeds_def)

lemma succeeds_seq:
  "succeeds x P \<Longrightarrow> (\<And>y. P y \<Longrightarrow> succeeds (f y) Q) \<Longrightarrow> succeeds (Option.bind x f) Q"
  by (auto simp: succeeds_def)

lemma succeedsI: "\<exists>y. x = Some y \<and> Q y \<Longrightarrow> succeeds x Q"
  by (simp add: succeeds_def)

lemma succeedsE: "succeeds x Q \<Longrightarrow> (\<And>y. x = Some y \<Longrightarrow> Q y \<Longrightarrow> R) \<Longrightarrow> R"
  by (auto simp: succeeds_def)

end
