(* ===== verification/Net_Types.thy ===== *)
theory Net_Types
  imports Prelude
begin

text \<open>
  Requests and navigations as the document hands them to its embedder:
  \<open>strake-traits/src/net.rs\<close> and \<open>strake-traits/src/navigation.rs\<close>.  A \<open>Url\<close> of the
  \<open>url\<close> crate is its serialization, a path its bytes (which are UTF-8 here).
\<close>

section \<open>Form data\<close>

datatype entry_value = EntryString string | EntryFile string | EmptyFile

record entry =
  entry_name :: string
  entry_val :: entry_value

type_synonym form_data = "entry list"

text \<open>\<open>impl AsRef<str> for EntryValue\<close>.\<close>
fun entry_text :: "entry_value \<Rightarrow> string" where
  "entry_text (EntryString s) = s"
| "entry_text (EntryFile p) = p"
| "entry_text EmptyFile = []"

text \<open>The \<open>Serialize\<close> implementations: a sequence of pairs of texts.\<close>
definition serialize_entry :: "entry \<Rightarrow> string \<times> string" where
  "serialize_entry e = (entry_name e, case entry_val e of EntryString s \<Rightarrow> s | EntryFile p \<Rightarrow> p | EmptyFile \<Rightarrow> [])"

definition serialize_form_data :: "form_data \<Rightarrow> (string \<times> string) list" where
  "serialize_form_data = map serialize_entry"

section \<open>Requests and navigations\<close>

datatype body = BodyBytes string | BodyForm form_data | BodyEmpty

datatype http_method = GET | POST

record request =
  req_url :: string
  req_method :: http_method
  req_content_type :: "string option"
  req_headers :: "(string \<times> string) list"
  req_body :: body
  req_signal :: "nat option"

definition request_get :: "string \<Rightarrow> request" where
  "request_get u = \<lparr> req_url = u, req_method = GET, req_content_type = None, req_headers = [],
     req_body = BodyEmpty, req_signal = None \<rparr>"

text \<open>An \<open>AbortSignal\<close> is a shared flag; a number names it.\<close>
definition request_signal :: "nat \<Rightarrow> request \<Rightarrow> request" where
  "request_signal s r = r\<lparr>req_signal := Some s\<rparr>"

record navigation_options =
  nav_url :: string
  nav_content_type :: "string option"
  source_document :: nat
  nav_method :: http_method
  document_resource :: body

definition navigation_new :: "string \<Rightarrow> string option \<Rightarrow> nat \<Rightarrow> navigation_options" where
  "navigation_new u ct src = \<lparr> nav_url = u, nav_content_type = ct, source_document = src,
     nav_method = GET, document_resource = BodyEmpty \<rparr>"

definition set_document_resource :: "body \<Rightarrow> navigation_options \<Rightarrow> navigation_options" where
  "set_document_resource b n = n\<lparr>document_resource := b\<rparr>"

definition set_method :: "http_method \<Rightarrow> navigation_options \<Rightarrow> navigation_options" where
  "set_method m n = n\<lparr>nav_method := m\<rparr>"

definition into_request :: "navigation_options \<Rightarrow> request" where
  "into_request n = \<lparr> req_url = nav_url n, req_method = nav_method n, req_content_type = nav_content_type n,
     req_headers = [], req_body = document_resource n, req_signal = None \<rparr>"

end
