(* ===== verification/Dom_Tree.thy ===== *)
theory Dom_Tree
  imports Net_Types
begin

text \<open>
  The node store of \<open>strake-dom\<close>: node ids (\<open>strake-traits/src/node_id.rs\<close>), the node,
  element and document records (\<open>node/node.rs\<close>, \<open>node/element.rs\<close>,
  \<open>node/attributes.rs\<close>, \<open>document.rs\<close>) and the versioned slot map of \<open>tree.rs\<close>, which is
  a partial map here (the \<open>slotmap\<close> crate that allocates the ids is not under \<open>src/\<close>: a
  new id is an argument of the operations that allocate).

  The second half holds the abstract view: a document represents a rose tree of node ids,
  \<open>preorder\<close> is its document order, and \<open>wf_doc\<close> is the well-formedness invariant of the
  store from which the tree view of every live node is derived.
\<close>

section \<open>Node ids\<close>

datatype node_id = NodeId (as_u64: u64)

definition from_u64 :: "u64 \<Rightarrow> node_id" where
  "from_u64 raw = NodeId raw"

definition node_index :: "node_id \<Rightarrow> u32" where
  "node_index i = ucast (as_u64 i)"

definition node_version :: "node_id \<Rightarrow> u32" where
  "node_version i = ucast (drop_bit 32 (as_u64 i))"

definition node_id_cmp :: "node_id \<Rightarrow> node_id \<Rightarrow> ordering" where
  "node_id_cmp a b = ordering_then (cmp_of (node_index a) (node_index b))
                                   (cmp_of (node_version a) (node_version b))"

lemma node_id_eqI:
  assumes "node_index a = node_index b" "node_version a = node_version b"
  shows "a = b"
proof (cases a, cases b)
  fix x y assume a: "a = NodeId x" and b: "b = NodeId y"
  have "x = y"
  proof (rule bit_word_eqI)
    fix n assume n: "n < LENGTH(64)"
    show "bit x n = bit y n"
    proof (cases "n < 32")
      case True
      have "bit (ucast x :: u32) n = bit (ucast y :: u32) n"
        using assms(1) by (simp add: node_index_def a b)
      with True show ?thesis by (simp add: bit_ucast_iff)
    next
      case False
      have "bit (ucast (drop_bit 32 x) :: u32) (n - 32) = bit (ucast (drop_bit 32 y) :: u32) (n - 32)"
        using assms(2) by (simp add: node_version_def a b)
      moreover have "n - 32 < 32" using n by simp
      ultimately show ?thesis using False by (simp add: bit_ucast_iff bit_drop_bit_eq)
    qed
  qed
  then show "a = b" by (simp add: a b)
qed

instantiation node_id :: linorder
begin

definition less_eq_node_id :: "node_id \<Rightarrow> node_id \<Rightarrow> bool" where
  "less_eq_node_id a b \<longleftrightarrow> node_id_cmp a b \<noteq> Greater"

definition less_node_id :: "node_id \<Rightarrow> node_id \<Rightarrow> bool" where
  "less_node_id a b \<longleftrightarrow> node_id_cmp a b = Less"

instance
proof
  fix x y z :: node_id
  have key: "node_id_cmp a b = Less \<longleftrightarrow> node_index a < node_index b
        \<or> node_index a = node_index b \<and> node_version a < node_version b"
    "node_id_cmp a b = Greater \<longleftrightarrow> node_index b < node_index a
        \<or> node_index a = node_index b \<and> node_version b < node_version a" for a b
    by (auto simp: node_id_cmp_def ordering_then_def cmp_of_def)
  show "(x < y) = (x \<le> y \<and> \<not> y \<le> x)"
    by (auto simp: less_node_id_def less_eq_node_id_def key)
  show "x \<le> x" by (simp add: less_eq_node_id_def key)
  show "x \<le> y \<Longrightarrow> y \<le> z \<Longrightarrow> x \<le> z"
    by (auto simp: less_eq_node_id_def key)
  show "x \<le> y \<Longrightarrow> y \<le> x \<Longrightarrow> x = y"
    by (rule node_id_eqI) (auto simp: less_eq_node_id_def key)
  show "x \<le> y \<or> y \<le> x"
    by (auto simp: less_eq_node_id_def key)
qed

end

section \<open>Nodes\<close>

record qual_name =
  qn_prefix :: "string option"
  qn_ns :: string
  qn_local :: string

record attribute =
  attr_name :: qual_name
  attr_value :: string

text \<open>The bits of stylo's \<open>ElementState\<close> that the document sets (the numeric values belong
  to the \<open>stylo_dom\<close> crate, so a state is a set of flags).\<close>
datatype state_flag =
  HOVER | ACTIVE | FOCUS | FOCUSRING | DISABLED | ENABLED | CHECKED | UNVISITED | VISITED

text \<open>What the document reads and writes of stylo's per-element style data.\<close>
record stylo_data =
  damage :: "16 word"
  restyle_subtree :: bool
  restyle_style_attribute :: bool
  has_primary_styles :: bool

text \<open>\<open>RangeInputData\<close>.\<close>
record range_input =
  range_value :: f64
  range_min :: f64
  range_max :: f64
  range_step :: f64

datatype special_element_data =
  SubDocument | CustomWidget | Stylesheet | Image | Canvas u64 | TableRoot
  | TextInput string | CheckboxInput bool | RangeInput range_input | FileInput "string list" | SpecialNone

record element_data =
  el_name :: qual_name
  el_id :: "string option"
  el_attrs :: "attribute list"
  is_focussable :: bool
  special_data :: special_element_data
  template_contents :: "node_id option"
  el_stylo :: "stylo_data option"
  el_state :: "state_flag set"
  el_has_snapshot :: bool
  el_dirty_descendants :: bool
  el_damaged_descendants :: bool
  before :: "node_id option"
  after :: "node_id option"

record document_data =
  dd_stylo :: "stylo_data option"
  dd_state :: "state_flag set"
  dd_has_snapshot :: bool
  dd_dirty_descendants :: bool
  dd_damaged_descendants :: bool
  dd_keyboard_modality :: bool

datatype node_data =
    Document document_data
  | Element element_data
  | AnonymousBlock element_data
  | Text string
  | Comment string

text \<open>\<open>NodeFlags\<close> of \<open>node/node.rs\<close>.\<close>
definition IS_INLINE_ROOT :: u32 where "IS_INLINE_ROOT = 0b001"
definition IS_TABLE_ROOT :: u32 where "IS_TABLE_ROOT = 0b010"
definition IS_IN_DOCUMENT :: u32 where "IS_IN_DOCUMENT = 0b100"

definition is_inline_root :: "u32 \<Rightarrow> bool" where
  "is_inline_root f \<longleftrightarrow> f AND IS_INLINE_ROOT = IS_INLINE_ROOT"

definition is_table_root :: "u32 \<Rightarrow> bool" where
  "is_table_root f \<longleftrightarrow> f AND IS_TABLE_ROOT = IS_TABLE_ROOT"

definition is_in_document :: "u32 \<Rightarrow> bool" where
  "is_in_document f \<longleftrightarrow> f AND IS_IN_DOCUMENT = IS_IN_DOCUMENT"

definition reset_construction_flags :: "u32 \<Rightarrow> u32" where
  "reset_construction_flags f = (f AND NOT IS_INLINE_ROOT) AND NOT IS_TABLE_ROOT"

text \<open>\<open>bitflags::set\<close>.\<close>
definition flags_set :: "u32 \<Rightarrow> u32 \<Rightarrow> bool \<Rightarrow> u32" where
  "flags_set f bit_mask v = (if v then f OR bit_mask else f AND NOT bit_mask)"

record node =
  nid :: node_id
  parent :: "node_id option"
  children :: "node_id list"
  layout_parent :: "node_id option"
  layout_children :: "node_id list option"
  anonymous_blocks :: "node_id list"
  paint_children :: "node_id list option"
  flags :: u32
  data :: node_data

definition node_new :: "node_id \<Rightarrow> node_data \<Rightarrow> node" where
  "node_new i dat = \<lparr> nid = i, parent = None, children = [], layout_parent = None,
     layout_children = None, anonymous_blocks = [], paint_children = None, flags = 0, data = dat \<rparr>"

fun downcast_element :: "node_data \<Rightarrow> element_data option" where
  "downcast_element (Element e) = Some e"
| "downcast_element (AnonymousBlock e) = Some e"
| "downcast_element _ = None"

definition element_data :: "node \<Rightarrow> element_data option" where
  "element_data n = (case data n of Element e \<Rightarrow> Some e | AnonymousBlock e \<Rightarrow> Some e | _ \<Rightarrow> None)"

definition is_element :: "node \<Rightarrow> bool" where
  "is_element n = (case data n of Element _ \<Rightarrow> True | _ \<Rightarrow> False)"

definition is_anonymous :: "node \<Rightarrow> bool" where
  "is_anonymous n = (case data n of AnonymousBlock _ \<Rightarrow> True | _ \<Rightarrow> False)"

definition is_text_node :: "node \<Rightarrow> bool" where
  "is_text_node n = (case data n of Text _ \<Rightarrow> True | _ \<Rightarrow> False)"

definition node_before :: "node \<Rightarrow> node_id option" where
  "node_before n = Option.bind (element_data n) before"

definition node_after :: "node \<Rightarrow> node_id option" where
  "node_after n = Option.bind (element_data n) after"

definition node_is_focussable :: "node \<Rightarrow> bool" where
  "node_is_focussable n = (case downcast_element (data n) of Some e \<Rightarrow> is_focussable e | None \<Rightarrow> False)"

definition index_of_child :: "node \<Rightarrow> node_id \<Rightarrow> nat option" where
  "index_of_child n c = index_of c (children n)"

text \<open>\<open>ElementData::attr\<close>: the first attribute with the local name, whatever its namespace.\<close>
definition el_attr :: "element_data \<Rightarrow> string \<Rightarrow> string option" where
  "el_attr e name = map_option attr_value (List.find (\<lambda>a. qn_local (attr_name a) = name) (el_attrs e))"

definition el_has_attr :: "element_data \<Rightarrow> string \<Rightarrow> bool" where
  "el_has_attr e name = list_ex (\<lambda>a. qn_local (attr_name a) = name) (el_attrs e)"

definition is_element_with_tag_name :: "node_data \<Rightarrow> string \<Rightarrow> bool" where
  "is_element_with_tag_name nd name = (case downcast_element nd of
      None \<Rightarrow> False
    | Some e \<Rightarrow> name = qn_local (el_name e))"

definition data_attr :: "node_data \<Rightarrow> string \<Rightarrow> string option" where
  "data_attr nd name = Option.bind (downcast_element nd) (\<lambda>e. el_attr e name)"

lemma downcast_element_data [simp]: "downcast_element (data n) = element_data n"
  by (cases "data n") (simp_all add: element_data_def)

section \<open>The document\<close>

record selection_endpoint =
  node_or_parent :: "node_id option"
  offset :: nat
  sibling_index :: "nat option"

record text_selection =
  anchor :: selection_endpoint
  focus_end :: selection_endpoint

datatype axis = Horizontal | Vertical

text \<open>\<open>node/scrollbar.rs\<close>: one axis of one scroll container.\<close>
record scrollbar_ref =
  sb_node :: node_id
  sb_axis :: axis

text \<open>\<open>events/pointer.rs\<close>: a touch pan with its recent samples, the drag of a thumb with its last
  position.\<close>
record pan_sample =
  sample_time :: u64
  sample_dx :: f32
  sample_dy :: f32

record pan_state =
  pan_target :: node_id
  pan_last_x :: f32
  pan_last_y :: f32
  allow_x :: bool
  allow_y :: bool
  samples :: "pan_sample list"

datatype drag_mode = DragNone | Selecting | Panning pan_state | ScrollbarDrag scrollbar_ref f32

datatype resize_direction = East | North | NorthEast | NorthWest | South | SouthEast | SouthWest | West

text \<open>Calls to the embedder: the \<open>ShellProvider\<close> and the \<open>MutationHooks\<close> of the document.\<close>
datatype shell_call =
    SetImeEnabled bool
  | SetImeCursorArea node_id
  | RequestRedraw
  | SetCursor
  | SetWindowTitle string
  | SetFullscreen bool
  | SetClipboardText string
  | DragWindow
  | DragResizeWindow resize_direction
  | SetWindowMinimized bool
  | SetWindowMaximized bool
  | RequestWindowClose

text \<open>What leaves the document on an activation: a navigation that is handed to the embedder, or
  a scroll to a node or to the top (the offsets it moves are not part of the model).  And the
  calls of a custom widget's \<open>attribute_changed\<close>: its node, the local name, the old and the new
  value.\<close>
datatype doc_effect = NavigateTo navigation_options | ScrollTo "node_id option"
  | AttributeChanged node_id string "string option" "string option"

datatype mutation_record =
    ChildList node_id "node_id list" "node_id list"
  | Attributes node_id string "string option"
  | CharacterData node_id

datatype hook_call =
    NodeInserted node_id node_id
  | NodeRemoved node_id node_id
  | QueueMutationRecord mutation_record

text \<open>A stylo snapshot: an element's state and attributes as they were before the first
  change since the last style flush.\<close>
record snapshot =
  snap_state :: "state_flag set"
  snap_attrs :: "attribute list option"
  attributes_changed :: bool

text \<open>\<open>allocated\<close> counts the insertions into the slot map and \<open>state_dependencies\<close> holds the
  state bits that the stylist's rules look at.\<close>
record document =
  doc_id :: nat
  doc_url :: string
  nodes :: "node_id \<rightharpoonup> node"
  root_node_id :: node_id
  nodes_to_id :: "string \<rightharpoonup> node_id list"
  controls_to_form :: "node_id \<rightharpoonup> node_id"
  changed_nodes :: "node_id set"
  snapshots :: "node_id \<rightharpoonup> snapshot"
  state_dependencies :: "state_flag set"
  sub_document_nodes :: "node_id set"
  has_canvas :: bool
  allocated :: nat
  hover_node_id :: "node_id option"
  hover_hit_node_id :: "node_id option"
  hover_node_is_text :: bool
  focus_node_id :: "node_id option"
  active_node_id :: "node_id option"
  mousedown_node_id :: "node_id option"
  selection :: text_selection
  last_client_pointer_position :: "(f32 \<times> f32) option"
  last_titlebar_resize :: "resize_direction option"
  highlight_hover :: bool
  titlebar_press_consumed :: bool
  range_drag_node_id :: "node_id option"
  last_mousedown_time :: "nat option"
  mousedown_position :: "f32 \<times> f32"
  click_count :: "16 word"
  hovered_scrollbar :: "scrollbar_ref option"
  drag :: drag_mode
  scrollbar_activity :: "node_id \<rightharpoonup> nat"
  shell_calls :: "shell_call list"
  hook_calls :: "hook_call list"
  doc_effects :: "doc_effect list"

definition get_node :: "document \<Rightarrow> node_id \<Rightarrow> node option" where
  "get_node d i = nodes d i"

definition contains_key :: "document \<Rightarrow> node_id \<Rightarrow> bool" where
  "contains_key d i \<longleftrightarrow> nodes d i \<noteq> None"

text \<open>\<open>self.nodes[id]\<close>: panics on an id that does not resolve.\<close>
definition node_at :: "document \<Rightarrow> node_id \<Rightarrow> node may_panic" where
  "node_at d i = nodes d i"

definition root_node :: "document \<Rightarrow> node may_panic" where
  "root_node d = node_at d (root_node_id d)"

text \<open>\<open>Node::parent_node\<close>: the outer option is the panic of \<open>Node::with\<close>.\<close>
definition parent_node :: "document \<Rightarrow> node \<Rightarrow> node option may_panic" where
  "parent_node d n = (case parent n of None \<Rightarrow> Some None | Some p \<Rightarrow> map_option Some (node_at d p))"

text \<open>\<open>self.nodes[id] = f self.nodes[id]\<close>.\<close>
definition update_node :: "node_id \<Rightarrow> (node \<Rightarrow> node) \<Rightarrow> document \<Rightarrow> document" where
  "update_node i f d = (case nodes d i of None \<Rightarrow> d | Some n \<Rightarrow> d\<lparr>nodes := (nodes d)(i \<mapsto> f n)\<rparr>)"

lemma update_node_nodes:
  "nodes (update_node i f d) = (nodes d)(i := map_option f (nodes d i))"
  by (auto simp: update_node_def split: option.splits)

lemma update_node_apply [simp]:
  "nodes (update_node i f d) j = (if j = i then map_option f (nodes d i) else nodes d j)"
  by (simp add: update_node_nodes)

lemma update_node_fields [simp]:
  "root_node_id (update_node i f d) = root_node_id d"
  "nodes_to_id (update_node i f d) = nodes_to_id d"
  "controls_to_form (update_node i f d) = controls_to_form d"
  "hook_calls (update_node i f d) = hook_calls d"
  "shell_calls (update_node i f d) = shell_calls d"
  "focus_node_id (update_node i f d) = focus_node_id d"
  "hover_node_id (update_node i f d) = hover_node_id d"
  "active_node_id (update_node i f d) = active_node_id d"
  "allocated (update_node i f d) = allocated d"
  "snapshots (update_node i f d) = snapshots d"
  by (auto simp: update_node_def split: option.splits)

end
