(* ===== verification/Dom_Shape.thy ===== *)
theory Dom_Shape
  imports Dom_Tree
begin

text \<open>
  The abstract view of the DOM store.  A rose tree of node ids is what a document means;
  \<open>represents d p t\<close> says that the store \<open>d\<close> holds exactly that tree below the root of
  \<open>t\<close>, whose parent pointer is \<open>p\<close>; \<open>preorder t\<close> is its document order.  \<open>occ R cs us t vs\<close>
  locates the occurrence \<open>t\<close> of a subtree in \<open>R\<close>: \<open>cs\<close> are its ancestors from the root
  down, \<open>us\<close> what precedes it in document order and \<open>vs\<close> what follows its last descendant.
  \<open>wf_doc\<close> is the invariant of the store, stated node by node; it gives the tree view.
\<close>

section \<open>Trees, document order, occurrences\<close>

datatype tree = T (root: node_id) (subtrees: "tree list")

fun preorder :: "tree \<Rightarrow> node_id list" where
  "preorder (T i ts) = i # concat (map preorder ts)"

fun represents :: "document \<Rightarrow> node_id option \<Rightarrow> tree \<Rightarrow> bool" where
  "represents d p (T i ts) = (case nodes d i of
       None \<Rightarrow> False
     | Some n \<Rightarrow> nid n = i \<and> parent n = p \<and> children n = map root ts
                \<and> (\<forall>t\<in>set ts. represents d (Some i) t))"

text \<open>The document tree: the tree below the root node, without repetition.\<close>
definition doc_tree :: "document \<Rightarrow> tree \<Rightarrow> bool" where
  "doc_tree d t \<longleftrightarrow> represents d None t \<and> root t = root_node_id d \<and> distinct (preorder t)"

inductive occ :: "tree \<Rightarrow> node_id list \<Rightarrow> node_id list \<Rightarrow> tree \<Rightarrow> node_id list \<Rightarrow> bool"
  for R :: tree where
  occ_root: "occ R [] [] R []"
| occ_child: "occ R cs us (T p (ls @ t # rs)) vs \<Longrightarrow>
    occ R (cs @ [p]) (us @ p # concat (map preorder ls)) t (concat (map preorder rs) @ vs)"

lemma preorder_root: "preorder t = root t # concat (map preorder (subtrees t))"
  by (cases t) simp

lemma preorder_not_Nil [simp]: "preorder t \<noteq> []"
  by (cases t) simp

lemma hd_preorder [simp]: "hd (preorder t) = root t"
  by (cases t) simp

lemma root_in_preorder [simp]: "root t \<in> set (preorder t)"
  by (cases t) simp

lemma tree_eqI: "T (root t) (subtrees t) = t"
  by simp

lemma represents_node:
  assumes "represents d p t"
  obtains n where "nodes d (root t) = Some n" "nid n = root t" "parent n = p"
    "children n = map root (subtrees t)" "\<forall>s\<in>set (subtrees t). represents d (Some (root t)) s"
  using assms by (cases t) (auto split: option.splits)

lemma occ_preorder: "occ R cs us t vs \<Longrightarrow> preorder R = us @ preorder t @ vs"
  by (induction rule: occ.induct) auto

lemma occ_represents:
  assumes "occ R cs us t vs" "represents d q R"
  shows "represents d (if cs = [] then q else Some (last cs)) t"
  using assms
proof (induction rule: occ.induct)
  case (occ_child cs us p ls t rs vs)
  then show ?case by (auto split: option.splits)
qed simp

lemma occ_exists_aux:
  "j \<in> set (preorder t) \<Longrightarrow> occ R cs us t vs \<Longrightarrow> \<exists>cs us s vs. occ R cs us s vs \<and> root s = j"
proof (induction t arbitrary: cs us vs)
  case (T i ts)
  show ?case
  proof (cases "j = i")
    case True
    with T.prems show ?thesis by force
  next
    case False
    with T.prems(1) obtain s where s: "s \<in> set ts" "j \<in> set (preorder s)" by auto
    then obtain ls rs where ts: "ts = ls @ s # rs" by (metis split_list)
    from T.prems(2) have "occ R (cs @ [i]) (us @ i # concat (map preorder ls)) s
        (concat (map preorder rs) @ vs)"
      unfolding ts by (rule occ_child)
    then show ?thesis by (rule T.IH [OF s])
  qed
qed

lemma occ_exists:
  assumes "j \<in> set (preorder R)"
  obtains cs us s vs where "occ R cs us s vs" "root s = j"
  using occ_exists_aux [OF assms occ_root] by blast

text \<open>The ancestors of an occurrence are the ids on the way down, and each precedes it.\<close>
lemma occ_ancestors_before: "occ R cs us t vs \<Longrightarrow> set cs \<subseteq> set us"
  by (induction rule: occ.induct) auto

lemma occ_distinct:
  assumes "occ R cs us t vs" "distinct (preorder R)"
  shows "distinct (us @ preorder t @ vs)"
  using occ_preorder [OF assms(1)] assms(2) by metis

lemma occ_root_unique_prefix:
  assumes "occ R cs us t vs" "occ R cs' us' t' vs'" "distinct (preorder R)" "root t = root t'"
  shows "us = us'"
proof -
  have "preorder R = us @ root t # (tl (preorder t) @ vs)"
    using occ_preorder [OF assms(1)] by (cases t) simp
  moreover have "preorder R = us' @ root t # (tl (preorder t') @ vs')"
    using occ_preorder [OF assms(2)] assms(4) by (cases t') simp
  ultimately have "us @ root t # (tl (preorder t) @ vs) = us' @ root t # (tl (preorder t') @ vs')"
    "distinct (us @ root t # (tl (preorder t) @ vs))"
    using assms(3) by auto
  then show ?thesis
    by (metis append_Cons_eq_iff distinct.simps(2) distinct_append not_distinct_conv_prefix)
qed

section \<open>The invariant of the store\<close>

definition parent_edges :: "document \<Rightarrow> (node_id \<times> node_id) set" where
  "parent_edges d = {(i, p). \<exists>n. nodes d i = Some n \<and> parent n = Some p}"

text \<open>What one entry of the store must satisfy: its key is its id, its child list has no
  repetition and names live nodes that point back, its parent is live and, unless the node
  is generated by layout, lists it.\<close>
definition wf_node :: "document \<Rightarrow> node_id \<Rightarrow> node \<Rightarrow> bool" where
  "wf_node d i n \<longleftrightarrow> nid n = i \<and> distinct (children n)
     \<and> (\<forall>c\<in>set (children n). \<exists>m. nodes d c = Some m \<and> parent m = Some i)
     \<and> (\<forall>p. parent n = Some p \<longrightarrow>
          (\<exists>m. nodes d p = Some m \<and> (is_anonymous n \<or> i \<in> set (children m))))"

definition wf_doc :: "document \<Rightarrow> bool" where
  "wf_doc d \<longleftrightarrow> finite (dom (nodes d)) \<and> acyclic (parent_edges d)
     \<and> (\<forall>i n. nodes d i = Some n \<longrightarrow> wf_node d i n)
     \<and> (\<exists>n. nodes d (root_node_id d) = Some n \<and> parent n = None)"

lemma wf_doc_node: "wf_doc d \<Longrightarrow> nodes d i = Some n \<Longrightarrow> wf_node d i n"
  by (simp add: wf_doc_def)

lemma parent_edges_single_valued: "single_valued (parent_edges d)"
  by (auto simp: parent_edges_def single_valued_def)

lemma finite_parent_edges:
  assumes "finite (dom (nodes d))" shows "finite (parent_edges d)"
proof -
  have "parent_edges d \<subseteq> (\<lambda>i. (i, the (parent (the (nodes d i))))) ` dom (nodes d)"
    by (force simp: parent_edges_def)
  then show ?thesis using assms by (meson finite_imageI finite_subset)
qed

lemma wf_doc_wf: "wf_doc d \<Longrightarrow> wf (parent_edges d)"
  by (simp add: wf_doc_def finite_parent_edges finite_acyclic_wf)

lemma wf_doc_wf_converse: "wf_doc d \<Longrightarrow> wf ((parent_edges d)\<inverse>)"
  by (simp add: wf_doc_def finite_parent_edges finite_acyclic_wf_converse)

lemma wf_doc_child_edge:
  "wf_doc d \<Longrightarrow> nodes d i = Some n \<Longrightarrow> c \<in> set (children n) \<Longrightarrow> (c, i) \<in> parent_edges d"
  by (auto simp: wf_doc_def wf_node_def parent_edges_def)

text \<open>Every live node of a well-formed store is the root of a tree.\<close>
lemma wf_doc_represents:
  assumes wf: "wf_doc d"
  shows "nodes d i = Some n \<Longrightarrow> \<exists>t. root t = i \<and> represents d (parent n) t"
proof (induction i arbitrary: n rule: wf_induct_rule [OF wf_doc_wf [OF wf]])
  case (1 i)
  have child: "\<exists>t. root t = c \<and> represents d (Some i) t" if c: "c \<in> set (children n)" for c
  proof -
    obtain m where m: "nodes d c = Some m" "parent m = Some i"
      using wf_doc_node [OF wf 1(2)] c by (auto simp: wf_node_def)
    from 1(1) [OF wf_doc_child_edge [OF wf 1(2) c] m(1)] m(2) show ?thesis by simp
  qed
  then obtain f where f: "\<And>c. c \<in> set (children n) \<Longrightarrow> root (f c) = c \<and> represents d (Some i) (f c)"
    by metis
  have "represents d (parent n) (T i (map f (children n)))"
    using wf_doc_node [OF wf 1(2)] f by (auto simp: 1(2) wf_node_def comp_def intro: map_idI [symmetric])
  then show ?case by (metis tree.sel(1))
qed

lemma represents_reaches:
  "represents d p t \<Longrightarrow> j \<in> set (preorder t) \<Longrightarrow> (j, root t) \<in> (parent_edges d)\<^sup>*"
proof (induction t arbitrary: p)
  case (T i ts)
  show ?case
  proof (cases "j = i")
    case False
    with T.prems obtain s where s: "s \<in> set ts" "j \<in> set (preorder s)" "represents d (Some i) s"
      by (auto split: option.splits)
    then have "(j, root s) \<in> (parent_edges d)\<^sup>*" by (metis T.IH)
    moreover have "(root s, i) \<in> parent_edges d"
      using s(3) by (cases s) (auto simp: parent_edges_def split: option.splits)
    ultimately show ?thesis by simp
  qed simp
qed

lemma represents_distinct:
  assumes ac: "acyclic (parent_edges d)" and wf: "\<And>i n. nodes d i = Some n \<Longrightarrow> distinct (children n)"
  shows "represents d p t \<Longrightarrow> distinct (preorder t)"
proof (induction t arbitrary: p)
  case (T i ts)
  let ?r = "parent_edges d"
  from T.prems obtain n where n: "nodes d i = Some n" "children n = map root ts"
    and rep: "\<forall>s\<in>set ts. represents d (Some i) s"
    by (auto split: option.splits)
  have edge: "(root s, i) \<in> ?r" if "s \<in> set ts" for s
    using rep that by (cases s) (auto simp: parent_edges_def split: option.splits)
  have dist: "distinct (map root ts)" using wf [OF n(1)] n(2) by simp
  have no_root: "i \<notin> set (preorder s)" if s: "s \<in> set ts" for s
  proof
    assume "i \<in> set (preorder s)"
    with rep s have "(i, root s) \<in> ?r\<^sup>*" by (metis represents_reaches)
    with edge [OF s] have "(i, i) \<in> ?r\<^sup>+" by simp
    with ac show False by (simp add: acyclic_def)
  qed
  have disj: "set (preorder s) \<inter> set (preorder s') = {}"
    if s: "s \<in> set ts" "s' \<in> set ts" "root s \<noteq> root s'" for s s'
  proof (rule ccontr)
    assume "\<not> ?thesis"
    then obtain j where j: "j \<in> set (preorder s)" "j \<in> set (preorder s')" by auto
    have up: False if a: "(root a, root b) \<in> ?r\<^sup>*" "root a \<noteq> root b" "a \<in> set ts" "b \<in> set ts" for a b
    proof -
      from a obtain z where z: "(root a, z) \<in> ?r" "(z, root b) \<in> ?r\<^sup>*"
        by (metis converse_rtranclE)
      from z(1) edge [OF a(3)] have "z = i"
        by (meson parent_edges_single_valued single_valuedD)
      with z(2) edge [OF a(4)] have "(i, i) \<in> ?r\<^sup>+" by simp
      with ac show False by (simp add: acyclic_def)
    qed
    have "(j, root s) \<in> ?r\<^sup>*" "(j, root s') \<in> ?r\<^sup>*"
      using j rep s by (metis represents_reaches)+
    then have "(root s, root s') \<in> ?r\<^sup>* \<or> (root s', root s) \<in> ?r\<^sup>*"
      by (rule single_valued_confluent [OF parent_edges_single_valued])
    with up s show False by metis
  qed
  have "distinct (concat (map preorder ts))"
    using T.IH rep dist disj
  proof (induction ts)
    case (Cons s ts)
    have "root s \<noteq> root s'" if "s' \<in> set ts" for s'
      using Cons.prems(3) that by (auto simp: image_iff)
    then have "set (preorder s) \<inter> set (preorder s') = {}" if "s' \<in> set ts" for s'
      using Cons.prems(4) [of s s'] that by simp
    then have "set (preorder s) \<inter> (\<Union>x\<in>set ts. set (preorder x)) = {}" by blast
    moreover have "distinct (concat (map preorder ts))"
      by (rule Cons.IH) (use Cons.prems in auto)
    moreover have "distinct (preorder s)"
      using Cons.prems(1) [of s] Cons.prems(2) by auto
    ultimately show ?case by simp
  qed simp
  with no_root show ?case by auto
qed

lemma wf_doc_distinct: "wf_doc d \<Longrightarrow> represents d p t \<Longrightarrow> distinct (preorder t)"
  by (rule represents_distinct [of d]) (auto simp: wf_doc_def wf_node_def)

lemma wf_doc_tree:
  assumes "wf_doc d" obtains t where "doc_tree d t"
proof -
  obtain n where n: "nodes d (root_node_id d) = Some n" "parent n = None"
    using assms by (auto simp: wf_doc_def)
  with wf_doc_represents [OF assms n(1)] obtain t
    where "root t = root_node_id d" "represents d None t" by auto
  with wf_doc_distinct [OF assms, of None t] have "doc_tree d t" by (simp add: doc_tree_def)
  then show ?thesis by (rule that)
qed

end
