(* ===== verification/Dom_Traversal.thy ===== *)
theory Dom_Traversal
  imports Dom_Shape
begin

text \<open>
  \<open>strake-dom/src/traversal.rs\<close>, \<open>query_selector.rs\<close> (lookup by id) and the searches of
  \<open>document.rs\<close> that walk the tree.

  Every loop of the source that is not bounded by a list is a \<open>partial_function\<close>: \<open>None\<close> is
  a panic (an id that does not resolve is indexed) or a loop that does not return.  A stack
  \<open>Vec\<close> is a list whose head is the end of the vector, so \<open>pop\<close> takes the head and
  \<open>extend(children.iter().rev())\<close> prepends the children in order.
\<close>

section \<open>Definitions\<close>

subsection \<open>Iterators\<close>

definition tt_new_with_root :: "node_id \<Rightarrow> node_id list" where
  "tt_new_with_root i = [i]"

definition tt_new :: "document \<Rightarrow> node_id list may_panic" where
  "tt_new d = map_option (\<lambda>n. tt_new_with_root (nid n)) (root_node d)"

fun tt_next :: "document \<Rightarrow> node_id list \<Rightarrow> node_id option \<times> node_id list" where
  "tt_next d [] = (None, [])"
| "tt_next d (i # stk) = (case get_node d i of
      None \<Rightarrow> (None, stk)
    | Some n \<Rightarrow> (Some i, children n @ stk))"

text \<open>Exhausting the traverser (a \<open>for\<close> loop, \<open>collect\<close>).\<close>
partial_function (option) tt_collect :: "document \<Rightarrow> node_id list \<Rightarrow> node_id list option" where
  "tt_collect d stk = (case tt_next d stk of
      (None, _) \<Rightarrow> Some []
    | (Some i, stk') \<Rightarrow> do { r \<leftarrow> tt_collect d stk'; Some (i # r) })"

declare tt_collect.simps [code]

definition at_next :: "document \<Rightarrow> node_id \<Rightarrow> node_id option \<times> node_id" where
  "at_next d cur = (case get_node d cur of
      None \<Rightarrow> (None, cur)
    | Some n \<Rightarrow> (case parent n of None \<Rightarrow> (None, cur) | Some p \<Rightarrow> (Some p, p)))"

partial_function (option) at_collect :: "document \<Rightarrow> node_id \<Rightarrow> node_id list option" where
  "at_collect d cur = (case at_next d cur of
      (None, _) \<Rightarrow> Some []
    | (Some i, cur') \<Rightarrow> do { r \<leftarrow> at_collect d cur'; Some (i # r) })"

declare at_collect.simps [code]

text \<open>\<open>ids.filter(|id| P(self.nodes[*id]))\<close>.\<close>
fun index_filter :: "document \<Rightarrow> (node \<Rightarrow> bool) \<Rightarrow> node_id list \<Rightarrow> node_id list may_panic" where
  "index_filter d P [] = Some []"
| "index_filter d P (i # is) = do {
      n \<leftarrow> node_at d i;
      r \<leftarrow> index_filter d P is;
      Some (if P n then i # r else r) }"

definition node_chain :: "document \<Rightarrow> node_id \<Rightarrow> node_id list may_panic" where
  "node_chain d i = do {
      ancs \<leftarrow> at_collect d i;
      es \<leftarrow> index_filter d is_element ancs;
      Some (i # es) }"

fun index_all :: "document \<Rightarrow> node_id list \<Rightarrow> (node_id \<times> node) list may_panic" where
  "index_all d [] = Some []"
| "index_all d (i # is) = do { n \<leftarrow> node_at d i; r \<leftarrow> index_all d is; Some ((i, n) # r) }"

text \<open>The pairs \<open>visit\<close> is called on, in order.\<close>
definition visit :: "document \<Rightarrow> (node_id \<times> node) list may_panic" where
  "visit d = do { stk \<leftarrow> tt_new d; ids \<leftarrow> tt_collect d stk; index_all d ids }"

partial_function (option) non_anon_ancestor_if_anon :: "document \<Rightarrow> node_id \<Rightarrow> node_id option" where
  "non_anon_ancestor_if_anon d i = do {
      n \<leftarrow> node_at d i;
      if \<not> is_anonymous n then Some (nid n)
      else (case layout_parent n of
          None \<Rightarrow> None
        | Some p \<Rightarrow> non_anon_ancestor_if_anon d p) }"

declare non_anon_ancestor_if_anon.simps [code]

subsection \<open>Next and previous node in document order\<close>

text \<open>One turn of the loop: the node to test next (\<open>Inl\<close>), or the parent to continue from
  without looking at its children (\<open>Inr\<close>, the \<open>continue\<close> of the source).\<close>
definition next_candidate :: "document \<Rightarrow> node \<Rightarrow> bool \<Rightarrow> (node_id + node) may_panic" where
  "next_candidate d n look_in_children =
    (if look_in_children \<and> children n \<noteq> [] then Some (Inl (hd (children n)))
     else do {
       pn \<leftarrow> parent_node d n;
       (case pn of
          Some p \<Rightarrow> do {
            self_idx \<leftarrow> index_of (nid n) (children p);
            Some (if Suc self_idx < length (children p)
                  then Inl (children p ! Suc self_idx)
                  else Inr p) }
        | None \<Rightarrow> Some (Inl (root_node_id d))) })"

text \<open>The value is \<open>Some None\<close> when the search comes back to the start without a match.\<close>
partial_function (option) next_node_loop ::
    "document \<Rightarrow> node_id \<Rightarrow> (node \<Rightarrow> bool) \<Rightarrow> node \<Rightarrow> bool \<Rightarrow> node_id option option" where
  "next_node_loop d start_id filt n look_in_children = do {
      cand \<leftarrow> next_candidate d n look_in_children;
      (case cand of
         Inr p \<Rightarrow> next_node_loop d start_id filt p False
       | Inl next_id \<Rightarrow> do {
           next \<leftarrow> node_at d next_id;
           if filt next then Some (Some (nid next))
           else if nid next = start_id then Some None
           else next_node_loop d start_id filt next True }) }"

declare next_node_loop.simps [code]

definition next_node :: "document \<Rightarrow> node \<Rightarrow> (node \<Rightarrow> bool) \<Rightarrow> node_id option option" where
  "next_node d start filt = next_node_loop d (nid start) filt start True"

partial_function (option) deepest_last_descendant :: "document \<Rightarrow> node \<Rightarrow> node option" where
  "deepest_last_descendant d n =
    (if children n = [] then Some n
     else do { c \<leftarrow> node_at d (last (children n)); deepest_last_descendant d c })"

declare deepest_last_descendant.simps [code]

definition prev_step :: "document \<Rightarrow> node \<Rightarrow> node option" where
  "prev_step d n = do {
      pn \<leftarrow> parent_node d n;
      (case pn of
         Some p \<Rightarrow> do {
           self_idx \<leftarrow> index_of (nid n) (children p);
           if 0 < self_idx
           then do { s \<leftarrow> node_at d (children p ! (self_idx - 1)); deepest_last_descendant d s }
           else Some p }
       | None \<Rightarrow> do { r \<leftarrow> root_node d; deepest_last_descendant d r }) }"

partial_function (option) prev_node_loop ::
    "document \<Rightarrow> node_id \<Rightarrow> (node \<Rightarrow> bool) \<Rightarrow> node \<Rightarrow> node_id option option" where
  "prev_node_loop d start_id filt n = do {
      prev \<leftarrow> prev_step d n;
      if filt prev then Some (Some (nid prev))
      else if nid prev = start_id then Some None
      else prev_node_loop d start_id filt prev }"

declare prev_node_loop.simps [code]

definition prev_node :: "document \<Rightarrow> node \<Rightarrow> (node \<Rightarrow> bool) \<Rightarrow> node_id option option" where
  "prev_node d start filt = prev_node_loop d (nid start) filt start"

subsection \<open>Ancestors and document order\<close>

partial_function (option) layout_ancestors_up ::
    "document \<Rightarrow> node_id option \<Rightarrow> node_id list option" where
  "layout_ancestors_up d maybe_id = (case maybe_id of
      None \<Rightarrow> Some []
    | Some i \<Rightarrow> do { n \<leftarrow> node_at d i; r \<leftarrow> layout_ancestors_up d (layout_parent n); Some (i # r) })"

declare layout_ancestors_up.simps [code]

definition node_layout_ancestors :: "document \<Rightarrow> node_id \<Rightarrow> node_id list may_panic" where
  "node_layout_ancestors d i = map_option rev (layout_ancestors_up d (Some i))"

definition maybe_node_layout_ancestors :: "document \<Rightarrow> node_id option \<Rightarrow> node_id list may_panic" where
  "maybe_node_layout_ancestors d i = (case i of None \<Rightarrow> Some [] | Some j \<Rightarrow> node_layout_ancestors d j)"

partial_function (option) ancestors_up :: "document \<Rightarrow> node_id option \<Rightarrow> node_id list option" where
  "ancestors_up d current = (case current of
      None \<Rightarrow> Some []
    | Some i \<Rightarrow> do { n \<leftarrow> node_at d i; r \<leftarrow> ancestors_up d (parent n); Some (i # r) })"

declare ancestors_up.simps [code]

definition ancestor_chain_from_root :: "document \<Rightarrow> node_id \<Rightarrow> node_id list may_panic" where
  "ancestor_chain_from_root d i = map_option rev (ancestors_up d (Some i))"

fun common_depth :: "node_id list \<Rightarrow> node_id list \<Rightarrow> nat" where
  "common_depth (a # as) (b # bs) = (if a \<noteq> b then 0 else Suc (common_depth as bs))"
| "common_depth _ _ = 0"

text \<open>The loop over the children of the parent where the chains part.\<close>
fun first_among :: "node_id list \<Rightarrow> node_id \<Rightarrow> node_id \<Rightarrow> ordering" where
  "first_among [] a b = Equal"
| "first_among (c # cs) a b = (if c = a then Less else if c = b then Greater else first_among cs a b)"

definition compare_document_order :: "document \<Rightarrow> node_id \<Rightarrow> node_id \<Rightarrow> ordering may_panic" where
  "compare_document_order d a b =
    (if a = b then Some Equal
     else do {
       chain_a \<leftarrow> ancestor_chain_from_root d a;
       chain_b \<leftarrow> ancestor_chain_from_root d b;
       let depth = common_depth chain_a chain_b;
       if depth = length chain_a then Some Less
       else if depth = length chain_b then Some Greater
       else if depth = 0 then None
       else do {
         p \<leftarrow> node_at d (chain_a ! (depth - 1));
         Some (first_among (children p) (chain_a ! depth) (chain_b ! depth)) } })"

partial_function (option) is_ancestor_of :: "document \<Rightarrow> node_id \<Rightarrow> node_id \<Rightarrow> bool option" where
  "is_ancestor_of d ancestor_id current = do {
      n \<leftarrow> node_at d current;
      (case parent n of
         None \<Rightarrow> Some False
       | Some p \<Rightarrow> if p = ancestor_id then Some True else is_ancestor_of d ancestor_id p) }"

declare is_ancestor_of.simps [code]

text \<open>\<open>document.rs\<close>: \<open>nearest_non_anonymous_ancestor\<close>; the inner option is the source's.\<close>
partial_function (option) nna_loop :: "document \<Rightarrow> node \<Rightarrow> node_id option option" where
  "nna_loop d n = (case parent n of
      None \<Rightarrow> Some (Some (nid n))
    | Some p \<Rightarrow> (case get_node d p of
        None \<Rightarrow> Some None
      | Some pn \<Rightarrow> if \<not> is_anonymous n \<and> \<not> is_anonymous pn then Some (Some (nid n))
                   else nna_loop d pn))"

declare nna_loop.simps [code]

definition nearest_non_anonymous_ancestor :: "document \<Rightarrow> node_id \<Rightarrow> node_id option option" where
  "nearest_non_anonymous_ancestor d i = (case get_node d i of
      None \<Rightarrow> Some None
    | Some n \<Rightarrow> nna_loop d n)"

subsection \<open>Lookup by id\<close>

partial_function (option) first_in_tree_order ::
    "document \<Rightarrow> node_id list \<Rightarrow> node_id list \<Rightarrow> node_id option option" where
  "first_in_tree_order d candidates stk = (case stk of
      [] \<Rightarrow> Some None
    | i # stk' \<Rightarrow> if i \<in> set candidates then Some (Some i)
        else do { n \<leftarrow> node_at d i; first_in_tree_order d candidates (children n @ stk') })"

declare first_in_tree_order.simps [code]

definition get_element_by_id :: "document \<Rightarrow> string \<Rightarrow> node_id option option" where
  "get_element_by_id d s = (case nodes_to_id d s of
      None \<Rightarrow> Some None
    | Some [] \<Rightarrow> Some None
    | Some [i] \<Rightarrow> Some (Some i)
    | Some candidates \<Rightarrow> first_in_tree_order d candidates [root_node_id d])"

definition add_to_id_map :: "string \<Rightarrow> node_id \<Rightarrow> document \<Rightarrow> document" where
  "add_to_id_map s i d = (if s = [] then d
     else let ids = (case nodes_to_id d s of None \<Rightarrow> [] | Some l \<Rightarrow> l) in
       d\<lparr>nodes_to_id := (nodes_to_id d)(s \<mapsto> (if i \<in> set ids then ids else ids @ [i]))\<rparr>)"

definition remove_from_id_map :: "string \<Rightarrow> node_id \<Rightarrow> document \<Rightarrow> document" where
  "remove_from_id_map s i d = (case nodes_to_id d s of
      None \<Rightarrow> d
    | Some ids \<Rightarrow> (let ids' = filter (\<lambda>j. j \<noteq> i) ids in
        d\<lparr>nodes_to_id := (nodes_to_id d)(s := if ids' = [] then None else Some ids')\<rparr>))"

text \<open>The first id the traverser yields on which \<open>P\<close> holds (\<open>filter_map(..).next()\<close>).\<close>
partial_function (option) tt_find ::
    "document \<Rightarrow> (node_id \<Rightarrow> bool) \<Rightarrow> node_id list \<Rightarrow> node_id option option" where
  "tt_find d P stk = (case tt_next d stk of
      (None, _) \<Rightarrow> Some None
    | (Some i, stk') \<Rightarrow> if P i then Some (Some i) else tt_find d P stk')"

declare tt_find.simps [code]

definition is_input_node :: "document \<Rightarrow> node_id \<Rightarrow> bool" where
  "is_input_node d i = (case Option.bind (get_node d i) element_data of
      None \<Rightarrow> False
    | Some e \<Rightarrow> qn_local (el_name e) = ''input'')"

text \<open>The node the source returns is named by its id.\<close>
definition label_bound_input_element :: "document \<Rightarrow> node_id \<Rightarrow> node_id option option" where
  "label_bound_input_element d label_id = do {
      ln \<leftarrow> node_at d label_id;
      (case element_data ln of
         None \<Rightarrow> Some None
       | Some label_el \<Rightarrow> (case el_attr label_el ''for'' of
           Some target \<Rightarrow> do {
             stk \<leftarrow> tt_new d;
             tt_find d (\<lambda>i. is_input_node d i
               \<and> Option.bind (Option.bind (get_node d i) element_data) el_id = Some target) stk }
         | None \<Rightarrow> tt_find d (is_input_node d) (tt_new_with_root label_id))) }"

subsection \<open>Inline roots in a range\<close>

text \<open>\<open>resolve_for_traversal\<close>: an anonymous block stands behind its parent.\<close>
definition resolve_for_traversal :: "document \<Rightarrow> node_id \<Rightarrow> (node_id \<times> node_id option) may_panic" where
  "resolve_for_traversal d i = do {
      n \<leftarrow> node_at d i;
      Some (if is_anonymous n
            then ((case parent n of None \<Rightarrow> i | Some p \<Rightarrow> p), Some i)
            else (i, None)) }"

text \<open>The loop over a list of layout children that collects an inline root and descends into
  a block container; \<open>result\<close> is the vector that is pushed to.\<close>
partial_function (option) collect_inline_roots_of ::
    "document \<Rightarrow> node_id list \<Rightarrow> node_id list \<Rightarrow> node_id list option" where
  "collect_inline_roots_of d cs result = (case cs of
      [] \<Rightarrow> Some result
    | c # cs' \<Rightarrow> do {
        child \<leftarrow> node_at d c;
        result' \<leftarrow> (if is_inline_root (flags child) then Some (result @ [c])
                    else (case layout_children child of
                        None \<Rightarrow> Some result
                      | Some ks \<Rightarrow> collect_inline_roots_of d ks result));
        collect_inline_roots_of d cs' result' })"

declare collect_inline_roots_of.simps [code]

definition collect_all_inline_roots_in_subtree ::
    "document \<Rightarrow> node_id \<Rightarrow> node_id list \<Rightarrow> node_id list may_panic" where
  "collect_all_inline_roots_in_subtree d i result = do {
      n \<leftarrow> node_at d i;
      (case layout_children n of
         None \<Rightarrow> Some result
       | Some cs \<Rightarrow> collect_inline_roots_of d cs result) }"

definition collect_anonymous_siblings ::
    "document \<Rightarrow> node_id \<Rightarrow> node_id \<Rightarrow> node_id \<Rightarrow> node_id list may_panic" where
  "collect_anonymous_siblings d parent_id start end_id = do {
      p \<leftarrow> node_at d parent_id;
      (case layout_children p of
         None \<Rightarrow> Some []
       | Some cs \<Rightarrow> (case (index_of start cs, index_of end_id cs) of
           (Some s, Some e) \<Rightarrow>
             let first_idx = min s e; last_idx = max s e in
             collect_inline_roots_of d (take (Suc last_idx - first_idx) (drop first_idx cs)) []
         | _ \<Rightarrow> Some [])) }"

text \<open>The loop of \<open>collect_layout_children_inline_roots\<close>.\<close>
fun layout_children_loop :: "document \<Rightarrow> node_id option \<Rightarrow> node_id option \<Rightarrow> bool
    \<Rightarrow> node_id list \<Rightarrow> node_id list \<Rightarrow> node_id list may_panic" where
  "layout_children_loop d from_id until_id collecting [] result = Some result"
| "layout_children_loop d from_id until_id collecting (c # cs) result =
    (let collecting' = (collecting \<or> from_id = Some c) in
     if \<not> collecting' then layout_children_loop d from_id until_id collecting' cs result
     else do {
       stop \<leftarrow> (case until_id of None \<Rightarrow> Some False | Some u \<Rightarrow> is_ancestor_of d c u);
       if stop \<or> until_id = Some c then Some result
       else do {
         child \<leftarrow> node_at d c;
         result' \<leftarrow> (if is_inline_root (flags child) then Some (result @ [c])
                     else collect_all_inline_roots_in_subtree d c result);
         layout_children_loop d from_id until_id collecting' cs result' } })"

definition collect_layout_children_inline_roots :: "document \<Rightarrow> node_id \<Rightarrow> node_id option
    \<Rightarrow> node_id option \<Rightarrow> node_id list \<Rightarrow> node_id list may_panic" where
  "collect_layout_children_inline_roots d parent_id from_id until_id result = do {
      p \<leftarrow> node_at d parent_id;
      (case layout_children p of
         None \<Rightarrow> Some result
       | Some cs \<Rightarrow> layout_children_loop d from_id until_id (from_id = None) cs result) }"

text \<open>The body of the traversal loop for a node after the first anchor has been found: the
  extended result, and whether to leave the loop.\<close>
definition range_body :: "document \<Rightarrow> node_id \<Rightarrow> node_id option \<Rightarrow> node_id \<Rightarrow> node_id list
    \<Rightarrow> (node_id list \<times> bool) may_panic" where
  "range_body d last_anchor last_anon i result =
    (if i = last_anchor then
       (case last_anon of
          Some anon \<Rightarrow> do {
            r \<leftarrow> collect_layout_children_inline_roots d i None (Some anon) result;
            Some (if anon \<in> set r then r else r @ [anon], True) }
        | None \<Rightarrow> do {
            n \<leftarrow> node_at d i;
            Some (if is_inline_root (flags n) \<and> i \<notin> set result then result @ [i] else result, True) })
     else do {
       n \<leftarrow> node_at d i;
       if is_inline_root (flags n) \<and> i \<notin> set result then Some (result @ [i], False)
       else do {
         r \<leftarrow> collect_layout_children_inline_roots d i None (Some last_anchor) result;
         Some (r, False) } })"

text \<open>\<open>result.last() == Some(&x)\<close>.\<close>
definition last_is :: "node_id list \<Rightarrow> node_id \<Rightarrow> bool" where
  "last_is xs x \<longleftrightarrow> xs \<noteq> [] \<and> last xs = x"

partial_function (option) range_loop :: "document \<Rightarrow> node_id \<Rightarrow> node_id option \<Rightarrow> node_id \<Rightarrow> node_id option
    \<Rightarrow> bool \<Rightarrow> node_id list \<Rightarrow> node_id list \<Rightarrow> node_id list option" where
  "range_loop d first_anchor first_anon last_anchor last_anon found_first stk result =
    (case tt_next d stk of
       (None, _) \<Rightarrow> Some result
     | (Some i, stk') \<Rightarrow>
         if \<not> found_first \<and> i \<noteq> first_anchor then
           range_loop d first_anchor first_anon last_anchor last_anon False stk' result
         else if \<not> found_first \<and> first_anon \<noteq> None then do {
           r \<leftarrow> collect_layout_children_inline_roots d i first_anon
                  (if first_anchor = last_anchor then last_anon else Some last_anchor) result;
           if last_is r last_anchor \<or> (\<exists>la \<in> set_option last_anon. last_is r la) then Some r
           else range_loop d first_anchor first_anon last_anchor last_anon True stk' r }
         else do {
           (r, brk) \<leftarrow> range_body d last_anchor last_anon i result;
           if brk then Some r
           else range_loop d first_anchor first_anon last_anchor last_anon True stk' r })"

declare range_loop.simps [code]

definition collect_inline_roots_in_range ::
    "document \<Rightarrow> node_id \<Rightarrow> node_id \<Rightarrow> node_id list may_panic" where
  "collect_inline_roots_in_range d start_node end_node = do {
      (start_anchor, start_anon) \<leftarrow> resolve_for_traversal d start_node;
      (end_anchor, end_anon) \<leftarrow> resolve_for_traversal d end_node;
      if start_anon \<noteq> None \<and> end_anon \<noteq> None \<and> start_anchor = end_anchor
      then collect_anonymous_siblings d start_anchor start_node end_node
      else do {
        ord \<leftarrow> compare_document_order d start_anchor end_anchor;
        stk \<leftarrow> tt_new d;
        (if ord = Greater
         then range_loop d end_anchor end_anon start_anchor start_anon False stk []
         else range_loop d start_anchor start_anon end_anchor end_anon False stk []) } }"

end
