(* ===== verification/Dom_Order.thy ===== *)
theory Dom_Order
  imports Dom_Traversal
begin

text \<open>
  The traversals of \<open>Dom_Traversal\<close> against the tree a document represents: the iterators
  enumerate document order, the searches forward and backward are searches of the rotated
  preorder, document order is decided from the ancestor chains, and lookup by id finds the
  first match in document order.  Every theorem also states that the code returns (its
  result is \<open>Some\<close>).
\<close>

section \<open>One step of each walk\<close>

lemma node_at_simp [dom_simps]: "node_at d i = nodes d i"
  by (simp add: node_at_def)

lemma get_node_simp [dom_simps]: "get_node d i = nodes d i"
  by (simp add: get_node_def)

lemma tt_collect_Nil [simp]: "tt_collect d [] = Some []"
  by (simp add: tt_collect.simps)

lemma tt_collect_Cons [dom_simps]:
  "nodes d i = Some n \<Longrightarrow>
   tt_collect d (i # stk) = map_option ((#) i) (tt_collect d (children n @ stk))"
  by (subst tt_collect.simps) (auto simp: get_node_simp map_option_case bind_eq_Some_conv
      split: option.splits)

lemma tt_find_Nil [simp]: "tt_find d P [] = Some None"
  by (simp add: tt_find.simps)

lemma tt_find_Cons [dom_simps]:
  "nodes d i = Some n \<Longrightarrow>
   tt_find d P (i # stk) = (if P i then Some (Some i) else tt_find d P (children n @ stk))"
  by (subst tt_find.simps) (simp add: get_node_simp)

lemma first_in_tree_order_Nil [simp]: "first_in_tree_order d C [] = Some None"
  by (simp add: first_in_tree_order.simps)

lemma first_in_tree_order_Cons [dom_simps]:
  "nodes d i = Some n \<Longrightarrow> first_in_tree_order d C (i # stk) =
     (if i \<in> set C then Some (Some i) else first_in_tree_order d C (children n @ stk))"
  by (subst first_in_tree_order.simps) (simp add: node_at_simp)

lemma ancestors_up_None [simp]: "ancestors_up d None = Some []"
  by (simp add: ancestors_up.simps)

lemma ancestors_up_Some [dom_simps]:
  "nodes d i = Some n \<Longrightarrow> ancestors_up d (Some i) = map_option ((#) i) (ancestors_up d (parent n))"
  by (subst ancestors_up.simps) (auto simp: node_at_simp map_option_case split: option.splits)

section \<open>The preorder iterators\<close>

lemma tt_collect_tree:
  "represents d p t \<Longrightarrow>
   tt_collect d (root t # stk) = map_option (\<lambda>r. preorder t @ r) (tt_collect d stk)"
proof (induction t arbitrary: p stk)
  case (T i ts)
  from T.prems obtain n where n: "nodes d i = Some n" "children n = map root ts"
    "\<forall>s\<in>set ts. represents d (Some i) s" by (auto split: option.splits)
  have "tt_collect d (map root us @ stk) =
      map_option (\<lambda>r. concat (map preorder us) @ r) (tt_collect d stk)" if "set us \<subseteq> set ts" for us
    using that
  proof (induction us)
    case Nil
    then show ?case by (simp add: option.map_ident)
  next
    case (Cons u us)
    then have "represents d (Some i) u" using n(3) by auto
    with Cons T.IH [of u "Some i" "map root us @ stk"] show ?case
      by (simp add: option.map_comp comp_def)
  qed
  then show ?case by (simp add: tt_collect_Cons n option.map_comp comp_def)
qed

lemma tt_collect_doc_tree:
  "represents d p t \<Longrightarrow> tt_collect d (tt_new_with_root (root t)) = Some (preorder t)"
  using tt_collect_tree [of d p t "[]"] by (simp add: tt_new_with_root_def)

lemma tt_find_tree:
  "represents d p t \<Longrightarrow> tt_find d P (root t # stk) =
     (case List.find P (preorder t) of Some i \<Rightarrow> Some (Some i) | None \<Rightarrow> tt_find d P stk)"
proof (induction t arbitrary: p stk)
  case (T i ts)
  from T.prems obtain n where n: "nodes d i = Some n" "children n = map root ts"
    "\<forall>s\<in>set ts. represents d (Some i) s" by (auto split: option.splits)
  have "tt_find d P (map root us @ stk) =
      (case List.find P (concat (map preorder us)) of Some i \<Rightarrow> Some (Some i) | None \<Rightarrow> tt_find d P stk)"
    if "set us \<subseteq> set ts" for us
    using that
  proof (induction us)
    case (Cons u us)
    then have "represents d (Some i) u" using n(3) by auto
    with Cons T.IH [of u "Some i" "map root us @ stk"] show ?case
      by (simp add: find_append split: option.splits)
  qed simp
  then show ?case by (simp add: tt_find_Cons n)
qed

lemma first_in_tree_order_tree:
  "represents d p t \<Longrightarrow> first_in_tree_order d C (root t # stk) =
     (case List.find (\<lambda>i. i \<in> set C) (preorder t) of
        Some i \<Rightarrow> Some (Some i) | None \<Rightarrow> first_in_tree_order d C stk)"
proof (induction t arbitrary: p stk)
  case (T i ts)
  from T.prems obtain n where n: "nodes d i = Some n" "children n = map root ts"
    "\<forall>s\<in>set ts. represents d (Some i) s" by (auto split: option.splits)
  have "first_in_tree_order d C (map root us @ stk) =
      (case List.find (\<lambda>i. i \<in> set C) (concat (map preorder us)) of
         Some i \<Rightarrow> Some (Some i) | None \<Rightarrow> first_in_tree_order d C stk)"
    if "set us \<subseteq> set ts" for us
    using that
  proof (induction us)
    case (Cons u us)
    then have "represents d (Some i) u" using n(3) by auto
    with Cons T.IH [of u "Some i" "map root us @ stk"] show ?case
      by (simp add: find_append split: option.splits)
  qed simp
  then show ?case by (simp add: first_in_tree_order_Cons n)
qed

section \<open>Document trees\<close>

lemma doc_tree_live:
  assumes "doc_tree d R" "i \<in> set (preorder R)"
  obtains n where "nodes d i = Some n" "nid n = i"
proof -
  from assms(2) obtain cs us s vs where o: "occ R cs us s vs" "root s = i"
    by (rule occ_exists)
  from occ_represents [OF o(1), of d None] assms(1)
  have "represents d (if cs = [] then None else Some (last cs)) s" by (simp add: doc_tree_def)
  with o(2) show ?thesis by (metis represents_node that)
qed

text \<open>An occurrence that is not the whole tree, with its parent's entry in the store.\<close>
lemma occ_child_node:
  assumes "occ R cs us (T p (ls @ t # rs)) vs" "doc_tree d R" "nodes d (root t) = Some n"
  obtains pn where "nodes d p = Some pn" "children pn = map root ls @ root t # map root rs"
    "parent n = Some p" "nid n = root t" "nid pn = p" "root t \<notin> set (map root ls)"
proof -
  have "represents d (if cs = [] then None else Some (last cs)) (T p (ls @ t # rs))"
    using occ_represents [OF assms(1)] assms(2) by (simp add: doc_tree_def)
  then obtain pn where pn: "nodes d p = Some pn" "children pn = map root ls @ root t # map root rs"
    "nid pn = p" "represents d (Some p) t" by (auto split: option.splits)
  from represents_node [OF pn(4)] assms(3) have "parent n = Some p" "nid n = root t" by auto
  moreover have "root t \<notin> set (map root ls)"
  proof
    assume "root t \<in> set (map root ls)"
    then obtain l where "l \<in> set ls" "root t \<in> set (preorder l)" by (metis imageE list.set_map root_in_preorder)
    moreover have "distinct (preorder (T p (ls @ t # rs)))"
      using occ_distinct [OF assms(1)] assms(2) unfolding doc_tree_def by (metis distinct_append)
    ultimately show False by auto
  qed
  ultimately show ?thesis using pn that by blast
qed

lemma occ_root_node:
  assumes "doc_tree d R" "nodes d (root R) = Some n"
  shows "parent n = None" "nid n = root R" "root_node_id d = root R"
  using assms by (auto simp: doc_tree_def elim!: represents_node)

section \<open>Forward search\<close>

text \<open>Testing a node and going on from it: the tail of the loop body.\<close>
definition next_visit :: "document \<Rightarrow> node_id \<Rightarrow> (node \<Rightarrow> bool) \<Rightarrow> node_id \<Rightarrow> node_id option option" where
  "next_visit d s filt i = do {
      next \<leftarrow> node_at d i;
      if filt next then Some (Some (nid next))
      else if nid next = s then Some None
      else next_node_loop d s filt next True }"

lemma next_node_loop_unfold:
  "next_node_loop d s filt n b = do {
      cand \<leftarrow> next_candidate d n b;
      (case cand of Inr p \<Rightarrow> next_node_loop d s filt p False | Inl i \<Rightarrow> next_visit d s filt i) }"
  by (subst next_node_loop.simps) (simp add: next_visit_def [abs_def])

lemma next_candidate_climb:
  assumes "occ R cs us (T p (ls @ t # rs)) vs" "doc_tree d R" "nodes d (root t) = Some n"
    and "\<not> (b \<and> children n \<noteq> [])"
  obtains pn where "nodes d p = Some pn" "nid pn = p"
    "next_candidate d n b = Some (if rs = [] then Inr pn else Inl (root (hd rs)))"
proof -
  from occ_child_node [OF assms(1-3)] obtain pn where
    pn: "nodes d p = Some pn" "children pn = map root ls @ root t # map root rs"
      "parent n = Some p" "nid n = root t" "nid pn = p" "root t \<notin> set (map root ls)" by blast
  have "parent_node d n = Some (Some pn)" by (simp add: parent_node_def pn node_at_simp)
  moreover have "index_of (nid n) (children pn) = Some (length ls)"
    using pn(6) index_of_append_notin [of "root t" "map root ls" "map root rs"] by (simp add: pn(2,4))
  ultimately have "next_candidate d n b = Some (if rs = [] then Inr pn else Inl (root (hd rs)))"
    unfolding next_candidate_def if_not_P [OF assms(4)]
    by (cases rs) (simp_all add: pn(2) nth_append)
  with pn(1,5) show ?thesis by (rule that)
qed

lemma next_node_climb:
  "occ R cs us t vs \<Longrightarrow> doc_tree d R \<Longrightarrow> nodes d (root t) = Some n \<Longrightarrow>
   next_node_loop d s filt n False = next_visit d s filt (hd (vs @ [root R]))"
proof (induction arbitrary: n rule: occ.induct)
  case occ_root
  with occ_root_node [of d R n] show ?case
    by (subst next_node_loop_unfold) (simp add: next_candidate_def parent_node_def)
next
  case (occ_child cs us p ls t rs vs)
  obtain pn where pn: "nodes d p = Some pn" "nid pn = p"
    "next_candidate d n False = Some (if rs = [] then Inr pn else Inl (root (hd rs)))"
    using next_candidate_climb [OF occ_child.hyps occ_child.prems, of False] by blast
  show ?case
  proof (cases rs)
    case Nil
    with occ_child.IH [of pn] occ_child.prems(1) pn(1) show ?thesis
      by (subst next_node_loop_unfold) (simp add: pn(3))
  next
    case (Cons r rs')
    then show ?thesis by (subst next_node_loop_unfold) (cases r; simp add: pn(3))
  qed
qed

lemma next_node_step_occ:
  assumes "occ R cs us t vs" "doc_tree d R" "nodes d (root t) = Some n"
  shows "next_node_loop d s filt n True = next_visit d s filt (hd (tl (preorder t) @ vs @ [root R]))"
proof -
  from occ_represents [OF assms(1), of d None] assms(2)
  have ch: "children n = map root (subtrees t)"
    using assms(3) by (auto simp: doc_tree_def elim!: represents_node)
  show ?thesis
  proof (cases "subtrees t")
    case Nil
    have "next_node_loop d s filt n True = next_node_loop d s filt n False"
      using ch Nil by (simp add: next_node_loop_unfold [of d s filt n] next_candidate_def)
    with next_node_climb [OF assms] Nil show ?thesis by (simp add: preorder_root)
  next
    case (Cons c cs')
    then show ?thesis using ch
      by (subst next_node_loop_unfold) (cases c; simp add: next_candidate_def preorder_root [of t])
  qed
qed

text \<open>From position \<open>k\<close> of document order the loop tests position \<open>k + 1\<close>, cyclically.\<close>
lemma next_node_step:
  assumes "doc_tree d R" "k < length (preorder R)" "nodes d (preorder R ! k) = Some n"
  shows "next_node_loop d s filt n True
       = next_visit d s filt (preorder R ! (Suc k mod length (preorder R)))"
proof -
  obtain cs us t vs where o: "occ R cs us t vs" "root t = preorder R ! k"
    using assms(2) by (metis nth_mem occ_exists)
  have pre: "preorder R = us @ root t # (tl (preorder t) @ vs)"
    using occ_preorder [OF o(1)] by (cases t) simp
  have "preorder R ! length us = root t" "length us < length (preorder R)"
    by (subst pre, simp)+
  moreover have "distinct (preorder R)" using assms(1) by (simp add: doc_tree_def)
  ultimately have k: "k = length us" using assms(2) o(2) by (metis nth_eq_iff_index_eq)
  let ?rest = "tl (preorder t) @ vs"
  have "hd (?rest @ [root R]) = preorder R ! (Suc k mod length (preorder R))"
  proof (cases ?rest)
    case Nil
    then have "length (preorder R) = Suc k" by (simp add: pre k)
    then have "Suc k mod length (preorder R) = 0" by simp
    moreover have "root R = preorder R ! 0" by (cases R) simp
    ultimately show ?thesis using Nil by simp
  next
    case (Cons x xs)
    then have "Suc k < length (preorder R)" "preorder R ! Suc k = x"
      by (simp_all add: pre k nth_append)
    with Cons show ?thesis by simp
  qed
  then show ?thesis using next_node_step_occ [OF o(1) assms(1)] o(2) assms(3) by simp
qed

lemma next_visit_rotate:
  assumes dt: "doc_tree d R" and k: "k < length (preorder R)" and c: "c = rotate (Suc k) (preorder R)"
  shows "m < length (preorder R) \<Longrightarrow> next_visit d (preorder R ! k) filt (c ! m)
    = Some (List.find (\<lambda>i. filt (the (nodes d i))) (drop m c))"
proof (induction "length (preorder R) - m" arbitrary: m)
  case (Suc x)
  let ?p = "preorder R" let ?N = "length ?p"
  have len: "length c = ?N" by (simp add: c)
  define q where "q = (Suc k + m) mod ?N"
  have q: "q < ?N" "c ! m = ?p ! q"
    using Suc.prems unfolding c by (simp add: q_def, subst nth_rotate) (auto simp: q_def)
  have dist: "distinct ?p" using dt by (simp add: doc_tree_def)
  from q obtain n where n: "nodes d (?p ! q) = Some n" "nid n = ?p ! q"
    using doc_tree_live [OF dt nth_mem] by metis
  have drop: "drop m c = ?p ! q # drop (Suc m) c"
    using Suc.prems q len by (simp add: Cons_nth_drop_Suc [symmetric])
  show ?case
  proof (cases "filt n")
    case True
    then show ?thesis by (simp add: next_visit_def node_at_simp q n drop)
  next
    case False
    show ?thesis
    proof (cases "Suc m = ?N")
      case True
      then have "Suc k + m = k + ?N" by simp
      with k have "q = k" by (metis mod_add_self2 mod_less q_def)
      with n have n': "nodes d (?p ! k) = Some n" "nid n = ?p ! k" by simp_all
      have "drop m c = [?p ! k]" using drop True len \<open>q = k\<close> by simp
      with False \<open>q = k\<close> show ?thesis
        by (simp add: next_visit_def node_at_simp q(2) n')
    next
      case ne: False
      then have m: "Suc m < ?N" using Suc.prems by simp
      have "distinct c" using dist by (simp add: c)
      then have "c ! m \<noteq> c ! (?N - 1)"
        using m len by (simp add: nth_eq_iff_index_eq)
      moreover have "c ! (?N - 1) = ?p ! k"
        using k unfolding c by (subst nth_rotate) auto
      ultimately have neq: "?p ! q \<noteq> ?p ! k" using q(2) by simp
      have nx: "?p ! (Suc q mod ?N) = c ! Suc m"
        using m unfolding c by (subst nth_rotate) (auto simp: q_def mod_Suc_eq)
      have "next_visit d (?p ! k) filt (c ! m) = next_visit d (?p ! k) filt (c ! Suc m)"
        using False neq next_node_step [OF dt q(1) n(1), of "?p ! k" filt]
        by (simp add: next_visit_def [of d "?p ! k" filt "?p ! q"] node_at_simp q(2) n nx)
      also have "\<dots> = Some (List.find (\<lambda>i. filt (the (nodes d i))) (drop (Suc m) c))"
        by (rule Suc.hyps(1)) (use Suc.hyps(2) m in auto)
      finally show ?thesis using False by (simp add: drop n)
    qed
  qed
qed simp

lemma next_node_rotate:
  assumes "doc_tree d R" "k < length (preorder R)" "nodes d (preorder R ! k) = Some n"
  shows "next_node d n filt
       = Some (List.find (\<lambda>i. filt (the (nodes d i))) (rotate (Suc k) (preorder R)))"
proof -
  have "nid n = preorder R ! k" using assms by (metis doc_tree_live nth_mem option.inject)
  moreover have "rotate (Suc k) (preorder R) ! 0 = preorder R ! (Suc k mod length (preorder R))"
    by (subst nth_rotate) auto
  ultimately show ?thesis
    using next_node_step [OF assms, of "preorder R ! k" filt]
      next_visit_rotate [OF assms(1,2) refl, of 0 filt] assms(2)
    by (simp add: next_node_def)
qed

section \<open>Backward search\<close>

lemma deepest_last_descendant_tree:
  "represents d p t \<Longrightarrow> nodes d (root t) = Some n \<Longrightarrow>
   \<exists>m. deepest_last_descendant d n = Some m \<and> nodes d (last (preorder t)) = Some m"
proof (induction t arbitrary: p n)
  case (T i ts)
  then have ch: "children n = map root ts" "\<forall>s\<in>set ts. represents d (Some i) s"
    by (auto split: option.splits)
  show ?case
  proof (cases "ts = []")
    case True
    with T.prems ch show ?thesis by (subst deepest_last_descendant.simps) simp
  next
    case False
    then have l: "last ts \<in> set ts" by simp
    with ch obtain c where c: "nodes d (root (last ts)) = Some c" by (metis represents_node)
    with T.IH [OF l] ch l obtain m where
      "deepest_last_descendant d c = Some m" "nodes d (last (preorder (last ts))) = Some m" by blast
    then show ?thesis using False ch c
      by (subst deepest_last_descendant.simps) (simp add: node_at_simp last_map last_concat_map)
  qed
qed

lemma prev_step_occ:
  assumes "occ R cs us t vs" "doc_tree d R" "nodes d (root t) = Some n"
  shows "\<exists>m. prev_step d n = Some m \<and> nodes d (last (if us = [] then preorder R else us)) = Some m"
  using assms(1)
proof (cases rule: occ.cases)
  case occ_root
  from assms(2) have rep: "represents d None R" by (simp add: doc_tree_def)
  with occ_root assms(2,3) deepest_last_descendant_tree [OF rep] occ_root_node [OF assms(2)] show ?thesis
    by (simp add: prev_step_def parent_node_def root_node_def node_at_simp)
next
  case (occ_child cs' us' p ls rs vs')
  from occ_child_node [OF occ_child(4) assms(2,3)] obtain pn where
    pn: "nodes d p = Some pn" "children pn = map root ls @ root t # map root rs"
      "parent n = Some p" "nid n = root t" "nid pn = p" "root t \<notin> set (map root ls)" by blast
  have pnode: "parent_node d n = Some (Some pn)" by (simp add: parent_node_def pn node_at_simp)
  have idx: "index_of (nid n) (children pn) = Some (length ls)"
    using pn(6) index_of_append_notin [of "root t" "map root ls" "map root rs"] by (simp add: pn(2,4))
  show ?thesis
  proof (cases "ls = []")
    case True
    then show ?thesis by (simp add: prev_step_def pnode idx occ_child(2) pn(1))
  next
    case False
    then have l: "last ls \<in> set (ls @ t # rs)" by simp
    have "represents d (if cs' = [] then None else Some (last cs')) (T p (ls @ t # rs))"
      using occ_represents [OF occ_child(4)] assms(2) by (simp add: doc_tree_def)
    with l have rep: "represents d (Some p) (last ls)" by (auto split: option.splits)
    then obtain c where c: "nodes d (root (last ls)) = Some c" by (metis represents_node)
    have "children pn ! (length ls - 1) = root (last ls)"
      using False by (simp add: pn(2) nth_append last_conv_nth)
    with deepest_last_descendant_tree [OF rep c] False show ?thesis
      by (auto simp: prev_step_def pnode idx occ_child(2) node_at_simp c last_concat_map)
  qed
qed

lemma prev_step_position:
  assumes "doc_tree d R" "k < length (preorder R)" "nodes d (preorder R ! k) = Some n"
  shows "prev_step d n = nodes d (preorder R ! ((k + length (preorder R) - 1) mod length (preorder R)))"
proof -
  obtain cs us t vs where o: "occ R cs us t vs" "root t = preorder R ! k"
    using assms(2) by (metis nth_mem occ_exists)
  have pre: "preorder R = us @ root t # (tl (preorder t) @ vs)"
    using occ_preorder [OF o(1)] by (cases t) simp
  have "preorder R ! length us = root t" "length us < length (preorder R)"
    by (subst pre, simp)+
  moreover have "distinct (preorder R)" using assms(1) by (simp add: doc_tree_def)
  ultimately have k: "k = length us" using assms(2) o(2) by (metis nth_eq_iff_index_eq)
  have "last (if us = [] then preorder R else us)
      = preorder R ! ((k + length (preorder R) - 1) mod length (preorder R))"
  proof (cases "us = []")
    case True
    then show ?thesis by (simp add: k last_conv_nth)
  next
    case False
    then have "0 < k" by (simp add: k)
    then have e: "k + length (preorder R) - 1 = k - 1 + length (preorder R)" by arith
    have "(k + length (preorder R) - 1) mod length (preorder R) = k - 1"
      unfolding e using assms(2) by simp
    moreover have "preorder R ! (k - 1) = last us"
      using False by (subst pre) (simp add: k nth_append last_conv_nth)
    ultimately show ?thesis using False by simp
  qed
  with prev_step_occ [OF o(1) assms(1)] o(2) assms(3) show ?thesis by auto
qed

text \<open>What the rest of the backward search does, as a search of the remaining positions.\<close>
definition prev_visit :: "document \<Rightarrow> node_id \<Rightarrow> (node \<Rightarrow> bool) \<Rightarrow> node option \<Rightarrow> node_id option option" where
  "prev_visit d s filt step = do {
      prev \<leftarrow> step;
      if filt prev then Some (Some (nid prev))
      else if nid prev = s then Some None
      else prev_node_loop d s filt prev }"

lemma prev_node_loop_unfold: "prev_node_loop d s filt n = prev_visit d s filt (prev_step d n)"
  by (subst prev_node_loop.simps) (simp add: prev_visit_def)

lemma rev_rotate_nth:
  assumes "m < length xs" "k < length xs"
  shows "rev (rotate k xs) ! m = xs ! ((k + (length xs - 1 - m)) mod length xs)"
  using assms by (simp add: rev_nth nth_rotate)

lemma prev_visit_rotate:
  assumes dt: "doc_tree d R" and k: "k < length (preorder R)" and c: "c = rev (rotate k (preorder R))"
  shows "m < length (preorder R) \<Longrightarrow> prev_visit d (preorder R ! k) filt (nodes d (c ! m))
    = Some (List.find (\<lambda>i. filt (the (nodes d i))) (drop m c))"
proof (induction "length (preorder R) - m" arbitrary: m)
  case (Suc x)
  let ?p = "preorder R" let ?N = "length ?p"
  have len: "length c = ?N" by (simp add: c)
  define q where "q = (k + (?N - 1 - m)) mod ?N"
  have q: "q < ?N" "c ! m = ?p ! q"
    using Suc.prems k unfolding c q_def by (auto simp: rev_rotate_nth)
  have dist: "distinct ?p" using dt by (simp add: doc_tree_def)
  from q obtain n where n: "nodes d (?p ! q) = Some n" "nid n = ?p ! q"
    using doc_tree_live [OF dt nth_mem] by metis
  have drop: "drop m c = ?p ! q # drop (Suc m) c"
    using Suc.prems q len by (simp add: Cons_nth_drop_Suc [symmetric])
  show ?case
  proof (cases "filt n")
    case True
    then show ?thesis by (simp add: prev_visit_def q n drop)
  next
    case False
    show ?thesis
    proof (cases "Suc m = ?N")
      case True
      then have "q = k" using k by (simp add: q_def)
      with n have n': "nodes d (?p ! k) = Some n" "nid n = ?p ! k" by simp_all
      have "drop m c = [?p ! k]" using drop True len \<open>q = k\<close> by simp
      with False \<open>q = k\<close> show ?thesis by (simp add: prev_visit_def q(2) n')
    next
      case ne: False
      then have m: "Suc m < ?N" using Suc.prems by simp
      have "distinct c" using dist by (simp add: c)
      moreover have "c ! (?N - 1) = ?p ! k"
        using k by (simp add: c rev_rotate_nth)
      moreover have "c ! m \<noteq> c ! (?N - 1)"
        using \<open>distinct c\<close> m len by (simp add: nth_eq_iff_index_eq)
      ultimately have neq: "?p ! q \<noteq> ?p ! k" using q(2) by simp
      have "(q + ?N - 1) mod ?N = (k + (?N - 1 - Suc m)) mod ?N"
      proof -
        have "(q + (?N - 1)) mod ?N = (k + (?N - 1 - m) + (?N - 1)) mod ?N"
          unfolding q_def by (simp add: mod_add_left_eq)
        also have "k + (?N - 1 - m) + (?N - 1) = k + (?N - 1 - Suc m) + ?N" using m by simp
        finally show ?thesis using k by simp
      qed
      then have nx: "prev_step d n = nodes d (c ! Suc m)"
        using prev_step_position [OF dt q(1) n(1)] m k by (simp add: c rev_rotate_nth)
      have "prev_visit d (?p ! k) filt (nodes d (c ! m)) = prev_visit d (?p ! k) filt (nodes d (c ! Suc m))"
        using False neq prev_node_loop_unfold [of d "?p ! k" filt n]
        by (simp add: prev_visit_def [of d "?p ! k" filt "Some n"] q(2) n nx)
      also have "\<dots> = Some (List.find (\<lambda>i. filt (the (nodes d i))) (drop (Suc m) c))"
        by (rule Suc.hyps(1)) (use Suc.hyps(2) m in auto)
      finally show ?thesis using False by (simp add: drop n)
    qed
  qed
qed simp

lemma prev_node_rotate:
  assumes "doc_tree d R" "k < length (preorder R)" "nodes d (preorder R ! k) = Some n"
  shows "prev_node d n filt
       = Some (List.find (\<lambda>i. filt (the (nodes d i))) (rev (rotate k (preorder R))))"
proof -
  let ?p = "preorder R"
  have "nid n = ?p ! k" using assms by (metis doc_tree_live nth_mem option.inject)
  moreover have "rev (rotate k ?p) ! 0 = ?p ! ((k + length ?p - 1) mod length ?p)"
    using assms(2) by (subst rev_rotate_nth) auto
  ultimately show ?thesis
    using prev_step_position [OF assms] prev_visit_rotate [OF assms(1,2) refl, of 0 filt] assms(2)
    by (simp add: prev_node_def prev_node_loop_unfold)
qed

end
