(* ===== verification/Dom_Compare.thy ===== *)
theory Dom_Compare
  imports Dom_Order
begin

text \<open>
  Ancestor chains and the comparison of document positions.  \<open>chain t j\<close> is the path from
  the root of \<open>t\<close> down to \<open>j\<close>; \<open>ancestor_chain_from_root\<close> computes it, and the comparison of
  two chains decides the order of the two nodes in \<open>preorder\<close>.
\<close>

section \<open>Chains\<close>

lemma find_size [termination_simp]:
  "List.find P ts = Some x \<Longrightarrow> size (x :: tree) < Suc (size_list size ts)"
  by (induction ts) (auto split: if_splits)

fun chain :: "tree \<Rightarrow> node_id \<Rightarrow> node_id list" where
  "chain (T i ts) j = (if j = i then [i]
     else i # (case List.find (\<lambda>t. j \<in> set (preorder t)) ts of None \<Rightarrow> [] | Some t \<Rightarrow> chain t j))"

lemma distinct_roots: "distinct (concat (map preorder ts)) \<Longrightarrow> distinct (map root ts)"
proof (induction ts)
  case (Cons t ts)
  have "root t \<noteq> root s" if "s \<in> set ts" for s
  proof
    assume "root t = root s"
    then have "root t \<in> set (preorder s)" by simp
    moreover have "root t \<in> set (preorder t)" by simp
    moreover have "set (preorder t) \<inter> set (preorder s) = {}" using Cons.prems that by auto
    ultimately show False by blast
  qed
  with Cons show ?case by auto
qed simp

lemma split_later:
  assumes "ls @ s # rs = ls' @ s' # rs'" "length ls < length ls'"
  shows "\<exists>ms. rs = ms @ s' # rs'"
  using assms by (auto simp: append_eq_append_conv2 Cons_eq_append_conv)

lemma chain_hd: "\<exists>r. chain t j = root t # r"
  by (cases t) auto

lemma chain_not_Nil [simp]: "chain t j \<noteq> []"
  by (cases t) simp

text \<open>A tree whose descendants do not repeat: at most one child holds a given id.\<close>
lemma find_child:
  assumes "distinct (preorder (T i ts))" "ts = ls @ s # rs" "j \<in> set (preorder s)"
  shows "List.find (\<lambda>t. j \<in> set (preorder t)) ts = Some s"
proof -
  have "j \<notin> (\<Union>l\<in>set ls. set (preorder l))" using assms by auto
  then have "List.find (\<lambda>t. j \<in> set (preorder t)) ls = None" by (simp add: find_None_iff)
  with assms(2,3) show ?thesis by (simp add: find_append)
qed

lemma chain_child:
  assumes "distinct (preorder (T i ts))" "ts = ls @ s # rs" "j \<in> set (preorder s)"
  shows "chain (T i ts) j = i # chain s j" "j \<noteq> i"
proof -
  show "j \<noteq> i" using assms by auto
  then show "chain (T i ts) j = i # chain s j"
    by (simp add: find_child [OF assms])
qed

lemma preorder_cases [consumes 1, case_names root child]:
  assumes "j \<in> set (preorder t)"
  obtains "j = root t" | ls s rs where "subtrees t = ls @ s # rs" "j \<in> set (preorder s)"
  using assms by (cases t) (auto dest!: split_list)

lemma ancestors_up_chain:
  "represents d p t \<Longrightarrow> distinct (preorder t) \<Longrightarrow> j \<in> set (preorder t) \<Longrightarrow>
   ancestors_up d p = Some ups \<Longrightarrow> ancestors_up d (Some j) = Some (rev (chain t j) @ ups)"
proof (induction t arbitrary: p ups)
  case (T i ts)
  from T.prems(1) obtain n where n: "nodes d i = Some n" "parent n = p"
    "\<forall>s\<in>set ts. represents d (Some i) s" by (auto split: option.splits)
  have up: "ancestors_up d (Some i) = Some (i # ups)"
    by (simp add: ancestors_up_Some n T.prems(4))
  from T.prems(3) show ?case
  proof (cases rule: preorder_cases)
    case root
    with up show ?thesis by simp
  next
    case (child ls s rs)
    then have s: "s \<in> set ts" by simp
    have "distinct (preorder s)" using T.prems(2) child(1) by simp
    with T.IH [OF s bspec [OF n(3) s] _ child(2) up] chain_child(1) [OF T.prems(2) _ child(2)] child(1)
    show ?thesis by simp
  qed
qed

lemma ancestor_chain_from_root_chain:
  assumes "represents d None t" "distinct (preorder t)" "j \<in> set (preorder t)"
  shows "ancestor_chain_from_root d j = Some (chain t j)"
  using ancestors_up_chain [OF assms, of "[]"] by (simp add: ancestor_chain_from_root_def)

section \<open>Comparing two chains\<close>

text \<open>The last part of \<open>compare_document_order\<close>.\<close>
definition cmp_chains :: "document \<Rightarrow> node_id list \<Rightarrow> node_id list \<Rightarrow> ordering option" where
  "cmp_chains d chain_a chain_b = (
       let depth = common_depth chain_a chain_b in
       if depth = length chain_a then Some Less
       else if depth = length chain_b then Some Greater
       else if depth = 0 then None
       else do {
         p \<leftarrow> node_at d (chain_a ! (depth - 1));
         Some (first_among (children p) (chain_a ! depth) (chain_b ! depth)) })"

lemma compare_document_order_chains:
  "a \<noteq> b \<Longrightarrow> ancestor_chain_from_root d a = Some ca \<Longrightarrow> ancestor_chain_from_root d b = Some cb \<Longrightarrow>
   compare_document_order d a b = cmp_chains d ca cb"
  by (simp add: compare_document_order_def cmp_chains_def Let_def)

lemma common_depth_append [simp]:
  "common_depth (ps @ xs) (ps @ ys) = length ps + common_depth xs ys"
  by (induction ps) auto

lemma common_depth_le: "common_depth xs ys \<le> length xs" "common_depth xs ys \<le> length ys"
  by (induction xs ys rule: common_depth.induct) auto

lemma first_among_Less:
  "b \<notin> set us \<Longrightarrow> first_among (us @ a # vs) a b = (if a \<in> set us then Less else Less)"
  by (induction us) auto

lemma first_among_append:
  "a \<notin> set us \<Longrightarrow> b \<notin> set us \<Longrightarrow> first_among (us @ c # vs) a b =
     (if c = a then Less else if c = b then Greater else first_among vs a b)"
  by (induction us) auto

text \<open>The index of a node in document order.\<close>
definition doc_index :: "tree \<Rightarrow> node_id \<Rightarrow> nat" where
  "doc_index t j = the (index_of j (preorder t))"

lemma doc_index_root [simp]: "doc_index t (root t) = 0"
  by (cases t) (simp add: doc_index_def)

lemma doc_index_child:
  assumes "distinct (preorder (T i ts))" "ts = ls @ s # rs" "j \<in> set (preorder s)"
  shows "doc_index (T i ts) j = Suc (length (concat (map preorder ls)) + doc_index s j)"
proof -
  have ne: "j \<noteq> i" "j \<notin> set (concat (map preorder ls))" using assms by auto
  obtain k where k: "index_of j (preorder s) = Some k" using index_of_in [OF assms(3)] by auto
  have "index_of j (concat (map preorder ls) @ preorder s @ concat (map preorder rs))
      = Some (k + length (concat (map preorder ls)))"
    using index_of_append2 [OF ne(2)] index_of_append1 [OF assms(3)] k by simp
  with ne show ?thesis by (simp add: doc_index_def assms(2) k)
qed

lemma doc_index_lt:
  assumes "j \<in> set (preorder t)" shows "doc_index t j < length (preorder t)"
  using index_of_in [OF assms] by (auto simp: doc_index_def)

lemma doc_index_nth:
  assumes "distinct (preorder t)" "k < length (preorder t)"
  shows "doc_index t (preorder t ! k) = k"
  by (simp add: doc_index_def index_of_distinct [OF assms])

lemma nth_doc_index:
  assumes "j \<in> set (preorder t)" shows "preorder t ! doc_index t j = j"
  using index_of_in [OF assms] by (auto simp: doc_index_def)

lemma doc_index_inj:
  assumes "a \<in> set (preorder t)" "b \<in> set (preorder t)" "doc_index t a = doc_index t b"
  shows "a = b"
  by (metis assms nth_doc_index)

text \<open>Two nodes below different children: the order of the children decides.\<close>
lemma cmp_chains_siblings:
  assumes dist: "distinct (preorder (T i ts))" and ts: "ts = ls @ s # ms @ s' # rs"
    and rep: "represents d p (T i ts)" and a: "a \<in> set (preorder s)" and b: "b \<in> set (preorder s')"
  shows "cmp_chains d (ps @ chain (T i ts) a) (ps @ chain (T i ts) b) = Some Less"
    "cmp_chains d (ps @ chain (T i ts) b) (ps @ chain (T i ts) a) = Some Greater"
    "doc_index (T i ts) a < doc_index (T i ts) b"
proof -
  have ts': "ts = (ls @ s # ms) @ s' # rs" by (simp add: ts)
  note ca = chain_child(1) [OF dist ts a] and cb = chain_child(1) [OF dist ts' b]
  obtain ra rb where r: "chain s a = root s # ra" "chain s' b = root s' # rb"
    using chain_hd by metis
  obtain n where n: "nodes d i = Some n" "children n = map root ts"
    using rep by (auto split: option.splits)
  have "distinct (map root ts)" using dist by (simp add: distinct_roots)
  then have ne: "root s \<noteq> root s'" "root s \<notin> set (map root ls)" "root s' \<notin> set (map root ls)"
    by (auto simp: ts)
  have fa: "first_among (map root ls @ root s # map root ms @ root s' # map root rs) (root s) (root s') = Less"
    "first_among (map root ls @ root s # map root ms @ root s' # map root rs) (root s') (root s) = Greater"
    using ne by (simp_all add: first_among_append)
  show "cmp_chains d (ps @ chain (T i ts) a) (ps @ chain (T i ts) b) = Some Less"
    "cmp_chains d (ps @ chain (T i ts) b) (ps @ chain (T i ts) a) = Some Greater"
    using ne(1) fa by (simp_all only: ca cb r) (simp_all add: cmp_chains_def Let_def node_at_simp n ts nth_append)
  show "doc_index (T i ts) a < doc_index (T i ts) b"
    using doc_index_lt [OF a]
    by (simp add: doc_index_child [OF dist ts a] doc_index_child [OF dist ts' b])
qed

lemma cmp_chains_tree:
  "represents d p t \<Longrightarrow> distinct (preorder t) \<Longrightarrow> a \<in> set (preorder t) \<Longrightarrow> b \<in> set (preorder t) \<Longrightarrow>
   a \<noteq> b \<Longrightarrow> cmp_chains d (ps @ chain t a) (ps @ chain t b) = Some (cmp_of (doc_index t a) (doc_index t b))"
proof (induction t arbitrary: p ps)
  case (T i ts)
  let ?t = "T i ts"
  note dist = T.prems(2)
  from T.prems(3) show ?case
  proof (cases rule: preorder_cases)
    case root
    with T.prems(4,5) obtain ls s rs where b: "ts = ls @ s # rs" "b \<in> set (preorder s)"
      by (cases rule: preorder_cases [OF T.prems(4)]) auto
    have "chain ?t b = i # chain s b" using chain_child(1) [OF dist b] .
    moreover have "0 < doc_index ?t b" by (simp add: doc_index_child [OF dist b])
    moreover have "chain ?t a = [i]" "doc_index ?t a = 0" using root doc_index_root [of ?t] by simp_all
    ultimately show ?thesis by (simp add: cmp_chains_def cmp_of_def)
  next
    case a: (child ls s rs)
    then have a': "ts = ls @ s # rs" by simp
    from T.prems(4) show ?thesis
    proof (cases rule: preorder_cases)
      case root
      obtain r where "chain s a = root s # r" using chain_hd by metis
      then have "chain ?t a = i # root s # r" using chain_child(1) [OF dist a' a(2)] by simp
      moreover have "0 < doc_index ?t a" by (simp add: doc_index_child [OF dist a' a(2)])
      moreover have "chain ?t b = [i]" "doc_index ?t b = 0" using root doc_index_root [of ?t] by simp_all
      ultimately show ?thesis by (simp add: cmp_chains_def cmp_of_def)
    next
      case b: (child ls' s' rs')
      then have b': "ts = ls' @ s' # rs'" by simp
      show ?thesis
      proof (cases "length ls" "length ls'" rule: linorder_cases)
        case equal
        with a' b' have same: "s' = s" by simp
        have s: "s \<in> set ts" by (simp add: a')
        from T.prems(1) s have rep: "represents d (Some i) s" by (auto split: option.splits)
        have "distinct (preorder s)" using dist by (simp add: a')
        from T.IH [OF s rep this a(2) _ T.prems(5), of "ps @ [i]"] b(2)
        show ?thesis
          using chain_child(1) [OF dist a' a(2)] chain_child(1) [OF dist a', of b]
            doc_index_child [OF dist a' a(2)] doc_index_child [OF dist a', of b]
          by (simp add: same cmp_of_def)
      next
        case less
        with a' b' obtain ms where "ts = ls @ s # ms @ s' # rs'" by (metis split_later)
        from cmp_chains_siblings [OF dist this T.prems(1) a(2) b(2)] show ?thesis by (simp add: cmp_of_def)
      next
        case greater
        with a' b' obtain ms where "ts = ls' @ s' # ms @ s # rs" by (metis split_later)
        from cmp_chains_siblings [OF dist this T.prems(1) b(2) a(2)] show ?thesis by (simp add: cmp_of_def)
      qed
    qed
  qed
qed

lemma compare_document_order_index:
  assumes "doc_tree d R" "a \<in> set (preorder R)" "b \<in> set (preorder R)"
  shows "compare_document_order d a b = Some (cmp_of (doc_index R a) (doc_index R b))"
proof (cases "a = b")
  case True
  then show ?thesis by (simp add: compare_document_order_def cmp_of_def)
next
  case False
  have rep: "represents d None R" "distinct (preorder R)" using assms(1) by (simp_all add: doc_tree_def)
  note chains = ancestor_chain_from_root_chain [OF rep assms(2)] ancestor_chain_from_root_chain [OF rep assms(3)]
  from cmp_chains_tree [OF rep assms(2,3) False, of "[]"] show ?thesis
    by (simp add: compare_document_order_chains [OF False chains])
qed

end
