(* ===== verification/Dom_Example.thy ===== *)
theory Dom_Example
  imports Dom_Shape
begin

text \<open>
  A small document on which the properties are evaluated: a document node with an
  \<open>html\<close> element that holds a \<open>body\<close> with two paragraphs and a text, and an \<open>input\<close>.
\<close>

definition ex_name :: "string \<Rightarrow> qual_name" where
  "ex_name s = \<lparr> qn_prefix = None, qn_ns = ''html'', qn_local = s \<rparr>"

definition ex_element :: "string \<Rightarrow> (string \<times> string) list \<Rightarrow> bool \<Rightarrow> element_data" where
  "ex_element tag ats foc = \<lparr> el_name = ex_name tag,
     el_id = map_of ats ''id'',
     el_attrs = map (\<lambda>(k, v). \<lparr> attr_name = \<lparr> qn_prefix = None, qn_ns = [], qn_local = k \<rparr>, attr_value = v \<rparr>) ats,
     is_focussable = foc, special_data = SpecialNone, template_contents = None, el_stylo = None,
     el_state = {}, el_has_snapshot = False, el_dirty_descendants = False,
     el_damaged_descendants = False, before = None, after = None \<rparr>"

definition ex_document_data :: document_data where
  "ex_document_data = \<lparr> dd_stylo = None, dd_state = {}, dd_has_snapshot = False,
     dd_dirty_descendants = False, dd_damaged_descendants = False, dd_keyboard_modality = False \<rparr>"

definition ex_node :: "node_id \<Rightarrow> node_id option \<Rightarrow> node_id list \<Rightarrow> node_data \<Rightarrow> node" where
  "ex_node i p cs dat = (node_new i dat)\<lparr> parent := p, children := cs, layout_parent := p,
     flags := IS_IN_DOCUMENT \<rparr>"

definition ex_endpoint :: selection_endpoint where
  "ex_endpoint = \<lparr> node_or_parent = None, offset = 0, sibling_index = None \<rparr>"

definition ex_document :: "(node_id \<times> node) list \<Rightarrow> (string \<times> node_id list) list \<Rightarrow> document" where
  "ex_document ns ids = \<lparr> doc_id = 0, doc_url = ''http://a/d'', nodes = map_of ns, root_node_id = NodeId 1, nodes_to_id = map_of ids,
     controls_to_form = Map.empty, changed_nodes = {}, snapshots = Map.empty, state_dependencies = {},
     sub_document_nodes = {}, has_canvas = False, allocated = 10, hover_node_id = None,
     hover_hit_node_id = None, hover_node_is_text = False, focus_node_id = None,
     active_node_id = None, mousedown_node_id = None,
     selection = \<lparr> anchor = ex_endpoint, focus_end = ex_endpoint \<rparr>, last_client_pointer_position = None,
     last_titlebar_resize = None, highlight_hover = False, titlebar_press_consumed = False,
     range_drag_node_id = None, last_mousedown_time = None, mousedown_position = (0, 0), click_count = 1, hovered_scrollbar = None,
     drag = DragNone, scrollbar_activity = Map.empty, shell_calls = [], hook_calls = [], doc_effects = [] \<rparr>"

abbreviation "n1 \<equiv> NodeId 1"
abbreviation "n2 \<equiv> NodeId 2"
abbreviation "n3 \<equiv> NodeId 3"
abbreviation "n4 \<equiv> NodeId 4"
abbreviation "n5 \<equiv> NodeId 5"
abbreviation "n6 \<equiv> NodeId 6"
abbreviation "n7 \<equiv> NodeId 7"

definition ex_doc :: document where
  "ex_doc = ex_document
    [(n1, ex_node n1 None [n2] (Document ex_document_data)),
     (n2, ex_node n2 (Some n1) [n3, n6] (Element (ex_element ''html'' [] False))),
     (n3, ex_node n3 (Some n2) [n4, n5] (Element (ex_element ''body'' [] False))),
     (n4, ex_node n4 (Some n3) [] (Element (ex_element ''p'' [(''id'', ''x'')] False))),
     (n5, ex_node n5 (Some n3) [n7] (Element (ex_element ''p'' [(''id'', ''x'')] True))),
     (n6, ex_node n6 (Some n2) [] (Element (ex_element ''input'' [(''id'', ''q'')] True))),
     (n7, ex_node n7 (Some n5) [] (Text ''hello''))]
    [(''x'', [n5, n4]), (''q'', [n6])]"

definition ex_tree :: tree where
  "ex_tree = T n1 [T n2 [T n3 [T n4 [], T n5 [T n7 []]], T n6 []]]"

lemma ex_nodes [simp]:
  "nodes ex_doc n1 = Some (ex_node n1 None [n2] (Document ex_document_data))"
  "nodes ex_doc n2 = Some (ex_node n2 (Some n1) [n3, n6] (Element (ex_element ''html'' [] False)))"
  "nodes ex_doc n3 = Some (ex_node n3 (Some n2) [n4, n5] (Element (ex_element ''body'' [] False)))"
  "nodes ex_doc n4 = Some (ex_node n4 (Some n3) [] (Element (ex_element ''p'' [(''id'', ''x'')] False)))"
  "nodes ex_doc n5 = Some (ex_node n5 (Some n3) [n7] (Element (ex_element ''p'' [(''id'', ''x'')] True)))"
  "nodes ex_doc n6 = Some (ex_node n6 (Some n2) [] (Element (ex_element ''input'' [(''id'', ''q'')] True)))"
  "nodes ex_doc n7 = Some (ex_node n7 (Some n5) [] (Text ''hello''))"
  by (simp_all add: ex_doc_def ex_document_def)

lemma ex_node_sel [simp]:
  "nid (ex_node i p cs dat) = i" "parent (ex_node i p cs dat) = p"
  "children (ex_node i p cs dat) = cs" "data (ex_node i p cs dat) = dat"
  "layout_parent (ex_node i p cs dat) = p"
  by (simp_all add: ex_node_def node_new_def)

lemma ex_doc_fields [simp]:
  "root_node_id ex_doc = n1"
  "nodes_to_id ex_doc = map_of [(''x'', [n5, n4]), (''q'', [n6])]"
  by (simp_all add: ex_doc_def ex_document_def)

lemma ex_doc_dom: "nodes ex_doc i = Some n \<Longrightarrow>
    i = n1 \<or> i = n2 \<or> i = n3 \<or> i = n4 \<or> i = n5 \<or> i = n6 \<or> i = n7"
  by (auto simp: ex_doc_def ex_document_def split: if_splits)

lemma ex_doc_tree: "doc_tree ex_doc ex_tree"
  by (simp add: doc_tree_def ex_tree_def)

lemma ex_preorder: "preorder ex_tree = [n1, n2, n3, n4, n5, n7, n6]"
  by (simp add: ex_tree_def)

lemma ex_wf_doc: "wf_doc ex_doc"
proof -
  have fin: "finite (dom (nodes ex_doc))"
    by (simp add: ex_doc_def ex_document_def finite_dom_map_of)
  have less: "as_u64 p < as_u64 i" if "nodes ex_doc i = Some n" "parent n = Some p" for i n p
    using ex_doc_dom [OF that(1)] that by (elim disjE) auto
  have ac: "acyclic (parent_edges ex_doc)"
    by (rule acyclicI_order [of _ as_u64]) (auto simp: parent_edges_def less)
  have "wf_node ex_doc i n" if "nodes ex_doc i = Some n" for i n
    using ex_doc_dom [OF that] that by (elim disjE) (auto simp: wf_node_def)
  with fin ac show ?thesis by (simp add: wf_doc_def)
qed

end
