(* ===== verification/Dom_Queries.thy ===== *)
theory Dom_Queries
  imports Dom_Compare Dom_Example
begin

text \<open>
  The properties of the traversals and the lookups: document order, cyclic search,
  comparison, ancestry, lookup by id, and the two behaviours of the source that modelling
  showed (a forward search that does not return, inline roots collected twice).
\<close>

section \<open>Document order\<close>

text \<open>In a well-formed store the preorder traverser started at any live node ends, yields
  each node of the subtree once, parents before children and siblings in order: its sequence
  is the preorder of the tree the store represents below that node.\<close>
lemma tree_traverser_preorder:
  assumes "wf_doc d" "nodes d i = Some n"
  shows "\<exists>t. root t = i \<and> represents d (parent n) t \<and> distinct (preorder t)
           \<and> tt_collect d (tt_new_with_root i) = Some (preorder t)"
proof -
  obtain t where t: "root t = i" "represents d (parent n) t"
    using wf_doc_represents [OF assms] by blast
  with wf_doc_distinct [OF assms(1) t(2)] tt_collect_doc_tree [OF t(2)] show ?thesis by auto
qed

lemma tree_traverser_preorder_witness:
  "\<exists>t. root t = n3 \<and> represents ex_doc (Some n2) t \<and> distinct (preorder t)
     \<and> tt_collect ex_doc (tt_new_with_root n3) = Some (preorder t)"
  using tree_traverser_preorder [OF ex_wf_doc ex_nodes(3)] by simp

text \<open>C1. \<open>compare_document_order\<close> decides document order: for two nodes of the document tree
  it returns the comparison of their positions in the preorder (so it is a total order, and
  an ancestor comes before its descendants).\<close>
theorem compare_document_order_correct:
  assumes "wf_doc d" "doc_tree d R" "a \<in> set (preorder R)" "b \<in> set (preorder R)"
  shows "compare_document_order d a b = Some (cmp_of (doc_index R a) (doc_index R b))"
  by (rule compare_document_order_index [OF assms(2-4)])

theorem compare_document_order_correct_witness:
  "compare_document_order ex_doc n7 n6 = Some Less"
  using compare_document_order_correct [OF ex_wf_doc ex_doc_tree, of n7 n6]
  by (simp add: ex_preorder doc_index_def)

text \<open>\<open>next_node\<close> is a search forward from the start, wrapping at the end of the document:
  it always returns, and it returns the first match in the cyclic document order that begins
  after the start and ends with it.\<close>
lemma next_node_cyclic:
  assumes "doc_tree d R" "k < length (preorder R)" "nodes d (preorder R ! k) = Some n"
  shows "next_node d n filt
       = Some (List.find (\<lambda>i. filt (the (nodes d i))) (rotate (Suc k) (preorder R)))"
  by (rule next_node_rotate [OF assms])

lemma next_node_cyclic_witness:
  "next_node ex_doc (ex_node n6 (Some n2) [] (Element (ex_element ''input'' [(''id'', ''q'')] True)))
     node_is_focussable = Some (Some n5)"
  using next_node_cyclic [OF ex_doc_tree, of 6] 
  by (simp add: ex_preorder node_is_focussable_def element_data_def ex_element_def numeral_eq_Suc)

text \<open>\<open>prev_node\<close> is the mirror image: the first match going backward, wrapping at the
  root to the last descendant of the document.\<close>
lemma prev_node_cyclic:
  assumes "doc_tree d R" "k < length (preorder R)" "nodes d (preorder R ! k) = Some n"
  shows "prev_node d n filt
       = Some (List.find (\<lambda>i. filt (the (nodes d i))) (rev (rotate k (preorder R))))"
  by (rule prev_node_rotate [OF assms])

theorem prev_node_cyclic_witness:
  "prev_node ex_doc (ex_node n1 None [n2] (Document ex_document_data)) node_is_focussable
     = Some (Some n6)"
  using prev_node_cyclic [OF ex_doc_tree, of 0]
  by (simp add: ex_preorder node_is_focussable_def element_data_def ex_element_def)

section \<open>Ancestry\<close>

lemma is_ancestor_of_trancl:
  assumes wf: "wf_doc d"
  shows "nodes d b = Some n \<Longrightarrow> is_ancestor_of d a b = Some ((b, a) \<in> (parent_edges d)\<^sup>+)"
proof (induction b arbitrary: n rule: wf_induct_rule [OF wf_doc_wf_converse [OF wf]])
  case (1 b)
  show ?case
  proof (cases "parent n")
    case None
    then have "(b, a) \<notin> (parent_edges d)\<^sup>+" using 1(2) by (auto simp: parent_edges_def dest: tranclD)
    with None 1(2) show ?thesis by (subst is_ancestor_of.simps) (simp add: node_at_simp)
  next
    case (Some p)
    with 1(2) have e: "(b, p) \<in> parent_edges d" by (simp add: parent_edges_def)
    obtain m where m: "nodes d p = Some m"
      using wf_doc_node [OF wf 1(2)] Some by (auto simp: wf_node_def)
    have IH: "is_ancestor_of d a p = Some ((p, a) \<in> (parent_edges d)\<^sup>+)"
      by (rule 1(1) [OF _ m]) (simp add: e)
    have "(b, a) \<in> (parent_edges d)\<^sup>+ \<longleftrightarrow> p = a \<or> (p, a) \<in> (parent_edges d)\<^sup>+"
      using e single_valuedD [OF parent_edges_single_valued e]
      by (metis r_into_trancl trancl_into_trancl2 tranclD rtrancl_eq_or_trancl)
    with Some 1(2) IH show ?thesis by (subst is_ancestor_of.simps) (simp add: node_at_simp)
  qed
qed

text \<open>\<open>is_ancestor_of\<close> always answers on a well-formed store, and says yes exactly when the
  first node lies strictly above the second in the tree.\<close>
lemma is_ancestor_of_correct:
  assumes "wf_doc d" "doc_tree d R" "occ R cs us t vs"
  shows "is_ancestor_of d a (root t) = Some (a \<in> set cs)"
proof -
  have rep: "represents d None R" using assms(2) by (simp add: doc_tree_def)
  have up: "set cs = {a. (root t, a) \<in> (parent_edges d)\<^sup>+}" using assms(3)
  proof (induction rule: occ.induct)
    case occ_root
    obtain n where "nodes d (root R) = Some n" "parent n = None" using represents_node [OF rep] by metis
    then have "(root R, a) \<notin> (parent_edges d)\<^sup>+" for a by (auto simp: parent_edges_def dest: tranclD)
    then show ?case by simp
  next
    case (occ_child cs us p ls t rs vs)
    have "represents d (Some p) t"
      using occ_represents [OF occ_child.hyps rep] by (auto split: option.splits)
    then have e: "(root t, p) \<in> parent_edges d" by (auto simp: parent_edges_def elim: represents_node)
    have "(root t, a) \<in> (parent_edges d)\<^sup>+ \<longleftrightarrow> p = a \<or> (p, a) \<in> (parent_edges d)\<^sup>+" for a
      using e single_valuedD [OF parent_edges_single_valued e]
      by (metis r_into_trancl trancl_into_trancl2 tranclD rtrancl_eq_or_trancl)
    with occ_child.IH show ?case by auto
  qed
  obtain n where "nodes d (root t) = Some n"
    using occ_represents [OF assms(3) rep] by (metis represents_node)
  with is_ancestor_of_trancl [OF assms(1)] up show ?thesis by auto
qed

lemma ex_occ_n4: "\<exists>us vs. occ ex_tree [n1, n2, n3] us (T n4 []) vs"
proof -
  let ?body = "T n3 [T n4 [], T n5 [T n7 []]]"
  have "occ ex_tree [] [] (T n1 ([] @ T n2 [?body, T n6 []] # [])) []"
    using occ_root [of ex_tree] by (simp add: ex_tree_def)
  from occ_child [OF this] have "occ ex_tree [n1] [n1] (T n2 ([] @ ?body # [T n6 []])) []" by simp
  from occ_child [OF this] have "occ ex_tree [n1, n2] [n1, n2] (T n3 ([] @ T n4 [] # [T n5 [T n7 []]])) [n6]"
    by simp
  from occ_child [OF this] show ?thesis by auto
qed

theorem is_ancestor_of_correct_witness: "is_ancestor_of ex_doc n2 n4 = Some True"
proof -
  obtain us vs where "occ ex_tree [n1, n2, n3] us (T n4 []) vs" using ex_occ_n4 by blast
  from is_ancestor_of_correct [OF ex_wf_doc ex_doc_tree this, of n2] show ?thesis by simp
qed

section \<open>Lookup by id\<close>

definition has_id :: "document \<Rightarrow> string \<Rightarrow> node_id \<Rightarrow> bool" where
  "has_id d s i = (case nodes d i of None \<Rightarrow> False | Some n \<Rightarrow> data_attr (data n) ''id'' = Some s)"

text \<open>The id map is in step with the document: an entry is not empty and names exactly the
  nodes of the document that carry the id.\<close>
definition id_map_ok :: "document \<Rightarrow> tree \<Rightarrow> bool" where
  "id_map_ok d R \<longleftrightarrow> (\<forall>s. s \<noteq> [] \<longrightarrow>
     (case nodes_to_id d s of
        None \<Rightarrow> \<forall>i\<in>set (preorder R). \<not> has_id d s i
      | Some l \<Rightarrow> l \<noteq> [] \<and> set l = {i \<in> set (preorder R). has_id d s i}))"

text \<open>With the id map in step with the document, \<open>get_element_by_id\<close> returns, and it
  returns the first node in tree order that has the id, and nothing when there is none.\<close>
lemma get_element_by_id_first:
  assumes "doc_tree d R" "id_map_ok d R" "s \<noteq> []"
  shows "get_element_by_id d s = Some (List.find (has_id d s) (preorder R))"
proof -
  have ok: "case nodes_to_id d s of
        None \<Rightarrow> \<forall>i\<in>set (preorder R). \<not> has_id d s i
      | Some l \<Rightarrow> l \<noteq> [] \<and> set l = {i \<in> set (preorder R). has_id d s i}"
    using assms(2,3) unfolding id_map_ok_def by blast
  show ?thesis
  proof (cases "nodes_to_id d s")
  case None
  with ok have "\<forall>i\<in>set (preorder R). \<not> has_id d s i" by simp
  then have "List.find (has_id d s) (preorder R) = None" by (simp add: find_None_iff)
  with None show ?thesis by (simp add: get_element_by_id_def)
next
  case (Some l)
  with ok have l: "l \<noteq> []" "set l = {i \<in> set (preorder R). has_id d s i}" by simp_all
  have found: "List.find (\<lambda>i. i \<in> set l) (preorder R) = List.find (has_id d s) (preorder R)"
    by (rule find_cong) (auto simp: l(2))
  show ?thesis
  proof (cases "tl l")
    case Nil
    with l(1) obtain i where i: "l = [i]" by (cases l) auto
    have "List.find (\<lambda>j. j \<in> set l) (preorder R) = Some i"
      by (rule find_unique) (use l(2) i in auto)
    with Some i found show ?thesis by (simp add: get_element_by_id_def)
  next
    case (Cons x xs)
    then obtain y where y: "l = y # x # xs" by (cases l) auto
    have "first_in_tree_order d l [root_node_id d] = Some (List.find (\<lambda>i. i \<in> set l) (preorder R))"
      using first_in_tree_order_tree [of d None R l "[]"] assms(1)
      by (auto simp: doc_tree_def split: option.splits)
    with Some y found show ?thesis by (simp add: get_element_by_id_def)
  qed
  qed
qed

lemma ex_id_map_ok: "id_map_ok ex_doc ex_tree"
  by (auto simp: id_map_ok_def ex_preorder has_id_def data_attr_def el_attr_def ex_element_def
      element_data_def split: option.splits)

theorem get_element_by_id_first_witness: "get_element_by_id ex_doc ''x'' = Some (Some n4)"
  using get_element_by_id_first [OF ex_doc_tree ex_id_map_ok, of "''x''"]
  by (simp add: ex_preorder has_id_def data_attr_def el_attr_def ex_element_def element_data_def)

section \<open>A forward search that does not return\<close>

text \<open>A turn of the loop stays within the document tree.\<close>
lemma next_candidate_in_tree:
  assumes dt: "doc_tree d R" and n: "nid n \<in> set (preorder R)" "nodes d (nid n) = Some n"
    and c: "next_candidate d n b = Some cand"
  shows "case cand of Inl i \<Rightarrow> i \<in> set (preorder R)
       | Inr p \<Rightarrow> nid p \<in> set (preorder R) \<and> nodes d (nid p) = Some p"
proof -
  obtain cs us t vs where o: "occ R cs us t vs" "root t = nid n" by (rule occ_exists [OF n(1)])
  have rep: "represents d None R" and rt: "root R = root_node_id d" using dt by (simp_all add: doc_tree_def)
  have kids: "children n = map root (subtrees t)"
    using occ_represents [OF o(1) rep] n(2) o(2) by (auto elim!: represents_node)
  have sub: "set (preorder t) \<subseteq> set (preorder R)" using occ_preorder [OF o(1)] by auto
  have root_in: "root_node_id d \<in> set (preorder R)" using rt root_in_preorder [of R] by simp
  show ?thesis
  proof (cases "b \<and> children n \<noteq> []")
    case True
    then obtain s ss where s: "subtrees t = s # ss" using kids by (cases "subtrees t") auto
    with True c kids have "cand = Inl (root s)" by (simp add: next_candidate_def)
    moreover have "root s \<in> set (preorder t)" by (cases t) (use s in auto)
    ultimately show ?thesis using sub by auto
  next
    case False
    from o(1) show ?thesis
    proof (cases rule: occ.cases)
      case occ_root
      then have "nodes d (root R) = Some n" using o(2) n(2) by simp
      then have "parent n = None" by (rule occ_root_node(1) [OF dt])
      then have "next_candidate d n b = Some (Inl (root_node_id d))"
        using False by (auto simp: next_candidate_def parent_node_def)
      with c have "cand = Inl (root_node_id d)" by simp
      with root_in show ?thesis by simp
    next
      case (occ_child cs' us' p ls rs vs')
      have "nodes d (root t) = Some n" using o(2) n(2) by simp
      from next_candidate_climb [OF occ_child(4) dt this False] obtain pn where
        pn: "nodes d p = Some pn" "nid pn = p"
          "next_candidate d n b = Some (if rs = [] then Inr pn else Inl (root (hd rs)))" .
      have p_in: "set (preorder (T p (ls @ t # rs))) \<subseteq> set (preorder R)"
        using occ_preorder [OF occ_child(4)] by auto
      show ?thesis
      proof (cases rs)
        case Nil
        with pn c p_in show ?thesis by auto
      next
        case (Cons r rs')
        then have "root r \<in> set (preorder (T p (ls @ t # rs)))" by simp
        with Cons pn(3) c p_in show ?thesis by auto
      qed
    qed
  qed
qed

lemma next_node_loop_diverges:
  assumes dt: "doc_tree d R" and none: "\<forall>i\<in>set (preorder R). \<not> filt (the (nodes d i))"
    and s: "s \<notin> set (preorder R)"
    and n: "nid n \<in> set (preorder R)" "nodes d (nid n) = Some n"
  shows "next_node_loop d s filt n b = None"
proof (rule ccontr)
  assume "next_node_loop d s filt n b \<noteq> None"
  then obtain y where y: "next_node_loop d s filt n b = Some y" by blast
  let ?P = "\<lambda>d' s' filt' n' (b'::bool) (y :: node_id option).
      d' = d \<longrightarrow> s' = s \<longrightarrow> filt' = filt \<longrightarrow> nid n' \<in> set (preorder R) \<longrightarrow>
      nodes d (nid n') = Some n' \<longrightarrow> False"
  have "?P d s filt n b y"
    using y
  proof (rule next_node_loop.raw_induct [of ?P, rotated])
    fix loop d' s' filt' n' b' y
    assume IH: "\<And>a b c e g h. loop a b c e g = Some h \<Longrightarrow> ?P a b c e g h"
    assume body: "do {
      cand \<leftarrow> next_candidate d' n' b';
      (case cand of
         Inr p \<Rightarrow> loop d' s' filt' p False
       | Inl next_id \<Rightarrow> do {
           next \<leftarrow> node_at d' next_id;
           if filt' next then Some (Some (nid next))
           else if nid next = s' then Some None
           else loop d' s' filt' next True }) } = Some y"
    show "?P d' s' filt' n' b' y"
    proof (intro impI)
      assume eqs: "d' = d" "s' = s" "filt' = filt"
        and n': "nid n' \<in> set (preorder R)" "nodes d (nid n') = Some n'"
      from body eqs obtain cand where cand: "next_candidate d n' b' = Some cand"
        by (auto simp: bind_eq_Some_conv)
      note inside = next_candidate_in_tree [OF dt n' cand]
      show False
      proof (cases cand)
        case (Inl i)
        with inside have i: "i \<in> set (preorder R)" by simp
        from doc_tree_live [OF dt this] obtain m where m: "nodes d i = Some m" "nid m = i" .
        with none i s have "\<not> filt m" "nid m \<noteq> s" by auto
        with body eqs cand Inl m have "loop d s filt m True = Some y" by (simp add: node_at_simp)
        from IH [OF this] m i show False by simp
      next
        case (Inr p)
        with body eqs cand have "loop d s filt p False = Some y" by simp
        from IH [OF this] inside Inr show False by simp
      qed
    qed
  qed
  with n show False by blast
qed

text \<open>From a node that is not in the document tree (a detached node, which focus may still
  name) \<open>next_node\<close> does not return when nothing in the document matches: it wraps to the
  root, walks the document for ever and never meets its start again.\<close>
lemma next_node_detached_diverges:
  assumes "doc_tree d R" "parent n = None" "children n = []" "nid n \<notin> set (preorder R)"
    and "\<forall>i\<in>set (preorder R). \<not> filt (the (nodes d i))"
  shows "next_node d n filt = None"
proof -
  have root_in: "root_node_id d \<in> set (preorder R)"
    using assms(1) root_in_preorder [of R] by (simp add: doc_tree_def)
  from doc_tree_live [OF assms(1) this] obtain r where
    r: "nodes d (root_node_id d) = Some r" "nid r = root_node_id d" .
  have "next_node d n filt = next_visit d (nid n) filt (root_node_id d)"
    by (simp add: next_node_def next_node_loop_unfold [of d "nid n" filt n] next_candidate_def
        parent_node_def assms(2,3))
  moreover have "\<not> filt r" "nid r \<noteq> nid n" using assms(4,5) root_in r by auto
  moreover have "next_node_loop d (nid n) filt r True = None"
    by (rule next_node_loop_diverges [OF assms(1,5,4)]) (simp_all add: r root_in)
  ultimately show ?thesis by (simp add: next_visit_def node_at_simp r)
qed

lemma next_node_detached_diverges_witness:
  "next_node ex_doc (node_new (NodeId 9) (Text [])) is_anonymous = None"
  using next_node_detached_diverges [OF ex_doc_tree, of "node_new (NodeId 9) (Text [])" is_anonymous]
  by (simp add: node_new_def ex_preorder is_anonymous_def)

section \<open>Inline roots\<close>

text \<open>The layout tree, through \<open>layout_children\<close>; a node without the list is a leaf.\<close>
fun layout_represents :: "document \<Rightarrow> tree \<Rightarrow> bool" where
  "layout_represents d (T i ts) = (case nodes d i of
       None \<Rightarrow> False
     | Some n \<Rightarrow> (case layout_children n of None \<Rightarrow> [] | Some cs \<Rightarrow> cs) = map root ts
                \<and> (\<forall>t\<in>set ts. layout_represents d t))"

text \<open>The outermost inline roots of a layout tree, in layout order.\<close>
fun inline_frontier :: "document \<Rightarrow> tree \<Rightarrow> node_id list" where
  "inline_frontier d (T i ts) =
     (if is_inline_root (flags (the (nodes d i))) then [i] else concat (map (inline_frontier d) ts))"

lemma collect_inline_roots_of_Nil [simp]: "collect_inline_roots_of d [] r = Some r"
  by (simp add: collect_inline_roots_of.simps)

lemma collect_inline_roots_of_tree:
  "layout_represents d t \<Longrightarrow> collect_inline_roots_of d (root t # cs) r
     = collect_inline_roots_of d cs (r @ inline_frontier d t)"
proof (induction t arbitrary: cs r)
  case (T i ts)
  then obtain n where n: "nodes d i = Some n"
    "(case layout_children n of None \<Rightarrow> [] | Some cs \<Rightarrow> cs) = map root ts"
    "\<forall>t\<in>set ts. layout_represents d t" by (auto split: option.splits)
  have list: "collect_inline_roots_of d (map root us) r
      = Some (r @ concat (map (inline_frontier d) us))" if "set us \<subseteq> set ts" for us r
    using that
  proof (induction us arbitrary: r)
    case (Cons u us)
    then show ?case using T.IH [of u "map root us" r] n(3) by auto
  qed simp
  show ?case
  proof (cases "is_inline_root (flags n)")
    case True
    then show ?thesis by (subst collect_inline_roots_of.simps) (simp add: node_at_simp n(1))
  next
    case False
    then show ?thesis using list [of ts r] n(2)
      by (subst collect_inline_roots_of.simps)
        (cases "layout_children n"; auto simp: node_at_simp n(1))
  qed
qed

text \<open>\<open>collect_all_inline_roots_in_subtree\<close> returns on every finite layout tree and appends
  the outermost inline roots strictly below the node, in layout order.\<close>
lemma collect_all_inline_roots_frontier:
  assumes "layout_represents d t"
  shows "collect_all_inline_roots_in_subtree d (root t) r
       = Some (r @ concat (map (inline_frontier d) (subtrees t)))"
proof (cases t)
  case (T i ts)
  with assms obtain n where n: "nodes d i = Some n"
    "(case layout_children n of None \<Rightarrow> [] | Some cs \<Rightarrow> cs) = map root ts"
    "\<forall>t\<in>set ts. layout_represents d t" by (auto split: option.splits)
  have "collect_inline_roots_of d (map root us) r
      = Some (r @ concat (map (inline_frontier d) us))" if "set us \<subseteq> set ts" for us r
    using that n(3) by (induction us arbitrary: r) (auto simp: collect_inline_roots_of_tree)
  from this [of ts r] n T show ?thesis
    by (cases "layout_children n") (auto simp: collect_all_inline_roots_in_subtree_def node_at_simp)
qed

text \<open>Three paragraphs, the second inside two nested block containers.\<close>
definition ex_block :: "node_id \<Rightarrow> node_id option \<Rightarrow> node_id list \<Rightarrow> node" where
  "ex_block i p cs = (ex_node i p cs (Element (ex_element ''div'' [] False)))\<lparr>layout_children := Some cs\<rparr>"

definition ex_para :: "node_id \<Rightarrow> node_id option \<Rightarrow> node" where
  "ex_para i p = (ex_node i p [] (Element (ex_element ''p'' [] False)))\<lparr>flags := IS_IN_DOCUMENT OR IS_INLINE_ROOT\<rparr>"

definition nested_doc :: document where
  "nested_doc = ex_document
    [(n1, ex_node n1 None [n2] (Document ex_document_data)),
     (n2, ex_block n2 (Some n1) [n3, n4, n7]),
     (n3, ex_para n3 (Some n2)),
     (n4, ex_block n4 (Some n2) [n5]),
     (n5, ex_block n5 (Some n4) [n6]),
     (n6, ex_para n6 (Some n5)),
     (n7, ex_para n7 (Some n2))] []"

lemma nested_nodes [simp]:
  "nodes nested_doc n1 = Some (ex_node n1 None [n2] (Document ex_document_data))"
  "nodes nested_doc n2 = Some (ex_block n2 (Some n1) [n3, n4, n7])"
  "nodes nested_doc n3 = Some (ex_para n3 (Some n2))"
  "nodes nested_doc n4 = Some (ex_block n4 (Some n2) [n5])"
  "nodes nested_doc n5 = Some (ex_block n5 (Some n4) [n6])"
  "nodes nested_doc n6 = Some (ex_para n6 (Some n5))"
  "nodes nested_doc n7 = Some (ex_para n7 (Some n2))"
  "root_node_id nested_doc = n1"
  by (simp_all add: nested_doc_def ex_document_def)

lemma ex_block_para_sel [simp]:
  "nid (ex_block i p cs) = i" "parent (ex_block i p cs) = p" "children (ex_block i p cs) = cs"
  "layout_children (ex_block i p cs) = Some cs" "is_inline_root (flags (ex_block i p cs)) = False"
  "is_anonymous (ex_block i p cs) = False"
  "nid (ex_para i p) = i" "parent (ex_para i p) = p" "children (ex_para i p) = []"
  "layout_children (ex_para i p) = None" "is_inline_root (flags (ex_para i p)) = True"
  "is_anonymous (ex_para i p) = False"
  by (simp_all add: ex_block_def ex_para_def ex_node_def node_new_def is_inline_root_def
      IS_INLINE_ROOT_def IS_IN_DOCUMENT_def is_anonymous_def)

definition nested_tree :: tree where
  "nested_tree = T n1 [T n2 [T n3 [], T n4 [T n5 [T n6 []]], T n7 []]]"

lemma nested_doc_tree: "doc_tree nested_doc nested_tree"
  by (simp add: doc_tree_def nested_tree_def)

lemma collect_all_inline_roots_frontier_witness:
  "collect_all_inline_roots_in_subtree nested_doc n4 [] = Some [n6]"
  using collect_all_inline_roots_frontier [of nested_doc "T n4 [T n5 [T n6 []]]" "[]"] by simp

lemmas traversal_unfold = range_loop.simps collect_inline_roots_of.simps is_ancestor_of.simps

lemma nested_compare: "compare_document_order nested_doc n3 n7 = Some Less"
  by (subst compare_document_order_index [OF nested_doc_tree])
    (simp_all add: nested_tree_def doc_index_def)

lemma nested_not_ancestor:
  "is_ancestor_of nested_doc n5 n7 = Some False" "is_ancestor_of nested_doc n6 n7 = Some False"
  by (simp_all add: is_ancestor_of.simps node_at_simp)

text \<open>What the source does not promise: between two paragraphs that enclose a doubly nested
  block container, the inline root inside is collected once for the outer and once for the
  inner container, so the range lists it twice (and a text selection repeats its text).\<close>
lemma inline_roots_collected_twice:
  "collect_inline_roots_in_range nested_doc n3 n7 = Some [n3, n6, n6, n7]"
  by (simp add: collect_inline_roots_in_range_def resolve_for_traversal_def nested_compare
      tt_new_def root_node_def node_at_simp get_node_simp tt_new_with_root_def range_loop.simps
      range_body_def collect_layout_children_inline_roots_def nested_not_ancestor
      collect_all_inline_roots_in_subtree_def collect_inline_roots_of.simps)

end
