(* ===== verification/Rust_String.thy ===== *)
theory Rust_String
  imports Prelude "HOL-Library.Sublist"
begin

text \<open>
  The string operations of the Rust standard library that the components use, on byte
  strings: \<open>split\<close> at a character, \<open>join\<close>, \<open>strip_prefix\<close>, \<open>strip_suffix\<close> and
  \<open>to_ascii_lowercase\<close>, with the laws that connect them.
\<close>

section \<open>Splitting and joining\<close>

text \<open>\<open>s.split(c)\<close>.\<close>
fun split_on :: "char \<Rightarrow> string \<Rightarrow> string list" where
  "split_on c [] = [[]]"
| "split_on c (x # xs) = (if x = c then [] # split_on c xs
     else (case split_on c xs of [] \<Rightarrow> [[x]] | p # ps \<Rightarrow> (x # p) # ps))"

text \<open>\<open>parts.join(..)\<close> with a one-character separator.\<close>
fun join_with :: "char \<Rightarrow> string list \<Rightarrow> string" where
  "join_with c [] = []"
| "join_with c [p] = p"
| "join_with c (p # q # ps) = p @ c # join_with c (q # ps)"

lemma split_on_not_Nil [simp]: "split_on c s \<noteq> []"
  by (induction s) (auto split: list.splits)

lemma split_on_clean: "p \<in> set (split_on c s) \<Longrightarrow> c \<notin> set p"
  by (induction s arbitrary: p) (auto split: list.splits if_splits)

lemma split_on_none: "c \<notin> set p \<Longrightarrow> split_on c p = [p]"
  by (induction p) auto

lemma split_on_append: "c \<notin> set p \<Longrightarrow> split_on c (p @ c # s) = p # split_on c s"
  by (induction p) auto

lemma split_join:
  "ps \<noteq> [] \<Longrightarrow> \<forall>p\<in>set ps. c \<notin> set p \<Longrightarrow> split_on c (join_with c ps) = ps"
  by (induction c ps rule: join_with.induct) (simp_all add: split_on_none split_on_append)

lemma join_split: "join_with c (split_on c s) = s"
proof (induction s)
  case (Cons x xs)
  then show ?case by (cases "split_on c xs" rule: list.exhaust; cases "tl (split_on c xs)") auto
qed simp

lemma join_Cons: "ps \<noteq> [] \<Longrightarrow> join_with c (p # ps) = p @ c # join_with c ps"
  by (cases ps) simp_all

lemma join_append: "ps \<noteq> [] \<Longrightarrow> qs \<noteq> [] \<Longrightarrow> join_with c (ps @ qs) = join_with c ps @ c # join_with c qs"
proof (induction ps)
  case (Cons p ps)
  then show ?case by (cases ps) (simp_all add: join_Cons)
qed simp

text \<open>Joined lists of separator-free parts: a textual prefix up to a separator is a prefix of
  the list, a textual suffix from a separator on a suffix.\<close>
lemma prefix_join:
  assumes ps: "ps \<noteq> []" "\<forall>p\<in>set ps. c \<notin> set p" and qs: "qs \<noteq> []" "\<forall>q\<in>set qs. c \<notin> set q"
  shows "prefix (join_with c ps @ [c]) (join_with c qs) \<longleftrightarrow> strict_prefix ps qs"
proof
  assume "strict_prefix ps qs"
  then obtain rs where "qs = ps @ rs" "rs \<noteq> []" by (auto simp: strict_prefix_def prefix_def)
  then show "prefix (join_with c ps @ [c]) (join_with c qs)" using ps(1) by (simp add: join_append)
next
  assume "prefix (join_with c ps @ [c]) (join_with c qs)"
  then obtain s where s: "join_with c qs = join_with c ps @ c # s" by (auto simp: prefix_def)
  have "join_with c ps @ c # s = join_with c (ps @ split_on c s)"
    using ps(1) by (simp add: join_append join_split)
  moreover have "\<forall>p\<in>set (ps @ split_on c s). c \<notin> set p" using ps(2) split_on_clean by auto
  moreover have "ps @ split_on c s \<noteq> []" by simp
  ultimately have "qs = ps @ split_on c s" using split_join [OF qs] split_join s by metis
  then show "strict_prefix ps qs" by (simp add: strict_prefix_def)
qed

lemma suffix_join:
  assumes ps: "ps \<noteq> []" "\<forall>p\<in>set ps. c \<notin> set p" and qs: "qs \<noteq> []" "\<forall>q\<in>set qs. c \<notin> set q"
  shows "suffix (c # join_with c ps) (join_with c qs) \<longleftrightarrow> strict_suffix ps qs"
proof
  assume "strict_suffix ps qs"
  then obtain rs where "qs = rs @ ps" "rs \<noteq> []" by (auto simp: strict_suffix_def suffix_def)
  then show "suffix (c # join_with c ps) (join_with c qs)" using ps(1) by (simp add: join_append suffix_def)
next
  assume "suffix (c # join_with c ps) (join_with c qs)"
  then obtain s where s: "join_with c qs = s @ c # join_with c ps" by (auto simp: suffix_def)
  have "s @ c # join_with c ps = join_with c (split_on c s @ ps)"
    using ps(1) by (simp add: join_append join_split)
  moreover have "\<forall>p\<in>set (split_on c s @ ps). c \<notin> set p" using ps(2) split_on_clean by auto
  moreover have "split_on c s @ ps \<noteq> []" by simp
  ultimately have "qs = split_on c s @ ps" using split_join [OF qs] split_join s by metis
  then show "strict_suffix ps qs" by (simp add: strict_suffix_def suffix_def)
qed

section \<open>Prefixes, suffixes, case\<close>

definition starts_with :: "string \<Rightarrow> string \<Rightarrow> bool" where
  "starts_with s p \<longleftrightarrow> prefix p s"

definition ends_with :: "string \<Rightarrow> string \<Rightarrow> bool" where
  "ends_with s p \<longleftrightarrow> suffix p s"

definition strip_prefix :: "string \<Rightarrow> string \<Rightarrow> string option" where
  "strip_prefix s p = (if prefix p s then Some (drop (length p) s) else None)"

definition strip_suffix :: "string \<Rightarrow> string \<Rightarrow> string option" where
  "strip_suffix s p = (if suffix p s then Some (take (length s - length p) s) else None)"

lemma strip_prefix_Some: "strip_prefix s p = Some r \<longleftrightarrow> s = p @ r"
  by (auto simp: strip_prefix_def prefix_def)

lemma strip_suffix_Some: "strip_suffix s p = Some r \<longleftrightarrow> s = r @ p"
  by (auto simp: strip_suffix_def suffix_def)

lemma strip_suffix_append [simp]: "strip_suffix (r @ p) p = Some r"
  by (simp add: strip_suffix_Some)

lemma strip_prefix_append [simp]: "strip_prefix (p @ r) p = Some r"
  by (simp add: strip_prefix_Some)

definition ascii_lower :: "char \<Rightarrow> char" where
  "ascii_lower c = (let k = of_char c :: nat in if 65 \<le> k \<and> k \<le> 90 then char_of (k + 32) else c)"

definition to_ascii_lowercase :: "string \<Rightarrow> string" where
  "to_ascii_lowercase = map ascii_lower"

lemma ascii_lower_idem [simp]: "ascii_lower (ascii_lower c) = ascii_lower c"
  by (auto simp: ascii_lower_def Let_def)

lemma to_ascii_lowercase_idem [simp]: "to_ascii_lowercase (to_ascii_lowercase s) = to_ascii_lowercase s"
  by (simp add: to_ascii_lowercase_def)

lemma to_ascii_lowercase_append [simp]:
  "to_ascii_lowercase (s @ t) = to_ascii_lowercase s @ to_ascii_lowercase t"
  by (simp add: to_ascii_lowercase_def)

section \<open>Characters, searches and trimming\<close>

definition is_ascii_alphabetic :: "char \<Rightarrow> bool" where
  "is_ascii_alphabetic c = (let k = of_char c :: nat in 65 \<le> k \<and> k \<le> 90 \<or> 97 \<le> k \<and> k \<le> 122)"

definition is_ascii_digit :: "char \<Rightarrow> bool" where
  "is_ascii_digit c = (let k = of_char c :: nat in 48 \<le> k \<and> k \<le> 57)"

text \<open>\<open>s.find(pat)\<close> and \<open>s.rfind(c)\<close>.\<close>
fun find_sub :: "string \<Rightarrow> string \<Rightarrow> nat option" where
  "find_sub pat [] = (if pat = [] then Some 0 else None)"
| "find_sub pat (c # s) = (if prefix pat (c # s) then Some 0 else map_option Suc (find_sub pat s))"

definition rfind_char :: "char \<Rightarrow> string \<Rightarrow> nat option" where
  "rfind_char c s = (case index_of c (rev s) of None \<Rightarrow> None | Some k \<Rightarrow> Some (length s - Suc k))"

text \<open>The bytes of the Unicode white space character a string starts with, \<open>0\<close> if it starts
  with another.\<close>
definition white_len :: "string \<Rightarrow> nat" where
  "white_len s =
    (let b = (\<lambda>k. if k < length s then of_char (s ! k) :: nat else 0) in
     if 9 \<le> b 0 \<and> b 0 \<le> 13 \<or> b 0 = 32 then 1
     else if b 0 = 0xC2 \<and> (b 1 = 0x85 \<or> b 1 = 0xA0) then 2
     else if b 0 = 0xE1 \<and> b 1 = 0x9A \<and> b 2 = 0x80 then 3
     else if b 0 = 0xE2 \<and> b 1 = 0x80 \<and> (0x80 \<le> b 2 \<and> b 2 \<le> 0x8A \<or> b 2 = 0xA8 \<or> b 2 = 0xA9 \<or> b 2 = 0xAF) then 3
     else if b 0 = 0xE2 \<and> b 1 = 0x81 \<and> b 2 = 0x9F then 3
     else if b 0 = 0xE3 \<and> b 1 = 0x80 \<and> b 2 = 0x80 then 3
     else 0)"

lemma white_len_Nil [simp]: "white_len [] = 0"
  by (simp add: white_len_def)

function trim_start :: "string \<Rightarrow> string" where
  "trim_start s = (if s \<noteq> [] \<and> white_len s > 0 then trim_start (drop (white_len s) s) else s)"
  by auto
termination by (relation "measure length") auto

text \<open>The length of the white space character a string ends with.\<close>
definition white_tail :: "string \<Rightarrow> nat" where
  "white_tail s = (case List.find (\<lambda>k. k \<le> length s \<and> white_len (drop (length s - k) s) = k) [1, 2, 3] of
     Some k \<Rightarrow> k | None \<Rightarrow> 0)"

function trim_end :: "string \<Rightarrow> string" where
  "trim_end s = (if s \<noteq> [] \<and> white_tail s > 0 then trim_end (take (length s - white_tail s) s) else s)"
  by auto
termination by (relation "measure length") auto

declare trim_start.simps [simp del] trim_end.simps [simp del]
declare trim_start.simps [code] trim_end.simps [code]

definition trim :: "string \<Rightarrow> string" where
  "trim s = trim_end (trim_start s)"

text \<open>\<open>s.trim_start_matches(p)\<close> for a non-empty pattern: every copy of it at the start goes.\<close>
function trim_start_matches :: "string \<Rightarrow> string \<Rightarrow> string" where
  "trim_start_matches p s = (if p \<noteq> [] \<and> prefix p s then trim_start_matches p (drop (length p) s) else s)"
  by auto
termination by (relation "measure (\<lambda>(p, s). length s)") (auto simp: prefix_def)

declare trim_start_matches.simps [simp del]
declare trim_start_matches.simps [code]

lemma trim_start_matches_done: "\<not> prefix p s \<Longrightarrow> trim_start_matches p s = s"
  by (simp add: trim_start_matches.simps [of p s])

lemma trim_start_matches_once: "p \<noteq> [] \<Longrightarrow> trim_start_matches p (p @ s) = trim_start_matches p s"
  by (simp add: trim_start_matches.simps [of p "p @ s"])

section \<open>Numbers\<close>

definition digit_of :: "char \<Rightarrow> int option" where
  "digit_of c = (let k = of_char c :: int in if 48 \<le> k \<and> k \<le> 57 then Some (k - 48) else None)"

fun digits_value :: "int \<Rightarrow> string \<Rightarrow> int option" where
  "digits_value acc [] = Some acc"
| "digits_value acc (c # cs) = (case digit_of c of
      None \<Rightarrow> None | Some v \<Rightarrow> digits_value (10 * acc + v) cs)"

text \<open>\<open>str::parse::<u64>\<close>: an optional plus sign, at least one digit, no overflow.\<close>
definition parse_u64 :: "string \<Rightarrow> u64 option" where
  "parse_u64 s = (let ds = (case s of [] \<Rightarrow> [] | c # cs \<Rightarrow> if c = CHR ''+'' then cs else s) in
     if ds = [] then None
     else (case digits_value 0 ds of
         None \<Rightarrow> None
       | Some v \<Rightarrow> if v < 2 ^ 64 then Some (word_of_int v) else None))"

text \<open>\<open>format!("{n}")\<close>.\<close>
fun decimal :: "nat \<Rightarrow> string" where
  "decimal n = (if n < 10 then [char_of (48 + n)] else decimal (n div 10) @ [char_of (48 + n mod 10)])"

declare decimal.simps [simp del]

end
