(* ===== verification/Dom_Node.thy ===== *)
theory Dom_Node
  imports Rust_String Dom_Compare Dom_Example
begin

text \<open>
  Operations on one node of the store (\<open>node/node.rs\<close>, \<open>node/attributes.rs\<close>,
  \<open>node/element.rs\<close>, snapshots of \<open>document.rs\<close>): the dirty and damage marks that are
  propagated to the ancestors, element state, attributes.  None of them changes the shape
  of the store; \<open>keeps\<close> says so, and the tree view depends on the shape alone.
\<close>

section \<open>Flags and style data\<close>

definition map_element :: "(element_data \<Rightarrow> element_data) \<Rightarrow> node \<Rightarrow> node" where
  "map_element f n = (case data n of
      Element e \<Rightarrow> n\<lparr>data := Element (f e)\<rparr>
    | AnonymousBlock e \<Rightarrow> n\<lparr>data := AnonymousBlock (f e)\<rparr>
    | _ \<Rightarrow> n)"

definition dirty_descendants_flag :: "node \<Rightarrow> bool option" where
  "dirty_descendants_flag n = (case data n of
      Element e \<Rightarrow> Some (el_dirty_descendants e)
    | AnonymousBlock e \<Rightarrow> Some (el_dirty_descendants e)
    | Document x \<Rightarrow> Some (dd_dirty_descendants x)
    | _ \<Rightarrow> None)"

definition damaged_descendants_flag :: "node \<Rightarrow> bool option" where
  "damaged_descendants_flag n = (case data n of
      Element e \<Rightarrow> Some (el_damaged_descendants e)
    | AnonymousBlock e \<Rightarrow> Some (el_damaged_descendants e)
    | Document x \<Rightarrow> Some (dd_damaged_descendants x)
    | _ \<Rightarrow> None)"

text \<open>\<open>flag.store(v)\<close> on the flag, when the node has one.\<close>
definition set_dirty :: "bool \<Rightarrow> node \<Rightarrow> node" where
  "set_dirty v n = (case data n of
      Document x \<Rightarrow> n\<lparr>data := Document (x\<lparr>dd_dirty_descendants := v\<rparr>)\<rparr>
    | _ \<Rightarrow> map_element (\<lambda>e. e\<lparr>el_dirty_descendants := v\<rparr>) n)"

definition set_damaged :: "bool \<Rightarrow> node \<Rightarrow> node" where
  "set_damaged v n = (case data n of
      Document x \<Rightarrow> n\<lparr>data := Document (x\<lparr>dd_damaged_descendants := v\<rparr>)\<rparr>
    | _ \<Rightarrow> map_element (\<lambda>e. e\<lparr>el_damaged_descendants := v\<rparr>) n)"

definition try_stylo :: "node \<Rightarrow> stylo_data option" where
  "try_stylo n = (case data n of
      Element e \<Rightarrow> el_stylo e
    | AnonymousBlock e \<Rightarrow> el_stylo e
    | Document x \<Rightarrow> dd_stylo x
    | _ \<Rightarrow> None)"

definition map_stylo :: "(stylo_data \<Rightarrow> stylo_data) \<Rightarrow> node \<Rightarrow> node" where
  "map_stylo f n = (case data n of
      Document x \<Rightarrow> n\<lparr>data := Document (x\<lparr>dd_stylo := map_option f (dd_stylo x)\<rparr>)\<rparr>
    | _ \<Rightarrow> map_element (\<lambda>e. e\<lparr>el_stylo := map_option f (el_stylo e)\<rparr>) n)"

definition ALL_DAMAGE :: "16 word" where "ALL_DAMAGE = 0b01111111"

section \<open>Marks propagated to the ancestors\<close>

text \<open>\<open>mark_ancestors_dirty\<close>: walk up, stop at the first ancestor whose flag was set already
  (\<open>swap\<close> returns the old value).\<close>
partial_function (option) mark_dirty_from :: "document \<Rightarrow> node_id option \<Rightarrow> document option" where
  "mark_dirty_from d current = (case current of
      None \<Rightarrow> Some d
    | Some p \<Rightarrow> do {
        n \<leftarrow> node_at d p;
        (case dirty_descendants_flag n of
           None \<Rightarrow> mark_dirty_from d (parent n)
         | Some old \<Rightarrow> if old then Some (update_node p (set_dirty True) d)
                       else mark_dirty_from (update_node p (set_dirty True) d) (parent n)) })"

declare mark_dirty_from.simps [code]

definition mark_ancestors_dirty :: "node_id \<Rightarrow> document \<Rightarrow> document may_panic" where
  "mark_ancestors_dirty i d = do { n \<leftarrow> node_at d i; mark_dirty_from d (parent n) }"

partial_function (option) mark_damaged_from :: "document \<Rightarrow> node_id option \<Rightarrow> document option" where
  "mark_damaged_from d current = (case current of
      None \<Rightarrow> Some d
    | Some p \<Rightarrow> do {
        n \<leftarrow> node_at d p;
        (case damaged_descendants_flag n of
           None \<Rightarrow> mark_damaged_from d (parent n)
         | Some old \<Rightarrow> if old then Some (update_node p (set_damaged True) d)
                       else mark_damaged_from (update_node p (set_damaged True) d) (parent n)) })"

declare mark_damaged_from.simps [code]

definition mark_damaged :: "node_id \<Rightarrow> document \<Rightarrow> document may_panic" where
  "mark_damaged i d = do {
      n \<leftarrow> node_at d i;
      (case damaged_descendants_flag n of
         Some old \<Rightarrow> if old then Some (update_node i (set_damaged True) d)
                     else mark_damaged_from (update_node i (set_damaged True) d) (parent n)
       | None \<Rightarrow> mark_damaged_from d (parent n)) }"

definition insert_damage :: "16 word \<Rightarrow> node_id \<Rightarrow> document \<Rightarrow> document may_panic" where
  "insert_damage dmg i d = do {
      _ \<leftarrow> node_at d i;
      let d' = update_node i (map_stylo (\<lambda>s. s\<lparr>damage := damage s OR dmg\<rparr>)) d;
      if dmg \<noteq> 0 then mark_damaged i d' else Some d' }"

definition set_restyle_hint_style_attribute :: "node_id \<Rightarrow> document \<Rightarrow> document may_panic" where
  "set_restyle_hint_style_attribute i d =
     mark_ancestors_dirty i (update_node i (map_stylo (\<lambda>s. s\<lparr>restyle_style_attribute := True\<rparr>)) d)"

text \<open>\<open>data.hint |= RestyleHint::restyle_subtree()\<close>.\<close>
definition hint_subtree :: "node \<Rightarrow> node" where
  "hint_subtree = map_stylo (\<lambda>s. s\<lparr>restyle_subtree := True\<rparr>)"

section \<open>Element state\<close>

definition hover :: "node_id \<Rightarrow> document \<Rightarrow> document may_panic" where
  "hover i d = mark_ancestors_dirty i
     (update_node i (map_element (\<lambda>e. e\<lparr>el_state := insert HOVER (el_state e)\<rparr>)) d)"

definition unhover :: "node_id \<Rightarrow> document \<Rightarrow> document may_panic" where
  "unhover i d = mark_ancestors_dirty i
     (update_node i (map_element (\<lambda>e. e\<lparr>el_state := el_state e - {HOVER}\<rparr>)) d)"

definition active :: "node_id \<Rightarrow> document \<Rightarrow> document may_panic" where
  "active i d = mark_ancestors_dirty i
     (update_node i (map_element (\<lambda>e. e\<lparr>el_state := insert ACTIVE (el_state e)\<rparr>)) d)"

definition unactive :: "node_id \<Rightarrow> document \<Rightarrow> document may_panic" where
  "unactive i d = mark_ancestors_dirty i
     (update_node i (map_element (\<lambda>e. e\<lparr>el_state := el_state e - {ACTIVE}\<rparr>)) d)"

definition is_text_input :: "node \<Rightarrow> bool" where
  "is_text_input n = (case element_data n of
      None \<Rightarrow> False
    | Some e \<Rightarrow> (case special_data e of TextInput _ \<Rightarrow> True | _ \<Rightarrow> False))"

definition shell :: "shell_call \<Rightarrow> document \<Rightarrow> document" where
  "shell c d = d\<lparr>shell_calls := shell_calls d @ [c]\<rparr>"

definition focus :: "node_id \<Rightarrow> document \<Rightarrow> document may_panic" where
  "focus i d = do {
      d' \<leftarrow> mark_ancestors_dirty i
        (update_node i (map_element (\<lambda>e. e\<lparr>el_state := el_state e \<union> {FOCUS, FOCUSRING}\<rparr>)) d);
      n \<leftarrow> node_at d' i;
      Some (if is_text_input n then shell (SetImeCursorArea i) (shell (SetImeEnabled True) d') else d') }"

definition blur :: "node_id \<Rightarrow> document \<Rightarrow> document may_panic" where
  "blur i d = do {
      d' \<leftarrow> mark_ancestors_dirty i
        (update_node i (map_element (\<lambda>e. e\<lparr>el_state := el_state e - {FOCUS, FOCUSRING}\<rparr>)) d);
      n \<leftarrow> node_at d' i;
      Some (if is_text_input n then shell (SetImeEnabled False) d' else d') }"

definition can_be_disabled :: "element_data \<Rightarrow> bool" where
  "can_be_disabled e \<longleftrightarrow> qn_local (el_name e) \<in> {''button'', ''input'', ''select'', ''textarea''}"

definition disable :: "node_id \<Rightarrow> document \<Rightarrow> document may_panic" where
  "disable i d = mark_ancestors_dirty i (update_node i (map_element (\<lambda>e.
      if can_be_disabled e then e\<lparr>el_state := insert DISABLED (el_state e) - {ENABLED}\<rparr> else e)) d)"

definition enable :: "node_id \<Rightarrow> document \<Rightarrow> document may_panic" where
  "enable i d = mark_ancestors_dirty i (update_node i (map_element (\<lambda>e.
      if can_be_disabled e then e\<lparr>el_state := insert ENABLED (el_state e) - {DISABLED}\<rparr> else e)) d)"

section \<open>Attributes\<close>

definition attrs_get :: "attribute list \<Rightarrow> qual_name \<Rightarrow> attribute option" where
  "attrs_get ats name = List.find (\<lambda>a. attr_name a = name) ats"

fun attrs_set :: "attribute list \<Rightarrow> qual_name \<Rightarrow> string \<Rightarrow> attribute list" where
  "attrs_set [] name v = [\<lparr> attr_name = name, attr_value = v \<rparr>]"
| "attrs_set (a # ats) name v =
     (if attr_name a = name then a\<lparr>attr_value := v\<rparr> # ats else a # attrs_set ats name v)"

fun attrs_remove :: "attribute list \<Rightarrow> qual_name \<Rightarrow> attribute option \<times> attribute list" where
  "attrs_remove [] name = (None, [])"
| "attrs_remove (a # ats) name =
     (if attr_name a = name then (Some a, ats)
      else let (r, ats') = attrs_remove ats name in (r, a # ats'))"

definition is_link :: "element_data \<Rightarrow> bool" where
  "is_link e \<longleftrightarrow> (qn_local (el_name e) = ''a'' \<or> qn_local (el_name e) = ''area'') \<and> el_has_attr e ''href''"

definition flush_link_state :: "element_data \<Rightarrow> element_data" where
  "flush_link_state e = (let s = el_state e - {VISITED, UNVISITED} in
     e\<lparr>el_state := (if is_link e then insert UNVISITED s else s)\<rparr>)"

text \<open>\<open>str::parse::<bool>\<close> and \<open>str::parse::<i32>\<close>.\<close>
definition parse_bool :: "string \<Rightarrow> bool option" where
  "parse_bool s = (if s = ''true'' then Some True else if s = ''false'' then Some False else None)"

definition parse_i32 :: "string \<Rightarrow> int option" where
  "parse_i32 s = (case s of
      [] \<Rightarrow> None
    | c # cs \<Rightarrow>
        let neg = (c = CHR ''-''); rest = (if c = CHR ''-'' \<or> c = CHR ''+'' then cs else s) in
        if rest = [] then None
        else (case digits_value 0 rest of
            None \<Rightarrow> None
          | Some v \<Rightarrow> let w = (if neg then - v else v) in
              if - (2 ^ 31) \<le> w \<and> w < 2 ^ 31 then Some w else None))"

definition flush_is_focussable :: "element_data \<Rightarrow> element_data" where
  "flush_is_focussable e =
    (let disabled = (case Option.bind (el_attr e ''disabled'') parse_bool of None \<Rightarrow> False | Some b \<Rightarrow> b);
         tabindex = Option.bind (el_attr e ''tabindex'') parse_i32;
         contains_sub_document = (special_data e = SubDocument);
         tag = qn_local (el_name e)
     in e\<lparr>is_focussable := contains_sub_document \<or> (\<not> disabled \<and>
          (case tabindex of
             Some index \<Rightarrow> 0 \<le> index
           | None \<Rightarrow> if tag \<in> {''a'', ''area''} then el_attr e ''href'' \<noteq> None
                     else tag \<in> {''button'', ''input'', ''select'', ''textarea'', ''frame'',
                                  ''iframe'', ''summary''}))\<rparr>)"

definition element_new :: "qual_name \<Rightarrow> attribute list \<Rightarrow> element_data" where
  "element_new name ats =
    (let e0 = \<lparr> el_name = name,
        el_id = map_option attr_value (List.find (\<lambda>a. qn_local (attr_name a) = ''id'') ats),
        el_attrs = ats, is_focussable = False, special_data = SpecialNone, template_contents = None,
        el_stylo = None, el_state = {}, el_has_snapshot = False, el_dirty_descendants = True,
        el_damaged_descendants = True, before = None, after = None \<rparr>;
         e1 = flush_link_state (flush_is_focussable e0);
         e2 = (if qn_local (el_name e1) = ''input''
                  \<and> (el_attr e1 ''type'' = Some ''checkbox'' \<or> el_attr e1 ''type'' = Some ''radio'')
                  \<and> el_has_attr e1 ''checked''
               then e1\<lparr>el_state := insert CHECKED (el_state e1)\<rparr> else e1)
     in if can_be_disabled e2
        then e2\<lparr>el_state := insert (if el_has_attr e2 ''disabled'' then DISABLED else ENABLED) (el_state e2)\<rparr>
        else e2)"

definition set_checkbox_input_checked :: "bool \<Rightarrow> element_data \<Rightarrow> element_data" where
  "set_checkbox_input_checked checked e =
    (let e' = (case special_data e of CheckboxInput _ \<Rightarrow> e\<lparr>special_data := CheckboxInput checked\<rparr> | _ \<Rightarrow> e)
     in e'\<lparr>el_state := (if checked then insert CHECKED (el_state e') else el_state e' - {CHECKED})\<rparr>)"

section \<open>Snapshots\<close>

definition element_state :: "node \<Rightarrow> state_flag set may_panic" where
  "element_state n = (case data n of
      Element e \<Rightarrow> Some (el_state e)
    | AnonymousBlock e \<Rightarrow> Some (el_state e)
    | Document x \<Rightarrow> Some (dd_state x)
    | _ \<Rightarrow> None)"

definition set_has_snapshot :: "bool \<Rightarrow> node \<Rightarrow> node" where
  "set_has_snapshot v n = (case data n of
      Document x \<Rightarrow> n\<lparr>data := Document (x\<lparr>dd_has_snapshot := v\<rparr>)\<rparr>
    | _ \<Rightarrow> map_element (\<lambda>e. e\<lparr>el_has_snapshot := v\<rparr>) n)"

definition has_snapshot :: "node \<Rightarrow> bool" where
  "has_snapshot n = (case data n of
      Element e \<Rightarrow> el_has_snapshot e
    | AnonymousBlock e \<Rightarrow> el_has_snapshot e
    | Document x \<Rightarrow> dd_has_snapshot x
    | _ \<Rightarrow> False)"

definition snapshot_node_impl :: "node_id \<Rightarrow> bool \<Rightarrow> document \<Rightarrow> document may_panic" where
  "snapshot_node_impl i capture_attrs d = do {
      n \<leftarrow> node_at d i;
      (case try_stylo n of
         None \<Rightarrow> Some d
       | Some s \<Rightarrow> if \<not> has_primary_styles s then Some d
           else do {
             let d1 = update_node i (set_has_snapshot True) d;
             let needs_attrs = (capture_attrs \<and>
                   (case snapshots d1 i of None \<Rightarrow> True | Some sn \<Rightarrow> snap_attrs sn = None));
             let ats = (if needs_attrs then map_option el_attrs (element_data n) else None);
             (case snapshots d1 i of
                Some sn \<Rightarrow> Some (if needs_attrs
                  then d1\<lparr>snapshots := (snapshots d1)(i \<mapsto> sn\<lparr>snap_attrs := ats, attributes_changed := True\<rparr>)\<rparr>
                  else d1)
              | None \<Rightarrow> do {
                  st \<leftarrow> element_state n;
                  Some (d1\<lparr>snapshots := (snapshots d1)(i \<mapsto>
                    \<lparr> snap_state = st, snap_attrs = ats, attributes_changed = needs_attrs \<rparr>)\<rparr>) }) }) }"

definition snapshot_node :: "node_id \<Rightarrow> document \<Rightarrow> document may_panic" where
  "snapshot_node i = snapshot_node_impl i True"

definition snapshot_node_and ::
    "node_id \<Rightarrow> state_flag set \<Rightarrow> (document \<Rightarrow> document may_panic) \<Rightarrow> document \<Rightarrow> document may_panic" where
  "snapshot_node_and i state cb d = do {
      d' \<leftarrow> (if state \<inter> state_dependencies d \<noteq> {} then snapshot_node_impl i False d else Some d);
      _ \<leftarrow> node_at d' i;
      cb d' }"

section \<open>The shape of the store\<close>

text \<open>\<open>link_shape\<close> is what the tree view and the invariant look at.  \<open>shape\<close> adds the content
  of the node without the runtime state of style and interaction; the operations of this
  theory on marks, state and snapshots leave all of it alone (\<open>keeps\<close>).\<close>
definition link_shape :: "node \<Rightarrow> node_id \<times> node_id option \<times> node_id list \<times> bool \<times> node_id list" where
  "link_shape n = (nid n, parent n, children n, is_anonymous n, anonymous_blocks n)"

definition erase_element :: "element_data \<Rightarrow> element_data" where
  "erase_element e = e\<lparr>el_stylo := None, el_state := {}, el_has_snapshot := False,
     el_dirty_descendants := False, el_damaged_descendants := False\<rparr>"

fun erase :: "node_data \<Rightarrow> node_data" where
  "erase (Document x) = Document \<lparr> dd_stylo = None, dd_state = {}, dd_has_snapshot = False,
     dd_dirty_descendants = False, dd_damaged_descendants = False, dd_keyboard_modality = False \<rparr>"
| "erase (Element e) = Element (erase_element e)"
| "erase (AnonymousBlock e) = AnonymousBlock (erase_element e)"
| "erase (Text t) = Text t"
| "erase (Comment t) = Comment t"

definition shape :: "node \<Rightarrow> node_id \<times> node_id option \<times> node_id list \<times> node_id list \<times> node_data" where
  "shape n = (nid n, parent n, children n, anonymous_blocks n, erase (data n))"

definition same_links :: "document \<Rightarrow> document \<Rightarrow> bool" where
  "same_links d d' \<longleftrightarrow> (\<forall>i. map_option link_shape (nodes d' i) = map_option link_shape (nodes d i))
      \<and> root_node_id d' = root_node_id d \<and> allocated d' = allocated d"

definition keeps :: "document \<Rightarrow> document \<Rightarrow> bool" where
  "keeps d d' \<longleftrightarrow> (\<forall>i. map_option shape (nodes d' i) = map_option shape (nodes d i))
      \<and> root_node_id d' = root_node_id d \<and> allocated d' = allocated d"

lemma keepsI [intro?]:
  "(\<And>i. map_option shape (nodes d' i) = map_option shape (nodes d i)) \<Longrightarrow>
   root_node_id d' = root_node_id d \<Longrightarrow> allocated d' = allocated d \<Longrightarrow> keeps d d'"
  by (simp add: keeps_def)

lemma keeps_refl [simp]: "keeps d d"
  by (simp add: keeps_def)

lemma keeps_trans [trans]: "keeps d d' \<Longrightarrow> keeps d' d'' \<Longrightarrow> keeps d d''"
  by (simp add: keeps_def)

lemma keeps_sym: "keeps d d' \<Longrightarrow> keeps d' d"
  by (simp add: keeps_def)

lemma same_links_refl [simp]: "same_links d d"
  by (simp add: same_links_def)

lemma same_links_trans [trans]: "same_links d d' \<Longrightarrow> same_links d' d'' \<Longrightarrow> same_links d d''"
  by (simp add: same_links_def)

lemma same_links_sym: "same_links d d' \<Longrightarrow> same_links d' d"
  by (simp add: same_links_def)

lemma is_anonymous_erase: "is_anonymous n = (case erase (data n) of AnonymousBlock e \<Rightarrow> True | _ \<Rightarrow> False)"
  by (cases "data n") (simp_all add: is_anonymous_def)

lemma shape_link_shape: "shape n = shape m \<Longrightarrow> link_shape n = link_shape m"
  by (simp add: shape_def link_shape_def is_anonymous_erase)

lemma keeps_same_links [intro]: "keeps d d' \<Longrightarrow> same_links d d'"
proof -
  assume k: "keeps d d'"
  have "map_option link_shape (nodes d' i) = map_option link_shape (nodes d i)" for i
  proof -
    from k have "map_option shape (nodes d' i) = map_option shape (nodes d i)" by (simp add: keeps_def)
    then show ?thesis by (cases "nodes d i"; cases "nodes d' i") (auto dest: shape_link_shape)
  qed
  with k show ?thesis by (simp add: same_links_def keeps_def)
qed

lemma same_links_node:
  assumes "same_links d d'" "nodes d i = Some n"
  obtains n' where "nodes d' i = Some n'" "nid n' = nid n" "parent n' = parent n"
    "children n' = children n" "is_anonymous n' = is_anonymous n" "anonymous_blocks n' = anonymous_blocks n"
proof -
  from assms have "map_option link_shape (nodes d' i) = Some (link_shape n)" by (simp add: same_links_def)
  then obtain n' where "nodes d' i = Some n'" "link_shape n' = link_shape n" by auto
  then show ?thesis using that by (simp add: link_shape_def)
qed

lemma keeps_node:
  assumes "keeps d d'" "nodes d i = Some n"
  obtains n' where "nodes d' i = Some n'" "nid n' = nid n" "parent n' = parent n"
    "children n' = children n" "is_anonymous n' = is_anonymous n" "anonymous_blocks n' = anonymous_blocks n"
  by (rule same_links_node [OF keeps_same_links [OF assms(1)] assms(2)]) (rule that)

lemma keeps_data:
  assumes "keeps d d'" "nodes d i = Some n" "nodes d' i = Some n'"
  shows "erase (data n') = erase (data n)"
proof -
  from assms(1) have "map_option shape (nodes d' i) = map_option shape (nodes d i)" by (simp add: keeps_def)
  with assms(2,3) show ?thesis by (simp add: shape_def)
qed

lemma same_links_dom: "same_links d d' \<Longrightarrow> (nodes d' i = None) = (nodes d i = None)"
  unfolding same_links_def by (metis option.map_disc_iff)

lemma keeps_dom: "keeps d d' \<Longrightarrow> (nodes d' i = None) = (nodes d i = None)"
  by (rule same_links_dom [OF keeps_same_links])

lemma same_links_finite_dom: "same_links d d' \<Longrightarrow> dom (nodes d') = dom (nodes d)"
  using same_links_dom by (auto simp: dom_def)

text \<open>An update of an element that leaves its content alone.\<close>
lemma shape_map_element:
  "(\<And>e. erase_element (f e) = erase_element e) \<Longrightarrow> shape (map_element f n) = shape n"
  by (cases "data n") (simp_all add: map_element_def shape_def)

lemma link_shape_map_element [simp]: "link_shape (map_element f n) = link_shape n"
  by (cases "data n") (simp_all add: map_element_def link_shape_def is_anonymous_def)

lemma erase_element_runtime [simp]:
  "erase_element (e\<lparr>el_stylo := a\<rparr>) = erase_element e" "erase_element (e\<lparr>el_state := b\<rparr>) = erase_element e"
  "erase_element (e\<lparr>el_has_snapshot := c\<rparr>) = erase_element e"
  "erase_element (e\<lparr>el_dirty_descendants := c\<rparr>) = erase_element e"
  "erase_element (e\<lparr>el_damaged_descendants := c\<rparr>) = erase_element e"
  by (simp_all add: erase_element_def)

lemma shape_map_stylo [simp]: "shape (map_stylo f n) = shape n"
  by (cases "data n") (simp_all add: map_stylo_def map_element_def shape_def)

lemma shape_set_dirty [simp]: "shape (set_dirty v n) = shape n"
  by (cases "data n") (simp_all add: set_dirty_def map_element_def shape_def)

lemma shape_set_damaged [simp]: "shape (set_damaged v n) = shape n"
  by (cases "data n") (simp_all add: set_damaged_def map_element_def shape_def)

lemma shape_set_has_snapshot [simp]: "shape (set_has_snapshot v n) = shape n"
  by (cases "data n") (simp_all add: set_has_snapshot_def map_element_def shape_def)

lemma shape_hint_subtree [simp]: "shape (hint_subtree n) = shape n"
  by (simp add: hint_subtree_def)

lemma shape_flags [simp]: "shape (n\<lparr>flags := f\<rparr>) = shape n"
  by (simp add: shape_def)

lemma keeps_update [intro]: "(\<And>n. shape (f n) = shape n) \<Longrightarrow> keeps d (update_node i f d)"
  by (rule keepsI) (auto simp: option.map_comp comp_def)

lemma keeps_update_trans: "(\<And>n. shape (f n) = shape n) \<Longrightarrow> keeps d d' \<Longrightarrow> keeps d (update_node i f d')"
  by (meson keeps_trans keeps_update)

lemma same_links_update: "(\<And>n. link_shape (f n) = link_shape n) \<Longrightarrow> same_links d (update_node i f d)"
  by (auto simp: same_links_def option.map_comp comp_def)

text \<open>The parent pointers lead somewhere: what the walks to the root need.\<close>
definition parents_ok :: "document \<Rightarrow> bool" where
  "parents_ok d \<longleftrightarrow> finite (dom (nodes d)) \<and> acyclic (parent_edges d)
     \<and> (\<forall>i n p. nodes d i = Some n \<longrightarrow> parent n = Some p \<longrightarrow> nodes d p \<noteq> None)"

lemma wf_doc_parents_ok: "wf_doc d \<Longrightarrow> parents_ok d"
  by (force simp: wf_doc_def parents_ok_def wf_node_def)

lemma parent_edges_link_shape:
  "parent_edges d = {(i, p). \<exists>s. map_option link_shape (nodes d i) = Some s \<and> fst (snd s) = Some p}"
  by (auto simp: parent_edges_def link_shape_def)

lemma same_links_parent_edges: "same_links d d' \<Longrightarrow> parent_edges d' = parent_edges d"
  unfolding parent_edges_link_shape same_links_def by simp

lemma same_links_parents_ok:
  assumes "same_links d d'" "parents_ok d" shows "parents_ok d'"
proof -
  have "nodes d' p \<noteq> None" if "nodes d' i = Some n" "parent n = Some p" for i n p
  proof -
    from same_links_node [OF same_links_sym [OF assms(1)] that(1)] that(2) obtain m where
      "nodes d i = Some m" "parent m = Some p" by metis
    with assms(2) have "nodes d p \<noteq> None" by (auto simp: parents_ok_def)
    with same_links_dom [OF assms(1)] show ?thesis by simp
  qed
  with assms show ?thesis
    by (auto simp: parents_ok_def same_links_finite_dom same_links_parent_edges)
qed

lemmas keeps_parents_ok = same_links_parents_ok [OF keeps_same_links]

lemma same_links_wf_node:
  assumes "same_links d d'" "nodes d i = Some n" "nodes d' i = Some n'" "wf_node d i n"
  shows "wf_node d' i n'"
proof -
  from same_links_node [OF assms(1,2)] assms(3) have n': "nid n' = nid n" "parent n' = parent n"
    "children n' = children n" "is_anonymous n' = is_anonymous n" by auto
  have kids: "\<exists>m. nodes d' c = Some m \<and> parent m = Some i" if "c \<in> set (children n)" for c
  proof -
    from assms(4) that obtain m where "nodes d c = Some m" "parent m = Some i" by (auto simp: wf_node_def)
    with same_links_node [OF assms(1) this(1)] show ?thesis by metis
  qed
  have par: "\<exists>m. nodes d' p = Some m \<and> (is_anonymous n \<or> i \<in> set (children m))" if "parent n = Some p" for p
  proof -
    from assms(4) that obtain m where "nodes d p = Some m" "is_anonymous n \<or> i \<in> set (children m)"
      by (auto simp: wf_node_def)
    with same_links_node [OF assms(1) this(1)] show ?thesis by metis
  qed
  from kids par assms(4) show ?thesis by (simp add: wf_node_def n')
qed

lemma same_links_wf_doc:
  assumes "same_links d d'" "wf_doc d" shows "wf_doc d'"
proof -
  have "wf_node d' i n'" if "nodes d' i = Some n'" for i n'
  proof -
    from that same_links_dom [OF assms(1), of i] obtain n where "nodes d i = Some n" by (cases "nodes d i") auto
    with same_links_wf_node [OF assms(1) this that] assms(2) show ?thesis by (simp add: wf_doc_def)
  qed
  moreover obtain r where "nodes d (root_node_id d) = Some r" "parent r = None"
    using assms(2) by (auto simp: wf_doc_def)
  ultimately show ?thesis
    using assms same_links_node [OF assms(1)]
    by (simp add: wf_doc_def same_links_finite_dom same_links_parent_edges) (metis same_links_def)
qed

lemmas keeps_wf_doc = same_links_wf_doc [OF keeps_same_links]

lemma same_links_represents: "same_links d d' \<Longrightarrow> represents d p t \<Longrightarrow> represents d' p t"
proof (induction t arbitrary: p)
  case (T i ts)
  from T.prems(2) obtain n where n: "nodes d i = Some n" "nid n = i" "parent n = p"
    "children n = map root ts" "\<forall>s\<in>set ts. represents d (Some i) s" by (auto split: option.splits)
  from same_links_node [OF T.prems(1) n(1)] obtain n' where
    "nodes d' i = Some n'" "nid n' = i" "parent n' = p" "children n' = map root ts"
    using n by metis
  with T.IH T.prems(1) n(5) show ?case by simp
qed

lemmas keeps_represents = same_links_represents [OF keeps_same_links]

section \<open>The walks end and keep the shape\<close>

lemma parents_ok_wf: "parents_ok d \<Longrightarrow> wf ((parent_edges d)\<inverse>)"
  by (simp add: parents_ok_def finite_parent_edges finite_acyclic_wf_converse)

text \<open>Induction along the parent pointers of a store, for walks that update it on the way.\<close>
lemma up_induct [consumes 2, case_names step]:
  assumes ok: "parents_ok d" and live: "nodes d i \<noteq> None"
    and step: "\<And>i n. nodes d i = Some n \<Longrightarrow>
          (\<And>p. parent n = Some p \<Longrightarrow> nodes d p \<noteq> None \<Longrightarrow> P p) \<Longrightarrow> P i"
  shows "P i"
  using live
proof (induction i rule: wf_induct_rule [OF parents_ok_wf [OF ok]])
  case (1 i)
  then obtain n where n: "nodes d i = Some n" by auto
  show ?case
  proof (rule step [OF n])
    fix p assume p: "parent n = Some p" "nodes d p \<noteq> None"
    with n have "(p, i) \<in> (parent_edges d)\<inverse>" by (simp add: parent_edges_def)
    from 1(1) [OF this p(2)] show "P p" .
  qed
qed

lemma mark_dirty_from_keeps:
  assumes "parents_ok d" "nodes d p \<noteq> None"
  shows "keeps d d1 \<Longrightarrow> \<exists>d'. mark_dirty_from d1 (Some p) = Some d' \<and> keeps d d'"
  using assms
proof (induction p arbitrary: d1 rule: up_induct)
  case (step p n)
  from keeps_node [OF step.prems step.hyps(1)] obtain n1 where
    n1: "nodes d1 p = Some n1" "parent n1 = parent n" by metis
  have up: "keeps d d2 \<Longrightarrow> \<exists>d'. mark_dirty_from d2 (parent n) = Some d' \<and> keeps d d'" for d2
  proof (cases "parent n")
    case None
    assume "keeps d d2"
    then show ?thesis by (subst mark_dirty_from.simps) (simp add: None)
  next
    case (Some q)
    assume k: "keeps d d2"
    have "nodes d q \<noteq> None" using assms(1) step.hyps(1) Some by (auto simp: parents_ok_def)
    from step.IH [OF Some this k] show ?thesis by (simp add: Some)
  qed
  have k: "keeps d (update_node p (set_dirty True) d1)"
    by (rule keeps_update_trans) (simp_all add: step.prems)
  show ?case
    using up [OF k] up [OF step.prems] k
    by (subst mark_dirty_from.simps) (auto simp: node_at_simp n1 split: option.splits)
qed

lemma mark_dirty_up_keeps:
  assumes "parents_ok d" "nodes d i = Some n" "keeps d d1"
  shows "\<exists>d'. mark_dirty_from d1 (parent n) = Some d' \<and> keeps d d'"
proof (cases "parent n")
  case None
  then show ?thesis using assms(3) by (subst mark_dirty_from.simps) simp
next
  case (Some q)
  then have "nodes d q \<noteq> None" using assms(1,2) by (auto simp: parents_ok_def)
  from mark_dirty_from_keeps [OF assms(1) this assms(3)] Some show ?thesis by simp
qed

lemma mark_ancestors_dirty_keeps:
  assumes "parents_ok d" "nodes d i \<noteq> None" "keeps d d1"
  shows "\<exists>d'. mark_ancestors_dirty i d1 = Some d' \<and> keeps d d'"
proof -
  from assms(2) obtain n where n: "nodes d i = Some n" by auto
  from keeps_node [OF assms(3) n] obtain n1 where "nodes d1 i = Some n1" "parent n1 = parent n" by metis
  with mark_dirty_up_keeps [OF assms(1) n assms(3)] show ?thesis
    by (simp add: mark_ancestors_dirty_def node_at_simp)
qed

lemma mark_damaged_from_keeps:
  assumes "parents_ok d" "nodes d p \<noteq> None"
  shows "keeps d d1 \<Longrightarrow> \<exists>d'. mark_damaged_from d1 (Some p) = Some d' \<and> keeps d d'"
  using assms
proof (induction p arbitrary: d1 rule: up_induct)
  case (step p n)
  from keeps_node [OF step.prems step.hyps(1)] obtain n1 where
    n1: "nodes d1 p = Some n1" "parent n1 = parent n" by metis
  have up: "keeps d d2 \<Longrightarrow> \<exists>d'. mark_damaged_from d2 (parent n) = Some d' \<and> keeps d d'" for d2
  proof (cases "parent n")
    case None
    assume "keeps d d2"
    then show ?thesis by (subst mark_damaged_from.simps) (simp add: None)
  next
    case (Some q)
    assume k: "keeps d d2"
    have "nodes d q \<noteq> None" using assms(1) step.hyps(1) Some by (auto simp: parents_ok_def)
    from step.IH [OF Some this k] show ?thesis by (simp add: Some)
  qed
  have k: "keeps d (update_node p (set_damaged True) d1)"
    by (rule keeps_update_trans) (simp_all add: step.prems)
  show ?case
    using up [OF k] up [OF step.prems] k
    by (subst mark_damaged_from.simps) (auto simp: node_at_simp n1 split: option.splits)
qed

lemma mark_damaged_keeps:
  assumes "parents_ok d" "nodes d i \<noteq> None" "keeps d d1"
  shows "\<exists>d'. mark_damaged i d1 = Some d' \<and> keeps d d'"
proof -
  from assms(2) obtain n where n: "nodes d i = Some n" by auto
  from keeps_node [OF assms(3) n] obtain n1 where n1: "nodes d1 i = Some n1" "parent n1 = parent n" by metis
  have up: "\<exists>d'. mark_damaged_from d2 (parent n) = Some d' \<and> keeps d d'" if k: "keeps d d2" for d2
  proof (cases "parent n")
    case None
    then show ?thesis using k by (subst mark_damaged_from.simps) simp
  next
    case (Some q)
    then have "nodes d q \<noteq> None" using assms(1) n by (auto simp: parents_ok_def)
    from mark_damaged_from_keeps [OF assms(1) this k] Some show ?thesis by simp
  qed
  have k: "keeps d (update_node i (set_damaged True) d1)"
    by (rule keeps_update_trans) (simp_all add: assms(3))
  show ?thesis using up [OF k] up [OF assms(3)] k
    by (auto simp: mark_damaged_def node_at_simp n1 split: option.splits)
qed

lemma insert_damage_keeps:
  assumes "parents_ok d" "nodes d i \<noteq> None" "keeps d d1"
  shows "\<exists>d'. insert_damage dmg i d1 = Some d' \<and> keeps d d'"
proof -
  have k: "keeps d (update_node i (map_stylo f) d1)" for f
    by (rule keeps_update_trans) (simp_all add: assms(3))
  have "nodes d1 i \<noteq> None" using keeps_dom [OF assms(3)] assms(2) by simp
  then show ?thesis
    using mark_damaged_keeps [OF assms(1,2) k] k by (auto simp: insert_damage_def node_at_simp Let_def)
qed

lemma state_change_keeps:
  assumes "parents_ok d" "nodes d i \<noteq> None" "keeps d d1"
  shows "\<exists>d'. hover i d1 = Some d' \<and> keeps d d'" "\<exists>d'. unhover i d1 = Some d' \<and> keeps d d'"
    "\<exists>d'. active i d1 = Some d' \<and> keeps d d'" "\<exists>d'. unactive i d1 = Some d' \<and> keeps d d'"
    "\<exists>d'. disable i d1 = Some d' \<and> keeps d d'" "\<exists>d'. enable i d1 = Some d' \<and> keeps d d'"
proof -
  have k: "keeps d (update_node i (map_element f) d1)" if "\<And>e. erase_element (f e) = erase_element e" for f
    by (rule keeps_update_trans) (simp_all add: assms(3) shape_map_element that)
  note mark = mark_ancestors_dirty_keeps [OF assms(1,2) k]
  show "\<exists>d'. hover i d1 = Some d' \<and> keeps d d'" "\<exists>d'. unhover i d1 = Some d' \<and> keeps d d'"
    "\<exists>d'. active i d1 = Some d' \<and> keeps d d'" "\<exists>d'. unactive i d1 = Some d' \<and> keeps d d'"
    "\<exists>d'. disable i d1 = Some d' \<and> keeps d d'" "\<exists>d'. enable i d1 = Some d' \<and> keeps d d'"
    unfolding hover_def unhover_def active_def unactive_def disable_def enable_def by (rule mark; simp)+
qed

lemma shell_fields [simp]:
  "nodes (shell c d) = nodes d" "root_node_id (shell c d) = root_node_id d"
  "allocated (shell c d) = allocated d" "focus_node_id (shell c d) = focus_node_id d"
  by (simp_all add: shell_def)

lemma keeps_shell [simp]: "keeps d (shell c d') \<longleftrightarrow> keeps d d'"
  by (simp add: keeps_def)

lemma blur_keeps:
  assumes "parents_ok d" "nodes d i \<noteq> None" "keeps d d1"
  shows "\<exists>d'. blur i d1 = Some d' \<and> keeps d d'" "\<exists>d'. focus i d1 = Some d' \<and> keeps d d'"
proof -
  have mark: "\<exists>d' n. mark_ancestors_dirty i (update_node i (map_element f) d1) = Some d' \<and> keeps d d'
      \<and> nodes d' i = Some n" if f: "\<And>e. erase_element (f e) = erase_element e" for f
  proof -
    have "keeps d (update_node i (map_element f) d1)"
      by (rule keeps_update_trans) (simp_all add: assms(3) shape_map_element f)
    then obtain d' where d': "mark_ancestors_dirty i (update_node i (map_element f) d1) = Some d'" "keeps d d'"
      using mark_ancestors_dirty_keeps [OF assms(1,2)] by blast
    moreover have "nodes d' i \<noteq> None" using keeps_dom [OF d'(2)] assms(2) by simp
    ultimately show ?thesis by blast
  qed
  show "\<exists>d'. blur i d1 = Some d' \<and> keeps d d'"
    using mark [of "\<lambda>e. e\<lparr>el_state := el_state e - {FOCUS, FOCUSRING}\<rparr>"]
    by (auto simp: blur_def node_at_simp)
  show "\<exists>d'. focus i d1 = Some d' \<and> keeps d d'"
    using mark [of "\<lambda>e. e\<lparr>el_state := el_state e \<union> {FOCUS, FOCUSRING}\<rparr>"]
    by (auto simp: focus_def node_at_simp)
qed

section \<open>The early exit\<close>

definition above :: "document \<Rightarrow> node_id \<Rightarrow> node_id set" where
  "above d i = {a. (i, a) \<in> (parent_edges d)\<^sup>+}"

definition dirty_at :: "document \<Rightarrow> node_id \<Rightarrow> bool option" where
  "dirty_at d i = Option.bind (nodes d i) dirty_descendants_flag"

text \<open>What the early exit relies on: above an ancestor that is marked, all are marked.\<close>
definition dirty_closed_above :: "document \<Rightarrow> node_id \<Rightarrow> bool" where
  "dirty_closed_above d i \<longleftrightarrow>
     (\<forall>a\<in>above d i. dirty_at d a = Some True \<longrightarrow> (\<forall>b\<in>above d a. dirty_at d b \<noteq> Some False))"

lemma above_parent:
  assumes "nodes d i = Some n" "parent n = Some p"
  shows "above d i = insert p (above d p)"
proof -
  have e: "(i, p) \<in> parent_edges d" using assms by (simp add: parent_edges_def)
  have "(i, a) \<in> (parent_edges d)\<^sup>+ \<longleftrightarrow> p = a \<or> (p, a) \<in> (parent_edges d)\<^sup>+" for a
    using e single_valuedD [OF parent_edges_single_valued e]
    by (metis r_into_trancl trancl_into_trancl2 tranclD rtrancl_eq_or_trancl)
  then show ?thesis by (auto simp: above_def)
qed

lemma above_root: "nodes d i = Some n \<Longrightarrow> parent n = None \<Longrightarrow> above d i = {}"
  by (auto simp: above_def parent_edges_def dest: tranclD)

lemma above_irrefl: "acyclic (parent_edges d) \<Longrightarrow> i \<notin> above d i"
  by (simp add: above_def acyclic_def)

lemma dirty_set [simp]:
  "dirty_descendants_flag (set_dirty v n) = map_option (\<lambda>_. v) (dirty_descendants_flag n)"
  by (cases "data n") (simp_all add: set_dirty_def dirty_descendants_flag_def map_element_def)

lemma mark_dirty_from_complete:
  assumes ok: "parents_ok d" and live: "nodes d p \<noteq> None"
  shows "(\<forall>a\<in>insert p (above d p). nodes d1 a = nodes d a) \<Longrightarrow>
    (\<forall>a\<in>insert p (above d p). dirty_at d a = Some True \<longrightarrow> (\<forall>b\<in>above d a. dirty_at d b \<noteq> Some False)) \<Longrightarrow>
    \<exists>d'. mark_dirty_from d1 (Some p) = Some d'
       \<and> (\<forall>a\<in>insert p (above d p). dirty_at d' a \<noteq> Some False)
       \<and> (\<forall>j. j \<notin> insert p (above d p) \<longrightarrow> nodes d' j = nodes d1 j)"
  using ok live
proof (induction p arbitrary: d1 rule: up_induct)
  case (step p n)
  have n1: "nodes d1 p = Some n" using step.prems(1) step.hyps(1) by simp
  have irr: "p \<notin> above d p" using ok above_irrefl by (simp add: parents_ok_def)
  have rec: "\<exists>d'. mark_dirty_from d2 (parent n) = Some d' \<and> (\<forall>a\<in>above d p. dirty_at d' a \<noteq> Some False)
      \<and> (\<forall>j. j \<notin> above d p \<longrightarrow> nodes d' j = nodes d2 j)"
    if d2: "\<forall>a\<in>above d p. nodes d2 a = nodes d a" for d2
  proof (cases "parent n")
    case None
    then show ?thesis using above_root [OF step.hyps(1)] by (subst mark_dirty_from.simps) simp
  next
    case (Some q)
    note ab = above_parent [OF step.hyps(1) Some]
    have q: "nodes d q \<noteq> None" using ok step.hyps(1) Some by (auto simp: parents_ok_def)
    from step.IH [OF Some q, of d2] d2 step.prems(2) show ?thesis by (simp add: Some ab)
  qed
  let ?d2 = "update_node p (set_dirty True) d1"
  have d2: "\<forall>a\<in>above d p. nodes ?d2 a = nodes d a" using step.prems(1) irr by auto
  show ?case
  proof (cases "dirty_descendants_flag n")
    case None
    have "\<forall>a\<in>above d p. nodes d1 a = nodes d a" using step.prems(1) by simp
    from rec [OF this] obtain d' where d': "mark_dirty_from d1 (parent n) = Some d'"
      "\<forall>a\<in>above d p. dirty_at d' a \<noteq> Some False" "\<forall>j. j \<notin> above d p \<longrightarrow> nodes d' j = nodes d1 j" by blast
    moreover have "dirty_at d' p = None" using d'(3) irr n1 None by (simp add: dirty_at_def)
    ultimately show ?thesis
      by (subst mark_dirty_from.simps) (simp add: node_at_simp n1 None)
  next
    case (Some old)
    have here: "dirty_at ?d2 p = Some True" by (simp add: dirty_at_def n1 Some)
    show ?thesis
    proof (cases old)
      case True
      then have "dirty_at d p = Some True" using Some step.hyps(1) by (simp add: dirty_at_def)
      with step.prems(2) have "\<forall>b\<in>above d p. dirty_at d b \<noteq> Some False" by blast
      moreover have "\<forall>b\<in>above d p. dirty_at ?d2 b = dirty_at d b" using d2 by (simp add: dirty_at_def)
      ultimately show ?thesis using here Some True
        by (subst mark_dirty_from.simps) (simp add: node_at_simp n1)
    next
      case False
      from rec [OF d2] obtain d' where d': "mark_dirty_from ?d2 (parent n) = Some d'"
        "\<forall>a\<in>above d p. dirty_at d' a \<noteq> Some False" "\<forall>j. j \<notin> above d p \<longrightarrow> nodes d' j = nodes ?d2 j" by blast
      moreover have "dirty_at d' p = Some True" using d'(3) irr here by (simp add: dirty_at_def)
      ultimately show ?thesis using Some False
        by (subst mark_dirty_from.simps) (simp add: node_at_simp n1)
    qed
  qed
qed

text \<open>When the marks above the node are closed upward, the early exit loses nothing.\<close>
lemma mark_ancestors_dirty_complete:
  assumes "parents_ok d" "nodes d i = Some n" "dirty_closed_above d i"
  shows "\<exists>d'. mark_ancestors_dirty i d = Some d' \<and> keeps d d'
       \<and> (\<forall>a\<in>above d i. dirty_at d' a \<noteq> Some False)
       \<and> (\<forall>j. j \<notin> above d i \<longrightarrow> nodes d' j = nodes d j)"
proof (cases "parent n")
  case None
  then show ?thesis using above_root [OF assms(2) None] assms(2)
    by (simp add: mark_ancestors_dirty_def node_at_simp mark_dirty_from.simps)
next
  case (Some p)
  have p: "nodes d p \<noteq> None" using assms(1,2) Some by (auto simp: parents_ok_def)
  note ab = above_parent [OF assms(2) Some]
  from mark_dirty_from_complete [OF assms(1) p, of d] assms(3)
  obtain d' where d': "mark_dirty_from d (Some p) = Some d'"
    "\<forall>a\<in>above d i. dirty_at d' a \<noteq> Some False" "\<forall>j. j \<notin> above d i \<longrightarrow> nodes d' j = nodes d j"
    by (auto simp: dirty_closed_above_def ab)
  moreover have "keeps d d'"
    using mark_dirty_from_keeps [OF assms(1) p keeps_refl] d'(1) by simp
  ultimately show ?thesis using Some assms(2) by (auto simp: mark_ancestors_dirty_def node_at_simp)
qed

text \<open>The ancestors that the walk reaches: none below them was marked already.\<close>
definition reached :: "document \<Rightarrow> node_id set \<Rightarrow> node_id \<Rightarrow> bool" where
  "reached d A a \<longleftrightarrow> a \<in> A \<and> (\<forall>b\<in>A. a \<in> above d b \<longrightarrow> dirty_at d b \<noteq> Some True)"

lemma set_dirty_flagless: "dirty_descendants_flag n = None \<Longrightarrow> set_dirty v n = n"
  by (cases "data n") (simp_all add: dirty_descendants_flag_def set_dirty_def map_element_def)

lemma above_trans: "b \<in> above d p \<Longrightarrow> a \<in> above d b \<Longrightarrow> a \<in> above d p"
  unfolding above_def by auto

lemma reached_step:
  assumes ac: "acyclic (parent_edges d)" and n: "nodes d p = Some n"
  shows "reached d (insert p (above d p)) a \<longleftrightarrow> a = p \<or> dirty_at d p \<noteq> Some True \<and> reached d (above d p) a"
proof (cases "a = p")
  case True
  have "p \<notin> above d b" if "b \<in> insert p (above d p)" for b
    using that above_irrefl [OF ac] above_trans by blast
  then show ?thesis using True by (auto simp: reached_def)
qed (auto simp: reached_def)

lemma mark_dirty_from_reached:
  assumes ok: "parents_ok d" and live: "nodes d p \<noteq> None"
  shows "(\<forall>a\<in>insert p (above d p). nodes d1 a = nodes d a) \<Longrightarrow>
    \<exists>d'. mark_dirty_from d1 (Some p) = Some d'
       \<and> (\<forall>a. nodes d' a = (if reached d (insert p (above d p)) a then map_option (set_dirty True) (nodes d1 a) else nodes d1 a))"
  using ok live
proof (induction p arbitrary: d1 rule: up_induct)
  case (step p n)
  have ac: "acyclic (parent_edges d)" using ok by (simp add: parents_ok_def)
  have n1: "nodes d1 p = Some n" using step.prems(1) step.hyps(1) by simp
  have irr: "p \<notin> above d p" by (rule above_irrefl [OF ac])
  note R = reached_step [OF ac step.hyps(1)]
  have rec: "\<exists>d'. mark_dirty_from d2 (parent n) = Some d'
      \<and> (\<forall>a. nodes d' a = (if reached d (above d p) a then map_option (set_dirty True) (nodes d2 a) else nodes d2 a))"
    if d2: "\<forall>a\<in>above d p. nodes d2 a = nodes d a" for d2
  proof (cases "parent n")
    case None
    then show ?thesis using above_root [OF step.hyps(1)] by (subst mark_dirty_from.simps) (simp add: reached_def)
  next
    case (Some q)
    note ab = above_parent [OF step.hyps(1) Some]
    have q: "nodes d q \<noteq> None" using ok step.hyps(1) Some by (auto simp: parents_ok_def)
    from step.IH [OF Some q, of d2] d2 show ?thesis by (simp add: Some ab)
  qed
  let ?d2 = "update_node p (set_dirty True) d1"
  have d2: "\<forall>a\<in>above d p. nodes ?d2 a = nodes d a" using step.prems(1) irr by auto
  have np: "\<not> reached d (above d p) p" using irr by (simp add: reached_def)
  show ?case
  proof (cases "dirty_descendants_flag n")
    case None
    have "\<forall>a\<in>above d p. nodes d1 a = nodes d a" using step.prems(1) by simp
    from rec [OF this] obtain d' where d': "mark_dirty_from d1 (parent n) = Some d'"
      "\<forall>a. nodes d' a = (if reached d (above d p) a then map_option (set_dirty True) (nodes d1 a) else nodes d1 a)" by blast
    have "dirty_at d p \<noteq> Some True" using None step.hyps(1) by (simp add: dirty_at_def)
    then show ?thesis using d' np set_dirty_flagless [OF None]
      by (subst mark_dirty_from.simps) (auto simp: node_at_simp n1 None R)
  next
    case (Some old)
    show ?thesis
    proof (cases old)
      case True
      then have "dirty_at d p = Some True" using Some step.hyps(1) by (simp add: dirty_at_def)
      then show ?thesis using Some True by (subst mark_dirty_from.simps) (auto simp: node_at_simp n1 R)
    next
      case False
      then have "dirty_at d p \<noteq> Some True" using Some step.hyps(1) by (simp add: dirty_at_def)
      moreover from rec [OF d2] obtain d' where "mark_dirty_from ?d2 (parent n) = Some d'"
        "\<forall>a. nodes d' a = (if reached d (above d p) a then map_option (set_dirty True) (nodes ?d2 a) else nodes ?d2 a)" by blast
      ultimately show ?thesis using Some False np
        by (subst mark_dirty_from.simps) (auto simp: node_at_simp n1 R)
    qed
  qed
qed

text \<open>C2. What \<open>mark_ancestors_dirty\<close> marks.  Where parents are live and acyclic it returns, and sets
  the flag of exactly those ancestors below which, on the way up from the node, no ancestor was marked
  before; nothing else of any node changes, and nothing else of the document that the tree depends on.\<close>
theorem mark_ancestors_dirty_exact:
  assumes "parents_ok d" "nodes d i = Some n"
  shows "\<exists>d'. mark_ancestors_dirty i d = Some d' \<and> keeps d d'
       \<and> (\<forall>a. nodes d' a = (if a \<in> above d i \<and> \<not> (\<exists>b\<in>above d i. a \<in> above d b \<and> dirty_at d b = Some True)
            then map_option (set_dirty True) (nodes d a) else nodes d a))"
proof (cases "parent n")
  case None
  then show ?thesis using above_root [OF assms(2) None] assms(2)
    by (simp add: mark_ancestors_dirty_def node_at_simp mark_dirty_from.simps)
next
  case (Some p)
  have p: "nodes d p \<noteq> None" using assms(1,2) Some by (auto simp: parents_ok_def)
  note ab = above_parent [OF assms(2) Some]
  from mark_dirty_from_reached [OF assms(1) p, of d]
  obtain d' where d': "mark_dirty_from d (Some p) = Some d'"
    "\<forall>a. nodes d' a = (if reached d (above d i) a then map_option (set_dirty True) (nodes d a) else nodes d a)"
    by (auto simp: ab)
  moreover have "keeps d d'"
    using mark_dirty_from_keeps [OF assms(1) p keeps_refl] d'(1) by simp
  moreover have "reached d (above d i) a \<longleftrightarrow> a \<in> above d i \<and> \<not> (\<exists>b\<in>above d i. a \<in> above d b \<and> dirty_at d b = Some True)" for a
    by (auto simp: reached_def)
  ultimately show ?thesis using Some assms(2) by (auto simp: mark_ancestors_dirty_def node_at_simp)
qed

theorem mark_ancestors_dirty_exact_witness:
  "\<exists>d'. mark_ancestors_dirty n7 ex_doc = Some d' \<and> dirty_at d' n5 = Some True \<and> dirty_at d' n1 = Some True
     \<and> nodes d' n6 = nodes ex_doc n6"
proof -
  have ab: "above ex_doc n7 = {n5, n3, n2, n1}" "above ex_doc n5 = {n3, n2, n1}" "above ex_doc n3 = {n2, n1}"
    "above ex_doc n2 = {n1}" "above ex_doc n1 = {}"
    using above_parent [OF ex_nodes(7)] above_parent [OF ex_nodes(5)] above_parent [OF ex_nodes(3)]
      above_parent [OF ex_nodes(2)] above_root [OF ex_nodes(1)] by simp_all
  have "\<forall>b\<in>{n5, n3, n2, n1}. dirty_at ex_doc b = Some False"
    by (simp add: dirty_at_def dirty_descendants_flag_def ex_element_def ex_document_data_def)
  with mark_ancestors_dirty_exact [OF wf_doc_parents_ok [OF ex_wf_doc] ex_nodes(7)]
  show ?thesis by (auto simp: ab dirty_at_def)
qed

text \<open>The early exit relies on marks that are closed upward.  They need not be: a new element starts
  marked and may be put below an element that is not, which is then never reached from below.\<close>
lemma early_exit_stops_short:
  "map_option (\<lambda>d'. (dirty_at d' n5, dirty_at d' n3))
     (mark_ancestors_dirty n7 (update_node n5 (set_dirty True) ex_doc)) = Some (Some True, Some False)"
  by code_simp

end
