(* ===== verification/Dom_Mutation.thy ===== *)
theory Dom_Mutation
  imports Dom_Node
begin

text \<open>
  The mutation API of the DOM: \<open>strake-dom/src/mutator.rs\<close>, with what it calls in
  \<open>document.rs\<close> (node creation, dropping, the teardown of interaction state) and
  \<open>form.rs\<close> (\<open>reset_form_owner\<close>).

  A \<open>DocumentMutator\<close> is the record \<open>mutator\<close>; every method is a function on it whose
  \<open>None\<close> is a panic or a walk that does not end.  The calls to the embedder's hooks are the
  list \<open>hook_calls\<close> of the document, in the order they are made.  Ids come from the slot
  map, which is not under \<open>src/\<close>: \<open>alloc k\<close> is the id the \<open>k\<close>-th insertion gets.  Fetching
  resources and stylesheets is not modelled: an operation that starts or ends one appends
  itself to \<open>resource_log\<close>.  \<open>flush_eager_ops\<close> and \<open>add_children_to_parent\<close> call each other;
  the latter takes the former as its argument, and the nesting depth is the fuel of
  \<open>flush_eager_ops\<close>.
\<close>

section \<open>The mutator\<close>

datatype special_op =
    LoadImage node_id
  | LoadIframe node_id
  | LoadStylesheet node_id
  | UnloadStylesheet node_id
  | LoadCustomPaintSource node_id
  | ProcessButtonInput node_id
  | UnloadSubDocument node_id
  | UnloadCustomWidget node_id
  | ProcessStyleElement node_id

record mutator =
  m_doc :: document
  eager_op_queue :: "special_op list"
  title_node :: "node_id option"
  style_nodes :: "node_id set"
  form_nodes :: "node_id set"
  recompute_is_animating :: bool
  mutations_occurred :: bool
  node_to_autofocus :: "node_id option"
  resource_log :: "special_op list"

type_synonym mut_op = "mutator \<Rightarrow> mutator may_panic"

definition mutate :: "document \<Rightarrow> mutator" where
  "mutate d = \<lparr> m_doc = d, eager_op_queue = [], title_node = None, style_nodes = {}, form_nodes = {},
     recompute_is_animating = False, mutations_occurred = False, node_to_autofocus = None, resource_log = [] \<rparr>"

text \<open>A step of the document inside the mutator.\<close>
definition on_doc :: "(document \<Rightarrow> document may_panic) \<Rightarrow> mut_op" where
  "on_doc f s = map_option (\<lambda>d. s\<lparr>m_doc := d\<rparr>) (f (m_doc s))"

definition upd_doc :: "(document \<Rightarrow> document) \<Rightarrow> mutator \<Rightarrow> mutator" where
  "upd_doc f s = s\<lparr>m_doc := f (m_doc s)\<rparr>"

definition hook :: "hook_call \<Rightarrow> mutator \<Rightarrow> mutator" where
  "hook c = upd_doc (\<lambda>d. d\<lparr>hook_calls := hook_calls d @ [c]\<rparr>)"

definition mutated :: "bool \<Rightarrow> mutator \<Rightarrow> mutator" where
  "mutated b s = s\<lparr>mutations_occurred := mutations_occurred s \<or> b\<rparr>"

definition m_node :: "mutator \<Rightarrow> node_id \<Rightarrow> node may_panic" where
  "m_node s i = node_at (m_doc s) i"

definition set_children :: "node_id \<Rightarrow> node_id list \<Rightarrow> mutator \<Rightarrow> mutator" where
  "set_children i cs = upd_doc (update_node i (\<lambda>n. n\<lparr>children := cs\<rparr>))"

definition set_parent :: "node_id \<Rightarrow> node_id option \<Rightarrow> mutator \<Rightarrow> mutator" where
  "set_parent i p = upd_doc (update_node i (\<lambda>n. n\<lparr>parent := p\<rparr>))"

section \<open>Queries\<close>

definition node_has_parent :: "mutator \<Rightarrow> node_id \<Rightarrow> bool may_panic" where
  "node_has_parent s i = map_option (\<lambda>n. parent n \<noteq> None) (m_node s i)"

text \<open>\<open>Node::child_index\<close>, \<open>forward\<close> and \<open>backward\<close>; the outer option is the panic.\<close>
definition child_index :: "document \<Rightarrow> node \<Rightarrow> nat option may_panic" where
  "child_index d n = (case parent n of
      None \<Rightarrow> Some None
    | Some p \<Rightarrow> map_option (\<lambda>pn. index_of (nid n) (children pn)) (node_at d p))"

definition nth_child :: "document \<Rightarrow> node_id list \<Rightarrow> nat \<Rightarrow> node_id option may_panic" where
  "nth_child d cs k = (if k < length cs then map_option (\<lambda>m. Some (nid m)) (node_at d (cs ! k)) else Some None)"

definition forward :: "document \<Rightarrow> node \<Rightarrow> nat \<Rightarrow> node_id option may_panic" where
  "forward d n k = do {
      ci \<leftarrow> child_index d n;
      let child_idx = (case ci of None \<Rightarrow> 0 | Some c \<Rightarrow> c);
      (case parent n of
         None \<Rightarrow> Some None
       | Some p \<Rightarrow> do { pn \<leftarrow> node_at d p; nth_child d (children pn) (child_idx + k) }) }"

definition backward :: "document \<Rightarrow> node \<Rightarrow> nat \<Rightarrow> node_id option may_panic" where
  "backward d n k = do {
      ci \<leftarrow> child_index d n;
      let child_idx = (case ci of None \<Rightarrow> 0 | Some c \<Rightarrow> c);
      if child_idx < k then Some None
      else (case parent n of
         None \<Rightarrow> Some None
       | Some p \<Rightarrow> do { pn \<leftarrow> node_at d p; nth_child d (children pn) (child_idx - k) }) }"

definition previous_sibling_id :: "mutator \<Rightarrow> node_id \<Rightarrow> node_id option may_panic" where
  "previous_sibling_id s i = do { n \<leftarrow> m_node s i; backward (m_doc s) n 1 }"

definition next_sibling_id :: "mutator \<Rightarrow> node_id \<Rightarrow> node_id option may_panic" where
  "next_sibling_id s i = do { n \<leftarrow> m_node s i; forward (m_doc s) n 1 }"

definition parent_id :: "mutator \<Rightarrow> node_id \<Rightarrow> node_id option may_panic" where
  "parent_id s i = map_option parent (m_node s i)"

definition last_child_id :: "mutator \<Rightarrow> node_id \<Rightarrow> node_id option may_panic" where
  "last_child_id s i = map_option (\<lambda>n. if children n = [] then None else Some (last (children n))) (m_node s i)"

definition child_ids :: "mutator \<Rightarrow> node_id \<Rightarrow> node_id list may_panic" where
  "child_ids s i = map_option children (m_node s i)"

fun node_at_path :: "mutator \<Rightarrow> node \<Rightarrow> nat list \<Rightarrow> node_id may_panic" where
  "node_at_path s n [] = Some (nid n)"
| "node_at_path s n (i # path) = do {
      c \<leftarrow> (if i < length (children n) then Some (children n ! i) else None);
      m \<leftarrow> m_node s c;
      node_at_path s m path }"

section \<open>Creating nodes\<close>

definition create_node :: "(nat \<Rightarrow> node_id) \<Rightarrow> node_data \<Rightarrow> document \<Rightarrow> node_id \<times> document" where
  "create_node alloc dat d = (let i = alloc (allocated d) in
     (i, d\<lparr>nodes := (nodes d)(i \<mapsto> node_new i dat), allocated := Suc (allocated d),
           changed_nodes := insert i (changed_nodes d)\<rparr>))"

definition m_create :: "(nat \<Rightarrow> node_id) \<Rightarrow> node_data \<Rightarrow> mutator \<Rightarrow> node_id \<times> mutator" where
  "m_create alloc dat s = (let (i, d) = create_node alloc dat (m_doc s) in (i, s\<lparr>m_doc := d\<rparr>))"

definition create_comment_node :: "(nat \<Rightarrow> node_id) \<Rightarrow> string \<Rightarrow> mutator \<Rightarrow> node_id \<times> mutator" where
  "create_comment_node alloc contents = m_create alloc (Comment contents)"

definition create_text_node :: "(nat \<Rightarrow> node_id) \<Rightarrow> string \<Rightarrow> mutator \<Rightarrow> node_id \<times> mutator" where
  "create_text_node alloc txt = m_create alloc (Text txt)"

text \<open>The style attribute is parsed by stylo and not kept; the style data starts damaged.\<close>
definition create_element :: "(nat \<Rightarrow> node_id) \<Rightarrow> qual_name \<Rightarrow> attribute list \<Rightarrow> mutator \<Rightarrow> node_id \<times> mutator" where
  "create_element alloc name ats s = m_create alloc (Element ((element_new name ats)\<lparr>el_stylo :=
     Some \<lparr> damage = ALL_DAMAGE, restyle_subtree = False, restyle_style_attribute = False,
            has_primary_styles = False \<rparr>\<rparr>)) s"

section \<open>Walking a subtree while changing it\<close>

text \<open>\<open>iter_subtree_mut\<close>: the child list of a node is taken while its children are visited and
  put back afterwards.\<close>
partial_function (option) iter_children_rec ::
    "(node_id \<Rightarrow> mutator \<Rightarrow> mutator option) \<Rightarrow> node_id list \<Rightarrow> mutator \<Rightarrow> mutator option" where
  "iter_children_rec cb cs s = (case cs of
      [] \<Rightarrow> Some s
    | c # cs' \<Rightarrow> do {
        s1 \<leftarrow> cb c s;
        n \<leftarrow> m_node s1 c;
        s2 \<leftarrow> iter_children_rec cb (children n) (set_children c [] s1);
        _ \<leftarrow> m_node s2 c;
        iter_children_rec cb cs' (set_children c (children n) s2) })"

declare iter_children_rec.simps [code]

definition iter_subtree_mut :: "(node_id \<Rightarrow> mut_op) \<Rightarrow> node_id \<Rightarrow> mut_op" where
  "iter_subtree_mut cb i s = iter_children_rec cb [i] s"

section \<open>Focus\<close>

text \<open>The value is whether the focus moved.\<close>
definition set_focus_to :: "node_id \<Rightarrow> document \<Rightarrow> (bool \<times> document) may_panic" where
  "set_focus_to i d = do {
      target \<leftarrow> nearest_non_anonymous_ancestor d i;
      (case target of
         None \<Rightarrow> Some (False, d)
       | Some f \<Rightarrow>
           if focus_node_id d = Some f then Some (False, d)
           else do {
             d1 \<leftarrow> (case focus_node_id d of
                 None \<Rightarrow> Some d
               | Some old \<Rightarrow> snapshot_node_and old {FOCUS, FOCUSRING} (blur old) d);
             d2 \<leftarrow> snapshot_node_and f {FOCUS, FOCUSRING} (focus f) d1;
             Some (True, shell RequestRedraw (d2\<lparr>focus_node_id := Some f\<rparr>)) }) }"

definition clear_focus :: "document \<Rightarrow> document may_panic" where
  "clear_focus d = (case focus_node_id d of
      None \<Rightarrow> Some d
    | Some i \<Rightarrow> do {
        d1 \<leftarrow> snapshot_node_and i {FOCUS, FOCUSRING} (blur i) d;
        Some (shell RequestRedraw (d1\<lparr>focus_node_id := None\<rparr>)) })"

section \<open>Interaction state of removed nodes\<close>

partial_function (option) nsea_loop :: "document \<Rightarrow> node_id option \<Rightarrow> node_id option option" where
  "nsea_loop d current = (case current of
      None \<Rightarrow> Some None
    | Some i \<Rightarrow> (case get_node d i of
        None \<Rightarrow> Some None
      | Some n \<Rightarrow> if is_element n \<and> is_in_document (flags n) then Some (Some i)
                  else nsea_loop d (parent n)))"

declare nsea_loop.simps [code]

definition nearest_surviving_element_ancestor :: "document \<Rightarrow> node_id \<Rightarrow> node_id option option" where
  "nearest_surviving_element_ancestor d i = (case get_node d i of
      None \<Rightarrow> Some None
    | Some n \<Rightarrow> nsea_loop d (parent n))"

definition endpoint_clear :: "selection_endpoint" where
  "endpoint_clear = \<lparr> node_or_parent = None, offset = 0, sibling_index = None \<rparr>"

definition selection_names :: "node_id \<Rightarrow> document \<Rightarrow> bool" where
  "selection_names i d \<longleftrightarrow> node_or_parent (anchor (selection d)) = Some i
     \<or> node_or_parent (focus_end (selection d)) = Some i"

definition selection_clear :: "document \<Rightarrow> document" where
  "selection_clear d = d\<lparr>selection := \<lparr> anchor = endpoint_clear, focus_end = endpoint_clear \<rparr>\<rparr>"

definition clear_interaction_state_for_removed_node :: "node_id \<Rightarrow> document \<Rightarrow> document may_panic" where
  "clear_interaction_state_for_removed_node i d =
    (if \<not> contains_key d i then Some d
     else do {
       d1 \<leftarrow> (if hover_node_id d = Some i
              then do { a \<leftarrow> nearest_surviving_element_ancestor d i;
                        Some (d\<lparr>hover_node_id := a, hover_node_is_text := False\<rparr>) }
              else Some d);
       let d2 = (if hover_hit_node_id d1 = Some i then d1\<lparr>hover_hit_node_id := None\<rparr> else d1);
       d3 \<leftarrow> (if active_node_id d2 = Some i
              then do { a \<leftarrow> nearest_surviving_element_ancestor d2 i; Some (d2\<lparr>active_node_id := a\<rparr>) }
              else Some d2);
       d4 \<leftarrow> (if focus_node_id d3 = Some i
              then do { d' \<leftarrow> blur i d3; Some (d'\<lparr>focus_node_id := None\<rparr>) }
              else Some d3);
       let d5 = (if mousedown_node_id d4 = Some i then d4\<lparr>mousedown_node_id := None\<rparr> else d4);
       let d6 = (if selection_names i d5 then selection_clear d5 else d5);
       let d7 = (if map_option sb_node (hovered_scrollbar d6) = Some i then d6\<lparr>hovered_scrollbar := None\<rparr> else d6);
       let d8 = (case drag d7 of
                   Panning t \<Rightarrow> if pan_target t = i then d7\<lparr>drag := DragNone\<rparr> else d7
                 | ScrollbarDrag r _ \<Rightarrow> if sb_node r = i then d7\<lparr>drag := DragNone\<rparr> else d7
                 | _ \<Rightarrow> d7);
       Some (d8\<lparr>scrollbar_activity := (scrollbar_activity d8)(i := None)\<rparr>) })"

section \<open>Adding and removing a subtree\<close>

definition queue_op :: "special_op \<Rightarrow> mutator \<Rightarrow> mutator" where
  "queue_op x s = s\<lparr>eager_op_queue := eager_op_queue s @ [x]\<rparr>"

definition set_in_document :: "bool \<Rightarrow> node \<Rightarrow> node" where
  "set_in_document v n = n\<lparr>flags := flags_set (flags n) IS_IN_DOCUMENT v\<rparr>"

definition form_tags :: "string set" where
  "form_tags = {''button'', ''fieldset'', ''input'', ''select'', ''textarea'', ''object'', ''output''}"

text \<open>The dispatch on the tag name when an element enters the document.\<close>
definition added_element :: "node_id \<Rightarrow> string \<Rightarrow> mutator \<Rightarrow> mutator" where
  "added_element i tag s =
    (if tag = ''title'' then s\<lparr>title_node := Some i\<rparr>
     else if tag = ''link'' then queue_op (LoadStylesheet i) s
     else if tag = ''img'' then queue_op (LoadImage i) s
     else if tag = ''iframe'' then queue_op (LoadIframe i) s
     else if tag = ''canvas'' then queue_op (LoadCustomPaintSource i) s
     else if tag = ''style'' then s\<lparr>style_nodes := insert i (style_nodes s)\<rparr>
     else if tag \<in> form_tags
       then (queue_op (ProcessButtonInput i) s)\<lparr>form_nodes := insert i (form_nodes s)\<rparr>
     else s)"

text \<open>The source is built with the feature \<open>autofocus\<close>, as \<open>strake-vibey-script\<close> asks.\<close>
definition note_autofocus :: "node_id \<Rightarrow> element_data \<Rightarrow> mutator \<Rightarrow> mutator" where
  "note_autofocus i e s = (if is_focussable e \<and> el_attr e ''autofocus'' = Some ''true''
     then s\<lparr>node_to_autofocus := Some i\<rparr> else s)"

definition added_cb :: "node_id \<Rightarrow> mut_op" where
  "added_cb i s = do {
      _ \<leftarrow> m_node s i;
      s1 \<leftarrow> on_doc (insert_damage ALL_DAMAGE i) (upd_doc (update_node i (set_in_document True)) s);
      n \<leftarrow> m_node s1 i;
      let s2 = (case data_attr (data n) ''id'' of None \<Rightarrow> s1 | Some v \<Rightarrow> upd_doc (add_to_id_map v i) s1);
      Some (case data n of
              Element e \<Rightarrow> note_autofocus i e (added_element i (qn_local (el_name e)) s2)
            | _ \<Rightarrow> s2) }"

definition process_added_subtree :: "mut_op \<Rightarrow> node_id \<Rightarrow> mut_op" where
  "process_added_subtree flush_ops i s = do { s1 \<leftarrow> iter_subtree_mut added_cb i s; flush_ops s1 }"

text \<open>The dispatch on the special data when an element leaves the document.\<close>
definition removed_element :: "node_id \<Rightarrow> special_element_data \<Rightarrow> mutator \<Rightarrow> mutator" where
  "removed_element i sd s = (case sd of
      SubDocument \<Rightarrow> queue_op (UnloadSubDocument i) s
    | CustomWidget \<Rightarrow> queue_op (UnloadCustomWidget i) s
    | Stylesheet \<Rightarrow> queue_op (UnloadStylesheet i) s
    | Canvas _ \<Rightarrow> s\<lparr>recompute_is_animating := True\<rparr>
    | _ \<Rightarrow> s)"

definition clear_selection_of :: "node_id \<Rightarrow> mutator \<Rightarrow> mutator" where
  "clear_selection_of i s = (if selection_names i (m_doc s) then upd_doc selection_clear s else s)"

definition forget_snapshot :: "node_id \<Rightarrow> node \<Rightarrow> mutator \<Rightarrow> mutator" where
  "forget_snapshot i n s = (if has_snapshot n
     then upd_doc (\<lambda>d. update_node i (set_has_snapshot False) (d\<lparr>snapshots := (snapshots d)(i := None)\<rparr>)) s
     else s)"

definition forget_id :: "node_id \<Rightarrow> node \<Rightarrow> mutator \<Rightarrow> mutator" where
  "forget_id i n s = (case data_attr (data n) ''id'' of
      None \<Rightarrow> s
    | Some v \<Rightarrow> upd_doc (remove_from_id_map v i) s)"

definition removed_cb :: "node_id \<Rightarrow> mut_op" where
  "removed_cb i s = do {
      _ \<leftarrow> m_node s i;
      s1 \<leftarrow> on_doc (clear_interaction_state_for_removed_node i)
              (upd_doc (update_node i (set_in_document False)) s);
      let s2 = clear_selection_of i s1;
      n \<leftarrow> m_node s2 i;
      let s3 = forget_id i n (forget_snapshot i n s2);
      Some (case data n of
              Element e \<Rightarrow> removed_element i (special_data e) s3
            | _ \<Rightarrow> s3) }"

definition process_removed_subtree :: "mut_op \<Rightarrow> node_id \<Rightarrow> mut_op" where
  "process_removed_subtree flush_ops i s = do { s1 \<leftarrow> iter_subtree_mut removed_cb i s; flush_ops s1 }"

definition maybe_record_node :: "node_id option \<Rightarrow> mut_op" where
  "maybe_record_node oi s = (case oi of
      None \<Rightarrow> Some s
    | Some i \<Rightarrow> do {
        n \<leftarrow> m_node s i;
        Some (case downcast_element (data n) of
            None \<Rightarrow> s
          | Some e \<Rightarrow>
              if qn_local (el_name e) = ''title'' then s\<lparr>title_node := Some i\<rparr>
              else if qn_local (el_name e) = ''style'' then s\<lparr>style_nodes := insert i (style_nodes s)\<rparr>
              else s) })"

section \<open>Inserting children\<close>

text \<open>The first loop of \<open>add_children_to_parent\<close>: detach one child from its old parent.\<close>
definition detach_child :: "node_id \<Rightarrow> mut_op" where
  "detach_child c s = do {
      child \<leftarrow> m_node s c;
      let was_in_doc = is_in_document (flags child);
      let s1 = mutated was_in_doc s;
      (case parent child of
         None \<Rightarrow> Some s1
       | Some old \<Rightarrow> do {
           s2 \<leftarrow> on_doc (insert_damage ALL_DAMAGE old) (set_parent c None s1);
           s3 \<leftarrow> (if was_in_doc
                  then on_doc (mark_ancestors_dirty old) (upd_doc (update_node old hint_subtree) s2)
                  else Some s2);
           on \<leftarrow> m_node s3 old;
           s4 \<leftarrow> maybe_record_node (Some old)
                   (set_children old (filter (\<lambda>j. j \<noteq> c) (children on)) s3);
           Some (hook (QueueMutationRecord (ChildList old [] [c])) (hook (NodeRemoved old c) s4)) }) }"

fun detach_children :: "node_id list \<Rightarrow> mut_op" where
  "detach_children [] s = Some s"
| "detach_children (c # cs) s = do { s1 \<leftarrow> detach_child c s; detach_children cs s1 }"

text \<open>The second loop: point one inserted child at its parent.\<close>
definition attach_child :: "mut_op \<Rightarrow> bool \<Rightarrow> node_id \<Rightarrow> node_id \<Rightarrow> mut_op" where
  "attach_child flush_ops parent_in_doc p c s = do {
      child \<leftarrow> m_node s c;
      let was_in_doc = is_in_document (flags child);
      let s1 = set_parent c (Some p) s;
      if parent_in_doc \<and> \<not> was_in_doc then process_added_subtree flush_ops c s1
      else if \<not> parent_in_doc \<and> was_in_doc then process_removed_subtree flush_ops c s1
      else Some s1 }"

fun attach_children :: "mut_op \<Rightarrow> bool \<Rightarrow> node_id \<Rightarrow> node_id list \<Rightarrow> mut_op" where
  "attach_children flush_ops b p [] s = Some s"
| "attach_children flush_ops b p (c # cs) s = do {
      s1 \<leftarrow> attach_child flush_ops b p c s; attach_children flush_ops b p cs s1 }"

text \<open>\<open>insert_fn\<close> gives the new child list of the parent.\<close>
definition add_children_to_parent ::
    "mut_op \<Rightarrow> node_id \<Rightarrow> node_id list \<Rightarrow> (node_id list \<Rightarrow> node_id list may_panic) \<Rightarrow> mut_op" where
  "add_children_to_parent flush_ops p ids insert_fn s = do {
      pn0 \<leftarrow> m_node s p;
      let parent_in_doc = is_in_document (flags pn0);
      s1 \<leftarrow> detach_children ids (mutated (parent_in_doc \<and> ids \<noteq> []) s);
      s2 \<leftarrow> on_doc (insert_damage ALL_DAMAGE p) s1;
      s3 \<leftarrow> (if parent_in_doc
             then on_doc (mark_ancestors_dirty p) (upd_doc (update_node p hint_subtree) s2)
             else Some s2);
      pn \<leftarrow> m_node s3 p;
      cs \<leftarrow> insert_fn (children pn);
      s4 \<leftarrow> attach_children flush_ops parent_in_doc p ids (set_children p cs s3);
      s5 \<leftarrow> maybe_record_node (Some p) s4;
      Some (if ids = [] then s5
            else hook (QueueMutationRecord (ChildList p ids []))
                   (fold (\<lambda>c. hook (NodeInserted p c)) ids s5)) }"

definition append_children :: "mut_op \<Rightarrow> node_id \<Rightarrow> node_id list \<Rightarrow> mut_op" where
  "append_children flush_ops p ids = add_children_to_parent flush_ops p ids (\<lambda>cs. Some (cs @ ids))"

text \<open>\<open>splice(k..k, ids)\<close>.\<close>
definition splice_at :: "nat \<Rightarrow> 'a list \<Rightarrow> 'a list \<Rightarrow> 'a list" where
  "splice_at k ids cs = take k cs @ ids @ drop k cs"

definition insert_before_fn :: "node_id \<Rightarrow> node_id list \<Rightarrow> node_id list \<Rightarrow> node_id list may_panic" where
  "insert_before_fn a ids cs = map_option (\<lambda>k. splice_at k ids cs) (index_of a cs)"

definition insert_nodes_before :: "mut_op \<Rightarrow> node_id \<Rightarrow> node_id list \<Rightarrow> mut_op" where
  "insert_nodes_before flush_ops a ids s = do {
      an \<leftarrow> m_node s a;
      p \<leftarrow> parent an;
      add_children_to_parent flush_ops p ids (insert_before_fn a ids) s }"

definition insert_nodes_after :: "mut_op \<Rightarrow> node_id \<Rightarrow> node_id list \<Rightarrow> mut_op" where
  "insert_nodes_after flush_ops a ids s = do {
      nx \<leftarrow> next_sibling_id s a;
      (case nx of
         Some i \<Rightarrow> insert_nodes_before flush_ops i ids s
       | None \<Rightarrow> do { op \<leftarrow> parent_id s a; p \<leftarrow> op; append_children flush_ops p ids s }) }"

definition reparent_children :: "mut_op \<Rightarrow> node_id \<Rightarrow> node_id \<Rightarrow> mut_op" where
  "reparent_children flush_ops old_parent new_parent s = do {
      on \<leftarrow> m_node s old_parent;
      s1 \<leftarrow> maybe_record_node (Some old_parent) (set_children old_parent [] s);
      append_children flush_ops new_parent (children on) s1 }"

section \<open>Removing nodes\<close>

text \<open>The value is the mutator and the former parent.\<close>
definition detach_node_no_record :: "mut_op \<Rightarrow> node_id \<Rightarrow> mutator \<Rightarrow> (node_id option \<times> mutator) may_panic" where
  "detach_node_no_record flush_ops i s = do {
      n0 \<leftarrow> m_node s i;
      let in_doc = is_in_document (flags n0);
      s1 \<leftarrow> process_removed_subtree flush_ops i s;
      n \<leftarrow> m_node s1 i;
      (case parent n of
         None \<Rightarrow> Some (None, s1)
       | Some p \<Rightarrow> do {
           s2 \<leftarrow> on_doc (insert_damage ALL_DAMAGE p) (mutated in_doc (set_parent i None s1));
           s3 \<leftarrow> on_doc (mark_ancestors_dirty p) s2;
           pn \<leftarrow> m_node s3 p;
           s4 \<leftarrow> maybe_record_node (Some p)
                   (set_children p (filter (\<lambda>j. j \<noteq> i) (children pn)) s3);
           Some (Some p, hook (NodeRemoved p i) s4) }) }"

definition remove_node :: "mut_op \<Rightarrow> node_id \<Rightarrow> mut_op" where
  "remove_node flush_ops i s = do {
      (op, s1) \<leftarrow> detach_node_no_record flush_ops i s;
      Some (case op of
          None \<Rightarrow> s1
        | Some p \<Rightarrow> hook (QueueMutationRecord (ChildList p [] [i])) s1) }"

definition replace_node_with :: "mut_op \<Rightarrow> node_id \<Rightarrow> node_id list \<Rightarrow> mut_op" where
  "replace_node_with flush_ops a ids s = do {
      s1 \<leftarrow> insert_nodes_before flush_ops a ids s; remove_node flush_ops a s1 }"

fun detach_all :: "mut_op \<Rightarrow> node_id list \<Rightarrow> mut_op" where
  "detach_all flush_ops [] s = Some s"
| "detach_all flush_ops (i # is) s = do {
      b \<leftarrow> node_has_parent s i;
      s1 \<leftarrow> (if b then remove_node flush_ops i s else Some s);
      detach_all flush_ops is s1 }"

text \<open>The nearest sibling of \<open>anchor\<close> forward (\<open>fwd\<close>) or backward that is not excluded.\<close>
definition viable_sibling :: "mutator \<Rightarrow> node_id \<Rightarrow> bool \<Rightarrow> node_id list \<Rightarrow> node_id option" where
  "viable_sibling s a fwd excluded = do {
      n \<leftarrow> get_node (m_doc s) a;
      p \<leftarrow> parent n;
      pn \<leftarrow> get_node (m_doc s) p;
      k \<leftarrow> index_of_child pn a;
      List.find (\<lambda>j. j \<notin> set excluded)
        (if fwd then drop (Suc k) (children pn) else rev (take k (children pn))) }"

definition prepend_nodes :: "mut_op \<Rightarrow> node_id \<Rightarrow> node_id list \<Rightarrow> mut_op" where
  "prepend_nodes flush_ops p ids s = do {
      s1 \<leftarrow> detach_all flush_ops ids s;
      cs \<leftarrow> child_ids s1 p;
      (case cs of
         c # _ \<Rightarrow> insert_nodes_before flush_ops c ids s1
       | [] \<Rightarrow> append_children flush_ops p ids s1) }"

fun detach_each :: "mut_op \<Rightarrow> node_id list \<Rightarrow> mut_op" where
  "detach_each flush_ops [] s = Some s"
| "detach_each flush_ops (c # cs) s = do {
      (_, s1) \<leftarrow> detach_node_no_record flush_ops c s; detach_each flush_ops cs s1 }"

definition replace_children :: "mut_op \<Rightarrow> node_id \<Rightarrow> node_id list \<Rightarrow> mut_op" where
  "replace_children flush_ops p ids s = do {
      s1 \<leftarrow> detach_all flush_ops ids s;
      removed \<leftarrow> child_ids s1 p;
      s2 \<leftarrow> detach_each flush_ops removed s1;
      append_children flush_ops p ids
        (if removed = [] then s2 else hook (QueueMutationRecord (ChildList p [] removed)) s2) }"

definition before_node :: "mut_op \<Rightarrow> node_id \<Rightarrow> node_id list \<Rightarrow> mut_op" where
  "before_node flush_ops a ids s = do {
      op \<leftarrow> parent_id s a;
      (case op of
         None \<Rightarrow> Some s
       | Some p \<Rightarrow> do {
           let viable_prev = viable_sibling s a False ids;
           s1 \<leftarrow> detach_all flush_ops ids s;
           (case viable_prev of
              Some prev \<Rightarrow> insert_nodes_after flush_ops prev ids s1
            | None \<Rightarrow> do {
                cs \<leftarrow> child_ids s1 p;
                (case cs of
                   c # _ \<Rightarrow> insert_nodes_before flush_ops c ids s1
                 | [] \<Rightarrow> append_children flush_ops p ids s1) }) }) }"

definition after_node :: "mut_op \<Rightarrow> node_id \<Rightarrow> node_id list \<Rightarrow> mut_op" where
  "after_node flush_ops a ids s = do {
      op \<leftarrow> parent_id s a;
      (case op of
         None \<Rightarrow> Some s
       | Some p \<Rightarrow> do {
           let viable_next = viable_sibling s a True ids;
           s1 \<leftarrow> detach_all flush_ops ids s;
           (case viable_next of
              Some nx \<Rightarrow> insert_nodes_before flush_ops nx ids s1
            | None \<Rightarrow> append_children flush_ops p ids s1) }) }"

definition replace_with_nodes :: "mut_op \<Rightarrow> node_id \<Rightarrow> node_id list \<Rightarrow> mut_op" where
  "replace_with_nodes flush_ops a ids s = do {
      op \<leftarrow> parent_id s a;
      (case op of
         None \<Rightarrow> Some s
       | Some p \<Rightarrow> do {
           let viable_next = viable_sibling s a True ids;
           s1 \<leftarrow> detach_all flush_ops ids s;
           b \<leftarrow> node_has_parent s1 a;
           if b then replace_node_with flush_ops a ids s1
           else (case viable_next of
                   Some nx \<Rightarrow> insert_nodes_before flush_ops nx ids s1
                 | None \<Rightarrow> append_children flush_ops p ids s1) }) }"

end
