(* ===== verification/Dom_Lifetime.thy ===== *)
theory Dom_Lifetime
  imports Dom_Mutation Range_Input
begin

text \<open>
  The rest of \<open>mutator.rs\<close>: the eager operations that an insertion or a removal queues,
  dropping nodes, character data, attributes, and the flush at the end of a mutation, with
  \<open>reset_form_owner\<close> of \<open>form.rs\<close>.
\<close>

section \<open>Eager operations\<close>

definition log_op :: "special_op \<Rightarrow> mutator \<Rightarrow> mutator" where
  "log_op x s = s\<lparr>resource_log := resource_log s @ [x]\<rparr>"

text \<open>\<open>process_button_input\<close>: the label of a button-like input, the parts of a file input.\<close>
definition process_button_input :: "(nat \<Rightarrow> node_id) \<Rightarrow> mut_op \<Rightarrow> node_id \<Rightarrow> mut_op" where
  "process_button_input alloc flush_ops target s = do {
      n \<leftarrow> m_node s target;
      (case element_data n of
         None \<Rightarrow> Some s
       | Some e \<Rightarrow>
           if qn_local (el_name e) = ''input''
              \<and> el_attr e ''type'' \<in> {Some ''button'', Some ''submit'', Some ''reset''}
              \<and> el_attr e ''value'' \<noteq> None
           then (let (i, s1) = create_text_node alloc (the (el_attr e ''value'')) s
                 in append_children flush_ops target [i] s1)
           else if qn_local (el_name e) = ''input'' \<and> el_attr e ''type'' = Some ''file''
           then (let html = (\<lambda>t. \<lparr> qn_prefix = None, qn_ns = ''http://www.w3.org/1999/xhtml'', qn_local = t \<rparr>);
                     (button, s1) = create_element alloc (html ''button'')
                        [\<lparr> attr_name = html ''type'', attr_value = ''button'' \<rparr>,
                         \<lparr> attr_name = html ''tabindex'', attr_value = ''-1'' \<rparr>] s;
                     (label, s2) = create_element alloc (html ''label'') [] s1;
                     (label_text, s3) = create_text_node alloc ''No File Selected'' s2;
                     (button_text, s4) = create_text_node alloc ''Browse'' s3
                 in do {
                   s5 \<leftarrow> append_children flush_ops target [button, label] s4;
                   s6 \<leftarrow> append_children flush_ops label [label_text] s5;
                   append_children flush_ops button [button_text] s6 })
           else Some s) }"

definition map_m_element :: "node_id \<Rightarrow> (element_data \<Rightarrow> element_data) \<Rightarrow> mut_op" where
  "map_m_element i f s = do {
      n \<leftarrow> m_node s i;
      if element_data n = None then None else Some (upd_doc (update_node i (map_element f)) s) }"

definition remove_sub_document :: "node_id \<Rightarrow> mut_op" where
  "remove_sub_document i s = do {
      n \<leftarrow> m_node s i;
      s1 \<leftarrow> map_m_element i (\<lambda>e. e\<lparr>special_data := SpecialNone\<rparr>) s;
      Some (mutated (is_in_document (flags n))
        (upd_doc (\<lambda>d. d\<lparr>sub_document_nodes := sub_document_nodes d - {i}\<rparr>) s1)) }"

definition set_sub_document :: "node_id \<Rightarrow> mut_op" where
  "set_sub_document i s = do {
      n \<leftarrow> m_node s i;
      s1 \<leftarrow> map_m_element i (\<lambda>e. e\<lparr>special_data := SubDocument\<rparr>) s;
      Some (mutated (is_in_document (flags n))
        (upd_doc (\<lambda>d. d\<lparr>sub_document_nodes := insert i (sub_document_nodes d)\<rparr>) s1)) }"

definition remove_custom_widget :: "node_id \<Rightarrow> mut_op" where
  "remove_custom_widget i s = do {
      n \<leftarrow> m_node s i;
      s1 \<leftarrow> map_m_element i (\<lambda>e. e\<lparr>special_data := SpecialNone\<rparr>) s;
      Some (mutated (is_in_document (flags n)) s1) }"

text \<open>\<open>unload_stylesheet\<close>: panics (\<open>unreachable!\<close>) on anything but a stylesheet.\<close>
definition unload_stylesheet :: "node_id \<Rightarrow> mut_op" where
  "unload_stylesheet i s = do {
      n \<leftarrow> m_node s i;
      e \<leftarrow> element_data n;
      if special_data e = Stylesheet
      then map_option (log_op (UnloadStylesheet i)) (map_m_element i (\<lambda>e. e\<lparr>special_data := SpecialNone\<rparr>) s)
      else None }"

definition load_custom_paint_src :: "node_id \<Rightarrow> mut_op" where
  "load_custom_paint_src i s = do {
      n \<leftarrow> m_node s i;
      (case Option.bind (data_attr (data n) ''src'') parse_u64 of
         None \<Rightarrow> Some s
       | Some source_id \<Rightarrow> map_option (\<lambda>s1. s1\<lparr>recompute_is_animating := True\<rparr>)
           (map_m_element i (\<lambda>e. e\<lparr>special_data := Canvas source_id\<rparr>) s)) }"

fun run_eager_op :: "(nat \<Rightarrow> node_id) \<Rightarrow> mut_op \<Rightarrow> special_op \<Rightarrow> mut_op" where
  "run_eager_op alloc flush_ops (ProcessButtonInput i) s = process_button_input alloc flush_ops i s"
| "run_eager_op alloc flush_ops (UnloadSubDocument i) s = remove_sub_document i s"
| "run_eager_op alloc flush_ops (UnloadCustomWidget i) s = remove_custom_widget i s"
| "run_eager_op alloc flush_ops (UnloadStylesheet i) s = unload_stylesheet i s"
| "run_eager_op alloc flush_ops (LoadCustomPaintSource i) s = load_custom_paint_src i s"
| "run_eager_op alloc flush_ops x s = Some (log_op x s)"

fun run_eager_ops :: "(special_op \<Rightarrow> mut_op) \<Rightarrow> special_op list \<Rightarrow> mut_op" where
  "run_eager_ops run [] s = Some s"
| "run_eager_ops run (x # xs) s = do { s1 \<leftarrow> run x s; run_eager_ops run xs s1 }"

text \<open>\<open>flush_eager_ops\<close>, to the nesting depth given first.\<close>
fun flush_eager_ops :: "nat \<Rightarrow> (nat \<Rightarrow> node_id) \<Rightarrow> mut_op" where
  "flush_eager_ops 0 alloc s = None"
| "flush_eager_ops (Suc fuel) alloc s = do {
      s1 \<leftarrow> run_eager_ops (run_eager_op alloc (flush_eager_ops fuel alloc)) (eager_op_queue s)
              (s\<lparr>eager_op_queue := []\<rparr>);
      Some (s1\<lparr>eager_op_queue := []\<rparr>) }"

section \<open>Dropping nodes\<close>

definition remove_node_from_tree :: "node_id \<Rightarrow> document \<Rightarrow> (node option \<times> document) may_panic" where
  "remove_node_from_tree i d = do {
      d1 \<leftarrow> clear_interaction_state_for_removed_node i d;
      Some (nodes d1 i, d1\<lparr>nodes := (nodes d1)(i := None)\<rparr>) }"

text \<open>\<open>deallocate_anonymous_block\<close> over a list of blocks.\<close>
partial_function (option) deallocate_blocks :: "node_id list \<Rightarrow> document \<Rightarrow> document option" where
  "deallocate_blocks is d = (case is of
      [] \<Rightarrow> Some d
    | i # is' \<Rightarrow> (case nodes d i of
        None \<Rightarrow> deallocate_blocks is' d
      | Some n \<Rightarrow> do {
          d1 \<leftarrow> deallocate_blocks (anonymous_blocks n) (update_node i (\<lambda>n. n\<lparr>anonymous_blocks := []\<rparr>) d);
          (_, d2) \<leftarrow> remove_node_from_tree i d1;
          deallocate_blocks is' d2 }))"

declare deallocate_blocks.simps [code]

text \<open>\<open>drop_node_ignoring_parent_with\<close> over a list of nodes; the second component lists the
  ids \<open>on_drop\<close> is called with.\<close>
partial_function (option) drop_list ::
    "node_id list \<Rightarrow> document \<times> node_id list \<Rightarrow> (document \<times> node_id list) option" where
  "drop_list is x = (case is of
      [] \<Rightarrow> Some x
    | i # is' \<Rightarrow> do {
        (on, d1) \<leftarrow> remove_node_from_tree i (fst x);
        y \<leftarrow> (case on of
            None \<Rightarrow> Some (d1, snd x)
          | Some n \<Rightarrow> do {
              z \<leftarrow> drop_list ((case node_before n of None \<Rightarrow> [] | Some b \<Rightarrow> [b])
                     @ (case node_after n of None \<Rightarrow> [] | Some b \<Rightarrow> [b]) @ children n) (d1, snd x @ [i]);
              d3 \<leftarrow> deallocate_blocks (anonymous_blocks n) (fst z);
              Some (d3, snd z) });
        drop_list is' y })"

declare drop_list.simps [code]

definition drop_node_ignoring_parent_with ::
    "node_id \<Rightarrow> document \<Rightarrow> (node option \<times> document \<times> node_id list) may_panic" where
  "drop_node_ignoring_parent_with i d = do {
      (d', dropped) \<leftarrow> drop_list [i] (d, []);
      d1 \<leftarrow> clear_interaction_state_for_removed_node i d;
      Some (nodes d1 i, d', dropped) }"

partial_function (option) collect_ids_loop ::
    "document \<Rightarrow> node_id list \<Rightarrow> node_id set \<Rightarrow> node_id set option" where
  "collect_ids_loop d stk ids = (case stk of
      [] \<Rightarrow> Some ids
    | i # stk' \<Rightarrow> if i \<in> ids then collect_ids_loop d stk' ids
        else (case nodes d i of
            None \<Rightarrow> collect_ids_loop d stk' (insert i ids)
          | Some n \<Rightarrow> collect_ids_loop d (rev (children n @ anonymous_blocks n) @ stk') (insert i ids)))"

declare collect_ids_loop.simps [code]

definition collect_subtree_ids :: "mutator \<Rightarrow> node_id \<Rightarrow> node_id set option" where
  "collect_subtree_ids s i = collect_ids_loop (m_doc s) [i] {}"

text \<open>The hoisted children of stacking contexts are not part of the model.\<close>
partial_function (option) purge_derived_paint_refs ::
    "node_id set \<Rightarrow> node_id option \<Rightarrow> document \<Rightarrow> document option" where
  "purge_derived_paint_refs dropped current d = (case current of
      None \<Rightarrow> Some d
    | Some i \<Rightarrow> (case nodes d i of
        None \<Rightarrow> Some d
      | Some n \<Rightarrow> purge_derived_paint_refs dropped (parent n)
          (update_node i (\<lambda>n. n\<lparr>paint_children :=
             map_option (filter (\<lambda>c. c \<notin> dropped)) (paint_children n)\<rparr>) d)))"

declare purge_derived_paint_refs.simps [code]

definition remove_and_drop_node_with :: "mut_op \<Rightarrow> node_id \<Rightarrow> mutator \<Rightarrow> (node option \<times> node_id list \<times> mutator) may_panic" where
  "remove_and_drop_node_with flush_ops i s = do {
      n0 \<leftarrow> m_node s i;
      let in_doc = is_in_document (flags n0);
      dropped \<leftarrow> collect_subtree_ids s i;
      s1 \<leftarrow> process_removed_subtree flush_ops i s;
      (on, d2, log) \<leftarrow> drop_node_ignoring_parent_with i (m_doc s1);
      let s2 = mutated in_doc (s1\<lparr>m_doc := d2\<rparr>);
      (case Option.bind on parent of
         None \<Rightarrow> Some (on, log, s2)
       | Some p \<Rightarrow> do {
           s3 \<leftarrow> on_doc (insert_damage ALL_DAMAGE p) s2;
           pn \<leftarrow> m_node s3 p;
           s4 \<leftarrow> (if is_in_document (flags pn)
                  then on_doc (mark_ancestors_dirty p) (upd_doc (update_node p hint_subtree) s3)
                  else Some s3);
           s5 \<leftarrow> on_doc (purge_derived_paint_refs dropped (Some p))
                   (set_children p (filter (\<lambda>j. j \<noteq> i) (children pn)) s4);
           s6 \<leftarrow> maybe_record_node (Some p) s5;
           Some (on, log, hook (QueueMutationRecord (ChildList p [] [i])) (hook (NodeRemoved p i) s6)) }) }"

definition remove_node_if_unparented_with :: "mut_op \<Rightarrow> node_id \<Rightarrow> mutator \<Rightarrow> (node_id list \<times> mutator) may_panic" where
  "remove_node_if_unparented_with flush_ops i s = (case get_node (m_doc s) i of
      None \<Rightarrow> Some ([], s)
    | Some n \<Rightarrow> if parent n = None
        then map_option (\<lambda>(_, log, s1). (log, s1)) (remove_and_drop_node_with flush_ops i s)
        else Some ([], s))"

fun collect_all_ids :: "mutator \<Rightarrow> node_id list \<Rightarrow> node_id set option" where
  "collect_all_ids s [] = Some {}"
| "collect_all_ids s (c # cs) = do {
      a \<leftarrow> collect_subtree_ids s c; b \<leftarrow> collect_all_ids s cs; Some (a \<union> b) }"

fun drop_children :: "mut_op \<Rightarrow> node_id list \<Rightarrow> mut_op" where
  "drop_children flush_ops [] s = Some s"
| "drop_children flush_ops (c # cs) s = do {
      s1 \<leftarrow> process_removed_subtree flush_ops c s;
      (_, d, _) \<leftarrow> drop_node_ignoring_parent_with c (m_doc s1);
      drop_children flush_ops cs (s1\<lparr>m_doc := d\<rparr>) }"

definition remove_and_drop_all_children :: "mut_op \<Rightarrow> node_id \<Rightarrow> mut_op" where
  "remove_and_drop_all_children flush_ops i s = do {
      pn \<leftarrow> m_node s i;
      let in_doc = is_in_document (flags pn);
      s1 \<leftarrow> (if in_doc
             then on_doc (mark_ancestors_dirty i) (upd_doc (update_node i hint_subtree) s)
             else Some s);
      let removed = children pn;
      let s2 = mutated (in_doc \<and> removed \<noteq> []) (set_children i [] s1);
      dropped \<leftarrow> collect_all_ids s2 removed;
      s3 \<leftarrow> drop_children flush_ops removed s2;
      s4 \<leftarrow> on_doc (purge_derived_paint_refs dropped (Some i)) s3;
      s5 \<leftarrow> maybe_record_node (Some i) s4;
      Some (if removed = [] then s5
            else hook (QueueMutationRecord (ChildList i [] removed))
                   (fold (\<lambda>c. hook (NodeRemoved i c)) removed s5)) }"

text \<open>\<open>deep_clone_node\<close>: the runtime state of a cloned element starts afresh; a sub-document
  and a custom widget are not cloned.\<close>
definition clone_element :: "element_data \<Rightarrow> element_data" where
  "clone_element e = e\<lparr>
     special_data := (if special_data e = SubDocument \<or> special_data e = CustomWidget
                      then SpecialNone else special_data e),
     el_stylo := None, el_has_snapshot := False, el_dirty_descendants := True,
     el_damaged_descendants := True, before := None, after := None \<rparr>"

fun clone_data :: "node_data \<Rightarrow> node_data" where
  "clone_data (Document x) = Document \<lparr> dd_stylo = None, dd_state = {}, dd_has_snapshot = False,
     dd_dirty_descendants = True, dd_damaged_descendants = True, dd_keyboard_modality = False \<rparr>"
| "clone_data (Element e) = Element (clone_element e)"
| "clone_data (AnonymousBlock e) = AnonymousBlock (clone_element e)"
| "clone_data (Text t) = Text t"
| "clone_data (Comment t) = Comment t"

text \<open>Clone every node of a list of subtrees: the new ids, in order.\<close>
partial_function (option) clone_list ::
    "(nat \<Rightarrow> node_id) \<Rightarrow> node_id list \<Rightarrow> document \<Rightarrow> (node_id list \<times> document) option" where
  "clone_list alloc is d = (case is of
      [] \<Rightarrow> Some ([], d)
    | i # is' \<Rightarrow> do {
        n \<leftarrow> node_at d i;
        let (new, d1) = create_node alloc (clone_data (data n)) d;
        (kids, d2) \<leftarrow> clone_list alloc (children n) d1;
        let d3 = fold (\<lambda>c. update_node c (\<lambda>m. m\<lparr>parent := Some new\<rparr>)) kids d2;
        let d4 = update_node new (\<lambda>m. m\<lparr>children := kids\<rparr>) d3;
        (news, d5) \<leftarrow> clone_list alloc is' d4;
        Some (new # news, d5) })"

declare clone_list.simps [code]

definition deep_clone_node :: "(nat \<Rightarrow> node_id) \<Rightarrow> node_id \<Rightarrow> document \<Rightarrow> (node_id \<times> document) may_panic" where
  "deep_clone_node alloc i d = map_option (\<lambda>(news, d'). (hd news, d')) (clone_list alloc [i] d)"

definition try_template_contents :: "mutator \<Rightarrow> node_id \<Rightarrow> node_id option" where
  "try_template_contents s i = do {
      n \<leftarrow> get_node (m_doc s) i; e \<leftarrow> element_data n; template_contents e }"

definition template_contents_of :: "(nat \<Rightarrow> node_id) \<Rightarrow> node_id \<Rightarrow> mutator \<Rightarrow> node_id \<times> mutator" where
  "template_contents_of alloc i s = (case try_template_contents s i of
      Some c \<Rightarrow> (c, s)
    | None \<Rightarrow> (let (c, s1) = create_element alloc
          \<lparr> qn_prefix = None, qn_ns = ''http://www.w3.org/1999/xhtml'', qn_local = ''#document-fragment'' \<rparr> [] s
        in (c, upd_doc (update_node i (map_element (\<lambda>e. e\<lparr>template_contents := Some c\<rparr>))) s1)))"

section \<open>Character data\<close>

datatype append_text_err = NotTextNode

definition set_node_text :: "node_id \<Rightarrow> string \<Rightarrow> mut_op" where
  "set_node_text i v s = do {
      n \<leftarrow> m_node s i;
      (case data n of
         Text old \<Rightarrow>
           if old = v then Some s
           else do {
             let s1 = upd_doc (update_node i (\<lambda>n. n\<lparr>data := Text v\<rparr>)) (mutated (is_in_document (flags n)) s);
             s2 \<leftarrow> on_doc (insert_damage ALL_DAMAGE i) s1;
             s3 \<leftarrow> on_doc (mark_ancestors_dirty i) s2;
             s4 \<leftarrow> (case parent n of None \<Rightarrow> Some s3 | Some p \<Rightarrow> on_doc (insert_damage ALL_DAMAGE p) s3);
             s5 \<leftarrow> maybe_record_node (parent n) s4;
             Some (hook (QueueMutationRecord (CharacterData i)) s5) }
       | _ \<Rightarrow> Some s) }"

definition append_text_to_node :: "node_id \<Rightarrow> string \<Rightarrow> mutator \<Rightarrow> ((append_text_err + unit) \<times> mutator) may_panic" where
  "append_text_to_node i txt s = do {
      n \<leftarrow> m_node s i;
      s1 \<leftarrow> on_doc (insert_damage ALL_DAMAGE i) s;
      s2 \<leftarrow> on_doc (mark_ancestors_dirty i) s1;
      Some (case data n of
          Text old \<Rightarrow> (Inr (), hook (QueueMutationRecord (CharacterData i))
              (mutated (is_in_document (flags n))
                (upd_doc (update_node i (\<lambda>n. n\<lparr>data := Text (old @ txt)\<rparr>)) s2)))
        | _ \<Rightarrow> (Inl NotTextNode, s2)) }"

text \<open>\<open>Node::text_content\<close>: the texts below an element in document order; nothing for a
  comment or the document node.\<close>
partial_function (option) text_content_of :: "document \<Rightarrow> node_id list \<Rightarrow> string option" where
  "text_content_of d is = (case is of
      [] \<Rightarrow> Some []
    | i # is' \<Rightarrow> do {
        n \<leftarrow> node_at d i;
        here \<leftarrow> (case data n of
            Text t \<Rightarrow> Some t
          | Element e \<Rightarrow> text_content_of d (children n)
          | AnonymousBlock e \<Rightarrow> text_content_of d (children n)
          | _ \<Rightarrow> Some []);
        rest \<leftarrow> text_content_of d is';
        Some (here @ rest) })"

declare text_content_of.simps [code]

section \<open>Attributes\<close>

definition attribute_namespace :: "qual_name \<Rightarrow> string option" where
  "attribute_namespace name = (if qn_ns name = [] then None else Some (qn_ns name))"

definition record_attribute :: "node_id \<Rightarrow> qual_name \<Rightarrow> mutator \<Rightarrow> mutator" where
  "record_attribute i name = hook (QueueMutationRecord (Attributes i (qn_local name) (attribute_namespace name)))"

definition hint_and_damage :: "node \<Rightarrow> node" where
  "hint_and_damage = map_stylo (\<lambda>st. st\<lparr>restyle_subtree := True, damage := damage st OR ALL_DAMAGE\<rparr>)"

text \<open>\<open>set_input_checked_state\<close>.\<close>
definition set_input_checked_state :: "string \<Rightarrow> element_data \<Rightarrow> element_data" where
  "set_input_checked_state v e = (case parse_bool v of
      None \<Rightarrow> e
    | Some checked \<Rightarrow> (case special_data e of
        CheckboxInput _ \<Rightarrow> set_checkbox_input_checked checked e
      | SpecialNone \<Rightarrow> e\<lparr>el_attrs := el_attrs e @ [\<lparr> attr_name = \<lparr> qn_prefix = None,
            qn_ns = ''http://www.w3.org/1999/xhtml'', qn_local = ''checked'' \<rparr>,
          attr_value = (if checked then ''true'' else ''false'') \<rparr>]\<rparr>
      | _ \<Rightarrow> e))"

text \<open>What \<open>set_attribute\<close> does to the element's own fields before the special cases.\<close>
definition element_attr_changed :: "qual_name \<Rightarrow> element_data \<Rightarrow> element_data" where
  "element_attr_changed name e =
    (let e1 = (if qn_local name \<in> {''tabindex'', ''href'', ''disabled''} then flush_is_focussable e else e)
     in if qn_local name = ''href'' then flush_link_state e1 else e1)"

text \<open>A custom widget is told of every change of its element's attributes.\<close>
definition widget_attribute_changed ::
    "node_id \<Rightarrow> element_data \<Rightarrow> string \<Rightarrow> string option \<Rightarrow> string option \<Rightarrow> mutator \<Rightarrow> mutator" where
  "widget_attribute_changed i e local old new s = (if special_data e = CustomWidget
     then upd_doc (\<lambda>d. d\<lparr>doc_effects := doc_effects d @ [AttributeChanged i local old new]\<rparr>) s else s)"

text \<open>The special cases by tag and attribute once the element is in the document; \<open>e\<close> is the
  element as it stands after the attribute was set.  (The branch for \<open>value\<close> is never taken:
  \<open>set_attribute\<close> has returned before.)\<close>
definition attr_special :: "f64_ops \<Rightarrow> node_id \<Rightarrow> element_data \<Rightarrow> string \<Rightarrow> string \<Rightarrow> mut_op" where
  "attr_special F i e attr v s =
    (let tag = qn_local (el_name e)
     in if tag = ''input'' \<and> attr = ''checked''
       then Some (upd_doc (update_node i (map_element (set_input_checked_state v))) s)
     else if tag = ''input'' \<and> attr \<in> {''min'', ''max'', ''step'', ''value''}
       then (case special_data e of
           RangeInput _ \<Rightarrow> do {
             fresh \<leftarrow> range_from_attrs F e;
             Some (upd_doc (update_node i (map_element (\<lambda>e. e\<lparr>special_data := RangeInput fresh\<rparr>))) s) }
         | _ \<Rightarrow> Some s)
     else if tag = ''img'' \<and> attr = ''src'' then Some (log_op (LoadImage i) s)
     else if tag = ''canvas'' \<and> attr = ''src'' then load_custom_paint_src i s
     else if tag = ''link'' \<and> attr \<in> {''href'', ''rel''} then Some (log_op (LoadStylesheet i) s)
     else if tag = ''iframe'' \<and> attr \<in> {''src'', ''srcdoc''} then Some (log_op (LoadIframe i) s)
     else Some s)"

definition set_attribute :: "f64_ops \<Rightarrow> node_id \<Rightarrow> qual_name \<Rightarrow> string \<Rightarrow> mut_op" where
  "set_attribute F i name v s = do {
      n0 \<leftarrow> m_node s i;
      let in_doc = is_in_document (flags n0);
      s1 \<leftarrow> (if in_doc then do {
               t1 \<leftarrow> on_doc (snapshot_node i) s;
               t2 \<leftarrow> on_doc (mark_damaged i) (upd_doc (update_node i hint_and_damage) t1);
               t3 \<leftarrow> (case parent n0 of
                   None \<Rightarrow> Some t2
                 | Some p \<Rightarrow> do { _ \<leftarrow> m_node t2 p; Some (upd_doc (update_node p hint_subtree) t2) });
               on_doc (mark_ancestors_dirty i) t3 }
             else Some s);
      n1 \<leftarrow> m_node s1 i;
      let s2 = (if qn_local name = ''id'' \<and> in_doc
                then (case element_data n1 of
                    None \<Rightarrow> s1
                  | Some e \<Rightarrow> upd_doc (add_to_id_map v i)
                      (case el_id e of None \<Rightarrow> s1 | Some old \<Rightarrow> upd_doc (remove_from_id_map old i) s1))
                else s1);
      n2 \<leftarrow> m_node s2 i;
      (case data n2 of
         Element e \<Rightarrow> do {
           let e1 = element_attr_changed name (e\<lparr>el_attrs := attrs_set (el_attrs e) name v\<rparr>);
           let e2 = (if qn_local name = ''id'' then e1\<lparr>el_id := Some v\<rparr> else e1);
           let s3 = record_attribute i name
                      (upd_doc (update_node i (map_element (\<lambda>_. e2)))
                        (widget_attribute_changed i e (qn_local name)
                          (map_option attr_value (attrs_get (el_attrs e) name)) (Some v) (mutated in_doc s2)));
           (if qn_local name = ''value'' then
              Some (case special_data e2 of
                  TextInput _ \<Rightarrow> upd_doc (update_node i (map_element (\<lambda>e. e\<lparr>special_data := TextInput v\<rparr>))) s3
                | _ \<Rightarrow> s3)
            else if qn_local name = ''style'' then on_doc (set_restyle_hint_style_attribute i) s3
            else if qn_local name = ''disabled'' \<and> can_be_disabled e2 then on_doc (disable i) s3
            else if \<not> is_in_document (flags n2) then Some s3
            else attr_special F i e2 (qn_local name) v s3) }
       | _ \<Rightarrow> Some s2) }"

definition clear_attribute :: "node_id \<Rightarrow> qual_name \<Rightarrow> mut_op" where
  "clear_attribute i name s = do {
      n0 \<leftarrow> m_node s i;
      let in_doc = is_in_document (flags n0);
      s1 \<leftarrow> (if in_doc then do {
               t1 \<leftarrow> on_doc (snapshot_node i) s;
               t2 \<leftarrow> on_doc (mark_damaged i) (upd_doc (update_node i hint_and_damage) t1);
               on_doc (mark_ancestors_dirty i) t2 }
             else Some s);
      n1 \<leftarrow> m_node s1 i;
      let s2 = (if qn_local name = ''id'' \<and> in_doc
                then (case Option.bind (element_data n1) el_id of
                    None \<Rightarrow> s1 | Some old \<Rightarrow> upd_doc (remove_from_id_map old i) s1)
                else s1);
      (case element_data n1 of
         None \<Rightarrow> Some s2
       | Some e \<Rightarrow> (case attrs_remove (el_attrs e) name of
           (None, _) \<Rightarrow> Some s2
         | (Some old, ats) \<Rightarrow> do {
             let e0 = e\<lparr>el_attrs := ats\<rparr>;
             let e1 = element_attr_changed name
                        (if qn_local name = ''id'' then e0\<lparr>el_id := None\<rparr> else e0);
             let e2 = (case special_data e1 of
                  TextInput _ \<Rightarrow> if qn_local name = ''value'' then e1\<lparr>special_data := TextInput []\<rparr> else e1
                | _ \<Rightarrow> e1);
             let s3 = upd_doc (update_node i (map_element (\<lambda>_. e2)))
                        (widget_attribute_changed i e (qn_local name) (Some (attr_value old)) None
                          (record_attribute i name (mutated in_doc s2)));
             let tag = qn_local (el_name e2);
             (if qn_local name = ''disabled'' \<and> can_be_disabled e2 then on_doc (enable i) s3
              else if qn_local name = ''style'' then on_doc (set_restyle_hint_style_attribute i) s3
              else if tag = ''canvas'' \<and> qn_local name = ''src''
                then Some (s3\<lparr>recompute_is_animating := True\<rparr>)
              else if tag = ''link'' \<and> qn_local name = ''href'' then unload_stylesheet i s3
              else if tag = ''iframe'' \<and> qn_local name = ''srcdoc'' \<and> in_doc
                then Some (log_op (LoadIframe i) s3)
              else Some s3) })) }"

fun set_attributes :: "f64_ops \<Rightarrow> node_id \<Rightarrow> attribute list \<Rightarrow> mut_op" where
  "set_attributes F i [] s = Some s"
| "set_attributes F i (a # ats) s = do {
      s1 \<leftarrow> set_attribute F i (attr_name a) (attr_value a) s; set_attributes F i ats s1 }"

definition add_attrs_if_missing :: "f64_ops \<Rightarrow> node_id \<Rightarrow> attribute list \<Rightarrow> mut_op" where
  "add_attrs_if_missing F i ats s = do {
      s1 \<leftarrow> on_doc (insert_damage ALL_DAMAGE i) s;
      n \<leftarrow> m_node s1 i;
      e \<leftarrow> element_data n;
      set_attributes F i (filter (\<lambda>a. attr_name a \<notin> attr_name ` set (el_attrs e)) ats) s1 }"

section \<open>The flush\<close>

text \<open>\<open>form.rs\<close>: the explicit owner named by the \<open>form\<close> attribute, or the nearest form above.\<close>
definition is_form :: "document \<Rightarrow> node_id \<Rightarrow> bool" where
  "is_form d i = (case get_node d i of None \<Rightarrow> False | Some n \<Rightarrow> is_element_with_tag_name (data n) ''form'')"

partial_function (option) form_ancestor :: "document \<Rightarrow> node_id \<Rightarrow> node_id option option" where
  "form_ancestor d cur = (case at_next d cur of
      (None, _) \<Rightarrow> Some None
    | (Some i, cur') \<Rightarrow> do {
        n \<leftarrow> node_at d i;
        if is_element_with_tag_name (data n) ''form'' then Some (Some i) else form_ancestor d cur' })"

declare form_ancestor.simps [code]

definition reset_form_owner :: "node_id \<Rightarrow> document \<Rightarrow> document may_panic" where
  "reset_form_owner i d = do {
      n \<leftarrow> node_at d i;
      (case element_data n of
         None \<Rightarrow> Some d
       | Some e \<Rightarrow> do {
           explicit \<leftarrow> (case el_attr e ''form'' of None \<Rightarrow> Some None | Some owner \<Rightarrow> get_element_by_id d owner);
           final_owner \<leftarrow> (case explicit of
               Some o1 \<Rightarrow> if is_form d o1 then Some (Some o1) else form_ancestor d i
             | None \<Rightarrow> form_ancestor d i);
           Some (case final_owner of
               None \<Rightarrow> d
             | Some o1 \<Rightarrow> d\<lparr>controls_to_form := (controls_to_form d)(i \<mapsto> o1)\<rparr>) }) }"

fun reset_form_owners :: "node_id list \<Rightarrow> document \<Rightarrow> document may_panic" where
  "reset_form_owners [] d = Some d"
| "reset_form_owners (i # is) d = do { d1 \<leftarrow> reset_form_owner i d; reset_form_owners is d1 }"

text \<open>\<open>flush\<close>: the order in which the \<open>HashSet\<close>s of style and form nodes are drained is not
  specified by the source; the model drains them in the order of the ids.\<close>
definition is_canvas_with_src :: "document \<Rightarrow> node_id \<Rightarrow> bool" where
  "is_canvas_with_src d i = (case Option.bind (nodes d i) element_data of
      None \<Rightarrow> False
    | Some e \<Rightarrow> qn_local (el_name e) = ''canvas'' \<and> el_has_attr e ''src'')"

definition compute_has_canvas :: "document \<Rightarrow> bool may_panic" where
  "compute_has_canvas d = do {
      stk \<leftarrow> tt_new d;
      found \<leftarrow> tt_find d (is_canvas_with_src d) stk;
      Some (found \<noteq> None) }"

definition flush :: "mut_op" where
  "flush s = do {
      s0 \<leftarrow> (if recompute_is_animating s
             then do { b \<leftarrow> compute_has_canvas (m_doc s); Some (upd_doc (\<lambda>d. d\<lparr>has_canvas := b\<rparr>) s) }
             else Some s);
      s1 \<leftarrow> (case title_node s0 of
          None \<Rightarrow> Some s0
        | Some i \<Rightarrow> do {
            txt \<leftarrow> text_content_of (m_doc s0) [i];
            Some (upd_doc (shell (SetWindowTitle txt)) s0) });
      let s2 = (fold (\<lambda>i. log_op (ProcessStyleElement i)) (sorted_list_of_set (style_nodes s1)) s1)
                 \<lparr>style_nodes := {}\<rparr>;
      s3 \<leftarrow> on_doc (reset_form_owners (sorted_list_of_set (form_nodes s2))) s2;
      let s4 = s3\<lparr>form_nodes := {}\<rparr>;
      (case node_to_autofocus s4 of
         Some i \<Rightarrow> (let s5 = s4\<lparr>node_to_autofocus := None\<rparr> in
           if get_node (m_doc s5) i \<noteq> None then on_doc (\<lambda>d. map_option snd (set_focus_to i d)) s5 else Some s5)
       | None \<Rightarrow> Some s4) }"

text \<open>Dropping the mutator.\<close>
definition finish :: "mutator \<Rightarrow> document may_panic" where
  "finish s = do {
      s1 \<leftarrow> flush s;
      Some (if mutations_occurred s1 then shell RequestRedraw (m_doc s1) else m_doc s1) }"

end
