(* ===== verification/Dom_Structure.thy ===== *)
theory Dom_Structure
  imports Dom_Lifetime
begin

text \<open>
  What the mutation API does to the tree.  The walks over a subtree keep the shape of the
  store; every structural operation is then a change of links alone, and refines an update
  of parent pointers and child lists.  The functions that insert and remove are proved
  against any flush of the eager operations that satisfies the contract \<open>eager_flush\<close>;
  \<open>flush_eager_ops\<close> is shown to satisfy it.
\<close>

section \<open>Interaction state\<close>

lemma keeps_non_node_fields [simp]:
  "keeps d (d'\<lparr>hover_node_id := a\<rparr>) \<longleftrightarrow> keeps d d'"
  "keeps d (d'\<lparr>hover_node_is_text := b\<rparr>) \<longleftrightarrow> keeps d d'"
  "keeps d (d'\<lparr>hover_hit_node_id := a\<rparr>) \<longleftrightarrow> keeps d d'"
  "keeps d (d'\<lparr>active_node_id := a\<rparr>) \<longleftrightarrow> keeps d d'"
  "keeps d (d'\<lparr>focus_node_id := a\<rparr>) \<longleftrightarrow> keeps d d'"
  "keeps d (d'\<lparr>mousedown_node_id := a\<rparr>) \<longleftrightarrow> keeps d d'"
  "keeps d (d'\<lparr>selection := x\<rparr>) \<longleftrightarrow> keeps d d'"
  "keeps d (d'\<lparr>hovered_scrollbar := hs\<rparr>) \<longleftrightarrow> keeps d d'"
  "keeps d (d'\<lparr>last_client_pointer_position := pos\<rparr>) \<longleftrightarrow> keeps d d'"
  "keeps d (d'\<lparr>last_titlebar_resize := dir\<rparr>) \<longleftrightarrow> keeps d d'"
  "keeps d (d'\<lparr>doc_effects := effs\<rparr>) \<longleftrightarrow> keeps d d'"
  "keeps d (d'\<lparr>drag := y\<rparr>) \<longleftrightarrow> keeps d d'"
  "keeps d (d'\<lparr>scrollbar_activity := z\<rparr>) \<longleftrightarrow> keeps d d'"
  "keeps d (d'\<lparr>snapshots := sn\<rparr>) \<longleftrightarrow> keeps d d'"
  "keeps d (d'\<lparr>nodes_to_id := m\<rparr>) \<longleftrightarrow> keeps d d'"
  "keeps d (d'\<lparr>hook_calls := calls\<rparr>) \<longleftrightarrow> keeps d d'"
  "keeps d (d'\<lparr>sub_document_nodes := ns\<rparr>) \<longleftrightarrow> keeps d d'"
  by (simp_all add: keeps_def)

lemma keeps_selection_clear [simp]: "keeps d (selection_clear d') \<longleftrightarrow> keeps d d'"
  by (simp add: selection_clear_def)

lemma keeps_id_map [simp]:
  "keeps d (add_to_id_map v i d') \<longleftrightarrow> keeps d d'" "keeps d (remove_from_id_map v i d') \<longleftrightarrow> keeps d d'"
  by (auto simp: add_to_id_map_def remove_from_id_map_def Let_def split: option.splits)

lemma nsea_total:
  assumes "parents_ok d" "nodes d i \<noteq> None"
  shows "succeeds (nsea_loop d (Some i)) (\<lambda>_. True)"
  using assms
proof (induction i rule: up_induct)
  case (step i n)
  show ?case
  proof (cases "parent n")
    case None
    then show ?thesis
      by (simp add: nsea_loop.simps [of d "Some i"] nsea_loop.simps [of d None] get_node_simp step.hyps)
  next
    case (Some p)
    then have "nodes d p \<noteq> None" using assms(1) step.hyps by (auto simp: parents_ok_def)
    from step.IH [OF Some this] Some show ?thesis
      by (simp add: nsea_loop.simps [of d "Some i"] get_node_simp step.hyps)
  qed
qed

lemma nearest_surviving_total:
  assumes "parents_ok d"
  shows "succeeds (nearest_surviving_element_ancestor d i) (\<lambda>_. True)"
proof (cases "nodes d i")
  case None
  then show ?thesis by (simp add: nearest_surviving_element_ancestor_def get_node_simp)
next
  case (Some n)
  show ?thesis
  proof (cases "parent n")
    case None
    then show ?thesis
      by (simp add: nearest_surviving_element_ancestor_def get_node_simp Some nsea_loop.simps)
  next
    case (Some p)
    then have "nodes d p \<noteq> None" using assms \<open>nodes d i = Some n\<close> by (auto simp: parents_ok_def)
    from nsea_total [OF assms this] Some show ?thesis
      by (simp add: nearest_surviving_element_ancestor_def get_node_simp \<open>nodes d i = Some n\<close>)
  qed
qed

lemma clear_interaction_keeps:
  assumes ok: "parents_ok d" and k: "keeps d d1"
  shows "succeeds (clear_interaction_state_for_removed_node i d1) (keeps d)"
proof (cases "nodes d1 i")
  case None
  then show ?thesis by (simp add: clear_interaction_state_for_removed_node_def contains_key_def k)
next
  case (Some n)
  have live: "nodes d i \<noteq> None" using keeps_dom [OF k] Some by (metis option.distinct(1))
  have hov: "succeeds (if hover_node_id d2 = Some i
      then do { a \<leftarrow> nearest_surviving_element_ancestor d2 i;
                Some (d2\<lparr>hover_node_id := a, hover_node_is_text := False\<rparr>) }
      else Some d2) (keeps d)" if "keeps d d2" for d2
    using that by (auto intro: succeeds_seq [OF nearest_surviving_total [OF keeps_parents_ok [OF that ok]]])
  have act: "succeeds (if active_node_id d2 = Some i
      then do { a \<leftarrow> nearest_surviving_element_ancestor d2 i; Some (d2\<lparr>active_node_id := a\<rparr>) }
      else Some d2) (keeps d)" if "keeps d d2" for d2
    using that by (auto intro: succeeds_seq [OF nearest_surviving_total [OF keeps_parents_ok [OF that ok]]])
  have foc: "succeeds (if focus_node_id d2 = Some i
      then do { d' \<leftarrow> blur i d2; Some (d'\<lparr>focus_node_id := None\<rparr>) }
      else Some d2) (keeps d)" if "keeps d d2" for d2
    using that blur_keeps(1) [OF ok live that] by (auto simp: succeeds_def)
  have "contains_key d1 i" by (simp add: contains_key_def Some)
  moreover have bound: "succeeds (let x = a in f x) (keeps d)"
    if "keeps d a" "\<And>x. keeps d x \<Longrightarrow> succeeds (f x) (keeps d)" for a and f :: "document \<Rightarrow> document option"
    using that by (simp add: Let_def)
  moreover have drop: "keeps d (case drag d2 of
      Panning t \<Rightarrow> if pan_target t = i then d2\<lparr>drag := DragNone\<rparr> else d2
    | ScrollbarDrag r _ \<Rightarrow> if sb_node r = i then d2\<lparr>drag := DragNone\<rparr> else d2
    | _ \<Rightarrow> d2)" if "keeps d d2" for d2
    using that by (simp split: drag_mode.split)
  ultimately show ?thesis
    unfolding clear_interaction_state_for_removed_node_def
    apply (simp only: not_True_eq_False if_False)
    apply (rule succeeds_seq [OF hov [OF k]])
    apply (rule bound, simp)
    apply (rule succeeds_seq [OF act], assumption)
    apply (rule succeeds_seq [OF foc], assumption)
    apply (rule bound, simp)+
    apply simp
    done
qed

section \<open>The mutator's view\<close>

lemma m_doc_simps [simp]:
  "m_doc (upd_doc f s) = f (m_doc s)" "m_doc (mutated b s) = m_doc s" "m_doc (queue_op x s) = m_doc s"
  "m_doc (set_children i cs s) = update_node i (\<lambda>n. n\<lparr>children := cs\<rparr>) (m_doc s)"
  "m_doc (set_parent i p s) = update_node i (\<lambda>n. n\<lparr>parent := p\<rparr>) (m_doc s)"
  "m_doc (hook c s) = m_doc s\<lparr>hook_calls := hook_calls (m_doc s) @ [c]\<rparr>"
  "m_doc (log_op x s) = m_doc s"
  by (simp_all add: upd_doc_def mutated_def queue_op_def set_children_def set_parent_def hook_def log_op_def)

lemma queue_simps [simp]:
  "eager_op_queue (upd_doc f s) = eager_op_queue s" "eager_op_queue (mutated b s) = eager_op_queue s"
  "eager_op_queue (queue_op x s) = eager_op_queue s @ [x]"
  "eager_op_queue (set_children i cs s) = eager_op_queue s"
  "eager_op_queue (set_parent i p s) = eager_op_queue s" "eager_op_queue (hook c s) = eager_op_queue s"
  "eager_op_queue (log_op x s) = eager_op_queue s"
  by (simp_all add: upd_doc_def mutated_def queue_op_def set_children_def set_parent_def hook_def log_op_def)

lemma m_node_simp [simp]: "m_node s i = nodes (m_doc s) i"
  by (simp add: m_node_def node_at_simp)

lemma on_doc_succeeds:
  "succeeds (f (m_doc s)) (\<lambda>d. Q (s\<lparr>m_doc := d\<rparr>)) \<Longrightarrow> succeeds (on_doc f s) Q"
  by (auto simp: on_doc_def succeeds_def)

section \<open>Queued operations\<close>

fun op_node :: "special_op \<Rightarrow> node_id" where
  "op_node (LoadImage i) = i" | "op_node (LoadIframe i) = i" | "op_node (LoadStylesheet i) = i"
| "op_node (UnloadStylesheet i) = i" | "op_node (LoadCustomPaintSource i) = i"
| "op_node (ProcessButtonInput i) = i" | "op_node (UnloadSubDocument i) = i"
| "op_node (UnloadCustomWidget i) = i" | "op_node (ProcessStyleElement i) = i"

text \<open>The inputs that get children of their own when they enter the document.\<close>
definition creates_nodes :: "node_data \<Rightarrow> bool" where
  "creates_nodes nd = (case downcast_element nd of
      None \<Rightarrow> False
    | Some e \<Rightarrow> qn_local (el_name e) = ''input'' \<and>
        (el_attr e ''type'' \<in> {Some ''button'', Some ''submit'', Some ''reset''} \<and> el_attr e ''value'' \<noteq> None
         \<or> el_attr e ''type'' = Some ''file''))"

text \<open>An operation that its node can run.\<close>
fun op_ok :: "document \<Rightarrow> special_op \<Rightarrow> bool" where
  "op_ok d (ProcessButtonInput i) = (case nodes d i of None \<Rightarrow> False | Some n \<Rightarrow> \<not> creates_nodes (data n))"
| "op_ok d (UnloadSubDocument i) = (Option.bind (nodes d i) element_data \<noteq> None)"
| "op_ok d (UnloadCustomWidget i) = (Option.bind (nodes d i) element_data \<noteq> None)"
| "op_ok d (UnloadStylesheet i) = (case Option.bind (nodes d i) element_data of
      None \<Rightarrow> False | Some e \<Rightarrow> special_data e = Stylesheet)"
| "op_ok d (LoadCustomPaintSource i) = (nodes d i \<noteq> None)"
| "op_ok d _ = True"

lemma creates_nodes_erase: "creates_nodes (erase nd) = creates_nodes nd"
  by (cases nd) (simp_all add: creates_nodes_def erase_element_def el_attr_def)

lemma element_data_erase:
  "map_option erase_element (element_data n) = downcast_element (erase (data n))"
  by (cases "data n") (simp_all add: element_data_def)

lemma special_data_erase [simp]: "special_data (erase_element e) = special_data e"
  by (simp add: erase_element_def)

lemma keeps_element:
  assumes "keeps d d'" "Option.bind (nodes d i) element_data = Some e"
  obtains e' where "Option.bind (nodes d' i) element_data = Some e'" "special_data e' = special_data e"
proof -
  from assms(2) obtain n where n: "nodes d i = Some n" "element_data n = Some e" by (auto simp: bind_eq_Some_conv)
  from keeps_node [OF assms(1) n(1)] obtain n' where n': "nodes d' i = Some n'" by metis
  have "map_option erase_element (element_data n') = map_option erase_element (element_data n)"
    by (simp add: element_data_erase keeps_data [OF assms(1) n(1) n'])
  with n(2) obtain e' where "element_data n' = Some e'" "erase_element e' = erase_element e" by auto
  moreover from this(2) have "special_data e' = special_data e" by (metis special_data_erase)
  ultimately show ?thesis using n' that by simp
qed

lemma keeps_creates_nodes:
  assumes "keeps d d'" "nodes d i = Some n" "nodes d' i = Some n'"
  shows "creates_nodes (data n') = creates_nodes (data n)"
  using keeps_data [OF assms] creates_nodes_erase by metis

lemma op_ok_keeps:
  assumes "keeps d d'" "op_ok d x" shows "op_ok d' x"
proof (cases x)
  case (ProcessButtonInput i)
  with assms(2) obtain n where n: "nodes d i = Some n" "\<not> creates_nodes (data n)" by (auto split: option.splits)
  from keeps_node [OF assms(1) n(1)] obtain n' where "nodes d' i = Some n'" by metis
  with keeps_creates_nodes [OF assms(1) n(1) this] n(2) ProcessButtonInput show ?thesis by simp
next
  case (LoadCustomPaintSource i)
  with assms(2) keeps_dom [OF assms(1), of i] show ?thesis by simp
qed (use assms(2) in \<open>auto elim!: keeps_element [OF assms(1)] split: option.splits\<close>)

text \<open>Every node's answer to "does it make children of its own on entering the document" satisfies
  \<open>Q\<close>: with \<open>Not\<close> no node does, with \<open>\<lambda>_. True\<close> there is no restriction.\<close>
definition quiet :: "(bool \<Rightarrow> bool) \<Rightarrow> document \<Rightarrow> bool" where
  "quiet Q d \<longleftrightarrow> (\<forall>i n. nodes d i = Some n \<longrightarrow> Q (creates_nodes (data n)))"

text \<open>No button-like input that has a value and no file input.\<close>
abbreviation plain :: "document \<Rightarrow> bool" where
  "plain \<equiv> quiet Not"

lemma quiet_True [simp]: "quiet (\<lambda>_. True) d"
  by (simp add: quiet_def)

lemma keeps_quiet:
  assumes "keeps d d'" "quiet Q d" shows "quiet Q d'"
  unfolding quiet_def
proof (intro allI impI)
  fix i n' assume n': "nodes d' i = Some n'"
  with keeps_dom [OF assms(1), of i] obtain n where n: "nodes d i = Some n" by (cases "nodes d i") auto
  with keeps_creates_nodes [OF assms(1) n n'] assms(2) show "Q (creates_nodes (data n'))"
    by (simp add: quiet_def)
qed

text \<open>A callback of a subtree walk at node \<open>i\<close>: it keeps the shape and queues at most one
  operation, on \<open>i\<close> itself, that can run.\<close>
definition visits :: "node_id \<Rightarrow> mutator \<Rightarrow> mutator \<Rightarrow> bool" where
  "visits i s s' \<longleftrightarrow> keeps (m_doc s) (m_doc s') \<and>
     (\<exists>q. eager_op_queue s' = eager_op_queue s @ q \<and> length q \<le> 1
        \<and> (\<forall>x\<in>set q. op_node x = i \<and> op_ok (m_doc s') x))"

lemma visitsI0: "keeps (m_doc s) (m_doc s') \<Longrightarrow> eager_op_queue s' = eager_op_queue s \<Longrightarrow> visits i s s'"
  by (simp add: visits_def)

lemma visitsI1:
  "keeps (m_doc s) (m_doc s') \<Longrightarrow> eager_op_queue s' = eager_op_queue s @ [x] \<Longrightarrow> op_node x = i \<Longrightarrow>
   op_ok (m_doc s') x \<Longrightarrow> visits i s s'"
  by (auto simp: visits_def)

lemma shape_set_in_document [simp]: "shape (set_in_document v n) = shape n"
  by (simp add: set_in_document_def)

lemma added_element_visits:
  assumes "keeps (m_doc s) (m_doc s2)" "eager_op_queue s2 = eager_op_queue s"
    and "op_ok (m_doc s2) (ProcessButtonInput i)"
  shows "visits i s (added_element i tag s2)"
  using assms by (auto simp: added_element_def visits_def split: option.splits)

lemma visits_autofocus [simp]: "visits i s (note_autofocus j e s') = visits i s s'"
  by (simp add: note_autofocus_def visits_def)

lemma added_cb_visits:
  assumes ok: "parents_ok (m_doc s)" and n: "nodes (m_doc s) i \<noteq> None" and pl: "plain (m_doc s)"
  shows "succeeds (added_cb i s) (visits i s)"
proof -
  let ?s1 = "upd_doc (update_node i (set_in_document True)) s"
  have k1: "keeps (m_doc s) (m_doc ?s1)" by (simp add: keeps_update)
  obtain d2 where d2: "insert_damage ALL_DAMAGE i (m_doc ?s1) = Some d2" "keeps (m_doc s) d2"
    using insert_damage_keeps [OF ok n k1] by blast
  obtain m where m: "nodes d2 i = Some m" using keeps_dom [OF d2(2)] n by (metis option.exhaust)
  have nc: "\<not> creates_nodes (data m)" using keeps_quiet [OF d2(2) pl] m by (simp add: quiet_def)
  obtain n0 where n0: "nodes (m_doc s) i = Some n0" using n by auto
  let ?s2 = "?s1\<lparr>m_doc := d2\<rparr>"
  define s3 where "s3 = (case data_attr (data m) ''id'' of None \<Rightarrow> ?s2 | Some v \<Rightarrow> upd_doc (add_to_id_map v i) ?s2)"
  have s3: "nodes (m_doc s3) = nodes d2" "keeps (m_doc s) (m_doc s3)" "eager_op_queue s3 = eager_op_queue s"
    using d2(2) by (auto simp: s3_def add_to_id_map_def Let_def split: option.splits)
  have op: "op_ok (m_doc s3) (ProcessButtonInput i)" by (simp add: s3(1) m nc)
  have "visits i s (case data m of
      Element e \<Rightarrow> note_autofocus i e (added_element i (qn_local (el_name e)) s3) | _ \<Rightarrow> s3)"
    by (cases "data m")
       (simp_all only: node_data.case visitsI0 [OF s3(2,3)] visits_autofocus added_element_visits [OF s3(2,3) op])
  moreover have "added_cb i s = Some (case data m of
      Element e \<Rightarrow> note_autofocus i e (added_element i (qn_local (el_name e)) s3) | _ \<Rightarrow> s3)"
    using d2(1) by (simp add: added_cb_def n0 on_doc_def m s3_def Let_def split: node_data.split)
  ultimately show ?thesis by simp
qed

lemma removed_element_visits:
  assumes "keeps (m_doc s) (m_doc s2)" "eager_op_queue s2 = eager_op_queue s"
    and "nodes (m_doc s2) i = Some m" "element_data m = Some e" "special_data e = sd"
  shows "visits i s (removed_element i sd s2)"
  using assms by (cases sd) (auto simp: removed_element_def visits_def)

lemma removed_cb_visits:
  assumes ok: "parents_ok (m_doc s)" and n: "nodes (m_doc s) i \<noteq> None"
  shows "succeeds (removed_cb i s) (visits i s)"
proof -
  obtain n0 where n0: "nodes (m_doc s) i = Some n0" using n by auto
  let ?s1 = "upd_doc (update_node i (set_in_document False)) s"
  have k1: "keeps (m_doc s) (m_doc ?s1)" by (simp add: keeps_update)
  from clear_interaction_keeps [OF ok k1] obtain d2 where
    d2: "clear_interaction_state_for_removed_node i (m_doc ?s1) = Some d2" "keeps (m_doc s) d2"
    by (auto simp: succeeds_def)
  define s2 where "s2 = ?s1\<lparr>m_doc := d2\<rparr>"
  define s3 where "s3 = clear_selection_of i s2"
  have s3: "keeps (m_doc s) (m_doc s3)" "eager_op_queue s3 = eager_op_queue s"
    using d2(2) by (auto simp: s3_def s2_def clear_selection_of_def)
  obtain m where m: "nodes (m_doc s3) i = Some m" using keeps_dom [OF s3(1)] n by (metis option.exhaust)
  define s4 where "s4 = forget_snapshot i m s3"
  have s4: "keeps (m_doc s) (m_doc s4)" "eager_op_queue s4 = eager_op_queue s"
    using s3 by (auto simp: s4_def forget_snapshot_def intro!: keeps_update_trans)
  define s5 where "s5 = forget_id i m s4"
  have s5: "keeps (m_doc s) (m_doc s5)" "eager_op_queue s5 = eager_op_queue s"
    using s4 by (simp_all add: s5_def forget_id_def split: option.splits)
  have k35: "keeps (m_doc s3) (m_doc s5)" using keeps_sym [OF s3(1)] s5(1) by (rule keeps_trans)
  have "visits i s (case data m of Element e \<Rightarrow> removed_element i (special_data e) s5 | _ \<Rightarrow> s5)"
  proof (cases "data m")
    case (Element e)
    then have "Option.bind (nodes (m_doc s3) i) element_data = Some e"
      by (simp only: m Option.bind.simps) (simp add: element_data_def)
    from keeps_element [OF k35 this] obtain e' where
      e': "Option.bind (nodes (m_doc s5) i) element_data = Some e'" "special_data e' = special_data e" .
    then obtain m' where "nodes (m_doc s5) i = Some m'" "element_data m' = Some e'"
      by (auto simp: bind_eq_Some_conv)
    from removed_element_visits [OF s5 this e'(2)] Element show ?thesis by simp
  qed (simp_all only: node_data.case visitsI0 [OF s5])
  moreover have "removed_cb i s =
      Some (case data m of Element e \<Rightarrow> removed_element i (special_data e) s5 | _ \<Rightarrow> s5)"
    using d2(1) m unfolding s5_def s4_def s3_def
    by (simp add: removed_cb_def n0 on_doc_def s2_def [symmetric] Let_def)
  ultimately show ?thesis by (simp only: succeeds_Some)
qed

section \<open>The walk over a subtree\<close>

lemma update_node_parents_ok:
  assumes "parents_ok d" "\<And>n. parent (f n) = parent n"
  shows "parents_ok (update_node i f d)"
proof -
  have "parent_edges (update_node i f d) = parent_edges d"
    using assms(2) by (auto simp: parent_edges_def split: if_splits)
  moreover have "dom (nodes (update_node i f d)) = dom (nodes d)" by (auto split: if_splits)
  moreover have "nodes d p \<noteq> None" if "nodes (update_node i f d) j = Some n" "parent n = Some p" for j n p
    using assms that by (auto simp: parents_ok_def split: if_splits)
  moreover have "nodes (update_node i f d) p \<noteq> None \<longleftrightarrow> nodes d p \<noteq> None" for p by auto
  ultimately show ?thesis using assms(1) unfolding parents_ok_def by simp
qed

lemma represents_set_children:
  "i \<notin> set (preorder t) \<Longrightarrow> represents d p t \<Longrightarrow> represents (update_node i (\<lambda>n. n\<lparr>children := cs\<rparr>) d) p t"
  by (induction t arbitrary: p) (auto split: option.splits)

lemma keeps_put_back:
  assumes "keeps (update_node i (\<lambda>n. n\<lparr>children := []\<rparr>) d) d'" "nodes d i = Some n" "cs = children n"
  shows "keeps d (update_node i (\<lambda>n. n\<lparr>children := cs\<rparr>) d')"
proof (rule keepsI)
  fix j
  have s: "map_option shape (nodes d' j) = map_option shape (nodes (update_node i (\<lambda>n. n\<lparr>children := []\<rparr>) d) j)"
    using assms(1) by (simp add: keeps_def)
  show "map_option shape (nodes (update_node i (\<lambda>n. n\<lparr>children := cs\<rparr>) d') j) = map_option shape (nodes d j)"
    using s assms(2,3) by (cases "j = i") (auto simp: shape_def)
qed (use assms(1) in \<open>simp_all add: keeps_def\<close>)

lemma quiet_set_children: "quiet Q d \<Longrightarrow> quiet Q (update_node i (\<lambda>n. n\<lparr>children := cs\<rparr>) d)"
  by (auto simp: quiet_def split: if_splits)

lemma op_ok_set_children:
  "op_ok (update_node i (\<lambda>n. n\<lparr>children := cs\<rparr>) d) x = op_ok d x"
proof -
  let ?d = "update_node i (\<lambda>n. n\<lparr>children := cs\<rparr>) d"
  have el: "Option.bind (nodes ?d j) element_data = Option.bind (nodes d j) element_data" for j
    by (cases "nodes d j") (auto simp: element_data_def)
  have cr: "(case nodes ?d j of None \<Rightarrow> False | Some n \<Rightarrow> \<not> creates_nodes (data n))
      = (case nodes d j of None \<Rightarrow> False | Some n \<Rightarrow> \<not> creates_nodes (data n))" for j
    by (cases "nodes d j") auto
  have li: "(nodes ?d j \<noteq> None) = (nodes d j \<noteq> None)" for j by simp
  show ?thesis by (cases x) (simp_all only: op_ok.simps el cr li)
qed

text \<open>The operations a walk queues: one at most per node of the subtrees, and each can run.\<close>
definition queues :: "node_id set \<Rightarrow> mutator \<Rightarrow> mutator \<Rightarrow> bool" where
  "queues A s s' \<longleftrightarrow> keeps (m_doc s) (m_doc s') \<and>
     (\<exists>q. eager_op_queue s' = eager_op_queue s @ q \<and> distinct (map op_node q)
        \<and> op_node ` set q \<subseteq> A \<and> (\<forall>x\<in>set q. op_ok (m_doc s') x))"

lemma iter_children_rec_Nil [simp]: "iter_children_rec cb [] s = Some s"
  by (simp add: iter_children_rec.simps)

lemma iter_children_rec_Cons:
  "iter_children_rec cb (c # cs) s = do {
        s1 \<leftarrow> cb c s;
        n \<leftarrow> m_node s1 c;
        s2 \<leftarrow> iter_children_rec cb (children n) (set_children c [] s1);
        _ \<leftarrow> m_node s2 c;
        iter_children_rec cb cs (set_children c (children n) s2) }"
  by (subst iter_children_rec.simps) simp

lemma iter_forest:
  assumes cb: "\<And>s i. parents_ok (m_doc s) \<Longrightarrow> nodes (m_doc s) i \<noteq> None \<Longrightarrow> quiet Q (m_doc s) \<Longrightarrow>
      succeeds (cb i s) (visits i s)"
  shows "parents_ok (m_doc s) \<Longrightarrow> quiet Q (m_doc s) \<Longrightarrow> distinct (concat (map preorder ts)) \<Longrightarrow>
    \<forall>t\<in>set ts. \<exists>p. represents (m_doc s) p t \<Longrightarrow>
    succeeds (iter_children_rec cb (map root ts) s) (queues (set (concat (map preorder ts))) s)"
proof (induction "size_list size ts" arbitrary: ts s rule: less_induct)
  case less
  show ?case
  proof (cases ts)
    case Nil
    then show ?thesis by (simp add: queues_def)
  next
    case (Cons t us)
    obtain i ks where t: "t = T i ks" by (cases t)
    from less.prems(4) Cons t obtain p n where n: "nodes (m_doc s) i = Some n" "children n = map root ks"
      and reps: "\<forall>k\<in>set ks. represents (m_doc s) (Some i) k"
      by (auto split: option.splits)
    have dist: "distinct (concat (map preorder ks))" "i \<notin> set (concat (map preorder ks))"
      "distinct (concat (map preorder us))" "i \<notin> set (concat (map preorder us))"
      "set (concat (map preorder ks)) \<inter> set (concat (map preorder us)) = {}"
      using less.prems(3) Cons t by auto
    from cb [OF less.prems(1) _ less.prems(2), of i] n(1) obtain s1 where
      s1: "cb i s = Some s1" "visits i s s1" by (auto simp: succeeds_def)
    then have k1: "keeps (m_doc s) (m_doc s1)" by (simp add: visits_def)
    from keeps_node [OF k1 n(1)] n(2) obtain n1 where
      n1: "nodes (m_doc s1) i = Some n1" "children n1 = map root ks" by metis
    let ?s1' = "set_children i [] s1"
    have ok1: "parents_ok (m_doc ?s1')"
      using keeps_parents_ok [OF k1 less.prems(1)] by (simp add: update_node_parents_ok)
    have pl1: "quiet Q (m_doc ?s1')" using keeps_quiet [OF k1 less.prems(2)] by (simp add: quiet_set_children)
    have rep1: "\<forall>k\<in>set ks. \<exists>p. represents (m_doc ?s1') p k"
    proof
      fix k assume k: "k \<in> set ks"
      then have "i \<notin> set (preorder k)" using dist(2) by auto
      moreover have "represents (m_doc s1) (Some i) k" using reps k keeps_represents [OF k1] by blast
      ultimately show "\<exists>p. represents (m_doc ?s1') p k" by (auto intro: represents_set_children)
    qed
    have "size_list size ks < size_list size ts" by (simp add: Cons t)
    from less.hyps [OF this ok1 pl1 dist(1) rep1] obtain s2 where
      s2: "iter_children_rec cb (map root ks) ?s1' = Some s2" "queues (set (concat (map preorder ks))) ?s1' s2"
      by (auto simp: succeeds_def)
    then have k2: "keeps (m_doc ?s1') (m_doc s2)" by (simp add: queues_def)
    let ?s3 = "set_children i (map root ks) s2"
    have k13: "keeps (m_doc s1) (m_doc ?s3)"
      using keeps_put_back [OF _ n1(1)] k2 n1(2) by simp
    have k3: "keeps (m_doc s) (m_doc ?s3)" using k1 k13 by (rule keeps_trans)
    have rep3: "\<forall>u\<in>set us. \<exists>p. represents (m_doc ?s3) p u"
      using less.prems(4) Cons keeps_represents [OF k3] by (metis list.set_intros(2))
    have "size_list size us < size_list size ts" by (simp add: Cons)
    from less.hyps [OF this keeps_parents_ok [OF k3 less.prems(1)] keeps_quiet [OF k3 less.prems(2)] dist(3) rep3]
    obtain s4 where s4: "iter_children_rec cb (map root us) ?s3 = Some s4"
      "queues (set (concat (map preorder us))) ?s3 s4" by (auto simp: succeeds_def)
    have live2: "nodes (m_doc s2) i \<noteq> None" using keeps_dom [OF k2] n1(1) by simp
    have run: "iter_children_rec cb (map root ts) s = Some s4"
      using s1(1) n1 s2(1) live2 s4(1) by (auto simp: Cons t iter_children_rec_Cons)
    have k4: "keeps (m_doc ?s3) (m_doc s4)" using s4(2) by (simp add: queues_def)
    obtain q1 where q1: "eager_op_queue s1 = eager_op_queue s @ q1" "length q1 \<le> 1"
      "\<forall>x\<in>set q1. op_node x = i \<and> op_ok (m_doc s1) x" using s1(2) by (auto simp: visits_def)
    obtain q2 where q2: "eager_op_queue s2 = eager_op_queue s1 @ q2" "distinct (map op_node q2)"
      "op_node ` set q2 \<subseteq> set (concat (map preorder ks))" "\<forall>x\<in>set q2. op_ok (m_doc s2) x"
      using s2(2) unfolding queues_def by (auto simp del: set_concat)
    obtain q3 where q3: "eager_op_queue s4 = eager_op_queue s2 @ q3" "distinct (map op_node q3)"
      "op_node ` set q3 \<subseteq> set (concat (map preorder us))" "\<forall>x\<in>set q3. op_ok (m_doc s4) x"
      using s4(2) unfolding queues_def by (auto simp del: set_concat)
    have ok_all: "\<forall>x\<in>set (q1 @ q2 @ q3). op_ok (m_doc s4) x"
    proof
      fix x assume "x \<in> set (q1 @ q2 @ q3)"
      then consider "x \<in> set q1" | "x \<in> set q2" | "x \<in> set q3" by auto
      then show "op_ok (m_doc s4) x"
      proof cases
        case 1
        then have "op_ok (m_doc s1) x" using q1(3) by blast
        then show ?thesis by (rule op_ok_keeps [OF keeps_trans [OF k13 k4]])
      next
        case 2
        then have "op_ok (m_doc s2) x" using q2(4) by blast
        then have "op_ok (m_doc ?s3) x" by (simp add: op_ok_set_children)
        then show ?thesis by (rule op_ok_keeps [OF k4])
      next
        case 3
        then show ?thesis using q3(4) by blast
      qed
    qed
    have "distinct (map op_node q1)" using q1(2) by (cases q1) auto
    moreover have "op_node ` set q1 \<subseteq> {i}" using q1(3) by auto
    moreover have "op_node ` set q1 \<inter> op_node ` set q2 = {}" "op_node ` set q1 \<inter> op_node ` set q3 = {}"
      "op_node ` set q2 \<inter> op_node ` set q3 = {}"
      using calculation(2) q2(3) q3(3) dist(2,4,5) by blast+
    ultimately have "distinct (map op_node (q1 @ q2 @ q3))"
      using q2(2) q3(2) by (simp only: map_append distinct_append set_map set_append) blast
    moreover have "op_node ` set (q1 @ q2 @ q3) \<subseteq> set (concat (map preorder ts))"
    proof -
      have "set (concat (map preorder ts)) = insert i (set (concat (map preorder ks)) \<union> set (concat (map preorder us)))"
        by (simp add: Cons t)
      then show ?thesis using \<open>op_node ` set q1 \<subseteq> {i}\<close> q2(3) q3(3)
        by (simp only: set_append image_Un) blast
    qed
    moreover have "eager_op_queue s4 = eager_op_queue s @ q1 @ q2 @ q3" using q1(1) q2(1) q3(1) by simp
    ultimately have "queues (set (concat (map preorder ts))) s s4"
      unfolding queues_def using keeps_trans [OF k3 k4] ok_all by blast
    with run show ?thesis by simp
  qed
qed

end
