(* ===== verification/Dom_Links.thy ===== *)
theory Dom_Links
  imports Dom_Structure
begin

text \<open>
  The abstract updates of the tree that the mutation API refines: unlinking nodes from
  their parents and linking parentless nodes below a parent, as updates of parent pointers
  and child lists.  Both keep the invariant of the store.
\<close>

section \<open>Unlinking\<close>

definition drop_child :: "node_id \<Rightarrow> node_id \<Rightarrow> document \<Rightarrow> document" where
  "drop_child p c = update_node p (\<lambda>n. n\<lparr>children := filter (\<lambda>j. j \<noteq> c) (children n)\<rparr>)"

definition unlink :: "node_id \<Rightarrow> document \<Rightarrow> document" where
  "unlink c d = (case Option.bind (nodes d c) parent of
      None \<Rightarrow> d
    | Some p \<Rightarrow> drop_child p c (update_node c (\<lambda>n. n\<lparr>parent := None\<rparr>) d))"

definition unlink_node :: "node_id set \<Rightarrow> node_id \<Rightarrow> node \<Rightarrow> node" where
  "unlink_node A j n = n\<lparr>parent := (if j \<in> A then None else parent n),
     children := filter (\<lambda>x. x \<notin> A) (children n)\<rparr>"

lemma unlink_node_sel [simp]:
  "nid (unlink_node A j n) = nid n" "parent (unlink_node A j n) = (if j \<in> A then None else parent n)"
  "children (unlink_node A j n) = filter (\<lambda>x. x \<notin> A) (children n)"
  "is_anonymous (unlink_node A j n) = is_anonymous n" "flags (unlink_node A j n) = flags n"
  "data (unlink_node A j n) = data n" "anonymous_blocks (unlink_node A j n) = anonymous_blocks n"
  by (simp_all add: unlink_node_def is_anonymous_def)

lemma wf_child_parent:
  assumes "wf_doc d" "nodes d j = Some n" "c \<in> set (children n)"
  shows "\<exists>m. nodes d c = Some m \<and> parent m = Some j"
  using wf_doc_node [OF assms(1,2)] assms(3) by (auto simp: wf_node_def)

lemma wf_not_own_parent:
  assumes "wf_doc d" "nodes d c = Some n" shows "parent n \<noteq> Some c"
proof
  assume "parent n = Some c"
  with assms(2) have "(c, c) \<in> parent_edges d" by (simp add: parent_edges_def)
  with assms(1) show False by (auto simp: wf_doc_def acyclic_def)
qed

text \<open>In a well-formed store a node is listed by its parent only, so unlinking it filters
  every child list.\<close>
lemma unlink_nodes:
  assumes wf: "wf_doc d"
  shows "nodes (unlink c d) j = map_option (unlink_node {c} j) (nodes d j)"
proof (cases "nodes d j")
  case None
  then show ?thesis by (cases "nodes d c") (auto simp: unlink_def drop_child_def split: option.splits)
next
  case (Some m)
  have listed: "Option.bind (nodes d c) parent = Some j" if "c \<in> set (children m)"
    using wf_child_parent [OF wf Some that] by auto
  have same: "filter (\<lambda>x. x \<notin> {c}) (children m) = children m" if "c \<notin> set (children m)"
    using that by (simp add: filter_id_conv)
  show ?thesis
  proof (cases "Option.bind (nodes d c) parent")
    case None
    then have "c \<notin> set (children m)" using listed by auto
    moreover have "j = c \<Longrightarrow> parent m = None" using None Some by simp
    ultimately show ?thesis using None Some same
      by (simp add: unlink_def unlink_node_def)
  next
    case (Some p)
    note p = Some
    from p obtain k where k: "nodes d c = Some k" "parent k = Some p" by (auto simp: bind_eq_Some_conv)
    have "p \<noteq> c" using wf_not_own_parent [OF wf k(1)] k(2) by auto
    moreover have "j \<noteq> p \<Longrightarrow> c \<notin> set (children m)" using listed p by auto
    ultimately show ?thesis using \<open>nodes d j = Some m\<close> p same
      by (auto simp: unlink_def drop_child_def unlink_node_def)
  qed
qed

lemma unlink_root [simp]: "root_node_id (unlink c d) = root_node_id d" "allocated (unlink c d) = allocated d"
  by (simp_all add: unlink_def drop_child_def split: option.splits)

text \<open>Pointwise: unlink a set of nodes.\<close>
definition unlinked :: "node_id set \<Rightarrow> document \<Rightarrow> document \<Rightarrow> bool" where
  "unlinked A d d' \<longleftrightarrow> (\<forall>j. nodes d' j = map_option (unlink_node A j) (nodes d j))
     \<and> root_node_id d' = root_node_id d \<and> allocated d' = allocated d"

lemma unlinked_dom: "unlinked A d d' \<Longrightarrow> dom (nodes d') = dom (nodes d)"
  by (auto simp: unlinked_def dom_def)

lemma unlinked_edges: "unlinked A d d' \<Longrightarrow> parent_edges d' = {(i, p) \<in> parent_edges d. i \<notin> A}"
  by (auto simp: unlinked_def parent_edges_def split: if_splits)

lemma unlinked_wf:
  assumes wf: "wf_doc d" and u: "unlinked A d d'"
  shows "wf_doc d'"
proof -
  have ac: "acyclic (parent_edges d')"
    using wf unlinked_edges [OF u] by (auto simp: wf_doc_def intro: acyclic_subset)
  have fin: "finite (dom (nodes d'))" using wf unlinked_dom [OF u] by (simp add: wf_doc_def)
  have nodes': "nodes d' j = map_option (unlink_node A j) (nodes d j)" for j using u by (simp add: unlinked_def)
  have node: "wf_node d' i n'" if n': "nodes d' i = Some n'" for i n'
  proof -
    from n' nodes' obtain n where n: "nodes d i = Some n" "n' = unlink_node A i n" by auto
    note w = wf_doc_node [OF wf n(1)]
    have "\<exists>m. nodes d' c = Some m \<and> parent m = Some i" if "c \<in> set (children n)" "c \<notin> A" for c
      using wf_child_parent [OF wf n(1) that(1)] that(2) by (auto simp: nodes')
    moreover have "\<exists>m. nodes d' p = Some m \<and> (is_anonymous n \<or> i \<in> set (children m))"
      if "parent n = Some p" "i \<notin> A" for p
      using w that by (auto simp: wf_node_def nodes')
    ultimately show ?thesis using w by (auto simp: wf_node_def n(2) split: if_splits)
  qed
  obtain r where "nodes d (root_node_id d) = Some r" "parent r = None" using wf by (auto simp: wf_doc_def)
  then have "\<exists>n. nodes d' (root_node_id d') = Some n \<and> parent n = None"
    using u nodes' by (auto simp: unlinked_def)
  with fin ac node show ?thesis by (simp add: wf_doc_def)
qed

lemma unlink_unlinked: "wf_doc d \<Longrightarrow> unlinked {c} d (unlink c d)"
  by (simp add: unlinked_def unlink_nodes)

lemma unlinked_trans:
  assumes "unlinked A d d1" "unlinked B d1 d2" shows "unlinked (A \<union> B) d d2"
proof -
  have "unlink_node B j (unlink_node A j n) = unlink_node (A \<union> B) j n" for j n
    by (simp add: unlink_node_def conj_commute)
  with assms show ?thesis by (auto simp: unlinked_def option.map_comp comp_def)
qed

lemma unlinked_empty: "unlinked {} d d"
proof -
  have "unlink_node {} j = id" for j by (simp add: unlink_node_def fun_eq_iff)
  then show ?thesis by (simp add: unlinked_def option.map_id)
qed

lemma fold_unlink_unlinked: "wf_doc d \<Longrightarrow> unlinked (set cs) d (fold unlink cs d)"
proof (induction cs arbitrary: d)
  case Nil
  then show ?case by (simp add: unlinked_empty)
next
  case (Cons c cs)
  note u = unlink_unlinked [OF Cons.prems, of c]
  from Cons.IH [OF unlinked_wf [OF Cons.prems u]] have "unlinked (set cs) (unlink c d) (fold unlink cs (unlink c d))" .
  from unlinked_trans [OF u this] show ?case by simp
qed

section \<open>Linking\<close>

definition link_node :: "node_id \<Rightarrow> node_id set \<Rightarrow> node_id list \<Rightarrow> node_id \<Rightarrow> node \<Rightarrow> node" where
  "link_node p A cs j n = n\<lparr>parent := (if j \<in> A then Some p else parent n),
     children := (if j = p then cs else children n)\<rparr>"

lemma link_node_sel [simp]:
  "nid (link_node p A cs j n) = nid n" "parent (link_node p A cs j n) = (if j \<in> A then Some p else parent n)"
  "children (link_node p A cs j n) = (if j = p then cs else children n)"
  "is_anonymous (link_node p A cs j n) = is_anonymous n"
  "data (link_node p A cs j n) = data n" "anonymous_blocks (link_node p A cs j n) = anonymous_blocks n"
  by (simp_all add: link_node_def is_anonymous_def)

definition linked :: "node_id \<Rightarrow> node_id set \<Rightarrow> node_id list \<Rightarrow> document \<Rightarrow> document \<Rightarrow> bool" where
  "linked p A cs d d' \<longleftrightarrow> (\<forall>j. nodes d' j = map_option (link_node p A cs j) (nodes d j))
     \<and> root_node_id d' = root_node_id d \<and> allocated d' = allocated d"

lemma acyclic_add_child:
  assumes "acyclic r" "(p, c) \<notin> r\<^sup>*" shows "acyclic (insert (c, p) r)"
  using assms by (simp add: acyclic_insert)

lemma reach_insert:
  assumes "(p, c) \<notin> r\<^sup>*" shows "(p, x) \<in> (insert (c, p) r)\<^sup>* \<Longrightarrow> (p, x) \<in> r\<^sup>*"
proof (induction rule: rtrancl_induct)
  case (step y z)
  with assms show ?case by (auto intro: rtrancl_into_rtrancl)
qed simp

lemma acyclic_add_children:
  assumes "finite A" "acyclic r" "\<forall>c\<in>A. (p, c) \<notin> r\<^sup>*"
  shows "acyclic (r \<union> (\<lambda>c. (c, p)) ` A) \<and> (\<forall>x. (p, x) \<in> (r \<union> (\<lambda>c. (c, p)) ` A)\<^sup>* \<longrightarrow> (p, x) \<in> r\<^sup>*)"
  using assms
proof (induction A rule: finite_induct)
  case (insert c A)
  let ?r = "r \<union> (\<lambda>c. (c, p)) ` A"
  from insert have IH: "acyclic ?r" "\<forall>x. (p, x) \<in> ?r\<^sup>* \<longrightarrow> (p, x) \<in> r\<^sup>*" by auto
  have nc: "(p, c) \<notin> ?r\<^sup>*" using IH(2) insert.prems(2) by auto
  have eq: "r \<union> (\<lambda>c. (c, p)) ` insert c A = insert (c, p) ?r" by auto
  show ?case unfolding eq using acyclic_add_child [OF IH(1) nc] reach_insert [OF nc] IH(2) by blast
qed simp

lemma linked_edges:
  assumes "linked p A cs d d'" "\<And>c n. c \<in> A \<Longrightarrow> nodes d c = Some n \<Longrightarrow> parent n = None"
    and "A \<subseteq> dom (nodes d)"
  shows "parent_edges d' = parent_edges d \<union> (\<lambda>c. (c, p)) ` A"
proof -
  have n': "nodes d' j = map_option (link_node p A cs j) (nodes d j)" for j
    using assms(1) by (simp add: linked_def)
  show ?thesis using assms(2,3) by (auto simp: parent_edges_def n' dom_def split: if_splits)
qed

lemma linked_wf:
  assumes wf: "wf_doc d" and l: "linked p A cs d d'"
    and A: "A \<subseteq> dom (nodes d)" "\<And>c n. c \<in> A \<Longrightarrow> nodes d c = Some n \<Longrightarrow> parent n = None"
    and p: "nodes d p = Some pn" "\<forall>c\<in>A. (p, c) \<notin> (parent_edges d)\<^sup>*"
    and cs: "distinct cs" "set cs = set (children pn) \<union> A"
    and r: "root_node_id d \<notin> A"
  shows "wf_doc d'"
proof -
  have n': "nodes d' j = map_option (link_node p A cs j) (nodes d j)" for j
    using l by (simp add: linked_def)
  have fin: "finite A" using A(1) wf by (meson finite_subset wf_doc_def)
  have dom': "dom (nodes d') = dom (nodes d)" by (auto simp: n' dom_def)
  have ac: "acyclic (parent_edges d')"
    using acyclic_add_children [OF fin _ p(2)] wf linked_edges [OF l A(2,1)] by (simp add: wf_doc_def)
  have node: "wf_node d' i n" if nn: "nodes d' i = Some n" for i n
  proof -
    from nn n' obtain m where m: "nodes d i = Some m" "n = link_node p A cs i m" by auto
    note w = wf_doc_node [OF wf m(1)]
    have kids: "\<exists>k. nodes d' c = Some k \<and> parent k = Some i" if c: "c \<in> set (children n)" for c
    proof (cases "c \<in> A")
      case True
      have "i = p"
      proof (rule ccontr)
        assume "i \<noteq> p"
        with c m have "c \<in> set (children m)" by simp
        from wf_child_parent [OF wf m(1) this] A(2) [OF True] show False by auto
      qed
      moreover from A(1) True obtain k where "nodes d c = Some k" by auto
      ultimately show ?thesis using True by (simp add: n')
    next
      case False
      then have "c \<in> set (children m)" using c m cs(2) p(1) by (auto split: if_splits)
      from wf_child_parent [OF wf m(1) this] False show ?thesis by (auto simp: n')
    qed
    have par: "\<exists>k. nodes d' q = Some k \<and> (is_anonymous n \<or> i \<in> set (children k))" if q: "parent n = Some q" for q
    proof (cases "i \<in> A")
      case True
      then have "q = p" using q m by simp
      then show ?thesis using p(1) True cs(2) by (simp add: n')
    next
      case False
      then have "parent m = Some q" using q m by simp
      with w obtain k where "nodes d q = Some k" "is_anonymous m \<or> i \<in> set (children k)" by (auto simp: wf_node_def)
      then show ?thesis using cs(2) p(1) m(2) by (auto simp: n')
    qed
    have "distinct (children n)" "nid n = i" using w m cs(1) by (simp_all add: wf_node_def)
    with kids par show ?thesis by (simp add: wf_node_def)
  qed
  obtain rn where "nodes d (root_node_id d) = Some rn" "parent rn = None" using wf by (auto simp: wf_doc_def)
  then have "\<exists>n. nodes d' (root_node_id d') = Some n \<and> parent n = None"
    using l r n' by (auto simp: linked_def)
  with ac node dom' wf show ?thesis by (simp add: wf_doc_def)
qed

end
