(* ===== verification/Dom_Refinement.thy ===== *)
theory Dom_Refinement
  imports Dom_Links
begin

text \<open>
  The refinement: \<open>add_children_to_parent\<close> and \<open>detach_node_no_record\<close> return on a
  well-formed document, keep the invariant, and change links as the abstract updates of
  \<open>Dom_Links\<close> say, whatever they mark, queue, clear and report on the way.

  \<open>eager_flush\<close> is the contract they need of the flush of the eager operations.
\<close>

section \<open>The relation between a document and a mutator\<close>

text \<open>The mutator's document has the links of \<open>d\<close>, nothing is queued, and the elements that make
  children of their own are as \<open>Q\<close> says.\<close>
definition relinks_on :: "(bool \<Rightarrow> bool) \<Rightarrow> document \<Rightarrow> mutator \<Rightarrow> bool" where
  "relinks_on Q d s \<longleftrightarrow> same_links d (m_doc s) \<and> quiet Q (m_doc s) \<and> eager_op_queue s = []"

abbreviation relinks :: "document \<Rightarrow> mutator \<Rightarrow> bool" where
  "relinks \<equiv> relinks_on Not"

lemma relinks_parents_ok: "relinks_on Q d s \<Longrightarrow> parents_ok d \<Longrightarrow> parents_ok (m_doc s)"
  by (auto simp: relinks_on_def intro: same_links_parents_ok)

lemma relinks_live: "relinks_on Q d s \<Longrightarrow> nodes d i \<noteq> None \<Longrightarrow> nodes (m_doc s) i \<noteq> None"
  using same_links_dom [of d "m_doc s" i] by (simp add: relinks_on_def)

lemma relinks_keeps: "relinks_on Q d s \<Longrightarrow> keeps (m_doc s) (m_doc s') \<Longrightarrow> eager_op_queue s' = [] \<Longrightarrow> relinks_on Q d s'"
  unfolding relinks_on_def by (auto intro: same_links_trans keeps_quiet)

lemma relinks_self: "quiet Q (m_doc s) \<Longrightarrow> eager_op_queue s = [] \<Longrightarrow> relinks_on Q (m_doc s) s"
  by (simp add: relinks_on_def)

lemma relinks_wf: "relinks_on Q d s \<Longrightarrow> wf_doc d \<Longrightarrow> wf_doc (m_doc s)"
  unfolding relinks_on_def by (blast intro: same_links_wf_doc)

lemma relinks_node:
  assumes "relinks_on Q d s" "nodes d i = Some n"
  obtains n' where "nodes (m_doc s) i = Some n'" "parent n' = parent n" "children n' = children n"
  using same_links_node [of d "m_doc s" i n] assms by (auto simp: relinks_on_def)

lemma relinks_mutated [simp]: "relinks_on Q d (mutated b s) = relinks_on Q d s"
  by (simp add: relinks_on_def mutated_def)

lemma same_links_hook [simp]: "same_links d (d'\<lparr>hook_calls := h\<rparr>) = same_links d d'"
  by (simp add: same_links_def)

lemma quiet_hook [simp]: "quiet Q (d\<lparr>hook_calls := h\<rparr>) = quiet Q d"
  by (simp add: quiet_def)

lemma relinks_hook [simp]: "relinks_on Q d (hook c s) = relinks_on Q d s"
  by (simp add: relinks_on_def)

lemma relinks_hooks: "relinks_on Q d s \<Longrightarrow> relinks_on Q d (fold (\<lambda>c. hook (f c)) cs s)"
  by (induction cs arbitrary: s) auto

lemma relinks_hint: "relinks_on Q d s \<Longrightarrow> relinks_on Q d (upd_doc (update_node i hint_subtree) s)"
  by (rule relinks_keeps) (auto simp: relinks_on_def)

lemma relinks_doc_step:
  assumes "relinks_on Q d s" and "\<exists>d'. f (m_doc s) = Some d' \<and> keeps (m_doc s) d'"
  shows "succeeds (on_doc f s) (relinks_on Q d)"
proof -
  from assms(2) obtain d' where d': "f (m_doc s) = Some d'" "keeps (m_doc s) d'" by blast
  have "relinks_on Q d (s\<lparr>m_doc := d'\<rparr>)"
    by (rule relinks_keeps [OF assms(1)]) (use assms(1) d'(2) in \<open>simp_all add: relinks_on_def\<close>)
  then show ?thesis by (simp add: on_doc_def d'(1))
qed

lemma relinks_insert_damage:
  assumes "relinks_on Q d s" "parents_ok d" "nodes d i \<noteq> None"
  shows "succeeds (on_doc (insert_damage dm i) s) (relinks_on Q d)"
  by (rule relinks_doc_step [OF assms(1)],
      rule insert_damage_keeps [OF relinks_parents_ok [OF assms(1,2)] relinks_live [OF assms(1,3)] keeps_refl])

lemma relinks_mark_dirty:
  assumes "relinks_on Q d s" "parents_ok d" "nodes d i \<noteq> None"
  shows "succeeds (on_doc (mark_ancestors_dirty i) s) (relinks_on Q d)"
  by (rule relinks_doc_step [OF assms(1)],
      rule mark_ancestors_dirty_keeps [OF relinks_parents_ok [OF assms(1,2)] relinks_live [OF assms(1,3)] keeps_refl])

lemma relinks_record_node:
  assumes "relinks_on Q d s" "nodes d i \<noteq> None"
  shows "succeeds (maybe_record_node (Some i) s) (relinks_on Q d)"
proof -
  obtain n where "nodes (m_doc s) i = Some n" using relinks_live [OF assms] by auto
  then show ?thesis using assms(1)
    by (auto simp: maybe_record_node_def relinks_on_def split: option.splits)
qed

lemma is_anonymous_link [simp]:
  "is_anonymous (n\<lparr>parent := p\<rparr>) = is_anonymous n" "is_anonymous (n\<lparr>children := cs\<rparr>) = is_anonymous n"
  by (simp_all add: is_anonymous_def)

lemma link_shape_link:
  "link_shape (n\<lparr>parent := p\<rparr>) = (nid n, p, children n, is_anonymous n, anonymous_blocks n)"
  "link_shape (n\<lparr>children := cs\<rparr>) = (nid n, parent n, cs, is_anonymous n, anonymous_blocks n)"
  by (simp_all add: link_shape_def)

lemma same_links_set:
  assumes "same_links d d'"
  shows "same_links (update_node i (\<lambda>n. n\<lparr>parent := p\<rparr>) d) (update_node i (\<lambda>n. n\<lparr>parent := p\<rparr>) d')"
    "same_links (update_node i (\<lambda>n. n\<lparr>children := cs\<rparr>) d) (update_node i (\<lambda>n. n\<lparr>children := cs\<rparr>) d')"
proof -
  have eq: "map_option link_shape (nodes d' j) = map_option link_shape (nodes d j)" for j
    using assms by (simp add: same_links_def)
  have upd: "same_links (update_node i f d) (update_node i f d')"
    if f: "\<And>n m. link_shape n = link_shape m \<Longrightarrow> link_shape (f n) = link_shape (f m)" for f
  proof -
    have "map_option link_shape (nodes (update_node i f d') j) = map_option link_shape (nodes (update_node i f d) j)" for j
    proof (cases "j = i")
      case True
      show ?thesis
      proof (cases "nodes d i")
        case None
        then show ?thesis using eq [of i] True by simp
      next
        case (Some n)
        with eq [of i] obtain m where m: "nodes d' i = Some m" "link_shape m = link_shape n" by auto
        from f [OF m(2)] show ?thesis by (simp add: True Some m(1))
      qed
    next
      case False
      then show ?thesis using eq [of j] by simp
    qed
    then show ?thesis using assms by (simp add: same_links_def)
  qed
  show "same_links (update_node i (\<lambda>n. n\<lparr>parent := p\<rparr>) d) (update_node i (\<lambda>n. n\<lparr>parent := p\<rparr>) d')"
    "same_links (update_node i (\<lambda>n. n\<lparr>children := cs\<rparr>) d) (update_node i (\<lambda>n. n\<lparr>children := cs\<rparr>) d')"
    by (rule upd; simp add: link_shape_link; simp add: link_shape_def)+
qed

lemma quiet_set: "quiet Q d \<Longrightarrow> quiet Q (update_node i (\<lambda>n. n\<lparr>parent := p\<rparr>) d)"
  by (auto simp: quiet_def split: if_splits)

lemma relinks_set_parent:
  "relinks_on Q d s \<Longrightarrow> relinks_on Q (update_node i (\<lambda>n. n\<lparr>parent := p\<rparr>) d) (set_parent i p s)"
  by (simp add: relinks_on_def same_links_set quiet_set)

lemma relinks_set_children:
  "relinks_on Q d s \<Longrightarrow> relinks_on Q (update_node i (\<lambda>n. n\<lparr>children := cs\<rparr>) d) (set_children i cs s)"
  by (simp add: relinks_on_def same_links_set quiet_set_children)

section \<open>Parent pointers on the way\<close>

lemma parents_ok_clear_parent:
  assumes "parents_ok d" shows "parents_ok (update_node c (\<lambda>n. n\<lparr>parent := None\<rparr>) d)"
proof -
  let ?d = "update_node c (\<lambda>n. n\<lparr>parent := None\<rparr>) d"
  have "parent_edges ?d \<subseteq> parent_edges d" by (auto simp: parent_edges_def split: if_splits)
  moreover have "dom (nodes ?d) = dom (nodes d)" by (auto split: if_splits)
  moreover have "nodes ?d q \<noteq> None \<longleftrightarrow> nodes d q \<noteq> None" for q by auto
  moreover have "nodes d q \<noteq> None" if "nodes ?d j = Some n" "parent n = Some q" for j n q
    using assms that by (auto simp: parents_ok_def split: if_splits)
  ultimately show ?thesis using assms unfolding parents_ok_def by (metis acyclic_subset)
qed

lemma parents_ok_set_children:
  "parents_ok d \<Longrightarrow> parents_ok (update_node i (\<lambda>n. n\<lparr>children := cs\<rparr>) d)"
  by (rule update_node_parents_ok) simp_all

text \<open>The last step of every detachment: the old parent forgets the child.\<close>
lemma relinks_forget_child:
  assumes wf: "wf_doc d" and n: "nodes d c = Some n" "parent n = Some p"
    and s: "relinks_on Q (update_node c (\<lambda>n. n\<lparr>parent := None\<rparr>) d) s"
  shows "succeeds (Option.bind (nodes (m_doc s) p) (\<lambda>on.
      maybe_record_node (Some p) (set_children p (filter (\<lambda>j. j \<noteq> c) (children on)) s))) (relinks_on Q (unlink c d))"
proof -
  let ?d1 = "update_node c (\<lambda>n. n\<lparr>parent := None\<rparr>) d"
  have "nodes ?d1 p \<noteq> None" using wf_doc_parents_ok [OF wf] n by (auto simp: parents_ok_def)
  then obtain pn where pn: "nodes ?d1 p = Some pn" by auto
  from relinks_node [OF s pn] obtain on where on: "nodes (m_doc s) p = Some on" "children on = children pn" by metis
  have un: "unlink c d = drop_child p c ?d1" by (simp add: unlink_def n)
  have "drop_child p c ?d1 = update_node p (\<lambda>n. n\<lparr>children := filter (\<lambda>j. j \<noteq> c) (children pn)\<rparr>) ?d1"
    using pn by (simp add: drop_child_def update_node_def)
  then have "relinks_on Q (unlink c d) (set_children p (filter (\<lambda>j. j \<noteq> c) (children on)) s)"
    unfolding un on(2) using relinks_set_children [OF s] by simp
  moreover have "nodes (unlink c d) p \<noteq> None" using pn by (simp add: un drop_child_def)
  ultimately have "succeeds (maybe_record_node (Some p) (set_children p (filter (\<lambda>j. j \<noteq> c) (children on)) s))
      (relinks_on Q (unlink c d))" by (rule relinks_record_node)
  then show ?thesis by (simp add: on(1))
qed

lemma cleared_parent_ok:
  assumes "wf_doc d" "nodes d c = Some n" "parent n = Some p"
  shows "parents_ok (update_node c (\<lambda>n. n\<lparr>parent := None\<rparr>) d)"
    "nodes (update_node c (\<lambda>n. n\<lparr>parent := None\<rparr>) d) p \<noteq> None"
  using parents_ok_clear_parent [OF wf_doc_parents_ok [OF assms(1)]] wf_doc_parents_ok [OF assms(1)] assms(2,3)
  by (auto simp: parents_ok_def)

lemma detach_child_relinks:
  assumes r: "relinks_on Q d s" and wf: "wf_doc d" and c: "nodes d c \<noteq> None"
  shows "succeeds (detach_child c s) (relinks_on Q (unlink c d))"
proof -
  from c obtain n where n: "nodes d c = Some n" by auto
  from relinks_node [OF r n] obtain n' where n': "nodes (m_doc s) c = Some n'" "parent n' = parent n" by metis
  show ?thesis
  proof (cases "parent n")
    case None
    then show ?thesis using r by (simp add: detach_child_def n' unlink_def n)
  next
    case (Some p)
    let ?d1 = "update_node c (\<lambda>n. n\<lparr>parent := None\<rparr>) d"
    note d1 = cleared_parent_ok [OF wf n Some]
    have r1: "relinks_on Q ?d1 (set_parent c None (mutated b s))" for b
      by (rule relinks_set_parent) (simp add: r)
    show ?thesis
      unfolding detach_child_def m_node_simp n' n'(2) Some Let_def Option.bind.simps option.case
      apply (rule succeeds_seq [OF relinks_insert_damage [OF r1 d1]])
      apply (rule succeeds_seq [where P = "relinks_on Q ?d1"])
       apply (rule succeeds_if)
        apply (rule relinks_mark_dirty [OF relinks_hint d1], assumption)
       apply simp
      subgoal for s2 s3
        using relinks_forget_child [OF wf n Some, of Q s3] by (auto simp: succeeds_def bind_eq_Some_conv)
      done
  qed
qed

lemma detach_children_relinks:
  "relinks_on Q d s \<Longrightarrow> wf_doc d \<Longrightarrow> \<forall>c\<in>set cs. nodes d c \<noteq> None \<Longrightarrow>
   succeeds (detach_children cs s) (relinks_on Q (fold unlink cs d))"
proof (induction cs arbitrary: d s)
  case (Cons c cs)
  have wf': "wf_doc (unlink c d)" by (rule unlinked_wf [OF Cons.prems(2) unlink_unlinked [OF Cons.prems(2)]])
  have live: "\<forall>x\<in>set cs. nodes (unlink c d) x \<noteq> None"
    using Cons.prems(2,3) by (simp add: unlink_nodes)
  show ?case
    using Cons.prems
    by (auto intro!: succeeds_seq [OF detach_child_relinks] Cons.IH [OF _ wf' live])
qed simp

end
