(* ===== verification/Dom_Insert.thy ===== *)
theory Dom_Insert
  imports Dom_Refinement
begin

text \<open>
  Inserting and removing children, against the contract \<open>eager_flush\<close> of the flush of the
  queued operations.  Each operation returns on a well-formed document and changes the
  links as the updates of \<open>Dom_Links\<close> say.  \<open>flush_eager_ops\<close> is shown to satisfy the
  contract, so the facts hold of the code's own nesting.
\<close>

section \<open>Subtrees that hang free\<close>

lemma represents_inner_parent:
  "represents d q t \<Longrightarrow> j \<in> set (preorder t) \<Longrightarrow> j \<noteq> root t \<Longrightarrow>
   \<exists>n p. nodes d j = Some n \<and> parent n = Some p"
proof (induction t arbitrary: q)
  case (T i ts)
  from T.prems(2,3) obtain u where u: "u \<in> set ts" "j \<in> set (preorder u)" by auto
  with T.prems(1) have r: "represents d (Some i) u" by (auto split: option.splits)
  show ?case
  proof (cases "j = root u")
    case True
    with r show ?thesis by (cases u) (auto split: option.splits)
  qed (rule T.IH [OF u(1) r u(2)])
qed

lemma represents_update_other:
  "i \<notin> set (preorder t) \<Longrightarrow> represents d q t \<Longrightarrow> represents (update_node i f d) q t"
  by (induction t arbitrary: q) (auto split: option.splits)

lemma represents_set_root_parent:
  assumes "represents d q t" "distinct (preorder t)"
  shows "represents (update_node (root t) (\<lambda>n. n\<lparr>parent := p\<rparr>) d) p t"
proof (cases t)
  case (T i ts)
  have "represents (update_node i (\<lambda>n. n\<lparr>parent := p\<rparr>) d) (Some i) u" if "u \<in> set ts" for u
    using assms that T by (intro represents_update_other) (auto split: option.splits)
  then show ?thesis using assms(1) T by (auto split: option.splits)
qed

text \<open>\<open>free d p c\<close>: \<open>c\<close> is the root of a subtree that does not hold \<open>p\<close>.\<close>
definition free :: "document \<Rightarrow> node_id \<Rightarrow> node_id \<Rightarrow> bool" where
  "free d p c \<longleftrightarrow> (p, c) \<notin> (parent_edges d)\<^sup>* \<and>
     (\<exists>t. root t = c \<and> represents d None t \<and> distinct (preorder t))"

lemma free_node: "free d p c \<Longrightarrow> \<exists>n. nodes d c = Some n \<and> parent n = None"
proof -
  assume "free d p c"
  then obtain t where t: "root t = c" "represents d None t" by (auto simp: free_def)
  from represents_node [OF t(2)] t(1) show ?thesis by metis
qed

lemma free_not_in:
  assumes "free d p c" "root t = c" "represents d None t" shows "p \<notin> set (preorder t)"
  using assms represents_reaches [OF assms(3), of p] by (auto simp: free_def)

lemma parent_edges_set_parent:
  assumes "nodes d c = Some n" "parent n = None"
  shows "parent_edges (update_node c (\<lambda>n. n\<lparr>parent := Some p\<rparr>) d) = insert (c, p) (parent_edges d)"
  using assms by (auto simp: parent_edges_def split: if_splits)

lemma free_set_parent:
  assumes f: "free d p x" and c: "free d p c" "x \<noteq> c"
  shows "free (update_node c (\<lambda>n. n\<lparr>parent := Some p\<rparr>) d) p x"
proof -
  from f obtain t where t: "root t = x" "represents d None t" "distinct (preorder t)" by (auto simp: free_def)
  from free_node [OF c(1)] obtain n where n: "nodes d c = Some n" "parent n = None" by auto
  have "c \<notin> set (preorder t)" using represents_inner_parent [OF t(2), of c] t(1) c(2) n by auto
  from represents_update_other [OF this t(2)]
  have rep: "represents (update_node c (\<lambda>n. n\<lparr>parent := Some p\<rparr>) d) None t" .
  have "(p, c) \<notin> (parent_edges d)\<^sup>*" "(p, x) \<notin> (parent_edges d)\<^sup>*" using f c by (simp_all add: free_def)
  then have "(p, x) \<notin> (parent_edges (update_node c (\<lambda>n. n\<lparr>parent := Some p\<rparr>) d))\<^sup>*"
    unfolding parent_edges_set_parent [OF n] by (auto dest: reach_insert)
  with rep t(1,3) show ?thesis unfolding free_def by blast
qed

lemma free_set_children:
  assumes "free d p c" shows "free (update_node p (\<lambda>n. n\<lparr>children := cs\<rparr>) d) p c"
proof -
  from assms obtain t where t: "root t = c" "represents d None t" "distinct (preorder t)" by (auto simp: free_def)
  have "parent_edges (update_node p (\<lambda>n. n\<lparr>children := cs\<rparr>) d) = parent_edges d"
    by (auto simp: parent_edges_def split: if_splits)
  moreover note represents_update_other [OF free_not_in [OF assms t(1,2)] t(2)]
  ultimately show ?thesis using t(1,3) assms unfolding free_def by metis
qed

lemma wf_free:
  assumes wf: "wf_doc d" and n: "nodes d c = Some n" "parent n = None" and p: "(p, c) \<notin> (parent_edges d)\<^sup>*"
  shows "free d p c"
  using wf_doc_represents [OF wf n(1)] wf_doc_distinct [OF wf] n(2) p unfolding free_def by metis

lemma parents_ok_set_parent:
  assumes ok: "parents_ok d" and c: "free d p c" and p: "nodes d p \<noteq> None"
  shows "parents_ok (update_node c (\<lambda>n. n\<lparr>parent := Some p\<rparr>) d)"
proof -
  let ?d = "update_node c (\<lambda>n. n\<lparr>parent := Some p\<rparr>) d"
  from free_node [OF c] obtain n where n: "nodes d c = Some n" "parent n = None" by auto
  have "acyclic (parent_edges ?d)" unfolding parent_edges_set_parent [OF n]
    using ok c by (intro acyclic_add_child) (simp_all add: parents_ok_def free_def)
  moreover have "dom (nodes ?d) = dom (nodes d)" by (auto split: if_splits)
  moreover have "nodes ?d q \<noteq> None" if "nodes ?d j = Some m" "parent m = Some q" for j m q
    using ok p that by (auto simp: parents_ok_def split: if_splits)
  ultimately show ?thesis using ok unfolding parents_ok_def by metis
qed

section \<open>The flush of the queued operations\<close>

locale eager_flush =
  fixes flush_ops :: mut_op
  assumes flush_relinks: "parents_ok (m_doc s) \<Longrightarrow> quiet Q (m_doc s) \<Longrightarrow>
      \<forall>x\<in>set (eager_op_queue s). op_ok (m_doc s) x \<Longrightarrow> distinct (map op_node (eager_op_queue s)) \<Longrightarrow>
      succeeds (flush_ops s) (relinks_on Q (m_doc s))"

context eager_flush
begin

text \<open>A walk over the subtree of a node followed by the flush leaves the links alone.\<close>
lemma walk_and_flush:
  assumes cb: "\<And>s i. parents_ok (m_doc s) \<Longrightarrow> nodes (m_doc s) i \<noteq> None \<Longrightarrow> quiet Q (m_doc s) \<Longrightarrow>
      succeeds (cb i s) (visits i s)"
    and r: "relinks_on Q d s" and ok: "parents_ok d"
    and t: "represents d q t" "root t = c" "distinct (preorder t)"
  shows "succeeds (Option.bind (iter_subtree_mut cb c s) flush_ops) (relinks_on Q d)"
proof (rule succeeds_seq)
  have sl: "same_links d (m_doc s)" and pl: "quiet Q (m_doc s)" and q: "eager_op_queue s = []"
    using r by (simp_all add: relinks_on_def)
  have ok': "parents_ok (m_doc s)" by (rule relinks_parents_ok [OF r ok])
  show "succeeds (iter_subtree_mut cb c s) (queues (set (preorder t)) s)"
    unfolding iter_subtree_mut_def
    using iter_forest [OF cb ok' pl, of "[t]"] t same_links_represents [OF sl t(1)] by auto
  fix s1 assume s1: "queues (set (preorder t)) s s1"
  then have k: "keeps (m_doc s) (m_doc s1)" by (simp add: queues_def)
  have "\<forall>x\<in>set (eager_op_queue s1). op_ok (m_doc s1) x" "distinct (map op_node (eager_op_queue s1))"
    using s1 q by (auto simp: queues_def)
  from flush_relinks [OF keeps_parents_ok [OF k ok'] keeps_quiet [OF k pl] this]
  show "succeeds (flush_ops s1) (relinks_on Q d)"
    by (rule succeeds_mono) (use sl keeps_same_links [OF k] in \<open>auto simp: relinks_on_def intro: same_links_trans\<close>)
qed

lemma process_added_relinks:
  assumes "relinks d s" "parents_ok d" "represents d q t" "root t = c" "distinct (preorder t)"
  shows "succeeds (process_added_subtree flush_ops c s) (relinks d)"
  unfolding process_added_subtree_def using walk_and_flush [OF added_cb_visits assms] by simp

lemma process_removed_relinks:
  assumes "relinks_on Q d s" "parents_ok d" "represents d q t" "root t = c" "distinct (preorder t)"
  shows "succeeds (process_removed_subtree flush_ops c s) (relinks_on Q d)"
  unfolding process_removed_subtree_def using walk_and_flush [OF removed_cb_visits assms] by simp

lemma attach_child_relinks:
  assumes r: "relinks d s" and ok: "parents_ok d" and c: "free d p c" and p: "nodes d p \<noteq> None"
  shows "succeeds (attach_child flush_ops b p c s)
    (relinks (update_node c (\<lambda>n. n\<lparr>parent := Some p\<rparr>) d))"
proof -
  let ?d = "update_node c (\<lambda>n. n\<lparr>parent := Some p\<rparr>) d"
  from c obtain t where t: "root t = c" "represents d None t" "distinct (preorder t)" by (auto simp: free_def)
  have r': "relinks ?d (set_parent c (Some p) s)" by (rule relinks_set_parent [OF r])
  have ok': "parents_ok ?d" by (rule parents_ok_set_parent [OF ok c p])
  have t': "represents ?d (Some p) t" using represents_set_root_parent [OF t(2,3), of "Some p"] t(1) by simp
  have "nodes (m_doc s) c \<noteq> None" using free_node [OF c] relinks_live [OF r] by auto
  then show ?thesis
    using process_added_relinks [OF r' ok' t' t(1,3)] process_removed_relinks [OF r' ok' t' t(1,3)] r'
    by (auto simp: attach_child_def Let_def)
qed

lemma attach_children_relinks:
  "relinks d s \<Longrightarrow> parents_ok d \<Longrightarrow> \<forall>c\<in>set ids. free d p c \<Longrightarrow> nodes d p \<noteq> None \<Longrightarrow> distinct ids \<Longrightarrow>
   succeeds (attach_children flush_ops b p ids s)
     (relinks (fold (\<lambda>c. update_node c (\<lambda>n. n\<lparr>parent := Some p\<rparr>)) ids d))"
proof (induction ids arbitrary: d s)
  case (Cons c cs)
  let ?d = "update_node c (\<lambda>n. n\<lparr>parent := Some p\<rparr>) d"
  have c: "free d p c" using Cons.prems(3) by simp
  have "\<forall>x\<in>set cs. free ?d p x" using Cons.prems(3,5) free_set_parent [OF _ c] by auto
  moreover have "nodes ?d p \<noteq> None" using Cons.prems(4) by auto
  moreover have "distinct cs" using Cons.prems(5) by simp
  ultimately have IH: "relinks ?d s1 \<Longrightarrow> succeeds (attach_children flush_ops b p cs s1)
      (relinks (fold (\<lambda>c. update_node c (\<lambda>n. n\<lparr>parent := Some p\<rparr>)) cs ?d))" for s1
    by (intro Cons.IH parents_ok_set_parent [OF Cons.prems(2) c Cons.prems(4)])
  show ?case
    unfolding attach_children.simps fold_simps comp_apply
    by (rule succeeds_seq [OF attach_child_relinks [OF Cons.prems(1,2) c Cons.prems(4)] IH])
qed simp

end

section \<open>The links after an insertion\<close>

lemma linked_fold:
  assumes "p \<notin> set ids"
  shows "linked p (set ids) cs d
    (fold (\<lambda>c. update_node c (\<lambda>n. n\<lparr>parent := Some p\<rparr>)) ids (update_node p (\<lambda>n. n\<lparr>children := cs\<rparr>) d))"
proof -
  let ?f = "\<lambda>ids d. fold (\<lambda>c. update_node c (\<lambda>n. n\<lparr>parent := Some p\<rparr>)) ids d"
  have "nodes (?f is d) j = map_option (\<lambda>n. if j \<in> set is then n\<lparr>parent := Some p\<rparr> else n) (nodes d j)
      \<and> root_node_id (?f is d) = root_node_id d \<and> allocated (?f is d) = allocated d" for "is" d j
  proof (induction "is" arbitrary: d)
    case Nil
    then show ?case by (cases "nodes d j") simp_all
  next
    case (Cons i "is")
    show ?case using Cons [of "update_node i (\<lambda>n. n\<lparr>parent := Some p\<rparr>) d"]
      by (cases "nodes d j") auto
  qed
  note f = this [of ids]
  have "(n\<lparr>parent := parent n\<rparr>) = n" "(n\<lparr>children := children n\<rparr>) = n" for n :: node by simp_all
  then show ?thesis using assms f [of "update_node p (\<lambda>n. n\<lparr>children := cs\<rparr>) d"]
    by (auto simp: linked_def link_node_def option.map_comp comp_def intro!: option.map_cong)
qed

lemma free_unlinked:
  assumes wf: "wf_doc d" and u: "unlinked A d d1" and c: "c \<in> A" "nodes d c \<noteq> None"
    and p: "(p, c) \<notin> (parent_edges d)\<^sup>*"
  shows "free d1 p c"
proof -
  obtain n where "nodes d1 c = Some n" "parent n = None" using u c by (auto simp: unlinked_def)
  moreover have "(parent_edges d1)\<^sup>* \<subseteq> (parent_edges d)\<^sup>*"
    using unlinked_edges [OF u] by (intro rtrancl_mono) auto
  ultimately show ?thesis using wf_free [OF unlinked_wf [OF wf u]] p by blast
qed

text \<open>The ids can be inserted below \<open>p\<close>: live, distinct, not the root, not above or at \<open>p\<close>.\<close>
definition insertable :: "document \<Rightarrow> node_id \<Rightarrow> node_id list \<Rightarrow> bool" where
  "insertable d p ids \<longleftrightarrow> distinct ids
     \<and> (\<forall>c\<in>set ids. nodes d c \<noteq> None \<and> c \<noteq> root_node_id d \<and> (p, c) \<notin> (parent_edges d)\<^sup>*)"

text \<open>The abstract effect of every insertion: the ids hang below \<open>p\<close>, whose child list is \<open>cs\<close>,
  and no other child list has them.\<close>
definition place_node :: "node_id \<Rightarrow> node_id set \<Rightarrow> node_id list \<Rightarrow> node_id \<Rightarrow> node \<Rightarrow> node" where
  "place_node p A cs j n = n\<lparr>parent := (if j \<in> A then Some p else parent n),
     children := (if j = p then cs else filter (\<lambda>x. x \<notin> A) (children n))\<rparr>"

definition placed :: "node_id \<Rightarrow> node_id set \<Rightarrow> node_id list \<Rightarrow> document \<Rightarrow> document \<Rightarrow> bool" where
  "placed p A cs d d' \<longleftrightarrow> (\<forall>j. nodes d' j = map_option (place_node p A cs j) (nodes d j))
     \<and> root_node_id d' = root_node_id d \<and> allocated d' = allocated d"

lemma place_node_sel [simp]:
  "parent (place_node p A cs j n) = (if j \<in> A then Some p else parent n)"
  "children (place_node p A cs j n) = (if j = p then cs else filter (\<lambda>x. x \<notin> A) (children n))"
  by (simp_all add: place_node_def)

lemma unlinked_linked_placed:
  assumes "unlinked A d d1" "linked p A cs d1 d2" shows "placed p A cs d d2"
proof -
  have "link_node p A cs j (unlink_node A j n) = place_node p A cs j n" for j n
    by (simp add: link_node_def unlink_node_def place_node_def)
  with assms show ?thesis by (auto simp: placed_def unlinked_def linked_def option.map_comp comp_def)
qed

lemma unlinked_placed:
  assumes "unlinked A d d1" "placed p A cs d1 d2" shows "placed p A cs d d2"
proof -
  have "place_node p A cs j (unlink_node A j n) = place_node p A cs j n" for j n
    by (simp add: place_node_def unlink_node_def)
  with assms show ?thesis by (auto simp: placed_def unlinked_def option.map_comp comp_def)
qed

lemma insertable_unlinked:
  assumes "insertable d p ids" "unlinked A d d1" shows "insertable d1 p ids"
proof -
  have "(parent_edges d1)\<^sup>* \<subseteq> (parent_edges d)\<^sup>*"
    using unlinked_edges [OF assms(2)] by (intro rtrancl_mono) auto
  with assms show ?thesis by (auto simp: insertable_def unlinked_def)
qed

lemma insertable_not_parent: "insertable d p ids \<Longrightarrow> p \<notin> set ids"
  by (auto simp: insertable_def)

lemma insertable_placed_wf:
  assumes wf: "wf_doc d" and ids: "insertable d p ids" and p: "nodes d p = Some pn"
    and cs: "distinct cs" "set cs = (set (children pn) - set ids) \<union> set ids"
    and u: "unlinked (set ids) d d1" and l: "linked p (set ids) cs d1 d2"
  shows "wf_doc d2"
proof -
  obtain pn1 where p1: "nodes d1 p = Some pn1" "children pn1 = filter (\<lambda>x. x \<notin> set ids) (children pn)"
    using u p by (auto simp: unlinked_def)
  note ids1 = insertable_unlinked [OF ids u]
  have "parent n = None" if "c \<in> set ids" "nodes d1 c = Some n" for c n
    using u that by (auto simp: unlinked_def)
  then show ?thesis
    using ids1 p1(2) cs by (intro linked_wf [OF unlinked_wf [OF wf u] l _ _ p1(1)]) (auto simp: insertable_def)
qed

context eager_flush
begin

lemma add_children_relinks:
  assumes r: "relinks d s" and wf: "wf_doc d" and ids: "insertable d p ids" and p: "nodes d p = Some pn"
    and fn: "insert_fn (filter (\<lambda>x. x \<notin> set ids) (children pn)) = Some cs"
    and d1: "d1 = fold unlink ids d"
    and d2: "d2 = fold (\<lambda>c. update_node c (\<lambda>n. n\<lparr>parent := Some p\<rparr>)) ids
        (update_node p (\<lambda>n. n\<lparr>children := cs\<rparr>) d1)"
  shows "succeeds (add_children_to_parent flush_ops p ids insert_fn s) (relinks d2)"
proof -
  have u: "unlinked (set ids) d d1" unfolding d1 by (rule fold_unlink_unlinked [OF wf])
  note wf1 = unlinked_wf [OF wf u]
  note ok1 = wf_doc_parents_ok [OF wf1]
  obtain pn1 where p1: "nodes d1 p = Some pn1" "children pn1 = filter (\<lambda>x. x \<notin> set ids) (children pn)"
    using u p by (auto simp: unlinked_def)
  then have live1: "nodes d1 p \<noteq> None" by simp
  let ?dc = "update_node p (\<lambda>n. n\<lparr>children := cs\<rparr>) d1"
  have free: "\<forall>c\<in>set ids. free ?dc p c"
    using ids free_set_children [OF free_unlinked [OF wf u]] by (auto simp: insertable_def)
  have att: "succeeds (attach_children flush_ops b p ids s3) (relinks d2)" if "relinks ?dc s3" for b s3
    unfolding d2 using ids p1
    by (intro attach_children_relinks [OF that parents_ok_set_children [OF ok1] free])
       (auto simp: insertable_def)
  have live2: "nodes d2 p \<noteq> None"
  proof -
    have "p \<notin> set ids" using ids by (auto simp: insertable_def)
    from linked_fold [OF this, of cs d1] p1(1) show ?thesis by (auto simp: d2 linked_def)
  qed
  have m: "\<exists>n. nodes (m_doc s3) p = Some n \<and> children n = filter (\<lambda>x. x \<notin> set ids) (children pn)"
    if "relinks d1 s3" for s3 using relinks_node [OF that p1(1)] p1(2) by metis
  have det: "succeeds (detach_children ids (mutated b s)) (relinks d1)" for b
    unfolding d1 using ids by (intro detach_children_relinks [OF _ wf]) (auto simp: r insertable_def)
  have fin: "relinks d2 s5 \<Longrightarrow> relinks d2 (if ids = [] then s5
     else hook (QueueMutationRecord (ChildList p ids [])) (fold (\<lambda>c. hook (NodeInserted p c)) ids s5))" for s5
    by (simp add: relinks_hooks)
  have tail: "succeeds (Option.bind (nodes (m_doc s3) p) (\<lambda>pn. Option.bind (insert_fn (children pn)) (\<lambda>cs.
      Option.bind (attach_children flush_ops b p ids (set_children p cs s3)) (\<lambda>s4.
      Option.bind (maybe_record_node (Some p) s4) (\<lambda>s5. Some (if ids = [] then s5
        else hook (QueueMutationRecord (ChildList p ids [])) (fold (\<lambda>c. hook (NodeInserted p c)) ids s5)))))))
      (relinks d2)" if s3: "relinks d1 s3" for s3 b
  proof -
    from m [OF s3] obtain n where n: "nodes (m_doc s3) p = Some n"
      "insert_fn (children n) = Some cs" using fn by auto
    show ?thesis
      unfolding n Option.bind.simps
      by (rule succeeds_seq [OF att [OF relinks_set_children [OF s3]]],
          rule succeeds_seq [OF relinks_record_node [OF _ live2]], assumption)
         (simp only: succeeds_Some fin)
  qed
  obtain pn0 where "nodes (m_doc s) p = Some pn0" using relinks_node [OF r p] by metis
  then show ?thesis
    unfolding add_children_to_parent_def Let_def
    apply simp
    apply (rule succeeds_seq [OF det])
    apply (rule succeeds_seq [OF relinks_insert_damage [OF _ ok1 live1]], assumption)
    apply (rule succeeds_seq [where P = "relinks d1"])
     apply (auto intro!: relinks_mark_dirty [OF relinks_hint ok1 live1])[1]
    apply (rule tail [simplified], assumption)
    done
qed

lemma add_children_placed:
  assumes r: "relinks d s" and wf: "wf_doc d" and ids: "insertable d p ids" and p: "nodes d p = Some pn"
    and fn: "insert_fn (filter (\<lambda>x. x \<notin> set ids) (children pn)) = Some cs"
    and cs: "distinct cs" "set cs = (set (children pn) - set ids) \<union> set ids"
  shows "succeeds (add_children_to_parent flush_ops p ids insert_fn s)
    (\<lambda>s'. \<exists>d'. placed p (set ids) cs d d' \<and> wf_doc d' \<and> relinks d' s')"
proof -
  note u = fold_unlink_unlinked [OF wf, of ids]
  note l = linked_fold [OF insertable_not_parent [OF ids], of cs "fold unlink ids d"]
  show ?thesis
    by (rule succeeds_mono, rule add_children_relinks [of d s p ids pn insert_fn cs, OF r wf ids p fn refl refl])
       (use unlinked_linked_placed [OF u l] insertable_placed_wf [OF wf ids p cs u l] in blast)
qed

lemma append_children_placed:
  assumes r: "relinks d s" and wf: "wf_doc d" and ids: "insertable d p ids" and p: "nodes d p = Some pn"
  shows "succeeds (append_children flush_ops p ids s)
    (\<lambda>s'. \<exists>d'. placed p (set ids) (filter (\<lambda>x. x \<notin> set ids) (children pn) @ ids) d d' \<and> wf_doc d' \<and> relinks d' s')"
  unfolding append_children_def
  using wf_doc_node [OF wf p] ids
  by (intro add_children_placed [OF r wf ids p]) (auto simp: wf_node_def insertable_def)

lemma insert_before_placed:
  assumes r: "relinks d s" and wf: "wf_doc d" and ids: "insertable d p ids" and p: "nodes d p = Some pn"
    and a: "filter (\<lambda>x. x \<notin> set ids) (children pn) = us @ a # vs"
  shows "succeeds (insert_nodes_before flush_ops a ids s)
    (\<lambda>s'. \<exists>d'. placed p (set ids) (us @ ids @ a # vs) d d' \<and> wf_doc d' \<and> relinks d' s')"
proof -
  have dist: "distinct (us @ a # vs)" using wf_doc_node [OF wf p] a [symmetric] by (simp add: wf_node_def)
  have eq: "set (us @ a # vs) = set (children pn) - set ids" unfolding a [symmetric] by auto
  then have "a \<in> set (children pn)" by auto
  from wf_child_parent [OF wf p this] obtain an where an: "nodes d a = Some an" "parent an = Some p" by auto
  from relinks_node [OF r an(1)] an(2) obtain an' where "nodes (m_doc s) a = Some an'" "parent an' = Some p" by metis
  moreover have "insert_before_fn a ids (us @ a # vs) = Some (us @ ids @ a # vs)"
    using dist by (simp add: insert_before_fn_def splice_at_def)
  moreover have "distinct (us @ ids @ a # vs)" "set (us @ ids @ a # vs) = (set (children pn) - set ids) \<union> set ids"
    using dist ids eq by (auto simp: insertable_def)
  ultimately show ?thesis
    using add_children_placed [OF r wf ids p] a by (simp add: insert_nodes_before_def)
qed

text \<open>The value of \<open>detach_node_no_record\<close> is the parent the node had.\<close>
lemma detach_node_relinks:
  assumes r: "relinks_on Q d s" and wf: "wf_doc d" and n: "nodes d i = Some n"
  shows "succeeds (detach_node_no_record flush_ops i s) (\<lambda>(op, s'). op = parent n \<and> relinks_on Q (unlink i d) s')"
proof -
  note ok = wf_doc_parents_ok [OF wf]
  from wf_doc_represents [OF wf n] obtain t where t: "root t = i" "represents d (parent n) t" by auto
  have rem: "succeeds (process_removed_subtree flush_ops i s) (relinks_on Q d)"
    by (rule process_removed_relinks [OF r ok t(2,1) wf_doc_distinct [OF wf t(2)]])
  have tail: "succeeds (Option.bind (nodes (m_doc s1) i) (\<lambda>m. case parent m of
         None \<Rightarrow> Some (None, s1)
       | Some p \<Rightarrow> do {
           s2 \<leftarrow> on_doc (insert_damage ALL_DAMAGE p) (mutated b (set_parent i None s1));
           s3 \<leftarrow> on_doc (mark_ancestors_dirty p) s2;
           pn \<leftarrow> nodes (m_doc s3) p;
           s4 \<leftarrow> maybe_record_node (Some p)
                   (set_children p (filter (\<lambda>j. j \<noteq> i) (children pn)) s3);
           Some (Some p, hook (NodeRemoved p i) s4) }))
     (\<lambda>(op, s'). op = parent n \<and> relinks_on Q (unlink i d) s')" if s1: "relinks_on Q d s1" for s1 b
  proof -
    from relinks_node [OF s1 n] obtain m where m: "nodes (m_doc s1) i = Some m" "parent m = parent n" by metis
    show ?thesis
    proof (cases "parent n")
      case None
      then show ?thesis using m s1 by (simp add: unlink_def n)
    next
      case (Some p)
      let ?d1 = "update_node i (\<lambda>n. n\<lparr>parent := None\<rparr>) d"
      note d1 = cleared_parent_ok [OF wf n Some]
      have r1: "relinks_on Q ?d1 (mutated b (set_parent i None s1))"
        using relinks_set_parent [OF s1] by simp
      have "succeeds (on_doc (insert_damage ALL_DAMAGE p) (mutated b (set_parent i None s1)) \<bind>
          (\<lambda>s2. on_doc (mark_ancestors_dirty p) s2)) (relinks_on Q ?d1)"
        by (rule succeeds_seq [OF relinks_insert_damage [OF r1 d1]], rule relinks_mark_dirty [OF _ d1])
      then show ?thesis using relinks_forget_child [OF wf n Some] m Some
        by (fastforce simp: succeeds_def bind_eq_Some_conv)
    qed
  qed
  obtain n0 where "nodes (m_doc s) i = Some n0" using relinks_node [OF r n] by metis
  then show ?thesis
    unfolding detach_node_no_record_def Let_def m_node_simp
    by simp (rule succeeds_seq [OF rem tail])
qed

end

end
