(* ===== verification/Dom_Edit.thy ===== *)
theory Dom_Edit
  imports Dom_Insert
begin

text \<open>
  The \<open>ParentNode\<close> and \<open>ChildNode\<close> mutation methods of the DOM standard, on top of the
  insertion and the removal: where the nodes end up, whichever of them were siblings of the
  anchor, or the anchor itself, before.
\<close>

section \<open>Siblings\<close>

lemma relinks_listed:
  assumes r: "relinks d s" and wf: "wf_doc d" and p: "nodes d p = Some pn" "children pn = us @ a # vs"
  obtains an pn' where "nodes (m_doc s) a = Some an" "parent an = Some p" "nid an = a"
    "nodes (m_doc s) p = Some pn'" "children pn' = us @ a # vs" "distinct (us @ a # vs)"
proof -
  note wf' = relinks_wf [OF r wf]
  from relinks_node [OF r p(1)] p(2) obtain pn' where pn': "nodes (m_doc s) p = Some pn'" "children pn' = us @ a # vs"
    by metis
  then have "a \<in> set (children pn')" by simp
  from wf_child_parent [OF wf' pn'(1) this] obtain an where an: "nodes (m_doc s) a = Some an" "parent an = Some p"
    by auto
  moreover have "nid an = a" using wf_doc_node [OF wf' an(1)] by (simp add: wf_node_def)
  moreover have "distinct (us @ a # vs)" using wf_doc_node [OF wf' pn'(1)] pn'(2) by (simp add: wf_node_def)
  ultimately show ?thesis using pn' that by blast
qed

lemma next_sibling_relinks:
  assumes r: "relinks d s" and wf: "wf_doc d" and p: "nodes d p = Some pn" "children pn = us @ a # vs"
  shows "next_sibling_id s a = Some (case vs of [] \<Rightarrow> None | x # _ \<Rightarrow> Some x)"
proof -
  from relinks_listed [OF assms] obtain an pn' where an: "nodes (m_doc s) a = Some an" "parent an = Some p" "nid an = a"
    and pn': "nodes (m_doc s) p = Some pn'" "children pn' = us @ a # vs" "distinct (us @ a # vs)" .
  have ci: "child_index (m_doc s) an = Some (Some (length us))"
    using an pn' by (simp add: child_index_def node_at_simp)
  show ?thesis
  proof (cases vs)
    case Nil
    then show ?thesis using ci an pn' by (simp add: next_sibling_id_def forward_def node_at_simp nth_child_def)
  next
    case (Cons x xs)
    with p have "children pn = (us @ [a]) @ x # xs" by simp
    from relinks_listed [OF r wf p(1) this] obtain m where "nodes (m_doc s) x = Some m" "nid m = x" by metis
    then show ?thesis using ci an pn' Cons
      by (simp add: next_sibling_id_def forward_def node_at_simp nth_child_def nth_append)
  qed
qed

lemma viable_sibling_relinks:
  assumes r: "relinks d s" and wf: "wf_doc d" and p: "nodes d p = Some pn" "children pn = us @ a # vs"
  shows "viable_sibling s a fwd ids = List.find (\<lambda>j. j \<notin> set ids) (if fwd then vs else rev us)"
proof -
  from relinks_listed [OF assms] obtain an pn' where an: "nodes (m_doc s) a = Some an" "parent an = Some p" "nid an = a"
    and pn': "nodes (m_doc s) p = Some pn'" "children pn' = us @ a # vs" "distinct (us @ a # vs)" .
  then have "index_of_child pn' a = Some (length us)" by (simp add: index_of_child_def)
  with an pn' show ?thesis by (simp add: viable_sibling_def get_node_simp)
qed

lemma find_rev_last:
  assumes "List.find P (rev xs) = Some x" obtains ys where "filter P xs = ys @ [x]"
proof -
  have ne: "filter P (rev xs) \<noteq> []" using assms by (metis find_None_filter option.distinct(1))
  with assms find_hd_filter [OF ne] have "x = last (filter P xs)" by (simp add: rev_filter [symmetric] hd_rev)
  moreover have "filter P xs \<noteq> []" using ne by (simp add: rev_filter [symmetric])
  ultimately show ?thesis by (metis append_butlast_last_id that)
qed

context eager_flush
begin

lemma remove_node_relinks:
  assumes "relinks_on Q d s" "wf_doc d" "nodes d i \<noteq> None"
  shows "succeeds (remove_node flush_ops i s) (relinks_on Q (unlink i d))"
proof -
  from assms(3) obtain n where "nodes d i = Some n" by auto
  from detach_node_relinks [OF assms(1,2) this] show ?thesis
    by (auto simp: remove_node_def succeeds_def split: option.splits)
qed

lemma detach_all_relinks:
  "relinks d s \<Longrightarrow> wf_doc d \<Longrightarrow> \<forall>c\<in>set ids. nodes d c \<noteq> None \<Longrightarrow>
   succeeds (detach_all flush_ops ids s) (relinks (fold unlink ids d))"
proof (induction ids arbitrary: d s)
  case (Cons c cs)
  have wf': "wf_doc (unlink c d)" by (rule unlinked_wf [OF Cons.prems(2) unlink_unlinked [OF Cons.prems(2)]])
  have live: "\<forall>x\<in>set cs. nodes (unlink c d) x \<noteq> None"
    using Cons.prems(2,3) by (simp add: unlink_nodes)
  from Cons.prems(3) obtain n where n: "nodes d c = Some n" by auto
  from relinks_node [OF Cons.prems(1) n] obtain m where m: "nodes (m_doc s) c = Some m" "parent m = parent n" by metis
  have "succeeds (if parent m \<noteq> None then remove_node flush_ops c s else Some s) (relinks (unlink c d))"
    using remove_node_relinks [OF Cons.prems(1,2), of c] n m(2) Cons.prems(1) by (auto simp: unlink_def)
  then have "succeeds (Option.bind (if parent m \<noteq> None then remove_node flush_ops c s else Some s)
      (detach_all flush_ops cs)) (relinks (fold unlink cs (unlink c d)))"
    by (rule succeeds_seq) (rule Cons.IH [OF _ wf' live])
  then show ?case by (simp add: node_has_parent_def m(1))
qed simp

lemma detach_each_relinks:
  "relinks d s \<Longrightarrow> wf_doc d \<Longrightarrow> \<forall>c\<in>set ids. nodes d c \<noteq> None \<Longrightarrow>
   succeeds (detach_each flush_ops ids s) (relinks (fold unlink ids d))"
proof (induction ids arbitrary: d s)
  case (Cons c cs)
  have wf': "wf_doc (unlink c d)" by (rule unlinked_wf [OF Cons.prems(2) unlink_unlinked [OF Cons.prems(2)]])
  have live: "\<forall>x\<in>set cs. nodes (unlink c d) x \<noteq> None"
    using Cons.prems(2,3) by (simp add: unlink_nodes)
  from Cons.prems(3) obtain n where n: "nodes d c = Some n" by auto
  from detach_node_relinks [OF Cons.prems(1,2) n] show ?case
    unfolding detach_each.simps fold_simps
    by (rule succeeds_seq) (auto intro: Cons.IH [OF _ wf' live])
qed simp

text \<open>Before the first of the children \<open>rest\<close>, or at the end.\<close>
lemma insert_at_placed:
  assumes r: "relinks d s" and wf: "wf_doc d" and ids: "insertable d p ids" and p: "nodes d p = Some pn"
    and cs: "filter (\<lambda>x. x \<notin> set ids) (children pn) = us @ rest"
  shows "succeeds (case rest of c # _ \<Rightarrow> insert_nodes_before flush_ops c ids s | [] \<Rightarrow> append_children flush_ops p ids s)
    (\<lambda>s'. \<exists>d'. placed p (set ids) (us @ ids @ rest) d d' \<and> wf_doc d' \<and> relinks d' s')"
  using append_children_placed [OF r wf ids p] insert_before_placed [OF r wf ids p] cs by (cases rest) auto

lemma detach_all_then:
  assumes r: "relinks d s" and wf: "wf_doc d" and ids: "insertable d p ids" and p: "nodes d p = Some pn"
    and then_op: "\<And>d1 pn1 s1. unlinked (set ids) d d1 \<Longrightarrow> wf_doc d1 \<Longrightarrow> insertable d1 p ids \<Longrightarrow>
      nodes d1 p = Some pn1 \<Longrightarrow> children pn1 = filter (\<lambda>x. x \<notin> set ids) (children pn) \<Longrightarrow> relinks d1 s1 \<Longrightarrow>
      succeeds (f s1) Q"
  shows "succeeds (Option.bind (detach_all flush_ops ids s) f) Q"
proof (rule succeeds_seq)
  show "succeeds (detach_all flush_ops ids s) (relinks (fold unlink ids d))"
    using ids by (intro detach_all_relinks [OF r wf]) (auto simp: insertable_def)
  fix s1 assume s1: "relinks (fold unlink ids d) s1"
  note u = fold_unlink_unlinked [OF wf, of ids]
  obtain pn1 where "nodes (fold unlink ids d) p = Some pn1"
    "children pn1 = filter (\<lambda>x. x \<notin> set ids) (children pn)"
    using u p by (auto simp: unlinked_def)
  with then_op [OF u unlinked_wf [OF wf u] insertable_unlinked [OF ids u] _ _ s1] show "succeeds (f s1) Q"
    by blast
qed

lemma insert_at_after_detach:
  assumes u: "unlinked (set ids) d d1" and wf1: "wf_doc d1" and ids1: "insertable d1 p ids"
    and p1: "nodes d1 p = Some pn1" "children pn1 = us @ rest" and r1: "relinks d1 s1"
    and cs: "us @ rest = filter (\<lambda>x. x \<notin> set ids) cs"
  shows "succeeds (case rest of c # _ \<Rightarrow> insert_nodes_before flush_ops c ids s1 | [] \<Rightarrow> append_children flush_ops p ids s1)
    (\<lambda>s'. \<exists>d'. placed p (set ids) (us @ ids @ rest) d d' \<and> wf_doc d' \<and> relinks d' s')"
proof -
  have "filter (\<lambda>x. x \<notin> set ids) (children pn1) = us @ rest" unfolding p1(2) cs by simp
  from insert_at_placed [OF r1 wf1 ids1 p1(1) this] show ?thesis
    by (rule succeeds_mono) (use unlinked_placed [OF u] in blast)
qed

lemma insert_after_is_insert_at:
  assumes "relinks d s" "wf_doc d" "nodes d p = Some pn" "children pn = us @ a # vs"
  shows "insert_nodes_after flush_ops a ids s =
    (case vs of c # _ \<Rightarrow> insert_nodes_before flush_ops c ids s | [] \<Rightarrow> append_children flush_ops p ids s)"
proof -
  from relinks_listed [OF assms] have "parent_id s a = Some (Some p)" by (auto simp: parent_id_def)
  with next_sibling_relinks [OF assms] show ?thesis by (cases vs) (simp_all add: insert_nodes_after_def)
qed

lemma before_node_placed:
  assumes r: "relinks d s" and wf: "wf_doc d" and ids: "insertable d p ids" and p: "nodes d p = Some pn"
    and cs: "children pn = us @ a # vs"
  shows "succeeds (before_node flush_ops a ids s) (\<lambda>s'. \<exists>d'.
    placed p (set ids) (filter (\<lambda>x. x \<notin> set ids) us @ ids @ filter (\<lambda>x. x \<notin> set ids) (a # vs)) d d'
    \<and> wf_doc d' \<and> relinks d' s')"
proof -
  let ?f = "filter (\<lambda>x. x \<notin> set ids)"
  note via = viable_sibling_relinks [OF r wf p cs, of False ids]
  from relinks_listed [OF r wf p cs] have pid: "parent_id s a = Some (Some p)" by (auto simp: parent_id_def)
  show ?thesis
    unfolding before_node_def pid Let_def Option.bind.simps option.case
  proof (rule detach_all_then [OF r wf ids p])
    fix d1 pn1 s1
    assume d1: "unlinked (set ids) d d1" "wf_doc d1" "insertable d1 p ids" "nodes d1 p = Some pn1"
      and c1: "children pn1 = ?f (children pn)" and r1: "relinks d1 s1"
    have c1': "children pn1 = ?f us @ ?f (a # vs)" using c1 cs by simp
    have place: "succeeds (case ?f (a # vs) of c # _ \<Rightarrow> insert_nodes_before flush_ops c ids s1 | [] \<Rightarrow> append_children flush_ops p ids s1)
      (\<lambda>s'. \<exists>d'. placed p (set ids) (?f us @ ids @ ?f (a # vs)) d d' \<and> wf_doc d' \<and> relinks d' s')"
      by (rule insert_at_after_detach [OF d1 c1' r1, of "us @ a # vs"]) simp
    show "succeeds (case viable_sibling s a False ids of
              Some prev \<Rightarrow> insert_nodes_after flush_ops prev ids s1
            | None \<Rightarrow> do {
                cs \<leftarrow> child_ids s1 p;
                (case cs of
                   c # _ \<Rightarrow> insert_nodes_before flush_ops c ids s1
                 | [] \<Rightarrow> append_children flush_ops p ids s1) })
      (\<lambda>s'. \<exists>d'. placed p (set ids) (?f us @ ids @ ?f (a # vs)) d d' \<and> wf_doc d' \<and> relinks d' s')"
    proof (cases "List.find (\<lambda>j. j \<notin> set ids) (rev us)")
      case None
      then have "?f us = []" by (simp add: find_None_filter rev_filter [symmetric])
      moreover from relinks_node [OF r1 d1(4)] obtain m where "nodes (m_doc s1) p = Some m" "children m = children pn1" by metis
      ultimately have "child_ids s1 p = Some (?f (a # vs))" using c1' by (simp add: child_ids_def)
      then show ?thesis using place via None by simp
    next
      case (Some prev)
      from find_rev_last [OF Some] obtain ys where "?f us = ys @ [prev]" .
      with c1' have "children pn1 = ys @ prev # ?f (a # vs)" by simp
      from insert_after_is_insert_at [OF r1 d1(2,4) this] show ?thesis using place via Some by simp
    qed
  qed
qed

text \<open>Before the nearest following sibling that is not moved itself, or at the end.\<close>
lemma insert_at_viable_next:
  assumes "unlinked (set ids) d d1" "wf_doc d1" "insertable d1 p ids" "nodes d1 p = Some pn1"
    and c1: "children pn1 = us @ filter (\<lambda>x. x \<notin> set ids) vs" and r1: "relinks d1 s1"
    and us: "us = filter (\<lambda>x. x \<notin> set ids) us0"
  shows "succeeds (case List.find (\<lambda>j. j \<notin> set ids) vs of
              Some nx \<Rightarrow> insert_nodes_before flush_ops nx ids s1
            | None \<Rightarrow> append_children flush_ops p ids s1)
    (\<lambda>s'. \<exists>d'. placed p (set ids) (us @ ids @ filter (\<lambda>x. x \<notin> set ids) vs) d d' \<and> wf_doc d' \<and> relinks d' s')"
proof -
  let ?f = "filter (\<lambda>x. x \<notin> set ids)"
  have place: "succeeds (case ?f vs of c # _ \<Rightarrow> insert_nodes_before flush_ops c ids s1 | [] \<Rightarrow> append_children flush_ops p ids s1)
      (\<lambda>s'. \<exists>d'. placed p (set ids) (us @ ids @ ?f vs) d d' \<and> wf_doc d' \<and> relinks d' s')"
    by (rule insert_at_after_detach [OF assms(1-4) c1 r1, of "us0 @ vs"]) (simp add: us)
  show ?thesis
  proof (cases "?f vs")
    case Nil
    then have "List.find (\<lambda>j. j \<notin> set ids) vs = None" by (simp add: find_None_filter)
    with place Nil show ?thesis by simp
  next
    case (Cons x xs)
    then have "List.find (\<lambda>j. j \<notin> set ids) vs = Some x" using find_hd_filter [of "\<lambda>j. j \<notin> set ids" vs] by simp
    with place Cons show ?thesis by simp
  qed
qed

lemma after_node_placed:
  assumes r: "relinks d s" and wf: "wf_doc d" and ids: "insertable d p ids" and p: "nodes d p = Some pn"
    and cs: "children pn = us @ a # vs"
  shows "succeeds (after_node flush_ops a ids s) (\<lambda>s'. \<exists>d'.
    placed p (set ids) (filter (\<lambda>x. x \<notin> set ids) (us @ [a]) @ ids @ filter (\<lambda>x. x \<notin> set ids) vs) d d'
    \<and> wf_doc d' \<and> relinks d' s')"
proof -
  note via = viable_sibling_relinks [OF r wf p cs, of True ids]
  from relinks_listed [OF r wf p cs] have pid: "parent_id s a = Some (Some p)" by (auto simp: parent_id_def)
  show ?thesis
    unfolding after_node_def pid Let_def Option.bind.simps option.case via if_True
  proof (rule detach_all_then [OF r wf ids p])
    fix d1 pn1 s1
    assume d1: "unlinked (set ids) d d1" "wf_doc d1" "insertable d1 p ids" "nodes d1 p = Some pn1"
      and c1: "children pn1 = filter (\<lambda>x. x \<notin> set ids) (children pn)" and r1: "relinks d1 s1"
    show "succeeds (case List.find (\<lambda>j. j \<notin> set ids) vs of
              Some nx \<Rightarrow> insert_nodes_before flush_ops nx ids s1
            | None \<Rightarrow> append_children flush_ops p ids s1)
      (\<lambda>s'. \<exists>d'. placed p (set ids) (filter (\<lambda>x. x \<notin> set ids) (us @ [a]) @ ids @ filter (\<lambda>x. x \<notin> set ids) vs) d d'
        \<and> wf_doc d' \<and> relinks d' s')"
      by (rule insert_at_viable_next [OF d1 _ r1 refl]) (simp add: c1 cs)
  qed
qed

lemma replace_node_placed:
  assumes u: "unlinked (set ids) d d1" and wf1: "wf_doc d1" and ids1: "insertable d1 p ids"
    and p1: "nodes d1 p = Some pn1" "children pn1 = us @ a # vs" and r1: "relinks d1 s1"
    and ni: "set (us @ a # vs) \<inter> set ids = {}"
  shows "succeeds (replace_node_with flush_ops a ids s1) (\<lambda>s'. \<exists>d2 d'.
    placed p (set ids) (us @ ids @ a # vs) d d2 \<and> unlinked {a} d2 d' \<and> wf_doc d' \<and> relinks d' s')"
  unfolding replace_node_with_def
proof (rule succeeds_seq)
  have "filter (\<lambda>x. x \<notin> set ids) (children pn1) = us @ a # vs"
    using ni unfolding p1(2) by (intro filter_True) blast
  from insert_before_placed [OF r1 wf1 ids1 p1(1) this]
  show "succeeds (insert_nodes_before flush_ops a ids s1) (\<lambda>s'. \<exists>d2. placed p (set ids) (us @ ids @ a # vs) d1 d2
      \<and> wf_doc d2 \<and> relinks d2 s')" .
  fix s2 assume "\<exists>d2. placed p (set ids) (us @ ids @ a # vs) d1 d2 \<and> wf_doc d2 \<and> relinks d2 s2"
  then obtain d2 where d2: "placed p (set ids) (us @ ids @ a # vs) d1 d2" "wf_doc d2" "relinks d2 s2" by blast
  have "a \<in> set (children pn1)" by (simp add: p1(2))
  from wf_child_parent [OF wf1 p1(1) this] d2(1) have "nodes d2 a \<noteq> None" by (auto simp: placed_def)
  from remove_node_relinks [OF d2(3,2) this]
  show "succeeds (remove_node flush_ops a s2) (\<lambda>s'. \<exists>d2 d'.
    placed p (set ids) (us @ ids @ a # vs) d d2 \<and> unlinked {a} d2 d' \<and> wf_doc d' \<and> relinks d' s')"
    by (rule succeeds_mono)
       (use unlinked_placed [OF u d2(1)] unlink_unlinked [OF d2(2)] unlinked_wf [OF d2(2) unlink_unlinked [OF d2(2)]] in blast)
qed

lemma replace_with_nodes_placed:
  assumes r: "relinks d s" and wf: "wf_doc d" and ids: "insertable d p ids" and p: "nodes d p = Some pn"
    and cs: "children pn = us @ a # vs"
  shows "succeeds (replace_with_nodes flush_ops a ids s) (\<lambda>s'. \<exists>d2 d'.
    placed p (set ids) (filter (\<lambda>x. x \<notin> set ids) us @ ids @ filter (\<lambda>x. x \<notin> set ids) (a # vs)) d d2
    \<and> unlinked ({a} - set ids) d2 d' \<and> wf_doc d' \<and> relinks d' s')"
proof -
  let ?f = "filter (\<lambda>x. x \<notin> set ids)"
  note via = viable_sibling_relinks [OF r wf p cs, of True ids]
  from relinks_listed [OF r wf p cs] have pid: "parent_id s a = Some (Some p)" by (auto simp: parent_id_def)
  have "a \<in> set (children pn)" using cs by simp
  from wf_child_parent [OF wf p this] obtain an where an: "nodes d a = Some an" "parent an = Some p" by auto
  show ?thesis
    unfolding replace_with_nodes_def pid Let_def Option.bind.simps option.case via if_True
  proof (rule detach_all_then [OF r wf ids p])
    fix d1 pn1 s1
    assume d1: "unlinked (set ids) d d1" "wf_doc d1" "insertable d1 p ids" "nodes d1 p = Some pn1"
      and c1: "children pn1 = ?f (children pn)" and r1: "relinks d1 s1"
    have "\<exists>m. nodes d1 a = Some m \<and> parent m = (if a \<in> set ids then None else Some p)"
      using d1(1) an by (auto simp: unlinked_def)
    then obtain m where "nodes (m_doc s1) a = Some m" "parent m = (if a \<in> set ids then None else Some p)"
      using relinks_node [OF r1] by metis
    then have hp: "node_has_parent s1 a = Some (a \<notin> set ids)" by (simp add: node_has_parent_def)
    show "succeeds (do {
           b \<leftarrow> node_has_parent s1 a;
           if b then replace_node_with flush_ops a ids s1
           else (case List.find (\<lambda>j. j \<notin> set ids) vs of
                   Some nx \<Rightarrow> insert_nodes_before flush_ops nx ids s1
                 | None \<Rightarrow> append_children flush_ops p ids s1) })
      (\<lambda>s'. \<exists>d2 d'. placed p (set ids) (?f us @ ids @ ?f (a # vs)) d d2
        \<and> unlinked ({a} - set ids) d2 d' \<and> wf_doc d' \<and> relinks d' s')"
    proof (cases "a \<in> set ids")
      case True
      then have "children pn1 = ?f us @ ?f vs" by (simp add: c1 cs)
      from insert_at_viable_next [OF d1 this r1 refl]
      show ?thesis unfolding hp using True unlinked_empty
        by (auto elim!: succeeds_mono)
    next
      case False
      then have "children pn1 = ?f us @ a # ?f vs" by (simp add: c1 cs)
      moreover have "set (?f us @ a # ?f vs) \<inter> set ids = {}" "{a} - set ids = {a}" using False by auto
      ultimately show ?thesis using replace_node_placed [OF d1 _ r1] False by (simp add: hp)
    qed
  qed
qed

lemma prepend_nodes_placed:
  assumes r: "relinks d s" and wf: "wf_doc d" and ids: "insertable d p ids" and p: "nodes d p = Some pn"
  shows "succeeds (prepend_nodes flush_ops p ids s) (\<lambda>s'. \<exists>d'.
    placed p (set ids) (ids @ filter (\<lambda>x. x \<notin> set ids) (children pn)) d d' \<and> wf_doc d' \<and> relinks d' s')"
  unfolding prepend_nodes_def
proof (rule detach_all_then [OF r wf ids p])
  fix d1 pn1 s1
  assume d1: "unlinked (set ids) d d1" "wf_doc d1" "insertable d1 p ids" "nodes d1 p = Some pn1"
    and c1: "children pn1 = filter (\<lambda>x. x \<notin> set ids) (children pn)" and r1: "relinks d1 s1"
  from relinks_node [OF r1 d1(4)] obtain m where "nodes (m_doc s1) p = Some m" "children m = children pn1" by metis
  then have "child_ids s1 p = Some (children pn1)" by (simp add: child_ids_def)
  with insert_at_after_detach [OF d1, of "[]" "children pn1" s1 "children pn"] r1 c1
  show "succeeds (do { cs \<leftarrow> child_ids s1 p;
      (case cs of
         c # _ \<Rightarrow> insert_nodes_before flush_ops c ids s1
       | [] \<Rightarrow> append_children flush_ops p ids s1) })
    (\<lambda>s'. \<exists>d'. placed p (set ids) (ids @ filter (\<lambda>x. x \<notin> set ids) (children pn)) d d' \<and> wf_doc d' \<and> relinks d' s')"
    by simp
qed

text \<open>The former children lose their parent, also those that come back.\<close>
lemma replace_children_placed:
  assumes r: "relinks d s" and wf: "wf_doc d" and ids: "insertable d p ids" and p: "nodes d p = Some pn"
  shows "succeeds (replace_children flush_ops p ids s) (\<lambda>s'. \<exists>d2 d'.
    unlinked (set ids \<union> set (children pn)) d d2 \<and> placed p (set ids) ids d2 d' \<and> wf_doc d' \<and> relinks d' s')"
  unfolding replace_children_def
proof (rule detach_all_then [OF r wf ids p])
  fix d1 pn1 s1
  assume d1: "unlinked (set ids) d d1" "wf_doc d1" "insertable d1 p ids" "nodes d1 p = Some pn1"
    and c1: "children pn1 = filter (\<lambda>x. x \<notin> set ids) (children pn)" and r1: "relinks d1 s1"
  from relinks_node [OF r1 d1(4)] obtain m where "nodes (m_doc s1) p = Some m" "children m = children pn1" by metis
  then have ci: "child_ids s1 p = Some (children pn1)" by (simp add: child_ids_def)
  let ?d2 = "fold unlink (children pn1) d1"
  note u2 = fold_unlink_unlinked [OF d1(2), of "children pn1"]
  note wf2 = unlinked_wf [OF d1(2) u2]
  note ids2 = insertable_unlinked [OF d1(3) u2]
  obtain pn2 where p2: "nodes ?d2 p = Some pn2" "children pn2 = []"
    using u2 d1(4) by (auto simp: unlinked_def)
  have "set ids \<union> set (children pn1) = set ids \<union> set (children pn)" by (auto simp: c1)
  with unlinked_trans [OF d1(1) u2] have u: "unlinked (set ids \<union> set (children pn)) d ?d2" by simp
  have live: "\<forall>c\<in>set (children pn1). nodes d1 c \<noteq> None"
    using wf_child_parent [OF d1(2,4)] by auto
  have app: "succeeds (append_children flush_ops p ids
        (if children pn1 = [] then s2 else hook (QueueMutationRecord (ChildList p [] (children pn1))) s2))
      (\<lambda>s'. \<exists>d2 d'. unlinked (set ids \<union> set (children pn)) d d2 \<and> placed p (set ids) ids d2 d' \<and> wf_doc d' \<and> relinks d' s')"
    if s2: "relinks ?d2 s2" for s2
  proof -
    have "relinks ?d2 (if children pn1 = [] then s2 else hook (QueueMutationRecord (ChildList p [] (children pn1))) s2)"
      using s2 by (cases "children pn1 = []") simp_all
    from append_children_placed [OF this wf2 ids2 p2(1)] show ?thesis
      by (rule succeeds_mono) (use u p2(2) in auto)
  qed
  show "succeeds (do { removed \<leftarrow> child_ids s1 p; s2 \<leftarrow> detach_each flush_ops removed s1;
      append_children flush_ops p ids
        (if removed = [] then s2 else hook (QueueMutationRecord (ChildList p [] removed)) s2) })
    (\<lambda>s'. \<exists>d2 d'. unlinked (set ids \<union> set (children pn)) d d2 \<and> placed p (set ids) ids d2 d' \<and> wf_doc d' \<and> relinks d' s')"
    unfolding ci Option.bind.simps
    by (rule succeeds_seq [OF detach_each_relinks [OF r1 d1(2) live] app])
qed

end

end
