(* ===== verification/Dom_Flush.thy ===== *)
theory Dom_Flush
  imports Dom_Edit
begin

text \<open>
  \<open>flush_eager_ops\<close> satisfies the contract \<open>eager_flush\<close>, and the properties of the mutation
  API that rest on it.
\<close>

section \<open>The flush runs every queued operation\<close>

lemma map_element_facts:
  assumes "\<And>e. el_name (f e) = el_name e \<and> el_attrs (f e) = el_attrs e"
  shows "creates_nodes (data (map_element f n)) = creates_nodes (data n)"
    "(element_data (map_element f n) = None) = (element_data n = None)"
  using assms by (cases "data n"; simp add: map_element_def creates_nodes_def el_attr_def element_data_def)+

lemma special_reset_quiet:
  "quiet Q d \<Longrightarrow> quiet Q (update_node i (map_element (\<lambda>e. e\<lparr>special_data := x\<rparr>)) d)"
  using map_element_facts(1) [of "\<lambda>e. e\<lparr>special_data := x\<rparr>"] by (auto simp: quiet_def split: if_splits)

text \<open>Resetting the special data of a node leaves the operations of other nodes runnable.\<close>
lemma special_reset_op_ok:
  assumes "op_node x \<noteq> i" "op_ok d x"
  shows "op_ok (update_node i (map_element f) d) x"
  using assms by (cases x) auto

definition ran :: "(bool \<Rightarrow> bool) \<Rightarrow> special_op \<Rightarrow> mutator \<Rightarrow> mutator \<Rightarrow> bool" where
  "ran Q x s s' \<longleftrightarrow> same_links (m_doc s) (m_doc s') \<and> quiet Q (m_doc s') \<and> eager_op_queue s' = eager_op_queue s
     \<and> (\<forall>y. op_node y \<noteq> op_node x \<longrightarrow> op_ok (m_doc s) y \<longrightarrow> op_ok (m_doc s') y)"

lemma op_ok_sub_documents [simp]: "op_ok (d\<lparr>sub_document_nodes := ns\<rparr>) x = op_ok d x"
  by (cases x) simp_all

lemma ran_log [simp]: "quiet Q (m_doc s) \<Longrightarrow> ran Q x s (log_op y s)"
  by (simp add: ran_def)

lemma ran_mutated [simp]: "ran Q x s (mutated b s') = ran Q x s s'"
  by (simp add: ran_def)

lemma map_m_element_ran:
  assumes "Option.bind (nodes (m_doc s) (op_node x)) element_data \<noteq> None" "quiet Q (m_doc s)"
  shows "succeeds (map_m_element (op_node x) (\<lambda>e. e\<lparr>special_data := sd\<rparr>) s) (ran Q x s)"
proof -
  let ?d = "update_node (op_node x) (map_element (\<lambda>e. e\<lparr>special_data := sd\<rparr>)) (m_doc s)"
  have "same_links (m_doc s) ?d" by (rule same_links_update) simp
  moreover have "quiet Q ?d" by (rule special_reset_quiet [OF assms(2)])
  moreover have "\<forall>y. op_node y \<noteq> op_node x \<longrightarrow> op_ok (m_doc s) y \<longrightarrow> op_ok ?d y"
    using special_reset_op_ok by blast
  moreover obtain n where "nodes (m_doc s) (op_node x) = Some n" "element_data n \<noteq> None"
    using assms(1) by (auto simp: bind_eq_None_conv)
  ultimately show ?thesis by (simp add: map_m_element_def ran_def)
qed

lemma run_eager_op_ran:
  assumes ok: "op_ok (m_doc s) x" and pl: "quiet Q (m_doc s)"
  shows "succeeds (run_eager_op alloc fl x s) (ran Q x s)"
proof (cases x)
  case (ProcessButtonInput i)
  with ok obtain n where n: "nodes (m_doc s) i = Some n" "\<not> creates_nodes (data n)" by (auto split: option.splits)
  have "process_button_input alloc fl i s = Some s"
    using n by (auto simp: process_button_input_def element_data_def creates_nodes_def split: option.splits node_data.splits)
  then show ?thesis using pl by (simp add: ProcessButtonInput ran_def)
next
  case (UnloadSubDocument i)
  with ok have el: "Option.bind (nodes (m_doc s) i) element_data \<noteq> None" by simp
  then obtain n where n: "nodes (m_doc s) i = Some n" by (auto simp: bind_eq_None_conv)
  have "succeeds (map_m_element i (\<lambda>e. e\<lparr>special_data := SpecialNone\<rparr>) s) (ran Q x s)"
    using map_m_element_ran [of s x] el pl UnloadSubDocument by simp
  then show ?thesis
    by (auto simp: UnloadSubDocument remove_sub_document_def n succeeds_def ran_def quiet_def same_links_def)
next
  case (UnloadCustomWidget i)
  with ok have el: "Option.bind (nodes (m_doc s) i) element_data \<noteq> None" by simp
  then obtain n where n: "nodes (m_doc s) i = Some n" by (auto simp: bind_eq_None_conv)
  have "succeeds (map_m_element i (\<lambda>e. e\<lparr>special_data := SpecialNone\<rparr>) s) (ran Q x s)"
    using map_m_element_ran [of s x] el pl UnloadCustomWidget by simp
  then show ?thesis
    by (auto simp: UnloadCustomWidget remove_custom_widget_def n succeeds_def)
next
  case (UnloadStylesheet i)
  with ok obtain e where e: "Option.bind (nodes (m_doc s) i) element_data = Some e" "special_data e = Stylesheet"
    by (auto split: option.splits)
  then obtain n where n: "nodes (m_doc s) i = Some n" "element_data n = Some e" by (auto simp: bind_eq_Some_conv)
  have "succeeds (map_m_element i (\<lambda>e. e\<lparr>special_data := SpecialNone\<rparr>) s) (ran Q x s)"
    using map_m_element_ran [of s x] e(1) pl UnloadStylesheet by simp
  then show ?thesis
    by (auto simp: UnloadStylesheet unload_stylesheet_def n e(2) succeeds_def ran_def)
next
  case (LoadCustomPaintSource i)
  with ok obtain n where n: "nodes (m_doc s) i = Some n" by auto
  show ?thesis
  proof (cases "Option.bind (data_attr (data n) ''src'') parse_u64")
    case None
    then show ?thesis using pl n by (simp add: LoadCustomPaintSource load_custom_paint_src_def ran_def)
  next
    case (Some src)
    then have "Option.bind (nodes (m_doc s) (op_node x)) element_data \<noteq> None"
      using LoadCustomPaintSource n by (auto simp: data_attr_def bind_eq_Some_conv)
    from map_m_element_ran [OF this pl, of "Canvas src"] show ?thesis
      using n Some LoadCustomPaintSource
      by (auto simp: load_custom_paint_src_def succeeds_def ran_def)
  qed
qed (use pl in simp_all)

lemma run_eager_ops_relinks:
  "quiet Q (m_doc s) \<Longrightarrow> \<forall>x\<in>set q. op_ok (m_doc s) x \<Longrightarrow> distinct (map op_node q) \<Longrightarrow>
   succeeds (run_eager_ops (run_eager_op alloc fl) q s)
     (\<lambda>s'. same_links (m_doc s) (m_doc s') \<and> quiet Q (m_doc s'))"
proof (induction q arbitrary: s)
  case (Cons x q)
  have "succeeds (run_eager_op alloc fl x s) (ran Q x s)"
    using Cons.prems by (intro run_eager_op_ran) simp_all
  then obtain s1 where s1: "run_eager_op alloc fl x s = Some s1" "ran Q x s s1" by (auto simp: succeeds_def)
  have "op_ok (m_doc s1) y" if "y \<in> set q" for y
  proof -
    have "op_node y \<noteq> op_node x" using Cons.prems(3) that by (auto simp: image_iff)
    with s1(2) Cons.prems(2) that show ?thesis by (simp add: ran_def)
  qed
  moreover have "distinct (map op_node q)" "quiet Q (m_doc s1)" using Cons.prems(3) s1(2) by (simp_all add: ran_def)
  ultimately have "\<forall>y\<in>set q. op_ok (m_doc s1) y" "distinct (map op_node q)" "quiet Q (m_doc s1)" by blast+
  from Cons.IH [OF this(3,1,2)] show ?case
    using s1 by (auto simp: ran_def succeeds_def intro: same_links_trans)
qed simp

lemma flush_eager_ops_contract:
  assumes "quiet Q (m_doc s)" "\<forall>x\<in>set (eager_op_queue s). op_ok (m_doc s) x"
    and "distinct (map op_node (eager_op_queue s))"
  shows "succeeds (flush_eager_ops (Suc fuel) alloc s) (relinks_on Q (m_doc s))"
  using run_eager_ops_relinks [of Q "s\<lparr>eager_op_queue := []\<rparr>" "eager_op_queue s" alloc "flush_eager_ops fuel alloc"] assms
  by (auto simp: succeeds_def relinks_on_def)

interpretation fl: eager_flush "flush_eager_ops (Suc fuel) alloc" for fuel alloc
  by unfold_locales (rule flush_eager_ops_contract)

section \<open>The tree after a mutation\<close>

definition children_of :: "document \<Rightarrow> node_id \<Rightarrow> node_id list option" where
  "children_of d i = map_option children (nodes d i)"

definition parent_of :: "document \<Rightarrow> node_id \<Rightarrow> node_id option option" where
  "parent_of d i = map_option parent (nodes d i)"

text \<open>The ids are the children \<open>cs\<close> of \<open>p\<close> puts them among, and nothing else moves.\<close>
definition moved :: "node_id \<Rightarrow> node_id set \<Rightarrow> node_id list \<Rightarrow> document \<Rightarrow> document \<Rightarrow> bool" where
  "moved p A cs d d' \<longleftrightarrow>
     (\<forall>j. children_of d' j = (if j = p then Some cs else map_option (filter (\<lambda>x. x \<notin> A)) (children_of d j)))
   \<and> (\<forall>j. parent_of d' j = (if j \<in> A then Some (Some p) else parent_of d j))"

definition removed :: "node_id set \<Rightarrow> document \<Rightarrow> document \<Rightarrow> bool" where
  "removed A d d' \<longleftrightarrow>
     (\<forall>j. children_of d' j = map_option (filter (\<lambda>x. x \<notin> A)) (children_of d j))
   \<and> (\<forall>j. parent_of d' j = (if j \<in> A then map_option (\<lambda>_. None) (parent_of d j) else parent_of d j))"

text \<open>The state between two calls of the API: a well-formed document, no operation pending.\<close>
definition ready :: "mutator \<Rightarrow> bool" where
  "ready s \<longleftrightarrow> wf_doc (m_doc s) \<and> eager_op_queue s = []"

lemma ready_relinks: "ready s \<Longrightarrow> quiet Q (m_doc s) \<Longrightarrow> relinks_on Q (m_doc s) s \<and> wf_doc (m_doc s)"
  by (simp add: ready_def relinks_self)

lemma relinks_ready: "relinks_on Q d s \<Longrightarrow> wf_doc d \<Longrightarrow> ready s"
  using relinks_wf [of Q d s] by (simp add: ready_def) (simp add: relinks_on_def)

lemma relinks_quiet: "relinks_on Q d s \<Longrightarrow> quiet Q (m_doc s)"
  by (simp add: relinks_on_def)

lemma same_links_of:
  assumes "same_links d d'" shows "children_of d' j = children_of d j" "parent_of d' j = parent_of d j"
proof -
  have "map_option link_shape (nodes d' j) = map_option link_shape (nodes d j)" using assms by (simp add: same_links_def)
  then show "children_of d' j = children_of d j" "parent_of d' j = parent_of d j"
    by (cases "nodes d j"; cases "nodes d' j"; simp add: children_of_def parent_of_def link_shape_def)+
qed

lemma relinks_of:
  assumes "relinks_on Q d s" shows "children_of (m_doc s) j = children_of d j" "parent_of (m_doc s) j = parent_of d j"
  using assms same_links_of unfolding relinks_on_def by blast+

lemma placed_moved:
  assumes pl: "placed p A cs d d'" and r: "relinks_on Q d' s" and p: "nodes d p \<noteq> None" and A: "\<forall>c\<in>A. nodes d c \<noteq> None"
  shows "moved p A cs d (m_doc s)"
proof -
  have n: "nodes d' j = map_option (place_node p A cs j) (nodes d j)" for j using pl by (simp add: placed_def)
  show ?thesis unfolding moved_def relinks_of [OF r] using p A
    by (auto simp: children_of_def parent_of_def n option.map_comp comp_def)
qed

lemma unlinked_removed:
  assumes u: "unlinked A d d'" and r: "relinks_on Q d' s"
  shows "removed A d (m_doc s)"
proof -
  have n: "nodes d' j = map_option (unlink_node A j) (nodes d j)" for j using u by (simp add: unlinked_def)
  show ?thesis unfolding removed_def relinks_of [OF r]
    by (auto simp: children_of_def parent_of_def n option.map_comp comp_def)
qed

lemma placed_post:
  assumes "succeeds x (\<lambda>s'. \<exists>d'. placed p (set ids) cs (m_doc s) d' \<and> wf_doc d' \<and> relinks d' s')"
    and "insertable (m_doc s) p ids" "nodes (m_doc s) p = Some pn"
  shows "\<exists>s'. x = Some s' \<and> ready s' \<and> plain (m_doc s') \<and> moved p (set ids) cs (m_doc s) (m_doc s')"
  using assms placed_moved relinks_ready relinks_quiet
  by (fastforce simp: succeeds_def insertable_def)

text \<open>\<open>insertable\<close> in terms of the ancestors.\<close>
lemma insertable_above:
  "insertable d p ids \<longleftrightarrow> distinct ids
     \<and> (\<forall>c\<in>set ids. nodes d c \<noteq> None \<and> c \<noteq> root_node_id d \<and> c \<noteq> p \<and> c \<notin> above d p)"
  by (auto simp: insertable_def above_def rtrancl_eq_or_trancl)

lemma ex_above:
  "above ex_doc n1 = {}" "above ex_doc n2 = {n1}" "above ex_doc n3 = {n2, n1}"
  "above ex_doc n6 = {n2, n1}" "above ex_doc n5 = {n3, n2, n1}" "above ex_doc n7 = {n5, n3, n2, n1}"
proof -
  show a1: "above ex_doc n1 = {}" by (rule above_root [OF ex_nodes(1)]) simp
  show a2: "above ex_doc n2 = {n1}" using above_parent [OF ex_nodes(2)] a1 by simp
  show a3: "above ex_doc n3 = {n2, n1}" using above_parent [OF ex_nodes(3)] a2 by simp
  show "above ex_doc n6 = {n2, n1}" using above_parent [OF ex_nodes(6)] a2 by simp
  show a5: "above ex_doc n5 = {n3, n2, n1}" using above_parent [OF ex_nodes(5)] a3 by simp
  show "above ex_doc n7 = {n5, n3, n2, n1}" using above_parent [OF ex_nodes(7)] a5 by simp
qed

lemma ex_element_data [simp]: "element_data (ex_node i p cs dat) = downcast_element dat"
  by (cases dat) (simp_all add: element_data_def)

lemma ex_plain: "plain ex_doc"
proof -
  have "\<not> creates_nodes (data n)" if "nodes ex_doc i = Some n" for i n
    using ex_doc_dom [OF that] that
    by (elim disjE) (auto simp: creates_nodes_def ex_element_def el_attr_def ex_name_def)
  then show ?thesis by (simp add: quiet_def)
qed

lemma ex_ready: "ready (mutate ex_doc)" "plain (m_doc (mutate ex_doc))"
  using ex_plain by (simp_all add: ready_def mutate_def ex_wf_doc)

lemma ex_doc_mutate [simp]: "m_doc (mutate d) = d"
  by (simp add: mutate_def)

section \<open>Properties\<close>

text \<open>C3. In a \<open>plain\<close> document, one without file inputs and without button-like inputs (type
  button, submit or reset) that have a value, \<open>append_children\<close> returns, leaves a well-formed plain
  document with nothing pending, moves the given nodes to the end of the parent's children in the
  given order, takes them from the child lists they were in, and moves no other node; the parent
  may already have some of them.  The inputs left out get children of their own on the way, through
  a nested \<open>append_children\<close> (\<open>button_label_added_again\<close> evaluates one with two levels of flush); the
  theorem says nothing of documents that hold them.\<close>
theorem append_children_correct:
  assumes "ready s" "plain (m_doc s)" "nodes (m_doc s) p = Some pn" "insertable (m_doc s) p ids"
  shows "\<exists>s'. append_children (flush_eager_ops (Suc fuel) alloc) p ids s = Some s' \<and> ready s'
    \<and> plain (m_doc s') \<and> moved p (set ids) (filter (\<lambda>x. x \<notin> set ids) (children pn) @ ids) (m_doc s) (m_doc s')"
  using fl.append_children_placed [of "m_doc s" s p ids pn fuel alloc] ready_relinks [OF assms(1,2)] assms(3,4)
  by (intro placed_post) auto

theorem append_children_correct_witness:
  "\<exists>s'. append_children (flush_eager_ops 1 (\<lambda>_. n1)) n2 [n5] (mutate ex_doc) = Some s'
     \<and> children_of (m_doc s') n2 = Some [n3, n6, n5] \<and> children_of (m_doc s') n3 = Some [n4]"
proof -
  have "insertable (m_doc (mutate ex_doc)) n2 [n5]" by (simp add: insertable_above ex_above)
  moreover have "nodes (m_doc (mutate ex_doc)) n2 =
      Some (ex_node n2 (Some n1) [n3, n6] (Element (ex_element ''html'' [] False)))" by simp
  ultimately show ?thesis
    using append_children_correct [OF ex_ready, of n2 _ "[n5]" 0 "\<lambda>_. n1"]
    by (fastforce simp: moved_def children_of_def)
qed

text \<open>\<open>insert_nodes_before\<close> returns and puts the given nodes right before the anchor, in the
  given order.\<close>
lemma insert_nodes_before_correct:
  assumes "ready s" "plain (m_doc s)" "nodes (m_doc s) p = Some pn" "insertable (m_doc s) p ids"
    and "children pn = us @ a # vs" "a \<notin> set ids"
  shows "\<exists>s'. insert_nodes_before (flush_eager_ops (Suc fuel) alloc) a ids s = Some s' \<and> ready s'
    \<and> plain (m_doc s') \<and> moved p (set ids) (filter (\<lambda>x. x \<notin> set ids) us @ ids @ a # filter (\<lambda>x. x \<notin> set ids) vs)
        (m_doc s) (m_doc s')"
  using fl.insert_before_placed [of "m_doc s" s p ids pn _ a _ fuel alloc] ready_relinks [OF assms(1,2)] assms(3-6)
  by (intro placed_post) auto

lemma insert_nodes_before_correct_witness:
  "\<exists>s'. insert_nodes_before (flush_eager_ops 1 (\<lambda>_. n1)) n4 [n6, n5] (mutate ex_doc) = Some s'
     \<and> children_of (m_doc s') n3 = Some [n6, n5, n4] \<and> children_of (m_doc s') n2 = Some [n3]"
proof -
  have "insertable (m_doc (mutate ex_doc)) n3 [n6, n5]" by (simp add: insertable_above ex_above)
  moreover have "nodes (m_doc (mutate ex_doc)) n3 =
      Some (ex_node n3 (Some n2) [n4, n5] (Element (ex_element ''body'' [] False)))" by simp
  ultimately show ?thesis
    using insert_nodes_before_correct [OF ex_ready, of n3 _ "[n6, n5]" "[]" n4 "[n5]" 0 "\<lambda>_. n1"]
    by (fastforce simp: moved_def children_of_def)
qed

text \<open>C4. \<open>remove_node\<close> on a live node of a well-formed document with nothing pending returns and
  detaches exactly the given node: its subtree stays below it, and nothing else changes place.
  It holds of every such document, whatever elements it has: taking nodes out queues no operation
  that makes nodes, so that one level of the nested flush is enough (any \<open>Suc fuel\<close>).\<close>
theorem remove_node_correct:
  assumes "ready s" "nodes (m_doc s) i \<noteq> None"
  shows "\<exists>s'. remove_node (flush_eager_ops (Suc fuel) alloc) i s = Some s' \<and> ready s'
    \<and> removed {i} (m_doc s) (m_doc s')"
proof -
  from ready_relinks [OF assms(1) quiet_True] have r: "relinks_on (\<lambda>_. True) (m_doc s) s" and wf: "wf_doc (m_doc s)"
    by auto
  note u = unlink_unlinked [OF wf, of i]
  from fl.remove_node_relinks [OF r wf assms(2), of fuel alloc] show ?thesis
    using unlinked_removed [OF u] relinks_ready unlinked_wf [OF wf u] by (auto simp: succeeds_def)
qed

theorem remove_node_correct_witness:
  "\<exists>s'. remove_node (flush_eager_ops 1 (\<lambda>_. n1)) n5 (mutate ex_doc) = Some s'
     \<and> children_of (m_doc s') n3 = Some [n4] \<and> children_of (m_doc s') n5 = Some [n7]
     \<and> parent_of (m_doc s') n5 = Some None"
  using remove_node_correct [OF ex_ready(1), of n5 0 "\<lambda>_. n1"]
  by (fastforce simp: removed_def children_of_def parent_of_def)

text \<open>\<open>before_node\<close> and \<open>after_node\<close> put the nodes next to the anchor also when siblings of the
  anchor, or the anchor itself, are among them: the siblings that are not moved keep their
  order, and the nodes stand between those before and those after the anchor.\<close>
lemma sibling_insertion_correct:
  assumes "ready s" "plain (m_doc s)" "nodes (m_doc s) p = Some pn" "insertable (m_doc s) p ids" "children pn = us @ a # vs"
  shows "(\<exists>s'. before_node (flush_eager_ops (Suc fuel) alloc) a ids s = Some s' \<and> ready s' \<and> plain (m_doc s')
      \<and> moved p (set ids) (filter (\<lambda>x. x \<notin> set ids) us @ ids @ filter (\<lambda>x. x \<notin> set ids) (a # vs))
          (m_doc s) (m_doc s'))
    \<and> (\<exists>s'. after_node (flush_eager_ops (Suc fuel) alloc) a ids s = Some s' \<and> ready s' \<and> plain (m_doc s')
      \<and> moved p (set ids) (filter (\<lambda>x. x \<notin> set ids) (us @ [a]) @ ids @ filter (\<lambda>x. x \<notin> set ids) vs)
          (m_doc s) (m_doc s'))"
proof -
  from ready_relinks [OF assms(1,2)] have r: "relinks (m_doc s) s" and wf: "wf_doc (m_doc s)" by auto
  from placed_post [OF fl.before_node_placed [OF r wf assms(4,3,5)] assms(4,3)]
    placed_post [OF fl.after_node_placed [OF r wf assms(4,3,5)] assms(4,3)]
  show ?thesis by blast
qed

lemma sibling_insertion_correct_witness:
  "\<exists>s'. before_node (flush_eager_ops 1 (\<lambda>_. n1)) n4 [n4, n6] (mutate ex_doc) = Some s'
     \<and> children_of (m_doc s') n3 = Some [n4, n6, n5]"
proof -
  have "insertable (m_doc (mutate ex_doc)) n3 [n4, n6]" by (simp add: insertable_above ex_above)
  moreover have "nodes (m_doc (mutate ex_doc)) n3 =
      Some (ex_node n3 (Some n2) [n4, n5] (Element (ex_element ''body'' [] False)))" by simp
  ultimately show ?thesis
    using sibling_insertion_correct [OF ex_ready, of n3 _ "[n4, n6]" "[]" n4 "[n5]" 0 "\<lambda>_. n1"]
    by (fastforce simp: moved_def)
qed

text \<open>\<open>replace_with_nodes\<close> puts the nodes in the place of the anchor, which leaves the tree unless
  it is among them; \<open>replace_children\<close> leaves exactly the given nodes as children, the former
  ones detached.\<close>
lemma replacement_correct:
  assumes "ready s" "plain (m_doc s)" "nodes (m_doc s) p = Some pn" "insertable (m_doc s) p ids" "children pn = us @ a # vs"
  shows "(\<exists>s'. replace_with_nodes (flush_eager_ops (Suc fuel) alloc) a ids s = Some s' \<and> ready s' \<and> plain (m_doc s')
      \<and> children_of (m_doc s') p = Some (filter (\<lambda>x. x \<notin> set ids) us @ ids @ filter (\<lambda>x. x \<notin> set ids) vs)
      \<and> parent_of (m_doc s') a = Some (if a \<in> set ids then Some p else None))
    \<and> (\<exists>s'. replace_children (flush_eager_ops (Suc fuel) alloc) p ids s = Some s' \<and> ready s' \<and> plain (m_doc s')
      \<and> children_of (m_doc s') p = Some ids
      \<and> (\<forall>c\<in>set (children pn) - set ids. parent_of (m_doc s') c = Some None))"
proof -
  from ready_relinks [OF assms(1,2)] have r: "relinks (m_doc s) s" and wf: "wf_doc (m_doc s)" by auto
  let ?f = "filter (\<lambda>x. x \<notin> set ids)"
  have a: "a \<in> set (children pn)" "a \<noteq> p" using assms(5) wf_child_parent [OF wf assms(3), of a] wf_not_own_parent [OF wf]
    by auto
  have kids: "\<exists>m. nodes (m_doc s) c = Some m \<and> parent m = Some p" if "c \<in> set (children pn)" for c
    using wf_child_parent [OF wf assms(3) that] by auto
  have dist: "distinct (us @ a # vs)" using wf_doc_node [OF wf assms(3)] assms(5) by (simp add: wf_node_def)
  have "\<exists>s'. replace_with_nodes (flush_eager_ops (Suc fuel) alloc) a ids s = Some s' \<and> ready s' \<and> plain (m_doc s')
      \<and> children_of (m_doc s') p = Some (?f us @ ids @ ?f vs)
      \<and> parent_of (m_doc s') a = Some (if a \<in> set ids then Some p else None)"
  proof -
    from fl.replace_with_nodes_placed [OF r wf assms(4,3,5), of fuel alloc] obtain s' d2 d' where
      s': "replace_with_nodes (flush_eager_ops (Suc fuel) alloc) a ids s = Some s'"
      and d2: "placed p (set ids) (?f us @ ids @ ?f (a # vs)) (m_doc s) d2"
      and d': "unlinked ({a} - set ids) d2 d'" "wf_doc d'" "relinks d' s'"
      by (auto simp: succeeds_def)
    have "filter (\<lambda>x. x \<notin> {a} - set ids) (?f us @ ids @ ?f (a # vs)) = ?f us @ ids @ ?f vs"
    proof -
      have same: "filter (\<lambda>x. x \<notin> {a} - set ids) zs = zs" if "a \<in> set zs \<longrightarrow> a \<in> set ids" for zs
        by (rule filter_True) (use that in auto)
      have "?f (a # vs) = (if a \<in> set ids then ?f vs else a # ?f vs)" by simp
      moreover have "filter (\<lambda>x. x \<notin> {a} - set ids) (?f vs) = ?f vs" "filter (\<lambda>x. x \<notin> {a} - set ids) (?f us) = ?f us"
        "filter (\<lambda>x. x \<notin> {a} - set ids) ids = ids"
        using dist by (intro same; auto)+
      ultimately show ?thesis by (simp only: filter_append filter.simps split: if_split) simp
    qed
    then have "children_of d' p = Some (?f us @ ids @ ?f vs)"
      using d'(1) d2 assms(3) by (simp add: unlinked_def placed_def children_of_def)
    moreover have "parent_of d' a = Some (if a \<in> set ids then Some p else None)"
      using d'(1) d2 kids [OF a(1)] by (auto simp: unlinked_def placed_def parent_of_def)
    ultimately show ?thesis using s' relinks_ready [OF d'(3,2)] relinks_of [OF d'(3)] relinks_quiet [OF d'(3)] by auto
  qed
  moreover have "\<exists>s'. replace_children (flush_eager_ops (Suc fuel) alloc) p ids s = Some s' \<and> ready s' \<and> plain (m_doc s')
      \<and> children_of (m_doc s') p = Some ids
      \<and> (\<forall>c\<in>set (children pn) - set ids. parent_of (m_doc s') c = Some None)"
  proof -
    from fl.replace_children_placed [OF r wf assms(4,3), of fuel alloc] obtain s' d2 d' where
      s': "replace_children (flush_eager_ops (Suc fuel) alloc) p ids s = Some s'"
      and d: "unlinked (set ids \<union> set (children pn)) (m_doc s) d2" "placed p (set ids) ids d2 d'"
        "wf_doc d'" "relinks d' s'"
      by (auto simp: succeeds_def)
    have "children_of d' p = Some ids"
      using d(1,2) assms(3) by (simp add: unlinked_def placed_def children_of_def)
    moreover have "parent_of d' c = Some None" if "c \<in> set (children pn) - set ids" for c
      using d(1,2) kids [of c] that by (auto simp: unlinked_def placed_def parent_of_def)
    ultimately show ?thesis using s' relinks_ready [OF d(4,3)] relinks_of [OF d(4)] relinks_quiet [OF d(4)] by auto
  qed
  ultimately show ?thesis by blast
qed

lemma replacement_correct_witness:
  "\<exists>s'. replace_with_nodes (flush_eager_ops 1 (\<lambda>_. n1)) n4 [n6] (mutate ex_doc) = Some s'
     \<and> children_of (m_doc s') n3 = Some [n6, n5]"
proof -
  have "insertable (m_doc (mutate ex_doc)) n3 [n6]" by (simp add: insertable_above ex_above)
  moreover have "nodes (m_doc (mutate ex_doc)) n3 =
      Some (ex_node n3 (Some n2) [n4, n5] (Element (ex_element ''body'' [] False)))" by simp
  ultimately show ?thesis
    using replacement_correct [OF ex_ready, of n3 _ "[n6]" "[]" n4 "[n5]" 0 "\<lambda>_. n1"]
    by fastforce
qed

end
