(* ===== verification/Keyed_List.thy ===== *)
theory Keyed_List
  imports Prelude
begin

text \<open>
  The interface of the keyed sequences of the program (the attributes of an element, the
  items of a web storage area): what a lookup returns after an insertion or a removal, and
  what follows for a series of insertions.
\<close>

locale keyed_list =
  fixes get :: "'s \<Rightarrow> 'k \<Rightarrow> 'v option"
    and put :: "'s \<Rightarrow> 'k \<Rightarrow> 'v \<Rightarrow> 's"
    and del :: "'s \<Rightarrow> 'k \<Rightarrow> 's"
    and ok :: "'s \<Rightarrow> bool"
  assumes put_ok: "ok s \<Longrightarrow> ok (put s k v)"
    and del_ok: "ok s \<Longrightarrow> ok (del s k)"
    and get_put_same: "get (put s k v) k = Some v"
    and get_put_other: "k' \<noteq> k \<Longrightarrow> get (put s k v) k' = get s k'"
    and get_del_same: "ok s \<Longrightarrow> get (del s k) k = None"
    and get_del_other: "k' \<noteq> k \<Longrightarrow> get (del s k) k' = get s k'"

context keyed_list
begin

lemma get_put: "get (put s k v) k' = (if k' = k then Some v else get s k')"
  using get_put_same get_put_other by simp

lemma get_put_all:
  "get (fold (\<lambda>(k, v) s. put s k v) kvs s) k = (case map_of (rev kvs) k of Some v \<Rightarrow> Some v | None \<Rightarrow> get s k)"
proof (induction kvs arbitrary: s)
  case (Cons kv kvs)
  obtain a b where kv: "kv = (a, b)" by (cases kv)
  show ?case using Cons [of "put s a b"]
    by (auto simp: kv get_put map_add_def split: option.splits)
qed simp

lemma get_put_del: "ok s \<Longrightarrow> get (put (del s k) k v) = get (put s k v)"
  by (rule ext) (simp add: get_put get_del_other)

lemma get_del_put: "ok s \<Longrightarrow> get (del (put s k v) k) = get (del s k)"
  by (rule ext) (metis get_del_other get_del_same get_put_other put_ok)

lemma put_all_ok: "ok s \<Longrightarrow> ok (fold (\<lambda>(k, v) s. put s k v) kvs s)"
  by (induction kvs arbitrary: s) (auto simp: put_ok)

end

end
