(* ===== verification/Dom_Attributes.thy ===== *)
theory Dom_Attributes
  imports Dom_Flush Keyed_List
begin

text \<open>
  Attributes and snapshots: the attribute list of an element is a keyed list,
  \<open>set_attribute\<close> stores what \<open>attrs_get\<close> then returns, and the snapshot taken before the
  first mutation survives the following ones.
\<close>

section \<open>The attribute list as a keyed list\<close>

definition attr_lookup :: "attribute list \<Rightarrow> qual_name \<Rightarrow> string option" where
  "attr_lookup ats name = map_option attr_value (attrs_get ats name)"

definition attrs_without :: "attribute list \<Rightarrow> qual_name \<Rightarrow> attribute list" where
  "attrs_without ats name = snd (attrs_remove ats name)"

definition distinct_names :: "attribute list \<Rightarrow> bool" where
  "distinct_names ats \<longleftrightarrow> distinct (map attr_name ats)"

lemma attrs_set_names: "set (map attr_name (attrs_set ats name v)) = insert name (set (map attr_name ats))"
  by (induction ats) auto

lemma attrs_without_simps [simp]:
  "attrs_without [] name = []"
  "attrs_without (a # ats) name = (if attr_name a = name then ats else a # attrs_without ats name)"
  by (simp_all add: attrs_without_def split: prod.splits)

lemma attrs_without_names: "set (map attr_name (attrs_without ats name)) \<subseteq> set (map attr_name ats)"
  by (induction ats) auto

lemma attr_lookup_simps [simp]:
  "attr_lookup [] name = None"
  "attr_lookup (a # ats) name = (if attr_name a = name then Some (attr_value a) else attr_lookup ats name)"
  by (simp_all add: attr_lookup_def attrs_get_def)

lemma attr_lookup_None: "attr_lookup ats name = None \<longleftrightarrow> name \<notin> set (map attr_name ats)"
  by (induction ats) auto

interpretation attr_list: keyed_list attr_lookup attrs_set attrs_without distinct_names
proof unfold_locales
  fix ats name name' and v :: string
  show "distinct_names ats \<Longrightarrow> distinct_names (attrs_set ats name v)"
  proof (induction ats)
    case (Cons a ats)
    then show ?case using attrs_set_names [of ats name v] by (auto simp: distinct_names_def)
  qed (simp add: distinct_names_def)
  show "distinct_names ats \<Longrightarrow> distinct_names (attrs_without ats name)"
  proof (induction ats)
    case (Cons a ats)
    then show ?case using attrs_without_names [of ats name] by (auto simp: distinct_names_def)
  qed (simp add: distinct_names_def)
  show "attr_lookup (attrs_set ats name v) name = Some v" by (induction ats) auto
  show "name' \<noteq> name \<Longrightarrow> attr_lookup (attrs_set ats name v) name' = attr_lookup ats name'" by (induction ats) auto
  show "distinct_names ats \<Longrightarrow> attr_lookup (attrs_without ats name) name = None"
    by (induction ats) (auto simp: distinct_names_def attr_lookup_None)
  show "name' \<noteq> name \<Longrightarrow> attr_lookup (attrs_without ats name) name' = attr_lookup ats name'" by (induction ats) auto
qed

section \<open>Snapshots\<close>

lemma snapshot_node_impl_keeps:
  assumes "nodes d i = Some n" "element_data n \<noteq> None"
  shows "\<exists>d'. snapshot_node_impl i c d = Some d' \<and> keeps d d'"
proof -
  have "\<exists>st. element_state n = Some st"
    using assms(2) by (cases "data n") (auto simp: element_state_def element_data_def)
  moreover have "keeps d (update_node i (set_has_snapshot True) d)" by (rule keeps_update) simp
  ultimately show ?thesis
    by (auto simp: snapshot_node_impl_def node_at_simp assms(1) Let_def split: option.splits)
qed

text \<open>What a later reader of the snapshot sees: the state before the first mutation, and the
  attributes before the first mutation of an attribute.\<close>
lemma snapshot_again:
  assumes "nodes d i = Some n" "snapshots d i = Some sn" "snapshot_node_impl i c d = Some d'"
  shows "\<exists>sn'. snapshots d' i = Some sn' \<and> snap_state sn' = snap_state sn
    \<and> (snap_attrs sn \<noteq> None \<longrightarrow> sn' = sn)"
  using assms by (auto simp: snapshot_node_impl_def node_at_simp Let_def split: option.splits if_splits)

section \<open>Setting an attribute\<close>

definition element_of :: "document \<Rightarrow> node_id \<Rightarrow> element_data option" where
  "element_of d i = (case nodes d i of
      None \<Rightarrow> None
    | Some n \<Rightarrow> (case data n of Element e \<Rightarrow> Some e | _ \<Rightarrow> None))"

lemma element_of_node:
  assumes "element_of d i = Some e" obtains n where "nodes d i = Some n" "data n = Element e" "element_data n = Some e"
  using assms by (auto simp: element_of_def element_data_def split: option.splits node_data.splits)

lemma element_of_update [simp]:
  "element_of (update_node i (map_element f) d) j =
    (if j = i then map_option f (element_of d i) else element_of d j)"
  by (auto simp: element_of_def map_element_def split: option.splits node_data.splits)

lemma keeps_element_of:
  assumes "keeps d d'" "element_of d i = Some e"
  shows "\<exists>e'. element_of d' i = Some e' \<and> el_attrs e' = el_attrs e \<and> el_name e' = el_name e
    \<and> special_data e' = special_data e"
proof -
  from assms(2) obtain n where n: "nodes d i = Some n" "data n = Element e" by (rule element_of_node)
  from keeps_node [OF assms(1) n(1)] obtain n' where n': "nodes d' i = Some n'" by metis
  from keeps_data [OF assms(1) n(1) n'] n(2) have "erase (data n') = Element (erase_element e)" by simp
  then obtain e' where e': "data n' = Element e'" "erase_element e' = erase_element e" by (cases "data n'") auto
  from this(2) have "el_attrs e' = el_attrs e" "el_name e' = el_name e" "special_data e' = special_data e"
    by (cases e; cases e'; simp add: erase_element_def)+
  then show ?thesis using n' e'(1) by (simp add: element_of_def)
qed

lemma on_doc_keeps:
  assumes "\<exists>d'. f (m_doc s) = Some d' \<and> keeps d d'"
  shows "succeeds (on_doc f s) (\<lambda>s'. keeps d (m_doc s'))"
  using assms by (auto simp: on_doc_def)

lemma shape_hint_and_damage [simp]: "shape (hint_and_damage n) = shape n"
  by (simp add: hint_and_damage_def)

text \<open>The marks that precede every change of an attribute.\<close>
lemma attribute_marks:
  assumes ok: "parents_ok (m_doc s)" and e: "element_of (m_doc s) i = Some e"
    and f: "\<And>t. keeps (m_doc s) (m_doc t) \<Longrightarrow> succeeds (f t) (\<lambda>t'. keeps (m_doc s) (m_doc t'))"
  shows "succeeds (do {
      t1 \<leftarrow> on_doc (snapshot_node i) s;
      t2 \<leftarrow> on_doc (mark_damaged i) (upd_doc (update_node i hint_and_damage) t1);
      t3 \<leftarrow> f t2;
      on_doc (mark_ancestors_dirty i) t3 }) (\<lambda>s1. keeps (m_doc s) (m_doc s1))"
proof -
  from e obtain n where n: "nodes (m_doc s) i = Some n" "element_data n = Some e" by (rule element_of_node)
  then have live: "nodes (m_doc s) i \<noteq> None" by simp
  have "succeeds (on_doc (snapshot_node i) s) (\<lambda>t. keeps (m_doc s) (m_doc t))"
    using snapshot_node_impl_keeps [OF n(1)] n(2) by (intro on_doc_keeps) (simp add: snapshot_node_def)
  moreover have "keeps (m_doc s) (m_doc t) \<Longrightarrow>
      succeeds (on_doc (mark_damaged i) (upd_doc (update_node i hint_and_damage) t)) (\<lambda>t. keeps (m_doc s) (m_doc t))" for t
    by (intro on_doc_keeps mark_damaged_keeps [OF ok live]) (simp add: keeps_update_trans)
  moreover have "keeps (m_doc s) (m_doc t) \<Longrightarrow>
      succeeds (on_doc (mark_ancestors_dirty i) t) (\<lambda>t. keeps (m_doc s) (m_doc t))" for t
    by (intro on_doc_keeps mark_ancestors_dirty_keeps [OF ok live])
  ultimately show ?thesis using f by (fastforce simp: succeeds_def bind_eq_Some_conv)
qed

lemma hint_parent_keeps:
  assumes "parents_ok d" "nodes d i = Some n" "keeps d (m_doc t)"
  shows "succeeds (case parent n of
       None \<Rightarrow> Some t
     | Some p \<Rightarrow> do { _ \<leftarrow> m_node t p; Some (upd_doc (update_node p hint_subtree) t) })
    (\<lambda>t'. keeps d (m_doc t'))"
proof (cases "parent n")
  case (Some p)
  then have "nodes d p \<noteq> None" using assms(1,2) by (auto simp: parents_ok_def)
  with keeps_dom [OF assms(3), of p] obtain pn where "nodes (m_doc t) p = Some pn" by auto
  then show ?thesis using Some assms(3) by (simp add: keeps_update_trans)
qed (use assms(3) in simp)

lemma flush_attrs [simp]:
  "el_attrs (flush_link_state e) = el_attrs e" "el_attrs (flush_is_focussable e) = el_attrs e"
  "el_attrs (element_attr_changed name e) = el_attrs e" "el_name (element_attr_changed name e) = el_name e"
  by (simp_all add: flush_link_state_def flush_is_focussable_def element_attr_changed_def Let_def)

lemma checked_state_attrs:
  "\<exists>ext. el_attrs (set_input_checked_state v e) = el_attrs e @ ext"
  by (cases "parse_bool v"; cases "special_data e")
     (simp_all add: set_input_checked_state_def set_checkbox_input_checked_def Let_def)

text \<open>The document \<open>d'\<close> has the links of \<open>d\<close>, and the attributes \<open>ats\<close> at element \<open>i\<close>, perhaps with
  a \<open>checked\<close> more at the end.\<close>
definition attrs_stored :: "document \<Rightarrow> node_id \<Rightarrow> bool \<Rightarrow> attribute list \<Rightarrow> document \<Rightarrow> bool" where
  "attrs_stored d i chk ats d' \<longleftrightarrow> same_links d d' \<and>
     (\<exists>e ext. element_of d' i = Some e \<and> el_attrs e = ats @ ext \<and> (\<not> chk \<longrightarrow> ext = []))"

lemma attrs_stored_keeps:
  assumes "attrs_stored d i chk ats d1" "keeps d1 d2" shows "attrs_stored d i chk ats d2"
  using assms keeps_element_of [OF assms(2)] same_links_trans [OF _ keeps_same_links [OF assms(2)]]
  by (fastforce simp: attrs_stored_def)

lemma attrs_stored_step:
  assumes "attrs_stored d i chk ats (m_doc s)" "\<exists>d'. f (m_doc s) = Some d' \<and> keeps (m_doc s) d'"
  shows "succeeds (on_doc f s) (\<lambda>s'. attrs_stored d i chk ats (m_doc s'))"
  using assms attrs_stored_keeps by (fastforce simp: on_doc_def)

lemma same_links_map_element: "same_links d d' \<Longrightarrow> same_links d (update_node i (map_element f) d')"
  by (rule same_links_trans [OF _ same_links_update]) simp_all

lemma attrs_stored_update:
  assumes "attrs_stored d i chk ats d1" "\<And>e. el_attrs (f e) = el_attrs e"
  shows "attrs_stored d i chk ats (update_node i (map_element f) d1)"
  using assms same_links_map_element by (auto simp: attrs_stored_def)

lemma attrs_stored_checked:
  assumes "attrs_stored d i False ats d1"
  shows "attrs_stored d i True ats (update_node i (map_element (set_input_checked_state v)) d1)"
proof -
  from assms obtain e where e: "element_of d1 i = Some e" "el_attrs e = ats" "same_links d d1"
    by (auto simp: attrs_stored_def)
  obtain ext where "el_attrs (set_input_checked_state v e) = el_attrs e @ ext" using checked_state_attrs by blast
  with e show ?thesis by (simp add: attrs_stored_def same_links_map_element)
qed

lemma attrs_stored_weaken: "attrs_stored d i False ats d1 \<Longrightarrow> attrs_stored d i chk ats d1"
  by (auto simp: attrs_stored_def)

lemma m_doc_records [simp]:
  "m_doc (record_attribute i name s) = m_doc s\<lparr>hook_calls := hook_calls (m_doc s) @
     [QueueMutationRecord (Attributes i (qn_local name) (attribute_namespace name))]\<rparr>"
  by (simp add: record_attribute_def)

lemma element_of_hook [simp]: "element_of (d\<lparr>hook_calls := h\<rparr>) i = element_of d i"
  by (simp add: element_of_def)

lemma load_custom_paint_src_stored:
  assumes "attrs_stored d i chk ats (m_doc s)"
  shows "succeeds (load_custom_paint_src i s) (\<lambda>s'. attrs_stored d i chk ats (m_doc s'))"
proof -
  from assms obtain e where "element_of (m_doc s) i = Some e" by (auto simp: attrs_stored_def)
  then obtain n where n: "nodes (m_doc s) i = Some n" "element_data n = Some e" by (rule element_of_node)
  show ?thesis
    using assms attrs_stored_update [OF assms]
    by (simp add: load_custom_paint_src_def map_m_element_def n split: option.split)
qed

lemma m_doc_widget [simp]:
  "keeps d (m_doc (widget_attribute_changed i e l old new s)) = keeps d (m_doc s)"
  "nodes (m_doc (widget_attribute_changed i e l old new s)) = nodes (m_doc s)"
  "same_links d (m_doc (widget_attribute_changed i e l old new s)) = same_links d (m_doc s)"
  "element_of (m_doc (widget_attribute_changed i e l old new s)) j = element_of (m_doc s) j"
  "eager_op_queue (widget_attribute_changed i e l old new s) = eager_op_queue s"
  by (simp_all add: widget_attribute_changed_def same_links_def element_of_def)

lemma attr_special_stored:
  assumes "attrs_stored d i False ats (m_doc s)"
  shows "succeeds (attr_special F i e attr v s) (\<lambda>s'. attrs_stored d i (attr = ''checked'') ats (m_doc s'))"
proof -
  from range_from_attrs_bounds [of F e] obtain r where r: "range_from_attrs F e = Some r" by blast
  have "attrs_stored d i (attr = ''checked'') ats
      (update_node i (map_element (\<lambda>e. e\<lparr>special_data := RangeInput r\<rparr>)) (m_doc s))"
    by (rule attrs_stored_update [OF attrs_stored_weaken [OF assms]]) simp
  then have "succeeds (case special_data e of
           RangeInput _ \<Rightarrow> do {
             fresh \<leftarrow> range_from_attrs F e;
             Some (upd_doc (update_node i (map_element (\<lambda>e. e\<lparr>special_data := RangeInput fresh\<rparr>))) s) }
         | _ \<Rightarrow> Some s) (\<lambda>s'. attrs_stored d i (attr = ''checked'') ats (m_doc s'))"
    using attrs_stored_weaken [OF assms] by (cases "special_data e") (simp_all add: r)
  then show ?thesis
    unfolding attr_special_def Let_def
    using assms attrs_stored_checked [OF assms] attrs_stored_weaken [OF assms]
      load_custom_paint_src_stored [OF attrs_stored_weaken [OF assms]]
    by (intro succeeds_if) simp_all
qed

lemma style_hint_keeps:
  assumes "parents_ok d" "nodes d i \<noteq> None"
  shows "\<exists>d'. set_restyle_hint_style_attribute i d = Some d' \<and> keeps d d'"
  unfolding set_restyle_hint_style_attribute_def
  by (rule mark_ancestors_dirty_keeps [OF assms keeps_update]) simp

lemma id_map_keeps:
  "keeps d (m_doc (case element_data m1 of
       None \<Rightarrow> s1
     | Some e \<Rightarrow> upd_doc (add_to_id_map v i)
         (case el_id e of None \<Rightarrow> s1 | Some old \<Rightarrow> upd_doc (remove_from_id_map old i) s1))) \<longleftrightarrow> keeps d (m_doc s1)"
  by (auto split: option.splits)

text \<open>The part of \<open>set_attribute\<close> after the marks.\<close>
lemma set_attribute_stores:
  assumes ok: "parents_ok d" and e: "element_of d i = Some e" and k: "keeps d (m_doc s2)"
    and m2: "nodes (m_doc s2) i = Some m2"
  shows "succeeds (case data m2 of
         Element e \<Rightarrow> do {
           let e1 = element_attr_changed name (e\<lparr>el_attrs := attrs_set (el_attrs e) name v\<rparr>);
           let e2 = (if qn_local name = ''id'' then e1\<lparr>el_id := Some v\<rparr> else e1);
           let s3 = record_attribute i name
                      (upd_doc (update_node i (map_element (\<lambda>_. e2)))
                        (widget_attribute_changed i e (qn_local name)
                          (map_option attr_value (attrs_get (el_attrs e) name)) (Some v) (mutated in_doc s2)));
           (if qn_local name = ''value'' then
              Some (case special_data e2 of
                  TextInput _ \<Rightarrow> upd_doc (update_node i (map_element (\<lambda>e. e\<lparr>special_data := TextInput v\<rparr>))) s3
                | _ \<Rightarrow> s3)
            else if qn_local name = ''style'' then on_doc (set_restyle_hint_style_attribute i) s3
            else if qn_local name = ''disabled'' \<and> can_be_disabled e2 then on_doc (disable i) s3
            else if \<not> is_in_document (flags m2) then Some s3
            else attr_special F i e2 (qn_local name) v s3) }
       | _ \<Rightarrow> Some s2)
    (\<lambda>s'. attrs_stored d i (qn_local name = ''checked'') (attrs_set (el_attrs e) name v) (m_doc s'))"
proof -
  from keeps_element_of [OF k e] obtain e0 where e0: "element_of (m_doc s2) i = Some e0" "el_attrs e0 = el_attrs e"
    by blast
  with m2 have d2: "data m2 = Element e0" by (auto simp: element_of_def split: node_data.splits)
  define e1 where "e1 = element_attr_changed name (e0\<lparr>el_attrs := attrs_set (el_attrs e0) name v\<rparr>)"
  define e2 where "e2 = (if qn_local name = ''id'' then e1\<lparr>el_id := Some v\<rparr> else e1)"
  define s3 where "s3 = record_attribute i name (upd_doc (update_node i (map_element (\<lambda>_. e2)))
    (widget_attribute_changed i e0 (qn_local name)
      (map_option attr_value (attrs_get (el_attrs e0) name)) (Some v) (mutated in_doc s2)))"
  have at2: "el_attrs e2 = attrs_set (el_attrs e) name v" by (simp add: e2_def e1_def e0(2))
  have st: "attrs_stored d i False (attrs_set (el_attrs e) name v) (m_doc s3)"
    using keeps_same_links [OF k] e0 by (simp add: attrs_stored_def s3_def at2 same_links_map_element)
  then have sl: "same_links d (m_doc s3)" by (simp add: attrs_stored_def)
  have ok3: "parents_ok (m_doc s3)" by (rule same_links_parents_ok [OF sl ok])
  have live3: "nodes (m_doc s3) i \<noteq> None" using m2 by (simp add: s3_def)
  let ?Q = "\<lambda>s'. attrs_stored d i (qn_local name = ''checked'') (attrs_set (el_attrs e) name v) (m_doc s')"
  have "succeeds (if qn_local name = ''value'' then
              Some (case special_data e2 of
                  TextInput _ \<Rightarrow> upd_doc (update_node i (map_element (\<lambda>e. e\<lparr>special_data := TextInput v\<rparr>))) s3
                | _ \<Rightarrow> s3)
            else if qn_local name = ''style'' then on_doc (set_restyle_hint_style_attribute i) s3
            else if qn_local name = ''disabled'' \<and> can_be_disabled e2 then on_doc (disable i) s3
            else if \<not> is_in_document (flags m2) then Some s3
            else attr_special F i e2 (qn_local name) v s3) ?Q"
  proof (intro succeeds_if)
    show "succeeds (Some (case special_data e2 of
                  TextInput _ \<Rightarrow> upd_doc (update_node i (map_element (\<lambda>e. e\<lparr>special_data := TextInput v\<rparr>))) s3
                | _ \<Rightarrow> s3)) ?Q"
      using attrs_stored_weaken [OF st]
      by (cases "special_data e2") (simp_all add: attrs_stored_update)
    show "succeeds (on_doc (set_restyle_hint_style_attribute i) s3) ?Q"
      by (rule attrs_stored_step [OF attrs_stored_weaken [OF st]], rule style_hint_keeps [OF ok3 live3])
    show "succeeds (on_doc (disable i) s3) ?Q"
      by (rule attrs_stored_step [OF attrs_stored_weaken [OF st]], rule state_change_keeps(5) [OF ok3 live3 keeps_refl])
    show "succeeds (Some s3) ?Q" using attrs_stored_weaken [OF st] by simp
    show "succeeds (attr_special F i e2 (qn_local name) v s3) ?Q"
      by (rule attr_special_stored [OF st])
  qed
  then show ?thesis by (simp only: d2 node_data.case Let_def e1_def [symmetric] e2_def [symmetric] s3_def [symmetric])
qed

lemma attr_lookup_set_append: "attr_lookup (attrs_set ats name v @ ext) name = Some v"
  by (induction ats) auto


text \<open>Floating-point operations for the examples: whole hundreds parse, the arithmetic is idle.\<close>
definition ex_f64_ops :: f64_ops where
  "ex_f64_ops = \<lparr> f64_parse = (\<lambda>s. if s = ''100'' then Some f64_100 else if s = ''1'' then Some f64_1 else None),
     f64_add = (\<lambda>x y. y), f64_sub = (\<lambda>x y. x), f64_mul = (\<lambda>x y. x), f64_div = (\<lambda>x y. x), f64_round = (\<lambda>x. x) \<rparr>"

lemma ex_element_of [simp]: "element_of ex_doc n6 = Some (ex_element ''input'' [(''id'', ''q'')] True)"
  by (simp add: element_of_def)


text \<open>A slider in the document reads its bounds again when one of them is set, and a custom widget
  is told the old and the new value.\<close>
definition ex_slider_doc :: "special_element_data \<Rightarrow> document" where
  "ex_slider_doc sd = update_node n6 (\<lambda>n. n\<lparr>flags := IS_IN_DOCUMENT, data := Element ((ex_element ''input''
     [(''type'', ''range''), (''value'', ''100'')] True)\<lparr>special_data := sd\<rparr>)\<rparr>) ex_doc"

lemma slider_bounds_reread:
  "case set_attribute ex_f64_ops n6 \<lparr> qn_prefix = None, qn_ns = [], qn_local = ''max'' \<rparr> ''1''
      (mutate (ex_slider_doc (RangeInput \<lparr> range_value = f64_100, range_min = 0, range_max = f64_100, range_step = f64_1 \<rparr>))) of
     None \<Rightarrow> False
   | Some s \<Rightarrow> map_option special_data (element_of (m_doc s) n6)
       = Some (RangeInput \<lparr> range_value = f64_1, range_min = 0, range_max = f64_1, range_step = f64_1 \<rparr>)"
  by code_simp

lemma widget_told_of_attribute:
  "case set_attribute ex_f64_ops n6 \<lparr> qn_prefix = None, qn_ns = [], qn_local = ''type'' \<rparr> ''x'' (mutate (ex_slider_doc CustomWidget)) of
     None \<Rightarrow> False
   | Some s \<Rightarrow> doc_effects (m_doc s) = [AttributeChanged n6 ''type'' (Some ''range'') (Some ''x'')]"
  by code_simp

section \<open>Clearing an attribute\<close>

lemma attrs_remove_present:
  "name \<in> attr_name ` set ats \<Longrightarrow> \<exists>a. attrs_remove ats name = (Some a, attrs_without ats name)"
  by (induction ats) (auto split: prod.splits)

text \<open>C6. Clearing \<open>href\<close> on a \<open>link\<close> element that has no style sheet loaded (an icon, a link not
  fetched yet, one outside the document) reaches \<open>unreachable!\<close> in \<open>unload_stylesheet\<close>.\<close>
theorem clear_href_panics:
  assumes ok: "parents_ok (m_doc s)" and e: "element_of (m_doc s) i = Some e"
    and link: "qn_local (el_name e) = ''link''" "special_data e \<noteq> Stylesheet"
    and href: "qn_local name = ''href''" "name \<in> attr_name ` set (el_attrs e)"
  shows "clear_attribute i name s = None"
proof -
  from e obtain n0 where n0: "nodes (m_doc s) i = Some n0" by (rule element_of_node)
  define pre where "pre = (if is_in_document (flags n0) then do {
               t1 \<leftarrow> on_doc (snapshot_node i) s;
               t2 \<leftarrow> on_doc (mark_damaged i) (upd_doc (update_node i hint_and_damage) t1);
               on_doc (mark_ancestors_dirty i) t2 }
             else Some s)"
  have "succeeds pre (\<lambda>s1. keeps (m_doc s) (m_doc s1))"
    unfolding pre_def using attribute_marks [OF ok e, of Some] by (intro succeeds_if) simp_all
  then obtain s1 where s1: "pre = Some s1" "keeps (m_doc s) (m_doc s1)" by (auto simp: succeeds_def)
  from keeps_element_of [OF s1(2) e] obtain e1 where e1: "element_of (m_doc s1) i = Some e1"
    "el_attrs e1 = el_attrs e" "el_name e1 = el_name e" "special_data e1 = special_data e" by blast
  from e1(1) obtain m1 where m1: "nodes (m_doc s1) i = Some m1" "data m1 = Element e1" "element_data m1 = Some e1"
    by (rule element_of_node)
  obtain a where a: "attrs_remove (el_attrs e1) name = (Some a, attrs_without (el_attrs e1) name)"
    using attrs_remove_present href(2) e1(2) by metis
  define e2 where "e2 = element_attr_changed name (e1\<lparr>el_attrs := attrs_without (el_attrs e1) name\<rparr>)"
  have e2: "qn_local (el_name e2) = ''link''" "special_data e2 \<noteq> Stylesheet"
    using link e1(3,4)
    by (simp_all add: e2_def element_attr_changed_def flush_link_state_def flush_is_focussable_def Let_def)
  have panic: "unload_stylesheet i s3 = None" if "element_of (m_doc s3) i = Some e2" for s3
    using that e2(2) by (auto simp: unload_stylesheet_def element_data_def elim!: element_of_node)
  show ?thesis
    using s1(1) a e2(1) panic m1(2) href(1) unfolding e2_def
    by (cases "special_data (element_attr_changed name (e1\<lparr>el_attrs := attrs_without (el_attrs e1) name\<rparr>))")
       (simp_all add: clear_attribute_def n0 pre_def [symmetric] m1 Let_def element_of_def map_element_def)
qed

definition ex_link_doc :: document where
  "ex_link_doc = update_node n6 (\<lambda>n. n\<lparr>data := Element (ex_element ''link'' [(''href'', ''a.css'')] False)\<rparr>) ex_doc"

theorem clear_href_panics_witness:
  "clear_attribute n6 \<lparr> qn_prefix = None, qn_ns = [], qn_local = ''href'' \<rparr> (mutate ex_link_doc) = None"
proof (rule clear_href_panics)
  have "same_links ex_doc ex_link_doc"
    by (auto simp: same_links_def ex_link_doc_def link_shape_def is_anonymous_def)
  then show "parents_ok (m_doc (mutate ex_link_doc))"
    using same_links_parents_ok wf_doc_parents_ok [OF ex_wf_doc] by simp
  show "element_of (m_doc (mutate ex_link_doc)) n6 = Some (ex_element ''link'' [(''href'', ''a.css'')] False)"
    by (simp add: ex_link_doc_def element_of_def)
qed (simp_all add: ex_element_def ex_name_def)

section \<open>Insertion below a descendant\<close>

text \<open>Nothing in \<open>append_children\<close> looks whether the child is an ancestor of the new parent:
  appending \<open>body\<close> to one of its paragraphs succeeds and leaves a cycle of parents, cut off
  from the document.\<close>
lemma append_ancestor_makes_cycle:
  "case append_children (flush_eager_ops 1 (\<lambda>_. n1)) n5 [n3] (mutate ex_doc) of
      None \<Rightarrow> False
    | Some s \<Rightarrow> parent_of (m_doc s) n3 = Some (Some n5) \<and> parent_of (m_doc s) n5 = Some (Some n3)
        \<and> children_of (m_doc s) n5 = Some [n7, n3] \<and> children_of (m_doc s) n2 = Some [n6]"
  by code_simp

section \<open>Inputs that make children of their own\<close>

definition ex_submit_doc :: document where
  "ex_submit_doc = update_node n6 (\<lambda>n. n\<lparr>data := Element (ex_element ''input''
     [(''type'', ''submit''), (''value'', ''Go'')] True)\<rparr>) ex_doc"

fun run_ops :: "mut_op list \<Rightarrow> mut_op" where
  "run_ops [] s = Some s"
| "run_ops (f # fs) s = do { s1 \<leftarrow> f s; run_ops fs s1 }"

text \<open>A submit button gets its label as a text child every time it enters the document:
  taken out and put back, it shows the label twice.\<close>
lemma button_label_added_again:
  "case run_ops [remove_node (flush_eager_ops 2 (\<lambda>k. NodeId (of_nat k))) n6,
       append_children (flush_eager_ops 2 (\<lambda>k. NodeId (of_nat k))) n2 [n6],
       remove_node (flush_eager_ops 2 (\<lambda>k. NodeId (of_nat k))) n6,
       append_children (flush_eager_ops 2 (\<lambda>k. NodeId (of_nat k))) n2 [n6]] (mutate ex_submit_doc) of
      None \<Rightarrow> False
    | Some s \<Rightarrow> children_of (m_doc s) n6 = Some [NodeId 10, NodeId 11]
        \<and> text_content_of (m_doc s) [n6] = Some ''GoGo''"
  by code_simp

end
