(* ===== verification/Dom_Interaction.thy ===== *)
theory Dom_Interaction
  imports Dom_Attributes Dom_Queries
begin

text \<open>
  The interaction state of a document (\<open>strake-dom/src/document.rs\<close>): keyboard focus, the
  hovered and the active node with the element states along their layout ancestors, toggled
  check boxes, radio buttons and \<open>details\<close>, and the target of a URL fragment.

  The answer of the hit test under the pointer comes from the layout; it is an argument of
  \<open>set_hover_to\<close>.
\<close>

section \<open>Focus\<close>

text \<open>The first element among the children, as \<open>first_element_child\<close> of \<open>stylo.rs\<close>.\<close>
fun first_element :: "document \<Rightarrow> node_id list \<Rightarrow> node option may_panic" where
  "first_element d [] = Some None"
| "first_element d (c # cs) = do {
     n \<leftarrow> node_at d c;
     if is_element n then Some (Some n) else first_element d cs }"

definition try_root_element :: "document \<Rightarrow> node option may_panic" where
  "try_root_element d = do { r \<leftarrow> root_node d; first_element d (children r) }"

definition get_focussed_node_id :: "document \<Rightarrow> node_id option may_panic" where
  "get_focussed_node_id d = do {
     r \<leftarrow> try_root_element d;
     Some (case focus_node_id d of Some i \<Rightarrow> Some i | None \<Rightarrow> map_option nid r) }"

definition focus_next_node :: "document \<Rightarrow> (node_id option \<times> document) may_panic" where
  "focus_next_node d = do {
     current \<leftarrow> get_focussed_node_id d;
     (case current of
        None \<Rightarrow> Some (None, d)
      | Some c \<Rightarrow> do {
          n \<leftarrow> node_at d c;
          found \<leftarrow> next_node d n node_is_focussable;
          (case found of
             None \<Rightarrow> Some (None, d)
           | Some i \<Rightarrow> do { (_, d') \<leftarrow> set_focus_to i d; Some (Some i, d') }) }) }"

definition focus_prev_node :: "document \<Rightarrow> (node_id option \<times> document) may_panic" where
  "focus_prev_node d = do {
     current \<leftarrow> get_focussed_node_id d;
     (case current of
        None \<Rightarrow> Some (None, d)
      | Some c \<Rightarrow> do {
          n \<leftarrow> node_at d c;
          found \<leftarrow> prev_node d n node_is_focussable;
          (case found of
             None \<Rightarrow> Some (None, d)
           | Some i \<Rightarrow> do { (_, d') \<leftarrow> set_focus_to i d; Some (Some i, d') }) }) }"

definition set_mousedown_node_id :: "node_id option \<Rightarrow> document \<Rightarrow> document may_panic" where
  "set_mousedown_node_id i d = do {
     j \<leftarrow> (case i of None \<Rightarrow> Some None | Some k \<Rightarrow> nearest_non_anonymous_ancestor d k);
     Some (d\<lparr>mousedown_node_id := j\<rparr>) }"

section \<open>Toggles\<close>

definition checkbox_input_checked :: "element_data \<Rightarrow> bool option" where
  "checkbox_input_checked e = (case special_data e of CheckboxInput b \<Rightarrow> Some b | _ \<Rightarrow> None)"

definition toggle_checkbox :: "element_data \<Rightarrow> bool \<times> element_data" where
  "toggle_checkbox e = (case checkbox_input_checked e of
      None \<Rightarrow> (False, e)
    | Some c \<Rightarrow> (\<not> c, set_checkbox_input_checked (\<not> c) e))"

text \<open>\<open>nodes.iter()\<close> goes through the slots by index.\<close>
definition node_ids :: "document \<Rightarrow> node_id list" where
  "node_ids d = sorted_list_of_set (dom (nodes d))"

definition in_radio_set :: "string \<Rightarrow> document \<Rightarrow> node_id \<Rightarrow> bool" where
  "in_radio_set name d i = (case Option.bind (nodes d i) element_data of
      None \<Rightarrow> False
    | Some e \<Rightarrow> el_attr e ''name'' = Some name \<and> checkbox_input_checked e \<noteq> None)"

definition set_checked :: "bool \<Rightarrow> node_id \<Rightarrow> document \<Rightarrow> document may_panic" where
  "set_checked c i = snapshot_node_and i {CHECKED}
     (\<lambda>d. mark_ancestors_dirty i (update_node i (map_element (set_checkbox_input_checked c)) d))"

fun set_radios :: "node_id list \<Rightarrow> node_id \<Rightarrow> document \<Rightarrow> document may_panic" where
  "set_radios [] t d = Some d"
| "set_radios (i # is) t d = do { d1 \<leftarrow> set_checked (i = t) i d; set_radios is t d1 }"

definition toggle_radio :: "string \<Rightarrow> node_id \<Rightarrow> document \<Rightarrow> document may_panic" where
  "toggle_radio name t d = set_radios (filter (in_radio_set name d) (node_ids d)) t d"

definition open_name :: qual_name where
  "open_name = \<lparr> qn_prefix = None, qn_ns = [], qn_local = ''open'' \<rparr>"

definition toggle_details_open :: "f64_ops \<Rightarrow> node_id \<Rightarrow> document \<Rightarrow> document may_panic" where
  "toggle_details_open F i d = do {
     n \<leftarrow> node_at d i;
     if \<not> is_element_with_tag_name (data n) ''details'' then Some d
     else do {
       s \<leftarrow> (if data_attr (data n) ''open'' \<noteq> None
             then clear_attribute i open_name (mutate d)
             else set_attribute F i open_name [] (mutate d));
       d1 \<leftarrow> finish s;
       Some (shell RequestRedraw d1) } }"

section \<open>Fragments\<close>

definition is_named_anchor :: "string \<Rightarrow> document \<Rightarrow> node_id \<Rightarrow> bool" where
  "is_named_anchor fragment d i = (case Option.bind (nodes d i) element_data of
      None \<Rightarrow> False
    | Some e \<Rightarrow> qn_local (el_name e) = ''a'' \<and> el_attr e ''name'' = Some fragment)"

definition get_fragment_target :: "document \<Rightarrow> string \<Rightarrow> node_id option may_panic" where
  "get_fragment_target d fragment = do {
     by_id \<leftarrow> get_element_by_id d fragment;
     Some (case by_id of
         Some i \<Rightarrow> Some i
       | None \<Rightarrow> List.find (is_named_anchor fragment d) (node_ids d)) }"

section \<open>Hover and activation\<close>

text \<open>One state change along a path of nodes.\<close>
fun each_state ::
    "(node_id \<Rightarrow> document \<Rightarrow> document may_panic) \<Rightarrow> state_flag \<Rightarrow> node_id list \<Rightarrow> document \<Rightarrow> document may_panic" where
  "each_state f st [] d = Some d"
| "each_state f st (i # is) d = do { d1 \<leftarrow> snapshot_node_and i {st} (f i) d; each_state f st is d1 }"

definition unactive_node :: "document \<Rightarrow> (bool \<times> document) may_panic" where
  "unactive_node d = (case active_node_id d of
      None \<Rightarrow> Some (False, d)
    | Some a \<Rightarrow> do {
        let d0 = d\<lparr>active_node_id := None\<rparr>;
        path \<leftarrow> maybe_node_layout_ancestors d0 (Some a);
        d1 \<leftarrow> each_state unactive ACTIVE path d0;
        Some (True, d1) })"

definition active_node :: "document \<Rightarrow> (bool \<times> document) may_panic" where
  "active_node d = (case hover_node_id d of
      None \<Rightarrow> Some (False, d)
    | Some h \<Rightarrow>
        if active_node_id d = Some h then Some (True, d)
        else do {
          (_, d0) \<leftarrow> (if active_node_id d = None then Some (False, d) else unactive_node d);
          path \<leftarrow> maybe_node_layout_ancestors d0 (Some h);
          d1 \<leftarrow> each_state active ACTIVE path d0;
          Some (True, d1\<lparr>active_node_id := Some h\<rparr>) })"

text \<open>Overlay scroll bars (the \<open>scrollbars\<close> feature): instants are nanoseconds.  The opacity is
  computed in \<open>f32\<close>, where the quotient rounds to one eight nanoseconds before the fading time
  is over; only whether the bar is still visible matters here.\<close>
definition FADE_DELAY :: nat where "FADE_DELAY = 500000000"
definition FADE_DURATION :: nat where "FADE_DURATION = 200000000"

definition opacity_positive :: "nat \<Rightarrow> bool" where
  "opacity_positive elapsed = (elapsed < FADE_DELAY + FADE_DURATION - 8)"

definition scrollbar_drag_target :: "document \<Rightarrow> scrollbar_ref option" where
  "scrollbar_drag_target d = (case drag d of ScrollbarDrag r _ \<Rightarrow> Some r | _ \<Rightarrow> None)"

definition scrollbar_visible :: "nat \<Rightarrow> node_id \<Rightarrow> document \<Rightarrow> bool" where
  "scrollbar_visible now i d =
    (map_option sb_node (hovered_scrollbar d) = Some i \<or> map_option sb_node (scrollbar_drag_target d) = Some i
     \<or> (case scrollbar_activity d i of None \<Rightarrow> False | Some shown \<Rightarrow> opacity_positive (now - shown)))"

definition show_scrollbars :: "nat \<Rightarrow> node_id \<Rightarrow> document \<Rightarrow> document" where
  "show_scrollbars now i d = d\<lparr>scrollbar_activity := (scrollbar_activity d)(i \<mapsto> now)\<rparr>"

text \<open>What the layout and the clock say about a pointer position: the position in client
  coordinates, the node that is hit and whether it is text, the scroll bar thumb under the
  pointer, the resize band of a frameless window, and the time.\<close>
record probe =
  probe_client :: "f32 \<times> f32"
  probe_hit :: "(node_id \<times> bool) option"
  probe_thumb :: "scrollbar_ref option"
  probe_resize :: "resize_direction option"
  probe_now :: nat

definition shown_thumb :: "probe \<Rightarrow> document \<Rightarrow> scrollbar_ref option" where
  "shown_thumb p d = (case probe_thumb p of
      None \<Rightarrow> None
    | Some r \<Rightarrow> if scrollbar_visible (probe_now p) (sb_node r) d then Some r else None)"

definition note_thumb :: "probe \<Rightarrow> document \<Rightarrow> bool \<times> document" where
  "note_thumb p d =
    (let thumb = shown_thumb p d;
         changed = (thumb \<noteq> hovered_scrollbar d);
         show1 = (\<lambda>r d. case r of None \<Rightarrow> d | Some b \<Rightarrow> show_scrollbars (probe_now p) (sb_node b) d);
         d1 = (if changed then show1 thumb (show1 (hovered_scrollbar d) d) else d)
     in (changed, d1\<lparr>hovered_scrollbar := thumb\<rparr>))"

definition set_hover_to :: "probe \<Rightarrow> document \<Rightarrow> (bool \<times> document) may_panic" where
  "set_hover_to p d = do {
     let (scrollbar_changed, d1) = note_thumb p (d\<lparr>last_client_pointer_position := Some (probe_client p)\<rparr>);
     let hit_id = map_option fst (probe_hit p);
     target \<leftarrow> (case hit_id of None \<Rightarrow> Some None | Some i \<Rightarrow> nearest_non_anonymous_ancestor d1 i);
     let is_text = (case probe_hit p of None \<Rightarrow> False | Some (_, t) \<Rightarrow> t);
     let hit_changed = (hit_id \<noteq> hover_hit_node_id d1 \<or> is_text \<noteq> hover_node_is_text d1);
     let resize_changed = (probe_resize p \<noteq> last_titlebar_resize d1);
     let d2 = d1\<lparr>hover_hit_node_id := hit_id, hover_node_is_text := is_text,
                  last_titlebar_resize := probe_resize p\<rparr>;
     if target = hover_node_id d2
     then Some (scrollbar_changed, if hit_changed \<or> resize_changed then shell SetCursor d2 else d2)
     else do {
       old \<leftarrow> maybe_node_layout_ancestors d2 (hover_node_id d2);
       new \<leftarrow> maybe_node_layout_ancestors d2 target;
       let same = common_depth old new;
       d3 \<leftarrow> each_state unhover HOVER (drop same old) d2;
       d4 \<leftarrow> each_state hover HOVER (drop same new) d3;
       Some (True, shell RequestRedraw (shell SetCursor (d4\<lparr>hover_node_id := target\<rparr>))) } }"

definition clear_hover :: "document \<Rightarrow> (bool \<times> document) may_panic" where
  "clear_hover d =
    (let d0 = d\<lparr>last_client_pointer_position := None, last_titlebar_resize := None, hover_hit_node_id := None\<rparr>
     in case hover_node_id d of
       None \<Rightarrow> Some (False, d0)
     | Some h \<Rightarrow> do {
         old \<leftarrow> maybe_node_layout_ancestors d0 (Some h);
         d1 \<leftarrow> each_state unhover HOVER old d0;
         Some (True, shell RequestRedraw (shell SetCursor
           (d1\<lparr>hover_node_id := None, hover_node_is_text := False\<rparr>))) })"

end
