(* ===== verification/Dom_Paths.thy ===== *)
theory Dom_Paths
  imports Dom_Interaction
begin

text \<open>
  What the interaction operations of \<open>Dom_Interaction\<close> do to the element states.  \<open>facet\<close> is
  the part of a node they read and write (its layout parent and its element state), and each
  state change is described on the facets alone; paths and the carriers of a state flag
  depend on nothing else.
\<close>

section \<open>Facets\<close>

type_synonym facet = "node_id option \<times> state_flag set option"

definition facet :: "node \<Rightarrow> facet" where
  "facet n = (layout_parent n, map_option el_state (element_data n))"

definition facets :: "document \<Rightarrow> node_id \<rightharpoonup> facet" where
  "facets d i = map_option facet (nodes d i)"

definition with_state :: "(state_flag set \<Rightarrow> state_flag set) \<Rightarrow> facet \<Rightarrow> facet" where
  "with_state h = apsnd (map_option h)"

text \<open>The nodes whose element carries a flag, and the elements among some nodes.\<close>
definition carriers :: "state_flag \<Rightarrow> document \<Rightarrow> node_id set" where
  "carriers f d = {i. \<exists>lp st. facets d i = Some (lp, Some st) \<and> f \<in> st}"

definition elements_among :: "document \<Rightarrow> node_id list \<Rightarrow> node_id set" where
  "elements_among d is = {i \<in> set is. \<exists>lp st. facets d i = Some (lp, Some st)}"

lemma facet_simps [simp]:
  "facet (set_dirty b n) = facet n" "facet (set_has_snapshot b n) = facet n"
  "facet (map_element f n) = (layout_parent n, map_option (el_state \<circ> f) (element_data n))"
  by (cases "data n"; simp add: facet_def set_dirty_def set_has_snapshot_def map_element_def element_data_def)+

lemma facets_update:
  "facets (update_node i f d) j = (if j = i then map_option (facet \<circ> f) (nodes d i) else facets d j)"
  by (simp add: facets_def option.map_comp)

lemma facets_update_same: "(\<And>n. facet (f n) = facet n) \<Longrightarrow> facets (update_node i f d) = facets d"
  by (auto simp: facets_def fun_eq_iff option.map_comp comp_def)

lemma facets_fields [simp]:
  "facets (d\<lparr>hover_node_id := a\<rparr>) = facets d" "facets (d\<lparr>active_node_id := a\<rparr>) = facets d"
  "facets (d\<lparr>focus_node_id := a\<rparr>) = facets d" "facets (d\<lparr>hover_node_is_text := b\<rparr>) = facets d"
  "facets (d\<lparr>hover_hit_node_id := a\<rparr>) = facets d" "facets (d\<lparr>hovered_scrollbar := r\<rparr>) = facets d"
  "facets (d\<lparr>last_client_pointer_position := p\<rparr>) = facets d" "facets (d\<lparr>last_titlebar_resize := z\<rparr>) = facets d"
  "facets (d\<lparr>snapshots := sn\<rparr>) = facets d" "facets (shell c d) = facets d"
  "facets (show_scrollbars now i d) = facets d"
  by (simp_all add: facets_def fun_eq_iff shell_def show_scrollbars_def)

text \<open>What an operation that only marks nodes preserves: the facets, and every function of the
  document that does not look at the nodes or the snapshots.\<close>
lemma mark_dirty_from_facets: "mark_dirty_from d c = Some d' \<Longrightarrow> facets d' = facets d"
proof (erule mark_dirty_from.raw_induct [rotated, where P = "\<lambda>d c d'. facets d' = facets d"])
  fix f :: "document \<Rightarrow> node_id option \<Rightarrow> document option" and d c d'
  assume IH: "\<And>d c d'. f d c = Some d' \<Longrightarrow> facets d' = facets d"
    and step: "(case c of None \<Rightarrow> Some d
      | Some p \<Rightarrow> do { n \<leftarrow> node_at d p;
          (case dirty_descendants_flag n of
             None \<Rightarrow> f d (parent n)
           | Some old \<Rightarrow> if old then Some (update_node p (set_dirty True) d)
                         else f (update_node p (set_dirty True) d) (parent n)) }) = Some d'"
  have same: "facets (update_node p (set_dirty True) d) = facets d" for p
    by (rule facets_update_same) simp
  from step show "facets d' = facets d"
    by (auto simp: same split: option.splits if_splits bind_splits dest!: IH)
qed

lemma mark_ancestors_dirty_facets: "mark_ancestors_dirty i d = Some d' \<Longrightarrow> facets d' = facets d"
  by (auto simp: mark_ancestors_dirty_def dest: mark_dirty_from_facets split: bind_splits)

lemma snapshot_facets: "snapshot_node_impl i c d = Some d' \<Longrightarrow> facets d' = facets d"
  by (auto simp: snapshot_node_impl_def Let_def facets_update_same split: bind_splits option.splits if_splits)

definition non_node :: "document \<Rightarrow> document" where
  "non_node d = d\<lparr>nodes := Map.empty, snapshots := Map.empty\<rparr>"

lemma non_node_update [simp]: "non_node (update_node i f d) = non_node d" "non_node (d\<lparr>snapshots := sn\<rparr>) = non_node d"
  by (auto simp: non_node_def update_node_def split: option.splits)

lemma mark_dirty_from_non_node: "mark_dirty_from d c = Some d' \<Longrightarrow> non_node d' = non_node d"
proof (erule mark_dirty_from.raw_induct [rotated, where P = "\<lambda>d c d'. non_node d' = non_node d"])
  fix f :: "document \<Rightarrow> node_id option \<Rightarrow> document option" and d c d'
  assume IH: "\<And>d c d'. f d c = Some d' \<Longrightarrow> non_node d' = non_node d"
    and step: "(case c of None \<Rightarrow> Some d
      | Some p \<Rightarrow> do { n \<leftarrow> node_at d p;
          (case dirty_descendants_flag n of
             None \<Rightarrow> f d (parent n)
           | Some old \<Rightarrow> if old then Some (update_node p (set_dirty True) d)
                         else f (update_node p (set_dirty True) d) (parent n)) }) = Some d'"
  from step show "non_node d' = non_node d"
    by (auto split: option.splits if_splits bind_splits dest!: IH)
qed

lemma mark_ancestors_dirty_non_node: "mark_ancestors_dirty i d = Some d' \<Longrightarrow> non_node d' = non_node d"
  by (auto simp: mark_ancestors_dirty_def dest: mark_dirty_from_non_node split: bind_splits)

lemma snapshot_non_node: "snapshot_node_impl i c d = Some d' \<Longrightarrow> non_node d' = non_node d"
  by (auto simp: snapshot_node_impl_def Let_def split: bind_splits option.splits if_splits)

lemma snapshot_total:
  assumes "nodes d i \<noteq> None" shows "\<exists>d'. snapshot_node_impl i c d = Some d' \<and> keeps d d'"
proof -
  from assms obtain n where n: "nodes d i = Some n" by auto
  have "try_stylo n \<noteq> None \<Longrightarrow> \<exists>st. element_state n = Some st"
    by (cases "data n") (auto simp: element_state_def try_stylo_def)
  moreover have "keeps d (update_node i (set_has_snapshot True) d)" by (rule keeps_update) simp
  ultimately show ?thesis
    by (auto simp: snapshot_node_impl_def node_at_simp n Let_def split: option.splits)
qed

section \<open>Paths\<close>

definition layout_parents :: "document \<Rightarrow> node_id \<rightharpoonup> node_id option" where
  "layout_parents d i = map_option fst (facets d i)"

lemma layout_parents_node: "layout_parents d i = map_option layout_parent (nodes d i)"
  by (simp add: layout_parents_def facets_def facet_def option.map_comp comp_def)

lemma layout_up_Nil: "layout_ancestors_up d c = Some [] \<longleftrightarrow> c = None"
  by (simp add: layout_ancestors_up.simps [of d c] split: option.split bind_split)

lemma layout_up_Cons:
  "layout_ancestors_up d c = Some (i # r) \<longleftrightarrow>
     c = Some i \<and> (\<exists>n. nodes d i = Some n \<and> layout_ancestors_up d (layout_parent n) = Some r)"
  by (auto simp: layout_ancestors_up.simps [of d c] node_at_simp split: option.split bind_split)

lemma layout_ancestors_up_mono:
  assumes "layout_parents d' = layout_parents d"
  shows "layout_ancestors_up d c = Some r \<Longrightarrow> layout_ancestors_up d' c = Some r"
proof (induction r arbitrary: c)
  case Nil
  then show ?case by (simp add: layout_up_Nil)
next
  case (Cons i r)
  then obtain n where n: "c = Some i" "nodes d i = Some n" "layout_ancestors_up d (layout_parent n) = Some r"
    by (auto simp: layout_up_Cons)
  obtain n' where n': "nodes d' i = Some n'" "layout_parent n' = layout_parent n"
    using fun_cong [OF assms, of i] n(2) by (auto simp: layout_parents_node)
  show ?case using Cons.IH [OF n(3)] n' n(1) by (simp add: layout_up_Cons)
qed

lemma maybe_path_cong:
  assumes "layout_parents d' = layout_parents d"
  shows "maybe_node_layout_ancestors d' c = maybe_node_layout_ancestors d c"
proof -
  have "layout_ancestors_up d' x = layout_ancestors_up d x" for x
    using layout_ancestors_up_mono [OF assms] layout_ancestors_up_mono [OF assms [symmetric]]
    by (metis option.exhaust)
  then show ?thesis by (simp add: maybe_node_layout_ancestors_def node_layout_ancestors_def split: option.split)
qed

lemma layout_ancestors_up_live:
  "layout_ancestors_up d c = Some r \<Longrightarrow> j \<in> set r \<Longrightarrow> nodes d j \<noteq> None"
proof (induction r arbitrary: c)
  case (Cons i r)
  from Cons.prems(1) obtain n where n: "c = Some i" "nodes d i = Some n" "layout_ancestors_up d (layout_parent n) = Some r"
    by (auto simp: layout_up_Cons)
  then show ?case using Cons.IH [OF n(3)] Cons.prems(2) by auto
qed simp

text \<open>A path from a node is the tail of every path through it, so no path meets a node twice.\<close>
lemma layout_ancestors_up_suffix:
  "layout_ancestors_up d c = Some r \<Longrightarrow> j \<in> set r \<Longrightarrow> \<exists>us vs. r = us @ vs \<and> layout_ancestors_up d (Some j) = Some vs"
proof (induction r arbitrary: c)
  case (Cons i r)
  from Cons.prems(1) obtain n where n: "c = Some i" "nodes d i = Some n" "layout_ancestors_up d (layout_parent n) = Some r"
    by (auto simp: layout_up_Cons)
  show ?case
  proof (cases "j = i")
    case True
    then show ?thesis using Cons.prems(1) n(1) by (intro exI [of _ "[]"] exI [of _ "i # r"]) simp
  next
    case False
    then obtain us vs where "r = us @ vs" "layout_ancestors_up d (Some j) = Some vs"
      using Cons.IH [OF n(3)] Cons.prems(2) by auto
    then show ?thesis by (intro exI [of _ "i # us"] exI [of _ vs]) simp
  qed
qed simp

lemma layout_ancestors_up_distinct: "layout_ancestors_up d c = Some r \<Longrightarrow> distinct r"
proof (induction r arbitrary: c)
  case (Cons i r)
  from Cons.prems obtain n :: node where n: "c = Some i" "layout_ancestors_up d (layout_parent n) = Some r"
    unfolding layout_up_Cons by blast
  have "i \<notin> set r"
  proof
    assume "i \<in> set r"
    then obtain us where "r = us @ i # r"
      using layout_ancestors_up_suffix [OF n(2), of i] Cons.prems n(1) by auto
    then have "length r = length us + Suc (length r)" by (metis length_append length_Cons add_Suc_right)
    then show False by simp
  qed
  with Cons.IH [OF n(2)] show ?case by simp
qed simp

lemma path_live: "maybe_node_layout_ancestors d c = Some r \<Longrightarrow> j \<in> set r \<Longrightarrow> nodes d j \<noteq> None"
  and path_distinct: "maybe_node_layout_ancestors d c = Some r \<Longrightarrow> distinct r"
  by (auto simp: maybe_node_layout_ancestors_def node_layout_ancestors_def
      dest: layout_ancestors_up_live layout_ancestors_up_distinct split: option.splits)

section \<open>State changes\<close>

lemma facet_state: "(\<And>e. el_state (g e) = h (el_state e)) \<Longrightarrow> facet (map_element g n) = with_state h (facet n)"
  by (simp add: with_state_def option.map_comp comp_def) (simp add: facet_def option.map_comp comp_def)

lemma snapshot_node_and_update:
  assumes ok: "parents_ok d" and live: "nodes d i \<noteq> None"
    and st: "\<And>e. el_state (g e) = h (el_state e)"
  shows "\<exists>d0 d'. snapshot_node_and i S (\<lambda>d. mark_ancestors_dirty i (update_node i (map_element g) d)) d = Some d'
    \<and> keeps d d0 \<and> keeps (update_node i (map_element g) d0) d' \<and> non_node d' = non_node d
    \<and> facets d' = (facets d)(i := map_option (with_state h) (facets d i))"
proof -
  obtain d0 where d0: "(if S \<inter> state_dependencies d \<noteq> {} then snapshot_node_impl i False d else Some d) = Some d0"
      "keeps d d0"
    using snapshot_total [OF live, of False] keeps_refl [of d]
    by (cases "S \<inter> state_dependencies d \<noteq> {}") auto
  have f0: "facets d0 = facets d" "non_node d0 = non_node d"
    using d0(1) by (auto split: if_splits dest: snapshot_facets snapshot_non_node)
  have live0: "nodes d0 i \<noteq> None" using keeps_dom [OF d0(2)] live by simp
  define d1 where "d1 = update_node i (map_element g) d0"
  have "same_links d d1" unfolding d1_def
    by (rule same_links_trans [OF keeps_same_links [OF d0(2)]]) (rule same_links_update, simp)
  then have ok1: "parents_ok d1" by (rule same_links_parents_ok [OF _ ok])
  have live1: "nodes d1 i \<noteq> None" using live0 by (simp add: d1_def)
  obtain d' where d': "mark_ancestors_dirty i d1 = Some d'" "keeps d1 d'"
    using mark_ancestors_dirty_keeps [OF ok1 live1 keeps_refl] by blast
  have "facets d' = facets d1" using d'(1) by (rule mark_ancestors_dirty_facets)
  also have "\<dots> = (facets d)(i := map_option (with_state h) (facets d i))"
    by (auto simp: fun_eq_iff d1_def facets_update f0(1) [symmetric] facet_state [of g h, OF st]
        facets_def option.map_comp comp_def simp del: facet_simps)
  finally have "facets d' = (facets d)(i := map_option (with_state h) (facets d i))" .
  moreover have "non_node d' = non_node d"
    using mark_ancestors_dirty_non_node [OF d'(1)] f0(2) by (simp add: d1_def)
  moreover have "snapshot_node_and i S (\<lambda>d. mark_ancestors_dirty i (update_node i (map_element g) d)) d = Some d'"
    using d0(1) live0 d'(1) by (auto simp: snapshot_node_and_def node_at_simp d1_def split: if_splits)
  ultimately show ?thesis using d0(2) d'(2) d1_def by blast
qed

lemma state_change_step:
  assumes ok: "parents_ok d" and live: "nodes d i \<noteq> None"
  shows "\<exists>d'. snapshot_node_and i S (\<lambda>d. mark_ancestors_dirty i
        (update_node i (map_element (\<lambda>e. e\<lparr>el_state := h (el_state e)\<rparr>)) d)) d = Some d'
      \<and> keeps d d' \<and> non_node d' = non_node d \<and> facets d' = (facets d)(i := map_option (with_state h) (facets d i))"
proof -
  let ?g = "\<lambda>e :: element_data. e\<lparr>el_state := h (el_state e)\<rparr>"
  have k: "keeps d0 (update_node i (map_element ?g) d0)" for d0
    by (rule keeps_update) (simp add: shape_map_element)
  have "keeps d d'" if "keeps d d0" "keeps (update_node i (map_element ?g) d0) d'" for d0 d'
    using keeps_trans [OF keeps_trans [OF that(1) k] that(2)] .
  then show ?thesis using snapshot_node_and_update [OF assms, of ?g h S] by auto
qed

lemma with_state_idem: "(\<And>s. h (h s) = h s) \<Longrightarrow> with_state h (with_state h x) = with_state h x"
  by (cases x) (simp add: with_state_def option.map_comp comp_def)

text \<open>The contract of a state change: it returns on every live node, keeps the tree and all that
  is not in a node, and changes one state by \<open>h\<close>.\<close>
locale state_change =
  fixes f :: "node_id \<Rightarrow> document \<Rightarrow> document may_panic" and st :: state_flag
    and h :: "state_flag set \<Rightarrow> state_flag set"
  assumes changes: "parents_ok d \<Longrightarrow> nodes d i \<noteq> None \<Longrightarrow>
      \<exists>d'. snapshot_node_and i {st} (f i) d = Some d' \<and> keeps d d' \<and> non_node d' = non_node d
        \<and> facets d' = (facets d)(i := map_option (with_state h) (facets d i))"
    and idem: "h (h s) = h s"
begin

lemma along:
  "parents_ok d \<Longrightarrow> \<forall>i\<in>set is. nodes d i \<noteq> None \<Longrightarrow>
   \<exists>d'. each_state f st is d = Some d' \<and> keeps d d' \<and> non_node d' = non_node d
     \<and> (\<forall>j. facets d' j = (if j \<in> set is then map_option (with_state h) (facets d j) else facets d j))"
proof (induction "is" arbitrary: d)
  case (Cons i "is")
  obtain d1 where d1: "snapshot_node_and i {st} (f i) d = Some d1" "keeps d d1" "non_node d1 = non_node d"
      "facets d1 = (facets d)(i := map_option (with_state h) (facets d i))"
    using changes [OF Cons.prems(1)] Cons.prems(2) by auto
  have live1: "\<forall>i\<in>set is. nodes d1 i \<noteq> None" using Cons.prems(2) keeps_dom [OF d1(2)] by auto
  obtain d' where d': "each_state f st is d1 = Some d'" "keeps d1 d'" "non_node d' = non_node d1"
      "\<forall>j. facets d' j = (if j \<in> set is then map_option (with_state h) (facets d1 j) else facets d1 j)"
    using Cons.IH [OF keeps_parents_ok [OF d1(2) Cons.prems(1)] live1] by blast
  have "facets d' j = (if j \<in> set (i # is) then map_option (with_state h) (facets d j) else facets d j)" for j
    by (simp add: d'(4) d1(4) option.map_comp comp_def with_state_idem [of h, OF idem])
  then show ?case using d1 d' keeps_trans by auto
qed simp

end

interpretation hovering: state_change hover HOVER "insert HOVER"
  by unfold_locales (simp_all add: hover_def [abs_def] state_change_step)

interpretation unhovering: state_change unhover HOVER "\<lambda>s. s - {HOVER}"
  by unfold_locales (use state_change_step [where h = "\<lambda>s. s - {HOVER}"] in \<open>simp_all add: unhover_def [abs_def]\<close>)

interpretation activating: state_change active ACTIVE "insert ACTIVE"
  by unfold_locales (simp_all add: active_def [abs_def] state_change_step)

interpretation deactivating: state_change unactive ACTIVE "\<lambda>s. s - {ACTIVE}"
  by unfold_locales (use state_change_step [where h = "\<lambda>s. s - {ACTIVE}"] in \<open>simp_all add: unactive_def [abs_def]\<close>)

text \<open>The effect of a change along a path on paths, elements and carriers.\<close>
definition changed_along :: "(state_flag set \<Rightarrow> state_flag set) \<Rightarrow> node_id list \<Rightarrow> document \<Rightarrow> document \<Rightarrow> bool" where
  "changed_along h is d d' \<longleftrightarrow>
     (\<forall>j. facets d' j = (if j \<in> set is then map_option (with_state h) (facets d j) else facets d j))"

lemma changed_layout_parents: "changed_along h is d d' \<Longrightarrow> layout_parents d' = layout_parents d"
  by (auto simp: changed_along_def layout_parents_def fun_eq_iff with_state_def option.map_comp comp_def)

lemma changed_state:
  "changed_along h is d d' \<Longrightarrow> (\<exists>lp st. facets d' j = Some (lp, Some st) \<and> P st)
     \<longleftrightarrow> (\<exists>lp st. facets d j = Some (lp, Some st) \<and> P (if j \<in> set is then h st else st))"
  by (cases "facets d j") (auto simp: changed_along_def with_state_def)

lemma changed_elements: "changed_along h is d d' \<Longrightarrow> elements_among d' js = elements_among d js"
  unfolding elements_among_def using changed_state [of h "is" d d' _ "\<lambda>_. True"] by simp

lemma carriers_insert: "changed_along (insert f) is d d' \<Longrightarrow> carriers f d' = carriers f d \<union> elements_among d is"
  unfolding carriers_def elements_among_def
  using changed_state [of "insert f" "is" d d' _ "\<lambda>st. f \<in> st"] by (auto split: if_splits)

lemma carriers_remove: "changed_along (\<lambda>s. s - {f}) is d d' \<Longrightarrow> carriers f d' = carriers f d - set is"
  unfolding carriers_def elements_among_def
  using changed_state [of "\<lambda>s. s - {f}" "is" d d' _ "\<lambda>st. f \<in> st"] by (auto split: if_splits)

lemma carriers_other:
  "changed_along h is d d' \<Longrightarrow> (\<And>s. g \<in> h s \<longleftrightarrow> g \<in> s) \<Longrightarrow> carriers g d' = carriers g d"
  unfolding carriers_def using changed_state [of h "is" d d' _ "\<lambda>st. g \<in> st"] by (auto split: if_splits)

lemmas hover_along = hovering.along [folded changed_along_def]
lemmas unhover_along = unhovering.along [folded changed_along_def]
lemmas active_along = activating.along [folded changed_along_def]
lemmas unactive_along = deactivating.along [folded changed_along_def]

section \<open>The invariant\<close>

text \<open>Layout parents lead from every node to the top.\<close>
definition layout_ok :: "document \<Rightarrow> bool" where
  "layout_ok d \<longleftrightarrow> wf_doc d \<and> (\<forall>i. nodes d i \<noteq> None \<longrightarrow> node_layout_ancestors d i \<noteq> None)"

text \<open>The elements that carry a flag are those on the layout path of a node.\<close>
definition lit :: "state_flag \<Rightarrow> node_id option \<Rightarrow> document \<Rightarrow> bool" where
  "lit f i d = (case maybe_node_layout_ancestors d i of
      None \<Rightarrow> False
    | Some path \<Rightarrow> carriers f d = elements_among d path)"

definition interaction_ok :: "document \<Rightarrow> bool" where
  "interaction_ok d \<longleftrightarrow> layout_ok d \<and> lit HOVER (hover_node_id d) d \<and> lit ACTIVE (active_node_id d) d"

datatype pointer_op = MoveTo probe | LeaveDocument | Press | Release

fun pointer_step :: "pointer_op \<Rightarrow> document \<Rightarrow> (bool \<times> document) may_panic" where
  "pointer_step (MoveTo p) d = set_hover_to p d"
| "pointer_step LeaveDocument d = clear_hover d"
| "pointer_step Press d = active_node d"
| "pointer_step Release d = unactive_node d"

fun pointer_run :: "pointer_op list \<Rightarrow> document \<Rightarrow> document may_panic" where
  "pointer_run [] d = Some d"
| "pointer_run (x # xs) d = do { (_, d1) \<leftarrow> pointer_step x d; pointer_run xs d1 }"

text \<open>Nothing that a path or its elements depend on has changed.\<close>
definition same_frame :: "document \<Rightarrow> document \<Rightarrow> bool" where
  "same_frame d d' \<longleftrightarrow> keeps d d' \<and> layout_parents d' = layout_parents d
     \<and> (\<forall>is. elements_among d' is = elements_among d is)"

lemma same_frame_trans [trans]: "same_frame d d' \<Longrightarrow> same_frame d' d'' \<Longrightarrow> same_frame d d''"
  using keeps_trans by (auto simp: same_frame_def)

lemma changed_same_frame: "keeps d d' \<Longrightarrow> changed_along h is d d' \<Longrightarrow> same_frame d d'"
  by (simp add: same_frame_def changed_layout_parents changed_elements)

lemma facets_same_frame: "keeps d d' \<Longrightarrow> facets d' = facets d \<Longrightarrow> same_frame d d'"
  by (simp add: same_frame_def layout_parents_def elements_among_def fun_eq_iff)

lemma same_frame_path: "same_frame d d' \<Longrightarrow> maybe_node_layout_ancestors d' i = maybe_node_layout_ancestors d i"
  unfolding same_frame_def by (intro maybe_path_cong) blast

lemma same_frame_lit: "same_frame d d' \<Longrightarrow> carriers f d' = carriers f d \<Longrightarrow> lit f i d' = lit f i d"
  by (simp add: lit_def same_frame_path split: option.split) (simp add: same_frame_def)

lemma same_frame_layout_ok:
  assumes "same_frame d d'" "layout_ok d" shows "layout_ok d'"
proof -
  have "node_layout_ancestors d' i = node_layout_ancestors d i" for i
    using same_frame_path [OF assms(1), of "Some i"] by (simp add: maybe_node_layout_ancestors_def)
  then show ?thesis
    using assms keeps_wf_doc [of d d'] keeps_dom [of d d'] by (simp add: same_frame_def layout_ok_def)
qed

lemma non_node_fields:
  assumes "non_node d' = non_node d"
  shows "hover_node_id d' = hover_node_id d" "active_node_id d' = active_node_id d"
    "focus_node_id d' = focus_node_id d" "hovered_scrollbar d' = hovered_scrollbar d"
    "doc_effects d' = doc_effects d" "controls_to_form d' = controls_to_form d" "nodes_to_id d' = nodes_to_id d"
    "click_count d' = click_count d" "doc_id d' = doc_id d" "root_node_id d' = root_node_id d"
  using arg_cong [OF assms, of hover_node_id] arg_cong [OF assms, of active_node_id]
    arg_cong [OF assms, of focus_node_id] arg_cong [OF assms, of hovered_scrollbar]
    arg_cong [OF assms, of doc_effects] arg_cong [OF assms, of controls_to_form]
    arg_cong [OF assms, of nodes_to_id] arg_cong [OF assms, of click_count]
    arg_cong [OF assms, of doc_id] arg_cong [OF assms, of root_node_id]
  by (simp_all add: non_node_def)

lemma common_depth_take: "take (common_depth xs ys) xs = take (common_depth xs ys) ys"
  by (induction xs ys rule: common_depth.induct) auto

lemma layout_path:
  assumes "layout_ok d" "\<And>j. i = Some j \<Longrightarrow> nodes d j \<noteq> None"
  obtains path where "maybe_node_layout_ancestors d i = Some path" "\<forall>j\<in>set path. nodes d j \<noteq> None"
    "distinct path"
proof -
  have "maybe_node_layout_ancestors d i \<noteq> None"
    using assms by (auto simp: layout_ok_def maybe_node_layout_ancestors_def split: option.split)
  then show ?thesis using that path_live path_distinct by blast
qed

text \<open>Leaving an old path for a new one.\<close>
lemma repath:
  assumes ok: "layout_ok d" and old: "maybe_node_layout_ancestors d a = Some old" "carriers HOVER d = elements_among d old"
    and new: "maybe_node_layout_ancestors d b = Some new" and k: "k = common_depth old new"
  shows "\<exists>d1 d2. each_state unhover HOVER (drop k old) d = Some d1 \<and> each_state hover HOVER (drop k new) d1 = Some d2
    \<and> same_frame d d2 \<and> non_node d2 = non_node d \<and> carriers HOVER d2 = elements_among d new
    \<and> carriers ACTIVE d2 = carriers ACTIVE d"
proof -
  have p: "parents_ok d" using ok by (simp add: layout_ok_def wf_doc_parents_ok)
  have "\<forall>i\<in>set (drop k old). nodes d i \<noteq> None" using path_live [OF old(1)] by (auto dest: in_set_dropD)
  from unhover_along [OF p this] obtain d1 where d1: "each_state unhover HOVER (drop k old) d = Some d1"
    "keeps d d1" "non_node d1 = non_node d" "changed_along (\<lambda>s. s - {HOVER}) (drop k old) d d1" by blast
  have f1: "same_frame d d1" by (rule changed_same_frame [OF d1(2,4)])
  have "\<forall>i\<in>set (drop k new). nodes d1 i \<noteq> None"
    using path_live [OF new] keeps_dom [OF d1(2)] by (auto dest: in_set_dropD)
  from hover_along [OF keeps_parents_ok [OF d1(2) p] this] obtain d2 where
    d2: "each_state hover HOVER (drop k new) d1 = Some d2" "keeps d1 d2" "non_node d2 = non_node d1"
      "changed_along (insert HOVER) (drop k new) d1 d2" by blast
  have f2: "same_frame d1 d2" by (rule changed_same_frame [OF d2(2,4)])
  have "set old - set (drop k old) = set (take k old)"
    using path_distinct [OF old(1)] set_take_disj_set_drop_if_distinct [of old k k]
    by (metis Diff_cancel Un_Diff Un_Diff_Int append_take_drop_id inf_commute set_append sup_bot.right_neutral le_refl Diff_triv)
  then have "set old - set (drop k old) \<union> set (drop k new) = set new"
    using common_depth_take [of old new] k by (metis append_take_drop_id set_append)
  then have "(elements_among d old - set (drop k old)) \<union> elements_among d (drop k new) = elements_among d new"
    by (auto simp: elements_among_def)
  then have "carriers HOVER d2 = elements_among d new"
    using carriers_insert [OF d2(4)] carriers_remove [OF d1(4)] old(2) f1 by (simp add: same_frame_def)
  moreover have "carriers ACTIVE d2 = carriers ACTIVE d"
    using carriers_other [OF d1(4), of ACTIVE] carriers_other [OF d2(4), of ACTIVE] by simp
  ultimately show ?thesis using d1 d2 same_frame_trans [OF f1 f2] by (metis (no_types))
qed

lemma nna_loop_total:
  assumes wf: "wf_doc d"
  shows "nodes d i = Some n \<Longrightarrow> \<exists>r. nna_loop d n = Some r \<and> (\<forall>j. r = Some j \<longrightarrow> nodes d j \<noteq> None)"
proof (induction i arbitrary: n rule: wf_induct_rule [OF wf_doc_wf_converse [OF wf]])
  case (1 i)
  have id: "nid n = i" using wf_doc_node [OF wf 1(2)] by (simp add: wf_node_def)
  show ?case
  proof (cases "parent n")
    case None
    then show ?thesis using id 1(2) by (simp add: nna_loop.simps [of d n])
  next
    case (Some p)
    show ?thesis
    proof (cases "nodes d p")
      case None
      then show ?thesis using Some by (simp add: nna_loop.simps [of d n] get_node_simp)
    next
      case (Some pn)
      have "(p, i) \<in> (parent_edges d)\<inverse>" using \<open>parent n = Some p\<close> 1(2) by (simp add: parent_edges_def)
      from 1(1) [OF this Some] show ?thesis
        using Some \<open>parent n = Some p\<close> id 1(2) by (simp add: nna_loop.simps [of d n] get_node_simp)
    qed
  qed
qed

lemma nearest_non_anonymous_total:
  assumes "wf_doc d"
  obtains r where "nearest_non_anonymous_ancestor d i = Some r" "\<And>j. r = Some j \<Longrightarrow> nodes d j \<noteq> None"
  using nna_loop_total [OF assms, of i]
  by (cases "nodes d i") (auto simp: nearest_non_anonymous_ancestor_def get_node_simp)

section \<open>The steps keep the invariant\<close>

text \<open>A change outside the node store and the two interaction targets.\<close>
definition same_core :: "document \<Rightarrow> document \<Rightarrow> bool" where
  "same_core d d' \<longleftrightarrow> nodes d' = nodes d \<and> root_node_id d' = root_node_id d \<and> allocated d' = allocated d
     \<and> hover_node_id d' = hover_node_id d \<and> active_node_id d' = active_node_id d"

lemma same_core_frame: "same_core d d' \<Longrightarrow> same_frame d d' \<and> facets d' = facets d"
  by (auto simp: same_core_def facets_def fun_eq_iff intro!: facets_same_frame keepsI)

lemma same_facets_carriers: "facets d' = facets d \<Longrightarrow> carriers f d' = carriers f d"
  by (simp add: carriers_def)

lemma interaction_okI:
  assumes "layout_ok d" "same_frame d d'"
    and "maybe_node_layout_ancestors d (hover_node_id d') = Some hs" "carriers HOVER d' = elements_among d hs"
    and "maybe_node_layout_ancestors d (active_node_id d') = Some as" "carriers ACTIVE d' = elements_among d as"
  shows "interaction_ok d'"
proof -
  have "elements_among d' js = elements_among d js" for js using assms(2) by (simp add: same_frame_def)
  then show ?thesis
    using same_frame_layout_ok [OF assms(2,1)] same_frame_path [OF assms(2)] assms(3-6)
    by (simp add: interaction_ok_def lit_def)
qed

lemma interaction_okE:
  assumes "interaction_ok d"
  obtains hs as where "layout_ok d" "wf_doc d" "parents_ok d"
    "maybe_node_layout_ancestors d (hover_node_id d) = Some hs" "carriers HOVER d = elements_among d hs"
    "maybe_node_layout_ancestors d (active_node_id d) = Some as" "carriers ACTIVE d = elements_among d as"
  using assms by (auto simp: interaction_ok_def lit_def layout_ok_def wf_doc_parents_ok split: option.splits)

lemma same_core_ok: "same_core d d' \<Longrightarrow> interaction_ok d \<Longrightarrow> interaction_ok d' \<and> keeps d d'"
proof (erule interaction_okE)
  fix hs as
  assume c: "same_core d d'" and a: "layout_ok d"
    "maybe_node_layout_ancestors d (hover_node_id d) = Some hs" "carriers HOVER d = elements_among d hs"
    "maybe_node_layout_ancestors d (active_node_id d) = Some as" "carriers ACTIVE d = elements_among d as"
  have f: "same_frame d d'" "facets d' = facets d" using same_core_frame [OF c] by auto
  have "interaction_ok d'"
    using c a(2-5) by (intro interaction_okI [OF a(1) f(1), of hs as])
      (simp_all add: same_core_def same_facets_carriers [OF f(2)])
  then show "interaction_ok d' \<and> keeps d d'" using f(1) by (simp add: same_frame_def)
qed

lemma note_thumb_core: "same_core d (snd (note_thumb p d))"
  by (simp add: note_thumb_def Let_def same_core_def show_scrollbars_def split: option.split)

lemma set_hover_to_step:
  assumes "interaction_ok d"
  shows "\<exists>b d'. set_hover_to p d = Some (b, d') \<and> interaction_ok d' \<and> keeps d d'"
proof -
  define d0 where "d0 = d\<lparr>last_client_pointer_position := Some (probe_client p)\<rparr>"
  obtain c d1 where d1: "note_thumb p d0 = (c, d1)" by (cases "note_thumb p d0")
  define hit_id where "hit_id = map_option fst (probe_hit p)"
  define is_text where "is_text = (case probe_hit p of None \<Rightarrow> False | Some (_, t) \<Rightarrow> t)"
  define d2 where "d2 = d1\<lparr>hover_hit_node_id := hit_id, hover_node_is_text := is_text,
      last_titlebar_resize := probe_resize p\<rparr>"
  have c1: "same_core d d1" using note_thumb_core [of d0 p] d1 by (simp add: same_core_def d0_def)
  have c2: "same_core d d2" using c1 by (simp add: same_core_def d2_def)
  have c3: "same_core d (shell SetCursor d2)" using c2 by (simp add: same_core_def shell_def)
  from same_core_ok [OF c1 assms] have wf1: "wf_doc d1" by (simp add: interaction_ok_def layout_ok_def)
  obtain target where target: "(case hit_id of None \<Rightarrow> Some None | Some i \<Rightarrow> nearest_non_anonymous_ancestor d1 i)
      = Some target" "\<And>j. target = Some j \<Longrightarrow> nodes d1 j \<noteq> None"
  proof (cases hit_id)
    case (Some i)
    then show ?thesis using that by (auto intro: nearest_non_anonymous_total [OF wf1, of i])
  qed (use that in auto)
  have h2: "hover_node_id d2 = hover_node_id d1" by (simp add: d2_def)
  show ?thesis
  proof (cases "target = hover_node_id d1")
    case True
    then have "\<exists>b. set_hover_to p d = Some (b, d2) \<or> set_hover_to p d = Some (b, shell SetCursor d2)"
      using d1 target(1)
      by (auto simp: set_hover_to_def d0_def [symmetric] hit_id_def [symmetric] is_text_def [symmetric]
          d2_def [symmetric])
    then show ?thesis using same_core_ok [OF c2 assms] same_core_ok [OF c3 assms] by auto
  next
    case False
    obtain old as where o: "layout_ok d2" "maybe_node_layout_ancestors d2 (hover_node_id d2) = Some old"
      "carriers HOVER d2 = elements_among d2 old"
      "maybe_node_layout_ancestors d2 (active_node_id d2) = Some as" "carriers ACTIVE d2 = elements_among d2 as"
      using same_core_ok [OF c2 assms] by (elim conjE interaction_okE)
    note o2 = o(2) [unfolded h2]
    have "target = Some j \<Longrightarrow> nodes d2 j \<noteq> None" for j using target(2) by (simp add: d2_def)
    from layout_path [OF o(1) this] obtain new where new: "maybe_node_layout_ancestors d2 target = Some new" by metis
    from repath [OF o(1-3) new refl] obtain d3 d4 where
      d4: "each_state unhover HOVER (drop (common_depth old new) old) d2 = Some d3"
        "each_state hover HOVER (drop (common_depth old new) new) d3 = Some d4"
        "same_frame d2 d4" "non_node d4 = non_node d2" "carriers HOVER d4 = elements_among d2 new"
        "carriers ACTIVE d4 = carriers ACTIVE d2" by blast
    define d5 where "d5 = shell RequestRedraw (shell SetCursor (d4\<lparr>hover_node_id := target\<rparr>))"
    have f5: "same_frame d4 d5"
      by (rule facets_same_frame) (simp_all add: d5_def)
    have "facets d5 = facets d4" by (simp add: d5_def)
    then have car: "carriers f d5 = carriers f d4" for f by (rule same_facets_carriers)
    have "hover_node_id d5 = target" "active_node_id d5 = active_node_id d2"
      using non_node_fields(2) [OF d4(4)] by (simp_all add: d5_def shell_def)
    then have "interaction_ok d5"
      using new o(4,5) d4(5,6)
      by (intro interaction_okI [OF o(1) same_frame_trans [OF d4(3) f5], of new as]) (simp_all add: car)
    moreover have "set_hover_to p d = Some (True, d5)"
      using d1 target(1) False o2 new d4(1,2)
      by (simp add: set_hover_to_def d0_def [symmetric] hit_id_def [symmetric] is_text_def [symmetric]
          d2_def [symmetric] d5_def h2)
    moreover have "keeps d d5"
      using same_core_ok [OF c2 assms] d4(3) f5 keeps_trans by (metis same_frame_def)
    ultimately show ?thesis by blast
  qed
qed

lemma clear_hover_step:
  assumes "interaction_ok d"
  shows "\<exists>b d'. clear_hover d = Some (b, d') \<and> interaction_ok d' \<and> keeps d d'"
proof -
  define d0 where "d0 = d\<lparr>last_client_pointer_position := None, last_titlebar_resize := None, hover_hit_node_id := None\<rparr>"
  have c0: "same_core d d0" by (simp add: same_core_def d0_def)
  note ok0 = same_core_ok [OF c0 assms]
  show ?thesis
  proof (cases "hover_node_id d")
    case None
    then show ?thesis using ok0 by (auto simp: clear_hover_def d0_def [symmetric])
  next
    case (Some h)
    obtain old as where o: "layout_ok d0" "parents_ok d0" "maybe_node_layout_ancestors d0 (Some h) = Some old"
      "carriers HOVER d0 = elements_among d0 old"
      "maybe_node_layout_ancestors d0 (active_node_id d0) = Some as" "carriers ACTIVE d0 = elements_among d0 as"
      using ok0 Some c0 by (auto simp: same_core_def elim: interaction_okE)
    have "\<forall>i\<in>set old. nodes d0 i \<noteq> None" using path_live [OF o(3)] by blast
    from unhover_along [OF o(2) this] obtain d1 where d1: "each_state unhover HOVER old d0 = Some d1"
      "keeps d0 d1" "non_node d1 = non_node d0" "changed_along (\<lambda>s. s - {HOVER}) old d0 d1" by blast
    define d2 where "d2 = shell RequestRedraw (shell SetCursor (d1\<lparr>hover_node_id := None, hover_node_is_text := False\<rparr>))"
    have f2: "same_frame d1 d2" by (rule facets_same_frame) (simp_all add: d2_def)
    have "facets d2 = facets d1" by (simp add: d2_def)
    then have car: "carriers f d2 = carriers f d1" for f by (rule same_facets_carriers)
    have "carriers HOVER d1 = {}"
      using carriers_remove [OF d1(4)] o(4) by (auto simp: elements_among_def)
    moreover have "carriers ACTIVE d1 = elements_among d0 as"
      using carriers_other [OF d1(4), of ACTIVE] o(6) by simp
    moreover have "hover_node_id d2 = None" "active_node_id d2 = active_node_id d0"
      using non_node_fields(2) [OF d1(3)] by (simp_all add: d2_def shell_def)
    ultimately have "interaction_ok d2"
      using o(5) by (intro interaction_okI [OF o(1) same_frame_trans [OF changed_same_frame [OF d1(2,4)] f2], of "[]" as])
        (simp_all add: car maybe_node_layout_ancestors_def elements_among_def)
    moreover have "clear_hover d = Some (True, d2)"
      using o(3) d1(1) by (simp add: clear_hover_def d0_def [symmetric] Some d2_def)
    moreover have "keeps d d2" using ok0 d1(2) f2 keeps_trans by (metis same_frame_def)
    ultimately show ?thesis by blast
  qed
qed

lemma unactive_node_step:
  assumes "interaction_ok d"
  shows "\<exists>b d'. unactive_node d = Some (b, d') \<and> interaction_ok d' \<and> keeps d d'
    \<and> hover_node_id d' = hover_node_id d \<and> active_node_id d' = None"
proof (cases "active_node_id d")
  case None
  then show ?thesis using assms by (auto simp: unactive_node_def)
next
  case (Some a)
  define d0 where "d0 = d\<lparr>active_node_id := None\<rparr>"
  have f0: "same_frame d d0" "facets d0 = facets d"
    by (simp_all add: d0_def facets_same_frame)
  obtain hs as where o: "layout_ok d" "parents_ok d" "maybe_node_layout_ancestors d (hover_node_id d) = Some hs"
    "carriers HOVER d = elements_among d hs"
    "maybe_node_layout_ancestors d (Some a) = Some as" "carriers ACTIVE d = elements_among d as"
    using assms Some by (auto elim: interaction_okE)
  note k0 = same_frame_layout_ok [OF f0(1) o(1)]
  have path: "maybe_node_layout_ancestors d0 (Some a) = Some as" by (simp add: same_frame_path [OF f0(1)] o(5))
  have "\<forall>i\<in>set as. nodes d0 i \<noteq> None" using path_live [OF path] by blast
  moreover have p0: "parents_ok d0" using k0 by (simp add: layout_ok_def wf_doc_parents_ok)
  ultimately obtain d1 where d1: "each_state unactive ACTIVE as d0 = Some d1"
    "keeps d0 d1" "non_node d1 = non_node d0" "changed_along (\<lambda>s. s - {ACTIVE}) as d0 d1"
    using unactive_along [of d0 as] by blast
  have car0: "carriers f d0 = carriers f d" for f by (rule same_facets_carriers [OF f0(2)])
  have "elements_among d0 is = elements_among d is" for "is" using f0(1) by (simp add: same_frame_def)
  then have "carriers ACTIVE d1 = {}"
    using carriers_remove [OF d1(4)] o(6) car0 by (auto simp: elements_among_def)
  moreover have "carriers HOVER d1 = elements_among d hs"
    using carriers_other [OF d1(4), of HOVER] o(4) car0 by simp
  moreover have h: "hover_node_id d1 = hover_node_id d" "active_node_id d1 = None"
    using non_node_fields(1,2) [OF d1(3)] by (simp_all add: d0_def)
  moreover have f1: "same_frame d d1" by (rule same_frame_trans [OF f0(1) changed_same_frame [OF d1(2,4)]])
  ultimately have "interaction_ok d1"
    using o(3) by (intro interaction_okI [OF o(1) f1, of hs "[]"])
      (simp_all add: maybe_node_layout_ancestors_def elements_among_def)
  moreover have "unactive_node d = Some (True, d1)"
    using path d1(1) by (simp add: unactive_node_def Some d0_def [symmetric])
  moreover have "keeps d d1" using f1 by (simp add: same_frame_def)
  ultimately show ?thesis using h by blast
qed

lemma active_node_step:
  assumes "interaction_ok d"
  shows "\<exists>b d'. active_node d = Some (b, d') \<and> interaction_ok d' \<and> keeps d d'"
proof (cases "hover_node_id d = None \<or> active_node_id d = hover_node_id d")
  case True
  then show ?thesis using assms by (cases "hover_node_id d") (auto simp: active_node_def)
next
  case False
  then obtain h where h: "hover_node_id d = Some h" "active_node_id d \<noteq> Some h" by auto
  obtain b d0 where d0: "(if active_node_id d = None then Some (False, d) else unactive_node d) = Some (b, d0)"
    "interaction_ok d0" "keeps d d0" "hover_node_id d0 = Some h" "active_node_id d0 = None"
    using unactive_node_step [OF assms] assms h(1) by (cases "active_node_id d") auto
  from d0(2) obtain hs as where o: "layout_ok d0" "parents_ok d0" "maybe_node_layout_ancestors d0 (Some h) = Some hs"
    "carriers HOVER d0 = elements_among d0 hs" "maybe_node_layout_ancestors d0 None = Some as"
    "carriers ACTIVE d0 = elements_among d0 as"
    using d0(4,5) by (auto elim: interaction_okE)
  have none: "carriers ACTIVE d0 = {}" using o(5,6) by (simp add: maybe_node_layout_ancestors_def elements_among_def)
  have "\<forall>i\<in>set hs. nodes d0 i \<noteq> None" using path_live [OF o(3)] by blast
  from active_along [OF o(2) this] obtain d1 where d1: "each_state active ACTIVE hs d0 = Some d1"
    "keeps d0 d1" "non_node d1 = non_node d0" "changed_along (insert ACTIVE) hs d0 d1" by blast
  define d2 where "d2 = d1\<lparr>active_node_id := Some h\<rparr>"
  have f2: "same_frame d1 d2" "facets d2 = facets d1"
    by (simp_all add: d2_def facets_same_frame)
  have car: "carriers f d2 = carriers f d1" for f by (rule same_facets_carriers [OF f2(2)])
  have "carriers ACTIVE d2 = elements_among d0 hs" using carriers_insert [OF d1(4)] none car by simp
  moreover have "carriers HOVER d2 = elements_among d0 hs"
    using carriers_other [OF d1(4), of HOVER] o(4) car by simp
  moreover have "hover_node_id d2 = Some h" "active_node_id d2 = Some h"
    using non_node_fields(1) [OF d1(3)] d0(4) by (simp_all add: d2_def)
  ultimately have "interaction_ok d2"
    using o(3) by (intro interaction_okI [OF o(1) same_frame_trans [OF changed_same_frame [OF d1(2,4)] f2(1)], of hs hs])
      simp_all
  moreover have "active_node d = Some (True, d2)"
    using h d0(1) o(3) d1(1) by (simp add: active_node_def d2_def)
  moreover have "keeps d d2" using d0(3) d1(2) f2(1) keeps_trans by (metis same_frame_def)
  ultimately show ?thesis by blast
qed

lemma pointer_step_ok:
  assumes "interaction_ok d"
  shows "\<exists>b d'. pointer_step x d = Some (b, d') \<and> interaction_ok d' \<and> keeps d d'"
  using set_hover_to_step [OF assms] clear_hover_step [OF assms] active_node_step [OF assms]
    unactive_node_step [OF assms] by (cases x) auto

text \<open>C21. Whatever the pointer does, hovering and pressing keep to one rule: no operation panics, the
  document tree stays as it is, the elements in the \<open>HOVER\<close> state are those on the layout path
  of the hovered node and no others, and the elements in the \<open>ACTIVE\<close> state those on the path
  of the active node, after every step of every sequence of moves, presses, releases and
  departures (the hit test may answer anything, also nodes that no longer exist).\<close>
theorem interaction_paths:
  assumes "interaction_ok d"
  shows "\<exists>d'. pointer_run xs d = Some d' \<and> keeps d d' \<and> layout_ok d'
    \<and> lit HOVER (hover_node_id d') d' \<and> lit ACTIVE (active_node_id d') d'"
proof -
  have "\<exists>d'. pointer_run xs d = Some d' \<and> keeps d d' \<and> interaction_ok d'"
    using assms
  proof (induction xs arbitrary: d)
    case (Cons x xs)
    obtain b d1 where d1: "pointer_step x d = Some (b, d1)" "interaction_ok d1" "keeps d d1"
      using pointer_step_ok [OF Cons.prems] by blast
    from Cons.IH [OF d1(2)] d1 show ?case using keeps_trans by fastforce
  qed simp
  then show ?thesis by (auto simp: interaction_ok_def)
qed

lemma ex_interaction_ok: "interaction_ok ex_doc"
proof -
  have path: "node_layout_ancestors ex_doc i \<noteq> None" if "nodes ex_doc i \<noteq> None" for i
  proof -
    from that obtain n where "nodes ex_doc i = Some n" by auto
    from ex_doc_dom [OF this] show ?thesis
      by (elim disjE) (simp_all add: node_layout_ancestors_def layout_ancestors_up.simps node_at_simp)
  qed
  have none: "st = {}" if f: "facets ex_doc i = Some (lp, Some st)" for i lp st
  proof -
    from f obtain n where n: "nodes ex_doc i = Some n" by (auto simp: facets_def)
    from ex_doc_dom [OF n] f show ?thesis
      by (elim disjE) (auto simp: facets_def facet_def element_data_def ex_element_def)
  qed
  have "carriers f ex_doc = {}" for f using none by (fastforce simp: carriers_def)
  moreover have "hover_node_id ex_doc = None" "active_node_id ex_doc = None"
    by (simp_all add: ex_doc_def ex_document_def)
  ultimately show ?thesis
    using path ex_wf_doc
    by (simp add: interaction_ok_def layout_ok_def lit_def maybe_node_layout_ancestors_def elements_among_def)
qed

definition ex_probe :: "node_id \<Rightarrow> probe" where
  "ex_probe i = \<lparr> probe_client = (0, 0), probe_hit = Some (i, False), probe_thumb = None,
     probe_resize = None, probe_now = 0 \<rparr>"

theorem interaction_paths_witness:
  "\<exists>d'. pointer_run [MoveTo (ex_probe n4), Press, MoveTo (ex_probe n6), Release] ex_doc = Some d'
    \<and> keeps ex_doc d' \<and> layout_ok d' \<and> lit HOVER (hover_node_id d') d' \<and> lit ACTIVE (active_node_id d') d'"
  by (rule interaction_paths [OF ex_interaction_ok])

end
