(* ===== verification/Dom_Focus.thy ===== *)
theory Dom_Focus
  imports Dom_Paths
begin

text \<open>
  Keyboard focus: \<open>set_focus_to\<close> leaves exactly one element in the focus state, and the tab
  key goes round the focussable elements of the document in document order.
\<close>

section \<open>Moving the focus\<close>

lemma snapshot_node_and_bind:
  "snapshot_node_and i S (\<lambda>d. do { d' \<leftarrow> F d; G d' }) d = do { d' \<leftarrow> snapshot_node_and i S F d; G d' }"
  by (simp add: snapshot_node_and_def)

text \<open>Focussing and blurring are state changes followed by calls to the embedder.\<close>
lemma focus_change:
  assumes ok: "parents_ok d" and live: "nodes d i \<noteq> None"
  shows "\<exists>d'. snapshot_node_and i S (focus i) d = Some d' \<and> keeps d d' \<and> focus_node_id d' = focus_node_id d
      \<and> facets d' = (facets d)(i := map_option (with_state (\<lambda>s. s \<union> {FOCUS, FOCUSRING})) (facets d i))"
    "\<exists>d'. snapshot_node_and i S (blur i) d = Some d' \<and> keeps d d' \<and> focus_node_id d' = focus_node_id d
      \<and> facets d' = (facets d)(i := map_option (with_state (\<lambda>s. s - {FOCUS, FOCUSRING})) (facets d i))"
proof -
  have live': "\<exists>n. nodes d' i = Some n" if "keeps d d'" for d' using keeps_dom [OF that, of i] live by auto
  show "\<exists>d'. snapshot_node_and i S (focus i) d = Some d' \<and> keeps d d' \<and> focus_node_id d' = focus_node_id d
      \<and> facets d' = (facets d)(i := map_option (with_state (\<lambda>s. s \<union> {FOCUS, FOCUSRING})) (facets d i))"
  proof -
    obtain d0 where d0: "snapshot_node_and i S (\<lambda>d. mark_ancestors_dirty i
        (update_node i (map_element (\<lambda>e. e\<lparr>el_state := el_state e \<union> {FOCUS, FOCUSRING}\<rparr>)) d)) d = Some d0"
        "keeps d d0" "non_node d0 = non_node d"
        "facets d0 = (facets d)(i := map_option (with_state (\<lambda>s. s \<union> {FOCUS, FOCUSRING})) (facets d i))"
      using state_change_step [OF assms, of S "\<lambda>s. s \<union> {FOCUS, FOCUSRING}"] by blast
    obtain n where n: "nodes d0 i = Some n" using live' [OF d0(2)] by blast
    define d' where "d' = (if is_text_input n then shell (SetImeCursorArea i) (shell (SetImeEnabled True) d0) else d0)"
    have "snapshot_node_and i S (focus i) d = Some d'"
      unfolding focus_def [abs_def] snapshot_node_and_bind d0(1) by (simp add: node_at_simp n d'_def)
    then show ?thesis using d0(2,4) non_node_fields(3) [OF d0(3)] by (intro exI [of _ d']) (simp add: d'_def)
  qed
  show "\<exists>d'. snapshot_node_and i S (blur i) d = Some d' \<and> keeps d d' \<and> focus_node_id d' = focus_node_id d
      \<and> facets d' = (facets d)(i := map_option (with_state (\<lambda>s. s - {FOCUS, FOCUSRING})) (facets d i))"
  proof -
    obtain d0 where d0: "snapshot_node_and i S (\<lambda>d. mark_ancestors_dirty i
        (update_node i (map_element (\<lambda>e. e\<lparr>el_state := el_state e - {FOCUS, FOCUSRING}\<rparr>)) d)) d = Some d0"
        "keeps d d0" "non_node d0 = non_node d"
        "facets d0 = (facets d)(i := map_option (with_state (\<lambda>s. s - {FOCUS, FOCUSRING})) (facets d i))"
      using state_change_step [OF assms, of S "\<lambda>s. s - {FOCUS, FOCUSRING}"] by blast
    obtain n where n: "nodes d0 i = Some n" using live' [OF d0(2)] by blast
    define d' where "d' = (if is_text_input n then shell (SetImeEnabled False) d0 else d0)"
    have "snapshot_node_and i S (blur i) d = Some d'"
      unfolding blur_def [abs_def] snapshot_node_and_bind d0(1) by (simp add: node_at_simp n d'_def)
    then show ?thesis using d0(2,4) non_node_fields(3) [OF d0(3)] by (intro exI [of _ d']) (simp add: d'_def)
  qed
qed

text \<open>Exactly the focussed node is in the focus state.\<close>
definition focus_ok :: "document \<Rightarrow> bool" where
  "focus_ok d \<longleftrightarrow> carriers FOCUS d = set_option (focus_node_id d)"

text \<open>A node that focus may be set to as it is: an element of the document proper.\<close>
definition own_target :: "document \<Rightarrow> node_id \<Rightarrow> bool" where
  "own_target d i \<longleftrightarrow> nearest_non_anonymous_ancestor d i = Some (Some i)
     \<and> (\<exists>n. nodes d i = Some n \<and> element_data n \<noteq> None)"

lemma set_focus_moves:
  assumes ok: "parents_ok d" and f: "focus_ok d" and i: "own_target d i"
  shows "\<exists>b d'. set_focus_to i d = Some (b, d') \<and> keeps d d' \<and> focus_node_id d' = Some i \<and> focus_ok d'"
proof (cases "focus_node_id d = Some i")
  case True
  then show ?thesis using i f by (auto simp: set_focus_to_def own_target_def)
next
  case False
  have near: "nearest_non_anonymous_ancestor d i = Some (Some i)" using i by (simp add: own_target_def)
  obtain d1 where d1: "(case focus_node_id d of None \<Rightarrow> Some d
      | Some old \<Rightarrow> snapshot_node_and old {FOCUS, FOCUSRING} (blur old) d) = Some d1" "keeps d d1"
      "carriers FOCUS d1 = {}"
  proof (cases "focus_node_id d")
    case None
    then show ?thesis using that f by (simp add: focus_ok_def)
  next
    case (Some old)
    have "old \<in> carriers FOCUS d" using f Some by (simp add: focus_ok_def)
    then have "nodes d old \<noteq> None" by (auto simp: carriers_def facets_def)
    from focus_change(2) [OF ok this, of "{FOCUS, FOCUSRING}"] obtain d1 where
      d1: "snapshot_node_and old {FOCUS, FOCUSRING} (blur old) d = Some d1" "keeps d d1"
        "facets d1 = (facets d)(old := map_option (with_state (\<lambda>s. s - {FOCUS, FOCUSRING})) (facets d old))" by blast
    have only: "j = old" if "facets d j = Some (lp, Some st)" "FOCUS \<in> st" for j lp st
      using f Some that by (auto simp: focus_ok_def carriers_def set_eq_iff)
    have "carriers FOCUS d1 = {}"
      using only by (auto simp: carriers_def d1(3) with_state_def split: if_splits)
    then show ?thesis using that d1 Some by simp
  qed
  have live1: "nodes d1 i \<noteq> None" using i keeps_dom [OF d1(2)] by (auto simp: own_target_def)
  from focus_change(1) [OF keeps_parents_ok [OF d1(2) ok] this, of "{FOCUS, FOCUSRING}"] obtain d2 where
    d2: "snapshot_node_and i {FOCUS, FOCUSRING} (focus i) d1 = Some d2" "keeps d1 d2"
      "facets d2 = (facets d1)(i := map_option (with_state (\<lambda>s. s \<union> {FOCUS, FOCUSRING})) (facets d1 i))" by blast
  define d3 where "d3 = shell RequestRedraw (d2\<lparr>focus_node_id := Some i\<rparr>)"
  have "set_focus_to i d = Some (True, d3)"
    using False near d1(1) d2(1) by (simp add: set_focus_to_def d3_def)
  moreover have "keeps d d3" using keeps_trans [OF d1(2) d2(2)] by (simp add: d3_def)
  moreover have "focus_ok d3"
  proof -
    from i obtain n where n: "nodes d i = Some n" "element_data n \<noteq> None" by (auto simp: own_target_def)
    obtain n1 where n1: "nodes d1 i = Some n1" using live1 by auto
    have "element_data n1 \<noteq> None"
      using keeps_data [OF d1(2) n(1) n1] n(2) by (cases "data n1"; cases "data n") (auto simp: element_data_def)
    then obtain lp st where "facets d1 i = Some (lp, Some st)"
      by (auto simp: facets_def n1 facet_def)
    then have at: "facets d2 j = (if j = i then Some (lp, Some (st \<union> {FOCUS, FOCUSRING})) else facets d1 j)" for j
      by (simp add: d2(3) with_state_def)
    have none: "FOCUS \<notin> st" if "facets d1 j = Some (lp, Some st)" for j lp st
      using d1(3) that by (auto simp: carriers_def)
    have "j \<in> carriers FOCUS d2 \<longleftrightarrow> j = i" for j
      by (cases "j = i") (auto simp: carriers_def at dest: none)
    moreover have "carriers FOCUS d3 = carriers FOCUS d2" by (rule same_facets_carriers) (simp add: d3_def)
    ultimately have "carriers FOCUS d3 = {i}" by auto
    then show ?thesis by (simp add: focus_ok_def d3_def shell_def)
  qed
  ultimately show ?thesis by (auto simp: d3_def shell_def)
qed

section \<open>The tab key\<close>

lemma first_element_total:
  "\<forall>c\<in>set cs. nodes d c \<noteq> None \<Longrightarrow> \<exists>r. first_element d cs = Some r"
  by (induction cs) (auto simp: node_at_simp)

text \<open>In a document tree the nodes resolve, and with nothing anonymous in it they are targets of
  their own.\<close>
lemma doc_tree_focussed:
  assumes "wf_doc d" "focus_node_id d = Some i"
  shows "get_focussed_node_id d = Some (Some i)"
proof -
  from assms(1) obtain r where r: "nodes d (root_node_id d) = Some r" by (auto simp: wf_doc_def)
  have "\<forall>c\<in>set (children r). nodes d c \<noteq> None"
    using wf_doc_node [OF assms(1) r] by (auto simp: wf_node_def)
  from first_element_total [OF this] show ?thesis
    using assms(2) by (auto simp: get_focussed_node_id_def try_root_element_def root_node_def node_at_simp r)
qed

definition plain_tree :: "document \<Rightarrow> tree \<Rightarrow> bool" where
  "plain_tree d R \<longleftrightarrow> doc_tree d R \<and> (\<forall>i\<in>set (preorder R). \<not> is_anonymous (the (nodes d i)))"

definition tab_stops :: "document \<Rightarrow> tree \<Rightarrow> node_id list" where
  "tab_stops d R = filter (\<lambda>i. node_is_focussable (the (nodes d i))) (preorder R)"

lemma plain_own_target:
  assumes "plain_tree d R" "i \<in> set (tab_stops d R)"
  shows "own_target d i"
proof -
  have dt: "doc_tree d R" and i: "i \<in> set (preorder R)" and f: "node_is_focussable (the (nodes d i))"
    and pl: "\<And>j. j \<in> set (preorder R) \<Longrightarrow> \<not> is_anonymous (the (nodes d j))"
    using assms by (auto simp: plain_tree_def tab_stops_def)
  obtain cs us t vs where o: "occ R cs us t vs" "root t = i" by (rule occ_exists [OF i])
  define q where "q = (if cs = [] then None else Some (last cs))"
  have rep: "represents d q t" unfolding q_def using occ_represents [OF o(1), of d None] dt by (simp add: doc_tree_def)
  obtain n where n: "nodes d i = Some n" "nid n = i" "parent n = q"
    by (rule represents_node [OF rep]) (use o(2) in simp)
  have anon: "\<not> is_anonymous n" using pl [OF i] n(1) by simp
  have "nna_loop d n = Some (Some i)"
  proof (cases "cs = []")
    case True
    then show ?thesis using n by (simp add: nna_loop.simps [of d n] q_def)
  next
    case False
    have p: "last cs \<in> set (preorder R)"
      using occ_ancestors_before [OF o(1)] occ_preorder [OF o(1)] last_in_set [OF False] by auto
    obtain m where m: "nodes d (last cs) = Some m" by (rule doc_tree_live [OF dt p])
    then show ?thesis using n False anon pl [OF p] by (simp add: nna_loop.simps [of d n] get_node_simp q_def)
  qed
  moreover have "element_data n \<noteq> None" using f n(1) by (auto simp: node_is_focussable_def split: option.splits)
  ultimately show ?thesis using n(1) by (simp add: own_target_def nearest_non_anonymous_ancestor_def get_node_simp)
qed

lemma focussable_erase: "node_is_focussable n =
    (case erase (data n) of Element e \<Rightarrow> is_focussable e | AnonymousBlock e \<Rightarrow> is_focussable e | _ \<Rightarrow> False)"
  by (cases "data n") (simp_all add: node_is_focussable_def element_data_def erase_element_def)

lemma keeps_focussable:
  assumes "keeps d d'" "nodes d i = Some n" "nodes d' i = Some n'"
  shows "node_is_focussable n' = node_is_focussable n" "is_anonymous n' = is_anonymous n"
  using keeps_data [OF assms] by (simp_all add: focussable_erase is_anonymous_erase)

lemma keeps_plain_tree:
  assumes "keeps d d'" "plain_tree d R"
  shows "plain_tree d' R" "tab_stops d' R = tab_stops d R"
proof -
  have dt: "doc_tree d R" and pl: "\<forall>i\<in>set (preorder R). \<not> is_anonymous (the (nodes d i))"
    using assms(2) by (auto simp: plain_tree_def)
  have dt': "doc_tree d' R"
    using dt keeps_represents [OF assms(1)] assms(1) by (auto simp: doc_tree_def keeps_def)
  have same: "node_is_focussable (the (nodes d' i)) = node_is_focussable (the (nodes d i))"
      "is_anonymous (the (nodes d' i)) = is_anonymous (the (nodes d i))" if "i \<in> set (preorder R)" for i
    by (rule doc_tree_live [OF dt that], rule doc_tree_live [OF dt' that], simp add: keeps_focussable [OF assms(1)])+
  show "plain_tree d' R" using dt' pl same(2) by (simp add: plain_tree_def)
  show "tab_stops d' R = tab_stops d R" using same(1) by (simp add: tab_stops_def cong: filter_cong)
qed

text \<open>The first match after a stop, going round, is the next stop; before it, the previous one.\<close>
lemma around:
  assumes d: "distinct xs" and k: "k < length (filter P xs)"
  shows "\<exists>m. m < length xs \<and> xs ! m = filter P xs ! k
    \<and> List.find P (rotate (Suc m) xs) = Some (filter P xs ! (Suc k mod length (filter P xs)))
    \<and> List.find P (rev (rotate m xs)) = Some (filter P xs ! ((k + length (filter P xs) - 1) mod length (filter P xs)))"
proof -
  let ?fs = "filter P xs"
  define a where "a = ?fs ! k"
  have a: "a \<in> set xs" "P a" using nth_mem [OF k] by (auto simp: a_def)
  then obtain us vs where xs: "xs = us @ a # vs" by (metis split_list)
  define fu fv where "fu = filter P us" and "fv = filter P vs"
  have fs: "?fs = fu @ a # fv" by (simp add: xs fu_def fv_def a(2))
  have e: "?fs ! length fu = a" "?fs ! k = a" by (simp only: fs nth_append_length, simp only: a_def)
  have "length fu < length ?fs" unfolding fs by simp
  from nth_eq_iff_index_eq [OF distinct_filter [OF d] this k] e have lk: "length fu = k" by metis
  have len: "length ?fs = Suc (k + length fv)" by (simp add: fs lk)
  have "rotate (Suc (length us)) xs = vs @ us @ [a]"
    using rotate_append [of "us @ [a]" vs] by (simp add: xs)
  then have "filter P (rotate (Suc (length us)) xs) = fv @ fu @ [a]" by (simp add: fu_def fv_def a(2))
  moreover have "hd (fv @ fu @ [a]) = ?fs ! (Suc k mod length ?fs)"
  proof (cases fv)
    case Nil
    then show ?thesis using fs len by (cases fu) simp_all
  next
    case (Cons b bs)
    then have "Suc k mod length ?fs = Suc k" using len by simp
    then show ?thesis by (simp add: fs Cons nth_append lk)
  qed
  ultimately have after: "List.find P (rotate (Suc (length us)) xs) = Some (?fs ! (Suc k mod length ?fs))"
    using find_hd_filter [of P "rotate (Suc (length us)) xs"] by simp
  have "rotate (length us) xs = a # vs @ us" using rotate_append [of us "a # vs"] by (simp add: xs)
  then have "filter P (rev (rotate (length us) xs)) = rev fu @ rev fv @ [a]"
    by (simp add: fu_def fv_def a(2) rev_filter [symmetric])
  moreover have "hd (rev fu @ rev fv @ [a]) = ?fs ! ((k + length ?fs - 1) mod length ?fs)"
  proof (cases fu rule: rev_cases)
    case Nil
    then have "(k + length ?fs - 1) mod length ?fs = length fv" using lk len by simp
    then show ?thesis
      by (cases fv rule: rev_cases) (simp_all add: fs Nil nth_append)
  next
    case (snoc bs b)
    then have "k + length ?fs - 1 = length bs + length ?fs" using lk by simp
    then have "(k + length ?fs - 1) mod length ?fs = length bs mod length ?fs" by (simp only: mod_add_self2)
    also have "length bs mod length ?fs = length bs" using lk len snoc by (intro mod_less) simp
    finally have "(k + length ?fs - 1) mod length ?fs = length bs" .
    then show ?thesis by (simp add: fs snoc nth_append)
  qed
  ultimately have prev: "List.find P (rev (rotate (length us) xs)) = Some (?fs ! ((k + length ?fs - 1) mod length ?fs))"
    using find_hd_filter [of P "rev (rotate (length us) xs)"] by simp
  have "length us < length xs" "xs ! length us = a" by (simp_all add: xs)
  then show ?thesis using after prev e(2) by metis
qed

lemma focus_step:
  assumes wf: "wf_doc d" and pl: "plain_tree d R" and f: "focus_ok d"
    and k: "k < length (tab_stops d R)" "focus_node_id d = Some (tab_stops d R ! k)"
  shows "\<exists>i d'. focus_next_node d = Some (i, d') \<and> keeps d d' \<and> focus_ok d'
      \<and> focus_node_id d' = Some (tab_stops d R ! (Suc k mod length (tab_stops d R)))"
    "\<exists>i d'. focus_prev_node d = Some (i, d') \<and> keeps d d' \<and> focus_ok d'
      \<and> focus_node_id d' = Some (tab_stops d R ! ((k + length (tab_stops d R) - 1) mod length (tab_stops d R)))"
proof -
  let ?P = "\<lambda>i. node_is_focussable (the (nodes d i))"
  let ?fs = "tab_stops d R"
  have dt: "doc_tree d R" using pl by (simp add: plain_tree_def)
  then have dist: "distinct (preorder R)" by (simp add: doc_tree_def)
  obtain m where m: "m < length (preorder R)" "preorder R ! m = ?fs ! k"
    "List.find ?P (rotate (Suc m) (preorder R)) = Some (?fs ! (Suc k mod length ?fs))"
    "List.find ?P (rev (rotate m (preorder R))) = Some (?fs ! ((k + length ?fs - 1) mod length ?fs))"
    using around [OF dist, of k ?P] k(1) by (auto simp: tab_stops_def)
  obtain n where n: "nodes d (preorder R ! m) = Some n" using doc_tree_live [OF dt nth_mem [OF m(1)]] by metis
  have cur: "get_focussed_node_id d = Some (Some (preorder R ! m))"
    using doc_tree_focussed [OF wf k(2)] m(2) by simp
  have step: "\<exists>b d'. set_focus_to (?fs ! j) d = Some (b, d') \<and> keeps d d' \<and> focus_node_id d' = Some (?fs ! j) \<and> focus_ok d'"
    if "j < length ?fs" for j
    by (rule set_focus_moves [OF wf_doc_parents_ok [OF wf] f plain_own_target [OF pl nth_mem [OF that]]])
  have "0 < length ?fs" using k(1) by linarith
  then have lt: "Suc k mod length ?fs < length ?fs" "(k + length ?fs - 1) mod length ?fs < length ?fs" by simp_all
  show "\<exists>i d'. focus_next_node d = Some (i, d') \<and> keeps d d' \<and> focus_ok d'
      \<and> focus_node_id d' = Some (?fs ! (Suc k mod length ?fs))"
    using step [OF lt(1)] next_node_rotate [OF dt m(1) n, of node_is_focussable] m(3)
    by (auto simp: focus_next_node_def cur node_at_simp n)
  show "\<exists>i d'. focus_prev_node d = Some (i, d') \<and> keeps d d' \<and> focus_ok d'
      \<and> focus_node_id d' = Some (?fs ! ((k + length ?fs - 1) mod length ?fs))"
    using step [OF lt(2)] prev_node_rotate [OF dt m(1) n, of node_is_focussable] m(4)
    by (auto simp: focus_prev_node_def cur node_at_simp n)
qed

lemma one_back:
  fixes k n l :: nat
  assumes "0 < l" shows "((k + Suc n) mod l + l - 1) mod l = (k + n) mod l"
proof -
  have "(k + Suc n) mod l + l - 1 = (k + Suc n) mod l + (l - 1)" using assms by linarith
  then have "((k + Suc n) mod l + l - 1) mod l = (k + Suc n + (l - 1)) mod l" by (simp only: mod_add_left_eq)
  also have "k + Suc n + (l - 1) = k + n + l" using assms by simp
  finally show ?thesis by simp
qed

text \<open>Pressing the tab key several times, and back.\<close>
fun press_tab :: "nat \<Rightarrow> document \<Rightarrow> document may_panic" where
  "press_tab 0 d = Some d"
| "press_tab (Suc n) d = do { (_, d1) \<leftarrow> focus_next_node d; press_tab n d1 }"

fun press_shift_tab :: "nat \<Rightarrow> document \<Rightarrow> document may_panic" where
  "press_shift_tab 0 d = Some d"
| "press_shift_tab (Suc n) d = do { (_, d1) \<leftarrow> focus_prev_node d; press_shift_tab n d1 }"

definition tab_state :: "document \<Rightarrow> tree \<Rightarrow> nat \<Rightarrow> bool" where
  "tab_state d R k \<longleftrightarrow> wf_doc d \<and> plain_tree d R \<and> focus_ok d \<and> k < length (tab_stops d R)
     \<and> focus_node_id d = Some (tab_stops d R ! k)"

lemma tab_state_step:
  assumes "tab_state d R k"
  shows "\<exists>i d'. focus_next_node d = Some (i, d') \<and> keeps d d' \<and> tab_state d' R (Suc k mod length (tab_stops d R))"
    "\<exists>i d'. focus_prev_node d = Some (i, d') \<and> keeps d d'
       \<and> tab_state d' R ((k + length (tab_stops d R) - 1) mod length (tab_stops d R))"
proof -
  have a: "wf_doc d" "plain_tree d R" "focus_ok d" "k < length (tab_stops d R)"
    "focus_node_id d = Some (tab_stops d R ! k)" using assms by (auto simp: tab_state_def)
  have "0 < length (tab_stops d R)" using a(4) by linarith
  then have lt: "j mod length (tab_stops d R) < length (tab_stops d R)" for j by simp
  have keep: "tab_state d' R j" if "keeps d d'" "focus_ok d'" "focus_node_id d' = Some (tab_stops d R ! j)"
      "j < length (tab_stops d R)" for d' j
    using that keeps_wf_doc [OF that(1) a(1)] keeps_plain_tree [OF that(1) a(2)] by (simp add: tab_state_def)
  from focus_step(1) [OF a] show "\<exists>i d'. focus_next_node d = Some (i, d') \<and> keeps d d'
      \<and> tab_state d' R (Suc k mod length (tab_stops d R))" using keep lt by blast
  from focus_step(2) [OF a] show "\<exists>i d'. focus_prev_node d = Some (i, d') \<and> keeps d d'
      \<and> tab_state d' R ((k + length (tab_stops d R) - 1) mod length (tab_stops d R))" using keep lt by blast
qed

text \<open>C22. Tabbing always returns and goes round: in a document whose tree holds no layout-generated
  node, with the focus on a focussable node and exactly that node in the focus state, \<open>n\<close> presses
  of the tab key move the focus \<open>n\<close> places on in the cyclic document order of the focussable
  nodes, and as many presses of shift-tab bring it back; the tree stays as it is and the focus
  state stays with the focussed node.\<close>
theorem tab_goes_round:
  assumes "wf_doc d" "doc_tree d R" "\<forall>i\<in>set (preorder R). \<not> is_anonymous (the (nodes d i))"
    and "focus_ok d" "k < length (tab_stops d R)" "focus_node_id d = Some (tab_stops d R ! k)"
  shows "\<exists>d' d''. press_tab n d = Some d' \<and> press_shift_tab n d' = Some d'' \<and> keeps d d' \<and> keeps d d''
    \<and> focus_ok d' \<and> focus_ok d''
    \<and> focus_node_id d' = Some (tab_stops d R ! ((k + n) mod length (tab_stops d R)))
    \<and> focus_node_id d'' = focus_node_id d"
proof -
  let ?l = "length (tab_stops d R)"
  have l: "0 < ?l" using assms(5) by linarith
  have bwd: "\<exists>d''. press_shift_tab n d' = Some d'' \<and> keeps d' d'' \<and> tab_state d'' R k"
    if "tab_state d' R ((k + n) mod ?l)" "tab_stops d' R = tab_stops d R" for n d' using that
  proof (induction n arbitrary: d')
    case 0
    then show ?case using assms(5) by simp
  next
    case (Suc n)
    have "((k + Suc n) mod ?l + ?l - 1) mod ?l = (k + n) mod ?l"
      using l by (rule one_back)
    with tab_state_step(2) [OF Suc.prems(1)] obtain i d1 where
      d1: "focus_prev_node d' = Some (i, d1)" "keeps d' d1" "tab_state d1 R ((k + n) mod ?l)"
      by (auto simp: Suc.prems(2))
    have "tab_stops d1 R = tab_stops d R"
      using keeps_plain_tree(2) [OF d1(2)] Suc.prems by (simp add: tab_state_def)
    from Suc.IH [OF d1(3) this] d1(1,2) show ?case using keeps_trans by fastforce
  qed
  have fwd: "\<exists>d'. press_tab n d1 = Some d' \<and> keeps d1 d' \<and> tab_state d' R ((j + n) mod ?l)"
    if "tab_state d1 R j" "tab_stops d1 R = tab_stops d R" for n j d1 using that
  proof (induction n arbitrary: d1 j)
    case 0
    then show ?case by (auto simp: tab_state_def)
  next
    case (Suc n)
    from tab_state_step(1) [OF Suc.prems(1)] obtain i d2 where
      d2: "focus_next_node d1 = Some (i, d2)" "keeps d1 d2" "tab_state d2 R (Suc j mod ?l)" by (auto simp: Suc.prems(2))
    have "tab_stops d2 R = tab_stops d R"
      using keeps_plain_tree(2) [OF d2(2)] Suc.prems by (simp add: tab_state_def)
    moreover have "(Suc j mod ?l + n) mod ?l = (j + Suc n) mod ?l" by (simp add: mod_add_left_eq)
    ultimately show ?case using Suc.IH [OF d2(3)] d2(1,2) keeps_trans by fastforce
  qed
  have start: "tab_state d R k" using assms by (simp add: tab_state_def plain_tree_def)
  from fwd [OF start refl] obtain d' where
    d': "press_tab n d = Some d'" "keeps d d'" "tab_state d' R ((k + n) mod ?l)" by blast
  have stops: "tab_stops d' R = tab_stops d R" using keeps_plain_tree(2) [OF d'(2)] start by (simp add: tab_state_def)
  from bwd [OF d'(3) stops] obtain d'' where
    d'': "press_shift_tab n d' = Some d''" "keeps d' d''" "tab_state d'' R k" by blast
  have "tab_stops d'' R = tab_stops d R"
    using keeps_plain_tree(2) [OF d''(2)] d'(3) stops by (simp add: tab_state_def)
  then show ?thesis
    using d' d'' stops assms(6) keeps_trans [OF d'(2) d''(2)] by (auto simp: tab_state_def)
qed

definition ex_focus_doc :: document where
  "ex_focus_doc = update_node n6 (map_element (\<lambda>e. e\<lparr>el_state := {FOCUS, FOCUSRING}\<rparr>))
     (ex_doc\<lparr>focus_node_id := Some n6\<rparr>)"

lemma ex_focus_keeps: "keeps ex_doc ex_focus_doc"
  unfolding ex_focus_doc_def by (rule keeps_update_trans) (simp_all add: shape_map_element)

lemma ex_tab_stops: "tab_stops ex_doc ex_tree = [n5, n6]"
  by (simp add: tab_stops_def ex_preorder node_is_focussable_def element_data_def ex_element_def)

lemma ex_plain_tree: "plain_tree ex_doc ex_tree"
  by (simp add: plain_tree_def ex_doc_tree ex_preorder is_anonymous_def)

lemma ex_focus_ok: "focus_ok ex_focus_doc"
proof -
  have none: "st = {}" if f: "facets ex_doc i = Some (lp, Some st)" for i lp st
  proof -
    from f obtain n where n: "nodes ex_doc i = Some n" by (auto simp: facets_def)
    from ex_doc_dom [OF n] f show ?thesis
      by (elim disjE) (auto simp: facets_def facet_def element_data_def ex_element_def)
  qed
  have "facets ex_doc n6 = Some (Some n2, Some {})"
    by (simp add: facets_def facet_def element_data_def ex_element_def)
  moreover have "facets ex_focus_doc i = (if i = n6 then Some (Some n2, Some {FOCUS, FOCUSRING}) else facets ex_doc i)" for i
    by (simp add: ex_focus_doc_def facets_update comp_def)
  ultimately have "carriers FOCUS ex_focus_doc = {n6}"
    by (auto simp: carriers_def split: if_splits dest: none)
  then show ?thesis by (simp add: focus_ok_def ex_focus_doc_def)
qed

theorem tab_goes_round_witness:
  "\<exists>d' d''. press_tab 3 ex_focus_doc = Some d' \<and> press_shift_tab 3 d' = Some d'' \<and> focus_ok d'
    \<and> focus_node_id d' = Some n5 \<and> focus_node_id d'' = Some n6"
proof -
  have pl: "plain_tree ex_focus_doc ex_tree" and stops: "tab_stops ex_focus_doc ex_tree = [n5, n6]"
    using keeps_plain_tree [OF ex_focus_keeps ex_plain_tree] ex_tab_stops by simp_all
  have f: "focus_node_id ex_focus_doc = Some n6" by (simp add: ex_focus_doc_def)
  have "\<forall>i\<in>set (preorder ex_tree). \<not> is_anonymous (the (nodes ex_focus_doc i))" "doc_tree ex_focus_doc ex_tree"
    using pl by (simp_all add: plain_tree_def)
  note round = tab_goes_round [OF keeps_wf_doc [OF ex_focus_keeps ex_wf_doc] this(2,1) ex_focus_ok, of 1 3,
      unfolded stops f]
  have "length [n5, n6] = 2" by simp
  then have "((1::nat) + 3) mod length [n5, n6] = 0" by (simp only:) simp
  then show ?thesis using round by (simp only: nth_Cons_0) auto
qed

end
