(* ===== verification/Id_Registry.thy ===== *)
theory Id_Registry
  imports Prelude
begin

text \<open>
  The contract shared by the tables that hand out ids from a machine counter: windows (32
  bits), sessions (32), listeners, power blockers and fallback surfaces (64).  An id is fresh when it
  is handed out and is not handed out again, as long as the counter does not wrap.
\<close>

locale id_registry =
  fixes entries :: "'s \<Rightarrow> 'i::len word \<Rightarrow> 'v option"
    and next_id :: "'s \<Rightarrow> 'i word"
    and register :: "'a \<Rightarrow> 's \<Rightarrow> 'i word \<times> 's"
    and unregister :: "'i word \<Rightarrow> 's \<Rightarrow> 's"
  assumes register_id: "fst (register a s) = next_id s"
    and register_next: "next_id (snd (register a s)) = next_id s + 1"
    and register_entries: "\<exists>v. entries (snd (register a s)) = (entries s)(next_id s \<mapsto> v)"
    and unregister_next: "next_id (unregister i s) = next_id s"
    and unregister_entries: "entries (unregister i s) = (entries s)(i := None)"

lemma word_less_Suc: "(n :: 'i::len word) \<noteq> -1 \<Longrightarrow> i < n + 1 \<longleftrightarrow> i < n \<or> i = n"
proof -
  assume n: "n \<noteq> -1"
  then have "unat (n + 1) = Suc (unat n)" using unatSuc [of n]
    by (metis add.commute add_eq_0_iff)
  then show ?thesis by (auto simp: word_less_nat_alt less_Suc_eq word_unat_eq_iff)
qed

text \<open>What a client does with a table.\<close>
datatype ('a, 'w) reg_op = Register 'a | Unregister 'w

context id_registry
begin

text \<open>Every id in use has been handed out.\<close>
definition reg_ok :: "'s \<Rightarrow> bool" where
  "reg_ok s \<longleftrightarrow> (\<forall>i. entries s i \<noteq> None \<longrightarrow> i < next_id s)"

fun run_reg :: "('a, 'i word) reg_op list \<Rightarrow> 's \<Rightarrow> 'i word list \<times> 's" where
  "run_reg [] s = ([], s)"
| "run_reg (Register a # ops) s =
     (let (ids, s') = run_reg ops (snd (register a s)) in (fst (register a s) # ids, s'))"
| "run_reg (Unregister i # ops) s = run_reg ops (unregister i s)"

fun registrations :: "('a, 'i word) reg_op list \<Rightarrow> nat" where
  "registrations [] = 0"
| "registrations (Register a # ops) = Suc (registrations ops)"
| "registrations (Unregister i # ops) = registrations ops"

lemma fresh_id: "reg_ok s \<Longrightarrow> entries s (fst (register a s)) = None"
  by (auto simp: reg_ok_def register_id)

lemma register_ok:
  assumes "reg_ok s" "next_id s \<noteq> -1" shows "reg_ok (snd (register a s))"
proof -
  obtain v where "entries (snd (register a s)) = (entries s)(next_id s \<mapsto> v)" using register_entries by blast
  then show ?thesis using assms(1) word_less_Suc [OF assms(2)]
    by (auto simp: reg_ok_def register_next split: if_splits)
qed

lemma unregister_ok: "reg_ok s \<Longrightarrow> reg_ok (unregister i s)"
  by (auto simp: reg_ok_def unregister_entries unregister_next)

lemma registered: "entries (snd (register a s)) (fst (register a s)) \<noteq> None"
  using register_entries [of a s] register_id [of a s] by auto

lemma register_others: "j \<noteq> fst (register a s) \<Longrightarrow> entries (snd (register a s)) j = entries s j"
  using register_entries [of a s] register_id [of a s] by auto

lemma run_reg_ids:
  "unat (next_id s) + registrations ops < 2 ^ LENGTH('i) \<Longrightarrow>
   fst (run_reg ops s) = map (\<lambda>k. next_id s + of_nat k) [0..<registrations ops]
   \<and> next_id (snd (run_reg ops s)) = next_id s + of_nat (registrations ops)"
proof (induction ops s rule: run_reg.induct)
  case (2 a ops s)
  have u: "unat (next_id s + 1) = Suc (unat (next_id s))"
    using 2(2) by (simp add: unat_word_ariths)
  with 2 show ?case
    by (simp add: register_id register_next case_prod_beta upt_conv_Cons map_Suc_upt [symmetric] algebra_simps
        del: upt_Suc)
qed (simp_all add: unregister_next)

text \<open>Over any sequence of operations no id is handed out twice.\<close>
lemma run_reg_distinct:
  assumes "unat (next_id s) + registrations ops < 2 ^ LENGTH('i)"
  shows "distinct (fst (run_reg ops s))"
proof -
  have "inj_on (\<lambda>k. next_id s + of_nat k) {0..<registrations ops}"
  proof (rule inj_onI)
    fix x y assume "x \<in> {0..<registrations ops}" "y \<in> {0..<registrations ops}"
      and e: "next_id s + of_nat x = next_id s + of_nat y"
    then have "x < 2 ^ LENGTH('i)" "y < 2 ^ LENGTH('i)" using assms by auto
    moreover from e have "(of_nat x :: 'i word) = of_nat y" by simp
    ultimately show "x = y" by (simp add: word_of_nat_eq_iff take_bit_nat_eq_self)
  qed
  then show ?thesis using run_reg_ids [OF assms] by (simp add: distinct_map)
qed

lemma run_reg_ok:
  "reg_ok s \<Longrightarrow> unat (next_id s) + registrations ops < 2 ^ LENGTH('i) \<Longrightarrow> reg_ok (snd (run_reg ops s))"
proof (induction ops s rule: run_reg.induct)
  case (2 a ops s)
  have "unat (-1 :: 'i word) = 2 ^ LENGTH('i) - 1" by (simp add: unsigned_minus_1_eq_mask mask_eq_exp_minus_1)
  then have ne: "next_id s \<noteq> -1" using 2(3) by auto
  have u: "unat (next_id s + 1) = Suc (unat (next_id s))"
    using 2(3) by (simp add: unat_word_ariths)
  from 2(1) [OF register_ok [OF 2(2) ne]] 2(3) u show ?case by (simp add: register_next case_prod_beta)
qed (simp_all add: unregister_next unregister_ok)

end

end
