(* ===== verification/Supervisor.thy ===== *)
theory Supervisor
  imports Id_Registry "HOL-Library.AList"
begin

text \<open>
  The fallback worker: \<open>strake-fallback-supervisor\<close> (\<open>backend.rs\<close>, \<open>supervisor.rs\<close>,
  \<open>testing.rs\<close>, \<open>widget.rs\<close>).

  The backend is a parameter of the supervisor in the source (a trait) and here: a record
  of functions on its state.  \<open>worker_backend\<close> is the freshness contract of the trait's
  documentation, \<open>fake_backend\<close> the double of \<open>testing.rs\<close>, which satisfies it.  A
  \<open>Duration\<close> is its number of nanoseconds, a \<open>HashMap\<close> an association list without
  repeated keys.  The counters wrap, as they do in a release build.
\<close>

section \<open>Frames\<close>

type_synonym u8 = "8 word"
text \<open>A \<open>f64\<close> that is carried and not computed with: its bits.\<close>
type_synonym f64_bits = u64

record spawn_spec =
  spec_url :: string
  spec_width :: u32
  spec_height :: u32
  spec_scale :: f64_bits

datatype supervisor_error = SpawnFailed string | UnknownSurface u64

record cpu_frame =
  frame_width :: u32
  frame_height :: u32
  frame_rgba :: "u8 list"

text \<open>\<open>usize::checked_mul\<close> on a 64-bit target.\<close>
definition checked_mul :: "u64 \<Rightarrow> u64 \<Rightarrow> u64 option" where
  "checked_mul a b = (if unat a * unat b < 2 ^ 64 then Some (a * b) else None)"

definition byte_len :: "u32 \<Rightarrow> u32 \<Rightarrow> u64 option" where
  "byte_len w h = do { p \<leftarrow> checked_mul (ucast w) (ucast h); checked_mul p 4 }"

text \<open>\<open>reserve n\<close>: whether the allocator grants \<open>n\<close> bytes.\<close>
definition frame_solid :: "(u64 \<Rightarrow> bool) \<Rightarrow> u32 \<Rightarrow> u32 \<Rightarrow> u8 list \<Rightarrow> cpu_frame option" where
  "frame_solid reserve w h pixel = do {
      bytes \<leftarrow> byte_len w h;
      if reserve bytes
      then Some \<lparr> frame_width = w, frame_height = h,
                  frame_rgba = concat (replicate (unat (bytes div 4)) pixel) \<rparr>
      else None }"

definition from_rgba :: "u32 \<Rightarrow> u32 \<Rightarrow> u8 list \<Rightarrow> cpu_frame option" where
  "from_rgba w h rgba = do {
      n \<leftarrow> byte_len w h;
      if length rgba = unat n then Some \<lparr> frame_width = w, frame_height = h, frame_rgba = rgba \<rparr> else None }"

lemma checked_mul_Some: "checked_mul a b = Some c \<longleftrightarrow> unat c = unat a * unat b"
proof (cases "unat a * unat b < 2 ^ 64")
  case True
  then have "unat (a * b) = unat a * unat b" by (simp add: unat_word_ariths)
  then show ?thesis using True by (auto simp: checked_mul_def word_unat_eq_iff)
next
  case False
  have "unat c < 2 ^ 64" using unsigned_less [of c] by simp
  with False show ?thesis by (auto simp: checked_mul_def)
qed

lemma byte_len_Some: "byte_len w h = Some n \<longleftrightarrow> unat n = 4 * unat w * unat h"
proof -
  have u: "unat (ucast x :: u64) = unat x" for x :: u32
  proof -
    have "unat x < 2 ^ LENGTH(32)" by (rule unsigned_less)
    then show ?thesis by (simp add: unsigned_ucast_eq take_bit_nat_eq_self)
  qed
  have "byte_len w h = Some n \<longleftrightarrow>
      (\<exists>p::u64. unat p = unat w * unat h \<and> unat n = unat p * 4)"
    unfolding byte_len_def bind_eq_Some_conv checked_mul_Some u by (simp add: eq_commute)
  moreover have "\<exists>p::u64. unat p = unat w * unat h"
  proof -
    have "unat w < 2 ^ 32" "unat h < 2 ^ 32" using unsigned_less [of w] unsigned_less [of h] by simp_all
    then have "unat w * unat h < 2 ^ 32 * 2 ^ 32" by (intro mult_strict_mono) simp_all
    then have "unat (ucast w * ucast h :: u64) = unat w * unat h"
      by (simp add: unat_word_ariths u)
    then show ?thesis by blast
  qed
  ultimately have "byte_len w h = Some n \<longleftrightarrow> unat n = unat w * unat h * 4" by metis
  then show ?thesis by (simp add: ac_simps)
qed

section \<open>The backend\<close>

record 'b backend =
  be_spawn :: "spawn_spec \<Rightarrow> 'b \<Rightarrow> (string + unit) \<times> 'b"
  be_wake :: "'b \<Rightarrow> 'b"
  be_hibernate :: "'b \<Rightarrow> 'b"
  be_terminate :: "'b \<Rightarrow> 'b"
  be_frame :: "'b \<Rightarrow> cpu_frame option \<times> 'b"

text \<open>\<open>testing.rs\<close>.\<close>
record fake =
  fake_spawns :: u32
  fake_wakes :: u32
  fake_hibernates :: u32
  fake_terminates :: u32
  fake_live :: bool
  fail_next_spawn :: "string option"
  next_frame :: "cpu_frame option"

definition fake_new :: fake where
  "fake_new = \<lparr> fake_spawns = 0, fake_wakes = 0, fake_hibernates = 0, fake_terminates = 0,
     fake_live = False, fail_next_spawn = None, next_frame = None \<rparr>"

definition fake_failing :: "string \<Rightarrow> fake" where
  "fake_failing msg = fake_new\<lparr>fail_next_spawn := Some msg\<rparr>"

definition fake_with_frame :: "cpu_frame \<Rightarrow> fake" where
  "fake_with_frame f = fake_new\<lparr>next_frame := Some f\<rparr>"

definition fake_backend :: "fake backend" where
  "fake_backend = \<lparr>
     be_spawn = (\<lambda>_ b. case fail_next_spawn b of
         Some msg \<Rightarrow> (Inl msg, b\<lparr>fail_next_spawn := None\<rparr>)
       | None \<Rightarrow> (Inr (), b\<lparr>fake_live := True, fake_spawns := fake_spawns b + 1\<rparr>)),
     be_wake = (\<lambda>b. b\<lparr>fake_live := True, fake_wakes := fake_wakes b + 1\<rparr>),
     be_hibernate = (\<lambda>b. b\<lparr>fake_live := False, next_frame := None, fake_hibernates := fake_hibernates b + 1\<rparr>),
     be_terminate = (\<lambda>b. b\<lparr>fake_live := False, next_frame := None, fake_terminates := fake_terminates b + 1\<rparr>),
     be_frame = (\<lambda>b. (if fake_live b then next_frame b else None, b)) \<rparr>"

section \<open>The supervisor\<close>

definition HIBERNATE_AFTER :: nat where "HIBERNATE_AFTER = 15 * 10 ^ 9"
definition TERMINATE_AFTER :: nat where "TERMINATE_AFTER = 30 * 10 ^ 9"

definition spawn_warning :: "string \<Rightarrow> string" where
  "spawn_warning url = ''[Strake Fallback] Spawning headless Chromium worker for '' @ url
     @ ''. Migrate to native Strake API to preserve <30MB memory profile.''"

definition terminate_warning :: string where
  "terminate_warning = ''[Strake Fallback] Terminating idle worker; memory reclaimed to native baseline.''"

datatype worker_state = Unloaded | Active | Hibernated

record 'b supervisor =
  sup_backend :: 'b
  sup_state :: worker_state
  surfaces :: "(u64 \<times> bool) list"
  next_surface_id :: u64
  occluded_since :: "nat option"
  emptied_at :: "nat option"
  warnings :: "string list"
  epoch :: u64

definition supervisor_new :: "'b \<Rightarrow> 'b supervisor" where
  "supervisor_new b = \<lparr> sup_backend = b, sup_state = Unloaded, surfaces = [], next_surface_id = 0,
     occluded_since = None, emptied_at = None, warnings = [], epoch = 0 \<rparr>"

definition surface_count :: "'b supervisor \<Rightarrow> nat" where
  "surface_count s = length (surfaces s)"

definition any_visible :: "'b supervisor \<Rightarrow> bool" where
  "any_visible s \<longleftrightarrow> list_ex snd (surfaces s)"

definition take_warnings :: "'b supervisor \<Rightarrow> string list \<times> 'b supervisor" where
  "take_warnings s = (warnings s, s\<lparr>warnings := []\<rparr>)"

definition wake_worker :: "'b backend \<Rightarrow> 'b supervisor \<Rightarrow> 'b supervisor" where
  "wake_worker be s = s\<lparr>sup_backend := be_wake be (sup_backend s), sup_state := Active, epoch := epoch s + 1\<rparr>"

text \<open>The worker is there for a new surface: spawned, woken, or running.\<close>
definition ensure_worker :: "'b backend \<Rightarrow> spawn_spec \<Rightarrow> 'b supervisor \<Rightarrow> (supervisor_error + unit) \<times> 'b supervisor" where
  "ensure_worker be spec s = (case sup_state s of
      Unloaded \<Rightarrow> (case be_spawn be spec (sup_backend s) of
          (Inl msg, b) \<Rightarrow> (Inl (SpawnFailed msg), s\<lparr>sup_backend := b\<rparr>)
        | (Inr _, b) \<Rightarrow> (Inr (), s\<lparr>sup_backend := b, sup_state := Active,
            warnings := warnings s @ [spawn_warning (spec_url spec)]\<rparr>))
    | Hibernated \<Rightarrow> (Inr (), wake_worker be s)
    | Active \<Rightarrow> (Inr (), s))"

definition insert_surface :: "'b supervisor \<Rightarrow> u64 \<times> 'b supervisor" where
  "insert_surface s = (next_surface_id s,
     s\<lparr>next_surface_id := next_surface_id s + 1, surfaces := AList.update (next_surface_id s) True (surfaces s),
       occluded_since := None, emptied_at := None\<rparr>)"

definition add_surface :: "'b backend \<Rightarrow> spawn_spec \<Rightarrow> 'b supervisor \<Rightarrow> (supervisor_error + u64) \<times> 'b supervisor" where
  "add_surface be spec s = (case ensure_worker be spec s of
      (Inl e, s1) \<Rightarrow> (Inl e, s1)
    | (Inr _, s1) \<Rightarrow> let (i, s2) = insert_surface s1 in (Inr i, s2))"

definition note_occluded :: "nat \<Rightarrow> 'b supervisor \<Rightarrow> 'b supervisor" where
  "note_occluded now s = s\<lparr>occluded_since := Some (case occluded_since s of None \<Rightarrow> now | Some t \<Rightarrow> t)\<rparr>"

definition remove_surface :: "u64 \<Rightarrow> nat \<Rightarrow> 'b supervisor \<Rightarrow> (supervisor_error + unit) \<times> 'b supervisor" where
  "remove_surface i now s = (case map_of (surfaces s) i of
      None \<Rightarrow> (Inl (UnknownSurface i), s)
    | Some _ \<Rightarrow>
        let s1 = s\<lparr>surfaces := AList.delete i (surfaces s)\<rparr> in
        (Inr (), if surfaces s1 = [] then s1\<lparr>emptied_at := Some now, occluded_since := None\<rparr>
                 else if \<not> any_visible s1 then note_occluded now s1 else s1))"

definition set_visible :: "'b backend \<Rightarrow> u64 \<Rightarrow> bool \<Rightarrow> nat \<Rightarrow> 'b supervisor \<Rightarrow> (supervisor_error + unit) \<times> 'b supervisor" where
  "set_visible be i visible now s = (case map_of (surfaces s) i of
      None \<Rightarrow> (Inl (UnknownSurface i), s)
    | Some _ \<Rightarrow>
        let s1 = s\<lparr>surfaces := AList.update i visible (surfaces s)\<rparr> in
        (Inr (), if visible
                 then (let s2 = s1\<lparr>occluded_since := None\<rparr> in if sup_state s2 = Hibernated then wake_worker be s2 else s2)
                 else if \<not> any_visible s1 then note_occluded now s1 else s1))"

text \<open>\<open>now.saturating_sub(t) >= after\<close>.\<close>
definition elapsed :: "nat \<Rightarrow> nat \<Rightarrow> nat \<Rightarrow> bool" where
  "elapsed after now t \<longleftrightarrow> after \<le> now - t"

definition poll :: "'b backend \<Rightarrow> nat \<Rightarrow> 'b supervisor \<Rightarrow> 'b supervisor" where
  "poll be now s =
    (if surfaces s = [] then
       (case emptied_at s of
          Some t \<Rightarrow> if sup_state s \<noteq> Unloaded \<and> elapsed TERMINATE_AFTER now t
            then s\<lparr>sup_backend := be_terminate be (sup_backend s), sup_state := Unloaded, emptied_at := None,
                   epoch := epoch s + 1, warnings := warnings s @ [terminate_warning]\<rparr>
            else s
        | None \<Rightarrow> s)
     else (case occluded_since s of
          Some t \<Rightarrow> if sup_state s = Active \<and> elapsed HIBERNATE_AFTER now t
            then s\<lparr>sup_backend := be_hibernate be (sup_backend s), sup_state := Hibernated, epoch := epoch s + 1\<rparr>
            else s
        | None \<Rightarrow> s))"

definition pump_frame :: "'b backend \<Rightarrow> 'b supervisor \<Rightarrow> cpu_frame option \<times> 'b supervisor" where
  "pump_frame be s = (if sup_state s \<noteq> Active then (None, s)
     else let (f, b) = be_frame be (sup_backend s) in (f, s\<lparr>sup_backend := b\<rparr>))"

interpretation sup_ids: id_registry "\<lambda>s. map_of (surfaces s)" next_surface_id "\<lambda>u::unit. insert_surface"
    "\<lambda>i s. s\<lparr>surfaces := AList.delete i (surfaces s)\<rparr>"
  by unfold_locales (auto simp: insert_surface_def update_conv' delete_conv')

section \<open>The widget\<close>

record widget =
  w_frame :: "cpu_frame option"
  generation :: u64
  painted_generation :: u64

definition widget_new :: widget where
  "widget_new = \<lparr> w_frame = None, generation = 0, painted_generation = 0 \<rparr>"

definition set_frame :: "cpu_frame \<Rightarrow> widget \<Rightarrow> widget" where
  "set_frame f w = w\<lparr>generation := generation w + 1, w_frame := Some f\<rparr>"

definition has_frame :: "widget \<Rightarrow> bool" where
  "has_frame w \<longleftrightarrow> w_frame w \<noteq> None"

definition requires_redraw :: "widget \<Rightarrow> bool" where
  "requires_redraw w \<longleftrightarrow> w_frame w \<noteq> None \<and> generation w \<noteq> painted_generation w"

text \<open>Width and height of the replaced element, \<open>None\<close> for the default; the ratio is absent
  when the height is zero.\<close>
definition intrinsic_sizes :: "widget \<Rightarrow> (u32 \<times> u32 \<times> (u32 \<times> u32) option) option" where
  "intrinsic_sizes w = map_option (\<lambda>f. (frame_width f, frame_height f,
      if frame_height f = 0 then None else Some (frame_width f, frame_height f))) (w_frame w)"

text \<open>The value is the image drawn, scaled to the box of the given size.\<close>
definition paint :: "u32 \<Rightarrow> u32 \<Rightarrow> widget \<Rightarrow> (cpu_frame \<times> u32 \<times> u32) option \<times> widget" where
  "paint width height w = (case w_frame w of
      None \<Rightarrow> (None, w)
    | Some f \<Rightarrow> (if frame_width f = 0 \<or> frame_height f = 0 \<or> width = 0 \<or> height = 0 then None
                 else Some (f, width, height),
                w\<lparr>painted_generation := generation w\<rparr>))"

definition disconnected :: "widget \<Rightarrow> widget" where
  "disconnected w = w\<lparr>w_frame := None\<rparr>"

end
