(* ===== verification/Supervisor_Lifecycle.thy ===== *)
theory Supervisor_Lifecycle
  imports Supervisor
begin

text \<open>
  What the supervisor guarantees over any sequence of events: the invariant of its state,
  when it evicts the worker, the protocol it drives the backend by, and that no stale frame
  crosses a change of epoch.
\<close>

section \<open>Events\<close>

datatype sup_event =
    AddSurface spawn_spec
  | RemoveSurface u64 nat
  | SetVisible u64 bool nat
  | Poll nat
  | PumpFrame
  | TakeWarnings

fun sup_step :: "'b backend \<Rightarrow> sup_event \<Rightarrow> 'b supervisor \<Rightarrow> 'b supervisor" where
  "sup_step be (AddSurface spec) s = snd (add_surface be spec s)"
| "sup_step be (RemoveSurface i now) s = snd (remove_surface i now s)"
| "sup_step be (SetVisible i v now) s = snd (set_visible be i v now s)"
| "sup_step be (Poll now) s = poll be now s"
| "sup_step be PumpFrame s = snd (pump_frame be s)"
| "sup_step be TakeWarnings s = snd (take_warnings s)"

inductive sup_reaches :: "'b backend \<Rightarrow> 'b \<Rightarrow> 'b supervisor \<Rightarrow> bool" for be b where
  sup_init: "sup_reaches be b (supervisor_new b)"
| sup_event: "sup_reaches be b s \<Longrightarrow> sup_reaches be b (sup_step be e s)"

inductive_cases sup_reaches_cases: "sup_reaches be b s"

section \<open>The invariant\<close>

definition sup_inv :: "'b supervisor \<Rightarrow> bool" where
  "sup_inv s \<longleftrightarrow> distinct (map fst (surfaces s))
     \<and> (sup_state s = Unloaded \<longrightarrow> surfaces s = [])
     \<and> (any_visible s \<longrightarrow> sup_state s = Active)
     \<and> ((occluded_since s \<noteq> None) = (surfaces s \<noteq> [] \<and> \<not> any_visible s))
     \<and> ((emptied_at s \<noteq> None) = (surfaces s = [] \<and> sup_state s \<noteq> Unloaded))"

lemma any_visible_update [simp]: "any_visible (s\<lparr>surfaces := AList.update i True al\<rparr>)"
  by (induction al) (auto simp: any_visible_def)

lemma any_visible_fields [simp]:
  "any_visible (s\<lparr>occluded_since := a\<rparr>) = any_visible s" "any_visible (s\<lparr>emptied_at := a\<rparr>) = any_visible s"
  "any_visible (s\<lparr>sup_backend := b\<rparr>) = any_visible s" "any_visible (s\<lparr>sup_state := st\<rparr>) = any_visible s"
  "any_visible (s\<lparr>epoch := n\<rparr>) = any_visible s" "any_visible (s\<lparr>warnings := ws\<rparr>) = any_visible s"
  "any_visible (s\<lparr>next_surface_id := k\<rparr>) = any_visible s"
  by (simp_all add: any_visible_def)

lemma any_visible_Nil: "surfaces s = [] \<Longrightarrow> \<not> any_visible s"
  by (simp add: any_visible_def)

lemma any_visible_delete: "any_visible (s\<lparr>surfaces := AList.delete i (surfaces s)\<rparr>) \<Longrightarrow> any_visible s"
  by (force simp: any_visible_def list_ex_iff AList.delete_eq)

lemma update_not_Nil [simp]: "AList.update k v al \<noteq> []"
  by (cases al) auto

lemma any_visible_hide: "any_visible (s\<lparr>surfaces := AList.update i False (surfaces s)\<rparr>) \<Longrightarrow> any_visible s"
proof -
  have "list_ex snd (AList.update i False al) \<Longrightarrow> list_ex snd al" for al :: "(u64 \<times> bool) list"
    by (induction al) (auto split: if_splits)
  then show "any_visible (s\<lparr>surfaces := AList.update i False (surfaces s)\<rparr>) \<Longrightarrow> any_visible s"
    by (simp add: any_visible_def)
qed

lemma add_surface_inv:
  assumes "sup_inv s" shows "sup_inv (snd (add_surface be spec s))"
proof (cases "ensure_worker be spec s")
  case (Pair r s1)
  have s1: "surfaces s1 = surfaces s" "occluded_since s1 = occluded_since s" "emptied_at s1 = emptied_at s"
    "next_surface_id s1 = next_surface_id s"
    "case r of Inl _ \<Rightarrow> sup_state s1 = sup_state s | Inr _ \<Rightarrow> sup_state s1 = Active"
    using Pair by (auto simp: ensure_worker_def wake_worker_def split: worker_state.splits prod.splits sum.splits)
  then have av: "any_visible s1 = any_visible s" by (simp add: any_visible_def)
  show ?thesis
    using assms s1 av distinct_update [of "surfaces s" "next_surface_id s" True]
    by (auto simp: add_surface_def Pair insert_surface_def sup_inv_def Let_def split: sum.splits)
qed

lemma remove_surface_inv:
  assumes inv: "sup_inv s" shows "sup_inv (snd (remove_surface i now s))"
proof (cases "map_of (surfaces s) i")
  case None
  then show ?thesis using inv by (simp add: remove_surface_def)
next
  case (Some v)
  define s1 where "s1 = s\<lparr>surfaces := AList.delete i (surfaces s)\<rparr>"
  have ne: "surfaces s \<noteq> []" using Some by auto
  have s1: "sup_state s1 = sup_state s" "occluded_since s1 = occluded_since s" "emptied_at s1 = emptied_at s"
    by (simp_all add: s1_def)
  have vis: "any_visible s1 \<Longrightarrow> any_visible s" unfolding s1_def by (rule any_visible_delete)
  have dist: "distinct (map fst (surfaces s1))"
    using inv by (simp add: s1_def sup_inv_def distinct_delete)
  have "snd (remove_surface i now s) = (if surfaces s1 = [] then s1\<lparr>emptied_at := Some now, occluded_since := None\<rparr>
      else if \<not> any_visible s1 then note_occluded now s1 else s1)"
    using Some by (simp add: remove_surface_def s1_def Let_def)
  moreover have "surfaces s1 = [] \<Longrightarrow> \<not> any_visible s1" by (rule any_visible_Nil)
  moreover note inv [unfolded sup_inv_def] s1 vis dist ne
  ultimately show ?thesis unfolding sup_inv_def note_occluded_def
    by (cases "surfaces s1 = []"; cases "any_visible s1"; clarsimp)
qed

lemma set_visible_inv:
  assumes inv: "sup_inv s" shows "sup_inv (snd (set_visible be i v now s))"
proof (cases "map_of (surfaces s) i")
  case None
  then show ?thesis using inv by (simp add: set_visible_def)
next
  case (Some w)
  have ne: "surfaces s \<noteq> []" using Some by auto
  then have st: "sup_state s \<noteq> Unloaded" using inv by (simp add: sup_inv_def)
  have d: "distinct (map fst (AList.update i v (surfaces s)))"
    using inv distinct_update [of "surfaces s" i v] by (simp add: sup_inv_def)
  show ?thesis
  proof (cases v)
    case True
    then show ?thesis using inv Some d ne st
      by (cases "sup_state s") (simp_all add: set_visible_def sup_inv_def wake_worker_def Let_def)
  next
    case False
    define s1 where "s1 = s\<lparr>surfaces := AList.update i False (surfaces s)\<rparr>"
    have s1: "any_visible s1 \<Longrightarrow> any_visible s" "sup_state s1 = sup_state s"
      "occluded_since s1 = occluded_since s" "emptied_at s1 = emptied_at s" "surfaces s1 \<noteq> []"
      using any_visible_hide [where s = s and i = i] by (simp_all add: s1_def)
    have "snd (set_visible be i v now s) = (if \<not> any_visible s1 then note_occluded now s1 else s1)"
      using Some False by (simp add: set_visible_def s1_def Let_def)
    moreover have "distinct (map fst (surfaces s1))" using d False by (simp add: s1_def)
    ultimately show ?thesis using inv s1 ne st
      by (cases "any_visible s1") (simp_all add: sup_inv_def note_occluded_def)
  qed
qed

lemma poll_inv: "sup_inv s \<Longrightarrow> sup_inv (poll be now s)"
  by (auto simp: poll_def sup_inv_def any_visible_Nil split: option.splits)

lemma pump_inv: "sup_inv s \<Longrightarrow> sup_inv (snd (pump_frame be s))"
  by (auto simp: pump_frame_def sup_inv_def split: prod.splits)

lemma sup_step_inv: "sup_inv s \<Longrightarrow> sup_inv (sup_step be e s)"
  by (cases e) (simp_all add: add_surface_inv remove_surface_inv set_visible_inv poll_inv pump_inv
      take_warnings_def, simp add: sup_inv_def)

lemma sup_new_inv: "sup_inv (supervisor_new b)"
  by (simp add: sup_inv_def supervisor_new_def any_visible_def)

lemma sup_reaches_inv: "sup_reaches be b s \<Longrightarrow> sup_inv s"
  by (induction rule: sup_reaches.induct) (simp_all add: sup_new_inv sup_step_inv)

section \<open>The protocol of the backend\<close>

datatype call = SpawnOk | SpawnErr | Wake | Hibernate | Terminate | Frame

text \<open>What a worker may be asked in which state.\<close>
fun protocol :: "worker_state \<Rightarrow> call \<Rightarrow> worker_state option" where
  "protocol Unloaded SpawnOk = Some Active"
| "protocol Unloaded SpawnErr = Some Unloaded"
| "protocol Hibernated Wake = Some Active"
| "protocol Active Hibernate = Some Hibernated"
| "protocol Active Terminate = Some Unloaded"
| "protocol Hibernated Terminate = Some Unloaded"
| "protocol Active Frame = Some Active"
| "protocol _ _ = None"

fun run_protocol :: "worker_state \<Rightarrow> call list \<Rightarrow> worker_state option" where
  "run_protocol w [] = Some w"
| "run_protocol w (c # cs) = Option.bind (protocol w c) (\<lambda>w'. run_protocol w' cs)"

lemma run_protocol_append: "run_protocol w (cs @ ds) = Option.bind (run_protocol w cs) (\<lambda>w'. run_protocol w' ds)"
  by (induction cs arbitrary: w) auto

text \<open>A backend that logs the calls it forwards.\<close>
definition log_backend :: "'b backend \<Rightarrow> ('b \<times> call list) backend" where
  "log_backend be = \<lparr>
     be_spawn = (\<lambda>spec (b, cs). case be_spawn be spec b of
         (Inl e, b') \<Rightarrow> (Inl e, (b', cs @ [SpawnErr]))
       | (Inr u, b') \<Rightarrow> (Inr u, (b', cs @ [SpawnOk]))),
     be_wake = (\<lambda>(b, cs). (be_wake be b, cs @ [Wake])),
     be_hibernate = (\<lambda>(b, cs). (be_hibernate be b, cs @ [Hibernate])),
     be_terminate = (\<lambda>(b, cs). (be_terminate be b, cs @ [Terminate])),
     be_frame = (\<lambda>(b, cs). let (f, b') = be_frame be b in (f, (b', cs @ [Frame]))) \<rparr>"

definition logged :: "('b \<times> call list) supervisor \<Rightarrow> call list" where
  "logged s = snd (sup_backend s)"

definition follows :: "('b \<times> call list) supervisor \<Rightarrow> bool" where
  "follows s \<longleftrightarrow> run_protocol Unloaded (logged s) = Some (sup_state s)"

lemma follows_step:
  assumes "follows s" shows "follows (sup_step (log_backend be) e s)"
proof -
  obtain b cs where b: "sup_backend s = (b, cs)" by (cases "sup_backend s")
  have run: "run_protocol Unloaded (cs @ [c]) = protocol (sup_state s) c" for c
    using assms by (cases "protocol (sup_state s) c") (simp_all add: follows_def logged_def b run_protocol_append)
  have cs: "run_protocol Unloaded cs = Some (sup_state s)" using assms by (simp add: follows_def logged_def b)
  note defs = follows_def logged_def b run cs
  show ?thesis
  proof (cases e)
    case (AddSurface spec)
    then show ?thesis
      by (cases "sup_state s")
         (auto simp: defs add_surface_def ensure_worker_def wake_worker_def insert_surface_def log_backend_def Let_def
            split: prod.splits sum.splits)
  next
    case (RemoveSurface i now)
    then show ?thesis by (auto simp: defs remove_surface_def note_occluded_def Let_def split: option.splits)
  next
    case (SetVisible i v now)
    then show ?thesis
      by (auto simp: defs set_visible_def note_occluded_def wake_worker_def log_backend_def Let_def split: option.splits)
  next
    case (Poll now)
    then show ?thesis
      by (cases "sup_state s") (auto simp: defs poll_def log_backend_def split: option.splits)
  next
    case PumpFrame
    then show ?thesis by (auto simp: defs pump_frame_def log_backend_def Let_def split: prod.splits)
  next
    case TakeWarnings
    then show ?thesis by (simp add: defs take_warnings_def)
  qed
qed

section \<open>Freshness\<close>

text \<open>The contract of \<open>FallbackBackend::frame\<close>: a hibernation purges the worker, a purged worker has
  no frame, and a wake alone does not bring one.\<close>
locale worker_backend =
  fixes be :: "'b backend" and purged :: "'b \<Rightarrow> bool"
  assumes purged_frame: "purged b \<Longrightarrow> fst (be_frame be b) = None"
    and hibernate_purges: "purged (be_hibernate be b)"
    and terminate_purges: "purged (be_terminate be b)"
    and wake_purged: "purged b \<Longrightarrow> purged (be_wake be b)"

context worker_backend
begin

lemma hibernated_purged:
  "sup_reaches be b s \<Longrightarrow> sup_state s = Hibernated \<Longrightarrow> purged (sup_backend s)"
proof (induction rule: sup_reaches.induct)
  case (sup_event s e)
  show ?case
  proof (cases e)
    case (AddSurface spec)
    with sup_event show ?thesis
      by (auto simp: add_surface_def ensure_worker_def wake_worker_def insert_surface_def Let_def
          split: worker_state.splits prod.splits sum.splits)
  next
    case (RemoveSurface i now)
    with sup_event show ?thesis by (auto simp: remove_surface_def note_occluded_def Let_def split: option.splits if_splits)
  next
    case (SetVisible i v now)
    with sup_event show ?thesis
      by (auto simp: set_visible_def note_occluded_def wake_worker_def Let_def split: option.splits if_splits)
  next
    case (Poll now)
    with sup_event show ?thesis by (auto simp: poll_def hibernate_purges split: option.splits if_splits)
  qed (use sup_event in \<open>auto simp: pump_frame_def take_warnings_def split: prod.splits if_splits\<close>)
qed (simp add: supervisor_new_def)

text \<open>Right after an event that starts a new epoch there is no frame to present.\<close>
lemma no_stale_frame:
  assumes r: "sup_reaches be b s" and ep: "epoch (sup_step be e s) \<noteq> epoch s"
  shows "fst (pump_frame be (sup_step be e s)) = None"
proof -
  have none: "fst (be_frame be (be_wake be (sup_backend s))) = None" if "sup_state s = Hibernated"
    by (rule purged_frame [OF wake_purged [OF hibernated_purged [OF r that]]])
  then have none': "x = None" if "sup_state s = Hibernated" "be_frame be (be_wake be (sup_backend s)) = (x, y)" for x y
    using that by force
  show ?thesis
  proof (cases e)
    case (AddSurface spec)
    with ep none' show ?thesis
      by (auto simp: add_surface_def ensure_worker_def wake_worker_def insert_surface_def pump_frame_def Let_def
          split: worker_state.splits prod.splits sum.splits if_splits)
  next
    case (RemoveSurface i now)
    with ep show ?thesis by (auto simp: remove_surface_def note_occluded_def Let_def split: option.splits if_splits)
  next
    case (SetVisible i v now)
    with ep none' show ?thesis
      by (auto simp: set_visible_def note_occluded_def wake_worker_def pump_frame_def Let_def
          split: option.splits prod.splits if_splits)
  next
    case (Poll now)
    with ep show ?thesis by (auto simp: poll_def pump_frame_def split: option.splits if_splits)
  qed (use ep in \<open>auto simp: pump_frame_def take_warnings_def split: prod.splits if_splits\<close>)
qed

end

interpretation fake: worker_backend fake_backend "\<lambda>b. next_frame b = None"
  by unfold_locales (auto simp: fake_backend_def)

section \<open>Properties\<close>

text \<open>C7. In every state the supervisor reaches, a visible surface has a running worker, no worker
  means no surface, and the two clocks run exactly when every surface is occluded and when
  none is left.\<close>
theorem supervisor_invariant:
  assumes "sup_reaches be b s"
  shows "(any_visible s \<longrightarrow> sup_state s = Active) \<and> (sup_state s = Unloaded \<longrightarrow> surface_count s = 0)
    \<and> ((occluded_since s \<noteq> None) = (surface_count s \<noteq> 0 \<and> \<not> any_visible s))
    \<and> ((emptied_at s \<noteq> None) = (surface_count s = 0 \<and> sup_state s \<noteq> Unloaded))"
  using sup_reaches_inv [OF assms] by (simp add: sup_inv_def surface_count_def)

definition ex_spec :: spawn_spec where
  "ex_spec = \<lparr> spec_url = ''u'', spec_width = 2, spec_height = 1, spec_scale = 0 \<rparr>"

definition ex_occluded :: "fake supervisor" where
  "ex_occluded = sup_step fake_backend (SetVisible 0 False 5)
     (sup_step fake_backend (AddSurface ex_spec) (supervisor_new fake_new))"

lemma ex_occluded_reached: "sup_reaches fake_backend fake_new ex_occluded"
  unfolding ex_occluded_def by (intro sup_reaches.intros)

lemma ex_occluded_state:
  "sup_state ex_occluded = Active" "surfaces ex_occluded = [(0, False)]" "occluded_since ex_occluded = Some 5"
  by (simp_all add: ex_occluded_def supervisor_new_def add_surface_def ensure_worker_def fake_backend_def
      fake_new_def insert_surface_def set_visible_def note_occluded_def any_visible_def Let_def)

theorem supervisor_invariant_witness:
  "\<not> any_visible ex_occluded \<and> sup_state ex_occluded = Active \<and> occluded_since ex_occluded \<noteq> None"
  using supervisor_invariant [OF ex_occluded_reached] ex_occluded_state
  by (simp add: any_visible_def surface_count_def)

lemma elapsed_iff: "0 < after \<Longrightarrow> elapsed after now t \<longleftrightarrow> t + after \<le> now"
  by (auto simp: elapsed_def)

text \<open>C8. Eviction is exact: a worker whose surfaces are all occluded hibernates at the first poll
  fifteen seconds after the last one was occluded and not before, a worker without surfaces
  terminates at the first poll thirty seconds after the last one went and not before, a poll
  changes nothing while a surface is visible, and nothing but a poll takes a worker out of
  the running state.\<close>
theorem eviction_exact:
  assumes "sup_reaches be b s"
  shows "(sup_state s = Active \<and> surface_count s \<noteq> 0 \<and> \<not> any_visible s \<longrightarrow>
      (\<exists>t. occluded_since s = Some t \<and>
        (\<forall>now. sup_state (poll be now s) = (if t + HIBERNATE_AFTER \<le> now then Hibernated else Active))))
    \<and> (sup_state s \<noteq> Unloaded \<and> surface_count s = 0 \<longrightarrow>
      (\<exists>t. emptied_at s = Some t \<and>
        (\<forall>now. sup_state (poll be now s) = (if t + TERMINATE_AFTER \<le> now then Unloaded else sup_state s))))
    \<and> (any_visible s \<longrightarrow> poll be now s = s)
    \<and> (sup_state s = Active \<and> (\<forall>now. e \<noteq> Poll now) \<longrightarrow> sup_state (sup_step be e s) = Active)"
proof (intro conjI impI)
  note inv = sup_reaches_inv [OF assms, unfolded sup_inv_def]
  show "\<exists>t. occluded_since s = Some t \<and>
        (\<forall>now. sup_state (poll be now s) = (if t + HIBERNATE_AFTER \<le> now then Hibernated else Active))"
    if "sup_state s = Active \<and> surface_count s \<noteq> 0 \<and> \<not> any_visible s"
    using inv that by (auto simp: poll_def surface_count_def elapsed_iff HIBERNATE_AFTER_def)
  show "\<exists>t. emptied_at s = Some t \<and>
        (\<forall>now. sup_state (poll be now s) = (if t + TERMINATE_AFTER \<le> now then Unloaded else sup_state s))"
    if "sup_state s \<noteq> Unloaded \<and> surface_count s = 0"
    using inv that by (auto simp: poll_def surface_count_def elapsed_iff TERMINATE_AFTER_def)
  show "poll be now s = s" if "any_visible s"
    using inv that any_visible_Nil [of s] by (auto simp: poll_def split: option.split)
  show "sup_state (sup_step be e s) = Active" if "sup_state s = Active \<and> (\<forall>now. e \<noteq> Poll now)"
    using that by (cases e)
      (auto simp: add_surface_def ensure_worker_def insert_surface_def remove_surface_def set_visible_def
        note_occluded_def wake_worker_def pump_frame_def take_warnings_def Let_def split: option.split prod.split)
qed

theorem eviction_exact_witness:
  "sup_state (poll fake_backend 15000000004 ex_occluded) = Active
   \<and> sup_state (poll fake_backend 15000000005 ex_occluded) = Hibernated"
  using eviction_exact [OF ex_occluded_reached] ex_occluded_state
  by (simp add: any_visible_def surface_count_def HIBERNATE_AFTER_def)

text \<open>C9. Over any events the backend sees a word of its protocol: spawned only when there is no
  worker, woken only when hibernated, asked for frames and hibernated only when running,
  terminated only when there is one; and the supervisor's state is the protocol's.\<close>
theorem backend_protocol_followed:
  assumes "sup_reaches (log_backend be) (b, []) s"
  shows "run_protocol Unloaded (logged s) = Some (sup_state s)"
proof -
  have "sup_reaches (log_backend be) (b, []) s \<Longrightarrow> follows s"
    by (induction rule: sup_reaches.induct) (simp_all add: follows_step, simp add: follows_def logged_def supervisor_new_def)
  with assms show ?thesis by (simp add: follows_def)
qed

theorem backend_protocol_followed_witness:
  "run_protocol Unloaded (logged (sup_step (log_backend fake_backend) (AddSurface ex_spec)
      (supervisor_new (fake_new, [])))) = Some Active"
  using backend_protocol_followed [OF sup_event [OF sup_init, of "log_backend fake_backend" "(fake_new, [])" "AddSurface ex_spec"]]
  by (simp add: supervisor_new_def add_surface_def ensure_worker_def log_backend_def fake_backend_def
      fake_new_def insert_surface_def Let_def)

text \<open>C10. With a backend that keeps the freshness contract, whatever changes the epoch (hibernation,
  wake, termination) leaves no frame to present: no bitmap of the previous epoch is shown.\<close>
theorem no_stale_frame_across_epochs:
  assumes "worker_backend be purged" "sup_reaches be b s" "epoch (sup_step be e s) \<noteq> epoch s"
  shows "fst (pump_frame be (sup_step be e s)) = None"
  using worker_backend.no_stale_frame [OF assms] .

theorem no_stale_frame_across_epochs_witness:
  "fst (pump_frame fake_backend (sup_step fake_backend (Poll 15000000005) ex_occluded)) = None"
proof (rule no_stale_frame_across_epochs [OF _ ex_occluded_reached])
  show "worker_backend fake_backend (\<lambda>b. next_frame b = None)" by unfold_locales
  show "epoch (sup_step fake_backend (Poll 15000000005) ex_occluded) \<noteq> epoch ex_occluded"
    by (simp add: poll_def ex_occluded_state elapsed_def HIBERNATE_AFTER_def)
qed

text \<open>C11. A frame is built from a buffer exactly when its length is four bytes a pixel, computed
  without wrap-around, and a solid frame has that length.\<close>
theorem frame_geometry:
  "(from_rgba w h px = Some \<lparr> frame_width = w, frame_height = h, frame_rgba = px \<rparr>
      \<longleftrightarrow> length px = 4 * unat w * unat h \<and> length px < 2 ^ 64)
   \<and> (from_rgba w h px \<noteq> None \<longleftrightarrow> length px = 4 * unat w * unat h \<and> length px < 2 ^ 64)
   \<and> (frame_solid reserve w h [r, g, b, a] = Some f
      \<longrightarrow> frame_width f = w \<and> frame_height f = h \<and> length (frame_rgba f) = 4 * unat w * unat h)"
proof -
  have len: "(\<exists>n. byte_len w h = Some n \<and> length px = unat n) \<longleftrightarrow> length px = 4 * unat w * unat h \<and> length px < 2 ^ 64"
  proof
    assume "\<exists>n. byte_len w h = Some n \<and> length px = unat n"
    then obtain n where n: "byte_len w h = Some n" "length px = unat n" by blast
    have "unat n < 2 ^ LENGTH(64)" by (rule unsigned_less)
    with n show "length px = 4 * unat w * unat h \<and> length px < 2 ^ 64" by (simp add: byte_len_Some)
  next
    assume l: "length px = 4 * unat w * unat h \<and> length px < 2 ^ 64"
    have "unat (of_nat k :: u64) = k" if "k < 2 ^ 64" for k
      using that by (simp add: unat_of_nat take_bit_nat_eq_self)
    with l have u: "unat (of_nat (length px) :: u64) = length px" by blast
    with l have "byte_len w h = Some (of_nat (length px))" by (simp only: byte_len_Some)
    with u show "\<exists>n. byte_len w h = Some n \<and> length px = unat n" by metis
  qed
  have rgba: "from_rgba w h px = (if \<exists>n. byte_len w h = Some n \<and> length px = unat n
      then Some \<lparr> frame_width = w, frame_height = h, frame_rgba = px \<rparr> else None)"
    by (cases "byte_len w h") (auto simp: from_rgba_def)
  have solid: "length (concat (replicate (unat (n div 4)) [r, g, b, a])) = 4 * unat w * unat h"
    if "byte_len w h = Some n" for n
    using that by (simp add: byte_len_Some length_concat unat_div sum_list_replicate)
  show ?thesis
    using solid by (auto simp: rgba len frame_solid_def bind_eq_Some_conv split: if_splits)
qed

theorem frame_geometry_witness:
  "from_rgba 2 1 (replicate 8 0) \<noteq> None \<and> from_rgba 0x80000000 0x80000000 [] = None"
  using frame_geometry [of 2 1 "replicate 8 0"] frame_geometry [of "0x80000000" "0x80000000" "[]"] by simp

end
