(* ===== verification/Permissions.thy ===== *)
theory Permissions
  imports Rust_String "HOL-Library.Char_ord" "HOL-Library.List_Lexorder"
begin

text \<open>
  The permission policy of the Electron layer: \<open>strake-electron-compat/src/permissions.rs\<close>.

  Path scopes with lexical cleaning, network scopes with a wildcard, the manifest and the
  enforcer with its audit trail.
\<close>

section \<open>Cleaning paths\<close>

text \<open>One component of the path: \<open>match part\<close>.\<close>
definition clean_part :: "string \<Rightarrow> string list \<Rightarrow> string list" where
  "clean_part part parts = (if part = '''' \<or> part = ''.'' then parts
     else if part = ''..'' then butlast parts
     else parts @ [part])"

definition clean_parts :: "string \<Rightarrow> string list" where
  "clean_parts path = fold clean_part (split_on (CHR ''/'') path) []"

definition clean_path :: "string \<Rightarrow> string" where
  "clean_path path =
    (let cleaned = join_with (CHR ''/'') (clean_parts path);
         rooted = (if starts_with path ''/'' then CHR ''/'' # cleaned else cleaned)
     in if rooted = [] then ''/'' else rooted)"

section \<open>Scopes\<close>

datatype path_scope = PathScope string

definition path_scope_new :: "string \<Rightarrow> path_scope" where
  "path_scope_new scope = PathScope (case strip_suffix scope ''/*'' of
      Some pre \<Rightarrow> (let cleaned = clean_path pre in if cleaned = ''/'' then ''/*'' else cleaned @ ''/*'')
    | None \<Rightarrow> clean_path scope)"

fun path_contains :: "path_scope \<Rightarrow> string \<Rightarrow> bool" where
  "path_contains (PathScope sc) path =
    (let cleaned = clean_path path in
     case strip_suffix sc ''/*'' of
       Some pre \<Rightarrow> cleaned = pre \<or> starts_with cleaned (pre @ ''/'')
     | None \<Rightarrow> cleaned = sc)"

datatype net_scope = NetScope string

definition net_scope_new :: "string \<Rightarrow> net_scope" where
  "net_scope_new scope = NetScope (to_ascii_lowercase scope)"

fun net_contains :: "net_scope \<Rightarrow> string \<Rightarrow> bool" where
  "net_contains (NetScope sc) h =
    (let host = to_ascii_lowercase h in
     case strip_prefix sc ''*.'' of
       Some suf \<Rightarrow> host = suf \<or> ends_with host (CHR ''.'' # suf)
     | None \<Rightarrow> host = sc)"

section \<open>The manifest and the enforcer\<close>

record manifest =
  fs_read :: "path_scope list"
  fs_write :: "path_scope list"
  net :: "net_scope list"
  shell_open :: bool
  clipboard_read :: bool
  clipboard_write :: bool
  native_addons :: bool

definition manifest_default :: manifest where
  "manifest_default = \<lparr> fs_read = [], fs_write = [], net = [], shell_open = False,
     clipboard_read = False, clipboard_write = False, native_addons = False \<rparr>"

datatype decision = Allow | Deny

definition is_allow :: "decision \<Rightarrow> bool" where
  "is_allow d \<longleftrightarrow> d = Allow"

record enforcer =
  policy :: manifest
  denied_caps :: "string set"

definition enforcer_new :: "manifest \<Rightarrow> enforcer" where
  "enforcer_new m = \<lparr> policy = m, denied_caps = {} \<rparr>"

definition decide :: "string \<Rightarrow> bool \<Rightarrow> enforcer \<Rightarrow> decision \<times> enforcer" where
  "decide capability granted e = (if granted then (Allow, e)
     else (Deny, e\<lparr>denied_caps := insert capability (denied_caps e)\<rparr>))"

definition check_fs_read :: "string \<Rightarrow> enforcer \<Rightarrow> decision \<times> enforcer" where
  "check_fs_read path e =
    decide ''fs.read'' (list_ex (\<lambda>sc. path_contains sc (clean_path path)) (fs_read (policy e))) e"

definition check_fs_write :: "string \<Rightarrow> enforcer \<Rightarrow> decision \<times> enforcer" where
  "check_fs_write path e =
    decide ''fs.write'' (list_ex (\<lambda>sc. path_contains sc (clean_path path)) (fs_write (policy e))) e"

definition check_net :: "string \<Rightarrow> enforcer \<Rightarrow> decision \<times> enforcer" where
  "check_net host e = decide ''net'' (list_ex (\<lambda>sc. net_contains sc host) (net (policy e))) e"

definition check_shell_open :: "enforcer \<Rightarrow> decision \<times> enforcer" where
  "check_shell_open e = decide ''shell.open'' (shell_open (policy e)) e"

definition check_clipboard_read :: "enforcer \<Rightarrow> decision \<times> enforcer" where
  "check_clipboard_read e = decide ''clipboard.read'' (clipboard_read (policy e)) e"

definition check_clipboard_write :: "enforcer \<Rightarrow> decision \<times> enforcer" where
  "check_clipboard_write e = decide ''clipboard.write'' (clipboard_write (policy e)) e"

definition check_native_addons :: "enforcer \<Rightarrow> decision \<times> enforcer" where
  "check_native_addons e = decide ''native.addons'' (native_addons (policy e)) e"

definition denied :: "enforcer \<Rightarrow> string list" where
  "denied e = sorted_list_of_set (denied_caps e)"

section \<open>Cleaned paths\<close>

text \<open>A real component: what cleaning leaves.\<close>
definition plain_part :: "string \<Rightarrow> bool" where
  "plain_part p \<longleftrightarrow> p \<noteq> '''' \<and> p \<noteq> ''.'' \<and> p \<noteq> ''..'' \<and> CHR ''/'' \<notin> set p"

lemma clean_fold_plain:
  "\<forall>p\<in>set ps. CHR ''/'' \<notin> set p \<Longrightarrow> \<forall>p\<in>set acc. plain_part p \<Longrightarrow> \<forall>p\<in>set (fold clean_part ps acc). plain_part p"
proof (induction ps arbitrary: acc)
  case (Cons p ps)
  have "\<forall>q\<in>set (clean_part p acc). plain_part q"
    using Cons.prems by (auto simp: clean_part_def plain_part_def dest: in_set_butlastD)
  with Cons show ?case by simp
qed simp

lemma clean_parts_plain: "p \<in> set (clean_parts path) \<Longrightarrow> plain_part p"
  using clean_fold_plain [of "split_on (CHR ''/'') path" "[]"] split_on_clean
  by (auto simp: clean_parts_def)

lemma clean_fold_id: "\<forall>p\<in>set ps. plain_part p \<Longrightarrow> fold clean_part ps acc = acc @ ps"
  by (induction ps arbitrary: acc) (auto simp: clean_part_def plain_part_def)

lemma clean_parts_join:
  assumes "\<forall>p\<in>set ps. plain_part p"
  shows "clean_parts (join_with (CHR ''/'') ps) = ps" "clean_parts (CHR ''/'' # join_with (CHR ''/'') ps) = ps"
proof -
  have "fold clean_part (split_on (CHR ''/'') (join_with (CHR ''/'') ps)) [] = ps"
  proof (cases "ps = []")
    case True
    then show ?thesis by (simp add: clean_part_def)
  next
    case False
    moreover have "\<forall>p\<in>set ps. CHR ''/'' \<notin> set p" using assms by (simp add: plain_part_def)
    ultimately show ?thesis using clean_fold_id [OF assms] by (simp add: split_join)
  qed
  then show "clean_parts (join_with (CHR ''/'') ps) = ps" "clean_parts (CHR ''/'' # join_with (CHR ''/'') ps) = ps"
    by (simp_all add: clean_parts_def clean_part_def)
qed

lemma clean_path_absolute: "starts_with p ''/'' \<Longrightarrow> clean_path p = CHR ''/'' # join_with (CHR ''/'') (clean_parts p)"
  by (simp add: clean_path_def Let_def)

lemma parts_no_slash: "\<forall>p\<in>set (clean_parts path). CHR ''/'' \<notin> set p"
  using clean_parts_plain by (auto simp: plain_part_def)

lemma join_clean_Nil: "join_with (CHR ''/'') (clean_parts p) = [] \<longleftrightarrow> clean_parts p = []"
proof (cases "clean_parts p")
  case (Cons a as)
  then have "a \<noteq> []" using clean_parts_plain [of a p] by (simp add: plain_part_def)
  with Cons show ?thesis by (cases as) simp_all
qed simp

lemma join_clean_eq:
  "join_with (CHR ''/'') (clean_parts p) = join_with (CHR ''/'') (clean_parts q) \<longleftrightarrow> clean_parts p = clean_parts q"
  by (metis clean_parts_join(1) clean_parts_plain)

lemma join_clean_below:
  assumes "clean_parts q \<noteq> []"
  shows "prefix (join_with (CHR ''/'') (clean_parts q) @ ''/'') (join_with (CHR ''/'') (clean_parts p))
   \<longleftrightarrow> strict_prefix (clean_parts q) (clean_parts p)"
proof (cases "clean_parts p = []")
  case False
  then show ?thesis using prefix_join [OF assms parts_no_slash False parts_no_slash] by simp
qed (simp add: assms)

text \<open>Cleaning a cleaned path changes nothing.\<close>
lemma clean_path_idem: "starts_with p ''/'' \<Longrightarrow> clean_path (clean_path p) = clean_path p"
  using clean_parts_join(2) [of "clean_parts p"] clean_parts_plain [of _ p]
  by (simp add: clean_path_absolute) (simp add: clean_path_def Let_def starts_with_def)

lemma subtree_scope:
  assumes "starts_with q ''/''"
  shows "path_scope_new (q @ ''/*'') = PathScope (if clean_parts q = [] then ''/*''
     else (CHR ''/'' # join_with (CHR ''/'') (clean_parts q)) @ ''/*'')"
  using assms by (simp add: path_scope_new_def clean_path_absolute Let_def join_clean_Nil)

lemma subtree_grants:
  assumes "starts_with q ''/''" "starts_with p ''/''"
  shows "path_contains (path_scope_new (q @ ''/*'')) p \<longleftrightarrow> prefix (clean_parts q) (clean_parts p)"
proof (cases "clean_parts q = []")
  case True
  then have "path_scope_new (q @ ''/*'') = PathScope ([] @ ''/*'')" using subtree_scope [OF assms(1)] by simp
  then show ?thesis using True
    by (simp only: path_contains.simps strip_suffix_append) (simp add: clean_path_absolute [OF assms(2)] starts_with_def Let_def)
next
  case False
  let ?pre = "CHR ''/'' # join_with (CHR ''/'') (clean_parts q)"
  have "path_scope_new (q @ ''/*'') = PathScope (?pre @ ''/*'')" using False subtree_scope [OF assms(1)] by simp
  then have "path_contains (path_scope_new (q @ ''/*'')) p
      \<longleftrightarrow> clean_path p = ?pre \<or> starts_with (clean_path p) (?pre @ ''/'')"
    by (simp only: path_contains.simps strip_suffix_append) (simp add: Let_def)
  also have "\<dots> \<longleftrightarrow> clean_parts p = clean_parts q \<or> strict_prefix (clean_parts q) (clean_parts p)"
    using join_clean_eq [of p q] join_clean_below [OF False] False
    by (simp add: clean_path_absolute [OF assms(2)] starts_with_def)
  finally show ?thesis by (auto simp: strict_prefix_def)
qed

text \<open>A scope without a wildcard: the cleaned text must not end in one either.\<close>
lemma exact_grants:
  assumes "starts_with q ''/''" "starts_with p ''/''" "\<not> ends_with q ''/*''" "clean_parts q = [] \<or> last (clean_parts q) \<noteq> ''*''"
  shows "path_contains (path_scope_new q) p \<longleftrightarrow> clean_parts p = clean_parts q"
proof -
  have "strip_suffix q ''/*'' = None" using assms(3) by (simp add: strip_suffix_def ends_with_def)
  then have new: "path_scope_new q = PathScope (CHR ''/'' # join_with (CHR ''/'') (clean_parts q))"
    by (simp add: path_scope_new_def clean_path_absolute [OF assms(1)])
  have "strip_suffix (CHR ''/'' # join_with (CHR ''/'') (clean_parts q)) ''/*'' = None" (is "?strip = None")
  proof (rule ccontr)
    assume "?strip \<noteq> None"
    then obtain r where r: "CHR ''/'' # join_with (CHR ''/'') (clean_parts q) = r @ ''/*''"
      by (auto simp: strip_suffix_Some)
    then have "clean_parts (CHR ''/'' # join_with (CHR ''/'') (clean_parts q)) = clean_parts (r @ ''/*'')" by simp
    then have "clean_parts q = clean_parts (r @ ''/*'')"
      using clean_parts_join(2) [of "clean_parts q"] clean_parts_plain by simp
    also have "\<dots> = clean_parts r @ [''*'']"
    proof -
      have "split_on (CHR ''/'') (r @ ''/*'') = split_on (CHR ''/'') r @ [''*'']"
        by (induction r) (auto split: list.splits)
      then show ?thesis by (simp add: clean_parts_def clean_part_def)
    qed
    finally show False using assms(4) by simp
  qed
  then show ?thesis using join_clean_eq [of p q]
    by (simp add: new clean_path_absolute [OF assms(2)] Let_def)
qed

section \<open>Where the text of a scope grants more than it says\<close>

text \<open>A relative prefix of dots cleans to the root, a wildcard that only cleaning moves to the
  end makes a subtree of an exact path, and a relative path that climbs out of its directory
  is matched as if it did not.\<close>
lemma scope_widens:
  "path_scope_new ''./*'' = PathScope ''/*''"
  "path_contains (path_scope_new ''./*'') ''/etc/passwd''"
  "path_contains (path_scope_new ''/a/*/'') ''/a/secret''"
  "path_contains (path_scope_new ''etc/*'') ''../etc/passwd''"
  by code_simp+

section \<open>Host names\<close>

text \<open>The labels of a host name.\<close>
definition labels :: "string \<Rightarrow> string list" where
  "labels h = split_on (CHR ''.'') (to_ascii_lowercase h)"

text \<open>What a scope grants: every host below the named one for a wildcard, the host itself
  otherwise.\<close>
definition grants_host :: "string \<Rightarrow> string \<Rightarrow> bool" where
  "grants_host sc h = (case strip_prefix sc ''*.'' of
     Some d \<Rightarrow> suffix (labels d) (labels h) | None \<Rightarrow> labels sc = labels h)"

lemma ascii_lower_fixed:
  assumes "(of_char d :: nat) < 97" shows "ascii_lower c = d \<longleftrightarrow> c = d \<and> \<not> (65 \<le> (of_char c :: nat) \<and> (of_char c :: nat) \<le> 90)"
proof (cases "65 \<le> (of_char c :: nat) \<and> (of_char c :: nat) \<le> 90")
  case True
  then have "(of_char (ascii_lower c) :: nat) = of_char c + 32" by (simp add: ascii_lower_def)
  with True assms show ?thesis by auto
next
  case False
  then show ?thesis by (auto simp: ascii_lower_def Let_def)
qed

lemma ascii_lower_star [simp]: "ascii_lower c = CHR ''*'' \<longleftrightarrow> c = CHR ''*''" "CHR ''*'' = ascii_lower c \<longleftrightarrow> c = CHR ''*''"
  by (auto simp: ascii_lower_fixed eq_commute [of "CHR ''*''"])

lemma ascii_lower_dot [simp]: "ascii_lower c = CHR ''.'' \<longleftrightarrow> c = CHR ''.''" "CHR ''.'' = ascii_lower c \<longleftrightarrow> c = CHR ''.''"
  by (auto simp: ascii_lower_fixed eq_commute [of "CHR ''.''"])

lemma strip_star: "strip_prefix (to_ascii_lowercase s) ''*.'' = map_option to_ascii_lowercase (strip_prefix s ''*.'')"
proof (cases s)
  case (Cons a s')
  then show ?thesis by (cases s') (auto simp: strip_prefix_def to_ascii_lowercase_def)
qed (simp add: strip_prefix_def to_ascii_lowercase_def)

lemma labels_clean: "\<forall>p\<in>set (labels h). CHR ''.'' \<notin> set p"
  using split_on_clean by (auto simp: labels_def)

lemma labels_eq: "labels d = labels h \<longleftrightarrow> to_ascii_lowercase d = to_ascii_lowercase h"
proof
  assume "labels d = labels h"
  from arg_cong [OF this, of "join_with (CHR ''.'')"] show "to_ascii_lowercase d = to_ascii_lowercase h"
    by (simp add: labels_def join_split)
qed (simp add: labels_def)

lemma net_contains_labels: "net_contains (net_scope_new sc) h \<longleftrightarrow> grants_host sc h"
proof (cases "strip_prefix sc ''*.''")
  case None
  then show ?thesis
    by (auto simp: net_scope_new_def grants_host_def strip_star labels_eq Let_def)
next
  case (Some d)
  have "suffix (CHR ''.'' # to_ascii_lowercase d) (to_ascii_lowercase h) \<longleftrightarrow> strict_suffix (labels d) (labels h)"
    using suffix_join [of "labels d" "CHR ''.''" "labels h"] labels_clean
    by (simp add: labels_def join_split)
  moreover have "net_contains (net_scope_new sc) h \<longleftrightarrow>
      to_ascii_lowercase h = to_ascii_lowercase d \<or> ends_with (to_ascii_lowercase h) (CHR ''.'' # to_ascii_lowercase d)"
    by (simp add: net_scope_new_def strip_star Some Let_def)
  ultimately have "net_contains (net_scope_new sc) h \<longleftrightarrow> labels h = labels d \<or> strict_suffix (labels d) (labels h)"
    by (simp add: labels_eq ends_with_def)
  also have "\<dots> \<longleftrightarrow> suffix (labels d) (labels h)" by (auto simp: strict_suffix_def)
  finally show ?thesis by (simp add: grants_host_def Some)
qed

section \<open>The enforcer\<close>

datatype permission_request = FsRead string | FsWrite string | Net string | ShellOpen | ClipboardRead
  | ClipboardWrite | NativeAddons

fun ask :: "permission_request \<Rightarrow> enforcer \<Rightarrow> decision \<times> enforcer" where
  "ask (FsRead p) = check_fs_read p"
| "ask (FsWrite p) = check_fs_write p"
| "ask (Net h) = check_net h"
| "ask ShellOpen = check_shell_open"
| "ask ClipboardRead = check_clipboard_read"
| "ask ClipboardWrite = check_clipboard_write"
| "ask NativeAddons = check_native_addons"

fun ask_all :: "permission_request list \<Rightarrow> enforcer \<Rightarrow> decision list \<times> enforcer" where
  "ask_all [] e = ([], e)"
| "ask_all (r # rs) e = (let (d, e1) = ask r e; (ds, e2) = ask_all rs e1 in (d # ds, e2))"

fun capability :: "permission_request \<Rightarrow> string" where
  "capability (FsRead p) = ''fs.read''"
| "capability (FsWrite p) = ''fs.write''"
| "capability (Net h) = ''net''"
| "capability ShellOpen = ''shell.open''"
| "capability ClipboardRead = ''clipboard.read''"
| "capability ClipboardWrite = ''clipboard.write''"
| "capability NativeAddons = ''native.addons''"

text \<open>What the user approves: directories to read and to write below, hosts, and the flags;
  the manifest that the packager builds from it; and what it means to allow.\<close>
record approval =
  read_dirs :: "string list"
  write_dirs :: "string list"
  hosts :: "string list"
  flags :: "permission_request set"

definition manifest_of :: "approval \<Rightarrow> manifest" where
  "manifest_of a = \<lparr> fs_read = map (\<lambda>d. path_scope_new (d @ ''/*'')) (read_dirs a),
     fs_write = map (\<lambda>d. path_scope_new (d @ ''/*'')) (write_dirs a), net = map net_scope_new (hosts a),
     shell_open = (ShellOpen \<in> flags a), clipboard_read = (ClipboardRead \<in> flags a),
     clipboard_write = (ClipboardWrite \<in> flags a), native_addons = (NativeAddons \<in> flags a) \<rparr>"

definition below :: "string list \<Rightarrow> string \<Rightarrow> bool" where
  "below dirs p \<longleftrightarrow> (\<exists>d\<in>set dirs. prefix (clean_parts d) (clean_parts p))"

fun permitted :: "approval \<Rightarrow> permission_request \<Rightarrow> bool" where
  "permitted a (FsRead p) = below (read_dirs a) p"
| "permitted a (FsWrite p) = below (write_dirs a) p"
| "permitted a (Net h) = (\<exists>sc\<in>set (hosts a). grants_host sc h)"
| "permitted a r = (r \<in> flags a)"

text \<open>Absolute paths only.\<close>
fun rooted :: "permission_request \<Rightarrow> bool" where
  "rooted (FsRead p) = starts_with p ''/''"
| "rooted (FsWrite p) = starts_with p ''/''"
| "rooted r = True"

lemma below_scopes:
  assumes "\<forall>d\<in>set dirs. starts_with d ''/''" "starts_with p ''/''"
  shows "list_ex (\<lambda>sc. path_contains sc (clean_path p)) (map (\<lambda>d. path_scope_new (d @ ''/*'')) dirs) \<longleftrightarrow> below dirs p"
proof -
  have cl: "starts_with (clean_path p) ''/''" "clean_parts (clean_path p) = clean_parts p"
    using clean_parts_join(2) [of "clean_parts p"] clean_parts_plain [of _ p]
    by (simp_all add: clean_path_absolute [OF assms(2)] starts_with_def)
  then show ?thesis using assms(1) by (auto simp: list_ex_iff below_def subtree_grants)
qed

lemma ask_decides:
  assumes "policy e = manifest_of a" "rooted r" "\<forall>d\<in>set (read_dirs a @ write_dirs a). starts_with d ''/''"
  shows "ask r e = decide (capability r) (permitted a r) e"
  using assms below_scopes [of "read_dirs a"] below_scopes [of "write_dirs a"]
  by (cases r) (simp_all add: check_fs_read_def check_fs_write_def check_net_def check_shell_open_def
      check_clipboard_read_def check_clipboard_write_def check_native_addons_def manifest_of_def
      net_contains_labels list_ex_iff)

lemma ask_all_decides:
  assumes "policy e = manifest_of a" "\<forall>r\<in>set rs. rooted r" "\<forall>d\<in>set (read_dirs a @ write_dirs a). starts_with d ''/''"
  shows "ask_all rs e = (map (\<lambda>r. if permitted a r then Allow else Deny) rs,
     e\<lparr>denied_caps := denied_caps e \<union> capability ` set (filter (\<lambda>r. \<not> permitted a r) rs)\<rparr>)"
  using assms(1,2)
proof (induction rs arbitrary: e)
  case (Cons r rs)
  have "ask r e = decide (capability r) (permitted a r) e"
    using ask_decides [OF Cons.prems(1) _ assms(3)] Cons.prems(2) by simp
  with Cons show ?case by (auto simp: decide_def Let_def)
qed simp

section \<open>Properties\<close>

text \<open>C12. A scope grants what it names.  For an absolute directory \<open>q\<close> the scope \<open>q/*\<close> contains
  an absolute path exactly when the components of \<open>q\<close>, after \<open>.\<close>, \<open>..\<close> and doubled
  separators are resolved, are a prefix of the components of the path, so that no \<open>..\<close> leads
  out of a granted directory and no sibling whose name only starts alike is let in.  A scope
  without a wildcard, before and after cleaning, contains exactly the path it names.\<close>
theorem path_scope_grants:
  assumes "starts_with q ''/''" "starts_with p ''/''"
  shows "(path_contains (path_scope_new (q @ ''/*'')) p \<longleftrightarrow> prefix (clean_parts q) (clean_parts p))
    \<and> (\<not> ends_with q ''/*'' \<and> (clean_parts q = [] \<or> last (clean_parts q) \<noteq> ''*'') \<longrightarrow>
      (path_contains (path_scope_new q) p \<longleftrightarrow> clean_parts p = clean_parts q))"
  using subtree_grants [OF assms] exact_grants [OF assms] by simp_all

theorem path_scope_grants_witness:
  "path_contains (path_scope_new (''/home/me'' @ ''/*'')) ''/home/you/../me/x''
   \<and> \<not> path_contains (path_scope_new (''/home/me'' @ ''/*'')) ''/home/me/../you''
   \<and> \<not> path_contains (path_scope_new (''/home/me'' @ ''/*'')) ''/home/meg''
   \<and> path_contains (path_scope_new ''/home/me'') ''/home//me/.''"
proof (intro conjI)
  have s: "starts_with ''/home/me'' ''/''" by code_simp
  show "path_contains (path_scope_new (''/home/me'' @ ''/*'')) ''/home/you/../me/x''"
    by (subst path_scope_grants [OF s, THEN conjunct1]) code_simp+
  show "\<not> path_contains (path_scope_new (''/home/me'' @ ''/*'')) ''/home/me/../you''"
    by (subst path_scope_grants [OF s, THEN conjunct1]) code_simp+
  show "\<not> path_contains (path_scope_new (''/home/me'' @ ''/*'')) ''/home/meg''"
    by (subst path_scope_grants [OF s, THEN conjunct1]) code_simp+
  show "path_contains (path_scope_new ''/home/me'') ''/home//me/.''"
    by (subst path_scope_grants [OF s, THEN conjunct2, rule_format]) code_simp+
qed

text \<open>C13. The enforcer decides every request as the approval it was built from says, in any
  sequence of requests: a path is readable or writable exactly below an approved directory, a
  host reachable exactly when its labels end in the labels of an approved wildcard or are
  those of an approved host, whatever the case, and the other capabilities follow their flag;
  nothing else is allowed.  The audit trail is the sorted list, without repetitions, of the
  capabilities that were refused, and no request changes the policy.\<close>
theorem enforcer_decides:
  assumes "\<forall>d\<in>set (read_dirs a @ write_dirs a). starts_with d ''/''" "\<forall>r\<in>set rs. rooted r"
    and "ask_all rs (enforcer_new (manifest_of a)) = (ds, e)"
  shows "ds = map (\<lambda>r. if permitted a r then Allow else Deny) rs \<and> policy e = manifest_of a
    \<and> set (denied e) = capability ` set (filter (\<lambda>r. \<not> permitted a r) rs) \<and> sorted (denied e) \<and> distinct (denied e)"
  using ask_all_decides [of "enforcer_new (manifest_of a)" a rs] assms
  by (auto simp: enforcer_new_def denied_def)

theorem enforcer_decides_witness:
  "let a = \<lparr> read_dirs = [''/app''], write_dirs = [], hosts = [''*.Example.com''], flags = {ClipboardRead} \<rparr>;
       (ds, e) = ask_all [FsRead ''/app/a.txt'', FsRead ''/app/../etc'', Net ''api.example.com'', Net ''evilexample.com'', ClipboardRead]
                   (enforcer_new (manifest_of a))
   in ds = [Allow, Deny, Allow, Deny, Allow] \<and> set (denied e) = {''fs.read'', ''net''}"
proof -
  define a where "a = \<lparr> read_dirs = [''/app''], write_dirs = [], hosts = [''*.Example.com''], flags = {ClipboardRead} \<rparr>"
  define rs where "rs = [FsRead ''/app/a.txt'', FsRead ''/app/../etc'', Net ''api.example.com'', Net ''evilexample.com'', ClipboardRead]"
  obtain ds e where run: "ask_all rs (enforcer_new (manifest_of a)) = (ds, e)" by fastforce
  have p: "permitted a (FsRead ''/app/a.txt'')" "\<not> permitted a (FsRead ''/app/../etc'')"
    "permitted a (Net ''api.example.com'')" "\<not> permitted a (Net ''evilexample.com'')" "permitted a ClipboardRead"
    unfolding a_def by code_simp+
  have "\<forall>d\<in>set (read_dirs a @ write_dirs a). starts_with d ''/''" "\<forall>r\<in>set rs. rooted r"
    by (simp_all add: a_def rs_def starts_with_def)
  from enforcer_decides [OF this run] p
  have "ds = [Allow, Deny, Allow, Deny, Allow] \<and> set (denied e) = {''fs.read'', ''net''}" by (simp add: rs_def)
  then show ?thesis unfolding Let_def a_def [symmetric] rs_def [symmetric] run by simp
qed

end
