(* ===== verification/Ipc.thy ===== *)
theory Ipc
  imports Prelude
begin

text \<open>
  The inter-process communication of the Electron layer: \<open>strake-electron-compat/src/ipc.rs\<close>
  (\<open>ipcMain\<close> and \<open>ipcRenderer\<close> over one bus) and \<open>message_channel.rs\<close> (entangled ports).

  A payload is an opaque value (\<open>serde_json::Value\<close>), a listener an opaque callback: a send
  returns the calls it makes, in order.  A handler is the function from its argument to its
  result.
\<close>

section \<open>The bus\<close>

datatype ipc_error = UnknownChannel string | HandlerFailed string | DuplicateHandler string

type_synonym 'v handler = "'v \<Rightarrow> string + 'v"

record ('v, 'l) ipc_bus =
  handlers :: "string \<Rightarrow> 'v handler option"
  listeners :: "string \<Rightarrow> (u64 \<times> 'l) list option"
  next_listener_id :: u64

definition bus_new :: "('v, 'l) ipc_bus" where
  "bus_new = \<lparr> handlers = Map.empty, listeners = Map.empty, next_listener_id = 0 \<rparr>"

definition handle :: "string \<Rightarrow> 'v handler \<Rightarrow> ('v, 'l) ipc_bus \<Rightarrow> (ipc_error + unit) \<times> ('v, 'l) ipc_bus" where
  "handle ch h b = (if handlers b ch \<noteq> None then (Inl (DuplicateHandler ch), b)
     else (Inr (), b\<lparr>handlers := (handlers b)(ch \<mapsto> h)\<rparr>))"

definition remove_handler :: "string \<Rightarrow> ('v, 'l) ipc_bus \<Rightarrow> ('v, 'l) ipc_bus" where
  "remove_handler ch b = b\<lparr>handlers := (handlers b)(ch := None)\<rparr>"

definition invoke :: "string \<Rightarrow> 'v \<Rightarrow> ('v, 'l) ipc_bus \<Rightarrow> ipc_error + 'v" where
  "invoke ch args b = (case handlers b ch of
     Some h \<Rightarrow> (case h args of Inl e \<Rightarrow> Inl (HandlerFailed e) | Inr v \<Rightarrow> Inr v)
   | None \<Rightarrow> Inl (UnknownChannel ch))"

definition bus_on :: "string \<Rightarrow> 'l \<Rightarrow> ('v, 'l) ipc_bus \<Rightarrow> u64 \<times> ('v, 'l) ipc_bus" where
  "bus_on ch l b = (let i = next_listener_id b in
     (i, b\<lparr>next_listener_id := i + 1,
          listeners := (listeners b)(ch \<mapsto> (case listeners b ch of None \<Rightarrow> [] | Some es \<Rightarrow> es) @ [(i, l)])\<rparr>))"

definition remove_listener :: "string \<Rightarrow> u64 \<Rightarrow> ('v, 'l) ipc_bus \<Rightarrow> bool \<times> ('v, 'l) ipc_bus" where
  "remove_listener ch i b = (case listeners b ch of
     None \<Rightarrow> (False, b)
   | Some entries \<Rightarrow>
       (let kept = filter (\<lambda>e. fst e \<noteq> i) entries;
            b1 = b\<lparr>listeners := (listeners b)(ch \<mapsto> kept)\<rparr>
        in if length kept = length entries then (False, b1)
           else if kept = [] then (True, b1\<lparr>listeners := (listeners b1)(ch := None)\<rparr>)
           else (True, b1)))"

definition remove_all_listeners :: "string \<Rightarrow> ('v, 'l) ipc_bus \<Rightarrow> ('v, 'l) ipc_bus" where
  "remove_all_listeners ch b = b\<lparr>listeners := (listeners b)(ch := None)\<rparr>"

definition bus_send :: "string \<Rightarrow> 'v \<Rightarrow> ('v, 'l) ipc_bus \<Rightarrow> ('l \<times> 'v) list" where
  "bus_send ch v b = (case listeners b ch of None \<Rightarrow> [] | Some es \<Rightarrow> map (\<lambda>e. (snd e, v)) es)"

section \<open>Calls on the bus\<close>

datatype ('v, 'l) bus_op = Handle string "'v handler" | RemoveHandler string | Invoke string 'v
  | BusOn string 'l | RemoveListener string u64 | RemoveAll string | Send string 'v

datatype ('v, 'l) bus_out = Handled "ipc_error + unit" | Invoked "ipc_error + 'v" | Subscribed u64
  | Removed bool | Called "('l \<times> 'v) list" | Nothing

fun bus_step :: "('v, 'l) bus_op \<Rightarrow> ('v, 'l) ipc_bus \<Rightarrow> ('v, 'l) bus_out \<times> ('v, 'l) ipc_bus" where
  "bus_step (Handle ch h) b = (let (r, b1) = handle ch h b in (Handled r, b1))"
| "bus_step (RemoveHandler ch) b = (Nothing, remove_handler ch b)"
| "bus_step (Invoke ch v) b = (Invoked (invoke ch v b), b)"
| "bus_step (BusOn ch l) b = (let (i, b1) = bus_on ch l b in (Subscribed i, b1))"
| "bus_step (RemoveListener ch i) b = (let (r, b1) = remove_listener ch i b in (Removed r, b1))"
| "bus_step (RemoveAll ch) b = (Nothing, remove_all_listeners ch b)"
| "bus_step (Send ch v) b = (Called (bus_send ch v b), b)"

fun bus_run :: "('v, 'l) bus_op list \<Rightarrow> ('v, 'l) ipc_bus \<Rightarrow> ('v, 'l) bus_out list \<times> ('v, 'l) ipc_bus" where
  "bus_run [] b = ([], b)"
| "bus_run (op1 # ops) b = (let (r, b1) = bus_step op1 b; (rs, b2) = bus_run ops b1 in (r # rs, b2))"

text \<open>What the bus promises: one list of registrations, in their order, with the ids counted
  up, and one table of handlers.\<close>
record ('v, 'l) exchange =
  table :: "string \<Rightarrow> 'v handler option"
  regs :: "(u64 \<times> string \<times> 'l) list"
  count :: nat

definition registers :: "string \<Rightarrow> u64 \<Rightarrow> u64 \<times> string \<times> 'l \<Rightarrow> bool" where
  "registers ch i e \<longleftrightarrow> fst e = i \<and> fst (snd e) = ch"

fun exchange_step :: "('v, 'l) bus_op \<Rightarrow> ('v, 'l) exchange \<Rightarrow> ('v, 'l) bus_out \<times> ('v, 'l) exchange" where
  "exchange_step (Handle ch h) x = (if ch \<in> dom (table x) then (Handled (Inl (DuplicateHandler ch)), x)
     else (Handled (Inr ()), x\<lparr>table := (table x)(ch \<mapsto> h)\<rparr>))"
| "exchange_step (RemoveHandler ch) x = (Nothing, x\<lparr>table := (table x)(ch := None)\<rparr>)"
| "exchange_step (Invoke ch v) x = (Invoked (case table x ch of None \<Rightarrow> Inl (UnknownChannel ch)
     | Some h \<Rightarrow> (case h v of Inl e \<Rightarrow> Inl (HandlerFailed e) | Inr r \<Rightarrow> Inr r)), x)"
| "exchange_step (BusOn ch l) x = (Subscribed (of_nat (count x)),
     x\<lparr>count := Suc (count x), regs := regs x @ [(of_nat (count x), ch, l)]\<rparr>)"
| "exchange_step (RemoveListener ch i) x = (Removed (\<exists>e\<in>set (regs x). registers ch i e),
     x\<lparr>regs := filter (\<lambda>e. \<not> registers ch i e) (regs x)\<rparr>)"
| "exchange_step (RemoveAll ch) x = (Nothing, x\<lparr>regs := filter (\<lambda>(j, c, l). c \<noteq> ch) (regs x)\<rparr>)"
| "exchange_step (Send ch v) x = (Called (map (\<lambda>(j, c, l). (l, v)) (filter (\<lambda>(j, c, l). c = ch) (regs x))), x)"

fun exchange_run :: "('v, 'l) bus_op list \<Rightarrow> ('v, 'l) exchange \<Rightarrow> ('v, 'l) bus_out list \<times> ('v, 'l) exchange" where
  "exchange_run [] x = ([], x)"
| "exchange_run (op1 # ops) x = (let (r, x1) = exchange_step op1 x; (rs, x2) = exchange_run ops x1 in (r # rs, x2))"

definition exchange_new :: "('v, 'l) exchange" where
  "exchange_new = \<lparr> table = Map.empty, regs = [], count = 0 \<rparr>"

section \<open>The simulation\<close>

text \<open>The entries of one channel.\<close>
definition channel_regs :: "string \<Rightarrow> (u64 \<times> string \<times> 'l) list \<Rightarrow> (u64 \<times> 'l) list" where
  "channel_regs ch rs = map (\<lambda>(j, c, l). (j, l)) (filter (\<lambda>(j, c, l). c = ch) rs)"

lemma channel_regs_simps [simp]:
  "channel_regs ch [] = []"
  "channel_regs ch ((j, c, l) # rs) = (if c = ch then (j, l) # channel_regs ch rs else channel_regs ch rs)"
  "channel_regs ch (rs @ rs') = channel_regs ch rs @ channel_regs ch rs'"
  by (simp_all add: channel_regs_def)

lemma channel_regs_remove:
  "channel_regs ch' (filter (\<lambda>e. \<not> registers ch i e) rs) =
   (if ch' = ch then filter (\<lambda>e. fst e \<noteq> i) (channel_regs ch rs) else channel_regs ch' rs)"
  by (induction rs) (auto simp: registers_def)

lemma channel_regs_remove_all:
  "channel_regs ch' (filter (\<lambda>(j, c, l). c \<noteq> ch) rs) = (if ch' = ch then [] else channel_regs ch' rs)"
  by (induction rs) auto

lemma channel_regs_ids: "(\<exists>e\<in>set rs. registers ch i e) \<longleftrightarrow> i \<in> fst ` set (channel_regs ch rs)"
  by (induction rs) (auto simp: registers_def split: if_splits)

definition bus_abs :: "('v, 'l) ipc_bus \<Rightarrow> ('v, 'l) exchange \<Rightarrow> bool" where
  "bus_abs b x \<longleftrightarrow> handlers b = table x \<and> next_listener_id b = of_nat (count x)
    \<and> (\<forall>ch. listeners b ch = (if channel_regs ch (regs x) = [] then None else Some (channel_regs ch (regs x))))"

lemma filter_length_eq: "length (filter (\<lambda>e. fst e \<noteq> i) es) = length es \<longleftrightarrow> i \<notin> fst ` set es"
  by (induction es) (auto simp: le_imp_less_Suc less_imp_neq length_filter_le)

lemma bus_step_simulates:
  assumes "bus_abs b x" "bus_step op1 b = (r, b')" "exchange_step op1 x = (r', x')"
  shows "r = r' \<and> bus_abs b' x'"
proof (cases op1)
  case (Handle ch h)
  then show ?thesis using assms by (auto simp: bus_abs_def handle_def split: if_splits)
next
  case (BusOn ch l)
  then show ?thesis using assms by (auto simp: bus_abs_def bus_on_def Let_def split: if_splits)
next
  case (RemoveListener ch i)
  let ?es = "channel_regs ch (regs x)"
  show ?thesis
  proof (cases "i \<in> fst ` set ?es")
    case True
    then have "?es \<noteq> []" "length (filter (\<lambda>e. fst e \<noteq> i) ?es) \<noteq> length ?es" by (auto simp: filter_length_eq)
    then show ?thesis using True RemoveListener assms
      by (auto simp: bus_abs_def remove_listener_def Let_def channel_regs_remove channel_regs_ids split: if_splits)
  next
    case False
    then have "filter (\<lambda>e. fst e \<noteq> i) ?es = ?es" by (intro filter_True) auto
    then show ?thesis using False RemoveListener assms
      by (auto simp: bus_abs_def remove_listener_def Let_def channel_regs_remove channel_regs_ids split: if_splits)
  qed
next
  case (Send ch v)
  then show ?thesis using assms by (auto simp: bus_abs_def bus_send_def channel_regs_def o_def case_prod_beta)
qed (use assms in \<open>auto simp: bus_abs_def remove_handler_def invoke_def remove_all_listeners_def
       channel_regs_remove_all split: option.splits sum.splits if_splits\<close>)

lemma bus_run_simulates:
  "bus_abs b x \<Longrightarrow> fst (bus_run ops b) = fst (exchange_run ops x) \<and> bus_abs (snd (bus_run ops b)) (snd (exchange_run ops x))"
proof (induction ops arbitrary: b x)
  case (Cons op1 ops)
  obtain r b1 r' x1 where st: "bus_step op1 b = (r, b1)" "exchange_step op1 x = (r', x1)" by fastforce
  from bus_step_simulates [OF Cons.prems st] Cons.IH [of b1 x1] st
  show ?case by (auto simp: case_prod_beta Let_def)
qed simp

text \<open>The ids handed out.\<close>
fun subscribed_ids :: "('v, 'l) bus_out list \<Rightarrow> u64 list" where
  "subscribed_ids [] = []"
| "subscribed_ids (Subscribed i # rs) = i # subscribed_ids rs"
| "subscribed_ids (_ # rs) = subscribed_ids rs"

lemma exchange_ids:
  "subscribed_ids (fst (exchange_run ops x)) = map of_nat [count x..<count (snd (exchange_run ops x))]
   \<and> count x \<le> count (snd (exchange_run ops x))"
proof (induction ops arbitrary: x)
  case (Cons op1 ops)
  obtain r x1 where st: "exchange_step op1 x = (r, x1)" by fastforce
  have "r = Subscribed (of_nat (count x)) \<and> count x1 = Suc (count x)
      \<or> subscribed_ids (r # fst (exchange_run ops x1)) = subscribed_ids (fst (exchange_run ops x1)) \<and> count x1 = count x"
    using st by (cases op1) (auto split: if_splits)
  with Cons.IH [of x1] st show ?case by (auto simp: case_prod_beta Let_def upt_conv_Cons)
qed simp

section \<open>Message channels\<close>

datatype port = First | Second

fun peer :: "port \<Rightarrow> port" where
  "peer First = Second"
| "peer Second = First"

text \<open>The two-element arrays, indexed by the port.\<close>
record 'v message_channel =
  inbox :: "port \<Rightarrow> 'v list"
  closed :: "port \<Rightarrow> bool"

definition channel_new :: "'v message_channel" where
  "channel_new = \<lparr> inbox = (\<lambda>_. []), closed = (\<lambda>_. False) \<rparr>"

definition is_closed :: "port \<Rightarrow> 'v message_channel \<Rightarrow> bool" where
  "is_closed p c = closed c p"

definition post_message :: "port \<Rightarrow> 'v \<Rightarrow> 'v message_channel \<Rightarrow> 'v message_channel" where
  "post_message p m c = (if is_closed p c then c
     else if \<not> is_closed (peer p) c then c\<lparr>inbox := (inbox c)(peer p := inbox c (peer p) @ [m])\<rparr>
     else c)"

definition take_messages :: "port \<Rightarrow> 'v message_channel \<Rightarrow> 'v list \<times> 'v message_channel" where
  "take_messages p c = (inbox c p, c\<lparr>inbox := (inbox c)(p := [])\<rparr>)"

definition pending_count :: "port \<Rightarrow> 'v message_channel \<Rightarrow> nat" where
  "pending_count p c = length (inbox c p)"

definition close_port :: "port \<Rightarrow> 'v message_channel \<Rightarrow> 'v message_channel" where
  "close_port p c = c\<lparr>closed := (closed c)(p := True)\<rparr>"

datatype 'v port_op = Post port 'v | Take port | Close port

text \<open>A run returns what each port has taken.\<close>
fun port_run :: "'v port_op list \<Rightarrow> 'v message_channel \<Rightarrow> (port \<times> 'v list) list \<times> 'v message_channel" where
  "port_run [] c = ([], c)"
| "port_run (Post p m # ops) c = port_run ops (post_message p m c)"
| "port_run (Take p # ops) c = (let (ms, c1) = take_messages p c; (ts, c2) = port_run ops c1 in ((p, ms) # ts, c2))"
| "port_run (Close p # ops) c = port_run ops (close_port p c)"

text \<open>What a port has been sent: the posts of its peer before either end was closed.\<close>
fun sent_to :: "port \<Rightarrow> 'v port_op list \<Rightarrow> 'v list" where
  "sent_to p [] = []"
| "sent_to p (Post q m # ops) = (if q = peer p then m # sent_to p ops else sent_to p ops)"
| "sent_to p (Take q # ops) = sent_to p ops"
| "sent_to p (Close q # ops) = []"

definition taken :: "port \<Rightarrow> (port \<times> 'v list) list \<Rightarrow> 'v list" where
  "taken p ts = concat (map snd (filter (\<lambda>t. fst t = p) ts))"

lemma peer_simps [simp]: "peer (peer p) = p" "peer p \<noteq> p" "p \<noteq> peer p" "q \<noteq> peer p \<longleftrightarrow> q = p"
  by (cases p; simp; cases q; simp)+

lemma taken_simps [simp]: "taken p [] = []" "taken p ((q, ms) # ts) = (if q = p then ms @ taken p ts else taken p ts)"
  by (simp_all add: taken_def)

lemmas port_defs = post_message_def take_messages_def close_port_def is_closed_def

lemma closed_run:
  "closed c p \<or> closed c (peer p) \<Longrightarrow> port_run ops c = (ts, c') \<Longrightarrow> taken p ts @ inbox c' p = inbox c p"
proof (induction ops c arbitrary: ts rule: port_run.induct)
  case (2 q m ops c)
  then show ?case by (cases "q = p") (auto simp: port_defs)
next
  case (3 q ops c)
  then show ?case by (auto simp: port_defs split: prod.splits if_splits)
next
  case (4 q ops c)
  then show ?case by (auto simp: port_defs)
qed simp

lemma open_run:
  "\<not> closed c First \<Longrightarrow> \<not> closed c Second \<Longrightarrow> port_run ops c = (ts, c') \<Longrightarrow>
   taken p ts @ inbox c' p = inbox c p @ sent_to p ops"
proof (induction ops c arbitrary: ts rule: port_run.induct)
  case (2 q m ops c)
  have "\<not> closed c q" "\<not> closed c (peer q)" using 2(2,3) by (cases q; simp)+
  with 2 show ?case by (auto simp: port_defs)
next
  case (3 q ops c)
  then show ?case by (auto simp: port_defs split: prod.splits if_splits)
next
  case (4 q ops c)
  have "closed (close_port q c) p \<or> closed (close_port q c) (peer p)" by (cases q; cases p) (simp_all add: port_defs)
  from closed_run [OF this] 4(4) show ?case by (simp add: port_defs)
qed simp

section \<open>Properties\<close>

text \<open>C15. The bus implements an exchange with one list of registrations: for every sequence of
  calls the two give the same answers.  A handler answers the invocations of its channel until
  it is removed and a second one is refused; a send calls exactly the listeners registered for
  the channel and not yet removed, in the order of their registration; removing a listener
  says whether it was there; and the ids of fewer than \<open>2^64\<close> subscriptions are all
  different.\<close>
theorem ipc_bus_refines:
  "fst (bus_run ops bus_new) = fst (exchange_run ops exchange_new)
   \<and> (count (snd (exchange_run ops exchange_new)) < 2 ^ 64 \<longrightarrow> distinct (subscribed_ids (fst (bus_run ops bus_new))))"
proof -
  have sim: "fst (bus_run ops bus_new) = fst (exchange_run ops exchange_new)"
    using bus_run_simulates [of bus_new exchange_new ops]
    by (simp add: bus_abs_def bus_new_def exchange_new_def)
  moreover have "distinct (subscribed_ids (fst (exchange_run ops exchange_new)))"
    if "count (snd (exchange_run ops exchange_new)) < 2 ^ 64"
  proof -
    have "inj_on (of_nat :: nat \<Rightarrow> u64) {0..<count (snd (exchange_run ops exchange_new))}"
      using that by (auto simp: inj_on_def word_of_nat_eq_iff take_bit_nat_eq_self)
    then show ?thesis using exchange_ids [of ops exchange_new] by (simp add: exchange_new_def distinct_map)
  qed
  ultimately show ?thesis by simp
qed

theorem ipc_bus_refines_witness:
  "let ops = [BusOn ''c'' (1 :: nat), BusOn ''c'' 2, BusOn ''d'' 3, Send ''c'' (5 :: nat), RemoveListener ''c'' 0, Send ''c'' 6,
       Handle ''h'' (\<lambda>n. Inr (n + 1)), Handle ''h'' (\<lambda>n. Inr n), Invoke ''h'' 1, Invoke ''x'' 1]
   in distinct (subscribed_ids (fst (bus_run ops bus_new)))
   \<and> fst (bus_run ops bus_new) = [Subscribed 0, Subscribed 1, Subscribed 2, Called [(1, 5), (2, 5)], Removed True,
       Called [(2, 6)], Handled (Inr ()), Handled (Inl (DuplicateHandler ''h'')), Invoked (Inr 2),
       Invoked (Inl (UnknownChannel ''x''))]"
proof -
  define ops where "ops = [BusOn ''c'' (1 :: nat), BusOn ''c'' 2, BusOn ''d'' 3, Send ''c'' (5 :: nat), RemoveListener ''c'' 0, Send ''c'' 6,
       Handle ''h'' (\<lambda>n. Inr (n + 1)), Handle ''h'' (\<lambda>n. Inr n), Invoke ''h'' 1, Invoke ''x'' 1]"
  have "count (snd (exchange_run ops exchange_new)) < 2 ^ 64" by (simp add: ops_def exchange_new_def)
  moreover have "fst (exchange_run ops exchange_new) = [Subscribed 0, Subscribed 1, Subscribed 2, Called [(1, 5), (2, 5)], Removed True,
       Called [(2, 6)], Handled (Inr ()), Handled (Inl (DuplicateHandler ''h'')), Invoked (Inr 2),
       Invoked (Inl (UnknownChannel ''x''))]"
    by (simp add: ops_def exchange_new_def registers_def)
  moreover note ipc_bus_refines [of ops]
  ultimately show ?thesis unfolding Let_def ops_def [symmetric] by metis
qed

text \<open>A message channel delivers first in, first out and loses nothing: in every run, what a
  port has taken, followed by what is still in its inbox, is what its peer posted before either
  port was closed, in the same order.  Messages posted after a close, by either side, are
  dropped without an error, and those already queued can still be taken.\<close>
lemma message_channel_fifo:
  assumes "port_run ops channel_new = (ts, c)"
  shows "taken p ts @ inbox c p = sent_to p ops \<and> pending_count p c + length (taken p ts) = length (sent_to p ops)"
proof -
  have "taken p ts @ inbox c p = sent_to p ops"
    using open_run [OF _ _ assms, of p] by (simp add: channel_new_def)
  moreover from arg_cong [OF this, of length] have "pending_count p c + length (taken p ts) = length (sent_to p ops)"
    by (simp add: pending_count_def)
  ultimately show ?thesis by simp
qed

lemma message_channel_fifo_witness:
  "let ops = [Post First (1 :: nat), Post First 2, Take Second, Post First 3, Close First, Post First 4, Take Second];
       (ts, c) = port_run ops channel_new
   in taken Second ts @ inbox c Second = [1, 2, 3]"
proof -
  define ops where "ops = [Post First (1 :: nat), Post First 2, Take Second, Post First 3, Close First, Post First 4, Take Second]"
  obtain ts c where run: "port_run ops channel_new = (ts, c)" by fastforce
  have "sent_to Second ops = [1, 2, 3]" by (simp add: ops_def)
  with message_channel_fifo [OF run, of Second] have "taken Second ts @ inbox c Second = [1, 2, 3]" by simp
  then show ?thesis unfolding Let_def ops_def [symmetric] run by simp
qed

end
