(* ===== verification/Windows.thy ===== *)
theory Windows
  imports Ipc Rust_String Id_Registry "HOL-Library.AList"
begin

text \<open>
  Browser windows: \<open>strake-electron-compat/src/window.rs\<close>.

  Options, the web contents with its outbox, file URLs, and the window manager that owns the
  windows by id.  The hash maps are association lists with distinct keys; a payload and a
  listener are opaque, and a close returns the calls it makes.  The working directory is a
  parameter (\<open>None\<close> when it cannot be read).
\<close>

type_synonym i32 = "32 word"

section \<open>Options and web contents\<close>

record bounds =
  bounds_x :: i32
  bounds_y :: i32
  bounds_width :: u32
  bounds_height :: u32

record 'v main_send =
  send_channel :: string
  send_payload :: 'v

datatype title_bar_style = DefaultStyle | Hidden | HiddenInset

record window_options =
  opt_width :: u32
  opt_height :: u32
  min_size :: "(u32 \<times> u32) option"
  max_size :: "(u32 \<times> u32) option"
  position_opt :: "(i32 \<times> i32) option"
  frame :: bool
  resizable :: bool
  title_bar :: title_bar_style
  transparent :: bool
  background_color :: "string option"
  show_at_once :: bool
  opt_title :: string
  preload :: "string option"
  session_of :: u32

definition window_options_default :: window_options where
  "window_options_default = \<lparr> opt_width = 800, opt_height = 600, min_size = None, max_size = None,
     position_opt = None, frame = True, resizable = True, title_bar = DefaultStyle, transparent = False,
     background_color = None, show_at_once = True, opt_title = '''', preload = None, session_of = 0 \<rparr>"

record 'v web_contents =
  pending_url :: "string option"
  document_title :: "string option"
  outbox :: "'v main_send list"

definition web_contents_new :: "'v web_contents" where
  "web_contents_new = \<lparr> pending_url = None, document_title = None, outbox = [] \<rparr>"

definition load_url :: "string \<Rightarrow> 'v web_contents \<Rightarrow> 'v web_contents" where
  "load_url url w = w\<lparr>pending_url := Some url\<rparr>"

definition set_document_title :: "string option \<Rightarrow> 'v web_contents \<Rightarrow> 'v web_contents" where
  "set_document_title t w = w\<lparr>document_title := t\<rparr>"

definition get_title :: "'v web_contents \<Rightarrow> string" where
  "get_title w = (case document_title w of Some t \<Rightarrow> t | None \<Rightarrow> '''')"

definition queue_send :: "string \<Rightarrow> 'v \<Rightarrow> 'v web_contents \<Rightarrow> 'v web_contents" where
  "queue_send ch v w = w\<lparr>outbox := outbox w @ [\<lparr> send_channel = ch, send_payload = v \<rparr>]\<rparr>"

definition pending_send_count :: "'v web_contents \<Rightarrow> nat" where
  "pending_send_count w = length (outbox w)"

definition take_pending_sends :: "'v web_contents \<Rightarrow> 'v main_send list \<times> 'v web_contents" where
  "take_pending_sends w = (outbox w, w\<lparr>outbox := []\<rparr>)"

text \<open>\<open>webContents.send\<close> delivers on the bus.\<close>
definition contents_send :: "('v, 'l) ipc_bus \<Rightarrow> string \<Rightarrow> 'v \<Rightarrow> 'v web_contents \<Rightarrow> ('l \<times> 'v) list" where
  "contents_send bus ch v w = bus_send ch v bus"

section \<open>File URLs\<close>

definition is_absolute_path :: "string \<Rightarrow> bool" where
  "is_absolute_path p \<longleftrightarrow> starts_with p ''/''
     \<or> (length p \<ge> 2 \<and> is_ascii_alphabetic (p ! 0) \<and> p ! 1 = CHR '':'')"

definition kept_in_url :: "char \<Rightarrow> bool" where
  "kept_in_url c \<longleftrightarrow> is_ascii_alphabetic c \<or> is_ascii_digit c \<or> c \<in> set ''-_.~/:''"

definition hex_digit :: "nat \<Rightarrow> char" where
  "hex_digit k = (if k < 10 then char_of (48 + k) else char_of (55 + k))"

definition percent_encode_path :: "string \<Rightarrow> string" where
  "percent_encode_path p = concat (map (\<lambda>c. if kept_in_url c then [c]
     else [CHR ''%'', hex_digit (of_char c div 16), hex_digit (of_char c mod 16)]) p)"

definition trim_start_slashes :: "string \<Rightarrow> string" where
  "trim_start_slashes p = dropWhile (\<lambda>c. c = CHR ''/'') p"

definition trim_end_slashes :: "string \<Rightarrow> string" where
  "trim_end_slashes p = rev (dropWhile (\<lambda>c. c = CHR ''/'') (rev p))"

definition file_url_from_path :: "string option \<Rightarrow> string \<Rightarrow> string" where
  "file_url_from_path cwd path =
    (let stripped = (case strip_prefix path ''file://'' of Some r \<Rightarrow> r | None \<Rightarrow> path);
         slashed = map (\<lambda>c. if c = CHR 0x5C then CHR ''/'' else c) stripped;
         absolute = (if is_absolute_path slashed then slashed
           else (case cwd of
               Some root \<Rightarrow> trim_end_slashes root @ ''/'' @ trim_start_slashes slashed
             | None \<Rightarrow> ''/'' @ trim_start_slashes slashed));
         rooted = (if starts_with absolute ''/'' then absolute else CHR ''/'' # absolute)
     in ''file://'' @ percent_encode_path rooted)"

definition load_file :: "string option \<Rightarrow> string \<Rightarrow> 'v web_contents \<Rightarrow> 'v web_contents" where
  "load_file cwd path w = w\<lparr>pending_url := Some (file_url_from_path cwd path)\<rparr>"

section \<open>Windows\<close>

record 'v browser_window =
  win_options :: window_options
  win_visible :: bool
  win_minimized :: bool
  win_maximized :: bool
  win_focused :: bool
  win_always_on_top :: bool
  win_title :: string
  win_contents :: "'v web_contents"
  win_opener :: "u32 option"

definition browser_window_new :: "window_options \<Rightarrow> 'v browser_window" where
  "browser_window_new options = \<lparr> win_options = options, win_visible = show_at_once options,
     win_minimized = False, win_maximized = False, win_focused = False, win_always_on_top = False,
     win_title = opt_title options, win_contents = web_contents_new, win_opener = None \<rparr>"

definition win_bounds :: "'v browser_window \<Rightarrow> bounds" where
  "win_bounds w = (let (x, y) = (case position_opt (win_options w) of Some p \<Rightarrow> p | None \<Rightarrow> (0, 0)) in
     \<lparr> bounds_x = x, bounds_y = y, bounds_width = opt_width (win_options w), bounds_height = opt_height (win_options w) \<rparr>)"

section \<open>The manager\<close>

record ('v, 'l) manager =
  windows :: "(u32 \<times> 'v browser_window) list"
  next_window_id :: u32
  on_last_closed :: "'l option"
  closed_listeners :: "(u32 \<times> 'l list) list"

text \<open>A call to a listener: of one window, or of the last.\<close>
datatype 'l window_call = CallClosed 'l u32 | CallLastClosed 'l nat

definition manager_new :: "('v, 'l) manager" where
  "manager_new = \<lparr> windows = [], next_window_id = 0, on_last_closed = None, closed_listeners = [] \<rparr>"

definition window_count :: "('v, 'l) manager \<Rightarrow> nat" where
  "window_count m = length (windows m)"

definition live_ids :: "('v, 'l) manager \<Rightarrow> u32 list" where
  "live_ids m = sort (map fst (windows m))"

definition win_get :: "u32 \<Rightarrow> ('v, 'l) manager \<Rightarrow> 'v browser_window option" where
  "win_get i m = map_of (windows m) i"

definition pending_preloads :: "('v, 'l) manager \<Rightarrow> (u32 \<times> string) list" where
  "pending_preloads m = List.map_filter (\<lambda>i. case win_get i m of None \<Rightarrow> None
     | Some w \<Rightarrow> map_option (Pair i) (preload (win_options w))) (live_ids m)"

definition win_create :: "window_options \<Rightarrow> ('v, 'l) manager \<Rightarrow> u32 \<times> ('v, 'l) manager" where
  "win_create options m = (let i = next_window_id m in
     (i, m\<lparr>next_window_id := i + 1, windows := AList.update i (browser_window_new options) (windows m)\<rparr>))"

definition open_child :: "u32 \<Rightarrow> window_options \<Rightarrow> ('v, 'l) manager \<Rightarrow> u32 option \<times> ('v, 'l) manager" where
  "open_child opener options m = (if map_of (windows m) opener = None then (None, m)
     else (let i = next_window_id m in
       (Some i, m\<lparr>next_window_id := i + 1,
          windows := AList.update i ((browser_window_new options)\<lparr>win_opener := Some opener\<rparr>) (windows m)\<rparr>)))"

definition on_last_window_closed :: "'l \<Rightarrow> ('v, 'l) manager \<Rightarrow> ('v, 'l) manager" where
  "on_last_window_closed l m = m\<lparr>on_last_closed := Some l\<rparr>"

definition win_close :: "u32 \<Rightarrow> ('v, 'l) manager \<Rightarrow> bool \<times> 'l window_call list \<times> ('v, 'l) manager" where
  "win_close i m = (if map_of (windows m) i = None then (False, [], m)
     else (let m1 = m\<lparr>windows := AList.delete i (windows m)\<rparr>;
               calls1 = (case map_of (closed_listeners m1) i of None \<Rightarrow> [] | Some ls \<Rightarrow> map (\<lambda>l. CallClosed l i) ls);
               m2 = m1\<lparr>closed_listeners := AList.delete i (closed_listeners m1)\<rparr>;
               calls2 = (if windows m2 = [] then (case on_last_closed m2 of None \<Rightarrow> []
                   | Some l \<Rightarrow> [CallLastClosed l (length (windows m2))]) else [])
           in (True, calls1 @ calls2, m2)))"

definition on_closed :: "u32 \<Rightarrow> 'l \<Rightarrow> ('v, 'l) manager \<Rightarrow> bool \<times> ('v, 'l) manager" where
  "on_closed i l m = (case map_of (closed_listeners m) i of
     Some ls \<Rightarrow> (True, m\<lparr>closed_listeners := AList.update i (ls @ [l]) (closed_listeners m)\<rparr>)
   | None \<Rightarrow> if map_of (windows m) i = None then (False, m)
       else (True, m\<lparr>closed_listeners := AList.update i [l] (closed_listeners m)\<rparr>))"

definition win_mutate :: "u32 \<Rightarrow> ('v browser_window \<Rightarrow> 'v browser_window) \<Rightarrow> ('v, 'l) manager \<Rightarrow> bool \<times> ('v, 'l) manager" where
  "win_mutate i f m = (case map_of (windows m) i of
     Some w \<Rightarrow> (True, m\<lparr>windows := AList.update i (f w) (windows m)\<rparr>)
   | None \<Rightarrow> (False, m))"

definition win_show :: "u32 \<Rightarrow> ('v, 'l) manager \<Rightarrow> bool \<times> ('v, 'l) manager" where
  "win_show i = win_mutate i (\<lambda>w. w\<lparr>win_visible := True\<rparr>)"

definition win_hide :: "u32 \<Rightarrow> ('v, 'l) manager \<Rightarrow> bool \<times> ('v, 'l) manager" where
  "win_hide i = win_mutate i (\<lambda>w. w\<lparr>win_visible := False\<rparr>)"

definition win_minimize :: "u32 \<Rightarrow> ('v, 'l) manager \<Rightarrow> bool \<times> ('v, 'l) manager" where
  "win_minimize i = win_mutate i (\<lambda>w. w\<lparr>win_minimized := True\<rparr>)"

definition win_maximize :: "u32 \<Rightarrow> ('v, 'l) manager \<Rightarrow> bool \<times> ('v, 'l) manager" where
  "win_maximize i = win_mutate i (\<lambda>w. w\<lparr>win_maximized := True, win_minimized := False\<rparr>)"

definition win_restore :: "u32 \<Rightarrow> ('v, 'l) manager \<Rightarrow> bool \<times> ('v, 'l) manager" where
  "win_restore i = win_mutate i (\<lambda>w. w\<lparr>win_minimized := False, win_maximized := False\<rparr>)"

definition win_focus :: "u32 \<Rightarrow> ('v, 'l) manager \<Rightarrow> bool \<times> ('v, 'l) manager" where
  "win_focus i = win_mutate i (\<lambda>w. w\<lparr>win_focused := True\<rparr>)"

definition win_blur :: "u32 \<Rightarrow> ('v, 'l) manager \<Rightarrow> bool \<times> ('v, 'l) manager" where
  "win_blur i = win_mutate i (\<lambda>w. w\<lparr>win_focused := False\<rparr>)"

definition win_set_always_on_top :: "u32 \<Rightarrow> bool \<Rightarrow> ('v, 'l) manager \<Rightarrow> bool \<times> ('v, 'l) manager" where
  "win_set_always_on_top i b = win_mutate i (\<lambda>w. w\<lparr>win_always_on_top := b\<rparr>)"

definition win_set_title :: "u32 \<Rightarrow> string \<Rightarrow> ('v, 'l) manager \<Rightarrow> bool \<times> ('v, 'l) manager" where
  "win_set_title i t = win_mutate i (\<lambda>w. w\<lparr>win_title := t\<rparr>)"

definition win_set_resizable :: "u32 \<Rightarrow> bool \<Rightarrow> ('v, 'l) manager \<Rightarrow> bool \<times> ('v, 'l) manager" where
  "win_set_resizable i r = win_mutate i (\<lambda>w. w\<lparr>win_options := (win_options w)\<lparr>resizable := r\<rparr>\<rparr>)"

definition win_is_resizable :: "u32 \<Rightarrow> ('v, 'l) manager \<Rightarrow> bool" where
  "win_is_resizable i m = (case win_get i m of Some w \<Rightarrow> resizable (win_options w) | None \<Rightarrow> False)"

definition win_is_visible :: "u32 \<Rightarrow> ('v, 'l) manager \<Rightarrow> bool" where
  "win_is_visible i m = (case win_get i m of Some w \<Rightarrow> win_visible w | None \<Rightarrow> False)"

definition win_set_bounds :: "u32 \<Rightarrow> bounds \<Rightarrow> ('v, 'l) manager \<Rightarrow> bool \<times> ('v, 'l) manager" where
  "win_set_bounds i b = win_mutate i (\<lambda>w. w\<lparr>win_options := (win_options w)\<lparr>position_opt := Some (bounds_x b, bounds_y b),
     opt_width := bounds_width b, opt_height := bounds_height b\<rparr>\<rparr>)"

definition win_get_bounds :: "u32 \<Rightarrow> ('v, 'l) manager \<Rightarrow> bounds option" where
  "win_get_bounds i m = map_option win_bounds (win_get i m)"

definition win_resize :: "u32 \<Rightarrow> u32 \<Rightarrow> u32 \<Rightarrow> ('v, 'l) manager \<Rightarrow> bool \<times> ('v, 'l) manager" where
  "win_resize i wd ht = win_mutate i (\<lambda>w. w\<lparr>win_options := (win_options w)\<lparr>opt_width := wd, opt_height := ht\<rparr>\<rparr>)"

definition queue_web_contents_send :: "u32 \<Rightarrow> string \<Rightarrow> 'v \<Rightarrow> ('v, 'l) manager \<Rightarrow> bool \<times> ('v, 'l) manager" where
  "queue_web_contents_send i ch v m = (case map_of (windows m) i of
     Some w \<Rightarrow> (True, m\<lparr>windows := AList.update i (w\<lparr>win_contents := queue_send ch v (win_contents w)\<rparr>) (windows m)\<rparr>)
   | None \<Rightarrow> (False, m))"

definition queued_main_send_count :: "('v, 'l) manager \<Rightarrow> nat" where
  "queued_main_send_count m = sum_list (map (\<lambda>e. pending_send_count (win_contents (snd e))) (windows m))"

text \<open>One window of the drain.\<close>
definition drain_one :: "u32 \<Rightarrow> (u32 \<times> 'v main_send) list \<times> ('v, 'l) manager \<Rightarrow> (u32 \<times> 'v main_send) list \<times> ('v, 'l) manager" where
  "drain_one i = (\<lambda>(drained, m). (case map_of (windows m) i of
     None \<Rightarrow> (drained, m)
   | Some w \<Rightarrow> (let (sends, c) = take_pending_sends (win_contents w) in
       (drained @ map (Pair i) sends, m\<lparr>windows := AList.update i (w\<lparr>win_contents := c\<rparr>) (windows m)\<rparr>))))"

definition drain_web_contents_sends :: "('v, 'l) manager \<Rightarrow> (u32 \<times> 'v main_send) list \<times> ('v, 'l) manager" where
  "drain_web_contents_sends m = fold drain_one (live_ids m) ([], m)"

section \<open>Runs\<close>

datatype chrome = ShowW | HideW | MinimizeW | MaximizeW | RestoreW | FocusW | BlurW | OnTopW bool
  | TitleW string | ResizableW bool | BoundsW bounds | ResizeW u32 u32

fun win_chrome :: "chrome \<Rightarrow> u32 \<Rightarrow> ('v, 'l) manager \<Rightarrow> bool \<times> ('v, 'l) manager" where
  "win_chrome ShowW = win_show" | "win_chrome HideW = win_hide" | "win_chrome MinimizeW = win_minimize"
| "win_chrome MaximizeW = win_maximize" | "win_chrome RestoreW = win_restore" | "win_chrome FocusW = win_focus"
| "win_chrome BlurW = win_blur" | "win_chrome (OnTopW b) = (\<lambda>i. win_set_always_on_top i b)"
| "win_chrome (TitleW t) = (\<lambda>i. win_set_title i t)" | "win_chrome (ResizableW r) = (\<lambda>i. win_set_resizable i r)"
| "win_chrome (BoundsW b) = (\<lambda>i. win_set_bounds i b)" | "win_chrome (ResizeW w h) = (\<lambda>i. win_resize i w h)"

datatype ('v, 'l) win_op = Create window_options | OpenChild u32 window_options | CloseWindow u32
  | OnClosed u32 'l | OnLastClosed 'l | Chrome u32 chrome | QueueSend u32 string 'v | Drain

datatype ('v, 'l) win_out = Created "u32 option" | Done bool | Closed bool "'l window_call list"
  | Drained "(u32 \<times> 'v main_send) list"

fun win_step :: "('v, 'l) win_op \<Rightarrow> ('v, 'l) manager \<Rightarrow> ('v, 'l) win_out \<times> ('v, 'l) manager" where
  "win_step (Create opts) m = (let (i, m1) = win_create opts m in (Created (Some i), m1))"
| "win_step (OpenChild opener opts) m = (let (i, m1) = open_child opener opts m in (Created i, m1))"
| "win_step (CloseWindow i) m = (let (b, calls, m1) = win_close i m in (Closed b calls, m1))"
| "win_step (OnClosed i l) m = (let (b, m1) = on_closed i l m in (Done b, m1))"
| "win_step (OnLastClosed l) m = (Done True, on_last_window_closed l m)"
| "win_step (Chrome i c) m = (let (b, m1) = win_chrome c i m in (Done b, m1))"
| "win_step (QueueSend i ch v) m = (let (b, m1) = queue_web_contents_send i ch v m in (Done b, m1))"
| "win_step Drain m = (let (ds, m1) = drain_web_contents_sends m in (Drained ds, m1))"

type_synonym ('v, 'l) win_log = "(('v, 'l) win_op \<times> ('v, 'l) win_out) list"

fun win_run :: "('v, 'l) win_op list \<Rightarrow> ('v, 'l) manager \<Rightarrow> ('v, 'l) win_log \<times> ('v, 'l) manager" where
  "win_run [] m = ([], m)"
| "win_run (op1 # ops) m = (let (r, m1) = win_step op1 m; (rs, m2) = win_run ops m1 in ((op1, r) # rs, m2))"

lemma win_run_snoc:
  "win_run (ops @ [op1]) m = (let (log, m1) = win_run ops m; (r, m2) = win_step op1 m1 in (log @ [(op1, r)], m2))"
  by (induction ops arbitrary: m) (auto split: prod.splits)

text \<open>What a log says: the windows created and closed, what was registered and queued for a
  window, and what the drains delivered for it.\<close>
fun created1 :: "('v, 'l) win_op \<times> ('v, 'l) win_out \<Rightarrow> u32 list" where
  "created1 (_, Created (Some i)) = [i]"
| "created1 _ = []"

fun closed1 :: "('v, 'l) win_op \<times> ('v, 'l) win_out \<Rightarrow> u32 list" where
  "closed1 (CloseWindow i, Closed True _) = [i]"
| "closed1 _ = []"

fun heard1 :: "u32 \<Rightarrow> ('v, 'l) win_op \<times> ('v, 'l) win_out \<Rightarrow> 'l list" where
  "heard1 i (OnClosed j l, Done True) = (if j = i then [l] else [])"
| "heard1 i _ = []"

fun queued1 :: "u32 \<Rightarrow> ('v, 'l) win_op \<times> ('v, 'l) win_out \<Rightarrow> 'v main_send list" where
  "queued1 i (QueueSend j ch v, Done True) = (if j = i then [\<lparr> send_channel = ch, send_payload = v \<rparr>] else [])"
| "queued1 i _ = []"

fun delivered1 :: "u32 \<Rightarrow> ('v, 'l) win_op \<times> ('v, 'l) win_out \<Rightarrow> 'v main_send list" where
  "delivered1 i (_, Drained ds) = map snd (filter (\<lambda>d. fst d = i) ds)"
| "delivered1 i _ = []"

definition created_ids :: "('v, 'l) win_log \<Rightarrow> u32 list" where
  "created_ids log = concat (map created1 log)"

definition closed_ids :: "('v, 'l) win_log \<Rightarrow> u32 list" where
  "closed_ids log = concat (map closed1 log)"

definition heard :: "u32 \<Rightarrow> ('v, 'l) win_log \<Rightarrow> 'l list" where
  "heard i log = concat (map (heard1 i) log)"

definition queued :: "u32 \<Rightarrow> ('v, 'l) win_log \<Rightarrow> 'v main_send list" where
  "queued i log = concat (map (queued1 i) log)"

definition delivered :: "u32 \<Rightarrow> ('v, 'l) win_log \<Rightarrow> 'v main_send list" where
  "delivered i log = concat (map (delivered1 i) log)"


lemma log_simps [simp]:
  "created_ids [] = []" "created_ids (log @ [e]) = created_ids log @ created1 e"
  "closed_ids [] = []" "closed_ids (log @ [e]) = closed_ids log @ closed1 e"
  "heard i [] = []" "heard i (log @ [e]) = heard i log @ heard1 i e"
  "queued i [] = []" "queued i (log @ [e]) = queued i log @ queued1 i e"
  "delivered i [] = []" "delivered i (log @ [e]) = delivered i log @ delivered1 i e"
  by (simp_all add: created_ids_def closed_ids_def heard_def queued_def delivered_def)

section \<open>The ids\<close>

interpretation win_ids: id_registry "\<lambda>m. map_of (windows m)" next_window_id win_create "\<lambda>i m. snd (snd (win_close i m))"
  by unfold_locales (auto simp: win_create_def win_close_def Let_def AList.update_conv' AList.delete_conv' split: option.split)

section \<open>The invariant of a run\<close>

definition listeners_of :: "u32 \<Rightarrow> ('v, 'l) manager \<Rightarrow> 'l list" where
  "listeners_of i m = (case map_of (closed_listeners m) i of None \<Rightarrow> [] | Some ls \<Rightarrow> ls)"

definition outbox_of :: "u32 \<Rightarrow> ('v, 'l) manager \<Rightarrow> 'v main_send list" where
  "outbox_of i m = (case map_of (windows m) i of None \<Rightarrow> [] | Some w \<Rightarrow> outbox (win_contents w))"

definition live :: "('v, 'l) manager \<Rightarrow> u32 set" where
  "live m = dom (map_of (windows m))"

definition win_inv :: "('v, 'l) win_log \<Rightarrow> ('v, 'l) manager \<Rightarrow> bool" where
  "win_inv log m \<longleftrightarrow> distinct (map fst (windows m))
     \<and> created_ids log = map of_nat [0..<length (created_ids log)] \<and> next_window_id m = of_nat (length (created_ids log))
     \<and> live m = set (created_ids log) - set (closed_ids log) \<and> set (closed_ids log) \<subseteq> set (created_ids log)
     \<and> (\<forall>i. i \<notin> live m \<longrightarrow> map_of (closed_listeners m) i = None)
     \<and> (\<forall>i\<in>live m. listeners_of i m = heard i log \<and> delivered i log @ outbox_of i m = queued i log)
     \<and> (\<forall>i. prefix (delivered i log) (queued i log))
     \<and> (\<forall>i. i \<notin> set (created_ids log) \<longrightarrow> heard i log = [] \<and> queued i log = [])"

lemma distinct_of_nat: "n \<le> 2 ^ 32 \<Longrightarrow> distinct (map (of_nat :: nat \<Rightarrow> u32) [0..<n])"
  by (auto simp: distinct_map inj_on_def word_of_nat_eq_iff take_bit_nat_eq_self)

lemma sorted_of_nat: "n \<le> 2 ^ 32 \<Longrightarrow> sorted (map (of_nat :: nat \<Rightarrow> u32) [0..<n])"
  by (auto simp: sorted_wrt_iff_nth_less word_le_nat_alt unat_of_nat)

text \<open>A change of one live window that keeps its outbox.\<close>
lemma win_inv_mutate:
  assumes "win_inv log m" "map_of (windows m) j = Some w" "outbox (win_contents w') = outbox (win_contents w)"
    and "created1 e = []" "closed1 e = []" "\<And>i. heard1 i e = []" "\<And>i. queued1 i e = []" "\<And>i. delivered1 i e = []"
  shows "win_inv (log @ [e]) (m\<lparr>windows := AList.update j w' (windows m)\<rparr>)"
proof -
  let ?m = "m\<lparr>windows := AList.update j w' (windows m)\<rparr>"
  have "live ?m = live m" "\<And>i. outbox_of i ?m = outbox_of i m" "\<And>i. listeners_of i ?m = listeners_of i m"
    using assms(2,3) by (auto simp: live_def outbox_of_def listeners_of_def AList.update_conv')
  with assms show ?thesis by (simp add: win_inv_def distinct_update)
qed

lemma win_inv_idle:
  assumes "win_inv log m" "windows m' = windows m" "next_window_id m' = next_window_id m" "closed_listeners m' = closed_listeners m"
    and "created1 e = []" "closed1 e = []" "\<And>i. heard1 i e = []" "\<And>i. queued1 i e = []" "\<And>i. delivered1 i e = []"
  shows "win_inv (log @ [e]) m'"
  using assms by (simp add: win_inv_def live_def outbox_of_def listeners_of_def)

lemma win_inv_create:
  assumes inv: "win_inv log m" and room: "length (created_ids log) < 2 ^ 32"
    and new: "outbox (win_contents w) = []" "created1 e = [next_window_id m]"
    and "closed1 e = []" "\<And>i. heard1 i e = []" "\<And>i. queued1 i e = []" "\<And>i. delivered1 i e = []"
  shows "win_inv (log @ [e]) (m\<lparr>next_window_id := next_window_id m + 1, windows := AList.update (next_window_id m) w (windows m)\<rparr>)"
    (is "win_inv _ ?m")
proof -
  let ?n = "length (created_ids log)" and ?i = "next_window_id m"
  have ids: "created_ids log = map of_nat [0..<?n]" "?i = of_nat ?n" using inv by (simp_all add: win_inv_def)
  have "distinct (map (of_nat :: nat \<Rightarrow> u32) [0..<Suc ?n])" using room by (intro distinct_of_nat) simp
  then have fresh: "?i \<notin> set (created_ids log)" using arg_cong [OF ids(1), of set] by (simp add: ids(2))
  then have nl: "?i \<notin> live m" and "?i \<notin> set (closed_ids log)" using inv by (auto simp: win_inv_def)
  moreover from nl have "map_of (windows m) ?i = None" by (auto simp: live_def)
  moreover have "map_of (closed_listeners m) ?i = None" using inv nl by (simp add: win_inv_def)
  moreover have "heard ?i log = []" "queued ?i log = []" using inv fresh by (simp_all add: win_inv_def)
  moreover have "prefix (delivered ?i log) (queued ?i log)" using inv by (simp add: win_inv_def)
  ultimately have old: "map_of (windows m) ?i = None" "heard ?i log = []" "queued ?i log = []" "delivered ?i log = []"
      "map_of (closed_listeners m) ?i = None" "?i \<notin> set (closed_ids log)" by simp_all
  have "live ?m = insert ?i (live m)" "outbox_of j ?m = (if j = ?i then [] else outbox_of j m)"
    "listeners_of j ?m = listeners_of j m" for j
    using new old(1) by (auto simp: live_def outbox_of_def listeners_of_def AList.update_conv')
  moreover have "created_ids (log @ [e]) = map of_nat [0..<length (created_ids (log @ [e]))]"
    using ids new(2) by simp
  ultimately show ?thesis using inv old assms(5-) new fresh
    by (auto simp: win_inv_def distinct_update listeners_of_def)
qed

lemma win_inv_close:
  assumes inv: "win_inv log m" and i: "i \<in> live m" and e: "win_close i m = (b, calls, m')"
  shows "win_inv (log @ [(CloseWindow i, Closed b calls)]) m'"
    "b" "live m' = live m - {i}" "calls = map (\<lambda>l. CallClosed l i) (heard i log)
       @ (if live m' = {} then (case on_last_closed m of None \<Rightarrow> [] | Some l \<Rightarrow> [CallLastClosed l 0]) else [])"
proof -
  have m': "b" "m' = m\<lparr>windows := AList.delete i (windows m), closed_listeners := AList.delete i (closed_listeners m)\<rparr>"
    using e i by (auto simp: win_close_def live_def Let_def)
  have lv: "live m' = live m - {i}" "outbox_of j m' = (if j = i then [] else outbox_of j m)"
    "listeners_of j m' = (if j = i then [] else listeners_of j m)" for j
    by (auto simp: m' live_def outbox_of_def listeners_of_def AList.delete_conv')
  moreover have "distinct (map fst (windows m'))" "next_window_id m' = next_window_id m"
    "map_of (closed_listeners m') = (map_of (closed_listeners m))(i := None)"
    using inv by (auto simp: win_inv_def m'(2) distinct_delete AList.delete_conv')
  ultimately show "win_inv (log @ [(CloseWindow i, Closed b calls)]) m'"
    using inv i m'(1) unfolding win_inv_def by auto
  show b using m'(1) .
  show "live m' = live m - {i}" using lv(1) .
  have li: "listeners_of i m = heard i log" using inv i by (simp add: win_inv_def)
  have "live m' = {} \<longleftrightarrow> AList.delete i (windows m) = []"
    by (auto simp: live_def m'(2) dom_map_of_conv_image_fst simp flip: AList.delete_keys)
  then show "calls = map (\<lambda>l. CallClosed l i) (heard i log)
       @ (if live m' = {} then (case on_last_closed m of None \<Rightarrow> [] | Some l \<Rightarrow> [CallLastClosed l 0]) else [])"
    using e i li by (auto simp: win_close_def live_def Let_def listeners_of_def split: option.splits if_splits)
qed

lemma win_inv_on_closed:
  assumes inv: "win_inv log m" and e: "on_closed i l m = (b, m')"
  shows "win_inv (log @ [(OnClosed i l, Done b)]) m'"
proof (cases "i \<in> live m")
  case True
  then have m': "b" "m' = m\<lparr>closed_listeners := AList.update i (listeners_of i m @ [l]) (closed_listeners m)\<rparr>"
    using e by (auto simp: on_closed_def live_def listeners_of_def split: option.splits)
  have "live m' = live m" "outbox_of j m' = outbox_of j m"
    "listeners_of j m' = (if j = i then listeners_of i m @ [l] else listeners_of j m)" for j
    by (auto simp: m' live_def outbox_of_def listeners_of_def AList.update_conv')
  then show ?thesis using inv True m'(1) by (auto simp: win_inv_def m'(2) AList.update_conv')
next
  case False
  then have "map_of (closed_listeners m) i = None" using inv by (auto simp: win_inv_def)
  then have "\<not> b" "m' = m" using e False by (auto simp: on_closed_def live_def split: if_splits)
  then show ?thesis using inv by (intro win_inv_idle) auto
qed

lemma win_inv_queue:
  assumes inv: "win_inv log m" and e: "queue_web_contents_send i ch v m = (b, m')"
  shows "win_inv (log @ [(QueueSend i ch v, Done b)]) m'"
proof (cases "map_of (windows m) i")
  case None
  then have "\<not> b" "m' = m" using e by (auto simp: queue_web_contents_send_def)
  then show ?thesis using inv by (intro win_inv_idle) auto
next
  case (Some w)
  let ?s = "\<lparr> send_channel = ch, send_payload = v \<rparr>"
  have m': "b" "m' = m\<lparr>windows := AList.update i (w\<lparr>win_contents := queue_send ch v (win_contents w)\<rparr>) (windows m)\<rparr>"
    using e Some by (auto simp: queue_web_contents_send_def)
  have "live m' = live m" "outbox_of j m' = (if j = i then outbox_of i m @ [?s] else outbox_of j m)"
    "listeners_of j m' = listeners_of j m" for j
    using Some by (auto simp: m' live_def outbox_of_def listeners_of_def AList.update_conv' queue_send_def)
  moreover have "i \<in> live m" using Some by (auto simp: live_def)
  ultimately show ?thesis using inv m'(1)
    by (auto simp: win_inv_def m'(2) distinct_update simp flip: append_assoc)
qed

text \<open>A drain visits the live windows in ascending order and empties each outbox.\<close>
lemma drain_fold:
  assumes "distinct ids" "set ids \<subseteq> live m" "distinct (map fst (windows m))"
  shows "\<exists>m'. fold drain_one ids (d, m) = (d @ concat (map (\<lambda>i. map (Pair i) (outbox_of i m)) ids), m')
    \<and> live m' = live m \<and> (\<forall>i. outbox_of i m' = (if i \<in> set ids then [] else outbox_of i m))
    \<and> closed_listeners m' = closed_listeners m \<and> next_window_id m' = next_window_id m \<and> distinct (map fst (windows m'))"
  using assms
proof (induction ids arbitrary: d m)
  case (Cons i ids)
  then obtain w where w: "map_of (windows m) i = Some w" by (auto simp: live_def)
  let ?m1 = "m\<lparr>windows := AList.update i (w\<lparr>win_contents := (win_contents w)\<lparr>outbox := []\<rparr>\<rparr>) (windows m)\<rparr>"
  have one: "drain_one i (d, m) = (d @ map (Pair i) (outbox_of i m), ?m1)"
    using w by (simp add: drain_one_def take_pending_sends_def outbox_of_def)
  have m1: "live ?m1 = live m" "outbox_of j ?m1 = (if j = i then [] else outbox_of j m)" for j
    using w by (auto simp: live_def outbox_of_def AList.update_conv')
  have "distinct ids" "set ids \<subseteq> live ?m1" "distinct (map fst (windows ?m1))"
    using Cons.prems m1(1) by (auto simp: distinct_update)
  from Cons.IH [OF this, of "d @ map (Pair i) (outbox_of i m)"] obtain m' where
    m': "fold drain_one ids (d @ map (Pair i) (outbox_of i m), ?m1) =
        ((d @ map (Pair i) (outbox_of i m)) @ concat (map (\<lambda>j. map (Pair j) (outbox_of j ?m1)) ids), m')"
      "live m' = live m" "\<forall>j. outbox_of j m' = (if j \<in> set ids then [] else outbox_of j ?m1)"
      "closed_listeners m' = closed_listeners m" "next_window_id m' = next_window_id m" "distinct (map fst (windows m'))"
    by (auto simp: m1(1))
  have "concat (map (\<lambda>j. map (Pair j) (outbox_of j ?m1)) ids) = concat (map (\<lambda>j. map (Pair j) (outbox_of j m)) ids)"
    using Cons.prems(1) m1(2) by (intro arg_cong [where f = concat] map_cong) auto
  then have "fold drain_one (i # ids) (d, m) = (d @ concat (map (\<lambda>j. map (Pair j) (outbox_of j m)) (i # ids)), m')"
    using m'(1) by (simp add: one)
  with m'(2-) m1(2) show ?case by (intro exI [of _ m']) auto
qed simp

lemma live_ids_set: "distinct (map fst (windows m)) \<Longrightarrow> distinct (live_ids m) \<and> sorted (live_ids m) \<and> set (live_ids m) = live m"
  by (simp add: live_ids_def live_def dom_map_of_conv_image_fst)

lemma delivered_to:
  "distinct ids \<Longrightarrow> map snd (filter (\<lambda>d. fst d = i) (concat (map (\<lambda>j. map (Pair j) (f j)) ids))) = (if i \<in> set ids then f i else [])"
proof (induction ids)
  case (Cons a ids)
  then show ?case by (cases "a = i") (auto simp: filter_map o_def)
qed simp

lemma win_inv_drain:
  assumes inv: "win_inv log m" and e: "drain_web_contents_sends m = (ds, m')"
  shows "win_inv (log @ [(Drain, Drained ds)]) m'"
proof -
  have d: "distinct (map fst (windows m))" using inv by (simp add: win_inv_def)
  note ids = live_ids_set [OF d]
  obtain m'' where f: "drain_web_contents_sends m = (concat (map (\<lambda>i. map (Pair i) (outbox_of i m)) (live_ids m)), m'')"
      "live m'' = live m" "\<forall>i. outbox_of i m'' = (if i \<in> live m then [] else outbox_of i m)"
      "closed_listeners m'' = closed_listeners m" "next_window_id m'' = next_window_id m" "distinct (map fst (windows m''))"
    using drain_fold [of "live_ids m" m "[]"] ids d by (auto simp: drain_web_contents_sends_def)
  then have ds: "ds = concat (map (\<lambda>i. map (Pair i) (outbox_of i m)) (live_ids m))" "m'' = m'" using e by simp_all
  have "delivered1 i (Drain, Drained ds) = (if i \<in> live m then outbox_of i m else [])" for i
    using delivered_to [of "live_ids m" i "\<lambda>i. outbox_of i m"] ids by (simp add: ds(1))
  moreover have "listeners_of i m' = listeners_of i m" for i using f(4) by (simp add: listeners_of_def ds(2))
  moreover have "\<forall>i. prefix (delivered i log @ (if i \<in> live m then outbox_of i m else [])) (queued i log)"
    using inv by (auto simp: win_inv_def)
  ultimately show ?thesis using inv f(2-) unfolding ds(2) win_inv_def by auto
qed

lemma win_chrome_mutates: "\<exists>g. win_chrome c i m = win_mutate i g m \<and> (\<forall>w. win_contents (g w) = win_contents w)"
  by (cases c; simp only: win_chrome.simps win_show_def win_hide_def win_minimize_def win_maximize_def win_restore_def
      win_focus_def win_blur_def win_set_always_on_top_def win_set_title_def win_set_resizable_def win_set_bounds_def
      win_resize_def; rule exI, rule conjI, rule refl, simp)

lemma win_step_inv:
  assumes inv: "win_inv log m" and st: "win_step op1 m = (r, m')" and room: "length (created_ids (log @ [(op1, r)])) \<le> 2 ^ 32"
  shows "win_inv (log @ [(op1, r)]) m'"
proof (cases op1)
  case (Create opts)
  then show ?thesis using st room win_inv_create [OF inv, of "browser_window_new opts" "(op1, r)"]
    by (auto simp: win_create_def Let_def browser_window_new_def web_contents_new_def)
next
  case (OpenChild opener opts)
  show ?thesis
  proof (cases "map_of (windows m) opener = None")
    case True
    then have "r = Created None" "m' = m" using OpenChild st by (auto simp: open_child_def)
    then show ?thesis using OpenChild by (intro win_inv_idle [OF inv]) auto
  next
    case False
    then show ?thesis using OpenChild st room
        win_inv_create [OF inv, of "(browser_window_new opts)\<lparr>win_opener := Some opener\<rparr>" "(op1, r)"]
      by (auto simp: open_child_def Let_def browser_window_new_def web_contents_new_def)
  qed
next
  case (CloseWindow i)
  show ?thesis
  proof (cases "i \<in> live m")
    case True
    then show ?thesis using CloseWindow st win_inv_close(1) [OF inv True]
      by (auto split: prod.splits)
  next
    case False
    then have "r = Closed False []" "m' = m" using CloseWindow st by (auto simp: win_close_def live_def domIff)
    then show ?thesis using CloseWindow by (intro win_inv_idle [OF inv]) auto
  qed
next
  case (OnClosed i l)
  then show ?thesis using st win_inv_on_closed [OF inv] by (auto split: prod.splits)
next
  case (OnLastClosed l)
  then show ?thesis using st by (intro win_inv_idle [OF inv]) (auto simp: on_last_window_closed_def)
next
  case (Chrome i c)
  obtain g where g: "win_chrome c i m = win_mutate i g m" "\<And>w. win_contents (g w) = win_contents w"
    using win_chrome_mutates [of c i m] by blast
  show ?thesis
  proof (cases "map_of (windows m) i")
    case None
    then have "r = Done False" "m' = m" using Chrome st by (simp_all add: g win_mutate_def)
    then show ?thesis using Chrome by (intro win_inv_idle [OF inv]) auto
  next
    case (Some w)
    then show ?thesis using Chrome st win_inv_mutate [OF inv Some, of "g w" "(op1, r)"] by (auto simp: g win_mutate_def)
  qed
next
  case (QueueSend i ch v)
  then show ?thesis using st win_inv_queue [OF inv] by (auto split: prod.splits)
next
  case Drain
  then show ?thesis using st win_inv_drain [OF inv] by (auto split: prod.splits)
qed

lemma win_run_inv:
  "win_run ops manager_new = (log, m) \<Longrightarrow> length (created_ids log) \<le> 2 ^ 32 \<Longrightarrow> win_inv log m"
proof (induction ops arbitrary: log m rule: rev_induct)
  case Nil
  then show ?case by (auto simp: win_inv_def manager_new_def live_def)
next
  case (snoc op1 ops)
  obtain log1 m1 r where run: "win_run ops manager_new = (log1, m1)" "win_step op1 m1 = (r, m)" "log = log1 @ [(op1, r)]"
    using snoc.prems(1) by (auto simp: win_run_snoc split: prod.splits)
  with snoc.prems(2) have "win_inv log1 m1" by (intro snoc.IH) auto
  then show ?case using win_step_inv run snoc.prems(2) by blast
qed

text \<open>The hook on the last window.\<close>
fun last_hook :: "'l option \<Rightarrow> ('v, 'l) win_log \<Rightarrow> 'l option" where
  "last_hook h [] = h"
| "last_hook h ((OnLastClosed l, r) # log) = last_hook (Some l) log"
| "last_hook h (_ # log) = last_hook h log"

lemma step_hook: "win_step op1 m = (r, m') \<Longrightarrow> on_last_closed m' = (case op1 of OnLastClosed l \<Rightarrow> Some l | _ \<Rightarrow> on_last_closed m)"
proof (cases op1)
  case (Chrome i c)
  assume "win_step op1 m = (r, m')"
  with Chrome win_chrome_mutates [of c i m] show ?thesis by (auto simp: win_mutate_def split: option.splits)
next
  case Drain
  have "on_last_closed (snd (fold drain_one ids (d, m))) = on_last_closed m" for ids d
    by (induction ids arbitrary: d m) (auto simp: drain_one_def take_pending_sends_def split: option.split)
  moreover assume "win_step op1 m = (r, m')"
  ultimately show ?thesis using Drain by (auto simp: drain_web_contents_sends_def split: prod.splits) (metis snd_conv)
qed (auto simp: win_create_def open_child_def win_close_def on_closed_def on_last_window_closed_def
      queue_web_contents_send_def Let_def split: option.splits if_splits)

lemma run_hook: "win_run ops m = (log, m') \<Longrightarrow> on_last_closed m' = last_hook (on_last_closed m) log"
proof (induction ops arbitrary: m log)
  case (Cons op1 ops)
  obtain r m1 log1 where run: "win_step op1 m = (r, m1)" "win_run ops m1 = (log1, m')" "log = (op1, r) # log1"
    using Cons.prems by (auto split: prod.splits)
  from Cons.IH [OF run(2)] step_hook [OF run(1)] run(3) show ?case by (cases op1) auto
qed simp

lemma win_run_split:
  "win_run ops m = (log1 @ (op1, r) # log2, m') \<Longrightarrow>
   \<exists>m1 m2. win_run (map fst log1) m = (log1, m1) \<and> win_step op1 m1 = (r, m2)"
proof (induction log1 arbitrary: ops m)
  case Nil
  then show ?case by (cases ops) (auto split: prod.splits)
next
  case (Cons e log1)
  obtain o1 r1 where e: "e = (o1, r1)" by (cases e)
  then obtain ops' m1 where "ops = o1 # ops'" "win_step o1 m = (r1, m1)" "win_run ops' m1 = (log1 @ (op1, r) # log2, m')"
    using Cons.prems by (cases ops) (auto split: prod.splits)
  with Cons.IH show ?case by (fastforce simp: e)
qed

section \<open>Properties\<close>

text \<open>C16. The window registry, over any sequence of calls in which no more than \<open>2^32\<close> windows
  are created: no id is given to two windows; the live windows are exactly those created and
  not yet closed, listed in the order of their creation; closing succeeds exactly on a live
  window, and it calls each listener registered for that window once, in order and with its
  id, and then, if no window is left, the hook on the last window with the count zero.\<close>
theorem window_registry:
  assumes "win_run ops manager_new = (log, m)" "length (created_ids log) \<le> 2 ^ 32"
  shows "distinct (created_ids log)
    \<and> live_ids m = filter (\<lambda>i. i \<notin> set (closed_ids log)) (created_ids log)
    \<and> (\<forall>log1 i b calls log2. log = log1 @ (CloseWindow i, Closed b calls) # log2 \<longrightarrow>
        (b \<longleftrightarrow> i \<in> set (created_ids log1) \<and> i \<notin> set (closed_ids log1))
        \<and> calls = (if \<not> b then [] else map (\<lambda>l. CallClosed l i) (heard i log1)
            @ (if set (created_ids log1) \<subseteq> insert i (set (closed_ids log1))
               then (case last_hook None log1 of None \<Rightarrow> [] | Some l \<Rightarrow> [CallLastClosed l 0]) else [])))"
proof (intro conjI allI impI)
  have inv: "win_inv log m" using win_run_inv [OF assms] .
  have ids: "created_ids log = map of_nat [0..<length (created_ids log)]" using inv by (simp add: win_inv_def)
  show "distinct (created_ids log)" by (subst ids) (rule distinct_of_nat [OF assms(2)])
  have srt: "sorted (created_ids log)" by (subst ids) (rule sorted_of_nat [OF assms(2)])
  show "live_ids m = filter (\<lambda>i. i \<notin> set (closed_ids log)) (created_ids log)"
    using live_ids_set [of m] inv \<open>distinct (created_ids log)\<close> srt
    by (intro sorted_distinct_set_unique) (auto simp: win_inv_def sorted_wrt_filter)
next
  fix log1 i b calls log2 assume log: "log = log1 @ (CloseWindow i, Closed b calls) # log2"
  obtain m1 m2 where run: "win_run (map fst log1) manager_new = (log1, m1)" "win_step (CloseWindow i) m1 = (Closed b calls, m2)"
    using win_run_split assms(1) log by blast
  have len: "length (created_ids log1) \<le> 2 ^ 32" using assms(2) by (simp add: log created_ids_def)
  have inv: "win_inv log1 m1" using win_run_inv [OF run(1) len] .
  have lv: "live m1 = set (created_ids log1) - set (closed_ids log1)" using inv by (simp add: win_inv_def)
  have hook: "on_last_closed m1 = last_hook None log1" using run_hook [OF run(1)] by (simp add: manager_new_def)
  have cl: "win_close i m1 = (b, calls, m2)" using run(2) by (auto split: prod.splits)
  show "b \<longleftrightarrow> i \<in> set (created_ids log1) \<and> i \<notin> set (closed_ids log1)"
    using lv cl by (auto simp: win_close_def live_def domIff Let_def split: if_splits)
  show "calls = (if \<not> b then [] else map (\<lambda>l. CallClosed l i) (heard i log1)
      @ (if set (created_ids log1) \<subseteq> insert i (set (closed_ids log1))
         then (case last_hook None log1 of None \<Rightarrow> [] | Some l \<Rightarrow> [CallLastClosed l 0]) else []))"
  proof (cases "i \<in> live m1")
    case True
    have "live m2 = {} \<longleftrightarrow> set (created_ids log1) \<subseteq> insert i (set (closed_ids log1))" using lv True win_inv_close(3) [OF inv True cl] by auto
    then show ?thesis using win_inv_close(2,4) [OF inv True cl] hook by simp
  next
    case False
    then show ?thesis using cl by (auto simp: win_close_def live_def domIff)
  qed
qed

theorem window_registry_witness:
  "let (log, m) = win_run [Create window_options_default, Create window_options_default, OnClosed 0 (7 :: nat),
        OnLastClosed 9, CloseWindow 0, CloseWindow 0, Create window_options_default] (manager_new :: (nat, nat) manager)
   in live_ids m = [1, 2] \<and> distinct (created_ids log)"
proof -
  define ops where "ops = [Create window_options_default, Create window_options_default, OnClosed 0 (7 :: nat),
        OnLastClosed 9, CloseWindow 0, CloseWindow 0, Create window_options_default :: (nat, nat) win_op]"
  obtain log m where run: "win_run ops (manager_new :: (nat, nat) manager) = (log, m)" by fastforce
  have "created_ids (fst (win_run ops (manager_new :: (nat, nat) manager))) = [0, 1, 2]
      \<and> closed_ids (fst (win_run ops (manager_new :: (nat, nat) manager))) = [0]"
    unfolding ops_def by code_simp
  with window_registry [OF run] run have "live_ids m = [1, 2] \<and> distinct (created_ids log)" by simp
  then show ?thesis unfolding ops_def [symmetric] run by simp
qed

text \<open>Main-to-renderer messages are delivered in order, once, and to their window: over any
  sequence of calls, what the drains have delivered for a live window, followed by what waits
  in its outbox, is what was queued for it, in the order of queueing; for a closed window the
  delivered messages are an initial part of the queued ones, and a drain leaves nothing
  waiting.\<close>
lemma main_sends_fifo:
  assumes "win_run ops manager_new = (log, m)" "length (created_ids log) \<le> 2 ^ 32"
  shows "(i \<in> set (live_ids m) \<longrightarrow> delivered i log @ outbox_of i m = queued i log)
    \<and> prefix (delivered i log) (queued i log)
    \<and> queued_main_send_count (snd (drain_web_contents_sends m)) = 0"
proof (intro conjI impI)
  have inv: "win_inv log m" using win_run_inv [OF assms] .
  have d: "distinct (map fst (windows m))" using inv by (simp add: win_inv_def)
  note ids = live_ids_set [OF d]
  show "i \<in> set (live_ids m) \<Longrightarrow> delivered i log @ outbox_of i m = queued i log" using inv ids by (simp add: win_inv_def)
  show "prefix (delivered i log) (queued i log)" using inv by (simp add: win_inv_def)
  obtain m' where m': "snd (drain_web_contents_sends m) = m'" "\<forall>i. outbox_of i m' = (if i \<in> live m then [] else outbox_of i m)"
      "live m' = live m" "distinct (map fst (windows m'))"
    using drain_fold [of "live_ids m" m "[]"] ids d by (auto simp: drain_web_contents_sends_def)
  have "outbox (win_contents w) = []" if "(j, w) \<in> set (windows m')" for j w
  proof -
    have "map_of (windows m') j = Some w" using m'(4) that by (simp add: map_of_is_SomeI)
    then have "j \<in> live m" "outbox_of j m' = outbox (win_contents w)" using m'(3) by (auto simp: live_def outbox_of_def)
    with m'(2) show ?thesis by simp
  qed
  then show "queued_main_send_count (snd (drain_web_contents_sends m)) = 0"
    by (auto simp: m'(1) queued_main_send_count_def pending_send_count_def)
qed

theorem main_sends_fifo_witness:
  "let (log, m) = win_run [Create window_options_default, QueueSend 0 ''a'' (1 :: nat), QueueSend 0 ''b'' 2, Drain,
        QueueSend 0 ''a'' 3] (manager_new :: (nat, nat) manager)
   in delivered 0 log @ outbox_of 0 m = queued 0 log \<and> length (delivered 0 log) = 2"
proof -
  define ops where "ops = [Create window_options_default, QueueSend 0 ''a'' (1 :: nat), QueueSend 0 ''b'' 2, Drain,
        QueueSend 0 ''a'' 3 :: (nat, nat) win_op]"
  obtain log m where run: "win_run ops (manager_new :: (nat, nat) manager) = (log, m)" by fastforce
  have "length (created_ids (fst (win_run ops (manager_new :: (nat, nat) manager)))) = 1
      \<and> live_ids (snd (win_run ops (manager_new :: (nat, nat) manager))) = [0]
      \<and> length (delivered 0 (fst (win_run ops (manager_new :: (nat, nat) manager)))) = 2"
    unfolding ops_def by code_simp
  with main_sends_fifo [OF run, of 0] run
  have "delivered 0 log @ outbox_of 0 m = queued 0 log \<and> length (delivered 0 log) = 2" by simp
  then show ?thesis unfolding ops_def [symmetric] run by simp
qed

end
