(* ===== verification/Screens.thy ===== *)
theory Screens
  imports Windows
begin

text \<open>
  Displays: \<open>strake-electron-compat/src/screen.rs\<close>.

  Coordinates are 32-bit words read as signed; the area of an overlap and a squared distance
  are \<open>i64\<close> values, the first an \<open>int\<close> because it is shown to fit, the second reduced to 64
  bits.  A scale factor is the bit pattern of the \<open>f32\<close>.
\<close>

section \<open>Signed arithmetic\<close>

definition i32_saturating_add :: "i32 \<Rightarrow> i32 \<Rightarrow> i32" where
  "i32_saturating_add a b = word_of_int (max (- (2 ^ 31)) (min (2 ^ 31 - 1) (sint a + sint b)))"

definition i32_max :: "i32 \<Rightarrow> i32 \<Rightarrow> i32" where
  "i32_max a b = (if sint a \<le> sint b then b else a)"

text \<open>Division by two, towards zero.\<close>
definition i32_half :: "i32 \<Rightarrow> i32" where
  "i32_half a = word_of_int (if 0 \<le> sint a then sint a div 2 else - (- sint a div 2))"

lemma sint_saturating_add:
  "sint (i32_saturating_add a b) = max (- (2 ^ 31)) (min (2 ^ 31 - 1) (sint a + sint b))"
  by (simp add: i32_saturating_add_def signed_take_bit_int_eq_self sint_sbintrunc')

lemma sint_range: "- (2 ^ 31) \<le> sint (a :: i32)" "sint a \<le> 2 ^ 31 - 1"
  using sint_greater_eq [of a] sint_less [of a] by simp_all

section \<open>Displays\<close>

record display =
  display_id :: u64
  display_bounds :: bounds
  work_area :: bounds
  scale_factor :: u32

definition display_new :: "u64 \<Rightarrow> bounds \<Rightarrow> u32 \<Rightarrow> display" where
  "display_new i b sf = \<lparr> display_id = i, display_bounds = b, work_area = b, scale_factor = sf \<rparr>"

definition contains_point :: "i32 \<Rightarrow> i32 \<Rightarrow> display \<Rightarrow> bool" where
  "contains_point x y d =
    (let b = display_bounds d;
         x_in = (sint (bounds_x b) \<le> sint x \<and> sint x < sint (i32_saturating_add (bounds_x b) (bounds_width b)));
         y_in = (sint (bounds_y b) \<le> sint y \<and> sint y < sint (i32_saturating_add (bounds_y b) (bounds_height b)))
     in x_in \<and> y_in)"

definition overlap_area :: "bounds \<Rightarrow> display \<Rightarrow> int" where
  "overlap_area b d =
    (let o1 = display_bounds d;
         left = max (sint (bounds_x o1)) (sint (bounds_x b));
         top = max (sint (bounds_y o1)) (sint (bounds_y b));
         right = min (sint (i32_saturating_add (bounds_x o1) (bounds_width o1))) (sint (i32_saturating_add (bounds_x b) (bounds_width b)));
         bottom = min (sint (i32_saturating_add (bounds_y o1) (bounds_height o1))) (sint (i32_saturating_add (bounds_y b) (bounds_height b)))
     in max (right - left) 0 * max (bottom - top) 0)"

type_synonym screen = "display list"

definition get_primary_display :: "screen \<Rightarrow> display option" where
  "get_primary_display s = (case s of [] \<Rightarrow> None | d # _ \<Rightarrow> Some d)"

text \<open>\<open>max_by_key\<close> keeps the last of the greatest elements, \<open>min_by_key\<close> the first of the least.\<close>
definition max_by_key :: "('a \<Rightarrow> int) \<Rightarrow> 'a list \<Rightarrow> 'a option" where
  "max_by_key f xs = (case xs of [] \<Rightarrow> None | y # ys \<Rightarrow> Some (fold (\<lambda>x m. if f m \<le> f x then x else m) ys y))"

definition min_by_key :: "('a \<Rightarrow> int) \<Rightarrow> 'a list \<Rightarrow> 'a option" where
  "min_by_key f xs = (case xs of [] \<Rightarrow> None | y # ys \<Rightarrow> Some (fold (\<lambda>x m. if f x < f m then x else m) ys y))"

definition get_display_matching :: "bounds \<Rightarrow> screen \<Rightarrow> display option" where
  "get_display_matching b s = (case max_by_key (overlap_area b) s of
     Some best \<Rightarrow> if overlap_area b best > 0 then Some best else get_primary_display s
   | None \<Rightarrow> get_primary_display s)"

definition centre_distance :: "i32 \<Rightarrow> i32 \<Rightarrow> display \<Rightarrow> int" where
  "centre_distance x y d =
    (let b = display_bounds d;
         cx = bounds_x b + i32_half (bounds_width b);
         cy = bounds_y b + i32_half (bounds_height b);
         dx = sint (cx - x); dy = sint (cy - y)
     in sint (word_of_int (dx * dx + dy * dy) :: 64 word))"

definition get_display_nearest_point :: "i32 \<Rightarrow> i32 \<Rightarrow> screen \<Rightarrow> display option" where
  "get_display_nearest_point x y s = (case List.find (contains_point x y) s of
     Some hit \<Rightarrow> Some hit | None \<Rightarrow> min_by_key (centre_distance x y) s)"

definition suggest_centered_position :: "u32 \<Rightarrow> u32 \<Rightarrow> screen \<Rightarrow> (i32 \<times> i32) option" where
  "suggest_centered_position w h s = (case get_primary_display s of None \<Rightarrow> None
   | Some p \<Rightarrow> (let b = display_bounds p in
       Some (bounds_x b + i32_half (i32_max (bounds_width b - w) 0),
             bounds_y b + i32_half (i32_max (bounds_height b - h) 0))))"

definition screen_default :: screen where
  "screen_default = [display_new 0 \<lparr> bounds_x = 0, bounds_y = 0, bounds_width = 1024, bounds_height = 768 \<rparr> 0x3F800000]"

section \<open>The area fits, the match is the best one\<close>

lemma span_bounded:
  "max (min (sint (i32_saturating_add x w)) r - max (sint x) l) 0 \<le> 2 ^ 31 - 1"
proof -
  have "sint (i32_saturating_add x w) - sint x \<le> 2 ^ 31 - 1"
    using sint_range [of x] sint_range [of w] by (simp add: sint_saturating_add)
  then show ?thesis by simp
qed

text \<open>The product of the source does not leave \<open>i64\<close>.\<close>
lemma overlap_area_fits: "0 \<le> overlap_area b d" "overlap_area b d < 2 ^ 63"
proof -
  obtain p q where pq: "overlap_area b d = p * q" "0 \<le> p" "0 \<le> q" "p \<le> 2 ^ 31 - 1" "q \<le> 2 ^ 31 - 1"
  proof -
    let ?o = "display_bounds d"
    let ?r = "\<lambda>x w. sint (i32_saturating_add x w)"
    have "overlap_area b d =
        max (min (?r (bounds_x ?o) (bounds_width ?o)) (?r (bounds_x b) (bounds_width b)) - max (sint (bounds_x ?o)) (sint (bounds_x b))) 0
      * max (min (?r (bounds_y ?o) (bounds_height ?o)) (?r (bounds_y b) (bounds_height b)) - max (sint (bounds_y ?o)) (sint (bounds_y b))) 0"
      by (simp only: overlap_area_def Let_def)
    then show thesis by (rule that) (rule span_bounded max.cobounded2)+
  qed
  then show "0 \<le> overlap_area b d" by simp
  have "p * q \<le> (2 ^ 31 - 1) * (2 ^ 31 - 1)" using pq by (intro mult_mono) auto
  then show "overlap_area b d < 2 ^ 63" using pq(1) by simp
qed

lemma fold_greatest:
  "fold (\<lambda>x m. if f m \<le> f x then x else m) ys y \<in> set (y # ys)
   \<and> (\<forall>x\<in>set (y # ys). (f x :: int) \<le> f (fold (\<lambda>x m. if f m \<le> f x then x else m) ys y))"
proof (induction ys arbitrary: y)
  case (Cons z zs)
  show ?case
  proof (cases "f y \<le> f z")
    case True
    then show ?thesis using Cons.IH [of z] by (auto intro: order_trans)
  next
    case False
    then show ?thesis using Cons.IH [of y] by (auto intro: order_trans [of "f z" "f y"])
  qed
qed simp

lemma max_by_key_greatest: "max_by_key f xs = Some m \<Longrightarrow> m \<in> set xs \<and> (\<forall>x\<in>set xs. f x \<le> f m)"
  using fold_greatest [of f "tl xs" "hd xs"] by (cases xs) (auto simp: max_by_key_def)

lemma display_matching_best:
  assumes "get_display_matching b s = Some d"
  shows "d \<in> set s \<and> (\<forall>d'\<in>set s. overlap_area b d' \<le> overlap_area b d)"
proof (cases "max_by_key (overlap_area b) s")
  case None
  then show ?thesis using assms by (auto simp: get_display_matching_def max_by_key_def get_primary_display_def split: list.splits)
next
  case (Some best)
  note g = max_by_key_greatest [OF Some]
  show ?thesis
  proof (cases "overlap_area b best > 0")
    case True
    then show ?thesis using assms Some g by (simp add: get_display_matching_def)
  next
    case False
    then have "d \<in> set s" using assms Some by (auto simp: get_display_matching_def get_primary_display_def split: list.splits)
    moreover have "\<forall>d'\<in>set s. overlap_area b d' = 0"
      using g False overlap_area_fits(1) by (metis dual_order.antisym dual_order.trans not_le_imp_less)
    ultimately show ?thesis by simp
  qed
qed

end
