(* ===== verification/App_Lifecycle.thy ===== *)
theory App_Lifecycle
  imports Rust_String "HOL-Library.AList"
begin

text \<open>
  The Electron \<open>app\<close> module: \<open>strake-electron-compat/src/app.rs\<close>.

  The lifecycle state machine, identity, paths and switches.  A listener is an opaque value;
  an operation that fires an event returns the emissions, each with the listeners that are
  called, in order.  The operating-system environment is a parameter (the variables the
  Unix build reads), a path is the string that \<open>PathBuf\<close> holds on Unix.
\<close>

section \<open>Switches and login items\<close>

type_synonym command_line = "(string \<times> string option) list"

definition append_switch :: "string \<Rightarrow> string option \<Rightarrow> command_line \<Rightarrow> command_line" where
  "append_switch name val cl = AList.update name val cl"

definition has_switch :: "string \<Rightarrow> command_line \<Rightarrow> bool" where
  "has_switch name cl \<longleftrightarrow> map_of cl name \<noteq> None"

definition get_switch_value :: "string \<Rightarrow> command_line \<Rightarrow> string" where
  "get_switch_value name cl = (case map_of cl name of Some (Some v) \<Rightarrow> v | _ \<Rightarrow> '''')"

definition remove_switch :: "string \<Rightarrow> command_line \<Rightarrow> command_line" where
  "remove_switch name cl = AList.delete name cl"

record login_item_settings =
  open_at_login :: bool
  open_as_hidden :: bool
  was_opened_as_hidden :: bool

definition login_default :: login_item_settings where
  "login_default = \<lparr> open_at_login = False, open_as_hidden = False, was_opened_as_hidden = False \<rparr>"

section \<open>The application\<close>

datatype app_event = Ready | WindowAllClosed | Activate | BeforeQuit | WillQuit

datatype app_path = UserData | AppData | Desktop | Documents | Downloads | Logs | Home | Temp

text \<open>The process environment: \<open>std::env::var_os\<close> and \<open>std::env::temp_dir\<close>.\<close>
record environment =
  env_var :: "string \<Rightarrow> string option"
  env_temp_dir :: string

record 'l app =
  app_name :: string
  app_version :: string
  app_ready :: bool
  app_quit :: bool
  quit_on_all_windows_closed :: bool
  app_listeners :: "app_event \<Rightarrow> 'l list option"
  app_paths :: "app_path \<Rightarrow> string option"
  app_logs_path :: "string option"
  command_line_of :: command_line
  login_items :: login_item_settings
  last_window_count :: "nat option"
  default_protocol_client :: "string option"
  app_user_model_id :: "string option"

type_synonym 'l emission = "app_event \<times> 'l list"

definition app_new :: "environment \<Rightarrow> string \<Rightarrow> string \<Rightarrow> 'l app" where
  "app_new env name version = \<lparr> app_name = name, app_version = version, app_ready = False, app_quit = False,
     quit_on_all_windows_closed = True, app_listeners = Map.empty, app_paths = [Temp \<mapsto> env_temp_dir env],
     app_logs_path = None, command_line_of = [], login_items = login_default, last_window_count = None,
     default_protocol_client = None, app_user_model_id = None \<rparr>"

definition set_name :: "string \<Rightarrow> 'l app \<Rightarrow> 'l app" where
  "set_name name a = a\<lparr>app_name := name\<rparr>"

definition set_as_default_protocol_client :: "string \<Rightarrow> 'l app \<Rightarrow> 'l app" where
  "set_as_default_protocol_client p a = a\<lparr>default_protocol_client := Some p\<rparr>"

definition set_app_user_model_id :: "string \<Rightarrow> 'l app \<Rightarrow> 'l app" where
  "set_app_user_model_id i a = a\<lparr>app_user_model_id := Some i\<rparr>"

definition app_on :: "app_event \<Rightarrow> 'l \<Rightarrow> 'l app \<Rightarrow> 'l app" where
  "app_on ev l a = a\<lparr>app_listeners := (app_listeners a)(ev \<mapsto>
     (case app_listeners a ev of None \<Rightarrow> [] | Some ls \<Rightarrow> ls) @ [l])\<rparr>"

definition emit :: "app_event \<Rightarrow> 'l app \<Rightarrow> 'l emission" where
  "emit ev a = (ev, case app_listeners a ev of None \<Rightarrow> [] | Some ls \<Rightarrow> ls)"

definition mark_ready :: "'l app \<Rightarrow> 'l emission list \<times> 'l app" where
  "mark_ready a = (if app_ready a \<or> app_quit a then ([], a)
     else (let a1 = a\<lparr>app_ready := True\<rparr> in ([emit Ready a1], a1)))"

definition quit :: "'l app \<Rightarrow> 'l emission list \<times> 'l app" where
  "quit a = (if app_quit a then ([], a)
     else ([emit BeforeQuit a, emit WillQuit a], a\<lparr>app_quit := True\<rparr>))"

definition set_quit_on_all_windows_closed :: "bool \<Rightarrow> 'l app \<Rightarrow> 'l app" where
  "set_quit_on_all_windows_closed q a = a\<lparr>quit_on_all_windows_closed := q\<rparr>"

definition note_window_closed :: "nat \<Rightarrow> 'l app \<Rightarrow> 'l emission list \<times> 'l app" where
  "note_window_closed n a =
    (let duplicate_zero = (n = 0 \<and> last_window_count a = Some 0);
         a1 = a\<lparr>last_window_count := Some n\<rparr>
     in if app_quit a1 \<or> n > 0 \<or> duplicate_zero then ([], a1)
        else (let e = emit WindowAllClosed a1 in
              if quit_on_all_windows_closed a1 then (let (es, a2) = quit a1 in (e # es, a2))
              else ([e], a1)))"

section \<open>Paths\<close>

text \<open>\<open>PathBuf::join\<close> on Unix.\<close>
definition path_join :: "string \<Rightarrow> string \<Rightarrow> string" where
  "path_join base p = (if starts_with p ''/'' then p
     else if base = [] \<or> last base = CHR ''/'' then base @ p else base @ ''/'' @ p)"

definition default_app_data :: "environment \<Rightarrow> string option" where
  "default_app_data env = (case env_var env ''XDG_CONFIG_HOME'' of
     Some config \<Rightarrow> Some config
   | None \<Rightarrow> map_option (\<lambda>home. path_join home ''.config'') (env_var env ''HOME''))"

text \<open>The recursive calls of \<open>get_path\<close>, from the outside in.\<close>
definition get_path_app_data :: "environment \<Rightarrow> 'l app \<Rightarrow> string option" where
  "get_path_app_data env a = (case app_paths a AppData of Some p \<Rightarrow> Some p | None \<Rightarrow> default_app_data env)"

definition get_path_user_data :: "environment \<Rightarrow> 'l app \<Rightarrow> string option" where
  "get_path_user_data env a = (case app_paths a UserData of Some p \<Rightarrow> Some p
     | None \<Rightarrow> map_option (\<lambda>base. path_join base (app_name a)) (get_path_app_data env a))"

definition get_path :: "environment \<Rightarrow> app_path \<Rightarrow> 'l app \<Rightarrow> string option" where
  "get_path env path a = (case app_paths a path of
     Some p \<Rightarrow> Some p
   | None \<Rightarrow> (case path of
       AppData \<Rightarrow> default_app_data env
     | UserData \<Rightarrow> map_option (\<lambda>base. path_join base (app_name a)) (get_path_app_data env a)
     | Logs \<Rightarrow> (case app_logs_path a of
         Some p \<Rightarrow> Some p
       | None \<Rightarrow> map_option (\<lambda>base. path_join base ''logs'') (get_path_user_data env a))
     | _ \<Rightarrow> None))"

definition set_path :: "app_path \<Rightarrow> string \<Rightarrow> 'l app \<Rightarrow> 'l app" where
  "set_path path v a = a\<lparr>app_paths := (app_paths a)(path \<mapsto> v)\<rparr>"

definition set_app_logs_path :: "string option \<Rightarrow> 'l app \<Rightarrow> 'l app" where
  "set_app_logs_path v a = a\<lparr>app_logs_path := v\<rparr>"

definition set_login_item_settings :: "login_item_settings \<Rightarrow> 'l app \<Rightarrow> 'l app" where
  "set_login_item_settings s a = a\<lparr>login_items := s\<rparr>"

definition request_single_instance_lock :: "'l app \<Rightarrow> bool" where
  "request_single_instance_lock a = True"

text \<open>The three levels of \<open>get_path\<close> agree.\<close>
lemma get_path_levels:
  "get_path env AppData a = get_path_app_data env a" "get_path env UserData a = get_path_user_data env a"
  by (simp_all add: get_path_def get_path_app_data_def get_path_user_data_def split: option.split)

section \<open>Runs\<close>

datatype 'l app_op = On app_event 'l | MarkReady | Quit | QuitOnAllClosed bool | NoteWindows nat
  | SetName string | SetPath app_path string | SetLogs "string option" | Switch "command_line \<Rightarrow> command_line"
  | Login login_item_settings

fun app_step :: "'l app_op \<Rightarrow> 'l app \<Rightarrow> 'l emission list \<times> 'l app" where
  "app_step (On ev l) a = ([], app_on ev l a)"
| "app_step MarkReady a = mark_ready a"
| "app_step Quit a = quit a"
| "app_step (QuitOnAllClosed q) a = ([], set_quit_on_all_windows_closed q a)"
| "app_step (NoteWindows n) a = note_window_closed n a"
| "app_step (SetName nm) a = ([], set_name nm a)"
| "app_step (SetPath p v) a = ([], set_path p v a)"
| "app_step (SetLogs v) a = ([], set_app_logs_path v a)"
| "app_step (Switch f) a = ([], a\<lparr>command_line_of := f (command_line_of a)\<rparr>)"
| "app_step (Login s) a = ([], set_login_item_settings s a)"

fun app_run :: "'l app_op list \<Rightarrow> 'l app \<Rightarrow> 'l emission list \<times> 'l app" where
  "app_run [] a = ([], a)"
| "app_run (op1 # ops) a = (let (es, a1) = app_step op1 a; (es', a2) = app_run ops a1 in (es @ es', a2))"

lemma app_run_append:
  "app_run (ops @ ops') a = (let (es, a1) = app_run ops a; (es', a2) = app_run ops' a1 in (es @ es', a2))"
  by (induction ops arbitrary: a) (auto split: prod.splits)

lemma app_run_snoc:
  "app_run (ops @ [op1]) a = (let (es, a1) = app_run ops a; (es', a2) = app_step op1 a1 in (es @ es', a2))"
  by (simp add: app_run_append split: prod.splits)

section \<open>What a run emits\<close>

text \<open>The language of the lifecycle: at most one \<open>ready\<close>, and nothing after the pair that a quit
  emits.\<close>
definition lifecycle_word :: "bool \<Rightarrow> bool \<Rightarrow> app_event list \<Rightarrow> bool" where
  "lifecycle_word rdy qt w \<longleftrightarrow> (\<exists>w0. w = w0 @ (if qt then [BeforeQuit, WillQuit] else [])
     \<and> set w0 \<subseteq> {Ready, WindowAllClosed} \<and> count_list w0 Ready = (if rdy then 1 else 0))"

text \<open>The reports of the window manager, and the number of times they fall to zero.\<close>
fun reports :: "'l app_op list \<Rightarrow> nat list" where
  "reports [] = []"
| "reports (NoteWindows n # ops) = n # reports ops"
| "reports (_ # ops) = reports ops"

fun zero_edges :: "nat option \<Rightarrow> nat list \<Rightarrow> nat" where
  "zero_edges prev [] = 0"
| "zero_edges prev (n # ns) = (if n = 0 \<and> prev \<noteq> Some 0 then 1 else 0) + zero_edges (Some n) ns"

fun registered_for :: "app_event \<Rightarrow> 'l app_op list \<Rightarrow> 'l list" where
  "registered_for ev [] = []"
| "registered_for ev (On e l # ops) = (if e = ev then l # registered_for ev ops else registered_for ev ops)"
| "registered_for ev (_ # ops) = registered_for ev ops"

lemma reports_append [simp]: "reports (xs @ ys) = reports xs @ reports ys"
  by (induction xs rule: reports.induct) simp_all

lemma registered_append [simp]: "registered_for ev (xs @ ys) = registered_for ev xs @ registered_for ev ys"
  by (induction ev xs rule: registered_for.induct) simp_all

lemma zero_edges_snoc:
  "zero_edges prev (ns @ [n]) = zero_edges prev ns +
     (if n = 0 \<and> (if ns = [] then prev else Some (last ns)) \<noteq> Some 0 then 1 else 0)"
  by (induction prev ns rule: zero_edges.induct) auto

lemmas app_defs = mark_ready_def quit_def note_window_closed_def app_on_def set_name_def set_path_def
  set_app_logs_path_def set_login_item_settings_def set_quit_on_all_windows_closed_def emit_def

text \<open>One step.\<close>
lemma step_word:
  assumes "app_step op1 a = (es, a')" "lifecycle_word (app_ready a) (app_quit a) w"
  shows "lifecycle_word (app_ready a') (app_quit a') (w @ map fst es)"
proof (cases "app_quit a")
  case True
  with assms show ?thesis by (cases op1) (auto simp: app_defs Let_def split: if_splits)
next
  case False
  then have w: "set w \<subseteq> {Ready, WindowAllClosed}" "count_list w Ready = (if app_ready a then 1 else 0)"
    using assms(2) by (auto simp: lifecycle_word_def)
  have "\<exists>u. map fst es = u @ (if app_quit a' then [BeforeQuit, WillQuit] else []) \<and> set u \<subseteq> {Ready, WindowAllClosed}
      \<and> count_list (w @ u) Ready = (if app_ready a' then 1 else 0)"
  proof (cases op1)
    case MarkReady
    then show ?thesis using assms(1) False w
      by (intro exI [of _ "if app_ready a then [] else [Ready]"]) (auto simp: app_defs Let_def)
  next
    case Quit
    then show ?thesis using assms(1) False w by (intro exI [of _ "[]"]) (auto simp: app_defs)
  next
    case (NoteWindows n)
    then show ?thesis using assms(1) False w
      by (intro exI [of _ "if n > 0 \<or> last_window_count a = Some 0 then [] else [WindowAllClosed]"])
        (auto simp: app_defs Let_def split: if_splits)
  qed (use assms(1) False w in \<open>auto simp: app_defs intro!: exI [of _ "[]"]\<close>)
  then obtain u where u: "map fst es = u @ (if app_quit a' then [BeforeQuit, WillQuit] else [])"
    "set u \<subseteq> {Ready, WindowAllClosed}" "count_list (w @ u) Ready = (if app_ready a' then 1 else 0)" by blast
  then show ?thesis using w(1) by (auto simp: lifecycle_word_def intro!: exI [of _ "w @ u"])
qed

lemma step_all_closed:
  assumes "app_step op1 a = (es, a')" "\<not> app_quit a'"
  shows "\<not> app_quit a"
    "count_list (map fst es) WindowAllClosed = zero_edges (last_window_count a) (reports [op1])"
    "last_window_count a' = (if reports [op1] = [] then last_window_count a else Some (last (reports [op1])))"
  using assms by (cases op1; auto simp: app_defs Let_def split: if_splits)+

lemma step_listeners:
  assumes "app_step op1 a = (es, a')"
  shows "\<forall>(ev, ls)\<in>set es. ls = (case app_listeners a ev of None \<Rightarrow> [] | Some l \<Rightarrow> l)"
    "(case app_listeners a' ev of None \<Rightarrow> [] | Some l \<Rightarrow> l) =
     (case app_listeners a ev of None \<Rightarrow> [] | Some l \<Rightarrow> l) @ registered_for ev [op1]"
  using assms by (cases op1; auto simp: app_defs Let_def split: if_splits option.splits)+

lemma run_word:
  "app_run ops (app_new env n v) = (es, a) \<Longrightarrow> lifecycle_word (app_ready a) (app_quit a) (map fst es)"
proof (induction ops arbitrary: es a rule: rev_induct)
  case Nil
  then show ?case by (auto simp: app_new_def lifecycle_word_def)
next
  case (snoc op1 ops)
  obtain es1 a1 es2 where "app_run ops (app_new env n v) = (es1, a1)" "app_step op1 a1 = (es2, a)" "es = es1 @ es2"
    using snoc.prems by (auto simp: app_run_snoc Let_def split: prod.splits)
  with snoc.IH step_word show ?case by fastforce
qed

lemma run_all_closed:
  "app_run ops (app_new env n v) = (es, a) \<Longrightarrow> \<not> app_quit a \<Longrightarrow>
   count_list (map fst es) WindowAllClosed = zero_edges None (reports ops)
   \<and> last_window_count a = (if reports ops = [] then None else Some (last (reports ops)))"
proof (induction ops arbitrary: es a rule: rev_induct)
  case Nil
  then show ?case by (auto simp: app_new_def)
next
  case (snoc op1 ops)
  obtain es1 a1 es2 where run: "app_run ops (app_new env n v) = (es1, a1)"
    and stp: "app_step op1 a1 = (es2, a)" and es: "es = es1 @ es2"
    using snoc.prems(1) by (auto simp: app_run_snoc Let_def split: prod.splits)
  note st = step_all_closed [OF stp snoc.prems(2)]
  note ih = snoc.IH [OF run st(1)]
  show ?case
  proof (cases "\<exists>k. op1 = NoteWindows k")
    case True
    then show ?thesis using st ih by (auto simp: es zero_edges_snoc)
  next
    case False
    then have "reports [op1] = []" by (cases op1) auto
    then show ?thesis using st ih by (auto simp: es)
  qed
qed

section \<open>The contract in terms of the calls made\<close>

text \<open>What a call owes the listeners, said of the calls before it and of no field of the model.\<close>
fun settings :: "'l app_op list \<Rightarrow> bool list" where
  "settings [] = []"
| "settings (QuitOnAllClosed q # ops) = q # settings ops"
| "settings (_ # ops) = settings ops"

definition quits_when_closed :: "'l app_op list \<Rightarrow> bool" where
  "quits_when_closed ops \<longleftrightarrow> settings ops = [] \<or> last (settings ops)"

definition falls_to_zero :: "'l app_op list \<Rightarrow> nat \<Rightarrow> bool" where
  "falls_to_zero ops n \<longleftrightarrow> n = 0 \<and> (reports ops = [] \<or> last (reports ops) \<noteq> 0)"

definition due :: "'l app_op list \<Rightarrow> 'l app_op \<Rightarrow> app_event list" where
  "due before op1 = (case op1 of
      MarkReady \<Rightarrow> if MarkReady \<in> set before then [] else [Ready]
    | Quit \<Rightarrow> [BeforeQuit, WillQuit]
    | NoteWindows n \<Rightarrow> if falls_to_zero before n
        then WindowAllClosed # (if quits_when_closed before then [BeforeQuit, WillQuit] else []) else []
    | _ \<Rightarrow> [])"

definition quits_at :: "'l app_op list \<Rightarrow> 'l app_op \<Rightarrow> bool" where
  "quits_at before op1 \<longleftrightarrow> WillQuit \<in> set (due before op1)"

definition has_quit :: "'l app_op list \<Rightarrow> bool" where
  "has_quit ops \<longleftrightarrow> (\<exists>before op1 after. ops = before @ op1 # after \<and> quits_at before op1)"

fun owed :: "'l app_op list \<Rightarrow> 'l app_op list \<Rightarrow> 'l emission list" where
  "owed before [] = []"
| "owed before (op1 # ops) =
    (if has_quit before then [] else map (\<lambda>ev. (ev, registered_for ev before)) (due before op1))
    @ owed (before @ [op1]) ops"

lemma settings_append [simp]: "settings (xs @ ys) = settings xs @ settings ys"
  by (induction xs rule: settings.induct) simp_all

lemma owed_append: "owed before (xs @ ys) = owed before xs @ owed (before @ xs) ys"
  by (induction xs arbitrary: before) simp_all

lemma has_quit_Nil [simp]: "\<not> has_quit []"
  by (simp add: has_quit_def)

lemma has_quit_snoc: "has_quit (ops @ [op1]) \<longleftrightarrow> has_quit ops \<or> quits_at ops op1"
proof
  assume "has_quit (ops @ [op1])"
  then obtain before op2 after where q: "ops @ [op1] = before @ op2 # after" "quits_at before op2"
    by (auto simp: has_quit_def)
  then show "has_quit ops \<or> quits_at ops op1"
    by (cases after rule: rev_cases) (auto simp: has_quit_def)
next
  assume "has_quit ops \<or> quits_at ops op1"
  then show "has_quit (ops @ [op1])"
    unfolding has_quit_def by (metis append.assoc append_Cons)
qed

text \<open>The fields of the model, as functions of the calls made.\<close>
definition reflects :: "'l app_op list \<Rightarrow> 'l app \<Rightarrow> bool" where
  "reflects ops a \<longleftrightarrow> (app_quit a \<longleftrightarrow> has_quit ops) \<and> (\<not> has_quit ops \<longrightarrow> (app_ready a \<longleftrightarrow> MarkReady \<in> set ops))
     \<and> (quit_on_all_windows_closed a \<longleftrightarrow> quits_when_closed ops)
     \<and> last_window_count a = (if reports ops = [] then None else Some (last (reports ops)))
     \<and> (\<forall>ev. (case app_listeners a ev of None \<Rightarrow> [] | Some l \<Rightarrow> l) = registered_for ev ops)"

lemma reflects_new: "reflects [] (app_new env n v)"
  by (simp add: reflects_def app_new_def quits_when_closed_def)

lemma due_simps [simp]:
  "due before MarkReady = (if MarkReady \<in> set before then [] else [Ready])"
  "due before Quit = [BeforeQuit, WillQuit]"
  "due before (NoteWindows k) = (if falls_to_zero before k
     then WindowAllClosed # (if quits_when_closed before then [BeforeQuit, WillQuit] else []) else [])"
  "due before (On ev l) = []" "due before (QuitOnAllClosed q) = []" "due before (SetName nm) = []"
  "due before (SetPath pth s) = []" "due before (SetLogs lg) = []" "due before (Switch f) = []" "due before (Login st) = []"
  by (simp_all add: due_def)

lemma quits_when_closed_snoc:
  "quits_when_closed (ops @ [op1]) = (case op1 of QuitOnAllClosed q \<Rightarrow> q | _ \<Rightarrow> quits_when_closed ops)"
  by (cases op1) (simp_all add: quits_when_closed_def)

lemma reflects_step:
  assumes "reflects ops a" "app_step op1 a = (es, a')"
  shows "es = (if has_quit ops then [] else map (\<lambda>ev. (ev, registered_for ev ops)) (due ops op1))"
    "reflects (ops @ [op1]) a'"
proof -
  have q: "app_quit a = has_quit ops" and r: "\<not> has_quit ops \<Longrightarrow> app_ready a = (MarkReady \<in> set ops)"
    and c: "quit_on_all_windows_closed a = quits_when_closed ops"
    and w: "last_window_count a = (if reports ops = [] then None else Some (last (reports ops)))"
    and l: "\<And>ev. (case app_listeners a ev of None \<Rightarrow> [] | Some l \<Rightarrow> l) = registered_for ev ops"
    using assms(1) by (auto simp: reflects_def)
  have e: "emit ev a = (ev, registered_for ev ops)" for ev by (simp add: emit_def l)
  have z: "(app_quit a \<or> k > 0 \<or> k = 0 \<and> last_window_count a = Some 0) = (has_quit ops \<or> \<not> falls_to_zero ops k)" for k
    by (auto simp: falls_to_zero_def w q)
  have nw: "note_window_closed k a = (let a1 = a\<lparr>last_window_count := Some k\<rparr>
      in if has_quit ops \<or> \<not> falls_to_zero ops k then ([], a1)
         else if quits_when_closed ops then ([emit WindowAllClosed a, emit BeforeQuit a, emit WillQuit a], a1\<lparr>app_quit := True\<rparr>)
         else ([emit WindowAllClosed a], a1))" for k
    using z [of k] q by (auto simp: note_window_closed_def quit_def emit_def c Let_def)
  have rd: "mark_ready a = (if has_quit ops \<or> MarkReady \<in> set ops \<and> app_ready a then ([], a)
      else ([emit Ready a], a\<lparr>app_ready := True\<rparr>))"
    using q r by (auto simp: mark_ready_def emit_def Let_def)
  have qt: "quit a = (if has_quit ops then ([], a) else ([emit BeforeQuit a, emit WillQuit a], a\<lparr>app_quit := True\<rparr>))"
    by (simp add: quit_def q)
  note steps = nw rd qt app_on_def set_name_def set_path_def set_app_logs_path_def set_login_item_settings_def
    set_quit_on_all_windows_closed_def
  show "es = (if has_quit ops then [] else map (\<lambda>ev. (ev, registered_for ev ops)) (due ops op1))"
    using assms(2) r by (cases op1) (auto simp: steps e Let_def split: if_splits)
  have "app_quit a' = has_quit (ops @ [op1])"
    using assms(2) q by (cases op1) (auto simp: steps Let_def has_quit_snoc quits_at_def split: if_splits)
  moreover have "app_ready a' = (MarkReady \<in> set (ops @ [op1]))" if "\<not> has_quit (ops @ [op1])"
    using assms(2) that r by (cases op1) (auto simp: steps Let_def has_quit_snoc quits_at_def split: if_splits)
  moreover have "quit_on_all_windows_closed a' = quits_when_closed (ops @ [op1])"
    using assms(2) c by (cases op1) (auto simp: steps Let_def quits_when_closed_snoc split: if_splits)
  moreover have "last_window_count a' = (if reports (ops @ [op1]) = [] then None else Some (last (reports (ops @ [op1]))))"
    using assms(2) w by (cases op1) (auto simp: steps Let_def split: if_splits)
  moreover have "(case app_listeners a' ev of None \<Rightarrow> [] | Some l \<Rightarrow> l) = registered_for ev (ops @ [op1])" for ev
    using step_listeners(2) [OF assms(2), of ev] l by simp
  ultimately show "reflects (ops @ [op1]) a'" by (simp add: reflects_def)
qed

lemma run_owed:
  "app_run ops (app_new env n v) = (es, a) \<Longrightarrow> reflects ops a \<and> es = owed [] ops"
proof (induction ops arbitrary: es a rule: rev_induct)
  case Nil
  then show ?case using reflects_new by auto
next
  case (snoc op1 ops)
  obtain es1 a1 es2 where run: "app_run ops (app_new env n v) = (es1, a1)" and stp: "app_step op1 a1 = (es2, a)"
    and es: "es = es1 @ es2"
    using snoc.prems by (auto simp: app_run_snoc Let_def split: prod.splits)
  from snoc.IH [OF run] have "reflects ops a1" "es1 = owed [] ops" by auto
  with reflects_step [OF this(1) stp] es show ?case by (simp add: owed_append)
qed

section \<open>Properties\<close>

text \<open>C14. The lifecycle contract, for every sequence of calls on a new application.  The emissions
  are exactly those the calls owe, one after the other, each with the listeners registered for its
  event so far in the order of their registration: \<open>mark_ready\<close> owes \<open>ready\<close> the first time;
  \<open>quit\<close> owes \<open>before-quit\<close> and \<open>will-quit\<close>; a report of zero windows owes \<open>window-all-closed\<close>
  when the last report before it was not zero, and the pair of a quit after it unless the last
  \<open>set_quit_on_all_windows_closed\<close> said no; after a quit nothing is owed.  So \<open>ready\<close> is emitted
  at most once, the pair of the quit once, at the end, and, while it has not quit,
  \<open>window-all-closed\<close> as often as the reported number of windows falls to zero.  The reports are
  the counts the embedder passes in: it reports closings only, so that a window opened in between
  is not seen (\<open>reopened_close_unreported\<close> in \<open>Shell_Windows\<close>).\<close>
theorem app_lifecycle:
  assumes "app_run ops (app_new env n v) = (es, a)"
  shows "es = owed [] ops \<and> (app_quit a \<longleftrightarrow> has_quit ops)
    \<and> lifecycle_word (app_ready a) (app_quit a) (map fst es)
    \<and> (\<not> app_quit a \<longrightarrow> count_list (map fst es) WindowAllClosed = zero_edges None (reports ops))"
  using run_owed [OF assms] run_word [OF assms] run_all_closed [OF assms] by (auto simp: reflects_def)

text \<open>The first zero of a default application emits all three events; of one that opted out, each
  fall to zero emits the one.\<close>
theorem app_lifecycle_witness:
  "let a0 = app_new \<lparr> env_var = Map.empty, env_temp_dir = ''/tmp'' \<rparr> ''App'' ''1.0'';
       ops = [On WindowAllClosed (7 :: nat), QuitOnAllClosed False, MarkReady, NoteWindows 1, NoteWindows 0,
        NoteWindows 0, NoteWindows 2, NoteWindows 0, QuitOnAllClosed True, NoteWindows 1, NoteWindows 0, MarkReady]
   in fst (app_run ops a0) = [(Ready, []), (WindowAllClosed, [7]), (WindowAllClosed, [7]), (WindowAllClosed, [7]),
        (BeforeQuit, []), (WillQuit, [])] \<and> has_quit ops"
proof -
  define ops where "ops = [On WindowAllClosed (7 :: nat), QuitOnAllClosed False, MarkReady, NoteWindows 1, NoteWindows 0,
        NoteWindows 0, NoteWindows 2, NoteWindows 0, QuitOnAllClosed True, NoteWindows 1, NoteWindows 0, MarkReady]"
  define a0 where "a0 = (app_new \<lparr> env_var = Map.empty, env_temp_dir = ''/tmp'' \<rparr> ''App'' ''1.0'' :: nat app)"
  obtain es a where run: "app_run ops a0 = (es, a)" by fastforce
  have "app_quit (snd (app_run ops a0)) \<and> fst (app_run ops a0) = [(Ready, []), (WindowAllClosed, [7]),
      (WindowAllClosed, [7]), (WindowAllClosed, [7]), (BeforeQuit, []), (WillQuit, [])]"
    unfolding ops_def a0_def by code_simp
  with app_lifecycle [OF run [unfolded a0_def]] run
  have "fst (app_run ops a0) = [(Ready, []), (WindowAllClosed, [7]), (WindowAllClosed, [7]), (WindowAllClosed, [7]),
        (BeforeQuit, []), (WillQuit, [])] \<and> has_quit ops" by simp
  then show ?thesis unfolding Let_def ops_def [symmetric] a0_def [symmetric] .
qed

end
