(* ===== verification/Shell_Windows.thy ===== *)
theory Shell_Windows
  imports Screens App_Lifecycle "HOL-Library.Multiset"
begin

text \<open>
  Windows with a page: \<open>strake-electron-compat/src/shell.rs\<close>, where the window manager, the
  application and a document meet.

  The manager and the application are shared handles; they form the \<open>desk\<close>.  The document
  operations are a parameter record (\<open>strake-dom\<close> and \<open>strake-html\<close> provide them), and so
  are the file system and the URL crate.  The network provider and the hand-over of a
  document to the operating-system window are not modelled.
\<close>

datatype shell_error = Destroyed | ReadFile string

record 'd pages =
  page_new :: "u32 \<Rightarrow> u32 \<Rightarrow> 'd"
  page_parse :: "string \<Rightarrow> 'd \<Rightarrow> 'd"
  page_resolve :: "'d \<Rightarrow> 'd"
  page_viewport :: "u32 \<Rightarrow> u32 \<Rightarrow> 'd \<Rightarrow> 'd"
  page_base_url :: "string \<Rightarrow> 'd \<Rightarrow> 'd"
  page_title_of :: "'d \<Rightarrow> string option"
  read_file :: "string \<Rightarrow> string option"
  url_from_file :: "string \<Rightarrow> string option"
  current_dir :: "string option"

record ('v, 'l) desk =
  desk_manager :: "('v, 'l) manager"
  desk_app :: "'l app"

record 'd shell_window =
  compat_id :: u32
  shell_doc :: "'d option"
  painted_once :: bool
  shell_closed :: bool

definition shell_bind :: "'d pages \<Rightarrow> u32 \<Rightarrow> window_options \<Rightarrow> 'd shell_window" where
  "shell_bind pg i opts = \<lparr> compat_id = i, shell_doc = Some (page_new pg (opt_width opts) (opt_height opts)),
     painted_once = False, shell_closed = False \<rparr>"

definition shell_open_window :: "'d pages \<Rightarrow> window_options \<Rightarrow> ('v, 'l) desk \<Rightarrow> 'd shell_window \<times> ('v, 'l) desk" where
  "shell_open_window pg opts k = (let (i, m) = win_create opts (desk_manager k) in
     (shell_bind pg i opts, k\<lparr>desk_manager := m\<rparr>))"

definition shell_attach :: "'d pages \<Rightarrow> u32 \<Rightarrow> ('v, 'l) desk \<Rightarrow> shell_error + 'd shell_window" where
  "shell_attach pg i k = (case win_get i (desk_manager k) of
     None \<Rightarrow> Inl Destroyed | Some w \<Rightarrow> Inr (shell_bind pg i (win_options w)))"

text \<open>\<open>require_open\<close> and the document it makes available.\<close>
definition require_open :: "'d shell_window \<Rightarrow> shell_error + 'd" where
  "require_open s = (if shell_closed s then Inl Destroyed
     else (case shell_doc s of None \<Rightarrow> Inl Destroyed | Some d \<Rightarrow> Inr d))"

definition page_title :: "'d pages \<Rightarrow> 'd shell_window \<Rightarrow> string option" where
  "page_title pg s = (case shell_doc s of None \<Rightarrow> None | Some d \<Rightarrow> page_title_of pg d)"

type_synonym ('v, 'l, 'd) shell_result = "(shell_error + unit) \<times> 'd shell_window \<times> ('v, 'l) desk"

definition shell_set_base_url :: "'d pages \<Rightarrow> string \<Rightarrow> 'd shell_window \<Rightarrow> ('v, 'l) desk \<Rightarrow> ('v, 'l, 'd) shell_result" where
  "shell_set_base_url pg url s k = (case require_open s of Inl e \<Rightarrow> (Inl e, s, k)
   | Inr d \<Rightarrow> (Inr (), s\<lparr>shell_doc := Some (page_base_url pg url d)\<rparr>, k))"

definition shell_load_html :: "'d pages \<Rightarrow> string \<Rightarrow> 'd shell_window \<Rightarrow> ('v, 'l) desk \<Rightarrow> ('v, 'l, 'd) shell_result" where
  "shell_load_html pg html s k = (case require_open s of Inl e \<Rightarrow> (Inl e, s, k)
   | Inr d \<Rightarrow>
       (let s1 = s\<lparr>shell_doc := Some (page_resolve pg (page_parse pg html d)), painted_once := True\<rparr>;
            title = page_title pg s1;
            (_, m) = win_mutate (compat_id s1) (\<lambda>w. w\<lparr>win_contents := set_document_title title (win_contents w)\<rparr>) (desk_manager k)
        in (Inr (), s1, k\<lparr>desk_manager := m\<rparr>)))"

definition shell_load_file :: "'d pages \<Rightarrow> string \<Rightarrow> 'd shell_window \<Rightarrow> ('v, 'l) desk \<Rightarrow> ('v, 'l, 'd) shell_result" where
  "shell_load_file pg path s k = (case require_open s of Inl e \<Rightarrow> (Inl e, s, k)
   | Inr d \<Rightarrow> (case read_file pg path of
       None \<Rightarrow> (Inl (ReadFile path), s, k)
     | Some html \<Rightarrow>
         (let (_, m) = win_mutate (compat_id s)
                (\<lambda>w. w\<lparr>win_contents := load_file (current_dir pg) path (win_contents w)\<rparr>) (desk_manager k);
              s1 = (case url_from_file pg path of None \<Rightarrow> s
                | Some url \<Rightarrow> s\<lparr>shell_doc := Some (page_base_url pg url d)\<rparr>)
          in shell_load_html pg html s1 (k\<lparr>desk_manager := m\<rparr>))))"

definition shell_resize :: "'d pages \<Rightarrow> u32 \<Rightarrow> u32 \<Rightarrow> 'd shell_window \<Rightarrow> ('v, 'l) desk \<Rightarrow> ('v, 'l, 'd) shell_result" where
  "shell_resize pg w h s k = (case require_open s of Inl e \<Rightarrow> (Inl e, s, k)
   | Inr d \<Rightarrow> (Inr (), s\<lparr>shell_doc := Some (page_resolve pg (page_viewport pg w h d))\<rparr>,
       k\<lparr>desk_manager := snd (win_resize (compat_id s) w h (desk_manager k))\<rparr>))"

definition shell_pump :: "'d pages \<Rightarrow> 'd shell_window \<Rightarrow> ('v, 'l) desk \<Rightarrow> ('v, 'l, 'd) shell_result" where
  "shell_pump pg s k = (case require_open s of Inl e \<Rightarrow> (Inl e, s, k)
   | Inr d \<Rightarrow> (Inr (), s\<lparr>shell_doc := Some (page_resolve pg d)\<rparr>, k))"

definition shell_set_bounds :: "'d pages \<Rightarrow> bounds \<Rightarrow> 'd shell_window \<Rightarrow> ('v, 'l) desk \<Rightarrow> ('v, 'l, 'd) shell_result" where
  "shell_set_bounds pg b s k = (case require_open s of Inl e \<Rightarrow> (Inl e, s, k)
   | Inr d \<Rightarrow> (Inr (), s\<lparr>shell_doc := Some (page_resolve pg (page_viewport pg (bounds_width b) (bounds_height b) d))\<rparr>,
       k\<lparr>desk_manager := snd (win_set_bounds (compat_id s) b (desk_manager k))\<rparr>))"

definition center_on_screen :: "screen \<Rightarrow> 'd shell_window \<Rightarrow> ('v, 'l) desk \<Rightarrow> (shell_error + bool) \<times> ('v, 'l) desk" where
  "center_on_screen scr s k = (case require_open s of Inl e \<Rightarrow> (Inl e, k)
   | Inr d \<Rightarrow> (case win_get (compat_id s) (desk_manager k) of
       None \<Rightarrow> (Inl Destroyed, k)
     | Some w \<Rightarrow>
         (let wd = opt_width (win_options w); ht = opt_height (win_options w) in
          (case suggest_centered_position wd ht scr of
             None \<Rightarrow> (Inr False, k)
           | Some (x, y) \<Rightarrow> (Inr True, k\<lparr>desk_manager := snd (win_set_bounds (compat_id s)
               \<lparr> bounds_x = x, bounds_y = y, bounds_width = wd, bounds_height = ht \<rparr> (desk_manager k))\<rparr>)))))"

definition shell_show :: "'d shell_window \<Rightarrow> ('v, 'l) desk \<Rightarrow> (shell_error + unit) \<times> ('v, 'l) desk" where
  "shell_show s k = (case require_open s of Inl e \<Rightarrow> (Inl e, k)
   | Inr d \<Rightarrow> (Inr (), k\<lparr>desk_manager := snd (win_show (compat_id s) (desk_manager k))\<rparr>))"

definition shell_hide :: "'d shell_window \<Rightarrow> ('v, 'l) desk \<Rightarrow> (shell_error + unit) \<times> ('v, 'l) desk" where
  "shell_hide s k = (case require_open s of Inl e \<Rightarrow> (Inl e, k)
   | Inr d \<Rightarrow> (Inr (), k\<lparr>desk_manager := snd (win_hide (compat_id s) (desk_manager k))\<rparr>))"

definition shell_set_title :: "string \<Rightarrow> 'd shell_window \<Rightarrow> ('v, 'l) desk \<Rightarrow> (shell_error + unit) \<times> ('v, 'l) desk" where
  "shell_set_title t s k = (case require_open s of Inl e \<Rightarrow> (Inl e, k)
   | Inr d \<Rightarrow> (Inr (), k\<lparr>desk_manager := snd (win_set_title (compat_id s) t (desk_manager k))\<rparr>))"

text \<open>Closing runs the listeners of the window, then reports the remaining count.\<close>
record 'l close_effects =
  window_calls :: "'l window_call list"
  emissions :: "'l emission list"

definition shell_close :: "'d shell_window \<Rightarrow> ('v, 'l) desk \<Rightarrow> bool \<times> 'l close_effects \<times> 'd shell_window \<times> ('v, 'l) desk" where
  "shell_close s k = (if shell_closed s then (False, \<lparr> window_calls = [], emissions = [] \<rparr>, s, k)
     else (let s1 = s\<lparr>shell_closed := True\<rparr>;
               (_, calls, m) = win_close (compat_id s1) (desk_manager k);
               (es, a) = note_window_closed (window_count m) (desk_app k)
           in (True, \<lparr> window_calls = calls, emissions = es \<rparr>, s1, \<lparr> desk_manager = m, desk_app = a \<rparr>)))"

record window_attributes =
  at_title :: string
  at_size :: "u32 \<times> u32"
  at_visible :: bool
  at_decorations :: bool
  at_resizable :: bool
  at_transparent :: bool
  at_position :: "(i32 \<times> i32) option"
  at_min_size :: "(u32 \<times> u32) option"
  at_max_size :: "(u32 \<times> u32) option"

definition attributes_of :: "'d shell_window \<Rightarrow> ('v, 'l) desk \<Rightarrow> window_attributes option" where
  "attributes_of s k = (if shell_closed s then None
     else (case win_get (compat_id s) (desk_manager k) of None \<Rightarrow> None
       | Some w \<Rightarrow> (let o1 = win_options w in
           Some \<lparr> at_title = win_title w, at_size = (opt_width o1, opt_height o1), at_visible = win_visible w,
             at_decorations = frame o1, at_resizable = resizable o1, at_transparent = transparent o1,
             at_position = position_opt o1, at_min_size = min_size o1, at_max_size = max_size o1 \<rparr>)))"

section \<open>Opening and closing several windows\<close>

fun open_all :: "'d pages \<Rightarrow> window_options list \<Rightarrow> ('v, 'l) desk \<Rightarrow> 'd shell_window list \<times> ('v, 'l) desk" where
  "open_all pg [] k = ([], k)"
| "open_all pg (opts # rest) k = (let (s, k1) = shell_open_window pg opts k; (ss, k2) = open_all pg rest k1 in (s # ss, k2))"

fun close_all :: "'d shell_window list \<Rightarrow> ('v, 'l) desk \<Rightarrow> 'l emission list \<times> ('v, 'l) desk" where
  "close_all [] k = ([], k)"
| "close_all (s # ss) k = (let (_, fx, _, k1) = shell_close s k; (es, k2) = close_all ss k1 in (emissions fx @ es, k2))"

lemma window_count_live: "distinct (map fst (windows m)) \<Longrightarrow> window_count m = card (live m)"
  unfolding window_count_def live_def dom_map_of_conv_image_fst
  by (metis distinct_card length_map list.set_map)

text \<open>The ids that opening hands out are those of the registry.\<close>
lemma open_all_ids:
  "open_all pg optss k = (ss, k') \<Longrightarrow>
   map compat_id ss = fst (win_ids.run_reg (map Register optss) (desk_manager k))
   \<and> live (desk_manager k') = live (desk_manager k) \<union> compat_id ` set ss
   \<and> (\<forall>s\<in>set ss. \<not> shell_closed s) \<and> desk_app k' = desk_app k \<and> length ss = length optss
   \<and> (distinct (map fst (windows (desk_manager k))) \<longrightarrow> distinct (map fst (windows (desk_manager k'))))"
proof (induction optss arbitrary: k ss)
  case (Cons opts rest)
  obtain i m where c: "win_create opts (desk_manager k) = (i, m)" by fastforce
  let ?k1 = "k\<lparr>desk_manager := m\<rparr>"
  obtain ss1 where r: "open_all pg rest ?k1 = (ss1, k')" "ss = shell_bind pg i opts # ss1"
    using Cons.prems c by (auto simp: shell_open_window_def split: prod.splits)
  have m: "live m = insert i (live (desk_manager k))" "distinct (map fst (windows (desk_manager k))) \<longrightarrow> distinct (map fst (windows m))"
    using c by (auto simp: win_create_def Let_def live_def AList.update_conv' distinct_update)
  show ?case using Cons.IH [OF r(1)] c r(2) m by (simp add: shell_bind_def case_prod_beta)
qed (auto split: prod.splits)

lemma registrations_map: "win_ids.registrations (map Register xs) = length xs"
  by (induction xs) simp_all

lemma close_one:
  assumes "\<not> shell_closed s" "compat_id s \<in> live (desk_manager k)" "distinct (map fst (windows (desk_manager k)))"
    and "shell_close s k = (b, fx, s', k')"
  shows "b" "shell_closed s'" "live (desk_manager k') = live (desk_manager k) - {compat_id s}"
    "distinct (map fst (windows (desk_manager k')))"
    "(emissions fx, desk_app k') = note_window_closed (card (live (desk_manager k')))  (desk_app k)"
proof -
  obtain b' calls m where c: "win_close (compat_id s) (desk_manager k) = (b', calls, m)" by (metis prod_cases3)
  obtain es a where n: "note_window_closed (window_count m) (desk_app k) = (es, a)" by fastforce
  have r: "b" "fx = \<lparr> window_calls = calls, emissions = es \<rparr>" "s' = s\<lparr>shell_closed := True\<rparr>" "k' = \<lparr> desk_manager = m, desk_app = a \<rparr>"
    using assms(1,4) c n by (auto simp: shell_close_def)
  have "m = (desk_manager k)\<lparr>windows := AList.delete (compat_id s) (windows (desk_manager k)),
      closed_listeners := AList.delete (compat_id s) (closed_listeners (desk_manager k))\<rparr>"
    using c assms(2) by (auto simp: win_close_def live_def Let_def)
  then have m: "live m = live (desk_manager k) - {compat_id s}" "distinct (map fst (windows m))"
    using assms(3) by (simp_all add: live_def AList.delete_conv' distinct_delete)
  show "b" "shell_closed s'" "live (desk_manager k') = live (desk_manager k) - {compat_id s}"
    "distinct (map fst (windows (desk_manager k')))" using r m by simp_all
  show "(emissions fx, desk_app k') = note_window_closed (card (live (desk_manager k')))  (desk_app k)"
    using n r m(2) by (simp add: window_count_live)
qed

lemma close_all_quits:
  assumes "ss \<noteq> []" "distinct (map compat_id ss)" "\<forall>s\<in>set ss. \<not> shell_closed s"
    and "live (desk_manager k) = set (map compat_id ss)" "distinct (map fst (windows (desk_manager k)))"
    and "\<not> app_quit (desk_app k)" "quit_on_all_windows_closed (desk_app k)" "last_window_count (desk_app k) \<noteq> Some 0"
    and "close_all ss k = (es, k')"
  shows "map fst es = [WindowAllClosed, BeforeQuit, WillQuit] \<and> app_quit (desk_app k') \<and> live (desk_manager k') = {}"
  using assms
proof (induction ss arbitrary: k es)
  case (Cons s ss)
  obtain b fx s' k1 where c: "shell_close s k = (b, fx, s', k1)" by (metis prod_cases4)
  obtain es1 where r: "close_all ss k1 = (es1, k')" "es = emissions fx @ es1" using Cons.prems(9) c by (auto split: prod.splits)
  note one = close_one [OF _ _ Cons.prems(5) c]
  have lv: "live (desk_manager k1) = set (map compat_id ss)" using one(3) Cons.prems(2-4) by auto
  then have card: "card (live (desk_manager k1)) = length ss"
    using Cons.prems(2) by (metis distinct_card distinct.simps(2) length_map list.map(2))
  have note1: "(emissions fx, desk_app k1) = note_window_closed (length ss) (desk_app k)"
    using one(5) Cons.prems(3,4) card by simp
  show ?case
  proof (cases "ss = []")
    case True
    then show ?thesis using note1 r lv Cons.prems(6-8) by (auto simp: note_window_closed_def quit_def emit_def Let_def)
  next
    case False
    then have "emissions fx = []" "desk_app k1 = (desk_app k)\<lparr>last_window_count := Some (length ss)\<rparr>"
      using note1 by (auto simp: note_window_closed_def)
    with False show ?thesis using Cons.IH [OF False _ _ lv _ _ _ _ r(1)] Cons.prems one(4) r(2) by auto
  qed
qed simp

text \<open>Pages that do nothing.\<close>
definition blank_pages :: "unit pages" where
  "blank_pages = \<lparr> page_new = (\<lambda>_ _. ()), page_parse = (\<lambda>_. id), page_resolve = id, page_viewport = (\<lambda>_ _. id),
     page_base_url = (\<lambda>_. id), page_title_of = (\<lambda>_. None), read_file = Map.empty, url_from_file = Map.empty,
     current_dir = None \<rparr>"

section \<open>A report that is lost\<close>

text \<open>The manager reports only when windows close, so the application does not see that a new
  window was opened, and takes the next report of zero for a repetition.\<close>
definition reopened :: "(nat, nat) desk \<Rightarrow> app_event list \<times> app_event list" where
  "reopened k =
    (let (s1, k1) = shell_open_window blank_pages window_options_default k;
         (_, fx1, _, k2) = shell_close s1 k1;
         (s2, k3) = shell_open_window blank_pages window_options_default k2;
         (_, fx2, _, k4) = shell_close s2 k3
     in (map fst (emissions fx1), map fst (emissions fx2)))"

lemma reopened_close_unreported:
  "reopened \<lparr> desk_manager = manager_new, desk_app = set_quit_on_all_windows_closed False
      (app_new \<lparr> env_var = Map.empty, env_temp_dir = ''/tmp'' \<rparr> ''App'' ''1.0'') \<rparr>
   = ([WindowAllClosed], [])"
  by code_simp

section \<open>Properties\<close>

text \<open>Windows, manager and application together.  Open any positive number of windows, fewer than
  \<open>2^32\<close>, on a new manager with an application that quits with its last window, and close them
  in any order: whatever the listeners, the application emits nothing until the last close,
  which emits \<open>window-all-closed\<close>, \<open>before-quit\<close> and \<open>will-quit\<close>, in this order and once; it has
  then quit and no window is left.  A window that is closed answers \<open>Destroyed\<close> to every
  operation and changes nothing.\<close>
lemma closing_all_windows_quits:
  assumes "optss \<noteq> []" "length optss < 2 ^ 32" "mset closing = mset ss"
    and "open_all pg optss \<lparr> desk_manager = (manager_new :: ('v, 'l) manager), desk_app = a \<rparr> = (ss, k)" "close_all closing k = (es, k')"
    and "\<not> app_quit a" "quit_on_all_windows_closed a" "last_window_count a \<noteq> Some 0"
  shows "map fst es = [WindowAllClosed, BeforeQuit, WillQuit] \<and> app_quit (desk_app k') \<and> live (desk_manager k') = {}
    \<and> (\<forall>s. shell_closed s \<longrightarrow> shell_show s k = (Inl Destroyed, k) \<and> shell_hide s k = (Inl Destroyed, k)
         \<and> shell_load_html pg t s k = (Inl Destroyed, s, k) \<and> shell_resize pg w h s k = (Inl Destroyed, s, k)
         \<and> fst (shell_close s k) = False \<and> snd (snd (shell_close s k)) = (s, k))"
proof -
  note o1 = open_all_ids [OF assms(4), simplified]
  have new: "next_window_id (manager_new :: ('v, 'l) manager) = 0" "live (manager_new :: ('v, 'l) manager) = {}"
    "distinct (map fst (windows (manager_new :: ('v, 'l) manager)))"
    by (simp_all add: manager_new_def live_def)
  have "distinct (fst (win_ids.run_reg (map Register optss) (manager_new :: ('v, 'l) manager)))"
    using assms(2) by (intro win_ids.run_reg_distinct) (simp add: new(1) registrations_map)
  then have "distinct (map compat_id ss)" using o1 by simp
  then have d: "distinct (map compat_id closing)" using assms(3) by (metis mset_eq_imp_distinct_iff mset_map)
  have st: "set closing = set ss" using assms(3) by (rule mset_eq_setD)
  have "length ss = length optss" using o1 by simp
  then have "closing \<noteq> []" using assms(1) st by auto
  moreover have "\<forall>s\<in>set closing. \<not> shell_closed s" "live (desk_manager k) = set (map compat_id closing)"
      "distinct (map fst (windows (desk_manager k)))" "desk_app k = a"
    using o1 st new by simp_all
  ultimately have "map fst es = [WindowAllClosed, BeforeQuit, WillQuit] \<and> app_quit (desk_app k') \<and> live (desk_manager k') = {}"
    using close_all_quits [OF _ d _ _ _ _ _ _ assms(5)] assms(6-8) by simp
  then show ?thesis
    by (auto simp: shell_show_def shell_hide_def shell_load_html_def shell_resize_def shell_close_def require_open_def)
qed

lemma closing_all_windows_quits_witness:
  "let a = app_new \<lparr> env_var = Map.empty, env_temp_dir = ''/tmp'' \<rparr> ''App'' ''1.0'';
       (ss, k) = open_all blank_pages [window_options_default, window_options_default]
          \<lparr> desk_manager = (manager_new :: (nat, nat) manager), desk_app = a \<rparr>;
       (es, k') = close_all (rev ss) k
   in map fst es = [WindowAllClosed, BeforeQuit, WillQuit] \<and> app_quit (desk_app k')"
proof -
  define a where "a = (app_new \<lparr> env_var = Map.empty, env_temp_dir = ''/tmp'' \<rparr> ''App'' ''1.0'' :: nat app)"
  define k0 where "k0 = \<lparr> desk_manager = (manager_new :: (nat, nat) manager), desk_app = a \<rparr>"
  obtain ss k where o1: "open_all blank_pages [window_options_default, window_options_default] k0 = (ss, k)" by fastforce
  obtain es k' where c: "close_all (rev ss) k = (es, k')" by fastforce
  have "map fst es = [WindowAllClosed, BeforeQuit, WillQuit] \<and> app_quit (desk_app k')"
    using closing_all_windows_quits [OF _ _ _ o1 [unfolded k0_def] c] by (simp add: a_def app_new_def)
  then show ?thesis unfolding Let_def a_def [symmetric] k0_def [symmetric] o1 by (simp add: c)
qed

end
