(* ===== verification/Web_Storage.thy ===== *)
theory Web_Storage
  imports Rust_String Keyed_List "HOL-Library.AList"
begin

text \<open>
  Web storage: \<open>strake-electron-compat/src/web_storage.rs\<close>.

  Origins and their normal form, storage areas under a quota, and the storage of all origins
  with its feed of changes.  The Unicode lower-case mapping of the standard library is a
  parameter of the normal form; sizes are byte counts and do not reach the width of \<open>usize\<close>,
  so they are natural numbers.
\<close>

section \<open>Origins\<close>

definition STORAGE_QUOTA_BYTES :: nat where
  "STORAGE_QUOTA_BYTES = 5 * 1024 * 1024"

datatype storage_kind = Local | Session

datatype origin = Origin string

text \<open>Host, port and whether the host is in brackets.\<close>
definition split_authority :: "string \<Rightarrow> string \<times> string option \<times> bool" where
  "split_authority authority = (case strip_prefix authority ''['' of
     Some stripped \<Rightarrow> (case index_of (CHR '']'') stripped of
         Some close \<Rightarrow> (take close stripped, strip_prefix (drop (close + 1) stripped) '':'', True)
       | None \<Rightarrow> (authority, None, False))
   | None \<Rightarrow> (case rfind_char (CHR '':'') authority of
         Some colon \<Rightarrow> if list_all is_ascii_digit (drop (colon + 1) authority)
           then (take colon authority, Some (drop (colon + 1) authority), False) else (authority, None, False)
       | None \<Rightarrow> (authority, None, False)))"

definition normalize_origin :: "(string \<Rightarrow> string) \<Rightarrow> string \<Rightarrow> string" where
  "normalize_origin lower orig =
    (let o1 = trim orig in
     case find_sub ''://'' o1 of
       None \<Rightarrow> lower o1
     | Some scheme_end \<Rightarrow>
        (let scheme = lower (take scheme_end o1);
             rest = drop (scheme_end + 3) o1;
             authority = takeWhile (\<lambda>c. c \<notin> {CHR ''/'', CHR ''?'', CHR ''#''}) rest;
             (host, port, bracketed) = split_authority authority;
             host1 = (if bracketed then ''['' @ lower host @ '']'' else lower host);
             default_port = (scheme = ''http'' \<and> port = Some ''80'' \<or> scheme = ''https'' \<and> port = Some ''443'')
         in case port of
              Some p \<Rightarrow> if \<not> default_port \<and> p \<noteq> [] then scheme @ ''://'' @ host1 @ '':'' @ p else scheme @ ''://'' @ host1
            | None \<Rightarrow> scheme @ ''://'' @ host1))"

definition origin_new :: "(string \<Rightarrow> string) \<Rightarrow> string \<Rightarrow> origin" where
  "origin_new lower orig = Origin (normalize_origin lower orig)"

section \<open>One area\<close>

datatype storage_error = QuotaExceeded

record storage_change =
  change_area :: storage_kind
  change_key :: "string option"
  old_value :: "string option"
  new_value :: "string option"

type_synonym pairs = "(string \<times> string) list"

record storage_area =
  entries :: pairs
  used_bytes :: nat

definition area_new :: storage_area where
  "area_new = \<lparr> entries = [], used_bytes = 0 \<rparr>"

definition area_len :: "storage_area \<Rightarrow> nat" where
  "area_len a = length (entries a)"

definition area_is_empty :: "storage_area \<Rightarrow> bool" where
  "area_is_empty a \<longleftrightarrow> entries a = []"

text \<open>Look up the first pair with the key, replace its value or add a pair, remove it.\<close>
definition pairs_get :: "pairs \<Rightarrow> string \<Rightarrow> string option" where
  "pairs_get es key = map_option snd (List.find (\<lambda>e. fst e = key) es)"

definition pairs_put :: "pairs \<Rightarrow> string \<Rightarrow> string \<Rightarrow> pairs" where
  "pairs_put es key val = (case position (\<lambda>e. fst e = key) es of
     Some i \<Rightarrow> es[i := (fst (es ! i), val)] | None \<Rightarrow> es @ [(key, val)])"

definition pairs_remove :: "pairs \<Rightarrow> string \<Rightarrow> pairs" where
  "pairs_remove es key = (case position (\<lambda>e. fst e = key) es of
     Some i \<Rightarrow> take i es @ drop (Suc i) es | None \<Rightarrow> es)"

definition area_get :: "string \<Rightarrow> storage_area \<Rightarrow> string option" where
  "area_get key a = pairs_get (entries a) key"

definition area_set :: "storage_kind \<Rightarrow> string \<Rightarrow> string \<Rightarrow> storage_area \<Rightarrow> (storage_error + storage_change) \<times> storage_area" where
  "area_set kind key val a =
    (let old_total = (case area_get key a of Some old \<Rightarrow> length key + length old | None \<Rightarrow> 0);
         new_total = length key + length val
     in if used_bytes a - old_total + new_total > STORAGE_QUOTA_BYTES then (Inl QuotaExceeded, a)
        else (Inr \<lparr> change_area = kind, change_key = Some key, old_value = area_get key a, new_value = Some val \<rparr>,
              a\<lparr>entries := pairs_put (entries a) key val, used_bytes := used_bytes a - old_total + new_total\<rparr>))"

definition area_remove :: "storage_kind \<Rightarrow> string \<Rightarrow> storage_area \<Rightarrow> storage_change option \<times> storage_area" where
  "area_remove kind key a = (case position (\<lambda>e. fst e = key) (entries a) of
     None \<Rightarrow> (None, a)
   | Some i \<Rightarrow> (let old = snd (entries a ! i) in
       (Some \<lparr> change_area = kind, change_key = Some key, old_value = Some old, new_value = None \<rparr>,
        a\<lparr>entries := pairs_remove (entries a) key, used_bytes := used_bytes a - (length key + length old)\<rparr>)))"

definition area_key :: "nat \<Rightarrow> storage_area \<Rightarrow> string option" where
  "area_key i a = (if i < length (entries a) then Some (fst (entries a ! i)) else None)"

definition area_clear :: "storage_kind \<Rightarrow> storage_area \<Rightarrow> storage_change option \<times> storage_area" where
  "area_clear kind a = (if entries a = [] then (None, a)
     else (Some \<lparr> change_area = kind, change_key = None, old_value = None, new_value = None \<rparr>,
           a\<lparr>entries := [], used_bytes := 0\<rparr>))"

section \<open>All origins\<close>

record partition =
  local_area :: storage_area
  session_area :: storage_area

definition partition_new :: partition where
  "partition_new = \<lparr> local_area = area_new, session_area = area_new \<rparr>"

record web_storage =
  partitions :: "(origin \<times> partition) list"
  changes :: "storage_change list"

definition web_storage_new :: web_storage where
  "web_storage_new = \<lparr> partitions = [], changes = [] \<rparr>"

fun area_of :: "storage_kind \<Rightarrow> partition \<Rightarrow> storage_area" where
  "area_of Local p = local_area p"
| "area_of Session p = session_area p"

fun put_area :: "storage_kind \<Rightarrow> storage_area \<Rightarrow> partition \<Rightarrow> partition" where
  "put_area Local a p = p\<lparr>local_area := a\<rparr>"
| "put_area Session a p = p\<lparr>session_area := a\<rparr>"

text \<open>\<open>area_mut\<close>: the entry is created when it is absent.\<close>
definition area_mut :: "origin \<Rightarrow> storage_kind \<Rightarrow> web_storage \<Rightarrow> storage_area \<times> web_storage" where
  "area_mut orig kind ws = (let p = (case map_of (partitions ws) orig of Some p \<Rightarrow> p | None \<Rightarrow> partition_new) in
     (area_of kind p, ws\<lparr>partitions := AList.update orig p (partitions ws)\<rparr>))"

text \<open>Writing an area back through the mutable reference.\<close>
definition store_area :: "origin \<Rightarrow> storage_kind \<Rightarrow> storage_area \<Rightarrow> web_storage \<Rightarrow> web_storage" where
  "store_area orig kind a ws = (case map_of (partitions ws) orig of
     Some p \<Rightarrow> ws\<lparr>partitions := AList.update orig (put_area kind a p) (partitions ws)\<rparr> | None \<Rightarrow> ws)"

definition ws_area :: "origin \<Rightarrow> storage_kind \<Rightarrow> web_storage \<Rightarrow> storage_area option" where
  "ws_area orig kind ws = map_option (area_of kind) (map_of (partitions ws) orig)"

definition ws_get :: "origin \<Rightarrow> storage_kind \<Rightarrow> string \<Rightarrow> web_storage \<Rightarrow> string option" where
  "ws_get orig kind key ws = (case map_of (partitions ws) orig of None \<Rightarrow> None
     | Some p \<Rightarrow> area_get key (area_of kind p))"

definition ws_set :: "origin \<Rightarrow> storage_kind \<Rightarrow> string \<Rightarrow> string \<Rightarrow> web_storage \<Rightarrow> (storage_error + unit) \<times> web_storage" where
  "ws_set orig kind key val ws =
    (let (a, ws1) = area_mut orig kind ws;
         (result, a1) = area_set kind key val a;
         ws2 = store_area orig kind a1 ws1
     in case result of
          Inr change \<Rightarrow> (Inr (), ws2\<lparr>changes := changes ws2 @ [change]\<rparr>)
        | Inl err \<Rightarrow>
            (Inl err, (case map_of (partitions ws2) orig of
               Some p \<Rightarrow> if area_is_empty (local_area p) \<and> area_is_empty (session_area p)
                 then ws2\<lparr>partitions := AList.delete orig (partitions ws2)\<rparr> else ws2
             | None \<Rightarrow> ws2)))"

definition ws_remove :: "origin \<Rightarrow> storage_kind \<Rightarrow> string \<Rightarrow> web_storage \<Rightarrow> web_storage" where
  "ws_remove orig kind key ws = (case map_of (partitions ws) orig of
     None \<Rightarrow> ws
   | Some p \<Rightarrow> (let (change, a1) = area_remove kind key (area_of kind p);
                   ws1 = store_area orig kind a1 ws
               in ws1\<lparr>changes := changes ws1 @ (case change of None \<Rightarrow> [] | Some c \<Rightarrow> [c])\<rparr>))"

definition ws_clear :: "origin \<Rightarrow> storage_kind \<Rightarrow> web_storage \<Rightarrow> web_storage" where
  "ws_clear orig kind ws = (case map_of (partitions ws) orig of
     None \<Rightarrow> ws
   | Some p \<Rightarrow> (let (change, a1) = area_clear kind (area_of kind p);
                   ws1 = store_area orig kind a1 ws
               in ws1\<lparr>changes := changes ws1 @ (case change of None \<Rightarrow> [] | Some c \<Rightarrow> [c])\<rparr>))"

definition ws_len :: "origin \<Rightarrow> storage_kind \<Rightarrow> web_storage \<Rightarrow> nat" where
  "ws_len orig kind ws = (case ws_area orig kind ws of None \<Rightarrow> 0 | Some a \<Rightarrow> area_len a)"

definition ws_is_empty :: "origin \<Rightarrow> storage_kind \<Rightarrow> web_storage \<Rightarrow> bool" where
  "ws_is_empty orig kind ws \<longleftrightarrow> ws_len orig kind ws = 0"

definition ws_key :: "origin \<Rightarrow> storage_kind \<Rightarrow> nat \<Rightarrow> web_storage \<Rightarrow> string option" where
  "ws_key orig kind i ws = (case ws_area orig kind ws of None \<Rightarrow> None | Some a \<Rightarrow> area_key i a)"

definition take_changes :: "web_storage \<Rightarrow> storage_change list \<times> web_storage" where
  "take_changes ws = (changes ws, ws\<lparr>changes := []\<rparr>)"

section \<open>The pairs as a keyed list\<close>

lemma pairs_found:
  assumes "position (\<lambda>e. fst e = k) es = Some i"
  obtains us w vs where "es = us @ (k, w) # vs" "k \<notin> fst ` set us" "pairs_put es k v = us @ (k, v) # vs"
    "pairs_remove es k = us @ vs"
proof -
  have i: "i < length es" "fst (es ! i) = k" "\<forall>j<i. fst (es ! j) \<noteq> k" using assms by (auto simp: position_Some_iff)
  have "es = take i es @ (k, snd (es ! i)) # drop (Suc i) es" using i by (metis id_take_nth_drop prod.collapse)
  moreover have "k \<notin> fst ` set (take i es)"
  proof
    assume "k \<in> fst ` set (take i es)"
    then obtain j where "j < i" "fst (es ! j) = k" by (auto simp: in_set_conv_nth)
    with i(3) show False by simp
  qed
  moreover have "pairs_put es k v = take i es @ (k, v) # drop (Suc i) es" "pairs_remove es k = take i es @ drop (Suc i) es"
    using i by (simp_all add: pairs_put_def pairs_remove_def assms upd_conv_take_nth_drop)
  ultimately show thesis by (rule that)
qed

lemma pairs_absent:
  assumes "position (\<lambda>e. fst e = k) es = None"
  shows "k \<notin> fst ` set es" "pairs_put es k v = es @ [(k, v)]" "pairs_remove es k = es"
  by (simp_all add: pairs_put_def pairs_remove_def assms) (use assms in \<open>auto simp: position_None_iff\<close>)

lemma pairs_get_map: "pairs_get es k = map_of es k"
  by (induction es) (auto simp: pairs_get_def)

lemma pairs_put_map: "map_of (pairs_put es k v) = (map_of es)(k \<mapsto> v)"
proof (cases "position (\<lambda>e. fst e = k) es")
  case None
  note ab = pairs_absent [OF None]
  have "map_of es k = None" using ab(1) by (simp add: map_of_eq_None_iff)
  then show ?thesis unfolding ab(2) by (auto simp: map_add_def fun_eq_iff split: option.split)
next
  case (Some i)
  obtain us w vs where s: "es = us @ (k, w) # vs" "k \<notin> fst ` set us" "pairs_put es k v = us @ (k, v) # vs"
    using pairs_found [OF Some] by metis
  then have "map_of us k = None" by (simp add: map_of_eq_None_iff)
  then show ?thesis unfolding s(3) by (auto simp: s(1) map_add_def fun_eq_iff split: option.splits)
qed

lemma pairs_put_keys: "map fst (pairs_put es k v) = (if k \<in> fst ` set es then map fst es else map fst es @ [k])"
proof (cases "position (\<lambda>e. fst e = k) es")
  case None
  from pairs_absent [OF None] show ?thesis by simp
next
  case (Some i)
  from pairs_found [OF Some, of v] obtain us w vs where s: "es = us @ (k, w) # vs" "pairs_put es k v = us @ (k, v) # vs" by metis
  show ?thesis unfolding s(2) by (simp add: s(1))
qed

lemma pairs_remove_filter: "distinct (map fst es) \<Longrightarrow> pairs_remove es k = filter (\<lambda>e. fst e \<noteq> k) es"
proof (cases "position (\<lambda>e. fst e = k) es")
  case None
  from pairs_absent [OF None] show ?thesis by (metis (mono_tags, lifting) filter_True image_eqI)
next
  case (Some i)
  assume d: "distinct (map fst es)"
  from pairs_found [OF Some] obtain us w vs where s: "es = us @ (k, w) # vs" "k \<notin> fst ` set us" "pairs_remove es k = us @ vs" by metis
  have "filter (\<lambda>e. fst e \<noteq> k) us = us" "filter (\<lambda>e. fst e \<noteq> k) vs = vs"
    using s d by (auto intro!: filter_True)
  then show ?thesis unfolding s(3) by (simp add: s(1))
qed

interpretation pairs: keyed_list pairs_get pairs_put pairs_remove "\<lambda>es. distinct (map fst es)"
proof
  fix es :: pairs and k k' v
  show "distinct (map fst es) \<Longrightarrow> distinct (map fst (pairs_put es k v))" by (simp add: pairs_put_keys)
  show "distinct (map fst es) \<Longrightarrow> distinct (map fst (pairs_remove es k))"
    by (simp add: pairs_remove_filter distinct_map_filter)
  show "pairs_get (pairs_put es k v) k = Some v" by (simp add: pairs_get_map pairs_put_map)
  show "k' \<noteq> k \<Longrightarrow> pairs_get (pairs_put es k v) k' = pairs_get es k'" by (simp add: pairs_get_map pairs_put_map)
  show "distinct (map fst es) \<Longrightarrow> pairs_get (pairs_remove es k) k = None"
    by (auto simp: pairs_get_map pairs_remove_filter map_of_eq_None_iff)
  show "k' \<noteq> k \<Longrightarrow> pairs_get (pairs_remove es k) k' = pairs_get es k'"
  proof (cases "position (\<lambda>e. fst e = k) es")
    case (Some i)
    assume ne: "k' \<noteq> k"
    from pairs_found [OF Some] obtain us w vs where s: "es = us @ (k, w) # vs" "pairs_remove es k = us @ vs" by metis
    show ?thesis unfolding s(2) using ne by (cases "map_of us k'") (simp_all add: s(1) pairs_get_map map_add_def)
  qed (simp add: pairs_remove_def)
qed

section \<open>Sizes\<close>

definition total :: "pairs \<Rightarrow> nat" where
  "total es = sum_list (map (\<lambda>e. length (fst e) + length (snd e)) es)"

lemma total_simps [simp]: "total [] = 0" "total ((k, v) # es) = length k + length v + total es" "total (es @ es') = total es + total es'"
  by (simp_all add: total_def)

text \<open>The bytes that a key occupies.\<close>
definition occupied :: "pairs \<Rightarrow> string \<Rightarrow> nat" where
  "occupied es k = (case pairs_get es k of Some old \<Rightarrow> length k + length old | None \<Rightarrow> 0)"

lemma total_put: "total (pairs_put es k v) + occupied es k = total es + (length k + length v)"
proof (cases "position (\<lambda>e. fst e = k) es")
  case None
  note ab = pairs_absent [OF None]
  then show ?thesis unfolding ab(2) by (simp add: occupied_def pairs_get_map map_of_eq_None_iff [THEN iffD2])
next
  case (Some i)
  from pairs_found [OF Some, of v] obtain us w vs where s: "es = us @ (k, w) # vs" "k \<notin> fst ` set us" "pairs_put es k v = us @ (k, v) # vs" by metis
  then have "map_of us k = None" by (simp add: map_of_eq_None_iff)
  then show ?thesis unfolding s(3) by (simp add: s(1) occupied_def pairs_get_map map_add_def)
qed

lemma total_remove: "total (pairs_remove es k) + occupied es k = total es"
proof (cases "position (\<lambda>e. fst e = k) es")
  case None
  note ab = pairs_absent [OF None]
  then show ?thesis unfolding ab(3) by (simp add: occupied_def pairs_get_map map_of_eq_None_iff [THEN iffD2])
next
  case (Some i)
  from pairs_found [OF Some] obtain us w vs where s: "es = us @ (k, w) # vs" "k \<notin> fst ` set us" "pairs_remove es k = us @ vs" by metis
  then have "map_of us k = None" by (simp add: map_of_eq_None_iff)
  then show ?thesis unfolding s(3) by (simp add: s(1) occupied_def pairs_get_map map_add_def)
qed

lemma position_get: "position (\<lambda>e. fst e = k) es = None \<longleftrightarrow> pairs_get es k = None"
  "position (\<lambda>e. fst e = k) es = Some i \<Longrightarrow> pairs_get es k = Some (snd (es ! i))"
proof -
  show "position (\<lambda>e. fst e = k) es = None \<longleftrightarrow> pairs_get es k = None"
    by (auto simp: position_None_iff pairs_get_map map_of_eq_None_iff)
  show "position (\<lambda>e. fst e = k) es = Some i \<Longrightarrow> pairs_get es k = Some (snd (es ! i))"
    by (induction es arbitrary: i) (auto simp: pairs_get_def split: if_splits)
qed

text \<open>The byte counter is the size of the pairs, and within the quota.\<close>
definition area_inv :: "storage_area \<Rightarrow> bool" where
  "area_inv a \<longleftrightarrow> distinct (map fst (entries a)) \<and> used_bytes a = total (entries a) \<and> used_bytes a \<le> STORAGE_QUOTA_BYTES"

lemma area_new_inv: "area_inv area_new"
  by (simp add: area_inv_def area_new_def)

lemma area_set_spec:
  assumes "area_inv a"
  shows "area_set kind k v a = (if total (pairs_put (entries a) k v) > STORAGE_QUOTA_BYTES then (Inl QuotaExceeded, a)
     else (Inr \<lparr> change_area = kind, change_key = Some k, old_value = pairs_get (entries a) k, new_value = Some v \<rparr>,
           a\<lparr>entries := pairs_put (entries a) k v, used_bytes := total (pairs_put (entries a) k v)\<rparr>))"
proof -
  have "used_bytes a - occupied (entries a) k + (length k + length v) = total (pairs_put (entries a) k v)"
    using assms total_put [of "entries a" k v] total_remove [of "entries a" k] by (simp add: area_inv_def)
  then show ?thesis by (simp add: area_set_def Let_def area_get_def flip: occupied_def)
qed

lemma area_set_inv: "area_inv a \<Longrightarrow> area_set kind k v a = (r, a') \<Longrightarrow> area_inv a'"
  using pairs.put_ok [of "entries a" k v] by (auto simp: area_set_spec area_inv_def split: if_splits)

lemma area_remove_spec:
  assumes "area_inv a"
  shows "area_remove kind k a = (case pairs_get (entries a) k of None \<Rightarrow> (None, a)
     | Some old \<Rightarrow> (Some \<lparr> change_area = kind, change_key = Some k, old_value = Some old, new_value = None \<rparr>,
         a\<lparr>entries := pairs_remove (entries a) k, used_bytes := total (pairs_remove (entries a) k)\<rparr>))"
proof (cases "position (\<lambda>e. fst e = k) (entries a)")
  case None
  then show ?thesis using position_get(1) [of k "entries a"] by (simp add: area_remove_def)
next
  case (Some i)
  note g = position_get(2) [OF Some]
  have "total (entries a) - (length k + length (snd (entries a ! i))) = total (pairs_remove (entries a) k)"
    using total_remove [of "entries a" k] g by (simp add: occupied_def)
  then show ?thesis using assms g by (simp add: area_remove_def Some area_inv_def)
qed

lemma area_remove_inv:
  assumes "area_inv a" "area_remove kind k a = (r, a')" shows "area_inv a'"
proof -
  have "total (pairs_remove (entries a) k) \<le> STORAGE_QUOTA_BYTES"
    using assms(1) total_remove [of "entries a" k] by (simp add: area_inv_def)
  then show ?thesis using assms pairs.del_ok [of "entries a" k]
    by (auto simp: area_remove_spec [OF assms(1)] area_inv_def split: option.splits)
qed

lemma area_clear_inv: "area_inv a \<Longrightarrow> area_clear kind a = (r, a') \<Longrightarrow> area_inv a'"
  by (auto simp: area_clear_def area_inv_def split: if_splits)

section \<open>What the program sees of an area\<close>

definition view :: "web_storage \<Rightarrow> origin \<Rightarrow> storage_kind \<Rightarrow> pairs" where
  "view ws orig kind = (case map_of (partitions ws) orig of None \<Rightarrow> [] | Some p \<Rightarrow> entries (area_of kind p))"

definition ws_inv :: "web_storage \<Rightarrow> bool" where
  "ws_inv ws \<longleftrightarrow> (\<forall>orig p kind. map_of (partitions ws) orig = Some p \<longrightarrow> area_inv (area_of kind p))"

lemma area_of_put [simp]: "area_of kind' (put_area kind a p) = (if kind' = kind then a else area_of kind' p)"
  by (cases kind; cases kind') simp_all

lemma area_of_new [simp]: "area_of kind partition_new = area_new"
  by (cases kind) (simp_all add: partition_new_def)

lemma area_mut_spec:
  assumes "ws_inv ws" "area_mut orig kind ws = (a, ws')"
  shows "ws_inv ws'" "view ws' = view ws" "changes ws' = changes ws" "entries a = view ws orig kind" "area_inv a"
    "\<exists>p. map_of (partitions ws') orig = Some p"
  using assms area_new_inv
  by (auto simp: area_mut_def ws_inv_def view_def Let_def AList.update_conv' fun_eq_iff area_new_def split: option.splits if_splits)

lemma store_area_spec:
  assumes "ws_inv ws" "area_inv a" "map_of (partitions ws) orig = Some p"
  shows "ws_inv (store_area orig kind a ws)" "changes (store_area orig kind a ws) = changes ws"
    "view (store_area orig kind a ws) orig' kind' = (if orig' = orig \<and> kind' = kind then entries a else view ws orig' kind')"
  using assms by (auto simp: store_area_def ws_inv_def view_def AList.update_conv' split: if_splits)

text \<open>A change of one view.\<close>
definition view_upd :: "(origin \<Rightarrow> storage_kind \<Rightarrow> pairs) \<Rightarrow> origin \<Rightarrow> storage_kind \<Rightarrow> pairs \<Rightarrow> origin \<Rightarrow> storage_kind \<Rightarrow> pairs" where
  "view_upd S orig kind es = S(orig := (S orig)(kind := es))"

lemma view_upd_same [simp]: "view_upd S orig kind (S orig kind) = S"
  by (simp add: view_upd_def)

lemma view_upd_eq: "S' = view_upd S orig kind es \<longleftrightarrow> (\<forall>o' k'. S' o' k' = (if o' = orig \<and> k' = kind then es else S o' k'))"
  by (auto simp: view_upd_def fun_eq_iff)

lemma ws_set_spec:
  assumes inv: "ws_inv ws" and e: "ws_set orig kind key val ws = (r, ws')"
  defines "es' \<equiv> pairs_put (view ws orig kind) key val"
  shows "ws_inv ws' \<and> (if total es' > STORAGE_QUOTA_BYTES
     then r = Inl QuotaExceeded \<and> view ws' = view ws \<and> changes ws' = changes ws
     else r = Inr () \<and> view ws' = view_upd (view ws) orig kind es'
       \<and> changes ws' = changes ws @ [\<lparr> change_area = kind, change_key = Some key, old_value = pairs_get (view ws orig kind) key, new_value = Some val \<rparr>])"
proof -
  obtain a ws1 where m: "area_mut orig kind ws = (a, ws1)" by fastforce
  note ms = area_mut_spec [OF inv m]
  obtain p where p: "map_of (partitions ws1) orig = Some p" using ms(6) by blast
  obtain res a1 where st: "area_set kind key val a = (res, a1)" by fastforce
  note sp = st [unfolded area_set_spec [OF ms(5)] ms(4)]
  note a1 = area_set_inv [OF ms(5) st]
  let ?ws2 = "store_area orig kind a1 ws1"
  note s2 = store_area_spec [OF ms(1) a1 p]
  have eq: "ws_set orig kind key val ws = (case res of
       Inr change \<Rightarrow> (Inr (), ?ws2\<lparr>changes := changes ?ws2 @ [change]\<rparr>)
     | Inl err \<Rightarrow> (Inl err, (case map_of (partitions ?ws2) orig of
           Some p \<Rightarrow> if area_is_empty (local_area p) \<and> area_is_empty (session_area p)
             then ?ws2\<lparr>partitions := AList.delete orig (partitions ?ws2)\<rparr> else ?ws2
         | None \<Rightarrow> ?ws2)))"
    by (simp add: ws_set_def m st Let_def)
  have upd: "view (x\<lparr>changes := c\<rparr>) = view x" "ws_inv (x\<lparr>changes := c\<rparr>) = ws_inv x" for x c
    by (simp_all add: view_def ws_inv_def fun_eq_iff)
  show ?thesis
  proof (cases "total es' > STORAGE_QUOTA_BYTES")
    case True
    then have res: "res = Inl QuotaExceeded" "a1 = a" using sp by (auto simp: es'_def)
    have v2: "view ?ws2 = view ws" using s2(3) ms(2,4) res(2) by (auto simp: fun_eq_iff)
    have drop: "view (?ws2\<lparr>partitions := AList.delete orig (partitions ?ws2)\<rparr>) = view ?ws2"
      if "map_of (partitions ?ws2) orig = Some p'" "area_is_empty (local_area p')" "area_is_empty (session_area p')" for p'
    proof -
      have "entries (area_of k p') = []" for k using that by (cases k) (simp_all add: area_is_empty_def)
      then show ?thesis using that by (auto simp: view_def fun_eq_iff AList.delete_conv')
    qed
    have "ws_inv (?ws2\<lparr>partitions := AList.delete orig (partitions ?ws2)\<rparr>)"
      using s2(1) by (auto simp: ws_inv_def AList.delete_conv' split: if_splits)
    then show ?thesis using True e eq res s2(1,2) ms(3) v2 drop by (auto split: option.splits if_splits)
  next
    case False
    then have "res = Inr \<lparr> change_area = kind, change_key = Some key, old_value = pairs_get (view ws orig kind) key, new_value = Some val \<rparr>"
      "entries a1 = es'" using sp by (auto simp: es'_def)
    then show ?thesis using False e eq s2 ms(2,3) by (auto simp: upd view_upd_eq)
  qed
qed

text \<open>Removal and clearing, which only touch an existing partition.\<close>
lemma edit_spec:
  assumes inv: "ws_inv ws" and p: "map_of (partitions ws) orig = Some p"
    and a1: "area_inv (area_of kind p) \<Longrightarrow> area_inv a1"
    and ws': "ws' = (store_area orig kind a1 ws)\<lparr>changes := changes (store_area orig kind a1 ws) @ (case change of None \<Rightarrow> [] | Some c \<Rightarrow> [c])\<rparr>"
  shows "ws_inv ws' \<and> view ws' = view_upd (view ws) orig kind (entries a1) \<and> changes ws' = changes ws @ (case change of None \<Rightarrow> [] | Some c \<Rightarrow> [c])"
proof -
  have a1': "area_inv a1" using inv p a1 by (auto simp: ws_inv_def)
  note s = store_area_spec [OF inv a1' p]
  have "view ws' = view (store_area orig kind a1 ws)" "ws_inv ws' = ws_inv (store_area orig kind a1 ws)"
    by (simp_all add: ws' view_def ws_inv_def fun_eq_iff)
  then show ?thesis using s by (auto simp: view_upd_eq ws')
qed

lemma ws_remove_spec:
  assumes inv: "ws_inv ws"
  shows "ws_inv (ws_remove orig kind key ws) \<and> view (ws_remove orig kind key ws) = view_upd (view ws) orig kind (pairs_remove (view ws orig kind) key)
    \<and> changes (ws_remove orig kind key ws) = changes ws @ (case pairs_get (view ws orig kind) key of None \<Rightarrow> []
        | Some old \<Rightarrow> [\<lparr> change_area = kind, change_key = Some key, old_value = Some old, new_value = None \<rparr>])"
proof (cases "map_of (partitions ws) orig")
  case None
  then have "view ws orig kind = []" by (simp add: view_def)
  moreover have "pairs_remove [] key = []" by (simp add: pairs_remove_def)
  ultimately show ?thesis using inv view_upd_same [of "view ws" orig kind] None by (simp add: ws_remove_def pairs_get_def)
next
  case (Some p)
  obtain change a1 where r: "area_remove kind key (area_of kind p) = (change, a1)" by fastforce
  have ai: "area_inv (area_of kind p)" using inv Some by (auto simp: ws_inv_def)
  have v: "view ws orig kind = entries (area_of kind p)" using Some by (simp add: view_def)
  have "pairs_get (entries (area_of kind p)) key = None \<Longrightarrow> pairs_remove (entries (area_of kind p)) key = entries (area_of kind p)"
    using position_get(1) [THEN iffD2] by (simp add: pairs_remove_def)
  then have "entries a1 = pairs_remove (view ws orig kind) key"
    "change = (case pairs_get (view ws orig kind) key of None \<Rightarrow> None
       | Some old \<Rightarrow> Some \<lparr> change_area = kind, change_key = Some key, old_value = Some old, new_value = None \<rparr>)"
    using r unfolding area_remove_spec [OF ai] v by (auto split: option.splits)
  moreover have w: "ws_remove orig kind key ws = (store_area orig kind a1 ws)
      \<lparr>changes := changes (store_area orig kind a1 ws) @ (case change of None \<Rightarrow> [] | Some c \<Rightarrow> [c])\<rparr>"
    by (simp add: ws_remove_def Some r Let_def)
  moreover note edit_spec [OF inv Some area_remove_inv [OF _ r] w]
  ultimately show ?thesis by (simp split: option.splits if_splits)
qed

lemma ws_clear_spec:
  assumes inv: "ws_inv ws"
  shows "ws_inv (ws_clear orig kind ws) \<and> view (ws_clear orig kind ws) = view_upd (view ws) orig kind []
    \<and> changes (ws_clear orig kind ws) = changes ws @ (if view ws orig kind = [] then []
        else [\<lparr> change_area = kind, change_key = None, old_value = None, new_value = None \<rparr>])"
proof (cases "map_of (partitions ws) orig")
  case None
  then have "view ws orig kind = []" by (simp add: view_def)
  then show ?thesis using inv view_upd_same [of "view ws" orig kind] None by (simp add: ws_clear_def)
next
  case (Some p)
  obtain change a1 where r: "area_clear kind (area_of kind p) = (change, a1)" by fastforce
  have v: "view ws orig kind = entries (area_of kind p)" using Some by (simp add: view_def)
  have "entries a1 = []" "change = (if view ws orig kind = [] then None
      else Some \<lparr> change_area = kind, change_key = None, old_value = None, new_value = None \<rparr>)"
    using r unfolding v by (auto simp: area_clear_def split: if_splits)
  moreover have w: "ws_clear orig kind ws = (store_area orig kind a1 ws)
      \<lparr>changes := changes (store_area orig kind a1 ws) @ (case change of None \<Rightarrow> [] | Some c \<Rightarrow> [c])\<rparr>"
    by (simp add: ws_clear_def Some r Let_def)
  moreover note edit_spec [OF inv Some area_clear_inv [OF _ r] w]
  ultimately show ?thesis by (simp split: option.splits if_splits)
qed

section \<open>Runs\<close>

datatype ws_op = SetItem origin storage_kind string string | RemoveItem origin storage_kind string
  | ClearItems origin storage_kind | GetItem origin storage_kind string | KeyAt origin storage_kind nat
  | Length origin storage_kind

datatype ws_out = Stored "storage_error + unit" | Quiet | Item "string option" | Count nat

fun ws_step :: "ws_op \<Rightarrow> web_storage \<Rightarrow> ws_out \<times> web_storage" where
  "ws_step (SetItem og k key val) ws = (let (r, ws') = ws_set og k key val ws in (Stored r, ws'))"
| "ws_step (RemoveItem og k key) ws = (Quiet, ws_remove og k key ws)"
| "ws_step (ClearItems og k) ws = (Quiet, ws_clear og k ws)"
| "ws_step (GetItem og k key) ws = (Item (ws_get og k key ws), ws)"
| "ws_step (KeyAt og k i) ws = (Item (ws_key og k i ws), ws)"
| "ws_step (Length og k) ws = (Count (ws_len og k ws), ws)"

fun ws_run :: "ws_op list \<Rightarrow> web_storage \<Rightarrow> ws_out list \<times> web_storage" where
  "ws_run [] ws = ([], ws)"
| "ws_run (op1 # ops) ws = (let (r, ws1) = ws_step op1 ws; (rs, ws2) = ws_run ops ws1 in (r # rs, ws2))"

text \<open>The specification: for every origin and kind one list of pairs with its own quota.\<close>
type_synonym areas = "origin \<Rightarrow> storage_kind \<Rightarrow> pairs"

fun spec_step :: "ws_op \<Rightarrow> areas \<Rightarrow> ws_out \<times> areas" where
  "spec_step (SetItem og k key val) S = (let es = pairs_put (S og k) key val in
     if total es > STORAGE_QUOTA_BYTES then (Stored (Inl QuotaExceeded), S) else (Stored (Inr ()), view_upd S og k es))"
| "spec_step (RemoveItem og k key) S = (Quiet, view_upd S og k (filter (\<lambda>e. fst e \<noteq> key) (S og k)))"
| "spec_step (ClearItems og k) S = (Quiet, view_upd S og k [])"
| "spec_step (GetItem og k key) S = (Item (map_of (S og k) key), S)"
| "spec_step (KeyAt og k i) S = (Item (if i < length (S og k) then Some (fst (S og k ! i)) else None), S)"
| "spec_step (Length og k) S = (Count (length (S og k)), S)"

fun spec_run :: "ws_op list \<Rightarrow> areas \<Rightarrow> ws_out list \<times> areas" where
  "spec_run [] S = ([], S)"
| "spec_run (op1 # ops) S = (let (r, S1) = spec_step op1 S; (rs, S2) = spec_run ops S1 in (r # rs, S2))"

lemma view_distinct: "ws_inv ws \<Longrightarrow> distinct (map fst (view ws og k))"
  by (auto simp: ws_inv_def view_def area_inv_def split: option.split)

lemma ws_step_simulates:
  assumes "ws_inv ws" "ws_step op1 ws = (r, ws')"
  shows "ws_inv ws' \<and> spec_step op1 (view ws) = (r, view ws')"
proof (cases op1)
  case (SetItem og k key val)
  then show ?thesis using assms ws_set_spec [OF assms(1)] by (fastforce simp: Let_def split: prod.splits if_splits)
next
  case (RemoveItem og k key)
  then show ?thesis using assms ws_remove_spec [OF assms(1)] pairs_remove_filter [OF view_distinct [OF assms(1)]] by auto
next
  case (ClearItems og k)
  then show ?thesis using assms ws_clear_spec [OF assms(1)] by auto
qed (use assms in \<open>auto simp: ws_get_def ws_key_def ws_len_def ws_area_def area_get_def area_key_def area_len_def
       view_def pairs_get_map split: option.splits\<close>)

lemma ws_run_simulates:
  "ws_inv ws \<Longrightarrow> ws_run ops ws = (rs, ws') \<Longrightarrow> ws_inv ws' \<and> spec_run ops (view ws) = (rs, view ws')"
proof (induction ops arbitrary: ws rs)
  case (Cons op1 ops)
  obtain r ws1 rs1 where st: "ws_step op1 ws = (r, ws1)" "ws_run ops ws1 = (rs1, ws')" "rs = r # rs1"
    using Cons.prems(2) by (auto split: prod.splits)
  from ws_step_simulates [OF Cons.prems(1) st(1)] Cons.IH [OF _ st(2)] st(3) show ?case by simp
qed simp

lemma new_inv: "ws_inv web_storage_new" "view web_storage_new = (\<lambda>_ _. [])" "changes web_storage_new = []"
  by (simp_all add: ws_inv_def view_def web_storage_new_def fun_eq_iff)

section \<open>The feed of changes\<close>

text \<open>Replaying one change on the pairs of its area; \<open>None\<close> when the change does not describe
  them.\<close>
definition replay :: "storage_change \<Rightarrow> pairs \<Rightarrow> pairs option" where
  "replay c es = (case change_key c of
     None \<Rightarrow> if es = [] \<or> old_value c \<noteq> None \<or> new_value c \<noteq> None then None else Some []
   | Some k \<Rightarrow> if old_value c \<noteq> map_of es k then None
       else (case new_value c of Some v \<Rightarrow> Some (pairs_put es k v)
         | None \<Rightarrow> if old_value c = None then None else Some (filter (\<lambda>e. fst e \<noteq> k) es)))"

fun replay_all :: "storage_change list \<Rightarrow> pairs \<Rightarrow> pairs option" where
  "replay_all [] es = Some es"
| "replay_all (c # cs) es = Option.bind (replay c es) (replay_all cs)"

definition feed :: "storage_kind \<Rightarrow> storage_change list \<Rightarrow> storage_change list" where
  "feed kind cs = filter (\<lambda>c. change_area c = kind) cs"

lemma feed_simps [simp]: "feed kind [] = []" "feed kind (cs @ cs') = feed kind cs @ feed kind cs'"
  "feed kind (c # cs) = (if change_area c = kind then c # feed kind cs else feed kind cs)"
  by (simp_all add: feed_def)

lemma replay_all_append: "replay_all (cs @ cs') es = Option.bind (replay_all cs es) (replay_all cs')"
  by (induction cs arbitrary: es) (auto simp: bind_eq_Some_conv split: Option.bind_splits)

fun op_origin :: "ws_op \<Rightarrow> origin" where
  "op_origin (SetItem og k key val) = og" | "op_origin (RemoveItem og k key) = og" | "op_origin (ClearItems og k) = og"
| "op_origin (GetItem og k key) = og" | "op_origin (KeyAt og k i) = og" | "op_origin (Length og k) = og"

lemma ws_step_replays:
  assumes "ws_inv ws" "ws_step op1 ws = (r, ws')"
  shows "\<exists>cs. changes ws' = changes ws @ cs \<and> replay_all (feed kind cs) (view ws (op_origin op1) kind) = Some (view ws' (op_origin op1) kind)"
proof (cases op1)
  case (SetItem og k key val)
  then show ?thesis using assms(2) ws_set_spec [OF assms(1), of og k key val]
    by (cases "ws_set og k key val ws")
      (auto simp: view_upd_def replay_def pairs_get_map split: if_splits intro: exI [of _ "[]"])
next
  case (RemoveItem og k key)
  note sp = ws_remove_spec [OF assms(1), of og k key]
  have flt: "pairs_remove (view ws og k) key = filter (\<lambda>e. fst e \<noteq> key) (view ws og k)"
    by (rule pairs_remove_filter [OF view_distinct [OF assms(1)]])
  show ?thesis
  proof (cases "map_of (view ws og k) key")
    case None
    then have "filter (\<lambda>e. fst e \<noteq> key) (view ws og k) = view ws og k"
      by (intro filter_True) (auto simp: map_of_eq_None_iff)
    then show ?thesis using RemoveItem assms(2) sp None by (simp add: flt pairs_get_map)
  next
    case (Some old)
    then show ?thesis using RemoveItem assms(2) sp by (auto simp: flt pairs_get_map view_upd_def replay_def)
  qed
next
  case (ClearItems og k)
  then show ?thesis using assms(2) ws_clear_spec [OF assms(1), of og k] by (auto simp: view_upd_def replay_def split: if_splits)
qed (use assms in auto)

lemma ws_run_replays:
  "ws_inv ws \<Longrightarrow> \<forall>op1\<in>set ops. op_origin op1 = og \<Longrightarrow> ws_run ops ws = (rs, ws') \<Longrightarrow>
   \<exists>cs. changes ws' = changes ws @ cs \<and> replay_all (feed kind cs) (view ws og kind) = Some (view ws' og kind)"
proof (induction ops arbitrary: ws rs)
  case (Cons op1 ops)
  obtain r ws1 rs1 where st: "ws_step op1 ws = (r, ws1)" "ws_run ops ws1 = (rs1, ws')"
    using Cons.prems(3) by (auto split: prod.splits)
  obtain cs1 where cs1: "changes ws1 = changes ws @ cs1" "replay_all (feed kind cs1) (view ws og kind) = Some (view ws1 og kind)"
    using ws_step_replays [OF Cons.prems(1) st(1), of kind] Cons.prems(2) by auto
  obtain cs2 where "changes ws' = changes ws1 @ cs2" "replay_all (feed kind cs2) (view ws1 og kind) = Some (view ws' og kind)"
    using Cons.IH [OF _ _ st(2)] ws_step_simulates [OF Cons.prems(1) st(1)] Cons.prems(2) by auto
  with cs1 show ?case by (intro exI [of _ "cs1 @ cs2"]) (simp add: replay_all_append)
qed auto

section \<open>Properties\<close>

text \<open>C17. Web storage keeps, for every origin and each of its two areas, a list of pairs of its
  own: every sequence of calls gives the answers of a specification in which an area is its
  list alone.  Setting an existing key keeps its position and a new one goes to the end, a
  write succeeds exactly when the bytes of all keys and values stay within the quota and
  otherwise changes nothing, and no call on one origin or area is seen from another.  In every
  reachable state the byte counter of an area is the size of its pairs and within the quota,
  and its keys are distinct.\<close>
theorem web_storage_refines:
  assumes "ws_run ops web_storage_new = (rs, ws)"
  shows "spec_run ops (\<lambda>_ _. []) = (rs, view ws)
    \<and> (\<forall>orig p kind. map_of (partitions ws) orig = Some p \<longrightarrow> area_inv (area_of kind p))"
  using ws_run_simulates [OF new_inv(1) assms] by (simp add: new_inv(2) ws_inv_def)

theorem web_storage_refines_witness:
  "let a = origin_new id ''http://a''; ops = [SetItem a Local ''k'' ''1'', SetItem a Local ''l'' ''2'', SetItem a Local ''k'' ''3'',
        GetItem a Local ''k'', KeyAt a Local 0, GetItem a Session ''k'', GetItem (origin_new id ''http://b'') Local ''k'',
        RemoveItem a Local ''k'', Length a Local]
   in fst (ws_run ops web_storage_new) = [Stored (Inr ()), Stored (Inr ()), Stored (Inr ()), Item (Some ''3''), Item (Some ''k''),
        Item None, Item None, Quiet, Count 1]"
proof -
  define a where "a = origin_new id ''http://a''"
  define ops where "ops = [SetItem a Local ''k'' ''1'', SetItem a Local ''l'' ''2'', SetItem a Local ''k'' ''3'',
        GetItem a Local ''k'', KeyAt a Local 0, GetItem a Session ''k'', GetItem (origin_new id ''http://b'') Local ''k'',
        RemoveItem a Local ''k'', Length a Local]"
  obtain rs ws where run: "ws_run ops web_storage_new = (rs, ws)" by fastforce
  have "a \<noteq> origin_new id ''http://b''" unfolding a_def by code_simp
  then have "fst (spec_run ops (\<lambda>_ _. [])) = [Stored (Inr ()), Stored (Inr ()), Stored (Inr ()), Item (Some ''3''), Item (Some ''k''),
        Item None, Item None, Quiet, Count 1]"
    by (simp add: ops_def Let_def STORAGE_QUOTA_BYTES_def total_def pairs_put_def view_upd_def)
  with web_storage_refines [OF run] have "rs = [Stored (Inr ()), Stored (Inr ()), Stored (Inr ()), Item (Some ''3''), Item (Some ''k''),
        Item None, Item None, Quiet, Count 1]" by simp
  then show ?thesis unfolding Let_def a_def [symmetric] ops_def [symmetric] run by simp
qed

text \<open>The change feed tells everything: when all calls come from one origin, replaying the
  recorded changes of an area, each of which must name the value it replaces, rebuilds its
  pairs in their order, so a call that changes nothing records nothing and no change is
  recorded twice or lost.\<close>
lemma change_feed_replays:
  assumes "ws_run ops web_storage_new = (rs, ws)" "\<forall>op1\<in>set ops. op_origin op1 = orig"
  shows "replay_all (feed kind (fst (take_changes ws))) [] = Some (view ws orig kind)"
  using ws_run_replays [OF new_inv(1) assms(2,1), of kind] by (auto simp: take_changes_def new_inv)

lemma change_feed_replays_witness:
  "let ops = [SetItem (Origin ''a'') Local ''k'' ''1'', SetItem (Origin ''a'') Session ''s'' ''1'', SetItem (Origin ''a'') Local ''k'' ''2'',
        RemoveItem (Origin ''a'') Local ''x'', ClearItems (Origin ''a'') Session];
       (rs, ws) = ws_run ops web_storage_new
   in replay_all (feed Local (changes ws)) [] = Some [(''k'', ''2'')]"
proof -
  define ops where "ops = [SetItem (Origin ''a'') Local ''k'' ''1'', SetItem (Origin ''a'') Session ''s'' ''1'',
        SetItem (Origin ''a'') Local ''k'' ''2'', RemoveItem (Origin ''a'') Local ''x'', ClearItems (Origin ''a'') Session]"
  obtain rs ws where run: "ws_run ops web_storage_new = (rs, ws)" by fastforce
  have "snd (spec_run ops (\<lambda>_ _. [])) (Origin ''a'') Local = [(''k'', ''2'')]"
    by (simp add: ops_def Let_def STORAGE_QUOTA_BYTES_def total_def pairs_put_def view_upd_def)
  then have "view ws (Origin ''a'') Local = [(''k'', ''2'')]"
    using ws_run_simulates [OF new_inv(1) run] by (simp add: new_inv(2))
  moreover have "\<forall>op1\<in>set ops. op_origin op1 = Origin ''a''" by (simp add: ops_def)
  ultimately have "replay_all (feed Local (changes ws)) [] = Some [(''k'', ''2'')]"
    using change_feed_replays [OF run, of "Origin ''a''" Local] by (simp add: take_changes_def)
  then show ?thesis unfolding Let_def ops_def [symmetric] run by simp
qed

end
