(* ===== verification/Safe_Storage.thy ===== *)
theory Safe_Storage
  imports Rust_String
begin

text \<open>
  Secrets: \<open>strake-electron-compat/src/safe_storage.rs\<close>.

  The keychain is an interface, with the recording keychain of the source as its model; the
  encrypted bytes cross the JavaScript boundary as base64 text.  A byte is an 8-bit word, a
  string the list of its UTF-8 bytes as characters.
\<close>

type_synonym byte = "8 word"

definition bytes_of :: "string \<Rightarrow> byte list" where
  "bytes_of s = map (\<lambda>c. word_of_nat (of_char c)) s"

definition string_of :: "byte list \<Rightarrow> string" where
  "string_of bs = map (\<lambda>b. char_of (unat b)) bs"

lemma string_of_bytes [simp]: "string_of (bytes_of s) = s"
proof -
  have "unat (word_of_nat (of_char c) :: byte) = of_char c" for c :: char
    using nat_of_char_less_256 [of c] by (simp add: unat_of_nat)
  then show ?thesis by (simp add: string_of_def bytes_of_def o_def)
qed

lemma bytes_of_string [simp]: "bytes_of (string_of bs) = bs"
proof -
  have "(word_of_nat (of_char (char_of (unat b) :: char)) :: byte) = b" for b
    using unsigned_less [of b, where ?'a = nat] by (simp add: take_bit_nat_eq_self)
  then show ?thesis by (simp add: string_of_def bytes_of_def o_def)
qed

text \<open>Well-formed UTF-8, the check of \<open>String::from_utf8\<close>.\<close>
definition continuation :: "byte \<Rightarrow> bool" where
  "continuation b \<longleftrightarrow> 0x80 \<le> b \<and> b \<le> 0xBF"

fun valid_utf8 :: "byte list \<Rightarrow> bool" where
  "valid_utf8 [] = True"
| "valid_utf8 (a # bs) =
    (if a < 0x80 then valid_utf8 bs
     else if 0xC2 \<le> a \<and> a \<le> 0xDF then (case bs of b # r \<Rightarrow> continuation b \<and> valid_utf8 r | _ \<Rightarrow> False)
     else if 0xE0 \<le> a \<and> a \<le> 0xEF then (case bs of b # c # r \<Rightarrow> continuation b \<and> continuation c
         \<and> (a = 0xE0 \<longrightarrow> 0xA0 \<le> b) \<and> (a = 0xED \<longrightarrow> b \<le> 0x9F) \<and> valid_utf8 r | _ \<Rightarrow> False)
     else if 0xF0 \<le> a \<and> a \<le> 0xF4 then (case bs of b # c # d # r \<Rightarrow> continuation b \<and> continuation c \<and> continuation d
         \<and> (a = 0xF0 \<longrightarrow> 0x90 \<le> b) \<and> (a = 0xF4 \<longrightarrow> b \<le> 0x8F) \<and> valid_utf8 r | _ \<Rightarrow> False)
     else False)"

section \<open>Base64\<close>

fun chunks :: "nat \<Rightarrow> 'a list \<Rightarrow> 'a list list" where
  "chunks n [] = []"
| "chunks n (x # xs) = take (Suc (n - 1)) (x # xs) # chunks n (drop (n - 1) xs)"

definition BASE64_ALPHABET :: string where
  "BASE64_ALPHABET = ''ABCDEFGHIJKLMNOPQRSTUVWXYZabcdefghijklmnopqrstuvwxyz0123456789+/''"

definition encode_chunk :: "byte list \<Rightarrow> string" where
  "encode_chunk chunk =
    (let word = (\<lambda>k. if k < length chunk then chunk ! k else 0);
         triple = (push_bit 16 (ucast (word 0)) OR push_bit 8 (ucast (word 1)) OR ucast (word 2) :: u32);
         chars = map (\<lambda>s. BASE64_ALPHABET ! unat (drop_bit s triple AND 63)) [18, 12, 6, 0];
         shown = (if length chunk = 1 then 2 else if length chunk = 2 then 3 else 4)
     in map (\<lambda>i. if i < shown then chars ! i else CHR ''='') [0..<4])"

definition encode_base64 :: "byte list \<Rightarrow> string" where
  "encode_base64 bytes = concat (map encode_chunk (chunks 3 bytes))"

definition decode_base64_char :: "char \<Rightarrow> u32 option" where
  "decode_base64_char c =
    (let b = of_char c :: nat in
     if 65 \<le> b \<and> b \<le> 90 then Some (word_of_nat (b - 65))
     else if 97 \<le> b \<and> b \<le> 122 then Some (word_of_nat (b - 97) + 26)
     else if 48 \<le> b \<and> b \<le> 57 then Some (word_of_nat (b - 48) + 52)
     else if b = 43 then Some 62
     else if b = 47 then Some 63
     else None)"

text \<open>The sextets of a chunk and its padding; a character after the padding is an error.\<close>
fun sextets_of :: "string \<Rightarrow> u32 list \<Rightarrow> nat \<Rightarrow> (u32 list \<times> nat) option" where
  "sextets_of [] acc padding = Some (acc, padding)"
| "sextets_of (c # cs) acc padding =
    (if c = CHR ''='' then sextets_of cs (acc @ [0]) (padding + 1)
     else if padding > 0 then None
     else do { s \<leftarrow> decode_base64_char c; sextets_of cs (acc @ [s]) padding })"

definition decode_chunk :: "string \<Rightarrow> byte list option" where
  "decode_chunk chunk = do {
     (sextets, padding) \<leftarrow> sextets_of chunk [] 0;
     if padding > 2 then None
     else (let triple = push_bit 18 (sextets ! 0) OR push_bit 12 (sextets ! 1) OR push_bit 6 (sextets ! 2) OR sextets ! 3
           in Some ([ucast (drop_bit 16 triple)] @ (if padding < 2 then [ucast (drop_bit 8 triple)] else [])
                @ (if padding < 1 then [ucast triple] else []))) }"

fun decode_chunks :: "string list \<Rightarrow> byte list option" where
  "decode_chunks [] = Some []"
| "decode_chunks (c # cs) = do { out \<leftarrow> decode_chunk c; rest \<leftarrow> decode_chunks cs; Some (out @ rest) }"

definition decode_base64 :: "string \<Rightarrow> byte list option" where
  "decode_base64 text = (if length text mod 4 \<noteq> 0 then None else decode_chunks (chunks 4 text))"

section \<open>The keychain and the storage\<close>

datatype safe_storage_error = BackendUnavailable | DecryptFailed

record 'k keychain =
  kc_available :: "'k \<Rightarrow> bool"
  kc_encrypt :: "byte list \<Rightarrow> 'k \<Rightarrow> (safe_storage_error + byte list) \<times> 'k"
  kc_decrypt :: "byte list \<Rightarrow> 'k \<Rightarrow> safe_storage_error + byte list"

definition RECORDING_PAD :: "byte list" where
  "RECORDING_PAD = bytes_of ''strake-recording-keychain-pad-v1''"

definition obfuscate :: "byte list \<Rightarrow> byte list" where
  "obfuscate bytes = map (\<lambda>(i, b). b XOR RECORDING_PAD ! (i mod length RECORDING_PAD)) (enumerate 0 bytes)"

text \<open>The recording keychain: its state is the list of sealed writes.\<close>
definition recording_keychain :: "byte list list keychain" where
  "recording_keychain = \<lparr> kc_available = (\<lambda>_. True),
     kc_encrypt = (\<lambda>plain writes. (let sealed = obfuscate plain in (Inr sealed, writes @ [sealed]))),
     kc_decrypt = (\<lambda>sealed _. Inr (obfuscate sealed)) \<rparr>"

definition is_encryption_available :: "'k keychain \<Rightarrow> 'k \<Rightarrow> bool" where
  "is_encryption_available kc k = kc_available kc k"

definition encrypt_string :: "'k keychain \<Rightarrow> string \<Rightarrow> 'k \<Rightarrow> (safe_storage_error + string) \<times> 'k" where
  "encrypt_string kc plain k = (if \<not> kc_available kc k then (Inl BackendUnavailable, k)
     else (case kc_encrypt kc (bytes_of plain) k of
         (Inl e, k1) \<Rightarrow> (Inl e, k1) | (Inr sealed, k1) \<Rightarrow> (Inr (encode_base64 sealed), k1)))"

definition decrypt_string :: "'k keychain \<Rightarrow> string \<Rightarrow> 'k \<Rightarrow> safe_storage_error + string" where
  "decrypt_string kc sealed64 k = (if \<not> kc_available kc k then Inl BackendUnavailable
     else (case decode_base64 sealed64 of
         None \<Rightarrow> Inl DecryptFailed
       | Some sealed \<Rightarrow> (case kc_decrypt kc sealed k of
           Inl e \<Rightarrow> Inl e
         | Inr plain \<Rightarrow> if valid_utf8 plain then Inr (string_of plain) else Inl DecryptFailed)))"

section \<open>Base64 round trips\<close>

lemma alphabet_table:
  "list_all (\<lambda>(k, c). decode_base64_char c = Some (word_of_nat k) \<and> c \<noteq> CHR ''='') (enumerate 0 BASE64_ALPHABET)"
  by (simp add: BASE64_ALPHABET_def decode_base64_char_def)

lemma alphabet_length: "length BASE64_ALPHABET = 64"
  by (simp add: BASE64_ALPHABET_def)

lemma alphabet_decodes: "k < 64 \<Longrightarrow> decode_base64_char (BASE64_ALPHABET ! k) = Some (word_of_nat k) \<and> BASE64_ALPHABET ! k \<noteq> CHR ''=''"
  using alphabet_table alphabet_length by (auto simp: list_all_length nth_enumerate_eq)

lemma and63: "(x :: u32) AND 63 = take_bit 6 x"
  by (simp add: take_bit_eq_mask mask_eq_exp_minus_1)

lemma letter [simp]:
  "decode_base64_char (BASE64_ALPHABET ! unat ((x :: u32) AND 63)) = Some (x AND 63)"
  "BASE64_ALPHABET ! unat (x AND 63) \<noteq> CHR ''=''"
proof -
  have "unat (x AND 63) < 64" unfolding and63 by (simp add: unsigned_take_bit_eq take_bit_nat_less_exp [of 6, simplified])
  from alphabet_decodes [OF this] show "decode_base64_char (BASE64_ALPHABET ! unat (x AND 63)) = Some (x AND 63)"
    "BASE64_ALPHABET ! unat (x AND 63) \<noteq> CHR ''=''" by simp_all
qed

text \<open>The four sextets of a triple, and the triple they make.\<close>
definition triple_of :: "byte \<Rightarrow> byte \<Rightarrow> byte \<Rightarrow> u32" where
  "triple_of a b c = push_bit 16 (ucast a) OR push_bit 8 (ucast b) OR ucast c"

definition letter_of :: "nat \<Rightarrow> u32 \<Rightarrow> char" where
  "letter_of s T = BASE64_ALPHABET ! unat (drop_bit s T AND 63)"

lemma upt4: "[0..<4] = [0, 1, 2, 3 :: nat]"
  by code_simp

lemma encode_chunk_simps:
  "encode_chunk [a] = [letter_of 18 (triple_of a 0 0), letter_of 12 (triple_of a 0 0), CHR ''='', CHR ''='']"
  "encode_chunk [a, b] = [letter_of 18 (triple_of a b 0), letter_of 12 (triple_of a b 0), letter_of 6 (triple_of a b 0), CHR ''='']"
  "encode_chunk [a, b, c] = [letter_of 18 (triple_of a b c), letter_of 12 (triple_of a b c), letter_of 6 (triple_of a b c), letter_of 0 (triple_of a b c)]"
  by (simp_all add: encode_chunk_def letter_of_def triple_of_def Let_def upt4)

lemma letter_of_simps [simp]:
  "decode_base64_char (letter_of s T) = Some (take_bit 6 (drop_bit s T))" "letter_of s T \<noteq> CHR ''=''"
  by (simp_all add: letter_of_def flip: and63)

lemma glue:
  fixes T :: u32
  shows "push_bit (n + m) (take_bit k (drop_bit (n + m) T)) OR push_bit n (take_bit m (drop_bit n T)) = push_bit n (take_bit (m + k) (drop_bit n T))"
  by (rule bit_word_eqI) (auto simp: bit_simps)

text \<open>The first two, three and four sextets.\<close>
lemma sextets:
  "push_bit 18 (take_bit 6 (drop_bit 18 T)) OR push_bit 12 (take_bit 6 (drop_bit 12 T)) = push_bit 12 (take_bit 12 (drop_bit 12 (T :: u32)))"
  "push_bit 12 (take_bit 12 (drop_bit 12 T)) OR push_bit 6 (take_bit 6 (drop_bit 6 T)) = push_bit 6 (take_bit 18 (drop_bit 6 T))"
  "push_bit 6 (take_bit 18 (drop_bit 6 T)) OR take_bit 6 T = take_bit 24 T"
  using glue [of 12 6 6 T] glue [of 6 6 12 T] glue [of 0 6 18 T] by simp_all

lemma first_byte: "(ucast (drop_bit 16 (push_bit 12 (take_bit 12 (drop_bit 12 (triple_of a b c))))) :: byte) = a"
  "(ucast (drop_bit 16 (push_bit 6 (take_bit 18 (drop_bit 6 (triple_of a b c))))) :: byte) = a"
  "(ucast (drop_bit 16 (take_bit 24 (triple_of a b c))) :: byte) = a"
  unfolding triple_of_def by (rule bit_word_eqI; auto simp: bit_simps dest: bit_imp_le_length)+

lemma second_byte: "(ucast (drop_bit 8 (push_bit 6 (take_bit 18 (drop_bit 6 (triple_of a b c))))) :: byte) = b"
  "(ucast (drop_bit 8 (take_bit 24 (triple_of a b c))) :: byte) = b"
  unfolding triple_of_def by (rule bit_word_eqI; auto simp: bit_simps dest: bit_imp_le_length)+

lemma third_byte: "(ucast (take_bit 24 (triple_of a b c)) :: byte) = c"
  unfolding triple_of_def by (rule bit_word_eqI; auto simp: bit_simps dest: bit_imp_le_length)+

text \<open>Every chunk comes back.\<close>
lemma decode_encode_chunk:
  assumes "chunk \<noteq> []" "length chunk \<le> 3"
  shows "decode_chunk (encode_chunk chunk) = Some chunk"
proof -
  consider a where "chunk = [a]" | a b where "chunk = [a, b]" | a b c where "chunk = [a, b, c]"
    using assms by (cases chunk; cases "tl chunk"; cases "tl (tl chunk)") auto
  then show ?thesis
  proof cases
    case 1
    then show ?thesis
      by (simp add: encode_chunk_simps decode_chunk_def Let_def sextets(1) first_byte(1))
  next
    case 2
    then show ?thesis
      by (simp add: encode_chunk_simps decode_chunk_def Let_def sextets(1,2) first_byte(2) second_byte(1) flip: or.assoc)
  next
    case 3
    then show ?thesis
      by (simp add: encode_chunk_simps decode_chunk_def Let_def sextets first_byte(3) second_byte(2) third_byte flip: or.assoc)
  qed
qed

lemma encode_chunk_shape:
  "length (encode_chunk chunk) = 4" "set (encode_chunk chunk) \<subseteq> insert (CHR ''='') (set BASE64_ALPHABET)"
proof -
  have "BASE64_ALPHABET ! unat (x AND 63) \<in> set BASE64_ALPHABET" for x :: u32
  proof -
    have "unat (x AND 63) < 64" unfolding and63 by (simp add: unsigned_take_bit_eq take_bit_nat_less_exp [of 6, simplified])
    then show ?thesis using alphabet_length by simp
  qed
  then show "length (encode_chunk chunk) = 4" "set (encode_chunk chunk) \<subseteq> insert (CHR ''='') (set BASE64_ALPHABET)"
    by (auto simp: encode_chunk_def Let_def upt4)
qed

lemma chunks3: "chunk \<in> set (chunks 3 bs) \<Longrightarrow> chunk \<noteq> [] \<and> length chunk \<le> 3"
  by (induction "3 :: nat" bs rule: chunks.induct) auto

lemma concat_chunks3: "concat (chunks 3 bs) = bs"
  by (induction "3 :: nat" bs rule: chunks.induct) auto

lemma chunks4: "\<forall>t\<in>set ts. length t = 4 \<Longrightarrow> chunks 4 (concat ts) = ts"
proof (induction ts)
  case (Cons t ts)
  then obtain a b c d where "t = [a, b, c, d]" by (auto simp: length_Suc_conv eval_nat_numeral)
  with Cons show ?case by simp
qed simp

lemma decode_chunks_Some: "\<forall>t\<in>set ts. decode_chunk (f t) = Some t \<Longrightarrow> decode_chunks (map f ts) = Some (concat ts)"
  by (induction ts) auto

lemma encode_shape: "length (encode_base64 bs) mod 4 = 0" "set (encode_base64 bs) \<subseteq> insert (CHR ''='') (set BASE64_ALPHABET)"
proof -
  show "length (encode_base64 bs) mod 4 = 0"
    unfolding encode_base64_def by (induction "chunks 3 bs" arbitrary: bs) (auto simp: encode_chunk_shape length_concat o_def sum_list_triv)
  show "set (encode_base64 bs) \<subseteq> insert (CHR ''='') (set BASE64_ALPHABET)"
    using encode_chunk_shape(2) by (fastforce simp: encode_base64_def)
qed

lemma decode_encode: "decode_base64 (encode_base64 bs) = Some bs"
proof -
  let ?ts = "map encode_chunk (chunks 3 bs)"
  have len: "\<forall>t\<in>set ?ts. length t = 4" by (auto simp: encode_chunk_shape)
  have "length (concat ?ts) mod 4 = 0" using encode_shape(1) [of bs] by (simp add: encode_base64_def)
  moreover have "decode_chunks ?ts = Some (concat (chunks 3 bs))"
    using chunks3 decode_encode_chunk by (intro decode_chunks_Some) blast
  ultimately show ?thesis
    by (simp add: decode_base64_def encode_base64_def chunks4 [OF len] concat_chunks3)
qed

section \<open>The keychain contract\<close>

text \<open>What the storage relies on: opening what was sealed gives the plain bytes, at any later
  time.\<close>
locale sealing =
  fixes kc :: "'k keychain"
  assumes opens: "kc_encrypt kc plain k = (Inr sealed, k1) \<Longrightarrow> kc_decrypt kc sealed k2 = Inr plain"

context sealing
begin

lemma round_trip:
  assumes "encrypt_string kc s k = (Inr t, k1)" "kc_available kc k2" "valid_utf8 (bytes_of s)"
  shows "decrypt_string kc t k2 = Inr s"
proof -
  obtain sealed where "kc_encrypt kc (bytes_of s) k = (Inr sealed, k1)" "t = encode_base64 sealed"
    using assms(1) by (auto simp: encrypt_string_def split: if_splits prod.splits sum.splits)
  with opens [of "bytes_of s" k sealed k1 k2] assms(2,3) show ?thesis by (simp add: decrypt_string_def decode_encode)
qed

end

lemma obfuscate_nth: "i < length bs \<Longrightarrow> obfuscate bs ! i = bs ! i XOR RECORDING_PAD ! (i mod length RECORDING_PAD)"
  by (simp add: obfuscate_def nth_enumerate_eq)

lemma obfuscate_twice: "obfuscate (obfuscate bs) = bs"
proof (rule nth_equalityI)
  have len: "length (obfuscate cs) = length cs" for cs by (simp add: obfuscate_def)
  then show "length (obfuscate (obfuscate bs)) = length bs" by simp
  fix i assume "i < length (obfuscate (obfuscate bs))"
  then show "obfuscate (obfuscate bs) ! i = bs ! i" by (simp add: obfuscate_nth len xor.assoc)
qed

interpretation recording: sealing recording_keychain
  by unfold_locales (auto simp: recording_keychain_def obfuscate_twice Let_def)

section \<open>Properties\<close>

text \<open>C18. Decrypting gives back what was encrypted.  For every keychain that opens what it
  sealed, a string that was encrypted at one time decrypts to itself at any later time at
  which the keychain is available; the ciphertext that crosses the boundary is base64 text, a
  multiple of four characters of the alphabet and padding; and decoding the base64 text of any
  bytes gives these bytes.\<close>
theorem safe_storage_round_trip:
  assumes "\<And>plain j sealed j1 j2. kc_encrypt kc plain j = (Inr sealed, j1) \<Longrightarrow> kc_decrypt kc sealed j2 = Inr plain"
    and "encrypt_string kc s k = (Inr t, k1)" "kc_available kc k2" "valid_utf8 (bytes_of s)"
  shows "decrypt_string kc t k2 = Inr s \<and> length t mod 4 = 0 \<and> set t \<subseteq> insert (CHR ''='') (set BASE64_ALPHABET)
    \<and> decode_base64 (encode_base64 bs) = Some bs"
proof -
  have "decrypt_string kc t k2 = Inr s"
    using assms(1) by (intro sealing.round_trip [OF _ assms(2-4)]) (simp add: sealing_def)
  moreover obtain sealed where "t = encode_base64 sealed"
    using assms(2) by (auto simp: encrypt_string_def split: if_splits prod.splits sum.splits)
  ultimately show ?thesis using encode_shape decode_encode by simp
qed

theorem safe_storage_round_trip_witness:
  "\<exists>t k1. encrypt_string recording_keychain ''secret'' [] = (Inr t, k1)
     \<and> decrypt_string recording_keychain t [] = Inr ''secret'' \<and> length t mod 4 = 0"
proof -
  obtain t k1 where e: "encrypt_string recording_keychain ''secret'' [] = (Inr t, k1)"
    by (auto simp: encrypt_string_def recording_keychain_def Let_def)
  have "valid_utf8 (bytes_of ''secret'')" by (simp add: bytes_of_def)
  then have "decrypt_string recording_keychain t [] = Inr ''secret'' \<and> length t mod 4 = 0
      \<and> set t \<subseteq> insert (CHR ''='') (set BASE64_ALPHABET) \<and> decode_base64 (encode_base64 []) = Some []"
    by (intro safe_storage_round_trip [OF _ e]) (auto intro: recording.opens simp: recording_keychain_def Let_def obfuscate_twice)
  with e show ?thesis by (intro exI [of _ t] exI [of _ k1]) simp
qed

end
