(* ===== verification/Updater.thy ===== *)
theory Updater
  imports Rust_String "HOL-Library.Char_ord" "HOL-Library.List_Lexorder" "HOL-Library.Product_Lexorder"
begin

text \<open>
  The update client: \<open>strake-electron-compat/src/updater.rs\<close>.

  Versions and their order, the manifest and the choice of an artifact.  The JSON library is a
  parameter record.  A string compares by its bytes, as the standard library does.
\<close>

section \<open>Versions\<close>

record version =
  release :: "u64 list"
  pre :: "string option"

text \<open>\<open>split_once\<close>.\<close>
definition split_once :: "char \<Rightarrow> string \<Rightarrow> (string \<times> string) option" where
  "split_once c s = (case index_of c s of None \<Rightarrow> None | Some k \<Rightarrow> Some (take k s, drop (Suc k) s))"

fun parse_parts :: "string list \<Rightarrow> u64 list option" where
  "parse_parts [] = Some []"
| "parse_parts (p # ps) = do { n \<leftarrow> parse_u64 p; ns \<leftarrow> parse_parts ps; Some (n # ns) }"

definition version_parse :: "string \<Rightarrow> version option" where
  "version_parse text0 =
    (let text1 = (case strip_prefix text0 ''v'' of Some r \<Rightarrow> r | None \<Rightarrow> text0);
         text2 = hd (split_on (CHR ''+'') text1);
         (core, p) = (case split_once (CHR ''-'') text2 of Some (c, p) \<Rightarrow> (c, Some p) | None \<Rightarrow> (text2, None))
     in if core = [] then None
        else map_option (\<lambda>rel. \<lparr> release = rel, pre = p \<rparr>) (parse_parts (split_on (CHR ''.'') core)))"

text \<open>The loop over the release components, where a missing one counts as zero.\<close>
fun compare_release :: "u64 list \<Rightarrow> u64 list \<Rightarrow> ordering" where
  "compare_release [] [] = Equal"
| "compare_release (x # xs) [] = ordering_then (cmp_of x 0) (compare_release xs [])"
| "compare_release [] (y # ys) = ordering_then (cmp_of 0 y) (compare_release [] ys)"
| "compare_release (x # xs) (y # ys) = ordering_then (cmp_of x y) (compare_release xs ys)"

definition numeric :: "string \<Rightarrow> bool" where
  "numeric s \<longleftrightarrow> s \<noteq> [] \<and> list_all is_ascii_digit s"

definition compare_identifier :: "string \<Rightarrow> string \<Rightarrow> ordering" where
  "compare_identifier l r = (case (numeric l, numeric r) of
     (True, True) \<Rightarrow> ordering_then (cmp_of (length l) (length r)) (cmp_of l r)
   | (True, False) \<Rightarrow> Less
   | (False, True) \<Rightarrow> Greater
   | (False, False) \<Rightarrow> cmp_of l r)"

fun compare_identifiers :: "string list \<Rightarrow> string list \<Rightarrow> ordering" where
  "compare_identifiers [] [] = Equal"
| "compare_identifiers [] (r # rs) = Less"
| "compare_identifiers (l # ls) [] = Greater"
| "compare_identifiers (l # ls) (r # rs) = ordering_then (compare_identifier l r) (compare_identifiers ls rs)"

definition compare_prerelease :: "string \<Rightarrow> string \<Rightarrow> ordering" where
  "compare_prerelease l r = compare_identifiers (split_on (CHR ''.'') l) (split_on (CHR ''.'') r)"

definition version_compare :: "version \<Rightarrow> version \<Rightarrow> ordering" where
  "version_compare v w = ordering_then (compare_release (release v) (release w))
     (case (pre v, pre w) of
        (None, None) \<Rightarrow> Equal
      | (None, Some _) \<Rightarrow> Greater
      | (Some _, None) \<Rightarrow> Less
      | (Some l, Some r) \<Rightarrow> compare_prerelease l r)"

section \<open>The manifest\<close>

record artifact =
  platform :: string
  arch :: string
  art_url :: string
  sha256 :: string
  signature :: "string option"
  delta_from :: "version option"

record update_manifest =
  manifest_version :: version
  channel :: string
  artifacts :: "artifact list"

datatype manifest_error = InvalidShape string | BadVersion string

text \<open>\<open>serde_json\<close>.\<close>
record 'j json =
  json_parse :: "string \<Rightarrow> string + 'j"
  json_get :: "'j \<Rightarrow> string \<Rightarrow> 'j option"
  json_str :: "'j \<Rightarrow> string option"
  json_array :: "'j \<Rightarrow> 'j list option"

definition json_string_at :: "'j json \<Rightarrow> 'j \<Rightarrow> string \<Rightarrow> string option" where
  "json_string_at js v name = Option.bind (json_get js v name) (json_str js)"

definition string_field :: "'j json \<Rightarrow> 'j \<Rightarrow> string \<Rightarrow> manifest_error + string" where
  "string_field js v name = (case json_string_at js v name of
     Some s \<Rightarrow> Inr s | None \<Rightarrow> Inl (InvalidShape (''missing string field '' @ [CHR 0x27] @ name @ [CHR 0x27])))"

definition is_ascii_hexdigit :: "char \<Rightarrow> bool" where
  "is_ascii_hexdigit c = (let k = of_char c :: nat in 48 \<le> k \<and> k \<le> 57 \<or> 65 \<le> k \<and> k \<le> 70 \<or> 97 \<le> k \<and> k \<le> 102)"

definition sha256_field :: "'j json \<Rightarrow> 'j \<Rightarrow> manifest_error + string" where
  "sha256_field js v = (case string_field js v ''sha256'' of
     Inl e \<Rightarrow> Inl e
   | Inr digest \<Rightarrow> if length digest = 64 \<and> list_all is_ascii_hexdigit digest then Inr digest
       else Inl (InvalidShape (''invalid sha256 digest '' @ [CHR 0x27] @ digest @ [CHR 0x27])))"

abbreviation and_then :: "'e + 'a \<Rightarrow> ('a \<Rightarrow> 'e + 'b) \<Rightarrow> 'e + 'b" where
  "and_then r f \<equiv> (case r of Inl e \<Rightarrow> Inl e | Inr x \<Rightarrow> f x)"

definition parse_artifact :: "'j json \<Rightarrow> 'j \<Rightarrow> manifest_error + artifact" where
  "parse_artifact js file =
    and_then (case json_string_at js file ''deltaFrom'' of
        None \<Rightarrow> Inr None
      | Some t \<Rightarrow> (case version_parse t of Some v \<Rightarrow> Inr (Some v) | None \<Rightarrow> Inl (BadVersion t))) (\<lambda>df.
    and_then (string_field js file ''platform'') (\<lambda>p.
    and_then (string_field js file ''arch'') (\<lambda>a.
    and_then (string_field js file ''url'') (\<lambda>u.
    and_then (sha256_field js file) (\<lambda>h.
      Inr \<lparr> platform = p, arch = a, art_url = u, sha256 = h,
            signature = json_string_at js file ''signature'', delta_from = df \<rparr>)))))"

fun parse_artifacts :: "'j json \<Rightarrow> 'j list \<Rightarrow> manifest_error + artifact list" where
  "parse_artifacts js [] = Inr []"
| "parse_artifacts js (f # fs) = and_then (parse_artifact js f) (\<lambda>a. and_then (parse_artifacts js fs) (\<lambda>as. Inr (a # as)))"

definition manifest_parse :: "'j json \<Rightarrow> string \<Rightarrow> manifest_error + update_manifest" where
  "manifest_parse js t =
    (case json_parse js t of
       Inl e \<Rightarrow> Inl (InvalidShape e)
     | Inr j \<Rightarrow>
        and_then (string_field js j ''version'') (\<lambda>vt.
        (case version_parse vt of None \<Rightarrow> Inl (BadVersion vt)
         | Some v \<Rightarrow>
            (let ch = (case json_string_at js j ''channel'' of Some c \<Rightarrow> c | None \<Rightarrow> ''stable'') in
             (case Option.bind (json_get js j ''files'') (json_array js) of
                None \<Rightarrow> Inl (InvalidShape (''missing '' @ [CHR 0x27] @ ''files'' @ [CHR 0x27] @ '' array''))
              | Some files \<Rightarrow> and_then (parse_artifacts js files) (\<lambda>as.
                  Inr \<lparr> manifest_version = v, channel = ch, artifacts = as \<rparr>))))))"

definition has_update_for :: "version \<Rightarrow> update_manifest \<Rightarrow> bool" where
  "has_update_for current m \<longleftrightarrow> version_compare (manifest_version m) current = Greater"

definition select :: "version \<Rightarrow> string \<Rightarrow> string \<Rightarrow> update_manifest \<Rightarrow> artifact option" where
  "select current p a m = (if \<not> has_update_for current m then None
     else (let candidates = filter (\<lambda>x. platform x = p \<and> arch x = a) (artifacts m) in
       (case List.find (\<lambda>x. case delta_from x of Some from1 \<Rightarrow> version_compare from1 current = Equal | None \<Rightarrow> False) candidates of
          Some x \<Rightarrow> Some x
        | None \<Rightarrow> List.find (\<lambda>x. delta_from x = None) candidates)))"

section \<open>The order of versions\<close>

text \<open>A version as a key of a linear order: the release without trailing zeros, then whether it
  is final, then the identifiers, the numeric ones first, by length and then by text.\<close>
type_synonym identifier_key = "nat \<times> nat \<times> string"
type_synonym version_key = "u64 list \<times> nat \<times> identifier_key list"

definition strip_zeros :: "u64 list \<Rightarrow> u64 list" where
  "strip_zeros xs = rev (dropWhile (\<lambda>x. x = 0) (rev xs))"

definition identifier_key :: "string \<Rightarrow> identifier_key" where
  "identifier_key s = (if numeric s then (0, length s, s) else (1, 0, s))"

definition version_key :: "version \<Rightarrow> version_key" where
  "version_key v = (strip_zeros (release v), case pre v of None \<Rightarrow> (1, [])
     | Some p \<Rightarrow> (0, map identifier_key (split_on (CHR ''.'') p)))"

lemma strip_zeros_simps [simp]:
  "strip_zeros [] = []" "strip_zeros (x # xs) = (if x = 0 \<and> strip_zeros xs = [] then [] else x # strip_zeros xs)"
  by (auto simp: strip_zeros_def dropWhile_append)

lemma cmp_of_Nil: "cmp_of [] ys = (if ys = [] then Equal else Less)" "cmp_of xs [] = (if xs = [] then Equal else Greater)"
  by (cases ys; simp add: cmp_of_def) (cases xs; simp add: cmp_of_def)

lemma cmp_of_Cons: "cmp_of (x # xs) (y # ys) = ordering_then (cmp_of x y) (cmp_of xs (ys :: 'a::linorder list))"
  by (auto simp: cmp_of_def)

lemma cmp_of_Pair: "cmp_of (a, b) (c, d) = ordering_then (cmp_of a c) (cmp_of b (d :: 'a::linorder))"
  by (auto simp: cmp_of_def)

lemma cmp_zero: "cmp_of (0 :: u64) y = (if y = 0 then Equal else Less)" "cmp_of x (0 :: u64) = (if x = 0 then Equal else Greater)"
  by (auto simp: cmp_of_def word_neq_0_conv)

lemma compare_release_key: "compare_release xs ys = cmp_of (strip_zeros xs) (strip_zeros ys)"
proof (induction xs ys rule: compare_release.induct)
  case (4 x xs y ys)
  then show ?case by (auto simp: cmp_of_Cons cmp_of_Nil cmp_zero)
qed (auto simp: cmp_of_Nil cmp_zero)

lemma compare_identifier_key: "compare_identifier l r = cmp_of (identifier_key l) (identifier_key r)"
  by (auto simp: compare_identifier_def identifier_key_def cmp_of_Pair cmp_of_def)

lemma compare_identifiers_key: "compare_identifiers ls rs = cmp_of (map identifier_key ls) (map identifier_key rs)"
  by (induction ls rs rule: compare_identifiers.induct) (simp_all add: cmp_of_Nil cmp_of_Cons compare_identifier_key)

lemma version_compare_key: "version_compare v w = cmp_of (version_key v) (version_key w)"
  by (simp add: version_compare_def version_key_def cmp_of_Pair compare_release_key compare_prerelease_def
      compare_identifiers_key cmp_of_def split: option.split)

lemma cmp_of_transfer:
  "cmp_of a b = Equal \<longleftrightarrow> a = b" "cmp_of a b = Greater \<longleftrightarrow> b < a" "cmp_of a b = Less \<longleftrightarrow> a < b"
  for a b :: version_key
  by simp_all

lemma find_filter: "List.find P (filter Q xs) = List.find (\<lambda>x. Q x \<and> P x) xs"
  by (induction xs) auto

lemma find_cong: "(\<And>x. x \<in> set xs \<Longrightarrow> P x = Q x) \<Longrightarrow> List.find P xs = List.find Q xs"
  by (induction xs) auto

text \<open>A delta for the running version, and what the updater may choose for a target.\<close>
definition applicable :: "version \<Rightarrow> artifact \<Rightarrow> bool" where
  "applicable current x \<longleftrightarrow> (\<exists>v. delta_from x = Some v \<and> version_key v = version_key current)"

definition eligible :: "version \<Rightarrow> string \<Rightarrow> string \<Rightarrow> update_manifest \<Rightarrow> artifact \<Rightarrow> bool" where
  "eligible current p a m x \<longleftrightarrow> platform x = p \<and> arch x = a \<and>
     (if \<exists>y\<in>set (artifacts m). platform y = p \<and> arch y = a \<and> applicable current y
      then applicable current x else delta_from x = None)"

lemma select_first_eligible:
  "select current p a m = (if version_key current < version_key (manifest_version m)
     then List.find (eligible current p a m) (artifacts m) else None)"
proof -
  let ?T = "\<lambda>x. platform x = p \<and> arch x = a"
  have ap: "(case delta_from x of Some v \<Rightarrow> version_compare v current = Equal | None \<Rightarrow> False) \<longleftrightarrow> applicable current x" for x
    by (cases "delta_from x") (simp_all add: applicable_def version_compare_key)
  have up: "has_update_for current m \<longleftrightarrow> version_key current < version_key (manifest_version m)"
    by (simp add: has_update_for_def version_compare_key)
  have sel: "select current p a m = (if \<not> has_update_for current m then None
     else (case List.find (\<lambda>x. ?T x \<and> applicable current x) (artifacts m) of Some x \<Rightarrow> Some x
       | None \<Rightarrow> List.find (\<lambda>x. ?T x \<and> delta_from x = None) (artifacts m)))"
    unfolding select_def Let_def find_filter ap ..
  show ?thesis
  proof (cases "\<exists>y\<in>set (artifacts m). ?T y \<and> applicable current y")
    case True
    then have "List.find (\<lambda>x. ?T x \<and> applicable current x) (artifacts m) \<noteq> None" by (auto simp: find_None_iff)
    moreover have "List.find (eligible current p a m) (artifacts m) = List.find (\<lambda>x. ?T x \<and> applicable current x) (artifacts m)"
      using True by (intro find_cong) (auto simp: eligible_def)
    ultimately show ?thesis by (auto simp: sel up)
  next
    case False
    then have "List.find (\<lambda>x. ?T x \<and> applicable current x) (artifacts m) = None" by (auto simp: find_None_iff)
    moreover have "List.find (eligible current p a m) (artifacts m) = List.find (\<lambda>x. ?T x \<and> delta_from x = None) (artifacts m)"
      using False by (intro find_cong) (auto simp: eligible_def)
    ultimately show ?thesis by (simp add: sel up)
  qed
qed

section \<open>Where the order is not that of semantic versions\<close>

text \<open>Identifiers of digits are compared by length first, so leading zeros count.\<close>
lemma leading_zeros_count:
  "version_compare (the (version_parse ''1.0.0-rc.010'')) (the (version_parse ''1.0.0-rc.9'')) = Greater"
  "version_compare (the (version_parse ''1.0.0-rc.01'')) (the (version_parse ''1.0.0-rc.2'')) = Greater"
  unfolding version_compare_key by code_simp+

section \<open>Properties\<close>

text \<open>C19. Versions are compared by a linear order on keys (the release without trailing zeros, a
  final version above its prereleases, and the identifiers of a prerelease in order, numeric
  ones first), so the comparison is reflexive, antisymmetric and transitive and never panics;
  and the update client offers an artifact exactly when the manifest is newer in that order,
  never a downgrade or the running version: the first artifact for the platform and
  architecture that is a delta from the running version if there is one, otherwise the first
  full installer.\<close>
theorem update_selection:
  "version_compare v w = cmp_of (version_key v) (version_key w)
   \<and> select current p a m = (if version_key current < version_key (manifest_version m)
       then List.find (eligible current p a m) (artifacts m) else None)"
  by (simp add: version_compare_key select_first_eligible)

end
