(* ===== verification/Menus.thy ===== *)
theory Menus
  imports Rust_String
begin

text \<open>
  Menu templates: \<open>strake-electron-compat/src/menu.rs\<close>.

  Accelerators and their parser, item templates and the recursive validation that builds a
  template.
\<close>

section \<open>Accelerators\<close>

datatype menu_role = About | Hide | QuitRole | Undo | Cut | Services | MinimizeRole

datatype modifier = CommandOrControl | Control | Alt | Shift | Super

record accelerator =
  modifiers :: "modifier list"
  key :: string

datatype accelerator_error = Empty | UnknownModifier string

definition modifier_token :: "string \<Rightarrow> modifier option" where
  "modifier_token token = (let t = to_ascii_lowercase token in
     if t = ''commandorcontrol'' \<or> t = ''cmdorctrl'' then Some CommandOrControl
     else if t = ''control'' \<or> t = ''ctrl'' then Some Control
     else if t = ''alt'' \<or> t = ''option'' then Some Alt
     else if t = ''shift'' then Some Shift
     else if t = ''super'' \<or> t = ''meta'' \<or> t = ''command'' \<or> t = ''cmd'' then Some Super
     else None)"

text \<open>The loop over the tokens before the last.\<close>
fun collect_modifiers :: "string list \<Rightarrow> modifier list \<Rightarrow> accelerator_error + modifier list" where
  "collect_modifiers [] ms = Inr ms"
| "collect_modifiers (t # ts) ms = (case modifier_token t of
     Some m \<Rightarrow> collect_modifiers ts (if m \<in> set ms then ms else ms @ [m])
   | None \<Rightarrow> Inl (UnknownModifier t))"

definition accelerator_tokens :: "string \<Rightarrow> string list" where
  "accelerator_tokens text1 = filter (\<lambda>t. t \<noteq> []) (map trim (split_on (CHR ''+'') text1))"

definition parse_accelerator :: "string \<Rightarrow> accelerator_error + accelerator" where
  "parse_accelerator text1 = (let tokens = accelerator_tokens text1 in
     if tokens = [] then Inl Empty
     else (case collect_modifiers (butlast tokens) [] of
         Inl e \<Rightarrow> Inl e
       | Inr ms \<Rightarrow> if modifier_token (last tokens) \<noteq> None then Inl Empty
           else Inr \<lparr> modifiers = ms, key = last tokens \<rparr>))"

section \<open>Templates\<close>

datatype menu_item_type = Normal | Separator | Submenu | Checkbox | Radio

datatype menu_item = MenuItem
  (item_id: "string option") (item_type: menu_item_type) (label: "string option") (role: "menu_role option")
  (accel: "string option") (click: "string option") (enabled: bool) (visible: bool) (checked: bool)
  (submenu: "menu_item list")

definition item_separator :: menu_item where
  "item_separator = MenuItem None Separator None None None None True True False []"

definition item_labeled :: "string \<Rightarrow> menu_item" where
  "item_labeled l = MenuItem None Normal (Some l) None None None True True False []"

datatype menu_error = Unlabeled string | DuplicateId string | BadAccelerator string accelerator_error

text \<open>The checks on one item, before its children: the set of ids seen, or the error.\<close>
definition check_item :: "menu_item \<Rightarrow> string \<Rightarrow> string set \<Rightarrow> menu_error + string set" where
  "check_item item wh seen = (case item_id item of
     Some i \<Rightarrow> if i \<in> seen then Inl (DuplicateId i) else Inr (insert i seen)
   | None \<Rightarrow> Inr seen)"

definition check_label :: "menu_item \<Rightarrow> string \<Rightarrow> menu_error + unit" where
  "check_label item wh = (if item_type item \<noteq> Separator \<and> label item = None \<and> role item = None \<and> submenu item = []
     then Inl (Unlabeled wh) else Inr ())"

definition check_accelerator :: "menu_item \<Rightarrow> string \<Rightarrow> menu_error + unit" where
  "check_accelerator item wh = (case accel item of None \<Rightarrow> Inr ()
     | Some a \<Rightarrow> (case parse_accelerator a of Inl e \<Rightarrow> Inl (BadAccelerator wh e) | Inr _ \<Rightarrow> Inr ()))"

fun validate_item :: "menu_item \<Rightarrow> string \<Rightarrow> string set \<Rightarrow> menu_error + string set"
  and validate_children :: "menu_item list \<Rightarrow> string \<Rightarrow> nat \<Rightarrow> string set \<Rightarrow> menu_error + string set" where
  "validate_item (MenuItem i ty l r a c en vis ch sub) wh seen =
    (let item = MenuItem i ty l r a c en vis ch sub in
     (case check_item item wh seen of Inl e \<Rightarrow> Inl e
      | Inr seen1 \<Rightarrow> (case check_label item wh of Inl e \<Rightarrow> Inl e
        | Inr _ \<Rightarrow> (case check_accelerator item wh of Inl e \<Rightarrow> Inl e
          | Inr _ \<Rightarrow> validate_children sub wh 0 seen1))))"
| "validate_children [] wh n seen = Inr seen"
| "validate_children (c # cs) wh n seen = (case validate_item c (wh @ '' > child '' @ decimal n) seen of
     Inl e \<Rightarrow> Inl e | Inr seen1 \<Rightarrow> validate_children cs wh (Suc n) seen1)"

fun validate_top :: "menu_item list \<Rightarrow> nat \<Rightarrow> string set \<Rightarrow> menu_error + string set" where
  "validate_top [] n seen = Inr seen"
| "validate_top (c # cs) n seen = (case validate_item c (''at index '' @ decimal n) seen of
     Inl e \<Rightarrow> Inl e | Inr seen1 \<Rightarrow> validate_top cs (Suc n) seen1)"

datatype menu_template = MenuTemplate "menu_item list"

definition template_build :: "menu_item list \<Rightarrow> menu_error + menu_template" where
  "template_build items = (case validate_top items 0 {} of Inl e \<Rightarrow> Inl e | Inr _ \<Rightarrow> Inr (MenuTemplate items))"

section \<open>What a parsed accelerator is\<close>

definition accelerator_ok :: "accelerator \<Rightarrow> bool" where
  "accelerator_ok a \<longleftrightarrow> distinct (modifiers a) \<and> key a \<noteq> [] \<and> modifier_token (key a) = None \<and> CHR ''+'' \<notin> set (key a)"

lemma collect_modifiers_ok:
  "collect_modifiers ts ms = Inr ms' \<Longrightarrow> distinct ms \<Longrightarrow>
   distinct ms' \<and> set ms' = set ms \<union> {m. \<exists>t\<in>set ts. modifier_token t = Some m} \<and> (\<forall>t\<in>set ts. modifier_token t \<noteq> None)"
proof (induction ts ms rule: collect_modifiers.induct)
  case (2 t ts ms)
  then show ?case by (auto split: option.splits if_splits)
qed simp

lemma trim_set: "set (trim s) \<subseteq> set s"
proof -
  have st: "set (trim_start s) \<subseteq> set s" for s
  proof (induction s rule: trim_start.induct)
    case (1 s)
    then show ?case by (subst trim_start.simps) (auto dest: in_set_dropD split: if_splits)
  qed
  moreover have "set (trim_end s) \<subseteq> set s" for s
  proof (induction s rule: trim_end.induct)
    case (1 s)
    then show ?case by (subst trim_end.simps) (auto dest: in_set_takeD split: if_splits)
  qed
  ultimately show ?thesis unfolding trim_def by blast
qed

lemma parse_accelerator_ok:
  assumes "parse_accelerator text1 = Inr a" shows "accelerator_ok a"
proof -
  let ?ts = "accelerator_tokens text1"
  obtain ms where p: "?ts \<noteq> []" "collect_modifiers (butlast ?ts) [] = Inr ms" "modifier_token (last ?ts) = None"
      "a = \<lparr> modifiers = ms, key = last ?ts \<rparr>"
    using assms by (auto simp: parse_accelerator_def Let_def split: if_splits sum.splits)
  have "last ?ts \<in> set ?ts" using p(1) by simp
  then obtain q where "last ?ts \<noteq> []" "q \<in> set (split_on (CHR ''+'') text1)" "last ?ts = trim q"
    by (auto simp: accelerator_tokens_def)
  moreover then have "CHR ''+'' \<notin> set (last ?ts)" using trim_set [of q] split_on_clean by auto
  ultimately show ?thesis using p collect_modifiers_ok [OF p(2)] by (simp add: accelerator_ok_def)
qed

section \<open>Validation\<close>

fun all_items :: "menu_item \<Rightarrow> menu_item list" where
  "all_items (MenuItem i ty l r a c en vis ch sub) = MenuItem i ty l r a c en vis ch sub # concat (map all_items sub)"

definition ids_of :: "menu_item list \<Rightarrow> string list" where
  "ids_of items = List.map_filter item_id items"

text \<open>An item on its own: named or a separator, and its accelerator names a key.\<close>
definition item_ok :: "menu_item \<Rightarrow> bool" where
  "item_ok item \<longleftrightarrow> (item_type item = Separator \<or> label item \<noteq> None \<or> role item \<noteq> None \<or> submenu item \<noteq> [])
     \<and> (\<forall>a. accel item = Some a \<longrightarrow> (\<exists>acc. parse_accelerator a = Inr acc))"

lemma ids_of_simps [simp]: "ids_of [] = []" "ids_of (xs @ ys) = ids_of xs @ ids_of ys"
  "ids_of (x # xs) = (case item_id x of None \<Rightarrow> ids_of xs | Some i \<Rightarrow> i # ids_of xs)"
  by (simp_all add: ids_of_def List.map_filter_def split: option.split)

definition accepts :: "menu_item list \<Rightarrow> string set \<Rightarrow> menu_error + string set \<Rightarrow> bool" where
  "accepts items seen r \<longleftrightarrow> (\<forall>s. r = Inr s \<longleftrightarrow> (\<forall>x\<in>set items. item_ok x) \<and> distinct (ids_of items)
     \<and> set (ids_of items) \<inter> seen = {} \<and> s = seen \<union> set (ids_of items))"

lemma accepts_seq:
  assumes "accepts xs seen r" "\<And>s1. r = Inr s1 \<Longrightarrow> accepts ys s1 (f s1)"
  shows "accepts (xs @ ys) seen (case r of Inl e \<Rightarrow> Inl e | Inr s1 \<Rightarrow> f s1)"
proof (cases r)
  case (Inl e)
  then show ?thesis using assms(1) by (auto simp: accepts_def)
next
  case (Inr s1)
  have xs: "\<forall>x\<in>set xs. item_ok x" "distinct (ids_of xs)" "set (ids_of xs) \<inter> seen = {}" "s1 = seen \<union> set (ids_of xs)"
    using assms(1) [unfolded accepts_def, rule_format, of s1] Inr by simp_all
  have "f s1 = Inr s \<longleftrightarrow> (\<forall>x\<in>set ys. item_ok x) \<and> distinct (ids_of ys) \<and> set (ids_of ys) \<inter> s1 = {} \<and> s = s1 \<union> set (ids_of ys)" for s
    using assms(2) [OF Inr] unfolding accepts_def by blast
  then show ?thesis unfolding accepts_def Inr using xs by (simp add: Int_Un_distrib Int_commute Un_assoc) blast
qed

lemma validate_accepts:
  "accepts (all_items it) seen (validate_item it wh seen)"
  "accepts (concat (map all_items cs)) seen (validate_children cs wh n seen)"
proof (induction it wh seen and cs wh n seen rule: validate_item_validate_children.induct)
  case (1 i ty l r a c en vis ch sub wh seen)
  let ?it = "MenuItem i ty l r a c en vis ch sub"
  show ?case
  proof (cases "item_ok ?it \<and> (\<forall>j. i = Some j \<longrightarrow> j \<notin> seen)")
    case True
    then have v: "validate_item ?it wh seen = validate_children sub wh 0 (case i of None \<Rightarrow> seen | Some j \<Rightarrow> insert j seen)"
      by (auto simp: item_ok_def check_item_def check_label_def check_accelerator_def Let_def split: option.split sum.split)
    have "accepts (concat (map all_items sub)) (case i of None \<Rightarrow> seen | Some j \<Rightarrow> insert j seen)
        (validate_children sub wh 0 (case i of None \<Rightarrow> seen | Some j \<Rightarrow> insert j seen))"
      using True by (intro 1) (auto simp: item_ok_def check_item_def check_label_def check_accelerator_def split: option.split sum.split)
    then show ?thesis unfolding v using True by (auto simp: accepts_def split: option.splits)
  next
    case False
    then have "\<exists>e. validate_item ?it wh seen = Inl e"
      by (cases i; cases a) (auto simp: item_ok_def check_item_def check_label_def check_accelerator_def Let_def split: if_splits sum.splits)
    then show ?thesis using False by (auto simp: accepts_def split: option.splits)
  qed
next
  case (3 c cs wh n seen)
  then show ?case by (simp add: accepts_seq)
qed (auto simp: accepts_def)

lemma validate_top_accepts: "accepts (concat (map all_items cs)) seen (validate_top cs n seen)"
proof (induction cs arbitrary: n seen)
  case (Cons c cs)
  then show ?case using accepts_seq [OF validate_accepts(1)] by simp
qed (auto simp: accepts_def)

section \<open>Properties\<close>

text \<open>C20. A built menu template is well formed, and every well-formed one is built: \<open>build\<close>
  succeeds, with the items unchanged, exactly when, at every depth, each item is a separator
  or has a label, a role or a submenu, each accelerator parses, and no id occurs twice in the
  whole template.  An accelerator that parses has distinct modifiers and a key that is neither
  empty nor itself a modifier.\<close>
theorem menu_template_valid:
  "(template_build items = Inr t \<longleftrightarrow> t = MenuTemplate items
      \<and> (\<forall>x\<in>set (concat (map all_items items)). item_ok x) \<and> distinct (ids_of (concat (map all_items items))))
   \<and> (parse_accelerator text1 = Inr acc \<longrightarrow> accelerator_ok acc)"
proof -
  have "(\<exists>s. validate_top items 0 {} = Inr s) \<longleftrightarrow>
      (\<forall>x\<in>set (concat (map all_items items)). item_ok x) \<and> distinct (ids_of (concat (map all_items items)))"
    using validate_top_accepts [of items "{}" 0] by (auto simp: accepts_def)
  then have "template_build items = Inr t \<longleftrightarrow> t = MenuTemplate items
      \<and> (\<forall>x\<in>set (concat (map all_items items)). item_ok x) \<and> distinct (ids_of (concat (map all_items items)))"
    by (cases "validate_top items 0 {}") (auto simp: template_build_def)
  then show ?thesis using parse_accelerator_ok by blast
qed

theorem menu_template_valid_witness:
  "accelerator_ok \<lparr> modifiers = [CommandOrControl, Shift], key = ''S'' \<rparr>
   \<and> template_build [item_labeled ''File'', item_separator] = Inr (MenuTemplate [item_labeled ''File'', item_separator])"
proof -
  have p: "parse_accelerator ''CmdOrCtrl+ shift+SHIFT+S'' = Inr \<lparr> modifiers = [CommandOrControl, Shift], key = ''S'' \<rparr>"
    by code_simp
  have "template_build [item_labeled ''File'', item_separator] = Inr (MenuTemplate [item_labeled ''File'', item_separator])"
    by (subst menu_template_valid [THEN conjunct1]) (simp add: item_labeled_def item_separator_def item_ok_def)
  with menu_template_valid [THEN conjunct2, rule_format, OF p] show ?thesis by simp
qed

end
