(* ===== verification/Sessions.thy ===== *)
theory Sessions
  imports Id_Registry
begin

text \<open>
  Sessions and custom protocols: \<open>strake-electron-compat/src/session.rs\<close> and
  \<open>protocol.rs\<close>.  A session is found by its profile directory or by the name of its
  partition; the id \<open>0\<close> is the default session.
\<close>

section \<open>The session registry\<close>

datatype session_error = UnknownSession u32

record session =
  sess_id :: u32
  sess_path :: "string option"
  sess_partition :: "string option"
  sess_cache :: bool
  handled_schemes :: "string list"

record session_registry =
  sessions :: "u32 \<Rightarrow> session option"
  by_path :: "string \<Rightarrow> u32 option"
  by_partition :: "string \<Rightarrow> u32 option"
  next_session_id :: u32

definition session_registry_new :: session_registry where
  "session_registry_new = \<lparr> sessions = [0 \<mapsto> \<lparr> sess_id = 0, sess_path = None, sess_partition = None, sess_cache = True,
     handled_schemes = [] \<rparr>], by_path = Map.empty, by_partition = Map.empty, next_session_id = 1 \<rparr>"

definition default_session :: "session_registry \<Rightarrow> u32" where
  "default_session r = 0"

definition session_get :: "u32 \<Rightarrow> session_registry \<Rightarrow> session option" where
  "session_get i r = sessions r i"

definition session_ids :: "session_registry \<Rightarrow> u32 list" where
  "session_ids r = sorted_list_of_set (dom (sessions r))"

definition from_path :: "string \<Rightarrow> bool \<Rightarrow> session_registry \<Rightarrow> u32 \<times> session_registry" where
  "from_path path cache r = (case by_path r path of Some i \<Rightarrow> (i, r)
   | None \<Rightarrow> (let i = next_session_id r in
       (i, r\<lparr>next_session_id := i + 1, by_path := (by_path r)(path \<mapsto> i),
            sessions := (sessions r)(i \<mapsto> \<lparr> sess_id = i, sess_path = Some path, sess_partition = None,
              sess_cache = cache, handled_schemes = [] \<rparr>)\<rparr>)))"

definition from_partition :: "string \<Rightarrow> bool \<Rightarrow> session_registry \<Rightarrow> u32 \<times> session_registry" where
  "from_partition name cache r = (case by_partition r name of Some i \<Rightarrow> (i, r)
   | None \<Rightarrow> (let i = next_session_id r in
       (i, r\<lparr>next_session_id := i + 1, by_partition := (by_partition r)(name \<mapsto> i),
            sessions := (sessions r)(i \<mapsto> \<lparr> sess_id = i, sess_path = None, sess_partition = Some name,
              sess_cache = cache, handled_schemes = [] \<rparr>)\<rparr>)))"

definition record_protocol_handler :: "u32 \<Rightarrow> string \<Rightarrow> session_registry \<Rightarrow> (session_error + unit) \<times> session_registry" where
  "record_protocol_handler i scheme r = (case sessions r i of None \<Rightarrow> (Inl (UnknownSession i), r)
   | Some s \<Rightarrow> (Inr (), if scheme \<in> set (handled_schemes s) then r
       else r\<lparr>sessions := (sessions r)(i \<mapsto> s\<lparr>handled_schemes := handled_schemes s @ [scheme]\<rparr>)\<rparr>))"

text \<open>The keys under which the registry knows a session.\<close>
datatype profile = DefaultProfile | ProfileDir string | ProfileName string

definition profile_of :: "session \<Rightarrow> profile" where
  "profile_of s = (case (sess_path s, sess_partition s) of (Some p, _) \<Rightarrow> ProfileDir p
     | (None, Some n) \<Rightarrow> ProfileName n | (None, None) \<Rightarrow> DefaultProfile)"

fun lookup_profile :: "session_registry \<Rightarrow> profile \<Rightarrow> u32 option" where
  "lookup_profile r DefaultProfile = Some 0"
| "lookup_profile r (ProfileDir p) = by_path r p"
| "lookup_profile r (ProfileName n) = by_partition r n"

text \<open>Every session is found under its own profile, and under no other.\<close>
definition session_inv :: "session_registry \<Rightarrow> bool" where
  "session_inv r \<longleftrightarrow> (\<forall>i s. sessions r i = Some s \<longrightarrow> i < next_session_id r \<and> sess_id s = i \<and> lookup_profile r (profile_of s) = Some i
        \<and> distinct (handled_schemes s))
     \<and> (\<forall>q i. lookup_profile r q = Some i \<longrightarrow> (\<exists>s. sessions r i = Some s \<and> profile_of s = q))"

lemma session_new_inv: "session_inv session_registry_new"
proof -
  have "lookup_profile session_registry_new q = Some i \<Longrightarrow> q = DefaultProfile \<and> i = 0" for q i
    by (cases q) (auto simp: session_registry_new_def)
  then show ?thesis by (fastforce simp: session_inv_def session_registry_new_def profile_of_def)
qed

text \<open>Adding a session under a fresh profile.\<close>
lemma session_add:
  assumes inv: "session_inv r" and room: "next_session_id r \<noteq> -1"
    and fresh: "lookup_profile r q = None" and s: "profile_of s = q" "sess_id s = next_session_id r" "handled_schemes s = []"
    and r': "sessions r' = (sessions r)(next_session_id r \<mapsto> s)" "next_session_id r' = next_session_id r + 1"
      "\<And>q'. lookup_profile r' q' = (if q' = q then Some (next_session_id r) else lookup_profile r q')"
  shows "session_inv r'"
proof -
  have lt: "i < next_session_id r + 1 \<longleftrightarrow> i < next_session_id r \<or> i = next_session_id r" for i
    using word_less_Suc [OF room] .
  have "sessions r (next_session_id r) = None"
    using inv by (cases "sessions r (next_session_id r)") (auto simp: session_inv_def)
  then show ?thesis using inv fresh s unfolding session_inv_def r'
    by (auto simp: lt split: if_splits) (metis option.distinct(1))+
qed

lemma lookup_update:
  "by_path r' = (by_path r)(p \<mapsto> i) \<Longrightarrow> by_partition r' = by_partition r \<Longrightarrow>
   lookup_profile r' q = (if q = ProfileDir p then Some i else lookup_profile r q)"
  "by_partition r' = (by_partition r)(p \<mapsto> i) \<Longrightarrow> by_path r' = by_path r \<Longrightarrow>
   lookup_profile r' q = (if q = ProfileName p then Some i else lookup_profile r q)"
  by (cases q; simp)+

lemma from_path_inv:
  assumes "session_inv r" "next_session_id r \<noteq> -1"
  shows "session_inv (snd (from_path p c r))" "lookup_profile (snd (from_path p c r)) (ProfileDir p) = Some (fst (from_path p c r))"
proof -
  show "session_inv (snd (from_path p c r))"
  proof (cases "by_path r p")
    case None
    then show ?thesis
      by (intro session_add [OF assms, of "ProfileDir p" "\<lparr> sess_id = next_session_id r, sess_path = Some p, sess_partition = None,
              sess_cache = c, handled_schemes = [] \<rparr>"] lookup_update(1))
        (simp_all add: from_path_def Let_def profile_of_def)
  qed (use assms in \<open>simp add: from_path_def\<close>)
  show "lookup_profile (snd (from_path p c r)) (ProfileDir p) = Some (fst (from_path p c r))"
    by (simp add: from_path_def Let_def split: option.split)
qed

lemma from_partition_inv:
  assumes "session_inv r" "next_session_id r \<noteq> -1"
  shows "session_inv (snd (from_partition p c r))" "lookup_profile (snd (from_partition p c r)) (ProfileName p) = Some (fst (from_partition p c r))"
proof -
  show "session_inv (snd (from_partition p c r))"
  proof (cases "by_partition r p")
    case None
    then show ?thesis
      by (intro session_add [OF assms, of "ProfileName p" "\<lparr> sess_id = next_session_id r, sess_path = None, sess_partition = Some p,
              sess_cache = c, handled_schemes = [] \<rparr>"] lookup_update(2))
        (simp_all add: from_partition_def Let_def profile_of_def)
  qed (use assms in \<open>simp add: from_partition_def\<close>)
  show "lookup_profile (snd (from_partition p c r)) (ProfileName p) = Some (fst (from_partition p c r))"
    by (simp add: from_partition_def Let_def split: option.split)
qed

lemma record_protocol_inv:
  assumes inv: "session_inv r" shows "session_inv (snd (record_protocol_handler i sc r))"
proof (cases "\<exists>s. sessions r i = Some s \<and> sc \<notin> set (handled_schemes s)")
  case True
  then obtain s where s: "sessions r i = Some s" "sc \<notin> set (handled_schemes s)" by blast
  let ?r = "r\<lparr>sessions := (sessions r)(i \<mapsto> s\<lparr>handled_schemes := handled_schemes s @ [sc]\<rparr>)\<rparr>"
  have "lookup_profile ?r q = lookup_profile r q" for q by (cases q) simp_all
  moreover have "profile_of (s\<lparr>handled_schemes := x\<rparr>) = profile_of s" for x by (simp add: profile_of_def)
  ultimately have "session_inv ?r" using inv s by (auto simp: session_inv_def) (metis option.inject)
  then show ?thesis using s by (simp add: record_protocol_handler_def)
next
  case False
  then show ?thesis using inv by (auto simp: record_protocol_handler_def split: option.split)
qed

text \<open>Two profiles never share a session, a repeated request gives the same one, and no request
  for one profile changes what another finds.\<close>
lemma session_identity:
  assumes "session_inv r"
  shows "lookup_profile r q = Some i \<Longrightarrow> lookup_profile r q' = Some i \<Longrightarrow> q = q'"
    "lookup_profile r (ProfileDir p) = Some i \<Longrightarrow> from_path p c r = (i, r)"
    "q \<noteq> ProfileDir p \<Longrightarrow> lookup_profile (snd (from_path p c r)) q = lookup_profile r q"
proof -
  show "lookup_profile r q = Some i \<Longrightarrow> lookup_profile r q' = Some i \<Longrightarrow> q = q'"
    using assms unfolding session_inv_def by (metis option.inject)
  show "lookup_profile r (ProfileDir p) = Some i \<Longrightarrow> from_path p c r = (i, r)" by (simp add: from_path_def)
  show "q \<noteq> ProfileDir p \<Longrightarrow> lookup_profile (snd (from_path p c r)) q = lookup_profile r q"
    by (cases "by_path r p") (simp_all add: from_path_def Let_def lookup_update(1) [where i = "next_session_id r"])
qed

section \<open>Privileged schemes\<close>

record privileged_scheme =
  scheme_name :: string
  privileges :: "string list"

type_synonym protocol_registry = "privileged_scheme list"

definition register_scheme :: "privileged_scheme \<Rightarrow> protocol_registry \<Rightarrow> protocol_registry" where
  "register_scheme sc reg = (case position (\<lambda>s. scheme_name s = scheme_name sc) reg of
     Some i \<Rightarrow> reg[i := sc] | None \<Rightarrow> reg @ [sc])"

definition register_schemes :: "privileged_scheme list \<Rightarrow> protocol_registry \<Rightarrow> protocol_registry" where
  "register_schemes scs reg = fold register_scheme scs reg"

definition privileged_schemes :: "protocol_registry \<Rightarrow> privileged_scheme list" where
  "privileged_schemes reg = reg"

lemma register_scheme_names:
  "map scheme_name (register_scheme sc reg) = (if scheme_name sc \<in> scheme_name ` set reg then map scheme_name reg
     else map scheme_name reg @ [scheme_name sc])"
proof (cases "position (\<lambda>s. scheme_name s = scheme_name sc) reg")
  case None
  then have "scheme_name sc \<notin> scheme_name ` set reg" by (auto simp: position_None_iff)
  then show ?thesis by (simp add: register_scheme_def None)
next
  case (Some i)
  then have i: "i < length reg" "scheme_name (reg ! i) = scheme_name sc" by (simp_all add: position_Some_iff)
  then have "scheme_name sc \<in> scheme_name ` set reg" by (metis image_eqI nth_mem)
  then show ?thesis using i by (simp add: register_scheme_def Some map_update list_update_same_conv)
qed

lemma register_schemes_distinct:
  "distinct (map scheme_name reg) \<Longrightarrow> distinct (map scheme_name (register_schemes scs reg))"
  unfolding register_schemes_def by (induction scs arbitrary: reg) (simp_all add: register_scheme_names)

end
