(* ===== verification/Os_Bridges.thy ===== *)
theory Os_Bridges
  imports Rust_String Id_Registry "HOL-Library.AList"
begin

text \<open>
  The bridges to the operating system, with the headless backends of the source:
  \<open>clipboard.rs\<close>, \<open>crash_reporter.rs\<close>, \<open>power.rs\<close>, \<open>notification.rs\<close>, \<open>native_theme.rs\<close>,
  \<open>napi.rs\<close>, \<open>dialog.rs\<close> and \<open>os_shell.rs\<close> of \<open>strake-electron-compat\<close>.

  A backend is a record of its operations on its own state; a hub forwards to it.  A listener
  is opaque, and firing returns the calls.
\<close>

section \<open>Clipboard\<close>

datatype clipboard_error = Unavailable

record 'b clipboard_backend =
  cb_read :: "'b \<Rightarrow> clipboard_error + string"
  cb_write :: "string \<Rightarrow> 'b \<Rightarrow> (clipboard_error + unit) \<times> 'b"
  cb_clear :: "'b \<Rightarrow> (clipboard_error + unit) \<times> 'b"

definition memory_clipboard :: "string option clipboard_backend" where
  "memory_clipboard = \<lparr> cb_read = (\<lambda>b. case b of Some t \<Rightarrow> Inr t | None \<Rightarrow> Inl Unavailable),
     cb_write = (\<lambda>t b. (Inr (), Some t)), cb_clear = (\<lambda>b. (Inr (), None)) \<rparr>"

definition read_text :: "'b clipboard_backend \<Rightarrow> 'b \<Rightarrow> clipboard_error + string" where
  "read_text cb b = cb_read cb b"

definition write_text :: "'b clipboard_backend \<Rightarrow> string \<Rightarrow> 'b \<Rightarrow> (clipboard_error + unit) \<times> 'b" where
  "write_text cb t b = cb_write cb t b"

definition clear_clipboard :: "'b clipboard_backend \<Rightarrow> 'b \<Rightarrow> (clipboard_error + unit) \<times> 'b" where
  "clear_clipboard cb b = cb_clear cb b"

section \<open>Crash reporter\<close>

record crash_options =
  product_name :: string
  company_name :: string
  submit_url :: string
  compress :: bool
  extra :: "(string \<times> string) list"

record crash_reporter =
  started :: bool
  crash_opts :: crash_options

definition crash_reporter_new :: crash_reporter where
  "crash_reporter_new = \<lparr> started = False, crash_opts = \<lparr> product_name = '''', company_name = '''', submit_url = '''',
     compress = False, extra = [] \<rparr> \<rparr>"

definition crash_start :: "crash_options \<Rightarrow> crash_reporter \<Rightarrow> crash_reporter" where
  "crash_start o1 r = r\<lparr>crash_opts := o1, started := True\<rparr>"

definition add_extra_parameter :: "string \<Rightarrow> string \<Rightarrow> crash_reporter \<Rightarrow> crash_reporter" where
  "add_extra_parameter k v r = r\<lparr>crash_opts := (crash_opts r)\<lparr>extra := AList.update k v (extra (crash_opts r))\<rparr>\<rparr>"

definition remove_extra_parameter :: "string \<Rightarrow> crash_reporter \<Rightarrow> crash_reporter" where
  "remove_extra_parameter k r = r\<lparr>crash_opts := (crash_opts r)\<lparr>extra := AList.delete k (extra (crash_opts r))\<rparr>\<rparr>"

definition parameters :: "crash_reporter \<Rightarrow> (string \<times> string) list" where
  "parameters r = extra (crash_opts r)"

section \<open>Power\<close>

datatype power_event = Suspend | Resume | OnAc | OnBattery

record 'l power_monitor =
  power_listeners :: "power_event \<Rightarrow> (u64 \<times> 'l) list"
  next_power_id :: u64
  error_count :: nat

definition power_monitor_new :: "'l power_monitor" where
  "power_monitor_new = \<lparr> power_listeners = (\<lambda>_. []), next_power_id = 0, error_count = 0 \<rparr>"

definition power_on :: "power_event \<Rightarrow> 'l \<Rightarrow> 'l power_monitor \<Rightarrow> u64 \<times> 'l power_monitor" where
  "power_on ev l m = (let i = next_power_id m in
     (i, m\<lparr>next_power_id := i + 1, power_listeners := (power_listeners m)(ev := power_listeners m ev @ [(i, l)])\<rparr>))"

text \<open>Every listener is called; one that panics is counted and does not stop the others.\<close>
definition inject :: "('l \<Rightarrow> bool) \<Rightarrow> power_event \<Rightarrow> 'l power_monitor \<Rightarrow> ('l \<times> power_event) list \<times> 'l power_monitor" where
  "inject panics ev m =
     fold (\<lambda>e (calls, m1). (calls @ [(snd e, ev)], if panics (snd e) then m1\<lparr>error_count := error_count m1 + 1\<rparr> else m1))
       (power_listeners m ev) ([], m)"

definition take_error_count :: "'l power_monitor \<Rightarrow> nat \<times> 'l power_monitor" where
  "take_error_count m = (error_count m, m\<lparr>error_count := 0\<rparr>)"

datatype blocker_kind = PreventAppSuspension | PreventDisplaySleep

record power_save_blocker =
  next_hold_id :: u64
  active_holds :: "(u64 \<times> blocker_kind) list"

definition blocker_new :: power_save_blocker where
  "blocker_new = \<lparr> next_hold_id = 0, active_holds = [] \<rparr>"

definition blocker_start :: "blocker_kind \<Rightarrow> power_save_blocker \<Rightarrow> u64 \<times> power_save_blocker" where
  "blocker_start k b = (let i = next_hold_id b in
     (i, b\<lparr>next_hold_id := i + 1, active_holds := AList.update i k (active_holds b)\<rparr>))"

definition blocker_stop :: "u64 \<Rightarrow> power_save_blocker \<Rightarrow> bool \<times> power_save_blocker" where
  "blocker_stop i b = (map_of (active_holds b) i \<noteq> None, b\<lparr>active_holds := AList.delete i (active_holds b)\<rparr>)"

definition is_started :: "u64 \<Rightarrow> power_save_blocker \<Rightarrow> bool" where
  "is_started i b \<longleftrightarrow> map_of (active_holds b) i \<noteq> None"

definition active_count :: "power_save_blocker \<Rightarrow> nat" where
  "active_count b = length (active_holds b)"

interpretation holds: id_registry "\<lambda>b. map_of (active_holds b)" next_hold_id blocker_start "\<lambda>i b. snd (blocker_stop i b)"
  by unfold_locales (auto simp: blocker_start_def blocker_stop_def Let_def AList.update_conv' AList.delete_conv')

record 'l power_hub =
  hub_monitor :: "'l power_monitor"
  hub_blocker :: power_save_blocker
  pending_events :: "power_event list"

definition inject_for_dispatch :: "power_event \<Rightarrow> 'l power_hub \<Rightarrow> 'l power_hub" where
  "inject_for_dispatch ev h = h\<lparr>pending_events := pending_events h @ [ev]\<rparr>"

definition take_pending :: "'l power_hub \<Rightarrow> power_event list \<times> 'l power_hub" where
  "take_pending h = (pending_events h, h\<lparr>pending_events := []\<rparr>)"

lemma inject_fold:
  "fold (\<lambda>e (calls, m1). (calls @ [(snd e, ev)], if panics (snd e) then m1\<lparr>error_count := error_count m1 + 1\<rparr> else m1)) es (cs, m)
   = (cs @ map (\<lambda>e. (snd e, ev)) es, m\<lparr>error_count := error_count m + length (filter (\<lambda>e. panics (snd e)) es)\<rparr>)"
  by (induction es arbitrary: cs m) simp_all

text \<open>An injected event reaches all its listeners in the order of registration, and the error
  count grows by those that panic.\<close>
lemma inject_all:
  "inject panics ev m = (map (\<lambda>e. (snd e, ev)) (power_listeners m ev),
     m\<lparr>error_count := error_count m + length (filter (\<lambda>e. panics (snd e)) (power_listeners m ev))\<rparr>)"
  by (simp add: inject_def inject_fold)

section \<open>Notifications\<close>

record notification_request =
  note_title :: string
  note_body :: "string option"
  note_icon :: "string option"

record delivered_notification =
  note_id :: u64
  note_request :: notification_request
  clicked :: bool

record recording_state =
  next_note_id :: u64
  note_list :: "delivered_notification list"

definition recording_new :: recording_state where
  "recording_new = \<lparr> next_note_id = 0, note_list = [] \<rparr>"

definition notify :: "notification_request \<Rightarrow> recording_state \<Rightarrow> u64 \<times> recording_state" where
  "notify req s = (let i = next_note_id s in
     (i, s\<lparr>next_note_id := i + 1, note_list := note_list s @ [\<lparr> note_id = i, note_request = req, clicked = False \<rparr>]\<rparr>))"

definition delivered_notes :: "recording_state \<Rightarrow> delivered_notification list" where
  "delivered_notes s = note_list s"

definition note_click :: "u64 \<Rightarrow> recording_state \<Rightarrow> bool \<times> recording_state" where
  "note_click i s = (case position (\<lambda>n. note_id n = i) (note_list s) of
     Some k \<Rightarrow> (True, s\<lparr>note_list := (note_list s)[k := (note_list s ! k)\<lparr>clicked := True\<rparr>]\<rparr>)
   | None \<Rightarrow> (False, s))"

definition notes_inv :: "recording_state \<Rightarrow> bool" where
  "notes_inv s \<longleftrightarrow> map note_id (note_list s) = map of_nat [0..<length (note_list s)] \<and> next_note_id s = of_nat (length (note_list s))"

lemma notify_inv: "notes_inv s \<Longrightarrow> notes_inv (snd (notify req s)) \<and> fst (notify req s) = of_nat (length (note_list s))"
  by (simp add: notes_inv_def notify_def Let_def)

lemma note_ids:
  assumes "notes_inv s" "j < length (note_list s)" shows "note_id (note_list s ! j) = of_nat j"
proof -
  have "map note_id (note_list s) ! j = (map of_nat [0..<length (note_list s)] :: u64 list) ! j"
    using assms(1) by (simp only: notes_inv_def)
  then show ?thesis using assms(2) by simp
qed

lemma click_inv:
  assumes "notes_inv s" shows "notes_inv (snd (note_click i s))"
proof (cases "position (\<lambda>n. note_id n = i) (note_list s)")
  case (Some k)
  then have k: "k < length (note_list s)" by (rule position_lt)
  then have "(map note_id (note_list s))[k := note_id (note_list s ! k)] = map note_id (note_list s)"
    by (simp add: list_update_same_conv)
  then show ?thesis using assms by (simp add: notes_inv_def note_click_def Some map_update)
qed (use assms in \<open>simp add: note_click_def\<close>)

text \<open>A click marks the notification with the id it was delivered under, and only that one.\<close>
lemma click_exact:
  assumes "notes_inv s" "k < length (note_list s)" "length (note_list s) \<le> 2 ^ 64"
  shows "note_click (of_nat k) s = (True, s\<lparr>note_list := (note_list s)[k := (note_list s ! k)\<lparr>clicked := True\<rparr>]\<rparr>)"
proof -
  have "position (\<lambda>x. note_id x = of_nat k) (note_list s) = Some k"
    using assms by (auto simp: position_Some_iff note_ids word_of_nat_eq_iff take_bit_nat_eq_self)
  then show ?thesis by (simp add: note_click_def)
qed

section \<open>Theme\<close>

datatype theme_source = System | Light | Dark

record 'l theme_state =
  theme_source_of :: theme_source
  system_dark :: bool
  next_theme_listener :: u64
  theme_listeners :: "(u64 \<times> 'l) list"

definition theme_new :: "bool \<Rightarrow> 'l theme_state" where
  "theme_new dark = \<lparr> theme_source_of = System, system_dark = dark, next_theme_listener = 0, theme_listeners = [] \<rparr>"

definition should_use_dark_colors :: "'l theme_state \<Rightarrow> bool" where
  "should_use_dark_colors s = (case theme_source_of s of System \<Rightarrow> system_dark s | Light \<Rightarrow> False | Dark \<Rightarrow> True)"

definition theme_pending :: "'l theme_state \<Rightarrow> bool \<Rightarrow> bool \<Rightarrow> ('l \<times> bool) list" where
  "theme_pending s bef aft = (if bef = aft then [] else map (\<lambda>e. (snd e, aft)) (theme_listeners s))"

definition set_theme_source :: "theme_source \<Rightarrow> 'l theme_state \<Rightarrow> ('l \<times> bool) list \<times> 'l theme_state" where
  "set_theme_source src s = (let s1 = s\<lparr>theme_source_of := src\<rparr> in
     (theme_pending s1 (should_use_dark_colors s) (should_use_dark_colors s1), s1))"

definition note_system_change :: "bool \<Rightarrow> 'l theme_state \<Rightarrow> ('l \<times> bool) list \<times> 'l theme_state" where
  "note_system_change dark s = (let s1 = s\<lparr>system_dark := dark\<rparr> in
     (theme_pending s1 (should_use_dark_colors s) (should_use_dark_colors s1), s1))"

definition on_updated :: "'l \<Rightarrow> 'l theme_state \<Rightarrow> u64 \<times> 'l theme_state" where
  "on_updated l s = (let i = next_theme_listener s in
     (i, s\<lparr>next_theme_listener := i + 1, theme_listeners := theme_listeners s @ [(i, l)]\<rparr>))"

definition remove_updated_listener :: "u64 \<Rightarrow> 'l theme_state \<Rightarrow> bool \<times> 'l theme_state" where
  "remove_updated_listener i s = (let kept = filter (\<lambda>e. fst e \<noteq> i) (theme_listeners s) in
     (length kept \<noteq> length (theme_listeners s), s\<lparr>theme_listeners := kept\<rparr>))"

text \<open>The listeners are called exactly when the derived bit flips, with its new value; the
  system bit matters only while the source is the system.\<close>
lemma theme_fires:
  "fst (set_theme_source src s) = (if should_use_dark_colors (snd (set_theme_source src s)) = should_use_dark_colors s then []
     else map (\<lambda>e. (snd e, should_use_dark_colors (snd (set_theme_source src s)))) (theme_listeners s))"
  "fst (note_system_change dark s) = (if theme_source_of s \<noteq> System \<or> dark = system_dark s then []
     else map (\<lambda>e. (snd e, dark)) (theme_listeners s))"
  by (auto simp: set_theme_source_def note_system_change_def theme_pending_def should_use_dark_colors_def Let_def
      split: theme_source.splits)

section \<open>Native addons\<close>

definition IMPLEMENTED_SYMBOLS :: "string list" where
  "IMPLEMENTED_SYMBOLS = []"

definition missing_symbols :: "string list \<Rightarrow> string list" where
  "missing_symbols symbols = filter (\<lambda>s. s \<notin> set IMPLEMENTED_SYMBOLS) symbols"

text \<open>\<open>join(", ")\<close>.\<close>
fun join_comma :: "string list \<Rightarrow> string" where
  "join_comma [] = []"
| "join_comma [s] = s"
| "join_comma (s # t # ts) = s @ '', '' @ join_comma (t # ts)"

datatype addon_load = AddonReady | Refused string

definition check_addon_load :: "bool \<Rightarrow> string list \<Rightarrow> addon_load" where
  "check_addon_load allow symbols =
    (if \<not> allow then Refused ''native addons are not permitted by the app manifest''
     else (let missing = missing_symbols symbols in
       if missing = [] then AddonReady else Refused (''unimplemented N-API symbols: '' @ join_comma missing)))"

lemma addon_loads: "check_addon_load allow symbols = AddonReady \<longleftrightarrow> allow \<and> symbols = []"
  by (simp add: check_addon_load_def missing_symbols_def IMPLEMENTED_SYMBOLS_def Let_def)

section \<open>Dialogs\<close>

datatype open_property = OpenFile | OpenDirectory | MultiSelections | ShowHiddenFiles | CreateDirectory

record file_filter =
  filter_name :: string
  extensions :: "string list"

record open_options =
  open_title :: "string option"
  open_default_path :: "string option"
  properties :: "open_property list"
  open_filters :: "file_filter list"

record open_result =
  open_canceled :: bool
  file_paths :: "string list"

record save_options =
  save_title :: "string option"
  save_default_path :: "string option"
  save_filters :: "file_filter list"

record save_result =
  save_canceled :: bool
  file_path :: "string option"

datatype box_type = PlainBox | InfoBox | ErrorBox | QuestionBox | WarningBox

record box_options =
  box_type_of :: box_type
  buttons :: "string list"
  box_title :: "string option"
  box_message :: string
  detail :: "string option"
  default_id :: nat
  cancel_id :: nat

definition box_options_default :: box_options where
  "box_options_default = \<lparr> box_type_of = PlainBox, buttons = [''OK''], box_title = None, box_message = '''', detail = None,
     default_id = 0, cancel_id = 0 \<rparr>"

record box_result =
  response :: nat
  checkbox_checked :: bool

record scripted_dialog =
  open_results :: "open_result list"
  save_results :: "save_result list"
  message_responses :: "nat list"

record memory_dialog =
  script :: scripted_dialog
  open_calls :: "open_options list"
  save_calls :: "save_options list"
  message_calls :: "box_options list"

definition dialog_scripted :: "scripted_dialog \<Rightarrow> memory_dialog" where
  "dialog_scripted s = \<lparr> script = s, open_calls = [], save_calls = [], message_calls = [] \<rparr>"

text \<open>\<open>pop_front().unwrap_or(..)\<close>.\<close>
definition pop_or :: "'a \<Rightarrow> 'a list \<Rightarrow> 'a \<times> 'a list" where
  "pop_or d q = (case q of [] \<Rightarrow> (d, []) | x # xs \<Rightarrow> (x, xs))"

definition show_open_dialog :: "open_options \<Rightarrow> memory_dialog \<Rightarrow> open_result \<times> memory_dialog" where
  "show_open_dialog o1 d = (let (r, q) = pop_or \<lparr> open_canceled = True, file_paths = [] \<rparr> (open_results (script d)) in
     (r, d\<lparr>open_calls := open_calls d @ [o1], script := (script d)\<lparr>open_results := q\<rparr>\<rparr>))"

definition show_save_dialog :: "save_options \<Rightarrow> memory_dialog \<Rightarrow> save_result \<times> memory_dialog" where
  "show_save_dialog o1 d = (let (r, q) = pop_or \<lparr> save_canceled = True, file_path = None \<rparr> (save_results (script d)) in
     (r, d\<lparr>save_calls := save_calls d @ [o1], script := (script d)\<lparr>save_results := q\<rparr>\<rparr>))"

definition show_message_box :: "box_options \<Rightarrow> memory_dialog \<Rightarrow> box_result \<times> memory_dialog" where
  "show_message_box o1 d = (let (r, q) = pop_or 0 (message_responses (script d)) in
     (\<lparr> response = r, checkbox_checked = False \<rparr>, d\<lparr>message_calls := message_calls d @ [o1], script := (script d)\<lparr>message_responses := q\<rparr>\<rparr>))"

section \<open>The shell\<close>

datatype os_shell_error = InvalidUrl string | InvalidPath string | Denied string

record os_shell =
  opened_urls :: "string list"
  shown_paths :: "string list"
  beeps :: u64

definition os_shell_new :: os_shell where
  "os_shell_new = \<lparr> opened_urls = [], shown_paths = [], beeps = 0 \<rparr>"

definition has_scheme :: "string \<Rightarrow> bool" where
  "has_scheme url = (case index_of (CHR '':'') url of None \<Rightarrow> False
     | Some k \<Rightarrow> k > 0 \<and> list_all (\<lambda>c. is_ascii_alphabetic c \<or> is_ascii_digit c \<or> c \<in> set ''+-.'') (take k url))"

definition open_external :: "string \<Rightarrow> os_shell \<Rightarrow> (os_shell_error + unit) \<times> os_shell" where
  "open_external url s = (if \<not> has_scheme url then (Inl (InvalidUrl url), s)
     else (Inr (), s\<lparr>opened_urls := opened_urls s @ [url]\<rparr>))"

definition show_item_in_folder :: "string \<Rightarrow> os_shell \<Rightarrow> (os_shell_error + unit) \<times> os_shell" where
  "show_item_in_folder path s = (if path = [] then (Inl (InvalidPath path), s)
     else (Inr (), s\<lparr>shown_paths := shown_paths s @ [path]\<rparr>))"

definition beep :: "os_shell \<Rightarrow> os_shell" where
  "beep s = s\<lparr>beeps := beeps s + 1\<rparr>"

text \<open>Only URLs with a scheme ever reach the operating system.\<close>
lemma opened_have_scheme:
  "\<forall>u\<in>set (opened_urls s). has_scheme u \<Longrightarrow> \<forall>u\<in>set (opened_urls (snd (open_external url s))). has_scheme u"
  by (auto simp: open_external_def)

end
