(* ===== verification/Dom_Form_Example.thy ===== *)
theory Dom_Form_Example
  imports Dom_Example
begin

text \<open>
  A document with a form, on which submission and activation are evaluated, and a rule for the
  well-formedness of documents that are given as lists.
\<close>

section \<open>A form\<close>

lemma ex_document_wf:
  assumes ns: "\<forall>(i, n)\<in>set ns. nid n = i \<and> distinct (children n)
      \<and> (\<forall>c\<in>set (children n). \<exists>m. map_of ns c = Some m \<and> parent m = Some i)
      \<and> (\<forall>p. parent n = Some p \<longrightarrow> as_u64 p < as_u64 i \<and> (\<exists>m. map_of ns p = Some m \<and> i \<in> set (children m)))"
    and root: "\<exists>n. map_of ns n1 = Some n \<and> parent n = None"
  shows "wf_doc (ex_document ns ids)"
proof -
  have node: "nodes (ex_document ns ids) i = map_of ns i" for i by (simp add: ex_document_def)
  have props: "nid n = i" "distinct (children n)"
    "\<forall>c\<in>set (children n). \<exists>m. map_of ns c = Some m \<and> parent m = Some i"
    "\<forall>p. parent n = Some p \<longrightarrow> as_u64 p < as_u64 i \<and> (\<exists>m. map_of ns p = Some m \<and> i \<in> set (children m))"
    if "map_of ns i = Some n" for i n
    using bspec [OF ns map_of_SomeD [OF that]] by simp_all
  have "acyclic (parent_edges (ex_document ns ids))"
    by (rule acyclicI_order [of _ as_u64]) (auto simp: parent_edges_def node dest: props(4))
  moreover have "finite (dom (nodes (ex_document ns ids)))"
    by (simp add: ex_document_def finite_dom_map_of)
  moreover have "wf_node (ex_document ns ids) i n" if "map_of ns i = Some n" for i n
    using props [OF that] by (auto simp: wf_node_def node)
  moreover have "root_node_id (ex_document ns ids) = n1" by (simp add: ex_document_def)
  ultimately show ?thesis using root by (auto simp: wf_doc_def node)
qed

text \<open>A form with a text field, a label around a check box, and a submit button.\<close>
definition ex_form_nodes :: "(node_id \<times> node) list" where
  "ex_form_nodes =
    [(n1, ex_node n1 None [n2] (Document ex_document_data)),
     (n2, ex_node n2 (Some n1) [n3, n4, n6] (Element (ex_element ''form'' [(''method'', ''POST''), (''action'', ''/s'')] False))),
     (n3, ex_node n3 (Some n2) [] (Element (ex_element ''input'' [(''name'', ''q''), (''value'', ''v'')] True))),
     (n4, ex_node n4 (Some n2) [n5] (Element (ex_element ''label'' [] False))),
     (n5, ex_node n5 (Some n4) [] (Element ((ex_element ''input'' [(''type'', ''checkbox''), (''name'', ''c'')] True)
        \<lparr>special_data := CheckboxInput True\<rparr>))),
     (n6, ex_node n6 (Some n2) [] (Element (ex_element ''button'' [(''type'', ''submit''), (''name'', ''b'')] True)))]"

definition ex_form_doc :: document where
  "ex_form_doc = (ex_document ex_form_nodes [])\<lparr>controls_to_form := [n3 \<mapsto> n2, n5 \<mapsto> n2, n6 \<mapsto> n2]\<rparr>"

definition ex_form_tree :: tree where
  "ex_form_tree = T n1 [T n2 [T n3 [], T n4 [T n5 []], T n6 []]]"

lemma ex_form_fields [simp]:
  "nodes ex_form_doc = map_of ex_form_nodes" "root_node_id ex_form_doc = n1"
  "controls_to_form ex_form_doc = [n3 \<mapsto> n2, n5 \<mapsto> n2, n6 \<mapsto> n2]" "doc_effects ex_form_doc = []"
  "doc_id ex_form_doc = 0" "doc_url ex_form_doc = ''http://a/d''"
  by (simp_all add: ex_form_doc_def ex_document_def)

lemma ex_form_wf: "wf_doc ex_form_doc"
proof -
  have "wf_doc (ex_document ex_form_nodes [])"
    by (rule ex_document_wf) (simp_all add: ex_form_nodes_def)
  then show ?thesis by (simp add: ex_form_doc_def wf_doc_def wf_node_def parent_edges_def)
qed

lemma ex_form_doc_tree: "doc_tree ex_form_doc ex_form_tree"
  by (simp add: doc_tree_def ex_form_tree_def ex_form_nodes_def)

lemma ex_form_preorder: "preorder ex_form_tree = [n1, n2, n3, n4, n5, n6]"
  by (simp add: ex_form_tree_def)

end
