(* ===== verification/Dom_Form.thy ===== *)
theory Dom_Form
  imports Dom_Interaction Dom_Form_Example Rust_String
begin

text \<open>
  Form submission (\<open>strake-dom/src/form.rs\<close>): the entry list of a form, its encodings and the
  navigation that is handed to the embedder.  The owner of a control is in \<open>Dom_Lifetime\<close>.

  The crates \<open>url\<close>, \<open>form_urlencoded\<close> and \<open>percent_encoding\<close> are not under \<open>src/\<close>; the
  functions of theirs that are called are the fields of \<open>url_ops\<close>, on URLs as serialized.
\<close>

record url_ops =
  url_join :: "string \<Rightarrow> string \<Rightarrow> string option"
  url_scheme :: "string \<Rightarrow> string"
  url_query :: "string \<Rightarrow> string option"
  url_fragment :: "string \<Rightarrow> string option"
  url_until_fragment :: "string \<Rightarrow> string"
  url_set_query :: "string \<Rightarrow> string \<Rightarrow> string"
  url_extend_query_pairs :: "(string \<times> string) list \<Rightarrow> string \<Rightarrow> string"
  form_urlencode :: "(string \<times> string) list \<Rightarrow> string"
  percent_encode :: "char list \<Rightarrow> string \<Rightarrow> string"
  percent_decode_lossy :: "string \<Rightarrow> string"

text \<open>\<open>DocumentUrl\<close> of \<open>url.rs\<close>.\<close>
definition resolve_url :: "url_ops \<Rightarrow> document \<Rightarrow> string \<Rightarrow> string option" where
  "resolve_url U d raw = url_join U (doc_url d) raw"

definition is_same_document :: "url_ops \<Rightarrow> document \<Rightarrow> string \<Rightarrow> bool" where
  "is_same_document U d other \<longleftrightarrow> url_until_fragment U (doc_url d) = url_until_fragment U other"

text \<open>What is added to the control characters.\<close>
definition DEFAULT_ENCODE_SET :: "char list" where
  "DEFAULT_ENCODE_SET = [CHR '' '', char_of (34::nat), CHR ''#'', CHR ''<'', CHR ''>'', CHR ''?'',
     char_of (96::nat), CHR ''{'', CHR ''}'']"

section \<open>Methods and content types\<close>

datatype form_method = FormGet | FormPost | FormDialog

text \<open>No character outside ASCII becomes a letter of these words in lower case, so that
  \<open>to_lowercase\<close> and \<open>to_ascii_lowercase\<close> agree on the comparison.\<close>
definition form_method_from_str :: "string \<Rightarrow> form_method option" where
  "form_method_from_str s = (let t = to_ascii_lowercase s in
     if t = ''get'' then Some FormGet
     else if t = ''post'' then Some FormPost
     else if t = ''dialog'' then Some FormDialog
     else None)"

definition method_try_from :: "form_method \<Rightarrow> http_method option" where
  "method_try_from m = (case m of FormGet \<Rightarrow> Some GET | FormPost \<Rightarrow> Some POST | FormDialog \<Rightarrow> None)"

datatype request_content_type = FormUrlEncoded | MultipartFormData | TextPlain

definition content_type_from_str :: "string \<Rightarrow> request_content_type option" where
  "content_type_from_str s =
    (if s = ''application/x-www-form-urlencoded'' then Some FormUrlEncoded
     else if s = ''multipart/form-data'' then Some MultipartFormData
     else if s = ''text/plain'' then Some TextPlain
     else None)"

fun content_type_text :: "request_content_type \<Rightarrow> string" where
  "content_type_text FormUrlEncoded = ''application/x-www-form-urlencoded''"
| "content_type_text MultipartFormData = ''multipart/form-data''"
| "content_type_text TextPlain = ''text/plain''"

section \<open>Encodings\<close>

abbreviation "CR \<equiv> char_of (13::nat)"
abbreviation "LF \<equiv> char_of (10::nat)"

fun normalize_line_endings :: "string \<Rightarrow> string" where
  "normalize_line_endings [] = []"
| "normalize_line_endings (c # cs) =
    (if c = CR \<and> cs \<noteq> [] \<and> hd cs = LF then CR # LF # normalize_line_endings (tl cs)
     else if c = CR \<or> c = LF then CR # LF # normalize_line_endings cs
     else c # normalize_line_endings cs)"

definition convert_to_list_of_name_value_pairs :: "form_data \<Rightarrow> (string \<times> string) list" where
  "convert_to_list_of_name_value_pairs es =
     map (\<lambda>e. (normalize_line_endings (entry_name e), normalize_line_endings (entry_text (entry_val e)))) es"

fun encode_text_plain :: "(string \<times> string) list \<Rightarrow> string" where
  "encode_text_plain [] = []"
| "encode_text_plain ((name, val) # ps) = name @ CHR ''='' # val @ CR # LF # encode_text_plain ps"

section \<open>The entry list\<close>

partial_function (option) ancestor_any :: "document \<Rightarrow> (node \<Rightarrow> bool) \<Rightarrow> node_id \<Rightarrow> bool option" where
  "ancestor_any d P cur = (case at_next d cur of
      (None, _) \<Rightarrow> Some False
    | (Some i, cur') \<Rightarrow> do { n \<leftarrow> node_at d i; if P n then Some True else ancestor_any d P cur' })"

declare ancestor_any.simps [code]

definition datalist_ancestor :: "document \<Rightarrow> node_id \<Rightarrow> bool may_panic" where
  "datalist_ancestor d i = ancestor_any d (\<lambda>n. is_element_with_tag_name (data n) ''datalist'') i"

definition is_input :: "element_data \<Rightarrow> bool" where
  "is_input e \<longleftrightarrow> qn_local (el_name e) = ''input''"

definition el_type_in :: "element_data \<Rightarrow> string list \<Rightarrow> bool" where
  "el_type_in e ts = (case el_attr e ''type'' of None \<Rightarrow> False | Some t \<Rightarrow> t \<in> set ts)"

definition skipped_control :: "element_data \<Rightarrow> node_id \<Rightarrow> node_id \<Rightarrow> bool" where
  "skipped_control e i submitter \<longleftrightarrow>
     el_attr e ''disabled'' \<noteq> None
     \<or> qn_local (el_name e) = ''button'' \<and> i \<noteq> submitter
     \<or> is_input e \<and> (el_type_in e [''checkbox'', ''radio''] \<and> checkbox_input_checked e \<noteq> Some True
                      \<or> el_type_in e [''submit'', ''button''])"

text \<open>The entries of a control that is not skipped and is named, in the order of the source.\<close>
definition value_entries :: "element_data \<Rightarrow> string \<Rightarrow> form_data" where
  "value_entries e name =
    (let create_entry = (\<lambda>v. \<lparr> entry_name = name, entry_val = v \<rparr>) in
     if is_input e \<and> el_type_in e [''checkbox'', ''radio'']
     then [create_entry (EntryString (case el_attr e ''value'' of Some v \<Rightarrow> v | None \<Rightarrow> ''on''))]
     else if is_input e \<and> el_attr e ''type'' = Some ''file''
     then (case special_data e of
         FileInput files \<Rightarrow> if files = [] then [create_entry EmptyFile]
                            else map (\<lambda>f. create_entry (EntryFile f)) files
       | _ \<Rightarrow> [create_entry EmptyFile])
     else if is_input e \<and> el_attr e ''type'' = Some ''hidden'' \<and> to_ascii_lowercase name = ''_charset_''
     then [create_entry (EntryString ''UTF-8'')]
     else (case special_data e of
         TextInput text \<Rightarrow> [create_entry (EntryString text)]
       | _ \<Rightarrow> (case el_attr e ''value'' of Some v \<Rightarrow> [create_entry (EntryString v)] | None \<Rightarrow> [])))"

definition control_entries :: "document \<Rightarrow> node_id \<Rightarrow> node_id \<Rightarrow> node_id \<Rightarrow> form_data may_panic" where
  "control_entries d form submitter i = (case Option.bind (get_node d i) element_data of
      None \<Rightarrow> Some []
    | Some e \<Rightarrow>
        if controls_to_form d i \<noteq> Some form then Some []
        else do {
          dl \<leftarrow> datalist_ancestor d i;
          Some (if dl \<or> skipped_control e i submitter then []
                else if el_attr e ''type'' = Some ''image'' then []
                else (case el_attr e ''name'' of
                    None \<Rightarrow> []
                  | Some name \<Rightarrow> if name = [] then [] else value_entries e name)) })"

fun collect_entries :: "document \<Rightarrow> node_id \<Rightarrow> node_id \<Rightarrow> node_id list \<Rightarrow> form_data may_panic" where
  "collect_entries d form submitter [] = Some []"
| "collect_entries d form submitter (i # is) = do {
     es \<leftarrow> control_entries d form submitter i;
     rest \<leftarrow> collect_entries d form submitter is;
     Some (es @ rest) }"

definition construct_entry_list :: "document \<Rightarrow> node_id \<Rightarrow> node_id \<Rightarrow> form_data may_panic" where
  "construct_entry_list d form submitter = do {
     stk \<leftarrow> tt_new d;
     ids \<leftarrow> tt_collect d stk;
     collect_entries d form submitter ids }"

section \<open>Submission\<close>

definition get_submitter_attr :: "document \<Rightarrow> node_id \<Rightarrow> string \<Rightarrow> string option" where
  "get_submitter_attr d submitter name = (case Option.bind (get_node d submitter) element_data of
      None \<Rightarrow> None
    | Some e \<Rightarrow> if qn_local (el_name e) = ''button'' \<and> el_attr e ''type'' = Some ''submit''
                then el_attr e name else None)"

definition get_form_attr :: "document \<Rightarrow> element_data \<Rightarrow> string \<Rightarrow> node_id \<Rightarrow> string \<Rightarrow> string option" where
  "get_form_attr d form form_local submitter submitter_local =
     (case get_submitter_attr d submitter submitter_local of Some v \<Rightarrow> Some v | None \<Rightarrow> el_attr form form_local)"

definition form_method_of :: "document \<Rightarrow> element_data \<Rightarrow> node_id \<Rightarrow> form_method" where
  "form_method_of d e submitter =
    (case Option.bind (get_form_attr d e ''method'' submitter ''formmethod'') form_method_from_str of
       Some m \<Rightarrow> m | None \<Rightarrow> FormGet)"

definition form_action_of :: "url_ops \<Rightarrow> document \<Rightarrow> element_data \<Rightarrow> node_id \<Rightarrow> string" where
  "form_action_of U d e submitter =
    (let action = (case get_form_attr d e ''action'' submitter ''formaction'' of Some a \<Rightarrow> a | None \<Rightarrow> [])
     in case resolve_url U d action of Some u \<Rightarrow> u | None \<Rightarrow> doc_url d)"

definition form_enctype_of :: "document \<Rightarrow> element_data \<Rightarrow> node_id \<Rightarrow> request_content_type" where
  "form_enctype_of d e submitter =
    (case Option.bind (get_form_attr d e ''enctype'' submitter ''formenctype'') content_type_from_str of
       Some t \<Rightarrow> t | None \<Rightarrow> FormUrlEncoded)"

text \<open>The match on scheme and method: the URL to navigate to and the resource that is posted, or
  nothing for a combination that is not implemented.\<close>
definition mutate_action :: "url_ops \<Rightarrow> string \<Rightarrow> form_method \<Rightarrow> request_content_type \<Rightarrow> form_data
    \<Rightarrow> (string \<times> body) option" where
  "mutate_action U action m enctype entry =
    (let scheme = url_scheme U action; pairs = convert_to_list_of_name_value_pairs entry in
     if scheme \<in> {''http'', ''https'', ''data''} \<and> m = FormGet
     then Some (url_set_query U action (form_urlencode U pairs), BodyEmpty)
     else if scheme \<in> {''http'', ''https''} \<and> m = FormPost then Some (action, BodyForm entry)
     else if scheme = ''mailto'' \<and> m = FormGet
     then Some (url_extend_query_pairs U pairs action, BodyEmpty)
     else if scheme = ''mailto'' \<and> m = FormPost
     then (let text = (if enctype = TextPlain
                       then percent_encode U DEFAULT_ENCODE_SET (encode_text_plain pairs)
                       else form_urlencode U pairs);
               query = (case url_query U action of Some q \<Rightarrow> q @ ''&'' | None \<Rightarrow> [])
           in Some (url_set_query U action (query @ ''body='' @ text), BodyEmpty))
     else None)"

definition navigate_to :: "navigation_options \<Rightarrow> document \<Rightarrow> document" where
  "navigate_to n d = d\<lparr>doc_effects := doc_effects d @ [NavigateTo n]\<rparr>"

definition submit_form :: "url_ops \<Rightarrow> node_id \<Rightarrow> node_id \<Rightarrow> document \<Rightarrow> document may_panic" where
  "submit_form U form submitter d = do {
     n \<leftarrow> node_at d form;
     (case element_data n of
        None \<Rightarrow> Some d
      | Some e \<Rightarrow> do {
          entry \<leftarrow> construct_entry_list d form submitter;
          let m = form_method_of d e submitter;
          let action = form_action_of U d e submitter;
          let enctype = form_enctype_of d e submitter;
          Some (case mutate_action U action m enctype entry of
              None \<Rightarrow> d
            | Some (target, resource) \<Rightarrow>
                navigate_to
                  (set_method (case method_try_from m of Some h \<Rightarrow> h | None \<Rightarrow> GET)
                    (set_document_resource resource
                      (navigation_new target (Some (content_type_text enctype)) (doc_id d)))) d) }) }"

section \<open>Line endings\<close>

text \<open>What the standard asks for at one position: a carriage return not followed by a line feed
  and a line feed not preceded by a carriage return become the pair.\<close>
definition ending_at :: "string \<Rightarrow> nat \<Rightarrow> string" where
  "ending_at s i =
    (if s ! i = CR then if Suc i < length s \<and> s ! Suc i = LF then [CR] else [CR, LF]
     else if s ! i = LF then if 0 < i \<and> s ! (i - 1) = CR then [LF] else [CR, LF]
     else [s ! i])"

fun endings_paired :: "string \<Rightarrow> bool" where
  "endings_paired [] \<longleftrightarrow> True"
| "endings_paired (c # cs) \<longleftrightarrow>
    (if c = CR then cs \<noteq> [] \<and> hd cs = LF \<and> endings_paired (tl cs) else c \<noteq> LF \<and> endings_paired cs)"

lemma CR_LF [simp]: "CR \<noteq> LF" "LF \<noteq> CR"
  by (simp_all add: char_of_def)

lemma upt_Suc_map: "map f [0..<Suc n] = f 0 # map (\<lambda>i. f (Suc i)) [0..<n]"
  by (simp only: upt_conv_Cons zero_less_Suc if_True list.map map_Suc_upt [symmetric] map_map comp_def)

lemma ending_at_Suc: "0 < i \<or> c \<noteq> CR \<or> cs = [] \<or> hd cs \<noteq> LF \<Longrightarrow> i < length cs \<Longrightarrow>
    ending_at (c # cs) (Suc i) = ending_at cs i"
  by (cases cs; cases i) (auto simp: ending_at_def)

lemma normalize_positions: "normalize_line_endings s = concat (map (ending_at s) [0..<length s])"
proof (induction s rule: normalize_line_endings.induct)
  case (2 c cs)
  show ?case
  proof (cases "c = CR \<and> cs \<noteq> [] \<and> hd cs = LF")
    case True
    then obtain ds where cs: "cs = LF # ds" by (cases cs) auto
    have tl: "ending_at (CR # LF # ds) (Suc (Suc i)) = ending_at ds i" if "i < length ds" for i
      using that by (subst ending_at_Suc, simp, simp)+ (simp add: ending_at_Suc)
    have "concat (map (ending_at (c # cs)) [0..<length (c # cs)])
        = CR # LF # concat (map (\<lambda>i. ending_at (CR # LF # ds) (Suc (Suc i))) [0..<length ds])"
      using True cs by (simp only: length_Cons upt_Suc_map concat.simps) (simp add: ending_at_def)
    also have "\<dots> = CR # LF # concat (map (ending_at ds) [0..<length ds])"
      using tl by (intro arg_cong [where f = "\<lambda>xs. CR # LF # concat xs"] map_cong) auto
    finally show ?thesis using True 2 cs by simp
  next
    case False
    have "map (\<lambda>i. ending_at (c # cs) (Suc i)) [0..<length cs] = map (ending_at cs) [0..<length cs]"
      using False by (auto intro!: ending_at_Suc)
    moreover have "ending_at (c # cs) 0 = (if c = CR \<or> c = LF then [CR, LF] else [c])"
      using False by (cases cs) (auto simp: ending_at_def)
    moreover have "normalize_line_endings cs = concat (map (ending_at cs) [0..<length cs])"
      using False 2 by (cases "c = CR \<or> c = LF") auto
    ultimately show ?thesis using False by (simp only: length_Cons upt_Suc_map concat.simps) auto
  qed
qed simp

lemma eq_not_ending [simp]: "CHR ''='' \<noteq> CR" "CHR ''='' \<noteq> LF"
  by (simp_all add: char_of_def)

lemma endings_paired_normalize: "endings_paired (normalize_line_endings s)"
  by (induction s rule: normalize_line_endings.induct) auto

lemma normalize_paired: "endings_paired s \<Longrightarrow> normalize_line_endings s = s"
  by (induction s rule: normalize_line_endings.induct) (auto split: if_splits simp: neq_Nil_conv)

lemma endings_paired_append: "endings_paired s \<Longrightarrow> endings_paired t \<Longrightarrow> endings_paired (s @ t)"
  by (induction s rule: endings_paired.induct) (auto split: if_splits simp: neq_Nil_conv)

lemma endings_paired_text_plain:
  "endings_paired (encode_text_plain (convert_to_list_of_name_value_pairs es))"
proof (induction es)
  case (Cons e es)
  have "endings_paired (n @ CHR ''='' # v @ CR # LF # r)"
    if "endings_paired n" "endings_paired v" "endings_paired r" for n v r
    using endings_paired_append [OF that(1), of "CHR ''='' # v @ CR # LF # r"]
      endings_paired_append [OF that(2), of "CR # LF # r"] that(3) by simp
  with Cons show ?case
    by (simp add: convert_to_list_of_name_value_pairs_def endings_paired_normalize)
qed (simp add: convert_to_list_of_name_value_pairs_def)

text \<open>\<open>normalize_line_endings\<close> does at every position of the text what the HTML standard asks
  for; its result has carriage returns and line feeds in pairs only, the texts that are already
  like this are exactly the ones it leaves alone, and a \<open>text/plain\<close> body consists of such lines.\<close>
lemma line_endings_normal:
  "normalize_line_endings s = concat (map (ending_at s) [0..<length s])
   \<and> endings_paired (normalize_line_endings s)
   \<and> (normalize_line_endings s = s \<longleftrightarrow> endings_paired s)
   \<and> endings_paired (encode_text_plain (convert_to_list_of_name_value_pairs es))"
  using normalize_positions endings_paired_normalize [of s] normalize_paired [of s]
    endings_paired_text_plain by metis

section \<open>The entry list of a form\<close>

lemma ancestor_any_trancl:
  assumes wf: "wf_doc d"
  shows "nodes d i = Some n \<Longrightarrow> ancestor_any d P i
    = Some (\<exists>a m. (i, a) \<in> (parent_edges d)\<^sup>+ \<and> nodes d a = Some m \<and> P m)"
proof (induction i arbitrary: n rule: wf_induct_rule [OF wf_doc_wf_converse [OF wf]])
  case (1 i)
  show ?case
  proof (cases "parent n")
    case None
    then have "(i, a) \<notin> (parent_edges d)\<^sup>+" for a using 1(2) by (auto simp: parent_edges_def dest: tranclD)
    with None 1(2) show ?thesis by (subst ancestor_any.simps) (simp add: at_next_def get_node_simp)
  next
    case (Some p)
    with 1(2) have e: "(i, p) \<in> parent_edges d" by (simp add: parent_edges_def)
    obtain m where m: "nodes d p = Some m"
      using wf_doc_node [OF wf 1(2)] Some by (auto simp: wf_node_def)
    have IH: "ancestor_any d P p = Some (\<exists>a m. (p, a) \<in> (parent_edges d)\<^sup>+ \<and> nodes d a = Some m \<and> P m)"
      by (rule 1(1) [OF _ m]) (simp add: e)
    have up: "(i, a) \<in> (parent_edges d)\<^sup>+ \<longleftrightarrow> a = p \<or> (p, a) \<in> (parent_edges d)\<^sup>+" for a
      using e single_valuedD [OF parent_edges_single_valued e]
      by (metis r_into_trancl trancl_into_trancl2 tranclD rtrancl_eq_or_trancl)
    from Some 1(2) m IH show ?thesis
      by (subst ancestor_any.simps) (auto simp: at_next_def get_node_simp node_at_simp up)
  qed
qed

text \<open>The controls whose values belong to the form, in the words of the standard.\<close>
definition contributes :: "document \<Rightarrow> node_id \<Rightarrow> node_id \<Rightarrow> node_id \<Rightarrow> bool" where
  "contributes d form submitter i \<longleftrightarrow> controls_to_form d i = Some form
     \<and> (\<nexists>a m. (i, a) \<in> (parent_edges d)\<^sup>+ \<and> nodes d a = Some m
          \<and> is_element_with_tag_name (data m) ''datalist'')
     \<and> (\<exists>e. Option.bind (nodes d i) element_data = Some e \<and> el_attr e ''disabled'' = None
          \<and> (qn_local (el_name e) = ''button'' \<longrightarrow> i = submitter)
          \<and> (is_input e \<longrightarrow> \<not> el_type_in e [''submit'', ''button'']
               \<and> (el_type_in e [''checkbox'', ''radio''] \<longrightarrow> checkbox_input_checked e = Some True))
          \<and> el_attr e ''type'' \<noteq> Some ''image'' \<and> el_attr e ''name'' \<notin> {None, Some []})"

text \<open>The values a named control is submitted with: of a check box or radio button its \<open>value\<close>, or
  \<open>on\<close>; of a file input each chosen file, or one empty file; of a hidden input called
  \<open>_charset_\<close> the encoding; of another control the text it holds, or its \<open>value\<close>, or nothing.\<close>
definition submitted_values :: "element_data \<Rightarrow> string \<Rightarrow> entry_value list" where
  "submitted_values e name =
    (let kind = (if is_input e then el_attr e ''type'' else None); val = el_attr e ''value'' in
     if kind \<in> {Some ''checkbox'', Some ''radio''} then [EntryString (if val = None then ''on'' else the val)]
     else if kind = Some ''file'' then (case special_data e of
         FileInput (f # fs) \<Rightarrow> map EntryFile (f # fs) | _ \<Rightarrow> [EmptyFile])
     else if kind = Some ''hidden'' \<and> to_ascii_lowercase name = ''_charset_'' then [EntryString ''UTF-8'']
     else if \<exists>text. special_data e = TextInput text then [EntryString (THE text. special_data e = TextInput text)]
     else (case val of None \<Rightarrow> [] | Some v \<Rightarrow> [EntryString v]))"

definition entries_at :: "document \<Rightarrow> node_id \<Rightarrow> form_data" where
  "entries_at d i = (let e = the (element_data (the (nodes d i))); name = the (el_attr e ''name'')
     in map (\<lambda>v. \<lparr> entry_name = name, entry_val = v \<rparr>) (submitted_values e name))"

lemma value_entries_submitted:
  "value_entries e name = map (\<lambda>v. \<lparr> entry_name = name, entry_val = v \<rparr>) (submitted_values e name)"
  by (cases "special_data e"; cases "el_attr e ''type''"; cases "el_attr e ''value''")
    (auto simp: value_entries_def submitted_values_def Let_def el_type_in_def split: list.splits)

lemma not_skipped: "\<not> skipped_control e i submitter \<longleftrightarrow> el_attr e ''disabled'' = None
    \<and> (qn_local (el_name e) = ''button'' \<longrightarrow> i = submitter)
    \<and> (is_input e \<longrightarrow> \<not> el_type_in e [''submit'', ''button'']
         \<and> (el_type_in e [''checkbox'', ''radio''] \<longrightarrow> checkbox_input_checked e = Some True))"
  unfolding skipped_control_def de_Morgan_disj de_Morgan_conj not_not imp_conv_disj by argo

lemma contributes_unskipped: "contributes d form submitter i \<longleftrightarrow> controls_to_form d i = Some form
     \<and> (\<nexists>a m. (i, a) \<in> (parent_edges d)\<^sup>+ \<and> nodes d a = Some m
          \<and> is_element_with_tag_name (data m) ''datalist'')
     \<and> (\<exists>e. Option.bind (nodes d i) element_data = Some e \<and> \<not> skipped_control e i submitter
          \<and> el_attr e ''type'' \<noteq> Some ''image'' \<and> el_attr e ''name'' \<notin> {None, Some []})"
  unfolding contributes_def not_skipped by blast

lemma control_entries_eq:
  assumes "wf_doc d" "nodes d i = Some n"
  shows "control_entries d form submitter i
    = Some (if contributes d form submitter i then entries_at d i else [])"
  using ancestor_any_trancl [OF assms, of "\<lambda>n. is_element_with_tag_name (data n) ''datalist''"] assms(2)
  by (auto simp: control_entries_def datalist_ancestor_def contributes_unskipped entries_at_def get_node_simp
      value_entries_submitted
      split: option.splits)

lemma collect_entries_eq:
  assumes "wf_doc d" "\<forall>i\<in>set is. nodes d i \<noteq> None"
  shows "collect_entries d form submitter is
    = Some (concat (map (entries_at d) (filter (contributes d form submitter) is)))"
  using assms(2) by (induction "is") (auto simp: control_entries_eq [OF assms(1)])

lemma construct_entry_list_eq:
  assumes "wf_doc d" "doc_tree d R"
  shows "construct_entry_list d form submitter
    = Some (concat (map (entries_at d) (filter (contributes d form submitter) (preorder R))))"
proof -
  have live: "\<forall>i\<in>set (preorder R). nodes d i \<noteq> None" using doc_tree_live [OF assms(2)] by blast
  obtain r where r: "nodes d (root R) = Some r" "nid r = root R"
    using doc_tree_live [OF assms(2) root_in_preorder] by metis
  have "tt_new d = Some [root R]" using assms(2) r
    by (simp add: tt_new_def root_node_def node_at_simp doc_tree_def tt_new_with_root_def)
  moreover have "tt_collect d [root R] = Some (preorder R)"
    using tt_collect_doc_tree [of d None R] assms(2) by (simp add: doc_tree_def tt_new_with_root_def)
  ultimately show ?thesis
    by (simp add: construct_entry_list_def collect_entries_eq [OF assms(1) live])
qed

section \<open>Submission\<close>

definition navigated :: "string \<Rightarrow> request_content_type \<Rightarrow> http_method \<Rightarrow> body \<Rightarrow> document \<Rightarrow> document" where
  "navigated u ct m b d = d\<lparr>doc_effects := doc_effects d @
     [NavigateTo \<lparr> nav_url = u, nav_content_type = Some (content_type_text ct), source_document = doc_id d,
        nav_method = m, document_resource = b \<rparr>]\<rparr>"

text \<open>What a submission asks for: an attribute of the submitter, when that is a \<open>button\<close> element
  whose \<open>type\<close> attribute is \<open>submit\<close> and it has the attribute, and otherwise an attribute of the
  form.  (The standard takes it from every submit button: also from an \<open>input\<close>, from a button
  without a type, and from one whose type is in other letters.)\<close>
definition asked :: "document \<Rightarrow> element_data \<Rightarrow> node_id \<Rightarrow> string \<Rightarrow> string \<Rightarrow> string option" where
  "asked d e submitter form_name submitter_name =
    (if \<exists>s v. Option.bind (nodes d submitter) element_data = Some s \<and> qn_local (el_name s) = ''button''
         \<and> el_attr s ''type'' = Some ''submit'' \<and> el_attr s submitter_name = Some v
     then el_attr (the (Option.bind (nodes d submitter) element_data)) submitter_name
     else el_attr e form_name)"

text \<open>The pairs of an entry list with the line endings normalized position by position.\<close>
definition normal_pairs :: "form_data \<Rightarrow> (string \<times> string) list" where
  "normal_pairs es = (let normal = (\<lambda>s. concat (map (ending_at s) [0..<length s]))
     in map (\<lambda>x. (normal (entry_name x), normal (entry_text (entry_val x)))) es)"

lemma asked_form_attr: "get_form_attr d e a submitter b = asked d e submitter a b"
  by (cases "Option.bind (nodes d submitter) element_data")
    (auto simp: get_form_attr_def get_submitter_attr_def asked_def get_node_simp split: option.splits)

lemma normal_pairs_eq: "convert_to_list_of_name_value_pairs es = normal_pairs es"
  by (simp add: convert_to_list_of_name_value_pairs_def normal_pairs_def normalize_positions)

lemma method_asked: "form_method_of d e submitter =
    (let s = map_option to_ascii_lowercase (asked d e submitter ''method'' ''formmethod'')
     in if s = Some ''post'' then FormPost else if s = Some ''dialog'' then FormDialog else FormGet)"
  by (cases "asked d e submitter ''method'' ''formmethod''")
    (auto simp: form_method_of_def asked_form_attr form_method_from_str_def Let_def)

lemma action_asked: "form_action_of U d e submitter =
    (case url_join U (doc_url d) (case asked d e submitter ''action'' ''formaction'' of None \<Rightarrow> [] | Some a \<Rightarrow> a) of
       None \<Rightarrow> doc_url d | Some u \<Rightarrow> u)"
  by (auto simp: form_action_of_def asked_form_attr resolve_url_def Let_def split: option.splits)

lemma enctype_asked: "form_enctype_of d e submitter =
    (let s = asked d e submitter ''enctype'' ''formenctype''
     in if s = Some ''multipart/form-data'' then MultipartFormData
        else if s = Some ''text/plain'' then TextPlain else FormUrlEncoded)"
  by (cases "asked d e submitter ''enctype'' ''formenctype''")
    (auto simp: form_enctype_of_def asked_form_attr content_type_from_str_def Let_def)

text \<open>C23. Submitting a form of a well-formed document always returns and asks for at most one
  navigation.  Method, action and encoding are read off the attributes that \<open>asked\<close> names, with
  \<open>get\<close>, the document's own URL and URL encoding as defaults.  The entries are, in document
  order, the values of the controls the form owns that contribute (\<open>submitted_values\<close>: one for most
  controls, one for each chosen file, none for a button without a value).  A \<open>get\<close> form puts the
  normalized pairs into the query of an \<open>http\<close>, \<open>https\<close> or \<open>data\<close> URL, and adds them to the query
  of a \<open>mailto\<close> URL; a \<open>post\<close> form goes to an \<open>http\<close> or \<open>https\<close> action with the entries as they
  are, and to a \<open>mailto\<close> URL with the encoded body behind the query it has; every other
  combination, and \<open>dialog\<close>, asks for nothing.\<close>
theorem form_submission:
  assumes wf: "wf_doc d" and tree: "doc_tree d R"
    and form: "Option.bind (nodes d form) element_data = Some e"
    and es: "es = concat (map (entries_at d) (filter (contributes d form submitter) (preorder R)))"
    and m: "m = (let s = map_option to_ascii_lowercase (asked d e submitter ''method'' ''formmethod'')
      in if s = Some ''post'' then FormPost else if s = Some ''dialog'' then FormDialog else FormGet)"
    and act: "action = (case url_join U (doc_url d)
        (case asked d e submitter ''action'' ''formaction'' of None \<Rightarrow> [] | Some a \<Rightarrow> a) of
      None \<Rightarrow> doc_url d | Some u \<Rightarrow> u)"
    and ct: "ct = (let s = asked d e submitter ''enctype'' ''formenctype''
      in if s = Some ''multipart/form-data'' then MultipartFormData
         else if s = Some ''text/plain'' then TextPlain else FormUrlEncoded)"
  shows "construct_entry_list d form submitter = Some es
    \<and> submit_form U form submitter d = Some (case m of
        FormGet \<Rightarrow>
          if url_scheme U action \<in> {''http'', ''https'', ''data''}
          then navigated (url_set_query U action (form_urlencode U (normal_pairs es))) ct GET BodyEmpty d
          else if url_scheme U action = ''mailto''
          then navigated (url_extend_query_pairs U (normal_pairs es) action) ct GET BodyEmpty d else d
      | FormPost \<Rightarrow>
          if url_scheme U action \<in> {''http'', ''https''} then navigated action ct POST (BodyForm es) d
          else if url_scheme U action = ''mailto''
          then navigated (url_set_query U action
            ((case url_query U action of None \<Rightarrow> [] | Some q \<Rightarrow> q @ ''&'') @ ''body='' @
             (if ct = TextPlain
              then percent_encode U DEFAULT_ENCODE_SET
                (concat (map (\<lambda>(n, v). n @ ''='' @ v @ [CR, LF]) (normal_pairs es)))
              else form_urlencode U (normal_pairs es)))) ct POST BodyEmpty d
          else d
      | FormDialog \<Rightarrow> d)"
proof -
  have list: "construct_entry_list d form submitter = Some es"
    by (simp add: es construct_entry_list_eq [OF wf tree])
  obtain n where n: "nodes d form = Some n" "element_data n = Some e"
    using form by (auto simp: bind_eq_Some_conv)
  have eqs: "form_method_of d e submitter = m" "form_action_of U d e submitter = action"
    "form_enctype_of d e submitter = ct"
    by (simp_all only: m act ct method_asked action_asked enctype_asked)
  have sub: "submit_form U form submitter d = Some (case mutate_action U action m ct es of
      None \<Rightarrow> d | Some (u, b) \<Rightarrow> navigated u ct (case method_try_from m of Some h \<Rightarrow> h | None \<Rightarrow> GET) b d)"
    using list n by (simp add: submit_form_def node_at_simp navigated_def navigate_to_def set_method_def eqs
        set_document_resource_def navigation_new_def split: option.splits)
  let ?s = "url_scheme U action"
  have plain: "encode_text_plain ps = concat (map (\<lambda>(n, v). n @ ''='' @ v @ [CR, LF]) ps)" for ps
    by (induction ps rule: encode_text_plain.induct) simp_all
  have mut: "mutate_action U action m ct es = (case m of
      FormGet \<Rightarrow> if ?s \<in> {''http'', ''https'', ''data''} then Some (url_set_query U action (form_urlencode U (normal_pairs es)), BodyEmpty)
        else if ?s = ''mailto'' then Some (url_extend_query_pairs U (normal_pairs es) action, BodyEmpty) else None
    | FormPost \<Rightarrow> if ?s \<in> {''http'', ''https''} then Some (action, BodyForm es)
        else if ?s = ''mailto'' then Some (url_set_query U action
            ((case url_query U action of None \<Rightarrow> [] | Some q \<Rightarrow> q @ ''&'') @ ''body='' @
             (if ct = TextPlain then percent_encode U DEFAULT_ENCODE_SET
                (concat (map (\<lambda>(n, v). n @ ''='' @ v @ [CR, LF]) (normal_pairs es)))
              else form_urlencode U (normal_pairs es))), BodyEmpty) else None
    | FormDialog \<Rightarrow> None)"
    unfolding mutate_action_def normal_pairs_eq plain Let_def
    by (cases m) (simp_all only: form_method.case form_method.distinct simp_thms if_False append.assoc)
  show ?thesis
    unfolding sub list mut
    by (cases m) (simp_all only: form_method.case method_try_from_def if_distrib [of "case_option _ _"] option.case
        prod.case simp_thms)
qed

definition ex_url_ops :: url_ops where
  "ex_url_ops = \<lparr> url_join = (\<lambda>b r. Some (''http://a'' @ r)), url_scheme = takeWhile (\<lambda>c. c \<noteq> CHR '':''),
     url_query = (\<lambda>u. None), url_fragment = (\<lambda>u. None), url_until_fragment = (\<lambda>u. u),
     url_set_query = (\<lambda>u q. u @ ''?'' @ q), url_extend_query_pairs = (\<lambda>ps u. u),
     form_urlencode = (\<lambda>ps. concat (map (\<lambda>(n, v). n @ ''='' @ v) ps)), percent_encode = (\<lambda>cs s. s), percent_decode_lossy = (\<lambda>s. s) \<rparr>"

lemma ex_no_datalist: "nodes ex_form_doc a = Some m \<Longrightarrow> \<not> is_element_with_tag_name (data m) ''datalist''"
  by (auto simp: ex_form_nodes_def is_element_with_tag_name_def ex_element_def ex_name_def ex_document_data_def
      split: if_splits)

lemma ex_contributes: "filter (contributes ex_form_doc n2 n6) (preorder ex_form_tree) = [n3, n5, n6]"
proof -
  have c: "contributes ex_form_doc n2 n6 i \<longleftrightarrow> controls_to_form ex_form_doc i = Some n2
      \<and> (case map_of ex_form_nodes i of None \<Rightarrow> False | Some n \<Rightarrow> (case element_data n of None \<Rightarrow> False | Some e \<Rightarrow>
          \<not> skipped_control e i n6 \<and> el_attr e ''type'' \<noteq> Some ''image'' \<and> el_attr e ''name'' \<notin> {None, Some []}))" for i
    using ex_no_datalist by (auto simp: contributes_unskipped split: option.splits)
  show ?thesis
    by (simp add: c ex_form_preorder)
      (simp add: ex_form_nodes_def element_data_def ex_element_def ex_name_def skipped_control_def is_input_def
        el_attr_def el_type_in_def checkbox_input_checked_def)
qed

theorem form_submission_witness:
  "submit_form ex_url_ops n2 n6 ex_form_doc = Some (navigated ''http://a/s'' FormUrlEncoded POST
     (BodyForm [\<lparr> entry_name = ''q'', entry_val = EntryString ''v'' \<rparr>,
                \<lparr> entry_name = ''c'', entry_val = EntryString ''on'' \<rparr>]) ex_form_doc)"
proof -
  let ?e = "ex_element ''form'' [(''method'', ''POST''), (''action'', ''/s'')] False"
  have form: "Option.bind (nodes ex_form_doc n2) element_data = Some ?e"
    by (simp add: ex_form_nodes_def element_data_def)
  have asked: "asked ex_form_doc ?e n6 a b = el_attr ?e a" if "b \<noteq> ''type''" "b \<noteq> ''name''" for a b
    using that by (auto simp: asked_def ex_form_nodes_def element_data_def ex_element_def ex_name_def el_attr_def)
  have lower: "to_ascii_lowercase ''POST'' = ''post''" by code_simp
  have at: "el_attr ?e ''method'' = Some ''POST''" "el_attr ?e ''action'' = Some ''/s''" "el_attr ?e ''enctype'' = None"
    by (simp_all add: el_attr_def ex_element_def)
  have es: "concat (map (entries_at ex_form_doc) [n3, n5, n6])
      = [\<lparr> entry_name = ''q'', entry_val = EntryString ''v'' \<rparr>, \<lparr> entry_name = ''c'', entry_val = EntryString ''on'' \<rparr>]"
    by (simp add: entries_at_def ex_form_nodes_def element_data_def ex_element_def ex_name_def submitted_values_def
        is_input_def el_attr_def el_type_in_def)
  have "url_scheme ex_url_ops ''http://a/s'' = ''http''" "url_join ex_url_ops b ''/s'' = Some ''http://a/s''" for b
    by (simp_all add: ex_url_ops_def)
  then show ?thesis
    using form_submission [OF ex_form_wf ex_form_doc_tree form refl refl refl refl, of n6 ex_url_ops]
    by (simp add: asked at lower ex_contributes es del: concat.simps list.map)
qed

end
