(* ===== verification/Dom_Events.thy ===== *)
theory Dom_Events
  imports Dom_Tree Rust_String
begin

text \<open>
  The events of \<open>strake-traits/src/events.rs\<close>: what the shell delivers (\<open>UiEvent\<close>), what the
  document dispatches (\<open>DomEvent\<close>) with the tables of names, kinds, bubbling and
  cancelability, and the flags a handler may set.

  Coordinates are bits of floats.  Of the \<open>keyboard_types\<close> crate the model keeps the keys and
  the modifiers that the document looks at; the list of pressed pointers that the pointer
  events share is named by a number.
\<close>

section \<open>Payloads\<close>

record event_state =
  cancelled :: bool
  propagation_stopped :: bool
  redraw_requested :: bool

definition event_state_default :: event_state where
  "event_state_default = \<lparr> cancelled = False, propagation_stopped = False, redraw_requested = False \<rparr>"

definition prevent_default :: "event_state \<Rightarrow> event_state" where
  "prevent_default s = s\<lparr>cancelled := True\<rparr>"

definition stop_propagation :: "event_state \<Rightarrow> event_state" where
  "stop_propagation s = s\<lparr>propagation_stopped := True\<rparr>"

definition request_redraw :: "event_state \<Rightarrow> event_state" where
  "request_redraw s = s\<lparr>redraw_requested := True\<rparr>"

definition event_state_merge :: "event_state \<Rightarrow> event_state \<Rightarrow> event_state" where
  "event_state_merge s t = \<lparr> cancelled = (cancelled s \<or> cancelled t),
     propagation_stopped = (propagation_stopped s \<or> propagation_stopped t),
     redraw_requested = (redraw_requested s \<or> redraw_requested t) \<rparr>"

datatype pointer_id = Mouse | Pen | Finger u64

record pointer_coords =
  page_x :: f32
  page_y :: f32
  screen_x :: f32
  screen_y :: f32
  client_x :: f32
  client_y :: f32

record pointer_details =
  pressure :: f64
  tangential_pressure :: f32
  tilt_x :: "8 word"
  tilt_y :: "8 word"
  twist :: "16 word"
  altitude :: f64
  azimuth :: f64

text \<open>\<open>MouseEventButton\<close> and the bit set \<open>MouseEventButtons\<close>.\<close>
datatype mouse_button = Main | Auxiliary | Secondary | Fourth | Fifth

type_synonym mouse_buttons = "8 word"

definition ButtonsNone :: mouse_buttons where "ButtonsNone = 0b00000"
definition ButtonsPrimary :: mouse_buttons where "ButtonsPrimary = 0b00001"
definition ButtonsSecondary :: mouse_buttons where "ButtonsSecondary = 0b00010"
definition ButtonsAuxiliary :: mouse_buttons where "ButtonsAuxiliary = 0b00100"
definition ButtonsFourth :: mouse_buttons where "ButtonsFourth = 0b01000"
definition ButtonsFifth :: mouse_buttons where "ButtonsFifth = 0b10000"

fun buttons_from :: "mouse_button \<Rightarrow> mouse_buttons" where
  "buttons_from Main = ButtonsPrimary"
| "buttons_from Auxiliary = ButtonsAuxiliary"
| "buttons_from Secondary = ButtonsSecondary"
| "buttons_from Fourth = ButtonsFourth"
| "buttons_from Fifth = ButtonsFifth"

datatype key_modifier = SHIFT | CONTROL | ALT | META

record pointer_event =
  pe_id :: pointer_id
  is_primary :: bool
  pe_coords :: pointer_coords
  pe_button :: mouse_button
  pe_buttons :: mouse_buttons
  pe_mods :: "key_modifier set"
  pe_details :: pointer_details
  pe_element :: "f32 \<times> f32"
  active_pointers :: nat

definition is_mouse :: "pointer_event \<Rightarrow> bool" where
  "is_mouse e = (case pe_id e of Mouse \<Rightarrow> True | _ \<Rightarrow> False)"

definition is_pen :: "pointer_event \<Rightarrow> bool" where
  "is_pen e = (case pe_id e of Pen \<Rightarrow> True | _ \<Rightarrow> False)"

definition is_finger :: "pointer_event \<Rightarrow> bool" where
  "is_finger e = (case pe_id e of Finger _ \<Rightarrow> True | _ \<Rightarrow> False)"

datatype wheel_delta = Lines f64 f64 | Pixels f64 f64

record wheel_event =
  we_delta :: wheel_delta
  we_coords :: pointer_coords
  we_buttons :: mouse_buttons
  we_mods :: "key_modifier set"
  we_element :: "f32 \<times> f32"

record scroll_event =
  scroll_top :: f64
  scroll_left :: f64
  scroll_width :: "32 word"
  scroll_height :: "32 word"
  client_width :: "32 word"
  client_height :: "32 word"

datatype key = Tab | Enter | F11 | ArrowLeft | ArrowRight | ArrowUp | ArrowDown | Home | KeyEnd
  | Character string | OtherKey string

datatype key_state = Pressed | Released

definition is_pressed :: "key_state \<Rightarrow> bool" where
  "is_pressed s = (case s of Pressed \<Rightarrow> True | Released \<Rightarrow> False)"

record key_event =
  ke_key :: key
  ke_code :: string
  ke_modifiers :: "key_modifier set"
  ke_location :: nat
  is_auto_repeating :: bool
  is_composing :: bool
  ke_state :: key_state
  ke_text :: "string option"

datatype ime_event = ImeEnabled | Preedit string "(nat \<times> nat) option" | Commit string
  | DeleteSurrounding nat nat | ImeDisabled

section \<open>Events\<close>

datatype ui_event =
    UiPointerMove pointer_event | UiPointerUp pointer_event | UiPointerDown pointer_event
  | UiPointerCancel pointer_event | UiWheel wheel_event | UiKeyUp key_event | UiKeyDown key_event
  | UiIme ime_event | UiAppleStandardKeybinding string

datatype dom_event_kind =
  PointerMove | PointerDown | PointerUp | PointerCancel | PointerEnter | PointerLeave
  | PointerOver | PointerOut | MouseMove | MouseDown | MouseUp | MouseEnter | MouseLeave
  | MouseOver | MouseOut | TouchStart | TouchMove | TouchEnd | TouchCancel | Scroll | Wheel
  | Click | ContextMenu | DoubleClick | KeyPress | KeyDown | KeyUp | Input | Ime | Focus | Blur
  | FocusIn | FocusOut | AppleStandardKeybinding

datatype dom_event_data =
  EvPointerMove pointer_event | EvPointerDown pointer_event | EvPointerUp pointer_event
  | EvPointerCancel pointer_event | EvPointerEnter pointer_event | EvPointerLeave pointer_event
  | EvPointerOver pointer_event | EvPointerOut pointer_event | EvMouseMove pointer_event
  | EvMouseDown pointer_event | EvMouseUp pointer_event | EvMouseEnter pointer_event
  | EvMouseLeave pointer_event | EvMouseOver pointer_event | EvMouseOut pointer_event
  | EvTouchStart pointer_event | EvTouchMove pointer_event | EvTouchEnd pointer_event
  | EvTouchCancel pointer_event | EvScroll scroll_event | EvWheel wheel_event
  | EvClick pointer_event | EvContextMenu pointer_event | EvDoubleClick pointer_event
  | EvKeyPress key_event | EvKeyDown key_event | EvKeyUp key_event | EvInput string
  | EvIme ime_event | EvFocus | EvBlur | EvFocusIn | EvFocusOut | EvAppleStandardKeybinding string

primrec kind :: "dom_event_data \<Rightarrow> dom_event_kind" where
  "kind (EvPointerMove _) = PointerMove"
| "kind (EvPointerDown _) = PointerDown"
| "kind (EvPointerUp _) = PointerUp"
| "kind (EvPointerCancel _) = PointerCancel"
| "kind (EvPointerEnter _) = PointerEnter"
| "kind (EvPointerLeave _) = PointerLeave"
| "kind (EvPointerOver _) = PointerOver"
| "kind (EvPointerOut _) = PointerOut"
| "kind (EvMouseMove _) = MouseMove"
| "kind (EvMouseDown _) = MouseDown"
| "kind (EvMouseUp _) = MouseUp"
| "kind (EvMouseEnter _) = MouseEnter"
| "kind (EvMouseLeave _) = MouseLeave"
| "kind (EvMouseOver _) = MouseOver"
| "kind (EvMouseOut _) = MouseOut"
| "kind (EvTouchStart _) = TouchStart"
| "kind (EvTouchMove _) = TouchMove"
| "kind (EvTouchEnd _) = TouchEnd"
| "kind (EvTouchCancel _) = TouchCancel"
| "kind (EvScroll _) = Scroll"
| "kind (EvWheel _) = Wheel"
| "kind (EvClick _) = Click"
| "kind (EvContextMenu _) = ContextMenu"
| "kind (EvDoubleClick _) = DoubleClick"
| "kind (EvKeyPress _) = KeyPress"
| "kind (EvKeyDown _) = KeyDown"
| "kind (EvKeyUp _) = KeyUp"
| "kind (EvInput _) = Input"
| "kind (EvIme _) = Ime"
| "kind EvFocus = Focus"
| "kind EvBlur = Blur"
| "kind EvFocusIn = FocusIn"
| "kind EvFocusOut = FocusOut"
| "kind (EvAppleStandardKeybinding _) = AppleStandardKeybinding"

primrec event_name :: "dom_event_data \<Rightarrow> string" where
  "event_name (EvPointerMove _) = ''pointermove''"
| "event_name (EvPointerDown _) = ''pointerdown''"
| "event_name (EvPointerUp _) = ''pointerup''"
| "event_name (EvPointerCancel _) = ''pointercancel''"
| "event_name (EvPointerEnter _) = ''pointerenter''"
| "event_name (EvPointerLeave _) = ''pointerleave''"
| "event_name (EvPointerOver _) = ''pointerover''"
| "event_name (EvPointerOut _) = ''pointerout''"
| "event_name (EvMouseMove _) = ''mousemove''"
| "event_name (EvMouseDown _) = ''mousedown''"
| "event_name (EvMouseUp _) = ''mouseup''"
| "event_name (EvMouseEnter _) = ''mouseenter''"
| "event_name (EvMouseLeave _) = ''mouseleave''"
| "event_name (EvMouseOver _) = ''mouseover''"
| "event_name (EvMouseOut _) = ''mouseout''"
| "event_name (EvTouchStart _) = ''touchstart''"
| "event_name (EvTouchMove _) = ''touchmove''"
| "event_name (EvTouchEnd _) = ''touchend''"
| "event_name (EvTouchCancel _) = ''touchcancel''"
| "event_name (EvScroll _) = ''scroll''"
| "event_name (EvWheel _) = ''wheel''"
| "event_name (EvClick _) = ''click''"
| "event_name (EvContextMenu _) = ''contextmenu''"
| "event_name (EvDoubleClick _) = ''dblclick''"
| "event_name (EvKeyPress _) = ''keypress''"
| "event_name (EvKeyDown _) = ''keydown''"
| "event_name (EvKeyUp _) = ''keyup''"
| "event_name (EvInput _) = ''input''"
| "event_name (EvIme _) = ''composition''"
| "event_name EvFocus = ''focus''"
| "event_name EvBlur = ''blur''"
| "event_name EvFocusIn = ''focusin''"
| "event_name EvFocusOut = ''focusout''"
| "event_name (EvAppleStandardKeybinding _) = ''applekeybinding''"

primrec cancelable :: "dom_event_data \<Rightarrow> bool" where
  "cancelable (EvPointerMove _) = True"
| "cancelable (EvPointerDown _) = True"
| "cancelable (EvPointerUp _) = True"
| "cancelable (EvPointerCancel _) = False"
| "cancelable (EvPointerEnter _) = False"
| "cancelable (EvPointerLeave _) = False"
| "cancelable (EvPointerOver _) = True"
| "cancelable (EvPointerOut _) = True"
| "cancelable (EvMouseMove _) = True"
| "cancelable (EvMouseDown _) = True"
| "cancelable (EvMouseUp _) = True"
| "cancelable (EvMouseEnter _) = False"
| "cancelable (EvMouseLeave _) = False"
| "cancelable (EvMouseOver _) = True"
| "cancelable (EvMouseOut _) = True"
| "cancelable (EvTouchStart _) = True"
| "cancelable (EvTouchMove _) = True"
| "cancelable (EvTouchEnd _) = True"
| "cancelable (EvTouchCancel _) = False"
| "cancelable (EvScroll _) = False"
| "cancelable (EvWheel _) = True"
| "cancelable (EvClick _) = True"
| "cancelable (EvContextMenu _) = True"
| "cancelable (EvDoubleClick _) = True"
| "cancelable (EvKeyPress _) = True"
| "cancelable (EvKeyDown _) = True"
| "cancelable (EvKeyUp _) = True"
| "cancelable (EvInput _) = False"
| "cancelable (EvIme _) = True"
| "cancelable EvFocus = False"
| "cancelable EvBlur = False"
| "cancelable EvFocusIn = False"
| "cancelable EvFocusOut = False"
| "cancelable (EvAppleStandardKeybinding _) = True"

primrec bubbles :: "dom_event_data \<Rightarrow> bool" where
  "bubbles (EvPointerMove _) = True"
| "bubbles (EvPointerDown _) = True"
| "bubbles (EvPointerUp _) = True"
| "bubbles (EvPointerCancel _) = True"
| "bubbles (EvPointerEnter _) = False"
| "bubbles (EvPointerLeave _) = False"
| "bubbles (EvPointerOver _) = True"
| "bubbles (EvPointerOut _) = True"
| "bubbles (EvMouseMove _) = True"
| "bubbles (EvMouseDown _) = True"
| "bubbles (EvMouseUp _) = True"
| "bubbles (EvMouseEnter _) = False"
| "bubbles (EvMouseLeave _) = False"
| "bubbles (EvMouseOver _) = True"
| "bubbles (EvMouseOut _) = True"
| "bubbles (EvTouchStart _) = True"
| "bubbles (EvTouchMove _) = True"
| "bubbles (EvTouchEnd _) = True"
| "bubbles (EvTouchCancel _) = True"
| "bubbles (EvScroll _) = False"
| "bubbles (EvWheel _) = True"
| "bubbles (EvClick _) = True"
| "bubbles (EvContextMenu _) = True"
| "bubbles (EvDoubleClick _) = True"
| "bubbles (EvKeyPress _) = True"
| "bubbles (EvKeyDown _) = True"
| "bubbles (EvKeyUp _) = True"
| "bubbles (EvInput _) = True"
| "bubbles (EvIme _) = True"
| "bubbles EvFocus = False"
| "bubbles EvBlur = False"
| "bubbles EvFocusIn = True"
| "bubbles EvFocusOut = True"
| "bubbles (EvAppleStandardKeybinding _) = False"

text \<open>The arms of \<open>DomEventKind::from_str\<close>.\<close>
definition kind_table :: "(string \<times> dom_event_kind) list" where
  "kind_table = [
    (''pointermove'', PointerMove), (''pointerdown'', PointerDown), (''pointerup'', PointerUp)
    , (''pointercancel'', PointerCancel), (''pointerenter'', PointerEnter)
    , (''pointerleave'', PointerLeave), (''pointerover'', PointerOver)
    , (''pointerout'', PointerOut), (''mousemove'', MouseMove), (''mousedown'', MouseDown)
    , (''mouseup'', MouseUp), (''mouseenter'', MouseEnter), (''mouseleave'', MouseLeave)
    , (''mouseover'', MouseOver), (''mouseout'', MouseOut), (''touchstart'', TouchStart)
    , (''touchmove'', TouchMove), (''touchend'', TouchEnd), (''touchcancel'', TouchCancel)
    , (''scroll'', Scroll), (''wheel'', Wheel), (''click'', Click), (''contextmenu'', ContextMenu)
    , (''dblclick'', DoubleClick), (''keypress'', KeyPress), (''keydown'', KeyDown)
    , (''keyup'', KeyUp), (''input'', Input), (''composition'', Ime), (''focus'', Focus)
    , (''blur'', Blur), (''focusin'', FocusIn), (''focusout'', FocusOut)]"

definition kind_from_str :: "string \<Rightarrow> dom_event_kind option" where
  "kind_from_str s = map_of kind_table (trim_start_matches ''on'' s)"

record dom_event =
  ev_target :: node_id
  ev_bubbles :: bool
  ev_cancelable :: bool
  ev_data :: dom_event_data
  ev_request_redraw :: bool

definition dom_event_new :: "node_id \<Rightarrow> dom_event_data \<Rightarrow> dom_event" where
  "dom_event_new i dat = \<lparr> ev_target = i, ev_bubbles = bubbles dat, ev_cancelable = cancelable dat,
     ev_data = dat, ev_request_redraw = False \<rparr>"

lemma dom_event_new_simps [simp]:
  "ev_target (dom_event_new i dat) = i" "ev_data (dom_event_new i dat) = dat"
  "ev_bubbles (dom_event_new i dat) = bubbles dat" "ev_cancelable (dom_event_new i dat) = cancelable dat"
  by (simp_all add: dom_event_new_def)

section \<open>Names and kinds\<close>

lemma event_name_no_on: "\<not> prefix ''on'' (event_name a)"
  by (cases a) simp_all

lemma kind_surj: "\<exists>a. kind a = k"
  by (cases k) (metis kind.simps)+

lemma kind_table_names: "\<forall>(s, k)\<in>set kind_table. \<exists>a. kind a = k \<and> event_name a = s \<and> k \<noteq> AppleStandardKeybinding"
  unfolding kind_table_def list.set ball_simps prod.case
  by (intro conjI TrueI; metis kind.simps event_name.simps dom_event_kind.distinct)

lemma kind_table_complete: "map_of kind_table (event_name a) = (if kind a = AppleStandardKeybinding then None else Some (kind a))"
  by (cases a) (simp_all add: kind_table_def)

text \<open>The kind determines the name.\<close>
lemma event_name_of_kind: "event_name a = (case map_of (map (\<lambda>(s, k). (k, s)) kind_table) (kind a) of
    Some s \<Rightarrow> s | None \<Rightarrow> ''applekeybinding'')"
  by (cases a) (simp_all add: kind_table_def)

lemma event_name_eq: "event_name a = event_name b \<longleftrightarrow> kind a = kind b"
proof
  assume "event_name a = event_name b"
  then show "kind a = kind b"
    using kind_table_complete [of a] kind_table_complete [of b] by (auto split: if_splits)
qed (simp only: event_name_of_kind)

text \<open>Event names and event kinds correspond to each other, and \<open>DomEventKind::from_str\<close> reads
  a name back, with any number of leading copies of \<open>on\<close>, as exactly the kind whose name it is;
  the one name it does not read is that of the platform key binding.\<close>
lemma event_names_round_trip:
  "(event_name a = event_name b \<longleftrightarrow> kind a = kind b)
   \<and> kind_from_str (concat (replicate n ''on'') @ event_name a)
       = (if kind a = AppleStandardKeybinding then None else Some (kind a))
   \<and> (kind_from_str s = Some k \<longleftrightarrow>
       k \<noteq> AppleStandardKeybinding \<and> (\<exists>c. kind c = k \<and> trim_start_matches ''on'' s = event_name c))"
proof (intro conjI)
  show "event_name a = event_name b \<longleftrightarrow> kind a = kind b" by (rule event_name_eq)
  have "trim_start_matches ''on'' (concat (replicate n ''on'') @ event_name a) = event_name a"
  proof (induction n)
    case 0
    show ?case by (simp add: trim_start_matches_done event_name_no_on del: event_name.simps)
  next
    case (Suc n)
    have "concat (replicate (Suc n) ''on'') @ event_name a = ''on'' @ (concat (replicate n ''on'') @ event_name a)"
      by simp
    then show ?case using Suc trim_start_matches_once [of "''on''"] by (metis list.distinct(1))
  qed
  then show "kind_from_str (concat (replicate n ''on'') @ event_name a)
      = (if kind a = AppleStandardKeybinding then None else Some (kind a))"
    by (simp only: kind_from_str_def kind_table_complete)
  show "kind_from_str s = Some k \<longleftrightarrow>
      k \<noteq> AppleStandardKeybinding \<and> (\<exists>c. kind c = k \<and> trim_start_matches ''on'' s = event_name c)"
  proof
    assume "kind_from_str s = Some k"
    then have "(trim_start_matches ''on'' s, k) \<in> set kind_table"
      by (simp add: kind_from_str_def map_of_SomeD)
    then show "k \<noteq> AppleStandardKeybinding \<and> (\<exists>c. kind c = k \<and> trim_start_matches ''on'' s = event_name c)"
      using kind_table_names by fastforce
  qed (auto simp: kind_from_str_def kind_table_complete)
qed

end
