(* ===== verification/Dom_Activation.thy ===== *)
theory Dom_Activation
  imports Dom_Form Dom_Events
begin

text \<open>
  The default actions of activation: clicks (\<open>handle_click\<close> of \<open>strake-dom/src/events/pointer.rs\<close>),
  the focus events around them (\<open>events/focus.rs\<close>), keys (\<open>events/keyboard.rs\<close>) and the
  composition of text (\<open>events/ime.rs\<close>).

  The loop of \<open>handle_click\<close> climbs from the target to the root; a label restarts it at the
  control it is bound to, so that a click need not return.  What the shell, the layout and the
  text editor answer is in the record \<open>env\<close>.
\<close>

section \<open>The state and its environment\<close>

text \<open>The document, the events that were dispatched and wait in the driver's queue, and the
  events that were forwarded to a sub-document or a widget.\<close>
record act =
  act_doc :: document
  act_queue :: "dom_event list"
  act_forwarded :: "(node_id \<times> ui_event) list"

datatype generated_text_input_event = GenInput | GenSelect | GenPreEditChange | GenSubmit

record env =
  env_url :: url_ops
  env_files :: "bool \<Rightarrow> string list"
  env_click_event :: "document \<Rightarrow> node_id \<Rightarrow> key_modifier set \<Rightarrow> pointer_event"
  env_keypress :: "string \<Rightarrow> key_event \<Rightarrow> string \<times> generated_text_input_event option"
  env_keybinding :: "string \<Rightarrow> string \<Rightarrow> string \<times> generated_text_input_event option"
  env_ime :: "string \<Rightarrow> ime_event \<Rightarrow> string \<times> generated_text_input_event option"
  env_action_mod :: key_modifier
  env_selected_text :: "document \<Rightarrow> string option"
  env_fullscreen :: bool
  env_maximized :: bool
  env_decorated :: bool
  env_f64 :: f64_ops
  env_f64_text :: "f64 \<Rightarrow> string"
  env_repaint :: "16 word"

definition dispatch :: "dom_event \<Rightarrow> act \<Rightarrow> act" where
  "dispatch e s = s\<lparr>act_queue := act_queue s @ [e]\<rparr>"

definition dispatch_data :: "node_id \<Rightarrow> dom_event_data \<Rightarrow> act \<Rightarrow> act" where
  "dispatch_data i dat s = dispatch (dom_event_new i dat) s"

definition on_act :: "(document \<Rightarrow> document may_panic) \<Rightarrow> act \<Rightarrow> act may_panic" where
  "on_act f s = map_option (\<lambda>d. s\<lparr>act_doc := d\<rparr>) (f (act_doc s))"

abbreviation upd_act :: "(document \<Rightarrow> document) \<Rightarrow> act \<Rightarrow> act" where
  "upd_act f s \<equiv> s\<lparr>act_doc := f (act_doc s)\<rparr>"

section \<open>Focus events\<close>

definition focus_event_data :: "node_id option \<Rightarrow> node_id option \<Rightarrow> dom_event list" where
  "focus_event_data old new =
    (if old = new then []
     else (case old of None \<Rightarrow> [] | Some i \<Rightarrow> [dom_event_new i EvBlur, dom_event_new i EvFocusOut])
        @ (case new of None \<Rightarrow> [] | Some i \<Rightarrow> [dom_event_new i EvFocus, dom_event_new i EvFocusIn]))"

definition generate_focus_events :: "(document \<Rightarrow> document may_panic) \<Rightarrow> act \<Rightarrow> act may_panic" where
  "generate_focus_events update_focus s = do {
     old_focus \<leftarrow> get_focussed_node_id (act_doc s);
     s1 \<leftarrow> on_act update_focus s;
     new_focus \<leftarrow> get_focussed_node_id (act_doc s1);
     Some (fold dispatch (focus_event_data old_focus new_focus) s1) }"

definition focus_on :: "node_id \<Rightarrow> document \<Rightarrow> document may_panic" where
  "focus_on i d = map_option snd (set_focus_to i d)"

section \<open>Lookups of the click\<close>

definition is_submit_button :: "element_data \<Rightarrow> bool" where
  "is_submit_button e =
    (if qn_local (el_name e) \<noteq> ''button'' then False
     else let type_attr = el_attr e ''type'' in
       type_attr = Some ''submit''
       \<or> type_attr = None \<and> el_attr e ''command'' = None \<and> el_attr e ''commandfor'' = None)"

fun first_summary :: "document \<Rightarrow> node_id list \<Rightarrow> node_id option may_panic" where
  "first_summary d [] = Some None"
| "first_summary d (c # cs) = do {
     n \<leftarrow> node_at d c;
     if is_element_with_tag_name (data n) ''summary'' then Some (Some c) else first_summary d cs }"

partial_function (option) nearest_element_ancestor :: "document \<Rightarrow> node_id option \<Rightarrow> node_id option option" where
  "nearest_element_ancestor d current = (case current of
      None \<Rightarrow> Some None
    | Some i \<Rightarrow> (case get_node d i of
        None \<Rightarrow> Some None
      | Some n \<Rightarrow> if \<not> is_anonymous n \<and> downcast_element (data n) \<noteq> None then Some (Some i)
                  else nearest_element_ancestor d (parent n)))"

declare nearest_element_ancestor.simps [code]

definition resolve_fragment_scroll_target :: "env \<Rightarrow> document \<Rightarrow> string \<Rightarrow> node_id option option may_panic" where
  "resolve_fragment_scroll_target E d fragment = do {
     let decoded = percent_decode_lossy (env_url E) fragment;
     target \<leftarrow> (if decoded = [] then Some None else get_fragment_target d decoded);
     Some (case target of
         Some i \<Rightarrow> Some (Some i)
       | None \<Rightarrow> if decoded = [] \<or> to_ascii_lowercase decoded = ''top'' then Some None else None) }"

definition scroll_to_fragment :: "env \<Rightarrow> string \<Rightarrow> document \<Rightarrow> document may_panic" where
  "scroll_to_fragment E fragment d = do {
     r \<leftarrow> resolve_fragment_scroll_target E d fragment;
     Some (case r of None \<Rightarrow> d | Some t \<Rightarrow> d\<lparr>doc_effects := doc_effects d @ [ScrollTo t]\<rparr>) }"

section \<open>The arms of the click\<close>

text \<open>What an element does with a click: the loop ends there, the click is passed on to another
  element, or it goes on to the parent.\<close>
datatype click_outcome = Matched act | PassTo node_id pointer_event | Climb act

definition bool_text :: "bool \<Rightarrow> string" where
  "bool_text b = (if b then ''true'' else ''false'')"

definition toggle_at :: "node_id \<Rightarrow> document \<Rightarrow> document may_panic" where
  "toggle_at i d = snapshot_node_and i {CHECKED}
     (\<lambda>d. mark_ancestors_dirty i (update_node i (map_element (\<lambda>e. snd (toggle_checkbox e))) d)) d"

definition click_checkbox :: "node_id \<Rightarrow> act \<Rightarrow> act may_panic" where
  "click_checkbox i s = do {
     n \<leftarrow> node_at (act_doc s) i;
     let is_checked = (case element_data n of None \<Rightarrow> False | Some e \<Rightarrow> fst (toggle_checkbox e));
     s1 \<leftarrow> on_act (toggle_at i) s;
     generate_focus_events (focus_on i) (dispatch_data i (EvInput (bool_text is_checked)) s1) }"

definition click_radio :: "node_id \<Rightarrow> element_data \<Rightarrow> act \<Rightarrow> act may_panic" where
  "click_radio i e s = do {
     s1 \<leftarrow> (case el_attr e ''name'' of
         Some radio_set \<Rightarrow> on_act (toggle_radio radio_set i) s
       | None \<Rightarrow> if checkbox_input_checked e \<noteq> None then on_act (set_checked True i) s else Some s);
     generate_focus_events (focus_on i) (dispatch_data i (EvInput ''true'') s1) }"

definition click_summary :: "env \<Rightarrow> node_id \<Rightarrow> act \<Rightarrow> click_outcome may_panic" where
  "click_summary E i s = do {
     n \<leftarrow> node_at (act_doc s) i;
     (case parent n of
        None \<Rightarrow> Some (Climb s)
      | Some p \<Rightarrow> do {
          pn \<leftarrow> node_at (act_doc s) p;
          first \<leftarrow> (if is_element_with_tag_name (data pn) ''details''
                   then first_summary (act_doc s) (children pn) else Some None);
          if first \<noteq> Some i then Some (Climb s)
          else do {
            s1 \<leftarrow> on_act (toggle_details_open (env_f64 E) p) s;
            s2 \<leftarrow> generate_focus_events (focus_on i) s1;
            Some (Matched s2) } }) }"

definition click_anchor :: "env \<Rightarrow> element_data \<Rightarrow> act \<Rightarrow> click_outcome may_panic" where
  "click_anchor E e s = (case el_attr e ''href'' of
      None \<Rightarrow> Some (Climb s)
    | Some href \<Rightarrow> (case resolve_url (env_url E) (act_doc s) href of
          None \<Rightarrow> Some (Matched s)
        | Some url \<Rightarrow> (case url_fragment (env_url E) url of
              Some fragment \<Rightarrow>
                if is_same_document (env_url E) (act_doc s) url
                then map_option Matched (on_act (scroll_to_fragment E fragment) s)
                else Some (Matched (upd_act (navigate_to (navigation_new url None (doc_id (act_doc s)))) s))
            | None \<Rightarrow> Some (Matched (upd_act (navigate_to (navigation_new url None (doc_id (act_doc s)))) s)))))"

definition click_submit :: "env \<Rightarrow> node_id \<Rightarrow> act \<Rightarrow> act may_panic" where
  "click_submit E i s = (case controls_to_form (act_doc s) i of
      None \<Rightarrow> Some s
    | Some form_owner \<Rightarrow> on_act (submit_form (env_url E) form_owner i) s)"

text \<open>\<open>Path::file_name\<close>.\<close>
definition file_name :: "string \<Rightarrow> string option" where
  "file_name p = (let cs = filter (\<lambda>c. c \<noteq> [] \<and> c \<noteq> ''.'') (split_on (CHR ''/'') p) in
     if cs = [] \<or> last cs = ''..'' then None else Some (last cs))"

definition files_text :: "string list \<Rightarrow> string" where
  "files_text files = (case files of
      [] \<Rightarrow> ''No Files Selected''
    | [f] \<Rightarrow> (case file_name f of Some name \<Rightarrow> name | None \<Rightarrow> [])
    | _ \<Rightarrow> decimal (length files) @ '' Files Selected'')"

definition html_value :: qual_name where
  "html_value = \<lparr> qn_prefix = None, qn_ns = ''http://www.w3.org/1999/xhtml'', qn_local = ''value'' \<rparr>"

definition choose_files :: "string list \<Rightarrow> element_data \<Rightarrow> element_data" where
  "choose_files files e =
    (let e1 = (case files of [] \<Rightarrow> e | f # _ \<Rightarrow> e\<lparr>el_attrs := attrs_set (el_attrs e) html_value f\<rparr>)
     in e1\<lparr>special_data := (if files = [] then SpecialNone else FileInput files)\<rparr>)"

definition click_file :: "env \<Rightarrow> node_id \<Rightarrow> element_data \<Rightarrow> act \<Rightarrow> act may_panic" where
  "click_file E i e s = do {
     let files = env_files E (el_attr e ''multiple'' \<noteq> None);
     let s1 = upd_act (update_node i (map_element (choose_files files))) s;
     n \<leftarrow> node_at (act_doc s1) i;
     label \<leftarrow> (if 1 < length (children n) then Some (children n ! 1) else None);
     ln \<leftarrow> node_at (act_doc s1) label;
     text \<leftarrow> (if children ln \<noteq> [] then Some (hd (children ln)) else None);
     tn \<leftarrow> node_at (act_doc s1) text;
     (case data tn of
        Text _ \<Rightarrow> Some (upd_act (update_node text (\<lambda>n. n\<lparr>data := Text (files_text files)\<rparr>)) s1)
      | _ \<Rightarrow> None) }"

definition click_element :: "env \<Rightarrow> node_id \<Rightarrow> element_data \<Rightarrow> pointer_event \<Rightarrow> act \<Rightarrow> click_outcome may_panic" where
  "click_element E i e event s =
    (let tag = qn_local (el_name e); type_attr = el_attr e ''type'' in
     if el_attr e ''disabled'' \<noteq> None then Some (Matched s)
     else if (case special_data e of TextInput _ \<Rightarrow> True | _ \<Rightarrow> False) then Some (Matched s)
     else if tag = ''input'' \<and> type_attr = Some ''checkbox'' then map_option Matched (click_checkbox i s)
     else if tag = ''input'' \<and> type_attr = Some ''radio'' then map_option Matched (click_radio i e s)
     else if tag = ''input'' \<and> type_attr = Some ''range'' then Some (Matched s)
     else if tag = ''summary'' then click_summary E i s
     else if tag = ''label'' then do {
       target \<leftarrow> label_bound_input_element (act_doc s) i;
       Some (case target of
           None \<Rightarrow> Climb s
         | Some t \<Rightarrow> PassTo t (env_click_event E (act_doc s) t (pe_mods event))) }
     else if tag = ''a'' then click_anchor E e s
     else if (tag = ''input'' \<or> tag = ''button'') \<and> (is_submit_button e \<or> type_attr = Some ''submit'')
     then map_option Climb (click_submit E i s)
     else if tag = ''input'' \<and> type_attr = Some ''file'' then map_option Climb (click_file E i e s)
     else Some (Climb s))"

section \<open>The click\<close>

text \<open>What follows the loop: focus is cleared when nothing took the click, unless the target keeps
  the focus, and the second click of a pair is reported.\<close>
definition after_click :: "bool \<Rightarrow> node_id \<Rightarrow> pointer_event \<Rightarrow> act \<Rightarrow> act may_panic" where
  "after_click matched target event s = do {
     s1 \<leftarrow> (if matched then Some s
           else do {
             near \<leftarrow> nearest_element_ancestor (act_doc s) (Some target);
             keep_focus \<leftarrow> (case near of
                 None \<Rightarrow> Some False
               | Some i \<Rightarrow> map_option node_is_focussable (node_at (act_doc s) i));
             if keep_focus then Some s else generate_focus_events clear_focus s });
     Some (if click_count (act_doc s1) = 2 then dispatch_data target (EvDoubleClick event) s1 else s1) }"

partial_function (option) click_loop ::
    "env \<Rightarrow> node_id option \<Rightarrow> node_id \<Rightarrow> pointer_event \<Rightarrow> act \<Rightarrow> act option" where
  "click_loop E cur target event s = (case cur of
      None \<Rightarrow> after_click False target event s
    | Some i \<Rightarrow> do {
        n \<leftarrow> node_at (act_doc s) i;
        (case element_data n of
           None \<Rightarrow> click_loop E (parent n) target event s
         | Some e \<Rightarrow> do {
             r \<leftarrow> click_element E i e event s;
             (case r of
                Matched s1 \<Rightarrow> after_click True target event s1
              | PassTo t ev \<Rightarrow> do {
                  s1 \<leftarrow> click_loop E (Some t) t ev s;
                  after_click True target event s1 }
              | Climb s1 \<Rightarrow> do {
                  n1 \<leftarrow> node_at (act_doc s1) i;
                  click_loop E (parent n1) target event s1 }) }) })"

declare click_loop.simps [code]

definition handle_click :: "env \<Rightarrow> node_id \<Rightarrow> pointer_event \<Rightarrow> act \<Rightarrow> act may_panic" where
  "handle_click E target event s = click_loop E (Some target) target event s"

section \<open>Keys and composition\<close>

definition implicit_types :: "string list" where
  "implicit_types = [''text'', ''search'', ''email'', ''url'', ''tel'', ''password'', ''date'', ''month'', ''week'',
     ''time'', ''datetime-local'', ''number'']"

definition blocks_implicit :: "document \<Rightarrow> node_id \<Rightarrow> bool may_panic" where
  "blocks_implicit d i = map_option
     (\<lambda>n. case element_data n of None \<Rightarrow> False | Some e \<Rightarrow> el_type_in e implicit_types) (node_at d i)"

fun count_blocking :: "document \<Rightarrow> node_id list \<Rightarrow> nat may_panic" where
  "count_blocking d [] = Some 0"
| "count_blocking d (i # is) = do {
     b \<leftarrow> blocks_implicit d i; k \<leftarrow> count_blocking d is; Some (if b then Suc k else k) }"

definition implicit_form_submission :: "env \<Rightarrow> node_id \<Rightarrow> document \<Rightarrow> document may_panic" where
  "implicit_form_submission E text_target d = (case controls_to_form d text_target of
      None \<Rightarrow> Some d
    | Some form_owner \<Rightarrow> do {
        k \<leftarrow> count_blocking d (sorted_list_of_set {i. controls_to_form d i = Some form_owner});
        if k > 1 then Some d else submit_form (env_url E) form_owner form_owner d })"

definition apply_generated_text_input_event ::
    "env \<Rightarrow> node_id \<Rightarrow> generated_text_input_event \<Rightarrow> act \<Rightarrow> act may_panic" where
  "apply_generated_text_input_event E i ev s = do {
     n \<leftarrow> node_at (act_doc s) i;
     e \<leftarrow> element_data n;
     (case special_data e of
        TextInput text \<Rightarrow> (case ev of
            GenInput \<Rightarrow> Some (upd_act (shell RequestRedraw) (dispatch_data i (EvInput text) s))
          | GenSelect \<Rightarrow> Some (upd_act (shell RequestRedraw) s)
          | GenPreEditChange \<Rightarrow> Some (upd_act (shell RequestRedraw) s)
          | GenSubmit \<Rightarrow> on_act (implicit_form_submission E i) s)
      | _ \<Rightarrow> None) }"

text \<open>The editor's answer to an input, and what it generates.\<close>
definition edit_text ::
    "env \<Rightarrow> node_id \<Rightarrow> (string \<Rightarrow> string \<times> generated_text_input_event option) \<Rightarrow> act \<Rightarrow> act may_panic" where
  "edit_text E i edit s = do {
     n \<leftarrow> node_at (act_doc s) i;
     (case element_data n of
        None \<Rightarrow> Some s
      | Some e \<Rightarrow> (case special_data e of
            TextInput text \<Rightarrow>
              (let (text', generated) = edit text;
                   s1 = upd_act (update_node i (map_element (\<lambda>e. e\<lparr>special_data := TextInput text'\<rparr>))) s
               in case generated of
                    None \<Rightarrow> Some s1
                  | Some ev \<Rightarrow> apply_generated_text_input_event E i ev s1)
          | _ \<Rightarrow> Some s)) }"

definition handle_ime_event :: "env \<Rightarrow> ime_event \<Rightarrow> act \<Rightarrow> act may_panic" where
  "handle_ime_event E event s = (case focus_node_id (act_doc s) of
      None \<Rightarrow> Some s
    | Some i \<Rightarrow> edit_text E i (\<lambda>text. env_ime E text event) s)"

definition range_key_value :: "env \<Rightarrow> range_input \<Rightarrow> key \<Rightarrow> f64 option" where
  "range_key_value E r k = (case k of
      ArrowLeft \<Rightarrow> Some (f64_sub (env_f64 E) (range_value r) (range_step r))
    | ArrowDown \<Rightarrow> Some (f64_sub (env_f64 E) (range_value r) (range_step r))
    | ArrowRight \<Rightarrow> Some (f64_add (env_f64 E) (range_value r) (range_step r))
    | ArrowUp \<Rightarrow> Some (f64_add (env_f64 E) (range_value r) (range_step r))
    | Home \<Rightarrow> Some (range_min r)
    | KeyEnd \<Rightarrow> Some (range_max r)
    | _ \<Rightarrow> None)"

definition set_range :: "env \<Rightarrow> node_id \<Rightarrow> range_input \<Rightarrow> f64 \<Rightarrow> act \<Rightarrow> act may_panic" where
  "set_range E i r raw s = do {
      r1 \<leftarrow> set_snapped (env_f64 E) r raw;
      let s1 = upd_act (update_node i (map_element (\<lambda>e. e\<lparr>special_data := RangeInput r1\<rparr>))) s;
      if \<not> f64_eq (range_value r1) (range_value r)
      then do {
        s2 \<leftarrow> on_act (insert_damage (env_repaint E) i) s1;
        s3 \<leftarrow> on_act (mark_ancestors_dirty i) s2;
        Some (dispatch_data i (EvInput (env_f64_text E (range_value r1))) s3) }
      else Some s1 }"

definition handle_range_key :: "env \<Rightarrow> node_id \<Rightarrow> key \<Rightarrow> act \<Rightarrow> (bool \<times> act) may_panic" where
  "handle_range_key E target k s = (case Option.bind (get_node (act_doc s) target) element_data of
      None \<Rightarrow> Some (False, s)
    | Some e \<Rightarrow> if el_attr e ''type'' \<noteq> Some ''range'' then Some (False, s)
        else (case special_data e of
            RangeInput r \<Rightarrow> (case range_key_value E r k of
                None \<Rightarrow> Some (False, s)
              | Some raw \<Rightarrow> map_option (Pair True) (set_range E target r raw s))
          | _ \<Rightarrow> Some (False, s)))"

definition key_activates :: "element_data \<Rightarrow> bool" where
  "key_activates e \<longleftrightarrow> (case special_data e of TextInput _ \<Rightarrow> False | _ \<Rightarrow>
     qn_local (el_name e) = ''button'' \<or> qn_local (el_name e) = ''summary''
     \<or> is_input e \<and> \<not> el_type_in e [''hidden'', ''range'']
     \<or> qn_local (el_name e) = ''a'' \<and> el_attr e ''href'' \<noteq> None)"

definition try_keyboard_activate :: "env \<Rightarrow> node_id \<Rightarrow> key_modifier set \<Rightarrow> act \<Rightarrow> act" where
  "try_keyboard_activate E target mods s =
    (let focused = (case focus_node_id (act_doc s) of Some i \<Rightarrow> i | None \<Rightarrow> target) in
     case Option.bind (get_node (act_doc s) focused) element_data of
       None \<Rightarrow> s
     | Some e \<Rightarrow> if key_activates e
         then dispatch_data focused (EvClick (env_click_event E (act_doc s) focused mods)) s
         else s)"

definition handle_keyup :: "env \<Rightarrow> node_id \<Rightarrow> key_event \<Rightarrow> act \<Rightarrow> act" where
  "handle_keyup E target event s =
    (if is_pressed (ke_state event) then s
     else if ke_key event = Character '' '' then try_keyboard_activate E target (ke_modifiers event) s
     else s)"

datatype keyboard_or_text_input_event = KeyPressEvent key_event | AppleStandardKeyBinding string

definition is_text_input_focussed :: "document \<Rightarrow> bool" where
  "is_text_input_focussed d = (case Option.bind (focus_node_id d) (get_node d) of
      None \<Rightarrow> False
    | Some n \<Rightarrow> is_text_input n)"

text \<open>The keys that are handled before the editor; \<open>Inl\<close> is an early return.\<close>
definition handle_special_key :: "env \<Rightarrow> node_id \<Rightarrow> key_event \<Rightarrow> act \<Rightarrow> (act + act) may_panic" where
  "handle_special_key E target event s =
    (if ke_key event = Tab
     then map_option Inl (on_act (\<lambda>d. map_option snd
       (if SHIFT \<in> ke_modifiers event then focus_prev_node d else focus_next_node d)) s)
     else if ke_key event = F11 \<and> \<not> is_auto_repeating event
     then Some (Inl (upd_act (shell (SetFullscreen (\<not> env_fullscreen E))) s))
     else do {
       (consumed, s1) \<leftarrow>
         (if ke_key event \<in> {ArrowLeft, ArrowRight, ArrowUp, ArrowDown, Home, KeyEnd}
          then handle_range_key E target (ke_key event) s else Some (False, s));
       if consumed then Some (Inl s1)
       else do {
         let s2 = (if is_pressed (ke_state event) \<and> ke_key event = Enter
                   then try_keyboard_activate E target (ke_modifiers event) s1 else s1);
         Some (if is_pressed (ke_state event) \<and> env_action_mod E \<in> ke_modifiers event
                  \<and> (case ke_key event of Character c \<Rightarrow> to_ascii_lowercase c = ''c'' | _ \<Rightarrow> False)
                  \<and> \<not> is_text_input_focussed (act_doc s2)
               then (case env_selected_text E (act_doc s2) of
                   Some text \<Rightarrow> Inl (upd_act (shell (SetClipboardText text)) s2)
                 | None \<Rightarrow> Inr s2)
               else Inr s2) } })"

definition handle_key_or_input_event :: "env \<Rightarrow> node_id \<Rightarrow> keyboard_or_text_input_event \<Rightarrow> act \<Rightarrow> act may_panic" where
  "handle_key_or_input_event E target event s = do {
     r \<leftarrow> (case event of
         KeyPressEvent k \<Rightarrow> handle_special_key E target k s
       | AppleStandardKeyBinding _ \<Rightarrow> Some (Inr s));
     (case r of
        Inl s1 \<Rightarrow> Some s1
      | Inr s1 \<Rightarrow> (case focus_node_id (act_doc s1) of
            None \<Rightarrow> Some s1
          | Some i \<Rightarrow> if target \<noteq> i then Some s1
              else edit_text E i
                (case event of
                   KeyPressEvent k \<Rightarrow> (\<lambda>text. env_keypress E text k)
                 | AppleStandardKeyBinding c \<Rightarrow> (\<lambda>text. env_keybinding E text c)) s1)) }"

end
