(* ===== verification/Dom_Selection.thy ===== *)
theory Dom_Selection
  imports Dom_Interaction Dom_Form_Example
begin

text \<open>
  Text selection: \<open>strake-dom/src/selection.rs\<close> and the selection methods of \<open>document.rs\<close>.
  An endpoint on an anonymous block is stored as its parent and its index among the anonymous
  children of the layout, because layout makes such blocks anew.

  The text of an inline root belongs to the layout: \<open>txt\<close> gives the text of the
  \<open>inline_layout_data\<close> of a node, and \<open>find\<close> the inline root and offset at a point.
\<close>

section \<open>Endpoints\<close>

definition endpoint_new :: "node_id \<Rightarrow> nat \<Rightarrow> selection_endpoint" where
  "endpoint_new n off = \<lparr> node_or_parent = Some n, offset = off, sibling_index = None \<rparr>"

definition endpoint_is_some :: "selection_endpoint \<Rightarrow> bool" where
  "endpoint_is_some e \<longleftrightarrow> node_or_parent e \<noteq> None"

definition resolve_node_id :: "(node_id \<Rightarrow> nat \<Rightarrow> node_id option) \<Rightarrow> selection_endpoint \<Rightarrow> node_id option" where
  "resolve_node_id lookup e = (case (node_or_parent e, sibling_index e) of
      (Some n, None) \<Rightarrow> Some n
    | (Some p, Some k) \<Rightarrow> lookup p k
    | _ \<Rightarrow> None)"

definition set_node :: "node_id \<Rightarrow> nat \<Rightarrow> selection_endpoint \<Rightarrow> selection_endpoint" where
  "set_node n off e = e\<lparr>node_or_parent := Some n, offset := off, sibling_index := None\<rparr>"

definition set_anonymous :: "node_id \<Rightarrow> nat \<Rightarrow> nat \<Rightarrow> selection_endpoint \<Rightarrow> selection_endpoint" where
  "set_anonymous p k off e = e\<lparr>node_or_parent := Some p, offset := off, sibling_index := Some k\<rparr>"

definition text_selection_new :: "node_id \<Rightarrow> nat \<Rightarrow> node_id \<Rightarrow> nat \<Rightarrow> text_selection" where
  "text_selection_new a ao f fo = \<lparr> anchor = endpoint_new a ao, focus_end = endpoint_new f fo \<rparr>"

definition selection_is_active :: "text_selection \<Rightarrow> bool" where
  "selection_is_active s \<longleftrightarrow> endpoint_is_some (anchor s) \<and> endpoint_is_some (focus_end s)
     \<and> (node_or_parent (anchor s) \<noteq> node_or_parent (focus_end s)
        \<or> sibling_index (anchor s) \<noteq> sibling_index (focus_end s)
        \<or> offset (anchor s) \<noteq> offset (focus_end s))"

definition has_text_selection :: "document \<Rightarrow> bool" where
  "has_text_selection d = selection_is_active (selection d)"

section \<open>Anonymous blocks\<close>

definition live_anonymous :: "document \<Rightarrow> node_id \<Rightarrow> bool" where
  "live_anonymous d i = (case get_node d i of None \<Rightarrow> False | Some n \<Rightarrow> is_anonymous n)"

fun anon_index :: "document \<Rightarrow> node_id \<Rightarrow> nat \<Rightarrow> node_id list \<Rightarrow> nat option" where
  "anon_index d i k [] = None"
| "anon_index d i k (c # cs) = (if c = i then Some k
     else anon_index d i (if live_anonymous d c then Suc k else k) cs)"

definition anonymous_block_location :: "document \<Rightarrow> node_id \<Rightarrow> node_id option \<times> nat option" where
  "anonymous_block_location d i = (case get_node d i of
      None \<Rightarrow> (None, None)
    | Some n \<Rightarrow>
        if \<not> is_anonymous n then (None, None)
        else (case parent n of
            None \<Rightarrow> (None, None)
          | Some p \<Rightarrow> (case Option.bind (get_node d p) layout_children of
                None \<Rightarrow> (Some p, None)
              | Some cs \<Rightarrow> (Some p, anon_index d i 0 cs))))"

definition find_anonymous_block_by_index :: "document \<Rightarrow> node_id \<Rightarrow> nat \<Rightarrow> node_id option" where
  "find_anonymous_block_by_index d p k = (case Option.bind (get_node d p) layout_children of
      None \<Rightarrow> None
    | Some cs \<Rightarrow> (let anon = filter (live_anonymous d) cs in if k < length anon then Some (anon ! k) else None))"

section \<open>Setting the selection\<close>

definition place_endpoint :: "document \<Rightarrow> node_id \<Rightarrow> nat \<Rightarrow> selection_endpoint \<Rightarrow> selection_endpoint" where
  "place_endpoint d n off e = (case anonymous_block_location d n of
      (Some p, Some k) \<Rightarrow> set_anonymous p k off e
    | _ \<Rightarrow> e)"

definition set_text_selection :: "node_id \<Rightarrow> nat \<Rightarrow> node_id \<Rightarrow> nat \<Rightarrow> document \<Rightarrow> document" where
  "set_text_selection a ao f fo d =
    (let s = text_selection_new a ao f fo
     in d\<lparr>selection := s\<lparr>anchor := place_endpoint d a ao (anchor s),
                          focus_end := place_endpoint d f fo (focus_end s)\<rparr>\<rparr>)"

definition update_selection_focus :: "node_id \<Rightarrow> nat \<Rightarrow> document \<Rightarrow> document" where
  "update_selection_focus f fo d =
    (let s = selection d
     in d\<lparr>selection := s\<lparr>focus_end := (case anonymous_block_location d f of
          (Some p, Some k) \<Rightarrow> set_anonymous p k fo (focus_end s)
        | _ \<Rightarrow> set_node f fo (focus_end s))\<rparr>\<rparr>)"

definition extend_text_selection_to_point ::
    "(document \<Rightarrow> f32 \<times> f32 \<Rightarrow> (node_id \<times> nat) option) \<Rightarrow> f32 \<times> f32 \<Rightarrow> document \<Rightarrow> bool \<times> document" where
  "extend_text_selection_to_point find_pos p d =
    (if \<not> endpoint_is_some (anchor (selection d)) then (False, d)
     else (case find_pos d p of
         Some (n, off) \<Rightarrow> (True, shell RequestRedraw (update_selection_focus n off d))
       | None \<Rightarrow> (False, d)))"

section \<open>Reading the selection\<close>

definition node_is_in_doc :: "document \<Rightarrow> node_id \<Rightarrow> bool" where
  "node_is_in_doc d i = (case get_node d i of None \<Rightarrow> False | Some n \<Rightarrow> is_in_document (flags n))"

definition root_text :: "(node_id \<Rightarrow> string option) \<Rightarrow> document \<Rightarrow> node_id \<Rightarrow> string option" where
  "root_text txt d i = (case Option.bind (get_node d i) element_data of None \<Rightarrow> None | Some _ \<Rightarrow> txt i)"

definition range_of ::
    "node_id \<Rightarrow> nat \<Rightarrow> node_id \<Rightarrow> nat \<Rightarrow> nat \<Rightarrow> node_id \<Rightarrow> (node_id \<times> nat \<times> nat) list" where
  "range_of first_node first_offset last_node last_offset text_len i =
    (if i = first_node \<and> i = last_node
     then (let lo = min first_offset last_offset; hi = max first_offset last_offset
           in if lo < hi \<and> hi \<le> text_len then [(i, lo, hi)] else [])
     else if i = first_node then (if first_offset < text_len then [(i, first_offset, text_len)] else [])
     else if i = last_node then (if last_offset > 0 \<and> last_offset \<le> text_len then [(i, 0, last_offset)] else [])
     else if text_len > 0 then [(i, 0, text_len)] else [])"

definition get_text_selection_ranges ::
    "(node_id \<Rightarrow> string option) \<Rightarrow> document \<Rightarrow> (node_id \<times> nat \<times> nat) list may_panic" where
  "get_text_selection_ranges txt d =
    (let a = anchor (selection d); f = focus_end (selection d); lookup = find_anonymous_block_by_index d in
     case (resolve_node_id lookup a, resolve_node_id lookup f) of
       (Some an, Some fn) \<Rightarrow>
         if \<not> node_is_in_doc d an \<or> \<not> node_is_in_doc d fn then Some []
         else if an = fn then
           (let lo = min (offset a) (offset f); hi = max (offset a) (offset f)
            in Some (if lo = hi then [] else [(an, lo, hi)]))
         else do {
           roots \<leftarrow> collect_inline_roots_in_range d an fn;
           if roots = [] then Some []
           else do {
             let anchor_first = (hd roots = an \<or> hd roots \<noteq> fn);
             let (n1, o1, n2, o2) = (if anchor_first then (an, offset a, fn, offset f) else (fn, offset f, an, offset a));
             Some (concat (map (\<lambda>i. case root_text txt d i of
                 None \<Rightarrow> [] | Some t \<Rightarrow> range_of n1 o1 n2 o2 (length t) i) roots)) } }
     | _ \<Rightarrow> Some [])"

text \<open>\<open>&text[start..end]\<close> panics unless both ends are in order and on character boundaries.\<close>
definition char_boundary :: "string \<Rightarrow> nat \<Rightarrow> bool" where
  "char_boundary s k \<longleftrightarrow> k = 0 \<or> k = length s
     \<or> k < length s \<and> (let b = of_char (s ! k) :: nat in b < 128 \<or> 192 \<le> b)"

definition str_slice :: "string \<Rightarrow> nat \<Rightarrow> nat \<Rightarrow> string may_panic" where
  "str_slice s lo hi = (if lo \<le> hi \<and> hi \<le> length s \<and> char_boundary s lo \<and> char_boundary s hi
     then Some (take (hi - lo) (drop lo s)) else None)"

text \<open>The inner result is \<open>None\<close> where a \<open>?\<close> of the source leaves the function.\<close>
fun join_ranges :: "(node_id \<Rightarrow> string option) \<Rightarrow> document \<Rightarrow> string \<Rightarrow> (node_id \<times> nat \<times> nat) list
    \<Rightarrow> string option may_panic" where
  "join_ranges txt d acc [] = Some (Some acc)"
| "join_ranges txt d acc ((i, lo, hi) # rs) = (case root_text txt d i of
      None \<Rightarrow> Some None
    | Some t \<Rightarrow> if hi > length t then join_ranges txt d acc rs
        else do {
          s \<leftarrow> str_slice t lo hi;
          join_ranges txt d ((if acc = [] then [] else acc @ '' '') @ s) rs })"

definition get_selected_text :: "(node_id \<Rightarrow> string option) \<Rightarrow> document \<Rightarrow> string option may_panic" where
  "get_selected_text txt d = do {
     ranges \<leftarrow> get_text_selection_ranges txt d;
     if ranges = [] then Some None
     else do {
       r \<leftarrow> join_ranges txt d [] ranges;
       Some (case r of None \<Rightarrow> None | Some s \<Rightarrow> if s = [] then None else Some s) } }"

section \<open>Endpoints resolve to the node they were set on\<close>

lemma anon_index_nth:
  "live_anonymous d i \<Longrightarrow> i \<in> set cs \<Longrightarrow> distinct cs \<Longrightarrow>
   \<exists>j. anon_index d i k cs = Some (k + j) \<and> j < length (filter (live_anonymous d) cs)
     \<and> filter (live_anonymous d) cs ! j = i"
proof (induction cs arbitrary: k)
  case (Cons c cs)
  show ?case
  proof (cases "c = i")
    case False
    let ?k = "if live_anonymous d c then Suc k else k"
    from False Cons.prems Cons.IH [of ?k] obtain j where
      j: "anon_index d i ?k cs = Some (?k + j)" "j < length (filter (live_anonymous d) cs)"
        "filter (live_anonymous d) cs ! j = i" by auto
    then show ?thesis using False
      by (intro exI [of _ "if live_anonymous d c then Suc j else j"]) auto
  qed (use Cons.prems in auto)
qed simp

text \<open>A node that can carry a selection: an ordinary node, or an anonymous block that its parent
  lists in its layout.\<close>
definition selectable :: "document \<Rightarrow> node_id \<Rightarrow> bool" where
  "selectable d i \<longleftrightarrow> (\<exists>n. nodes d i = Some n \<and> (is_anonymous n \<longrightarrow>
     (\<exists>p m cs. parent n = Some p \<and> nodes d p = Some m \<and> layout_children m = Some cs
        \<and> distinct cs \<and> i \<in> set cs)))"

lemma resolve_place:
  assumes "selectable d i" "node_or_parent e = Some i" "sibling_index e = None"
  shows "resolve_node_id (find_anonymous_block_by_index d) (place_endpoint d i off e) = Some i"
proof -
  from assms(1) obtain n where n: "nodes d i = Some n" by (auto simp: selectable_def)
  show ?thesis
  proof (cases "is_anonymous n")
    case False
    then show ?thesis using n assms(2,3)
      by (simp add: place_endpoint_def anonymous_block_location_def get_node_simp resolve_node_id_def)
  next
    case True
    then obtain p m cs where p: "parent n = Some p" "nodes d p = Some m" "layout_children m = Some cs"
      "distinct cs" "i \<in> set cs" using assms(1) n by (auto simp: selectable_def)
    have "live_anonymous d i" using n True by (simp add: live_anonymous_def get_node_simp)
    from anon_index_nth [OF this p(5,4), of 0] obtain j where
      j: "anon_index d i 0 cs = Some j" "j < length (filter (live_anonymous d) cs)"
        "filter (live_anonymous d) cs ! j = i" by auto
    show ?thesis using n True p j
      by (simp add: place_endpoint_def anonymous_block_location_def get_node_simp resolve_node_id_def
          set_anonymous_def find_anonymous_block_by_index_def Let_def)
  qed
qed

lemma offset_place [simp]: "offset e = off \<Longrightarrow> offset (place_endpoint d i off e) = off"
  by (simp add: place_endpoint_def set_anonymous_def split: prod.splits option.splits)

lemma selection_of_set [simp]:
  "nodes (set_text_selection i a j b d) = nodes d"
  "selection (set_text_selection i a j b d) = \<lparr> anchor = place_endpoint d i a (endpoint_new i a),
     focus_end = place_endpoint d j b (endpoint_new j b) \<rparr>"
  by (simp_all add: set_text_selection_def text_selection_new_def Let_def)

lemma same_nodes_lookup:
  assumes "nodes d' = nodes d"
  shows "find_anonymous_block_by_index d' = find_anonymous_block_by_index d"
    and "anonymous_block_location d' = anonymous_block_location d"
    and "node_is_in_doc d' = node_is_in_doc d" and "root_text txt d' = root_text txt d"
proof -
  have l: "live_anonymous d' = live_anonymous d" by (simp add: live_anonymous_def get_node_simp assms fun_eq_iff)
  have "anon_index d' i k cs = anon_index d i k cs" for i k cs
    by (induction cs arbitrary: k) (simp_all add: l)
  then show "anonymous_block_location d' = anonymous_block_location d"
    by (auto simp: anonymous_block_location_def get_node_simp assms fun_eq_iff split: option.splits)
  show "find_anonymous_block_by_index d' = find_anonymous_block_by_index d"
    unfolding find_anonymous_block_by_index_def get_node_simp assms l by (rule refl)
  show "node_is_in_doc d' = node_is_in_doc d" "root_text txt d' = root_text txt d"
    by (simp_all add: node_is_in_doc_def root_text_def get_node_simp assms fun_eq_iff)
qed

text \<open>Moving the focus of a fresh selection is selecting anew.\<close>
lemma update_after_set:
  "update_selection_focus j b (set_text_selection i a k c d) = set_text_selection i a j b d"
proof -
  have "anonymous_block_location (set_text_selection i a k c d) = anonymous_block_location d"
    by (rule same_nodes_lookup) simp
  then show ?thesis
    by (auto simp: update_selection_focus_def Let_def place_endpoint_def set_node_def set_anonymous_def endpoint_new_def
        set_text_selection_def text_selection_new_def split: option.splits prod.splits)
qed

lemma drag_selects:
  "fold (\<lambda>(k, o1). update_selection_focus k o1) (pts @ [(j, b)]) (set_text_selection i a k c d)
   = set_text_selection i a j b d"
  by (induction pts arbitrary: k c) (auto simp: update_after_set)

text \<open>C24. A selection that starts at a point and is dragged over any points is the selection from the
  first to the last; both ends resolve to the nodes they were set on, anonymous blocks included.
  Within one node it has one range with its ends in order, and the selected text is that slice,
  whichever of the ends the selection started at; with both ends at one point there is none.\<close>
theorem text_selection_round_trip:
  assumes "selectable d i" "selectable d j" "node_is_in_doc d i" "root_text txt d i = Some t"
    and d': "d' = fold (\<lambda>(k, o1). update_selection_focus k o1) (pts @ [(j, b)]) (set_text_selection i a i a d)"
  shows "d' = set_text_selection i a j b d
    \<and> resolve_node_id (find_anonymous_block_by_index d') (anchor (selection d')) = Some i
    \<and> resolve_node_id (find_anonymous_block_by_index d') (focus_end (selection d')) = Some j
    \<and> (j = i \<longrightarrow> get_text_selection_ranges txt d' = Some (if a = b then [] else [(i, min a b, max a b)]))
    \<and> (j = i \<and> a \<le> length t \<and> b \<le> length t \<and> char_boundary t a \<and> char_boundary t b \<longrightarrow>
        get_selected_text txt d' = Some (if a = b then None else Some (take (max a b - min a b) (drop (min a b) t))))"
proof -
  have eq: "d' = set_text_selection i a j b d" by (simp only: d' drag_selects)
  have same: "nodes d' = nodes d" by (simp add: eq)
  note look = same_nodes_lookup [OF same]
  have res: "resolve_node_id (find_anonymous_block_by_index d') (anchor (selection d')) = Some i"
    "resolve_node_id (find_anonymous_block_by_index d') (focus_end (selection d')) = Some j"
    unfolding look(1) using resolve_place [OF assms(1)] resolve_place [OF assms(2)]
    by (simp_all add: eq endpoint_new_def)
  have off: "offset (anchor (selection d')) = a" "offset (focus_end (selection d')) = b"
    by (simp_all add: eq endpoint_new_def)
  have ranges: "get_text_selection_ranges txt d' = Some (if a = b then [] else [(i, min a b, max a b)])" if "j = i"
    using res off assms(3) that by (auto simp: get_text_selection_ranges_def look(3) Let_def)
  moreover have "get_selected_text txt d' = Some (if a = b then None else Some (take (max a b - min a b) (drop (min a b) t)))"
    if "j = i" "a \<le> length t" "b \<le> length t" "char_boundary t a" "char_boundary t b"
  proof -
    have "max a b \<le> length t" "char_boundary t (min a b)" "char_boundary t (max a b)"
      using that by (simp_all add: min_def max_def)
    moreover from this(1) have "take (max a b - min a b) (drop (min a b) t) \<noteq> []" if "a \<noteq> b"
      using that by (auto simp: min_def max_def)
    ultimately show ?thesis
      using ranges that assms(4) by (auto simp: get_selected_text_def look(4) str_slice_def)
  qed
  ultimately show ?thesis using eq res by blast
qed

text \<open>A selection made backwards.\<close>
theorem text_selection_round_trip_witness:
  "get_selected_text (\<lambda>i. if i = n5 then Some ''hello'' else None)
     (fold (\<lambda>(k, o1). update_selection_focus k o1) [(n4, 0), (n5, 1)] (set_text_selection n5 3 n5 3 ex_doc))
   = Some (Some ''el'')"
proof -
  let ?txt = "\<lambda>i. if i = n5 then Some ''hello'' else None"
  have "selectable ex_doc n5" "node_is_in_doc ex_doc n5" "root_text ?txt ex_doc n5 = Some ''hello''"
    by (simp_all add: selectable_def is_anonymous_def node_is_in_doc_def get_node_simp root_text_def element_data_def
        ex_node_def node_new_def is_in_document_def)
  note r = text_selection_round_trip [OF this(1,1,2,3) refl, of "[(n4, 0)]" 1 3,
      THEN conjunct2, THEN conjunct2, THEN conjunct2, THEN conjunct2, THEN mp]
  have "n5 = n5 \<and> 3 \<le> length ''hello'' \<and> 1 \<le> length ''hello'' \<and> char_boundary ''hello'' 3 \<and> char_boundary ''hello'' 1"
    by (simp add: char_boundary_def)
  from r [OF this] show ?thesis by (simp del: fold.simps)
qed

text \<open>The offsets survive a change of the text: a slice that no longer falls on character
  boundaries panics.\<close>
lemma stale_selection_panics:
  "get_selected_text (\<lambda>i. if i = n5 then Some [CHR ''a'', char_of (195::nat), char_of (169::nat)] else None)
     (set_text_selection n5 0 n5 2 ex_doc) = None"
proof -
  have 1: "set_text_selection n5 0 n5 2 ex_doc = ex_doc\<lparr>selection := \<lparr> anchor = endpoint_new n5 0, focus_end = endpoint_new n5 2 \<rparr>\<rparr>"
    by (simp add: set_text_selection_def text_selection_new_def place_endpoint_def anonymous_block_location_def
        get_node_simp is_anonymous_def)
  show ?thesis
    by (simp add: 1 get_selected_text_def get_text_selection_ranges_def resolve_node_id_def endpoint_new_def
        node_is_in_doc_def get_node_simp ex_node_def node_new_def is_in_document_def IS_IN_DOCUMENT_def
        root_text_def element_data_def str_slice_def char_boundary_def)
qed

end
