(* ===== verification/Dom_Pointer.thy ===== *)
theory Dom_Pointer
  imports Dom_Activation Dom_Selection
begin

text \<open>
  The default actions of pointer events (\<open>strake-dom/src/events/pointer.rs\<close>) and the window
  controls of a frameless window (\<open>events/titlebar.rs\<close>).

  The record \<open>page\<close> holds what the layout, the styles, the clock and the float unit answer: hit
  tests, distances, scrolling, the raw value of a slider.  The selection inside a text input
  belongs to the text editor.
\<close>

section \<open>The page\<close>

record hit_result =
  hit_node :: node_id
  hit_is_text :: bool

datatype user_select = SelectAuto | SelectText | SelectNone | SelectAll

datatype touch_flag = TouchAuto | TouchManipulation | TouchPanX | TouchPanY | TouchPinchZoom | TouchNone

datatype overflow = OverflowVisible | OverflowHidden | OverflowClip | OverflowScroll | OverflowAuto

text \<open>The computed styles that are read, and whether the scrollable overflow is positive.\<close>
record pointer_style =
  st_user_select :: user_select
  st_touch_action :: "touch_flag set"
  st_overflow_x :: overflow
  st_overflow_y :: overflow
  st_scroll_width :: bool
  st_scroll_height :: bool

record page =
  pg_env :: env
  pg_hit :: "document \<Rightarrow> f32 \<times> f32 \<Rightarrow> hit_result option"
  pg_thumb :: "document \<Rightarrow> f32 \<times> f32 \<Rightarrow> scrollbar_ref option"
  pg_client :: "document \<Rightarrow> f32 \<times> f32 \<Rightarrow> f32 \<times> f32"
  pg_bands :: "document \<Rightarrow> f32 \<times> f32 \<Rightarrow> bool \<times> bool \<times> bool \<times> bool"
  pg_now :: nat
  pg_millis :: u64
  pg_near :: "f32 \<Rightarrow> f32 \<Rightarrow> bool"
  pg_far :: "f32 \<Rightarrow> f32 \<Rightarrow> bool"
  pg_style :: "document \<Rightarrow> node_id \<Rightarrow> pointer_style option"
  pg_text_at :: "document \<Rightarrow> f32 \<times> f32 \<Rightarrow> (node_id \<times> nat) option"
  pg_range_raw :: "document \<Rightarrow> node_id \<Rightarrow> f32 \<Rightarrow> f64 option"
  pg_delta :: "f32 \<Rightarrow> f32 \<Rightarrow> f64"
  pg_f32 :: "f64 \<Rightarrow> f32"
  pg_thumb_delta :: "document \<Rightarrow> scrollbar_ref \<Rightarrow> f32 \<Rightarrow> f32 \<Rightarrow> f64 \<times> f64"
  pg_scroll :: "node_id option \<Rightarrow> f64 \<times> f64 \<Rightarrow> document \<Rightarrow> bool \<times> document \<times> dom_event list"
  pg_wheel_delta :: "wheel_delta \<Rightarrow> f64 \<times> f64"
  pg_f32_sub :: "f32 \<Rightarrow> f32 \<Rightarrow> f32"
  pg_position :: "document \<Rightarrow> node_id \<Rightarrow> f32 \<times> f32"
  pg_sub_scroll :: "document \<Rightarrow> node_id \<Rightarrow> f32 \<times> f32"
  pg_client_rect :: "document \<Rightarrow> node_id \<Rightarrow> (f32 \<times> f32) option"

section \<open>Frameless windows\<close>

datatype titlebar_action = ActMove | ActResize resize_direction | ActMinimize | ActMaximizeToggle
  | ActFullscreenToggle | ActClose

text \<open>The bands are north, south, west and east.\<close>
definition band_direction :: "bool \<times> bool \<times> bool \<times> bool \<Rightarrow> resize_direction option" where
  "band_direction b = (case b of
      (True, False, True, False) \<Rightarrow> Some NorthWest
    | (True, False, False, True) \<Rightarrow> Some NorthEast
    | (False, True, True, False) \<Rightarrow> Some SouthWest
    | (False, True, False, True) \<Rightarrow> Some SouthEast
    | (True, False, False, False) \<Rightarrow> Some North
    | (False, True, False, False) \<Rightarrow> Some South
    | (False, False, True, False) \<Rightarrow> Some West
    | (False, False, False, True) \<Rightarrow> Some East
    | _ \<Rightarrow> None)"

definition titlebar_resize_at_client :: "page \<Rightarrow> document \<Rightarrow> f32 \<times> f32 \<Rightarrow> resize_direction option" where
  "titlebar_resize_at_client P d p =
    (if env_decorated (pg_env P) then None
     else if env_maximized (pg_env P) \<or> env_fullscreen (pg_env P) then None
     else band_direction (pg_bands P d p))"

definition titlebar_resize_at :: "page \<Rightarrow> document \<Rightarrow> f32 \<times> f32 \<Rightarrow> resize_direction option" where
  "titlebar_resize_at P d p = titlebar_resize_at_client P d (pg_client P d p)"

definition control_of :: "element_data \<Rightarrow> titlebar_action option" where
  "control_of e =
    (if el_attr e ''data-close'' \<noteq> None then Some ActClose
     else if el_attr e ''data-minimize'' \<noteq> None then Some ActMinimize
     else if el_attr e ''data-maximize'' \<noteq> None then Some ActMaximizeToggle
     else if el_attr e ''data-fullscreen'' \<noteq> None then Some ActFullscreenToggle
     else None)"

partial_function (option) control_at :: "document \<Rightarrow> node_id option \<Rightarrow> titlebar_action option option" where
  "control_at d current = (case current of
      None \<Rightarrow> Some None
    | Some i \<Rightarrow> (case get_node d i of
        None \<Rightarrow> Some None
      | Some n \<Rightarrow> (case Option.bind (element_data n) control_of of
            Some a \<Rightarrow> Some (Some a)
          | None \<Rightarrow> control_at d (parent n))))"

declare control_at.simps [code]

partial_function (option) drag_region_at :: "document \<Rightarrow> node_id option \<Rightarrow> titlebar_action option option" where
  "drag_region_at d current = (case current of
      None \<Rightarrow> Some None
    | Some i \<Rightarrow> (case get_node d i of
        None \<Rightarrow> Some None
      | Some n \<Rightarrow> (case element_data n of
            None \<Rightarrow> drag_region_at d (parent n)
          | Some e \<Rightarrow> if el_attr e ''data-nodrag'' \<noteq> None then Some None
              else if el_attr e ''data-drag'' \<noteq> None then Some (Some ActMove)
              else drag_region_at d (parent n))))"

declare drag_region_at.simps [code]

definition titlebar_action_for_press ::
    "page \<Rightarrow> document \<Rightarrow> node_id \<Rightarrow> f32 \<times> f32 \<Rightarrow> titlebar_action option may_panic" where
  "titlebar_action_for_press P d hit_node_id p = do {
     control \<leftarrow> control_at d (Some hit_node_id);
     (case control of
        Some a \<Rightarrow> Some (Some a)
      | None \<Rightarrow>
          if env_decorated (pg_env P) then Some None
          else if env_maximized (pg_env P) \<or> env_fullscreen (pg_env P) then Some None
          else (case titlebar_resize_at P d p of
              Some dir \<Rightarrow> Some (Some (ActResize dir))
            | None \<Rightarrow> do {
                hit_element \<leftarrow> nearest_non_anonymous_ancestor d hit_node_id;
                (case hit_element of
                   None \<Rightarrow> Some None
                 | Some i \<Rightarrow> (case get_node d i of
                       None \<Rightarrow> Some None
                     | Some n \<Rightarrow> (case element_data n of
                           None \<Rightarrow> Some None
                         | Some e \<Rightarrow>
                             if node_is_focussable n \<or> el_attr e ''data-nodrag'' \<noteq> None then Some None
                             else drag_region_at d (Some i)))) })) }"

definition perform_titlebar_action :: "page \<Rightarrow> titlebar_action \<Rightarrow> document \<Rightarrow> document" where
  "perform_titlebar_action P a d =
    (let call = (case a of
         ActMove \<Rightarrow> DragWindow
       | ActResize dir \<Rightarrow> DragResizeWindow dir
       | ActMinimize \<Rightarrow> SetWindowMinimized True
       | ActMaximizeToggle \<Rightarrow> SetWindowMaximized (\<not> env_maximized (pg_env P))
       | ActFullscreenToggle \<Rightarrow> SetFullscreen (\<not> env_fullscreen (pg_env P))
       | ActClose \<Rightarrow> RequestWindowClose)
     in shell RequestRedraw (shell call d))"

section \<open>Hover\<close>

definition probe_of :: "page \<Rightarrow> document \<Rightarrow> f32 \<times> f32 \<Rightarrow> probe" where
  "probe_of P d p = \<lparr> probe_client = pg_client P d p,
     probe_hit = map_option (\<lambda>h. (hit_node h, hit_is_text h)) (pg_hit P d p),
     probe_thumb = pg_thumb P d p,
     probe_resize = titlebar_resize_at_client P d (pg_client P d p),
     probe_now = pg_now P \<rparr>"

definition hover_to :: "page \<Rightarrow> f32 \<times> f32 \<Rightarrow> document \<Rightarrow> (bool \<times> document) may_panic" where
  "hover_to P p d = set_hover_to (probe_of P d p) d"

section \<open>Panning\<close>

definition old_samples :: "u64 \<Rightarrow> pan_sample list \<Rightarrow> nat" where
  "old_samples now ss = length (takeWhile (\<lambda>s. now - sample_time s > 100) ss)"

text \<open>\<open>partition_point\<close> on samples in the order of time is the length of the old prefix; the
  difference of the times wraps.\<close>
definition pan_update :: "page \<Rightarrow> u64 \<Rightarrow> f32 \<Rightarrow> f32 \<Rightarrow> pan_state \<Rightarrow> (f64 \<times> f64) \<times> pan_state" where
  "pan_update P now sx sy st =
    (let dx = (if allow_x st then pg_delta P sx (pan_last_x st) else 0);
         dy = (if allow_y st then pg_delta P sy (pan_last_y st) else 0);
         ss = samples st @ [\<lparr> sample_time = now, sample_dx = pg_f32 P dx, sample_dy = pg_f32 P dy \<rparr>];
         kept = (if length ss > 50 \<and> now - sample_time (hd ss) > 100 then drop (old_samples now ss) ss else ss)
     in ((dx, dy), st\<lparr>pan_last_x := sx, pan_last_y := sy, samples := kept\<rparr>))"

text \<open>Whether a fling is generated; its velocity belongs to the scroll animation.\<close>
definition generates_fling :: "u64 \<Rightarrow> pan_state \<Rightarrow> bool may_panic" where
  "generates_fling now st =
    (if samples st \<noteq> [] \<and> now - sample_time (last (samples st)) < 100
     then (let k = old_samples now (samples st)
           in if k < length (samples st) then Some (now - sample_time (samples st ! k) > 0) else None)
     else Some False)"

text \<open>The axes on which a touch that starts on a node may pan: the \<open>touch-action\<close> of the node and
  its ancestors up to the scroller of the axis.\<close>
partial_function (option) pan_axes ::
    "page \<Rightarrow> document \<Rightarrow> node_id option \<Rightarrow> bool \<Rightarrow> bool \<Rightarrow> bool \<Rightarrow> bool \<Rightarrow> (bool \<times> bool) option" where
  "pan_axes P d current ax ay done_x done_y = (case current of
      None \<Rightarrow> Some (ax, ay)
    | Some i \<Rightarrow> do {
        n \<leftarrow> node_at d i;
        (case pg_style P d i of
           None \<Rightarrow> pan_axes P d (parent n) ax ay done_x done_y
         | Some st \<Rightarrow>
             let ax1 = (if \<not> done_x then ax \<and> st_touch_action st \<inter> {TouchAuto, TouchManipulation, TouchPanX} \<noteq> {} else ax);
                 ay1 = (if \<not> done_y then ay \<and> st_touch_action st \<inter> {TouchAuto, TouchManipulation, TouchPanY} \<noteq> {} else ay);
                 dx1 = (done_x \<or> st_overflow_x st \<in> {OverflowScroll, OverflowAuto} \<and> st_scroll_width st);
                 dy1 = (done_y \<or> st_overflow_y st \<in> {OverflowScroll, OverflowAuto} \<and> st_scroll_height st)
             in if (dx1 \<or> \<not> ax1) \<and> (dy1 \<or> \<not> ay1) then Some (ax1, ay1)
                else pan_axes P d (parent n) ax1 ay1 dx1 dy1) })"

declare pan_axes.simps [code]

definition touch_action_pan_axes :: "page \<Rightarrow> document \<Rightarrow> node_id \<Rightarrow> (bool \<times> bool) may_panic" where
  "touch_action_pan_axes P d i = pan_axes P d (Some i) True True False False"

section \<open>Sliders\<close>

partial_function (option) range_input_at :: "document \<Rightarrow> node_id option \<Rightarrow> node_id option option" where
  "range_input_at d current = (case current of
      None \<Rightarrow> Some None
    | Some i \<Rightarrow> (case get_node d i of
        None \<Rightarrow> Some None
      | Some n \<Rightarrow> (case (if is_anonymous n then None else downcast_element (data n)) of
            None \<Rightarrow> range_input_at d (parent n)
          | Some e \<Rightarrow> Some (if qn_local (el_name e) = ''input'' \<and> el_attr e ''type'' = Some ''range''
                               \<and> (case special_data e of RangeInput _ \<Rightarrow> True | _ \<Rightarrow> False)
                            then Some i else None))))"

declare range_input_at.simps [code]

definition set_range_value_from_x :: "page \<Rightarrow> node_id \<Rightarrow> f32 \<Rightarrow> act \<Rightarrow> act may_panic" where
  "set_range_value_from_x P i x s = (case Option.bind (get_node (act_doc s) i) element_data of
      None \<Rightarrow> Some s
    | Some e \<Rightarrow> (case special_data e of
          RangeInput r \<Rightarrow> (case pg_range_raw P (act_doc s) i x of
              None \<Rightarrow> Some s
            | Some raw \<Rightarrow> set_range (pg_env P) i r raw s)
        | _ \<Rightarrow> Some s))"

section \<open>Moving\<close>

definition scroll_chain_by :: "page \<Rightarrow> node_id option \<Rightarrow> f64 \<times> f64 \<Rightarrow> act \<Rightarrow> bool \<times> act" where
  "scroll_chain_by P i delta s =
    (let (changed, d, evs) = pg_scroll P i delta (act_doc s)
     in (changed, fold dispatch evs (s\<lparr>act_doc := d\<rparr>)))"

definition starts_selecting :: "page \<Rightarrow> document \<Rightarrow> bool may_panic" where
  "starts_selecting P d = (case mousedown_node_id d of
      None \<Rightarrow> Some False
    | Some i \<Rightarrow> do {
        n \<leftarrow> node_at d i;
        (case pg_style P d i of
           None \<Rightarrow> Some False
         | Some st \<Rightarrow>
             if st_user_select st = SelectNone then Some False
             else if st_user_select st = SelectAuto
             then (case parent n of
                 None \<Rightarrow> Some False
               | Some p \<Rightarrow> do {
                   _ \<leftarrow> node_at d p;
                   Some (case pg_style P d p of None \<Rightarrow> False | Some ps \<Rightarrow> st_user_select ps \<noteq> SelectNone) })
             else Some False) })"

text \<open>Whether the move has become a drag, and of which kind.\<close>
definition start_drag :: "page \<Rightarrow> node_id \<Rightarrow> pointer_event \<Rightarrow> document \<Rightarrow> document may_panic" where
  "start_drag P target event d =
    (let x = page_x (pe_coords event); y = page_y (pe_coords event) in
     if pe_buttons event \<noteq> ButtonsNone \<and> drag d = DragNone
        \<and> (pg_far P x (fst (mousedown_position d)) \<or> pg_far P y (snd (mousedown_position d)))
     then (case pe_id event of
         Finger _ \<Rightarrow> do {
           (ax, ay) \<leftarrow> touch_action_pan_axes P d target;
           Some (if ax \<or> ay
             then d\<lparr>drag := Panning \<lparr> pan_target = target, pan_last_x = screen_x (pe_coords event),
                 pan_last_y = screen_y (pe_coords event), allow_x = ax, allow_y = ay, samples = [] \<rparr>\<rparr>
             else d) }
       | _ \<Rightarrow> do {
           sel \<leftarrow> starts_selecting P d;
           Some (if sel then d\<lparr>drag := Selecting\<rparr> else d) })
     else Some d)"

definition extend_selection :: "page \<Rightarrow> f32 \<times> f32 \<Rightarrow> bool \<Rightarrow> act \<Rightarrow> bool \<times> act" where
  "extend_selection P p changed s =
    (let (extended, d) = extend_text_selection_to_point (pg_text_at P) p (act_doc s)
     in (changed \<or> extended, s\<lparr>act_doc := d\<rparr>))"

text \<open>The end of \<open>handle_pointermove\<close>, when neither a slider, a pan nor a thumb takes the move.\<close>
definition move_over :: "page \<Rightarrow> node_id \<Rightarrow> pointer_event \<Rightarrow> bool \<Rightarrow> act \<Rightarrow> (bool \<times> act) may_panic" where
  "move_over P target event changed s =
    (let x = page_x (pe_coords event); y = page_y (pe_coords event) in
     case pg_hit P (act_doc s) (x, y) of
       None \<Rightarrow> Some (changed, s)
     | Some hit \<Rightarrow> do {
         let s1 = (if changed then dispatch_data (hit_node hit) (EvMouseEnter event) s else s);
         near \<leftarrow> nearest_non_anonymous_ancestor (act_doc s1) (hit_node hit);
         if near \<noteq> Some target then Some (changed, s1)
         else do {
           n \<leftarrow> node_at (act_doc s1) target;
           let selecting = (pe_buttons event \<noteq> ButtonsNone \<and> drag (act_doc s1) = Selecting);
           (case downcast_element (data n) of
              None \<Rightarrow> Some (if selecting then extend_selection P (x, y) changed s1 else (changed, s1))
            | Some e \<Rightarrow>
                if el_attr e ''disabled'' \<noteq> None then Some (changed, s1)
                else (case special_data e of
                    TextInput _ \<Rightarrow> Some (changed \<or> pe_buttons event \<noteq> ButtonsNone, s1)
                  | _ \<Rightarrow> Some (if is_mouse event \<and> selecting then extend_selection P (x, y) changed s1
                               else (changed, s1)))) } })"

definition handle_pointermove :: "page \<Rightarrow> node_id \<Rightarrow> pointer_event \<Rightarrow> act \<Rightarrow> (bool \<times> act) may_panic" where
  "handle_pointermove P target event s =
    (let x = page_x (pe_coords event); y = page_y (pe_coords event) in
     case range_drag_node_id (act_doc s) of
       Some range_id \<Rightarrow> do {
         s1 \<leftarrow> set_range_value_from_x P range_id x s;
         Some (True, upd_act (shell RequestRedraw) s1) }
     | None \<Rightarrow> do {
         (changed, d1) \<leftarrow> hover_to P (x, y) (act_doc s);
         d2 \<leftarrow> start_drag P target event d1;
         let s2 = s\<lparr>act_doc := d2\<rparr>;
         (case drag d2 of
            Panning st \<Rightarrow>
              (let (delta, st') = pan_update P (pg_millis P) (screen_x (pe_coords event)) (screen_y (pe_coords event)) st
               in Some (scroll_chain_by P (Some (pan_target st)) delta (upd_act (\<lambda>d. d\<lparr>drag := Panning st'\<rparr>) s2)))
          | ScrollbarDrag sb last_pos \<Rightarrow> do {
              let pos = (case sb_axis sb of Horizontal \<Rightarrow> x | Vertical \<Rightarrow> y);
              let s3 = upd_act (\<lambda>d. d\<lparr>drag := ScrollbarDrag sb pos\<rparr>) s2;
              _ \<leftarrow> node_at (act_doc s3) (sb_node sb);
              Some (scroll_chain_by P (Some (sb_node sb)) (pg_thumb_delta P (act_doc s3) sb pos last_pos) s3) }
          | _ \<Rightarrow> move_over P target event changed s2) })"

definition handle_wheel :: "page \<Rightarrow> wheel_event \<Rightarrow> act \<Rightarrow> act" where
  "handle_wheel P event s =
    (let (changed, s1) = scroll_chain_by P (hover_node_id (act_doc s)) (pg_wheel_delta P (we_delta event)) s
     in if changed then upd_act (shell RequestRedraw) s1 else s1)"

section \<open>Pressing\<close>

definition next_click_count :: "page \<Rightarrow> f32 \<times> f32 \<Rightarrow> document \<Rightarrow> 16 word" where
  "next_click_count P p d =
    (if (case last_mousedown_time d of None \<Rightarrow> False | Some t \<Rightarrow> pg_now P - t < 500000000)
        \<and> pg_near P (fst (mousedown_position d)) (fst p) \<and> pg_near P (snd (mousedown_position d)) (snd p)
     then click_count d + 1 else 1)"

definition note_mousedown :: "page \<Rightarrow> f32 \<times> f32 \<Rightarrow> document \<Rightarrow> document" where
  "note_mousedown P p d = d\<lparr>click_count := next_click_count P p d, last_mousedown_time := Some (pg_now P),
     mousedown_position := p, drag := DragNone\<rparr>"

text \<open>A press on selectable text or on a focusable element.\<close>
definition press_selectable :: "page \<Rightarrow> node_id \<Rightarrow> f32 \<times> f32 \<Rightarrow> mouse_button \<Rightarrow> act \<Rightarrow> act may_panic" where
  "press_selectable P actual_target p button s = do {
     let s1 = upd_act (\<lambda>d. case pg_text_at P d p of
         Some (root1, off) \<Rightarrow> shell RequestRedraw (set_text_selection root1 off root1 off d)
       | None \<Rightarrow> selection_clear d) s;
     if button \<noteq> Main then Some s1
     else do {
       near \<leftarrow> nearest_element_ancestor (act_doc s1) (Some actual_target);
       (case near of
          None \<Rightarrow> Some s1
        | Some i \<Rightarrow> do {
            n \<leftarrow> node_at (act_doc s1) i;
            if node_is_focussable n then generate_focus_events (focus_on i) s1 else Some s1 }) } }"

definition press_content :: "page \<Rightarrow> hit_result \<Rightarrow> f32 \<times> f32 \<Rightarrow> mouse_button \<Rightarrow> act \<Rightarrow> act may_panic" where
  "press_content P hit p button s = do {
     n \<leftarrow> node_at (act_doc s) (hit_node hit);
     (case downcast_element (data n) of
        None \<Rightarrow> press_selectable P (hit_node hit) p button s
      | Some e \<Rightarrow>
          if el_has_attr e ''disabled'' then Some s
          else (case special_data e of
              TextInput _ \<Rightarrow> generate_focus_events (focus_on (hit_node hit)) (upd_act selection_clear s)
            | _ \<Rightarrow> press_selectable P (hit_node hit) p button s)) }"

definition press_slider :: "page \<Rightarrow> node_id \<Rightarrow> f32 \<Rightarrow> act \<Rightarrow> act may_panic" where
  "press_slider P range_id x s = do {
     s1 \<leftarrow> generate_focus_events (focus_on range_id) s;
     s2 \<leftarrow> set_range_value_from_x P range_id x (upd_act (\<lambda>d. d\<lparr>range_drag_node_id := Some range_id\<rparr>) s1);
     Some (upd_act (shell RequestRedraw) s2) }"

definition press_titlebar :: "page \<Rightarrow> titlebar_action \<Rightarrow> act \<Rightarrow> act may_panic" where
  "press_titlebar P a s = do {
     d1 \<leftarrow> set_mousedown_node_id None (perform_titlebar_action P a (act_doc s));
     (_, d2) \<leftarrow> unactive_node d1;
     Some (s\<lparr>act_doc := d2\<lparr>titlebar_press_consumed := True\<rparr>\<rparr>) }"

definition grabbed_thumb :: "page \<Rightarrow> f32 \<times> f32 \<Rightarrow> document \<Rightarrow> scrollbar_ref option" where
  "grabbed_thumb P p d = (case pg_thumb P d p of
      None \<Rightarrow> None
    | Some r \<Rightarrow> if scrollbar_visible (pg_now P) (sb_node r) d then Some r else None)"

definition handle_pointerdown :: "page \<Rightarrow> f32 \<times> f32 \<Rightarrow> mouse_button \<Rightarrow> act \<Rightarrow> act may_panic" where
  "handle_pointerdown P p button s =
    (let s0 = upd_act (note_mousedown P p) s; d = act_doc s0 in
     case pg_hit P d p of
       None \<Rightarrow> Some (upd_act selection_clear s0)
     | Some hit \<Rightarrow>
         if button = Main
         then (case grabbed_thumb P p d of
             Some sb \<Rightarrow> Some (upd_act (\<lambda>d. shell RequestRedraw
                 (d\<lparr>drag := ScrollbarDrag sb (case sb_axis sb of Horizontal \<Rightarrow> fst p | Vertical \<Rightarrow> snd p)\<rparr>)) s0)
           | None \<Rightarrow> do {
               action \<leftarrow> (if titlebar_press_consumed d then Some None
                          else titlebar_action_for_press P d (hit_node hit) p);
               (case action of
                  Some a \<Rightarrow> press_titlebar P a s0
                | None \<Rightarrow> do {
                    range_id \<leftarrow> range_input_at d (Some (hit_node hit));
                    (case range_id of
                       Some r \<Rightarrow> press_slider P r (fst p) s0
                     | None \<Rightarrow> press_content P hit p button s0) }) })
         else press_content P hit p button s0)"

section \<open>Releasing\<close>

definition debug_log_target :: "node_id \<Rightarrow> mouse_button \<Rightarrow> document \<Rightarrow> document may_panic" where
  "debug_log_target target button d = do {
     n \<leftarrow> node_at d target;
     _ \<leftarrow> (if button = Secondary
          then (case layout_parent n of None \<Rightarrow> Some n | Some p \<Rightarrow> node_at d p) else Some n);
     Some (d\<lparr>highlight_hover := False\<rparr>) }"

definition handle_pointerup :: "page \<Rightarrow> node_id \<Rightarrow> pointer_event \<Rightarrow> act \<Rightarrow> act may_panic" where
  "handle_pointerup P target event s =
    (let s0 = upd_act (\<lambda>d. d\<lparr>range_drag_node_id := None\<rparr>) s; d0 = act_doc s0 in
     if highlight_hover d0 then on_act (debug_log_target target (pe_button event)) s0
     else if titlebar_press_consumed d0
     then Some (upd_act (\<lambda>d. d\<lparr>titlebar_press_consumed := False, drag := DragNone\<rparr>) s0)
     else do {
       let mode = drag d0;
       let s1 = upd_act (\<lambda>d. d\<lparr>drag := DragNone\<rparr>) s0;
       let s2 = (case mode of
           ScrollbarDrag sb _ \<Rightarrow> upd_act (\<lambda>d. shell RequestRedraw (show_scrollbars (pg_now P) (sb_node sb) d)) s1
         | _ \<Rightarrow> s1);
       fling \<leftarrow> (case mode of Panning st \<Rightarrow> generates_fling (pg_millis P) st | _ \<Rightarrow> Some False);
       let s3 = (if fling then upd_act (shell RequestRedraw) s2 else s2);
       Some (if mode \<noteq> DragNone then s3
             else if pe_button event = Main then dispatch_data target (EvClick event) s3
             else if pe_button event = Secondary then dispatch_data target (EvContextMenu event) s3
             else s3) })"

end
