(* ===== verification/Event_Driver.thy ===== *)
theory Event_Driver
  imports Dom_Pointer
begin

text \<open>
  The dispatch of default actions (\<open>strake-dom/src/events/mod.rs\<close>) and the event driver
  (\<open>events/driver.rs\<close>), which turns the events of the shell into events on nodes, shows each to
  the handler of the page and runs its default action unless the handler cancelled it.

  The handler (the scripts of the page) is a parameter: it is given the chain of nodes, the
  event, the document and its own state, and answers with changed ones and the flags it set.
  Events that a sub-document or a widget takes over are recorded, since their states are not
  part of the document.
\<close>

section \<open>Forwarding\<close>

definition adjust_coords_for_subdocument ::
    "page \<Rightarrow> f32 \<times> f32 \<Rightarrow> f32 \<times> f32 \<Rightarrow> pointer_coords \<Rightarrow> pointer_coords" where
  "adjust_coords_for_subdocument P off viewport_scroll c =
    c\<lparr>page_x := pg_f32_sub P (page_x c) (pg_f32_sub P (fst off) (fst viewport_scroll)),
      page_y := pg_f32_sub P (page_y c) (pg_f32_sub P (snd off) (snd viewport_scroll)),
      client_x := pg_f32_sub P (client_x c) (fst off),
      client_y := pg_f32_sub P (client_y c) (snd off)\<rparr>"

text \<open>All other events are made anew by the driver of the sub-document, or have no use there.\<close>
definition map_dom_event_to_ui_event ::
    "page \<Rightarrow> f32 \<times> f32 \<Rightarrow> f32 \<times> f32 \<Rightarrow> dom_event_data \<Rightarrow> ui_event option" where
  "map_dom_event_to_ui_event P off viewport_scroll dat =
    (let adj = (\<lambda>e. e\<lparr>pe_coords := adjust_coords_for_subdocument P off viewport_scroll (pe_coords e)\<rparr>) in
     case dat of
       EvPointerMove e \<Rightarrow> Some (UiPointerMove (adj e))
     | EvPointerDown e \<Rightarrow> Some (UiPointerDown (adj e))
     | EvPointerUp e \<Rightarrow> Some (UiPointerUp (adj e))
     | EvPointerCancel e \<Rightarrow> Some (UiPointerCancel (adj e))
     | EvKeyDown e \<Rightarrow> Some (UiKeyDown e)
     | EvKeyUp e \<Rightarrow> Some (UiKeyUp e)
     | EvIme e \<Rightarrow> Some (UiIme e)
     | EvAppleStandardKeybinding c \<Rightarrow> Some (UiAppleStandardKeybinding c)
     | EvWheel e \<Rightarrow> Some (UiWheel e)
     | _ \<Rightarrow> None)"

definition forward_to :: "page \<Rightarrow> f32 \<times> f32 \<Rightarrow> dom_event \<Rightarrow> act \<Rightarrow> act may_panic" where
  "forward_to P viewport_scroll event s =
    (let i = ev_target event;
         ui = map_dom_event_to_ui_event P (pg_position P (act_doc s) i) viewport_scroll (ev_data event);
         s1 = (case ui of None \<Rightarrow> s | Some u \<Rightarrow> s\<lparr>act_forwarded := act_forwarded s @ [(i, u)]\<rparr>)
     in case ev_data event of
       EvPointerDown _ \<Rightarrow> generate_focus_events (focus_on i) s1
     | EvPointerUp _ \<Rightarrow> generate_focus_events (focus_on i) s1
     | _ \<Rightarrow> Some s1)"

section \<open>Default actions\<close>

definition set_keyboard_modality :: "bool \<Rightarrow> document \<Rightarrow> document may_panic" where
  "set_keyboard_modality armed d = do {
     r \<leftarrow> root_node d;
     (case data r of
        Document x \<Rightarrow> Some (update_node (root_node_id d) (\<lambda>n. n\<lparr>data := Document (x\<lparr>dd_keyboard_modality := armed\<rparr>)\<rparr>) d)
      | _ \<Rightarrow> None) }"

definition note_modality :: "dom_event_data \<Rightarrow> document \<Rightarrow> document may_panic" where
  "note_modality dat d = (case dat of
      EvKeyDown _ \<Rightarrow> set_keyboard_modality True d
    | EvPointerDown _ \<Rightarrow> set_keyboard_modality False d
    | _ \<Rightarrow> Some d)"

definition default_action :: "page \<Rightarrow> node_id \<Rightarrow> dom_event_data \<Rightarrow> act \<Rightarrow> act may_panic" where
  "default_action P target dat s = (case dat of
      EvPointerMove e \<Rightarrow> do {
        (changed, s1) \<leftarrow> handle_pointermove P target e s;
        Some (if changed then upd_act (shell RequestRedraw) s1 else s1) }
    | EvPointerDown e \<Rightarrow> handle_pointerdown P (page_x (pe_coords e), page_y (pe_coords e)) (pe_button e) s
    | EvPointerUp e \<Rightarrow> handle_pointerup P target e s
    | EvClick e \<Rightarrow> handle_click (pg_env P) target e s
    | EvKeyDown e \<Rightarrow> handle_key_or_input_event (pg_env P) target (KeyPressEvent e) s
    | EvKeyUp e \<Rightarrow> Some (handle_keyup (pg_env P) target e s)
    | EvAppleStandardKeybinding c \<Rightarrow> handle_key_or_input_event (pg_env P) target (AppleStandardKeyBinding c) s
    | EvIme e \<Rightarrow> handle_ime_event (pg_env P) e s
    | EvWheel e \<Rightarrow> Some (handle_wheel P e s)
    | _ \<Rightarrow> Some s)"

text \<open>The scroll offset of a focussed text input, adjusted at the end, belongs to the layout.\<close>
definition handle_dom_event :: "page \<Rightarrow> dom_event \<Rightarrow> act \<Rightarrow> act may_panic" where
  "handle_dom_event P event s = do {
     s0 \<leftarrow> on_act (note_modality (ev_data event)) s;
     n \<leftarrow> node_at (act_doc s0) (ev_target event);
     (case map_option special_data (element_data n) of
        Some SubDocument \<Rightarrow> forward_to P (pg_sub_scroll P (act_doc s0) (ev_target event)) event s0
      | Some CustomWidget \<Rightarrow> forward_to P (0, 0) event s0
      | _ \<Rightarrow> default_action P (ev_target event) (ev_data event) s0) }"

section \<open>The driver\<close>

type_synonym 's page_handler =
  "node_id list \<Rightarrow> dom_event \<Rightarrow> document \<Rightarrow> 's \<Rightarrow> event_state \<Rightarrow> dom_event \<times> document \<times> 's \<times> event_state"

record 's driver =
  drv_act :: act
  drv_script :: 's

definition noop_handler :: "'s page_handler" where
  "noop_handler ids event d s st = (event, d, s, st)"

text \<open>The event data with its coordinates, where it has some.\<close>
primrec update_coords :: "(pointer_event \<Rightarrow> pointer_event) \<Rightarrow> (wheel_event \<Rightarrow> wheel_event) \<Rightarrow> dom_event_data \<Rightarrow> dom_event_data" where
  "update_coords f g (EvPointerMove p) = EvPointerMove (f p)"
| "update_coords f g (EvPointerDown p) = EvPointerDown (f p)"
| "update_coords f g (EvPointerUp p) = EvPointerUp (f p)"
| "update_coords f g (EvPointerCancel p) = EvPointerCancel (f p)"
| "update_coords f g (EvPointerEnter p) = EvPointerEnter (f p)"
| "update_coords f g (EvPointerLeave p) = EvPointerLeave (f p)"
| "update_coords f g (EvPointerOver p) = EvPointerOver (f p)"
| "update_coords f g (EvPointerOut p) = EvPointerOut (f p)"
| "update_coords f g (EvMouseMove p) = EvMouseMove (f p)"
| "update_coords f g (EvMouseDown p) = EvMouseDown (f p)"
| "update_coords f g (EvMouseUp p) = EvMouseUp (f p)"
| "update_coords f g (EvMouseEnter p) = EvMouseEnter (f p)"
| "update_coords f g (EvMouseLeave p) = EvMouseLeave (f p)"
| "update_coords f g (EvMouseOver p) = EvMouseOver (f p)"
| "update_coords f g (EvMouseOut p) = EvMouseOut (f p)"
| "update_coords f g (EvTouchStart p) = EvTouchStart (f p)"
| "update_coords f g (EvTouchMove p) = EvTouchMove (f p)"
| "update_coords f g (EvTouchEnd p) = EvTouchEnd (f p)"
| "update_coords f g (EvTouchCancel p) = EvTouchCancel (f p)"
| "update_coords f g (EvScroll x) = EvScroll x"
| "update_coords f g (EvWheel w) = EvWheel (g w)"
| "update_coords f g (EvClick p) = EvClick (f p)"
| "update_coords f g (EvContextMenu p) = EvContextMenu (f p)"
| "update_coords f g (EvDoubleClick p) = EvDoubleClick (f p)"
| "update_coords f g (EvKeyPress x) = EvKeyPress x"
| "update_coords f g (EvKeyDown x) = EvKeyDown x"
| "update_coords f g (EvKeyUp x) = EvKeyUp x"
| "update_coords f g (EvInput x) = EvInput x"
| "update_coords f g (EvIme x) = EvIme x"
| "update_coords f g EvFocus = EvFocus"
| "update_coords f g EvBlur = EvBlur"
| "update_coords f g EvFocusIn = EvFocusIn"
| "update_coords f g EvFocusOut = EvFocusOut"
| "update_coords f g (EvAppleStandardKeybinding x) = EvAppleStandardKeybinding x"

definition adjust_element_coords :: "page \<Rightarrow> document \<Rightarrow> node_id \<Rightarrow> pointer_coords \<Rightarrow> f32 \<times> f32 \<Rightarrow> f32 \<times> f32" where
  "adjust_element_coords P d i c el = (case pg_client_rect P d i of
      None \<Rightarrow> el
    | Some (rx, ry) \<Rightarrow> (pg_f32_sub P (client_x c) rx, pg_f32_sub P (client_y c) ry))"

definition adjust_event :: "page \<Rightarrow> document \<Rightarrow> dom_event \<Rightarrow> dom_event" where
  "adjust_event P d e = e\<lparr>ev_data := update_coords
     (\<lambda>p. p\<lparr>pe_element := adjust_element_coords P d (ev_target e) (pe_coords p) (pe_element p)\<rparr>)
     (\<lambda>w. w\<lparr>we_element := adjust_element_coords P d (ev_target e) (we_coords w) (we_element w)\<rparr>)
     (ev_data e)\<rparr>"

definition event_chain :: "document \<Rightarrow> dom_event \<Rightarrow> node_id list may_panic" where
  "event_chain d e = (if ev_bubbles e then node_chain d (ev_target e) else Some [ev_target e])"

definition run_handler_event ::
    "'s page_handler \<Rightarrow> page \<Rightarrow> dom_event \<Rightarrow> event_state \<Rightarrow> 's driver \<Rightarrow> (event_state \<times> dom_event \<times> 's driver) may_panic" where
  "run_handler_event H P event st v = do {
     let d = act_doc (drv_act v);
     ids \<leftarrow> event_chain d event;
     let (event', d', s', st') = H ids (adjust_event P d event) d (drv_script v) st;
     Some (st', event', v\<lparr>drv_act := (drv_act v)\<lparr>act_doc := d'\<rparr>, drv_script := s'\<rparr>) }"

definition run_default_action :: "page \<Rightarrow> dom_event \<Rightarrow> 's driver \<Rightarrow> 's driver may_panic" where
  "run_default_action P event v = map_option (\<lambda>a. v\<lparr>drv_act := a\<rparr>) (handle_dom_event P event (drv_act v))"

text \<open>\<open>None\<close> is a panic, or events that make events for ever.\<close>
partial_function (option) process_queue :: "'s page_handler \<Rightarrow> page \<Rightarrow> 's driver \<Rightarrow> 's driver option" where
  "process_queue H P v = (case act_queue (drv_act v) of
      [] \<Rightarrow> Some v
    | event # rest \<Rightarrow> do {
        (st, event', v1) \<leftarrow> run_handler_event H P event event_state_default
          (v\<lparr>drv_act := (drv_act v)\<lparr>act_queue := rest\<rparr>\<rparr>);
        v2 \<leftarrow> (if cancelled st then Some v1 else run_default_action P event' v1);
        process_queue H P v2 })"

declare process_queue.simps [code]

definition drv_handle_dom_event :: "'s page_handler \<Rightarrow> page \<Rightarrow> dom_event \<Rightarrow> 's driver \<Rightarrow> 's driver may_panic" where
  "drv_handle_dom_event H P event v = process_queue H P (v\<lparr>drv_act := dispatch event (drv_act v)\<rparr>)"

fun handle_all :: "'s page_handler \<Rightarrow> page \<Rightarrow> dom_event list \<Rightarrow> 's driver \<Rightarrow> 's driver may_panic" where
  "handle_all H P [] v = Some v"
| "handle_all H P (e # es) v = do { v1 \<leftarrow> drv_handle_dom_event H P e v; handle_all H P es v1 }"

definition handle_pointer_event :: "'s page_handler \<Rightarrow> page \<Rightarrow> node_id \<Rightarrow> pointer_event \<Rightarrow>
    (pointer_event \<Rightarrow> dom_event_data) \<Rightarrow> (pointer_event \<Rightarrow> dom_event_data) option \<Rightarrow>
    (pointer_event \<Rightarrow> dom_event_data) \<Rightarrow> 's driver \<Rightarrow> 's driver may_panic" where
  "handle_pointer_event H P target dat make_ptr_data make_mouse_data make_touch_data v = do {
     (st, ptr_event, v1) \<leftarrow> run_handler_event H P (dom_event_new target (make_ptr_data dat)) event_state_default v;
     (st2, v2) \<leftarrow>
       (if cancelled st then Some (st, v1)
        else if is_mouse dat
        then (case make_mouse_data of
            None \<Rightarrow> Some (st, v1)
          | Some mk \<Rightarrow> map_option (\<lambda>(st, _, v). (st, v)) (run_handler_event H P (dom_event_new target (mk dat)) st v1))
        else if is_finger dat \<or> is_pen dat
        then map_option (\<lambda>(st, _, v). (st, v)) (run_handler_event H P (dom_event_new target (make_touch_data dat)) st v1)
        else Some (st, v1));
     v3 \<leftarrow> (if cancelled st2 then Some v2 else run_default_action P ptr_event v2);
     process_queue H P v3 }"

section \<open>Moving the pointer\<close>

definition first_difference_index :: "node_id list \<Rightarrow> node_id list \<Rightarrow> nat" where
  "first_difference_index old new = (case position (\<lambda>(a, b). a \<noteq> b) (zip old new) of
      Some k \<Rightarrow> k | None \<Rightarrow> min (length old) (length new))"

definition chain_of :: "document \<Rightarrow> node_id option \<Rightarrow> node_id list may_panic" where
  "chain_of d i = (case i of None \<Rightarrow> Some [] | Some j \<Rightarrow> map_option rev (node_chain d j))"

text \<open>The pointer event on a node, followed by the mouse event when the pointer is a mouse.\<close>
definition pair_event :: "pointer_event \<Rightarrow> (pointer_event \<Rightarrow> dom_event_data) \<Rightarrow>
    (pointer_event \<Rightarrow> dom_event_data) \<Rightarrow> node_id \<Rightarrow> dom_event list" where
  "pair_event e ptr mouse i =
    dom_event_new i (ptr e) # (if is_mouse e then [dom_event_new i (mouse e)] else [])"

definition out_events :: "pointer_event \<Rightarrow> node_id option \<Rightarrow> node_id list \<Rightarrow> dom_event list" where
  "out_events e old leaving = (case old of
      None \<Rightarrow> []
    | Some i \<Rightarrow> pair_event e EvPointerOut EvMouseOut i
        @ concat (map (pair_event e EvPointerLeave EvMouseLeave) leaving))"

definition over_events :: "pointer_event \<Rightarrow> node_id option \<Rightarrow> node_id list \<Rightarrow> dom_event list" where
  "over_events e new entering = (case new of
      None \<Rightarrow> []
    | Some i \<Rightarrow> pair_event e EvPointerOver EvMouseOver i
        @ concat (map (pair_event e EvPointerEnter EvMouseEnter) entering))"

definition handle_pointer_move ::
    "'s page_handler \<Rightarrow> page \<Rightarrow> pointer_event \<Rightarrow> 's driver \<Rightarrow> (node_id option \<times> 's driver) may_panic" where
  "handle_pointer_move H P e v = do {
     let prev = hover_node_id (act_doc (drv_act v));
     (changed, d1) \<leftarrow> hover_to P (page_x (pe_coords e), page_y (pe_coords e)) (act_doc (drv_act v));
     let v1 = v\<lparr>drv_act := (drv_act v)\<lparr>act_doc := d1\<rparr>\<rparr>;
     if \<not> changed then Some (prev, v1)
     else do {
       let now = hover_node_id d1;
       old_chain \<leftarrow> chain_of d1 prev;
       new_chain \<leftarrow> chain_of d1 now;
       let k = first_difference_index old_chain new_chain;
       v2 \<leftarrow> handle_all H P (out_events e prev (drop k old_chain)) v1;
       v3 \<leftarrow> handle_all H P (over_events e now (drop k new_chain)) v2;
       Some (now, v3) } }"

section \<open>Events of the shell\<close>

definition drv_on_doc :: "(document \<Rightarrow> document may_panic) \<Rightarrow> 's driver \<Rightarrow> 's driver may_panic" where
  "drv_on_doc f v = map_option (\<lambda>a. v\<lparr>drv_act := a\<rparr>) (on_act f (drv_act v))"

definition releases_touch :: "pointer_event \<Rightarrow> bool" where
  "releases_touch e \<longleftrightarrow> is_primary e \<and> is_finger e"

text \<open>The input state before the event is dispatched: the hovered node, the driver, and whether the
  hover is to be cleared afterwards.\<close>
definition update_input_state :: "'s page_handler \<Rightarrow> page \<Rightarrow> ui_event \<Rightarrow> 's driver \<Rightarrow> (node_id option \<times> bool \<times> 's driver) may_panic" where
  "update_input_state H P event v = (case event of
      UiPointerMove e \<Rightarrow> map_option (\<lambda>(h, v). (h, False, v)) (handle_pointer_move H P e v)
    | UiPointerDown e \<Rightarrow> do {
        (h, v1) \<leftarrow> handle_pointer_move H P e v;
        v2 \<leftarrow> drv_on_doc (\<lambda>d. map_option snd (active_node d)) v1;
        v3 \<leftarrow> drv_on_doc (set_mousedown_node_id h) v2;
        Some (h, False, v3) }
    | UiPointerUp e \<Rightarrow> do {
        (h, v1) \<leftarrow> handle_pointer_move H P e v;
        v2 \<leftarrow> drv_on_doc (\<lambda>d. map_option snd (unactive_node d)) v1;
        Some (h, releases_touch e, v2) }
    | UiPointerCancel e \<Rightarrow> do {
        (h, v1) \<leftarrow> handle_pointer_move H P e v;
        v2 \<leftarrow> drv_on_doc (\<lambda>d. map_option snd (unactive_node d)) v1;
        Some (h, releases_touch e, v2) }
    | _ \<Rightarrow> Some (hover_node_id (act_doc (drv_act v)), False, v))"

definition ui_target :: "ui_event \<Rightarrow> node_id option \<Rightarrow> node_id option \<Rightarrow> node_id option" where
  "ui_target event h focussed = (case event of
      UiPointerMove _ \<Rightarrow> h | UiPointerUp _ \<Rightarrow> h | UiPointerDown _ \<Rightarrow> h
    | UiPointerCancel _ \<Rightarrow> h | UiWheel _ \<Rightarrow> h
    | UiKeyUp _ \<Rightarrow> focussed | UiKeyDown _ \<Rightarrow> focussed | UiIme _ \<Rightarrow> focussed
    | UiAppleStandardKeybinding _ \<Rightarrow> focussed)"

definition dispatch_ui_event :: "'s page_handler \<Rightarrow> page \<Rightarrow> node_id \<Rightarrow> ui_event \<Rightarrow> 's driver \<Rightarrow> 's driver may_panic" where
  "dispatch_ui_event H P target event v = (case event of
      UiPointerMove e \<Rightarrow> handle_pointer_event H P target e EvPointerMove (Some EvMouseMove) EvTouchMove v
    | UiPointerUp e \<Rightarrow> handle_pointer_event H P target e EvPointerUp (Some EvMouseUp) EvTouchEnd v
    | UiPointerDown e \<Rightarrow> handle_pointer_event H P target e EvPointerDown (Some EvMouseDown) EvTouchStart v
    | UiPointerCancel e \<Rightarrow> handle_pointer_event H P target e EvPointerCancel None EvTouchCancel v
    | UiWheel e \<Rightarrow> drv_handle_dom_event H P (dom_event_new target (EvWheel e)) v
    | UiKeyUp e \<Rightarrow> drv_handle_dom_event H P (dom_event_new target (EvKeyUp e)) v
    | UiKeyDown e \<Rightarrow> drv_handle_dom_event H P (dom_event_new target (EvKeyDown e)) v
    | UiIme e \<Rightarrow> drv_handle_dom_event H P (dom_event_new target (EvIme e)) v
    | UiAppleStandardKeybinding c \<Rightarrow> do {
        v1 \<leftarrow> run_default_action P (dom_event_new target (EvAppleStandardKeybinding c)) v;
        process_queue H P v1 })"

definition handle_ui_event :: "'s page_handler \<Rightarrow> page \<Rightarrow> ui_event \<Rightarrow> 's driver \<Rightarrow> 's driver may_panic" where
  "handle_ui_event H P event v = do {
     let focussed = focus_node_id (act_doc (drv_act v));
     (h, should_clear_hover, v1) \<leftarrow> update_input_state H P event v;
     target \<leftarrow> (case ui_target event h focussed of
         Some i \<Rightarrow> Some (Some i)
       | None \<Rightarrow> map_option (map_option nid) (try_root_element (act_doc (drv_act v1))));
     (case target of
        None \<Rightarrow> Some v1
      | Some i \<Rightarrow> do {
          v2 \<leftarrow> dispatch_ui_event H P i event v1;
          if should_clear_hover then drv_on_doc (\<lambda>d. map_option snd (clear_hover d)) v2 else Some v2 }) }"

end
