(* ===== verification/Event_Example.thy ===== *)
theory Event_Example
  imports Dom_Activation
begin

text \<open>
  A concrete event and environment for the witnesses: the parameters of the activation
  behaviour, instantiated.
\<close>

definition ex_coords :: pointer_coords where
  "ex_coords = \<lparr> page_x = 0, page_y = 0, screen_x = 0, screen_y = 0, client_x = 0, client_y = 0 \<rparr>"

definition ex_mouse :: pointer_event where
  "ex_mouse = \<lparr> pe_id = Mouse, is_primary = True, pe_coords = ex_coords, pe_button = Main,
     pe_buttons = ButtonsNone, pe_mods = {},
     pe_details = \<lparr> pressure = 0, tangential_pressure = 0, tilt_x = 0, tilt_y = 0, twist = 0, altitude = 0, azimuth = 0 \<rparr>,
     pe_element = (0, 0), active_pointers = Suc 0 \<rparr>"

definition ex_env :: env where
  "ex_env = \<lparr> env_url = ex_url_ops, env_files = (\<lambda>m. []), env_click_event = (\<lambda>d i ms. ex_mouse\<lparr>pe_mods := ms\<rparr>),
     env_keypress = (\<lambda>s k. (s, None)), env_keybinding = (\<lambda>s c. (s, None)), env_ime = (\<lambda>s e. (s, None)),
     env_action_mod = CONTROL, env_selected_text = (\<lambda>d. None), env_fullscreen = False, env_maximized = False,
     env_decorated = True, env_f64 = ex_f64_ops, env_f64_text = (\<lambda>x. []),
     env_repaint = 0 \<rparr>"

end
