(* ===== verification/Dom_Click.thy ===== *)
theory Dom_Click
  imports Event_Example Dom_Focus
begin

text \<open>
  What a click does to a check box, directly or through a label: the way of the click from its
  target up to the element that takes it, the change of the check box and of the focus, and
  the events that are dispatched.
\<close>

section \<open>The way of a click\<close>

text \<open>A node that hands a click on to its parent.\<close>
definition passes_on :: "node \<Rightarrow> bool" where
  "passes_on n = (case element_data n of
      None \<Rightarrow> True
    | Some e \<Rightarrow> el_attr e ''disabled'' = None
        \<and> (case special_data e of TextInput _ \<Rightarrow> False | _ \<Rightarrow> True)
        \<and> qn_local (el_name e) \<notin> {''summary'', ''label''}
        \<and> (qn_local (el_name e) = ''a'' \<longrightarrow> el_attr e ''href'' = None)
        \<and> (qn_local (el_name e) \<in> {''input'', ''button''} \<longrightarrow> \<not> is_submit_button e \<and>
             el_attr e ''type'' \<notin> {Some ''checkbox'', Some ''radio'', Some ''range'', Some ''submit'', Some ''file''}))"

text \<open>A click on \<open>t\<close> comes to \<open>i\<close>.\<close>
inductive climbs :: "document \<Rightarrow> node_id \<Rightarrow> node_id \<Rightarrow> bool" for d where
  here: "climbs d i i"
| up: "nodes d t = Some n \<Longrightarrow> passes_on n \<Longrightarrow> parent n = Some p \<Longrightarrow> climbs d p i \<Longrightarrow> climbs d t i"

lemma passes_on_climb:
  assumes "element_data n = Some e" "passes_on n" shows "click_element E i e event s = Some (Climb s)"
  using assms
  by (auto simp: passes_on_def click_element_def click_anchor_def is_submit_button_def Let_def
      split: special_element_data.splits)

lemma click_climbs:
  "climbs (act_doc s) t i \<Longrightarrow> click_loop E (Some t) target event s = click_loop E (Some i) target event s"
proof (induction rule: climbs.induct)
  case (up t n p i)
  have "click_loop E (Some t) target event s = click_loop E (Some p) target event s"
  proof (cases "element_data n")
    case None
    then show ?thesis using up by (subst click_loop.simps) (simp add: node_at_simp)
  next
    case (Some e)
    then show ?thesis using up passes_on_climb [OF Some up(2)]
      by (subst click_loop.simps) (simp add: node_at_simp)
  qed
  then show ?case using up by simp
qed simp

text \<open>A label that is not disabled, and the input it is bound to.\<close>
definition label_for :: "document \<Rightarrow> node_id \<Rightarrow> node_id \<Rightarrow> bool" where
  "label_for d l i \<longleftrightarrow> (\<exists>n e. nodes d l = Some n \<and> element_data n = Some e \<and> qn_local (el_name e) = ''label''
     \<and> el_attr e ''disabled'' = None \<and> \<not> (case special_data e of TextInput _ \<Rightarrow> True | _ \<Rightarrow> False)
     \<and> label_bound_input_element d l = Some (Some i))"

lemma click_label:
  assumes "label_for (act_doc s) l i"
  shows "click_loop E (Some l) target event s = do {
     s1 \<leftarrow> click_loop E (Some i) i (env_click_event E (act_doc s) i (pe_mods event)) s;
     after_click True target event s1 }"
proof -
  obtain n e where n: "nodes (act_doc s) l = Some n" "element_data n = Some e" "qn_local (el_name e) = ''label''"
    "el_attr e ''disabled'' = None" "\<not> (case special_data e of TextInput _ \<Rightarrow> True | _ \<Rightarrow> False)"
    "label_bound_input_element (act_doc s) l = Some (Some i)"
    using assms unfolding label_for_def by blast
  have "click_element E l e event s = Some (PassTo i (env_click_event E (act_doc s) i (pe_mods event)))"
    using n(3-6) by (simp add: click_element_def Let_def)
  then show ?thesis using n(1,2) by (subst click_loop.simps) (simp add: node_at_simp)
qed

text \<open>A label inside of which the click on its own input comes back to it: the click on the label
  never returns.  So it is with a button, a hidden or an image input, or any input but the
  handled ones, that stands in its label.\<close>
lemma label_click_diverges:
  assumes l: "label_for d l i" and c: "climbs d i l"
  shows "act_doc s = d \<Longrightarrow> climbs d j l \<Longrightarrow> click_loop E (Some j) target event s = None"
proof (rule ccontr)
  let ?P = "\<lambda>E cur target event s y. act_doc s = d \<longrightarrow> (\<forall>j. cur = Some j \<longrightarrow> \<not> climbs d j l)"
  assume a: "act_doc s = d" "climbs d j l" "click_loop E (Some j) target event s \<noteq> None"
  then obtain y where "click_loop E (Some j) target event s = Some y" by auto
  moreover have "?P E cur target event s y" if "click_loop E cur target event s = Some y" for E cur target event s y
    using that
  proof (rule click_loop.raw_induct [rotated, where P = ?P])
    fix f :: "env \<Rightarrow> node_id option \<Rightarrow> node_id \<Rightarrow> pointer_event \<Rightarrow> act \<Rightarrow> act option" and E cur target event s y
    assume IH: "\<And>E cur target event s y. f E cur target event s = Some y \<Longrightarrow> ?P E cur target event s y"
      and step: "(case cur of
      None \<Rightarrow> after_click False target event s
    | Some i \<Rightarrow> do {
        n \<leftarrow> node_at (act_doc s) i;
        (case element_data n of
           None \<Rightarrow> f E (parent n) target event s
         | Some e \<Rightarrow> do {
             r \<leftarrow> click_element E i e event s;
             (case r of
                Matched s1 \<Rightarrow> after_click True target event s1
              | PassTo t ev \<Rightarrow> do {
                  s1 \<leftarrow> f E (Some t) t ev s;
                  after_click True target event s1 }
              | Climb s1 \<Rightarrow> do {
                  n1 \<leftarrow> node_at (act_doc s1) i;
                  f E (parent n1) target event s1 }) }) }) = Some y"
    show "?P E cur target event s y"
    proof (intro impI allI notI)
      fix j assume d: "act_doc s = d" and j: "cur = Some j" and "climbs d j l"
      from this(3) show False
      proof cases
        case here
        obtain n e where n: "nodes d l = Some n" "element_data n = Some e" "qn_local (el_name e) = ''label''"
          "el_attr e ''disabled'' = None" "\<not> (case special_data e of TextInput _ \<Rightarrow> True | _ \<Rightarrow> False)"
          "label_bound_input_element d l = Some (Some i)"
          using l unfolding label_for_def by blast
        have "click_element E l e event s = Some (PassTo i (env_click_event E d i (pe_mods event)))"
          using n(3-6) d by (simp add: click_element_def Let_def)
        then obtain s1 where "f E (Some i) i (env_click_event E d i (pe_mods event)) s = Some s1"
          using step j here n(1,2) d by (auto simp: node_at_simp bind_eq_Some_conv)
        then show False using IH d c by blast
      next
        case (up n p)
        then have "f E (Some p) target event s = Some y"
        proof (cases "element_data n")
          case None
          then show ?thesis using step j up d by (simp add: node_at_simp)
        next
          case (Some e)
          then show ?thesis using step j up d passes_on_climb [OF Some up(2), of E j event s]
            by (simp add: node_at_simp)
        qed
        then show False using IH d up(4) by blast
      qed
    qed
  qed
  ultimately show False using a(1,2) by blast
qed

section \<open>Switching a check box\<close>

definition check_box :: "document \<Rightarrow> node_id \<Rightarrow> bool \<Rightarrow> bool" where
  "check_box d i c \<longleftrightarrow> (\<exists>n e. nodes d i = Some n \<and> data n = Element e \<and> qn_local (el_name e) = ''input''
     \<and> el_attr e ''type'' = Some ''checkbox'' \<and> el_attr e ''disabled'' = None \<and> special_data e = CheckboxInput c)"

text \<open>The document with the check box switched and all else as it is.\<close>
definition with_checked :: "bool \<Rightarrow> node_id \<Rightarrow> document \<Rightarrow> document" where
  "with_checked c i d = update_node i (map_element (set_checkbox_input_checked c)) d"

lemma erase_set_checked:
  "erase_element (set_checkbox_input_checked c (erase_element e)) = erase_element (set_checkbox_input_checked c e)"
  by (simp add: erase_element_def set_checkbox_input_checked_def Let_def split: special_element_data.split)

lemma erase_map_checked:
  "erase (data (map_element (set_checkbox_input_checked c) n)) = (case erase (data n) of
      Element e \<Rightarrow> Element (erase_element (set_checkbox_input_checked c e))
    | AnonymousBlock e \<Rightarrow> AnonymousBlock (erase_element (set_checkbox_input_checked c e))
    | x \<Rightarrow> x)"
  by (cases "data n") (simp_all add: map_element_def erase_set_checked)

lemma shape_set_checked:
  assumes "shape n' = shape n"
  shows "shape (map_element (set_checkbox_input_checked c) n') = shape (map_element (set_checkbox_input_checked c) n)"
proof -
  have "erase (data n') = erase (data n)" using assms by (simp add: shape_def)
  then have "erase (data (map_element (set_checkbox_input_checked c) n')) = erase (data (map_element (set_checkbox_input_checked c) n))"
    by (simp only: erase_map_checked)
  moreover have "nid (map_element f m) = nid m" "parent (map_element f m) = parent m" "children (map_element f m) = children m"
    "anonymous_blocks (map_element f m) = anonymous_blocks m" for f and m :: node
    by (simp_all add: map_element_def split: node_data.split)
  ultimately show ?thesis using assms by (simp add: shape_def)
qed

lemma with_checked_keeps:
  assumes "keeps d d'" shows "keeps (with_checked c i d) (with_checked c i d')"
proof
  show "root_node_id (with_checked c i d') = root_node_id (with_checked c i d)"
    "allocated (with_checked c i d') = allocated (with_checked c i d)"
    using assms by (simp_all add: with_checked_def keeps_def)
  fix j
  have "map_option shape (nodes d' j) = map_option shape (nodes d j)" using assms by (simp add: keeps_def)
  then consider "nodes d j = None" "nodes d' j = None"
    | n n' where "nodes d j = Some n" "nodes d' j = Some n'" "shape n' = shape n"
    by (cases "nodes d j"; cases "nodes d' j") simp_all
  then show "map_option shape (nodes (with_checked c i d') j) = map_option shape (nodes (with_checked c i d) j)"
  proof cases
    case 1
    then show ?thesis by (cases "j = i") (simp_all add: with_checked_def)
  next
    case (2 n n')
    then show ?thesis using shape_set_checked [OF 2(3), of c] by (cases "j = i") (simp_all add: with_checked_def)
  qed
qed

lemma check_box_keeps:
  assumes "keeps d d'" "check_box d i c" shows "check_box d' i c"
proof -
  obtain n e where n: "nodes d i = Some n" "data n = Element e" "qn_local (el_name e) = ''input''"
    "el_attr e ''type'' = Some ''checkbox''" "el_attr e ''disabled'' = None" "special_data e = CheckboxInput c"
    using assms(2) unfolding check_box_def by blast
  obtain n' where n': "nodes d' i = Some n'" using keeps_node [OF assms(1) n(1)] by metis
  obtain e' where e': "data n' = Element e'" "erase_element e' = erase_element e"
    using keeps_data [OF assms(1) n(1) n'] n(2) by (cases "data n'") auto
  have "el_name e' = el_name e" "el_attrs e' = el_attrs e" "special_data e' = special_data e"
    using arg_cong [OF e'(2), of el_name] arg_cong [OF e'(2), of el_attrs] arg_cong [OF e'(2), of special_data]
    by (simp_all add: erase_element_def)
  then show ?thesis using n n' e'(1) by (auto simp: check_box_def el_attr_def)
qed

lemma check_box_with_checked: "check_box d i c \<Longrightarrow> check_box (with_checked c' i d) i c'"
  by (auto simp: check_box_def with_checked_def map_element_def set_checkbox_input_checked_def el_attr_def Let_def)

lemma snapshot_node_and_cong:
  assumes "nodes d i \<noteq> None" "\<And>d0. keeps d d0 \<Longrightarrow> F d0 = G d0"
  shows "snapshot_node_and i S F d = snapshot_node_and i S G d"
proof -
  obtain d0 where "(if S \<inter> state_dependencies d \<noteq> {} then snapshot_node_impl i False d else Some d) = Some d0"
      "keeps d d0"
    using snapshot_total [OF assms(1), of False] keeps_refl [of d] by (cases "S \<inter> state_dependencies d \<noteq> {}") auto
  then show ?thesis using assms(2) by (simp add: snapshot_node_and_def)
qed

lemma toggle_step:
  assumes ok: "parents_ok d" and cb: "check_box d i c"
  shows "\<exists>d'. toggle_at i d = Some d' \<and> keeps (with_checked (\<not> c) i d) d' \<and> non_node d' = non_node d
    \<and> facets d' = (facets d)(i := map_option (with_state (\<lambda>s. if c then s - {CHECKED} else insert CHECKED s)) (facets d i))"
proof -
  let ?h = "\<lambda>s. if c then s - {CHECKED} else insert CHECKED s"
  have live: "nodes d i \<noteq> None" using cb by (auto simp: check_box_def)
  have "update_node i (map_element (\<lambda>e. snd (toggle_checkbox e))) d0
      = update_node i (map_element (set_checkbox_input_checked (\<not> c))) d0" if "keeps d d0" for d0
  proof -
    obtain n :: node and e where n: "nodes d0 i = Some n" "data n = Element e" "special_data e = CheckboxInput c"
      using check_box_keeps [OF \<open>keeps d d0\<close> cb] by (auto simp: check_box_def)
    then show ?thesis by (simp add: update_node_def map_element_def toggle_checkbox_def checkbox_input_checked_def)
  qed
  then have "toggle_at i d = snapshot_node_and i {CHECKED}
      (\<lambda>d. mark_ancestors_dirty i (update_node i (map_element (set_checkbox_input_checked (\<not> c))) d)) d"
    unfolding toggle_at_def by (intro snapshot_node_and_cong [OF live]) simp
  moreover have "el_state (set_checkbox_input_checked (\<not> c) e) = ?h (el_state e)" for e
    by (simp add: set_checkbox_input_checked_def Let_def split: special_element_data.split)
  from snapshot_node_and_update [OF ok live, of "set_checkbox_input_checked (\<not> c)" ?h "{CHECKED}", OF this]
  obtain d0 d' where "snapshot_node_and i {CHECKED}
      (\<lambda>d. mark_ancestors_dirty i (update_node i (map_element (set_checkbox_input_checked (\<not> c))) d)) d = Some d'"
    "keeps d d0" "keeps (with_checked (\<not> c) i d0) d'" "non_node d' = non_node d"
    "facets d' = (facets d)(i := map_option (with_state ?h) (facets d i))"
    unfolding with_checked_def by blast
  ultimately show ?thesis using keeps_trans [OF with_checked_keeps] by metis
qed

section \<open>Focus after the switch\<close>

lemma nna_same_links:
  assumes "same_links d d'"
  shows "nna_loop d n = Some r \<Longrightarrow> link_shape n' = link_shape n \<Longrightarrow> nna_loop d' n' = Some r"
proof (rule nna_loop.raw_induct [where P = "\<lambda>d0 n r. d0 = d \<longrightarrow> (\<forall>n'. link_shape n' = link_shape n \<longrightarrow> nna_loop d' n' = Some r)", THEN mp, THEN spec, THEN mp])
  fix f :: "document \<Rightarrow> node \<Rightarrow> node_id option option" and d0 n r
  assume IH: "\<And>d0 n r. f d0 n = Some r \<Longrightarrow> d0 = d \<longrightarrow> (\<forall>n'. link_shape n' = link_shape n \<longrightarrow> nna_loop d' n' = Some r)"
    and step: "(case parent n of
      None \<Rightarrow> Some (Some (nid n))
    | Some p \<Rightarrow> (case get_node d0 p of
        None \<Rightarrow> Some None
      | Some pn \<Rightarrow> if \<not> is_anonymous n \<and> \<not> is_anonymous pn then Some (Some (nid n)) else f d0 pn)) = Some r"
  show "d0 = d \<longrightarrow> (\<forall>n'. link_shape n' = link_shape n \<longrightarrow> nna_loop d' n' = Some r)"
  proof (intro impI allI)
    fix n' :: node assume d0: "d0 = d" and l: "link_shape n' = link_shape n"
    have same: "nid n' = nid n" "parent n' = parent n" "is_anonymous n' = is_anonymous n"
      using l by (simp_all add: link_shape_def)
    show "nna_loop d' n' = Some r"
    proof (cases "parent n")
      case None
      then show ?thesis using step same by (simp add: nna_loop.simps [of d' n'])
    next
      case (Some p)
      have lp: "map_option link_shape (nodes d' p) = map_option link_shape (nodes d p)"
        using assms by (simp add: same_links_def)
      show ?thesis
      proof (cases "nodes d p")
        case None
        then show ?thesis using step same Some lp d0 by (simp add: nna_loop.simps [of d' n'] get_node_simp)
      next
        case (Some pn)
        then obtain pn' where pn': "nodes d' p = Some pn'" "link_shape pn' = link_shape pn" using lp by auto
        then have a: "is_anonymous pn' = is_anonymous pn" by (simp add: link_shape_def)
        show ?thesis using step same Some \<open>parent n = Some p\<close> pn' d0 a IH [of d pn r]
          by (auto simp: nna_loop.simps [of d' n'] get_node_simp split: if_splits)
      qed
    qed
  qed
qed simp_all

lemma own_target_same_links:
  assumes "same_links d d'" "own_target d i" "nodes d' i = Some n'" "element_data n' \<noteq> None"
  shows "own_target d' i"
proof -
  obtain n where n: "nodes d i = Some n" "nna_loop d n = Some (Some i)"
    using assms(2) by (auto simp: own_target_def nearest_non_anonymous_ancestor_def get_node_simp)
  have "map_option link_shape (nodes d' i) = map_option link_shape (nodes d i)"
    using assms(1) by (simp add: same_links_def)
  then have "link_shape n' = link_shape n" using n assms(3) by simp
  then show ?thesis using nna_same_links [OF assms(1) n(2)] assms(3,4)
    by (simp add: own_target_def nearest_non_anonymous_ancestor_def get_node_simp)
qed

text \<open>What the focussed node is looked up in: the ids, the children and which nodes are elements.\<close>
definition elements_view :: "document \<Rightarrow> node_id \<rightharpoonup> node_id \<times> node_id list \<times> bool" where
  "elements_view d i = map_option (\<lambda>n. (nid n, children n, is_element n)) (nodes d i)"

lemma map_element_fields [simp]:
  "nid (map_element f n) = nid n" "children (map_element f n) = children n" "is_element (map_element f n) = is_element n"
  by (simp_all add: is_element_def map_element_def split: node_data.split)

lemma is_element_erase: "is_element n = (case erase (data n) of Element _ \<Rightarrow> True | _ \<Rightarrow> False)"
  by (cases "data n") (simp_all add: is_element_def)

lemma elements_view_keeps:
  assumes "keeps d d'" shows "elements_view d' = elements_view d"
proof
  fix i
  have "map_option shape (nodes d' i) = map_option shape (nodes d i)" using assms by (simp add: keeps_def)
  then have "map_option (\<lambda>(a, b, c, e, x). (a, c, case x of Element _ \<Rightarrow> True | _ \<Rightarrow> False)) (map_option shape (nodes d' i))
      = map_option (\<lambda>(a, b, c, e, x). (a, c, case x of Element _ \<Rightarrow> True | _ \<Rightarrow> False)) (map_option shape (nodes d i))"
    by simp
  then show "elements_view d' i = elements_view d i"
    by (simp add: elements_view_def option.map_comp comp_def shape_def is_element_erase)
qed

lemma elements_view_with_checked: "elements_view (with_checked c i d) = elements_view d"
  by (simp add: elements_view_def with_checked_def fun_eq_iff option.map_comp comp_def)

lemma first_element_view:
  assumes "elements_view d' = elements_view d"
  shows "map_option (map_option nid) (first_element d' cs) = map_option (map_option nid) (first_element d cs)"
proof (induction cs)
  case (Cons c cs)
  have "map_option (\<lambda>n. (nid n, children n, is_element n)) (nodes d' c)
      = map_option (\<lambda>n. (nid n, children n, is_element n)) (nodes d c)"
    using fun_cong [OF assms, of c] by (simp add: elements_view_def)
  then show ?case using Cons.IH by (cases "nodes d c"; cases "nodes d' c") (auto simp: node_at_simp)
qed simp

lemma focussed_view:
  assumes "elements_view d' = elements_view d" "root_node_id d' = root_node_id d" "focus_node_id d' = focus_node_id d"
  shows "get_focussed_node_id d' = get_focussed_node_id d"
proof -
  let ?r = "root_node_id d"
  have "map_option (\<lambda>n. (nid n, children n, is_element n)) (nodes d' ?r)
      = map_option (\<lambda>n. (nid n, children n, is_element n)) (nodes d ?r)"
    using fun_cong [OF assms(1), of ?r] by (simp add: elements_view_def)
  then have "map_option (map_option nid) (try_root_element d') = map_option (map_option nid) (try_root_element d)"
    using first_element_view [OF assms(1)] assms(2)
    by (cases "nodes d ?r"; cases "nodes d' ?r") (auto simp: try_root_element_def root_node_def node_at_simp)
  moreover have "get_focussed_node_id e = map_option (\<lambda>r. case focus_node_id e of Some i \<Rightarrow> Some i | None \<Rightarrow> r)
      (map_option (map_option nid) (try_root_element e))" for e
    by (cases "try_root_element e") (simp_all add: get_focussed_node_id_def)
  ultimately show ?thesis using assms(3) by simp
qed

section \<open>What setting the focus leaves alone\<close>

text \<open>The click count and the carriers of all flags but those of the focus.\<close>
definition same_but_focus :: "document \<Rightarrow> document \<Rightarrow> bool" where
  "same_but_focus d d' \<longleftrightarrow> click_count d' = click_count d
     \<and> (\<forall>f. f \<notin> {FOCUS, FOCUSRING} \<longrightarrow> carriers f d' = carriers f d)"

lemma same_but_focus_trans: "same_but_focus d d' \<Longrightarrow> same_but_focus d' d'' \<Longrightarrow> same_but_focus d d''"
  by (simp add: same_but_focus_def)

lemma same_but_focus_facets: "facets d' = facets d \<Longrightarrow> click_count d' = click_count d \<Longrightarrow> same_but_focus d d'"
  unfolding same_but_focus_def using same_facets_carriers by blast

lemma same_but_focus_shell [simp]: "same_but_focus d (shell c d') = same_but_focus d d'"
  by (simp add: same_but_focus_def shell_def carriers_def facets_def)

lemma same_but_focus_focus [simp]: "same_but_focus d (d'\<lparr>focus_node_id := x\<rparr>) = same_but_focus d d'"
  by (simp add: same_but_focus_def carriers_def facets_def)

lemma mark_state_same:
  assumes m: "mark_ancestors_dirty i (update_node i (map_element (\<lambda>e. e\<lparr>el_state := h (el_state e)\<rparr>)) d) = Some d'"
    and h: "\<And>s f. f \<notin> {FOCUS, FOCUSRING} \<Longrightarrow> f \<in> h s \<longleftrightarrow> f \<in> s"
  shows "same_but_focus d d'"
proof -
  have "facets d' = facets (update_node i (map_element (\<lambda>e. e\<lparr>el_state := h (el_state e)\<rparr>)) d)"
    using m by (rule mark_ancestors_dirty_facets)
  then have "changed_along h [i] d d'"
    by (simp add: changed_along_def facets_update facet_state [of "\<lambda>e. e\<lparr>el_state := h (el_state e)\<rparr>" h]
        facets_def option.map_comp comp_def del: facet_simps)
  then have "carriers f d' = carriers f d" if "f \<notin> {FOCUS, FOCUSRING}" for f
    using carriers_other [of h "[i]" d d' f] h [OF that] by blast
  moreover have "non_node d' = non_node d" using mark_ancestors_dirty_non_node [OF m] by simp
  then have "click_count d' = click_count d" by (rule non_node_fields)
  ultimately show ?thesis by (simp add: same_but_focus_def)
qed

lemma snapshot_node_and_same:
  assumes "snapshot_node_and i S F d = Some d'" "\<And>d d'. F d = Some d' \<Longrightarrow> same_but_focus d d'"
  shows "same_but_focus d d'"
proof -
  obtain d0 where d0: "(if S \<inter> state_dependencies d \<noteq> {} then snapshot_node_impl i False d else Some d) = Some d0"
    "F d0 = Some d'"
    using assms(1) by (auto simp: snapshot_node_and_def bind_eq_Some_conv split: if_splits)
  have "same_but_focus d d0"
    using d0(1) snapshot_facets non_node_fields(8) [OF snapshot_non_node]
    by (cases "S \<inter> state_dependencies d \<noteq> {}") (auto intro: same_but_focus_facets)
  then show ?thesis using assms(2) [OF d0(2)] by (rule same_but_focus_trans)
qed

lemma set_focus_to_same:
  assumes "set_focus_to i d = Some (b, d')" shows "same_but_focus d d'"
proof -
  have bl: "same_but_focus d d'" if "blur j d = Some d'" for j d d'
    using that by (auto simp: blur_def bind_eq_Some_conv dest!: mark_state_same split: if_splits)
  have fo: "same_but_focus d d'" if "focus j d = Some d'" for j d d'
    using that by (auto simp: focus_def bind_eq_Some_conv dest!: mark_state_same split: if_splits)
  have refl: "same_but_focus d d" by (simp add: same_but_focus_def)
  obtain target where t: "nearest_non_anonymous_ancestor d i = Some target"
    using assms by (auto simp: set_focus_to_def bind_eq_Some_conv)
  show ?thesis
  proof (cases "target = None \<or> focus_node_id d = target")
    case True
    then have "d' = d" using assms t by (auto simp: set_focus_to_def split: option.splits)
    then show ?thesis using refl by simp
  next
    case False
    then obtain f where f: "target = Some f" "focus_node_id d \<noteq> Some f" by auto
    obtain d1 d2 where d1: "(case focus_node_id d of None \<Rightarrow> Some d
        | Some old \<Rightarrow> snapshot_node_and old {FOCUS, FOCUSRING} (blur old) d) = Some d1"
      and d2: "snapshot_node_and f {FOCUS, FOCUSRING} (focus f) d1 = Some d2"
      and d': "d' = shell RequestRedraw (d2\<lparr>focus_node_id := Some f\<rparr>)"
      using assms t f by (auto simp: set_focus_to_def bind_eq_Some_conv)
    have "same_but_focus d d1"
      using d1 refl snapshot_node_and_same [OF _ bl] by (auto split: option.splits)
    then have "same_but_focus d d2" using snapshot_node_and_same [OF d2 fo] by (rule same_but_focus_trans)
    then show ?thesis by (simp add: d')
  qed
qed

section \<open>The click on a check box\<close>

text \<open>The check box was switched from \<open>c\<close> and focussed, \<open>old\<close> being focussed before: the document is the
  old one with the check box switched, up to marks, snapshots and states; no other element changes its
  checked state; and one input event with the new value is dispatched, followed by the focus events.\<close>
definition box_switched :: "node_id \<Rightarrow> bool \<Rightarrow> node_id option \<Rightarrow> act \<Rightarrow> act \<Rightarrow> bool" where
  "box_switched i c old s s' \<longleftrightarrow>
     keeps (with_checked (\<not> c) i (act_doc s)) (act_doc s')
     \<and> carriers CHECKED (act_doc s') = (if c then carriers CHECKED (act_doc s) - {i} else insert i (carriers CHECKED (act_doc s)))
     \<and> focus_node_id (act_doc s') = Some i \<and> focus_ok (act_doc s')
     \<and> act_forwarded s' = act_forwarded s
     \<and> act_queue s' = act_queue s @ dom_event_new i (EvInput (bool_text (\<not> c))) # focus_event_data old (Some i)"

lemma fold_dispatch: "fold dispatch es s = s\<lparr>act_queue := act_queue s @ es\<rparr>"
  by (induction es arbitrary: s) (simp_all add: dispatch_def)

lemma toggled_carriers:
  assumes "facets d1 = (facets d)(i := map_option (with_state (\<lambda>s. if c then s - {CHECKED} else insert CHECKED s)) (facets d i))"
    and "facets d i = Some (lp, Some st)"
  shows "carriers CHECKED d1 = (if c then carriers CHECKED d - {i} else insert i (carriers CHECKED d))"
    "carriers FOCUS d1 = carriers FOCUS d"
  using assms by (auto simp: carriers_def with_state_def split: if_splits)

lemma click_checkbox_switches:
  assumes wf: "wf_doc (act_doc s)" and foc: "focus_ok (act_doc s)" and own: "own_target (act_doc s) i"
    and cb: "check_box (act_doc s) i c" and old: "get_focussed_node_id (act_doc s) = Some old"
  shows "\<exists>s'. click_checkbox i s = Some s' \<and> box_switched i c old s s' \<and> click_count (act_doc s') = click_count (act_doc s)"
proof -
  let ?d = "act_doc s"
  obtain n e where n: "nodes ?d i = Some n" "data n = Element e" "special_data e = CheckboxInput c"
    using cb unfolding check_box_def by blast
  have ok: "parents_ok ?d" using wf by (rule wf_doc_parents_ok)
  obtain d1 where d1: "toggle_at i ?d = Some d1" "keeps (with_checked (\<not> c) i ?d) d1" "non_node d1 = non_node ?d"
    "facets d1 = (facets ?d)(i := map_option (with_state (\<lambda>s. if c then s - {CHECKED} else insert CHECKED s)) (facets ?d i))"
    using toggle_step [OF ok cb] by blast
  have "same_links ?d (with_checked (\<not> c) i ?d)"
    unfolding with_checked_def by (rule same_links_update) simp
  then have sl: "same_links ?d d1" using same_links_trans keeps_same_links [OF d1(2)] by blast
  have wf1: "wf_doc d1" and ok1: "parents_ok d1" using same_links_wf_doc [OF sl wf] wf_doc_parents_ok by blast+
  have "facets ?d i = Some (layout_parent n, Some (el_state e))"
    using n by (simp add: facets_def facet_def element_data_def)
  from toggled_carriers [OF d1(4) this] have car:
    "carriers CHECKED d1 = (if c then carriers CHECKED ?d - {i} else insert i (carriers CHECKED ?d))"
    "carriers FOCUS d1 = carriers FOCUS ?d" .
  have f1: "focus_node_id d1 = focus_node_id ?d" "click_count d1 = click_count ?d" "root_node_id d1 = root_node_id ?d"
    using non_node_fields(3,8,10) [OF d1(3)] .
  have foc1: "focus_ok d1" using foc car(2) f1(1) by (simp add: focus_ok_def)
  obtain n' e' where n': "nodes d1 i = Some n'" "data n' = Element e'"
    using check_box_keeps [OF d1(2) check_box_with_checked [OF cb]] unfolding check_box_def by blast
  then have own1: "own_target d1 i"
    using own_target_same_links [OF sl own n'(1)] by (simp add: element_data_def)
  obtain b d2 where d2: "set_focus_to i d1 = Some (b, d2)" "keeps d1 d2" "focus_node_id d2 = Some i" "focus_ok d2"
    using set_focus_moves [OF ok1 foc1 own1] by blast
  have same: "carriers CHECKED d2 = carriers CHECKED d1" "click_count d2 = click_count d1"
    using set_focus_to_same [OF d2(1)] by (simp_all add: same_but_focus_def)
  have g1: "get_focussed_node_id d1 = Some old"
    using focussed_view [of d1 ?d] elements_view_keeps [OF d1(2)] elements_view_with_checked f1 old by simp
  have g2: "get_focussed_node_id d2 = Some (Some i)"
    by (rule doc_tree_focussed [OF keeps_wf_doc [OF d2(2) wf1] d2(3)])
  let ?s1 = "dispatch_data i (EvInput (bool_text (\<not> c))) (s\<lparr>act_doc := d1\<rparr>)"
  have "click_checkbox i s = generate_focus_events (focus_on i) ?s1"
    using n d1(1) by (simp add: click_checkbox_def node_at_simp element_data_def toggle_checkbox_def
        checkbox_input_checked_def on_act_def)
  also have "\<dots> = Some (fold dispatch (focus_event_data old (Some i)) (?s1\<lparr>act_doc := d2\<rparr>))"
    using g1 g2 d2(1) by (simp add: generate_focus_events_def on_act_def focus_on_def dispatch_data_def dispatch_def)
  finally have "click_checkbox i s = Some (fold dispatch (focus_event_data old (Some i)) (?s1\<lparr>act_doc := d2\<rparr>))" .
  then show ?thesis using keeps_trans [OF d1(2) d2(2)] d2(3,4) car(1) same f1(2)
    by (simp add: box_switched_def fold_dispatch dispatch_data_def dispatch_def)
qed

lemma click_on_box:
  assumes "wf_doc (act_doc s)" "focus_ok (act_doc s)" "own_target (act_doc s) i"
    and cb: "check_box (act_doc s) i c" and "get_focussed_node_id (act_doc s) = Some old"
  shows "\<exists>s'. click_loop E (Some i) t event s = after_click True t event s' \<and> box_switched i c old s s'
    \<and> click_count (act_doc s') = click_count (act_doc s)"
proof -
  obtain s' where s': "click_checkbox i s = Some s'" "box_switched i c old s s'" "click_count (act_doc s') = click_count (act_doc s)"
    using click_checkbox_switches [OF assms] by blast
  obtain n e where n: "nodes (act_doc s) i = Some n" "data n = Element e" "qn_local (el_name e) = ''input''"
    "el_attr e ''type'' = Some ''checkbox''" "el_attr e ''disabled'' = None" "special_data e = CheckboxInput c"
    using cb unfolding check_box_def by blast
  have "click_element E i e event s = Some (Matched s')"
    using n(3-6) s'(1) by (simp add: click_element_def Let_def)
  then have "click_loop E (Some i) t event s = after_click True t event s'"
    using n(1,2) by (subst click_loop.simps) (simp add: node_at_simp element_data_def)
  then show ?thesis using s'(2,3) by blast
qed

lemma after_click_matched:
  "after_click True t event s = Some (fold dispatch (if click_count (act_doc s) = 2 then [dom_event_new t (EvDoubleClick event)] else []) s)"
  by (simp add: after_click_def dispatch_data_def)

text \<open>C25. A click that reaches a check box, or a label that is bound to it, switches it exactly once: from
  whatever node of the box's or the label's content the click comes, the box changes its state
  and no other element does, one \<open>input\<close> event tells the new value, the box gets the focus and
  the focus events are those of the change, and nothing else is dispatched, except
  \<open>dblclick\<close> on the second click of a pair.\<close>
theorem click_switches_box:
  assumes wf: "wf_doc (act_doc s)" and foc: "focus_ok (act_doc s)" and own: "own_target (act_doc s) i"
    and cb: "check_box (act_doc s) i c" and old: "get_focussed_node_id (act_doc s) = Some old"
    and leads: "climbs (act_doc s) t i \<or> (\<exists>l. climbs (act_doc s) t l \<and> label_for (act_doc s) l i)"
  shows "\<exists>s' es. handle_click E t event s = Some (fold dispatch es s') \<and> box_switched i c old s s'
    \<and> (es = [] \<longleftrightarrow> click_count (act_doc s) \<noteq> 2) \<and> kind ` ev_data ` set es \<subseteq> {DoubleClick}"
  using leads
proof
  assume c: "climbs (act_doc s) t i"
  obtain s' where s': "click_loop E (Some i) t event s = after_click True t event s'"
    "box_switched i c old s s'" "click_count (act_doc s') = click_count (act_doc s)"
    using click_on_box [OF wf foc own cb old] by blast
  let ?es = "if click_count (act_doc s) = 2 then [dom_event_new t (EvDoubleClick event)] else []"
  have "handle_click E t event s = Some (fold dispatch ?es s')"
    using s'(1,3) c by (simp add: handle_click_def click_climbs after_click_matched)
  then show ?thesis using s'(2) by (intro exI [of _ s'] exI [of _ ?es]) auto
next
  assume "\<exists>l. climbs (act_doc s) t l \<and> label_for (act_doc s) l i"
  then obtain l where l: "climbs (act_doc s) t l" "label_for (act_doc s) l i" by blast
  obtain s' where s': "click_loop E (Some i) i (env_click_event E (act_doc s) i (pe_mods event)) s
      = after_click True i (env_click_event E (act_doc s) i (pe_mods event)) s'"
    "box_switched i c old s s'" "click_count (act_doc s') = click_count (act_doc s)"
    using click_on_box [OF wf foc own cb old] by blast
  let ?es = "if click_count (act_doc s) = 2
    then [dom_event_new i (EvDoubleClick (env_click_event E (act_doc s) i (pe_mods event))), dom_event_new t (EvDoubleClick event)]
    else []"
  have "handle_click E t event s = Some (fold dispatch ?es s')"
    using s'(1,3) l by (simp add: handle_click_def click_climbs click_label after_click_matched dispatch_def)
  then show ?thesis using s'(2) by (intro exI [of _ s'] exI [of _ ?es]) auto
qed

lemma ex_form_focus_ok: "focus_ok ex_form_doc"
  by (auto simp: focus_ok_def carriers_def facets_def facet_def ex_form_nodes_def ex_form_doc_def ex_document_def element_data_def
      ex_element_def split: if_splits)

lemma ex_form_label: "label_for ex_form_doc n4 n5"
  by (simp add: label_for_def ex_form_nodes_def element_data_def ex_element_def ex_name_def el_attr_def
      label_bound_input_element_def node_at_simp tt_new_with_root_def tt_find_Cons is_input_node_def get_node_simp)

theorem click_switches_box_witness:
  "\<exists>s' es. handle_click ex_env n4 ex_mouse \<lparr> act_doc = ex_form_doc, act_queue = [], act_forwarded = [] \<rparr> = Some (fold dispatch es s')
    \<and> box_switched n5 True (Some n2) \<lparr> act_doc = ex_form_doc, act_queue = [], act_forwarded = [] \<rparr> s'
    \<and> (es = [] \<longleftrightarrow> click_count ex_form_doc \<noteq> 2) \<and> kind ` ev_data ` set es \<subseteq> {DoubleClick}"
proof -
  let ?s = "\<lparr> act_doc = ex_form_doc, act_queue = [], act_forwarded = [] \<rparr>"
  have old: "get_focussed_node_id ex_form_doc = Some (Some n2)"
    by (simp add: get_focussed_node_id_def try_root_element_def root_node_def node_at_simp ex_form_nodes_def is_element_def)
      (simp add: ex_form_doc_def ex_document_def)
  have own: "own_target ex_form_doc n5"
    by (simp add: own_target_def nearest_non_anonymous_ancestor_def get_node_simp ex_form_nodes_def nna_loop.simps
        is_anonymous_def element_data_def)
  have cb: "check_box ex_form_doc n5 True"
    by (simp add: check_box_def ex_form_nodes_def ex_element_def ex_name_def el_attr_def)
  show ?thesis
    using click_switches_box [of ?s n5 True "Some n2" n4 ex_env ex_mouse] ex_form_wf ex_form_focus_ok own cb old
      ex_form_label climbs.here [of ex_form_doc n4] by auto
qed

end
