(* ===== verification/Hover_Events.thy ===== *)
theory Hover_Events
  imports Event_Driver Dom_Click
begin

text \<open>
  The events of a moving pointer: chains of nodes, the events that the driver delivers without
  a default action, and the balance of enter and leave events.
\<close>

section \<open>Chains\<close>

lemma at_collect_step:
  "nodes d i = Some n \<Longrightarrow> at_collect d i = (case parent n of
     None \<Rightarrow> Some [] | Some p \<Rightarrow> map_option ((#) p) (at_collect d p))"
  by (subst at_collect.simps) (auto simp: at_next_def get_node_simp map_option_case split: option.splits)

lemma node_chain_step:
  assumes "nodes d i = Some n" "\<And>p. parent n = Some p \<Longrightarrow> nodes d p = Some m"
  shows "node_chain d i = (case parent n of
      None \<Rightarrow> Some [i]
    | Some p \<Rightarrow> map_option (\<lambda>c. i # (if is_element m then c else tl c)) (node_chain d p))"
  using assms
  by (auto simp: node_chain_def at_collect_step [OF assms(1)] node_at_simp map_option_case split: option.splits
      Option.bind_splits)

lemma parent_node_live:
  "wf_doc d \<Longrightarrow> nodes d i = Some n \<Longrightarrow> parent n = Some p \<Longrightarrow> \<exists>m. nodes d p = Some m \<and> (i, p) \<in> parent_edges d"
  using wf_doc_node [of d i n] by (auto simp: wf_node_def parent_edges_def)

lemma node_chain_hd: "node_chain d x = Some vs \<Longrightarrow> \<exists>ws. vs = x # ws"
  by (auto simp: node_chain_def bind_eq_Some_conv)

lemma node_chain_props:
  assumes wf: "wf_doc d"
  shows "nodes d i = Some n \<Longrightarrow> \<exists>c. node_chain d i = Some (i # c) \<and> distinct (i # c)
    \<and> (\<forall>x\<in>set c. nodes d x \<noteq> None \<and> (i, x) \<in> (parent_edges d)\<^sup>+)
    \<and> (\<forall>x\<in>set (i # c). \<exists>us vs. i # c = us @ vs \<and> node_chain d x = Some vs)"
proof (induction i arbitrary: n rule: wf_induct_rule [OF wf_doc_wf_converse [OF wf]])
  case (1 i)
  have irrefl: "(i, i) \<notin> (parent_edges d)\<^sup>+" using wf by (simp add: wf_doc_def acyclic_def)
  show ?case
  proof (cases "parent n")
    case None
    then have "node_chain d i = Some [i]" using node_chain_step [OF 1(2)] by simp
    then show ?thesis by (intro exI [of _ "[]"]) auto
  next
    case (Some p)
    obtain m where m: "nodes d p = Some m" and e: "(i, p) \<in> parent_edges d"
      using parent_node_live [OF wf 1(2) Some] by auto
    obtain c where c: "node_chain d p = Some (p # c)" "distinct (p # c)"
      "\<forall>x\<in>set c. nodes d x \<noteq> None \<and> (p, x) \<in> (parent_edges d)\<^sup>+"
      "\<forall>x\<in>set (p # c). \<exists>us vs. p # c = us @ vs \<and> node_chain d x = Some vs"
      using 1(1) [OF _ m] e by auto
    let ?t = "if is_element m then p # c else c"
    have ch: "node_chain d i = Some (i # ?t)" using node_chain_step [OF 1(2), of m] m c(1) Some by auto
    have up: "\<forall>x\<in>set ?t. nodes d x \<noteq> None \<and> (i, x) \<in> (parent_edges d)\<^sup>+"
      using c(3) m e by (auto intro: trancl_into_trancl2)
    have "\<exists>us vs. i # ?t = us @ vs \<and> node_chain d x = Some vs" if x: "x \<in> set (i # ?t)" for x
    proof (cases "x = i")
      case True
      then show ?thesis using ch by (intro exI [of _ "[]"] exI [of _ "i # ?t"]) simp
    next
      case False
      then have "x \<in> set (p # c)" using x by (auto split: if_splits)
      from bspec [OF c(4) this] obtain us vs where us: "p # c = us @ vs" "node_chain d x = Some vs" by blast
      show ?thesis
      proof (cases "is_element m")
        case True
        then show ?thesis using us by (intro exI [of _ "i # us"] exI [of _ vs]) simp
      next
        case False
        then have "us \<noteq> []" using us c(2) x \<open>x \<noteq> i\<close> node_chain_hd [OF us(2)] by (auto split: if_splits)
        then have "c = tl us @ vs" using us(1) by (cases us) auto
        then show ?thesis using us(2) False by (intro exI [of _ "i # tl us"] exI [of _ vs]) simp
      qed
    qed
    then show ?thesis using ch up irrefl c(2) by (intro exI [of _ ?t]) (auto split: if_splits)
  qed
qed

lemma node_chain_live:
  assumes "wf_doc d" "nodes d i \<noteq> None"
  obtains c where "node_chain d i = Some c" "distinct c" "\<forall>x\<in>set c. nodes d x \<noteq> None"
    "\<And>x. x \<in> set c \<Longrightarrow> \<exists>us vs. c = us @ vs \<and> node_chain d x = Some vs"
  using node_chain_props [OF assms(1), of i] assms(2) that by force

lemma node_chain_keeps:
  assumes wf: "wf_doc d" and k: "keeps d d'"
  shows "nodes d i = Some n \<Longrightarrow> node_chain d' i = node_chain d i"
proof (induction i arbitrary: n rule: wf_induct_rule [OF wf_doc_wf_converse [OF wf]])
  case (1 i)
  obtain n' where n': "nodes d' i = Some n'" "parent n' = parent n" using keeps_node [OF k 1(2)] by metis
  show ?case
  proof (cases "parent n")
    case None
    then show ?thesis using node_chain_step [OF 1(2)] node_chain_step [OF n'(1)] n'(2) by simp
  next
    case (Some p)
    obtain m where m: "nodes d p = Some m" and e: "(i, p) \<in> parent_edges d"
      using parent_node_live [OF wf 1(2) Some] by auto
    obtain m' where m': "nodes d' p = Some m'" using keeps_node [OF k m] by metis
    have "is_element m' = is_element m" using keeps_data [OF k m m'] by (simp add: is_element_erase)
    moreover have "node_chain d' p = node_chain d p" using 1(1) [OF _ m] e by auto
    ultimately show ?thesis
      using node_chain_step [OF 1(2), of m] node_chain_step [OF n'(1), of m'] m m' n'(2) Some by auto
  qed
qed

section \<open>The first difference of two chains\<close>

lemma first_difference_simps [simp]:
  "first_difference_index [] ys = 0" "first_difference_index xs [] = 0"
  "first_difference_index (x # xs) (y # ys) = (if x = y then Suc (first_difference_index xs ys) else 0)"
  by (auto simp: first_difference_index_def split: option.splits)

lemma first_difference_take:
  "take (first_difference_index xs ys) xs = take (first_difference_index xs ys) ys"
  by (induction xs ys rule: list_induct2') auto

lemma first_difference_nth:
  "first_difference_index xs ys < length xs \<Longrightarrow> first_difference_index xs ys < length ys \<Longrightarrow>
   xs ! first_difference_index xs ys \<noteq> ys ! first_difference_index xs ys"
  by (induction xs ys rule: list_induct2') auto

lemma drop_difference_disjoint:
  assumes "distinct xs" and common: "\<And>x. x \<in> set xs \<Longrightarrow> x \<in> set ys \<Longrightarrow> \<exists>p r s. xs = p @ x # r \<and> ys = p @ x # s"
  shows "set (drop (first_difference_index xs ys) xs) \<inter> set ys = {}"
proof (rule ccontr)
  let ?k = "first_difference_index xs ys"
  assume "set (drop ?k xs) \<inter> set ys \<noteq> {}"
  then obtain x where x: "x \<in> set (drop ?k xs)" "x \<in> set ys" by auto
  then obtain p r s where p: "xs = p @ x # r" "ys = p @ x # s" using common by (meson in_set_dropD)
  have "\<not> length p < ?k"
  proof
    assume "length p < ?k"
    then have "x \<in> set (take ?k xs)" by (simp add: p(1) take_Cons')
    then show False using x(1) assms(1) by (metis append_take_drop_id disjoint_iff distinct_append)
  qed
  then have "xs ! ?k = ys ! ?k" "?k < length xs" "?k < length ys" using p by (auto simp: nth_append)
  then show False using first_difference_nth by metis
qed

lemma first_difference_commute: "first_difference_index ys xs = first_difference_index xs ys"
  by (induction xs ys rule: list_induct2') auto

section \<open>Delivery of events without a default action\<close>

text \<open>A handler that looks at events and may cancel them, but changes neither them nor the document.\<close>
definition reads_only :: "'s page_handler \<Rightarrow> bool" where
  "reads_only H \<longleftrightarrow> (\<forall>ids e d s st. \<exists>s' st'. H ids e d s st = (e, d, s', st'))"

type_synonym event_record = "dom_event_kind \<times> node_id"

definition recorded :: "'s page_handler \<Rightarrow> (event_record list \<times> 's) page_handler" where
  "recorded H ids e d s st = (let (e', d', s', st') = H ids e d (snd s) st
     in (e', d', (fst s @ [(kind (ev_data e), ev_target e)], s'), st'))"

definition record_of :: "dom_event \<Rightarrow> event_record" where
  "record_of e = (kind (ev_data e), ev_target e)"

definition quiet :: "dom_event_kind \<Rightarrow> bool" where
  "quiet k \<longleftrightarrow> k \<in> {PointerOut, PointerLeave, PointerOver, PointerEnter, MouseOut, MouseLeave, MouseOver, MouseEnter}"

lemma kind_update_coords [simp]: "kind (update_coords f g x) = kind x"
  by (cases x) simp_all

lemma adjust_event_simps [simp]:
  "kind (ev_data (adjust_event P d e)) = kind (ev_data e)" "ev_target (adjust_event P d e) = ev_target e"
  by (simp_all add: adjust_event_def)

lemma quiet_no_action:
  assumes "quiet (kind (ev_data e))" "nodes (act_doc s) (ev_target e) \<noteq> None"
  shows "handle_dom_event P e s = Some s"
  using assms
  by (cases "ev_data e")
    (auto simp: quiet_def handle_dom_event_def on_act_def note_modality_def node_at_simp forward_to_def
      map_dom_event_to_ui_event_def default_action_def split: option.split special_element_data.split)

lemma deliver:
  assumes H: "reads_only H" and wf: "wf_doc (act_doc (drv_act v))" and q: "act_queue (drv_act v) = []"
    and e: "quiet (kind (ev_data e))" "nodes (act_doc (drv_act v)) (ev_target e) \<noteq> None"
  shows "\<exists>s. drv_handle_dom_event (recorded H) P e v
      = Some (v\<lparr>drv_script := (fst (drv_script v) @ [record_of e], s)\<rparr>)"
proof -
  let ?d = "act_doc (drv_act v)"
  obtain c where "node_chain ?d (ev_target e) = Some c" by (rule node_chain_live [OF wf e(2)])
  then obtain ids where ids: "event_chain ?d e = Some ids" by (fastforce simp: event_chain_def)
  obtain s st where H': "H ids (adjust_event P ?d e) ?d (snd (drv_script v)) event_state_default = (adjust_event P ?d e, ?d, s, st)"
    using H unfolding reads_only_def by blast
  have act: "drv_act v\<lparr>act_queue := []\<rparr> = drv_act v" using q by (cases "drv_act v") simp
  have "handle_dom_event P (adjust_event P ?d e) (drv_act v) = Some (drv_act v)"
    by (rule quiet_no_action) (use e in simp_all)
  then have "process_queue (recorded H) P (v\<lparr>drv_act := dispatch e (drv_act v)\<rparr>)
      = Some (v\<lparr>drv_script := (fst (drv_script v) @ [record_of e], s)\<rparr>)"
    using q ids H'
    by (subst process_queue.simps)
      (simp add: dispatch_def run_handler_event_def recorded_def run_default_action_def record_of_def process_queue.simps act)
  then show ?thesis by (auto simp: drv_handle_dom_event_def)
qed

lemma deliver_all:
  assumes H: "reads_only H" and wf: "wf_doc (act_doc (drv_act v))" and q: "act_queue (drv_act v) = []"
    and es: "\<forall>e\<in>set es. quiet (kind (ev_data e)) \<and> nodes (act_doc (drv_act v)) (ev_target e) \<noteq> None"
  shows "\<exists>s. handle_all (recorded H) P es v
      = Some (v\<lparr>drv_script := (fst (drv_script v) @ map record_of es, s)\<rparr>)"
  using wf q es
proof (induction es arbitrary: v)
  case Nil
  show ?case by (intro exI [of _ "snd (drv_script v)"]) simp
next
  case (Cons e es)
  obtain s where s: "drv_handle_dom_event (recorded H) P e v
      = Some (v\<lparr>drv_script := (fst (drv_script v) @ [record_of e], s)\<rparr>)"
    using deliver [OF H Cons.prems(1,2)] Cons.prems(3) by fastforce
  from Cons.IH [of "v\<lparr>drv_script := (fst (drv_script v) @ [record_of e], s)\<rparr>"] show ?case
    using Cons.prems s by simp
qed

section \<open>Inside and outside\<close>

text \<open>The promise of enter and leave events: a node is entered only from outside and left only from
  inside.  The result is whether the pointer is inside in the end, \<open>None\<close> a broken promise.\<close>
fun inside_run :: "'e \<Rightarrow> 'e \<Rightarrow> 'e list \<Rightarrow> bool \<Rightarrow> bool option" where
  "inside_run en lv [] b = Some b"
| "inside_run en lv (x # xs) b =
    (if x = en then (if b then None else inside_run en lv xs True)
     else if x = lv then (if b then inside_run en lv xs False else None)
     else inside_run en lv xs b)"

lemma inside_run_append: "inside_run en lv (xs @ ys) b = Option.bind (inside_run en lv xs b) (inside_run en lv ys)"
  by (induction xs arbitrary: b) auto

lemma inside_run_filter: "inside_run en lv xs b = inside_run en lv (filter (\<lambda>x. x = en \<or> x = lv) xs) b"
  by (induction xs arbitrary: b) auto

text \<open>The pairs of kinds that keep the promise; those of the mouse need a mouse.\<close>
definition enter_leave :: "bool \<Rightarrow> dom_event_kind \<Rightarrow> dom_event_kind \<Rightarrow> bool" where
  "enter_leave m en lv \<longleftrightarrow> (en = PointerEnter \<and> lv = PointerLeave) \<or> (m \<and> en = MouseEnter \<and> lv = MouseLeave)"

lemma filter_pairs:
  assumes "distinct is" and "\<And>x. x \<in> set (pair n) \<Longrightarrow> \<not> Q x \<or> x = a" "filter Q (pair n) = [a]"
    and "\<And>i. i \<noteq> n \<Longrightarrow> filter Q (pair i) = []"
  shows "filter Q (concat (map pair is)) = (if n \<in> set is then [a] else [])"
  using assms(1)
proof (induction "is")
  case (Cons i "is")
  then show ?case using assms(3,4) by (cases "i = n") auto
qed simp

lemma out_events_filter:
  assumes "enter_leave (is_mouse e) en lv" "distinct is" "old = None \<Longrightarrow> is = []"
  shows "filter (\<lambda>x. x = (en, n) \<or> x = (lv, n)) (map record_of (out_events e old is)) = (if n \<in> set is then [(lv, n)] else [])"
proof -
  let ?Q = "\<lambda>x. x = (en, n) \<or> x = (lv, n)"
  let ?pair = "\<lambda>i. map record_of (pair_event e EvPointerLeave EvMouseLeave i)"
  have "filter ?Q (concat (map ?pair is)) = (if n \<in> set is then [(lv, n)] else [])"
    by (rule filter_pairs [OF assms(2)]) (use assms(1) in \<open>auto simp: enter_leave_def pair_event_def record_of_def\<close>)
  moreover have "filter ?Q (map record_of (pair_event e EvPointerOut EvMouseOut i)) = []" for i
    using assms(1) by (auto simp: enter_leave_def pair_event_def record_of_def)
  ultimately show ?thesis using assms(3)
    by (auto simp: out_events_def map_concat comp_def split: option.split)
qed

lemma over_events_filter:
  assumes "enter_leave (is_mouse e) en lv" "distinct is" "new = None \<Longrightarrow> is = []"
  shows "filter (\<lambda>x. x = (en, n) \<or> x = (lv, n)) (map record_of (over_events e new is)) = (if n \<in> set is then [(en, n)] else [])"
proof -
  let ?Q = "\<lambda>x. x = (en, n) \<or> x = (lv, n)"
  let ?pair = "\<lambda>i. map record_of (pair_event e EvPointerEnter EvMouseEnter i)"
  have "filter ?Q (concat (map ?pair is)) = (if n \<in> set is then [(en, n)] else [])"
    by (rule filter_pairs [OF assms(2)]) (use assms(1) in \<open>auto simp: enter_leave_def pair_event_def record_of_def\<close>)
  moreover have "filter ?Q (map record_of (pair_event e EvPointerOver EvMouseOver i)) = []" for i
    using assms(1) by (auto simp: enter_leave_def pair_event_def record_of_def)
  ultimately show ?thesis using assms(3)
    by (auto simp: over_events_def map_concat comp_def split: option.split)
qed

text \<open>One move: leaving the old chain below the first difference and entering the new one.\<close>
lemma move_inside:
  assumes el: "enter_leave (is_mouse e) en lv" and dist: "distinct old_chain" "distinct new_chain"
    and none: "old = None \<Longrightarrow> old_chain = []" "new = None \<Longrightarrow> new_chain = []"
    and common: "\<And>x. x \<in> set old_chain \<Longrightarrow> x \<in> set new_chain \<Longrightarrow>
      \<exists>p r s. old_chain = p @ x # r \<and> new_chain = p @ x # s"
    and k: "k = first_difference_index old_chain new_chain"
  shows "inside_run (en, n) (lv, n)
      (map record_of (out_events e old (drop k old_chain) @ over_events e new (drop k new_chain))) (n \<in> set old_chain)
    = Some (n \<in> set new_chain)"
proof -
  let ?Q = "\<lambda>x. x = (en, n) \<or> x = (lv, n)"
  have ne: "en \<noteq> lv" using el by (auto simp: enter_leave_def)
  have out: "filter ?Q (map record_of (out_events e old (drop k old_chain))) = (if n \<in> set (drop k old_chain) then [(lv, n)] else [])"
    by (rule out_events_filter [OF el]) (use dist none in auto)
  have over: "filter ?Q (map record_of (over_events e new (drop k new_chain))) = (if n \<in> set (drop k new_chain) then [(en, n)] else [])"
    by (rule over_events_filter [OF el]) (use dist none in auto)
  have d1: "set (drop k old_chain) \<inter> set new_chain = {}"
    unfolding k by (rule drop_difference_disjoint [OF dist(1) common])
  have d2: "set (drop k new_chain) \<inter> set old_chain = {}"
    unfolding k first_difference_commute [of old_chain new_chain]
    by (rule drop_difference_disjoint [OF dist(2)]) (use common in blast)
  have t: "take k old_chain = take k new_chain" unfolding k by (rule first_difference_take)
  have "n \<in> set xs \<longleftrightarrow> n \<in> set (take k xs) \<or> n \<in> set (drop k xs)" for xs
    by (metis append_take_drop_id set_append Un_iff)
  from this [of old_chain] this [of new_chain] have
    "n \<in> set (drop k old_chain) \<Longrightarrow> n \<in> set old_chain \<and> n \<notin> set new_chain"
    "n \<in> set (drop k new_chain) \<Longrightarrow> n \<in> set new_chain \<and> n \<notin> set old_chain"
    "n \<notin> set (drop k old_chain) \<Longrightarrow> n \<notin> set (drop k new_chain) \<Longrightarrow> n \<in> set old_chain \<longleftrightarrow> n \<in> set new_chain"
    using d1 d2 t by auto
  then show ?thesis using ne
    by (subst inside_run_filter) (auto simp: out over)
qed

section \<open>Moves\<close>

lemma chain_of_props:
  assumes wf: "wf_doc d" and live: "\<And>j. i = Some j \<Longrightarrow> nodes d j \<noteq> None"
  obtains c where "chain_of d i = Some c" "distinct c" "\<forall>x\<in>set c. nodes d x \<noteq> None" "i = None \<Longrightarrow> c = []"
    "\<And>x. x \<in> set c \<Longrightarrow> \<exists>ws r. node_chain d x = Some (x # ws) \<and> c = rev ws @ x # r"
proof (cases i)
  case None
  then show ?thesis by (intro that [of "[]"]) (simp_all add: chain_of_def)
next
  case (Some j)
  obtain c where c: "node_chain d j = Some c" "distinct c" "\<forall>x\<in>set c. nodes d x \<noteq> None"
    "\<And>x. x \<in> set c \<Longrightarrow> \<exists>us vs. c = us @ vs \<and> node_chain d x = Some vs"
    using node_chain_live [OF wf live [OF Some]] by metis
  have "\<exists>ws r. node_chain d x = Some (x # ws) \<and> rev c = rev ws @ x # r" if x: "x \<in> set c" for x
  proof -
    obtain us vs where u: "c = us @ vs" "node_chain d x = Some vs" using c(4) [OF x] by auto
    then show ?thesis using node_chain_hd [OF u(2)] by auto
  qed
  then show ?thesis using c Some by (intro that [of "rev c"]) (simp_all add: chain_of_def)
qed

lemma chain_of_keeps:
  assumes "wf_doc d" "keeps d d'" "\<And>j. i = Some j \<Longrightarrow> nodes d j \<noteq> None"
  shows "chain_of d' i = chain_of d i"
proof (cases i)
  case (Some j)
  then obtain n where "nodes d j = Some n" using assms(3) by auto
  from node_chain_keeps [OF assms(1,2) this] show ?thesis by (simp add: chain_of_def Some)
qed (simp add: chain_of_def)

lemma hover_live: "interaction_ok d \<Longrightarrow> hover_node_id d = Some j \<Longrightarrow> nodes d j \<noteq> None"
  by (auto simp: interaction_ok_def lit_def maybe_node_layout_ancestors_def node_layout_ancestors_def
      layout_ancestors_up.simps [of d "Some j"] node_at_simp split: option.splits bind_splits)

lemma show_scrollbars_hover [simp]: "hover_node_id (show_scrollbars now i d) = hover_node_id d"
  by (simp add: show_scrollbars_def shell_def)

lemma note_thumb_hover: "hover_node_id (snd (note_thumb p d)) = hover_node_id d"
  by (simp add: note_thumb_def Let_def split: option.split)

lemma unchanged_hover:
  assumes "set_hover_to p d = Some (False, d')" shows "hover_node_id d' = hover_node_id d"
proof -
  obtain c d1 where t: "note_thumb p (d\<lparr>last_client_pointer_position := Some (probe_client p)\<rparr>) = (c, d1)"
    by fastforce
  then have "hover_node_id d1 = hover_node_id d"
    using note_thumb_hover [of p "d\<lparr>last_client_pointer_position := Some (probe_client p)\<rparr>"] by simp
  then show ?thesis using assms unfolding set_hover_to_def Let_def t prod.case
    by (auto simp: shell_def split: bind_splits if_splits)
qed

definition recording :: "document \<Rightarrow> (event_record list \<times> 's) driver \<Rightarrow> bool" where
  "recording d v \<longleftrightarrow> interaction_ok d \<and> act_doc (drv_act v) = d \<and> act_queue (drv_act v) = []"

text \<open>The chain of the hovered node, from the top.\<close>
definition hover_chain :: "document \<Rightarrow> node_id list" where
  "hover_chain d = (case chain_of d (hover_node_id d) of None \<Rightarrow> [] | Some c \<Rightarrow> c)"

text \<open>Every node keeps the promise while the document changes from \<open>d\<close> to \<open>d'\<close>; \<open>m\<close> tells whether all
  the moves are those of a mouse.\<close>
definition promise_kept :: "bool \<Rightarrow> document \<Rightarrow> document \<Rightarrow> event_record list \<Rightarrow> bool" where
  "promise_kept m d d' es \<longleftrightarrow> (\<forall>en lv n. enter_leave m en lv \<longrightarrow>
     inside_run (en, n) (lv, n) es (n \<in> set (hover_chain d)) = Some (n \<in> set (hover_chain d')))"

lemma promise_kept_append:
  "promise_kept m1 d d1 es1 \<Longrightarrow> promise_kept m2 d1 d2 es2 \<Longrightarrow> promise_kept (m1 \<and> m2) d d2 (es1 @ es2)"
  by (auto simp: promise_kept_def enter_leave_def inside_run_append)

lemma pointer_move_step:
  assumes H: "reads_only H" and ok: "interaction_ok d" "act_doc (drv_act v) = d" "act_queue (drv_act v) = []"
  shows "\<exists>h v' d' es s. handle_pointer_move (recorded H) P e v = Some (h, v')
    \<and> act_doc (drv_act v') = d' \<and> act_queue (drv_act v') = [] \<and> interaction_ok d' \<and> keeps d d'
    \<and> h = hover_node_id d' \<and> drv_script v' = (fst (drv_script v) @ es, s)
    \<and> promise_kept (is_mouse e) d d' es"
proof -
  obtain b d' where d': "hover_to P (page_x (pe_coords e), page_y (pe_coords e)) d = Some (b, d')"
      "interaction_ok d'" "keeps d d'"
    using set_hover_to_step [OF ok(1)] unfolding hover_to_def by blast
  have wf: "wf_doc d" "wf_doc d'" using ok(1) d'(2) by (simp_all add: interaction_ok_def layout_ok_def)
  have live: "nodes d j \<noteq> None" if "hover_node_id d = Some j" for j using hover_live [OF ok(1) that] .
  then have live': "nodes d' j \<noteq> None" if "hover_node_id d = Some j" for j
    using that keeps_dom [OF d'(3)] by simp
  have same: "chain_of d' (hover_node_id d) = chain_of d (hover_node_id d)"
    by (rule chain_of_keeps [OF wf(1) d'(3) live])
  show ?thesis
  proof (cases b)
    case False
    then have h: "hover_node_id d' = hover_node_id d" using d'(1) unchanged_hover by (simp add: hover_to_def)
    then have "hover_chain d' = hover_chain d" using same by (simp add: hover_chain_def)
    then show ?thesis using d' ok h False
      by (intro exI [of _ "hover_node_id d'"] exI [of _ "v\<lparr>drv_act := (drv_act v)\<lparr>act_doc := d'\<rparr>\<rparr>"] exI [of _ d']
          exI [of _ "[]"] exI [of _ "snd (drv_script v)"]) (simp add: handle_pointer_move_def promise_kept_def)
  next
    case True
    obtain oc where oc: "chain_of d' (hover_node_id d) = Some oc" "distinct oc" "\<forall>x\<in>set oc. nodes d' x \<noteq> None"
      "hover_node_id d = None \<Longrightarrow> oc = []"
      "\<And>x. x \<in> set oc \<Longrightarrow> \<exists>ws r. node_chain d' x = Some (x # ws) \<and> oc = rev ws @ x # r"
      by (rule chain_of_props [OF wf(2) live']) auto
    obtain nc where nc: "chain_of d' (hover_node_id d') = Some nc" "distinct nc" "\<forall>x\<in>set nc. nodes d' x \<noteq> None"
      "hover_node_id d' = None \<Longrightarrow> nc = []"
      "\<And>x. x \<in> set nc \<Longrightarrow> \<exists>ws r. node_chain d' x = Some (x # ws) \<and> nc = rev ws @ x # r"
      by (rule chain_of_props [OF wf(2) hover_live [OF d'(2)]]) auto
    define k where "k = first_difference_index oc nc"
    let ?out = "out_events e (hover_node_id d) (drop k oc)" and ?over = "over_events e (hover_node_id d') (drop k nc)"
    have quiet: "\<forall>x\<in>set ?out. quiet (kind (ev_data x)) \<and> nodes d' (ev_target x) \<noteq> None"
      "\<forall>x\<in>set ?over. quiet (kind (ev_data x)) \<and> nodes d' (ev_target x) \<noteq> None"
      using oc(3) nc(3) live' hover_live [OF d'(2)]
      by (auto simp: out_events_def over_events_def pair_event_def quiet_def dest!: in_set_dropD split: option.splits)
    let ?v1 = "v\<lparr>drv_act := (drv_act v)\<lparr>act_doc := d'\<rparr>\<rparr>"
    obtain s1 where s1: "handle_all (recorded H) P ?out ?v1
        = Some (?v1\<lparr>drv_script := (fst (drv_script v) @ map record_of ?out, s1)\<rparr>)"
      using deliver_all [OF H, of ?v1 ?out] wf(2) ok(3) quiet(1) by auto
    let ?v2 = "?v1\<lparr>drv_script := (fst (drv_script v) @ map record_of ?out, s1)\<rparr>"
    obtain s2 where s2: "handle_all (recorded H) P ?over ?v2
        = Some (?v2\<lparr>drv_script := (fst (drv_script v) @ map record_of (?out @ ?over), s2)\<rparr>)"
      using deliver_all [OF H, of ?v2 ?over] wf(2) ok(3) quiet(2) by auto
    have common: "\<exists>p r s. oc = p @ x # r \<and> nc = p @ x # s" if "x \<in> set oc" "x \<in> set nc" for x
      using oc(5) [OF that(1)] nc(5) [OF that(2)] by auto
    have "inside_run (en, n) (lv, n) (map record_of (?out @ ?over)) (n \<in> set oc) = Some (n \<in> set nc)"
      if "enter_leave (is_mouse e) en lv" for en lv n
      by (rule move_inside [OF that oc(2) nc(2) oc(4) nc(4) common k_def])
    moreover have "hover_chain d = oc" "hover_chain d' = nc" 
      using oc(1) [unfolded same] nc(1) by (simp_all add: hover_chain_def)
    ultimately show ?thesis using d' ok True oc(1) nc(1) s1 s2
      by (intro exI [of _ "hover_node_id d'"]
          exI [of _ "?v2\<lparr>drv_script := (fst (drv_script v) @ map record_of (?out @ ?over), s2)\<rparr>"] exI [of _ d']
          exI [of _ "map record_of (?out @ ?over)"] exI [of _ s2]) (simp add: handle_pointer_move_def k_def Let_def promise_kept_def)
  qed
qed

fun pointer_moves :: "'s page_handler \<Rightarrow> (page \<times> pointer_event) list \<Rightarrow> 's driver \<Rightarrow> 's driver may_panic" where
  "pointer_moves H [] v = Some v"
| "pointer_moves H ((P, e) # ms) v = do { (_, v1) \<leftarrow> handle_pointer_move H P e v; pointer_moves H ms v1 }"

lemma pointer_moves_ok:
  assumes H: "reads_only H" and "interaction_ok (act_doc (drv_act v))" "act_queue (drv_act v) = []"
  shows "\<exists>v' es s. pointer_moves (recorded H) ms v = Some v' \<and> act_queue (drv_act v') = []
    \<and> interaction_ok (act_doc (drv_act v')) \<and> drv_script v' = (fst (drv_script v) @ es, s)
    \<and> promise_kept (\<forall>m\<in>set ms. is_mouse (snd m)) (act_doc (drv_act v)) (act_doc (drv_act v')) es"
  using assms(2,3)
proof (induction ms arbitrary: v)
  case Nil
  then show ?case
    by (intro exI [of _ v] exI [of _ "[]"] exI [of _ "snd (drv_script v)"]) (simp add: promise_kept_def)
next
  case (Cons m ms)
  obtain P e where m: "m = (P, e)" by fastforce
  obtain h v1 es1 s1 where 1: "handle_pointer_move (recorded H) P e v = Some (h, v1)" "act_queue (drv_act v1) = []"
    "interaction_ok (act_doc (drv_act v1))" "drv_script v1 = (fst (drv_script v) @ es1, s1)"
    "promise_kept (is_mouse e) (act_doc (drv_act v)) (act_doc (drv_act v1)) es1"
    using pointer_move_step [OF H Cons.prems(1) refl Cons.prems(2), of P e] by blast
  obtain v' es2 s2 where 2: "pointer_moves (recorded H) ms v1 = Some v'" "act_queue (drv_act v') = []"
    "interaction_ok (act_doc (drv_act v'))" "drv_script v' = (fst (drv_script v1) @ es2, s2)"
    "promise_kept (\<forall>m\<in>set ms. is_mouse (snd m)) (act_doc (drv_act v1)) (act_doc (drv_act v')) es2"
    using Cons.IH [OF 1(3,2)] by blast
  show ?case using promise_kept_append [OF 1(5) 2(5)] 1(1,4) 2(1-4)
    by (intro exI [of _ v'] exI [of _ "es1 @ es2"] exI [of _ s2]) (simp add: m)
qed

text \<open>C26. Enter and leave events keep their promise.  However the pointer moves over a page (the hit
  tests of the moves may answer anything), and whatever the handler of the page reads and
  cancels, as long as it does not change the document: no move panics, the queue of events is
  empty again, and every node sees \<open>pointerenter\<close> only while the pointer is outside of it and
  \<open>pointerleave\<close> only while it is inside, beginning with the chain of the node hovered first and
  ending with that of the node hovered last; when all the moves are those of a mouse the same
  holds of \<open>mouseenter\<close> and \<open>mouseleave\<close>.\<close>
theorem enter_leave_balance:
  assumes "reads_only H" and "interaction_ok (act_doc (drv_act v))" and "act_queue (drv_act v) = []"
  shows "\<exists>v' es s. pointer_moves (recorded H) ms v = Some v' \<and> act_queue (drv_act v') = []
    \<and> interaction_ok (act_doc (drv_act v')) \<and> drv_script v' = (fst (drv_script v) @ es, s)
    \<and> promise_kept (\<forall>m\<in>set ms. is_mouse (snd m)) (act_doc (drv_act v)) (act_doc (drv_act v')) es"
  by (rule pointer_moves_ok [OF assms])

text \<open>A page whose hit test answers with a fixed node; there is no scrolling and nothing is selectable.\<close>
definition ex_page :: "node_id option \<Rightarrow> page" where
  "ex_page hit = \<lparr> pg_env = ex_env,
     pg_hit = (\<lambda>d p. map_option (\<lambda>i. \<lparr> hit_node = i, hit_is_text = False \<rparr>) hit),
     pg_thumb = (\<lambda>d p. None), pg_client = (\<lambda>d p. p), pg_bands = (\<lambda>d p. (False, False, False, False)),
     pg_now = 0, pg_millis = 0, pg_near = (\<lambda>x y. True), pg_far = (\<lambda>x y. False), pg_style = (\<lambda>d i. None),
     pg_text_at = (\<lambda>d p. None), pg_range_raw = (\<lambda>d i x. None), pg_delta = (\<lambda>x y. 0), pg_f32 = (\<lambda>x. 0),
     pg_thumb_delta = (\<lambda>d r x y. (0, 0)), pg_scroll = (\<lambda>i xy d. (False, d, [])), pg_wheel_delta = (\<lambda>w. (0, 0)),
     pg_f32_sub = (-), pg_position = (\<lambda>d i. (0, 0)), pg_sub_scroll = (\<lambda>d i. (0, 0)), pg_client_rect = (\<lambda>d i. None) \<rparr>"

definition ex_driver :: "(event_record list \<times> unit) driver" where
  "ex_driver = \<lparr> drv_act = \<lparr> act_doc = ex_doc, act_queue = [], act_forwarded = [] \<rparr>, drv_script = ([], ()) \<rparr>"

definition ex_moves :: "(page \<times> pointer_event) list" where
  "ex_moves = [(ex_page (Some n4), ex_mouse), (ex_page (Some n6), ex_mouse), (ex_page None, ex_mouse)]"

theorem enter_leave_balance_witness:
  "\<exists>v' es s. pointer_moves (recorded noop_handler) ex_moves ex_driver = Some v' \<and> act_queue (drv_act v') = []
    \<and> interaction_ok (act_doc (drv_act v')) \<and> drv_script v' = (fst (drv_script ex_driver) @ es, s)
    \<and> promise_kept (\<forall>m\<in>set ex_moves. is_mouse (snd m)) (act_doc (drv_act ex_driver)) (act_doc (drv_act v')) es"
  by (rule enter_leave_balance) (simp_all add: reads_only_def noop_handler_def ex_driver_def ex_interaction_ok)

end
