(* ===== verification/Nav_History.thy ===== *)
theory Nav_History
  imports Net_Types
begin

text \<open>
  The back and forward list of a tab (\<open>apps/browser/src/history.rs\<close>): the requests in the order
  they were made and the index of the one shown.  An index out of range is a panic
  (\<open>None\<close>); so is an index that would fall below zero in \<open>has_forward\<close>, which reads
  \<open>len - 1\<close>.
\<close>

section \<open>The list and its operations\<close>

record nav_history =
  nav_urls :: "request list"
  nav_current :: nat

definition nav_new :: "request \<Rightarrow> nav_history" where
  "nav_new r = \<lparr> nav_urls = [r], nav_current = 0 \<rparr>"

definition nav_current_url :: "nav_history \<Rightarrow> request option" where
  "nav_current_url h = (if nav_current h < length (nav_urls h) then Some (nav_urls h ! nav_current h) else None)"

definition nav_has_back :: "nav_history \<Rightarrow> bool" where
  "nav_has_back h \<longleftrightarrow> nav_current h > 0"

definition nav_has_forward :: "nav_history \<Rightarrow> bool" where
  "nav_has_forward h \<longleftrightarrow> nav_current h < length (nav_urls h) - 1"

definition nav_go_back :: "nav_history \<Rightarrow> nav_history" where
  "nav_go_back h = (if nav_has_back h then h\<lparr>nav_current := nav_current h - 1\<rparr> else h)"

definition nav_go_forward :: "nav_history \<Rightarrow> nav_history" where
  "nav_go_forward h = (if nav_has_forward h then h\<lparr>nav_current := nav_current h + 1\<rparr> else h)"

definition nav_navigate :: "request \<Rightarrow> nav_history \<Rightarrow> nav_history" where
  "nav_navigate r h =
    (let idx = nav_current h;
         h1 = h\<lparr>nav_urls := take (idx + 1) (nav_urls h)\<rparr>;
         h2 = h1\<lparr>nav_urls := nav_urls h1 @ [r]\<rparr>
     in h2\<lparr>nav_current := nav_current h2 + 1\<rparr>)"

text \<open>\<open>BrowserNavProvider::navigate_to\<close>.\<close>
definition browser_navigate_to :: "navigation_options \<Rightarrow> nav_history \<Rightarrow> nav_history" where
  "browser_navigate_to opts h = nav_navigate (into_request opts) h"

section \<open>What the toolbar relies on\<close>

text \<open>A page history has a page to show, and goes back, forward and on without losing it.\<close>
locale page_history =
  fixes good :: "'h \<Rightarrow> bool"
    and shown :: "'h \<Rightarrow> 'r option"
    and go_back :: "'h \<Rightarrow> 'h"
    and go_forward :: "'h \<Rightarrow> 'h"
    and visit :: "'r \<Rightarrow> 'h \<Rightarrow> 'h"
    and can_back :: "'h \<Rightarrow> bool"
  assumes shows_page: "good h \<Longrightarrow> shown h \<noteq> None"
    and good_back: "good h \<Longrightarrow> good (go_back h)"
    and good_forward: "good h \<Longrightarrow> good (go_forward h)"
    and good_visit: "good h \<Longrightarrow> good (visit r h)"
    and shown_visit: "good h \<Longrightarrow> shown (visit r h) = Some r"
    and forward_back: "good h \<Longrightarrow> can_back h \<Longrightarrow> go_forward (go_back h) = h"
    and can_back_visit: "good h \<Longrightarrow> can_back (visit r h)"
    and shown_back_visit: "good h \<Longrightarrow> shown (go_back (visit r h)) = shown h"
begin

lemma good_visits: "good h \<Longrightarrow> good (fold visit rs h)"
  by (induction rs arbitrary: h) (simp_all add: good_visit)

lemma shown_visits: "good h \<Longrightarrow> shown (fold visit rs h) = (if rs = [] then shown h else Some (last rs))"
proof (induction rs arbitrary: h)
  case (Cons r rs)
  then show ?case by (simp add: good_visit shown_visit)
qed simp

lemma back_after_visits: "good h \<Longrightarrow> rs \<noteq> [] \<Longrightarrow> shown (go_back (fold visit rs h)) = shown (fold visit (butlast rs) h)"
  by (induction rs rule: rev_induct) (simp_all add: shown_back_visit good_visits)

lemma back_and_forward: "good h \<Longrightarrow> go_forward (go_back (visit r h)) = visit r h"
  by (simp add: forward_back good_visit can_back_visit)

end

definition nav_good :: "nav_history \<Rightarrow> bool" where
  "nav_good h \<longleftrightarrow> nav_current h < length (nav_urls h)"

lemma nav_good_new [simp]: "nav_good (nav_new r)" "nav_current_url (nav_new r) = Some r"
  by (simp_all add: nav_good_def nav_new_def nav_current_url_def)

lemma nav_good_back: "nav_good h \<Longrightarrow> nav_good (nav_go_back h)"
  by (auto simp: nav_good_def nav_go_back_def)

lemma nav_good_forward: "nav_good h \<Longrightarrow> nav_good (nav_go_forward h)"
  by (auto simp: nav_good_def nav_go_forward_def nav_has_forward_def)

lemma nav_navigate_eq:
  "nav_good h \<Longrightarrow> nav_navigate r h = \<lparr> nav_urls = take (nav_current h + 1) (nav_urls h) @ [r], nav_current = nav_current h + 1 \<rparr>"
  by (simp add: nav_navigate_def nav_good_def)

lemmas nav_ops = nav_go_back_def nav_go_forward_def nav_has_back_def nav_has_forward_def nav_current_url_def

interpretation nav: page_history nav_good nav_current_url nav_go_back nav_go_forward nav_navigate nav_has_back
proof
  fix h :: nav_history and r :: request
  assume g: "nav_good h"
  then have l: "nav_current h < length (nav_urls h)" by (simp add: nav_good_def)
  show "nav_current_url h \<noteq> None" using l by (simp add: nav_current_url_def)
  show "nav_good (nav_go_back h)" "nav_good (nav_go_forward h)"
    using g by (rule nav_good_back, rule nav_good_forward)
  show "nav_good (nav_navigate r h)" using l by (simp add: nav_navigate_eq [OF g], simp add: nav_good_def)
  show "nav_current_url (nav_navigate r h) = Some r"
    using l by (simp add: nav_navigate_eq [OF g] nav_current_url_def nth_append)
  show "nav_has_back (nav_navigate r h)" by (simp add: nav_navigate_eq [OF g] nav_ops)
  show "nav_current_url (nav_go_back (nav_navigate r h)) = nav_current_url h"
    using l by (simp add: nav_navigate_eq [OF g] nav_ops nth_append)
  show "nav_go_forward (nav_go_back h) = h" if "nav_has_back h"
    using l that by (simp add: nav_ops)
qed

section \<open>A zipper of pages\<close>

text \<open>What a user sees: the pages behind, nearest first, the page shown and the pages ahead.\<close>
datatype nav_move = Back | Forward | Visit request

fun zip_move :: "nav_move \<Rightarrow> request list \<times> request \<times> request list \<Rightarrow> request list \<times> request \<times> request list" where
  "zip_move Back ([], p, ahead) = ([], p, ahead)"
| "zip_move Back (q # behind, p, ahead) = (behind, q, p # ahead)"
| "zip_move Forward (behind, p, []) = (behind, p, [])"
| "zip_move Forward (behind, p, q # ahead) = (p # behind, q, ahead)"
| "zip_move (Visit r) (behind, p, ahead) = (p # behind, r, [])"

fun nav_move_step :: "nav_move \<Rightarrow> nav_history \<Rightarrow> nav_history" where
  "nav_move_step Back h = nav_go_back h"
| "nav_move_step Forward h = nav_go_forward h"
| "nav_move_step (Visit r) h = nav_navigate r h"

definition nav_pages :: "nav_history \<Rightarrow> request list \<times> request \<times> request list" where
  "nav_pages h = (rev (take (nav_current h) (nav_urls h)), nav_urls h ! nav_current h, drop (nav_current h + 1) (nav_urls h))"

lemma nav_good_move: "nav_good h \<Longrightarrow> nav_good (nav_move_step m h)"
  by (cases m) (simp_all add: nav_good_back nav_good_forward nav.good_visit)

lemma nav_pages_move:
  assumes g: "nav_good h" shows "nav_pages (nav_move_step m h) = zip_move m (nav_pages h)"
proof (cases m)
  case Back
  obtain us c where h: "nav_urls h = us" "nav_current h = c" "c < length us" using g by (simp add: nav_good_def)
  show ?thesis
  proof (cases c)
    case 0 then show ?thesis using Back h by (simp add: nav_pages_def nav_ops)
  next
    case (Suc n)
    then have "rev (take c us) = us ! n # rev (take n us)" "drop (Suc n) us = us ! c # drop (Suc c) us"
      using h(3) by (simp_all add: take_Suc_conv_app_nth Cons_nth_drop_Suc)
    then show ?thesis using Back h Suc by (simp add: nav_pages_def nav_ops)
  qed
next
  case Forward
  obtain us c where h: "nav_urls h = us" "nav_current h = c" "c < length us" using g by (simp add: nav_good_def)
  show ?thesis
  proof (cases "Suc c < length us")
    case True
    then have "drop (Suc c) us = us ! Suc c # drop (Suc (Suc c)) us" "rev (take (Suc c) us) = us ! c # rev (take c us)"
      using h(3) by (simp_all add: take_Suc_conv_app_nth Cons_nth_drop_Suc)
    then show ?thesis using Forward h True by (simp add: nav_pages_def nav_ops)
  next
    case False then show ?thesis using Forward h by (simp add: nav_pages_def nav_ops)
  qed
next
  case (Visit r)
  have l: "nav_current h < length (nav_urls h)" using g by (simp add: nav_good_def)
  then have "rev (take (Suc (nav_current h)) (nav_urls h)) = nav_urls h ! nav_current h # rev (take (nav_current h) (nav_urls h))"
    by (simp add: take_Suc_conv_app_nth)
  then show ?thesis using Visit l by (simp add: nav_navigate_eq [OF g] nav_pages_def nth_append)
qed

text \<open>C28. The history of a tab is a zipper of pages.  From its first page, after any sequence of
  going back, going forward and visiting, the pages behind, the page shown and the pages ahead are
  those of the zipper: back and forward are inverse where they move, a visit drops the pages
  ahead.  The request to show is always there (reading it never panics), and the back and
  forward buttons are enabled exactly when there is a page that way.\<close>
theorem nav_history_refines:
  assumes "h = fold nav_move_step ms (nav_new r)" and "(behind, p, ahead) = fold zip_move ms ([], r, [])"
  shows "nav_pages h = (behind, p, ahead) \<and> nav_current_url h = Some p
    \<and> (nav_has_back h \<longleftrightarrow> behind \<noteq> []) \<and> (nav_has_forward h \<longleftrightarrow> ahead \<noteq> [])"
proof -
  have "nav_good (fold nav_move_step ms h0) \<and> nav_pages (fold nav_move_step ms h0) = fold zip_move ms (nav_pages h0)"
    if "nav_good h0" for h0 using that
    by (induction ms arbitrary: h0) (simp_all add: nav_good_move nav_pages_move)
  moreover have "nav_pages (nav_new r) = ([], r, [])" by (simp add: nav_pages_def nav_new_def)
  ultimately have g: "nav_good h" "nav_pages h = (behind, p, ahead)" using assms by simp_all
  then show ?thesis by (auto simp: nav_pages_def nav_good_def nav_ops)
qed

text \<open>Two visits, back twice, forward once, and a visit that drops the page ahead.\<close>
theorem nav_history_refines_witness:
  "nav_pages (fold nav_move_step [Visit (request_get ''b''), Visit (request_get ''c''), Back, Back, Forward, Visit (request_get ''d'')]
      (nav_new (request_get ''a'')))
    = ([request_get ''b'', request_get ''a''], request_get ''d'', [])"
  using nav_history_refines [of _ "[Visit (request_get ''b''), Visit (request_get ''c''), Back, Back, Forward, Visit (request_get ''d'')]"
      "request_get ''a''" "[request_get ''b'', request_get ''a'']" "request_get ''d''" "[]", OF refl]
  by simp

end
