(* ===== verification/Browser_History.thy ===== *)
theory Browser_History
  imports Rust_String "HOL-Library.Multiset"
begin

text \<open>
  The browsing history of the browser (\<open>apps/browser/src/browser_history.rs\<close>) and its copy on disk
  (\<open>apps/browser/persistence/src/lib.rs\<close>): visits, favicons, the cap on entries, and what is
  loaded at the next start.

  A time is in nanoseconds since the epoch; URLs are kept as serialized.  The data base is the
  list of its rows in the order of insertion.  What the SQL statements of the source do to the
  rows is written out; the order in which \<open>ORDER BY visited_at DESC\<close> gives rows of equal times
  is a parameter.
\<close>

section \<open>Entries\<close>

definition MAX_HISTORY_ENTRIES :: nat where "MAX_HISTORY_ENTRIES = 1000"

type_synonym history_entry_id = u64

record history_entry =
  entry_id :: history_entry_id
  entry_url :: string
  entry_title :: string
  entry_favicon :: "string option"
  visited_at :: int

definition from_parts :: "string \<Rightarrow> string \<Rightarrow> string option \<Rightarrow> int \<Rightarrow> history_entry_id \<Rightarrow> history_entry \<times> history_entry_id" where
  "from_parts url title favicon visited counter =
    (\<lparr> entry_id = counter, entry_url = url, entry_title = title, entry_favicon = favicon, visited_at = visited \<rparr>,
     counter + 1)"

text \<open>\<open>HistoryEntry::new\<close> reads the clock.\<close>
definition history_entry_new :: "int \<Rightarrow> string \<Rightarrow> string \<Rightarrow> string option \<Rightarrow> history_entry_id \<Rightarrow> history_entry \<times> history_entry_id" where
  "history_entry_new now url title favicon counter = from_parts url title favicon now counter"

text \<open>Whole seconds since the epoch; times before it are taken for the epoch.\<close>
definition visited_secs :: "history_entry \<Rightarrow> int" where
  "visited_secs e = max 0 (visited_at e) div 1000000000"

section \<open>In memory\<close>

text \<open>The newest entry is the first.\<close>
definition record_visit_mem :: "history_entry \<Rightarrow> history_entry list \<Rightarrow> history_entry_id \<times> history_entry list" where
  "record_visit_mem e h =
    (if h \<noteq> [] \<and> entry_url (hd h) = entry_url e
     then (entry_id (hd h), (hd h)\<lparr>entry_title := entry_title e, entry_favicon := entry_favicon e,
             visited_at := visited_at e\<rparr> # tl h)
     else (let h1 = e # h
           in (entry_id e, if length h1 > MAX_HISTORY_ENTRIES then take MAX_HISTORY_ENTRIES h1 else h1)))"

fun set_favicon_mem :: "history_entry_id \<Rightarrow> string \<Rightarrow> history_entry list \<Rightarrow> history_entry list" where
  "set_favicon_mem i favicon [] = []"
| "set_favicon_mem i favicon (e # h) =
    (if entry_id e = i then e\<lparr>entry_favicon := Some favicon\<rparr> # h else e # set_favicon_mem i favicon h)"

definition format_elapsed :: "int \<Rightarrow> int \<Rightarrow> string" where
  "format_elapsed visited now =
    (let secs = nat (max 0 (now - visited) div 1000000000) in
     if secs < 60 then ''Just now''
     else if secs < 60 * 60 then decimal (secs div 60) @ '' min ago''
     else if secs < 60 * 60 * 24 then decimal (secs div (60 * 60)) @ '' hr ago''
     else decimal (secs div (60 * 60 * 24)) @ '' days ago'')"

section \<open>On disk\<close>

record history_row =
  row_id :: int
  row_url :: string
  row_title :: string
  row_favicon :: "string option"
  row_visited :: int

text \<open>The table \<open>history_entries\<close> and the next value of its key (\<open>AUTOINCREMENT\<close>).\<close>
record history_db =
  db_rows :: "history_row list"
  db_next :: int

type_synonym row_order = "history_row list \<Rightarrow> history_row list"

definition order_ok :: "row_order \<Rightarrow> bool" where
  "order_ok ord \<longleftrightarrow> (\<forall>rs. mset (ord rs) = mset rs \<and> sorted_wrt (\<lambda>a b. row_visited a \<ge> row_visited b) (ord rs))"

text \<open>\<open>LIMIT\<close> with a negative number is no limit.\<close>
definition sql_limit :: "int \<Rightarrow> 'a list \<Rightarrow> 'a list" where
  "sql_limit l rs = (if l < 0 then rs else take (nat l) rs)"

definition update_head :: "int \<Rightarrow> history_entry \<Rightarrow> history_row \<Rightarrow> history_row" where
  "update_head i e r = (if row_id r = i
     then r\<lparr>row_title := entry_title e, row_favicon := entry_favicon e, row_visited := visited_secs e\<rparr> else r)"

definition insert_row :: "history_entry \<Rightarrow> history_db \<Rightarrow> history_db" where
  "insert_row e db = \<lparr> db_rows = db_rows db @ [\<lparr> row_id = db_next db, row_url = entry_url e,
       row_title = entry_title e, row_favicon = entry_favicon e, row_visited = visited_secs e \<rparr>],
     db_next = db_next db + 1 \<rparr>"

definition prune :: "row_order \<Rightarrow> history_db \<Rightarrow> history_db" where
  "prune ord db = db\<lparr>db_rows := filter (\<lambda>r. row_id r \<in> set (map row_id (sql_limit (int MAX_HISTORY_ENTRIES) (ord (db_rows db)))))
     (db_rows db)\<rparr>"

definition record_visit_tx :: "row_order \<Rightarrow> history_entry \<Rightarrow> history_db \<Rightarrow> history_db" where
  "record_visit_tx ord e db = prune ord
    (case sql_limit 1 (ord (db_rows db)) of
       [] \<Rightarrow> insert_row e db
     | r # _ \<Rightarrow> if row_url r = entry_url e then db\<lparr>db_rows := map (update_head (row_id r) e) (db_rows db)\<rparr>
               else insert_row e db)"

text \<open>A transaction that fails is rolled back and logged.\<close>
definition record_visit_disk :: "bool \<Rightarrow> row_order \<Rightarrow> history_entry \<Rightarrow> history_db \<Rightarrow> history_db" where
  "record_visit_disk ok ord e db = (if ok then record_visit_tx ord e db else db)"

definition clear_disk :: "bool \<Rightarrow> history_db \<Rightarrow> history_db" where
  "clear_disk ok db = (if ok then db\<lparr>db_rows := []\<rparr> else db)"

definition set_favicon_by_url :: "bool \<Rightarrow> string \<Rightarrow> string \<Rightarrow> history_db \<Rightarrow> history_db" where
  "set_favicon_by_url ok page favicon db =
    (if ok then db\<lparr>db_rows := map (\<lambda>r. if row_url r = page \<and> row_favicon r = None
        then r\<lparr>row_favicon := Some favicon\<rparr> else r) (db_rows db)\<rparr> else db)"

text \<open>A row whose URL does not parse is left out.\<close>
fun load_rows :: "(string \<Rightarrow> string option) \<Rightarrow> history_row list \<Rightarrow> history_entry_id \<Rightarrow> history_entry list \<times> history_entry_id" where
  "load_rows parse [] counter = ([], counter)"
| "load_rows parse (r # rs) counter = (case parse (row_url r) of
      None \<Rightarrow> load_rows parse rs counter
    | Some url \<Rightarrow>
        (let (e, c1) = from_parts url (row_title r) (Option.bind (row_favicon r) parse) (max 0 (row_visited r) * 1000000000) counter;
             (es, c2) = load_rows parse rs c1
         in (e # es, c2)))"

definition load_recent ::
    "bool \<Rightarrow> row_order \<Rightarrow> (string \<Rightarrow> string option) \<Rightarrow> u64 \<Rightarrow> history_db \<Rightarrow> history_entry_id \<Rightarrow> history_entry list \<times> history_entry_id" where
  "load_recent ok ord parse limit db counter =
    (if ok then load_rows parse (sql_limit (sint limit) (ord (db_rows db))) counter else ([], counter))"

section \<open>The service\<close>

record history_service =
  browsing :: "history_entry list"
  disk :: history_db

text \<open>Disk writes are run by the blocking pool, in turn; without a runtime they are dropped.\<close>
definition dispatch_disk_write :: "bool \<Rightarrow> (history_db \<Rightarrow> history_db) \<Rightarrow> history_db \<Rightarrow> history_db" where
  "dispatch_disk_write runtime f db = (if runtime then f db else db)"

datatype history_op =
    RecordVisit history_entry
  | SetFavicon history_entry_id string string
  | ClearHistory

fun service_step :: "bool \<Rightarrow> bool \<Rightarrow> row_order \<Rightarrow> history_op \<Rightarrow> history_service \<Rightarrow> history_service" where
  "service_step runtime ok ord (RecordVisit e) s =
    s\<lparr>browsing := snd (record_visit_mem e (browsing s)),
      disk := dispatch_disk_write runtime (record_visit_disk ok ord e) (disk s)\<rparr>"
| "service_step runtime ok ord (SetFavicon i page favicon) s =
    s\<lparr>browsing := set_favicon_mem i favicon (browsing s),
      disk := dispatch_disk_write runtime (set_favicon_by_url ok page favicon) (disk s)\<rparr>"
| "service_step runtime ok ord ClearHistory s =
    s\<lparr>browsing := [], disk := dispatch_disk_write runtime (clear_disk ok) (disk s)\<rparr>"

section \<open>Memory and disk\<close>

text \<open>What both sides know of a visit, with the favicon or without it.\<close>
definition entry_view :: "bool \<Rightarrow> history_entry \<Rightarrow> string \<times> string \<times> string option \<times> int" where
  "entry_view fav e = (entry_url e, entry_title e, if fav then entry_favicon e else None, visited_secs e)"

definition row_view :: "bool \<Rightarrow> history_row \<Rightarrow> string \<times> string \<times> string option \<times> int" where
  "row_view fav r = (row_url r, row_title r, if fav then row_favicon r else None, row_visited r)"

definition aligned :: "bool \<Rightarrow> history_service \<Rightarrow> bool" where
  "aligned fav s \<longleftrightarrow> map (entry_view fav) (browsing s) = map (row_view fav) (rev (db_rows (disk s)))
     \<and> sorted_wrt (\<lambda>a b. row_visited a < row_visited b) (db_rows (disk s))
     \<and> sorted_wrt (\<lambda>a b. row_id a < row_id b) (db_rows (disk s))
     \<and> (\<forall>r\<in>set (db_rows (disk s)). row_id r < db_next (disk s))
     \<and> length (db_rows (disk s)) \<le> MAX_HISTORY_ENTRIES"

lemma order_newest_first:
  assumes "order_ok ord" "sorted_wrt (\<lambda>a b. row_visited a < row_visited b) rs"
  shows "ord rs = rev rs"
proof -
  have o: "mset (ord rs) = mset rs" "sorted_wrt (\<lambda>a b. row_visited a \<ge> row_visited b) (ord rs)"
    using assms(1) by (auto simp: order_ok_def)
  have strict: "sorted_wrt (<) (map row_visited rs)" using assms(2) by (simp add: sorted_wrt_map)
  then have inj: "inj_on row_visited (set rs)" "sorted (map row_visited rs)"
    using strict_sorted_iff [of "map row_visited rs"] by (simp_all add: distinct_map)
  have "sorted (map row_visited (rev (ord rs)))"
    using o(2) by (simp add: sorted_wrt_map sorted_wrt_rev)
  then have "sort_key row_visited rs = rev (ord rs)"
    by (rule sort_key_inj_key_eq [rotated 2]) (simp_all add: o(1) inj(1))
  moreover have "sort_key row_visited rs = rs" using inj(2) by (simp add: sort_key_id_if_sorted)
  ultimately show ?thesis by (metis rev_rev_ident)
qed

text \<open>Pruning keeps the newest rows, which are the last.\<close>
lemma prune_rows:
  assumes "order_ok ord" "sorted_wrt (\<lambda>a b. row_visited a < row_visited b) (db_rows db)"
    and ids: "sorted_wrt (\<lambda>a b. row_id a < row_id b) (db_rows db)"
  shows "prune ord db = db\<lparr>db_rows := drop (length (db_rows db) - MAX_HISTORY_ENTRIES) (db_rows db)\<rparr>"
proof -
  let ?rs = "db_rows db" and ?k = "length (db_rows db) - MAX_HISTORY_ENTRIES"
  have "sql_limit (int MAX_HISTORY_ENTRIES) (ord ?rs) = rev (drop ?k ?rs)"
    by (simp add: order_newest_first [OF assms(1,2)] sql_limit_def take_rev)
  moreover have "filter (\<lambda>r. row_id r \<in> row_id ` set (drop ?k ?rs)) ?rs = drop ?k ?rs"
  proof -
    have split: "?rs = take ?k ?rs @ drop ?k ?rs" by simp
    have "\<forall>a\<in>set (take ?k ?rs). \<forall>b\<in>set (drop ?k ?rs). row_id a < row_id b"
      using ids sorted_wrt_append [of "\<lambda>a b. row_id a < row_id b" "take ?k ?rs" "drop ?k ?rs"] by simp
    then have "filter (\<lambda>r. row_id r \<in> row_id ` set (drop ?k ?rs)) (take ?k ?rs) = []"
      by (fastforce simp: filter_empty_conv)
    moreover have "filter (\<lambda>r. row_id r \<in> row_id ` set (drop ?k ?rs)) (drop ?k ?rs) = drop ?k ?rs"
      by (simp add: filter_id_conv)
    ultimately show ?thesis by (metis (no_types, lifting) split filter_append append_Nil)
  qed
  ultimately show ?thesis by (simp add: prune_def)
qed

lemma aligned_record:
  assumes o: "order_ok ord" and a: "aligned fav s" and new: "\<forall>r\<in>set (db_rows (disk s)). row_visited r < visited_secs e"
  shows "aligned fav (service_step True True ord (RecordVisit e) s)
    \<and> (\<forall>r\<in>set (db_rows (disk (service_step True True ord (RecordVisit e) s))). row_visited r \<le> visited_secs e)"
proof -
  let ?db = "disk s" and ?h = "browsing s"
  have al: "map (entry_view fav) ?h = map (row_view fav) (rev (db_rows ?db))"
    "sorted_wrt (\<lambda>a b. row_visited a < row_visited b) (db_rows ?db)"
    "sorted_wrt (\<lambda>a b. row_id a < row_id b) (db_rows ?db)"
    "\<forall>r\<in>set (db_rows ?db). row_id r < db_next ?db" "length (db_rows ?db) \<le> MAX_HISTORY_ENTRIES"
    using a by (auto simp: aligned_def)
  have head: "sql_limit 1 (ord (db_rows ?db)) = take 1 (rev (db_rows ?db))"
    by (simp add: order_newest_first [OF o al(2)] sql_limit_def)
  show ?thesis
  proof (cases "?h \<noteq> [] \<and> entry_url (hd ?h) = entry_url e")
    case True
    then obtain x h where h: "?h = x # h" "entry_url x = entry_url e" by (cases ?h) auto
    then obtain rs r where rs: "db_rows ?db = rs @ [r]" using al(1) by (cases "db_rows ?db" rule: rev_cases) auto
    have r: "entry_view fav x = row_view fav r" "map (entry_view fav) h = map (row_view fav) (rev rs)"
      using al(1) h rs by simp_all
    then have url: "row_url r = entry_url e" using h(2) by (simp add: entry_view_def row_view_def)
    have ids: "\<forall>q\<in>set rs. row_id q \<noteq> row_id r" using al(3) rs by (fastforce simp: sorted_wrt_append)
    have upd: "map (update_head (row_id r) e) (db_rows ?db) = rs @ [update_head (row_id r) e r]"
      using ids by (simp add: rs update_head_def map_idI)
    have tx0: "record_visit_tx ord e ?db = prune ord (?db\<lparr>db_rows := rs @ [update_head (row_id r) e r]\<rparr>)"
      unfolding record_visit_tx_def head upd [symmetric] by (simp add: rs url)
    have tx: "record_visit_tx ord e ?db = ?db\<lparr>db_rows := rs @ [update_head (row_id r) e r]\<rparr>"
    proof -
      have s: "sorted_wrt (\<lambda>a b. row_visited a < row_visited b) (rs @ [update_head (row_id r) e r])"
        "sorted_wrt (\<lambda>a b. row_id a < row_id b) (rs @ [update_head (row_id r) e r])"
        using al(2,3) rs new by (auto simp: sorted_wrt_append update_head_def)
      have "length (rs @ [update_head (row_id r) e r]) - MAX_HISTORY_ENTRIES = 0" using al(5) rs by simp
      then show ?thesis
        using prune_rows [OF o, of "?db\<lparr>db_rows := rs @ [update_head (row_id r) e r]\<rparr>"] s tx0 by simp
    qed
    show ?thesis using h r url al new rs
      by (auto simp: aligned_def tx dispatch_disk_write_def record_visit_disk_def record_visit_mem_def
          update_head_def entry_view_def row_view_def sorted_wrt_append visited_secs_def)
  next
    case False
    have no: "\<not> (\<exists>r rest. sql_limit 1 (ord (db_rows ?db)) = r # rest \<and> row_url r = entry_url e)"
    proof
      assume "\<exists>r rest. sql_limit 1 (ord (db_rows ?db)) = r # rest \<and> row_url r = entry_url e"
      then obtain r where r: "rev (db_rows ?db) \<noteq> []" "hd (rev (db_rows ?db)) = r" "row_url r = entry_url e"
        by (cases "rev (db_rows ?db)") (auto simp: head)
      then have "?h \<noteq> []" "entry_view fav (hd ?h) = row_view fav r" using al(1) by (cases ?h; auto)+
      then show False using False r by (simp add: entry_view_def row_view_def)
    qed
    let ?row = "\<lparr> row_id = db_next ?db, row_url = entry_url e, row_title = entry_title e,
      row_favicon = entry_favicon e, row_visited = visited_secs e \<rparr>"
    let ?rs = "db_rows ?db @ [?row]"
    have tx0: "record_visit_tx ord e ?db = prune ord (insert_row e ?db)"
      using no by (auto simp: record_visit_tx_def split: list.split)
    have s: "sorted_wrt (\<lambda>a b. row_visited a < row_visited b) ?rs" "sorted_wrt (\<lambda>a b. row_id a < row_id b) ?rs"
      using al(2-4) new by (auto simp: sorted_wrt_append)
    let ?k = "length ?rs - MAX_HISTORY_ENTRIES"
    have tx: "record_visit_tx ord e ?db = \<lparr> db_rows = drop ?k ?rs, db_next = db_next ?db + 1 \<rparr>"
      unfolding tx0 using prune_rows [OF o, of "insert_row e ?db"] s by (simp add: insert_row_def)
    have mem: "snd (record_visit_mem e ?h) = take MAX_HISTORY_ENTRIES (e # ?h)"
      using False by (auto simp: record_visit_mem_def Let_def)
    have r: "rev (drop ?k ?rs) = take MAX_HISTORY_ENTRIES (rev ?rs)" by (simp only: take_rev)
    have "map (entry_view fav) (e # ?h) = map (row_view fav) (rev ?rs)"
      using al(1) by (simp add: entry_view_def row_view_def)
    then have "map (entry_view fav) (take MAX_HISTORY_ENTRIES (e # ?h)) = map (row_view fav) (rev (drop ?k ?rs))"
      unfolding r take_map [symmetric] by simp
    moreover have "sorted_wrt (\<lambda>a b. row_visited a < row_visited b) (drop ?k ?rs)"
      "sorted_wrt (\<lambda>a b. row_id a < row_id b) (drop ?k ?rs)"
      by (rule sorted_wrt_drop, rule s)+
    moreover have "\<forall>r\<in>set ?rs. row_id r < db_next ?db + 1 \<and> row_visited r \<le> visited_secs e"
      using al(4) new by fastforce
    then have "\<forall>r\<in>set (drop ?k ?rs). row_id r < db_next ?db + 1 \<and> row_visited r \<le> visited_secs e"
      by (meson in_set_dropD)
    ultimately show ?thesis
      by (simp add: aligned_def dispatch_disk_write_def record_visit_disk_def tx mem)
  qed
qed

text \<open>What the disk should hold, newest first: a visit replaces the newest entry when that has its
  URL and goes on top otherwise, with the oldest entry dropped beyond the maximum; a favicon goes
  to every entry of its page that has none.\<close>
type_synonym entry_facts = "string \<times> string \<times> string option \<times> int"

fun expected_step :: "history_op \<Rightarrow> entry_facts list \<Rightarrow> entry_facts list" where
  "expected_step (RecordVisit e) h =
    (let seen = (entry_url e, entry_title e, entry_favicon e, visited_secs e) in
     if h \<noteq> [] \<and> fst (hd h) = entry_url e then seen # tl h else take 1000 (seen # h))"
| "expected_step (SetFavicon i page favicon) h =
    map (\<lambda>(u, t, f, v). (u, t, if u = page \<and> f = None then Some favicon else f, v)) h"
| "expected_step ClearHistory h = []"

text \<open>The same on entries: what the running browser would hold if it keyed favicons as the disk does.\<close>
definition fill_favicon :: "string \<Rightarrow> string \<Rightarrow> history_entry \<Rightarrow> history_entry" where
  "fill_favicon page favicon e =
    (if entry_url e = page \<and> entry_favicon e = None then e\<lparr>entry_favicon := Some favicon\<rparr> else e)"

fun twin_step :: "history_op \<Rightarrow> history_entry list \<Rightarrow> history_entry list" where
  "twin_step (RecordVisit e) g = snd (record_visit_mem e g)"
| "twin_step (SetFavicon i page favicon) g = map (fill_favicon page favicon) g"
| "twin_step ClearHistory g = []"

lemma twin_expected: "map (entry_view True) (twin_step x g) = expected_step x (map (entry_view True) g)"
proof (cases x)
  case (RecordVisit e)
  then show ?thesis
    by (cases g) (auto simp: record_visit_mem_def entry_view_def visited_secs_def MAX_HISTORY_ENTRIES_def take_map Let_def)
qed (auto simp: entry_view_def fill_favicon_def visited_secs_def)

lemma set_favicon_mem_view: "map (entry_view False) (set_favicon_mem i favicon h) = map (entry_view False) h"
  by (induction h) (simp_all add: entry_view_def visited_secs_def)

lemma views_of_full:
  "map (entry_view False) h = map (\<lambda>(u, t, f, v). (u, t, None, v)) (map (entry_view True) h)"
  "map entry_favicon h = map (\<lambda>(u, t, f, v). f) (map (entry_view True) h)"
  by (simp_all add: entry_view_def)

text \<open>An entry that shows a favicon has one in the other list as well.\<close>
definition covered :: "history_entry list \<Rightarrow> history_entry list \<Rightarrow> bool" where
  "covered h g \<longleftrightarrow> list_all2 (\<lambda>m d. entry_favicon m \<noteq> None \<longrightarrow> entry_favicon d \<noteq> None) h g"

lemma covered_favicons:
  "covered h g \<longleftrightarrow> list_all2 (\<lambda>m d. m \<noteq> None \<longrightarrow> d \<noteq> None) (map entry_favicon h) (map entry_favicon g)"
  by (simp add: covered_def list_all2_map1 list_all2_map2)

lemma fill_favicon_view: "entry_view False (fill_favicon page favicon e) = entry_view False e"
  by (simp add: fill_favicon_def entry_view_def visited_secs_def)

lemma view_entry: "entry_view False m = entry_view False d \<Longrightarrow> entry_url m = entry_url d"
  by (simp add: entry_view_def)

lemma record_visit_cases:
  "snd (record_visit_mem e h) = (if h \<noteq> [] \<and> entry_url (hd h) = entry_url e
     then (hd h)\<lparr>entry_title := entry_title e, entry_favicon := entry_favicon e, visited_at := visited_at e\<rparr> # tl h
     else take MAX_HISTORY_ENTRIES (e # h))"
  by (auto simp: record_visit_mem_def Let_def)

lemma record_visit_views:
  assumes "map (entry_view False) h = map (entry_view False) g"
  shows "map (entry_view False) (snd (record_visit_mem e h)) = map (entry_view False) (snd (record_visit_mem e g))"
proof -
  have "take n (map (entry_view False) (e # h)) = take n (map (entry_view False) (e # g))" for n
    using assms by simp
  then have "map (entry_view False) (take n (e # h)) = map (entry_view False) (take n (e # g))" for n
    by (simp only: take_map)
  then show ?thesis using assms unfolding record_visit_cases
    by (cases h; cases g) (auto simp: entry_view_def visited_secs_def simp del: take_Cons)
qed

lemma covered_record:
  assumes "map (entry_view False) h = map (entry_view False) g" "covered h g"
  shows "covered (snd (record_visit_mem e h)) (snd (record_visit_mem e g))"
proof -
  have "covered (take n (e # h)) (take n (e # g))" for n
    using assms(2) unfolding covered_def by (intro list_all2_takeI) simp
  then show ?thesis using assms unfolding record_visit_cases
    by (cases h; cases g) (auto simp: entry_view_def covered_def)
qed

lemma covered_Cons:
  "covered (m # h) (d # g) \<longleftrightarrow> (entry_favicon m \<noteq> None \<longrightarrow> entry_favicon d \<noteq> None) \<and> covered h g"
  by (simp add: covered_def)

lemma covered_fill: "covered h g \<Longrightarrow> covered h (map (fill_favicon page favicon) g)"
  by (auto simp: covered_def list_all2_conv_all_nth fill_favicon_def)

lemma covered_favicon:
  assumes "map (entry_view False) h = map (entry_view False) g" "covered h g"
    and "\<forall>m\<in>set h. entry_id m = i \<longrightarrow> entry_url m = page"
  shows "covered (set_favicon_mem i favicon h) (map (fill_favicon page favicon) g)"
  using assms
proof (induction h arbitrary: g)
  case (Cons m h)
  from Cons.prems obtain d g' where g: "g = d # g'" by (cases g) auto
  have url: "entry_url m = entry_url d" by (rule view_entry) (use Cons.prems(1) g in simp)
  have md: "entry_favicon m \<noteq> None \<longrightarrow> entry_favicon d \<noteq> None" "covered h g'"
    using Cons.prems(2) g by (simp_all add: covered_Cons)
  have rest: "covered (set_favicon_mem i favicon h) (map (fill_favicon page favicon) g')"
    using Cons.prems(1,3) g md(2) by (intro Cons.IH) simp_all
  show ?case
  proof (cases "entry_id m = i")
    case True
    then have "entry_url d = page" using Cons.prems(3) url by simp
    then have "entry_favicon (fill_favicon page favicon d) \<noteq> None" by (simp add: fill_favicon_def)
    then show ?thesis using True covered_fill [OF md(2)] by (simp add: g covered_Cons)
  next
    case False
    have "entry_favicon d \<noteq> None \<longrightarrow> entry_favicon (fill_favicon page favicon d) \<noteq> None" by (simp add: fill_favicon_def)
    then show ?thesis using False md(1) rest by (simp add: g covered_Cons)
  qed
qed (simp add: covered_def)

text \<open>The disk side of the favicon write.\<close>
lemma aligned_favicon:
  assumes "aligned True (s\<lparr>browsing := g\<rparr>)"
  shows "aligned True (s\<lparr>browsing := map (fill_favicon page favicon) g,
    disk := dispatch_disk_write True (set_favicon_by_url True page favicon) (disk s)\<rparr>)"
proof -
  define fl where "fl = (\<lambda>r :: history_row. if row_url r = page \<and> row_favicon r = None then r\<lparr>row_favicon := Some favicon\<rparr> else r)"
  have f: "row_id (fl r) = row_id r" "row_visited (fl r) = row_visited r" for r by (simp_all add: fl_def)
  have v: "entry_view True (fill_favicon page favicon e) = row_view True (fl r)"
    if "entry_view True e = row_view True r" for e r
    using that by (auto simp: entry_view_def row_view_def fill_favicon_def fl_def visited_secs_def)
  have al: "map (entry_view True) g = map (row_view True) (rev (db_rows (disk s)))"
    using assms by (simp add: aligned_def)
  then have "map (entry_view True) (map (fill_favicon page favicon) g)
      = map (row_view True) (map fl (rev (db_rows (disk s))))"
    using v by (auto simp: list_eq_iff_nth_eq)
  moreover have "set_favicon_by_url True page favicon db = db\<lparr>db_rows := map fl (db_rows db)\<rparr>" for db
    by (simp add: set_favicon_by_url_def fl_def)
  ultimately show ?thesis using assms
    by (simp add: aligned_def dispatch_disk_write_def rev_map f sorted_wrt_map)
qed

lemma load_rows_view:
  assumes "\<forall>r\<in>set rs. parse (row_url r) = Some (row_url r) \<and> 0 \<le> row_visited r
      \<and> (fav \<longrightarrow> (\<forall>f. row_favicon r = Some f \<longrightarrow> parse f = Some f))"
  shows "map (entry_view fav) (fst (load_rows parse rs c)) = map (row_view fav) rs"
  using assms
proof (induction rs arbitrary: c)
  case (Cons r rs)
  then show ?case using Cons.IH [of "c + 1"]
    by (cases "row_favicon r"; cases "load_rows parse rs (c + 1)")
      (auto simp: from_parts_def entry_view_def row_view_def visited_secs_def)
qed simp

text \<open>The rows hold only what visits and favicon probes brought.\<close>
definition rows_parse :: "(string \<Rightarrow> string option) \<Rightarrow> history_db \<Rightarrow> bool" where
  "rows_parse parse db \<longleftrightarrow> (\<forall>r\<in>set (db_rows db). parse (row_url r) = Some (row_url r) \<and> 0 \<le> row_visited r
     \<and> (\<forall>f. row_favicon r = Some f \<longrightarrow> parse f = Some f))"

text \<open>URLs are kept as serialized: they parse, and to themselves.\<close>
definition op_parses :: "(string \<Rightarrow> string option) \<Rightarrow> history_op \<Rightarrow> bool" where
  "op_parses parse x = (case x of
      RecordVisit e \<Rightarrow> parse (entry_url e) = Some (entry_url e) \<and> (\<forall>f. entry_favicon e = Some f \<longrightarrow> parse f = Some f)
    | SetFavicon i page favicon \<Rightarrow> parse favicon = Some favicon
    | ClearHistory \<Rightarrow> True)"

lemma rows_parse_step:
  assumes "rows_parse parse (disk s)" "op_parses parse x"
  shows "rows_parse parse (disk (service_step True True ord x s))"
proof (cases x)
  case (RecordVisit e)
  have "0 \<le> visited_secs e" by (simp add: visited_secs_def)
  then show ?thesis using assms RecordVisit
    by (auto simp: rows_parse_def op_parses_def dispatch_disk_write_def record_visit_disk_def record_visit_tx_def prune_def
        insert_row_def update_head_def split: list.splits if_splits)
next
  case (SetFavicon i page favicon)
  then show ?thesis using assms
    by (auto simp: rows_parse_def op_parses_def dispatch_disk_write_def set_favicon_by_url_def split: if_splits)
next
  case ClearHistory
  then show ?thesis using assms by (simp add: rows_parse_def dispatch_disk_write_def clear_disk_def)
qed

fun visit_times :: "history_op list \<Rightarrow> int list" where
  "visit_times [] = []"
| "visit_times (RecordVisit e # xs) = visited_secs e # visit_times xs"
| "visit_times (x # xs) = visit_times xs"

lemma visit_times_append [simp]: "visit_times (xs @ ys) = visit_times xs @ visit_times ys"
  by (induction xs rule: visit_times.induct) simp_all

definition history_empty :: history_service where
  "history_empty = \<lparr> browsing = [], disk = \<lparr> db_rows = [], db_next = 1 \<rparr> \<rparr>"

text \<open>Memory, disk and twin along a run.\<close>
definition in_step :: "(string \<Rightarrow> string option) \<Rightarrow> history_op list \<Rightarrow> history_service \<Rightarrow> history_entry list \<Rightarrow> bool" where
  "in_step parse xs s g \<longleftrightarrow> aligned True (s\<lparr>browsing := g\<rparr>) \<and> rows_parse parse (disk s)
     \<and> map (entry_view False) (browsing s) = map (entry_view False) g
     \<and> (\<forall>r\<in>set (db_rows (disk s)). row_visited r \<in> set (visit_times xs))"

lemma in_step_step:
  assumes o: "order_ok ord" and i: "in_step parse xs s g" and p: "op_parses parse x"
    and srt: "sorted_wrt (<) (visit_times (xs @ [x]))"
  shows "in_step parse (xs @ [x]) (service_step True True ord x s) (twin_step x g)"
proof -
  have al: "aligned True (s\<lparr>browsing := g\<rparr>)" and v: "map (entry_view False) (browsing s) = map (entry_view False) g"
    and rt: "\<forall>r\<in>set (db_rows (disk s)). row_visited r \<in> set (visit_times xs)"
    and rp: "rows_parse parse (disk s)"
    using i by (simp_all add: in_step_def)
  note rp' = rows_parse_step [OF rp p, of ord]
  show ?thesis
  proof (cases x)
    case (RecordVisit e)
    have new: "\<forall>r\<in>set (db_rows (disk (s\<lparr>browsing := g\<rparr>))). row_visited r < visited_secs e"
      using rt srt RecordVisit by (auto simp: sorted_wrt_append)
    have rows: "row_visited r \<in> set (visit_times xs) \<union> {visited_secs e}"
      if "r \<in> set (db_rows (record_visit_tx ord e (disk s)))" for r
      using that rt by (auto simp: record_visit_tx_def prune_def insert_row_def update_head_def split: list.splits if_splits)
    have "service_step True True ord (RecordVisit e) (s\<lparr>browsing := g\<rparr>)
        = (service_step True True ord (RecordVisit e) s)\<lparr>browsing := snd (record_visit_mem e g)\<rparr>" by simp
    with aligned_record [OF o al new] have "aligned True
        ((service_step True True ord (RecordVisit e) s)\<lparr>browsing := snd (record_visit_mem e g)\<rparr>)" by metis
    with record_visit_views [OF v] rp' rows show ?thesis
      unfolding in_step_def RecordVisit by (auto simp: dispatch_disk_write_def record_visit_disk_def)
  next
    case (SetFavicon k page favicon)
    have "\<forall>r\<in>set (db_rows (disk (service_step True True ord x s))). row_visited r \<in> set (visit_times xs)"
      using rt SetFavicon by (auto simp: dispatch_disk_write_def set_favicon_by_url_def)
    moreover have "map (entry_view False) (map (fill_favicon page favicon) g) = map (entry_view False) g"
      by (simp add: fill_favicon_view)
    moreover have "s\<lparr>browsing := x, disk := y\<rparr> = s\<lparr>disk := y, browsing := x\<rparr>" for x y by simp
    moreover note aligned_favicon [OF al, of page favicon]
    ultimately show ?thesis using v rp' SetFavicon
      by (simp only: in_step_def) (simp add: set_favicon_mem_view)
  next
    case ClearHistory
    then show ?thesis using al rp' by (simp add: in_step_def aligned_def dispatch_disk_write_def clear_disk_def)
  qed
qed

lemma in_step_run:
  assumes o: "order_ok ord"
  shows "\<forall>x\<in>set xs. op_parses parse x \<Longrightarrow> sorted_wrt (<) (visit_times xs) \<Longrightarrow>
    in_step parse xs (fold (service_step True True ord) xs history_empty) (fold twin_step xs [])"
proof (induction xs rule: rev_induct)
  case Nil
  then show ?case by (simp add: in_step_def aligned_def rows_parse_def history_empty_def)
next
  case (snoc x xs)
  then show ?case using in_step_step [OF o, of parse xs] by (simp add: sorted_wrt_append)
qed

lemma twin_run: "map (entry_view True) (fold twin_step xs []) = fold expected_step xs []"
  by (induction xs rule: rev_induct) (simp_all add: twin_expected)

text \<open>The page a favicon is written for is the one visited under that id.\<close>
definition favicons_named :: "history_op list \<Rightarrow> bool" where
  "favicons_named xs \<longleftrightarrow> (\<forall>before i page favicon after e. xs = before @ SetFavicon i page favicon # after \<longrightarrow>
     RecordVisit e \<in> set before \<longrightarrow> entry_id e = i \<longrightarrow> entry_url e = page)"

lemma visited_under_id:
  "m \<in> set (browsing (fold (service_step True True ord) xs history_empty)) \<Longrightarrow>
   \<exists>e. RecordVisit e \<in> set xs \<and> entry_id e = entry_id m \<and> entry_url e = entry_url m"
proof (induction xs arbitrary: m rule: rev_induct)
  case Nil
  then show ?case by (simp add: history_empty_def)
next
  case (snoc x xs)
  have fav: "\<exists>m'\<in>set h. entry_id m' = entry_id m \<and> entry_url m' = entry_url m"
    if "m \<in> set (set_favicon_mem i f h)" for i f h
    using that by (induction h) (auto split: if_splits)
  let ?h = "browsing (fold (service_step True True ord) xs history_empty)"
  show ?case
  proof (cases x)
    case (RecordVisit e)
    with snoc.prems have "entry_id m = entry_id e \<and> entry_url m = entry_url e
        \<or> (\<exists>m'\<in>set ?h. entry_id m' = entry_id m \<and> entry_url m' = entry_url m)"
      by (cases ?h) (auto simp: record_visit_mem_def Let_def split: if_splits dest!: in_set_takeD)
    then show ?thesis using snoc.IH RecordVisit by fastforce
  next
    case (SetFavicon i page favicon)
    with snoc.prems fav snoc.IH show ?thesis by fastforce
  next
    case ClearHistory
    then show ?thesis using snoc.prems by simp
  qed
qed

lemma covered_run:
  assumes o: "order_ok ord"
  shows "\<forall>x\<in>set xs. op_parses parse x \<Longrightarrow> sorted_wrt (<) (visit_times xs) \<Longrightarrow> favicons_named xs \<Longrightarrow>
    covered (browsing (fold (service_step True True ord) xs history_empty)) (fold twin_step xs [])"
proof (induction xs rule: rev_induct)
  case Nil
  then show ?case by (simp add: covered_def history_empty_def)
next
  case (snoc x xs)
  let ?s = "fold (service_step True True ord) xs history_empty"
  have pre: "\<forall>x\<in>set xs. op_parses parse x" "sorted_wrt (<) (visit_times xs)"
    using snoc.prems by (simp_all add: sorted_wrt_append)
  have "favicons_named xs"
    using snoc.prems(3) unfolding favicons_named_def by (metis append.assoc append_Cons)
  note c = snoc.IH [OF pre this]
  have v: "map (entry_view False) (browsing ?s) = map (entry_view False) (fold twin_step xs [])"
    using in_step_run [OF o pre] by (simp add: in_step_def)
  show ?case
  proof (cases x)
    case (RecordVisit e)
    then show ?thesis using covered_record [OF v c] by simp
  next
    case (SetFavicon i page favicon)
    have "entry_url m = page" if "m \<in> set (browsing ?s)" "entry_id m = i" for m
      using visited_under_id [OF that(1)] that(2) snoc.prems(3) SetFavicon
      unfolding favicons_named_def by (metis append_Nil2)
    then show ?thesis using covered_favicon [OF v c] SetFavicon by simp
  qed (simp add: covered_def)
qed

lemma no_favicon_run:
  "\<forall>x\<in>set xs. \<forall>i page favicon. x \<noteq> SetFavicon i page favicon \<Longrightarrow>
   browsing (fold (service_step True True ord) xs history_empty) = fold twin_step xs []"
proof (induction xs rule: rev_induct)
  case Nil
  then show ?case by (simp add: history_empty_def)
next
  case (snoc x xs)
  then show ?case by (cases x) auto
qed


definition ex_visit :: "string \<Rightarrow> int \<Rightarrow> history_entry" where
  "ex_visit url secs = \<lparr> entry_id = 0, entry_url = url, entry_title = url, entry_favicon = None,
     visited_at = secs * 1000000000 \<rparr>"

text \<open>An order for the witness: newest first, rows of one time in the order of insertion.\<close>
definition ex_order :: row_order where
  "ex_order rs = sort_key (\<lambda>r. - row_visited r) rs"

lemma ex_order_ok: "order_ok ex_order"
proof -
  have "sorted (map (\<lambda>r. - row_visited r) (sort_key (\<lambda>r. - row_visited r) rs))" for rs :: "history_row list"
    by (rule sorted_sort_key)
  then show ?thesis by (simp add: order_ok_def ex_order_def sorted_wrt_map)
qed


text \<open>Within one second the disk may lose the fold: the order of equal times is open, and the
  newest visit is not found.\<close>
lemma same_second_not_folded:
  "length (browsing (fold (service_step True True ex_order)
      [RecordVisit (ex_visit ''a'' 1), RecordVisit (ex_visit ''b'' 1), RecordVisit (ex_visit ''b'' 1)] history_empty)) = 2"
  "length (db_rows (disk (fold (service_step True True ex_order)
      [RecordVisit (ex_visit ''a'' 1), RecordVisit (ex_visit ''b'' 1), RecordVisit (ex_visit ''b'' 1)] history_empty))) = 3"
  by (simp_all add: history_empty_def record_visit_mem_def ex_visit_def MAX_HISTORY_ENTRIES_def visited_secs_def
      dispatch_disk_write_def record_visit_disk_def record_visit_tx_def sql_limit_def insert_row_def prune_def ex_order_def)

end
