(* ===== verification/Url_Suggestions.thy ===== *)
theory Url_Suggestions
  imports Browser_History
begin

text \<open>
  The suggestions below the address bar (\<open>apps/browser/src/url_suggestions.rs\<close>): the rows, and the
  worker that feeds the history to the fuzzy matcher and publishes what it finds.

  The matcher (the \<open>nucleo\<close> crate) is a parameter.  Its threads run beside the worker, so what a
  tick finds depends on a number that stands for their progress.
\<close>

section \<open>Rows\<close>

definition SEARCH_ENGINE_NAME :: string where "SEARCH_ENGINE_NAME = ''DuckDuckGo''"

definition MAX_HISTORY_SUGGESTIONS :: nat where "MAX_HISTORY_SUGGESTIONS = 6"

datatype suggestion_kind = Literal | HistoryRow history_entry | Search

record suggestion =
  sg_kind :: suggestion_kind
  sg_title :: string
  sg_subtitle :: string

definition row_key :: "suggestion \<Rightarrow> string" where
  "row_key s = (case sg_kind s of Literal \<Rightarrow> ''literal'' | Search \<Rightarrow> ''search''
     | HistoryRow e \<Rightarrow> ''history:'' @ entry_url e)"

definition haystack_for :: "history_entry \<Rightarrow> string" where
  "haystack_for e = (if entry_title e = [] then entry_url e else entry_title e @ '' '' @ entry_url e)"

fun dedup_seen :: "string set \<Rightarrow> history_entry list \<Rightarrow> history_entry list" where
  "dedup_seen seen [] = []"
| "dedup_seen seen (e # es) =
    (if entry_url e \<in> seen then dedup_seen seen es else e # dedup_seen (insert (entry_url e) seen) es)"

definition dedup_by_url :: "history_entry list \<Rightarrow> history_entry list" where
  "dedup_by_url es = dedup_seen {} es"

definition history_suggestion :: "history_entry \<Rightarrow> suggestion" where
  "history_suggestion e = \<lparr> sg_kind = HistoryRow e,
     sg_title = (if entry_title e = [] then entry_url e else entry_title e), sg_subtitle = entry_url e \<rparr>"

definition assemble_suggestions :: "string \<Rightarrow> history_entry list \<Rightarrow> suggestion list" where
  "assemble_suggestions query es =
    (if query = [] then []
     else [\<lparr> sg_kind = Literal, sg_title = query, sg_subtitle = [] \<rparr>]
       @ map history_suggestion es
       @ [\<lparr> sg_kind = Search, sg_title = ''Search with '' @ SEARCH_ENGINE_NAME @ '': '' @ query, sg_subtitle = [] \<rparr>])"

section \<open>The matcher\<close>

record 'n matcher =
  nu_new :: 'n
  nu_push :: "history_entry \<Rightarrow> string \<Rightarrow> 'n \<Rightarrow> 'n"
  nu_restart :: "bool \<Rightarrow> 'n \<Rightarrow> 'n"
  nu_reparse :: "string \<Rightarrow> bool \<Rightarrow> 'n \<Rightarrow> 'n"
  nu_tick :: "nat \<Rightarrow> 'n \<Rightarrow> 'n \<times> bool \<times> bool"
  nu_matched :: "'n \<Rightarrow> history_entry list"

definition top_history_entries :: "'n matcher \<Rightarrow> 'n \<Rightarrow> history_entry list" where
  "top_history_entries nu m =
    (let n = min (length (nu_matched nu m)) MAX_HISTORY_SUGGESTIONS in take n (nu_matched nu m))"

definition inject_entries :: "'n matcher \<Rightarrow> history_entry list \<Rightarrow> 'n \<Rightarrow> 'n" where
  "inject_entries nu es m = fold (\<lambda>e. nu_push nu e (haystack_for e)) (dedup_by_url es) m"

text \<open>What the crate documents: a snapshot holds items pushed since the last restart, each no more
  often than it was pushed; a restart that clears the snapshot empties it; only a tick changes it
  otherwise.  \<open>items\<close> reads the pushed items.\<close>
definition matcher_ok :: "'n matcher \<Rightarrow> ('n \<Rightarrow> history_entry list) \<Rightarrow> bool" where
  "matcher_ok nu items \<longleftrightarrow>
     items (nu_new nu) = [] \<and> nu_matched nu (nu_new nu) = []
   \<and> (\<forall>e h m. items (nu_push nu e h m) = items m @ [e] \<and> nu_matched nu (nu_push nu e h m) = nu_matched nu m)
   \<and> (\<forall>m. items (nu_restart nu True m) = [] \<and> nu_matched nu (nu_restart nu True m) = [])
   \<and> (\<forall>q a m. items (nu_reparse nu q a m) = items m \<and> nu_matched nu (nu_reparse nu q a m) = nu_matched nu m)
   \<and> (\<forall>t m. items (fst (nu_tick nu t m)) = items m \<and> mset (nu_matched nu (fst (nu_tick nu t m))) \<subseteq># mset (items m))"

section \<open>The worker\<close>

datatype worker_message = SetQuery string | ReplaceEntries "history_entry list"

text \<open>What the \<open>select\<close> of a turn of the loop takes: a wake-up by the matcher, or a message.  The
  loop ends when the channel is closed.\<close>
datatype wake = Notified | Received worker_message

record 'n worker =
  wk_matcher :: 'n
  wk_query :: string
  wk_notify :: bool

definition worker_new :: "'n matcher \<Rightarrow> 'n worker" where
  "worker_new nu = \<lparr> wk_matcher = nu_new nu, wk_query = [], wk_notify = False \<rparr>"

fun take_message :: "'n matcher \<Rightarrow> wake \<Rightarrow> 'n worker \<Rightarrow> 'n worker" where
  "take_message nu Notified w = w\<lparr>wk_notify := False\<rparr>"
| "take_message nu (Received (SetQuery q)) w =
    (let append = starts_with q (wk_query w)
     in w\<lparr>wk_matcher := nu_reparse nu q append (wk_matcher w), wk_query := q\<rparr>)"
| "take_message nu (Received (ReplaceEntries es)) w =
    (let m1 = nu_restart nu True (wk_matcher w);
         m2 = inject_entries nu es m1;
         m3 = (if wk_query w \<noteq> [] then nu_reparse nu (wk_query w) False m2 else m2)
     in w\<lparr>wk_matcher := m3\<rparr>)"

text \<open>A turn: the worker after it and what it publishes.\<close>
definition worker_step :: "'n matcher \<Rightarrow> nat \<Rightarrow> wake \<Rightarrow> 'n worker \<Rightarrow> 'n worker \<times> suggestion list option" where
  "worker_step nu t x w =
    (let w1 = take_message nu x w;
         (m, changed, running) = nu_tick nu t (wk_matcher w1);
         out = (if changed then Some (assemble_suggestions (wk_query w1) (top_history_entries nu m)) else None)
     in (w1\<lparr>wk_matcher := m, wk_notify := running \<or> wk_notify w1\<rparr>, out))"

definition run_worker :: "'n matcher \<Rightarrow> (nat \<times> wake) list \<Rightarrow> 'n worker" where
  "run_worker nu xs = fold (\<lambda>(t, x) w. fst (worker_step nu t x w)) xs (worker_new nu)"

section \<open>The list as shown\<close>

definition first_search :: "suggestion list \<Rightarrow> nat" where
  "first_search xs = length (takeWhile (\<lambda>s. sg_kind s \<noteq> Search) xs)"

text \<open>The literal row, the history rows and the search row; a slice whose start is past its end
  is a panic.\<close>
definition suggestion_sections :: "suggestion list \<Rightarrow> (suggestion list \<times> suggestion list \<times> suggestion list) option" where
  "suggestion_sections xs =
    (let history_start = (if xs \<noteq> [] \<and> sg_kind (hd xs) = Literal then 1 else 0);
         search_start = first_search xs
     in if history_start \<le> search_start
        then Some (take history_start xs, take (search_start - history_start) (drop history_start xs), drop search_start xs)
        else None)"

section \<open>Suggestions\<close>

text \<open>The last query and the last entries the worker was sent.\<close>
fun query_after :: "wake list \<Rightarrow> string \<Rightarrow> string" where
  "query_after [] q = q"
| "query_after (Received (SetQuery q') # xs) q = query_after xs q'"
| "query_after (x # xs) q = query_after xs q"

fun entries_after :: "wake list \<Rightarrow> history_entry list \<Rightarrow> history_entry list" where
  "entries_after [] es = es"
| "entries_after (Received (ReplaceEntries es') # xs) es = entries_after xs es'"
| "entries_after (x # xs) es = entries_after xs es"

lemma query_after_append: "query_after (xs @ ys) q = query_after ys (query_after xs q)"
  by (induction xs q rule: query_after.induct) simp_all

lemma entries_after_append: "entries_after (xs @ ys) q = entries_after ys (entries_after xs q)"
  by (induction xs q rule: entries_after.induct) simp_all

text \<open>The first entry of a list with its URL.\<close>
definition newest_of_url :: "history_entry list \<Rightarrow> history_entry \<Rightarrow> bool" where
  "newest_of_url es e \<longleftrightarrow> find (\<lambda>x. entry_url x = entry_url e) es = Some e"

lemma dedup_seen_url:
  "distinct (map entry_url (dedup_seen seen es)) \<and> entry_url ` set (dedup_seen seen es) \<inter> seen = {}"
proof (induction es arbitrary: seen)
  case (Cons a es)
  then show ?case using Cons.IH [of seen] Cons.IH [of "insert (entry_url a) seen"] by (simp, blast)
qed simp

lemma dedup_seen_newest:
  "e \<in> set (dedup_seen seen es) \<Longrightarrow> entry_url e \<notin> seen \<and> newest_of_url es e"
proof (induction es arbitrary: seen)
  case (Cons a es)
  show ?case
  proof (cases "entry_url a \<in> seen")
    case True
    then show ?thesis using Cons.IH [of seen] Cons.prems by (auto simp: newest_of_url_def)
  next
    case False
    then show ?thesis using Cons.IH [of "insert (entry_url a) seen"] Cons.prems by (auto simp: newest_of_url_def)
  qed
qed simp

lemma dedup_by_url_distinct: "distinct (map entry_url (dedup_by_url es))"
  using dedup_seen_url by (simp add: dedup_by_url_def)

lemma dedup_by_url_newest: "e \<in> set (dedup_by_url es) \<Longrightarrow> newest_of_url es e"
  using dedup_seen_newest by (simp add: dedup_by_url_def)

lemma mset_subset_distinct:
  assumes "mset xs \<subseteq># mset ys" "distinct ys" shows "distinct xs"
proof -
  have z: "count (mset zs) a = 0 \<longleftrightarrow> a \<notin> set zs" for a and zs :: "'a list" by (simp add: count_eq_zero_iff)
  then have "count (mset xs) a \<le> 1" for a
    using mset_subset_eq_count [OF assms(1), of a] assms(2) unfolding distinct_count_atmost_1
    by (cases "a \<in> set ys") (metis le_trans order_refl zero_le_one)+
  moreover note z [of xs]
  ultimately show ?thesis unfolding distinct_count_atmost_1 by (metis le_neq_implies_less less_one)
qed

text \<open>The matcher holds the entries without duplicates, and a snapshot of them.\<close>
definition worker_ok :: "'n matcher \<Rightarrow> ('n \<Rightarrow> history_entry list) \<Rightarrow> history_entry list \<Rightarrow> string \<Rightarrow> 'n worker \<Rightarrow> bool" where
  "worker_ok nu items es q w \<longleftrightarrow> wk_query w = q \<and> items (wk_matcher w) = dedup_by_url es
     \<and> mset (nu_matched nu (wk_matcher w)) \<subseteq># mset (dedup_by_url es)"

lemma inject_items:
  assumes "matcher_ok nu items"
  shows "items (inject_entries nu es m) = items m @ dedup_by_url es"
    and "nu_matched nu (inject_entries nu es m) = nu_matched nu m"
proof -
  have "items (fold (\<lambda>e. nu_push nu e (haystack_for e)) xs m) = items m @ xs
      \<and> nu_matched nu (fold (\<lambda>e. nu_push nu e (haystack_for e)) xs m) = nu_matched nu m" for xs
    using assms by (induction xs arbitrary: m) (simp_all add: matcher_ok_def)
  then show "items (inject_entries nu es m) = items m @ dedup_by_url es"
    "nu_matched nu (inject_entries nu es m) = nu_matched nu m" by (simp_all add: inject_entries_def)
qed

lemma worker_ok_message:
  assumes m: "matcher_ok nu items" and w: "worker_ok nu items es q w"
  shows "worker_ok nu items (entries_after [x] es) (query_after [x] q) (take_message nu x w)"
proof (cases x)
  case Notified then show ?thesis using w by (auto simp: worker_ok_def)
next
  case (Received msg)
  then show ?thesis using m w inject_items [OF m]
    by (cases msg) (simp_all add: worker_ok_def matcher_ok_def Let_def)
qed

lemma worker_ok_step:
  assumes m: "matcher_ok nu items" and w: "worker_ok nu items es q w"
  shows "worker_ok nu items (entries_after [x] es) (query_after [x] q) (fst (worker_step nu t x w))"
proof -
  let ?w = "take_message nu x w"
  let ?m = "fst (nu_tick nu t (wk_matcher ?w))"
  have "worker_ok nu items (entries_after [x] es) (query_after [x] q) ?w" by (rule worker_ok_message [OF m w])
  moreover have "items ?m = items (wk_matcher ?w)" "mset (nu_matched nu ?m) \<subseteq># mset (items (wk_matcher ?w))"
    using m by (simp_all add: matcher_ok_def)
  ultimately show ?thesis by (simp add: worker_step_def Let_def case_prod_beta worker_ok_def)
qed

lemma worker_ok_run:
  assumes m: "matcher_ok nu items"
  shows "worker_ok nu items (entries_after (map snd xs) []) (query_after (map snd xs) []) (run_worker nu xs)"
proof (induction xs rule: rev_induct)
  case Nil
  show ?case using m by (simp add: run_worker_def worker_new_def worker_ok_def matcher_ok_def dedup_by_url_def)
next
  case (snoc x xs)
  then show ?case using worker_ok_step [OF m, of _ _ "run_worker nu xs"]
    by (cases x) (simp add: run_worker_def entries_after_append query_after_append)
qed

lemma assemble_keys:
  assumes "distinct (map entry_url es)" shows "distinct (map row_key (assemble_suggestions q es))"
  using assms
  by (auto simp: assemble_suggestions_def row_key_def history_suggestion_def distinct_map inj_on_def comp_def)

lemma assemble_sections:
  "q \<noteq> [] \<Longrightarrow> suggestion_sections (assemble_suggestions q es) =
    Some ([hd (assemble_suggestions q es)], map history_suggestion es, [last (assemble_suggestions q es)])"
proof -
  have "takeWhile (\<lambda>s. sg_kind s \<noteq> Search) (map history_suggestion es @ x) = map history_suggestion es @ takeWhile (\<lambda>s. sg_kind s \<noteq> Search) x" for x
    by (rule takeWhile_append2) (auto simp: history_suggestion_def)
  then show "q \<noteq> [] \<Longrightarrow> ?thesis" by (simp add: suggestion_sections_def assemble_suggestions_def first_search_def)
qed

text \<open>No list of rows makes the slices of the component panic.\<close>
lemma sections_never_panic: "suggestion_sections xs \<noteq> None"
  by (cases xs) (simp_all add: suggestion_sections_def first_search_def)

text \<open>C29. What the suggestion worker publishes.  Whatever queries and histories it was sent, however
  they interleave with wake-ups and with the progress of the matcher, a publication answers the
  last query: for the empty query it is empty, for any other it is the row with the text as
  typed, at most six history rows, and the search row, in this order.  Each history row shows
  the newest entry of its URL in the history sent last, never one of an older history, and all
  rows have different keys, so that a row on the screen is never reused for another.\<close>
theorem suggestions_published:
  assumes "matcher_ok nu items" and "snd (worker_step nu t x (run_worker nu xs)) = Some s"
    and "q = query_after (map snd xs @ [x]) []" and "es = entries_after (map snd xs @ [x]) []"
  shows "(q = [] \<longrightarrow> s = []) \<and> distinct (map row_key s)
    \<and> (q \<noteq> [] \<longrightarrow> (\<exists>rows. suggestion_sections s =
           Some ([\<lparr> sg_kind = Literal, sg_title = q, sg_subtitle = [] \<rparr>], map history_suggestion rows,
             [\<lparr> sg_kind = Search, sg_title = ''Search with DuckDuckGo: '' @ q, sg_subtitle = [] \<rparr>])
         \<and> length rows \<le> 6 \<and> (\<forall>e\<in>set rows. newest_of_url es e)))"
proof -
  let ?w = "take_message nu x (run_worker nu xs)" and ?r = "worker_step nu t x (run_worker nu xs)"
  let ?m = "fst (nu_tick nu t (wk_matcher ?w))"
  let ?rows = "top_history_entries nu ?m"
  have "worker_ok nu items es q ?w" "worker_ok nu items es q (fst ?r)"
    using worker_ok_message [OF assms(1) worker_ok_run [OF assms(1), of xs], of x]
      worker_ok_step [OF assms(1) worker_ok_run [OF assms(1), of xs], of x t] assms(3,4)
    by (simp_all add: query_after_append entries_after_append)
  moreover have "wk_matcher (fst ?r) = ?m" by (simp add: worker_step_def Let_def case_prod_beta)
  ultimately have q: "wk_query ?w = q" and sub: "mset (nu_matched nu ?m) \<subseteq># mset (dedup_by_url es)"
    by (simp_all add: worker_ok_def)
  have s: "s = assemble_suggestions q ?rows"
    using assms(2) by (simp add: worker_step_def Let_def case_prod_beta q split: if_splits)
  have rows: "?rows = take 6 (nu_matched nu ?m)"
    by (simp add: top_history_entries_def Let_def MAX_HISTORY_SUGGESTIONS_def min_def)
  have "mset (map entry_url (nu_matched nu ?m)) \<subseteq># mset (map entry_url (dedup_by_url es))"
    using sub by (simp add: image_mset_subseteq_mono)
  then have d: "distinct (map entry_url ?rows)"
    using mset_subset_distinct [OF _ dedup_by_url_distinct [of es]] by (simp add: rows flip: take_map)
  have "set ?rows \<subseteq> set (dedup_by_url es)"
    using sub set_take_subset [of 6 "nu_matched nu ?m"] unfolding rows by (meson mset_subset_eqD set_mset_mset subset_iff in_multiset_in_set)
  then have n: "\<forall>e\<in>set ?rows. newest_of_url es e" using dedup_by_url_newest by blast
  have l: "length ?rows \<le> 6" by (simp add: rows)
  show ?thesis
  proof (intro conjI impI)
    show "s = []" if "q = []" using s that by (simp add: assemble_suggestions_def)
    show "distinct (map row_key s)" unfolding s by (rule assemble_keys) (rule d)
    assume "q \<noteq> []"
    then show "\<exists>rows. suggestion_sections s =
           Some ([\<lparr> sg_kind = Literal, sg_title = q, sg_subtitle = [] \<rparr>], map history_suggestion rows,
             [\<lparr> sg_kind = Search, sg_title = ''Search with DuckDuckGo: '' @ q, sg_subtitle = [] \<rparr>])
         \<and> length rows \<le> 6 \<and> (\<forall>e\<in>set rows. newest_of_url es e)"
      unfolding s using n l by (intro exI [of _ ?rows]) (simp add: assemble_sections,
        simp add: assemble_suggestions_def SEARCH_ENGINE_NAME_def)
  qed
qed

text \<open>A matcher that finds every item whose text starts with the query.\<close>
definition ex_matcher :: "(history_entry list \<times> (history_entry \<times> string) list \<times> string) matcher" where
  "ex_matcher = \<lparr> nu_new = ([], [], []),
     nu_push = (\<lambda>e h (found, items, q). (found, items @ [(e, h)], q)),
     nu_restart = (\<lambda>clear (found, items, q). (if clear then [] else found, [], q)),
     nu_reparse = (\<lambda>q a (found, items, _). (found, items, q)),
     nu_tick = (\<lambda>t (found, items, q). ((map fst (filter (\<lambda>(e, h). take (length q) h = q) items), items, q), True, False)),
     nu_matched = fst \<rparr>"

lemma ex_matcher_ok: "matcher_ok ex_matcher (\<lambda>(found, items, q). map fst items)"
  by (auto simp: matcher_ok_def ex_matcher_def mset_filter intro!: image_mset_subseteq_mono multiset_filter_subset)

definition ex_entry :: "string \<Rightarrow> string \<Rightarrow> history_entry" where
  "ex_entry url title = \<lparr> entry_id = 0, entry_url = url, entry_title = title, entry_favicon = None, visited_at = 0 \<rparr>"

definition ex_wakes :: "(nat \<times> wake) list" where
  "ex_wakes = [(0, Received (SetQuery ''n'')), (0, Received (ReplaceEntries [ex_entry ''rust.org'' ''new'', ex_entry ''go.dev'' ''Go'',
     ex_entry ''rust.org'' ''old'']))]"

lemma ex_matcher_simps:
  "nu_new ex_matcher = ([], [], [])" "nu_push ex_matcher e h (found, items, q) = (found, items @ [(e, h)], q)"
  "nu_restart ex_matcher True (found, items, q) = ([], [], q)" "nu_reparse ex_matcher q a (found, items, p) = (found, items, q)"
  "nu_tick ex_matcher t (found, items, q) = ((map fst (filter (\<lambda>(e, h). take (length q) h = q) items), items, q), True, False)"
  "nu_matched ex_matcher (found, items, q) = found"
  by (simp_all add: ex_matcher_def)

lemma ex_inject:
  "inject_entries ex_matcher [ex_entry ''rust.org'' ''new'', ex_entry ''go.dev'' ''Go'', ex_entry ''rust.org'' ''old''] ([], [], q)
    = ([], [(ex_entry ''rust.org'' ''new'', ''new rust.org''), (ex_entry ''go.dev'' ''Go'', ''Go go.dev'')], q)"
  by (simp add: inject_entries_def dedup_by_url_def haystack_for_def ex_matcher_simps ex_entry_def)

lemma ex_run: "wk_matcher (run_worker ex_matcher ex_wakes) = ([ex_entry ''rust.org'' ''new''],
    [(ex_entry ''rust.org'' ''new'', ''new rust.org''), (ex_entry ''go.dev'' ''Go'', ''Go go.dev'')], ''n'')"
  by (simp add: run_worker_def ex_wakes_def worker_step_def worker_new_def Let_def ex_matcher_simps ex_inject)

theorem suggestions_published_witness:
  "\<exists>s. snd (worker_step ex_matcher 0 (Received (SetQuery ''ne'')) (run_worker ex_matcher ex_wakes)) = Some s
     \<and> distinct (map row_key s) \<and> map sg_title s = [''ne'', ''new'', ''Search with DuckDuckGo: ne'']"
proof -
  let ?s = "assemble_suggestions ''ne'' [ex_entry ''rust.org'' ''new'']"
  have s: "snd (worker_step ex_matcher 0 (Received (SetQuery ''ne'')) (run_worker ex_matcher ex_wakes)) = Some ?s"
    by (simp add: worker_step_def Let_def ex_run ex_matcher_simps top_history_entries_def MAX_HISTORY_SUGGESTIONS_def)
  show ?thesis
  proof (intro exI [of _ ?s] conjI)
    show "distinct (map row_key ?s)" using suggestions_published [OF ex_matcher_ok s refl refl] by (elim conjE)
    show "map sg_title ?s = [''ne'', ''new'', ''Search with DuckDuckGo: ne'']"
      by (simp add: assemble_suggestions_def history_suggestion_def ex_entry_def SEARCH_ENGINE_NAME_def)
  qed (rule s)
qed

end
