(* ===== verification/Browser_Pages.thy ===== *)
theory Browser_Pages
  imports Nav_History Url_Suggestions
begin

text \<open>
  What the browser makes of an address and of a response: the \<open>about:\<close> pages
  (\<open>apps/browser/src/about_pages.rs\<close>), the parsing of what is typed (\<open>nav.rs\<close>, and
  \<open>parse_cli_url\<close> of \<open>main.rs\<close>), the favicon of a page (\<open>favicon.rs\<close>) and the document of a
  response (\<open>document_loader.rs\<close>).

  The \<open>url\<close> crate, the HTML parser and the image decoders are parameters; a \<open>Url\<close> is its
  serialization, a parsed document a number.
\<close>

record url_lib =
  ul_parse :: "string \<Rightarrow> string option"
  ul_scheme :: "string \<Rightarrow> string"
  ul_path :: "string \<Rightarrow> string"
  ul_join :: "string \<Rightarrow> string \<Rightarrow> string option"
  ul_append_pair :: "string \<Rightarrow> string \<Rightarrow> string \<Rightarrow> string"

section \<open>The about pages\<close>

datatype about_page = NewTab | Settings | AboutHistory | Bookmarks

fun about_title :: "about_page \<Rightarrow> string" where
  "about_title NewTab = ''New Tab''"
| "about_title Settings = ''Settings''"
| "about_title AboutHistory = ''History''"
| "about_title Bookmarks = ''Bookmarks''"

fun about_url_str :: "about_page \<Rightarrow> string" where
  "about_url_str NewTab = ''about:newtab''"
| "about_url_str Settings = ''about:settings''"
| "about_url_str AboutHistory = ''about:history''"
| "about_url_str Bookmarks = ''about:bookmarks''"

definition about_from_url :: "url_lib \<Rightarrow> string \<Rightarrow> about_page option" where
  "about_from_url u url =
    (if ul_scheme u url \<noteq> ''about'' then None
     else if ul_path u url = ''newtab'' \<or> ul_path u url = [] then Some NewTab
     else if ul_path u url = ''settings'' then Some Settings
     else if ul_path u url = ''history'' then Some AboutHistory
     else if ul_path u url = ''bookmarks'' then Some Bookmarks
     else None)"

text \<open>\<open>parsed_url\<close> unwraps.\<close>
definition about_parsed_url :: "url_lib \<Rightarrow> about_page \<Rightarrow> string may_panic" where
  "about_parsed_url u p = ul_parse u (about_url_str p)"

section \<open>Addresses\<close>

text \<open>The search URL is parsed and unwrapped.\<close>
definition synthesize_duckduckgo_search_req :: "url_lib \<Rightarrow> string \<Rightarrow> request may_panic" where
  "synthesize_duckduckgo_search_req u query = do {
     url \<leftarrow> ul_parse u ''https://html.duckduckgo.com/html/'';
     let url = ul_append_pair u url ''q'' query;
     Some (into_request (set_method GET (navigation_new url (Some ''application/x-www-form-urlencoded'') 0)))
   }"

definition req_from_string :: "url_lib \<Rightarrow> string \<Rightarrow> request option may_panic" where
  "req_from_string u s =
    (case ul_parse u s of
       Some url \<Rightarrow> Some (Some (request_get url))
     | None \<Rightarrow>
        (let contains_space = CHR '' '' \<in> set s; contains_dot = CHR ''.'' \<in> set s
         in case (if contains_dot \<and> \<not> contains_space then ul_parse u (''https://'' @ s) else None) of
              Some url \<Rightarrow> Some (Some (request_get url))
            | None \<Rightarrow> map_option Some (synthesize_duckduckgo_search_req u s)))"

definition parse_cli_url :: "url_lib \<Rightarrow> string \<Rightarrow> string option" where
  "parse_cli_url u s =
    (case ul_parse u s of
       Some url \<Rightarrow> Some url
     | None \<Rightarrow> if CHR ''.'' \<in> set s \<and> CHR '' '' \<notin> set s then ul_parse u (''https://'' @ s) else None)"

text \<open>The URL handed to the external browser, if any.\<close>
definition open_in_external_browser :: "url_lib \<Rightarrow> request \<Rightarrow> string option" where
  "open_in_external_browser u r =
    (if req_method r = GET \<and> ul_scheme u (req_url r) \<in> {''http'', ''https'', ''mailto''} then Some (req_url r) else None)"

text \<open>The keys that the browser's own input fields look at.\<close>
datatype ui_key = KeyEnter | KeyArrowDown | KeyArrowUp | KeyEscape | KeyChar string | KeyOther

definition is_enter_key :: "ui_key \<Rightarrow> bool" where
  "is_enter_key k \<longleftrightarrow> k = KeyEnter \<or> k = KeyChar [CHR 0x0A]"

text \<open>A key in the search field of the new tab page: the request it navigates to.\<close>
definition newtab_key :: "url_lib \<Rightarrow> ui_key \<Rightarrow> string \<Rightarrow> request option may_panic" where
  "newtab_key u k q = (if is_enter_key k \<and> q \<noteq> [] then req_from_string u q else Some None)"

definition display_title :: "string \<Rightarrow> string \<Rightarrow> string" where
  "display_title title url = (if trim title = [] then url else title)"

section \<open>Favicons\<close>

definition favicon_candidate :: "url_lib \<Rightarrow> string \<Rightarrow> string option \<Rightarrow> string option" where
  "favicon_candidate u base_url href = do {
     base \<leftarrow> ul_parse u base_url;
     case Option.bind href (ul_join u base) of
       Some x \<Rightarrow> Some x
     | None \<Rightarrow> ul_join u base ''/favicon.ico''
   }"

text \<open>What a fetch brings: the final URL and the bytes, or an error.\<close>
datatype fetch_result = Fetched string string | FetchFailed string

definition probe_favicon :: "(string \<Rightarrow> bool) \<Rightarrow> string \<Rightarrow> fetch_result \<Rightarrow> string option" where
  "probe_favicon decodable url r = (case r of
      FetchFailed _ \<Rightarrow> None
    | Fetched _ bytes \<Rightarrow> if bytes = [] \<or> \<not> decodable bytes then None else Some url)"

text \<open>The cache and what the probe resolves to; the fetch is only made without a cache entry.\<close>
definition probe_favicon_cached ::
    "(string \<Rightarrow> bool) \<Rightarrow> string \<Rightarrow> fetch_result \<Rightarrow> (string \<rightharpoonup> string) \<Rightarrow> (string \<rightharpoonup> string) \<times> string option" where
  "probe_favicon_cached decodable candidate r cache =
    (case cache candidate of
       Some cached \<Rightarrow> (cache, Some cached)
     | None \<Rightarrow> (case probe_favicon decodable candidate r of
           None \<Rightarrow> (cache, None)
         | Some resolved \<Rightarrow> (cache(candidate \<mapsto> resolved), Some resolved)))"

section \<open>The document of a response\<close>

record loaded_document =
  lo_document :: nat
  lo_html :: string
  lo_title :: string
  lo_candidate :: "string option"
  lo_error :: bool

text \<open>The pages that come with the browser, UTF-8 repair, and the parser: a document of a page with
  its title and the favicon it names, and the document that shows an error.\<close>
record page_lib =
  pl_404 :: string
  pl_error_html :: string
  pl_utf8_lossy :: "string \<Rightarrow> string"
  pl_build :: "string \<Rightarrow> string \<Rightarrow> nat \<times> string \<times> string option"
  pl_error_document :: "string \<Rightarrow> nat \<times> string"

definition document_of_response :: "url_lib \<Rightarrow> page_lib \<Rightarrow> fetch_result \<Rightarrow> loaded_document" where
  "document_of_response u pl r = (case r of
      Fetched resolved_url bytes \<Rightarrow>
        (let (html, is_error) = (if bytes = [] then (pl_404 pl, True) else (pl_utf8_lossy pl bytes, False));
             (doc, title, favicon_url) = pl_build pl resolved_url html
         in \<lparr> lo_document = doc, lo_html = html, lo_title = title,
              lo_candidate = favicon_candidate u resolved_url favicon_url, lo_error = is_error \<rparr>)
    | FetchFailed err \<Rightarrow>
        (let (doc, title) = pl_error_document pl err
         in \<lparr> lo_document = doc, lo_html = pl_error_html pl, lo_title = title, lo_candidate = None, lo_error = True \<rparr>))"

section \<open>Hypotheses on the URL crate\<close>

text \<open>The literal URLs of the browser parse to themselves; \<open>about:\<close> URLs have what follows the colon as
  their path.\<close>
definition url_lib_ok :: "url_lib \<Rightarrow> bool" where
  "url_lib_ok u \<longleftrightarrow>
     (\<forall>p. ul_parse u (about_url_str p) = Some (about_url_str p) \<and> ul_scheme u (about_url_str p) = ''about''
        \<and> ''about:'' @ ul_path u (about_url_str p) = about_url_str p)
   \<and> ul_parse u ''https://html.duckduckgo.com/html/'' = Some ''https://html.duckduckgo.com/html/''"

lemma about_parsed: "url_lib_ok u \<Longrightarrow> about_parsed_url u p = Some (about_url_str p)"
  by (simp add: url_lib_ok_def about_parsed_url_def)

text \<open>An \<open>about:\<close> page is recognized by its URL.\<close>
lemma about_round_trip: "url_lib_ok u \<Longrightarrow> about_from_url u (about_url_str p) = Some p"
proof -
  assume "url_lib_ok u"
  then have "ul_scheme u (about_url_str p) = ''about''" "''about:'' @ ul_path u (about_url_str p) = about_url_str p"
    by (simp_all add: url_lib_ok_def)
  then show ?thesis by (cases p) (simp_all add: about_from_url_def)
qed

text \<open>Whatever is typed gives a request.\<close>
lemma req_from_string_total: "url_lib_ok u \<Longrightarrow> \<exists>r. req_from_string u s = Some (Some r)"
  by (auto simp: req_from_string_def Let_def synthesize_duckduckgo_search_req_def url_lib_ok_def split: option.split)

end
