(* ===== verification/Browser_App.thy ===== *)
theory Browser_App
  imports Browser_Pages
begin

text \<open>
  The browser (\<open>apps/browser/src/\<close>): its tabs (\<open>tab.rs\<close>, \<open>main.rs\<close>), the loader of each tab
  (\<open>document_loader.rs\<close>), the tab strip (\<open>tab_strip.rs\<close>), the toolbar (\<open>toolbar.rs\<close>) and the
  status bar (\<open>status_bar.rs\<close>).

  A step is a callback or an effect of the user interface, or the end of a load or of a favicon
  probe; what such a step finds outside (the response, the clock, a flag of the page) is part
  of it.  Calls out of the program are kept in a list.  \<open>None\<close> is a panic.
\<close>

section \<open>State\<close>

datatype loader_status = Loading | Idle

record loader =
  ld_status :: loader_status
  ld_generation :: u64
  ld_abort :: "nat option"

record tab =
  tab_id :: u64
  tab_history :: nav_history
  tab_loader :: "loader option"
  tab_document :: "nat option"
  tab_node :: "nat option"
  tab_html :: string
  tab_title :: string
  tab_favicon :: "string option"

text \<open>Calls on the input field and on a page (its node), the external browser, a fetch with its abort
  signal, a favicon probe (tab, candidate, history entry, page) and a query to the worker.\<close>
datatype ui_call = SetInputFocus bool | ClearDocumentFocus nat | ToggleHighlight nat | SetIncremental nat bool
  | OpenExternally string | FetchPage u64 request | ProbeFavicon u64 string history_entry_id string | SendQuery string

record browser =
  br_tabs :: "tab list"
  br_active :: u64
  br_tab_counter :: u64
  br_entry_counter :: history_entry_id
  br_signals :: nat
  br_aborted :: "nat set"
  br_home :: string
  br_input :: string
  br_input_mounted :: bool
  br_focused :: bool
  br_block_mouse_up :: bool
  br_selected :: "nat option"
  br_suggestions :: "suggestion list"
  br_menu :: bool
  br_fps :: bool
  br_incremental :: bool
  br_shortcut :: bool
  br_history :: history_service
  br_favicons :: "string \<rightharpoonup> string"
  br_calls :: "ui_call list"

type_synonym ui_op = "browser \<Rightarrow> browser may_panic"

definition call_out :: "ui_call \<Rightarrow> browser \<Rightarrow> browser" where
  "call_out c b = b\<lparr>br_calls := br_calls b @ [c]\<rparr>"

section \<open>Tabs\<close>

definition next_tab_id :: "browser \<Rightarrow> u64 \<times> browser" where
  "next_tab_id b = (br_tab_counter b, b\<lparr>br_tab_counter := br_tab_counter b + 1\<rparr>)"

definition loader_new :: loader where
  "loader_new = \<lparr> ld_status = Idle, ld_generation = 0, ld_abort = None \<rparr>"

fun update_tab :: "u64 \<Rightarrow> (tab \<Rightarrow> tab) \<Rightarrow> tab list \<Rightarrow> tab list" where
  "update_tab i f [] = []"
| "update_tab i f (t # ts) = (if tab_id t = i then f t # ts else t # update_tab i f ts)"

definition with_tab :: "u64 \<Rightarrow> (tab \<Rightarrow> tab) \<Rightarrow> browser \<Rightarrow> browser" where
  "with_tab i f b = b\<lparr>br_tabs := update_tab i f (br_tabs b)\<rparr>"

definition open_tab :: "string \<Rightarrow> browser \<Rightarrow> u64 \<times> browser" where
  "open_tab url b =
    (let (i, b1) = next_tab_id b;
         initial_request = request_get url;
         t = \<lparr> tab_id = i, tab_history = nav_new initial_request, tab_loader = None, tab_document = None,
               tab_node = None, tab_html = [], tab_title = [], tab_favicon = None \<rparr>;
         b2 = b1\<lparr>br_tabs := br_tabs b1 @ [t]\<rparr>;
         b3 = b2\<lparr>br_tabs := (br_tabs b2)[length (br_tabs b2) - 1 := t\<lparr>tab_loader := Some loader_new\<rparr>]\<rparr>
     in (i, b3))"

definition find_tab :: "u64 \<Rightarrow> browser \<Rightarrow> tab may_panic" where
  "find_tab i b = find (\<lambda>t. tab_id t = i) (br_tabs b)"

definition active_tab :: "browser \<Rightarrow> tab may_panic" where
  "active_tab b = find_tab (br_active b) b"

definition tab_url :: "tab \<Rightarrow> string may_panic" where
  "tab_url t = map_option req_url (nav_current_url (tab_history t))"

definition tab_display_title :: "tab \<Rightarrow> string may_panic" where
  "tab_display_title t = map_option (display_title (tab_title t)) (tab_url t)"

definition tab_navigate :: "u64 \<Rightarrow> request \<Rightarrow> browser \<Rightarrow> browser" where
  "tab_navigate i r = with_tab i (\<lambda>t. t\<lparr>tab_history := nav_navigate r (tab_history t)\<rparr>)"

definition tab_go_back :: "u64 \<Rightarrow> browser \<Rightarrow> browser" where
  "tab_go_back i = with_tab i (\<lambda>t. t\<lparr>tab_history := nav_go_back (tab_history t)\<rparr>)"

definition tab_go_forward :: "u64 \<Rightarrow> browser \<Rightarrow> browser" where
  "tab_go_forward i = with_tab i (\<lambda>t. t\<lparr>tab_history := nav_go_forward (tab_history t)\<rparr>)"

definition open_new_tab :: "string \<Rightarrow> browser \<Rightarrow> browser" where
  "open_new_tab url b =
    (let (i, b1) = open_tab url b;
         b2 = b1\<lparr>br_active := i\<rparr>
     in if br_input_mounted b2 then call_out (SetInputFocus True) b2 else b2)"

section \<open>The loader of a tab\<close>

definition set_loader :: "u64 \<Rightarrow> loader \<Rightarrow> browser \<Rightarrow> browser" where
  "set_loader i l = with_tab i (\<lambda>t. t\<lparr>tab_loader := Some l\<rparr>)"

text \<open>\<open>abort_current\<close> on the slot of a loader.\<close>
definition abort_slot :: "nat option \<Rightarrow> browser \<Rightarrow> browser" where
  "abort_slot c b = (case c of None \<Rightarrow> b | Some s \<Rightarrow> b\<lparr>br_aborted := insert s (br_aborted b)\<rparr>)"

definition tab_reload :: "u64 \<Rightarrow> ui_op" where
  "tab_reload i b = do {
     t \<leftarrow> find_tab i b;
     l \<leftarrow> tab_loader t;
     let b1 = abort_slot (ld_abort l) b;
     Some (set_loader i (l\<lparr>ld_abort := None, ld_generation := ld_generation l + 1\<rparr>) b1)
   }"

text \<open>\<open>load_document\<close> until its fetch: the load before it is aborted.  An about page is not loaded,
  and the status goes idle at once.\<close>
definition load_start :: "url_lib \<Rightarrow> u64 \<Rightarrow> ui_op" where
  "load_start u i b = do {
     t \<leftarrow> find_tab i b;
     l \<leftarrow> tab_loader t;
     req \<leftarrow> nav_current_url (tab_history t);
     if about_from_url u (req_url req) \<noteq> None then Some (set_loader i (l\<lparr>ld_status := Idle\<rparr>) b)
     else do {
       let signal = br_signals b;
       let b1 = abort_slot (ld_abort l) (b\<lparr>br_signals := signal + 1\<rparr>);
       let b2 = set_loader i (l\<lparr>ld_abort := Some signal, ld_status := Loading\<rparr>) b1;
       Some (call_out (FetchPage i (request_signal signal req)) b2)
     }
   }"

text \<open>\<open>commit_loaded_document\<close> at the time \<open>now\<close>; \<open>runtime\<close>, \<open>ok\<close> and \<open>ord\<close> are those of the
  history service.\<close>
definition commit_loaded_document :: "bool \<Rightarrow> bool \<Rightarrow> row_order \<Rightarrow> u64 \<Rightarrow> int \<Rightarrow> loaded_document \<Rightarrow> ui_op" where
  "commit_loaded_document runtime ok ord i now lo b = do {
     t \<leftarrow> find_tab i b;
     page_url \<leftarrow> tab_url t;
     let candidate = lo_candidate lo;
     let (entry, b1) =
       (if \<not> lo_error lo then
          let (e, c) = history_entry_new now page_url (display_title (lo_title lo) page_url) None (br_entry_counter b);
              eid = fst (record_visit_mem e (browsing (br_history b)))
          in (Some eid, b\<lparr>br_entry_counter := c, br_history := service_step runtime ok ord (RecordVisit e) (br_history b)\<rparr>)
        else (None, b));
     let b2 = with_tab i (\<lambda>t. t\<lparr>tab_html := lo_html lo, tab_title := lo_title lo, tab_favicon := None,
         tab_document := Some (lo_document lo)\<rparr>) b1;
     case (candidate, entry) of
       (Some c, Some eid) \<Rightarrow> do {
         _ \<leftarrow> tab_loader t;
         Some (call_out (ProbeFavicon i c eid page_url) b2)
       }
     | _ \<Rightarrow> Some b2
   }"

text \<open>The response is there: the status goes idle and the document is shown.\<close>
definition load_done :: "url_lib \<Rightarrow> page_lib \<Rightarrow> bool \<Rightarrow> bool \<Rightarrow> row_order \<Rightarrow> u64 \<Rightarrow> int \<Rightarrow> fetch_result \<Rightarrow> ui_op" where
  "load_done u pl runtime ok ord i now r b = do {
     t \<leftarrow> find_tab i b;
     l \<leftarrow> tab_loader t;
     commit_loaded_document runtime ok ord i now (document_of_response u pl r) (set_loader i (l\<lparr>ld_status := Idle\<rparr>) b)
   }"

text \<open>The rest of the task that \<open>commit_loaded_document\<close> spawns.\<close>
definition favicon_probed ::
    "(string \<Rightarrow> bool) \<Rightarrow> bool \<Rightarrow> bool \<Rightarrow> row_order \<Rightarrow> u64 \<Rightarrow> string \<Rightarrow> history_entry_id \<Rightarrow> string \<Rightarrow> fetch_result \<Rightarrow> ui_op" where
  "favicon_probed decodable runtime ok ord i candidate eid page_url r b = do {
     let (cache, found) = probe_favicon_cached decodable candidate r (br_favicons b);
     let b1 = b\<lparr>br_favicons := cache\<rparr>;
     case found of
       None \<Rightarrow> Some b1
     | Some resolved \<Rightarrow> do {
         t \<leftarrow> find_tab i b1;
         url \<leftarrow> tab_url t;
         let b2 = (if url = page_url then with_tab i (\<lambda>t. t\<lparr>tab_favicon := Some resolved\<rparr>) b1 else b1);
         Some (b2\<lparr>br_history := service_step runtime ok ord (SetFavicon eid page_url resolved) (br_history b2)\<rparr>)
       }
   }"

text \<open>The effect of a tab that shows an about page.\<close>
definition commit_about_chrome :: "u64 \<Rightarrow> about_page \<Rightarrow> browser \<Rightarrow> browser" where
  "commit_about_chrome i page = with_tab i (\<lambda>t. t\<lparr>tab_title := about_title page, tab_favicon := None\<rparr>)"

definition about_shown :: "url_lib \<Rightarrow> u64 \<Rightarrow> ui_op" where
  "about_shown u i b = do {
     t \<leftarrow> find_tab i b;
     url \<leftarrow> tab_url t;
     Some (case about_from_url u url of Some page \<Rightarrow> commit_about_chrome i page b | None \<Rightarrow> b)
   }"

section \<open>The tab strip\<close>

definition switch_tab :: "u64 \<Rightarrow> browser \<Rightarrow> browser" where
  "switch_tab i b = b\<lparr>br_active := i\<rparr>"

definition remove_at :: "nat \<Rightarrow> 'a list \<Rightarrow> 'a list" where
  "remove_at k xs = take k xs @ drop (Suc k) xs"

text \<open>A tab that is dropped aborts its load (\<open>Drop for DocumentLoader\<close>).\<close>
definition close_tab :: "u64 \<Rightarrow> ui_op" where
  "close_tab i b =
    (let current_active = br_active b;
         idx = (case position (\<lambda>t. tab_id t = i) (br_tabs b) of None \<Rightarrow> 0 | Some k \<Rightarrow> k)
     in if idx < length (br_tabs b) then
          (let len_after = length (br_tabs b) - 1;
               t = br_tabs b ! idx;
               b1 = b\<lparr>br_tabs := remove_at idx (br_tabs b)\<rparr>;
               b2 = (case tab_loader t of None \<Rightarrow> b1 | Some l \<Rightarrow> abort_slot (ld_abort l) b1)
           in Some (if current_active = i then
                (let new_idx = (if idx < len_after then idx else len_after - 1)
                 in if new_idx < length (br_tabs b2) then b2\<lparr>br_active := tab_id (br_tabs b2 ! new_idx)\<rparr> else b2)
              else b2))
        else None)"

datatype tab_key = KeyT | KeyW | OtherTabKey

definition window_key :: "bool \<Rightarrow> tab_key \<Rightarrow> ui_op" where
  "window_key pressed k b =
    (if \<not> br_shortcut b \<or> \<not> pressed then Some b
     else case k of
         KeyT \<Rightarrow> Some (open_new_tab (br_home b) b)
       | KeyW \<Rightarrow> if length (br_tabs b) > 1 then close_tab (br_active b) b else Some b
       | OtherTabKey \<Rightarrow> Some b)"

section \<open>The toolbar\<close>

definition clear_document_focus :: ui_op where
  "clear_document_focus b = do {
     t \<leftarrow> active_tab b;
     Some (case tab_node t of Some n \<Rightarrow> call_out (ClearDocumentFocus n) b | None \<Rightarrow> b)
   }"

definition sync_urlbar :: ui_op where
  "sync_urlbar b = do {
     t \<leftarrow> active_tab b;
     url \<leftarrow> tab_url t;
     Some (b\<lparr>br_input := url\<rparr>)
   }"

definition blur_urlbar :: "browser \<Rightarrow> browser" where
  "blur_urlbar b =
    (let b1 = (if br_input_mounted b then call_out (SetInputFocus False) b else b)
     in b1\<lparr>br_focused := False, br_selected := None\<rparr>)"

definition navigate_from_urlbar :: "request \<Rightarrow> ui_op" where
  "navigate_from_urlbar r b = do {
     b1 \<leftarrow> clear_document_focus (blur_urlbar b);
     t \<leftarrow> active_tab b1;
     Some (tab_navigate (tab_id t) r b1)
   }"

definition navigate_or_blur :: "request option \<Rightarrow> ui_op" where
  "navigate_or_blur req b = (case req of Some r \<Rightarrow> navigate_from_urlbar r b | None \<Rightarrow> Some (blur_urlbar b))"

definition on_pick :: "url_lib \<Rightarrow> suggestion \<Rightarrow> ui_op" where
  "on_pick u s b = do {
     req \<leftarrow> (case sg_kind s of HistoryRow e \<Rightarrow> Some (Some (request_get (entry_url e))) | _ \<Rightarrow> req_from_string u (br_input b));
     navigate_or_blur req b
   }"

definition move_selection_down :: "browser \<Rightarrow> browser" where
  "move_selection_down b =
    (let len = length (br_suggestions b)
     in if len = 0 then b
        else b\<lparr>br_selected := Some (case br_selected b of Some i \<Rightarrow> (i + 1) mod len | None \<Rightarrow> 0)\<rparr>)"

definition move_selection_up :: "browser \<Rightarrow> browser" where
  "move_selection_up b =
    (let len = length (br_suggestions b)
     in if len = 0 then b
        else b\<lparr>br_selected := Some (case br_selected b of None \<Rightarrow> len - 1 | Some i \<Rightarrow> if i = 0 then len - 1 else i - 1)\<rparr>)"

definition submit_urlbar :: "url_lib \<Rightarrow> ui_op" where
  "submit_urlbar u b =
    (case (case br_selected b of Some i \<Rightarrow> if i < length (br_suggestions b) then Some (br_suggestions b ! i) else None | None \<Rightarrow> None) of
       Some s \<Rightarrow> on_pick u s b
     | None \<Rightarrow> do {
         req \<leftarrow> req_from_string u (br_input b);
         navigate_or_blur req b
       })"

definition urlbar_key :: "url_lib \<Rightarrow> ui_key \<Rightarrow> ui_op" where
  "urlbar_key u k b =
    (if k = KeyArrowDown then Some (move_selection_down b)
     else if k = KeyArrowUp then Some (move_selection_up b)
     else if k = KeyEscape then Some (blur_urlbar b)
     else if is_enter_key k then submit_urlbar u b
     else Some b)"

definition urlbar_input :: "string \<Rightarrow> browser \<Rightarrow> browser" where
  "urlbar_input v b = b\<lparr>br_input := v, br_selected := Some 0\<rparr>"

definition back_action :: ui_op where
  "back_action b = do { b1 \<leftarrow> clear_document_focus b; t \<leftarrow> active_tab b1; Some (tab_go_back (tab_id t) b1) }"

definition forward_action :: ui_op where
  "forward_action b = do { b1 \<leftarrow> clear_document_focus b; t \<leftarrow> active_tab b1; Some (tab_go_forward (tab_id t) b1) }"

definition home_action :: ui_op where
  "home_action b = do { b1 \<leftarrow> clear_document_focus b; t \<leftarrow> active_tab b1; Some (tab_navigate (tab_id t) (request_get (br_home b1)) b1) }"

definition refresh_action :: ui_op where
  "refresh_action b = do { b1 \<leftarrow> clear_document_focus b; t \<leftarrow> active_tab b1; tab_reload (tab_id t) b1 }"

text \<open>The Android back button.\<close>
definition hardware_back :: ui_op where
  "hardware_back b = do { t \<leftarrow> active_tab b; Some (tab_go_back (tab_id t) b) }"

text \<open>The first tab that shows a page; a history without a page panics on the way.\<close>
fun find_about :: "url_lib \<Rightarrow> about_page \<Rightarrow> tab list \<Rightarrow> u64 option may_panic" where
  "find_about u page [] = Some None"
| "find_about u page (t # ts) = do {
     url \<leftarrow> tab_url t;
     if about_from_url u url = Some page then Some (Some (tab_id t)) else find_about u page ts
   }"

definition nav_about :: "url_lib \<Rightarrow> about_page \<Rightarrow> ui_op" where
  "nav_about u page b = do {
     b1 \<leftarrow> clear_document_focus (b\<lparr>br_menu := False\<rparr>);
     if page = NewTab then do { url \<leftarrow> about_parsed_url u page; Some (open_new_tab url b1) }
     else do {
       existing \<leftarrow> find_about u page (br_tabs b1);
       case existing of
         Some i \<Rightarrow> Some (b1\<lparr>br_active := i\<rparr>)
       | None \<Rightarrow> do { url \<leftarrow> about_parsed_url u page; Some (open_new_tab url b1) }
     }
   }"

definition open_action :: "url_lib \<Rightarrow> ui_op" where
  "open_action u b = do {
     let b1 = b\<lparr>br_menu := False\<rparr>;
     t \<leftarrow> active_tab b1;
     req \<leftarrow> nav_current_url (tab_history t);
     Some (case open_in_external_browser u req of Some url \<Rightarrow> call_out (OpenExternally url) b1 | None \<Rightarrow> b1)
   }"

text \<open>\<open>doc\<close> is the document built around the source text.\<close>
definition view_source_action :: "nat \<Rightarrow> ui_op" where
  "view_source_action doc b = do {
     let b1 = b\<lparr>br_menu := False\<rparr>;
     t \<leftarrow> active_tab b1;
     if tab_html t = [] then Some b1
     else do {
       current_url \<leftarrow> tab_url t;
       let b2 = b1\<lparr>br_input := ''view-source://'' @ current_url\<rparr>;
       _ \<leftarrow> tab_loader t;
       Some (with_tab (tab_id t) (\<lambda>t. t\<lparr>tab_document := Some doc\<rparr>) b2)
     }
   }"

definition devtools_action :: ui_op where
  "devtools_action b = do {
     let b1 = b\<lparr>br_menu := False\<rparr>;
     t \<leftarrow> active_tab b1;
     Some (case tab_node t of Some n \<Rightarrow> call_out (ToggleHighlight n) b1 | None \<Rightarrow> b1)
   }"

text \<open>The flag of the page comes from outside, if there is a page.\<close>
definition incremental_action :: "bool option \<Rightarrow> ui_op" where
  "incremental_action was_enabled b = do {
     let b1 = b\<lparr>br_menu := False\<rparr>;
     t \<leftarrow> active_tab b1;
     Some (case (tab_node t, was_enabled) of
         (Some n, Some was) \<Rightarrow> call_out (SetIncremental n (\<not> was)) (b1\<lparr>br_incremental := \<not> was\<rparr>)
       | _ \<Rightarrow> b1)
   }"

section \<open>The status bar\<close>

definition hover_text :: "url_lib \<Rightarrow> string option \<Rightarrow> browser \<Rightarrow> string may_panic" where
  "hover_text u raw_href b = do {
     t \<leftarrow> active_tab b;
     case raw_href of
       None \<Rightarrow> Some []
     | Some raw \<Rightarrow> do { base \<leftarrow> tab_url t; Some (case ul_join u base raw of Some x \<Rightarrow> x | None \<Rightarrow> raw) }
   }"

text \<open>The text ends with the three bytes of an ellipsis.\<close>
definition status_text :: "string \<Rightarrow> browser \<Rightarrow> string may_panic" where
  "status_text hov b = do {
     t \<leftarrow> active_tab b;
     l \<leftarrow> tab_loader t;
     if hov \<noteq> [] then Some hov
     else if ld_status l = Loading then do { url \<leftarrow> tab_url t; Some (''Loading '' @ url @ [CHR 0xE2, CHR 0x80, CHR 0xA6]) }
     else Some []
   }"

section \<open>Steps\<close>

text \<open>What the browser is given: the URL crate, its pages and the parser, the image decoder, the
  runtime and the data base.\<close>
record browser_env =
  be_url :: url_lib
  be_pages :: page_lib
  be_decodable :: "string \<Rightarrow> bool"
  be_runtime :: bool
  be_disk_ok :: bool
  be_order :: row_order

datatype browser_op =
    ModifiersChanged bool | WindowKey bool tab_key | NewTabClick | SwitchTab u64 | CloseTab u64
  | HardwareBack | BackClick | ForwardClick | HomeClick | RefreshClick
  | MenuToggle | NavAbout about_page | OpenClick | ViewSource nat | DevTools | IncrementalLayout "bool option" | ToggleFps
  | UrlMounted | UrlFocus | UrlBlur | UrlPointerDown | UrlInput string | UrlKey ui_key | PickRow suggestion
  | Publish "suggestion list" | SyncUrlbar | SyncQuery
  | PageNavigate u64 navigation_options | AboutNavigate u64 request | WebViewMounted u64 nat
  | LoadStart u64 | LoadDone u64 int fetch_result | AboutShown u64
  | FaviconProbed u64 string history_entry_id string fetch_result | ClearHistoryClick

fun browser_step :: "browser_env \<Rightarrow> browser_op \<Rightarrow> ui_op" where
  "browser_step e (ModifiersChanged held) b = Some (b\<lparr>br_shortcut := held\<rparr>)"
| "browser_step e (WindowKey pressed k) b = window_key pressed k b"
| "browser_step e NewTabClick b = Some (open_new_tab (br_home b) b)"
| "browser_step e (SwitchTab i) b = Some (switch_tab i b)"
| "browser_step e (CloseTab i) b = close_tab i b"
| "browser_step e HardwareBack b = hardware_back b"
| "browser_step e BackClick b = back_action b"
| "browser_step e ForwardClick b = forward_action b"
| "browser_step e HomeClick b = home_action b"
| "browser_step e RefreshClick b = refresh_action b"
| "browser_step e MenuToggle b = Some (b\<lparr>br_menu := \<not> br_menu b\<rparr>)"
| "browser_step e (NavAbout page) b = nav_about (be_url e) page b"
| "browser_step e OpenClick b = open_action (be_url e) b"
| "browser_step e (ViewSource doc) b = view_source_action doc b"
| "browser_step e DevTools b = devtools_action b"
| "browser_step e (IncrementalLayout was) b = incremental_action was b"
| "browser_step e ToggleFps b = Some (b\<lparr>br_menu := False, br_fps := \<not> br_fps b\<rparr>)"
| "browser_step e UrlMounted b = Some (b\<lparr>br_input_mounted := True\<rparr>)"
| "browser_step e UrlFocus b = Some (b\<lparr>br_focused := True\<rparr>)"
| "browser_step e UrlBlur b = Some (b\<lparr>br_focused := False\<rparr>)"
| "browser_step e UrlPointerDown b = Some (b\<lparr>br_block_mouse_up := \<not> br_focused b\<rparr>)"
| "browser_step e (UrlInput v) b = Some (urlbar_input v b)"
| "browser_step e (UrlKey k) b = urlbar_key (be_url e) k b"
| "browser_step e (PickRow s) b = on_pick (be_url e) s b"
| "browser_step e (Publish s) b = Some (b\<lparr>br_suggestions := s\<rparr>)"
| "browser_step e SyncUrlbar b = sync_urlbar b"
| "browser_step e SyncQuery b = Some (call_out (SendQuery (br_input b)) b)"
| "browser_step e (PageNavigate i opts) b = Some (with_tab i (\<lambda>t. t\<lparr>tab_history := browser_navigate_to opts (tab_history t)\<rparr>) b)"
| "browser_step e (AboutNavigate i r) b = Some (tab_navigate i r b)"
| "browser_step e (WebViewMounted i n) b = Some (with_tab i (\<lambda>t. t\<lparr>tab_node := Some n\<rparr>) b)"
| "browser_step e (LoadStart i) b = load_start (be_url e) i b"
| "browser_step e (LoadDone i now r) b = load_done (be_url e) (be_pages e) (be_runtime e) (be_disk_ok e) (be_order e) i now r b"
| "browser_step e (AboutShown i) b = about_shown (be_url e) i b"
| "browser_step e (FaviconProbed i c eid page r) b =
     favicon_probed (be_decodable e) (be_runtime e) (be_disk_ok e) (be_order e) i c eid page r b"
| "browser_step e ClearHistoryClick b =
     Some (b\<lparr>br_history := service_step (be_runtime e) (be_disk_ok e) (be_order e) ClearHistory (br_history b)\<rparr>)"

text \<open>What a tab on the screen, or a task of it, can ask for; the close button is only there beside
  another tab.\<close>
fun offered :: "browser_op \<Rightarrow> browser \<Rightarrow> bool" where
  "offered (SwitchTab i) b = (i \<in> tab_id ` set (br_tabs b))"
| "offered (CloseTab i) b = (i \<in> tab_id ` set (br_tabs b) \<and> length (br_tabs b) > 1)"
| "offered (PageNavigate i _) b = (i \<in> tab_id ` set (br_tabs b))"
| "offered (AboutNavigate i _) b = (i \<in> tab_id ` set (br_tabs b))"
| "offered (WebViewMounted i _) b = (i \<in> tab_id ` set (br_tabs b))"
| "offered (LoadStart i) b = (i \<in> tab_id ` set (br_tabs b))"
| "offered (LoadDone i _ _) b = (i \<in> tab_id ` set (br_tabs b))"
| "offered (AboutShown i) b = (i \<in> tab_id ` set (br_tabs b))"
| "offered (FaviconProbed i _ _ _ _) b = (i \<in> tab_id ` set (br_tabs b))"
| "offered _ b = True"

fun browser_run :: "browser_env \<Rightarrow> browser_op list \<Rightarrow> ui_op" where
  "browser_run e [] b = Some b"
| "browser_run e (x # xs) b = (if offered x b then Option.bind (browser_step e x b) (browser_run e xs) else browser_run e xs b)"

text \<open>\<open>app\<close> before its first event: the home page, the history of the disk and one tab.\<close>
definition browser_start :: "browser_env \<Rightarrow> string option \<Rightarrow> history_db \<Rightarrow> browser may_panic" where
  "browser_start e cli_url db = do {
     home_url \<leftarrow> about_parsed_url (be_url e) NewTab;
     let (entries, counter) = load_recent (be_disk_ok e) (be_order e) (ul_parse (be_url e)) (word_of_nat MAX_HISTORY_ENTRIES) db 0;
     let b0 = \<lparr> br_tabs = [], br_active = 0, br_tab_counter = 0, br_entry_counter = counter, br_signals = 0, br_aborted = {},
        br_home = home_url, br_input = home_url, br_input_mounted = False, br_focused = False, br_block_mouse_up = False,
        br_selected = None, br_suggestions = [], br_menu = False, br_fps = False, br_incremental = True, br_shortcut = False,
        br_history = \<lparr> browsing = entries, disk = db \<rparr>, br_favicons = Map.empty, br_calls = [] \<rparr>;
     let first_tab_url = (case cli_url of Some url \<Rightarrow> url | None \<Rightarrow> home_url);
     let (i, b1) = open_tab first_tab_url b0;
     Some (b1\<lparr>br_active := i\<rparr>)
   }"

end
