(* ===== verification/Browser_Invariant.thy ===== *)
theory Browser_Invariant
  imports Browser_App
begin

text \<open>
  What holds of the browser at any time: there is a tab and an active one, so that nothing the
  user or a page does makes it panic, and the fetches that are not aborted are the last load of
  each tab.  And what Enter does in the address bar.
\<close>

section \<open>The invariant\<close>

definition slot :: "tab \<Rightarrow> nat option" where
  "slot t = Option.bind (tab_loader t) ld_abort"

definition live_loads :: "tab list \<Rightarrow> nat list" where
  "live_loads ts = List.map_filter slot ts"

definition tab_ok :: "nat \<Rightarrow> tab \<Rightarrow> bool" where
  "tab_ok n t \<longleftrightarrow> nav_good (tab_history t) \<and> tab_loader t \<noteq> None \<and> unat (tab_id t) < n"

text \<open>\<open>n\<close> tabs were opened.\<close>
definition tabs_ok :: "nat \<Rightarrow> browser \<Rightarrow> bool" where
  "tabs_ok n b \<longleftrightarrow> distinct (map tab_id (br_tabs b)) \<and> br_active b \<in> tab_id ` set (br_tabs b)
     \<and> (\<forall>t\<in>set (br_tabs b). tab_ok n t) \<and> br_tab_counter b = word_of_nat n"

definition loads_ok :: "browser \<Rightarrow> bool" where
  "loads_ok b \<longleftrightarrow> distinct (live_loads (br_tabs b))
     \<and> set (live_loads (br_tabs b)) = {..<br_signals b} - br_aborted b \<and> br_aborted b \<subseteq> {..<br_signals b}"

definition browser_ok :: "nat \<Rightarrow> browser \<Rightarrow> bool" where
  "browser_ok n b \<longleftrightarrow> tabs_ok n b \<and> loads_ok b"

text \<open>A step that returns, with no more than \<open>n\<close> tabs opened since the start.\<close>
definition safe :: "nat \<Rightarrow> browser may_panic \<Rightarrow> bool" where
  "safe n r \<longleftrightarrow> (\<exists>b m. r = Some b \<and> m \<le> n \<and> browser_ok m b)"

lemma safe_Some: "browser_ok n b \<Longrightarrow> safe n (Some b)"
  by (auto simp: safe_def)

lemma safe_mono: "safe m r \<Longrightarrow> m \<le> n \<Longrightarrow> safe n r"
  unfolding safe_def using le_trans by blast

lemma live_loads_append [simp]: "live_loads (xs @ ys) = live_loads xs @ live_loads ys"
  by (simp add: live_loads_def map_filter_def)

lemma live_loads_Cons [simp]:
  "live_loads [] = []" "live_loads (t # ts) = (case slot t of None \<Rightarrow> [] | Some s \<Rightarrow> [s]) @ live_loads ts"
  by (simp_all add: live_loads_def map_filter_def split: option.split)

section \<open>Updating a tab\<close>

lemma tab_split:
  assumes "distinct (map tab_id ts)" "i \<in> tab_id ` set ts"
  obtains us t vs where "ts = us @ t # vs" "tab_id t = i" "i \<notin> tab_id ` set us" "i \<notin> tab_id ` set vs"
    "\<And>f. update_tab i f ts = us @ f t # vs" "find (\<lambda>t. tab_id t = i) ts = Some t"
proof -
  obtain t where t: "t \<in> set ts" "tab_id t = i" using assms(2) by auto
  obtain us vs where ts: "ts = us @ t # vs" using t(1) by (meson split_list)
  have d: "i \<notin> tab_id ` set us" "i \<notin> tab_id ` set vs" using assms(1) t(2) ts by auto
  have "update_tab i f (us @ t # vs) = us @ f t # vs" for f using d(1) t(2) by (induction us) auto
  moreover have "find (\<lambda>t. tab_id t = i) (us @ t # vs) = Some t" using d(1) t(2) by (induction us) auto
  ultimately show ?thesis using that [OF ts t(2) d] ts by simp
qed

lemma update_tab_ids: "(\<And>t. tab_id (f t) = tab_id t) \<Longrightarrow> map tab_id (update_tab i f ts) = map tab_id ts"
  by (induction ts) simp_all

text \<open>Changes that leave the id and the loader alone and a history well formed.\<close>
definition keeps_tab :: "(tab \<Rightarrow> tab) \<Rightarrow> bool" where
  "keeps_tab f \<longleftrightarrow> (\<forall>t. tab_id (f t) = tab_id t \<and> tab_loader (f t) = tab_loader t
     \<and> (nav_good (tab_history t) \<longrightarrow> nav_good (tab_history (f t))))"

lemma keeps_tab_loads: "keeps_tab f \<Longrightarrow> live_loads (update_tab i f ts) = live_loads ts"
  by (induction ts) (simp_all add: slot_def keeps_tab_def)

lemma keeps_tab_ok: "keeps_tab f \<Longrightarrow> \<forall>t\<in>set ts. tab_ok n t \<Longrightarrow> \<forall>t\<in>set (update_tab i f ts). tab_ok n t"
proof (induction ts)
  case (Cons t ts)
  have "tab_ok n (f t)" using Cons.prems unfolding tab_ok_def keeps_tab_def by (metis list.set_intros(1))
  then show ?case using Cons by simp
qed simp

lemma ok_with_tab:
  assumes f: "keeps_tab f" and b: "browser_ok n b" shows "browser_ok n (with_tab i f b)"
proof -
  have ids: "map tab_id (update_tab i f (br_tabs b)) = map tab_id (br_tabs b)"
    by (rule update_tab_ids) (use f in \<open>simp add: keeps_tab_def\<close>)
  from arg_cong [OF this, of set]
  have "tab_id ` set (update_tab i f (br_tabs b)) = tab_id ` set (br_tabs b)" unfolding list.set_map .
  moreover have "\<forall>t\<in>set (update_tab i f (br_tabs b)). tab_ok n t"
    by (rule keeps_tab_ok [OF f]) (use b in \<open>simp add: browser_ok_def tabs_ok_def\<close>)
  ultimately show ?thesis using b ids
    by (simp add: browser_ok_def tabs_ok_def loads_ok_def with_tab_def keeps_tab_loads [OF f])
qed

lemma keeps_tab_intros [intro, simp]:
  "keeps_tab (\<lambda>t. t\<lparr>tab_history := nav_navigate r (tab_history t)\<rparr>)"
  "keeps_tab (\<lambda>t. t\<lparr>tab_history := nav_go_back (tab_history t)\<rparr>)"
  "keeps_tab (\<lambda>t. t\<lparr>tab_history := nav_go_forward (tab_history t)\<rparr>)"
  "keeps_tab (\<lambda>t. t\<lparr>tab_history := browser_navigate_to opts (tab_history t)\<rparr>)"
  "keeps_tab (\<lambda>t. t\<lparr>tab_node := Some n\<rparr>)"
  "keeps_tab (\<lambda>t. t\<lparr>tab_document := Some n\<rparr>)"
  "keeps_tab (\<lambda>t. t\<lparr>tab_favicon := Some s\<rparr>)"
  "keeps_tab (\<lambda>t. t\<lparr>tab_title := s, tab_favicon := fav\<rparr>)"
  "keeps_tab (\<lambda>t. t\<lparr>tab_html := h, tab_title := s, tab_favicon := fav, tab_document := d\<rparr>)"
  by (simp_all add: keeps_tab_def nav.good_visit nav.good_back nav.good_forward browser_navigate_to_def)

lemma ok_tab_ops [intro]:
  assumes "browser_ok n b"
  shows "browser_ok n (tab_navigate i r b)" "browser_ok n (tab_go_back i b)" "browser_ok n (tab_go_forward i b)"
    "browser_ok n (commit_about_chrome i page b)"
  using assms by (simp_all add: tab_navigate_def tab_go_back_def tab_go_forward_def commit_about_chrome_def ok_with_tab)

text \<open>The rest of the state does not matter.\<close>
lemma ok_call_out [simp]: "browser_ok n (call_out c b) = browser_ok n b"
  by (simp add: call_out_def browser_ok_def tabs_ok_def loads_ok_def)

lemma ok_other_fields [simp]:
  "browser_ok n (br_entry_counter_update f1 b) = browser_ok n b" "browser_ok n (br_input_update f2 b) = browser_ok n b"
  "browser_ok n (br_input_mounted_update f3 b) = browser_ok n b" "browser_ok n (br_focused_update f3 b) = browser_ok n b"
  "browser_ok n (br_block_mouse_up_update f3 b) = browser_ok n b" "browser_ok n (br_selected_update f4 b) = browser_ok n b"
  "browser_ok n (br_suggestions_update f5 b) = browser_ok n b" "browser_ok n (br_menu_update f3 b) = browser_ok n b"
  "browser_ok n (br_fps_update f3 b) = browser_ok n b" "browser_ok n (br_incremental_update f3 b) = browser_ok n b"
  "browser_ok n (br_shortcut_update f3 b) = browser_ok n b" "browser_ok n (br_history_update f6 b) = browser_ok n b"
  "browser_ok n (br_favicons_update f7 b) = browser_ok n b"
  by (simp_all add: browser_ok_def tabs_ok_def loads_ok_def)

section \<open>Reading a tab\<close>

lemma ok_find_tab:
  assumes "browser_ok n b" "i \<in> tab_id ` set (br_tabs b)"
  obtains t l r where "find_tab i b = Some t" "tab_id t = i" "tab_loader t = Some l" "nav_current_url (tab_history t) = Some r"
    "tab_url t = Some (req_url r)"
proof -
  obtain us t vs where s: "br_tabs b = us @ t # vs" "tab_id t = i" "find (\<lambda>t. tab_id t = i) (br_tabs b) = Some t"
    by (rule tab_split [of "br_tabs b" i]) (use assms in \<open>simp_all add: browser_ok_def tabs_ok_def\<close>)
  then have "tab_ok n t" using assms(1) by (simp add: browser_ok_def tabs_ok_def)
  then obtain l r where "tab_loader t = Some l" "nav_current_url (tab_history t) = Some r"
    using nav.shows_page unfolding tab_ok_def by blast
  then show ?thesis using that s(2,3) by (simp add: find_tab_def tab_url_def)
qed

lemma ok_active_tab:
  assumes "browser_ok n b"
  obtains t l r where "active_tab b = Some t" "tab_id t = br_active b" "tab_loader t = Some l"
    "nav_current_url (tab_history t) = Some r" "tab_url t = Some (req_url r)"
proof -
  have "br_active b \<in> tab_id ` set (br_tabs b)" using assms by (simp add: browser_ok_def tabs_ok_def)
  from ok_find_tab [OF assms this] show ?thesis using that unfolding active_tab_def by blast
qed

lemma clear_focus_ok:
  assumes "browser_ok n b"
  obtains b1 where "clear_document_focus b = Some b1" "browser_ok n b1" "br_tabs b1 = br_tabs b" "br_active b1 = br_active b"
proof -
  obtain t where "active_tab b = Some t" by (rule ok_active_tab [OF assms])
  then show ?thesis using that assms by (cases "tab_node t") (simp_all add: clear_document_focus_def, simp add: call_out_def)
qed

section \<open>Opening and closing\<close>

lemma ok_open_tab:
  assumes b: "tabs_ok n b \<or> br_tabs b = [] \<and> n = 0 \<and> br_tab_counter b = 0" and l: "loads_ok b" and n: "n < 2 ^ 64"
    and o: "open_tab url b = (i, b1)"
  shows "browser_ok (n + 1) (b1\<lparr>br_active := i\<rparr>)"
proof -
  let ?t = "\<lparr> tab_id = br_tab_counter b, tab_history = nav_new (request_get url), tab_loader = Some loader_new, tab_document = None,
     tab_node = None, tab_html = [], tab_title = [], tab_favicon = None \<rparr>"
  have e: "i = br_tab_counter b" "b1 = b\<lparr>br_tab_counter := br_tab_counter b + 1, br_tabs := br_tabs b @ [?t]\<rparr>"
    using o by (auto simp: open_tab_def next_tab_id_def Let_def)
  have u: "unat (word_of_nat n :: u64) = n" using n by (simp add: unat_of_nat)
  have old: "distinct (map tab_id (br_tabs b))" "\<forall>t\<in>set (br_tabs b). tab_ok n t" "br_tab_counter b = word_of_nat n"
    using b by (auto simp: tabs_ok_def)
  have "br_tab_counter b \<notin> tab_id ` set (br_tabs b)" using old u by (auto simp: tab_ok_def)
  moreover have "\<forall>t\<in>set (br_tabs b). tab_ok (n + 1) t" using old(2) by (auto simp: tab_ok_def)
  moreover have "tab_ok (n + 1) ?t" using u old(3) by (simp add: tab_ok_def)
  ultimately show ?thesis using old l
    by (simp add: e browser_ok_def tabs_ok_def loads_ok_def slot_def loader_new_def)
qed

lemma ok_open_new_tab:
  assumes b: "browser_ok n b" and n: "n < 2 ^ 64" shows "browser_ok (n + 1) (open_new_tab url b)"
proof -
  obtain i b1 where o: "open_tab url b = (i, b1)" by fastforce
  have "browser_ok (n + 1) (b1\<lparr>br_active := i\<rparr>)"
    by (rule ok_open_tab [OF _ _ n o]) (use b in \<open>simp_all add: browser_ok_def\<close>)
  then show ?thesis by (simp add: open_new_tab_def o Let_def)
qed

text \<open>After a tab is closed, its right neighbour is active, or its left one if it was the last; closing
  another tab does not change the active one.\<close>
lemma close_tab_result:
  assumes b: "browser_ok n b" and ts: "br_tabs b = us @ t # vs" and len: "length (br_tabs b) > 1"
  obtains b1 where "close_tab (tab_id t) b = Some b1" "br_tabs b1 = us @ vs" "br_tab_counter b1 = br_tab_counter b"
    "br_signals b1 = br_signals b" "br_aborted b1 = set_option (slot t) \<union> br_aborted b"
    "br_active b1 = (if br_active b \<noteq> tab_id t then br_active b else tab_id (if vs \<noteq> [] then hd vs else last us))"
proof -
  have d: "tab_id t \<notin> tab_id ` set us" using b ts by (auto simp: browser_ok_def tabs_ok_def)
  then have "position (\<lambda>x. tab_id x = tab_id t) (us @ t # vs) = Some (length us)"
    by (induction us) auto
  then have p: "position (\<lambda>x. tab_id x = tab_id t) (br_tabs b) = Some (length us)" by (simp add: ts)
  have r: "remove_at (length us) (br_tabs b) = us @ vs" "br_tabs b ! length us = t" "length (br_tabs b) - 1 = length (us @ vs)"
    by (simp_all add: ts remove_at_def)
  define b2 where "b2 = (case tab_loader t of None \<Rightarrow> b\<lparr>br_tabs := us @ vs\<rparr> | Some l \<Rightarrow> abort_slot (ld_abort l) (b\<lparr>br_tabs := us @ vs\<rparr>))"
  have b2: "br_tabs b2 = us @ vs" "br_tab_counter b2 = br_tab_counter b" "br_active b2 = br_active b" "br_signals b2 = br_signals b"
    "br_aborted b2 = set_option (slot t) \<union> br_aborted b"
    by (auto simp: b2_def slot_def abort_slot_def split: option.split)
  let ?k = "if length us < length (us @ vs) then length us else length (us @ vs) - 1"
  have k: "?k < length (us @ vs)" "(us @ vs) ! ?k = (if vs \<noteq> [] then hd vs else last us)"
    using len ts by (auto simp: nth_append hd_conv_nth last_conv_nth)
  have "close_tab (tab_id t) b = Some (if br_active b = tab_id t then b2\<lparr>br_active := tab_id ((us @ vs) ! ?k)\<rparr> else b2)"
    unfolding close_tab_def p Let_def option.case r b2_def [symmetric] b2(1) using k(1) by (simp add: ts)
  then show ?thesis using that b2 k(2) by (cases "br_active b = tab_id t") simp_all
qed

lemma ok_close_tab:
  assumes b: "browser_ok n b" and i: "i \<in> tab_id ` set (br_tabs b)" and len: "length (br_tabs b) > 1"
  shows "safe n (close_tab i b)"
proof -
  obtain us t vs where s: "br_tabs b = us @ t # vs" "tab_id t = i"
    by (rule tab_split [of "br_tabs b" i]) (use b i in \<open>simp_all add: browser_ok_def tabs_ok_def\<close>)
  obtain b1 where c: "close_tab i b = Some b1" "br_tabs b1 = us @ vs" "br_tab_counter b1 = br_tab_counter b"
    "br_signals b1 = br_signals b" "br_aborted b1 = set_option (slot t) \<union> br_aborted b"
    "br_active b1 = (if br_active b \<noteq> i then br_active b else tab_id (if vs \<noteq> [] then hd vs else last us))"
    using close_tab_result [OF b s(1) len] s(2) by blast
  have tabs: "distinct (map tab_id (us @ t # vs))" "br_active b \<in> tab_id ` set (us @ t # vs)" "\<forall>x\<in>set (us @ t # vs). tab_ok n x"
    "br_tab_counter b = word_of_nat n" using b s(1) by (simp_all add: browser_ok_def tabs_ok_def)
  have "us \<noteq> [] \<or> vs \<noteq> []" using len s(1) by auto
  then have "br_active b1 \<in> tab_id ` set (us @ vs)" using c(6) tabs(2) s(2) by (auto split: if_splits)
  then have "tabs_ok n b1" using tabs c(2,3) by (auto simp: tabs_ok_def)
  moreover have "loads_ok b1" using b c(2,4,5) s(1)
    by (cases "slot t") (auto simp: browser_ok_def loads_ok_def)
  ultimately show ?thesis using c(1) by (auto simp: safe_def browser_ok_def)
qed

section \<open>Every step is safe\<close>

lemma ok_abort_load:
  assumes b: "browser_ok n b" and i: "i \<in> tab_id ` set (br_tabs b)" and t: "find_tab i b = Some t" "tab_loader t = Some l"
  shows "browser_ok n (set_loader i (l\<lparr>ld_status := st\<rparr>) b)"
    and "browser_ok n (set_loader i (l\<lparr>ld_abort := None, ld_generation := g\<rparr>) (abort_slot (ld_abort l) b))"
    and "browser_ok n (set_loader i (l\<lparr>ld_abort := Some (br_signals b), ld_status := st\<rparr>)
      (abort_slot (ld_abort l) (b\<lparr>br_signals := br_signals b + 1\<rparr>)))"
proof -
  obtain us x vs where s: "br_tabs b = us @ x # vs" "tab_id x = i" "i \<notin> tab_id ` set us" "i \<notin> tab_id ` set vs"
    "\<And>f. update_tab i f (br_tabs b) = us @ f x # vs" "find (\<lambda>t. tab_id t = i) (br_tabs b) = Some x"
    by (rule tab_split [of "br_tabs b" i]) (use b i in \<open>simp_all add: browser_ok_def tabs_ok_def\<close>)
  have x: "x = t" using t(1) s(6) by (simp add: find_tab_def)
  have tabs: "distinct (map tab_id (us @ t # vs))" "br_active b \<in> tab_id ` set (us @ t # vs)"
    "\<forall>x\<in>set (us @ t # vs). tab_ok n x" "br_tab_counter b = word_of_nat n"
    using b s(1) x by (simp_all add: browser_ok_def tabs_ok_def)
  have sl: "slot t = ld_abort l" using t(2) by (simp add: slot_def)
  have loads: "distinct (live_loads (us @ t # vs))" "set (live_loads (us @ t # vs)) = {..<br_signals b} - br_aborted b"
    "br_aborted b \<subseteq> {..<br_signals b}" using b s(1) x by (simp_all add: browser_ok_def loads_ok_def)
  have ok: "tab_ok n (t\<lparr>tab_loader := Some l'\<rparr>)" for l' using tabs(3) by (simp add: tab_ok_def)
  note simps = browser_ok_def tabs_ok_def loads_ok_def set_loader_def with_tab_def abort_slot_def s(5) x
  have new: "slot (t\<lparr>tab_loader := Some l'\<rparr>) = ld_abort l'" for l' by (simp add: slot_def)
  show "browser_ok n (set_loader i (l\<lparr>ld_status := st\<rparr>) b)"
    using tabs loads ok by (simp add: simps sl new)
  show "browser_ok n (set_loader i (l\<lparr>ld_abort := None, ld_generation := g\<rparr>) (abort_slot (ld_abort l) b))"
    using tabs loads ok by (cases "ld_abort l") (auto simp: simps sl new)
  show "browser_ok n (set_loader i (l\<lparr>ld_abort := Some (br_signals b), ld_status := st\<rparr>)
      (abort_slot (ld_abort l) (b\<lparr>br_signals := br_signals b + 1\<rparr>)))"
    using tabs loads ok by (cases "ld_abort l") (auto simp: simps sl new lessThan_Suc)
qed

lemma safe_loads:
  assumes b: "browser_ok n b" and i: "i \<in> tab_id ` set (br_tabs b)"
  shows "safe n (tab_reload i b)" "safe n (load_start u i b)"
    "safe n (load_done u pl runtime disk_ok ord i now r b)" "safe n (about_shown u i b)"
    "safe n (favicon_probed decodable runtime disk_ok ord i cand eid page r b)"
proof -
  obtain t l req where t: "find_tab i b = Some t" "tab_loader t = Some l" "nav_current_url (tab_history t) = Some req"
    "tab_url t = Some (req_url req)" by (rule ok_find_tab [OF b i])
  note ok = ok_abort_load [OF b i t(1,2)]
  show "safe n (tab_reload i b)" using ok(2) t by (simp add: tab_reload_def safe_Some)
  show "safe n (load_start u i b)" using ok(1,3) t by (simp add: load_start_def safe_Some Let_def)
  show "safe n (about_shown u i b)" using b t
    by (cases "about_from_url u (req_url req)") (simp_all add: about_shown_def safe_Some ok_tab_ops)
  show "safe n (favicon_probed decodable runtime disk_ok ord i cand eid page r b)"
  proof (cases "probe_favicon_cached decodable cand r (br_favicons b)")
    case (Pair cache found)
    have "find_tab i (b\<lparr>br_favicons := cache\<rparr>) = Some t" using t(1) by (simp add: find_tab_def)
    then show ?thesis using b t Pair
      by (cases found) (simp_all add: favicon_probed_def safe_Some ok_with_tab Let_def)
  qed
  show "safe n (load_done u pl runtime disk_ok ord i now r b)"
  proof -
    let ?b = "set_loader i (l\<lparr>ld_status := Idle\<rparr>) b" and ?lo = "document_of_response u pl r"
    have ok1: "browser_ok n ?b" by (rule ok(1))
    have "i \<in> tab_id ` set (br_tabs ?b)" using arg_cong [OF update_tab_ids, of _ set] i
      by (simp add: set_loader_def with_tab_def)
    then obtain t1 l1 req1 where t1: "find_tab i ?b = Some t1" "tab_loader t1 = Some l1" "nav_current_url (tab_history t1) = Some req1"
      "tab_url t1 = Some (req_url req1)" by (rule ok_find_tab [OF ok1])
    then have "safe n (commit_loaded_document runtime disk_ok ord i now ?lo ?b)" using ok1
      by (cases "lo_error ?lo"; cases "lo_candidate ?lo";
          cases "history_entry_new now (req_url req1) (display_title (lo_title ?lo) (req_url req1)) None (br_entry_counter ?b)")
        (simp_all add: commit_loaded_document_def safe_Some ok_with_tab Let_def)
    then show ?thesis using t by (simp add: load_done_def)
  qed
qed

lemma safe_navigate_or_blur:
  assumes b: "browser_ok n b" shows "safe n (navigate_or_blur req b)"
proof -
  have bl: "browser_ok n (blur_urlbar b)" using b by (simp add: blur_urlbar_def Let_def)
  show ?thesis
  proof (cases req)
    case (Some r)
    obtain b1 where c: "clear_document_focus (blur_urlbar b) = Some b1" "browser_ok n b1" by (rule clear_focus_ok [OF bl])
    obtain t where "active_tab b1 = Some t" by (rule ok_active_tab [OF c(2)])
    then show ?thesis using c Some by (simp add: navigate_or_blur_def navigate_from_urlbar_def safe_Some ok_tab_ops)
  qed (simp add: navigate_or_blur_def safe_Some bl)
qed

lemma safe_toolbar:
  assumes u: "url_lib_ok u" and b: "browser_ok n b"
  shows "safe n (on_pick u s b)" "safe n (submit_urlbar u b)" "safe n (urlbar_key u k b)"
proof -
  show p: "safe n (on_pick u s b)" for s
    using req_from_string_total [OF u, of "br_input b"] safe_navigate_or_blur [OF b]
    by (cases "sg_kind s") (auto simp: on_pick_def)
  show sub: "safe n (submit_urlbar u b)"
    using req_from_string_total [OF u, of "br_input b"] safe_navigate_or_blur [OF b] p
    by (auto simp: submit_urlbar_def split: option.split)
  have "browser_ok n (move_selection_down b)" "browser_ok n (move_selection_up b)" "browser_ok n (blur_urlbar b)"
    using b by (simp_all add: move_selection_down_def move_selection_up_def blur_urlbar_def Let_def)
  then show "safe n (urlbar_key u k b)" using sub b by (auto simp: urlbar_key_def safe_Some)
qed

lemma safe_actions:
  assumes b: "browser_ok n b"
  shows "safe n (back_action b)" "safe n (forward_action b)" "safe n (home_action b)" "safe n (refresh_action b)"
    "safe n (hardware_back b)" "safe n (sync_urlbar b)" "safe n (devtools_action b)" "safe n (open_action u b)"
    "safe n (view_source_action doc b)" "safe n (incremental_action was b)"
proof -
  obtain b1 where c: "clear_document_focus b = Some b1" "browser_ok n b1" by (rule clear_focus_ok [OF b])
  obtain t where t: "active_tab b1 = Some t" "tab_id t = br_active b1" by (rule ok_active_tab [OF c(2)])
  have i: "tab_id t \<in> tab_id ` set (br_tabs b1)" using c(2) t(2) by (simp add: browser_ok_def tabs_ok_def)
  show "safe n (back_action b)" "safe n (forward_action b)" "safe n (home_action b)"
    using c t by (simp_all add: back_action_def forward_action_def home_action_def safe_Some ok_tab_ops)
  show "safe n (refresh_action b)" using c t safe_loads(1) [OF c(2) i] by (simp add: refresh_action_def)
  have m: "browser_ok n (b\<lparr>br_menu := False\<rparr>)" using b by simp
  obtain x l r where x: "active_tab b = Some x" "tab_loader x = Some l" "nav_current_url (tab_history x) = Some r"
    "tab_url x = Some (req_url r)" by (rule ok_active_tab [OF b])
  then have y: "active_tab (b\<lparr>br_menu := False\<rparr>) = Some x" by (simp add: active_tab_def find_tab_def)
  show "safe n (hardware_back b)" "safe n (sync_urlbar b)"
    using b x by (simp_all add: hardware_back_def sync_urlbar_def safe_Some ok_tab_ops)
  show "safe n (devtools_action b)" "safe n (incremental_action was b)" "safe n (open_action u b)"
    using b x y by (auto simp: devtools_action_def incremental_action_def open_action_def safe_Some Let_def split: option.split)
  show "safe n (view_source_action doc b)"
    using b x y by (auto simp: view_source_action_def safe_Some ok_with_tab Let_def)
qed

lemma find_about_total:
  "\<forall>t\<in>set ts. nav_good (tab_history t) \<Longrightarrow> \<exists>r. find_about u page ts = Some r \<and> (\<forall>i. r = Some i \<longrightarrow> i \<in> tab_id ` set ts)"
proof (induction ts)
  case (Cons t ts)
  obtain q where "nav_current_url (tab_history t) = Some q" using nav.shows_page Cons.prems by auto
  then show ?case using Cons by (auto simp: tab_url_def)
qed simp

lemma safe_nav_about:
  assumes u: "url_lib_ok u" and b: "browser_ok n b" and n: "n < 2 ^ 64" shows "safe (n + 1) (nav_about u page b)"
proof -
  obtain b1 where c: "clear_document_focus (b\<lparr>br_menu := False\<rparr>) = Some b1" "browser_ok n b1"
    by (rule clear_focus_ok [of n "b\<lparr>br_menu := False\<rparr>"]) (simp_all add: b)
  have new: "safe (n + 1) (Some (open_new_tab url b1))" for url by (rule safe_Some) (rule ok_open_new_tab [OF c(2) n])
  have "\<forall>t\<in>set (br_tabs b1). nav_good (tab_history t)" using c(2) by (simp add: browser_ok_def tabs_ok_def tab_ok_def)
  from find_about_total [OF this, of u page]
  obtain r where r: "find_about u page (br_tabs b1) = Some r" "\<forall>i. r = Some i \<longrightarrow> i \<in> tab_id ` set (br_tabs b1)" by blast
  have "safe (n + 1) (Some (b1\<lparr>br_active := i\<rparr>))" if "r = Some i" for i
    using r(2) c(2) that safe_mono [OF safe_Some, of n _ "n + 1"] by (simp add: browser_ok_def tabs_ok_def loads_ok_def)
  then show ?thesis using c(1) r(1) new about_parsed [OF u, of page]
    by (cases r) (auto simp: nav_about_def)
qed

lemma safe_step:
  assumes u: "url_lib_ok (be_url e)" and b: "browser_ok n b" and n: "n < 2 ^ 64" and x: "offered x b"
  shows "safe (n + 1) (browser_step e x b)"
proof -
  note up = safe_mono [of n _ "n + 1"]
  have new: "safe (n + 1) (Some (open_new_tab url b))" for url by (rule safe_Some) (rule ok_open_new_tab [OF b n])
  have cl: "safe (n + 1) (close_tab i b)" if "i \<in> tab_id ` set (br_tabs b)" "length (br_tabs b) > 1" for i
    by (rule up) (rule ok_close_tab [OF b that], simp)
  have act: "br_active b \<in> tab_id ` set (br_tabs b)" using b by (simp add: browser_ok_def tabs_ok_def)
  show ?thesis
  proof (cases x)
    case (WindowKey pressed k)
    then show ?thesis using new cl act safe_mono [OF safe_Some [OF b], of "n + 1"]
      by (cases k) (auto simp: window_key_def)
  next
    case (SwitchTab i)
    then have "browser_ok n (switch_tab i b)" using b x by (simp add: switch_tab_def browser_ok_def tabs_ok_def loads_ok_def)
    then show ?thesis using SwitchTab up safe_Some by simp
  next
    case (NavAbout page) then show ?thesis using safe_nav_about [OF u b n] by simp
  next
    case NewTabClick then show ?thesis using new by simp
  next
    case (CloseTab i) then show ?thesis using cl x by simp
  qed (rule up, use x b in \<open>simp add: safe_Some ok_tab_ops ok_with_tab safe_actions [OF b] safe_toolbar [OF u b]
      safe_loads [OF b] urlbar_input_def\<close>, simp)+
qed

text \<open>C30. The browser never panics on its tabs.  From the start, with a URL given on the command line
  or not and any history on disk, whatever the user, the pages, the loads and the favicon probes
  then do, in any order (a step that needs a tab being one that a tab on the screen can ask for,
  and closing needing another tab): every step returns, there is an active tab among tabs of
  different ids, each with a loader and a page to show, and the fetches that are not aborted are the
  last load of each tab, at most one per tab.  Literal URLs have to parse.\<close>
theorem browser_never_panics:
  assumes "url_lib_ok (be_url e)" and "length xs + 1 < 2 ^ 64" and "browser_start e cli_url db = Some b0"
  shows "\<exists>b t r. browser_run e xs b0 = Some b \<and> active_tab b = Some t \<and> nav_current_url (tab_history t) = Some r
    \<and> distinct (map tab_id (br_tabs b)) \<and> (\<forall>t\<in>set (br_tabs b). nav_good (tab_history t) \<and> tab_loader t \<noteq> None)
    \<and> distinct (List.map_filter slot (br_tabs b))
    \<and> set (List.map_filter slot (br_tabs b)) = {..<br_signals b} - br_aborted b"
proof -
  have start: "browser_ok 1 b0"
  proof -
    obtain home entries counter where h: "about_parsed_url (be_url e) NewTab = Some home"
      "load_recent (be_disk_ok e) (be_order e) (ul_parse (be_url e)) (word_of_nat MAX_HISTORY_ENTRIES) db 0 = (entries, counter)"
      using about_parsed [OF assms(1)] by (meson surj_pair)
    let ?b = "\<lparr> br_tabs = [], br_active = 0, br_tab_counter = 0, br_entry_counter = counter, br_signals = 0, br_aborted = {},
        br_home = home, br_input = home, br_input_mounted = False, br_focused = False, br_block_mouse_up = False,
        br_selected = None, br_suggestions = [], br_menu = False, br_fps = False, br_incremental = True, br_shortcut = False,
        br_history = \<lparr> browsing = entries, disk = db \<rparr>, br_favicons = Map.empty, br_calls = [] \<rparr>"
    obtain i b1 where o: "open_tab (case cli_url of Some url \<Rightarrow> url | None \<Rightarrow> home) ?b = (i, b1)" by fastforce
    have "browser_ok (0 + 1) (b1\<lparr>br_active := i\<rparr>)" by (rule ok_open_tab [OF _ _ _ o]) (simp_all add: loads_ok_def)
    then show ?thesis using assms(3) by (simp add: browser_start_def h o)
  qed
  have "safe (n + length xs) (browser_run e xs b)" if "browser_ok n b" "n + length xs < 2 ^ 64" for n b
    using that
  proof (induction xs arbitrary: n b)
    case (Cons x xs)
    show ?case
    proof (cases "offered x b")
      case True
      then obtain b1 m where "browser_step e x b = Some b1" "m \<le> n + 1" "browser_ok m b1"
        using safe_step [OF assms(1) Cons.prems(1) _ True] Cons.prems(2) by (auto simp: safe_def)
      then show ?thesis using Cons.IH [of m b1] Cons.prems(2) True safe_mono by fastforce
    next
      case False
      then show ?thesis using Cons.IH [OF Cons.prems(1)] Cons.prems(2) safe_mono by fastforce
    qed
  qed (simp add: safe_Some)
  from this [OF start] obtain b m where r: "browser_run e xs b0 = Some b" "browser_ok m b"
    using assms(2) unfolding safe_def by (metis add.commute)
  obtain t q where t: "active_tab b = Some t" "nav_current_url (tab_history t) = Some q" by (rule ok_active_tab [OF r(2)])
  moreover have "distinct (map tab_id (br_tabs b))" "\<forall>t\<in>set (br_tabs b). nav_good (tab_history t) \<and> tab_loader t \<noteq> None"
    "distinct (List.map_filter slot (br_tabs b))" "set (List.map_filter slot (br_tabs b)) = {..<br_signals b} - br_aborted b"
    using r(2) by (auto simp: browser_ok_def tabs_ok_def tab_ok_def loads_ok_def live_loads_def)
  ultimately show ?thesis using r(1) by blast
qed

text \<open>A URL crate that takes what holds a colon for a URL.\<close>
definition ex_url_lib :: url_lib where
  "ex_url_lib = \<lparr> ul_parse = (\<lambda>s. if CHR '':'' \<in> set s then Some s else None),
     ul_scheme = takeWhile (\<lambda>c. c \<noteq> CHR '':''), ul_path = (\<lambda>s. tl (dropWhile (\<lambda>c. c \<noteq> CHR '':'') s)),
     ul_join = (\<lambda>b s. Some (b @ s)), ul_append_pair = (\<lambda>s n v. s @ ''?'' @ n @ ''='' @ v) \<rparr>"

lemma ex_url_lib_ok: "url_lib_ok ex_url_lib"
proof -
  have "ul_parse ex_url_lib (about_url_str p) = Some (about_url_str p) \<and> ul_scheme ex_url_lib (about_url_str p) = ''about''
      \<and> ''about:'' @ ul_path ex_url_lib (about_url_str p) = about_url_str p" for p
    by (cases p) (simp_all add: ex_url_lib_def)
  then show ?thesis by (simp add: url_lib_ok_def) (simp add: ex_url_lib_def)
qed

definition ex_browser_env :: browser_env where
  "ex_browser_env = \<lparr> be_url = ex_url_lib,
     be_pages = \<lparr> pl_404 = ''404'', pl_error_html = ''error'', pl_utf8_lossy = (\<lambda>s. s), pl_build = (\<lambda>url html. (0, html, None)),
       pl_error_document = (\<lambda>e. (0, e)) \<rparr>,
     be_decodable = (\<lambda>s. True), be_runtime = True, be_disk_ok = True, be_order = (\<lambda>rs. rs) \<rparr>"

lemma browser_starts: "url_lib_ok (be_url e) \<Longrightarrow> \<exists>b0. browser_start e cli db = Some b0"
  by (simp add: browser_start_def about_parsed case_prod_beta Let_def)

text \<open>Typing an address, opening a page in a new tab, loading in the first tab, closing it.\<close>
theorem browser_never_panics_witness:
  "\<exists>b0 b t. browser_start ex_browser_env None \<lparr> db_rows = [], db_next = 1 \<rparr> = Some b0
     \<and> browser_run ex_browser_env [UrlInput ''x.org'', UrlKey KeyEnter, LoadStart 0, NavAbout Settings, LoadDone 0 7 (FetchFailed ''dns''),
         RefreshClick, CloseTab 0, WindowKey True KeyW, BackClick] b0 = Some b
     \<and> active_tab b = Some t"
proof -
  have u: "url_lib_ok (be_url ex_browser_env)" by (simp add: ex_browser_env_def ex_url_lib_ok)
  obtain b0 where b0: "browser_start ex_browser_env None \<lparr> db_rows = [], db_next = 1 \<rparr> = Some b0"
    using browser_starts [OF u] by blast
  show ?thesis using browser_never_panics [OF u _ b0, of "[UrlInput ''x.org'', UrlKey KeyEnter, LoadStart 0, NavAbout Settings,
      LoadDone 0 7 (FetchFailed ''dns''), RefreshClick, CloseTab 0, WindowKey True KeyW, BackClick]"] b0
    by (simp del: browser_run.simps) blast
qed

text \<open>Why closing has to be offered: the close of a tab that is gone already takes the first tab, and if
  that is the active one, no tab is active any more and the next look at it panics.\<close>
lemma close_gone_tab:
  assumes "browser_ok n b" "br_tabs b = t # ts" "br_active b = tab_id t" "i \<notin> tab_id ` set (t # ts)"
  shows "\<exists>b1. close_tab i b = Some b1 \<and> br_tabs b1 = ts \<and> active_tab b1 = None"
proof -
  have p: "position (\<lambda>x. tab_id x = i) (br_tabs b) = None" using assms(2,4) by (auto simp: position_None_iff)
  have d: "tab_id t \<notin> tab_id ` set ts" using assms(1,2) by (simp add: browser_ok_def tabs_ok_def)
  then have n: "find (\<lambda>x. tab_id x = tab_id t) ts = None" by (simp add: find_None_iff) (metis image_eqI)
  have "br_active b \<noteq> i" using assms(3,4) by auto
  then show ?thesis unfolding close_tab_def p Let_def option.case using assms(2,3) n
    by (simp add: remove_at_def abort_slot_def active_tab_def find_tab_def split: option.split)
qed

section \<open>Enter in the address bar\<close>

fun arrow_delta :: "ui_key \<Rightarrow> int" where
  "arrow_delta KeyArrowDown = 1"
| "arrow_delta KeyArrowUp = -1"
| "arrow_delta _ = 0"

definition press_keys :: "url_lib \<Rightarrow> ui_key list \<Rightarrow> ui_op" where
  "press_keys u ks b = fold (\<lambda>k m. Option.bind m (urlbar_key u k)) ks (Some b)"

definition arrow_row :: "ui_key list \<Rightarrow> nat \<Rightarrow> nat" where
  "arrow_row ks len = nat (sum_list (map arrow_delta ks) mod int len)"

lemma arrow_row_snoc:
  assumes "len > 0"
  shows "arrow_row (ks @ [KeyArrowDown]) len = (arrow_row ks len + 1) mod len"
    and "arrow_row (ks @ [KeyArrowUp]) len = (if arrow_row ks len = 0 then len - 1 else arrow_row ks len - 1)"
proof -
  define S where "S = sum_list (map arrow_delta ks) mod int len"
  have S: "0 \<le> S" "S < int len" using assms by (simp_all add: S_def)
  have "arrow_row (ks @ [KeyArrowDown]) len = nat ((S + 1) mod int len)"
    by (simp add: arrow_row_def S_def mod_add_left_eq)
  moreover have "(arrow_row ks len + 1) mod len = nat ((S + 1) mod int len)"
    using S by (simp add: arrow_row_def nat_mod_distrib nat_add_distrib flip: S_def)
  ultimately show "arrow_row (ks @ [KeyArrowDown]) len = (arrow_row ks len + 1) mod len" by simp
  have "arrow_row (ks @ [KeyArrowUp]) len = nat ((S - 1) mod int len)"
    by (simp add: arrow_row_def S_def mod_diff_left_eq)
  moreover have "(S - 1) mod int len = (if S = 0 then int len - 1 else S - 1)"
    using S assms by (simp add: zmod_minus1 mod_pos_pos_trivial)
  moreover have "arrow_row ks len = nat S" by (simp add: arrow_row_def S_def)
  ultimately show "arrow_row (ks @ [KeyArrowUp]) len = (if arrow_row ks len = 0 then len - 1 else arrow_row ks len - 1)"
    using S by (simp add: nat_diff_distrib)
qed

lemma press_arrows:
  assumes "set ks \<subseteq> {KeyArrowDown, KeyArrowUp}"
  shows "press_keys u ks (urlbar_input v b) =
    Some ((urlbar_input v b)\<lparr>br_selected := Some (if br_suggestions b = [] then 0 else arrow_row ks (length (br_suggestions b)))\<rparr>)"
  using assms
proof (induction ks rule: rev_induct)
  case Nil
  then show ?case by (simp add: press_keys_def arrow_row_def urlbar_input_def)
next
  case (snoc k ks)
  then have IH: "press_keys u ks (urlbar_input v b) = Some ((urlbar_input v b)\<lparr>br_selected :=
      Some (if br_suggestions b = [] then 0 else arrow_row ks (length (br_suggestions b)))\<rparr>)" by simp
  have "press_keys u (ks @ [k]) (urlbar_input v b) = Option.bind (press_keys u ks (urlbar_input v b)) (urlbar_key u k)"
    by (simp add: press_keys_def)
  also have "\<dots> = urlbar_key u k ((urlbar_input v b)\<lparr>br_selected :=
      Some (if br_suggestions b = [] then 0 else arrow_row ks (length (br_suggestions b)))\<rparr>)" unfolding IH by simp
  finally show ?case using snoc.prems
    by (auto simp: urlbar_key_def move_selection_down_def move_selection_up_def Let_def urlbar_input_def arrow_row_snoc)
qed

text \<open>C31. Enter in the address bar.  After typing a text and pressing the arrow keys in any order, the
  selected row is that of the number of steps down less the steps up, counted around the list, and
  starting from the first; Enter then navigates the active tab, and no other, to the address of the
  history row selected there, or else (another row, or no suggestions) to what the text as typed
  stands for, drops the pages ahead in its history, and leaves the address bar with no row
  selected.\<close>
theorem urlbar_enter:
  assumes "url_lib_ok u" and "active_tab b = Some t" and "nav_good (tab_history t)"
    and "set ks \<subseteq> {KeyArrowDown, KeyArrowUp}" and "is_enter_key k"
    and "kind = (if br_suggestions b = [] then Literal else sg_kind (br_suggestions b ! arrow_row ks (length (br_suggestions b))))"
  shows "\<exists>r b'. Some (Some r) = (case kind of HistoryRow e \<Rightarrow> Some (Some (request_get (entry_url e))) | _ \<Rightarrow> req_from_string u v)
    \<and> press_keys u (ks @ [k]) (urlbar_input v b) = Some b'
    \<and> active_tab b' = Some (t\<lparr>tab_history := nav_navigate r (tab_history t)\<rparr>)
    \<and> nav_current_url (nav_navigate r (tab_history t)) = Some r
    \<and> filter (\<lambda>t. tab_id t \<noteq> br_active b) (br_tabs b') = filter (\<lambda>t. tab_id t \<noteq> br_active b) (br_tabs b)
    \<and> br_active b' = br_active b \<and> \<not> br_focused b' \<and> br_selected b' = None"
proof -
  let ?n = "length (br_suggestions b)"
  define row where "row = (if br_suggestions b = [] then 0 else arrow_row ks ?n)"
  let ?b = "(urlbar_input v b)\<lparr>br_selected := Some row\<rparr>"
  have lt: "br_suggestions b \<noteq> [] \<Longrightarrow> row < ?n" by (simp add: row_def arrow_row_def nat_less_iff)
  obtain r where r: "(case kind of HistoryRow e \<Rightarrow> Some (Some (request_get (entry_url e))) | _ \<Rightarrow> req_from_string u v) = Some (Some r)"
    using req_from_string_total [OF assms(1), of v] by (cases kind) auto
  have "press_keys u (ks @ [k]) (urlbar_input v b) = Option.bind (press_keys u ks (urlbar_input v b)) (urlbar_key u k)"
    by (simp add: press_keys_def)
  also have "\<dots> = urlbar_key u k ?b" using press_arrows [OF assms(4)] by (simp add: row_def)
  also have "\<dots> = submit_urlbar u ?b" using assms(5) by (auto simp: urlbar_key_def is_enter_key_def)
  also have "\<dots> = navigate_from_urlbar r ?b"
  proof (cases "br_suggestions b = []")
    case True
    then show ?thesis using r assms(6) by (simp add: submit_urlbar_def navigate_or_blur_def urlbar_input_def)
  next
    case False
    then have k: "sg_kind (br_suggestions b ! row) = kind" using assms(6) by (simp add: row_def)
    have v: "br_input ?b = v" by (simp add: urlbar_input_def)
    have "on_pick u (br_suggestions b ! row) ?b = navigate_or_blur (Some r) ?b"
      unfolding on_pick_def k v r by simp
    then show ?thesis using lt [OF False] by (simp add: submit_urlbar_def navigate_or_blur_def urlbar_input_def)
  qed
  finally have e: "press_keys u (ks @ [k]) (urlbar_input v b) = navigate_from_urlbar r ?b" .
  let ?b1 = "blur_urlbar ?b"
  have f: "br_tabs ?b1 = br_tabs b" "br_active ?b1 = br_active b" "\<not> br_focused ?b1" "br_selected ?b1 = None"
    by (simp_all add: blur_urlbar_def urlbar_input_def Let_def call_out_def)
  have a: "active_tab ?b1 = Some t" using assms(2) f by (simp add: active_tab_def find_tab_def)
  define b2 where "b2 = (case tab_node t of Some n \<Rightarrow> call_out (ClearDocumentFocus n) ?b1 | None \<Rightarrow> ?b1)"
  have g: "br_tabs b2 = br_tabs b" "br_active b2 = br_active b" "\<not> br_focused b2" "br_selected b2 = None"
    using f by (simp_all add: b2_def call_out_def split: option.split)
  have c: "clear_document_focus ?b1 = Some b2" using a by (simp add: clear_document_focus_def b2_def)
  have a2: "active_tab b2 = Some t" using assms(2) g by (simp add: active_tab_def find_tab_def)
  have i: "tab_id t = br_active b" using assms(2) by (auto simp: active_tab_def find_tab_def find_Some_iff)
  let ?f = "\<lambda>t. t\<lparr>tab_history := nav_navigate r (tab_history t)\<rparr>"
  have up: "find (\<lambda>t. tab_id t = j) ts = Some t \<Longrightarrow> find (\<lambda>t. tab_id t = j) (update_tab j ?f ts) = Some (?f t)
      \<and> filter (\<lambda>t. tab_id t \<noteq> j) (update_tab j ?f ts) = filter (\<lambda>t. tab_id t \<noteq> j) ts" for j ts
    by (induction ts) (auto split: if_splits)
  have "navigate_from_urlbar r ?b = Some (tab_navigate (tab_id t) r b2)" by (simp add: navigate_from_urlbar_def c a2)
  then show ?thesis using e r up [of "br_active b" "br_tabs b"] assms(2) g i nav.shown_visit [OF assms(3), of r]
    by (intro exI [of _ r] exI [of _ "tab_navigate (tab_id t) r b2"])
      (simp add: tab_navigate_def with_tab_def active_tab_def find_tab_def)
qed

definition ex_tab :: tab where
  "ex_tab = \<lparr> tab_id = 0, tab_history = nav_new (request_get ''about:newtab''), tab_loader = Some loader_new, tab_document = None,
     tab_node = Some 5, tab_html = [], tab_title = [], tab_favicon = None \<rparr>"

definition ex_browser :: browser where
  "ex_browser = \<lparr> br_tabs = [ex_tab], br_active = 0, br_tab_counter = 1, br_entry_counter = 0, br_signals = 0, br_aborted = {},
     br_home = ''about:newtab'', br_input = [], br_input_mounted = True, br_focused = True, br_block_mouse_up = False,
     br_selected = None,
     br_suggestions = assemble_suggestions ''ne'' [ex_entry ''https://rust.org'' ''new'', ex_entry ''https://nest.com'' ''Nest''],
     br_menu = False, br_fps = False, br_incremental = True, br_shortcut = False,
     br_history = history_empty, br_favicons = Map.empty, br_calls = [] \<rparr>"

text \<open>Up twice from the first of four rows is the second history row.\<close>
theorem urlbar_enter_witness:
  "\<exists>b'. press_keys ex_url_lib ([KeyArrowUp, KeyArrowUp] @ [KeyEnter]) (urlbar_input ''ne'' ex_browser) = Some b'
     \<and> Option.bind (active_tab b') tab_url = Some ''https://nest.com''"
proof -
  have a: "active_tab ex_browser = Some ex_tab" by (simp add: ex_browser_def active_tab_def find_tab_def ex_tab_def)
  have g: "nav_good (tab_history ex_tab)" by (simp add: ex_tab_def)
  have k: "HistoryRow (ex_entry ''https://nest.com'' ''Nest'') = (if br_suggestions ex_browser = [] then Literal
      else sg_kind (br_suggestions ex_browser ! arrow_row [KeyArrowUp, KeyArrowUp] (length (br_suggestions ex_browser))))"
    by (simp add: ex_browser_def assemble_suggestions_def arrow_row_def history_suggestion_def)
  obtain r b' where r: "Some (Some r) = Some (Some (request_get (entry_url (ex_entry ''https://nest.com'' ''Nest''))))"
    "press_keys ex_url_lib ([KeyArrowUp, KeyArrowUp] @ [KeyEnter]) (urlbar_input ''ne'' ex_browser) = Some b'"
    "active_tab b' = Some (ex_tab\<lparr>tab_history := nav_navigate r (tab_history ex_tab)\<rparr>)"
    "nav_current_url (nav_navigate r (tab_history ex_tab)) = Some r"
    using urlbar_enter [OF ex_url_lib_ok a g _ _ k, where k = KeyEnter and v = "''ne''"]
    by (simp add: is_enter_key_def) blast
  have "req_url r = ''https://nest.com''" using r(1) by (simp add: request_get_def ex_entry_def)
  then show ?thesis using r(2-4) by (intro exI [of _ b']) (simp add: tab_url_def)
qed

end
