(* ===== verification/Script_Timers.thy ===== *)
theory Script_Timers
  imports Prelude "HOL-Library.Multiset" "HOL-Library.Product_Lexorder"
begin

text \<open>
  The queue of script timers (\<open>strake-vibey-script/src/timers.rs\<close>).  Times and durations are in
  nanoseconds; \<open>'c\<close> is a callable object of the script engine, \<open>'v\<close> a value of it.
\<close>

section \<open>The queue\<close>

record ('c, 'v) timer =
  tm_id :: u64
  tm_deadline :: nat
  tm_interval :: "nat option"
  tm_callback :: 'c
  tm_args :: "'v list"
  tm_nesting :: u32

definition NESTING_CLAMP_LEVEL :: u32 where "NESTING_CLAMP_LEVEL = 5"
definition NESTING_CLAMP_DELAY :: nat where "NESTING_CLAMP_DELAY = 4 * 1000000"

definition clamp_delay :: "u32 \<Rightarrow> nat \<Rightarrow> nat" where
  "clamp_delay nesting delay = (if nesting > NESTING_CLAMP_LEVEL then max delay NESTING_CLAMP_DELAY else delay)"

record ('c, 'v) timer_queue =
  tq_next :: u64
  tq_timers :: "('c, 'v) timer list"
  tq_cancelled :: "u64 set"

definition timer_queue_new :: "('c, 'v) timer_queue" where
  "timer_queue_new = \<lparr> tq_next = 0, tq_timers = [], tq_cancelled = {} \<rparr>"

definition timer_add ::
    "nat \<Rightarrow> nat \<Rightarrow> nat option \<Rightarrow> 'c \<Rightarrow> 'v list \<Rightarrow> u32 \<Rightarrow> ('c, 'v) timer_queue \<Rightarrow> u64 \<times> ('c, 'v) timer_queue" where
  "timer_add now delay interval callback args nesting q =
    (let i = tq_next q + 1;
         t = \<lparr> tm_id = i, tm_deadline = now + delay, tm_interval = interval, tm_callback = callback, tm_args = args,
               tm_nesting = nesting \<rparr>
     in (i, q\<lparr>tq_next := i, tq_timers := tq_timers q @ [t]\<rparr>))"

definition timer_remove :: "u64 \<Rightarrow> ('c, 'v) timer_queue \<Rightarrow> ('c, 'v) timer_queue" where
  "timer_remove i q = q\<lparr>tq_timers := filter (\<lambda>t. tm_id t \<noteq> i) (tq_timers q), tq_cancelled := insert i (tq_cancelled q)\<rparr>"

definition take_cancelled :: "u64 \<Rightarrow> ('c, 'v) timer_queue \<Rightarrow> bool \<times> ('c, 'v) timer_queue" where
  "take_cancelled i q = (i \<in> tq_cancelled q, q\<lparr>tq_cancelled := tq_cancelled q - {i}\<rparr>)"

definition next_deadline :: "('c, 'v) timer_queue \<Rightarrow> nat option" where
  "next_deadline q = (if tq_timers q = [] then None else Some (fold min (map tm_deadline (tl (tq_timers q))) (tm_deadline (hd (tq_timers q)))))"

text \<open>\<open>Vec::swap_remove\<close>: the last element takes the place of the removed one.\<close>
definition swap_remove :: "nat \<Rightarrow> 'a list \<Rightarrow> 'a list" where
  "swap_remove i xs = (if i = length xs - 1 then butlast xs else (butlast xs)[i := last xs])"

lemma length_swap_remove: "i < length xs \<Longrightarrow> length (swap_remove i xs) = length xs - 1"
  by (simp add: swap_remove_def)

text \<open>The loop of \<open>take_due\<close>: the timers due, in the order they are found, and the rest.\<close>
function split_due :: "nat \<Rightarrow> nat \<Rightarrow> ('c, 'v) timer list \<Rightarrow> ('c, 'v) timer list \<times> ('c, 'v) timer list" where
  "split_due now idx ts =
    (if idx < length ts then
       if tm_deadline (ts ! idx) \<le> now
       then (let (due, rest) = split_due now idx (swap_remove idx ts) in (ts ! idx # due, rest))
       else split_due now (idx + 1) ts
     else ([], ts))"
  by auto
termination
  by (relation "measure (\<lambda>(now, idx, ts). length ts - idx)") (auto simp: length_swap_remove)

declare split_due.simps [simp del]

definition rescheduled :: "nat \<Rightarrow> ('c, 'v) timer \<Rightarrow> ('c, 'v) timer list" where
  "rescheduled now t = (case tm_interval t of None \<Rightarrow> [] | Some iv \<Rightarrow> [t\<lparr>tm_deadline := now + max iv 1000000\<rparr>])"

definition due_key :: "('c, 'v) timer \<Rightarrow> nat \<times> u64" where
  "due_key t = (tm_deadline t, tm_id t)"

definition take_due :: "nat \<Rightarrow> ('c, 'v) timer_queue \<Rightarrow> ('c, 'v) timer list \<times> ('c, 'v) timer_queue" where
  "take_due now q =
    (let (due, rest) = split_due now 0 (tq_timers q);
         ts = rest @ concat (map (rescheduled now) due);
         marks = Set.filter (\<lambda>i. \<exists>t\<in>set ts. tm_id t = i) (tq_cancelled q)
     in (sort_key due_key due, q\<lparr>tq_timers := ts, tq_cancelled := marks\<rparr>))"

section \<open>What is due\<close>

lemma mset_swap_remove: "i < length xs \<Longrightarrow> add_mset (xs ! i) (mset (swap_remove i xs)) = mset xs"
proof -
  assume i: "i < length xs"
  then obtain ys y where xs: "xs = ys @ [y]" by (cases xs rule: rev_cases) auto
  show ?thesis
  proof (cases "i = length ys")
    case False
    then have k: "i < length ys" using i xs by simp
    then have "mset (ys[i := y]) = add_mset y (mset ys - {#ys ! i#})" by (rule mset_update)
    moreover have "add_mset (ys ! i) (mset ys - {#ys ! i#}) = mset ys" using k by simp
    ultimately show ?thesis using k by (simp add: swap_remove_def xs nth_append add_mset_commute)
  qed (simp add: swap_remove_def xs nth_append)
qed

lemma take_swap_remove: "i < length xs \<Longrightarrow> take i (swap_remove i xs) = take i xs"
  by (auto simp: swap_remove_def take_butlast butlast_conv_take)

lemma split_due_mset:
  "\<forall>t\<in>set (take idx ts). \<not> tm_deadline t \<le> now \<Longrightarrow> split_due now idx ts = (due, rest) \<Longrightarrow>
    mset due = filter_mset (\<lambda>t. tm_deadline t \<le> now) (mset ts) \<and> mset rest = filter_mset (\<lambda>t. \<not> tm_deadline t \<le> now) (mset ts)"
proof (induction now idx ts arbitrary: due rest rule: split_due.induct)
  case (1 now idx ts)
  show ?case
  proof (cases "idx < length ts")
    case False
    then have "due = []" "rest = ts" "\<forall>t\<in>set ts. \<not> tm_deadline t \<le> now"
      using "1.prems" by (simp_all add: split_due.simps [of now idx ts])
    then show ?thesis by (simp flip: mset_filter)
  next
    case True
    show ?thesis
    proof (cases "tm_deadline (ts ! idx) \<le> now")
      case le: True
      obtain due' where r: "split_due now idx (swap_remove idx ts) = (due', rest)" "due = ts ! idx # due'"
        using "1.prems"(2) True le by (auto simp: split_due.simps [of now idx ts] split: prod.splits)
      have "mset due' = filter_mset (\<lambda>t. tm_deadline t \<le> now) (mset (swap_remove idx ts))
          \<and> mset rest = filter_mset (\<lambda>t. \<not> tm_deadline t \<le> now) (mset (swap_remove idx ts))"
        by (rule "1.IH"(1) [OF True le _ r(1)]) (use "1.prems"(1) take_swap_remove [OF True] in simp)
      moreover note mset_swap_remove [OF True, symmetric]
      ultimately show ?thesis using le r(2) by simp
    next
      case False
      have "\<forall>t\<in>set (take (idx + 1) ts). \<not> tm_deadline t \<le> now"
        using "1.prems"(1) True False by (auto simp: take_Suc_conv_app_nth)
      then show ?thesis using "1.IH"(2) [OF True False] "1.prems"(2) True False
        by (simp add: split_due.simps [of now idx ts])
    qed
  qed
qed

text \<open>The ids of the queue are different from each other and were handed out.\<close>
definition timer_ids :: "('c, 'v) timer_queue \<Rightarrow> u64 list" where
  "timer_ids q = map tm_id (tq_timers q)"

definition queue_ok :: "nat \<Rightarrow> ('c, 'v) timer_queue \<Rightarrow> bool" where
  "queue_ok n q \<longleftrightarrow> tq_next q = word_of_nat n \<and> distinct (timer_ids q) \<and> (\<forall>i\<in>set (timer_ids q). 0 < unat i \<and> unat i \<le> n)"

lemma queue_ok_new: "queue_ok 0 timer_queue_new"
  by (simp add: queue_ok_def timer_queue_new_def timer_ids_def)

lemma queue_ok_add:
  assumes "queue_ok n q" "n + 1 < 2 ^ 64" "timer_add now delay iv c args nest q = (i, q1)"
  shows "queue_ok (n + 1) q1" "i = word_of_nat (n + 1)" "timer_ids q1 = timer_ids q @ [i]" "i \<notin> set (timer_ids q)"
    "tq_cancelled q1 = tq_cancelled q" "unat i = n + 1"
proof -
  have r: "i = word_of_nat (n + 1)" "tq_next q1 = i" "timer_ids q1 = timer_ids q @ [i]" "tq_cancelled q1 = tq_cancelled q"
    using assms(1,3) by (auto simp: queue_ok_def timer_add_def Let_def timer_ids_def)
  have u: "unat i = n + 1" unfolding r(1) using assms(2) by (simp add: unat_of_nat del: of_nat_Suc of_nat_add)
  then have "i \<notin> set (timer_ids q)" using assms(1) by (auto simp: queue_ok_def)
  then show "queue_ok (n + 1) q1" "i = word_of_nat (n + 1)" "timer_ids q1 = timer_ids q @ [i]" "i \<notin> set (timer_ids q)"
    "tq_cancelled q1 = tq_cancelled q" "unat i = n + 1"
    using assms(1) r u by (auto simp: queue_ok_def)
qed

lemma queue_ok_remove:
  assumes "queue_ok n q" shows "queue_ok n (timer_remove i q)" "set (timer_ids (timer_remove i q)) = set (timer_ids q) - {i}"
proof -
  have e: "timer_ids (timer_remove i q) = filter (\<lambda>j. j \<noteq> i) (timer_ids q)"
    by (simp add: timer_ids_def timer_remove_def filter_map comp_def)
  show "queue_ok n (timer_remove i q)" using assms by (simp add: queue_ok_def e) (simp add: timer_remove_def)
  show "set (timer_ids (timer_remove i q)) = set (timer_ids q) - {i}" by (auto simp: e)
qed

lemma rescheduled_ids: "map tm_id (concat (map (rescheduled now) ts)) = map tm_id (filter (\<lambda>t. tm_interval t \<noteq> None) ts)"
  by (induction ts) (auto simp: rescheduled_def split: option.split)

lemma take_due_facts:
  assumes q: "queue_ok n q" and t: "take_due now q = (due, q1)"
  shows "queue_ok n q1" and "mset due = filter_mset (\<lambda>t. tm_deadline t \<le> now) (mset (tq_timers q))"
    and "distinct (map tm_id due)" and "sorted (map due_key due)"
    and "set (timer_ids q1) \<subseteq> set (timer_ids q)" and "tq_cancelled q1 = tq_cancelled q \<inter> set (timer_ids q1)"
    and "mset (tq_timers q1) = filter_mset (\<lambda>t. \<not> tm_deadline t \<le> now) (mset (tq_timers q)) + mset (concat (map (rescheduled now) due))"
proof -
  obtain found rest where s: "split_due now 0 (tq_timers q) = (found, rest)" by fastforce
  note m = split_due_mset [OF _ s, simplified]
  have t1: "due = sort_key due_key found" "q1 = q\<lparr>tq_timers := rest @ concat (map (rescheduled now) found),
      tq_cancelled := Set.filter (\<lambda>i. \<exists>t\<in>set (rest @ concat (map (rescheduled now) found)). tm_id t = i) (tq_cancelled q)\<rparr>"
    using t unfolding take_due_def s Let_def prod.case prod.inject by (simp_all only: eq_commute)
  have e: "due = sort_key due_key found" "tq_timers q1 = rest @ concat (map (rescheduled now) found)"
    "tq_cancelled q1 = Set.filter (\<lambda>i. \<exists>t\<in>set (tq_timers q1). tm_id t = i) (tq_cancelled q)" "tq_next q1 = tq_next q"
    using t1(1) by (simp_all add: t1(2))
  show md: "mset due = filter_mset (\<lambda>t. tm_deadline t \<le> now) (mset (tq_timers q))" using m by (simp add: e(1))
  show "sorted (map due_key due)" by (simp add: e(1))
  have dist: "distinct (map tm_id (tq_timers q))" using q by (simp add: queue_ok_def timer_ids_def)
  have split: "mset (tq_timers q) = mset (found @ rest)" using m by (simp add: multiset_partition [of "mset (tq_timers q)"])
  then have d: "distinct (map tm_id (found @ rest))"
    using dist by (metis mset_map mset_eq_imp_distinct_iff)
  have "mset (map tm_id due) = mset (map tm_id found)" using md m by (simp only: mset_map)
  then show "distinct (map tm_id due)" using d mset_eq_imp_distinct_iff by fastforce
  have "distinct (map tm_id (filter P found))" for P using d by (simp add: distinct_map_filter)
  moreover have "set (map tm_id (filter P found)) \<inter> set (map tm_id rest) = {}" for P using d by fastforce
  ultimately have "distinct (timer_ids q1)"
    unfolding timer_ids_def e(2) map_append rescheduled_ids distinct_append using d by (simp add: Int_commute)
  moreover have sub: "set (timer_ids q1) \<subseteq> set (timer_ids q)"
    unfolding timer_ids_def e(2) map_append rescheduled_ids using arg_cong [OF split, of set_mset] by auto
  ultimately show "queue_ok n q1" using q e(4) by (auto simp: queue_ok_def)
  show "set (timer_ids q1) \<subseteq> set (timer_ids q)" by (rule sub)
  show "tq_cancelled q1 = tq_cancelled q \<inter> set (timer_ids q1)" by (auto simp: e(3) timer_ids_def)
  have "mset (concat (map (rescheduled now) found)) = mset (concat (map (rescheduled now) due))"
    by (simp add: mset_concat e(1) flip: sum_mset_sum_list)
  then show "mset (tq_timers q1) = filter_mset (\<lambda>t. \<not> tm_deadline t \<le> now) (mset (tq_timers q)) + mset (concat (map (rescheduled now) due))"
    using m by (simp add: e(2))
qed

end
