(* ===== verification/Script_Tasks.thy ===== *)
theory Script_Tasks
  imports Script_Timers
begin

text \<open>
  The tasks of a script document: the timer functions of a page and the loop that runs due
  timers (\<open>strake-vibey-script/src/runtime.rs\<close>), the clock (\<open>clock.rs\<close>) and the kept errors
  (\<open>state.rs\<close>).

  The script engine is a parameter.  What a script does is a tree: it ends, in a world \<open>'w\<close> of the
  engine, or throws, or calls a timer function and goes on with the number that is returned.
  A step also gives the timers that were scheduled, cleared and fired, in order.  \<open>None\<close> is a
  panic.
\<close>

section \<open>State\<close>

datatype script_clock = Real | Virtual nat

record ('c, 'v, 'w) script_rt =
  rt_timers :: "('c, 'v) timer_queue"
  rt_nesting :: "u32 option"
  rt_clock :: script_clock
  rt_reads :: nat
  rt_errors :: "string list"
  rt_world :: 'w

definition MAX_STORED_ERRORS :: nat where "MAX_STORED_ERRORS = 256"

definition push_error :: "string \<Rightarrow> string list \<Rightarrow> string list" where
  "push_error msg errors =
    (if length errors < MAX_STORED_ERRORS then errors @ [msg]
     else if length errors = MAX_STORED_ERRORS then errors @ [''(further errors suppressed)'']
     else errors)"

definition record_error :: "string \<Rightarrow> ('c, 'v, 'w) script_rt \<Rightarrow> ('c, 'v, 'w) script_rt" where
  "record_error msg st = st\<lparr>rt_errors := push_error msg (rt_errors st)\<rparr>"

lemma push_error_bound: "length errors \<le> MAX_STORED_ERRORS + 1 \<Longrightarrow> length (push_error msg errors) \<le> MAX_STORED_ERRORS + 1"
  by (auto simp: push_error_def)

definition take_js_errors :: "('c, 'v, 'w) script_rt \<Rightarrow> string list \<times> ('c, 'v, 'w) script_rt" where
  "take_js_errors st = (rt_errors st, st\<lparr>rt_errors := []\<rparr>)"

definition report_js_error :: "string \<Rightarrow> string option \<Rightarrow> ('c, 'v, 'w) script_rt \<Rightarrow> ('c, 'v, 'w) script_rt" where
  "report_js_error what e st = (case e of None \<Rightarrow> st
     | Some msg \<Rightarrow> record_error (''Uncaught JS error in '' @ what @ '': '' @ msg) st)"

text \<open>The clock; \<open>tick n\<close> is the \<open>n\<close>-th reading of the clock of the system.\<close>
definition clock_now :: "(nat \<Rightarrow> nat) \<Rightarrow> ('c, 'v, 'w) script_rt \<Rightarrow> nat \<times> ('c, 'v, 'w) script_rt" where
  "clock_now tick st = (case rt_clock st of
      Real \<Rightarrow> (tick (rt_reads st), st\<lparr>rt_reads := rt_reads st + 1\<rparr>)
    | Virtual now \<Rightarrow> (now, st))"

definition make_virtual :: "(nat \<Rightarrow> nat) \<Rightarrow> ('c, 'v, 'w) script_rt \<Rightarrow> ('c, 'v, 'w) script_rt" where
  "make_virtual tick st = (case rt_clock st of
      Real \<Rightarrow> (let (now, st1) = clock_now tick st in st1\<lparr>rt_clock := Virtual now\<rparr>)
    | Virtual _ \<Rightarrow> st)"

definition advance_to :: "nat \<Rightarrow> ('c, 'v, 'w) script_rt \<Rightarrow> ('c, 'v, 'w) script_rt" where
  "advance_to deadline st = (case rt_clock st of Real \<Rightarrow> st | Virtual now \<Rightarrow> st\<lparr>rt_clock := Virtual (max now deadline)\<rparr>)"

section \<open>The timer functions of a page\<close>

text \<open>A callback that is not callable is \<open>None\<close>, and so is a missing number.\<close>
datatype ('c, 'v) js_call = SetTimeout "'c option" "f64 option" "'v list" | SetInterval "'c option" "f64 option" "'v list"
  | RequestFrame "'c option" 'v | ClearTimer "f64 option"

datatype ('c, 'v, 'w) js = Return 'w | Throw string 'w | JsCall "('c, 'v) js_call" "u64 \<Rightarrow> ('c, 'v, 'w) js"

text \<open>The engine: calling a callback, running the queued promise jobs; and what is needed of the
  floats: a finite positive number, the duration of that many milliseconds (a panic when it
  does not fit), a finite number that is not negative as an id.\<close>
record ('c, 'v, 'w) script_env =
  sc_call :: "'c \<Rightarrow> 'v list \<Rightarrow> 'w \<Rightarrow> ('c, 'v, 'w) js"
  sc_jobs :: "'w \<Rightarrow> ('c, 'v, 'w) js"
  sc_positive :: "f64 \<Rightarrow> bool"
  sc_millis :: "f64 \<Rightarrow> nat may_panic"
  sc_timer_id :: "f64 \<Rightarrow> u64 option"
  sc_tick :: "nat \<Rightarrow> nat"

datatype timer_event = Scheduled u64 | Cleared u64 | Fired u64

definition timer_delay :: "('c, 'v, 'w) script_env \<Rightarrow> f64 option \<Rightarrow> nat may_panic" where
  "timer_delay env d = (case d of None \<Rightarrow> Some 0 | Some x \<Rightarrow> if sc_positive env x then sc_millis env x else Some 0)"

definition task_nesting :: "('c, 'v, 'w) script_rt \<Rightarrow> u32" where
  "task_nesting st = (case rt_nesting st of None \<Rightarrow> 0 | Some level \<Rightarrow> level + 1)"

definition add_timer ::
    "('c, 'v, 'w) script_env \<Rightarrow> nat \<Rightarrow> nat option \<Rightarrow> 'c \<Rightarrow> 'v list \<Rightarrow> u32 \<Rightarrow> ('c, 'v, 'w) script_rt
     \<Rightarrow> u64 \<times> ('c, 'v, 'w) script_rt \<times> timer_event list" where
  "add_timer env delay interval cb args nesting st =
    (let (now, st1) = clock_now (sc_tick env) st;
         (i, q) = timer_add now delay interval cb args nesting (rt_timers st1)
     in (i, st1\<lparr>rt_timers := q\<rparr>, [Scheduled i]))"

text \<open>\<open>setTimeout\<close> and \<open>setInterval\<close>.\<close>
definition schedule ::
    "('c, 'v, 'w) script_env \<Rightarrow> bool \<Rightarrow> 'c option \<Rightarrow> f64 option \<Rightarrow> 'v list \<Rightarrow> ('c, 'v, 'w) script_rt
     \<Rightarrow> (u64 \<times> ('c, 'v, 'w) script_rt \<times> timer_event list) may_panic" where
  "schedule env repeats callback delay args st = (case callback of
      None \<Rightarrow> Some (0, st, [])
    | Some cb \<Rightarrow> do {
        ms \<leftarrow> timer_delay env delay;
        let nesting = task_nesting st;
        let d = clamp_delay nesting ms;
        Some (add_timer env d (if repeats then Some d else None) cb args nesting st)
      })"

definition js_api ::
    "('c, 'v, 'w) script_env \<Rightarrow> ('c, 'v) js_call \<Rightarrow> ('c, 'v, 'w) script_rt
     \<Rightarrow> (u64 \<times> ('c, 'v, 'w) script_rt \<times> timer_event list) may_panic" where
  "js_api env call st = (case call of
      SetTimeout callback delay args \<Rightarrow> schedule env False callback delay args st
    | SetInterval callback delay args \<Rightarrow> schedule env True callback delay args st
    | RequestFrame callback timestamp \<Rightarrow> (case callback of
          None \<Rightarrow> Some (0, st, [])
        | Some cb \<Rightarrow> Some (add_timer env (16 * 1000000) None cb [timestamp] 0 st))
    | ClearTimer i \<Rightarrow> (case Option.bind i (sc_timer_id env) of
          None \<Rightarrow> Some (0, st, [])
        | Some j \<Rightarrow> Some (0, st\<lparr>rt_timers := timer_remove j (rt_timers st)\<rparr>, [Cleared j])))"

primrec exec_js ::
    "('c, 'v, 'w) script_env \<Rightarrow> ('c, 'v, 'w) js \<Rightarrow> ('c, 'v, 'w) script_rt
     \<Rightarrow> (('c, 'v, 'w) script_rt \<times> string option \<times> timer_event list) may_panic" where
  "exec_js env (Return w) = (\<lambda>st. Some (st\<lparr>rt_world := w\<rparr>, None, []))"
| "exec_js env (Throw e w) = (\<lambda>st. Some (st\<lparr>rt_world := w\<rparr>, Some e, []))"
| "exec_js env (JsCall c k) = (\<lambda>st. case js_api env c st of None \<Rightarrow> None
     | Some (i, st1, tr) \<Rightarrow> map_option (\<lambda>(st2, e, tr2). (st2, e, tr @ tr2)) (exec_js env (k i) st1))"

section \<open>Tasks\<close>

definition run_jobs ::
    "('c, 'v, 'w) script_env \<Rightarrow> string \<Rightarrow> ('c, 'v, 'w) script_rt \<Rightarrow> (('c, 'v, 'w) script_rt \<times> timer_event list) may_panic" where
  "run_jobs env description st =
    map_option (\<lambda>(st1, e, tr). (report_js_error description e st1, tr)) (exec_js env (sc_jobs env (rt_world st)) st)"

definition eval_script ::
    "('c, 'v, 'w) script_env \<Rightarrow> ('c, 'v, 'w) js \<Rightarrow> string \<Rightarrow> ('c, 'v, 'w) script_rt
     \<Rightarrow> (('c, 'v, 'w) script_rt \<times> timer_event list) may_panic" where
  "eval_script env code description st = do {
     (st1, e, tr) \<leftarrow> exec_js env code st;
     (st2, tr2) \<leftarrow> run_jobs env description (report_js_error description e st1);
     Some (st2, tr @ tr2)
   }"

text \<open>One timer of the batch.\<close>
definition fire_timer ::
    "('c, 'v, 'w) script_env \<Rightarrow> ('c, 'v) timer \<Rightarrow> ('c, 'v, 'w) script_rt
     \<Rightarrow> (('c, 'v, 'w) script_rt \<times> timer_event list) may_panic" where
  "fire_timer env t st =
    (let (is_cancelled, q) = take_cancelled (tm_id t) (rt_timers st);
         st1 = st\<lparr>rt_timers := q\<rparr>
     in if is_cancelled then Some (st1, [])
        else do {
          let st2 = st1\<lparr>rt_nesting := Some (tm_nesting t)\<rparr>;
          (st3, e, tr) \<leftarrow> exec_js env (sc_call env (tm_callback t) (tm_args t) (rt_world st2)) st2;
          let st4 = report_js_error ''timer callback'' e st3;
          (st5, tr2) \<leftarrow> run_jobs env ''timer microtasks'' (st4\<lparr>rt_nesting := None\<rparr>);
          Some (st5, Fired (tm_id t) # tr @ tr2)
        })"

fun fire_batch ::
    "('c, 'v, 'w) script_env \<Rightarrow> ('c, 'v) timer list \<Rightarrow> ('c, 'v, 'w) script_rt
     \<Rightarrow> (('c, 'v, 'w) script_rt \<times> timer_event list) may_panic" where
  "fire_batch env [] st = Some (st, [])"
| "fire_batch env (t # ts) st = do {
     (st1, tr) \<leftarrow> fire_timer env t st;
     (st2, tr2) \<leftarrow> fire_batch env ts st1;
     Some (st2, tr @ tr2)
   }"

definition run_due_timers ::
    "('c, 'v, 'w) script_env \<Rightarrow> ('c, 'v, 'w) script_rt \<Rightarrow> (bool \<times> ('c, 'v, 'w) script_rt \<times> timer_event list) may_panic" where
  "run_due_timers env st =
    (let (now, st1) = clock_now (sc_tick env) st;
         (due, q) = take_due now (rt_timers st1);
         st2 = st1\<lparr>rt_timers := q\<rparr>
     in if due = [] then Some (False, st2, [])
        else map_option (\<lambda>(st3, tr). (True, st3, tr)) (fire_batch env due st2))"

datatype ('c, 'v, 'w) script_op = Eval "('c, 'v, 'w) js" string | PollTimers | MakeVirtual | AdvanceClock nat | TakeErrors

fun script_step ::
    "('c, 'v, 'w) script_env \<Rightarrow> ('c, 'v, 'w) script_op \<Rightarrow> ('c, 'v, 'w) script_rt
     \<Rightarrow> (('c, 'v, 'w) script_rt \<times> timer_event list) may_panic" where
  "script_step env (Eval code description) st = eval_script env code description st"
| "script_step env PollTimers st = map_option snd (run_due_timers env st)"
| "script_step env MakeVirtual st = Some (make_virtual (sc_tick env) st, [])"
| "script_step env (AdvanceClock deadline) st = Some (advance_to deadline st, [])"
| "script_step env TakeErrors st = Some (snd (take_js_errors st), [])"

fun script_run ::
    "('c, 'v, 'w) script_env \<Rightarrow> ('c, 'v, 'w) script_op list \<Rightarrow> ('c, 'v, 'w) script_rt
     \<Rightarrow> (('c, 'v, 'w) script_rt \<times> timer_event list) may_panic" where
  "script_run env [] st = Some (st, [])"
| "script_run env (x # xs) st = do {
     (st1, tr) \<leftarrow> script_step env x st;
     (st2, tr2) \<leftarrow> script_run env xs st1;
     Some (st2, tr @ tr2)
   }"

definition script_rt_new :: "'w \<Rightarrow> ('c, 'v, 'w) script_rt" where
  "script_rt_new w = \<lparr> rt_timers = timer_queue_new, rt_nesting = None, rt_clock = Real, rt_reads = 0, rt_errors = [], rt_world = w \<rparr>"

end
