(* ===== verification/Script_Timer_Safety.thy ===== *)
theory Script_Timer_Safety
  imports Script_Tasks "HOL-Library.Sublist"
begin

text \<open>
  What pages can rely on of their timers: a cleared timer never fires again, and a poll fires
  the timers that are due, in the order of their deadlines.
\<close>

section \<open>Traces\<close>

fun fired_id :: "timer_event \<Rightarrow> u64 option" where
  "fired_id (Fired i) = Some i"
| "fired_id _ = None"

definition fired_ids :: "timer_event list \<Rightarrow> u64 list" where
  "fired_ids tr = List.map_filter fired_id tr"

definition scheduled_count :: "timer_event list \<Rightarrow> nat" where
  "scheduled_count tr = length (filter (\<lambda>e. case e of Scheduled _ \<Rightarrow> True | _ \<Rightarrow> False) tr)"

lemma trace_simps [simp]:
  "fired_ids [] = []" "fired_ids (xs @ ys) = fired_ids xs @ fired_ids ys" "fired_ids (Fired i # xs) = i # fired_ids xs"
  "fired_ids (Scheduled i # xs) = fired_ids xs" "fired_ids (Cleared i # xs) = fired_ids xs"
  "scheduled_count [] = 0" "scheduled_count (xs @ ys) = scheduled_count xs + scheduled_count ys"
  "scheduled_count (Fired i # xs) = scheduled_count xs" "scheduled_count (Scheduled i # xs) = Suc (scheduled_count xs)"
  "scheduled_count (Cleared i # xs) = scheduled_count xs"
  by (simp_all add: fired_ids_def scheduled_count_def map_filter_def)

lemma fired_ids_iff: "i \<in> set (fired_ids tr) \<longleftrightarrow> Fired i \<in> set tr"
proof (induction tr)
  case (Cons e tr) then show ?case by (cases e) auto
qed simp

text \<open>A monitor: the ids handed out, and of these the cleared ones, which must not fire.\<close>
fun monitor :: "timer_event list \<Rightarrow> u64 set \<times> u64 set \<Rightarrow> (u64 set \<times> u64 set) option" where
  "monitor [] s = Some s"
| "monitor (Scheduled i # tr) (K, D) = monitor tr (insert i K, D)"
| "monitor (Cleared i # tr) (K, D) = monitor tr (K, if i \<in> K then insert i D else D)"
| "monitor (Fired i # tr) (K, D) = (if i \<in> D then None else monitor tr (K, D))"

lemma monitor_append: "monitor (a @ b) s = Option.bind (monitor a s) (monitor b)"
  by (induction a s rule: monitor.induct) simp_all

lemma monitor_grows:
  "monitor tr (K, D) = Some (K', D') \<Longrightarrow> K \<subseteq> K' \<and> D \<subseteq> D' \<and> (\<forall>i. Scheduled i \<in> set tr \<longrightarrow> i \<in> K')
    \<and> (\<forall>i\<in>D. Fired i \<notin> set tr)"
proof (induction tr arbitrary: K D)
  case (Cons e tr)
  show ?case
  proof (cases e)
    case (Scheduled i) then show ?thesis using Cons.IH [of "insert i K" D] Cons.prems by auto
  next
    case (Cleared i)
    then show ?thesis using Cons.IH [of K "if i \<in> K then insert i D else D"] Cons.prems by (auto split: if_splits)
  next
    case (Fired i) then show ?thesis using Cons.IH [of K D] Cons.prems by (auto split: if_splits)
  qed
qed simp

lemma monitor_sound:
  assumes "monitor (a @ Cleared i # b) ({}, {}) = Some s" "Scheduled i \<in> set a"
  shows "Fired i \<notin> set b"
proof -
  obtain K D where a: "monitor a ({}, {}) = Some (K, D)" "monitor (Cleared i # b) (K, D) = Some s"
    using assms(1) by (auto simp: monitor_append bind_eq_Some_conv)
  then have "i \<in> K" using monitor_grows assms(2) by blast
  then have "monitor b (K, insert i D) = Some s" using a(2) by simp
  then show ?thesis using monitor_grows [of b K "insert i D"] by (cases s) blast
qed

section \<open>Cleared timers\<close>

text \<open>Between the timers of a batch (\<open>due\<close> are those still to come): a cleared timer is not queued,
  and if it is in the batch it is marked.\<close>
definition tasks_ok :: "nat \<Rightarrow> ('c, 'v) timer list \<Rightarrow> u64 set \<times> u64 set \<Rightarrow> ('c, 'v, 'w) script_rt \<Rightarrow> bool" where
  "tasks_ok n due s st \<longleftrightarrow> queue_ok n (rt_timers st) \<and> fst s = {i. 0 < unat i \<and> unat i \<le> n} \<and> snd s \<subseteq> fst s
     \<and> (\<forall>i\<in>snd s. i \<notin> set (timer_ids (rt_timers st)) \<and> (i \<in> tm_id ` set due \<longrightarrow> i \<in> tq_cancelled (rt_timers st)))"

definition steps_ok :: "nat \<Rightarrow> ('c, 'v) timer list \<Rightarrow> u64 set \<times> u64 set \<Rightarrow> timer_event list \<Rightarrow> ('c, 'v, 'w) script_rt \<Rightarrow> bool" where
  "steps_ok n due s tr st \<longleftrightarrow> (\<exists>s'. monitor tr s = Some s' \<and> tasks_ok (n + scheduled_count tr) due s' st)"

lemma steps_ok_nil: "tasks_ok n due s st \<Longrightarrow> steps_ok n due s [] st"
  by (simp add: steps_ok_def)

lemma steps_ok_append:
  assumes "monitor tr s = Some s'" "steps_ok (n + scheduled_count tr) due s' tr2 st"
  shows "steps_ok n due s (tr @ tr2) st"
  using assms by (auto simp: steps_ok_def monitor_append add.assoc)

lemma tasks_ok_timers: "rt_timers st1 = rt_timers st \<Longrightarrow> tasks_ok n due s st1 = tasks_ok n due s st"
  by (simp add: tasks_ok_def)

lemma report_timers [simp]: "rt_timers (report_js_error what e st) = rt_timers st"
  by (simp add: report_js_error_def record_error_def Let_def split: option.split)

lemma tasks_ok_frame [simp]:
  "tasks_ok n due s (st\<lparr>rt_world := w\<rparr>) = tasks_ok n due s st"
  "tasks_ok n due s (st\<lparr>rt_nesting := l\<rparr>) = tasks_ok n due s st"
  "tasks_ok n due s (st\<lparr>rt_timers := q, rt_nesting := l\<rparr>) = tasks_ok n due s (st\<lparr>rt_timers := q\<rparr>)"
  "tasks_ok n due s (report_js_error what e st) = tasks_ok n due s st"
  by (rule tasks_ok_timers, simp)+

lemma clock_timers: "clock_now tick st = (now, st1) \<Longrightarrow> rt_timers st1 = rt_timers st"
  by (auto simp: clock_now_def split: script_clock.splits)

lemma tasks_ok_schedule:
  assumes st: "tasks_ok n due s st" and n: "n + 1 < 2 ^ 64"
    and a: "timer_add now d iv cb args nest (rt_timers st) = (i, q)"
  shows "steps_ok n due s [Scheduled i] (st1\<lparr>rt_timers := q\<rparr>)"
proof -
  have q: "queue_ok n (rt_timers st)" using st by (simp add: tasks_ok_def)
  note f = queue_ok_add [OF q n a]
  have "{j. 0 < unat j \<and> unat j \<le> n + 1} = insert i {j. 0 < unat j \<and> unat j \<le> n}"
  proof -
    have "unat j = n + 1 \<longleftrightarrow> j = i" for j :: u64 using f(6) by (metis word_unat_eq_iff)
    moreover have "0 < unat i" using f(6) by simp
    ultimately show ?thesis by (auto simp: le_Suc_eq)
  qed
  moreover have "i \<notin> snd s" using st f(6) by (auto simp: tasks_ok_def)
  ultimately show ?thesis using st f by (cases s) (auto simp: steps_ok_def tasks_ok_def)
qed

lemma api_ok:
  assumes st: "tasks_ok n due s st" and r: "js_api env c st = Some (i, st1, tr)" and n: "n + scheduled_count tr < 2 ^ 64"
  shows "steps_ok n due s tr st1"
proof -
  have add: "steps_ok n due s tr st1" if "add_timer env d iv cb args nest st = (i, st1, tr)" for d iv cb args nest
  proof -
    obtain now st0 where c: "clock_now (sc_tick env) st = (now, st0)" by fastforce
    obtain j q where q: "timer_add now d iv cb args nest (rt_timers st) = (j, q)" by fastforce
    have a: "timer_add now d iv cb args nest (rt_timers st) = (i, q)" "st1 = st0\<lparr>rt_timers := q\<rparr>" "tr = [Scheduled i]"
      using that q unfolding add_timer_def c Let_def prod.case clock_timers [OF c] q by auto
    show ?thesis unfolding a(2,3) by (rule tasks_ok_schedule [OF st _ a(1)]) (use n a(3) in simp)
  qed
  show ?thesis
  proof (cases c)
    case (SetTimeout cb d args)
    then show ?thesis using r add steps_ok_nil [OF st]
      by (auto simp: js_api_def schedule_def bind_eq_Some_conv Let_def split: option.splits)
  next
    case (SetInterval cb d args)
    then show ?thesis using r add steps_ok_nil [OF st]
      by (auto simp: js_api_def schedule_def bind_eq_Some_conv Let_def split: option.splits)
  next
    case (RequestFrame cb ts)
    then show ?thesis using r add steps_ok_nil [OF st] by (auto simp: js_api_def split: option.splits)
  next
    case (ClearTimer t)
    show ?thesis
    proof (cases "Option.bind t (sc_timer_id env)")
      case None then show ?thesis using r ClearTimer steps_ok_nil [OF st] by (simp add: js_api_def)
    next
      case (Some j)
      then have e: "st1 = st\<lparr>rt_timers := timer_remove j (rt_timers st)\<rparr>" "tr = [Cleared j]"
        using r ClearTimer by (simp_all add: js_api_def)
      have q: "queue_ok n (rt_timers st)" using st by (simp add: tasks_ok_def)
      have "tq_cancelled (timer_remove j (rt_timers st)) = insert j (tq_cancelled (rt_timers st))" by (simp add: timer_remove_def)
      then show ?thesis using st queue_ok_remove [OF q, of j] unfolding e
        by (cases s) (auto simp: steps_ok_def tasks_ok_def)
    qed
  qed
qed

lemma exec_ok:
  "tasks_ok n due s st \<Longrightarrow> exec_js env code st = Some (st1, e, tr) \<Longrightarrow> n + scheduled_count tr < 2 ^ 64 \<Longrightarrow> steps_ok n due s tr st1"
proof (induction code arbitrary: n s st st1 e tr)
  case (JsCall c k)
  obtain i st2 tr1 where a: "js_api env c st = Some (i, st2, tr1)" using JsCall.prems(2) by (auto split: option.splits)
  obtain tr2 where k: "exec_js env (k i) st2 = Some (st1, e, tr2)" "tr = tr1 @ tr2" using JsCall.prems(2) by (auto simp: a)
  have "n + scheduled_count tr1 < 2 ^ 64" using JsCall.prems(3) k(2) by simp
  from api_ok [OF JsCall.prems(1) a this] obtain s1 where s1: "monitor tr1 s = Some s1" "tasks_ok (n + scheduled_count tr1) due s1 st2"
    by (auto simp: steps_ok_def)
  have "steps_ok (n + scheduled_count tr1) due s1 tr2 st1"
    by (rule JsCall.IH [OF _ s1(2) k(1)]) (use JsCall.prems(3) k(2) in simp_all)
  then show ?case unfolding k(2) by (rule steps_ok_append [OF s1(1)])
next
  case (Return w)
  have "tasks_ok n due s (st\<lparr>rt_world := w\<rparr>)" using Return.prems(1) by (simp only: tasks_ok_frame)
  then show ?case using Return.prems(2) by (auto intro: steps_ok_nil)
next
  case (Throw x w)
  have "tasks_ok n due s (st\<lparr>rt_world := w\<rparr>)" using Throw.prems(1) by (simp only: tasks_ok_frame)
  then show ?case using Throw.prems(2) by (auto intro: steps_ok_nil)
qed

lemma steps_ok_timers: "rt_timers st1 = rt_timers st \<Longrightarrow> steps_ok n due s tr st1 = steps_ok n due s tr st"
  by (simp add: steps_ok_def tasks_ok_timers [of st1 st])

lemma run_jobs_cases:
  assumes "run_jobs env what st = Some (st1, tr)"
  obtains st2 e where "exec_js env (sc_jobs env (rt_world st)) st = Some (st2, e, tr)" "st1 = report_js_error what e st2"
proof (cases "exec_js env (sc_jobs env (rt_world st)) st")
  case None then show ?thesis using assms by (simp add: run_jobs_def)
next
  case (Some z)
  obtain st2 e tr2 where "z = (st2, e, tr2)" by (cases z)
  then show ?thesis using assms Some that [of st2 e] by (simp add: run_jobs_def)
qed

lemma jobs_ok:
  assumes st: "tasks_ok n due s st" and r: "run_jobs env what st = Some (st1, tr)" and n: "n + scheduled_count tr < 2 ^ 64"
  shows "steps_ok n due s tr st1"
  using r
proof (cases rule: run_jobs_cases)
  case (1 st2 e)
  have "steps_ok n due s tr (report_js_error what e st2) = steps_ok n due s tr st2" by (rule steps_ok_timers) simp
  then show ?thesis using exec_ok [OF st 1(1) n] 1(2) by blast
qed

lemma steps_ok_then:
  assumes "steps_ok n due s tr1 st1" "\<And>s'. monitor tr1 s = Some s' \<Longrightarrow> tasks_ok (n + scheduled_count tr1) due s' st1 \<Longrightarrow>
      steps_ok (n + scheduled_count tr1) due' s' tr2 st2"
  shows "steps_ok n due' s (tr1 @ tr2) st2"
  using assms steps_ok_append unfolding steps_ok_def by blast

lemma eval_ok:
  assumes st: "tasks_ok n due s st" and r: "eval_script env code what st = Some (st1, tr)" and n: "n + scheduled_count tr < 2 ^ 64"
  shows "steps_ok n due s tr st1"
proof -
  obtain st2 e tr1 tr2 where x: "exec_js env code st = Some (st2, e, tr1)" "run_jobs env what (report_js_error what e st2) = Some (st1, tr2)"
    "tr = tr1 @ tr2" using r by (auto simp: eval_script_def bind_eq_Some_conv)
  have "steps_ok n due s tr1 st2" by (rule exec_ok [OF st x(1)]) (use n x(3) in simp)
  then show ?thesis unfolding x(3)
    by (rule steps_ok_then) (rule jobs_ok [OF _ x(2)], simp only: tasks_ok_frame, use n x(3) in simp)
qed

lemma fire_ok:
  assumes st: "tasks_ok n (t # due) s st" and d: "\<forall>x\<in>set due. tm_id x \<noteq> tm_id t" and r: "fire_timer env t st = Some (st1, tr)"
    and n: "n + scheduled_count tr < 2 ^ 64"
  shows "steps_ok n due s tr st1"
proof -
  let ?q = "(rt_timers st)\<lparr>tq_cancelled := tq_cancelled (rt_timers st) - {tm_id t}\<rparr>"
  have ok: "tasks_ok n due s (st\<lparr>rt_timers := ?q\<rparr>)" using st d by (auto simp: tasks_ok_def queue_ok_def timer_ids_def)
  show ?thesis
  proof (cases "tm_id t \<in> tq_cancelled (rt_timers st)")
    case True
    then have "st1 = st\<lparr>rt_timers := ?q\<rparr>" "tr = []" using r by (auto simp: fire_timer_def take_cancelled_def)
    then show ?thesis using steps_ok_nil [OF ok] by simp
  next
    case False
    let ?st = "st\<lparr>rt_timers := ?q, rt_nesting := Some (tm_nesting t)\<rparr>"
    obtain st3 e tr1 tr2 where x: "exec_js env (sc_call env (tm_callback t) (tm_args t) (rt_world ?st)) ?st = Some (st3, e, tr1)"
      "run_jobs env ''timer microtasks'' ((report_js_error ''timer callback'' e st3)\<lparr>rt_nesting := None\<rparr>) = Some (st1, tr2)"
      "tr = Fired (tm_id t) # tr1 @ tr2"
      using r False by (auto simp: fire_timer_def take_cancelled_def Let_def bind_eq_Some_conv)
    have ok2: "tasks_ok n due s ?st" using ok by (simp only: tasks_ok_frame)
    have "steps_ok n due s tr1 st3" by (rule exec_ok [OF ok2 x(1)]) (use n x(3) in simp)
    then have "steps_ok n due s (tr1 @ tr2) st1"
      by (rule steps_ok_then) (rule jobs_ok [OF _ x(2)], simp only: tasks_ok_frame, use n x(3) in simp)
    moreover have "tm_id t \<notin> snd s" using st False by (auto simp: tasks_ok_def)
    ultimately show ?thesis unfolding x(3) steps_ok_def by (cases s) simp
  qed
qed

lemma batch_ok:
  "tasks_ok n due s st \<Longrightarrow> distinct (map tm_id due) \<Longrightarrow> fire_batch env due st = Some (st1, tr) \<Longrightarrow>
    n + scheduled_count tr < 2 ^ 64 \<Longrightarrow> steps_ok n [] s tr st1"
proof (induction due arbitrary: n s st tr)
  case Nil then show ?case by (simp add: steps_ok_nil)
next
  case (Cons t due)
  obtain st2 tr1 tr2 where x: "fire_timer env t st = Some (st2, tr1)" "fire_batch env due st2 = Some (st1, tr2)" "tr = tr1 @ tr2"
    using Cons.prems(3) by (auto simp: bind_eq_Some_conv)
  have "steps_ok n due s tr1 st2" by (rule fire_ok [OF Cons.prems(1) _ x(1)]) (use Cons.prems(2,4) x(3) in \<open>auto simp: rev_image_eqI\<close>)
  then show ?case unfolding x(3)
    by (rule steps_ok_then) (rule Cons.IH [OF _ _ x(2)], use Cons.prems(2,4) x(3) in simp_all)
qed

lemma poll_ok:
  assumes st: "tasks_ok n [] s st" and r: "run_due_timers env st = Some (any, st1, tr)" and n: "n + scheduled_count tr < 2 ^ 64"
  shows "steps_ok n [] s tr st1"
proof -
  obtain now st0 where c: "clock_now (sc_tick env) st = (now, st0)" by fastforce
  obtain due q where t: "take_due now (rt_timers st) = (due, q)" by fastforce
  have q: "queue_ok n (rt_timers st)" using st by (simp add: tasks_ok_def)
  note f = take_due_facts [OF q t]
  have "set due \<subseteq> set (tq_timers (rt_timers st))" using arg_cong [OF f(2), of set_mset] by auto
  then have "tm_id ` set due \<subseteq> set (timer_ids (rt_timers st))" by (auto simp: timer_ids_def)
  then have ok: "tasks_ok n due s (st0\<lparr>rt_timers := q\<rparr>)" "tasks_ok n [] s (st0\<lparr>rt_timers := q\<rparr>)"
    using st f(1,5) by (auto simp: tasks_ok_def)
  show ?thesis
  proof (cases "due = []")
    case True
    then have "st1 = st0\<lparr>rt_timers := q\<rparr>" "tr = []" using r by (auto simp: run_due_timers_def c clock_timers [OF c] t)
    then show ?thesis using steps_ok_nil [OF ok(2)] by simp
  next
    case False
    then have "fire_batch env due (st0\<lparr>rt_timers := q\<rparr>) = Some (st1, tr)"
      using r by (auto simp: run_due_timers_def c clock_timers [OF c] t)
    then show ?thesis by (rule batch_ok [OF ok(1) f(3) _ n])
  qed
qed

lemma step_ok:
  assumes st: "tasks_ok n [] s st" and r: "script_step env x st = Some (st1, tr)" and n: "n + scheduled_count tr < 2 ^ 64"
  shows "steps_ok n [] s tr st1"
proof (cases x)
  case (Eval code what) then show ?thesis using r eval_ok [OF st _ n] by simp
next
  case PollTimers then show ?thesis using r poll_ok [OF st _ n] by auto
next
  case MakeVirtual
  then show ?thesis using r st by (auto simp: make_virtual_def clock_now_def steps_ok_nil tasks_ok_def split: script_clock.splits)
next
  case (AdvanceClock d)
  then show ?thesis using r st by (auto simp: advance_to_def steps_ok_nil tasks_ok_def split: script_clock.splits)
next
  case TakeErrors then show ?thesis using r st by (auto simp: take_js_errors_def steps_ok_nil tasks_ok_def)
qed

lemma run_ok:
  "tasks_ok n [] s st \<Longrightarrow> script_run env xs st = Some (st1, tr) \<Longrightarrow> n + scheduled_count tr < 2 ^ 64 \<Longrightarrow> steps_ok n [] s tr st1"
proof (induction xs arbitrary: n s st tr)
  case Nil then show ?case by (simp add: steps_ok_nil)
next
  case (Cons x xs)
  obtain st2 tr1 tr2 where x: "script_step env x st = Some (st2, tr1)" "script_run env xs st2 = Some (st1, tr2)" "tr = tr1 @ tr2"
    using Cons.prems(2) by (auto simp: bind_eq_Some_conv)
  have "steps_ok n [] s tr1 st2" by (rule step_ok [OF Cons.prems(1) x(1)]) (use Cons.prems(3) x(3) in simp)
  then show ?case unfolding x(3)
    by (rule steps_ok_then) (rule Cons.IH [OF _ x(2)], use Cons.prems(3) x(3) in simp_all)
qed

text \<open>C32. A cleared timer never fires again.  Whatever scripts run and callbacks do, however the clock
  moves and whenever the timers are polled: once \<open>clearTimeout\<close> or \<open>clearInterval\<close> was called with
  the id of a timer, its callback is never called after that, neither by a later poll nor, when
  it is cleared by a callback of the batch it is itself due in, by the rest of this batch.
  Fewer than \<open>2 ^ 64\<close> timers are scheduled.\<close>
theorem cleared_never_fires:
  assumes "script_run env xs (script_rt_new w) = Some (st, a @ Cleared i # b)" and "Scheduled i \<in> set a"
    and "scheduled_count (a @ Cleared i # b) < 2 ^ 64"
  shows "Fired i \<notin> set b"
proof -
  have "tasks_ok 0 [] ({}, {}) (script_rt_new w)"
    using queue_ok_new by (auto simp: tasks_ok_def script_rt_new_def)
  from run_ok [OF this assms(1)] assms(3) obtain s where "monitor (a @ Cleared i # b) ({}, {}) = Some s"
    by (auto simp: steps_ok_def)
  then show ?thesis using assms(2) by (rule monitor_sound)
qed

text \<open>A document of four timers: the first clears the second, the third schedules another.\<close>
definition demo_script_env :: "(nat, unit, nat) script_env" where
  "demo_script_env = \<lparr> sc_call = (\<lambda>c args w. if c = 0 then JsCall (ClearTimer (Some 2)) (\<lambda>_. Return w)
      else if c = 1 then JsCall (SetTimeout (Some 2) None []) (\<lambda>_. Return w) else Return (w + 1)),
    sc_jobs = Return, sc_positive = (\<lambda>x. x \<noteq> 0), sc_millis = (\<lambda>x. Some (unat x)), sc_timer_id = Some, sc_tick = (\<lambda>n. n) \<rparr>"

definition demo_script :: "(nat, unit, nat) js" where
  "demo_script = JsCall (SetTimeout (Some 0) (Some 1) []) (\<lambda>_. JsCall (SetTimeout (Some 2) (Some 1) []) (\<lambda>_.
     JsCall (SetTimeout (Some 1) None []) (\<lambda>_. JsCall (SetTimeout (Some 2) (Some 9) []) (\<lambda>_. Return 0))))"

lemma demo_script_runs:
  "script_run demo_script_env [Eval demo_script ''main'', PollTimers, MakeVirtual, AdvanceClock 20, PollTimers] (script_rt_new 0)
    = Some (the (map_option fst (script_run demo_script_env [Eval demo_script ''main'', PollTimers, MakeVirtual, AdvanceClock 20, PollTimers]
         (script_rt_new 0))),
       [Scheduled 1, Scheduled 2, Scheduled 3, Scheduled 4, Fired 1] @ Cleared 2 # [Fired 3, Scheduled 5, Fired 5, Fired 4])"
  by code_simp

theorem cleared_never_fires_witness: "Fired 2 \<notin> set [Fired 3, Scheduled 5, Fired 5, Fired 4]"
  by (rule cleared_never_fires [OF demo_script_runs]) (simp_all add: scheduled_count_def)

section \<open>Polls\<close>

text \<open>What one task does to the marks.\<close>
definition quiet :: "timer_event list \<Rightarrow> ('c, 'v, 'w) script_rt \<Rightarrow> ('c, 'v, 'w) script_rt \<Rightarrow> bool" where
  "quiet tr st st1 \<longleftrightarrow> fired_ids tr = [] \<and>
     tq_cancelled (rt_timers st1) \<subseteq> tq_cancelled (rt_timers st) \<union> {i. Cleared i \<in> set tr}"

lemma quiet_append: "quiet a st st1 \<Longrightarrow> quiet b st1 st2 \<Longrightarrow> quiet (a @ b) st st2"
  by (auto simp: quiet_def)

lemma quiet_nil [simp]: "quiet [] st (st\<lparr>rt_world := w\<rparr>)" "quiet [] st st" "quiet [] st (report_js_error what e st)"
  by (simp_all add: quiet_def)

lemma quiet_timers: "rt_timers st' = rt_timers st \<Longrightarrow> quiet tr st' st1 \<Longrightarrow> quiet tr st st1"
  by (simp add: quiet_def)

lemma add_timer_quiet: "add_timer env d iv cb args nest st = (i, st1, tr) \<Longrightarrow> quiet tr st st1"
  using clock_timers [of "sc_tick env" st]
  by (auto simp: add_timer_def timer_add_def quiet_def Let_def split: prod.splits)

lemma schedule_quiet: "schedule env rep cb d args st = Some (i, st1, tr) \<Longrightarrow> quiet tr st st1"
  by (auto simp: schedule_def bind_eq_Some_conv Let_def intro: add_timer_quiet split: option.splits)

lemma api_quiet: "js_api env c st = Some (i, st1, tr) \<Longrightarrow> quiet tr st st1"
proof (cases c)
  case (ClearTimer t)
  moreover have "quiet [Cleared j] st (st\<lparr>rt_timers := timer_remove j (rt_timers st)\<rparr>)" for j
    by (simp add: quiet_def timer_remove_def)
  ultimately show "js_api env c st = Some (i, st1, tr) \<Longrightarrow> ?thesis" by (auto simp: js_api_def split: option.splits)
next
  case (RequestFrame cb ts)
  then show "js_api env c st = Some (i, st1, tr) \<Longrightarrow> ?thesis"
    by (auto simp: js_api_def intro: add_timer_quiet split: option.splits)
qed (simp_all add: js_api_def schedule_quiet)

lemma exec_quiet: "exec_js env code st = Some (st1, e, tr) \<Longrightarrow> quiet tr st st1"
proof (induction code arbitrary: st st1 e tr)
  case (JsCall c k)
  obtain i st2 tr1 where a: "js_api env c st = Some (i, st2, tr1)" using JsCall.prems by (auto split: option.splits)
  obtain tr2 where k: "exec_js env (k i) st2 = Some (st1, e, tr2)" "tr = tr1 @ tr2" using JsCall.prems by (auto simp: a)
  show ?case unfolding k(2) by (rule quiet_append [OF api_quiet [OF a]]) (rule JsCall.IH [OF _ k(1)], simp)
qed auto

lemma jobs_quiet: "run_jobs env what st = Some (st1, tr) \<Longrightarrow> quiet tr st st1"
proof (erule run_jobs_cases)
  fix st2 e assume x: "exec_js env (sc_jobs env (rt_world st)) st = Some (st2, e, tr)" "st1 = report_js_error what e st2"
  show ?thesis using exec_quiet [OF x(1)] by (simp add: x(2) quiet_def)
qed

lemma fire_timer_cases:
  assumes "fire_timer env t st = Some (st1, tr)"
  obtains (skipped) "tm_id t \<in> tq_cancelled (rt_timers st)" "tr = []"
      "tq_cancelled (rt_timers st1) \<subseteq> tq_cancelled (rt_timers st)"
    | (fired) tr1 where "tm_id t \<notin> tq_cancelled (rt_timers st)" "tr = Fired (tm_id t) # tr1" "quiet tr1 st st1"
proof (cases "tm_id t \<in> tq_cancelled (rt_timers st)")
  case True then show ?thesis using assms skipped by (auto simp: fire_timer_def take_cancelled_def)
next
  case False
  let ?q = "(rt_timers st)\<lparr>tq_cancelled := tq_cancelled (rt_timers st) - {tm_id t}\<rparr>"
  let ?st = "st\<lparr>rt_timers := ?q, rt_nesting := Some (tm_nesting t)\<rparr>"
  obtain st3 e tr1 tr2 where x: "exec_js env (sc_call env (tm_callback t) (tm_args t) (rt_world ?st)) ?st = Some (st3, e, tr1)"
    "run_jobs env ''timer microtasks'' ((report_js_error ''timer callback'' e st3)\<lparr>rt_nesting := None\<rparr>) = Some (st1, tr2)"
    "tr = Fired (tm_id t) # tr1 @ tr2"
    using assms False by (auto simp: fire_timer_def take_cancelled_def Let_def bind_eq_Some_conv)
  have "quiet tr1 st st3" using exec_quiet [OF x(1)] by (auto simp: quiet_def)
  moreover have "quiet tr2 st3 st1" by (rule quiet_timers [OF _ jobs_quiet [OF x(2)]]) simp
  ultimately show ?thesis using fired [OF False x(3)] quiet_append by blast
qed

lemma batch_fires:
  "fire_batch env due st = Some (st1, tr) \<Longrightarrow> subseq (fired_ids tr) (map tm_id due) \<and>
    (\<forall>t\<in>set due. Fired (tm_id t) \<in> set tr \<or> tm_id t \<in> tq_cancelled (rt_timers st) \<or> Cleared (tm_id t) \<in> set tr)"
proof (induction due arbitrary: st tr)
  case (Cons t due)
  obtain st2 tr1 tr2 where x: "fire_timer env t st = Some (st2, tr1)" "fire_batch env due st2 = Some (st1, tr2)" "tr = tr1 @ tr2"
    using Cons.prems by (auto simp: bind_eq_Some_conv)
  note IH = Cons.IH [OF x(2)]
  show ?case using x(1)
  proof (cases rule: fire_timer_cases)
    case skipped then show ?thesis using IH by (auto simp: x(3) intro: list_emb_Cons)
  next
    case (fired tr3) then show ?thesis using IH by (auto simp: x(3) quiet_def)
  qed
qed simp

lemma take_due_batch:
  assumes "take_due now q = (due, q1)"
  shows "mset due = filter_mset (\<lambda>t. tm_deadline t \<le> now) (mset (tq_timers q))" "sorted (map due_key due)"
    "tq_cancelled q1 \<subseteq> tq_cancelled q"
proof -
  obtain found rest where s: "split_due now 0 (tq_timers q) = (found, rest)" by fastforce
  have e: "due = sort_key due_key found" "tq_cancelled q1 \<subseteq> tq_cancelled q"
    using assms unfolding take_due_def s Let_def prod.case by auto
  show "mset due = filter_mset (\<lambda>t. tm_deadline t \<le> now) (mset (tq_timers q))" using split_due_mset [OF _ s] by (simp add: e(1))
  show "sorted (map due_key due)" by (simp add: e(1))
  show "tq_cancelled q1 \<subseteq> tq_cancelled q" by (rule e(2))
qed

text \<open>A poll fires what is due, in order.  Whatever the callbacks do, the timers of a poll are
  exactly the queued timers whose deadline has passed when it starts, by deadline and, at one
  deadline, in the order they were scheduled: their callbacks are called in this order, each at
  most once, and every one of them is called unless it was cleared before its turn came.  A timer
  that is scheduled by a callback waits for a later poll.\<close>
lemma poll_fires_due:
  assumes "run_due_timers env st = Some (any, st1, tr)"
  shows "\<exists>due. mset due = filter_mset (\<lambda>t. tm_deadline t \<le> fst (clock_now (sc_tick env) st)) (mset (tq_timers (rt_timers st)))
    \<and> sorted (map due_key due) \<and> any = (due \<noteq> []) \<and> subseq (fired_ids tr) (map tm_id due)
    \<and> (\<forall>t\<in>set due. Fired (tm_id t) \<in> set tr \<or> tm_id t \<in> tq_cancelled (rt_timers st) \<or> Cleared (tm_id t) \<in> set tr)"
proof -
  obtain now st0 where c: "clock_now (sc_tick env) st = (now, st0)" by fastforce
  obtain due q where t: "take_due now (rt_timers st) = (due, q)" by fastforce
  note b = take_due_batch [OF t]
  have r: "(if due = [] then Some (False, st0\<lparr>rt_timers := q\<rparr>, []) else map_option (\<lambda>(st3, tr). (True, st3, tr))
      (fire_batch env due (st0\<lparr>rt_timers := q\<rparr>))) = Some (any, st1, tr)"
    using assms unfolding run_due_timers_def c Let_def prod.case clock_timers [OF c] t .
  have "fire_batch env due (st0\<lparr>rt_timers := q\<rparr>) = Some (st1, tr)" "any = (due \<noteq> [])"
    using r by (auto split: if_splits)
  from batch_fires [OF this(1)] this(2) show ?thesis using b by (intro exI [of _ due]) (auto simp: c)
qed

definition demo_polled :: "(nat, unit, nat) script_rt" where
  "demo_polled = the (map_option fst (script_run demo_script_env [Eval demo_script ''main'', MakeVirtual, AdvanceClock 20] (script_rt_new 0)))"

lemma demo_poll:
  "run_due_timers demo_script_env demo_polled = Some (True, fst (snd (the (run_due_timers demo_script_env demo_polled))),
     [Fired 1, Cleared 2, Fired 3, Scheduled 5, Fired 4])"
  by code_simp

lemma poll_fires_due_witness:
  "\<exists>due. mset due = filter_mset (\<lambda>t. tm_deadline t \<le> fst (clock_now (sc_tick demo_script_env) demo_polled)) (mset (tq_timers (rt_timers demo_polled)))
    \<and> sorted (map due_key due) \<and> True = (due \<noteq> []) \<and> subseq (fired_ids [Fired 1, Cleared 2, Fired 3, Scheduled 5, Fired 4]) (map tm_id due)
    \<and> (\<forall>t\<in>set due. Fired (tm_id t) \<in> set [Fired 1, Cleared 2, Fired 3, Scheduled 5, Fired 4] \<or> tm_id t \<in> tq_cancelled (rt_timers demo_polled)
         \<or> Cleared (tm_id t) \<in> set [Fired 1, Cleared 2, Fired 3, Scheduled 5, Fired 4])"
  by (rule poll_fires_due [OF demo_poll])

text \<open>A mark that was left before an interval got its id suppresses the first call of the interval.\<close>
lemma early_mark_skips_interval:
  assumes iv: "tm_interval t = Some iv" and q: "tq_timers q = [t]" "tm_id t \<in> tq_cancelled q" "tm_deadline t \<le> now"
    and d: "take_due now q = (due, q1)" and r: "rt_timers st = q1"
  shows "\<exists>st1. fire_batch env due st = Some (st1, [])"
proof -
  have s: "split_due now 0 [t] = ([t], [])" using q(3) by (simp add: split_due.simps swap_remove_def)
  have "due = [t]" "tm_id t \<in> tq_cancelled q1"
    using d q iv unfolding take_due_def q(1) s by (auto simp: rescheduled_def)
  then show ?thesis using r by (simp add: fire_timer_def take_cancelled_def)
qed

end
