(* ===== verification/Script_Events.thy ===== *)
theory Script_Events
  imports Script_Tasks Event_Driver
begin

text \<open>
  The delivery of events to the listeners of a page
  (\<open>strake-vibey-script/src/runtime.rs\<close>, \<open>dom/node.rs\<close>, \<open>dom/event.rs\<close>).

  As in the theory of the tasks the engine is a parameter: a listener is an opaque callable object
  and a call of it is a tree that ends in a world \<open>'w\<close> of the engine, with or without an error,
  or calls one of the functions below and goes on with its answer.
\<close>

section \<open>Listeners\<close>

record 'c listener =
  ls_callback :: 'c
  ls_capture :: bool
  ls_once :: bool

type_synonym 'c listener_map = "string \<rightharpoonup> 'c listener list"

text \<open>The flags of the event that is being delivered are part of the state: the event object is
  made for one delivery.  \<open>ev_handlers\<close> is what the \<open>on<event>\<close> property of a wrapper holds.\<close>
record ('c, 'w) page_events =
  ev_nodes :: "node_id \<rightharpoonup> 'c listener_map"
  ev_window :: "'c listener_map"
  ev_handlers :: "node_id option \<Rightarrow> string \<Rightarrow> 'c option"
  ev_wrapped :: "node_id set"
  ev_prevented :: bool
  ev_stopped :: bool
  ev_immediate :: bool
  ev_errors :: "string list"
  ev_world :: 'w

definition add_to_list :: "'c listener \<Rightarrow> 'c listener list \<Rightarrow> 'c listener list" where
  "add_to_list l ls =
    (if \<exists>k\<in>set ls. ls_callback k = ls_callback l \<and> ls_capture k = ls_capture l then ls else ls @ [l])"

definition add_event_listener ::
    "node_id \<Rightarrow> string \<Rightarrow> 'c \<Rightarrow> bool \<Rightarrow> bool \<Rightarrow> ('c, 'w) page_events \<Rightarrow> ('c, 'w) page_events" where
  "add_event_listener n name cb capture once st =
    (let m = (case ev_nodes st n of None \<Rightarrow> Map.empty | Some m \<Rightarrow> m);
         ls = (case m name of None \<Rightarrow> [] | Some ls \<Rightarrow> ls);
         l = \<lparr> ls_callback = cb, ls_capture = capture, ls_once = once \<rparr>
     in st\<lparr>ev_nodes := (ev_nodes st)(n \<mapsto> m(name \<mapsto> add_to_list l ls))\<rparr>)"

text \<open>The list of a node for a name, rewritten where there is one.\<close>
definition retain_listeners ::
    "('c listener \<Rightarrow> bool) \<Rightarrow> node_id \<Rightarrow> string \<Rightarrow> ('c, 'w) page_events \<Rightarrow> ('c, 'w) page_events" where
  "retain_listeners P n name st = (case ev_nodes st n of None \<Rightarrow> st
     | Some m \<Rightarrow> (case m name of None \<Rightarrow> st
         | Some ls \<Rightarrow> st\<lparr>ev_nodes := (ev_nodes st)(n \<mapsto> m(name \<mapsto> filter P ls))\<rparr>))"

definition remove_event_listener ::
    "node_id \<Rightarrow> string \<Rightarrow> 'c \<Rightarrow> bool \<Rightarrow> ('c, 'w) page_events \<Rightarrow> ('c, 'w) page_events" where
  "remove_event_listener n name cb capture st =
    retain_listeners (\<lambda>l. \<not> (ls_callback l = cb \<and> ls_capture l = capture)) n name st"

definition window_add_event_listener :: "string \<Rightarrow> 'c \<Rightarrow> ('c, 'w) page_events \<Rightarrow> ('c, 'w) page_events" where
  "window_add_event_listener name cb st =
    (let ls = (case ev_window st name of None \<Rightarrow> [] | Some ls \<Rightarrow> ls)
     in if \<exists>k\<in>set ls. ls_callback k = cb then st\<lparr>ev_window := (ev_window st)(name \<mapsto> ls)\<rparr>
        else st\<lparr>ev_window := (ev_window st)(name \<mapsto> ls @ [\<lparr> ls_callback = cb, ls_capture = False, ls_once = False \<rparr>])\<rparr>)"

definition window_retain :: "('c listener \<Rightarrow> bool) \<Rightarrow> string \<Rightarrow> ('c, 'w) page_events \<Rightarrow> ('c, 'w) page_events" where
  "window_retain P name st = (case ev_window st name of None \<Rightarrow> st
     | Some ls \<Rightarrow> st\<lparr>ev_window := (ev_window st)(name \<mapsto> filter P ls)\<rparr>)"

definition window_remove_event_listener :: "string \<Rightarrow> 'c \<Rightarrow> ('c, 'w) page_events \<Rightarrow> ('c, 'w) page_events" where
  "window_remove_event_listener name cb st = window_retain (\<lambda>l. ls_callback l \<noteq> cb) name st"

section \<open>What a listener does\<close>

text \<open>\<open>GetWrapper\<close> is any access that hands a node to the script; a property can be set only on a
  wrapper the script has.\<close>
datatype 'c page_call = AddListener node_id string 'c bool bool | RemoveListener node_id string 'c bool
  | AddWindowListener string 'c | RemoveWindowListener string 'c
  | GetWrapper node_id | SetHandler "node_id option" string "'c option"
  | PreventDefault | StopPropagation | StopImmediatePropagation | DefaultPrevented

datatype ('c, 'w) page_js = Finish "string option" 'w | Call "'c page_call" "bool \<Rightarrow> ('c, 'w) page_js"

definition node_wrapper :: "node_id \<Rightarrow> ('c, 'w) page_events \<Rightarrow> ('c, 'w) page_events" where
  "node_wrapper n st = st\<lparr>ev_wrapped := insert n (ev_wrapped st)\<rparr>"

fun page_update :: "'c page_call \<Rightarrow> ('c, 'w) page_events \<Rightarrow> ('c, 'w) page_events" where
  "page_update (AddListener n name cb capture once) st = add_event_listener n name cb capture once (node_wrapper n st)"
| "page_update (RemoveListener n name cb capture) st = remove_event_listener n name cb capture (node_wrapper n st)"
| "page_update (AddWindowListener name cb) st = window_add_event_listener name cb st"
| "page_update (RemoveWindowListener name cb) st = window_remove_event_listener name cb st"
| "page_update (GetWrapper n) st = node_wrapper n st"
| "page_update (SetHandler None name cb) st = st\<lparr>ev_handlers := (ev_handlers st)(None := (ev_handlers st None)(name := cb))\<rparr>"
| "page_update (SetHandler (Some n) name cb) st =
    (node_wrapper n st)\<lparr>ev_handlers := (ev_handlers st)(Some n := (ev_handlers st (Some n))(name := cb))\<rparr>"
| "page_update PreventDefault st = st\<lparr>ev_prevented := True\<rparr>"
| "page_update StopPropagation st = st\<lparr>ev_stopped := True\<rparr>"
| "page_update StopImmediatePropagation st = st\<lparr>ev_stopped := True, ev_immediate := True\<rparr>"
| "page_update DefaultPrevented st = st"

definition page_answer :: "'c page_call \<Rightarrow> ('c, 'w) page_events \<Rightarrow> bool" where
  "page_answer c st = (c = DefaultPrevented \<and> ev_prevented st)"

primrec exec_page :: "('c, 'w) page_js \<Rightarrow> ('c, 'w) page_events \<Rightarrow> ('c, 'w) page_events \<times> string option" where
  "exec_page (Finish e w) = (\<lambda>st. (st\<lparr>ev_world := w\<rparr>, e))"
| "exec_page (Call c k) = (\<lambda>st. exec_page (k (page_answer c st)) (page_update c st))"

text \<open>The engine: calling a callback with a current target (\<open>None\<close> is the window), and the queued
  promise jobs.\<close>
record ('c, 'w) page_env =
  pe_call :: "'c \<Rightarrow> node_id option \<Rightarrow> 'w \<Rightarrow> ('c, 'w) page_js"
  pe_jobs :: "'w \<Rightarrow> ('c, 'w) page_js"

definition report_page_error :: "string \<Rightarrow> string option \<Rightarrow> ('c, 'w) page_events \<Rightarrow> ('c, 'w) page_events" where
  "report_page_error what e st = (case e of None \<Rightarrow> st
     | Some msg \<Rightarrow> st\<lparr>ev_errors := push_error (''Uncaught JS error in '' @ what @ '': '' @ msg) (ev_errors st)\<rparr>)"

definition call_listener :: "('c, 'w) page_env \<Rightarrow> node_id option \<Rightarrow> 'c \<Rightarrow> ('c, 'w) page_events \<Rightarrow> ('c, 'w) page_events" where
  "call_listener env cur cb st =
    (let (st1, e) = exec_page (pe_call env cb cur (ev_world st)) st in report_page_error ''event listener'' e st1)"

definition page_jobs :: "('c, 'w) page_env \<Rightarrow> string \<Rightarrow> ('c, 'w) page_events \<Rightarrow> ('c, 'w) page_events" where
  "page_jobs env what st = (let (st1, e) = exec_page (pe_jobs env (ev_world st)) st in report_page_error what e st1)"

section \<open>Delivery\<close>

text \<open>The calls that were made, each with its current target.\<close>
type_synonym 'c calls = "(node_id option \<times> 'c) list"

text \<open>The callbacks of one target, until one stops all others.\<close>
fun call_all ::
    "('c, 'w) page_env \<Rightarrow> node_id option \<Rightarrow> 'c list \<Rightarrow> ('c, 'w) page_events \<Rightarrow> ('c, 'w) page_events \<times> 'c calls \<times> bool" where
  "call_all env cur [] st = (st, [], False)"
| "call_all env cur (cb # cbs) st =
    (let st1 = call_listener env cur cb st
     in if ev_immediate st1 then (st1, [(cur, cb)], True)
        else (let (st2, tr, brk) = call_all env cur cbs st1 in (st2, (cur, cb) # tr, brk)))"

definition node_listeners :: "node_id \<Rightarrow> string \<Rightarrow> ('c, 'w) page_events \<Rightarrow> 'c listener list" where
  "node_listeners n name st = (case ev_nodes st n of None \<Rightarrow> [] | Some m \<Rightarrow> (case m name of None \<Rightarrow> [] | Some ls \<Rightarrow> ls))"

definition window_listeners :: "string \<Rightarrow> ('c, 'w) page_events \<Rightarrow> 'c listener list" where
  "window_listeners name st = (case ev_window st name of None \<Rightarrow> [] | Some ls \<Rightarrow> ls)"

text \<open>The callbacks of a node that belong to a phase; its once-listeners of the phase are retired.\<close>
definition gather ::
    "('c listener \<Rightarrow> bool) \<Rightarrow> node_id \<Rightarrow> string \<Rightarrow> ('c, 'w) page_events \<Rightarrow> 'c list \<times> ('c, 'w) page_events" where
  "gather phase n name st =
    (map ls_callback (filter phase (node_listeners n name st)), retain_listeners (\<lambda>l. \<not> (ls_once l \<and> phase l)) n name st)"

fun capture_phase ::
    "('c, 'w) page_env \<Rightarrow> string \<Rightarrow> node_id list \<Rightarrow> ('c, 'w) page_events \<Rightarrow> ('c, 'w) page_events \<times> 'c calls" where
  "capture_phase env name [] st = (st, [])"
| "capture_phase env name (n # ns) st =
    (let (cbs, st1) = gather ls_capture n name st
     in if cbs = [] then capture_phase env name ns st1
        else (let (st2, tr, brk) = call_all env (Some n) cbs (node_wrapper n st1)
              in if brk \<or> ev_stopped st2 then (st2, tr)
                 else (let (st3, tr3) = capture_phase env name ns st2 in (st3, tr @ tr3))))"

definition on_name :: "string \<Rightarrow> string" where
  "on_name name = ''on'' @ name"

definition on_handler :: "node_id \<Rightarrow> string \<Rightarrow> ('c, 'w) page_events \<Rightarrow> 'c list" where
  "on_handler n name st =
    (if n \<in> ev_wrapped st then (case ev_handlers st (Some n) (on_name name) of None \<Rightarrow> [] | Some cb \<Rightarrow> [cb]) else [])"

fun bubble_phase ::
    "('c, 'w) page_env \<Rightarrow> string \<Rightarrow> bool \<Rightarrow> bool \<Rightarrow> node_id list \<Rightarrow> ('c, 'w) page_events \<Rightarrow> ('c, 'w) page_events \<times> 'c calls" where
  "bubble_phase env name bubbling is_target [] st = (st, [])"
| "bubble_phase env name bubbling is_target (n # ns) st =
    (let at_target_no_bubble = (\<not> bubbling \<and> is_target);
         (ls, st1) = gather (\<lambda>l. \<not> ls_capture l \<or> at_target_no_bubble) n name st;
         cbs = ls @ on_handler n name st1
     in if cbs = [] then (if \<not> bubbling then (st1, []) else bubble_phase env name bubbling False ns st1)
        else (let (st2, tr, brk) = call_all env (Some n) cbs (node_wrapper n st1)
              in if brk \<or> \<not> bubbling \<or> ev_stopped st2 then (st2, tr)
                 else (let (st3, tr3) = bubble_phase env name bubbling False ns st2 in (st3, tr @ tr3))))"

definition window_phase ::
    "('c, 'w) page_env \<Rightarrow> string \<Rightarrow> ('c, 'w) page_events \<Rightarrow> ('c, 'w) page_events \<times> 'c calls" where
  "window_phase env name st =
    (let ls = window_listeners name st; st1 = window_retain (\<lambda>l. \<not> ls_once l) name st;
         (st2, tr, brk) = call_all env None (map ls_callback ls) st1
     in (st2, tr))"

definition may_have_listeners :: "node_id list \<Rightarrow> string \<Rightarrow> ('c, 'w) page_events \<Rightarrow> bool" where
  "may_have_listeners path name st \<longleftrightarrow>
    (\<exists>n\<in>set path. node_listeners n name st \<noteq> []) \<or> window_listeners name st \<noteq> [] \<or> (\<exists>n\<in>set path. n \<in> ev_wrapped st)"

definition create_event :: "('c, 'w) page_events \<Rightarrow> ('c, 'w) page_events" where
  "create_event st = st\<lparr>ev_prevented := False, ev_stopped := False, ev_immediate := False\<rparr>"

text \<open>What the page did is fed back into the event state of the document.\<close>
definition feed_back :: "('c, 'w) page_events \<Rightarrow> bool \<Rightarrow> event_state \<Rightarrow> event_state" where
  "feed_back st any_called es =
    (let es1 = (if ev_prevented st then prevent_default es else es);
         es2 = (if ev_stopped st then stop_propagation es1 else es1)
     in if any_called then request_redraw es2 else es2)"

text \<open>The three phases of an event; \<open>path\<close> is not empty and begins with the target.\<close>
definition deliver ::
    "('c, 'w) page_env \<Rightarrow> node_id list \<Rightarrow> string \<Rightarrow> bool \<Rightarrow> ('c, 'w) page_events \<Rightarrow> ('c, 'w) page_events \<times> 'c calls" where
  "deliver env path name bubbling st =
    (let (st1, tr1) = (if bubbling then capture_phase env name (rev path) st else (st, []));
         (st2, tr2) = (if ev_stopped st1 then (st1, []) else bubble_phase env name bubbling True path st1);
         (st3, tr3) = (if bubbling \<and> \<not> ev_stopped st2 then window_phase env name st2 else (st2, []))
     in (st3, tr1 @ tr2 @ tr3))"

definition dispatch_event_inner ::
    "('c, 'w) page_env \<Rightarrow> node_id list \<Rightarrow> string \<Rightarrow> bool \<Rightarrow> ('c, 'w) page_events \<Rightarrow> event_state
     \<Rightarrow> (('c, 'w) page_events \<times> event_state \<times> 'c calls) may_panic" where
  "dispatch_event_inner env path name bubbling st es =
    (if \<not> may_have_listeners path name st then Some (st, es, [])
     else (case path of [] \<Rightarrow> None
       | target # _ \<Rightarrow>
           (let (st1, tr) = deliver env path name bubbling (create_event (node_wrapper target st))
            in Some (st1, feed_back st1 (tr \<noteq> []) es, tr))))"

text \<open>An event of the document; \<open>is_toggle\<close> tells that it is an \<open>input\<close> event whose target is a
  check box or a radio button, for which a \<open>change\<close> event follows.\<close>
definition dispatch_dom_event ::
    "('c, 'w) page_env \<Rightarrow> node_id list \<Rightarrow> string \<Rightarrow> bool \<Rightarrow> bool \<Rightarrow> ('c, 'w) page_events \<Rightarrow> event_state
     \<Rightarrow> (('c, 'w) page_events \<times> event_state \<times> 'c calls) may_panic" where
  "dispatch_dom_event env path name bubbling is_toggle st es = do {
     (st1, es1, tr1) \<leftarrow> dispatch_event_inner env path name bubbling st es;
     (st2, es2, tr2) \<leftarrow>
       (if is_toggle then do {
          (st2, change, tr2) \<leftarrow> dispatch_event_inner env path ''change'' True st1 event_state_default;
          Some (st2, if redraw_requested change then request_redraw es1 else es1, tr2)
        } else Some (st1, es1, []));
     Some (if tr1 @ tr2 = [] then st2 else page_jobs env ''event microtasks'' st2, es2, tr1 @ tr2)
   }"

definition dispatch_document_event ::
    "('c, 'w) page_env \<Rightarrow> node_id \<Rightarrow> string \<Rightarrow> ('c, 'w) page_events \<Rightarrow> (('c, 'w) page_events \<times> 'c calls) may_panic" where
  "dispatch_document_event env root_id name st = do {
     (st1, _, tr) \<leftarrow> dispatch_event_inner env [root_id] name True st event_state_default;
     Some (if tr = [] then st1 else page_jobs env ''event microtasks'' st1, tr)
   }"

fun call_every :: "('c, 'w) page_env \<Rightarrow> 'c list \<Rightarrow> ('c, 'w) page_events \<Rightarrow> ('c, 'w) page_events" where
  "call_every env [] st = st"
| "call_every env (cb # cbs) st = call_every env cbs (call_listener env None cb st)"

definition dispatch_window_event ::
    "('c, 'w) page_env \<Rightarrow> string \<Rightarrow> ('c, 'w) page_events \<Rightarrow> ('c, 'w) page_events \<times> 'c calls" where
  "dispatch_window_event env name st =
    (let cbs = map ls_callback (window_listeners name st);
         st1 = call_every env cbs (create_event (window_retain (\<lambda>l. \<not> ls_once l) name st));
         (st2, more) = (case ev_handlers st1 None (on_name name) of None \<Rightarrow> (st1, [])
            | Some cb \<Rightarrow> (call_listener env None cb st1, [cb]));
         tr = map (Pair None) (cbs @ more)
     in (if tr = [] then st2 else page_jobs env ''event microtasks'' st2, tr))"

end
