(* ===== verification/Script_Event_Order.thy ===== *)
theory Script_Event_Order
  imports Script_Events
begin

text \<open>
  The order in which a page sees an event: the delivery of the code against the algorithm of the
  DOM standard, for events that bubble.

  The standard keeps an event handler property (\<open>onclick\<close>) as an entry of the listener list, at
  the place where it was first set, and gives the window one like every other target; the code
  calls the property of a node after the listeners of the node and has none for the window here.
  So the two are compared on pages that hold no such property for the event at hand.
\<close>

section \<open>The algorithm of the standard\<close>

text \<open>A target of the event path: a node, or the window above the document.\<close>
definition listeners_at :: "node_id option \<Rightarrow> string \<Rightarrow> ('c, 'w) page_events \<Rightarrow> 'c listener list" where
  "listeners_at t name st = (case t of None \<Rightarrow> window_listeners name st | Some n \<Rightarrow> node_listeners n name st)"

definition remove_at :: "node_id option \<Rightarrow> string \<Rightarrow> 'c listener \<Rightarrow> ('c, 'w) page_events \<Rightarrow> ('c, 'w) page_events" where
  "remove_at t name l st = (case t of
      None \<Rightarrow> window_retain (\<lambda>k. k \<noteq> l) name st | Some n \<Rightarrow> retain_listeners (\<lambda>k. k \<noteq> l) n name st)"

text \<open>The object the script gets as the current target.\<close>
definition expose :: "node_id option \<Rightarrow> ('c, 'w) page_events \<Rightarrow> ('c, 'w) page_events" where
  "expose t st = (case t of None \<Rightarrow> st | Some n \<Rightarrow> node_wrapper n st)"

text \<open>Inner invoke: the listeners of a target, as they were when the event arrived there.  One that is
  of the other phase or was removed meanwhile is skipped; a once-listener is removed before it is
  called; a listener that stops the event immediately is the last.\<close>
fun std_inner ::
    "('c, 'w) page_env \<Rightarrow> node_id option \<Rightarrow> string \<Rightarrow> bool \<Rightarrow> 'c listener list \<Rightarrow> ('c, 'w) page_events
     \<Rightarrow> ('c, 'w) page_events \<times> 'c calls" where
  "std_inner env t name capture [] st = (st, [])"
| "std_inner env t name capture (l # ls) st =
    (if l \<notin> set (listeners_at t name st) \<or> ls_capture l \<noteq> capture then std_inner env t name capture ls st
     else (let st1 = (if ls_once l then remove_at t name l st else st);
               st2 = call_listener env t (ls_callback l) (expose t st1)
           in if ev_immediate st2 then (st2, [(t, ls_callback l)])
              else (let (st3, tr) = std_inner env t name capture ls st2 in (st3, (t, ls_callback l) # tr))))"

text \<open>Invoke, for each step of the path: nothing once the propagation is stopped.\<close>
fun std_path ::
    "('c, 'w) page_env \<Rightarrow> string \<Rightarrow> (node_id option \<times> bool) list \<Rightarrow> ('c, 'w) page_events \<Rightarrow> ('c, 'w) page_events \<times> 'c calls" where
  "std_path env name [] st = (st, [])"
| "std_path env name ((t, capture) # steps) st =
    (if ev_stopped st then (st, [])
     else (let (st1, tr1) = std_inner env t name capture (listeners_at t name st) st;
               (st2, tr2) = std_path env name steps st1
           in (st2, tr1 @ tr2)))"

text \<open>Dispatch of a bubbling event: from the window down to the target, capturing, and back up.\<close>
definition std_dispatch ::
    "('c, 'w) page_env \<Rightarrow> node_id list \<Rightarrow> string \<Rightarrow> ('c, 'w) page_events \<Rightarrow> ('c, 'w) page_events \<times> 'c calls" where
  "std_dispatch env path name st =
    (let targets = map Some path @ [None]
     in std_path env name (map (\<lambda>t. (t, True)) (rev targets) @ map (\<lambda>t. (t, False)) targets) st)"

section \<open>Listeners that are never removed\<close>

text \<open>A script that removes no listener, adds none that is to be called only once, and sets no
  handler property for the event.  (The code drops the third argument of the window's
  \<open>addEventListener\<close>: its listeners neither capture nor are called once.)\<close>
fun calm_call :: "string \<Rightarrow> 'c page_call \<Rightarrow> bool" where
  "calm_call ev (AddListener n name cb capture once) = (\<not> once)"
| "calm_call ev (RemoveListener n name cb capture) = False"
| "calm_call ev (RemoveWindowListener name cb) = False"
| "calm_call ev (SetHandler m name cb) = (name = on_name ev \<longrightarrow> cb = None)"
| "calm_call ev c = True"

primrec calm :: "string \<Rightarrow> ('c, 'w) page_js \<Rightarrow> bool" where
  "calm ev (Finish e w) = True"
| "calm ev (Call c k) = (calm_call ev c \<and> (\<forall>b. calm ev (k b)))"

definition calm_env :: "string \<Rightarrow> ('c, 'w) page_env \<Rightarrow> bool" where
  "calm_env ev env \<longleftrightarrow> (\<forall>cb cur w. calm ev (pe_call env cb cur w))"

text \<open>No once-listener is registered, no listener of the window captures, no target has a handler
  property for the event, and an event that is stopped immediately is stopped.\<close>
definition page_ok :: "string \<Rightarrow> ('c, 'w) page_events \<Rightarrow> bool" where
  "page_ok ev st \<longleftrightarrow> (\<forall>n name. \<forall>l\<in>set (node_listeners n name st). \<not> ls_once l)
     \<and> (\<forall>name. \<forall>l\<in>set (window_listeners name st). \<not> ls_once l \<and> \<not> ls_capture l)
     \<and> (\<forall>m. ev_handlers st m (on_name ev) = None)
     \<and> (ev_immediate st \<longrightarrow> ev_stopped st)"

definition grows :: "string \<Rightarrow> ('c, 'w) page_events \<Rightarrow> ('c, 'w) page_events \<Rightarrow> bool" where
  "grows ev st st1 \<longleftrightarrow> page_ok ev st1 \<and> ev_wrapped st \<subseteq> ev_wrapped st1
     \<and> (\<forall>n name. set (node_listeners n name st) \<subseteq> set (node_listeners n name st1))
     \<and> (\<forall>name. set (window_listeners name st) \<subseteq> set (window_listeners name st1))"

lemma grows_refl: "page_ok ev st \<Longrightarrow> grows ev st st"
  by (simp add: grows_def)

lemma grows_trans: "grows ev a b \<Longrightarrow> grows ev b c \<Longrightarrow> grows ev a c"
  unfolding grows_def by (meson subset_trans)

lemma grows_ok: "grows ev st st1 \<Longrightarrow> page_ok ev st1"
  by (simp add: grows_def)

lemma page_okD:
  assumes "page_ok ev st"
  shows "l \<in> set (node_listeners n name st) \<Longrightarrow> \<not> ls_once l"
    "l \<in> set (window_listeners name st) \<Longrightarrow> \<not> ls_once l \<and> \<not> ls_capture l"
    "ev_handlers st m (on_name ev) = None" "ev_immediate st \<Longrightarrow> ev_stopped st"
  using assms unfolding page_ok_def by blast+

lemma growsD:
  assumes "grows ev st st1"
  shows "set (node_listeners n name st) \<subseteq> set (node_listeners n name st1)"
    "set (window_listeners name st) \<subseteq> set (window_listeners name st1)" "n \<in> ev_wrapped st \<Longrightarrow> n \<in> ev_wrapped st1"
  using assms unfolding grows_def by blast+

lemma node_listeners_add:
  "node_listeners m nm (add_event_listener n name cb c once st) =
    (if m = n \<and> nm = name then add_to_list \<lparr> ls_callback = cb, ls_capture = c, ls_once = once \<rparr> (node_listeners n name st)
     else node_listeners m nm st)"
  by (auto simp: node_listeners_def add_event_listener_def Let_def split: option.splits)

lemma window_listeners_add:
  "window_listeners nm (window_add_event_listener name cb st) =
    (if nm = name \<and> (\<forall>k\<in>set (window_listeners name st). ls_callback k \<noteq> cb)
     then window_listeners name st @ [\<lparr> ls_callback = cb, ls_capture = False, ls_once = False \<rparr>] else window_listeners nm st)"
  by (auto simp: window_listeners_def window_add_event_listener_def Let_def split: option.splits)

lemma add_frame [simp]:
  "ev_window (add_event_listener n name cb c once st) = ev_window st"
  "ev_handlers (add_event_listener n name cb c once st) = ev_handlers st"
  "ev_wrapped (add_event_listener n name cb c once st) = ev_wrapped st"
  "ev_stopped (add_event_listener n name cb c once st) = ev_stopped st"
  "ev_immediate (add_event_listener n name cb c once st) = ev_immediate st"
  "ev_nodes (window_add_event_listener name cb st) = ev_nodes st"
  "ev_handlers (window_add_event_listener name cb st) = ev_handlers st"
  "ev_wrapped (window_add_event_listener name cb st) = ev_wrapped st"
  "ev_stopped (window_add_event_listener name cb st) = ev_stopped st"
  "ev_immediate (window_add_event_listener name cb st) = ev_immediate st"
  by (simp_all add: add_event_listener_def window_add_event_listener_def Let_def)

lemma listeners_cong: "ev_nodes st1 = ev_nodes st \<Longrightarrow> node_listeners n name st1 = node_listeners n name st"
  "ev_window st1 = ev_window st \<Longrightarrow> window_listeners name st1 = window_listeners name st"
  by (simp_all add: node_listeners_def window_listeners_def)

lemma set_add_to_list: "set ls \<subseteq> set (add_to_list l ls)" "set (add_to_list l ls) \<subseteq> insert l (set ls)"
  by (auto simp: add_to_list_def)

text \<open>An update of the other fields.\<close>
lemma grows_frame:
  assumes "page_ok ev st" "ev_nodes st1 = ev_nodes st" "ev_window st1 = ev_window st" "ev_wrapped st \<subseteq> ev_wrapped st1"
    "\<forall>m. ev_handlers st1 m (on_name ev) = None" "ev_immediate st1 \<longrightarrow> ev_stopped st1"
  shows "grows ev st st1"
  using assms listeners_cong(1) [OF assms(2)] listeners_cong(2) [OF assms(3)] by (simp add: grows_def page_ok_def)

lemma node_wrapper_grows: "page_ok ev st \<Longrightarrow> grows ev st (node_wrapper n st)"
  by (rule grows_frame) (auto simp: node_wrapper_def page_ok_def)

lemma update_grows:
  assumes "page_ok ev st" "calm_call ev c"
  shows "grows ev st (page_update c st)"
proof (cases c)
  case (AddListener n name cb capture once)
  have o: "\<not> once" using assms(2) AddListener by simp
  let ?st = "node_wrapper n st"
  let ?l = "\<lparr> ls_callback = cb, ls_capture = capture, ls_once = once \<rparr>"
  have g: "grows ev st ?st" by (rule node_wrapper_grows [OF assms(1)])
  have e: "window_listeners nm (add_event_listener n name cb capture once ?st) = window_listeners nm ?st" for nm
    by (rule listeners_cong) simp
  have "grows ev ?st (add_event_listener n name cb capture once ?st)"
    using grows_ok [OF g] o set_add_to_list(1) [of "node_listeners n name ?st" ?l] set_add_to_list(2) [of ?l "node_listeners n name ?st"]
    unfolding grows_def page_ok_def node_listeners_add e by (auto split: if_splits)
  then show ?thesis using grows_trans [OF g] AddListener by simp
next
  case (AddWindowListener name cb)
  have e: "node_listeners m nm (window_add_event_listener name cb st) = node_listeners m nm st" for m nm
    by (rule listeners_cong) simp
  have "grows ev st (window_add_event_listener name cb st)"
    using assms(1) unfolding grows_def page_ok_def window_listeners_add e by auto
  then show ?thesis using AddWindowListener by simp
next
  case (SetHandler m name cb)
  show ?thesis
    by (rule grows_frame [OF assms(1)]; cases m) (use assms in \<open>auto simp: SetHandler node_wrapper_def page_ok_def split: if_splits\<close>)
next
  case (GetWrapper n) then show ?thesis using node_wrapper_grows [OF assms(1)] by simp
next
  case PreventDefault show ?thesis unfolding PreventDefault by (rule grows_frame [OF assms(1)]) (use assms(1) in \<open>auto simp: page_ok_def\<close>)
next
  case StopPropagation show ?thesis unfolding StopPropagation by (rule grows_frame [OF assms(1)]) (use assms(1) in \<open>auto simp: page_ok_def\<close>)
next
  case StopImmediatePropagation
  show ?thesis unfolding StopImmediatePropagation by (rule grows_frame [OF assms(1)]) (use assms(1) in \<open>auto simp: page_ok_def\<close>)
next
  case DefaultPrevented then show ?thesis using grows_refl [OF assms(1)] by simp
qed (use assms in simp_all)

lemma exec_grows: "page_ok ev st \<Longrightarrow> calm ev code \<Longrightarrow> grows ev st (fst (exec_page code st))"
proof (induction code arbitrary: st)
  case (Finish e w)
  have "grows ev st (st\<lparr>ev_world := w\<rparr>)" by (rule grows_frame [OF Finish.prems(1)]) (use Finish.prems(1) in \<open>simp_all add: page_ok_def\<close>)
  then show ?case by simp
next
  case (Call c k)
  have g: "grows ev st (page_update c st)" using update_grows Call.prems by auto
  then have "grows ev (page_update c st) (fst (exec_page (k (page_answer c st)) (page_update c st)))"
    using Call.IH [OF _ grows_ok [OF g]] Call.prems(2) by simp
  then show ?case using grows_trans [OF g] by simp
qed

lemma call_grows: "page_ok ev st \<Longrightarrow> calm_env ev env \<Longrightarrow> grows ev st (call_listener env cur cb st)"
proof -
  assume a: "page_ok ev st" "calm_env ev env"
  obtain st1 e where x: "exec_page (pe_call env cb cur (ev_world st)) st = (st1, e)" by fastforce
  have g: "grows ev st st1" using exec_grows [OF a(1), of "pe_call env cb cur (ev_world st)"] a(2) by (simp add: x calm_env_def)
  have "grows ev st1 (report_page_error what e st1)" for what
    by (rule grows_frame [OF grows_ok [OF g]])
      (use grows_ok [OF g] in \<open>auto simp: report_page_error_def page_ok_def split: option.split\<close>)
  then show "grows ev st (call_listener env cur cb st)" using grows_trans [OF g] by (simp add: call_listener_def x)
qed

section \<open>Agreement\<close>

lemma retain_same:
  assumes "page_ok ev st" shows "retain_listeners (\<lambda>l. \<not> (ls_once l \<and> P l)) n name st = st"
proof (cases "ev_nodes st n")
  case (Some m)
  show ?thesis
  proof (cases "m name")
    case ls: (Some ls)
    then have "node_listeners n name st = ls" using Some by (simp add: node_listeners_def)
    then have "\<forall>l\<in>set ls. \<not> ls_once l" using page_okD(1) [OF assms] by blast
    then have "filter (\<lambda>l. \<not> (ls_once l \<and> P l)) ls = ls" by (auto intro: filter_True)
    moreover have "m(name \<mapsto> ls) = m" "(ev_nodes st)(n \<mapsto> m) = ev_nodes st" using Some ls by (simp_all add: fun_upd_idem)
    ultimately show ?thesis using Some ls by (simp add: retain_listeners_def)
  qed (simp add: retain_listeners_def Some)
qed (simp add: retain_listeners_def)

lemma window_retain_same:
  assumes "page_ok ev st" shows "window_retain (\<lambda>l. \<not> ls_once l) name st = st"
proof (cases "ev_window st name")
  case (Some ls)
  then have "window_listeners name st = ls" by (simp add: window_listeners_def)
  then have "\<forall>l\<in>set ls. \<not> ls_once l" using page_okD(2) [OF assms] by blast
  then have "filter (\<lambda>l. \<not> ls_once l) ls = ls" by (auto intro: filter_True)
  moreover have "(ev_window st)(name \<mapsto> ls) = ev_window st" using Some by (simp add: fun_upd_idem)
  ultimately show ?thesis using Some by (simp add: window_retain_def)
qed (simp add: window_retain_def)

lemma gather_same: "page_ok ev st \<Longrightarrow> gather P n name st = (map ls_callback (filter P (node_listeners n name st)), st)"
  unfolding gather_def by (subst retain_same) simp_all

text \<open>The callbacks of a target, one by one.\<close>
lemma call_all_append:
  "call_all env cur (xs @ ys) st =
    (let (st1, tr1, brk) = call_all env cur xs st
     in if brk then (st1, tr1, True) else (let (st2, tr2, brk2) = call_all env cur ys st1 in (st2, tr1 @ tr2, brk2)))"
  by (induction xs arbitrary: st) (auto simp: Let_def split: prod.splits)

lemma call_all_grows:
  "page_ok ev st \<Longrightarrow> calm_env ev env \<Longrightarrow> grows ev st (fst (call_all env cur cbs st))
    \<and> (snd (snd (call_all env cur cbs st)) \<longrightarrow> ev_stopped (fst (call_all env cur cbs st)))"
proof (induction cbs arbitrary: st)
  case (Cons cb cbs)
  let ?st = "call_listener env cur cb st"
  have g: "grows ev st ?st" by (rule call_grows [OF Cons.prems])
  have "ev_immediate ?st \<Longrightarrow> ev_stopped ?st" using grows_ok [OF g] by (simp add: page_ok_def)
  moreover note Cons.IH [OF grows_ok [OF g] Cons.prems(2)]
  ultimately show ?case using g grows_trans [OF g] by (auto simp: Let_def split: prod.split)
qed (simp add: grows_refl)

lemma wrapper_idem: "n \<in> ev_wrapped st \<Longrightarrow> node_wrapper n st = st"
  by (simp add: node_wrapper_def insert_absorb)

lemma expose_facts [simp]:
  "listeners_at t name (expose u st) = listeners_at t name st" "expose t (expose t st) = expose t st"
  by (auto simp: listeners_at_def expose_def node_wrapper_def node_listeners_def window_listeners_def split: option.split)

lemma expose_grows: "page_ok ev st \<Longrightarrow> grows ev st (expose t st)"
  using node_wrapper_grows grows_refl by (cases t) (auto simp: expose_def)

lemma grows_exposed:
  assumes "grows ev st st1" "expose t st = st" shows "expose t st1 = st1"
proof (cases t)
  case (Some n)
  with assms(2) have "ev_wrapped (node_wrapper n st) = ev_wrapped st" by (simp add: expose_def)
  then have "n \<in> ev_wrapped st" by (auto simp: node_wrapper_def)
  then show ?thesis using growsD(3) [OF assms(1)] Some by (simp add: expose_def wrapper_idem)
qed (simp add: expose_def)

lemma grows_listeners_at:
  assumes "grows ev st st1" shows "set (listeners_at t name st) \<subseteq> set (listeners_at t name st1)"
  using growsD(1,2) [OF assms] by (cases t) (simp_all add: listeners_at_def)

lemma listeners_at_once:
  assumes "page_ok ev st" "l \<in> set (listeners_at t name st)" shows "\<not> ls_once l"
proof (cases t)
  case None
  then show ?thesis using page_okD(2) [OF assms(1), of l name] assms(2) by (simp add: listeners_at_def)
next
  case (Some n)
  then show ?thesis using page_okD(1) [OF assms(1), of l n name] assms(2) by (simp add: listeners_at_def)
qed

text \<open>The calls at one target.\<close>
definition run_target :: "('c, 'w) page_env \<Rightarrow> node_id option \<Rightarrow> 'c list \<Rightarrow> ('c, 'w) page_events \<Rightarrow> ('c, 'w) page_events \<times> 'c calls \<times> bool" where
  "run_target env t cbs st = (if cbs = [] then (st, [], False) else call_all env t cbs (expose t st))"

lemma run_target_grows:
  assumes "page_ok ev st" "calm_env ev env"
  shows "grows ev st (fst (run_target env t cbs st))
    \<and> (snd (snd (run_target env t cbs st)) \<longrightarrow> ev_stopped (fst (run_target env t cbs st)))"
proof (cases "cbs = []")
  case True then show ?thesis using assms(1) by (simp add: run_target_def grows_refl)
next
  case False
  note w = expose_grows [OF assms(1), of t]
  note c = call_all_grows [OF grows_ok [OF w] assms(2), of t cbs]
  show ?thesis unfolding run_target_def if_not_P [OF False] using c grows_trans [OF w] by blast
qed

lemma std_inner_calls:
  "page_ok ev st \<Longrightarrow> calm_env ev env \<Longrightarrow> set ls \<subseteq> set (listeners_at t name st) \<Longrightarrow> expose t st = st \<Longrightarrow>
    std_inner env t name capture ls st =
      (case call_all env t (map ls_callback (filter (\<lambda>l. ls_capture l = capture) ls)) st of (st1, tr, brk) \<Rightarrow> (st1, tr))"
proof (induction ls arbitrary: st)
  case (Cons l ls)
  show ?case
  proof (cases "ls_capture l = capture")
    case False then show ?thesis using Cons by simp
  next
    case True
    have once: "\<not> ls_once l" using listeners_at_once [OF Cons.prems(1)] Cons.prems(3) by auto
    let ?st = "call_listener env t (ls_callback l) st"
    have g: "grows ev st ?st" by (rule call_grows [OF Cons.prems(1,2)])
    have "set ls \<subseteq> set (listeners_at t name ?st)" using grows_listeners_at [OF g] Cons.prems(3) by fastforce
    note IH = Cons.IH [OF grows_ok [OF g] Cons.prems(2) this grows_exposed [OF g Cons.prems(4)]]
    show ?thesis using Cons.prems(3,4) True once by (simp add: Let_def IH split: prod.split)
  qed
qed simp

lemma std_inner_none: "\<forall>l\<in>set ls. ls_capture l \<noteq> capture \<Longrightarrow> std_inner env t name capture ls st = (st, [])"
  by (induction ls) auto

text \<open>The first call makes the wrapper.\<close>
lemma std_inner_exposes:
  assumes "filter (\<lambda>l. ls_capture l = capture) ls \<noteq> []" "set ls \<subseteq> set (listeners_at t name st)" "page_ok ev st"
  shows "std_inner env t name capture ls st = std_inner env t name capture ls (expose t st)"
  using assms
proof (induction ls)
  case (Cons l ls)
  have "\<not> ls_once l" using Cons.prems(2) listeners_at_once [OF Cons.prems(3)] by auto
  then show ?case using Cons by auto
qed simp

lemma target_run:
  assumes "page_ok ev st" "calm_env ev env"
  shows "std_inner env t name capture (listeners_at t name st) st =
    (case run_target env t (map ls_callback (filter (\<lambda>l. ls_capture l = capture) (listeners_at t name st))) st of
       (st1, tr, brk) \<Rightarrow> (st1, tr))"
proof (cases "filter (\<lambda>l. ls_capture l = capture) (listeners_at t name st) = []")
  case True
  then show ?thesis using std_inner_none [of "listeners_at t name st" capture] by (simp add: run_target_def filter_empty_conv)
next
  case False
  note g = grows_ok [OF expose_grows [OF assms(1), of t]]
  show ?thesis using False std_inner_calls [OF g assms(2), of "listeners_at t name st" t name capture]
    by (simp add: run_target_def std_inner_exposes [OF False subset_refl assms(1)])
qed

lemma std_path_append:
  "std_path env name (p @ q) st = (let (st1, tr1) = std_path env name p st; (st2, tr2) = std_path env name q st1 in (st2, tr1 @ tr2))"
proof (induction env name p st rule: std_path.induct)
  case (2 env name t capture steps st)
  show ?case
  proof (cases "ev_stopped st")
    case True then show ?thesis by (cases q) auto
  next
    case False then show ?thesis using 2 by (auto simp: Let_def split: prod.splits)
  qed
qed simp

lemma std_path_stopped: "ev_stopped st \<Longrightarrow> std_path env name p st = (st, [])"
  by (cases p) auto

lemma std_path_grows: "page_ok ev st \<Longrightarrow> calm_env ev env \<Longrightarrow> grows ev st (fst (std_path env name p st))"
proof (induction p arbitrary: st)
  case (Cons x p)
  obtain t capture where x: "x = (t, capture)" by fastforce
  let ?cbs = "map ls_callback (filter (\<lambda>l. ls_capture l = capture) (listeners_at t name st))"
  obtain st1 tr brk where r: "run_target env t ?cbs st = (st1, tr, brk)" by (cases "run_target env t ?cbs st")
  have g: "grows ev st st1" using run_target_grows [OF Cons.prems, of t ?cbs] r by simp
  obtain st2 tr2 where p: "std_path env name p st1 = (st2, tr2)" by fastforce
  have "grows ev st st2" using grows_trans [OF g Cons.IH [OF grows_ok [OF g] Cons.prems(2)]] p by simp
  then show ?case using grows_refl [OF Cons.prems(1)] by (simp add: x target_run [OF Cons.prems] r p Let_def)
qed (simp add: grows_refl)

lemma capture_phase_std:
  "page_ok ev st \<Longrightarrow> calm_env ev env \<Longrightarrow> \<not> ev_stopped st \<Longrightarrow>
    capture_phase env name ns st = std_path env name (map (\<lambda>n. (Some n, True)) ns) st"
proof (induction ns arbitrary: st)
  case (Cons n ns)
  let ?cbs = "map ls_callback (filter ls_capture (node_listeners n name st))"
  note std = target_run [OF Cons.prems(1,2), of "Some n" name True]
  obtain st1 tr brk where r: "run_target env (Some n) ?cbs st = (st1, tr, brk)" by (cases "run_target env (Some n) ?cbs st")
  have g: "grows ev st st1" "brk \<Longrightarrow> ev_stopped st1" using run_target_grows [OF Cons.prems(1,2), of "Some n" ?cbs] r by simp_all
  show ?case
  proof (cases "?cbs = []")
    case True
    then have "st1 = st" "tr = []" using r by (simp_all add: run_target_def)
    then show ?thesis using Cons True std r by (simp add: gather_same [OF Cons.prems(1)] listeners_at_def)
  next
    case False
    then have "call_all env (Some n) ?cbs (node_wrapper n st) = (st1, tr, brk)" using r unfolding run_target_def expose_def by simp
    then show ?thesis using False std r g Cons.prems Cons.IH [OF grows_ok [OF g(1)]]
      by (auto simp: gather_same [OF Cons.prems(1)] std_path_stopped listeners_at_def Let_def split: prod.splits)
  qed
qed simp

lemma no_handler: "page_ok ev st \<Longrightarrow> on_handler n ev st = []"
  by (simp add: on_handler_def page_okD(3))

lemma bubble_phase_std:
  "page_ok name st \<Longrightarrow> calm_env name env \<Longrightarrow> \<not> ev_stopped st \<Longrightarrow>
    bubble_phase env name True is_target ns st = std_path env name (map (\<lambda>n. (Some n, False)) ns) st"
proof (induction ns arbitrary: st is_target)
  case (Cons n ns)
  let ?cbs = "map ls_callback (filter (\<lambda>l. \<not> ls_capture l) (node_listeners n name st))"
  note std = target_run [OF Cons.prems(1,2), of "Some n" name False]
  note same = gather_same [OF Cons.prems(1)] no_handler [OF Cons.prems(1)] listeners_at_def
  obtain st1 tr brk where r: "run_target env (Some n) ?cbs st = (st1, tr, brk)" by (cases "run_target env (Some n) ?cbs st")
  have g: "grows name st st1" "brk \<Longrightarrow> ev_stopped st1" using run_target_grows [OF Cons.prems(1,2), of "Some n" ?cbs] r by simp_all
  show ?case
  proof (cases "?cbs = []")
    case True
    then have "st1 = st" "tr = []" using r by (simp_all add: run_target_def)
    then show ?thesis using Cons True std r by (simp add: same)
  next
    case False
    then have "call_all env (Some n) ?cbs (node_wrapper n st) = (st1, tr, brk)"
      using r by (simp only: run_target_def expose_def if_not_P [OF False] if_False option.case)
    then show ?thesis using False std r g Cons.prems Cons.IH [OF grows_ok [OF g(1)]]
      by (auto simp: same std_path_stopped Let_def split: prod.splits)
  qed
qed simp

lemma window_phase_std:
  assumes "page_ok ev st" "calm_env ev env" "\<not> ev_stopped st"
  shows "window_phase env name st = std_path env name [(None, False)] st"
proof -
  have "filter (\<lambda>l. ls_capture l = False) (window_listeners name st) = window_listeners name st"
    using page_okD(2) [OF assms(1)] by (intro filter_True) auto
  then show ?thesis using target_run [OF assms(1,2), of None name False] assms(3)
    by (auto simp: window_phase_def window_retain_same [OF assms(1)] listeners_at_def run_target_def expose_def Let_def
        split: prod.splits)
qed

text \<open>On the way down the window has nothing to call.\<close>
lemma window_captures_nothing:
  assumes "page_ok ev st" "\<not> ev_stopped st"
  shows "std_path env name ((None, True) # p) st = std_path env name p st"
proof -
  have "std_inner env None name True (window_listeners name st) st = (st, [])"
    using page_okD(2) [OF assms(1)] by (intro std_inner_none) auto
  then show ?thesis using assms(2) by (simp add: listeners_at_def)
qed

lemma deliver_std:
  assumes ok: "page_ok name st" and calm: "calm_env name env" and run: "\<not> ev_stopped st"
  shows "deliver env path name True st = std_dispatch env path name st"
proof -
  obtain st1 tr1 where c: "std_path env name (map (\<lambda>n. (Some n, True)) (rev path)) st = (st1, tr1)" by fastforce
  have g1: "grows name st st1" using std_path_grows [OF ok calm] c by (metis fst_conv)
  obtain st2 tr2 where b: "std_path env name (map (\<lambda>n. (Some n, False)) path) st1 = (st2, tr2)" by fastforce
  have g2: "grows name st1 st2" using std_path_grows [OF grows_ok [OF g1] calm] b by (metis fst_conv)
  obtain st3 tr3 where w: "std_path env name [(None, False)] st2 = (st3, tr3)" by fastforce
  have "std_dispatch env path name st =
      std_path env name (map (\<lambda>n. (Some n, True)) (rev path) @ map (\<lambda>n. (Some n, False)) path @ [(None, False)]) st"
    unfolding std_dispatch_def Let_def
    using window_captures_nothing [OF ok run] by (simp add: rev_map comp_def)
  then have s: "std_dispatch env path name st = (st3, tr1 @ tr2 @ tr3)"
    unfolding std_path_append c b w Let_def prod.case .
  have b2: "(if ev_stopped st1 then (st1, []) else bubble_phase env name True True path st1) = (st2, tr2)"
    using bubble_phase_std [OF grows_ok [OF g1] calm, of True path] std_path_stopped [of st1 env name] b
    by (cases "ev_stopped st1") simp_all
  have w2: "(if True \<and> \<not> ev_stopped st2 then window_phase env name st2 else (st2, [])) = (st3, tr3)"
    using window_phase_std [OF grows_ok [OF g2] calm] std_path_stopped [of st2 env name] w
    by (cases "ev_stopped st2") simp_all
  show ?thesis unfolding s deliver_def capture_phase_std [OF ok calm run] if_True c Let_def prod.case b2 w2 ..
qed

lemma std_path_silent:
  "\<forall>(t, c)\<in>set p. listeners_at t name st = [] \<Longrightarrow> std_path env name p st = (st, [])"
  by (induction p) auto

text \<open>C33. The delivery of a bubbling event is that of the DOM standard.  For every page, every path and
  every script that removes no listener, registers no once-listener and sets no \<open>on<event>\<close>
  property for the event (nor has the page one), whatever else its listeners do (register listeners,
  also on nodes the event has yet to reach, throw, prevent the default, stop the propagation), the
  calls that are made, their order and their current targets are those of the algorithm of the
  standard: capturing listeners from the window to the target, the others from the target back to
  the window, until the propagation is stopped.  So is the state they leave.  The document is told
  that the event is cancelled if a listener prevented it (as the standard has it for a cancelable
  event), that it is stopped if one stopped it, and to redraw if one was called.  In particular
  the shortcut for pages without listeners misses none.\<close>
theorem dispatch_matches_standard:
  assumes ok: "page_ok name st" and calm: "calm_env name env" and path: "path \<noteq> []"
    and std: "std_dispatch env path name (create_event (node_wrapper (hd path) st)) = (s, tr)"
  shows "\<exists>st1. dispatch_event_inner env path name True st es =
      Some (st1, \<lparr> cancelled = (cancelled es \<or> ev_prevented s), propagation_stopped = (propagation_stopped es \<or> ev_stopped s),
                   redraw_requested = (redraw_requested es \<or> tr \<noteq> []) \<rparr>, tr)
    \<and> (st1 = s \<or> tr = [] \<and> st1 = st)"
proof -
  let ?st = "create_event (node_wrapper (hd path) st)"
  have ok1: "page_ok name ?st" using grows_ok [OF node_wrapper_grows [OF ok, of "hd path"]]
    by (simp add: create_event_def page_ok_def node_listeners_def window_listeners_def)
  have fb: "feed_back u called es = \<lparr> cancelled = (cancelled es \<or> ev_prevented u),
      propagation_stopped = (propagation_stopped es \<or> ev_stopped u), redraw_requested = (redraw_requested es \<or> called) \<rparr>"
    for u :: "('c, 'w) page_events" and called
    by (cases es) (simp add: feed_back_def prevent_default_def stop_propagation_def request_redraw_def Let_def)
  show ?thesis
  proof (cases "may_have_listeners path name st")
    case True
    have "deliver env path name True ?st = (s, tr)" unfolding std [symmetric]
      by (rule deliver_std [OF ok1 calm]) (simp add: create_event_def)
    then show ?thesis using True path by (cases path) (simp_all add: dispatch_event_inner_def fb)
  next
    case False
    have same: "listeners_at t name ?st = listeners_at t name st" for t
      by (simp add: listeners_at_def create_event_def node_wrapper_def node_listeners_def window_listeners_def split: option.split)
    have "listeners_at t name ?st = []" if "t \<in> set (map Some path @ [None])" for t
      using False that unfolding same by (auto simp: may_have_listeners_def listeners_at_def)
    then have "std_dispatch env path name ?st = (?st, [])" unfolding std_dispatch_def Let_def
      by (intro std_path_silent) auto
    then have "s = ?st" "tr = []" using std by auto
    then show ?thesis using False by (cases es) (simp add: dispatch_event_inner_def create_event_def)
  qed
qed

section \<open>A page\<close>

text \<open>Callback 1 (capturing, at the root) registers callback 3 on node 2; callback 4 stops the event
  and fails; callback 5 stops it immediately.\<close>
definition demo_page_env :: "(nat, nat list) page_env" where
  "demo_page_env = \<lparr> pe_call = (\<lambda>cb cur w.
      if cb = 1 then Call (AddListener (NodeId 2) ''click'' 3 False False) (\<lambda>_. Finish None (w @ [cb]))
      else if cb = 4 then Call StopPropagation (\<lambda>_. Finish (Some ''oops'') (w @ [cb]))
      else if cb = 5 then Call StopImmediatePropagation (\<lambda>_. Finish None (w @ [cb]))
      else Finish None (w @ [cb])), pe_jobs = Finish None \<rparr>"

definition demo_listener :: "nat \<Rightarrow> bool \<Rightarrow> bool \<Rightarrow> nat listener" where
  "demo_listener cb capture once = \<lparr> ls_callback = cb, ls_capture = capture, ls_once = once \<rparr>"

definition demo_page :: "nat listener list \<Rightarrow> (nat, nat list) page_events" where
  "demo_page ls = \<lparr> ev_nodes = [NodeId 1 \<mapsto> [''click'' \<mapsto> [demo_listener 1 True False]],
      NodeId 3 \<mapsto> [''click'' \<mapsto> ls]],
    ev_window = [''click'' \<mapsto> [demo_listener 7 False False]],
    ev_handlers = (\<lambda>m name. if m = Some (NodeId 2) \<and> name = ''oninput'' then Some 6 else None),
    ev_wrapped = {NodeId 2}, ev_prevented = False, ev_stopped = False, ev_immediate = False, ev_errors = [], ev_world = [] \<rparr>"

lemma demo_env_calm: "calm_env ev demo_page_env"
  by (simp add: calm_env_def demo_page_env_def)

lemma demo_page_ok: "\<forall>l\<in>set ls. \<not> ls_once l \<Longrightarrow> page_ok ''click'' (demo_page ls)"
  by (auto simp: page_ok_def demo_page_def on_name_def node_listeners_def window_listeners_def demo_listener_def split: if_splits option.splits)

definition demo_path :: "node_id list" where
  "demo_path = [NodeId 3, NodeId 2, NodeId 1]"

definition demo_start :: "(nat, nat list) page_events" where
  "demo_start = demo_page [demo_listener 2 False False]"

definition demo_end :: "(nat, nat list) page_events" where
  "demo_end = fst (std_dispatch demo_page_env demo_path ''click'' (create_event (node_wrapper (hd demo_path) demo_start)))"

definition demo_calls :: "nat calls" where
  "demo_calls = [(Some (NodeId 1), 1), (Some (NodeId 3), 2), (Some (NodeId 2), 3), (None, 7)]"

lemma demo_calls: "snd (std_dispatch demo_page_env demo_path ''click'' (create_event (node_wrapper (hd demo_path) demo_start))) = demo_calls"
  by code_simp

lemma demo_std: "std_dispatch demo_page_env demo_path ''click'' (create_event (node_wrapper (hd demo_path) demo_start)) = (demo_end, demo_calls)"
  unfolding demo_end_def demo_calls [symmetric] by simp

lemma demo_start_ok: "page_ok ''click'' demo_start" "demo_path \<noteq> []"
  unfolding demo_start_def by (rule demo_page_ok) (simp_all add: demo_listener_def demo_path_def)

theorem dispatch_matches_standard_witness:
  "\<exists>st1. dispatch_event_inner demo_page_env demo_path ''click'' True demo_start event_state_default
      = Some (st1, \<lparr> cancelled = ev_prevented demo_end, propagation_stopped = ev_stopped demo_end, redraw_requested = True \<rparr>,
          demo_calls)
    \<and> st1 = demo_end"
  using dispatch_matches_standard [OF demo_start_ok(1) demo_env_calm demo_start_ok(2) demo_std, of event_state_default]
  by (simp add: demo_calls_def event_state_default_def)

text \<open>With a once-listener the two differ: one that is behind a listener which stops the event
  immediately is retired although it was never called.\<close>
lemma once_listener_lost:
  "map_option (\<lambda>(st, es, tr). (tr, map ls_callback (node_listeners (NodeId 3) ''click'' st)))
     (dispatch_event_inner demo_page_env [NodeId 3] ''click'' True (demo_page [demo_listener 5 False False, demo_listener 8 False True]) event_state_default)
   = Some ([(Some (NodeId 3), 5)], [5])"
  "(case std_dispatch demo_page_env [NodeId 3] ''click'' (demo_page [demo_listener 5 False False, demo_listener 8 False True]) of
     (st, tr) \<Rightarrow> (tr, map ls_callback (node_listeners (NodeId 3) ''click'' st))) = ([(Some (NodeId 3), 5)], [5, 8])"
  by code_simp+

text \<open>So they do with a handler property that was set before a listener was added: the standard
  calls them in that order, the code the listener first.\<close>
lemma handler_called_last:
  "map_option (\<lambda>(st, es, tr). tr) (dispatch_event_inner demo_page_env [NodeId 2] ''input'' True
     (add_event_listener (NodeId 2) ''input'' 9 False False (demo_page [])) event_state_default)
   = Some [(Some (NodeId 2), 9), (Some (NodeId 2), 6)]"
  by code_simp

text \<open>An event of the window does not heed \<open>stopImmediatePropagation\<close>.\<close>
lemma window_event_not_stopped:
  "snd (dispatch_window_event demo_page_env ''load'' ((demo_page [])\<lparr>ev_window := [''load'' \<mapsto> [demo_listener 5 False False, demo_listener 8 False False]]\<rparr>))
   = [(None, 5), (None, 8)]"
  by code_simp

end
