(* ===== verification/Script_Loading.thy ===== *)
theory Script_Loading
  imports Script_Tasks Dom_Order Dom_Lifetime
begin

text \<open>
  How a document runs its scripts (\<open>strake-vibey-script/src/document.rs\<close>, the walks over the
  tree and the module loader of \<open>runtime.rs\<close>).

  What is behind the engine, the fetcher, the URL parser and the event driver is a parameter
  (\<open>script_host\<close>), with \<open>'s\<close> for everything they change: the tree of nodes is a part of it.  The
  log lists what the page sees, in order.
\<close>

section \<open>Walks over the tree\<close>

datatype walk_next = Descend | Skip | Break

text \<open>The loop over a stack of nodes that the walks have in common.\<close>
partial_function (option) dom_walk ::
    "document \<Rightarrow> (node \<Rightarrow> ('a list \<times> walk_next) option) \<Rightarrow> node_id list \<Rightarrow> 'a list option" where
  "dom_walk d vis stk = (case stk of
      [] \<Rightarrow> Some []
    | i # stk' \<Rightarrow> (case get_node d i of
          None \<Rightarrow> dom_walk d vis stk'
        | Some n \<Rightarrow> do {
            (out, go) \<leftarrow> vis n;
            if go = Break then Some out
            else do {
              rest \<leftarrow> dom_walk d vis (if go = Descend then children n @ stk' else stk');
              Some (out @ rest)
            } }))"

declare dom_walk.simps [code]

record pending_script =
  ps_src :: "string option"
  ps_inline :: string
  ps_module :: bool

definition is_js_type :: "string \<Rightarrow> bool" where
  "is_js_type t \<longleftrightarrow> t \<in> set ['''', ''text/javascript'', ''application/javascript'', ''module'']"

definition script_type :: "element_data \<Rightarrow> string" where
  "script_type e = to_ascii_lowercase (trim (case el_attr e ''type'' of None \<Rightarrow> [] | Some t \<Rightarrow> t))"

definition visit_script :: "document \<Rightarrow> node \<Rightarrow> (pending_script list \<times> walk_next) option" where
  "visit_script d n = (case element_data n of
      None \<Rightarrow> Some ([], Descend)
    | Some e \<Rightarrow>
        if qn_local (el_name e) = ''script'' then
          (if is_js_type (script_type e) then do {
             inline \<leftarrow> text_content_of d [nid n];
             Some ([\<lparr> ps_src = el_attr e ''src'', ps_inline = inline, ps_module = (script_type e = ''module'') \<rparr>], Skip)
           } else Some ([], Skip))
        else Some ([], Descend))"

definition collect_scripts :: "document \<Rightarrow> pending_script list may_panic" where
  "collect_scripts d = do {
     r \<leftarrow> node_at d (root_node_id d);
     dom_walk d (visit_script d) [nid r]
   }"

definition visit_named :: "node \<Rightarrow> ((string \<times> node_id) list \<times> walk_next) option" where
  "visit_named n = Some (case Option.bind (element_data n) (\<lambda>e. el_attr e ''id'') of
      None \<Rightarrow> []
    | Some i \<Rightarrow> if i = [] then [] else [(i, nid n)], Descend)"

text \<open>Named access: a global for every element with an id, unless there is one of the name;
  \<open>fails\<close> says of which names the engine cannot tell or refuses the definition.\<close>
fun define_named :: "(string \<Rightarrow> bool) \<Rightarrow> (string \<times> node_id) list \<Rightarrow> (string \<rightharpoonup> node_id option) \<Rightarrow> (string \<rightharpoonup> node_id option)" where
  "define_named fails [] globals = globals"
| "define_named fails ((i, n) # ids) globals =
     define_named fails ids (if globals i \<noteq> None \<or> fails i then globals else globals(i \<mapsto> Some n))"

definition sync_named_element_globals ::
    "(string \<Rightarrow> bool) \<Rightarrow> document \<Rightarrow> (string \<rightharpoonup> node_id option) \<Rightarrow> (string \<rightharpoonup> node_id option) may_panic" where
  "sync_named_element_globals fails d globals = do {
     r \<leftarrow> node_at d (root_node_id d);
     ids \<leftarrow> dom_walk d visit_named [nid r];
     Some (define_named fails ids globals)
   }"

definition visit_body :: "node \<Rightarrow> (string option list \<times> walk_next) option" where
  "visit_body n = Some (case element_data n of
      Some e \<Rightarrow> if qn_local (el_name e) = ''body'' then ([el_attr e ''onload''], Break) else ([], Descend)
    | None \<Rightarrow> ([], Descend))"

text \<open>The script that installs the \<open>onload\<close> attribute of the body as the handler of the window.\<close>
definition body_onload_script :: "bool \<Rightarrow> document \<Rightarrow> string option may_panic" where
  "body_onload_script already_set d = do {
     r \<leftarrow> node_at d (root_node_id d);
     found \<leftarrow> dom_walk d visit_body [nid r];
     Some (case found of
         Some code # _ \<Rightarrow> if already_set then None
            else Some (''window.onload = function (event) {'' @ [CHR 0x0A] @ code @ [CHR 0x0A] @ ''};'')
       | _ \<Rightarrow> None)
   }"

section \<open>Modules\<close>

text \<open>\<open>parse\<close> gives a URL back that is absolute, \<open>join\<close> resolves against a base.\<close>
definition resolve_specifier ::
    "(string \<Rightarrow> string option) \<Rightarrow> (string \<Rightarrow> string \<Rightarrow> string option) \<Rightarrow> string option \<Rightarrow> string option \<Rightarrow> string \<Rightarrow> string option" where
  "resolve_specifier parse join base referrer specifier = (case parse specifier of
      Some u \<Rightarrow> Some u
    | None \<Rightarrow> (case (case Option.bind referrer parse of Some r \<Rightarrow> Some r | None \<Rightarrow> base) of
          None \<Rightarrow> None
        | Some b \<Rightarrow> join b specifier))"

datatype 'm module_result = Loaded 'm | Unresolved string | FetchFailed string string | ParseFailed string

definition load_imported_module ::
    "(string \<Rightarrow> string option) \<Rightarrow> (string \<Rightarrow> string \<Rightarrow> string option) \<Rightarrow> (string \<Rightarrow> string + string) \<Rightarrow> (string \<Rightarrow> string \<Rightarrow> string + 'm)
     \<Rightarrow> string option \<Rightarrow> string option \<Rightarrow> string \<Rightarrow> (string \<rightharpoonup> 'm) \<Rightarrow> 'm module_result \<times> (string \<rightharpoonup> 'm)" where
  "load_imported_module parse join fetch compile base referrer specifier modules =
    (case resolve_specifier parse join base referrer specifier of
       None \<Rightarrow> (Unresolved specifier, modules)
     | Some u \<Rightarrow> (case modules u of
           Some m \<Rightarrow> (Loaded m, modules)
         | None \<Rightarrow> (case fetch u of
               Inl e \<Rightarrow> (FetchFailed u e, modules)
             | Inr code \<Rightarrow> (case compile u code of
                   Inl e \<Rightarrow> (ParseFailed e, modules)
                 | Inr m \<Rightarrow> (Loaded m, modules(u \<mapsto> m))))))"

section \<open>The document\<close>

datatype ready_state = Loading | Interactive | Complete

definition ready_state_str :: "ready_state \<Rightarrow> string" where
  "ready_state_str r = (case r of Loading \<Rightarrow> ''loading'' | Interactive \<Rightarrow> ''interactive'' | Complete \<Rightarrow> ''complete'')"

datatype page_step = RanScript string string | RanModule string "string option" | LoadFailed string | ReadyIs ready_state
  | DocumentEvent string | InstalledOnload | WindowEvent string | RanTimers | RanUiEvent

record 's script_host =
  sh_doc :: "'s \<Rightarrow> document"
  sh_debug :: "string \<Rightarrow> string"
  sh_parse :: "string \<Rightarrow> string option"
  sh_join :: "string \<Rightarrow> string \<Rightarrow> string option"
  sh_fetch :: "string \<Rightarrow> string + string"
  sh_sync :: "'s \<Rightarrow> 's may_panic"
  sh_eval :: "string \<Rightarrow> string \<Rightarrow> 's \<Rightarrow> 's may_panic"
  sh_eval_module :: "string \<Rightarrow> string option \<Rightarrow> 's \<Rightarrow> 's may_panic"
  sh_document_event :: "string \<Rightarrow> 's \<Rightarrow> 's may_panic"
  sh_window_event :: "string \<Rightarrow> 's \<Rightarrow> 's may_panic"
  sh_install_onload :: "'s \<Rightarrow> 's may_panic"
  sh_ui_event :: "'s \<Rightarrow> 's may_panic"
  sh_run_due :: "'s \<Rightarrow> (bool \<times> 's) may_panic"
  sh_next_deadline :: "'s \<Rightarrow> nat option"

text \<open>\<open>sd_sent\<close> are the deadlines that were sent to the timer thread.\<close>
record 's script_document =
  sd_rt :: 's
  sd_base :: "string option"
  sd_executed :: bool
  sd_ready :: ready_state
  sd_errors :: "string list"
  sd_redraws :: nat
  sd_thread_enabled :: bool
  sd_sent :: "nat list"
  sd_log :: "page_step list"

text \<open>\<open>data_scheme\<close> tells that the URL of the document is the default one.\<close>
definition from_base_document :: "bool \<Rightarrow> string \<Rightarrow> 's \<Rightarrow> 's script_document" where
  "from_base_document data_scheme base rt =
    \<lparr> sd_rt = rt, sd_base = (if data_scheme then None else Some base), sd_executed = False, sd_ready = Loading, sd_errors = [],
      sd_redraws = 0, sd_thread_enabled = True, sd_sent = [], sd_log = [] \<rparr>"

definition without_timer_thread :: "'s script_document \<Rightarrow> 's script_document" where
  "without_timer_thread d = d\<lparr>sd_thread_enabled := False\<rparr>"

definition resolve_script_url :: "'s script_host \<Rightarrow> string option \<Rightarrow> string \<Rightarrow> string option" where
  "resolve_script_url h base src = (case base of Some b \<Rightarrow> sh_join h b src | None \<Rightarrow> sh_parse h src)"

definition external_script_urls :: "'s script_host \<Rightarrow> 's script_document \<Rightarrow> string list may_panic" where
  "external_script_urls h d = do {
     scripts \<leftarrow> collect_scripts (sh_doc h (sd_rt d));
     Some (List.map_filter (\<lambda>s. Option.bind (ps_src s) (resolve_script_url h (sd_base d))) scripts)
   }"

definition logged :: "page_step \<Rightarrow> 's script_document \<Rightarrow> 's script_document" where
  "logged x d = d\<lparr>sd_log := sd_log d @ [x]\<rparr>"

text \<open>Something that the engine does.\<close>
definition engine_step :: "('s \<Rightarrow> 's may_panic) \<Rightarrow> page_step \<Rightarrow> 's script_document \<Rightarrow> 's script_document may_panic" where
  "engine_step f x d = do { rt \<leftarrow> f (sd_rt d); Some (logged x (d\<lparr>sd_rt := rt\<rparr>)) }"

definition record_load_error :: "string \<Rightarrow> 's script_document \<Rightarrow> 's script_document" where
  "record_load_error msg d = logged (LoadFailed msg) (d\<lparr>sd_errors := push_error msg (sd_errors d)\<rparr>)"

text \<open>The source of a script, with its URL: a text, or why there is none.\<close>
definition script_source :: "'s script_host \<Rightarrow> string option \<Rightarrow> pending_script \<Rightarrow> string + string \<times> string option" where
  "script_source h base s = (case ps_src s of
      None \<Rightarrow> Inr (ps_inline s, None)
    | Some src \<Rightarrow> (case resolve_script_url h base src of
          None \<Rightarrow> Inl (''could not resolve script URL '' @ sh_debug h src)
        | Some u \<Rightarrow> (case sh_fetch h u of
              Inl e \<Rightarrow> Inl (''failed to fetch script '' @ u @ '': '' @ e)
            | Inr code \<Rightarrow> Inr (code, Some u))))"

definition run_script :: "'s script_host \<Rightarrow> pending_script \<Rightarrow> 's script_document \<Rightarrow> 's script_document may_panic" where
  "run_script h s d = do {
     rt \<leftarrow> sh_sync h (sd_rt d);
     let d1 = d\<lparr>sd_rt := rt\<rparr>;
     (case script_source h (sd_base d1) s of
        Inl msg \<Rightarrow> Some (record_load_error msg d1)
      | Inr (code, u) \<Rightarrow>
          if ps_module s then
            (let mu = (case u of Some _ \<Rightarrow> u | None \<Rightarrow> sd_base d1)
             in engine_step (sh_eval_module h code mu) (RanModule code mu) d1)
          else
            (let description = (case u of Some v \<Rightarrow> v | None \<Rightarrow> ''<inline script>'')
             in engine_step (sh_eval h code description) (RanScript code description) d1))
   }"

fun run_scripts :: "'s script_host \<Rightarrow> pending_script list \<Rightarrow> 's script_document \<Rightarrow> 's script_document may_panic" where
  "run_scripts h [] d = Some d"
| "run_scripts h (s # ss) d = do { d1 \<leftarrow> run_script h s d; run_scripts h ss d1 }"

definition set_ready_state :: "ready_state \<Rightarrow> 's script_document \<Rightarrow> 's script_document" where
  "set_ready_state r d = logged (ReadyIs r) (d\<lparr>sd_ready := r\<rparr>)"

definition arm_timer_thread :: "'s script_host \<Rightarrow> 's script_document \<Rightarrow> 's script_document" where
  "arm_timer_thread h d =
    (if \<not> sd_thread_enabled d then d
     else case sh_next_deadline h (sd_rt d) of None \<Rightarrow> d | Some t \<Rightarrow> d\<lparr>sd_sent := sd_sent d @ [t]\<rparr>)"

definition settled :: "'s script_host \<Rightarrow> 's script_document \<Rightarrow> 's script_document" where
  "settled h d = arm_timer_thread h (d\<lparr>sd_redraws := sd_redraws d + 1\<rparr>)"

definition execute_scripts :: "'s script_host \<Rightarrow> 's script_document \<Rightarrow> 's script_document may_panic" where
  "execute_scripts h d =
    (if sd_executed d then Some d
     else do {
       let d0 = d\<lparr>sd_executed := True\<rparr>;
       scripts \<leftarrow> collect_scripts (sh_doc h (sd_rt d0));
       d1 \<leftarrow> run_scripts h scripts d0;
       d2 \<leftarrow> engine_step (sh_document_event h ''DOMContentLoaded'') (DocumentEvent ''DOMContentLoaded'') (set_ready_state Interactive d1);
       d3 \<leftarrow> engine_step (sh_install_onload h) InstalledOnload (set_ready_state Complete d2);
       d4 \<leftarrow> engine_step (sh_window_event h ''load'') (WindowEvent ''load'') d3;
       Some (settled h d4)
     })"

definition eval_in_page :: "'s script_host \<Rightarrow> string \<Rightarrow> 's script_document \<Rightarrow> 's script_document may_panic" where
  "eval_in_page h code d = do {
     rt \<leftarrow> sh_sync h (sd_rt d);
     d1 \<leftarrow> engine_step (sh_eval h code ''<eval>'') (RanScript code ''<eval>'') (d\<lparr>sd_rt := rt\<rparr>);
     Some (settled h d1)
   }"

definition page_ui_event :: "'s script_host \<Rightarrow> 's script_document \<Rightarrow> 's script_document may_panic" where
  "page_ui_event h d = do { d1 \<leftarrow> engine_step (sh_ui_event h) RanUiEvent d; Some (settled h d1) }"

definition poll_document :: "'s script_host \<Rightarrow> 's script_document \<Rightarrow> (bool \<times> 's script_document) may_panic" where
  "poll_document h d = do {
     d1 \<leftarrow> (if sd_executed d then Some d else execute_scripts h d);
     (ran, rt) \<leftarrow> sh_run_due h (sd_rt d1);
     let d2 = (if ran then logged RanTimers (d1\<lparr>sd_rt := rt\<rparr>) else d1\<lparr>sd_rt := rt\<rparr>);
     Some (\<not> sd_executed d \<or> ran, arm_timer_thread h d2)
   }"

section \<open>The timer thread\<close>

datatype recv = Got nat | TimedOut | Disconnected

text \<open>One turn of the loop, at the time \<open>now\<close>: the new deadline and whether the event loop is woken;
  \<open>None\<close> ends the thread.\<close>
definition thread_turn :: "nat \<Rightarrow> recv \<Rightarrow> nat option \<Rightarrow> (nat option \<times> bool) option" where
  "thread_turn now r deadline = (case deadline of
      None \<Rightarrow> (case r of Got t \<Rightarrow> Some (Some t, False) | _ \<Rightarrow> None)
    | Some current \<Rightarrow>
        if current \<le> now then Some (None, True)
        else (case r of Got t \<Rightarrow> Some (Some (min t current), False) | TimedOut \<Rightarrow> Some (None, True) | Disconnected \<Rightarrow> None))"

end
