(* ===== verification/Script_Load_Order.thy ===== *)
theory Script_Load_Order
  imports Script_Loading Dom_Example
begin

text \<open>
  The scripts of a page run once, in document order, before the page is told that it is loaded.
\<close>

section \<open>The walks\<close>

lemma dom_walk_Nil [simp]: "dom_walk d vis [] = Some []"
  by (subst dom_walk.simps) simp

lemma dom_walk_Cons:
  "nodes d i = Some n \<Longrightarrow> dom_walk d vis (i # stk) = do {
     (out, go) \<leftarrow> vis n;
     if go = Break then Some out
     else do { rest \<leftarrow> dom_walk d vis (if go = Descend then children n @ stk else stk); Some (out @ rest) } }"
  by (subst dom_walk.simps) (simp add: dom_simps)

text \<open>What a walk finds that never breaks off: \<open>out\<close> of the nodes in document order, without the
  subtrees below those that are skipped.\<close>
fun tree_walk :: "(node_id \<Rightarrow> 'a list) \<Rightarrow> (node_id \<Rightarrow> bool) \<Rightarrow> tree \<Rightarrow> 'a list" where
  "tree_walk out skip (T i ts) = out i @ (if skip i then [] else concat (map (tree_walk out skip) ts))"

definition visits_as :: "document \<Rightarrow> (node \<Rightarrow> ('a list \<times> walk_next) option) \<Rightarrow> (node_id \<Rightarrow> 'a list) \<Rightarrow> (node_id \<Rightarrow> bool) \<Rightarrow> node_id set \<Rightarrow> bool" where
  "visits_as d vis out skip X \<longleftrightarrow> (\<forall>i\<in>X. \<forall>n. nodes d i = Some n \<longrightarrow> vis n = Some (out i, if skip i then Skip else Descend))"

lemma visits_as_subset: "visits_as d vis out skip X \<Longrightarrow> Y \<subseteq> X \<Longrightarrow> visits_as d vis out skip Y"
  by (auto simp: visits_as_def)

lemma dom_walk_tree:
  "represents d p t \<Longrightarrow> visits_as d vis out skip (set (preorder t)) \<Longrightarrow>
    dom_walk d vis (root t # stk) = map_option (\<lambda>r. tree_walk out skip t @ r) (dom_walk d vis stk)"
proof (induction t arbitrary: p stk)
  case (T i ts)
  from T.prems obtain n where n: "nodes d i = Some n" "children n = map root ts" "\<forall>s\<in>set ts. represents d (Some i) s"
    by (auto split: option.splits)
  have v: "vis n = Some (out i, if skip i then Skip else Descend)" using T.prems(2) n(1) by (simp add: visits_as_def)
  have "dom_walk d vis (map root us @ stk) = map_option (\<lambda>r. concat (map (tree_walk out skip) us) @ r) (dom_walk d vis stk)"
    if "set us \<subseteq> set ts" for us
    using that
  proof (induction us)
    case Nil then show ?case by (simp add: option.map_ident)
  next
    case (Cons u us)
    then have u: "u \<in> set ts" "represents d (Some i) u" using n(3) by auto
    have "dom_walk d vis (root u # map root us @ stk)
        = map_option (\<lambda>r. tree_walk out skip u @ r) (dom_walk d vis (map root us @ stk))"
      by (rule T.IH [OF u]) (rule visits_as_subset [OF T.prems(2)], use u(1) in auto)
    then show ?case using Cons by (simp add: option.map_comp comp_def)
  qed
  from this [of ts] show ?case using v n
    by (cases "dom_walk d vis stk") (simp_all add: dom_walk_Cons [OF n(1)])
qed

lemma dom_walk_doc:
  assumes "doc_tree d t" "visits_as d vis out skip (set (preorder t))"
  shows "dom_walk d vis [root t] = Some (tree_walk out skip t)"
  using dom_walk_tree [OF _ assms(2), where stk = "[]" and p = None] assms(1) by (simp add: doc_tree_def)

lemma concat_map_Nil: "\<forall>x\<in>set xs. f x = [] \<Longrightarrow> concat (map f xs) = []"
  by (induction xs) simp_all

lemma concat_map_concat: "concat (map f (concat xss)) = concat (map (\<lambda>xs. concat (map f xs)) xss)"
  by (induction xss) simp_all

lemma tree_walk_all: "tree_walk out (\<lambda>_. False) t = concat (map out (preorder t))"
proof (induction t)
  case (T i ts)
  then have "map (tree_walk out (\<lambda>_. False)) ts = map (\<lambda>s. concat (map out (preorder s))) ts" by simp
  then show ?case by (simp add: concat_map_concat comp_def cong: map_cong)
qed

text \<open>The texts of a subtree.\<close>
fun tree_text :: "document \<Rightarrow> tree \<Rightarrow> string" where
  "tree_text d (T i ts) = (case nodes d i of None \<Rightarrow> []
     | Some n \<Rightarrow> (case data n of Text s \<Rightarrow> s
         | Element e \<Rightarrow> concat (map (tree_text d) ts)
         | AnonymousBlock e \<Rightarrow> concat (map (tree_text d) ts)
         | _ \<Rightarrow> []))"

lemma text_content_Nil [simp]: "text_content_of d [] = Some []"
  by (subst text_content_of.simps) simp

lemma text_content_Cons:
  "nodes d i = Some n \<Longrightarrow> text_content_of d (i # is) = do {
     here \<leftarrow> (case data n of Text t \<Rightarrow> Some t | Element e \<Rightarrow> text_content_of d (children n)
        | AnonymousBlock e \<Rightarrow> text_content_of d (children n) | _ \<Rightarrow> Some []);
     rest \<leftarrow> text_content_of d is;
     Some (here @ rest) }"
  by (subst text_content_of.simps) (simp add: dom_simps)

lemma text_content_tree:
  "represents d p t \<Longrightarrow> text_content_of d (root t # is) = map_option (\<lambda>r. tree_text d t @ r) (text_content_of d is)"
proof (induction t arbitrary: p "is")
  case (T i ts)
  from T.prems obtain n where n: "nodes d i = Some n" "children n = map root ts" "\<forall>s\<in>set ts. represents d (Some i) s"
    by (auto split: option.splits)
  have "text_content_of d (map root us) = Some (concat (map (tree_text d) us))" if "set us \<subseteq> set ts" for us
    using that
  proof (induction us)
    case (Cons u us)
    then have "u \<in> set ts" "represents d (Some i) u" using n(3) by auto
    from T.IH [OF this, of "map root us"] Cons show ?case by simp
  qed simp
  from this [of ts] show ?case using n
    by (cases "text_content_of d is") (auto simp: text_content_Cons split: node_data.splits)
qed

text \<open>The scripts of a tree: in document order, none inside another.\<close>
definition is_script :: "document \<Rightarrow> node_id \<Rightarrow> bool" where
  "is_script d i = (case Option.bind (nodes d i) element_data of None \<Rightarrow> False | Some e \<Rightarrow> qn_local (el_name e) = ''script'')"

fun subtree_at :: "node_id \<Rightarrow> tree \<Rightarrow> tree list" where
  "subtree_at i (T j ts) = (if i = j then [T j ts] else concat (map (subtree_at i) ts))"

definition scripts_at :: "document \<Rightarrow> tree \<Rightarrow> node_id \<Rightarrow> pending_script list" where
  "scripts_at d t i = (case Option.bind (nodes d i) element_data of None \<Rightarrow> []
     | Some e \<Rightarrow> if qn_local (el_name e) = ''script'' \<and> is_js_type (script_type e)
         then [\<lparr> ps_src = el_attr e ''src'', ps_inline = concat (map (tree_text d) (subtree_at i t)),
                 ps_module = (script_type e = ''module'') \<rparr>]
         else [])"

lemma subtree_at_empty: "i \<notin> set (preorder t) \<Longrightarrow> subtree_at i t = []"
  by (induction t) auto

lemma subtree_at_text:
  assumes "represents d p t" "distinct (preorder t)" "i \<in> set (preorder t)"
  shows "text_content_of d [i] = Some (concat (map (tree_text d) (subtree_at i t)))"
  using assms
proof (induction t arbitrary: p)
  case (T j ts)
  show ?case
  proof (cases "i = j")
    case True then show ?thesis using text_content_tree [OF T.prems(1), of "[]"] by simp
  next
    case False
    then obtain s where s: "s \<in> set ts" "i \<in> set (preorder s)" using T.prems(3) by auto
    then obtain xs ys where ts: "ts = xs @ s # ys" by (meson split_list)
    have "\<forall>u\<in>set xs \<union> set ys. i \<notin> set (preorder u)" using T.prems(2) s(2) by (auto simp: ts)
    then have "\<forall>u\<in>set xs \<union> set ys. subtree_at i u = []" using subtree_at_empty by blast
    then have "subtree_at i (T j ts) = subtree_at i s" using False by (simp add: ts concat_map_Nil)
    moreover have "represents d (Some j) s" using T.prems(1) s(1) by (auto split: option.splits)
    moreover have "distinct (preorder s)" using T.prems(2) by (auto simp: ts)
    ultimately show ?thesis using T.IH [OF s(1) _ _ s(2)] by simp
  qed
qed

lemma collect_scripts_tree:
  assumes "doc_tree d t"
  shows "collect_scripts d = Some (tree_walk (scripts_at d t) (is_script d) t)"
proof -
  have r: "represents d None t" "root t = root_node_id d" "distinct (preorder t)" using assms by (simp_all add: doc_tree_def)
  obtain n where n: "nodes d (root t) = Some n" "nid n = root t" using r(1) by (rule represents_node)
  have "dom_walk d (visit_script d) [root t] = Some (tree_walk (scripts_at d t) (is_script d) t)"
  proof (rule dom_walk_doc [OF assms], unfold visits_as_def, intro ballI allI impI)
    fix i m assume i: "i \<in> set (preorder t)" "nodes d i = Some m"
    have "nid m = i" using doc_tree_live [OF assms i(1)] i(2) by auto
    then show "visit_script d m = Some (scripts_at d t i, if is_script d i then Skip else Descend)"
      using subtree_at_text [OF r(1,3) i(1)] i(2)
      by (auto simp: visit_script_def scripts_at_def is_script_def split: option.splits)
  qed
  then show ?thesis using n r(2) by (simp add: collect_scripts_def dom_simps)
qed

section \<open>Loading\<close>

text \<open>What a script of the page leaves in the log.\<close>
definition script_log :: "'s script_host \<Rightarrow> string option \<Rightarrow> pending_script \<Rightarrow> page_step" where
  "script_log h base s = (case script_source h base s of
      Inl msg \<Rightarrow> LoadFailed msg
    | Inr (code, u) \<Rightarrow>
        if ps_module s then RanModule code (case u of Some _ \<Rightarrow> u | None \<Rightarrow> base)
        else RanScript code (case u of Some v \<Rightarrow> v | None \<Rightarrow> ''<inline script>''))"

definition load_steps :: "'s script_host \<Rightarrow> string option \<Rightarrow> pending_script list \<Rightarrow> page_step list" where
  "load_steps h base ss = map (script_log h base) ss
     @ [ReadyIs Interactive, DocumentEvent ''DOMContentLoaded'', ReadyIs Complete, InstalledOnload, WindowEvent ''load'']"

datatype page_op = Execute | EvalCode string | UiEvent | PollDoc

fun page_step :: "'s script_host \<Rightarrow> page_op \<Rightarrow> 's script_document \<Rightarrow> 's script_document may_panic" where
  "page_step h Execute d = execute_scripts h d"
| "page_step h (EvalCode code) d = eval_in_page h code d"
| "page_step h UiEvent d = page_ui_event h d"
| "page_step h PollDoc d = map_option snd (poll_document h d)"

fun page_run :: "'s script_host \<Rightarrow> page_op list \<Rightarrow> 's script_document \<Rightarrow> 's script_document may_panic" where
  "page_run h [] d = Some d"
| "page_run h (x # xs) d = do { d1 \<leftarrow> page_step h x d; page_run h xs d1 }"

text \<open>What the embedder and the user cause, apart from loading.\<close>
fun later_step :: "page_step \<Rightarrow> bool" where
  "later_step (RanScript code what) = (what = ''<eval>'')"
| "later_step RanUiEvent = True"
| "later_step RanTimers = True"
| "later_step _ = False"

definition extends :: "page_step list \<Rightarrow> 's script_document \<Rightarrow> 's script_document \<Rightarrow> bool" where
  "extends xs d d1 \<longleftrightarrow> sd_log d1 = sd_log d @ xs \<and> sd_base d1 = sd_base d \<and> sd_executed d1 = sd_executed d \<and> sd_ready d1 = sd_ready d"

lemma extends_trans: "extends xs d d1 \<Longrightarrow> extends ys d1 d2 \<Longrightarrow> extends (xs @ ys) d d2"
  by (simp add: extends_def)

lemma engine_step_extends: "engine_step f x d = Some d1 \<Longrightarrow> extends [x] d d1"
  by (auto simp: engine_step_def logged_def extends_def bind_eq_Some_conv)

lemma settled_extends: "extends [] d (settled h d)" "extends [] d (arm_timer_thread h d)"
  by (auto simp: settled_def arm_timer_thread_def extends_def split: option.split)

lemma run_script_extends:
  assumes "run_script h s d = Some d1" shows "extends [script_log h (sd_base d) s] d d1"
proof -
  obtain rt where rt: "sh_sync h (sd_rt d) = Some rt" using assms by (auto simp: run_script_def bind_eq_Some_conv)
  have b: "extends [] d (d\<lparr>sd_rt := rt\<rparr>)" by (simp add: extends_def)
  show ?thesis
  proof (cases "script_source h (sd_base d) s")
    case (Inl msg)
    then show ?thesis using assms rt
      by (auto simp: run_script_def record_load_error_def logged_def extends_def script_log_def)
  next
    case (Inr r)
    obtain code u where r: "r = (code, u)" by fastforce
    have "\<exists>f. engine_step f (script_log h (sd_base d) s) (d\<lparr>sd_rt := rt\<rparr>) = Some d1"
      using assms rt Inr by (cases u) (auto simp: run_script_def script_log_def r Let_def split: if_splits)
    then show ?thesis using engine_step_extends extends_trans [OF b] by fastforce
  qed
qed

lemma run_scripts_extends: "run_scripts h ss d = Some d1 \<Longrightarrow> extends (map (script_log h (sd_base d)) ss) d d1"
proof (induction ss arbitrary: d)
  case Nil then show ?case by (simp add: extends_def)
next
  case (Cons s ss)
  obtain d2 where s: "run_script h s d = Some d2" "run_scripts h ss d2 = Some d1" using Cons.prems by (auto simp: bind_eq_Some_conv)
  have e: "extends [script_log h (sd_base d) s] d d2" by (rule run_script_extends [OF s(1)])
  then have "sd_base d2 = sd_base d" by (simp add: extends_def)
  then show ?case using extends_trans [OF e Cons.IH [OF s(2)]] by simp
qed

lemma execute_extends:
  assumes "execute_scripts h d = Some d1" "\<not> sd_executed d"
  shows "\<exists>scripts. collect_scripts (sh_doc h (sd_rt d)) = Some scripts
    \<and> sd_log d1 = sd_log d @ load_steps h (sd_base d) scripts \<and> sd_base d1 = sd_base d \<and> sd_executed d1 \<and> sd_ready d1 = Complete"
proof -
  obtain scripts d2 d3 d4 d5 where s: "collect_scripts (sh_doc h (sd_rt d)) = Some scripts"
    "run_scripts h scripts (d\<lparr>sd_executed := True\<rparr>) = Some d2"
    "engine_step (sh_document_event h ''DOMContentLoaded'') (DocumentEvent ''DOMContentLoaded'') (set_ready_state Interactive d2) = Some d3"
    "engine_step (sh_install_onload h) InstalledOnload (set_ready_state Complete d3) = Some d4"
    "engine_step (sh_window_event h ''load'') (WindowEvent ''load'') d4 = Some d5" "d1 = settled h d5"
    using assms by (auto simp: execute_scripts_def bind_eq_Some_conv)
  note e = run_scripts_extends [OF s(2)] engine_step_extends [OF s(3)] engine_step_extends [OF s(4)]
    engine_step_extends [OF s(5)] settled_extends(1) [of d5 h]
  show ?thesis using e s(1) unfolding s(6) by (simp add: extends_def set_ready_state_def logged_def load_steps_def)
qed

text \<open>Where a document stands.\<close>
definition loaded :: "'s script_host \<Rightarrow> string option \<Rightarrow> 's script_document \<Rightarrow> bool" where
  "loaded h base d \<longleftrightarrow> sd_base d = base \<and>
     (if sd_executed d
      then sd_ready d = Complete \<and> (\<exists>a b rt scripts. collect_scripts (sh_doc h rt) = Some scripts
        \<and> sd_log d = a @ load_steps h base scripts @ b \<and> list_all later_step a \<and> RanTimers \<notin> set a \<and> list_all later_step b)
      else sd_ready d = Loading \<and> list_all later_step (sd_log d) \<and> RanTimers \<notin> set (sd_log d))"

lemma loaded_extends:
  assumes "loaded h base d" "extends xs d d1" "list_all later_step xs" "sd_executed d \<or> RanTimers \<notin> set xs"
  shows "loaded h base d1"
proof (cases "sd_executed d")
  case True
  then obtain a b rt scripts where l: "collect_scripts (sh_doc h rt) = Some scripts" "sd_log d = a @ load_steps h base scripts @ b"
    "list_all later_step a" "RanTimers \<notin> set a" "list_all later_step b" using assms(1) by (auto simp: loaded_def)
  have "sd_log d1 = a @ load_steps h base scripts @ (b @ xs)" "list_all later_step (b @ xs)"
    using assms(2,3) l by (simp_all add: extends_def)
  then have "\<exists>a b rt scripts. collect_scripts (sh_doc h rt) = Some scripts
      \<and> sd_log d1 = a @ load_steps h base scripts @ b \<and> list_all later_step a \<and> RanTimers \<notin> set a \<and> list_all later_step b"
    using l(1,3,4) by blast
  moreover have "sd_base d1 = base" "sd_executed d1" "sd_ready d1 = Complete"
    using assms(1,2) True by (simp_all add: loaded_def extends_def)
  ultimately show ?thesis by (simp add: loaded_def)
next
  case False then show ?thesis using assms by (auto simp: loaded_def extends_def)
qed

lemma execute_loaded:
  assumes "loaded h base d" "execute_scripts h d = Some d1"
  shows "loaded h base d1 \<and> sd_executed d1"
proof (cases "sd_executed d")
  case True then show ?thesis using assms by (simp add: execute_scripts_def)
next
  case False
  then obtain scripts where s: "collect_scripts (sh_doc h (sd_rt d)) = Some scripts"
    "sd_log d1 = sd_log d @ load_steps h (sd_base d) scripts" "sd_base d1 = sd_base d" "sd_executed d1" "sd_ready d1 = Complete"
    using execute_extends [OF assms(2)] by blast
  have b: "sd_base d = base" "list_all later_step (sd_log d)" "RanTimers \<notin> set (sd_log d)" using assms(1) False by (auto simp: loaded_def)
  have "sd_log d1 = sd_log d @ load_steps h base scripts @ []" using s(2) b(1) by simp
  then show ?thesis using s b unfolding loaded_def by (auto intro!: exI)
qed

lemma step_loaded:
  assumes l: "loaded h base d" and r: "page_step h x d = Some d1"
  shows "loaded h base d1 \<and> (sd_executed d1 \<longleftrightarrow> sd_executed d \<or> x = Execute \<or> x = PollDoc)"
proof (cases x)
  case Execute then show ?thesis using execute_loaded [OF l] r by simp
next
  case (EvalCode code)
  obtain rt d2 where e: "engine_step (sh_eval h code ''<eval>'') (RanScript code ''<eval>'') (d\<lparr>sd_rt := rt\<rparr>) = Some d2" "d1 = settled h d2"
    using r EvalCode by (auto simp: eval_in_page_def bind_eq_Some_conv)
  have "extends [RanScript code ''<eval>''] d d1"
    using engine_step_extends [OF e(1)] settled_extends(1) [of d2 h] unfolding e(2) by (simp add: extends_def)
  moreover from this have "sd_executed d1 = sd_executed d" by (simp add: extends_def)
  ultimately show ?thesis using loaded_extends [OF l, of "[RanScript code ''<eval>'']"] EvalCode by simp
next
  case UiEvent
  obtain d2 where e: "engine_step (sh_ui_event h) RanUiEvent d = Some d2" "d1 = settled h d2"
    using r UiEvent by (auto simp: page_ui_event_def bind_eq_Some_conv)
  have "extends [RanUiEvent] d d1" using engine_step_extends [OF e(1)] settled_extends(1) [of d2 h] unfolding e(2) by (simp add: extends_def)
  moreover from this have "sd_executed d1 = sd_executed d" by (simp add: extends_def)
  ultimately show ?thesis using loaded_extends [OF l, of "[RanUiEvent]"] UiEvent by simp
next
  case PollDoc
  obtain d2 ran rt where p: "(if sd_executed d then Some d else execute_scripts h d) = Some d2" "sh_run_due h (sd_rt d2) = Some (ran, rt)"
    "d1 = arm_timer_thread h (if ran then logged RanTimers (d2\<lparr>sd_rt := rt\<rparr>) else d2\<lparr>sd_rt := rt\<rparr>)"
    using r PollDoc by (auto simp: poll_document_def bind_eq_Some_conv)
  have l2: "loaded h base d2" "sd_executed d2" using execute_loaded [OF l] p(1) l by (auto split: if_splits)
  have "extends (if ran then [RanTimers] else []) d2 d1"
    using settled_extends(2) [of "if ran then logged RanTimers (d2\<lparr>sd_rt := rt\<rparr>) else d2\<lparr>sd_rt := rt\<rparr>" h]
    unfolding p(3) by (simp add: extends_def logged_def)
  moreover from this have "sd_executed d1 = sd_executed d2" by (simp add: extends_def)
  ultimately show ?thesis using loaded_extends [OF l2(1)] l2(2) PollDoc by simp
qed

lemma run_loaded:
  "loaded h base d \<Longrightarrow> page_run h xs d = Some d1 \<Longrightarrow>
    loaded h base d1 \<and> (sd_executed d1 \<longleftrightarrow> sd_executed d \<or> Execute \<in> set xs \<or> PollDoc \<in> set xs)"
proof (induction xs arbitrary: d)
  case (Cons x xs)
  obtain d2 where s: "page_step h x d = Some d2" "page_run h xs d2 = Some d1" using Cons.prems(2) by (auto simp: bind_eq_Some_conv)
  show ?case using step_loaded [OF Cons.prems(1) s(1)] Cons.IH [OF _ s(2)] by auto
qed simp

text \<open>C34. A page is loaded once and in order.  However polls, events, evaluations and explicit calls
  follow each other, the scripts of a document run when it is polled or asked to run them for the
  first time, and never again.  They run, or are reported as not loadable, one after the other in
  document order: exactly the script elements of a JavaScript type that are not inside another
  script element.  After all of them the document is interactive and is told so, then complete,
  the handler of the body is installed and the load event follows; no timer runs before that.\<close>
theorem page_loads_once:
  assumes run: "page_run h ops (from_base_document is_default url rt) = Some d"
  shows "(sd_executed d \<longleftrightarrow> Execute \<in> set ops \<or> PollDoc \<in> set ops)
    \<and> (\<not> sd_executed d \<longrightarrow> sd_ready d = Loading \<and> list_all later_step (sd_log d) \<and> RanTimers \<notin> set (sd_log d))
    \<and> (sd_executed d \<longrightarrow> sd_ready d = Complete \<and> (\<exists>a b rt0 scripts.
      sd_log d = a @ load_steps h (sd_base d) scripts @ b \<and> list_all later_step a \<and> RanTimers \<notin> set a \<and> list_all later_step b
      \<and> (\<forall>t. doc_tree (sh_doc h rt0) t \<longrightarrow> scripts = tree_walk (scripts_at (sh_doc h rt0) t) (is_script (sh_doc h rt0)) t)))"
proof (intro conjI)
  have "loaded h (if is_default then None else Some url) (from_base_document is_default url rt)"
    "\<not> sd_executed (from_base_document is_default url rt)"
    by (simp_all add: loaded_def from_base_document_def)
  note l = run_loaded [OF this(1) run] this(2)
  show "sd_executed d \<longleftrightarrow> Execute \<in> set ops \<or> PollDoc \<in> set ops" using l by blast
  show "\<not> sd_executed d \<longrightarrow> sd_ready d = Loading \<and> list_all later_step (sd_log d) \<and> RanTimers \<notin> set (sd_log d)"
    using l by (simp add: loaded_def)
  show "sd_executed d \<longrightarrow> sd_ready d = Complete \<and> (\<exists>a b rt0 scripts.
      sd_log d = a @ load_steps h (sd_base d) scripts @ b \<and> list_all later_step a \<and> RanTimers \<notin> set a \<and> list_all later_step b
      \<and> (\<forall>t. doc_tree (sh_doc h rt0) t \<longrightarrow> scripts = tree_walk (scripts_at (sh_doc h rt0) t) (is_script (sh_doc h rt0)) t))"
  proof
    assume e: "sd_executed d"
    then obtain a b rt0 scripts where s: "collect_scripts (sh_doc h rt0) = Some scripts"
      "sd_log d = a @ load_steps h (sd_base d) scripts @ b" "list_all later_step a" "RanTimers \<notin> set a" "list_all later_step b"
      "sd_ready d = Complete" using l(1) by (auto simp: loaded_def)
    moreover have "scripts = tree_walk (scripts_at (sh_doc h rt0) t) (is_script (sh_doc h rt0)) t" if "doc_tree (sh_doc h rt0) t" for t
      using collect_scripts_tree [OF that] s(1) by simp
    ultimately show "sd_ready d = Complete \<and> (\<exists>a b rt0 scripts.
      sd_log d = a @ load_steps h (sd_base d) scripts @ b \<and> list_all later_step a \<and> RanTimers \<notin> set a \<and> list_all later_step b
      \<and> (\<forall>t. doc_tree (sh_doc h rt0) t \<longrightarrow> scripts = tree_walk (scripts_at (sh_doc h rt0) t) (is_script (sh_doc h rt0)) t))"
      by blast
  qed
qed

section \<open>A page\<close>

text \<open>A page with a script that is fetched, a data block, a module and a script that cannot be fetched.\<close>
definition demo_scripts :: document where
  "demo_scripts = ex_document
    [(n1, ex_node n1 None [n2] (Document ex_document_data)),
     (n2, ex_node n2 (Some n1) [n3, n4, n5, n6] (Element (ex_element ''body'' [] False))),
     (n3, ex_node n3 (Some n2) [] (Element (ex_element ''script'' [(''src'', ''a.js'')] False))),
     (n4, ex_node n4 (Some n2) [] (Element (ex_element ''script'' [(''type'', ''application/json'')] False))),
     (n5, ex_node n5 (Some n2) [n7] (Element (ex_element ''script'' [(''type'', ''module'')] False))),
     (n6, ex_node n6 (Some n2) [] (Element (ex_element ''script'' [(''src'', ''b.js'')] False))),
     (n7, ex_node n7 (Some n5) [] (Text ''go()''))] []"

definition demo_host :: "nat script_host" where
  "demo_host = \<lparr> sh_doc = (\<lambda>_. demo_scripts), sh_debug = (\<lambda>s. s), sh_parse = Some, sh_join = (\<lambda>b s. Some (b @ s)),
     sh_fetch = (\<lambda>u. if u = ''x/a.js'' then Inr ''run()'' else Inl ''gone''), sh_sync = Some,
     sh_eval = (\<lambda>_ _ s. Some (s + 1)), sh_eval_module = (\<lambda>_ _ s. Some (s + 1)), sh_document_event = (\<lambda>_. Some),
     sh_window_event = (\<lambda>_. Some), sh_install_onload = Some, sh_ui_event = Some, sh_run_due = (\<lambda>s. Some (True, s)),
     sh_next_deadline = Some \<rparr>"

definition demo_loaded :: "nat script_document" where
  "demo_loaded = the (page_run demo_host [EvalCode ''x'', PollDoc, UiEvent, Execute] (from_base_document False ''x/'' 0))"

lemma demo_run:
  "page_run demo_host [EvalCode ''x'', PollDoc, UiEvent, Execute] (from_base_document False ''x/'' 0) = Some demo_loaded"
  "sd_log demo_loaded = RanScript ''x'' ''<eval>'' # [RanScript ''run()'' ''x/a.js'', RanModule ''go()'' (Some ''x/''),
     LoadFailed ''failed to fetch script x/b.js: gone'', ReadyIs Interactive, DocumentEvent ''DOMContentLoaded'',
     ReadyIs Complete, InstalledOnload, WindowEvent ''load''] @ [RanTimers, RanUiEvent]"
proof -
  have "page_run demo_host [EvalCode ''x'', PollDoc, UiEvent, Execute] (from_base_document False ''x/'' 0) \<noteq> None"
    by code_simp
  then show "page_run demo_host [EvalCode ''x'', PollDoc, UiEvent, Execute] (from_base_document False ''x/'' 0) = Some demo_loaded"
    by (simp add: demo_loaded_def)
qed code_simp

theorem page_loads_once_witness:
  "sd_executed demo_loaded \<and> sd_ready demo_loaded = Complete"
  using page_loads_once [OF demo_run(1)] by simp

section \<open>The timer thread\<close>

text \<open>The thread from a turn on: the deadlines it got since it last woke the event loop, the latest
  first, and what is pending.\<close>
fun thread_run :: "(nat \<times> recv) list \<Rightarrow> nat list \<Rightarrow> nat option \<Rightarrow> (nat list \<times> nat option) option" where
  "thread_run [] got deadline = Some (got, deadline)"
| "thread_run ((now, r) # turns) got deadline = (case thread_turn now r deadline of
      None \<Rightarrow> None
    | Some (deadline1, woken) \<Rightarrow> thread_run turns
        (if woken then [] else (case r of Got t \<Rightarrow> t # got | _ \<Rightarrow> got)) deadline1)"

text \<open>The pending deadline is the earliest of those that were not yet answered by a wake-up.\<close>
lemma thread_pending:
  "thread_run turns got deadline = Some (got1, deadline1) \<Longrightarrow> deadline = (if got = [] then None else Some (Min (set got))) \<Longrightarrow>
    deadline1 = (if got1 = [] then None else Some (Min (set got1)))"
proof (induction turns got deadline rule: thread_run.induct)
  case (2 now r turns got deadline)
  obtain deadline2 woken where s: "thread_turn now r deadline = Some (deadline2, woken)"
    using "2.prems"(1) by (auto split: option.splits)
  have "deadline2 = (if (if woken then [] else (case r of Got t \<Rightarrow> t # got | _ \<Rightarrow> got)) = [] then None
      else Some (Min (set (if woken then [] else (case r of Got t \<Rightarrow> t # got | _ \<Rightarrow> got)))))"
    using s "2.prems"(2) by (auto simp: thread_turn_def split: option.splits recv.splits if_splits)
  then show ?case using "2.IH" [OF s refl] "2.prems"(1) s by simp
qed simp

end
