(* ===== verification/Table_Layout.thy ===== *)
theory Table_Layout
  imports Dom_Order Rust_String
begin

text \<open>
  The construction of a table (\<open>strake-dom/src/layout/table.rs\<close>): the columns that cells are given,
  the order of row groups, the column sizes and the borders of the collapsing model.

  Computed styles come from \<open>stylo\<close> and are parameters (\<open>table_env\<close>): displays, borders and track
  sizes.  Widths are of a linear order with a zero (floats without NaN), colors are opaque.  The
  conversion to styles of Taffy, percentages of the fixed layout and damage flags are left out.
\<close>

section \<open>The column cursor\<close>

type_synonym u16 = "16 word"

definition list_resize :: "nat \<Rightarrow> 'a \<Rightarrow> 'a list \<Rightarrow> 'a list" where
  "list_resize n x xs = take n xs @ replicate (n - length xs) x"

record column_cursor =
  cc_col :: u16
  cc_num_columns :: u16
  cc_rowspans :: "u16 list"

definition cursor_default :: column_cursor where
  "cursor_default = \<lparr> cc_col = 0, cc_num_columns = 0, cc_rowspans = [] \<rparr>"

definition saturating_pred :: "u16 \<Rightarrow> u16" where
  "saturating_pred x = (if x = 0 then 0 else x - 1)"

definition start_row :: "column_cursor \<Rightarrow> column_cursor" where
  "start_row cc = cc\<lparr>cc_col := 0, cc_rowspans := map saturating_pred (cc_rowspans cc)\<rparr>"

partial_function (option) free_from :: "u16 list \<Rightarrow> u16 \<Rightarrow> u16 option" where
  "free_from spans col =
    (if unat col < length spans \<and> spans ! unat col > 0 then free_from spans (col + 1) else Some col)"

declare free_from.simps [code]

text \<open>\<open>None\<close>: no column is free, which the loop does not survive.\<close>
definition next_free :: "column_cursor \<Rightarrow> (u16 \<times> column_cursor) may_panic" where
  "next_free cc = do { col \<leftarrow> free_from (cc_rowspans cc) (cc_col cc); Some (col, cc\<lparr>cc_col := col\<rparr>) }"

text \<open>The end column wraps around; a slice that ends before it starts panics.\<close>
definition place :: "u16 \<Rightarrow> u16 \<Rightarrow> column_cursor \<Rightarrow> column_cursor may_panic" where
  "place colspan rowspan cc =
    (let fin = cc_col cc + colspan;
         spans = (if length (cc_rowspans cc) < unat fin then list_resize (unat fin) 0 (cc_rowspans cc) else cc_rowspans cc);
         a = unat (cc_col cc); b = unat fin
     in if a \<le> b
        then Some (cc\<lparr>cc_col := fin, cc_num_columns := max (cc_num_columns cc) fin,
                      cc_rowspans := take a spans @ replicate (b - a) (rowspan - 1) @ drop b spans\<rparr>)
        else None)"

section \<open>Borders\<close>

datatype border_style = BSNone | BSHidden | Dotted | Dashed | Solid | Double | Groove | Ridge | Inset | Outset

definition none_or_hidden :: "border_style \<Rightarrow> bool" where
  "none_or_hidden s \<longleftrightarrow> s = BSNone \<or> s = BSHidden"

record ('w, 'col) collapsed_border =
  cb_width :: 'w
  cb_style :: border_style
  cb_color :: 'col

definition cb_visible :: "('w::{linorder, zero}, 'col) collapsed_border \<Rightarrow> bool" where
  "cb_visible b \<longleftrightarrow> cb_width b > 0 \<and> \<not> none_or_hidden (cb_style b)"

definition side_width :: "'w::zero \<Rightarrow> border_style \<Rightarrow> 'w" where
  "side_width w s = (if none_or_hidden s then 0 else w)"

fun collapse_style_rank :: "border_style \<Rightarrow> nat" where
  "collapse_style_rank Double = 8"
| "collapse_style_rank Solid = 7"
| "collapse_style_rank Dashed = 6"
| "collapse_style_rank Dotted = 5"
| "collapse_style_rank Ridge = 4"
| "collapse_style_rank Outset = 3"
| "collapse_style_rank Groove = 2"
| "collapse_style_rank Inset = 1"
| "collapse_style_rank _ = 0"

definition resolve_collapsed_side :: "'w::zero \<Rightarrow> border_style \<Rightarrow> 'col \<Rightarrow> ('w, 'col) collapsed_border" where
  "resolve_collapsed_side w s color = \<lparr> cb_width = side_width w s, cb_style = s, cb_color = color \<rparr>"

fun pick_loop ::
    "('w::{linorder, zero}, 'col) collapsed_border list \<Rightarrow> bool \<Rightarrow> ('w, 'col) collapsed_border option
     \<Rightarrow> bool \<times> ('w, 'col) collapsed_border option" where
  "pick_loop [] suppressed best = (suppressed, best)"
| "pick_loop (e # es) suppressed best =
    (if cb_style e = BSHidden then pick_loop es True None
     else if suppressed \<or> \<not> cb_visible e then pick_loop es suppressed best
     else pick_loop es suppressed (case best of
         None \<Rightarrow> Some e
       | Some won \<Rightarrow>
           if cb_width e > cb_width won
             \<or> cb_width e = cb_width won \<and> collapse_style_rank (cb_style e) > collapse_style_rank (cb_style won)
           then Some e else best))"

definition collapse_pick ::
    "('w::{linorder, zero}, 'col) collapsed_border list \<Rightarrow> ('w, 'col) collapsed_border option
     \<Rightarrow> ('w, 'col) collapsed_border option" where
  "collapse_pick edges extra =
    (let (suppressed, best) = pick_loop (edges @ (case extra of None \<Rightarrow> [] | Some e \<Rightarrow> [e])) False None
     in if suppressed then None else best)"

section \<open>Cells and rows\<close>

text \<open>The sides of a cell are those at the top, right, bottom and left, 0 to 3.\<close>
record ('w, 'col) table_cell =
  tc_node :: node_id
  tc_row :: u16
  tc_col :: u16
  tc_rowspan :: u16
  tc_colspan :: u16
  tc_sides :: "nat \<Rightarrow> ('w, 'col) collapsed_border"

datatype display_inside = DNone | Contents | Flow | FlowRoot | Flex | Grid | Table | TableRowGroup | TableHeaderGroup
  | TableFooterGroup | TableColumn | TableColumnGroup | TableRow | TableCell

text \<open>The computed styles: the display of a styled node and whether its outer display is none, the
  four sides of its border, the track size of a column and of a cell of the first row, and what
  is read of track sizes.\<close>
record ('w, 'col, 's) table_env =
  te_display :: "node_id \<Rightarrow> (bool \<times> display_inside) option"
  te_border :: "node_id \<Rightarrow> nat \<Rightarrow> 'w \<times> border_style \<times> 'col"
  te_column_size :: "node_id \<Rightarrow> 's"
  te_cell_size :: "node_id \<Rightarrow> 's"
  te_auto :: 's
  te_remaining :: 's
  te_max_is_auto :: "'s \<Rightarrow> bool"
  te_min_is_auto :: "'s \<Rightarrow> bool"
  te_is_percent :: "'s \<Rightarrow> bool"

record ('w, 'col, 's) table_walk =
  tw_row :: u16
  tw_cursor :: column_cursor
  tw_cells :: "('w, 'col) table_cell list"
  tw_rows :: "node_id list"
  tw_sizes :: "'s list"

definition parse_u16 :: "string \<Rightarrow> u16 option" where
  "parse_u16 s = Option.bind (parse_u64 s) (\<lambda>v. if v \<le> 65535 then Some (ucast v) else None)"

definition colspan_of :: "element_data \<Rightarrow> u16" where
  "colspan_of e = (case Option.bind (el_attr e ''colspan'') parse_u16 of None \<Rightarrow> 1 | Some v \<Rightarrow> v)"

definition rowspan_of :: "element_data \<Rightarrow> u16" where
  "rowspan_of e = (case Option.bind (el_attr e ''rowspan'') parse_u16 of None \<Rightarrow> 1 | Some v \<Rightarrow> min (max v 1) 65534)"

definition column_span_of :: "element_data \<Rightarrow> u16" where
  "column_span_of e = (case Option.bind (el_attr e ''span'') parse_u16 of None \<Rightarrow> 1 | Some v \<Rightarrow> max v 1)"

text \<open>The size a cell of the first row gives its column, unless a column element gave one.\<close>
definition first_row_size ::
    "('w, 'col, 's) table_env \<Rightarrow> node_id \<Rightarrow> u16 \<Rightarrow> u16 \<Rightarrow> 's list \<Rightarrow> 's list" where
  "first_row_size env i row col sizes =
    (let k = unat col; size = te_cell_size env i
     in if row = 1 \<and> (length sizes \<le> k \<or> te_max_is_auto env (sizes ! k)) then
          (if k < length sizes then (if te_max_is_auto env size then sizes else sizes[k := size])
           else list_resize k (te_auto env) sizes @ [size])
        else sizes)"

definition collect_cell ::
    "('w::{linorder, zero}, 'col, 's) table_env \<Rightarrow> node_id \<Rightarrow> element_data \<Rightarrow> ('w, 'col, 's) table_walk \<Rightarrow> ('w, 'col, 's) table_walk may_panic" where
  "collect_cell env i e w = do {
     (col, cc) \<leftarrow> next_free (tw_cursor w);
     let sizes = first_row_size env i (tw_row w) col (tw_sizes w);
     let cell = \<lparr> tc_node = i, tc_row = saturating_pred (tw_row w), tc_col = col, tc_rowspan = rowspan_of e, tc_colspan = colspan_of e,
        tc_sides = (\<lambda>k. case te_border env i k of (bw, bs, bc) \<Rightarrow> resolve_collapsed_side bw bs bc) \<rparr>;
     cc1 \<leftarrow> place (colspan_of e) (rowspan_of e) cc;
     Some (w\<lparr>tw_cursor := cc1, tw_cells := tw_cells w @ [cell], tw_sizes := sizes\<rparr>)
   }"

definition begin_row :: "node_id \<Rightarrow> ('w, 'col, 's) table_walk \<Rightarrow> ('w, 'col, 's) table_walk" where
  "begin_row i w = w\<lparr>tw_row := tw_row w + 1, tw_cursor := start_row (tw_cursor w), tw_rows := tw_rows w @ [i]\<rparr>"

text \<open>The nodes of a list and what is below them, in order.\<close>
partial_function (option) collect_table_cells ::
    "('w::{linorder, zero}, 'col, 's) table_env \<Rightarrow> document \<Rightarrow> node_id list \<Rightarrow> ('w, 'col, 's) table_walk \<Rightarrow> ('w, 'col, 's) table_walk option" where
  "collect_table_cells env d is w = (case is of
      [] \<Rightarrow> Some w
    | i # rest \<Rightarrow> do {
        n \<leftarrow> node_at d i;
        w1 \<leftarrow> (case (if is_element n then te_display env i else None) of
            None \<Rightarrow> Some w
          | Some (outside_none, inside) \<Rightarrow>
              if outside_none then Some w
              else if inside \<in> {TableRowGroup, TableHeaderGroup, TableFooterGroup, Contents}
                then collect_table_cells env d (children n) w
              else if inside = TableRow then collect_table_cells env d (children n) (begin_row i w)
              else if inside = TableCell
                then (case element_data n of None \<Rightarrow> None | Some e \<Rightarrow> collect_cell env i e w)
              else Some w);
        collect_table_cells env d rest w1 })"

declare collect_table_cells.simps [code]

definition row_group_order :: "('w, 'col, 's) table_env \<Rightarrow> node_id \<Rightarrow> nat" where
  "row_group_order env i = (case te_display env i of
      Some (_, TableHeaderGroup) \<Rightarrow> 0 | Some (_, TableFooterGroup) \<Rightarrow> 2 | _ \<Rightarrow> 1)"

definition grouped_children :: "('w, 'col, 's) table_env \<Rightarrow> node_id list \<Rightarrow> node_id list" where
  "grouped_children env is = concat (map (\<lambda>k. filter (\<lambda>i. row_group_order env i = k) is) [0, 1, 2])"

section \<open>Columns\<close>

partial_function (option) collect_columns ::
    "('w, 'col, 's) table_env \<Rightarrow> document \<Rightarrow> node_id list \<Rightarrow> node_id list \<times> 's list \<Rightarrow> (node_id list \<times> 's list) option" where
  "collect_columns env d is cols = (case is of
      [] \<Rightarrow> Some cols
    | i # rest \<Rightarrow> do {
        n \<leftarrow> node_at d i;
        cols1 \<leftarrow> (case (if is_element n then te_display env i else None) of
            Some (_, TableColumnGroup) \<Rightarrow> collect_columns env d (children n) cols
          | Some (_, TableColumn) \<Rightarrow> (case element_data n of
                None \<Rightarrow> None
              | Some e \<Rightarrow> (let k = unat (column_span_of e)
                  in Some (fst cols @ replicate k i, snd cols @ replicate k (te_column_size env i))))
          | _ \<Rightarrow> Some cols);
        collect_columns env d rest cols1 })"

declare collect_columns.simps [code]

text \<open>Columns at the end that hold no cell and are as wide as their content are dropped.\<close>
fun drop_trailing :: "('w, 'col, 's) table_env \<Rightarrow> nat \<Rightarrow> node_id list \<times> 's list \<Rightarrow> node_id list \<times> 's list" where
  "drop_trailing env num (cols, []) = (cols, [])"
| "drop_trailing env num (cols, s # ss) =
    (if length (s # ss) > num \<and> te_min_is_auto env (last (s # ss)) then drop_trailing env num (butlast cols, butlast (s # ss))
     else (cols, s # ss))"

section \<open>The grid of borders\<close>

record ('w, 'col) collapsed_grid =
  cg_nrows :: nat
  cg_ncols :: nat
  cg_h :: "('w, 'col) collapsed_border option list"
  cg_v :: "('w, 'col) collapsed_border option list"

text \<open>The slots a cell asks for, row by row.\<close>
definition cell_slots :: "('w, 'col) table_cell \<Rightarrow> (nat \<times> nat) list" where
  "cell_slots x = concat (map (\<lambda>dr. map (\<lambda>dc. (unat (tc_row x) + dr, unat (tc_col x) + dc)) [0..<unat (tc_colspan x)]) [0..<unat (tc_rowspan x)])"

definition claim_slot :: "nat \<Rightarrow> nat \<Rightarrow> nat \<Rightarrow> nat \<times> nat \<Rightarrow> nat option list \<Rightarrow> nat option list" where
  "claim_slot nrows ncols i rc grid = (case rc of (r, c) \<Rightarrow>
     if r < nrows \<and> c < ncols \<and> grid ! (r * ncols + c) = None then grid[r * ncols + c := Some i] else grid)"

definition occupancy :: "('w, 'col) table_cell list \<Rightarrow> nat \<Rightarrow> nat \<Rightarrow> nat option list" where
  "occupancy cells nrows ncols =
    fold (\<lambda>(i, x) grid. fold (claim_slot nrows ncols i) (cell_slots x) grid) (enumerate 0 cells) (replicate (nrows * ncols) None)"

text \<open>The side of the cell at a slot, if the slot is at this side of the cell.\<close>
definition slot_side ::
    "('w, 'col) table_cell list \<Rightarrow> nat option list \<Rightarrow> nat \<Rightarrow> nat \<Rightarrow> nat \<Rightarrow> nat \<Rightarrow> ('w, 'col) collapsed_border option" where
  "slot_side cells grid ncols r c side =
    (if r * ncols + c < length grid then
       (case grid ! (r * ncols + c) of None \<Rightarrow> None
        | Some i \<Rightarrow> (let x = cells ! i in
            if (side = 0 \<and> unat (tc_row x) = r) \<or> (side = 1 \<and> unat (tc_col x) + unat (tc_colspan x) = c + 1)
              \<or> (side = 2 \<and> unat (tc_row x) + unat (tc_rowspan x) = r + 1) \<or> (side = 3 \<and> unat (tc_col x) = c)
            then Some (tc_sides x side) else None))
     else None)"

definition given :: "'a option \<Rightarrow> 'a list" where
  "given x = (case x of None \<Rightarrow> [] | Some y \<Rightarrow> [y])"

definition h_edge ::
    "('w::{linorder, zero}, 'col) table_cell list \<Rightarrow> nat option list \<Rightarrow> nat \<Rightarrow> nat \<Rightarrow> (nat \<Rightarrow> ('w, 'col) collapsed_border)
     \<Rightarrow> nat \<Rightarrow> nat \<Rightarrow> ('w, 'col) collapsed_border option" where
  "h_edge cells grid nrows ncols sides r c = collapse_pick
     ((if r > 0 then given (slot_side cells grid ncols (r - 1) c 2) else []) @ (if r < nrows then given (slot_side cells grid ncols r c 0) else []))
     (if r = 0 then Some (sides 0) else if r = nrows then Some (sides 2) else None)"

definition v_edge ::
    "('w::{linorder, zero}, 'col) table_cell list \<Rightarrow> nat option list \<Rightarrow> nat \<Rightarrow> (nat \<Rightarrow> ('w, 'col) collapsed_border)
     \<Rightarrow> nat \<Rightarrow> nat \<Rightarrow> ('w, 'col) collapsed_border option" where
  "v_edge cells grid ncols sides r c = collapse_pick
     ((if c > 0 then given (slot_side cells grid ncols r (c - 1) 1) else []) @ (if c < ncols then given (slot_side cells grid ncols r c 3) else []))
     (if c = 0 then Some (sides 3) else if c = ncols then Some (sides 1) else None)"

definition resolve_collapsed_grid ::
    "('w::{linorder, zero}, 'col) table_cell list \<Rightarrow> nat \<Rightarrow> nat \<Rightarrow> (nat \<Rightarrow> ('w, 'col) collapsed_border) \<Rightarrow> ('w, 'col) collapsed_grid" where
  "resolve_collapsed_grid cells nrows ncols sides =
    (let grid = occupancy cells nrows ncols
     in \<lparr> cg_nrows = nrows, cg_ncols = ncols,
          cg_h = concat (map (\<lambda>r. map (h_edge cells grid nrows ncols sides r) [0..<ncols]) [0..<nrows + 1]),
          cg_v = concat (map (\<lambda>r. map (v_edge cells grid ncols sides r) [0..<ncols + 1]) [0..<nrows]) \<rparr>)"

section \<open>The table\<close>

record ('w, 'col, 's) table_context =
  tx_cells :: "('w, 'col) table_cell list"
  tx_rows :: "node_id list"
  tx_columns :: "node_id list"
  tx_sizes :: "'s list"
  tx_collapsed :: "('w, 'col) collapsed_grid option"

definition table_walk_start :: "'s list \<Rightarrow> ('w, 'col, 's) table_walk" where
  "table_walk_start sizes = \<lparr> tw_row = 0, tw_cursor = cursor_default, tw_cells = [], tw_rows = [], tw_sizes = sizes \<rparr>"

text \<open>A table that is not styled panics.  Also the list of nodes that are laid out is returned.\<close>
definition build_table_context ::
    "('w::{linorder, zero}, 'col, 's) table_env \<Rightarrow> bool \<Rightarrow> bool \<Rightarrow> document \<Rightarrow> node_id
     \<Rightarrow> (('w, 'col, 's) table_context \<times> node_id list) may_panic" where
  "build_table_context env is_fixed collapse d t = do {
     n \<leftarrow> node_at d t;
     _ \<leftarrow> te_display env t;
     (cols, sizes) \<leftarrow> collect_columns env d (children n) ([], []);
     let sizes1 = (if is_fixed then sizes else map (\<lambda>s. if te_is_percent env s then te_auto env else s) sizes);
     w \<leftarrow> collect_table_cells env d (grouped_children env (children n)) (table_walk_start sizes1);
     let num = cc_num_columns (tw_cursor w);
     let (cols1, sizes2) = drop_trailing env (unat num) (cols, tw_sizes w);
     let num_columns = max num (of_nat (length sizes2));
     let sides = (\<lambda>k. case te_border env t k of (bw, bs, bc) \<Rightarrow> resolve_collapsed_side bw bs bc);
     Some (\<lparr> tx_cells = tw_cells w, tx_rows = tw_rows w, tx_columns = cols1,
             tx_sizes = list_resize (unat num_columns) (te_remaining env) sizes2,
             tx_collapsed = (if collapse then Some (resolve_collapsed_grid (tw_cells w) (length (tw_rows w)) (unat num) sides) else None) \<rparr>,
           map tc_node (tw_cells w))
   }"

end
