(* ===== verification/Table_Cells.thy ===== *)
theory Table_Cells
  imports Table_Layout Dom_Example
begin

text \<open>
  Where the cells of a table are put, and which border wins between two of them.
\<close>

section \<open>The borders\<close>

definition beats :: "('w::{linorder, zero}, 'col) collapsed_border \<Rightarrow> ('w, 'col) collapsed_border \<Rightarrow> bool" where
  "beats a b \<longleftrightarrow> cb_width a > cb_width b \<or> cb_width a = cb_width b \<and> collapse_style_rank (cb_style a) > collapse_style_rank (cb_style b)"

lemma beats_trans: "beats a b \<Longrightarrow> beats b c \<Longrightarrow> beats a c"
  by (auto simp: beats_def)

lemma not_beats_trans: "\<not> beats a b \<Longrightarrow> \<not> beats b c \<Longrightarrow> \<not> beats a c"
  by (auto simp: beats_def)

text \<open>The first of the strongest visible borders.\<close>
definition strongest :: "('w::{linorder, zero}, 'col) collapsed_border list \<Rightarrow> ('w, 'col) collapsed_border option \<Rightarrow> bool" where
  "strongest es r \<longleftrightarrow> (case r of
      None \<Rightarrow> \<forall>e\<in>set es. \<not> cb_visible e
    | Some b \<Rightarrow> \<exists>xs ys. es = xs @ b # ys \<and> cb_visible b \<and> (\<forall>x\<in>set xs. cb_visible x \<longrightarrow> beats b x)
        \<and> (\<forall>y\<in>set ys. cb_visible y \<longrightarrow> \<not> beats y b))"

lemma strongest_new:
  assumes "\<forall>x\<in>set es. cb_visible x \<longrightarrow> beats e x" "cb_visible e" shows "strongest (es @ [e]) (Some e)"
proof -
  have "\<exists>xs ys. es @ [e] = xs @ e # ys \<and> cb_visible e \<and> (\<forall>x\<in>set xs. cb_visible x \<longrightarrow> beats e x)
      \<and> (\<forall>y\<in>set ys. cb_visible y \<longrightarrow> \<not> beats y e)"
    using assms by (intro exI [of _ es] exI [of _ "[]"]) simp
  then show ?thesis by (simp add: strongest_def)
qed

lemma strongest_snoc:
  assumes "strongest es r"
  shows "strongest (es @ [e]) (if \<not> cb_visible e then r else case r of None \<Rightarrow> Some e | Some b \<Rightarrow> if beats e b then Some e else r)"
proof (cases "cb_visible e")
  case False then show ?thesis using assms by (fastforce simp: strongest_def split: option.splits)
next
  case True
  show ?thesis
  proof (cases r)
    case None
    then have "\<forall>x\<in>set es. \<not> cb_visible x" using assms by (simp add: strongest_def)
    then show ?thesis using None True strongest_new by auto
  next
    case (Some b)
    then obtain xs ys where b: "es = xs @ b # ys" "cb_visible b" "\<forall>x\<in>set xs. cb_visible x \<longrightarrow> beats b x"
      "\<forall>y\<in>set ys. cb_visible y \<longrightarrow> \<not> beats y b" using assms by (auto simp: strongest_def)
    show ?thesis
    proof (cases "beats e b")
      case True
      have "\<forall>x\<in>set es. cb_visible x \<longrightarrow> beats e x"
        using b True beats_trans [OF True] by (auto simp: beats_def)
      then show ?thesis using Some True \<open>cb_visible e\<close> strongest_new by auto
    next
      case False
      have "\<exists>us vs. es @ [e] = us @ b # vs \<and> cb_visible b \<and> (\<forall>x\<in>set us. cb_visible x \<longrightarrow> beats b x)
          \<and> (\<forall>y\<in>set vs. cb_visible y \<longrightarrow> \<not> beats y b)"
        using b False by (intro exI [of _ xs] exI [of _ "ys @ [e]"]) auto
      then show ?thesis using Some False \<open>cb_visible e\<close> by (simp add: strongest_def)
    qed
  qed
qed

lemma pick_loop_suppressed: "pick_loop es True None = (True, None)"
  by (induction es) auto

lemma pick_loop_strongest:
  "strongest pre best \<Longrightarrow> pick_loop es False best = (s, r) \<Longrightarrow>
    if \<exists>e\<in>set es. cb_style e = BSHidden then s else \<not> s \<and> strongest (pre @ es) r"
proof (induction es arbitrary: pre best)
  case (Cons e es)
  show ?case
  proof (cases "cb_style e = BSHidden")
    case True then show ?thesis using Cons.prems(2) by (simp add: pick_loop_suppressed)
  next
    case False
    let ?best = "if \<not> cb_visible e then best else case best of None \<Rightarrow> Some e | Some b \<Rightarrow> if beats e b then Some e else best"
    have "pick_loop es False ?best = (s, r)"
      using Cons.prems(2) False by (cases best) (auto simp: beats_def split: if_splits)
    from Cons.IH [OF strongest_snoc [OF Cons.prems(1), of e] this] False show ?thesis by (auto split: if_splits)
  qed
qed simp

lemma collapse_pick_strongest:
  assumes "collapse_pick edges extra = r"
  shows "if \<exists>e\<in>set (edges @ given extra). cb_style e = BSHidden then r = None else strongest (edges @ given extra) r"
proof -
  obtain s b where l: "pick_loop (edges @ given extra) False None = (s, b)" by fastforce
  have "strongest ([] :: ('a, 'b) collapsed_border list) None" by (simp add: strongest_def)
  from pick_loop_strongest [OF this l] show ?thesis
    using assms l by (auto simp: collapse_pick_def given_def split: if_splits)
qed

section \<open>The cursor\<close>

lemma free_from_step:
  "free_from spans col = (if unat col < length spans \<and> spans ! unat col > 0 then free_from spans (col + 1) else Some col)"
  by (rule free_from.simps)

text \<open>With fewer columns than a column number can tell, the loop finds the first free one.\<close>
lemma free_from_finds:
  assumes "length spans < 2 ^ 16"
  shows "\<exists>c. free_from spans col = Some c \<and> unat col \<le> unat c \<and> (\<forall>j. unat col \<le> j \<longrightarrow> j < unat c \<longrightarrow> j < length spans \<and> spans ! j > 0)
    \<and> (unat c < length spans \<longrightarrow> spans ! unat c = 0) \<and> (unat col \<le> length spans \<longrightarrow> unat c \<le> length spans)"
proof (induction "length spans - unat col" arbitrary: col rule: less_induct)
  case less
  show ?case
  proof (cases "unat col < length spans \<and> spans ! unat col > 0")
    case False
    then show ?thesis by (subst free_from_step) (auto simp: word_gt_0)
  next
    case True
    have "unat col + 1 < 2 ^ LENGTH(16)" using True assms by simp
    then have u: "unat (col + 1) = unat col + 1" by (simp add: unat_word_ariths)
    have "unat col < length spans" using True by simp
    then have "length spans - unat (col + 1) < length spans - unat col" unfolding u by linarith
    from less [OF this] obtain c where c: "free_from spans (col + 1) = Some c" "unat col + 1 \<le> unat c"
      "\<forall>j. unat col + 1 \<le> j \<longrightarrow> j < unat c \<longrightarrow> j < length spans \<and> spans ! j > 0"
      "unat c < length spans \<longrightarrow> spans ! unat c = 0" "unat col + 1 \<le> length spans \<longrightarrow> unat c \<le> length spans"
      unfolding u by blast
    have "\<forall>j. unat col \<le> j \<longrightarrow> j < unat c \<longrightarrow> j < length spans \<and> spans ! j > 0"
      using c(3) True by (metis Suc_eq_plus1 le_neq_implies_less less_eq_Suc_le)
    then show ?thesis using c True by (subst free_from_step) auto
  qed
qed

text \<open>The rows for which a column is still taken.\<close>
definition taken :: "column_cursor \<Rightarrow> nat \<Rightarrow> nat" where
  "taken cc c = (if c < length (cc_rowspans cc) then unat (cc_rowspans cc ! c) else 0)"

lemma taken_start_row: "taken (start_row cc) c = taken cc c - 1"
proof -
  have "unat (saturating_pred x) = unat x - 1" for x
    by (cases "x = 0") (simp_all add: saturating_pred_def unat_minus_one)
  then show ?thesis by (simp add: taken_def start_row_def)
qed

lemma start_row_simps [simp]:
  "cc_col (start_row cc) = 0" "length (cc_rowspans (start_row cc)) = length (cc_rowspans cc)"
  "cc_num_columns (start_row cc) = cc_num_columns cc"
  by (simp_all add: start_row_def)

lemma length_list_resize [simp]: "length (list_resize n x xs) = n"
  by (simp add: list_resize_def)

lemma nth_list_resize: "i < n \<Longrightarrow> list_resize n x xs ! i = (if i < length xs then xs ! i else x)"
  by (auto simp: list_resize_def nth_append)

lemma place_facts:
  assumes fit: "unat (cc_col cc) + unat cs < 2 ^ 16"
  shows "\<exists>cc1. place cs rs cc = Some cc1 \<and> unat (cc_col cc1) = unat (cc_col cc) + unat cs
    \<and> cc_num_columns cc1 = max (cc_num_columns cc) (cc_col cc1)
    \<and> length (cc_rowspans cc1) = max (length (cc_rowspans cc)) (unat (cc_col cc1))
    \<and> (\<forall>c. taken cc1 c = (if unat (cc_col cc) \<le> c \<and> c < unat (cc_col cc1) then unat (rs - 1) else taken cc c))"
proof -
  let ?a = "unat (cc_col cc)" and ?fin = "cc_col cc + cs"
  have "unat (cc_col cc) + unat cs < 2 ^ LENGTH(16)" using fit by simp
  then have u: "unat ?fin = ?a + unat cs" by (simp add: unat_word_ariths)
  let ?spans = "if length (cc_rowspans cc) < unat ?fin then list_resize (unat ?fin) 0 (cc_rowspans cc) else cc_rowspans cc"
  let ?new = "take ?a ?spans @ replicate (unat ?fin - ?a) (rs - 1) @ drop (unat ?fin) ?spans"
  have r: "place cs rs cc = Some (cc\<lparr>cc_col := ?fin, cc_num_columns := max (cc_num_columns cc) ?fin, cc_rowspans := ?new\<rparr>)"
    using u by (simp add: place_def Let_def)
  have l: "length ?spans = max (length (cc_rowspans cc)) (unat ?fin)" by simp
  then have ln: "length ?new = max (length (cc_rowspans cc)) (unat ?fin)" using u by (simp del: length_list_resize)
  have sp: "?spans ! c = (if c < length (cc_rowspans cc) then cc_rowspans cc ! c else 0)" if "c < length ?spans" for c
    using that by (auto simp: nth_list_resize)
  have nw: "?new ! c = (if ?a \<le> c \<and> c < unat ?fin then rs - 1 else ?spans ! c)" if c: "c < length ?new" for c
  proof -
    have a: "length (take ?a ?spans) = ?a" using l u by simp
    consider "c < ?a" | "?a \<le> c" "c < unat ?fin" | "unat ?fin \<le> c" using u by linarith
    then show ?thesis
    proof cases
      case 1 then show ?thesis unfolding nth_append a by simp
    next
      case 2
      then have "c - ?a < unat cs" using u by linarith
      then show ?thesis using 2 unfolding nth_append a by (simp add: u)
    next
      case 3
      then have "\<not> c - ?a < unat cs" using u by linarith
      then have "?new ! c = drop (unat ?fin) ?spans ! (c - unat ?fin)" using 3 unfolding nth_append a by (simp add: u)
      also have "\<dots> = ?spans ! c" using 3 c ln l by (subst nth_drop) simp_all
      finally show ?thesis using 3 by simp
    qed
  qed
  let ?cc1 = "cc\<lparr>cc_col := ?fin, cc_num_columns := max (cc_num_columns cc) ?fin, cc_rowspans := ?new\<rparr>"
  have "taken ?cc1 c = (if ?a \<le> c \<and> c < unat ?fin then unat (rs - 1) else taken cc c)" for c
    using nw [of c] sp [of c] ln l by (auto simp: taken_def)
  moreover have "length (cc_rowspans ?cc1) = max (length (cc_rowspans cc)) (unat ?fin)" using ln by simp
  ultimately show ?thesis using r u by (intro exI [of _ ?cc1]) simp
qed

section \<open>The walk\<close>

datatype table_op = RowOp node_id | CellOp node_id element_data

text \<open>The rows and cells below a node, in order.\<close>
fun table_ops :: "('w, 'col, 's) table_env \<Rightarrow> document \<Rightarrow> tree \<Rightarrow> table_op list" where
  "table_ops env d (T i ts) = (case nodes d i of None \<Rightarrow> []
     | Some n \<Rightarrow> (case (if is_element n then te_display env i else None) of None \<Rightarrow> []
         | Some (outside_none, inside) \<Rightarrow>
             if outside_none then []
             else if inside \<in> {TableRowGroup, TableHeaderGroup, TableFooterGroup, Contents} then concat (map (table_ops env d) ts)
             else if inside = TableRow then RowOp i # concat (map (table_ops env d) ts)
             else if inside = TableCell then (case element_data n of None \<Rightarrow> [] | Some e \<Rightarrow> [CellOp i e])
             else []))"

fun walk_op :: "('w::{linorder, zero}, 'col, 's) table_env \<Rightarrow> table_op \<Rightarrow> ('w, 'col, 's) table_walk \<Rightarrow> ('w, 'col, 's) table_walk option" where
  "walk_op env (RowOp i) w = Some (begin_row i w)"
| "walk_op env (CellOp i e) w = collect_cell env i e w"

fun walk_ops :: "('w::{linorder, zero}, 'col, 's) table_env \<Rightarrow> table_op list \<Rightarrow> ('w, 'col, 's) table_walk \<Rightarrow> ('w, 'col, 's) table_walk option" where
  "walk_ops env [] w = Some w"
| "walk_ops env (x # xs) w = do { w1 \<leftarrow> walk_op env x w; walk_ops env xs w1 }"

lemma walk_ops_append: "walk_ops env (xs @ ys) w = do { w1 \<leftarrow> walk_ops env xs w; walk_ops env ys w1 }"
proof (induction xs arbitrary: w)
  case (Cons x xs) then show ?case by (cases "walk_op env x w") simp_all
qed simp

lemma collect_Nil [simp]: "collect_table_cells env d [] w = Some w"
  by (subst collect_table_cells.simps) simp

lemma collect_Cons:
  "nodes d i = Some n \<Longrightarrow> collect_table_cells env d (i # rest) w = do {
     w1 \<leftarrow> (case (if is_element n then te_display env i else None) of
         None \<Rightarrow> Some w
       | Some (outside_none, inside) \<Rightarrow>
           if outside_none then Some w
           else if inside \<in> {TableRowGroup, TableHeaderGroup, TableFooterGroup, Contents}
             then collect_table_cells env d (children n) w
           else if inside = TableRow then collect_table_cells env d (children n) (begin_row i w)
           else if inside = TableCell
             then (case element_data n of None \<Rightarrow> None | Some e \<Rightarrow> collect_cell env i e w)
           else Some w);
     collect_table_cells env d rest w1 }"
  by (subst collect_table_cells.simps) (simp add: dom_simps)

lemma is_element_data: "is_element n \<Longrightarrow> \<exists>e. element_data n = Some e"
  by (auto simp: is_element_def element_data_def split: node_data.splits)

lemma collect_tree:
  "represents d p t \<Longrightarrow> collect_table_cells env d (root t # rest) w = do { w1 \<leftarrow> walk_ops env (table_ops env d t) w; collect_table_cells env d rest w1 }"
proof (induction t arbitrary: p rest w)
  case (T i ts)
  from T.prems obtain n where n: "nodes d i = Some n" "children n = map root ts" "\<forall>s\<in>set ts. represents d (Some i) s"
    by (auto split: option.splits)
  have all: "collect_table_cells env d (map root us) v = walk_ops env (concat (map (table_ops env d) us)) v" if "set us \<subseteq> set ts" for us v
    using that
  proof (induction us arbitrary: v)
    case (Cons u us)
    then have "u \<in> set ts" "represents d (Some i) u" using n(3) by auto
    from T.IH [OF this, of "map root us" v] Cons show ?case by (simp add: walk_ops_append)
  qed simp
  show ?case
  proof (cases "if is_element n then te_display env i else None")
    case None then show ?thesis by (simp add: collect_Cons [OF n(1)] n(1))
  next
    case (Some x)
    obtain on inside where x: "x = (on, inside)" by fastforce
    obtain e where e: "element_data n = Some e" using Some is_element_data by (auto split: if_splits)
    show ?thesis using Some e n all [of ts] by (auto simp: collect_Cons [OF n(1)] x)
  qed
qed

lemma collect_forest:
  "\<forall>u\<in>set us. represents d p u \<Longrightarrow> collect_table_cells env d (map root us) w = walk_ops env (concat (map (table_ops env d) us)) w"
proof (induction us arbitrary: w)
  case (Cons u us)
  then show ?case using collect_tree [of d p u env "map root us" w]
    by (cases "walk_ops env (table_ops env d u) w") (simp_all add: walk_ops_append)
qed simp

text \<open>The slots of the cells, given how many rows a cell is counted for.\<close>
definition covers :: "(('w, 'col) table_cell \<Rightarrow> nat) \<Rightarrow> ('w, 'col) table_cell \<Rightarrow> nat \<Rightarrow> nat \<Rightarrow> bool" where
  "covers h x r c \<longleftrightarrow> unat (tc_row x) \<le> r \<and> r < unat (tc_row x) + h x
     \<and> unat (tc_col x) \<le> c \<and> c < unat (tc_col x) + unat (tc_colspan x)"

definition apart :: "(('w, 'col) table_cell \<Rightarrow> nat) \<Rightarrow> ('w, 'col) table_cell \<Rightarrow> ('w, 'col) table_cell \<Rightarrow> bool" where
  "apart h x y \<longleftrightarrow> (\<forall>r c. \<not> (covers h x r c \<and> covers h y r c))"

text \<open>The walk counts one row less than a \<open>rowspan\<close> asks for, except for the first row of a cell.\<close>
abbreviation "reckoned_rows \<equiv> \<lambda>x. max 1 (unat (tc_rowspan x) - 1)"

definition in_turn :: "('w, 'col) table_cell \<Rightarrow> ('w, 'col) table_cell \<Rightarrow> bool" where
  "in_turn x y \<longleftrightarrow> unat (tc_row x) < unat (tc_row y)
     \<or> tc_row x = tc_row y \<and> unat (tc_col x) + unat (tc_colspan x) \<le> unat (tc_col y)"

text \<open>\<open>k\<close> bounds the columns; \<open>single\<close> says that all cells so far are one column wide.\<close>
definition walk_ok :: "nat \<Rightarrow> bool \<Rightarrow> ('w, 'col, 's) table_walk \<Rightarrow> bool" where
  "walk_ok k single w \<longleftrightarrow>
     unat (tw_row w) = length (tw_rows w) \<and> length (cc_rowspans (tw_cursor w)) \<le> k \<and> unat (cc_col (tw_cursor w)) \<le> k
   \<and> (tw_cells w \<noteq> [] \<longrightarrow> tw_rows w \<noteq> [])
   \<and> (\<forall>x\<in>set (tw_cells w). unat (tc_row x) < length (tw_rows w) \<and> unat (tc_col x) + unat (tc_colspan x) \<le> unat (cc_num_columns (tw_cursor w))
        \<and> (unat (tc_row x) + 1 = length (tw_rows w) \<longrightarrow> unat (tc_col x) + unat (tc_colspan x) \<le> unat (cc_col (tw_cursor w))))
   \<and> sorted_wrt in_turn (tw_cells w)
   \<and> (single \<longrightarrow> sorted_wrt (apart reckoned_rows) (tw_cells w) \<and>
        (\<forall>x\<in>set (tw_cells w). \<forall>c. (\<forall>j\<ge>1. covers reckoned_rows x (length (tw_rows w) - 1 + j) c \<longrightarrow> j < taken (tw_cursor w) c)
          \<and> (unat (cc_col (tw_cursor w)) \<le> c \<longrightarrow> covers reckoned_rows x (length (tw_rows w) - 1) c \<longrightarrow> 0 < taken (tw_cursor w) c)))"

lemma walk_ok_start: "walk_ok 0 single (table_walk_start sizes)"
  by (simp add: walk_ok_def table_walk_start_def cursor_default_def)

lemma begin_row_ok:
  assumes w: "walk_ok k single w" and n: "length (tw_rows w) + 1 < 2 ^ 16"
  shows "walk_ok k single (begin_row i w)"
proof -
  have "unat (tw_row w) + 1 < 2 ^ LENGTH(16)" using w n by (simp add: walk_ok_def)
  then have u: "unat (tw_row w + 1) = length (tw_rows w) + 1" using w by (simp add: walk_ok_def unat_word_ariths)
  have cov: "\<forall>x\<in>set (tw_cells w). \<forall>c. (\<forall>j\<ge>1. covers reckoned_rows x (length (tw_rows w) + j) c \<longrightarrow> j < taken (start_row (tw_cursor w)) c)
      \<and> (covers reckoned_rows x (length (tw_rows w)) c \<longrightarrow> 0 < taken (start_row (tw_cursor w)) c)" if "single"
  proof (intro ballI allI conjI impI)
    fix x c j assume x: "x \<in> set (tw_cells w)"
    then have ne: "length (tw_rows w) \<noteq> 0" using w by (auto simp: walk_ok_def)
    have old: "\<forall>j\<ge>1. covers reckoned_rows x (length (tw_rows w) - 1 + j) c \<longrightarrow> j < taken (tw_cursor w) c" using w that x by (simp add: walk_ok_def)
    { assume "covers reckoned_rows x (length (tw_rows w) + j) c"
      then have "j + 1 < taken (tw_cursor w) c" using old [rule_format, of "j + 1"] ne by simp
      then show "j < taken (start_row (tw_cursor w)) c" by (simp add: taken_start_row) }
    assume "covers reckoned_rows x (length (tw_rows w)) c"
    then have "1 < taken (tw_cursor w) c" using old [rule_format, of 1] ne by simp
    then show "0 < taken (start_row (tw_cursor w)) c" by (simp add: taken_start_row)
  qed
  show ?thesis using w u cov unfolding walk_ok_def begin_row_def by (auto simp: less_Suc_eq)
qed

lemma apart_columns:
  "unat (tc_col x) + unat (tc_colspan x) \<le> unat (tc_col y) \<Longrightarrow> apart reckoned_rows x y"
  by (auto simp: apart_def covers_def)

lemma collect_cell_ok:
  assumes w: "walk_ok k single w" and r: "tw_rows w \<noteq> []" and n: "length (tw_rows w) < 2 ^ 16"
    and k: "k + unat (colspan_of e) < 2 ^ 16" and s: "single \<Longrightarrow> colspan_of e = 1"
  shows "\<exists>w1 x. collect_cell env i e w = Some w1 \<and> walk_ok (k + unat (colspan_of e)) single w1 \<and> tw_cells w1 = tw_cells w @ [x]
    \<and> tc_node x = i \<and> tc_colspan x = colspan_of e \<and> tc_rowspan x = rowspan_of e
    \<and> unat (tc_row x) + 1 = length (tw_rows w) \<and> tw_rows w1 = tw_rows w"
proof -
  let ?cc = "tw_cursor w" and ?cs = "colspan_of e" and ?rs = "rowspan_of e"
  have b: "length (cc_rowspans ?cc) \<le> k" "unat (cc_col ?cc) \<le> k" "unat (tw_row w) = length (tw_rows w)" using w by (simp_all add: walk_ok_def)
  obtain col where col: "free_from (cc_rowspans ?cc) (cc_col ?cc) = Some col" "unat (cc_col ?cc) \<le> unat col"
    "unat col < length (cc_rowspans ?cc) \<longrightarrow> cc_rowspans ?cc ! unat col = 0"
    "\<forall>j. unat (cc_col ?cc) \<le> j \<longrightarrow> j < unat col \<longrightarrow> j < length (cc_rowspans ?cc) \<and> cc_rowspans ?cc ! j > 0"
    using free_from_finds [of "cc_rowspans ?cc" "cc_col ?cc"] b(1) k by auto
  have col_k: "unat col \<le> k"
  proof (rule ccontr)
    assume "\<not> unat col \<le> k"
    then have "k < length (cc_rowspans ?cc)" using col(4) [rule_format, of k] b(2) by linarith
    then show False using b(1) by simp
  qed
  let ?cc1 = "?cc\<lparr>cc_col := col\<rparr>"
  obtain cc2 where cc2: "place ?cs ?rs ?cc1 = Some cc2" "unat (cc_col cc2) = unat col + unat ?cs"
    "cc_num_columns cc2 = max (cc_num_columns ?cc) (cc_col cc2)"
    "length (cc_rowspans cc2) = max (length (cc_rowspans ?cc)) (unat (cc_col cc2))"
    "\<forall>c. taken cc2 c = (if unat col \<le> c \<and> c < unat (cc_col cc2) then unat (?rs - 1) else taken ?cc1 c)"
    using place_facts [of ?cc1 ?cs ?rs] col_k k by auto
  let ?x = "\<lparr> tc_node = i, tc_row = saturating_pred (tw_row w), tc_col = col, tc_rowspan = ?rs, tc_colspan = ?cs,
      tc_sides = (\<lambda>k. case te_border env i k of (bw, bs, bc) \<Rightarrow> resolve_collapsed_side bw bs bc) \<rparr>"
  let ?w1 = "w\<lparr>tw_cursor := cc2, tw_cells := tw_cells w @ [?x], tw_sizes := first_row_size env i (tw_row w) col (tw_sizes w)\<rparr>"
  have res: "collect_cell env i e w = Some ?w1" by (simp add: collect_cell_def next_free_def col(1) cc2(1) Let_def)
  have "tw_row w \<noteq> 0" using b(3) r by auto
  then have row: "unat (saturating_pred (tw_row w)) + 1 = length (tw_rows w)"
    using b(3) r by (simp add: saturating_pred_def unat_minus_one)
  have tk: "taken ?cc1 = taken ?cc" by (simp add: taken_def fun_eq_iff)
  have mx: "unat (cc_num_columns cc2) = max (unat (cc_num_columns ?cc)) (unat (cc_col cc2))"
    unfolding cc2(3) by (simp add: max_def word_le_nat_alt)
  have old: "unat (tc_row x) < length (tw_rows w)" "unat (tc_col x) + unat (tc_colspan x) \<le> unat (cc_num_columns ?cc)"
    "unat (tc_row x) + 1 = length (tw_rows w) \<Longrightarrow> unat (tc_col x) + unat (tc_colspan x) \<le> unat (cc_col ?cc)"
    if "x \<in> set (tw_cells w)" for x using w that by (simp_all add: walk_ok_def)
  have turn: "\<forall>x\<in>set (tw_cells w). in_turn x ?x"
  proof
    fix x assume x: "x \<in> set (tw_cells w)"
    show "in_turn x ?x"
    proof (cases "unat (tc_row x) + 1 = length (tw_rows w)")
      case True
      then have "tc_row x = saturating_pred (tw_row w)" using row by (metis add_right_cancel word_unat_eq_iff)
      then show ?thesis using old(3) [OF x True] col(2) by (simp add: in_turn_def)
    next
      case False then show ?thesis using old(1) [OF x] row by (simp add: in_turn_def)
    qed
  qed
  have rs: "unat ?rs \<ge> 1"
  proof -
    have "?rs \<noteq> 0" by (simp add: rowspan_of_def min_def max_def split: option.split) (auto simp: word_le_nat_alt)
    then show ?thesis by (simp add: Suc_le_eq unat_gt_0)
  qed
  then have rs1: "unat (?rs - 1) = unat ?rs - 1" by (simp add: unat_minus_one unat_gt_0 Suc_le_eq)
  have sep: "(\<forall>x\<in>set (tw_cells w). apart reckoned_rows x ?x) \<and> (\<forall>x\<in>set (tw_cells w @ [?x]). \<forall>c.
      (\<forall>j\<ge>1. covers reckoned_rows x (length (tw_rows w) - 1 + j) c \<longrightarrow> j < taken cc2 c)
      \<and> (unat (cc_col cc2) \<le> c \<longrightarrow> covers reckoned_rows x (length (tw_rows w) - 1) c \<longrightarrow> 0 < taken cc2 c))" if single
  proof -
    have one: "?cs = 1" using s [OF that] .
    have fin: "unat (cc_col cc2) = unat col + 1" using cc2(2) one by simp
    have inv: "\<forall>x\<in>set (tw_cells w). \<forall>c. (\<forall>j\<ge>1. covers reckoned_rows x (length (tw_rows w) - 1 + j) c \<longrightarrow> j < taken ?cc c)
          \<and> (unat (cc_col ?cc) \<le> c \<longrightarrow> covers reckoned_rows x (length (tw_rows w) - 1) c \<longrightarrow> 0 < taken ?cc c)"
      using w that by (simp add: walk_ok_def)
    have free: "taken ?cc (unat col) = 0" using col(3) by (simp add: taken_def)
    have none: "\<not> covers reckoned_rows x (length (tw_rows w) - 1 + j) (unat col)" if "x \<in> set (tw_cells w)" for x j
    proof (cases j)
      case 0 then show ?thesis using inv that free col(2) by fastforce
    next
      case (Suc m) then show ?thesis using inv that free by (metis One_nat_def le_add1 not_less0 plus_1_eq_Suc)
    qed
    have ap: "apart reckoned_rows x ?x" if "x \<in> set (tw_cells w)" for x
      unfolding apart_def
    proof (intro allI notI, elim conjE)
      fix r c assume a: "covers reckoned_rows x r c" "covers reckoned_rows ?x r c"
      have "c = unat col" using a(2) one by (simp add: covers_def)
      moreover have "r = length (tw_rows w) - 1 + (r - (length (tw_rows w) - 1))" using a(2) row by (simp add: covers_def)
      ultimately show False using none [OF that, of "r - (length (tw_rows w) - 1)"] a(1) by simp
    qed
    have new: "(\<forall>j\<ge>1. covers reckoned_rows ?x (length (tw_rows w) - 1 + j) c \<longrightarrow> j < taken cc2 c)
        \<and> (unat (cc_col cc2) \<le> c \<longrightarrow> covers reckoned_rows ?x (length (tw_rows w) - 1) c \<longrightarrow> 0 < taken cc2 c)" for c
      using row one cc2(5) fin rs1 by (auto simp: covers_def)
    have oldc: "(\<forall>j\<ge>1. covers reckoned_rows x (length (tw_rows w) - 1 + j) c \<longrightarrow> j < taken cc2 c)
        \<and> (unat (cc_col cc2) \<le> c \<longrightarrow> covers reckoned_rows x (length (tw_rows w) - 1) c \<longrightarrow> 0 < taken cc2 c)"
      if x: "x \<in> set (tw_cells w)" for x c
    proof (cases "c = unat col")
      case True then show ?thesis using none [OF x] fin by auto
    next
      case False
      then have "taken cc2 c = taken ?cc c" using cc2(5) fin tk by auto
      then show ?thesis using inv x fin col(2) by auto
    qed
    show ?thesis using ap new oldc by (simp only: set_append list.set Un_iff ball_Un) auto
  qed
  have sorted: "sorted_wrt in_turn (tw_cells w @ [?x])" using w turn by (auto simp: walk_ok_def sorted_wrt_append)
  have sorted2: "sorted_wrt (apart reckoned_rows) (tw_cells w @ [?x])" if single
    using w sep [OF that] that by (auto simp: walk_ok_def sorted_wrt_append)
  have cells: "\<forall>x\<in>set (tw_cells w @ [?x]). unat (tc_row x) < length (tw_rows w) \<and> unat (tc_col x) + unat (tc_colspan x) \<le> unat (cc_num_columns cc2)
        \<and> (unat (tc_row x) + 1 = length (tw_rows w) \<longrightarrow> unat (tc_col x) + unat (tc_colspan x) \<le> unat (cc_col cc2))"
    using old(1,2) le_trans [OF old(3), of _ "unat col + unat ?cs"] row cc2(2) mx col(2) by (auto simp: le_max_iff_disj)
  have "walk_ok (k + unat ?cs) single ?w1"
    unfolding walk_ok_def using b r cc2(2,4) col_k cells sorted sorted2 sep by simp
  then show ?thesis using res row by (intro exI [of _ ?w1] exI [of _ ?x]) simp
qed

section \<open>The table\<close>

fun colspans :: "table_op list \<Rightarrow> nat" where
  "colspans [] = 0"
| "colspans (RowOp i # ops) = colspans ops"
| "colspans (CellOp i e # ops) = unat (colspan_of e) + colspans ops"

fun row_nodes :: "table_op list \<Rightarrow> node_id list" where
  "row_nodes [] = []"
| "row_nodes (RowOp i # ops) = i # row_nodes ops"
| "row_nodes (CellOp i e # ops) = row_nodes ops"

text \<open>The cells with the number of their row, after \<open>r\<close> rows.\<close>
fun placed_rows :: "nat \<Rightarrow> table_op list \<Rightarrow> (node_id \<times> nat) list" where
  "placed_rows r [] = []"
| "placed_rows r (RowOp i # ops) = placed_rows (r + 1) ops"
| "placed_rows r (CellOp i e # ops) = (i, r - 1) # placed_rows r ops"

fun starts_with_row :: "table_op list \<Rightarrow> bool" where
  "starts_with_row (CellOp i e # ops) = False"
| "starts_with_row ops = True"

fun narrow :: "table_op \<Rightarrow> bool" where
  "narrow (RowOp i) = True"
| "narrow (CellOp i e) = (colspan_of e = 1)"

lemma walk_ops_ok:
  "walk_ok k single w \<Longrightarrow> tw_rows w \<noteq> [] \<or> starts_with_row ops \<Longrightarrow> length (tw_rows w) + length (row_nodes ops) < 2 ^ 16 \<Longrightarrow>
   k + colspans ops < 2 ^ 16 \<Longrightarrow> single \<longrightarrow> list_all narrow ops \<Longrightarrow>
   \<exists>w1. walk_ops env ops w = Some w1 \<and> walk_ok (k + colspans ops) single w1 \<and> tw_rows w1 = tw_rows w @ row_nodes ops
     \<and> map (\<lambda>x. (tc_node x, unat (tc_row x))) (tw_cells w1)
       = map (\<lambda>x. (tc_node x, unat (tc_row x))) (tw_cells w) @ placed_rows (length (tw_rows w)) ops"
proof (induction ops arbitrary: k w)
  case (Cons op1 ops)
  show ?case
  proof (cases op1)
    case (RowOp i)
    have ok: "walk_ok k single (begin_row i w)" by (rule begin_row_ok [OF Cons.prems(1)]) (use Cons.prems(3) RowOp in simp)
    have "\<exists>w1. walk_ops env ops (begin_row i w) = Some w1 \<and> walk_ok (k + colspans ops) single w1
        \<and> tw_rows w1 = tw_rows (begin_row i w) @ row_nodes ops
        \<and> map (\<lambda>x. (tc_node x, unat (tc_row x))) (tw_cells w1)
          = map (\<lambda>x. (tc_node x, unat (tc_row x))) (tw_cells (begin_row i w)) @ placed_rows (length (tw_rows (begin_row i w))) ops"
      by (rule Cons.IH [OF ok]) (use Cons.prems RowOp in \<open>auto simp: begin_row_def\<close>)
    then show ?thesis by (simp add: RowOp begin_row_def)
  next
    case (CellOp i e)
    have r: "tw_rows w \<noteq> []" using Cons.prems(2) CellOp by simp
    obtain w2 x where c: "collect_cell env i e w = Some w2" "walk_ok (k + unat (colspan_of e)) single w2" "tw_cells w2 = tw_cells w @ [x]"
      "tc_node x = i" "unat (tc_row x) + 1 = length (tw_rows w)" "tw_rows w2 = tw_rows w"
      using collect_cell_ok [OF Cons.prems(1) r, of e env i] Cons.prems(3,4,5) CellOp by auto
    have "\<exists>w1. walk_ops env ops w2 = Some w1 \<and> walk_ok (k + unat (colspan_of e) + colspans ops) single w1
        \<and> tw_rows w1 = tw_rows w2 @ row_nodes ops
        \<and> map (\<lambda>x. (tc_node x, unat (tc_row x))) (tw_cells w1)
          = map (\<lambda>x. (tc_node x, unat (tc_row x))) (tw_cells w2) @ placed_rows (length (tw_rows w2)) ops"
      by (rule Cons.IH [OF c(2)]) (use Cons.prems CellOp r c(6) in auto)
    moreover have "unat (tc_row x) = length (tw_rows w) - 1" using c(5) by simp
    ultimately show ?thesis using c by (simp add: CellOp add.assoc)
  qed
qed simp

lemma columns_Nil [simp]: "collect_columns env d [] cols = Some cols"
  by (subst collect_columns.simps) simp

lemma columns_tree:
  "represents d p t \<Longrightarrow> \<exists>cols1. \<forall>rest. collect_columns env d (root t # rest) cols = collect_columns env d rest cols1"
proof (induction t arbitrary: p cols)
  case (T i ts)
  from T.prems obtain n where n: "nodes d i = Some n" "children n = map root ts" "\<forall>s\<in>set ts. represents d (Some i) s"
    by (auto split: option.splits)
  have all: "\<exists>c. collect_columns env d (map root us) cs = Some c" if "set us \<subseteq> set ts" for us cs
    using that
  proof (induction us arbitrary: cs)
    case (Cons u us)
    then have "u \<in> set ts" "represents d (Some i) u" using n(3) by auto
    from T.IH [OF this, of cs] obtain cs1 where "collect_columns env d (root u # map root us) cs = collect_columns env d (map root us) cs1" by blast
    then show ?case using Cons by simp
  qed simp
  obtain c where c: "collect_columns env d (children n) cols = Some c" using all [of ts cols] n(2) by auto
  show ?case
  proof (cases "if is_element n then te_display env i else None")
    case None
    then show ?thesis
      by (intro exI [of _ cols] allI, subst collect_columns.simps) (simp add: dom_simps n(1))
  next
    case (Some x)
    obtain on inside where x: "x = (on, inside)" by fastforce
    obtain e where e: "element_data n = Some e" using Some is_element_data by (auto split: if_splits)
    have "\<exists>c1. (case Some (on, inside) of Some (_, TableColumnGroup) \<Rightarrow> collect_columns env d (children n) cols
          | Some (_, TableColumn) \<Rightarrow> (case element_data n of None \<Rightarrow> None
              | Some e \<Rightarrow> (let k = unat (column_span_of e)
                  in Some (fst cols @ replicate k i, snd cols @ replicate k (te_column_size env i))))
          | _ \<Rightarrow> Some cols) = Some c1"
      using c e by (cases inside) (auto simp: Let_def)
    then obtain c1 where c1: "(case Some (on, inside) of Some (_, TableColumnGroup) \<Rightarrow> collect_columns env d (children n) cols
          | Some (_, TableColumn) \<Rightarrow> (case element_data n of None \<Rightarrow> None
              | Some e \<Rightarrow> (let k = unat (column_span_of e)
                  in Some (fst cols @ replicate k i, snd cols @ replicate k (te_column_size env i))))
          | _ \<Rightarrow> Some cols) = Some c1" by blast
    have "collect_columns env d (root (T i ts) # rest) cols = collect_columns env d rest c1" for rest
      by (subst collect_columns.simps) (simp only: list.case tree.sel dom_simps n(1) Some x c1 bind.bind_lunit)
    then show ?thesis by blast
  qed
qed

lemma columns_forest: "\<forall>u\<in>set us. represents d p u \<Longrightarrow> \<exists>c. collect_columns env d (map root us) cols = Some c"
proof (induction us arbitrary: cols)
  case (Cons u us)
  then have "represents d p u" by simp
  from columns_tree [OF this, of env cols] obtain c where "collect_columns env d (root u # map root us) cols = collect_columns env d (map root us) c" by blast
  then show ?case using Cons by simp
qed simp

text \<open>The children of a table, headers first and footers last.\<close>
definition grouped_trees :: "('w, 'col, 's) table_env \<Rightarrow> tree list \<Rightarrow> tree list" where
  "grouped_trees env us = concat (map (\<lambda>k. filter (\<lambda>u. row_group_order env (root u) = k) us) [0, 1, 2])"

lemma grouped_roots: "grouped_children env (map root us) = map root (grouped_trees env us)"
  by (simp add: grouped_children_def grouped_trees_def filter_map comp_def)

text \<open>C35. Where the cells of a table are placed.  Take a styled table below a well-formed node, with fewer than
  \<open>2 ^ 16\<close> rows, whose \<open>colspan\<close>s add up to less than \<open>2 ^ 16\<close>, and with no cell before its first row
  (a wider table can panic, see \<open>wide_colspan_panics\<close>).  It is built without a panic.  Its
  cells are those of the header groups, the other groups and the footer groups, in this order,
  each with the number of its row; the cells that stand in one row take columns from left to right
  without overlapping.  Cells of different rows are kept apart only when every cell is one column wide
  (the search for a column tests no more than the first), and only as far as the walk counts
  rows: one less than a \<open>rowspan\<close> above one asks for, so that with the rows it does ask for they
  can overlap, see \<open>rowspan_one_short\<close>.\<close>
theorem table_cells_placed:
  assumes t: "nodes d t = Some n" "children n = map root us" "\<forall>u\<in>set us. represents d (Some t) u" "te_display env t = Some dis"
    and ops: "ops = concat (map (table_ops env d) (grouped_trees env us))" "starts_with_row ops"
    and bounds: "colspans ops < 2 ^ 16" "length (row_nodes ops) < 2 ^ 16"
  shows "\<exists>ctx. build_table_context env is_fixed collapse d t = Some (ctx, map tc_node (tx_cells ctx))
    \<and> map (\<lambda>x. (tc_node x, unat (tc_row x))) (tx_cells ctx) = placed_rows 0 ops \<and> tx_rows ctx = row_nodes ops
    \<and> sorted_wrt in_turn (tx_cells ctx) \<and> (list_all narrow ops \<longrightarrow> sorted_wrt (apart (\<lambda>x. max 1 (unat (tc_rowspan x) - 1))) (tx_cells ctx))"
proof -
  obtain c where c: "collect_columns env d (children n) ([], []) = Some c" using columns_forest [OF t(3), of env "([], [])"] t(2) by auto
  obtain cols sizes where cs: "c = (cols, sizes)" by fastforce
  let ?sizes = "if is_fixed then sizes else map (\<lambda>s. if te_is_percent env s then te_auto env else s) sizes"
  have "\<forall>u\<in>set (grouped_trees env us). represents d (Some t) u" using t(3) by (auto simp: grouped_trees_def)
  from collect_forest [OF this] have cells: "collect_table_cells env d (grouped_children env (children n)) w = walk_ops env ops w" for w
    by (simp add: t(2) grouped_roots ops(1))
  let ?start = "table_walk_start ?sizes"
  have empty: "tw_rows ?start = []" "tw_cells ?start = []" by (simp_all add: table_walk_start_def)
  have ok: "walk_ok 0 (list_all narrow ops) ?start" by (rule walk_ok_start)
  obtain w1 where w: "walk_ops env ops ?start = Some w1" "walk_ok (colspans ops) (list_all narrow ops) w1" "tw_rows w1 = row_nodes ops"
    "map (\<lambda>x. (tc_node x, unat (tc_row x))) (tw_cells w1) = placed_rows 0 ops"
    using walk_ops_ok [OF ok, of ops env] ops(2) bounds by (auto simp: empty)
  obtain cols1 sizes2 where dt: "drop_trailing env (unat (cc_num_columns (tw_cursor w1))) (cols, tw_sizes w1) = (cols1, sizes2)" by fastforce
  have cx: "\<exists>ctx. build_table_context env is_fixed collapse d t = Some (ctx, map tc_node (tx_cells ctx)) \<and> tx_cells ctx = tw_cells w1 \<and> tx_rows ctx = tw_rows w1"
    using t(1,4) c cells w(1) dt by (simp add: build_table_context_def dom_simps cs Let_def)
  then show ?thesis using w by (auto simp: walk_ok_def)
qed

section \<open>Edges\<close>

lemma nth_concat_rows:
  "r < n \<Longrightarrow> c < m \<Longrightarrow> concat (map (\<lambda>r. map (f r) [0..<m]) [0..<n]) ! (r * m + c) = f r c"
proof (induction n)
  case (Suc n)
  have len: "length (concat (map (\<lambda>r. map (f r) [0..<m]) [0..<n])) = n * m"
    by (induction n) simp_all
  show ?case
  proof (cases "r = n")
    case True then show ?thesis using Suc.prems(2) len by (simp add: nth_append)
  next
    case False
    then have "r < n" using Suc.prems(1) by simp
    then have "Suc r * m \<le> n * m" by (intro mult_le_mono1) simp
    then have "r * m + c < n * m" using Suc.prems(2) by simp
    then show ?thesis using Suc.IH [OF \<open>r < n\<close> Suc.prems(2)] len by (simp add: nth_append)
  qed
qed simp

lemma given_if: "given (if P then Some a else if Q then Some b else None) = (if P then [a] else if Q then [b] else [])"
  by (simp add: given_def)

text \<open>C36. The border between two cells.  Each segment of the grid shows, of the sides of the cells that end
  or start there and, at the outline, of the side of the table, the first of the widest and, at
  equal width, strongest style, if it is visible; nothing when none is visible or one of them is
  hidden.  A segment inside a cell has no candidates.\<close>
theorem collapsed_border_wins:
  "\<forall>r c. let G = resolve_collapsed_grid cells nrows ncols sides; grid = occupancy cells nrows ncols;
       h = (if r > 0 then given (slot_side cells grid ncols (r - 1) c 2) else []) @ (if r < nrows then given (slot_side cells grid ncols r c 0) else [])
         @ (if r = 0 then [sides 0] else if r = nrows then [sides 2] else []);
       v = (if c > 0 then given (slot_side cells grid ncols r (c - 1) 1) else []) @ (if c < ncols then given (slot_side cells grid ncols r c 3) else [])
         @ (if c = 0 then [sides 3] else if c = ncols then [sides 1] else [])
     in (r \<le> nrows \<longrightarrow> c < ncols \<longrightarrow>
          (if \<exists>e\<in>set h. cb_style e = BSHidden then cg_h G ! (r * ncols + c) = None else strongest h (cg_h G ! (r * ncols + c))))
      \<and> (r < nrows \<longrightarrow> c \<le> ncols \<longrightarrow>
          (if \<exists>e\<in>set v. cb_style e = BSHidden then cg_v G ! (r * (ncols + 1) + c) = None else strongest v (cg_v G ! (r * (ncols + 1) + c))))"
proof (intro allI)
  fix r c
  let ?grid = "occupancy cells nrows ncols"
  have h: "cg_h (resolve_collapsed_grid cells nrows ncols sides) ! (r * ncols + c) = h_edge cells ?grid nrows ncols sides r c"
    if "r \<le> nrows" "c < ncols"
    using nth_concat_rows [of r "nrows + 1" c ncols "h_edge cells ?grid nrows ncols sides"] that
    by (simp add: resolve_collapsed_grid_def Let_def del: upt_Suc)
  have v: "cg_v (resolve_collapsed_grid cells nrows ncols sides) ! (r * (ncols + 1) + c) = v_edge cells ?grid ncols sides r c"
    if "r < nrows" "c \<le> ncols"
    using nth_concat_rows [of r nrows c "ncols + 1" "v_edge cells ?grid ncols sides"] that
    by (simp add: resolve_collapsed_grid_def Let_def del: upt_Suc)
  note ph = collapse_pick_strongest [OF h_edge_def [of cells ?grid nrows ncols sides r c, symmetric]]
  note pv = collapse_pick_strongest [OF v_edge_def [of cells ?grid ncols sides r c, symmetric]]
  show "let G = resolve_collapsed_grid cells nrows ncols sides; grid = occupancy cells nrows ncols;
       h = (if r > 0 then given (slot_side cells grid ncols (r - 1) c 2) else []) @ (if r < nrows then given (slot_side cells grid ncols r c 0) else [])
         @ (if r = 0 then [sides 0] else if r = nrows then [sides 2] else []);
       v = (if c > 0 then given (slot_side cells grid ncols r (c - 1) 1) else []) @ (if c < ncols then given (slot_side cells grid ncols r c 3) else [])
         @ (if c = 0 then [sides 3] else if c = ncols then [sides 1] else [])
     in (r \<le> nrows \<longrightarrow> c < ncols \<longrightarrow>
          (if \<exists>e\<in>set h. cb_style e = BSHidden then cg_h G ! (r * ncols + c) = None else strongest h (cg_h G ! (r * ncols + c))))
      \<and> (r < nrows \<longrightarrow> c \<le> ncols \<longrightarrow>
          (if \<exists>e\<in>set v. cb_style e = BSHidden then cg_v G ! (r * (ncols + 1) + c) = None else strongest v (cg_v G ! (r * (ncols + 1) + c))))"
    using ph pv unfolding Let_def by (simp only: h v given_if append_assoc simp_thms if_True if_False cong: imp_cong) (intro conjI impI; assumption)
qed

section \<open>A table\<close>

text \<open>A footer before two rows; the first cell of the first row has a \<open>rowspan\<close> of two.\<close>
definition demo_table :: "string \<Rightarrow> document" where
  "demo_table span = ex_document
    [(n1, ex_node n1 None [n2, n3, n4] (Element (ex_element ''table'' [] False))),
     (n2, ex_node n2 (Some n1) [] (Element (ex_element ''tfoot'' [] False))),
     (n3, ex_node n3 (Some n1) [n5, n6] (Element (ex_element ''tr'' [] False))),
     (n4, ex_node n4 (Some n1) [n7] (Element (ex_element ''tr'' [] False))),
     (n5, ex_node n5 (Some n3) [] (Element (ex_element ''td'' [(''rowspan'', ''2'')] False))),
     (n6, ex_node n6 (Some n3) [] (Element (ex_element ''td'' [(''colspan'', span)] False))),
     (n7, ex_node n7 (Some n4) [] (Element (ex_element ''td'' [] False)))] []"

definition demo_table_env :: "(nat, unit, unit) table_env" where
  "demo_table_env = \<lparr> te_display = (\<lambda>i. Some (False, if i = n1 then Table else if i = n2 then TableFooterGroup
       else if i = n3 \<or> i = n4 then TableRow else TableCell)),
     te_border = (\<lambda>i k. (if i = n7 then 2 else 1, if i = n5 then Double else Solid, ())), te_column_size = (\<lambda>_. ()), te_cell_size = (\<lambda>_. ()),
     te_auto = (), te_remaining = (), te_max_is_auto = (\<lambda>_. True), te_min_is_auto = (\<lambda>_. True), te_is_percent = (\<lambda>_. False) \<rparr>"

definition demo_trees :: "tree list" where
  "demo_trees = [T n2 [], T n3 [T n5 [], T n6 []], T n4 [T n7 []]]"

lemma demo_table_shape:
  "\<forall>u\<in>set demo_trees. represents (demo_table span) (Some n1) u"
  "nodes (demo_table span) n1 = Some (ex_node n1 None [n2, n3, n4] (Element (ex_element ''table'' [] False)))"
  by (simp_all add: demo_trees_def demo_table_def ex_document_def ex_node_def node_new_def)

definition demo_ops :: "table_op list" where
  "demo_ops = [RowOp n3, CellOp n5 (ex_element ''td'' [(''rowspan'', ''2'')] False), CellOp n6 (ex_element ''td'' [(''colspan'', ''1'')] False),
     RowOp n4, CellOp n7 (ex_element ''td'' [] False)]"

lemma demo_ops: "demo_ops = concat (map (table_ops demo_table_env (demo_table ''1'')) (grouped_trees demo_table_env demo_trees))"
  by (simp add: demo_ops_def grouped_trees_def demo_trees_def row_group_order_def demo_table_env_def demo_table_def ex_document_def
      ex_node_def node_new_def is_element_def element_data_def)

lemma demo_spans: "colspan_of (ex_element ''td'' [(''colspan'', ''1'')] False) = 1" "colspan_of (ex_element ''td'' [] False) = 1"
  "colspan_of (ex_element ''td'' [(''rowspan'', ''2'')] False) = 1" "rowspan_of (ex_element ''td'' [(''rowspan'', ''2'')] False) = 2"
  by code_simp+

lemma demo_ops_ok: "starts_with_row demo_ops" "colspans demo_ops < 2 ^ 16" "length (row_nodes demo_ops) < 2 ^ 16" "list_all narrow demo_ops"
  by (simp_all add: demo_ops_def demo_spans)

theorem table_cells_placed_witness:
  "\<exists>ctx. build_table_context demo_table_env False True (demo_table ''1'') n1 = Some (ctx, map tc_node (tx_cells ctx))
    \<and> map (\<lambda>x. (tc_node x, unat (tc_row x))) (tx_cells ctx) = [(n5, 0), (n6, 0), (n7, 1)] \<and> tx_rows ctx = [n3, n4]
    \<and> sorted_wrt in_turn (tx_cells ctx) \<and> sorted_wrt (apart (\<lambda>x. max 1 (unat (tc_rowspan x) - 1))) (tx_cells ctx)"
proof -
  have "te_display demo_table_env n1 = Some (False, Table)" by (simp add: demo_table_env_def)
  from table_cells_placed [OF demo_table_shape(2) _ demo_table_shape(1) this demo_ops demo_ops_ok(1-3), of False True]
  show ?thesis using demo_ops_ok(4) by (simp add: demo_ops_def ex_node_def demo_trees_def)
qed

text \<open>The cell of the second row is put below the cell that still fills the first column there: both
  ask for the slot, so with the rows that are asked for they are not apart.\<close>
lemma rowspan_one_short:
  "map_option (\<lambda>(ctx, ids). map (\<lambda>x. (tc_node x, unat (tc_col x), cell_slots x)) (tx_cells ctx))
     (build_table_context demo_table_env False True (demo_table ''1'') n1)
   = Some [(n5, 0, [(0, 0), (1, 0)]), (n6, 1, [(0, 1)]), (n7, 0, [(1, 0)])]"
  by code_simp

text \<open>A \<open>colspan\<close> is not limited: the end of the cell wraps around.\<close>
lemma wide_colspan_panics: "build_table_context demo_table_env False True (demo_table ''65535'') n1 = None"
  by code_simp

text \<open>The slot of the second row belongs to the first cell, whose double border of width one meets the
  single side of the table: it is the stronger one.\<close>
theorem collapsed_border_wins_witness:
  "let x = (\<lambda>i r c s w. \<lparr> tc_node = i, tc_row = r, tc_col = c, tc_rowspan = 1, tc_colspan = 1,
        tc_sides = (\<lambda>_. \<lparr> cb_width = w, cb_style = s, cb_color = () \<rparr>) \<rparr>);
       G = resolve_collapsed_grid [x n1 0 0 Solid (2 :: nat), x n2 1 0 Double 2] 2 1 (\<lambda>_. \<lparr> cb_width = 1, cb_style = Solid, cb_color = () \<rparr>)
   in cg_h G ! 1 = Some \<lparr> cb_width = 2, cb_style = Double, cb_color = () \<rparr>"
proof -
  let ?x = "\<lambda>i r c s w. \<lparr> tc_node = i, tc_row = r, tc_col = c, tc_rowspan = 1, tc_colspan = 1,
        tc_sides = (\<lambda>_. \<lparr> cb_width = w, cb_style = s, cb_color = () \<rparr>) \<rparr>"
  let ?cells = "[?x n1 0 0 Solid (2 :: nat), ?x n2 1 0 Double 2]"
  let ?sides = "\<lambda>_. \<lparr> cb_width = 1, cb_style = Solid, cb_color = () \<rparr>"
  have grid: "occupancy ?cells 2 1 = [Some 0, Some 1]"
    by (simp add: occupancy_def cell_slots_def claim_slot_def numeral_2_eq_2)
  have "strongest [\<lparr> cb_width = 2, cb_style = Solid, cb_color = () \<rparr>, \<lparr> cb_width = 2, cb_style = Double, cb_color = () \<rparr>]
      (cg_h (resolve_collapsed_grid ?cells 2 1 ?sides) ! 1)"
    using collapsed_border_wins [of ?cells 2 1 ?sides, rule_format, of 1 0, unfolded Let_def grid]
    by (simp add: slot_side_def given_def)
  then show ?thesis
    by (cases "cg_h (resolve_collapsed_grid ?cells 2 1 ?sides) ! 1")
      (auto simp: strongest_def cb_visible_def none_or_hidden_def beats_def Cons_eq_append_conv)
qed

end
