(* ===== verification/List_Markers.thy ===== *)
theory List_Markers
  imports Dom_Order Dom_Node Dom_Example "HOL-Library.Signed_Division"
begin

text \<open>
  The numbering of lists (\<open>strake-dom/src/layout/list.rs\<close>, with its start in
  \<open>layout/construct.rs\<close>).  Computed styles come from \<open>stylo\<close> and are parameters; the shaping of a
  marker outside its item is left out.  An index is a natural number below \<open>2 ^ 64\<close>.
\<close>

section \<open>Markers\<close>

definition usize_add :: "nat \<Rightarrow> nat \<Rightarrow> nat" where
  "usize_add a b = (a + b) mod 2 ^ 64"

text \<open>\<open>as i64\<close>.\<close>
definition as_i64 :: "nat \<Rightarrow> int" where
  "as_i64 n = (if n < 2 ^ 63 then int n else int n - 2 ^ 64)"

lemma rest_of_index: "index < 2 ^ 63 \<Longrightarrow> as_i64 (index - index mod 26) sdiv 26 - 1 = int (index div 26) - 1"
proof -
  assume "index < 2 ^ 63"
  then have "as_i64 (index - index mod 26) = int (26 * (index div 26))"
    by (simp add: as_i64_def minus_mod_eq_mult_div)
  moreover have "int (26 * q) sdiv 26 = int q" for q by (cases "q = 0") (simp_all add: signed_divide_int_def)
  ultimately show ?thesis by simp
qed

lemma rest_small: "as_i64 (index - index mod 26) sdiv 26 - 1 \<ge> 0 \<Longrightarrow> nat (as_i64 (index - index mod 26) sdiv 26 - 1) < index"
proof -
  assume nn: "as_i64 (index - index mod 26) sdiv 26 - 1 \<ge> 0"
  let ?m = "index - index mod 26"
  have pos: "as_i64 ?m > 0"
  proof (rule ccontr)
    assume "\<not> as_i64 ?m > 0"
    then have "as_i64 ?m sdiv 26 \<le> 0"
      by (cases "as_i64 ?m = 0") (simp_all add: signed_divide_int_def)
    then show False using nn by simp
  qed
  have "as_i64 ?m \<le> int ?m" by (simp add: as_i64_def)
  moreover have "as_i64 ?m sdiv 26 = as_i64 ?m div 26" using pos by (simp add: signed_divide_int_def)
  ultimately show ?thesis using pos by linarith
qed

text \<open>Letters from the last to the first.\<close>
function build_alpha_marker :: "nat \<Rightarrow> string \<Rightarrow> string" where
  "build_alpha_marker index str =
    (let rem = index mod 26;
         str1 = char_of (97 + rem) # str;
         rest = as_i64 (index - rem) sdiv 26 - 1
     in if rest \<ge> 0 then build_alpha_marker (nat rest) str1 else str1)"
  by auto

termination
  by (relation "measure fst") (simp_all add: rest_small)

declare build_alpha_marker.simps [simp del]

definition ascii_upper :: "char \<Rightarrow> char" where
  "ascii_upper c = (let k = of_char c :: nat in if 97 \<le> k \<and> k \<le> 122 then char_of (k - 32) else c)"

definition to_ascii_uppercase :: "string \<Rightarrow> string" where
  "to_ascii_uppercase = map ascii_upper"

datatype counter_style = CSNone | CSName string | CSString string | CSSymbols "string list"

text \<open>A character is given by its UTF-8 bytes.\<close>
datatype marker = MarkerChar string | MarkerString string

definition marker_for_style :: "counter_style \<Rightarrow> nat \<Rightarrow> marker option" where
  "marker_for_style style index = (case style of
      CSNone \<Rightarrow> None
    | CSName name \<Rightarrow> Some (
        if name = ''lower-alpha'' then MarkerString (build_alpha_marker index [] @ ''. '')
        else if name = ''upper-alpha'' then MarkerString (to_ascii_uppercase (build_alpha_marker index []) @ ''. '')
        else if name = ''decimal'' then MarkerString (decimal (usize_add index 1) @ ''. '')
        else if name = ''disc'' then MarkerChar [CHR 0xE2, CHR 0x80, CHR 0xA2]
        else if name = ''circle'' then MarkerChar [CHR 0xE2, CHR 0x97, CHR 0xA6]
        else if name = ''square'' then MarkerChar [CHR 0xE2, CHR 0x96, CHR 0xAA]
        else if name = ''disclosure-open'' then MarkerChar [CHR 0xE2, CHR 0x96, CHR 0xBE]
        else if name = ''disclosure-closed'' then MarkerChar [CHR 0xE2, CHR 0x96, CHR 0xB8]
        else MarkerChar [CHR 0xE2, CHR 0x96, CHR 0xA1])
    | CSString s \<Rightarrow> Some (MarkerString s)
    | CSSymbols syms \<Rightarrow> Some (if syms = [] then MarkerChar [CHR 0xE2, CHR 0x80, CHR 0xA2]
        else MarkerString (syms ! (if length syms > 1 then index mod length syms else 0))))"

section \<open>Items\<close>

text \<open>The computed style of a node that has one: whether it is a list item, its counter style and
  whether its marker stands inside.\<close>
record list_style =
  ls_is_item :: bool
  ls_counter :: counter_style
  ls_inside :: bool

record list_item =
  li_marker :: marker
  li_inside :: bool

type_synonym list_items = "node_id \<rightharpoonup> list_item"

definition node_list_item_child ::
    "(node_id \<Rightarrow> list_style option) \<Rightarrow> document \<Rightarrow> node_id \<Rightarrow> nat \<Rightarrow> list_item option may_panic" where
  "node_list_item_child styles d i index = do {
     n \<leftarrow> node_at d i;
     Some (case styles i of
         None \<Rightarrow> None
       | Some s \<Rightarrow>
           if \<not> ls_is_item s then None
           else if (case element_data n of None \<Rightarrow> False | Some e \<Rightarrow> qn_local (el_name e) \<in> {''ol'', ''ul''}) then None
           else map_option (\<lambda>m. \<lparr> li_marker = m, li_inside = ls_inside s \<rparr>) (marker_for_style (ls_counter s) index))
   }"

text \<open>The children in the list and what is below the items among them.\<close>
partial_function (option) collect_items ::
    "(node_id \<Rightarrow> list_style option) \<Rightarrow> bool \<Rightarrow> document \<Rightarrow> node_id list \<Rightarrow> nat \<times> list_items \<Rightarrow> (nat \<times> list_items) option" where
  "collect_items styles reversed d is s = (case is of
      [] \<Rightarrow> Some s
    | i # rest \<Rightarrow> do {
        item \<leftarrow> node_list_item_child styles d i (fst s);
        n \<leftarrow> node_at d i;
        s1 \<leftarrow> (case item of
            Some layout \<Rightarrow>
              if element_data n = None then None
              else collect_items styles reversed d (if reversed then rev (children n) else children n)
                (usize_add (fst s) 1, (snd s)(i \<mapsto> layout))
          | None \<Rightarrow> Some (fst s, if element_data n = None then snd s else (snd s)(i := None)));
        collect_items styles reversed d rest s1 })"

declare collect_items.simps [code]

definition collect_list_item_children ::
    "(node_id \<Rightarrow> list_style option) \<Rightarrow> nat \<Rightarrow> bool \<Rightarrow> document \<Rightarrow> node_id \<Rightarrow> list_items \<Rightarrow> (nat \<times> list_items) may_panic" where
  "collect_list_item_children styles index reversed d i items = do {
     n \<leftarrow> node_at d i;
     collect_items styles reversed d (if reversed then rev (children n) else children n) (index, items)
   }"

text \<open>Where a container starts to count; \<open>start - 1\<close> wraps around.\<close>
definition list_start :: "element_data \<Rightarrow> nat \<times> bool" where
  "list_start e =
    (if qn_local (el_name e) = ''ol'' then
       (case Option.bind (el_attr e ''start'') parse_u64 of None \<Rightarrow> 0 | Some v \<Rightarrow> usize_add (unat v) (2 ^ 64 - 1),
        case Option.bind (el_attr e ''reversed'') parse_bool of None \<Rightarrow> False | Some b \<Rightarrow> b)
     else (1, False))"

definition number_list ::
    "(node_id \<Rightarrow> list_style option) \<Rightarrow> document \<Rightarrow> node_id \<Rightarrow> list_items \<Rightarrow> (nat \<times> list_items) may_panic" where
  "number_list styles d i items = do {
     n \<leftarrow> node_at d i;
     (case element_data n of None \<Rightarrow> Some (0, items)
      | Some e \<Rightarrow> (case list_start e of (index, reversed) \<Rightarrow> collect_list_item_children styles index reversed d i items))
   }"

section \<open>Letters\<close>

text \<open>The number of a word of letters, \<open>a\<close> being one.\<close>
definition letters_value :: "string \<Rightarrow> nat" where
  "letters_value s = foldl (\<lambda>v c. v * 26 + (of_char c - 96)) 0 s"

definition is_letter :: "char \<Rightarrow> bool" where
  "is_letter c \<longleftrightarrow> 97 \<le> (of_char c :: nat) \<and> (of_char c :: nat) \<le> 122"

lemma alpha_step:
  assumes "index < 2 ^ 63"
  shows "build_alpha_marker index str =
    (if index < 26 then char_of (97 + index mod 26) # str
     else build_alpha_marker (index div 26 - 1) (char_of (97 + index mod 26) # str))"
proof (cases "index < 26")
  case True
  then have "as_i64 (index - index mod 26) sdiv 26 - 1 = -1" using rest_of_index [OF assms] by simp
  then show ?thesis using True by (subst build_alpha_marker.simps) (simp add: Let_def)
next
  case False
  then have "1 \<le> index div 26" by simp
  then show ?thesis using False rest_of_index [OF assms]
    by (subst build_alpha_marker.simps) (simp add: Let_def nat_diff_distrib)
qed

lemma build_alpha_marker_letters:
  "index < 2 ^ 63 \<Longrightarrow> \<exists>t. build_alpha_marker index str = t @ str \<and> t \<noteq> [] \<and> list_all is_letter t \<and> letters_value t = index + 1"
proof (induction index arbitrary: str rule: less_induct)
  case (less index)
  let ?rem = "index mod 26"
  let ?c = "char_of (97 + ?rem) :: char"
  have "(97 + ?rem) mod 256 = 97 + ?rem" by (rule mod_less) (simp add: trans_less_add1 [of _ 25])
  then have c: "(of_char ?c :: nat) = 97 + ?rem" unfolding of_char_of by simp
  have l: "is_letter ?c" unfolding is_letter_def c by simp
  show ?case
  proof (cases "index < 26")
    case True
    then have "build_alpha_marker index str = [?c] @ str" using alpha_step [OF less.prems] by simp
    moreover have "letters_value [?c] = index + 1" unfolding letters_value_def foldl.simps c using True by simp
    ultimately show ?thesis using l by (intro exI [of _ "[?c]"]) simp
  next
    case False
    then have d: "1 \<le> index div 26" by simp
    have e: "build_alpha_marker index str = build_alpha_marker (index div 26 - 1) (?c # str)"
      using False alpha_step [OF less.prems] by simp
    have "index div 26 - 1 < index" "index div 26 - 1 < 2 ^ 63" using False less.prems by auto
    from less.IH [OF this, of "?c # str"] obtain t where
      t: "build_alpha_marker (index div 26 - 1) (?c # str) = t @ ?c # str" "t \<noteq> []" "list_all is_letter t" "letters_value t = index div 26"
      using d by auto
    have "letters_value (t @ [?c]) = letters_value t * 26 + (of_char ?c - 96)" by (simp add: letters_value_def)
    also have "\<dots> = index div 26 * 26 + (?rem + 1)" unfolding t(4) c by simp
    also have "\<dots> = index + 1" by simp
    finally show ?thesis using e t l by (intro exI [of _ "t @ [?c]"]) simp
  qed
qed

text \<open>Letters count.  The letters of an item, read with \<open>a\<close> as one up to \<open>z\<close> as twenty-six in base
  twenty-six without a zero, are the number of the item: no two items of a list have the same
  letters, however long the list is.\<close>
lemma alpha_marker_round_trip:
  assumes "index < 2 ^ 63"
  shows "list_all is_letter (build_alpha_marker index []) \<and> letters_value (build_alpha_marker index []) = index + 1"
  using build_alpha_marker_letters [OF assms, of "[]"] by auto

lemma alpha_marker_round_trip_witness:
  "list_all is_letter (build_alpha_marker 27 []) \<and> build_alpha_marker 27 [] = ''ab'' \<and> letters_value ''ab'' = 28"
proof -
  have c: "char_of (98 :: nat) = CHR ''b''" "char_of (97 :: nat) = CHR ''a''" by code_simp+
  have m: "build_alpha_marker 27 [] = ''ab''" by (simp add: alpha_step c)
  show ?thesis using alpha_marker_round_trip [of 27] unfolding m by simp
qed

section \<open>Numbers\<close>

text \<open>Whether a node is an item of a list, whatever its number.\<close>
definition is_list_item :: "(node_id \<Rightarrow> list_style option) \<Rightarrow> document \<Rightarrow> node_id \<Rightarrow> bool" where
  "is_list_item styles d i = (case (styles i, Option.bind (nodes d i) element_data) of
      (Some s, Some e) \<Rightarrow> ls_is_item s \<and> qn_local (el_name e) \<notin> {''ol'', ''ul''} \<and> ls_counter s \<noteq> CSNone
    | _ \<Rightarrow> False)"

text \<open>The items of a list in the order they are numbered: an item, then those below it.\<close>
fun items_of :: "(node_id \<Rightarrow> bool) \<Rightarrow> bool \<Rightarrow> tree \<Rightarrow> node_id list" where
  "items_of P reversed (T i ts) = (if P i then i # concat ((if reversed then rev else (\<lambda>us. us)) (map (items_of P reversed) ts)) else [])"

definition list_item_at :: "(node_id \<Rightarrow> list_style option) \<Rightarrow> node_id \<Rightarrow> nat \<Rightarrow> list_item" where
  "list_item_at styles i k = (case styles i of None \<Rightarrow> undefined
     | Some s \<Rightarrow> \<lparr> li_marker = the (marker_for_style (ls_counter s) k), li_inside = ls_inside s \<rparr>)"

text \<open>The markers after the nodes of a list were numbered from \<open>k\<close>.\<close>
fun numbered :: "(node_id \<Rightarrow> list_style option) \<Rightarrow> nat \<Rightarrow> node_id list \<Rightarrow> list_items \<Rightarrow> list_items" where
  "numbered styles k [] items = items"
| "numbered styles k (i # is) items = numbered styles (k + 1) is (items(i \<mapsto> list_item_at styles i k))"

lemma numbered_append: "numbered styles k (is @ js) items = numbered styles (k + length is) js (numbered styles k is items)"
  by (induction "is" arbitrary: k items) simp_all

lemma numbered_other: "j \<notin> set is \<Longrightarrow> numbered styles k is items j = items j"
  by (induction "is" arbitrary: k items) simp_all

lemma numbered_at: "distinct is \<Longrightarrow> m < length is \<Longrightarrow> numbered styles k is items (is ! m) = Some (list_item_at styles (is ! m) (k + m))"
proof (induction "is" arbitrary: k m items)
  case (Cons i "is") then show ?case by (cases m) (simp_all add: numbered_other)
qed simp

lemma marker_some: "style \<noteq> CSNone \<Longrightarrow> marker_for_style style k = Some (the (marker_for_style style k))"
  by (cases style) (simp_all add: marker_for_style_def)

lemma items_of_subset: "set (items_of P reversed t) \<subseteq> {i \<in> set (preorder t). P i}"
proof (induction t)
  case (T i ts)
  then have ih: "\<forall>u\<in>set ts. \<forall>x\<in>set (items_of P reversed u). x \<in> set (preorder u) \<and> P x" by blast
  show ?case by (cases reversed) (use ih in auto)
qed

lemma distinct_concat_rev: "distinct (concat (map f (rev us))) = distinct (concat (map f us))"
  by (induction us) (auto simp: disjoint_iff)

lemma items_of_all_distinct:
  assumes "distinct (concat (map preorder us))" "\<forall>u\<in>set us. distinct (items_of P reversed u)"
  shows "distinct (concat (map (items_of P reversed) us))"
  using assms
proof (induction us)
  case (Cons u us)
  have sub: "\<forall>v. set (items_of P reversed v) \<subseteq> set (preorder v)" using items_of_subset [of P reversed] by blast
  have "set (items_of P reversed u) \<inter> set (concat (map (items_of P reversed) us)) = {}"
  proof -
    have "set (concat (map (items_of P reversed) us)) \<subseteq> set (concat (map preorder us))" using sub by auto
    moreover have "set (preorder u) \<inter> set (concat (map preorder us)) = {}" using Cons.prems(1) by simp
    ultimately show ?thesis using sub by blast
  qed
  then show ?case using Cons by simp
qed simp

text \<open>The items below a node.\<close>
definition items_below :: "(node_id \<Rightarrow> bool) \<Rightarrow> bool \<Rightarrow> tree list \<Rightarrow> node_id list" where
  "items_below P reversed ts = concat (map (items_of P reversed) (if reversed then rev ts else ts))"

lemma items_of_T: "items_of P reversed (T i ts) = (if P i then i # items_below P reversed ts else [])"
  by (cases reversed) (simp_all add: items_below_def rev_map)

declare items_of.simps [simp del]

lemma items_below_subset: "set (items_below P reversed ts) \<subseteq> {i \<in> set (concat (map preorder ts)). P i}"
proof -
  have "\<forall>u. \<forall>x\<in>set (items_of P reversed u). x \<in> set (preorder u) \<and> P x" using items_of_subset [of P reversed] by blast
  moreover have "set (if reversed then rev ts else ts) = set ts" by simp
  ultimately show ?thesis unfolding items_below_def set_concat set_map by blast
qed

lemma items_below_distinct:
  assumes "distinct (concat (map preorder ts))" "\<forall>u\<in>set ts. distinct (items_of P reversed u)"
  shows "distinct (items_below P reversed ts)"
  using items_of_all_distinct [OF assms] by (cases reversed) (simp_all add: items_below_def distinct_concat_rev)

lemma items_of_distinct: "distinct (preorder t) \<Longrightarrow> distinct (items_of P reversed t)"
proof (induction t)
  case (T i ts)
  have d: "distinct (concat (map preorder ts))" "i \<notin> set (concat (map preorder ts))" using T.prems by simp_all
  have "\<forall>u\<in>set ts. distinct (items_of P reversed u)"
  proof
    fix u assume u: "u \<in> set ts"
    then have "distinct (preorder u)" using d(1) by (auto simp: distinct_concat_iff)
    then show "distinct (items_of P reversed u)" by (rule T.IH [OF u])
  qed
  from items_below_distinct [OF d(1) this] show ?case
    using d(2) subsetD [OF items_below_subset [of P reversed ts], of i] by (auto simp: items_of_T)
qed

lemma collect_items_Nil [simp]: "collect_items styles reversed d [] s = Some s"
  by (subst collect_items.simps) simp

text \<open>Nodes that are no items lose an old marker.\<close>
definition agrees_on :: "node_id set \<Rightarrow> list_items \<Rightarrow> list_items \<Rightarrow> bool" where
  "agrees_on X a b \<longleftrightarrow> (\<forall>i\<in>X. a i = b i)"

lemma numbered_cong: "agrees_on X a b \<Longrightarrow> agrees_on X (numbered styles k is a) (numbered styles k is b)"
proof (induction "is" arbitrary: k a b)
  case (Cons i "is")
  have "agrees_on X (a(i \<mapsto> list_item_at styles i k)) (b(i \<mapsto> list_item_at styles i k))" using Cons.prems by (simp add: agrees_on_def)
  then show ?case using Cons.IH by simp
qed simp

lemma agrees_trans: "agrees_on X a b \<Longrightarrow> agrees_on X b c \<Longrightarrow> agrees_on X a c"
  by (simp add: agrees_on_def)

text \<open>Only elements are styled.\<close>
definition styles_ok :: "(node_id \<Rightarrow> list_style option) \<Rightarrow> document \<Rightarrow> bool" where
  "styles_ok styles d \<longleftrightarrow> (\<forall>i n. nodes d i = Some n \<longrightarrow> styles i \<noteq> None \<longrightarrow> element_data n \<noteq> None)"

lemma item_child:
  assumes "nodes d i = Some n" "styles_ok styles d"
  shows "node_list_item_child styles d i k = Some (if is_list_item styles d i then Some (list_item_at styles i k) else None)"
proof (cases "styles i")
  case None then show ?thesis using assms(1) by (simp add: node_list_item_child_def is_list_item_def dom_simps)
next
  case (Some s)
  then obtain e where e: "element_data n = Some e" using assms by (auto simp: styles_ok_def)
  have "marker_for_style CSNone k = None" by (simp add: marker_for_style_def)
  then show ?thesis using assms(1) Some e marker_some [of "ls_counter s" k]
    by (cases "ls_counter s = CSNone") (auto simp: node_list_item_child_def is_list_item_def list_item_at_def dom_simps)
qed

lemma collect_items_Cons:
  assumes n: "nodes d i = Some n" and ok: "styles_ok styles d"
  shows "collect_items styles reversed d (i # rest) (k, items) =
    (if is_list_item styles d i
     then do { s1 \<leftarrow> collect_items styles reversed d (if reversed then rev (children n) else children n)
                 (usize_add k 1, items(i \<mapsto> list_item_at styles i k));
               collect_items styles reversed d rest s1 }
     else collect_items styles reversed d rest (k, if element_data n = None then items else items(i := None)))"
proof -
  have "is_list_item styles d i \<Longrightarrow> element_data n \<noteq> None" using n by (auto simp: is_list_item_def split: option.splits)
  then show ?thesis by (subst collect_items.simps) (auto simp: item_child [OF n ok] dom_simps n)
qed

lemma collect_items_tree:
  "represents d p t \<Longrightarrow> styles_ok styles d \<Longrightarrow> k + length (items_of (is_list_item styles d) reversed t) < 2 ^ 64 \<Longrightarrow>
   \<exists>items1. agrees_on {i. is_list_item styles d i} items1 (numbered styles k (items_of (is_list_item styles d) reversed t) items)
     \<and> (\<not> is_list_item styles d (root t) \<longrightarrow> nodes d (root t) \<noteq> None \<longrightarrow> (\<forall>n. nodes d (root t) = Some n \<longrightarrow> element_data n \<noteq> None \<longrightarrow> items1 (root t) = None))
     \<and> (\<forall>rest. collect_items styles reversed d (root t # rest) (k, items)
          = collect_items styles reversed d rest (k + length (items_of (is_list_item styles d) reversed t), items1))"
proof (induction t arbitrary: p k items)
  case (T i ts)
  let ?P = "is_list_item styles d"
  from T.prems(1) obtain n where n: "nodes d i = Some n" "children n = map root ts" "\<forall>s\<in>set ts. represents d (Some i) s"
    by (auto split: option.splits)
  have all: "\<exists>items1. agrees_on {i. ?P i} items1 (numbered styles k (concat (map (items_of ?P reversed) us)) items)
      \<and> collect_items styles reversed d (map root us) (k, items) = Some (k + length (concat (map (items_of ?P reversed) us)), items1)"
    if "set us \<subseteq> set ts" "k + length (concat (map (items_of ?P reversed) us)) < 2 ^ 64" for us k items
    using that
  proof (induction us arbitrary: k items)
    case Nil then show ?case by (simp add: agrees_on_def)
  next
    case (Cons u us)
    have u: "u \<in> set ts" "represents d (Some i) u" using Cons.prems(1) n(3) by auto
    have "k + length (items_of ?P reversed u) < 2 ^ 64" using Cons.prems(2) by simp
    from T.IH [OF u T.prems(2) this, of items] obtain items2 where
      i2: "agrees_on {i. ?P i} items2 (numbered styles k (items_of ?P reversed u) items)"
      "\<forall>rest. collect_items styles reversed d (root u # rest) (k, items)
          = collect_items styles reversed d rest (k + length (items_of ?P reversed u), items2)" by blast
    let ?k = "k + length (items_of ?P reversed u)"
    obtain items1 where i1: "agrees_on {i. ?P i} items1 (numbered styles ?k (concat (map (items_of ?P reversed) us)) items2)"
      "collect_items styles reversed d (map root us) (?k, items2) = Some (?k + length (concat (map (items_of ?P reversed) us)), items1)"
      using Cons.IH [of ?k items2] Cons.prems by auto
    have "agrees_on {i. ?P i} items1 (numbered styles k (concat (map (items_of ?P reversed) (u # us))) items)"
      using agrees_trans [OF i1(1) numbered_cong [OF i2(1)]] by (simp add: numbered_append)
    then show ?case using i1(2) i2(2) by (intro exI [of _ items1]) (simp add: add.assoc)
  qed
  show ?case
  proof (cases "?P i")
    case False
    then show ?thesis
      by (intro exI [of _ "if element_data n = None then items else items(i := None)"])
        (auto simp: collect_items_Cons [OF n(1) T.prems(2)] n(1) agrees_on_def items_of_T)
  next
    case True
    let ?us = "if reversed then rev ts else ts"
    have us: "(if reversed then rev (children n) else children n) = map root ?us" "set ?us \<subseteq> set ts" by (simp_all add: rev_map n(2))
    have len: "length (items_of ?P reversed (T i ts)) = Suc (length (items_below ?P reversed ts))" using True by (simp add: items_of_T)
    have k1: "usize_add k 1 = k + 1" using T.prems(3) len by (simp add: usize_add_def)
    obtain items1 where i1: "agrees_on {i. ?P i} items1 (numbered styles (k + 1) (items_below ?P reversed ts) (items(i \<mapsto> list_item_at styles i k)))"
      "collect_items styles reversed d (map root ?us) (k + 1, items(i \<mapsto> list_item_at styles i k))
        = Some (k + 1 + length (items_below ?P reversed ts), items1)"
      using all [OF us(2), of "k + 1" "items(i \<mapsto> list_item_at styles i k)"] T.prems(3) len unfolding items_below_def by auto
    have "agrees_on {i. ?P i} items1 (numbered styles k (items_of ?P reversed (T i ts)) items)"
      using i1(1) True by (simp add: items_of_T)
    moreover have "collect_items styles reversed d (root (T i ts) # rest) (k, items)
        = collect_items styles reversed d rest (k + length (items_of ?P reversed (T i ts)), items1)" for rest
      using True unfolding len by (simp add: collect_items_Cons [OF n(1) T.prems(2)] us(1) [simplified] k1 [simplified] i1(2) [simplified])
    ultimately show ?thesis using True by (intro exI [of _ items1]) simp
  qed
qed

lemma collect_items_trees:
  assumes "\<forall>u\<in>set us. represents d (Some i) u" "styles_ok styles d"
  shows "k + length (concat (map (items_of (is_list_item styles d) reversed) us)) < 2 ^ 64 \<Longrightarrow>
    \<exists>items1. agrees_on {i. is_list_item styles d i} items1
        (numbered styles k (concat (map (items_of (is_list_item styles d) reversed) us)) items)
      \<and> collect_items styles reversed d (map root us) (k, items)
        = Some (k + length (concat (map (items_of (is_list_item styles d) reversed) us)), items1)"
  using assms(1)
proof (induction us arbitrary: k items)
  case Nil then show ?case by (simp add: agrees_on_def)
next
  case (Cons u us)
  let ?P = "is_list_item styles d"
  have u: "represents d (Some i) u" using Cons.prems(2) by simp
  have "k + length (items_of ?P reversed u) < 2 ^ 64" using Cons.prems(1) by simp
  from collect_items_tree [OF u assms(2) this, of items] obtain items2 where
    i2: "agrees_on {i. ?P i} items2 (numbered styles k (items_of ?P reversed u) items)"
    "\<forall>rest. collect_items styles reversed d (root u # rest) (k, items)
        = collect_items styles reversed d rest (k + length (items_of ?P reversed u), items2)" by blast
  let ?k = "k + length (items_of ?P reversed u)"
  obtain items1 where i1: "agrees_on {i. ?P i} items1 (numbered styles ?k (concat (map (items_of ?P reversed) us)) items2)"
    "collect_items styles reversed d (map root us) (?k, items2) = Some (?k + length (concat (map (items_of ?P reversed) us)), items1)"
    using Cons.IH [of ?k items2] Cons.prems by auto
  have "agrees_on {i. ?P i} items1 (numbered styles k (concat (map (items_of ?P reversed) (u # us))) items)"
    using agrees_trans [OF i1(1) numbered_cong [OF i2(1)]] by (simp add: numbered_append)
  then show ?case using i1(2) i2(2) by (intro exI [of _ items1]) (simp add: add.assoc)
qed

text \<open>A list is numbered consecutively.  On a well-formed list the walk returns, and the items it
  meets, in document order or backwards for a reversed list, an item before the items below it,
  get the markers of consecutive numbers from the given start on.\<close>
lemma list_numbering:
  assumes t: "represents d p (T i ts)" "distinct (preorder (T i ts))" and ok: "styles_ok styles d"
    and js: "js = items_below (is_list_item styles d) reversed ts"
    and k: "k + length js < 2 ^ 64"
  shows "\<exists>items1. collect_list_item_children styles k reversed d i items = Some (k + length js, items1)
    \<and> (\<forall>m<length js. items1 (js ! m) = Some (list_item_at styles (js ! m) (k + m)))"
proof -
  let ?P = "is_list_item styles d" and ?us = "if reversed then rev ts else ts"
  from t(1) obtain n where n: "nodes d i = Some n" "children n = map root ts" "\<forall>s\<in>set ts. represents d (Some i) s"
    by (auto split: option.splits)
  have us: "(if reversed then rev (children n) else children n) = map root ?us" "\<forall>s\<in>set ?us. represents d (Some i) s"
    using n by (simp_all add: rev_map)
  obtain items1 where i1: "agrees_on {i. ?P i} items1 (numbered styles k js items)"
    "collect_items styles reversed d (map root ?us) (k, items) = Some (k + length js, items1)"
    using collect_items_trees [OF us(2) ok, of k reversed items] k unfolding js items_below_def by blast
  have P: "\<forall>j\<in>set js. ?P j" using items_below_subset [of ?P reversed ts] unfolding js by blast
  have dj: "distinct (concat (map preorder ts))" using t(2) by simp
  then have "\<forall>u\<in>set ts. distinct (items_of ?P reversed u)" by (auto simp: distinct_concat_iff intro: items_of_distinct)
  then have "distinct js" unfolding js by (rule items_below_distinct [OF dj])
  then have "\<forall>m<length js. items1 (js ! m) = Some (list_item_at styles (js ! m) (k + m))"
    using i1(1) P numbered_at [of js _ styles k items] by (simp add: agrees_on_def)
  moreover have "collect_list_item_children styles k reversed d i items = Some (k + length js, items1)"
    using i1(2) unfolding collect_list_item_children_def us(1) [symmetric] by (simp add: dom_simps n(1))
  ultimately show ?thesis by blast
qed

definition ex_list :: document where
  "ex_list = ex_document
     [(n1, ex_node n1 None [n2] (Document ex_document_data)),
      (n2, ex_node n2 (Some n1) [n3, n4, n5] (Element (ex_element ''ol'' [] True))),
      (n3, ex_node n3 (Some n2) [] (Element (ex_element ''li'' [] True))),
      (n4, ex_node n4 (Some n2) [] (Element (ex_element ''p'' [] True))),
      (n5, ex_node n5 (Some n2) [] (Element (ex_element ''li'' [] True)))] []"

definition ex_styles :: "node_id \<Rightarrow> list_style option" where
  "ex_styles i = (if i \<in> {n2, n3, n4, n5} then Some \<lparr> ls_is_item = (i \<noteq> n2 \<and> i \<noteq> n4), ls_counter = CSName ''decimal'', ls_inside = False \<rparr> else None)"

text \<open>From the index five, backwards: the last item gets it and the first the next.\<close>
lemma list_numbering_witness:
  "\<exists>items1. collect_list_item_children ex_styles 5 True ex_list n2 Map.empty = Some (7, items1)
     \<and> items1 n5 = Some (list_item_at ex_styles n5 5) \<and> items1 n3 = Some (list_item_at ex_styles n3 6)"
proof -
  have t: "represents ex_list (Some n1) (T n2 [T n3 [], T n4 [], T n5 []])" by code_simp
  have d: "distinct (preorder (T n2 [T n3 [], T n4 [], T n5 []]))" by code_simp
  have ok: "styles_ok ex_styles ex_list"
    by (auto simp: styles_ok_def ex_styles_def ex_list_def ex_document_def ex_node_def node_new_def element_data_def split: if_splits)
  have js: "[n5, n3] = items_below (is_list_item ex_styles ex_list) True [T n3 [], T n4 [], T n5 []]" by code_simp
  have "\<exists>items1. collect_list_item_children ex_styles 5 True ex_list n2 Map.empty = Some (5 + length [n5, n3], items1)
    \<and> (\<forall>m<length [n5, n3]. items1 ([n5, n3] ! m) = Some (list_item_at ex_styles ([n5, n3] ! m) (5 + m)))"
    by (rule list_numbering [OF t d ok js]) simp
  then obtain items1 where "collect_list_item_children ex_styles 5 True ex_list n2 Map.empty = Some (7, items1)"
    "\<forall>m<2. items1 ([n5, n3] ! m) = Some (list_item_at ex_styles ([n5, n3] ! m) (5 + m))" by auto
  then show ?thesis by (auto simp: less_2_cases_iff)
qed

section \<open>Where a list starts\<close>

text \<open>An unordered list with decimal markers begins with a two, an ordered one that starts at zero
  with a number beyond all others, and \<open>reversed\<close> is only read when it is spelled \<open>true\<close>.\<close>
lemma list_start_cases:
  "list_start (ex_element ''ul'' [] True) = (1, False)"
  "marker_for_style (CSName ''decimal'') 1 = Some (MarkerString ''2. '')"
  "list_start (ex_element ''ol'' [(''start'', ''0'')] True) = (2 ^ 64 - 1, False)"
  "list_start (ex_element ''ol'' [(''reversed'', '''')] True) = (0, False)"
  "list_start (ex_element ''ol'' [(''reversed'', ''true'')] True) = (0, True)"
proof -
  show "list_start (ex_element ''ul'' [] True) = (1, False)" by code_simp
  show "marker_for_style (CSName ''decimal'') 1 = Some (MarkerString ''2. '')"
  proof -
    have "decimal (Suc (Suc 0)) = ''2''" by code_simp
    then show ?thesis by (simp add: marker_for_style_def usize_add_def)
  qed
  show "list_start (ex_element ''ol'' [(''start'', ''0'')] True) = (2 ^ 64 - 1, False)"
  proof -
    let ?e = "ex_element ''ol'' [(''start'', ''0'')] True"
    have "parse_u64 ''0'' = Some 0" "el_attr ?e ''start'' = Some ''0''" "el_attr ?e ''reversed'' = None" "qn_local (el_name ?e) = ''ol''"
      by code_simp+
    then show ?thesis by (simp add: list_start_def usize_add_def)
  qed
  show "list_start (ex_element ''ol'' [(''reversed'', '''')] True) = (0, False)" by code_simp
  show "list_start (ex_element ''ol'' [(''reversed'', ''true'')] True) = (0, True)" by code_simp
qed

end
