(* ===== verification/Box_Reparent.thy ===== *)
theory Box_Reparent
  imports Dom_Order Dom_Interaction Table_Layout
begin

text \<open>
  Out-of-flow boxes (\<open>strake-dom/src/layout/construct.rs\<close>): after the layout tree is built, each
  absolutely positioned box is moved below its containing block.  Computed styles come from \<open>stylo\<close>
  and are parameters; a layout cache is given by the log of the nodes whose cache is cleared.
\<close>

section \<open>Styles\<close>

datatype css_position = Static | Relative | Absolute | Sticky | Fixed
datatype display_outside = ONone | OInline | OBlock | OTableCaption | OInternalTable
datatype css_overflow = OverflowVisible | OverflowHidden | OverflowScroll | OverflowAuto | OverflowClip
datatype contain_bit = ContainInlineSize | ContainBlockSize | ContainLayout | ContainStyle | ContainPaint
datatype will_change_bit = WillTransform | WillPerspective | WillContain | WillFixposCb | WillOther

record box_style =
  bs_outside :: display_outside
  bs_inside :: display_inside
  bs_position :: css_position
  bs_floating :: bool
  bs_overflow_x :: css_overflow
  bs_overflow_y :: css_overflow
  bs_transform :: bool
  bs_perspective :: bool
  bs_filter :: bool
  bs_contain :: "contain_bit set"
  bs_will_change :: "will_change_bit set"

type_synonym box_styles = "node_id \<Rightarrow> box_style option"

definition is_absolutely_positioned :: "css_position \<Rightarrow> bool" where
  "is_absolutely_positioned p \<longleftrightarrow> p = Absolute \<or> p = Fixed"

definition establishes_containing_block :: "box_style \<Rightarrow> bool" where
  "establishes_containing_block s \<longleftrightarrow>
     (if bs_transform s then True
      else if bs_perspective s then True
      else if bs_contain s \<inter> {ContainLayout, ContainPaint} \<noteq> {} then True
      else if bs_filter s then True
      else bs_will_change s \<inter> {WillTransform, WillPerspective, WillContain, WillFixposCb} \<noteq> {})"

definition has_box :: "box_style \<Rightarrow> bool" where
  "has_box s \<longleftrightarrow> bs_inside s \<noteq> Contents \<and> bs_outside s \<noteq> ONone"

definition box_position :: "box_styles \<Rightarrow> document \<Rightarrow> node_id \<Rightarrow> css_position" where
  "box_position styles d i = (case nodes d i of None \<Rightarrow> Static
     | Some _ \<Rightarrow> (case styles i of None \<Rightarrow> Static | Some s \<Rightarrow> bs_position s))"

definition generates_graft_box :: "box_styles \<Rightarrow> document \<Rightarrow> node_id \<Rightarrow> bool" where
  "generates_graft_box styles d i \<longleftrightarrow> nodes d i \<noteq> None \<and> (case styles i of None \<Rightarrow> False | Some s \<Rightarrow> has_box s)"

section \<open>Containing blocks\<close>

text \<open>The nearest ancestor that traps the box, the root element otherwise.\<close>
partial_function (option) nearest_block ::
    "box_styles \<Rightarrow> (box_style \<Rightarrow> bool) \<Rightarrow> document \<Rightarrow> node_id \<Rightarrow> node_id option \<Rightarrow> node_id option" where
  "nearest_block styles traps d root_id current = (case current of
      None \<Rightarrow> Some root_id
    | Some i \<Rightarrow>
        if i = root_id then Some root_id
        else if nodes d i \<noteq> None \<and> (case styles i of None \<Rightarrow> False | Some s \<Rightarrow> traps s) \<and> generates_graft_box styles d i
          then Some i
        else (case nodes d i of None \<Rightarrow> Some root_id | Some n \<Rightarrow> nearest_block styles traps d root_id (parent n)))"

declare nearest_block.simps [code]

definition positioned_ancestor :: "box_styles \<Rightarrow> document \<Rightarrow> node_id \<Rightarrow> node_id \<Rightarrow> node_id option" where
  "positioned_ancestor styles d i root_id =
     nearest_block styles (\<lambda>s. bs_position s \<noteq> Static \<or> establishes_containing_block s) d root_id (Option.bind (nodes d i) parent)"

definition fixed_containing_block :: "box_styles \<Rightarrow> document \<Rightarrow> node_id \<Rightarrow> node_id \<Rightarrow> node_id option" where
  "fixed_containing_block styles d i root_id =
     nearest_block styles establishes_containing_block d root_id (Option.bind (nodes d i) parent)"

definition clips_box :: "box_styles \<Rightarrow> node_id \<Rightarrow> bool" where
  "clips_box styles i \<longleftrightarrow> (case styles i of None \<Rightarrow> False
     | Some s \<Rightarrow> has_box s \<and> (bs_overflow_x s \<noteq> OverflowVisible \<or> bs_overflow_y s \<noteq> OverflowVisible))"

text \<open>Whether a box that clips stands before the containing block.\<close>
text \<open>Whether the walk ends at a node, and how.\<close>
definition clip_verdict :: "box_styles \<Rightarrow> document \<Rightarrow> node_id \<Rightarrow> node_id option \<Rightarrow> bool option" where
  "clip_verdict styles d block current = (case current of
      None \<Rightarrow> Some False
    | Some i \<Rightarrow>
        if i = block then Some False
        else if nodes d i = None then Some False
        else if clips_box styles i then Some True
        else None)"

partial_function (option) clips_below :: "box_styles \<Rightarrow> document \<Rightarrow> node_id \<Rightarrow> node_id option \<Rightarrow> bool option" where
  "clips_below styles d block current = (case clip_verdict styles d block current of
      Some v \<Rightarrow> Some v
    | None \<Rightarrow> clips_below styles d block (Option.bind current (\<lambda>i. Option.bind (nodes d i) parent)))"

declare clips_below.simps [code]

definition has_clipping_intermediate :: "box_styles \<Rightarrow> document \<Rightarrow> node_id \<Rightarrow> node_id \<Rightarrow> bool option" where
  "has_clipping_intermediate styles d i block = clips_below styles d block (Option.bind (nodes d i) parent)"

section \<open>The pass\<close>

definition layout_list :: "node \<Rightarrow> node_id list" where
  "layout_list n = (case layout_children n of None \<Rightarrow> [] | Some cs \<Rightarrow> cs)"

text \<open>The out-of-flow boxes with the box they hang below, in document order.\<close>
partial_function (option) collect_out_of_flow ::
    "box_styles \<Rightarrow> document \<Rightarrow> (node_id \<times> node_id option) list \<Rightarrow> (node_id \<times> node_id) list \<Rightarrow> (node_id \<times> node_id) list option" where
  "collect_out_of_flow styles d stack found = (case stack of
      [] \<Rightarrow> Some found
    | (i, from_id) # rest \<Rightarrow> (case nodes d i of
          None \<Rightarrow> collect_out_of_flow styles d rest found
        | Some n \<Rightarrow> collect_out_of_flow styles d
            (map (\<lambda>c. (c, Some i)) (filter (\<lambda>c. nodes d c \<noteq> None) (layout_list n)) @ rest)
            (case from_id of
               Some f \<Rightarrow> if is_absolutely_positioned (box_position styles d i) then found @ [(i, f)] else found
             | None \<Rightarrow> found)))"

declare collect_out_of_flow.simps [code]

text \<open>The nodes whose cache is cleared, last first.\<close>
partial_function (option) clear_caches :: "document \<Rightarrow> node_id list \<Rightarrow> node_id list \<Rightarrow> node_id list option" where
  "clear_caches d stack cleared = (case stack of
      [] \<Rightarrow> Some cleared
    | i # rest \<Rightarrow> (case nodes d i of
          None \<Rightarrow> clear_caches d rest cleared
        | Some n \<Rightarrow> clear_caches d (rev (layout_list n) @ rest) (i # cleared)))"

declare clear_caches.simps [code]

definition clear_layout_cache_subtree :: "document \<Rightarrow> node_id \<Rightarrow> node_id list \<Rightarrow> node_id list option" where
  "clear_layout_cache_subtree d i cleared = clear_caches d [i] cleared"

definition clear_one :: "document \<Rightarrow> node_id \<Rightarrow> node_id list \<Rightarrow> node_id list" where
  "clear_one d i cleared = (if nodes d i = None then cleared else i # cleared)"

record reparent_state =
  rp_doc :: document
  rp_cleared :: "node_id list"
  rp_moved :: bool

definition detach_box :: "node_id \<Rightarrow> node_id \<Rightarrow> document \<Rightarrow> document option" where
  "detach_box i f d = (case nodes d f of None \<Rightarrow> None
     | Some n \<Rightarrow> (case layout_children n of None \<Rightarrow> None
        | Some cs \<Rightarrow> if i \<in> set cs then Some (update_node f (\<lambda>n. n\<lparr>layout_children := Some (remove1 i cs)\<rparr>) d) else None))"

definition graft_box :: "node_id \<Rightarrow> node_id \<Rightarrow> document \<Rightarrow> document" where
  "graft_box i to_id d =
     update_node to_id (\<lambda>n. n\<lparr>layout_children := Some (if i \<in> set (layout_list n) then layout_list n else layout_list n @ [i])\<rparr>) d"

definition containing_block :: "box_styles \<Rightarrow> document \<Rightarrow> node_id \<Rightarrow> node_id \<Rightarrow> node_id option" where
  "containing_block styles d root_id i =
     (if box_position styles d i = Fixed then fixed_containing_block styles d i root_id else positioned_ancestor styles d i root_id)"

definition reparent_box ::
    "box_styles \<Rightarrow> node_id \<Rightarrow> node_id \<times> node_id \<Rightarrow> reparent_state \<Rightarrow> reparent_state may_panic" where
  "reparent_box styles root_id b s = (case b of (i, f) \<Rightarrow>
    let d = rp_doc s in
    if i = root_id then Some s
    else if \<not> is_absolutely_positioned (box_position styles d i) then Some s
    else do {
      to_id \<leftarrow> containing_block styles d root_id i;
      if to_id = f \<or> nodes d to_id = None then Some s
      else do {
        clipped \<leftarrow> (if box_position styles d i = Fixed then Some False else has_clipping_intermediate styles d i to_id);
        if clipped then Some s
        else (case detach_box i f d of
            None \<Rightarrow> Some s
          | Some d1 \<Rightarrow> do {
              let d2 = graft_box i to_id d1;
              _ \<leftarrow> node_at d2 i;
              let d3 = update_node i (\<lambda>n. n\<lparr>layout_parent := Some to_id\<rparr>) d2;
              cleared \<leftarrow> clear_layout_cache_subtree d3 i (rp_cleared s);
              Some \<lparr> rp_doc = d3, rp_cleared = clear_one d3 to_id (clear_one d3 f cleared), rp_moved = True \<rparr> }) } })"

fun reparent_boxes ::
    "box_styles \<Rightarrow> node_id \<Rightarrow> (node_id \<times> node_id) list \<Rightarrow> reparent_state \<Rightarrow> reparent_state may_panic" where
  "reparent_boxes styles root_id [] s = Some s"
| "reparent_boxes styles root_id (b # bs) s = do { s1 \<leftarrow> reparent_box styles root_id b s; reparent_boxes styles root_id bs s1 }"

definition reparent_out_of_flow_children :: "box_styles \<Rightarrow> document \<Rightarrow> reparent_state may_panic" where
  "reparent_out_of_flow_children styles d = do {
     found \<leftarrow> try_root_element d;
     (case found of
        None \<Rightarrow> None
      | Some r \<Rightarrow>
          if nodes d (nid r) = None then Some \<lparr> rp_doc = d, rp_cleared = [], rp_moved = False \<rparr>
          else do {
            n \<leftarrow> root_node d;
            boxes \<leftarrow> collect_out_of_flow styles d [(nid n, None)] [];
            reparent_boxes styles (nid r) boxes \<lparr> rp_doc = d, rp_cleared = [], rp_moved = False \<rparr> })
   }"

end
