(* ===== verification/Box_Pseudo.thy ===== *)
theory Box_Pseudo
  imports Box_Reparent Dom_Lifetime
begin

text \<open>
  Pseudo elements (\<open>strake-dom/src/layout/construct.rs\<close>): before the boxes of a node are constructed,
  its \<open>::before\<close> and \<open>::after\<close> boxes are created, dropped or brought up to date with the styles.  The
  styles of pseudo elements, and whether one is the style that a box has already, are parameters; the
  queue of images in styles is left out.
\<close>

section \<open>Damage of construction\<close>

definition CONSTRUCT_BOX :: "16 word" where "CONSTRUCT_BOX = 0b00010000"
definition CONSTRUCT_FC :: "16 word" where "CONSTRUCT_FC = 0b00100000"
definition CONSTRUCT_DESCENDENT :: "16 word" where "CONSTRUCT_DESCENDENT = 0b01000000"

definition remove_damage :: "16 word \<Rightarrow> node_id \<Rightarrow> document \<Rightarrow> document" where
  "remove_damage dmg i = update_node i (map_stylo (\<lambda>s. s\<lparr>damage := damage s AND NOT dmg\<rparr>))"

definition constructed :: "node_id \<Rightarrow> document \<Rightarrow> document" where
  "constructed i = remove_damage (CONSTRUCT_DESCENDENT OR CONSTRUCT_FC OR CONSTRUCT_BOX) i"

definition display_of :: "box_styles \<Rightarrow> node_id \<Rightarrow> display_outside \<times> display_inside" where
  "display_of styles i = (case styles i of None \<Rightarrow> (OInline, Flow) | Some s \<Rightarrow> (bs_outside s, bs_inside s))"

section \<open>One pseudo element\<close>

text \<open>The two pseudo elements of a node; \<open>pe_styles\<close> gives the text of one that has a style.\<close>
datatype pseudo = Before | After

record pseudo_env =
  pe_styles :: "node_id \<Rightarrow> pseudo \<Rightarrow> string option option"
  pe_alloc :: "nat \<Rightarrow> node_id"

definition pseudo_of :: "pseudo \<Rightarrow> node \<Rightarrow> node_id option" where
  "pseudo_of p n = (case p of Before \<Rightarrow> node_before n | After \<Rightarrow> node_after n)"

definition set_pe :: "pseudo \<Rightarrow> node_id option \<Rightarrow> node \<Rightarrow> node" where
  "set_pe p v = map_element (case p of Before \<Rightarrow> (\<lambda>e. e\<lparr>before := v\<rparr>) | After \<Rightarrow> (\<lambda>e. e\<lparr>after := v\<rparr>))"

partial_function (option) drop_pe_list :: "node_id list \<Rightarrow> document \<Rightarrow> document option" where
  "drop_pe_list is d = (case is of
      [] \<Rightarrow> Some d
    | i # rest \<Rightarrow> do {
        (on, d1) \<leftarrow> remove_node_from_tree i d;
        d2 \<leftarrow> (case on of
            None \<Rightarrow> Some d1
          | Some n \<Rightarrow> do { e \<leftarrow> drop_pe_list (children n) d1; deallocate_blocks (anonymous_blocks n) e });
        drop_pe_list rest d2 })"

declare drop_pe_list.simps [code]

definition remove_and_drop_pe :: "node_id \<Rightarrow> document \<Rightarrow> document may_panic" where
  "remove_and_drop_pe p d = do {
     d1 \<leftarrow> drop_pe_list [p] d;
     (case Option.bind (nodes d p) parent of
        None \<Rightarrow> Some d1
      | Some q \<Rightarrow> do { _ \<leftarrow> node_at d1 q; Some (update_node q (\<lambda>n. n\<lparr>children := filter (\<lambda>c. c \<noteq> p) (children n)\<rparr>) d1) }) }"

definition drop_pseudo :: "node_id \<Rightarrow> pseudo \<Rightarrow> node_id \<Rightarrow> document \<Rightarrow> document may_panic" where
  "drop_pseudo i p b d = do {
     d1 \<leftarrow> remove_and_drop_pe b d;
     _ \<leftarrow> node_at d1 i;
     insert_damage ALL_DAMAGE i (update_node i (set_pe p None) d1) }"

definition push_text :: "pseudo_env \<Rightarrow> node_id \<Rightarrow> string \<Rightarrow> document \<Rightarrow> document" where
  "push_text env b t d = (let (c, d1) = create_node (pe_alloc env) (Text t) d
     in update_node b (\<lambda>n. n\<lparr>children := children n @ [c]\<rparr>) (update_node c (\<lambda>n. n\<lparr>parent := Some b\<rparr>) d1))"

definition new_style :: stylo_data where
  "new_style = \<lparr> damage = ALL_DAMAGE, restyle_subtree = False, restyle_style_attribute = False, has_primary_styles = True \<rparr>"

definition DUMMY_NAME :: qual_name where
  "DUMMY_NAME = \<lparr> qn_prefix = None, qn_ns = ''http://www.w3.org/1999/xhtml'', qn_local = ''div'' \<rparr>"

definition create_pseudo :: "pseudo_env \<Rightarrow> node_id \<Rightarrow> pseudo \<Rightarrow> string option \<Rightarrow> document \<Rightarrow> document may_panic" where
  "create_pseudo env i p content d = (let (b, d1) = create_node (pe_alloc env) (AnonymousBlock (element_new DUMMY_NAME [])) d in do {
     n \<leftarrow> node_at d1 i;
     let d2 = update_node b (\<lambda>m. m\<lparr>parent := Some i, layout_parent := Some i,
         flags := (if is_in_document (flags n) then flags m OR IS_IN_DOCUMENT else flags m)\<rparr>) d1;
     let d3 = (case content of None \<Rightarrow> d2 | Some t \<Rightarrow> push_text env b t d2);
     let d4 = update_node b (map_element (\<lambda>e. e\<lparr>el_stylo := Some new_style\<rparr>)) d3;
     insert_damage ALL_DAMAGE i (update_node i (set_pe p (Some b)) d4) })"

text \<open>The text of a pseudo element is its first child, if that is a text.\<close>
definition pseudo_text :: "document \<Rightarrow> node \<Rightarrow> node_id option may_panic" where
  "pseudo_text d n = (case children n of
      [] \<Rightarrow> Some None
    | c # _ \<Rightarrow> do { m \<leftarrow> node_at d c; Some (if is_text_node m then Some c else None) })"

definition sync_text :: "pseudo_env \<Rightarrow> node_id \<Rightarrow> node_id \<Rightarrow> string option \<Rightarrow> document \<Rightarrow> document may_panic" where
  "sync_text env i b content d = do {
     n \<leftarrow> node_at d b;
     old \<leftarrow> pseudo_text d n;
     (case (old, content) of
        (Some c, Some t) \<Rightarrow> do {
          m \<leftarrow> node_at d c;
          (if data m = Text t then Some d else insert_damage ALL_DAMAGE i (update_node c (\<lambda>m. m\<lparr>data := Text t\<rparr>) d)) }
      | (None, Some t) \<Rightarrow> insert_damage ALL_DAMAGE i (push_text env b t d)
      | (Some c, None) \<Rightarrow> do {
          r \<leftarrow> remove_node_from_tree c (update_node b (\<lambda>n. n\<lparr>children := filter (\<lambda>x. x \<noteq> c) (children n)\<rparr>) d);
          insert_damage ALL_DAMAGE i (snd r) }
      | (None, None) \<Rightarrow> Some d) }"

text \<open>A box without style data panics.\<close>
definition update_pseudo :: "pseudo_env \<Rightarrow> node_id \<Rightarrow> node_id \<Rightarrow> string option \<Rightarrow> document \<Rightarrow> document may_panic" where
  "update_pseudo env i b content d = do {
     d1 \<leftarrow> sync_text env i b content d;
     n \<leftarrow> node_at d1 b;
     s \<leftarrow> try_stylo n;
     (if has_primary_styles s then Some (update_node b (map_stylo (\<lambda>s. s\<lparr>damage := damage s OR ALL_DAMAGE\<rparr>)) d1) else None) }"

definition sync_pseudo :: "pseudo_env \<Rightarrow> node_id \<Rightarrow> pseudo \<Rightarrow> string option option \<Rightarrow> node_id option \<Rightarrow> document \<Rightarrow> document may_panic" where
  "sync_pseudo env i p style old d = (case (old, style) of
      (Some b, None) \<Rightarrow> drop_pseudo i p b d
    | (None, Some content) \<Rightarrow> create_pseudo env i p content d
    | (Some b, Some content) \<Rightarrow> update_pseudo env i b content d
    | (None, None) \<Rightarrow> Some d)"

definition flush_pseudo_elements :: "pseudo_env \<Rightarrow> node_id \<Rightarrow> document \<Rightarrow> document may_panic" where
  "flush_pseudo_elements env i d = do {
     n \<leftarrow> node_at d i;
     d1 \<leftarrow> sync_pseudo env i Before (pe_styles env i Before) (node_before n) d;
     sync_pseudo env i After (pe_styles env i After) (node_after n) d1 }"

section \<open>Inline contexts\<close>

text \<open>The child list of a node is taken while its children are visited.\<close>
partial_function (option) flush_pseudos_of ::
    "box_styles \<Rightarrow> pseudo_env \<Rightarrow> node_id \<Rightarrow> node_id list \<Rightarrow> document \<Rightarrow> document option" where
  "flush_pseudos_of styles env i is d = (case is of
      [] \<Rightarrow> Some d
    | c # rest \<Rightarrow> do {
        d1 \<leftarrow> flush_pseudo_elements env c d;
        _ \<leftarrow> node_at d1 i;
        d2 \<leftarrow> (if display_of styles i = (ONone, Contents) \<or> display_of styles i = (OInline, Flow) then do {
              m \<leftarrow> node_at d1 c;
              e \<leftarrow> flush_pseudos_of styles env c (children m) (update_node c (\<lambda>m. m\<lparr>children := []\<rparr>) d1);
              _ \<leftarrow> node_at e c;
              Some (update_node c (\<lambda>m'. m'\<lparr>children := children m\<rparr>) e) }
            else Some d1);
        flush_pseudos_of styles env i rest d2 })"

declare flush_pseudos_of.simps [code]

definition flush_inline_pseudos_recursive :: "box_styles \<Rightarrow> pseudo_env \<Rightarrow> node_id \<Rightarrow> document \<Rightarrow> document may_panic" where
  "flush_inline_pseudos_recursive styles env i d = do {
     n \<leftarrow> node_at d i;
     e \<leftarrow> flush_pseudos_of styles env i (children n) (update_node i (\<lambda>n. n\<lparr>children := []\<rparr>) d);
     _ \<leftarrow> node_at e i;
     Some (update_node i (\<lambda>m. m\<lparr>children := children n\<rparr>) e) }"

section \<open>Pseudo elements that are up to date\<close>

text \<open>What constructing boxes and updating pseudo elements leaves alone: everything but damage and
  the links of the layout tree.\<close>
definition undamaged :: "node \<Rightarrow> node" where
  "undamaged n = map_stylo (\<lambda>s. s\<lparr>damage := 0\<rparr>) (n\<lparr>layout_children := None, layout_parent := None\<rparr>)"

definition same_content :: "document \<Rightarrow> document \<Rightarrow> bool" where
  "same_content d e \<longleftrightarrow> e\<lparr>nodes := nodes d\<rparr> = d \<and> (\<forall>i. map_option undamaged (nodes e i) = map_option undamaged (nodes d i))"

lemma restyled_fields: "x\<lparr>el_stylo := a\<rparr> = y\<lparr>el_stylo := b\<rparr> \<Longrightarrow>
    el_name x = el_name y \<and> el_attrs x = el_attrs y \<and> before x = before y \<and> after x = after y"
  by (cases x; cases y) simp

lemma undamaged_fields:
  assumes "undamaged m = undamaged n"
  shows "nid m = nid n \<and> parent m = parent n \<and> children m = children n \<and> flags m = flags n
    \<and> anonymous_blocks m = anonymous_blocks n \<and> node_before m = node_before n \<and> node_after m = node_after n
    \<and> map_option (\<lambda>e. (el_name e, el_attrs e)) (element_data m) = map_option (\<lambda>e. (el_name e, el_attrs e)) (element_data n)
    \<and> (\<forall>x. data m = Text x \<longleftrightarrow> data n = Text x) \<and> (\<forall>x. data m = Comment x \<longleftrightarrow> data n = Comment x)
    \<and> ((\<exists>x. data m = Document x) \<longleftrightarrow> (\<exists>x. data n = Document x))"
  using assms by (cases n; cases m; cases "data m"; cases "data n")
    (auto simp: undamaged_def map_stylo_def map_element_def node_before_def node_after_def element_data_def dest: restyled_fields)

end
