(* ===== verification/Box_Inline.thy ===== *)
theory Box_Inline
  imports Box_Pseudo List_Markers
begin

text \<open>
  Inline layout (\<open>strake-dom/src/layout/construct.rs\<close>) has two phases: the boxes embedded in an
  inline context are found when its layout children are collected, and the content is handed to the
  text shaper later.  The shaper is \<open>parley\<close>: what it is given is a list of operations.  Computed
  styles, the case mappings and the style of a span are parameters; the height of lines is left out.
\<close>

section \<open>Which inline elements need a box\<close>

definition optional :: "'a option \<Rightarrow> 'a list" where
  "optional x = (case x of None \<Rightarrow> [] | Some y \<Rightarrow> [y])"

text \<open>A stack whose head is popped next.\<close>
partial_function (option) hosts_out_of_flow :: "box_styles \<Rightarrow> document \<Rightarrow> node_id list \<Rightarrow> bool option" where
  "hosts_out_of_flow styles d stack = (case stack of
      [] \<Rightarrow> Some False
    | i # rest \<Rightarrow> do {
        found \<leftarrow> Some (nodes d i);
        (case found of
           None \<Rightarrow> hosts_out_of_flow styles d rest
         | Some n \<Rightarrow>
             if (case styles i of None \<Rightarrow> False | Some s \<Rightarrow> is_absolutely_positioned (bs_position s)) then Some True
             else hosts_out_of_flow styles d (rev (children n @ optional (node_before n) @ optional (node_after n)) @ rest)) })"

declare hosts_out_of_flow.simps [code]

definition inline_element_needs_box :: "box_styles \<Rightarrow> document \<Rightarrow> node_id \<Rightarrow> bool option" where
  "inline_element_needs_box styles d i = (case nodes d i of
      None \<Rightarrow> Some False
    | Some n \<Rightarrow>
        let position = (case styles i of None \<Rightarrow> Static | Some s \<Rightarrow> bs_position s) in
        if is_absolutely_positioned position then Some True
        else if position = Static then Some False
        else hosts_out_of_flow styles d (rev (children n @ optional (node_before n) @ optional (node_after n))))"

definition is_replaced_element :: "string \<Rightarrow> bool" where
  "is_replaced_element tag \<longleftrightarrow> tag \<in> {''img'', ''svg'', ''canvas'', ''video'', ''embed'', ''iframe''}"

definition is_hidden_input :: "element_data \<Rightarrow> bool" where
  "is_hidden_input e \<longleftrightarrow> qn_local (el_name e) = ''input'' \<and> el_attr e ''type'' = Some ''hidden''"

text \<open>The embedded control, if an inline element stands for one.\<close>
definition is_atomic_inline :: "element_data \<Rightarrow> bool" where
  "is_atomic_inline e \<longleftrightarrow> is_replaced_element (qn_local (el_name e)) \<or> qn_local (el_name e) \<in> {''input'', ''textarea'', ''button''}"

section \<open>Finding embedded boxes\<close>

definition children_and_pseudos :: "node \<Rightarrow> node_id list" where
  "children_and_pseudos n = optional (node_before n) @ children n @ optional (node_after n)"

definition set_layout_parent :: "node_id \<Rightarrow> node_id \<Rightarrow> document \<Rightarrow> document" where
  "set_layout_parent p i = update_node i (\<lambda>n. n\<lparr>layout_parent := Some p\<rparr>)"

text \<open>What a node means for an inline context.\<close>
datatype inline_role = InlineHidden | InlineSkip | InlineContents | InlineBreak | InlineSpan | InlineBox | InlineText string

text \<open>\<open>None\<close>: a document node, which is unreachable.\<close>
definition role_of_inline :: "box_styles \<Rightarrow> bool \<Rightarrow> node \<Rightarrow> node_id \<Rightarrow> inline_role option" where
  "role_of_inline styles needs_box n i = (case element_data n of
      Some e \<Rightarrow> Some (
        if is_hidden_input e then InlineHidden
        else (case display_of styles i of
            (ONone, DNone) \<Rightarrow> InlineSkip
          | (ONone, Contents) \<Rightarrow> InlineContents
          | (OInline, Flow) \<Rightarrow>
              if needs_box then InlineBox
              else if is_atomic_inline e then InlineBox
              else if qn_local (el_name e) = ''br'' then InlineBreak
              else InlineSpan
          | _ \<Rightarrow> InlineBox))
    | None \<Rightarrow> (case data n of Document _ \<Rightarrow> None | Text t \<Rightarrow> Some (InlineText t) | _ \<Rightarrow> Some InlineSkip))"

text \<open>The layout parent of a node that is met; construction is done with what has no box.\<close>
definition meet_inline :: "inline_role \<Rightarrow> node_id \<Rightarrow> node_id \<Rightarrow> document \<Rightarrow> document" where
  "meet_inline role p i d =
    (if role = InlineHidden \<or> role = InlineBox then set_layout_parent p i d else constructed i (set_layout_parent p i d))"

partial_function (option) find_boxes ::
    "box_styles \<Rightarrow> node_id \<Rightarrow> node_id list \<Rightarrow> document \<times> node_id list \<Rightarrow> (document \<times> node_id list) option" where
  "find_boxes styles p is s = (case is of
      [] \<Rightarrow> Some s
    | i # rest \<Rightarrow> do {
        needs_box \<leftarrow> inline_element_needs_box styles (fst s) i;
        n \<leftarrow> node_at (fst s) i;
        role \<leftarrow> role_of_inline styles needs_box n i;
        s2 \<leftarrow> (case role of
            InlineContents \<Rightarrow> find_boxes styles p (children n) (meet_inline role p i (fst s), snd s)
          | InlineSpan \<Rightarrow> find_boxes styles i (children_and_pseudos n) (meet_inline role p i (fst s), snd s)
          | InlineBox \<Rightarrow> Some (meet_inline role p i (fst s), snd s @ [i])
          | _ \<Rightarrow> Some (meet_inline role p i (fst s), snd s));
        find_boxes styles p rest s2 })"

declare find_boxes.simps [code]

definition find_inline_layout_embedded_boxes ::
    "box_styles \<Rightarrow> pseudo_env \<Rightarrow> document \<Rightarrow> node_id \<Rightarrow> node_id list \<Rightarrow> (document \<times> node_id list) may_panic" where
  "find_inline_layout_embedded_boxes styles penv d root_id out = do {
     d1 \<leftarrow> flush_inline_pseudos_recursive styles penv root_id d;
     n \<leftarrow> node_at d1 root_id;
     find_boxes styles root_id (children_and_pseudos n) (d1, out)
   }"

section \<open>Handing the content to the shaper\<close>

datatype box_kind = OutOfFlow | CustomOutOfFlow | InFlow
datatype text_transform = TransformNone | Uppercase | Lowercase | OtherTransform

datatype 'w inline_op = SetWhiteSpace 'w | PushText string | PushInlineBox node_id box_kind
  | PushMarkerSpan | PushSpan node_id | PushPlainSpan | PopSpan

text \<open>The text styles of a node that has styles, what the shaper calls the two white space modes of
  the source, and the case mappings.\<close>
record 'w inline_env =
  ie_white_space :: "node_id \<Rightarrow> 'w option"
  ie_transform :: "node_id \<Rightarrow> text_transform"
  ie_collapse :: 'w
  ie_preserve :: 'w
  ie_upper :: "string \<Rightarrow> string"
  ie_lower :: "string \<Rightarrow> string"

definition inline_box_kind :: "box_styles \<Rightarrow> node_id \<Rightarrow> box_kind" where
  "inline_box_kind styles i =
    (let position = (case styles i of None \<Rightarrow> Static | Some s \<Rightarrow> bs_position s);
         floating = (case styles i of None \<Rightarrow> False | Some s \<Rightarrow> bs_floating s)
     in if is_absolutely_positioned position then OutOfFlow else if floating then CustomOutOfFlow else InFlow)"

definition transformed :: "'w inline_env \<Rightarrow> text_transform \<Rightarrow> string \<Rightarrow> string" where
  "transformed env t text = (case t of Uppercase \<Rightarrow> ie_upper env text | Lowercase \<Rightarrow> ie_lower env text | _ \<Rightarrow> text)"

definition transform_of :: "box_styles \<Rightarrow> 'w inline_env \<Rightarrow> node_id \<Rightarrow> text_transform" where
  "transform_of styles env i = (if styles i = None then TransformNone else ie_transform env i)"

definition mode_of :: "'w inline_env \<Rightarrow> node_id \<Rightarrow> 'w \<Rightarrow> 'w" where
  "mode_of env i mode = (case ie_white_space env i of None \<Rightarrow> mode | Some w \<Rightarrow> w)"

partial_function (option) build_inline ::
    "box_styles \<Rightarrow> 'w inline_env \<Rightarrow> node_id \<Rightarrow> 'w \<Rightarrow> text_transform \<Rightarrow> node_id list \<Rightarrow> document \<times> 'w inline_op list
     \<Rightarrow> (document \<times> 'w inline_op list) option" where
  "build_inline styles env p mode parent_transform is s = (case is of
      [] \<Rightarrow> Some s
    | i # rest \<Rightarrow> do {
        n \<leftarrow> node_at (fst s) i;
        needs_box \<leftarrow> inline_element_needs_box styles (fst s) i;
        role \<leftarrow> role_of_inline styles needs_box n i;
        let mode1 = mode_of env i mode;
        let transform = transform_of styles env i;
        let d1 = set_layout_parent p i (fst s);
        let ops = snd s @ [SetWhiteSpace mode1];
        s2 \<leftarrow> (case role of
            InlineHidden \<Rightarrow> Some (d1, ops)
          | InlineSkip \<Rightarrow> Some (d1, ops)
          | InlineContents \<Rightarrow> build_inline styles env p mode1 transform (children n) (d1, ops)
          | InlineBreak \<Rightarrow> Some (d1, ops @ [PushPlainSpan, SetWhiteSpace (ie_preserve env), PushText [CHR 0x0A], PopSpan, SetWhiteSpace mode1])
          | InlineSpan \<Rightarrow> do {
              s1 \<leftarrow> build_inline styles env i mode1 transform (children_and_pseudos n) (d1, ops @ [PushSpan i]);
              Some (fst s1, snd s1 @ [PopSpan]) }
          | InlineBox \<Rightarrow> Some (d1, ops @ [PushInlineBox i (inline_box_kind styles i)])
          | InlineText t \<Rightarrow> Some (d1, ops @ [PushText (transformed env parent_transform t)]));
        build_inline styles env p mode parent_transform rest s2 })"

declare build_inline.simps [code]

definition marker_ops :: "list_item option \<Rightarrow> 'w inline_op list" where
  "marker_ops item = (case item of
      None \<Rightarrow> []
    | Some l \<Rightarrow> if li_inside l then
        (case li_marker l of
           MarkerChar c \<Rightarrow> [PushMarkerSpan, PushText (c @ '' ''), PopSpan]
         | MarkerString t \<Rightarrow> [PushText t])
      else [])"

text \<open>A root without styles takes those of its parent.\<close>
definition styled_root :: "box_styles \<Rightarrow> document \<Rightarrow> node \<Rightarrow> node_id \<Rightarrow> node_id option may_panic" where
  "styled_root styles d n root_id =
    (if styles root_id \<noteq> None then Some (Some root_id)
     else (case parent n of
        None \<Rightarrow> Some None
      | Some q \<Rightarrow> do { _ \<leftarrow> node_at d q; Some (if styles q \<noteq> None then Some q else None) }))"

definition build_inline_layout_into ::
    "box_styles \<Rightarrow> 'w inline_env \<Rightarrow> (node_id \<Rightarrow> list_item option) \<Rightarrow> document \<Rightarrow> node_id \<Rightarrow> (document \<times> 'w inline_op list) may_panic" where
  "build_inline_layout_into styles env items d root_id = do {
     n \<leftarrow> node_at d root_id;
     styled \<leftarrow> styled_root styles d n root_id;
     let mode = (case styled of None \<Rightarrow> ie_collapse env | Some q \<Rightarrow> mode_of env q (ie_collapse env));
     let transform = (case styled of None \<Rightarrow> TransformNone | Some q \<Rightarrow> ie_transform env q);
     build_inline styles env root_id mode transform (children_and_pseudos n)
       (d, SetWhiteSpace mode # marker_ops (if element_data n = None then None else items root_id))
   }"

end
