(* ===== verification/Box_Inline_Order.thy ===== *)
theory Box_Inline_Order
  imports Box_Inline
begin

text \<open>
  The two phases of inline layout agree: the shaper is given exactly the boxes that were found, in
  the same order, within balanced spans, and both phases link the nodes in the same way.
\<close>

section \<open>Walks below an inline context\<close>

definition content_edges :: "document \<Rightarrow> (node_id \<times> node_id) set" where
  "content_edges d = {(c, i). \<exists>n. nodes d i = Some n \<and> c \<in> set (children_and_pseudos n)}"

text \<open>Contents and pseudo elements nest, and live; no document node is among them.\<close>
definition content_ok :: "document \<Rightarrow> bool" where
  "content_ok d \<longleftrightarrow> wf (content_edges d)
     \<and> (\<forall>c i. (c, i) \<in> content_edges d \<longrightarrow> (\<exists>m. nodes d c = Some m \<and> (\<forall>x. data m \<noteq> Document x)))"

lemma same_content_node: "same_content d e \<Longrightarrow> nodes d i = Some n \<Longrightarrow> \<exists>m. nodes e i = Some m \<and> undamaged m = undamaged n"
  by (auto simp: same_content_def dest!: spec [of _ i] split: option.splits)

lemma same_content_none: "same_content d e \<Longrightarrow> nodes e i = None \<longleftrightarrow> nodes d i = None"
  by (auto simp: same_content_def dest!: spec [of _ i] split: option.splits)

lemma same_content_update: "same_content d e \<Longrightarrow> (\<And>n. undamaged (f n) = undamaged n) \<Longrightarrow> same_content d (update_node i f e)"
proof -
  assume sd: "same_content d e" and f: "\<And>n. undamaged (f n) = undamaged n"
  have "map_option undamaged (nodes (update_node i f e) x) = map_option undamaged (nodes e x)" for x
    by (cases "nodes e i") (simp_all add: f)
  moreover have "(update_node i f e)\<lparr>nodes := nodes d\<rparr> = e\<lparr>nodes := nodes d\<rparr>" by (simp add: update_node_def split: option.split)
  ultimately show ?thesis using sd unfolding same_content_def by metis
qed

lemma role_without_element: "element_data n = None \<Longrightarrow> role_of_inline styles b n i
    = (case data n of Document _ \<Rightarrow> None | Text t \<Rightarrow> Some (InlineText t) | _ \<Rightarrow> Some InlineSkip)"
  by (simp add: role_of_inline_def)

lemma undamaged_role:
  assumes "undamaged m = undamaged n" shows "role_of_inline styles b m i = role_of_inline styles b n i"
proof (cases "element_data n")
  case None
  have mn: "element_data m = None" using undamaged_fields [OF assms] None by simp
  show ?thesis
  proof (cases "data n")
    case (Document x)
    then obtain y where "data m = Document y" using undamaged_fields [OF assms] by blast
    then show ?thesis using Document by (simp add: role_without_element None mn)
  next
    case (Text x)
    then have "data m = Text x" using undamaged_fields [OF assms] by blast
    then show ?thesis using Text by (simp add: role_without_element None mn)
  next
    case (Comment x)
    then have "data m = Comment x" using undamaged_fields [OF assms] by blast
    then show ?thesis using Comment by (simp add: role_without_element None mn)
  qed (use None in \<open>simp_all add: element_data_def\<close>)
next
  case (Some e)
  have "map_option (\<lambda>e. (el_name e, el_attrs e)) (element_data m) = map_option (\<lambda>e. (el_name e, el_attrs e)) (element_data n)"
    using undamaged_fields [OF assms] by blast
  then obtain e' where e': "element_data m = Some e'" "el_name e' = el_name e" "el_attrs e' = el_attrs e"
    using Some by (auto simp: map_option_eq_Some)
  show ?thesis unfolding role_of_inline_def e'(1) Some option.case is_hidden_input_def is_atomic_inline_def el_attr_def e'(2,3)
    by (rule refl)
qed

definition below_parts :: "node \<Rightarrow> node_id list" where
  "below_parts n = rev (children n @ optional (node_before n) @ optional (node_after n))"

lemma same_content_parts:
  assumes "same_content d e" "nodes d i = Some n"
  obtains m where "nodes e i = Some m" "children m = children n" "children_and_pseudos m = children_and_pseudos n"
    "element_data m = None \<longleftrightarrow> element_data n = None" "parent m = parent n"
    "\<And>styles b. role_of_inline styles b m i = role_of_inline styles b n i" "below_parts m = below_parts n"
proof -
  obtain m where m: "nodes e i = Some m" "undamaged m = undamaged n" using same_content_node [OF assms] by blast
  have f: "children m = children n" "node_before m = node_before n" "node_after m = node_after n" "parent m = parent n"
    "map_option (\<lambda>e. (el_name e, el_attrs e)) (element_data m) = map_option (\<lambda>e. (el_name e, el_attrs e)) (element_data n)"
    using undamaged_fields [OF m(2)] by blast+
  show ?thesis
  proof (rule that [OF m(1) f(1) _ _ f(4) undamaged_role [OF m(2)]])
    show "element_data m = None \<longleftrightarrow> element_data n = None" using f(5) by (cases "element_data m"; cases "element_data n") simp_all
  qed (simp_all add: children_and_pseudos_def below_parts_def f(1-3))
qed

lemma same_content_below:
  assumes "same_content d e" "nodes d i = Some n"
  shows "\<exists>m. nodes e i = Some m \<and> below_parts m = below_parts n"
  by (rule same_content_parts [OF assms]) blast

lemma hosts_Nil [simp]: "hosts_out_of_flow styles d [] = Some False"
  by (subst hosts_out_of_flow.simps) simp

lemma hosts_Cons: "hosts_out_of_flow styles d (i # rest) = (case nodes d i of
    None \<Rightarrow> hosts_out_of_flow styles d rest
  | Some n \<Rightarrow>
      if (case styles i of None \<Rightarrow> False | Some s \<Rightarrow> is_absolutely_positioned (bs_position s)) then Some True
      else hosts_out_of_flow styles d (rev (children n @ optional (node_before n) @ optional (node_after n)) @ rest))"
  by (subst hosts_out_of_flow.simps) simp

lemma below_parts_set: "set (below_parts n) = set (children_and_pseudos n)"
  by (auto simp: below_parts_def children_and_pseudos_def)

lemma hosts_decides:
  assumes wf: "wf (content_edges d)"
  shows "\<exists>b. \<forall>e rest. same_content d e \<longrightarrow> hosts_out_of_flow styles e (i # rest) = (if b then Some True else hosts_out_of_flow styles e rest)"
proof (induction i rule: wf_induct_rule [OF wf])
  case (1 i)
  let ?abs = "case styles i of None \<Rightarrow> False | Some s \<Rightarrow> is_absolutely_positioned (bs_position s)"
  show ?case
  proof (cases "nodes d i")
    case None
    then have "same_content d e \<Longrightarrow> nodes e i = None" for e using same_content_none by blast
    then show ?thesis by (intro exI [of _ False]) (simp add: hosts_Cons)
  next
    case (Some n)
    have all: "\<exists>b. \<forall>e rest. same_content d e \<longrightarrow> hosts_out_of_flow styles e (cs @ rest) = (if b then Some True else hosts_out_of_flow styles e rest)"
      if "set cs \<subseteq> set (children_and_pseudos n)" for cs
      using that
    proof (induction cs)
      case Nil then show ?case by (intro exI [of _ False]) simp
    next
      case (Cons c cs)
      have "(c, i) \<in> content_edges d" using Cons.prems Some by (auto simp: content_edges_def)
      from 1 [OF this] obtain b1 where b1: "\<forall>e rest. same_content d e \<longrightarrow> hosts_out_of_flow styles e (c # rest) = (if b1 then Some True else hosts_out_of_flow styles e rest)" by blast
      obtain b2 where "\<forall>e rest. same_content d e \<longrightarrow> hosts_out_of_flow styles e (cs @ rest) = (if b2 then Some True else hosts_out_of_flow styles e rest)"
        using Cons by auto
      then show ?case using b1 by (intro exI [of _ "b1 \<or> b2"]) simp
    qed
    obtain b where b: "\<forall>e rest. same_content d e \<longrightarrow> hosts_out_of_flow styles e (below_parts n @ rest) = (if b then Some True else hosts_out_of_flow styles e rest)"
      using all [of "below_parts n"] below_parts_set [of n] by blast
    have "hosts_out_of_flow styles e (i # rest) = (if ?abs \<or> b then Some True else hosts_out_of_flow styles e rest)"
      if sd: "same_content d e" for e rest
    proof -
      obtain m where m: "nodes e i = Some m" "below_parts m = below_parts n" using same_content_below [OF sd Some] by blast
      have "hosts_out_of_flow styles e (i # rest) = (if ?abs then Some True else hosts_out_of_flow styles e (below_parts n @ rest))"
        unfolding hosts_Cons m(2) [symmetric] using m(1) by (simp add: below_parts_def)
      then show ?thesis using b sd by simp
    qed
    then show ?thesis by blast
  qed
qed

lemma needs_box_decided:
  assumes wf: "wf (content_edges d)"
  shows "\<exists>b. \<forall>e. same_content d e \<longrightarrow> inline_element_needs_box styles e i = Some b"
proof (cases "nodes d i")
  case None
  then have "same_content d e \<Longrightarrow> nodes e i = None" for e using same_content_none by blast
  then show ?thesis by (intro exI [of _ False]) (simp add: inline_element_needs_box_def)
next
  case (Some n)
  have "\<exists>b. \<forall>e. same_content d e \<longrightarrow> hosts_out_of_flow styles e cs = Some b" for cs
  proof (induction cs)
    case (Cons c cs)
    obtain b1 where "\<forall>e rest. same_content d e \<longrightarrow> hosts_out_of_flow styles e (c # rest) = (if b1 then Some True else hosts_out_of_flow styles e rest)"
      using hosts_decides [OF wf] by blast
    moreover obtain b2 where "\<forall>e. same_content d e \<longrightarrow> hosts_out_of_flow styles e cs = Some b2" using Cons by blast
    ultimately show ?case by (intro exI [of _ "b1 \<or> b2"]) simp
  qed auto
  then obtain b where b: "\<forall>e. same_content d e \<longrightarrow> hosts_out_of_flow styles e (below_parts n) = Some b" by blast
  let ?p = "case styles i of None \<Rightarrow> Static | Some s \<Rightarrow> bs_position s"
  have "inline_element_needs_box styles e i = Some (is_absolutely_positioned ?p \<or> ?p \<noteq> Static \<and> b)" if sd: "same_content d e" for e
  proof -
    obtain m where m: "nodes e i = Some m" "below_parts m = below_parts n" using same_content_below [OF sd Some] by blast
    have "hosts_out_of_flow styles e (rev (children m @ optional (node_before m) @ optional (node_after m))) = Some b"
      using b sd m(2) unfolding below_parts_def by simp
    then show ?thesis unfolding inline_element_needs_box_def Let_def m(1) option.case by simp
  qed
  then show ?thesis by blast
qed

section \<open>The two walks\<close>

text \<open>Nodes with the layout parents they get, and whether their construction is done.\<close>
type_synonym links = "(node_id \<times> node_id \<times> bool) list"

definition link_all :: "links \<Rightarrow> document \<Rightarrow> document" where
  "link_all ws = fold (\<lambda>(i, p, c). set_layout_parent p i) ws"

definition found_all :: "links \<Rightarrow> document \<Rightarrow> document" where
  "found_all ws = fold (\<lambda>(i, p, c) e. (if c then constructed i (set_layout_parent p i e) else set_layout_parent p i e)) ws"

lemma set_layout_parent_same: "same_content d e \<Longrightarrow> same_content d (set_layout_parent p i e)"
  unfolding set_layout_parent_def by (rule same_content_update) (simp_all add: undamaged_def)

lemma undamaged_stylo: "undamaged (map_stylo (\<lambda>s. s\<lparr>damage := f s\<rparr>) n) = undamaged n"
  by (cases n; cases "data n") (simp_all add: undamaged_def map_stylo_def map_element_def option.map_comp comp_def)

lemma constructed_same: "same_content d e \<Longrightarrow> same_content d (constructed i e)"
  unfolding constructed_def remove_damage_def by (rule same_content_update) (simp_all add: undamaged_stylo)

lemma link_all_same: "same_content d e \<Longrightarrow> same_content d (link_all ws e)"
  unfolding link_all_def by (induction ws arbitrary: e) (auto simp: set_layout_parent_same)

lemma found_all_same: "same_content d e \<Longrightarrow> same_content d (found_all ws e)"
  unfolding found_all_def by (induction ws arbitrary: e) (auto simp: set_layout_parent_same constructed_same)

lemma link_all_simps [simp]:
  "link_all [] e = e" "link_all ((i, p, c) # ws) e = link_all ws (set_layout_parent p i e)" "link_all (vs @ ws) e = link_all ws (link_all vs e)"
  by (simp_all add: link_all_def)

lemma found_all_simps [simp]:
  "found_all [] e = e" "found_all (vs @ ws) e = found_all ws (found_all vs e)"
  "found_all ((i, p, c) # ws) e = found_all ws (if c then constructed i (set_layout_parent p i e) else set_layout_parent p i e)"
  by (simp_all add: found_all_def)

definition last_link :: "links \<Rightarrow> node_id \<rightharpoonup> node_id" where
  "last_link ws = map_of (rev (map (\<lambda>(i, p, c). (i, p)) ws))"

text \<open>The last link of a node counts.\<close>
lemma link_all_nodes:
  "nodes (link_all ws e) i = (case last_link ws i of None \<Rightarrow> nodes e i | Some p \<Rightarrow> map_option (\<lambda>n. n\<lparr>layout_parent := Some p\<rparr>) (nodes e i))"
proof (induction ws arbitrary: e)
  case (Cons w ws)
  obtain j p c where w: "w = (j, p, c)" by (cases w)
  show ?case
    by (cases "nodes e i") (auto simp: w Cons last_link_def set_layout_parent_def map_add_def split: option.splits)
qed (simp add: last_link_def)

lemma found_all_last: "last_link ws i = Some p \<Longrightarrow> nodes (found_all ws e) i = Some n \<Longrightarrow> layout_parent n = Some p"
proof (induction ws arbitrary: n rule: rev_induct)
  case (snoc w ws)
  obtain j q c where w: "w = (j, q, c)" by (cases w)
  have s: "layout_parent (map_stylo f m) = layout_parent m" for f m
    by (cases "data m") (simp_all add: map_stylo_def map_element_def)
  show ?case
  proof (cases "i = j")
    case True
    then show ?thesis using snoc.prems
      by (auto simp: w last_link_def set_layout_parent_def constructed_def remove_damage_def s split: if_splits)
  next
    case False
    then have "nodes (found_all (ws @ [w]) e) i = nodes (found_all ws e) i"
      by (simp add: w set_layout_parent_def constructed_def remove_damage_def)
    then show ?thesis using snoc False by (simp add: w last_link_def)
  qed
qed (simp add: last_link_def)

lemma link_all_fields: "(link_all ws e)\<lparr>nodes := f\<rparr> = e\<lparr>nodes := f\<rparr>"
proof (induction ws arbitrary: e)
  case (Cons w ws)
  obtain j p c where w: "w = (j, p, c)" by (cases w)
  have "(set_layout_parent p j e)\<lparr>nodes := f\<rparr> = e\<lparr>nodes := f\<rparr>" by (simp add: set_layout_parent_def update_node_def split: option.split)
  then show ?case using Cons by (simp add: w)
qed simp

lemma link_all_again: "link_all ws (found_all ws e) = found_all ws e"
proof -
  have "nodes (link_all ws (found_all ws e)) i = nodes (found_all ws e) i" for i
    unfolding link_all_nodes
    by (cases "nodes (found_all ws e) i") (auto dest: found_all_last split: option.split)
  then have "(link_all ws (found_all ws e))\<lparr>nodes := nodes (link_all ws (found_all ws e))\<rparr> = (found_all ws e)\<lparr>nodes := nodes (found_all ws e)\<rparr>"
    unfolding link_all_fields by (intro arg_cong [where f = "\<lambda>f. (found_all ws e)\<lparr>nodes := f\<rparr>"]) (rule ext)
  then show ?thesis by simp
qed

definition boxes_of :: "'w inline_op list \<Rightarrow> node_id list" where
  "boxes_of ops = concat (map (\<lambda>op. case op of PushInlineBox i _ \<Rightarrow> [i] | _ \<Rightarrow> []) ops)"

lemma boxes_of_simps [simp]:
  "boxes_of [] = []" "boxes_of (op # ops) = (case op of PushInlineBox i _ \<Rightarrow> [i] | _ \<Rightarrow> []) @ boxes_of ops"
  "boxes_of (ops @ ops') = boxes_of ops @ boxes_of ops'"
  by (simp_all add: boxes_of_def)

text \<open>Whether spans are closed in turn, and the number still open.\<close>
fun span_depth :: "nat \<Rightarrow> 'w inline_op list \<Rightarrow> nat option" where
  "span_depth k [] = Some k"
| "span_depth k (op # ops) = (case op of
      PushMarkerSpan \<Rightarrow> span_depth (k + 1) ops
    | PushSpan _ \<Rightarrow> span_depth (k + 1) ops
    | PushPlainSpan \<Rightarrow> span_depth (k + 1) ops
    | PopSpan \<Rightarrow> if k = 0 then None else span_depth (k - 1) ops
    | _ \<Rightarrow> span_depth k ops)"

lemma span_depth_append: "span_depth k (ops @ ops') = Option.bind (span_depth k ops) (\<lambda>m. span_depth m ops')"
  by (induction ops arbitrary: k) (auto split: inline_op.split)

definition balanced :: "'w inline_op list \<Rightarrow> bool" where
  "balanced ops \<longleftrightarrow> (\<forall>k. span_depth k ops = Some k)"

lemma balanced_simps [simp]: "balanced []" "balanced ops \<Longrightarrow> balanced ops' \<Longrightarrow> balanced (ops @ ops')"
  by (simp_all add: balanced_def span_depth_append)

lemma find_Nil [simp]: "find_boxes styles p [] s = Some s"
  by (subst find_boxes.simps) simp

lemma build_Nil [simp]: "build_inline styles env p mode t [] s = Some s"
  by (subst build_inline.simps) simp

lemma find_Cons: "find_boxes styles p (i # rest) (e, out) = do {
    needs_box \<leftarrow> inline_element_needs_box styles e i;
    n \<leftarrow> node_at e i;
    role \<leftarrow> role_of_inline styles needs_box n i;
    s2 \<leftarrow> (case role of
        InlineContents \<Rightarrow> find_boxes styles p (children n) (meet_inline role p i e, out)
      | InlineSpan \<Rightarrow> find_boxes styles i (children_and_pseudos n) (meet_inline role p i e, out)
      | InlineBox \<Rightarrow> Some (meet_inline role p i e, out @ [i])
      | _ \<Rightarrow> Some (meet_inline role p i e, out));
    find_boxes styles p rest s2 }"
  unfolding find_boxes.simps [of styles p "i # rest"] list.case fst_conv snd_conv by (rule refl)

lemma build_Cons: "build_inline styles env p mode t (i # rest) (e, ops) = do {
    n \<leftarrow> node_at e i;
    needs_box \<leftarrow> inline_element_needs_box styles e i;
    role \<leftarrow> role_of_inline styles needs_box n i;
    s2 \<leftarrow> (case role of
        InlineHidden \<Rightarrow> Some (set_layout_parent p i e, ops @ [SetWhiteSpace (mode_of env i mode)])
      | InlineSkip \<Rightarrow> Some (set_layout_parent p i e, ops @ [SetWhiteSpace (mode_of env i mode)])
      | InlineContents \<Rightarrow> build_inline styles env p (mode_of env i mode) (transform_of styles env i) (children n)
          (set_layout_parent p i e, ops @ [SetWhiteSpace (mode_of env i mode)])
      | InlineBreak \<Rightarrow> Some (set_layout_parent p i e, ops @ [SetWhiteSpace (mode_of env i mode), PushPlainSpan,
          SetWhiteSpace (ie_preserve env), PushText [CHR 0x0A], PopSpan, SetWhiteSpace (mode_of env i mode)])
      | InlineSpan \<Rightarrow> do {
          s1 \<leftarrow> build_inline styles env i (mode_of env i mode) (transform_of styles env i) (children_and_pseudos n)
            (set_layout_parent p i e, ops @ [SetWhiteSpace (mode_of env i mode), PushSpan i]);
          Some (fst s1, snd s1 @ [PopSpan]) }
      | InlineBox \<Rightarrow> Some (set_layout_parent p i e, ops @ [SetWhiteSpace (mode_of env i mode), PushInlineBox i (inline_box_kind styles i)])
      | InlineText x \<Rightarrow> Some (set_layout_parent p i e, ops @ [SetWhiteSpace (mode_of env i mode), PushText (transformed env t x)]));
    build_inline styles env p mode t rest s2 }"
  unfolding build_inline.simps [of styles env p mode t "i # rest"] list.case fst_conv snd_conv Let_def append_assoc append.simps
  by (rule refl)

text \<open>What both walks do with a list of nodes below \<open>p\<close>: the links and the boxes.\<close>
definition agree ::
    "box_styles \<Rightarrow> 'w inline_env \<Rightarrow> document \<Rightarrow> node_id \<Rightarrow> node_id list \<Rightarrow> links \<Rightarrow> node_id list \<Rightarrow> bool" where
  "agree styles env d p is ws bs \<longleftrightarrow>
     (\<forall>e out rest. same_content d e \<longrightarrow> find_boxes styles p (is @ rest) (e, out) = find_boxes styles p rest (found_all ws e, out @ bs))
   \<and> (\<forall>mode t. \<exists>new. boxes_of new = bs \<and> balanced new \<and> (\<forall>e ops rest. same_content d e \<longrightarrow>
        build_inline styles env p mode t (is @ rest) (e, ops) = build_inline styles env p mode t rest (link_all ws e, ops @ new)))"

lemma agree_Nil: "agree styles env d p [] [] []"
  unfolding agree_def by (auto intro!: exI [of _ "[]"])

lemma agree_append:
  assumes "agree styles env d p is ws bs" "agree styles env d p js vs cs"
  shows "agree styles env d p (is @ js) (ws @ vs) (bs @ cs)"
  unfolding agree_def
proof (intro conjI allI impI)
  fix e out rest assume sd: "same_content d e"
  then show "find_boxes styles p ((is @ js) @ rest) (e, out) = find_boxes styles p rest (found_all (ws @ vs) e, out @ bs @ cs)"
    using assms found_all_same [OF sd, of ws] by (simp add: agree_def)
next
  fix mode t
  obtain n1 where n1: "boxes_of n1 = bs" "balanced n1" "\<forall>e ops rest. same_content d e \<longrightarrow>
      build_inline styles env p mode t (is @ rest) (e, ops) = build_inline styles env p mode t rest (link_all ws e, ops @ n1)"
    using assms(1) unfolding agree_def by blast
  obtain n2 where n2: "boxes_of n2 = cs" "balanced n2" "\<forall>e ops rest. same_content d e \<longrightarrow>
      build_inline styles env p mode t (js @ rest) (e, ops) = build_inline styles env p mode t rest (link_all vs e, ops @ n2)"
    using assms(2) unfolding agree_def by blast
  show "\<exists>new. boxes_of new = bs @ cs \<and> balanced new \<and> (\<forall>e ops rest. same_content d e \<longrightarrow>
      build_inline styles env p mode t ((is @ js) @ rest) (e, ops) = build_inline styles env p mode t rest (link_all (ws @ vs) e, ops @ new))"
    using n1 n2 link_all_same by (intro exI [of _ "n1 @ n2"]) simp
qed

text \<open>A node that is no contents and no span.\<close>
lemma agree_leaf:
  assumes n: "nodes d i = Some n" and needs: "\<forall>e. same_content d e \<longrightarrow> inline_element_needs_box styles e i = Some b"
    and role: "role_of_inline styles b n i = Some role" "role \<noteq> InlineContents" "role \<noteq> InlineSpan"
  shows "agree styles env d p [i] [(i, p, role \<noteq> InlineHidden \<and> role \<noteq> InlineBox)] (if role = InlineBox then [i] else [])"
proof -
  have r: "\<exists>m. nodes e i = Some m \<and> role_of_inline styles b m i = Some role" if sd: "same_content d e" for e
  proof -
    obtain m where "nodes e i = Some m" "role_of_inline styles b m i = role_of_inline styles b n i"
      by (rule same_content_parts [OF sd n]) blast
    then show ?thesis using role(1) by simp
  qed
  have f: "find_boxes styles p ([i] @ rest) (e, out) = find_boxes styles p rest (found_all [(i, p, role \<noteq> InlineHidden \<and> role \<noteq> InlineBox)] e, out @ (if role = InlineBox then [i] else []))"
    if sd: "same_content d e" for e out rest
  proof -
    obtain m where "nodes e i = Some m" "role_of_inline styles b m i = Some role" using r [OF sd] by blast
    then show ?thesis using needs sd role(2,3) by (cases role) (simp_all add: find_Cons node_at_def meet_inline_def)
  qed
  have "\<exists>new. boxes_of new = (if role = InlineBox then [i] else []) \<and> balanced new \<and> (\<forall>e ops rest. same_content d e \<longrightarrow>
      build_inline styles env p mode t ([i] @ rest) (e, ops) = build_inline styles env p mode t rest (link_all [(i, p, role \<noteq> InlineHidden \<and> role \<noteq> InlineBox)] e, ops @ new))" for mode t
  proof -
    let ?new = "SetWhiteSpace (mode_of env i mode) # (case role of
        InlineBreak \<Rightarrow> [PushPlainSpan, SetWhiteSpace (ie_preserve env), PushText [CHR 0x0A], PopSpan, SetWhiteSpace (mode_of env i mode)]
      | InlineBox \<Rightarrow> [PushInlineBox i (inline_box_kind styles i)]
      | InlineText x \<Rightarrow> [PushText (transformed env t x)]
      | _ \<Rightarrow> [])"
    have "boxes_of ?new = (if role = InlineBox then [i] else [])" "balanced ?new" using role(2,3) by (cases role; simp add: balanced_def)+
    moreover have "build_inline styles env p mode t ([i] @ rest) (e, ops) = build_inline styles env p mode t rest (link_all [(i, p, role \<noteq> InlineHidden \<and> role \<noteq> InlineBox)] e, ops @ ?new)"
      if sd: "same_content d e" for e ops rest
    proof -
      obtain m where "nodes e i = Some m" "role_of_inline styles b m i = Some role" using r [OF sd] by blast
      then show ?thesis using needs sd role(2,3) by (cases role) (simp_all add: build_Cons node_at_def)
    qed
    ultimately show ?thesis by blast
  qed
  then show ?thesis using f unfolding agree_def by blast
qed

text \<open>A node whose contents are walked, below \<open>q\<close>.\<close>
lemma agree_nested:
  assumes n: "nodes d i = Some n" and needs: "\<forall>e. same_content d e \<longrightarrow> inline_element_needs_box styles e i = Some b"
    and role: "role_of_inline styles b n i = Some InlineContents \<and> q = p \<and> cs = children n \<or> role_of_inline styles b n i = Some InlineSpan \<and> q = i \<and> cs = children_and_pseudos n"
    and cs: "agree styles env d q cs ws bs"
  shows "agree styles env d p [i] ((i, p, True) # ws) bs"
proof -
  have r: "\<exists>m. nodes e i = Some m \<and> role_of_inline styles b m i = role_of_inline styles b n i \<and> children m = children n \<and> children_and_pseudos m = children_and_pseudos n"
    if sd: "same_content d e" for e
  proof -
    show ?thesis by (rule same_content_parts [OF sd n]) blast
  qed
  have f: "find_boxes styles p ([i] @ rest) (e, out) = find_boxes styles p rest (found_all ((i, p, True) # ws) e, out @ bs)"
    if sd: "same_content d e" for e out rest
  proof -
    obtain m where m: "nodes e i = Some m" "role_of_inline styles b m i = role_of_inline styles b n i" "children m = children n"
      "children_and_pseudos m = children_and_pseudos n" using r [OF sd] by blast
    have "find_boxes styles q (cs @ []) (constructed i (set_layout_parent p i e), out)
        = find_boxes styles q [] (found_all ws (constructed i (set_layout_parent p i e)), out @ bs)"
      using cs constructed_same [OF set_layout_parent_same [OF sd]] unfolding agree_def by blast
    then show ?thesis using needs sd role m by (auto simp: find_Cons node_at_def meet_inline_def)
  qed
  have "\<exists>new. boxes_of new = bs \<and> balanced new \<and> (\<forall>e ops rest. same_content d e \<longrightarrow>
      build_inline styles env p mode t ([i] @ rest) (e, ops) = build_inline styles env p mode t rest (link_all ((i, p, True) # ws) e, ops @ new))" for mode t
  proof -
    obtain new where new: "boxes_of new = bs" "balanced new" "\<forall>e ops rest. same_content d e \<longrightarrow>
      build_inline styles env q (mode_of env i mode) (transform_of styles env i) (cs @ rest) (e, ops)
        = build_inline styles env q (mode_of env i mode) (transform_of styles env i) rest (link_all ws e, ops @ new)"
      using cs unfolding agree_def by blast
    let ?span = "role_of_inline styles b n i = Some InlineSpan"
    let ?new = "SetWhiteSpace (mode_of env i mode) # (if ?span then PushSpan i # new @ [PopSpan] else new)"
    have d: "span_depth k (new @ ops) = span_depth k ops" for k ops using new(2) by (simp add: balanced_def span_depth_append)
    have "boxes_of ?new = bs" "balanced ?new" using new(1,2) by (simp_all add: balanced_def d)
    moreover have "build_inline styles env p mode t ([i] @ rest) (e, ops) = build_inline styles env p mode t rest (link_all ((i, p, True) # ws) e, ops @ ?new)"
      if sd: "same_content d e" for e ops rest
    proof -
      obtain m where m: "nodes e i = Some m" "role_of_inline styles b m i = role_of_inline styles b n i" "children m = children n"
        "children_and_pseudos m = children_and_pseudos n" using r [OF sd] by blast
      have "build_inline styles env q (mode_of env i mode) (transform_of styles env i) (cs @ []) (set_layout_parent p i e, ops1)
          = build_inline styles env q (mode_of env i mode) (transform_of styles env i) [] (link_all ws (set_layout_parent p i e), ops1 @ new)" for ops1
        using new(3) set_layout_parent_same [OF sd] by blast
      then show ?thesis using needs sd role m by (auto simp: build_Cons node_at_def)
    qed
    ultimately show ?thesis by blast
  qed
  then show ?thesis using f unfolding agree_def by blast
qed

lemma walks_agree:
  assumes ok: "content_ok d"
  shows "\<forall>m. nodes d i = Some m \<longrightarrow> (\<forall>x. data m \<noteq> Document x) \<longrightarrow> (\<forall>p. \<exists>ws bs. agree styles env d p [i] ws bs)"
proof -
  have wf: "wf (content_edges d)" using ok by (simp add: content_ok_def)
  show ?thesis
  proof (induction i rule: wf_induct_rule [OF wf])
    case (1 i)
    show ?case
    proof (intro allI impI)
      fix n p assume n: "nodes d i = Some n" and nd: "\<forall>x. data n \<noteq> Document x"
      have all: "\<exists>ws bs. agree styles env d q cs ws bs" if "set cs \<subseteq> set (children_and_pseudos n)" for q cs
        using that
      proof (induction cs)
        case Nil then show ?case using agree_Nil by blast
      next
        case (Cons c cs)
        have ce: "(c, i) \<in> content_edges d" using Cons.prems n by (auto simp: content_edges_def)
        obtain m where m: "nodes d c = Some m" "\<forall>x. data m \<noteq> Document x" using ok ce unfolding content_ok_def by blast
        obtain ws bs where "agree styles env d q [c] ws bs" using 1 [OF ce] m by blast
        moreover obtain vs ds where "agree styles env d q cs vs ds" using Cons by auto
        ultimately have "agree styles env d q ([c] @ cs) (ws @ vs) (bs @ ds)" by (rule agree_append)
        then show ?case by auto
      qed
      obtain b where b: "\<forall>e. same_content d e \<longrightarrow> inline_element_needs_box styles e i = Some b" using needs_box_decided [OF wf] by blast
      have "role_of_inline styles b n i \<noteq> None" using nd by (auto simp: role_of_inline_def split: option.split node_data.split)
      then obtain role where role: "role_of_inline styles b n i = Some role" by blast
      have sub: "set (children n) \<subseteq> set (children_and_pseudos n)" by (auto simp: children_and_pseudos_def)
      show "\<exists>ws bs. agree styles env d p [i] ws bs"
      proof (cases "role = InlineContents")
        case True
        obtain ws bs where "agree styles env d p (children n) ws bs" using all [OF sub] by blast
        then show ?thesis using agree_nested [OF n b, of p p "children n"] role True by blast
      next
        case nc: False
        show ?thesis
        proof (cases "role = InlineSpan")
          case True
          obtain ws bs where "agree styles env d i (children_and_pseudos n) ws bs" using all [OF subset_refl] by blast
          then show ?thesis using agree_nested [OF n b, of i p "children_and_pseudos n"] role True by blast
        next
          case False then show ?thesis using agree_leaf [OF n b role nc] by blast
        qed
      qed
    qed
  qed
qed

section \<open>The phases\<close>

lemma marker_ops_plain: "boxes_of (marker_ops item) = []" "span_depth k (marker_ops item) = Some k"
  by (cases item; simp add: marker_ops_def split: marker.split)+

text \<open>C38. The two phases of inline layout agree.  Where contents nest, both phases return; the shaper
  is given exactly the boxes that were found as layout children, in the same order, its spans are
  closed in turn, the second phase leaves all links as the first one set them, and the first one
  changes nothing but them and damage, once pseudo elements are up to date.\<close>
theorem inline_phases_agree:
  assumes fl: "flush_inline_pseudos_recursive styles penv i d0 = Some d" and ok: "content_ok d" and n: "nodes d i = Some n"
    and styled: "styles i \<noteq> None \<or> (\<forall>q. parent n = Some q \<longrightarrow> nodes d q \<noteq> None)"
  shows "\<exists>d1 bs ops. find_inline_layout_embedded_boxes styles penv d0 i out = Some (d1, out @ bs)
    \<and> build_inline_layout_into styles env items d1 i = Some (d1, ops)
    \<and> boxes_of ops = bs \<and> span_depth 0 ops = Some 0 \<and> same_content d d1"
proof -
  have sd: "same_content d d" by (simp add: same_content_def)
  have "\<exists>ws bs. agree styles env d i cs ws bs" if "set cs \<subseteq> set (children_and_pseudos n)" for cs
    using that
  proof (induction cs)
    case Nil then show ?case using agree_Nil by blast
  next
    case (Cons c cs)
    have "(c, i) \<in> content_edges d" using Cons.prems n by (auto simp: content_edges_def)
    then obtain m where m: "nodes d c = Some m" "\<forall>x. data m \<noteq> Document x" using ok unfolding content_ok_def by blast
    then obtain ws bs where "agree styles env d i [c] ws bs" using walks_agree [OF ok] by blast
    moreover obtain vs ds where "agree styles env d i cs vs ds" using Cons by auto
    ultimately have "agree styles env d i ([c] @ cs) (ws @ vs) (bs @ ds)" by (rule agree_append)
    then show ?case by auto
  qed
  then obtain ws bs where a: "agree styles env d i (children_and_pseudos n) ws bs" by blast
  let ?d1 = "found_all ws d"
  have sd1: "same_content d ?d1" by (rule found_all_same [OF sd])
  have f: "find_boxes styles i (children_and_pseudos n @ []) (d, out) = find_boxes styles i [] (?d1, out @ bs)"
    using a sd unfolding agree_def by blast
  have found: "find_inline_layout_embedded_boxes styles penv d0 i out = Some (?d1, out @ bs)"
    using f by (simp add: find_inline_layout_embedded_boxes_def fl node_at_def n)
  obtain m where m: "nodes ?d1 i = Some m" "children_and_pseudos m = children_and_pseudos n" "element_data m = None \<longleftrightarrow> element_data n = None"
    and pm: "parent m = parent n" by (rule same_content_parts [OF sd1 n]) (rule that, assumption+)
  have "\<exists>ops. build_inline_layout_into styles env items ?d1 i = Some (?d1, ops) \<and> boxes_of ops = bs \<and> span_depth 0 ops = Some 0"
  proof -
    have "\<exists>q. styled_root styles ?d1 m i = Some q"
    proof (cases "parent n")
      case (Some q)
      then have "styles i = None \<Longrightarrow> nodes ?d1 q \<noteq> None" using styled same_content_none [OF sd1] by blast
      then show ?thesis by (auto simp: styled_root_def pm node_at_def Some)
    qed (simp add: styled_root_def pm)
    then obtain q where q: "styled_root styles ?d1 m i = Some q" by blast
    let ?mode = "case q of None \<Rightarrow> ie_collapse env | Some q \<Rightarrow> mode_of env q (ie_collapse env)"
    let ?t = "case q of None \<Rightarrow> TransformNone | Some q \<Rightarrow> ie_transform env q"
    let ?pre = "SetWhiteSpace ?mode # marker_ops (if element_data n = None then None else items i)"
    obtain new where new: "boxes_of new = bs" "balanced new" "\<forall>e ops rest. same_content d e \<longrightarrow>
      build_inline styles env i ?mode ?t (children_and_pseudos n @ rest) (e, ops) = build_inline styles env i ?mode ?t rest (link_all ws e, ops @ new)"
      using a unfolding agree_def by blast
    have "build_inline styles env i ?mode ?t (children_and_pseudos n @ []) (?d1, ?pre) = build_inline styles env i ?mode ?t [] (link_all ws ?d1, ?pre @ new)"
      using new(3) sd1 by blast
    then have "build_inline_layout_into styles env items ?d1 i = Some (?d1, ?pre @ new)" (is ?B)
      by (simp add: build_inline_layout_into_def node_at_def m q link_all_again)
    have pre: "boxes_of ?pre = []" "span_depth 0 ?pre = Some 0"
      by (simp_all only: boxes_of_simps span_depth.simps inline_op.case marker_ops_plain append_Nil)
    have "boxes_of (?pre @ new) = bs" unfolding boxes_of_simps(3) pre(1) new(1) by simp
    moreover have "span_depth 0 (?pre @ new) = Some 0" unfolding span_depth_append pre(2) using new(2) by (simp add: balanced_def)
    ultimately show ?thesis using \<open>?B\<close> by blast
  qed
  then show ?thesis using found sd1 by blast
qed

text \<open>A paragraph with an image, a hidden input and a span around a button.\<close>
definition ex_inline :: document where
  "ex_inline = ex_document
     [(n1, ex_node n1 None [n2, n3, n4] (Element (ex_element ''p'' [] False))),
      (n2, ex_node n2 (Some n1) [] (Element (ex_element ''img'' [] False))),
      (n3, ex_node n3 (Some n1) [] (Element (ex_element ''input'' [(''type'', ''hidden'')] False))),
      (n4, ex_node n4 (Some n1) [n5, n6] (Element (ex_element ''b'' [] False))),
      (n5, ex_node n5 (Some n4) [] (Text ''go'')),
      (n6, ex_node n6 (Some n4) [] (Element (ex_element ''button'' [] False)))] []"

definition ex_inline_styles :: box_styles where
  "ex_inline_styles i = (if i = n5 then None else Some \<lparr> bs_outside = (if i = n1 then OBlock else OInline), bs_inside = Flow,
     bs_position = Static, bs_floating = False,
     bs_overflow_x = OverflowVisible, bs_overflow_y = OverflowVisible, bs_transform = False, bs_perspective = False,
     bs_filter = False, bs_contain = {}, bs_will_change = {} \<rparr>)"

definition ex_inline_env :: "nat inline_env" where
  "ex_inline_env = \<lparr> ie_white_space = (\<lambda>_. None), ie_transform = (\<lambda>_. TransformNone), ie_collapse = 0, ie_preserve = 1,
     ie_upper = (\<lambda>s. s), ie_lower = (\<lambda>s. s) \<rparr>"

definition ex_no_pseudos :: pseudo_env where
  "ex_no_pseudos = \<lparr> pe_styles = (\<lambda>_ _. None), pe_alloc = (\<lambda>_. n6) \<rparr>"

lemma ex_inline_nodes: "nodes ex_inline i = (
    if i = n1 then Some (ex_node n1 None [n2, n3, n4] (Element (ex_element ''p'' [] False)))
    else if i = n2 then Some (ex_node n2 (Some n1) [] (Element (ex_element ''img'' [] False)))
    else if i = n3 then Some (ex_node n3 (Some n1) [] (Element (ex_element ''input'' [(''type'', ''hidden'')] False)))
    else if i = n4 then Some (ex_node n4 (Some n1) [n5, n6] (Element (ex_element ''b'' [] False)))
    else if i = n5 then Some (ex_node n5 (Some n4) [] (Text ''go''))
    else if i = n6 then Some (ex_node n6 (Some n4) [] (Element (ex_element ''button'' [] False))) else None)"
  by (simp add: ex_inline_def ex_document_def)

lemma flush_no_pseudos:
  "nodes d c = Some n \<Longrightarrow> node_before n = None \<Longrightarrow> node_after n = None \<Longrightarrow> flush_pseudo_elements ex_no_pseudos c d = Some d"
  by (simp add: flush_pseudo_elements_def node_at_def ex_no_pseudos_def sync_pseudo_def)

lemma ex_inline_flushed: "flush_inline_pseudos_recursive ex_inline_styles ex_no_pseudos n1 ex_inline = Some ex_inline"
proof -
  let ?d = "update_node n1 (\<lambda>n. n\<lparr>children := []\<rparr>) ex_inline"
  have d: "flush_pseudo_elements ex_no_pseudos c ?d = Some ?d" if "c \<in> {n2, n3, n4}" for c
    using that by (auto intro!: flush_no_pseudos simp: ex_inline_nodes node_before_def node_after_def element_data_def ex_element_def)
  have dis: "\<not> (display_of ex_inline_styles n1 = (ONone, Contents) \<or> display_of ex_inline_styles n1 = (OInline, Flow))"
    by (simp add: display_of_def ex_inline_styles_def)
  have "flush_pseudos_of ex_inline_styles ex_no_pseudos n1 cs ?d = Some ?d" if "set cs \<subseteq> {n2, n3, n4}" for cs
    using that
  proof (induction cs)
    case (Cons c cs)
    then show ?case using d [of c] dis
      by (subst flush_pseudos_of.simps) (simp add: node_at_def ex_inline_nodes)
  qed (subst flush_pseudos_of.simps, simp)
  moreover have "update_node n1 (\<lambda>m. m\<lparr>children := [n2, n3, n4]\<rparr>) ?d = ex_inline"
    by (simp add: update_node_def ex_inline_nodes) (simp add: ex_inline_def ex_document_def fun_upd_idem_iff fun_eq_iff ex_node_def node_new_def)
  ultimately show ?thesis
    by (simp add: flush_inline_pseudos_recursive_def node_at_def ex_inline_nodes)
qed

theorem inline_phases_agree_witness:
  "\<exists>d1 ops. find_inline_layout_embedded_boxes ex_inline_styles ex_no_pseudos ex_inline n1 [] = Some (d1, [n2, n6])
    \<and> build_inline_layout_into ex_inline_styles ex_inline_env (\<lambda>_. None) d1 n1 = Some (d1, ops) \<and> boxes_of ops = [n2, n6]"
proof -
  have e: "content_edges ex_inline = {(n2, n1), (n3, n1), (n4, n1), (n5, n4), (n6, n4)}"
    by (auto simp: content_edges_def ex_inline_def ex_document_def children_and_pseudos_def node_before_def node_after_def
        element_data_def ex_element_def optional_def split: if_splits)
  have "wf (content_edges ex_inline)"
    by (rule wf_subset [OF wf_measure [of "\<lambda>i. if i = n1 then 2 else if i = n4 then 1 else 0"]]) (auto simp: e)
  then have ok: "content_ok ex_inline"
    unfolding content_ok_def e by (auto simp: ex_inline_def ex_document_def)
  have n: "nodes ex_inline n1 = Some (ex_node n1 None [n2, n3, n4] (Element (ex_element ''p'' [] False)))"
    by (simp add: ex_inline_def ex_document_def)
  obtain d1 bs ops where r: "find_inline_layout_embedded_boxes ex_inline_styles ex_no_pseudos ex_inline n1 [] = Some (d1, [] @ bs)"
    "build_inline_layout_into ex_inline_styles ex_inline_env (\<lambda>_. None) d1 n1 = Some (d1, ops)" "boxes_of ops = bs"
    using inline_phases_agree [OF ex_inline_flushed ok n, of "[]" ex_inline_env "\<lambda>_. None"] by (auto simp: ex_inline_styles_def)
  have "map_option snd (find_inline_layout_embedded_boxes ex_inline_styles ex_no_pseudos ex_inline n1 []) = Some [n2, n6]" by code_simp
  then show ?thesis using r by auto
qed

end
