(* ===== verification/Box_Paint.thy ===== *)
theory Box_Paint
  imports Box_Inline "HOL-Library.Product_Lexorder"
begin

text \<open>
  Painting order: the lists that \<open>flush_styles_to_layout\<close> builds (\<open>strake-dom/src/layout/damage.rs\<close>),
  the order in which \<open>strake-paint/src/render.rs\<close> draws boxes, and hit testing
  (\<open>strake-dom/src/node/node.rs\<close>).  Computed styles, final layouts and transforms are parameters;
  lengths are of a linear order with plus and minus (floats without NaN).  What is drawn for one box
  and its clips are left out; whether a box is culled is a parameter.
\<close>

section \<open>Stacking contexts\<close>

record 'f rect =
  rc_left :: 'f
  rc_top :: 'f
  rc_right :: 'f
  rc_bottom :: 'f

record 'f hoisted_paint_child =
  hc_node :: node_id
  hc_z :: int
  hc_pos :: "'f \<times> 'f"

record 'f hoisted_paint_children =
  hp_children :: "'f hoisted_paint_child list"
  hp_negative :: nat
  hp_area :: "'f rect"

definition rect_zero :: "'f::zero rect" where
  "rect_zero = \<lparr> rc_left = 0, rc_top = 0, rc_right = 0, rc_bottom = 0 \<rparr>"

text \<open>What is read of styles and layouts; \<open>pv_z\<close> is \<open>None\<close> for \<open>auto\<close>, \<open>pv_opaque\<close> and \<open>pv_clear\<close> say
  that the opacity is one and zero, \<open>pv_culled\<close> that the box is out of the clip rectangle or too small.\<close>
record 'f paint_env =
  pv_styles :: box_styles
  pv_z :: "node_id \<Rightarrow> int option"
  pv_order :: "node_id \<Rightarrow> int"
  pv_opaque :: "node_id \<Rightarrow> bool"
  pv_transformed :: "node_id \<Rightarrow> bool"
  pv_location :: "node_id \<Rightarrow> 'f \<times> 'f"
  pv_size :: "node_id \<Rightarrow> 'f \<times> 'f"
  pv_scroll :: "node_id \<Rightarrow> 'f \<times> 'f"
  pv_visible :: "node_id \<Rightarrow> bool"
  pv_clear :: "node_id \<Rightarrow> bool"
  pv_culled :: "node_id \<Rightarrow> bool"

definition is_stacking_context_root :: "'f paint_env \<Rightarrow> bool \<Rightarrow> node_id \<Rightarrow> bool" where
  "is_stacking_context_root env flex i = (case pv_styles env i of
      None \<Rightarrow> False
    | Some s \<Rightarrow>
        let has_z = pv_z env i \<noteq> None in
        if \<not> pv_opaque env i then True
        else if (case bs_position s of Fixed \<Rightarrow> True | Sticky \<Rightarrow> True | Relative \<Rightarrow> has_z | Absolute \<Rightarrow> has_z | Static \<Rightarrow> has_z \<and> flex) then True
        else pv_transformed env i)"

definition node_order :: "'f paint_env \<Rightarrow> node_id \<Rightarrow> int" where
  "node_order env i = (if pv_styles env i = None then 0 else pv_order env i)"

definition position_to_order :: "css_position \<Rightarrow> int" where
  "position_to_order p = (if p = Static then 0 else 2)"

definition float_to_order :: "bool \<Rightarrow> int" where
  "float_to_order floating = (if floating then 1 else 0)"

definition node_to_paint_order :: "'f paint_env \<Rightarrow> bool \<Rightarrow> node_id \<Rightarrow> int \<times> int" where
  "node_to_paint_order env flex i = (case pv_styles env i of
      None \<Rightarrow> (0, 0)
    | Some s \<Rightarrow>
        if flex then
          (case bs_position s of
             Static \<Rightarrow> (0, pv_order env i)
           | Relative \<Rightarrow> (2, pv_order env i)
           | Sticky \<Rightarrow> (2, pv_order env i)
           | _ \<Rightarrow> (2, 0))
        else (position_to_order (bs_position s) + float_to_order (bs_floating s), 0))"

definition hp_sort :: "'f hoisted_paint_children \<Rightarrow> 'f hoisted_paint_children" where
  "hp_sort h = (let cs = sort_key hc_z (hp_children h)
     in h\<lparr>hp_children := cs, hp_negative := length (takeWhile (\<lambda>c. hc_z c < 0) cs)\<rparr>)"

definition neg_z_children :: "'f hoisted_paint_children \<Rightarrow> 'f hoisted_paint_child list" where
  "neg_z_children h = take (hp_negative h) (hp_children h)"

definition pos_z_children :: "'f hoisted_paint_children \<Rightarrow> 'f hoisted_paint_child list" where
  "pos_z_children h = drop (hp_negative h) (hp_children h)"

definition child_area :: "('f::plus) paint_env \<Rightarrow> 'f hoisted_paint_child \<Rightarrow> 'f rect" where
  "child_area env c =
    (let left = fst (hc_pos c) + fst (pv_location env (hc_node c));
         top = snd (hc_pos c) + snd (pv_location env (hc_node c))
     in \<lparr> rc_left = left, rc_top = top, rc_right = left + fst (pv_size env (hc_node c)), rc_bottom = top + snd (pv_size env (hc_node c)) \<rparr>)"

definition rect_union :: "('f::linorder) rect \<Rightarrow> 'f rect \<Rightarrow> 'f rect" where
  "rect_union a b = \<lparr> rc_left = min (rc_left a) (rc_left b), rc_top = min (rc_top a) (rc_top b),
     rc_right = max (rc_right a) (rc_right b), rc_bottom = max (rc_bottom a) (rc_bottom b) \<rparr>"

definition compute_content_size :: "('f::{linorder, zero, plus}) paint_env \<Rightarrow> 'f hoisted_paint_children \<Rightarrow> 'f hoisted_paint_children" where
  "compute_content_size env h = h\<lparr>hp_area := (case hp_children h of
      [] \<Rightarrow> rect_zero
    | c # cs \<Rightarrow> fold (\<lambda>c a. rect_union a (child_area env c)) cs (child_area env c))\<rparr>"

section \<open>The lists of a box\<close>

type_synonym 'f contexts = "node_id \<rightharpoonup> 'f hoisted_paint_children"

record 'f paint_state =
  ps_doc :: document
  ps_contexts :: "'f contexts"
  ps_hoisted :: "'f hoisted_paint_child list"

definition is_flex_or_grid :: "box_style \<Rightarrow> bool" where
  "is_flex_or_grid s \<longleftrightarrow> bs_inside s = Flex \<or> bs_inside s = Grid"

definition is_hoisted :: "'f paint_env \<Rightarrow> bool \<Rightarrow> node_id \<Rightarrow> bool" where
  "is_hoisted env flex c = (case pv_styles env c of
      None \<Rightarrow> False
    | Some s \<Rightarrow> (case pv_z env c of None \<Rightarrow> 0 | Some z \<Rightarrow> z) \<noteq> 0 \<and> (bs_position s \<noteq> Static \<or> flex))"

definition hoisted_child :: "('f::zero) paint_env \<Rightarrow> node_id \<Rightarrow> 'f hoisted_paint_child" where
  "hoisted_child env c = \<lparr> hc_node = c, hc_z = the (pv_z env c), hc_pos = (0, 0) \<rparr>"

text \<open>The children of a box once what is below them is flushed.\<close>
definition place_children :: "('f::zero) paint_env \<Rightarrow> bool \<Rightarrow> node_id \<Rightarrow> node_id list \<Rightarrow> 'f paint_state \<Rightarrow> 'f paint_state" where
  "place_children env flex i cs s =
    (let cs1 = (if flex then sort_key (node_order env) cs else cs);
         paint = sort_key (node_to_paint_order env flex) (filter (\<lambda>c. \<not> is_hoisted env flex c) cs1)
     in s\<lparr>ps_doc := update_node i (\<lambda>n. n\<lparr>paint_children := Some paint, layout_children := Some cs1\<rparr>) (ps_doc s),
          ps_hoisted := ps_hoisted s @ map (hoisted_child env) (filter (is_hoisted env flex) cs1)\<rparr>)"

definition shift_hoisted :: "('f::{plus, minus}) paint_env \<Rightarrow> node_id \<Rightarrow> 'f hoisted_paint_child \<Rightarrow> 'f hoisted_paint_child" where
  "shift_hoisted env i h = h\<lparr>hc_pos :=
     (fst (hc_pos h) + (fst (pv_location env i) - fst (pv_scroll env i)), snd (hc_pos h) + (snd (pv_location env i) - snd (pv_scroll env i)))\<rparr>"

text \<open>What a box gathered goes to its own context, or to the one it is in.\<close>
definition settle_hoisted ::
    "('f::{linorder, zero, plus, minus}) paint_env \<Rightarrow> node_id \<Rightarrow> bool \<Rightarrow> 'f hoisted_paint_child list \<Rightarrow> 'f paint_state \<Rightarrow> 'f paint_state" where
  "settle_hoisted env i own outer s =
    (if own
     then s\<lparr>ps_contexts := (ps_contexts s)(i \<mapsto> compute_content_size env (hp_sort
              \<lparr> hp_children = ps_hoisted s, hp_negative = 0, hp_area = rect_zero \<rparr>)), ps_hoisted := outer\<rparr>
     else s\<lparr>ps_hoisted := outer @ map (shift_hoisted env i) (ps_hoisted s)\<rparr>)"

text \<open>The boxes of a list in turn, each with whether it has a stacking context of its own.\<close>
partial_function (option) flush_boxes ::
    "('f::{linorder, zero, plus, minus}) paint_env \<Rightarrow> (node_id \<times> bool) list \<Rightarrow> 'f paint_state \<Rightarrow> 'f paint_state option" where
  "flush_boxes env is s = (case is of
      [] \<Rightarrow> Some s
    | b # rest \<Rightarrow> do {
        n \<leftarrow> node_at (ps_doc s) (fst b);
        s1 \<leftarrow> (case pv_styles env (fst b) of
            None \<Rightarrow> Some s
          | Some style \<Rightarrow> do {
              s2 \<leftarrow> (case layout_children n of
                  None \<Rightarrow> Some (s\<lparr>ps_hoisted := []\<rparr>)
                | Some cs \<Rightarrow> do {
                    s3 \<leftarrow> flush_boxes env (map (\<lambda>c. (c, is_stacking_context_root env (is_flex_or_grid style) c)) cs)
                      (s\<lparr>ps_doc := update_node (fst b) (\<lambda>n. n\<lparr>layout_children := None\<rparr>) (ps_doc s), ps_hoisted := []\<rparr>);
                    Some (place_children env (is_flex_or_grid style) (fst b) cs s3) });
              Some (settle_hoisted env (fst b) (snd b) (ps_hoisted s) s2) });
        flush_boxes env rest s1 })"

declare flush_boxes.simps [code]

definition flush_styles_to_layout ::
    "('f::{linorder, zero, plus, minus}) paint_env \<Rightarrow> node_id \<Rightarrow> document \<times> 'f contexts \<Rightarrow> (document \<times> 'f contexts) may_panic" where
  "flush_styles_to_layout env i s = do {
     s1 \<leftarrow> flush_boxes env [(i, True)] \<lparr> ps_doc = fst s, ps_contexts = snd s, ps_hoisted = [] \<rparr>;
     Some (ps_doc s1, ps_contexts s1) }"

section \<open>Drawing\<close>

definition hoisted_of :: "'f contexts \<Rightarrow> node_id \<Rightarrow> 'f hoisted_paint_child list \<times> 'f hoisted_paint_child list" where
  "hoisted_of ctx i = (case ctx i of None \<Rightarrow> ([], []) | Some h \<Rightarrow> (neg_z_children h, pos_z_children h))"

text \<open>The boxes drawn for a node after its own content, in order.\<close>
definition drawn_children :: "'f contexts \<Rightarrow> node \<Rightarrow> node_id \<Rightarrow> node_id list" where
  "drawn_children ctx n i = map hc_node (fst (hoisted_of ctx i))
     @ (case paint_children n of None \<Rightarrow> [] | Some cs \<Rightarrow> cs) @ map hc_node (snd (hoisted_of ctx i))"

text \<open>What keeps an element, and all that is drawn below it, from being drawn.\<close>
definition render_hidden :: "'f paint_env \<Rightarrow> node \<Rightarrow> node_id \<Rightarrow> bool" where
  "render_hidden env n i = (case (pv_styles env i, element_data n) of
      (Some s, Some e) \<Rightarrow> bs_inside s = DNone \<or> bs_outside s = ONone
        \<or> qn_local (el_name e) = ''input'' \<and> el_attr e ''type'' = Some ''hidden''
        \<or> \<not> pv_visible env i \<or> pv_clear env i \<or> pv_culled env i
    | _ \<Rightarrow> True)"

text \<open>The boxes of a list, each followed by the boxes below it, in drawing order; a box that is skipped
  is left out with what is below it.\<close>
partial_function (option) walk_boxes :: "(node \<Rightarrow> node_id \<Rightarrow> bool) \<Rightarrow> 'f contexts \<Rightarrow> document \<Rightarrow> node_id list \<Rightarrow> node_id list option" where
  "walk_boxes skip ctx d is = (case is of
      [] \<Rightarrow> Some []
    | i # rest \<Rightarrow> do {
        n \<leftarrow> node_at d i;
        drawn \<leftarrow> (if element_data n = None \<or> skip n i then Some []
          else do { xs \<leftarrow> walk_boxes skip ctx d (drawn_children ctx n i); Some (i # xs) });
        others \<leftarrow> walk_boxes skip ctx d rest;
        Some (drawn @ others) })"

declare walk_boxes.simps [code]

text \<open>The elements drawn, in order.  A text, comment or document node draws nothing.\<close>
definition draw_nodes :: "'f paint_env \<Rightarrow> 'f contexts \<Rightarrow> document \<Rightarrow> node_id list \<Rightarrow> node_id list may_panic" where
  "draw_nodes env ctx d is = walk_boxes (render_hidden env) ctx d is"

end
