(* ===== verification/Box_Placement.thy ===== *)
theory Box_Placement
  imports Box_Reparent Dom_Example
begin

text \<open>
  The pass over out-of-flow boxes: it returns, keeps the layout tree a tree with the same boxes,
  leaves each absolutely positioned box below its containing block, clears the caches of what
  moved, and a second run finds nothing to move.  The moves are first studied on the set of edges of
  the layout tree, from a box to the box it hangs below.
\<close>

section \<open>Moves on edges\<close>

type_synonym box_edge_set = "(node_id \<times> node_id) set"

definition move_edge :: "(node_id \<Rightarrow> node_id) \<Rightarrow> (node_id \<Rightarrow> bool) \<Rightarrow> node_id \<times> node_id \<Rightarrow> box_edge_set \<Rightarrow> box_edge_set" where
  "move_edge block stays b E = (if \<not> stays (fst b) \<and> block (fst b) \<noteq> snd b \<and> b \<in> E
     then insert (fst b, block (fst b)) (E - {b}) else E)"

text \<open>A box that is settled is not moved again.\<close>
definition edge_settled :: "(node_id \<Rightarrow> node_id) \<Rightarrow> (node_id \<Rightarrow> bool) \<Rightarrow> box_edge_set \<Rightarrow> node_id \<Rightarrow> bool" where
  "edge_settled block stays E i \<longleftrightarrow> stays i \<or> (\<forall>a. (i, a) \<in> E \<longrightarrow> a = block i)"

lemma move_edge_single: "single_valued E \<Longrightarrow> single_valued (move_edge block stays b E)"
  by (cases b) (auto simp: move_edge_def single_valued_def)

lemma move_edge_domain: "Domain (move_edge block stays b E) = Domain E"
  by (cases b) (auto simp: move_edge_def)

lemma move_edge_settled: "edge_settled block stays E i \<Longrightarrow> edge_settled block stays (move_edge block stays b E) i"
  by (cases b) (auto simp: edge_settled_def move_edge_def)

lemma move_edge_settles:
  "single_valued E \<Longrightarrow> (i, f) \<in> E \<or> edge_settled block stays E i \<Longrightarrow> edge_settled block stays (move_edge block stays (i, f) E) i"
  by (auto simp: edge_settled_def move_edge_def single_valued_def)

lemma move_edge_noop: "edge_settled block stays E (fst b) \<Longrightarrow> move_edge block stays b E = E"
  by (cases b) (auto simp: edge_settled_def move_edge_def)

text \<open>Where a box may go: above it in the document, or to the root element, above which nothing is
  moved.\<close>
definition block_above :: "box_edge_set \<Rightarrow> (node_id \<Rightarrow> node_id) \<Rightarrow> (node_id \<Rightarrow> bool) \<Rightarrow> node_id \<Rightarrow> bool" where
  "block_above P block stays root_id \<longleftrightarrow> (\<forall>i. \<not> stays i \<longrightarrow> i \<noteq> root_id \<and> ((i, block i) \<in> P\<^sup>+ \<or> block i = root_id))"

definition tree_edges :: "box_edge_set \<Rightarrow> (node_id \<Rightarrow> bool) \<Rightarrow> node_id \<Rightarrow> box_edge_set \<Rightarrow> bool" where
  "tree_edges P stays root_id E \<longleftrightarrow> acyclic (P \<union> E) \<and> single_valued E \<and> (\<forall>x. (root_id, x) \<in> (P \<union> E)\<^sup>+ \<longrightarrow> stays x)"

lemma move_edge_tree:
  assumes t: "tree_edges P stays root_id E" and a: "block_above P block stays root_id"
  shows "tree_edges P stays root_id (move_edge block stays b E)"
proof (cases "\<not> stays (fst b) \<and> block (fst b) \<noteq> snd b \<and> b \<in> E")
  case False then have "move_edge block stays b E = E" by (auto simp: move_edge_def)
  then show ?thesis using t by simp
next
  case True
  let ?i = "fst b" and ?t = "block (fst b)" and ?E = "P \<union> E"
  have m: "move_edge block stays b E = insert (?i, ?t) (E - {b})" using True by (simp add: move_edge_def)
  have ac: "acyclic ?E" and sv: "single_valued E" and top: "\<forall>x. (root_id, x) \<in> ?E\<^sup>+ \<longrightarrow> stays x" using t by (simp_all add: tree_edges_def)
  have up: "?i \<noteq> root_id" "(?i, ?t) \<in> P\<^sup>+ \<or> ?t = root_id" using a True by (auto simp: block_above_def)
  have no: "(?t, ?i) \<notin> ?E\<^sup>*"
  proof
    assume c: "(?t, ?i) \<in> ?E\<^sup>*"
    show False using up(2)
    proof
      assume "(?i, ?t) \<in> P\<^sup>+"
      then have "(?i, ?t) \<in> ?E\<^sup>+" by (rule trancl_mono) blast
      then show False using c ac by (meson acyclic_def trancl_rtrancl_trancl)
    next
      assume "?t = root_id"
      then have "(root_id, ?i) \<in> ?E\<^sup>+" using c up(1) by (metis rtranclD)
      then show False using top True by blast
    qed
  qed
  have "acyclic (insert (?i, ?t) ?E)" using ac no by (simp add: acyclic_insert)
  then have ac': "acyclic (P \<union> move_edge block stays b E)" unfolding m by (rule acyclic_subset) blast
  have "stays x" if x: "(root_id, x) \<in> (P \<union> move_edge block stays b E)\<^sup>+" for x
  proof -
    have "(root_id, x) \<in> (insert (?i, ?t) ?E)\<^sup>+" using x unfolding m by (rule trancl_mono) blast
    then have "(root_id, x) \<in> ?E\<^sup>+ \<or> (root_id, ?i) \<in> ?E\<^sup>*" by (auto simp: trancl_insert)
    moreover have "(root_id, ?i) \<notin> ?E\<^sup>*" using top True up(1) by (metis rtranclD)
    ultimately show ?thesis using top by blast
  qed
  then show ?thesis using ac' move_edge_single [OF sv] by (simp add: tree_edges_def)
qed

lemma fold_moves_tree:
  "tree_edges P stays root_id E \<Longrightarrow> block_above P block stays root_id \<Longrightarrow> tree_edges P stays root_id (fold (move_edge block stays) bs E)"
  by (induction bs arbitrary: E) (simp_all add: move_edge_tree)

lemma fold_moves_domain: "Domain (fold (move_edge block stays) bs E) = Domain E"
  by (induction bs arbitrary: E) (simp_all add: move_edge_domain)

lemma fold_moves_settled: "edge_settled block stays E i \<Longrightarrow> edge_settled block stays (fold (move_edge block stays) bs E) i"
  by (induction bs arbitrary: E) (simp_all add: move_edge_settled)

lemma move_edge_other: "fst b \<noteq> i \<Longrightarrow> (i, f) \<in> E \<Longrightarrow> (i, f) \<in> move_edge block stays b E"
  by (cases b) (auto simp: move_edge_def)

lemma fold_moves_settles:
  "single_valued E \<Longrightarrow> (i, f) \<in> set bs \<Longrightarrow> (i, f) \<in> E \<or> edge_settled block stays E i \<Longrightarrow>
   edge_settled block stays (fold (move_edge block stays) bs E) i"
proof (induction bs arbitrary: E)
  case (Cons b bs)
  show ?case
  proof (cases "b = (i, f)")
    case True
    then have "edge_settled block stays (move_edge block stays b E) i" using move_edge_settles Cons.prems(1,3) by simp
    then show ?thesis by (simp add: fold_moves_settled)
  next
    case False
    have "(i, f) \<in> move_edge block stays b E \<or> edge_settled block stays (move_edge block stays b E) i"
    proof (cases "edge_settled block stays E i")
      case True then show ?thesis by (simp add: move_edge_settled)
    next
      case ns: False
      then have "(i, f) \<in> E" using Cons.prems(3) by blast
      then show ?thesis using False move_edge_settles [of E i "snd b" block stays] Cons.prems(1) move_edge_other [of b i f E block stays]
        by (cases b) (auto simp: move_edge_def)
    qed
    then show ?thesis using Cons.IH [OF move_edge_single [OF Cons.prems(1)]] Cons.prems(2) False by auto
  qed
qed simp

text \<open>Every new edge leads a moved box to its block.\<close>
lemma fold_moves_edge:
  "(i, a) \<in> fold (move_edge block stays) bs E \<Longrightarrow> (i, a) \<in> E \<or> (a = block i \<and> i \<in> fst ` set bs)"
proof (induction bs arbitrary: E)
  case (Cons b bs)
  then have "(i, a) \<in> move_edge block stays b E \<or> (a = block i \<and> i \<in> fst ` set bs)" by simp
  then show ?case by (cases b) (auto simp: move_edge_def split: if_splits)
qed simp

lemma fold_moves_reach:
  assumes r: "(x, r0) \<in> (fold (move_edge block stays) bs E)\<^sup>*" and bs: "\<forall>i\<in>fst ` set bs. (i, r0) \<in> E\<^sup>*"
  shows "(x, r0) \<in> E\<^sup>*"
  using r
proof (induction rule: converse_rtrancl_induct)
  case (step x y)
  from fold_moves_edge [OF step(1)] show ?case
  proof
    assume "(x, y) \<in> E" then show ?thesis using step(3) by (meson converse_rtrancl_into_rtrancl)
  qed (use bs in blast)
qed simp

section \<open>The layout tree of a document\<close>

definition box_edges :: "document \<Rightarrow> box_edge_set" where
  "box_edges d = {(c, a). \<exists>n. nodes d a = Some n \<and> c \<in> set (layout_list n)}"

definition nodes_ok :: "document \<Rightarrow> bool" where
  "nodes_ok d \<longleftrightarrow> finite (dom (nodes d)) \<and> (\<forall>i n. nodes d i = Some n \<longrightarrow> nid n = i \<and> distinct (layout_list n))"

text \<open>Two documents that differ in their layout trees only.\<close>
definition unlaid :: "node \<Rightarrow> node" where
  "unlaid n = n\<lparr>layout_children := None, layout_parent := None\<rparr>"

definition same_dom :: "document \<Rightarrow> document \<Rightarrow> bool" where
  "same_dom d e \<longleftrightarrow> e\<lparr>nodes := nodes d\<rparr> = d \<and> (\<forall>i. map_option unlaid (nodes e i) = map_option unlaid (nodes d i))"

lemma unlaid_fields: "unlaid n = unlaid m \<Longrightarrow> nid n = nid m \<and> parent n = parent m \<and> children n = children m \<and> data n = data m"
  by (cases n; cases m) (simp add: unlaid_def)

lemma same_dom_node: "same_dom d e \<Longrightarrow> nodes d i = Some n \<Longrightarrow> \<exists>m. nodes e i = Some m \<and> unlaid m = unlaid n"
  by (auto simp: same_dom_def dest!: spec [of _ i] split: option.splits)

lemma same_dom_none: "same_dom d e \<Longrightarrow> nodes e i = None \<longleftrightarrow> nodes d i = None"
  by (auto simp: same_dom_def dest!: spec [of _ i] split: option.splits)

lemma same_dom_parent: "same_dom d e \<Longrightarrow> Option.bind (nodes e i) parent = Option.bind (nodes d i) parent"
  using same_dom_node [of d e i] same_dom_none [of d e i] by (cases "nodes d i") (auto dest: unlaid_fields)

lemma same_dom_edges: "same_dom d e \<Longrightarrow> parent_edges e = parent_edges d"
  using same_dom_parent [of d e] by (auto simp: parent_edges_def bind_eq_Some_conv) (metis bind_eq_Some_conv)+

lemma same_dom_position: "same_dom d e \<Longrightarrow> box_position styles e i = box_position styles d i"
  using same_dom_none [of d e i] by (cases "nodes e i") (auto simp: box_position_def split: option.split)

lemma same_dom_graft: "same_dom d e \<Longrightarrow> generates_graft_box styles e i = generates_graft_box styles d i"
  using same_dom_none [of d e i] by (simp add: generates_graft_box_def)

lemma nearest_block_Some: "nearest_block styles traps d root_id (Some i) =
  (if i = root_id then Some root_id
   else if nodes d i \<noteq> None \<and> (case styles i of None \<Rightarrow> False | Some s \<Rightarrow> traps s) \<and> generates_graft_box styles d i then Some i
   else if nodes d i = None then Some root_id
   else nearest_block styles traps d root_id (Option.bind (nodes d i) parent))"
  by (subst nearest_block.simps) (auto split: option.split)

lemma nearest_block_None: "nearest_block styles traps d root_id None = Some root_id"
  by (subst nearest_block.simps) simp

text \<open>The walk returns, at a node on the way up or at the root element, and only looks at the
  document tree.\<close>
lemma nearest_block_up:
  assumes wf: "wf ((parent_edges d)\<inverse>)" and e: "same_dom d e"
  shows "\<exists>b. nearest_block styles traps d root_id (Some i) = Some b \<and> nearest_block styles traps e root_id (Some i) = Some b
     \<and> (b = root_id \<or> (i, b) \<in> (parent_edges d)\<^sup>*)"
proof (induction i rule: wf_induct_rule [OF wf])
  case (1 i)
  note eq = nearest_block_Some [of styles traps _ root_id i] same_dom_none [OF e] same_dom_graft [OF e] same_dom_parent [OF e]
  show ?case
  proof (cases "i = root_id \<or> nodes d i = None \<or> (case styles i of None \<Rightarrow> False | Some s \<Rightarrow> traps s) \<and> generates_graft_box styles d i")
    case True then show ?thesis unfolding eq by auto
  next
    case False
    then obtain n where n: "nodes d i = Some n" by (cases "nodes d i") auto
    show ?thesis
    proof (cases "parent n")
      case None then show ?thesis using False unfolding eq by (simp add: n nearest_block_None)
    next
      case (Some p)
      then have pe: "(i, p) \<in> parent_edges d" using n by (auto simp: parent_edges_def)
      obtain b where b: "nearest_block styles traps d root_id (Some p) = Some b" "nearest_block styles traps e root_id (Some p) = Some b"
        "b = root_id \<or> (p, b) \<in> (parent_edges d)\<^sup>*" using 1 [of p] pe by blast
      have "nearest_block styles traps d root_id (Some i) = Some b" "nearest_block styles traps e root_id (Some i) = Some b"
        using False unfolding eq by (auto simp: n Some b)
      then show ?thesis using b(3) pe by (auto intro: converse_rtrancl_into_rtrancl)
    qed
  qed
qed

lemma containing_block_up:
  assumes wf: "wf ((parent_edges d)\<inverse>)" and e: "same_dom d e"
  shows "\<exists>b. containing_block styles d root_id i = Some b \<and> containing_block styles e root_id i = Some b
     \<and> (b = root_id \<or> (i, b) \<in> (parent_edges d)\<^sup>+)"
proof (cases "Option.bind (nodes d i) parent")
  case None
  then show ?thesis
    by (simp add: containing_block_def fixed_containing_block_def positioned_ancestor_def same_dom_parent [OF e] nearest_block_None)
next
  case (Some p)
  then have "(i, p) \<in> parent_edges d" by (auto simp: parent_edges_def bind_eq_Some_conv)
  then have up: "(p, b) \<in> (parent_edges d)\<^sup>* \<Longrightarrow> (i, b) \<in> (parent_edges d)\<^sup>+" for b by (rule rtrancl_into_trancl2)
  show ?thesis
    using nearest_block_up [OF wf e, of styles establishes_containing_block root_id p] up
      nearest_block_up [OF wf e, of styles "\<lambda>s. bs_position s \<noteq> Static \<or> establishes_containing_block s" root_id p]
    by (auto simp: containing_block_def fixed_containing_block_def positioned_ancestor_def same_dom_parent [OF e] Some same_dom_position [OF e])
qed

lemma clips_below_Some: "clips_below styles d block (Some i) =
  (if i = block then Some False else if nodes d i = None then Some False else if clips_box styles i then Some True
   else clips_below styles d block (Option.bind (nodes d i) parent))"
  by (subst clips_below.simps) (simp add: clip_verdict_def)

lemma clips_below_None: "clips_below styles d block None = Some False"
  by (subst clips_below.simps) (simp add: clip_verdict_def)

lemma clips_below_up:
  assumes wf: "wf ((parent_edges d)\<inverse>)" and e: "same_dom d e"
  shows "\<exists>v. clips_below styles d block (Some i) = Some v \<and> clips_below styles e block (Some i) = Some v"
proof (induction i rule: wf_induct_rule [OF wf])
  case (1 i)
  show ?case
  proof (cases "nodes d i")
    case None then show ?thesis by (intro exI [of _ False]) (simp add: clips_below_Some same_dom_none [OF e])
  next
    case n: (Some n)
    show ?thesis
    proof (cases "parent n")
      case None
      then show ?thesis
        by (intro exI [of _ "i \<noteq> block \<and> clips_box styles i"])
          (auto simp: clips_below_Some same_dom_none [OF e] same_dom_parent [OF e] n clips_below_None)
    next
      case (Some p)
      then have "(i, p) \<in> parent_edges d" using n by (auto simp: parent_edges_def)
      then show ?thesis using 1 [of p] by (auto simp: clips_below_Some same_dom_none [OF e] same_dom_parent [OF e] n Some)
    qed
  qed
qed

lemma has_clipping_up:
  assumes "wf ((parent_edges d)\<inverse>)" "same_dom d e"
  shows "\<exists>v. has_clipping_intermediate styles d i block = Some v \<and> has_clipping_intermediate styles e i block = Some v"
  using clips_below_up [OF assms, of styles block]
  by (cases "Option.bind (nodes d i) parent") (auto simp: has_clipping_intermediate_def same_dom_parent [OF assms(2)] clips_below_None)

section \<open>The walks over the layout tree\<close>

lemma finite_box_edges: "finite (dom (nodes d)) \<Longrightarrow> finite (box_edges d)"
proof -
  assume f: "finite (dom (nodes d))"
  have "box_edges d \<subseteq> (\<Union>a\<in>dom (nodes d). set (layout_list (the (nodes d a))) \<times> {a})" by (force simp: box_edges_def)
  then show ?thesis by (rule finite_subset) (use f in simp)
qed

lemma clear_caches_Nil [simp]: "clear_caches d [] cleared = Some cleared"
  by (subst clear_caches.simps) simp

lemma clear_caches_Cons: "clear_caches d (i # rest) cleared = (case nodes d i of
    None \<Rightarrow> clear_caches d rest cleared
  | Some n \<Rightarrow> clear_caches d (rev (layout_list n) @ rest) (i # cleared))"
  by (subst clear_caches.simps) simp

text \<open>What hangs below a box and lives.\<close>
definition below :: "document \<Rightarrow> node_id \<Rightarrow> node_id set" where
  "below d i = {x. (x, i) \<in> (box_edges d)\<^sup>* \<and> nodes d x \<noteq> None}"

lemma below_node:
  assumes "nodes d i = Some n" shows "below d i = insert i (\<Union>c\<in>set (layout_list n). below d c)"
proof -
  have "(x, i) \<in> (box_edges d)\<^sup>* \<longleftrightarrow> x = i \<or> (\<exists>c\<in>set (layout_list n). (x, c) \<in> (box_edges d)\<^sup>*)" for x
  proof
    assume "(x, i) \<in> (box_edges d)\<^sup>*"
    then show "x = i \<or> (\<exists>c\<in>set (layout_list n). (x, c) \<in> (box_edges d)\<^sup>*)"
      by (cases rule: rtrancl.cases) (auto simp: box_edges_def assms)
  next
    assume "x = i \<or> (\<exists>c\<in>set (layout_list n). (x, c) \<in> (box_edges d)\<^sup>*)"
    then show "(x, i) \<in> (box_edges d)\<^sup>*" by (auto simp: box_edges_def assms intro: rtrancl_into_rtrancl)
  qed
  then show ?thesis using assms by (auto simp: below_def)
qed

lemma below_none: "nodes d i = None \<Longrightarrow> below d i = {}"
proof -
  assume n: "nodes d i = None"
  have "x = i" if "(x, i) \<in> (box_edges d)\<^sup>*" for x
    using that by (cases rule: rtrancl.cases) (auto simp: box_edges_def n)
  then show ?thesis using n by (auto simp: below_def)
qed

lemma clear_caches_below:
  assumes wf: "wf (box_edges d)"
  shows "\<exists>out. set out = below d i \<and> (\<forall>rest cleared. clear_caches d (i # rest) cleared = clear_caches d rest (out @ cleared))"
proof (induction i rule: wf_induct_rule [OF wf])
  case (1 i)
  show ?case
  proof (cases "nodes d i")
    case None then show ?thesis by (intro exI [of _ "[]"]) (simp add: clear_caches_Cons below_none)
  next
    case (Some n)
    have "\<exists>out. set out = (\<Union>c\<in>set cs. below d c) \<and> (\<forall>rest cleared. clear_caches d (cs @ rest) cleared = clear_caches d rest (out @ cleared))"
      if "set cs \<subseteq> set (layout_list n)" for cs
      using that
    proof (induction cs)
      case Nil then show ?case by (intro exI [of _ "[]"]) simp
    next
      case (Cons c cs)
      have "(c, i) \<in> box_edges d" using Cons.prems Some by (auto simp: box_edges_def)
      from 1 [OF this] obtain o1 where o1: "set o1 = below d c" "\<forall>rest cleared. clear_caches d (c # rest) cleared = clear_caches d rest (o1 @ cleared)" by blast
      obtain o2 where "set o2 = (\<Union>c\<in>set cs. below d c)" "\<forall>rest cleared. clear_caches d (cs @ rest) cleared = clear_caches d rest (o2 @ cleared)"
        using Cons by auto
      then show ?case using o1 by (intro exI [of _ "o2 @ o1"]) auto
    qed
    from this [of "rev (layout_list n)"] obtain out where
      "set out = (\<Union>c\<in>set (layout_list n). below d c)"
      "\<forall>rest cleared. clear_caches d (rev (layout_list n) @ rest) cleared = clear_caches d rest (out @ cleared)" by auto
    then show ?thesis by (intro exI [of _ "out @ [i]"]) (auto simp: clear_caches_Cons Some below_node)
  qed
qed

lemma collect_boxes_Nil [simp]: "collect_out_of_flow styles d [] found = Some found"
  by (subst collect_out_of_flow.simps) simp

lemma collect_boxes_Cons: "collect_out_of_flow styles d ((i, from_id) # rest) found = (case nodes d i of
    None \<Rightarrow> collect_out_of_flow styles d rest found
  | Some n \<Rightarrow> collect_out_of_flow styles d
      (map (\<lambda>c. (c, Some i)) (filter (\<lambda>c. nodes d c \<noteq> None) (layout_list n)) @ rest)
      (case from_id of
         Some f \<Rightarrow> if is_absolutely_positioned (box_position styles d i) then found @ [(i, f)] else found
       | None \<Rightarrow> found))"
  by (subst collect_out_of_flow.simps) (simp split: option.split)

text \<open>The out-of-flow boxes below a box, with the boxes they hang below.\<close>
definition out_below :: "box_styles \<Rightarrow> document \<Rightarrow> node_id \<Rightarrow> (node_id \<times> node_id) set" where
  "out_below styles d i = {(b, a). (a, i) \<in> (box_edges d)\<^sup>* \<and> (b, a) \<in> box_edges d \<and> is_absolutely_positioned (box_position styles d b)}"

lemma abs_lives: "is_absolutely_positioned (box_position styles d b) \<Longrightarrow> nodes d b \<noteq> None"
  by (cases "nodes d b") (simp_all add: box_position_def is_absolutely_positioned_def)

lemma out_below_node:
  assumes "nodes d i = Some n"
  shows "out_below styles d i = (\<Union>c\<in>set (layout_list n). out_below styles d c
    \<union> (if is_absolutely_positioned (box_position styles d c) then {(c, i)} else {}))"
proof -
  have up: "(a, i) \<in> (box_edges d)\<^sup>* \<longleftrightarrow> a = i \<or> (\<exists>c\<in>set (layout_list n). (a, c) \<in> (box_edges d)\<^sup>*)" for a
  proof
    assume "(a, i) \<in> (box_edges d)\<^sup>*"
    then show "a = i \<or> (\<exists>c\<in>set (layout_list n). (a, c) \<in> (box_edges d)\<^sup>*)"
      by (cases rule: rtrancl.cases) (auto simp: box_edges_def assms)
  next
    assume "a = i \<or> (\<exists>c\<in>set (layout_list n). (a, c) \<in> (box_edges d)\<^sup>*)"
    then show "(a, i) \<in> (box_edges d)\<^sup>*" by (auto simp: box_edges_def assms intro: rtrancl_into_rtrancl)
  qed
  have "(b, i) \<in> box_edges d \<longleftrightarrow> b \<in> set (layout_list n)" for b by (auto simp: box_edges_def assms)
  then show ?thesis unfolding out_below_def up by (auto split: if_splits)
qed

lemma collect_below:
  assumes wf: "wf (box_edges d)"
  shows "\<exists>out. set out = out_below styles d i \<and> (\<forall>from_id rest found. nodes d i \<noteq> None \<longrightarrow>
    collect_out_of_flow styles d ((i, from_id) # rest) found = collect_out_of_flow styles d rest
      (found @ (case from_id of Some f \<Rightarrow> if is_absolutely_positioned (box_position styles d i) then [(i, f)] else [] | None \<Rightarrow> []) @ out))"
proof (induction i rule: wf_induct_rule [OF wf])
  case (1 i)
  show ?case
  proof (cases "nodes d i")
    case None
    have "\<not> ((b, a) \<in> box_edges d \<and> (a, i) \<in> (box_edges d)\<^sup>*)" for a b
    proof
      assume e: "(b, a) \<in> box_edges d \<and> (a, i) \<in> (box_edges d)\<^sup>*"
      have "nodes d a \<noteq> None" using e by (auto simp: box_edges_def)
      then have "a \<in> below d i" using e by (simp add: below_def)
      then show False using below_none [OF None] by simp
    qed
    then have "out_below styles d i = {}" by (auto simp: out_below_def)
    then show ?thesis using None by (intro exI [of _ "[]"]) simp
  next
    case (Some n)
    let ?stack = "\<lambda>cs. map (\<lambda>c. (c, Some i)) (filter (\<lambda>c. nodes d c \<noteq> None) cs)"
    have "\<exists>out. set out = (\<Union>c\<in>set cs. out_below styles d c \<union> (if is_absolutely_positioned (box_position styles d c) then {(c, i)} else {}))
      \<and> (\<forall>rest found. collect_out_of_flow styles d (?stack cs @ rest) found = collect_out_of_flow styles d rest (found @ out))"
      if "set cs \<subseteq> set (layout_list n)" for cs
      using that
    proof (induction cs)
      case Nil then show ?case by (intro exI [of _ "[]"]) simp
    next
      case (Cons c cs)
      have "(c, i) \<in> box_edges d" using Cons.prems Some by (auto simp: box_edges_def)
      from 1 [OF this] obtain o1 where o1: "set o1 = out_below styles d c"
        "\<forall>from_id rest found. nodes d c \<noteq> None \<longrightarrow> collect_out_of_flow styles d ((c, from_id) # rest) found = collect_out_of_flow styles d rest
          (found @ (case from_id of Some f \<Rightarrow> if is_absolutely_positioned (box_position styles d c) then [(c, f)] else [] | None \<Rightarrow> []) @ o1)" by blast
      obtain o2 where o2: "set o2 = (\<Union>c\<in>set cs. out_below styles d c \<union> (if is_absolutely_positioned (box_position styles d c) then {(c, i)} else {}))"
        "\<forall>rest found. collect_out_of_flow styles d (?stack cs @ rest) found = collect_out_of_flow styles d rest (found @ o2)"
        using Cons by auto
      show ?case
      proof (cases "nodes d c")
        case None
        have "out_below styles d c = {}"
        proof (rule equals0I)
          fix x assume "x \<in> out_below styles d c"
          then have "snd x \<in> below d c" by (auto simp: out_below_def below_def box_edges_def)
          then show False using below_none [OF None] by simp
        qed
        then show ?thesis using o2 None abs_lives [of styles d c] by (intro exI [of _ o2]) auto
      next
        case (Some m)
        then show ?thesis using o1 o2
          by (intro exI [of _ "(if is_absolutely_positioned (box_position styles d c) then [(c, i)] else []) @ o1 @ o2"]) auto
      qed
    qed
    from this [OF subset_refl] obtain out where
      "set out = out_below styles d i"
      "\<forall>rest found. collect_out_of_flow styles d (?stack (layout_list n) @ rest) found = collect_out_of_flow styles d rest (found @ out)"
      unfolding out_below_node [OF Some] by blast
    then show ?thesis by (intro exI [of _ out]) (auto simp: collect_boxes_Cons Some split: option.split)
  qed
qed

section \<open>The moves of the pass\<close>

definition block_of :: "box_styles \<Rightarrow> document \<Rightarrow> node_id \<Rightarrow> node_id \<Rightarrow> node_id" where
  "block_of styles d root_id i = the (containing_block styles d root_id i)"

text \<open>A box that the pass leaves alone, whatever it hangs below.\<close>
definition left_alone :: "box_styles \<Rightarrow> document \<Rightarrow> node_id \<Rightarrow> node_id \<Rightarrow> bool" where
  "left_alone styles d root_id i \<longleftrightarrow> i = root_id \<or> \<not> is_absolutely_positioned (box_position styles d i)
     \<or> nodes d (block_of styles d root_id i) = None
     \<or> box_position styles d i \<noteq> Fixed \<and> has_clipping_intermediate styles d i (block_of styles d root_id i) = Some True"

definition pass_ok :: "box_styles \<Rightarrow> document \<Rightarrow> node_id \<Rightarrow> document \<Rightarrow> bool" where
  "pass_ok styles d root_id e \<longleftrightarrow> same_dom d e \<and> nodes_ok e \<and> tree_edges (parent_edges d) (left_alone styles d root_id) root_id (box_edges e)"

lemma pass_ok_wf:
  assumes "pass_ok styles d root_id e"
  shows "wf ((parent_edges d)\<inverse>)" "wf (box_edges e)"
proof -
  have ac: "acyclic (parent_edges d \<union> box_edges e)" and fin: "finite (dom (nodes e))"
    using assms by (simp_all add: pass_ok_def tree_edges_def nodes_ok_def)
  have "parent_edges e = parent_edges d" using assms by (simp add: pass_ok_def same_dom_edges)
  then have "finite (parent_edges d)" using finite_parent_edges [OF fin] by simp
  moreover have "acyclic (parent_edges d)" "acyclic (box_edges e)" using ac by (auto intro: acyclic_subset)
  ultimately show "wf ((parent_edges d)\<inverse>)" "wf (box_edges e)"
    using finite_box_edges [OF fin] by (simp_all add: finite_acyclic_wf_converse finite_acyclic_wf)
qed

lemma detach_box_edge:
  "detach_box i f d = (if (i, f) \<in> box_edges d
     then Some (update_node f (\<lambda>n. n\<lparr>layout_children := Some (remove1 i (layout_list n))\<rparr>) d) else None)"
proof (cases "nodes d f")
  case (Some n)
  then show ?thesis by (cases "layout_children n") (auto simp: detach_box_def box_edges_def layout_list_def update_node_def)
qed (simp add: detach_box_def box_edges_def)

lemma same_dom_update: "same_dom d e \<Longrightarrow> (\<And>n. unlaid (f n) = unlaid n) \<Longrightarrow> same_dom d (update_node i f e)"
proof -
  assume sd: "same_dom d e" and f: "\<And>n. unlaid (f n) = unlaid n"
  have "map_option unlaid (nodes (update_node i f e) x) = map_option unlaid (nodes e x)" for x
    by (cases "nodes e i") (simp_all add: f)
  moreover have "(update_node i f e)\<lparr>nodes := nodes d\<rparr> = e\<lparr>nodes := nodes d\<rparr>" by (simp add: update_node_def split: option.split)
  ultimately show ?thesis using sd unfolding same_dom_def by metis
qed

lemma box_edges_update:
  assumes "nodes d a = Some n"
  shows "box_edges (update_node a g d) = {b \<in> box_edges d. snd b \<noteq> a} \<union> set (layout_list (g n)) \<times> {a}"
  using assms by (auto simp: box_edges_def split: if_splits)

lemma nodes_ok_update:
  assumes "nodes_ok d" "nodes d a = Some n" "nid (g n) = nid n" "distinct (layout_list (g n))"
  shows "nodes_ok (update_node a g d)"
  using assms by (auto simp: nodes_ok_def update_node_nodes split: if_splits)

lemma layout_list_upd [simp]:
  "layout_list (n\<lparr>layout_children := Some cs\<rparr>) = cs" "layout_list (n\<lparr>layout_parent := p\<rparr>) = layout_list n"
  by (simp_all add: layout_list_def)

lemma box_edges_same:
  assumes "nodes d a = Some n" "layout_list (g n) = layout_list n"
  shows "box_edges (update_node a g d) = box_edges d"
  unfolding box_edges_update [OF assms(1)] using assms by (auto simp: box_edges_def)

lemma update_node_live: "nodes (update_node a g d) x = None \<longleftrightarrow> nodes d x = None"
  by simp

lemma box_edges_graft:
  assumes "nodes d t = Some n" shows "box_edges (graft_box i t d) = insert (i, t) (box_edges d)"
  unfolding graft_box_def box_edges_update [OF assms] using assms by (auto simp: box_edges_def)

text \<open>Detaching a box and grafting it elsewhere.\<close>
lemma regraft:
  assumes sd: "same_dom d e" and ok: "nodes_ok e" and e: "(i, f) \<in> box_edges e" and t: "nodes e t \<noteq> None" and i: "nodes e i \<noteq> None"
    and d3: "d3 = update_node i (\<lambda>n. n\<lparr>layout_parent := Some t\<rparr>)
       (graft_box i t (update_node f (\<lambda>n. n\<lparr>layout_children := Some (remove1 i (layout_list n))\<rparr>) e))"
  shows "same_dom d d3 \<and> nodes_ok d3 \<and> box_edges d3 = insert (i, t) (box_edges e - {(i, f)})"
proof -
  let ?g = "\<lambda>n. n\<lparr>layout_children := Some (remove1 i (layout_list n))\<rparr>"
  let ?h = "\<lambda>n. n\<lparr>layout_children := Some (if i \<in> set (layout_list n) then layout_list n else layout_list n @ [i])\<rparr>"
  let ?e1 = "update_node f ?g e" and ?k = "\<lambda>n. n\<lparr>layout_parent := Some t\<rparr>"
  let ?e2 = "update_node t ?h ?e1"
  obtain nf where nf: "nodes e f = Some nf" "i \<in> set (layout_list nf)" using e by (auto simp: box_edges_def)
  have d: "distinct (layout_list nf)" using ok nf(1) by (auto simp: nodes_ok_def)
  have ok1: "nodes_ok ?e1" by (rule nodes_ok_update [OF ok nf(1)]) (use d in simp_all)
  have E1: "box_edges ?e1 = box_edges e - {(i, f)}" unfolding box_edges_update [OF nf(1)] using nf d by (auto simp: box_edges_def)
  have "nodes ?e1 t \<noteq> None" using t by (simp only: update_node_live simp_thms)
  then obtain nt where nt: "nodes ?e1 t = Some nt" by blast
  have dt: "distinct (layout_list nt)" using ok1 nt by (auto simp: nodes_ok_def)
  have ok2: "nodes_ok ?e2" by (rule nodes_ok_update [OF ok1 nt]) (use dt in simp_all)
  have E2: "box_edges ?e2 = insert (i, t) (box_edges ?e1)" using box_edges_graft [OF nt, of i] by (simp only: graft_box_def)
  have "nodes ?e2 i \<noteq> None" using i by (simp only: update_node_live simp_thms)
  then obtain ni where ni: "nodes ?e2 i = Some ni" by blast
  have di: "distinct (layout_list ni)" using ok2 ni by (auto simp: nodes_ok_def)
  have ok3: "nodes_ok (update_node i ?k ?e2)" by (rule nodes_ok_update [OF ok2 ni]) (use di in simp_all)
  have E3: "box_edges (update_node i ?k ?e2) = box_edges ?e2" by (rule box_edges_same [OF ni]) simp
  have "same_dom d (update_node i ?k ?e2)" by (intro same_dom_update sd) (simp_all add: unlaid_def)
  then show ?thesis unfolding d3 graft_box_def using ok3 E3 E2 E1 by simp
qed

text \<open>One box: the edges make the move, and nothing else of the document changes.\<close>
lemma reparent_box_moves:
  assumes ok: "pass_ok styles d root_id e" and s: "rp_doc s = e" and up: "block_above (parent_edges d) (block_of styles d root_id) (left_alone styles d root_id) root_id"
    and fi: "f \<noteq> i"
  shows "\<exists>s'. reparent_box styles root_id (i, f) s = Some s'
     \<and> pass_ok styles d root_id (rp_doc s')
     \<and> box_edges (rp_doc s') = move_edge (block_of styles d root_id) (left_alone styles d root_id) (i, f) (box_edges e)
     \<and> (box_edges (rp_doc s') = box_edges e \<longrightarrow> s' = s)
     \<and> (box_edges (rp_doc s') \<noteq> box_edges e \<longrightarrow> rp_moved s' \<and>
          set (rp_cleared s') = set (rp_cleared s) \<union> below (rp_doc s') i \<union> {f, block_of styles d root_id i})"
proof -
  let ?t = "block_of styles d root_id i" and ?stays = "left_alone styles d root_id"
  have sd: "same_dom d e" and te: "tree_edges (parent_edges d) ?stays root_id (box_edges e)" and nok: "nodes_ok e"
    using ok by (simp_all add: pass_ok_def)
  note wfs = pass_ok_wf [OF ok]
  have cb: "containing_block styles e root_id i = Some ?t"
    using containing_block_up [OF wfs(1) sd, of styles root_id i] by (auto simp: block_of_def)
  obtain v where v: "has_clipping_intermediate styles d i ?t = Some v" "has_clipping_intermediate styles e i ?t = Some v"
    using has_clipping_up [OF wfs(1) sd, of styles i ?t] by blast
  note eqs = reparent_box_def Let_def s cb same_dom_position [OF sd] same_dom_none [OF sd] prod.case
  show ?thesis
  proof (cases "\<not> ?stays i \<and> ?t \<noteq> f \<and> (i, f) \<in> box_edges e")
    case False
    then have m: "move_edge (block_of styles d root_id) ?stays (i, f) (box_edges e) = box_edges e" by (auto simp: move_edge_def)
    have "reparent_box styles root_id (i, f) s = Some s"
      using False v unfolding eqs left_alone_def by (auto simp: detach_box_edge)
    then show ?thesis using ok s m by simp
  next
    case True
    let ?d1 = "update_node f (\<lambda>n. n\<lparr>layout_children := Some (remove1 i (layout_list n))\<rparr>) e"
    let ?d3 = "update_node i (\<lambda>n. n\<lparr>layout_parent := Some ?t\<rparr>) (graft_box i ?t ?d1)"
    have i: "i \<noteq> root_id" "is_absolutely_positioned (box_position styles d i)" "nodes d ?t \<noteq> None"
      "\<not> (box_position styles d i \<noteq> Fixed \<and> v)" using True v by (auto simp: left_alone_def)
    have live: "nodes e i \<noteq> None" using abs_lives [OF i(2)] same_dom_none [OF sd] by simp
    have t: "nodes e ?t \<noteq> None" using i(3) same_dom_none [OF sd] by simp
    note rg = regraft [OF sd nok conjunct2 [OF conjunct2 [OF True]] t live refl]
    let ?E = "box_edges e"
    have m: "move_edge (block_of styles d root_id) ?stays (i, f) ?E = insert (i, ?t) (?E - {(i, f)})" using True by (simp add: move_edge_def)
    have ok3: "pass_ok styles d root_id ?d3"
      using rg move_edge_tree [OF te up, of "(i, f)"] unfolding m pass_ok_def by simp
    obtain out where out: "set out = below ?d3 i" "\<forall>rest cleared. clear_caches ?d3 (i # rest) cleared = clear_caches ?d3 rest (out @ cleared)"
      using clear_caches_below [OF pass_ok_wf(2) [OF ok3], of i] by blast
    have f: "nodes ?d3 f \<noteq> None" "nodes ?d3 ?t \<noteq> None" "node_at (graft_box i ?t ?d1) i \<noteq> None"
      using True t live by (auto simp: box_edges_def graft_box_def node_at_def split: if_splits)
    let ?s = "\<lparr> rp_doc = ?d3, rp_cleared = ?t # f # out @ rp_cleared s, rp_moved = True \<rparr>"
    have "reparent_box styles root_id (i, f) s = Some ?s"
      using True i f v out(2) unfolding eqs by (auto simp: detach_box_edge clear_layout_cache_subtree_def clear_one_def)
    moreover have "(i, ?t) \<notin> ?E" using te True by (auto simp: tree_edges_def single_valued_def)
    then have "box_edges ?d3 \<noteq> ?E" using rg by blast
    ultimately show ?thesis using ok3 rg m out(1) by (intro exI [of _ ?s]) auto
  qed
qed

section \<open>The pass\<close>

text \<open>The log of caches: whatever hangs below a box that moved, and the boxes it hung below.\<close>
definition caches_ok :: "box_styles \<Rightarrow> document \<Rightarrow> node_id \<Rightarrow> reparent_state \<Rightarrow> bool" where
  "caches_ok styles d root_id s \<longleftrightarrow>
     (\<forall>b a. (b, a) \<in> box_edges (rp_doc s) - box_edges d \<longrightarrow> a = block_of styles d root_id b
        \<and> below (rp_doc s) b \<union> insert a (box_edges d `` {b}) \<subseteq> set (rp_cleared s))
     \<and> (rp_moved s \<longleftrightarrow> box_edges (rp_doc s) \<noteq> box_edges d)"

lemma path_through_move:
  "(x, b) \<in> (insert (i, t) (E - {(i, f)}))\<^sup>* \<Longrightarrow> (x, b) \<in> E\<^sup>* \<or> (x, i) \<in> (insert (i, t) (E - {(i, f)}))\<^sup>*"
proof (induction rule: converse_rtrancl_induct)
  case (step x y)
  from step(3) show ?case
  proof
    assume y: "(y, b) \<in> E\<^sup>*"
    show ?thesis
    proof (cases "x = i \<and> y = t")
      case False
      then have "(x, y) \<in> E" using step(1) by blast
      then show ?thesis using y by (meson converse_rtrancl_into_rtrancl)
    qed simp
  next
    assume "(y, i) \<in> (insert (i, t) (E - {(i, f)}))\<^sup>*"
    then show ?thesis using step(1) by (meson converse_rtrancl_into_rtrancl)
  qed
qed simp

lemma caches_step:
  assumes c: "caches_ok styles d root_id s" and sv: "single_valued (box_edges d)"
    and live: "\<forall>x. nodes (rp_doc s') x = None \<longleftrightarrow> nodes (rp_doc s) x = None"
    and E: "box_edges (rp_doc s') = insert (i, block_of styles d root_id i) (box_edges (rp_doc s) - {(i, f)})"
    and f: "(i, f) \<in> box_edges (rp_doc s)" "block_of styles d root_id i \<noteq> f"
    and m: "rp_moved s'" and cl: "set (rp_cleared s') = set (rp_cleared s) \<union> below (rp_doc s') i \<union> {f, block_of styles d root_id i}"
  shows "caches_ok styles d root_id s'"
proof -
  let ?t = "block_of styles d root_id i" and ?E = "box_edges (rp_doc s)" and ?E' = "box_edges (rp_doc s')" and ?E0 = "box_edges d"
  have old: "(i, f) \<in> ?E0" using c f unfolding caches_ok_def by blast
  have new: "(i, ?t) \<notin> ?E0" using old f(2) sv by (auto simp: single_valued_def)
  have only: "?E0 `` {i} = {f}" using old sv by (auto simp: single_valued_def)
  have sub: "below (rp_doc s') b \<subseteq> below (rp_doc s) b \<union> below (rp_doc s') i" for b
  proof
    fix x assume "x \<in> below (rp_doc s') b"
    then have x: "(x, b) \<in> ?E'\<^sup>*" "nodes (rp_doc s') x \<noteq> None" by (simp_all add: below_def)
    from path_through_move [OF x(1) [unfolded E]] show "x \<in> below (rp_doc s) b \<union> below (rp_doc s') i"
      using x(2) live unfolding below_def E by simp
  qed
  have "a = block_of styles d root_id b \<and> below (rp_doc s') b \<union> insert a (?E0 `` {b}) \<subseteq> set (rp_cleared s')"
    if ba: "(b, a) \<in> ?E' - ?E0" for b a
  proof (cases "b = i \<and> a = ?t")
    case True then show ?thesis using only cl by auto
  next
    case False
    then have "(b, a) \<in> box_edges (rp_doc s) - box_edges d" using ba E by (metis Diff_iff insert_iff prod.inject)
    then have "a = block_of styles d root_id b" "below (rp_doc s) b \<union> insert a (?E0 `` {b}) \<subseteq> set (rp_cleared s)"
      using c unfolding caches_ok_def by blast+
    then show ?thesis using sub [of b] cl by blast
  qed
  moreover have "?E' \<noteq> ?E0" using new E by blast
  ultimately show ?thesis using m unfolding caches_ok_def by blast
qed

lemma reparent_boxes_moves:
  assumes up: "block_above (parent_edges d) (block_of styles d root_id) (left_alone styles d root_id) root_id"
    and sv: "single_valued (box_edges d)"
  shows "pass_ok styles d root_id (rp_doc s) \<Longrightarrow> caches_ok styles d root_id s \<Longrightarrow> \<forall>b\<in>set bs. fst b \<noteq> snd b \<Longrightarrow>
    \<exists>s'. reparent_boxes styles root_id bs s = Some s' \<and> pass_ok styles d root_id (rp_doc s') \<and> caches_ok styles d root_id s'
      \<and> box_edges (rp_doc s') = fold (move_edge (block_of styles d root_id) (left_alone styles d root_id)) bs (box_edges (rp_doc s))
      \<and> ((\<forall>b\<in>set bs. edge_settled (block_of styles d root_id) (left_alone styles d root_id) (box_edges (rp_doc s)) (fst b)) \<longrightarrow> s' = s)"
proof (induction bs arbitrary: s)
  case (Cons b bs)
  let ?block = "block_of styles d root_id" and ?stays = "left_alone styles d root_id"
  obtain i f where b: "b = (i, f)" by (cases b)
  have "f \<noteq> i" using Cons.prems(3) b by auto
  from reparent_box_moves [OF Cons.prems(1) refl up this] obtain s1 where
    s1: "reparent_box styles root_id (i, f) s = Some s1" "pass_ok styles d root_id (rp_doc s1)"
      "box_edges (rp_doc s1) = move_edge ?block ?stays (i, f) (box_edges (rp_doc s))"
      "box_edges (rp_doc s1) = box_edges (rp_doc s) \<longrightarrow> s1 = s"
      "box_edges (rp_doc s1) \<noteq> box_edges (rp_doc s) \<longrightarrow> rp_moved s1 \<and> set (rp_cleared s1) = set (rp_cleared s) \<union> below (rp_doc s1) i \<union> {f, ?block i}"
    by blast
  have c1: "caches_ok styles d root_id s1"
  proof (cases "box_edges (rp_doc s1) = box_edges (rp_doc s)")
    case True then show ?thesis using s1(4) Cons.prems(2) by simp
  next
    case False
    then have "\<not> ?stays i \<and> ?block i \<noteq> f \<and> (i, f) \<in> box_edges (rp_doc s)" using s1(3) by (auto simp: move_edge_def split: if_splits)
    then have mv: "box_edges (rp_doc s1) = insert (i, ?block i) (box_edges (rp_doc s) - {(i, f)})" "(i, f) \<in> box_edges (rp_doc s)" "?block i \<noteq> f"
      using s1(3) by (auto simp: move_edge_def)
    have "\<forall>x. nodes (rp_doc s1) x = None \<longleftrightarrow> nodes (rp_doc s) x = None"
      using s1(2) Cons.prems(1) same_dom_none unfolding pass_ok_def by blast
    then show ?thesis using caches_step [OF Cons.prems(2) sv _ mv] s1(5) False by blast
  qed
  obtain s2 where s2: "reparent_boxes styles root_id bs s1 = Some s2" "pass_ok styles d root_id (rp_doc s2)" "caches_ok styles d root_id s2"
    "box_edges (rp_doc s2) = fold (move_edge ?block ?stays) bs (box_edges (rp_doc s1))"
    "(\<forall>b\<in>set bs. edge_settled ?block ?stays (box_edges (rp_doc s1)) (fst b)) \<longrightarrow> s2 = s1"
    using Cons.IH [OF s1(2) c1] Cons.prems(3) by auto
  have "edge_settled ?block ?stays (box_edges (rp_doc s)) i \<Longrightarrow> s1 = s"
    using s1(3,4) move_edge_noop [of ?block ?stays "box_edges (rp_doc s)" "(i, f)"] by simp
  then show ?case using s1(1,3) s2 b by auto
qed simp

lemma reparent_boxes_settled:
  assumes up: "block_above (parent_edges d) (block_of styles d root_id) (left_alone styles d root_id) root_id"
  shows "pass_ok styles d root_id (rp_doc s) \<Longrightarrow> \<forall>b\<in>set bs. fst b \<noteq> snd b \<Longrightarrow>
    \<forall>b\<in>set bs. edge_settled (block_of styles d root_id) (left_alone styles d root_id) (box_edges (rp_doc s)) (fst b) \<Longrightarrow>
    reparent_boxes styles root_id bs s = Some s"
proof (induction bs)
  case (Cons b bs)
  obtain i f where b: "b = (i, f)" by (cases b)
  have "f \<noteq> i" using Cons.prems(2) b by auto
  from reparent_box_moves [OF Cons.prems(1) refl up this] move_edge_noop [of _ _ "box_edges (rp_doc s)" b] Cons.prems(3) b
  have "reparent_box styles root_id (i, f) s = Some s" by fastforce
  then show ?case using Cons b by simp
qed simp

lemma first_element_nid:
  "same_dom d e \<Longrightarrow> map_option (map_option nid) (first_element e cs) = map_option (map_option nid) (first_element d cs)"
proof (induction cs)
  case (Cons c cs)
  show ?case
  proof (cases "nodes d c")
    case None then show ?thesis using same_dom_none [OF Cons.prems, of c] by (simp add: node_at_def)
  next
    case (Some n)
    obtain m where m: "nodes e c = Some m" "unlaid m = unlaid n" using same_dom_node [OF Cons.prems Some] by blast
    have "is_element m = is_element n" "nid m = nid n" using unlaid_fields [OF m(2)] by (simp_all add: is_element_def)
    then show ?thesis using Cons by (simp add: node_at_def Some m(1))
  qed
qed simp

lemma try_root_nid:
  assumes sd: "same_dom d e"
  shows "map_option (map_option nid) (try_root_element e) = map_option (map_option nid) (try_root_element d)"
    and "map_option nid (root_node e) = map_option nid (root_node d)"
proof -
  have r: "root_node_id e = root_node_id d" using sd unfolding same_dom_def by (metis document.simps(3) document.ext_inject document.surjective document.update_convs(3))
  show "map_option nid (root_node e) = map_option nid (root_node d)"
    using same_dom_node [OF sd, of "root_node_id d"] same_dom_none [OF sd, of "root_node_id d"]
    by (cases "nodes d (root_node_id d)") (auto simp: root_node_def node_at_def r dest: unlaid_fields)
  show "map_option (map_option nid) (try_root_element e) = map_option (map_option nid) (try_root_element d)"
  proof (cases "nodes d (root_node_id d)")
    case None then show ?thesis using same_dom_none [OF sd, of "root_node_id d"] by (simp add: try_root_element_def root_node_def node_at_def r)
  next
    case (Some n)
    obtain m where m: "nodes e (root_node_id d) = Some m" "unlaid m = unlaid n" using same_dom_node [OF sd Some] by blast
    have "children m = children n" using unlaid_fields [OF m(2)] by simp
    then show ?thesis using first_element_nid [OF sd, of "children n"] by (simp add: try_root_element_def root_node_def node_at_def r Some m(1))
  qed
qed

text \<open>C37. Out-of-flow boxes find their containing blocks.  On a layout tree whose boxes hang, as the
  document does, without a cycle, the pass returns; only layout links change, the tree stays a tree
  and holds the boxes it held.  Then every absolutely positioned box in it hangs below its
  containing block, except for those the pass leaves alone; a move is reported exactly if something
  moved, the caches of all that hangs below a moved box and of its old and new block are cleared,
  and a second run changes nothing.\<close>
theorem reparenting_settles:
  assumes ok: "nodes_ok d" and r: "try_root_element d = Some (Some r)"
    and tree: "tree_edges (parent_edges d) (left_alone styles d (nid r)) (nid r) (box_edges d)"
  shows "\<exists>s. reparent_out_of_flow_children styles d = Some s
    \<and> same_dom d (rp_doc s) \<and> nodes_ok (rp_doc s)
    \<and> acyclic (parent_edges d \<union> box_edges (rp_doc s)) \<and> single_valued (box_edges (rp_doc s))
    \<and> Domain (box_edges (rp_doc s)) = Domain (box_edges d)
    \<and> (\<forall>(b, a)\<in>out_below styles (rp_doc s) (root_node_id d). left_alone styles d (nid r) b \<or> containing_block styles d (nid r) b = Some a)
    \<and> caches_ok styles d (nid r) s
    \<and> reparent_out_of_flow_children styles (rp_doc s) = Some \<lparr> rp_doc = rp_doc s, rp_cleared = [], rp_moved = False \<rparr>"
proof -
  let ?R = "nid r" and ?top = "root_node_id d"
  let ?block = "block_of styles d ?R" and ?stays = "left_alone styles d ?R"
  let ?start = "\<lambda>e. \<lparr> rp_doc = e, rp_cleared = [], rp_moved = False \<rparr>"
  have sd: "same_dom d d" by (simp add: same_dom_def)
  have pk: "pass_ok styles d ?R d" using ok tree sd by (simp add: pass_ok_def)
  note wfs = pass_ok_wf [OF pk]
  have cb: "containing_block styles d ?R i = Some (?block i)" "?block i = ?R \<or> (i, ?block i) \<in> (parent_edges d)\<^sup>+" for i
    using containing_block_up [OF wfs(1) sd, of styles ?R i] by (auto simp: block_of_def)
  have up: "block_above (parent_edges d) ?block ?stays ?R"
    using cb(2) by (auto simp: block_above_def left_alone_def)
  have sv: "single_valued (box_edges d)" using tree by (simp add: tree_edges_def)
  obtain n where n: "nodes d ?top = Some n" "nid n = ?top"
    using r ok by (auto simp: try_root_element_def root_node_def node_at_def nodes_ok_def bind_eq_Some_conv)
  have live: "nodes d ?R \<noteq> None"
  proof -
    have "first_element d cs = Some (Some r) \<Longrightarrow> nodes d (nid r) \<noteq> None" for cs
    proof (induction cs)
      case (Cons c cs)
      then show ?case using ok by (auto simp: node_at_def nodes_ok_def bind_eq_Some_conv split: if_splits)
    qed simp
    then show ?thesis using r by (auto simp: try_root_element_def bind_eq_Some_conv)
  qed
  have run: "\<exists>bs. set bs = out_below styles e ?top \<and> reparent_out_of_flow_children styles e = reparent_boxes styles ?R bs (?start e)"
    if e: "pass_ok styles d ?R e" for e
  proof -
    have sde: "same_dom d e" using e by (simp add: pass_ok_def)
    obtain r1 where r1: "try_root_element e = Some (Some r1)" "nid r1 = ?R" using try_root_nid(1) [OF sde] r by auto
    obtain n1 where n1: "root_node e = Some n1" "nid n1 = ?top" using try_root_nid(2) [OF sde] n by (auto simp: root_node_def node_at_def)
    have l: "nodes e ?R \<noteq> None" "nodes e ?top \<noteq> None" using live n same_dom_none [OF sde] by auto
    from collect_below [OF pass_ok_wf(2) [OF e], of styles ?top] obtain bs where bs: "set bs = out_below styles e ?top"
      "\<forall>rest found. collect_out_of_flow styles e ((?top, None) # rest) found = collect_out_of_flow styles e rest (found @ bs)"
      using l(2) by fastforce
    have "collect_out_of_flow styles e [(?top, None)] [] = Some bs" using bs(2) by simp
    then show ?thesis using bs(1) r1 n1 l by (intro exI [of _ bs]) (auto simp: reparent_out_of_flow_children_def)
  qed
  have loops: "\<forall>b\<in>out_below styles e ?top. fst b \<noteq> snd b" if "pass_ok styles d ?R e" for e
    using that by (auto simp: out_below_def pass_ok_def tree_edges_def acyclic_def)
  obtain bs where bs: "set bs = out_below styles d ?top" "reparent_out_of_flow_children styles d = reparent_boxes styles ?R bs (?start d)"
    using run [OF pk] by blast
  have c0: "caches_ok styles d ?R (?start d)" by (simp add: caches_ok_def)
  from reparent_boxes_moves [OF up sv, of "?start d" bs] pk c0 loops [OF pk] bs(1) obtain s where
    s: "reparent_boxes styles ?R bs (?start d) = Some s" "pass_ok styles d ?R (rp_doc s)" "caches_ok styles d ?R s"
      "box_edges (rp_doc s) = fold (move_edge ?block ?stays) bs (box_edges d)" by auto
  let ?E = "box_edges (rp_doc s)"
  have dom: "Domain ?E = Domain (box_edges d)" unfolding s(4) by (rule fold_moves_domain)
  have edge_settled: "edge_settled ?block ?stays ?E b" if b: "(b, a) \<in> out_below styles (rp_doc s) ?top" for b a
  proof -
    have ba: "(a, ?top) \<in> ?E\<^sup>*" "(b, a) \<in> ?E" "is_absolutely_positioned (box_position styles d b)"
      using b s(2) by (auto simp: out_below_def pass_ok_def same_dom_position)
    have in_bs: "\<forall>i\<in>fst ` set bs. (i, ?top) \<in> (box_edges d)\<^sup>*"
      using bs(1) by (auto simp: out_below_def intro: converse_rtrancl_into_rtrancl)
    have "(b, ?top) \<in> ?E\<^sup>*" using ba(1,2) by (meson converse_rtrancl_into_rtrancl)
    then have "(b, ?top) \<in> (box_edges d)\<^sup>*" using fold_moves_reach [OF _ in_bs] unfolding s(4) by blast
    moreover have "b \<noteq> ?top"
    proof
      assume "b = ?top"
      then have "(b, b) \<in> ?E\<^sup>+" using ba(1,2) by (meson rtrancl_into_trancl2)
      then have "(b, b) \<in> (parent_edges d \<union> ?E)\<^sup>+" by (rule trancl_mono) blast
      then show False using s(2) by (auto simp: pass_ok_def tree_edges_def acyclic_def)
    qed
    ultimately obtain a0 where a0: "(b, a0) \<in> box_edges d" "(a0, ?top) \<in> (box_edges d)\<^sup>*" by (meson converse_rtranclE)
    then have "(b, a0) \<in> set bs" using ba(3) bs(1) by (auto simp: out_below_def)
    then show ?thesis unfolding s(4) using fold_moves_settles [OF sv] a0(1) by blast
  qed
  have placed: "\<forall>(b, a)\<in>out_below styles (rp_doc s) ?top. ?stays b \<or> containing_block styles d ?R b = Some a"
    using edge_settled cb(1) by (auto simp: edge_settled_def out_below_def)
  obtain bs2 where bs2: "set bs2 = out_below styles (rp_doc s) ?top"
    "reparent_out_of_flow_children styles (rp_doc s) = reparent_boxes styles ?R bs2 (?start (rp_doc s))"
    using run [OF s(2)] by blast
  have again: "reparent_boxes styles ?R bs2 (?start (rp_doc s)) = Some (?start (rp_doc s))"
    by (rule reparent_boxes_settled [OF up]) (use s(2) loops [OF s(2)] edge_settled bs2(1) in auto)
  show ?thesis using bs(2) s dom placed bs2(2) again by (auto simp: pass_ok_def tree_edges_def)
qed

definition ex_box :: "node_id \<Rightarrow> node_id option \<Rightarrow> node_id list \<Rightarrow> node_data \<Rightarrow> node" where
  "ex_box i p cs dat = (ex_node i p cs dat)\<lparr>layout_children := Some cs\<rparr>"

text \<open>An absolutely positioned box below a box in the flow, in a positioned one.\<close>
definition ex_boxes :: document where
  "ex_boxes = ex_document
     [(n1, ex_box n1 None [n2] (Document ex_document_data)),
      (n2, ex_box n2 (Some n1) [n3] (Element (ex_element ''html'' [] False))),
      (n3, ex_box n3 (Some n2) [n4] (Element (ex_element ''div'' [] False))),
      (n4, ex_box n4 (Some n3) [n5] (Element (ex_element ''div'' [] False))),
      (n5, ex_box n5 (Some n4) [] (Element (ex_element ''div'' [] False)))] []"

definition ex_box_styles :: box_styles where
  "ex_box_styles i = (if i = n1 then None else Some \<lparr> bs_outside = OBlock, bs_inside = Flow,
     bs_position = (if i = n3 then Relative else if i = n5 then Absolute else Static), bs_floating = False,
     bs_overflow_x = OverflowVisible, bs_overflow_y = OverflowVisible, bs_transform = False, bs_perspective = False,
     bs_filter = False, bs_contain = {}, bs_will_change = {} \<rparr>)"

lemma ex_boxes_nodes:
  "nodes ex_boxes i = (if i = n1 then Some (ex_box n1 None [n2] (Document ex_document_data))
    else if i = n2 then Some (ex_box n2 (Some n1) [n3] (Element (ex_element ''html'' [] False)))
    else if i = n3 then Some (ex_box n3 (Some n2) [n4] (Element (ex_element ''div'' [] False)))
    else if i = n4 then Some (ex_box n4 (Some n3) [n5] (Element (ex_element ''div'' [] False)))
    else if i = n5 then Some (ex_box n5 (Some n4) [] (Element (ex_element ''div'' [] False))) else None)"
  by (simp add: ex_boxes_def ex_document_def)

lemma ex_box_fields [simp]:
  "nid (ex_box i p cs dat) = i" "parent (ex_box i p cs dat) = p" "children (ex_box i p cs dat) = cs"
  "data (ex_box i p cs dat) = dat" "layout_list (ex_box i p cs dat) = cs"
  by (simp_all add: ex_box_def layout_list_def)

lemma ex_boxes_edges:
  "parent_edges ex_boxes = {(n2, n1), (n3, n2), (n4, n3), (n5, n4)}" "box_edges ex_boxes = {(n2, n1), (n3, n2), (n4, n3), (n5, n4)}"
  by (auto simp: parent_edges_def box_edges_def ex_boxes_nodes split: if_splits)

text \<open>The box goes to the positioned ancestor of its parent.\<close>
theorem reparenting_settles_witness:
  "\<exists>s. reparent_out_of_flow_children ex_box_styles ex_boxes = Some s
    \<and> map (\<lambda>i. map_option layout_list (nodes (rp_doc s) i)) [n2, n3, n4, n5] = [Some [n3], Some [n4, n5], Some [], Some []] \<and> rp_moved s
    \<and> reparent_out_of_flow_children ex_box_styles (rp_doc s) = Some \<lparr> rp_doc = rp_doc s, rp_cleared = [], rp_moved = False \<rparr>"
proof -
  let ?E = "{(n2, n1), (n3, n2), (n4, n3), (n5, n4)}"
  have dom: "dom (nodes ex_boxes) = {n1, n2, n3, n4, n5}" by (auto simp: ex_boxes_nodes split: if_splits)
  have ok: "nodes_ok ex_boxes" unfolding nodes_ok_def dom by (auto simp: ex_boxes_nodes split: if_splits)
  have r: "try_root_element ex_boxes = Some (Some (ex_box n2 (Some n1) [n3] (Element (ex_element ''html'' [] False))))"
    by (simp add: try_root_element_def root_node_def node_at_def ex_boxes_nodes is_element_def ex_boxes_def ex_document_def)
  have lt: "(x, y) \<in> ?E\<^sup>+ \<Longrightarrow> as_u64 y < as_u64 x" for x y
  proof (induction rule: trancl_induct)
    case (step y z)
    have "as_u64 z < as_u64 y" using step(2) by auto
    then show ?case using step(3) by (rule order.strict_trans)
  qed auto
  have ac: "acyclic ?E" using lt by (auto simp: acyclic_def)
  have top: "left_alone ex_box_styles ex_boxes n2 x" if "(n2, x) \<in> ?E\<^sup>+" for x
  proof -
    have "x = n1" using lt [OF that] tranclD2 [OF that] by auto
    then show ?thesis by (simp add: left_alone_def box_position_def ex_boxes_nodes ex_box_styles_def is_absolutely_positioned_def)
  qed
  have tree: "tree_edges (parent_edges ex_boxes) (left_alone ex_box_styles ex_boxes n2) n2 (box_edges ex_boxes)"
    unfolding tree_edges_def ex_boxes_edges Un_absorb using ac top by (auto simp: single_valued_def)
  obtain s where s: "reparent_out_of_flow_children ex_box_styles ex_boxes = Some s"
    "reparent_out_of_flow_children ex_box_styles (rp_doc s) = Some \<lparr> rp_doc = rp_doc s, rp_cleared = [], rp_moved = False \<rparr>"
    using reparenting_settles [OF ok r, of ex_box_styles] tree unfolding ex_box_fields by blast
  have "map_option (\<lambda>s. (map (\<lambda>i. map_option layout_list (nodes (rp_doc s) i)) [n2, n3, n4, n5], rp_moved s))
      (reparent_out_of_flow_children ex_box_styles ex_boxes) = Some ([Some [n3], Some [n4, n5], Some [], Some []], True)" by code_simp
  then show ?thesis using s by auto
qed

end
