(* ===== verification/Box_Paint_Order.thy ===== *)
theory Box_Paint_Order
  imports Box_Paint Box_Placement Dom_Queries "HOL-Library.Multiset" "HOL-Library.Sublist"
begin

text \<open>
  Every box that is not hidden is drawn once: the lists built for painting hold, between them, exactly the
  boxes of the layout tree.  The lists of a box are in painting order.
\<close>

section \<open>Drawing a list\<close>

lemma walk_Nil [simp]: "walk_boxes P ctx d [] = Some []"
  by (subst walk_boxes.simps) simp

lemma walk_Cons: "walk_boxes P ctx d (i # rest) = do {
    n \<leftarrow> node_at d i;
    drawn \<leftarrow> (if element_data n = None \<or> P n i then Some []
      else do { xs \<leftarrow> walk_boxes P ctx d (drawn_children ctx n i); Some (i # xs) });
    others \<leftarrow> walk_boxes P ctx d rest;
    Some (drawn @ others) }"
  unfolding walk_boxes.simps [of P ctx d "i # rest"] list.case by (rule refl)

lemma walk_split: "walk_boxes P ctx d (i # rest) = do { xs \<leftarrow> walk_boxes P ctx d [i]; ys \<leftarrow> walk_boxes P ctx d rest; Some (xs @ ys) }"
  by (simp add: walk_Cons bind_assoc cong: if_cong)

lemma walk_list: "walk_boxes P ctx d is =
  (if \<forall>i\<in>set is. walk_boxes P ctx d [i] \<noteq> None then Some (concat (map (\<lambda>i. the (walk_boxes P ctx d [i])) is)) else None)"
proof (induction "is")
  case (Cons i "is")
  then show ?case
    unfolding walk_split [of P ctx d i "is"] by (cases "walk_boxes P ctx d [i]") (auto split: if_splits)
qed simp

lemma walk_perm:
  assumes "mset is = mset js" "walk_boxes P ctx d is = Some xs"
  shows "\<exists>ys. walk_boxes P ctx d js = Some ys \<and> mset ys = mset xs"
proof -
  have s: "set is = set js" using assms(1) by (rule mset_eq_setD)
  have ok: "\<forall>i\<in>set is. walk_boxes P ctx d [i] \<noteq> None" and xs: "xs = concat (map (\<lambda>i. the (walk_boxes P ctx d [i])) is)"
    using assms(2) unfolding walk_list [of P ctx d "is"] by (auto split: if_splits)
  have "mset (concat (map f is)) = mset (concat (map f js))" for f :: "node_id \<Rightarrow> node_id list"
  proof -
    have "mset (concat (map f is)) = \<Sum>\<^sub># (image_mset (\<lambda>i. mset (f i)) (mset is))" for "is" by (induction "is") simp_all
    then show ?thesis using assms(1) by simp
  qed
  then show ?thesis using ok xs s walk_list [of P ctx d js] by auto
qed

lemma walk_append:
  "walk_boxes P ctx d is = Some xs \<Longrightarrow> walk_boxes P ctx d js = Some ys \<Longrightarrow> walk_boxes P ctx d (is @ js) = Some (xs @ ys)"
  unfolding walk_list [of P ctx d "is"] walk_list [of P ctx d js] walk_list [of P ctx d "is @ js"] by (auto split: if_splits)

lemma walk_concat:
  "\<forall>u\<in>set us. \<exists>xs. walk_boxes P ctx d (f u) = Some xs \<and> mset xs = mset (g u) \<Longrightarrow>
   \<exists>xs. walk_boxes P ctx d (concat (map f us)) = Some xs \<and> mset xs = mset (concat (map g us))"
proof (induction us)
  case (Cons u us)
  then obtain xs ys where "walk_boxes P ctx d (f u) = Some xs" "mset xs = mset (g u)"
    "walk_boxes P ctx d (concat (map f us)) = Some ys" "mset ys = mset (concat (map g us))" by (meson list.set_intros)
  then show ?case using walk_append by fastforce
qed simp

section \<open>The lists of a box\<close>

lemma hp_sort_perm: "mset (hp_children (hp_sort h)) = mset (hp_children h)"
  by (simp add: hp_sort_def Let_def)

lemma neg_pos_children: "neg_z_children h @ pos_z_children h = hp_children h"
  by (simp add: neg_z_children_def pos_z_children_def)

lemma takeWhile_take: "take (length (takeWhile P xs)) xs = takeWhile P xs" "drop (length (takeWhile P xs)) xs = dropWhile P xs"
  by (metis takeWhile_eq_take) (metis dropWhile_eq_drop)

text \<open>After sorting, the first part holds exactly the negative ones.\<close>
lemma hp_sort_parts:
  "(\<forall>c\<in>set (neg_z_children (hp_sort h)). hc_z c < 0) \<and> (\<forall>c\<in>set (pos_z_children (hp_sort h)). 0 \<le> hc_z c)
   \<and> sorted (map hc_z (hp_children (hp_sort h)))"
proof -
  let ?cs = "sort_key hc_z (hp_children h)"
  have s: "sorted (map hc_z ?cs)" by simp
  have neg: "neg_z_children (hp_sort h) = takeWhile (\<lambda>c. hc_z c < 0) ?cs" and pos: "pos_z_children (hp_sort h) = dropWhile (\<lambda>c. hc_z c < 0) ?cs"
    by (simp_all add: neg_z_children_def pos_z_children_def hp_sort_def Let_def takeWhile_take)
  have "\<forall>c\<in>set (dropWhile (\<lambda>c. hc_z c < 0) xs). 0 \<le> hc_z c" if "sorted (map hc_z xs)" for xs :: "'a hoisted_paint_child list"
    using that
  proof (induction xs)
    case (Cons a xs)
    then show ?case by (cases "hc_z a < 0") auto
  qed simp
  then show ?thesis unfolding neg pos using s set_takeWhileD by (fastforce simp: hp_sort_def Let_def)
qed

section \<open>Which boxes are drawn\<close>

text \<open>A layout tree as painting expects it: a box without the list of children has no painting list, and
  only boxes with a stacking context of their own have one already.  Below a box without a style
  nothing is laid out.\<close>
fun paint_ok :: "'f paint_env \<Rightarrow> document \<Rightarrow> 'f contexts \<Rightarrow> bool \<Rightarrow> tree \<Rightarrow> bool" where
  "paint_ok env d ctx own (T i ts) = (case nodes d i of
      None \<Rightarrow> False
    | Some n \<Rightarrow> (case pv_styles env i of
          None \<Rightarrow> True
        | Some s \<Rightarrow> (layout_children n = None \<longrightarrow> paint_children n = None) \<and> (\<not> own \<longrightarrow> ctx i = None)
            \<and> (\<forall>t\<in>set ts. paint_ok env d ctx (is_stacking_context_root env (is_flex_or_grid s) (root t)) t)))"

text \<open>The boxes of a tree that are to be drawn.  A box is lost when it is hidden or when what draws it is
  lost: for a box hoisted for its \<open>z-index\<close> the nearest box above it with a stacking context,
  \<open>up_lost\<close> says of it, otherwise its parent.\<close>
fun shown_boxes :: "'f paint_env \<Rightarrow> document \<Rightarrow> bool \<Rightarrow> bool \<Rightarrow> bool \<Rightarrow> tree \<Rightarrow> node_id list" where
  "shown_boxes env d own up_lost lost (T i ts) = (case (nodes d i, pv_styles env i) of
      (Some n, Some s) \<Rightarrow>
        (let flex = is_flex_or_grid s; gone = lost \<or> render_hidden env n i; up = (if own then gone else up_lost)
         in (if gone then [] else [i]) @ concat (map (\<lambda>t. shown_boxes env d (is_stacking_context_root env flex (root t)) up
               (if is_hoisted env flex (root t) then up else gone) t) ts))
    | _ \<Rightarrow> [])"

lemma subseq_concat: "\<forall>u\<in>set us. subseq (f u) (g u) \<Longrightarrow> subseq (concat (map f us)) (concat (map g us))"
  by (induction us) (simp_all add: list_emb_append_mono)

lemma distinct_subseq: "distinct ys \<Longrightarrow> subseq xs ys \<Longrightarrow> distinct xs"
  by (auto simp: subseq_conv_nths)

lemma shown_subseq: "subseq (shown_boxes env d own up_lost lost t) (preorder t)"
proof (induction t arbitrary: own up_lost lost)
  case (T i ts)
  have rest: "subseq (concat (map (\<lambda>t. shown_boxes env d (o1 t) (u1 t) (l1 t) t) ts)) (concat (map preorder ts))" for o1 u1 l1
    by (rule subseq_concat) (simp add: T.IH)
  show ?case
    by (cases "nodes d i"; cases "pv_styles env i")
      (auto simp: Let_def list_emb_Nil intro: rest list_emb_Cons simp del: subseq_Cons2_iff intro!: list_emb_Cons2 [OF _ rest])
qed

text \<open>When nothing is hidden, all are.\<close>
lemma shown_all:
  "\<forall>i\<in>set (preorder t). \<exists>n. nodes d i = Some n \<and> \<not> render_hidden env n i \<Longrightarrow> shown_boxes env d own False False t = preorder t"
proof (induction t arbitrary: own)
  case (T i ts)
  then obtain n where n: "nodes d i = Some n" "\<not> render_hidden env n i" by auto
  then obtain s where s: "pv_styles env i = Some s" by (cases "pv_styles env i") (auto simp: render_hidden_def)
  have "shown_boxes env d o1 False False u = preorder u" if "u \<in> set ts" for u o1 using T that by auto
  then show ?case using n s by (simp add: Let_def cong: map_cong)
qed

text \<open>The same from below: what drawing the root of a tree draws, and what its hoisted boxes do.\<close>
fun layers :: "'f paint_env \<Rightarrow> document \<Rightarrow> bool \<Rightarrow> tree \<Rightarrow> node_id list \<times> node_id list" where
  "layers env d own (T i ts) = (case (nodes d i, pv_styles env i) of
      (Some n, Some s) \<Rightarrow>
        (let flex = is_flex_or_grid s;
             flow = concat (map (\<lambda>t. if is_hoisted env flex (root t) then [] else fst (layers env d (is_stacking_context_root env flex (root t)) t)) ts);
             up = concat (map (\<lambda>t. if is_hoisted env flex (root t) then fst (layers env d (is_stacking_context_root env flex (root t)) t) else []) ts)
               @ concat (map (\<lambda>t. snd (layers env d (is_stacking_context_root env flex (root t)) t)) ts)
         in ((if render_hidden env n i then [] else i # flow @ (if own then up else [])), (if own then [] else up)))
    | _ \<Rightarrow> ([], []))"

lemma mset_concat_sum: "mset (concat (map f us)) = (\<Sum>u\<leftarrow>us. mset (f u))"
  by (induction us) simp_all

lemma shown_layers:
  "mset (shown_boxes env d own up_lost lost t) =
     (if lost then {#} else mset (fst (layers env d own t))) + (if up_lost then {#} else mset (snd (layers env d own t)))"
proof (induction t arbitrary: own up_lost lost)
  case (T i ts)
  show ?case
  proof (cases "nodes d i = None \<or> pv_styles env i = None")
    case True then show ?thesis by (auto split: option.splits)
  next
    case False
    then obtain n s where ns: "nodes d i = Some n" "pv_styles env i = Some s" by auto
    let ?flex = "is_flex_or_grid s"
    let ?h = "\<lambda>t. is_hoisted env ?flex (root t)" and ?l = "\<lambda>t. layers env d (is_stacking_context_root env ?flex (root t)) t"
    have kids: "mset (concat (map (\<lambda>t. shown_boxes env d (is_stacking_context_root env ?flex (root t)) up (if ?h t then up else gone) t) ts))
       = (if gone then {#} else mset (concat (map (\<lambda>t. if ?h t then [] else fst (?l t)) ts)))
       + (if up then {#} else mset (concat (map (\<lambda>t. if ?h t then fst (?l t) else []) ts)) + mset (concat (map (\<lambda>t. snd (?l t)) ts)))" for up gone
      using T.IH by (induction ts) (simp_all add: ac_simps)
    show ?thesis by (simp add: ns Let_def kids comp_def ac_simps)
  qed
qed

section \<open>Flushing a tree\<close>

definition agrees :: "node_id set \<Rightarrow> document \<times> 'f contexts \<Rightarrow> document \<times> 'f contexts \<Rightarrow> bool" where
  "agrees X a b \<longleftrightarrow> (\<forall>i\<in>X. nodes (fst a) i = nodes (fst b) i \<and> snd a i = snd b i)"

abbreviation "ps_view s \<equiv> (ps_doc s, ps_contexts s)"

text \<open>A node but for its painting list and the order of its boxes, and a document but for those.\<close>
definition same_but_lists :: "node \<Rightarrow> node \<Rightarrow> bool" where
  "same_but_lists n m \<longleftrightarrow> m\<lparr>layout_children := layout_children n, paint_children := paint_children n\<rparr> = n
     \<and> rel_option (\<lambda>cs cs1. mset cs1 = mset cs) (layout_children n) (layout_children m)"

definition lists_only :: "document \<Rightarrow> document \<Rightarrow> bool" where
  "lists_only d d1 \<longleftrightarrow> d1\<lparr>nodes := nodes d\<rparr> = d \<and> (\<forall>i. rel_option same_but_lists (nodes d i) (nodes d1 i))"

lemma same_but_lists_refl [simp]: "same_but_lists n n"
  by (simp add: same_but_lists_def option.rel_refl)

lemma same_but_lists_trans: "same_but_lists a b \<Longrightarrow> same_but_lists b c \<Longrightarrow> same_but_lists a c"
proof -
  assume ab: "same_but_lists a b" and bc: "same_but_lists b c"
  have "c\<lparr>layout_children := layout_children a, paint_children := paint_children a\<rparr>
      = c\<lparr>layout_children := layout_children b, paint_children := paint_children b, layout_children := layout_children a, paint_children := paint_children a\<rparr>" by simp
  also have "\<dots> = a" using ab bc unfolding same_but_lists_def by simp
  finally have "c\<lparr>layout_children := layout_children a, paint_children := paint_children a\<rparr> = a" .
  moreover have "rel_option (\<lambda>cs cs1. mset cs1 = mset cs) (layout_children a) (layout_children c)"
    using ab bc unfolding same_but_lists_def
    by (cases "layout_children a"; cases "layout_children b"; cases "layout_children c") auto
  ultimately show "same_but_lists a c" by (simp add: same_but_lists_def)
qed

lemma lists_only_refl [simp]: "lists_only d d"
  by (simp add: lists_only_def option.rel_refl)

lemma lists_only_trans: "lists_only a b \<Longrightarrow> lists_only b c \<Longrightarrow> lists_only a c"
proof -
  assume ab: "lists_only a b" and bc: "lists_only b c"
  have "rel_option same_but_lists (nodes a i) (nodes c i)" for i
  proof -
    have "rel_option same_but_lists (nodes a i) (nodes b i)" "rel_option same_but_lists (nodes b i) (nodes c i)"
      using ab bc by (simp_all add: lists_only_def)
    then show ?thesis by (cases "nodes a i"; cases "nodes b i"; cases "nodes c i") (auto intro: same_but_lists_trans)
  qed
  moreover have "c\<lparr>nodes := nodes a\<rparr> = a" using ab bc unfolding lists_only_def by (cases a; cases b; cases c) auto
  ultimately show "lists_only a c" by (simp add: lists_only_def)
qed

abbreviation "starts us \<equiv> map (\<lambda>u. (root (fst u), snd u)) us"
abbreviation "members us \<equiv> set (concat (map (\<lambda>u. preorder (fst u)) us))"

text \<open>What flushing trees achieves: it returns, keeps to the trees and to the lists, each root draws what
  it should, and so do the boxes hoisted further up.\<close>
definition flushes :: "('f::{linorder, zero, plus, minus}) paint_env \<Rightarrow> document \<Rightarrow> (tree \<times> bool) list
    \<Rightarrow> 'f paint_state \<Rightarrow> 'f hoisted_paint_child list \<Rightarrow> 'f paint_state \<Rightarrow> bool" where
  "flushes env d us s hs s1 \<longleftrightarrow>
     (\<forall>rest. flush_boxes env (starts us @ rest) s = flush_boxes env rest s1)
   \<and> ps_hoisted s1 = ps_hoisted s @ hs
   \<and> agrees (- members us) (ps_view s1) (ps_view s) \<and> lists_only (ps_doc s) (ps_doc s1)
   \<and> (\<forall>a. agrees (members us) a (ps_view s1) \<longrightarrow>
        (\<forall>u\<in>set us. \<exists>xs. draw_nodes env (snd a) (fst a) [root (fst u)] = Some xs \<and> mset xs = mset (fst (layers env d (snd u) (fst u))))
      \<and> (\<exists>ys. draw_nodes env (snd a) (fst a) (map hc_node hs) = Some ys \<and> mset ys = mset (concat (map (\<lambda>u. snd (layers env d (snd u) (fst u))) us))))"

lemma flush_Nil [simp]: "flush_boxes env [] s = Some s"
  by (subst flush_boxes.simps) simp

lemma flush_Cons: "flush_boxes env (b # rest) s = do {
    n \<leftarrow> node_at (ps_doc s) (fst b);
    s1 \<leftarrow> (case pv_styles env (fst b) of
        None \<Rightarrow> Some s
      | Some style \<Rightarrow> do {
          s2 \<leftarrow> (case layout_children n of
              None \<Rightarrow> Some (s\<lparr>ps_hoisted := []\<rparr>)
            | Some cs \<Rightarrow> do {
                s3 \<leftarrow> flush_boxes env (map (\<lambda>c. (c, is_stacking_context_root env (is_flex_or_grid style) c)) cs)
                  (s\<lparr>ps_doc := update_node (fst b) (\<lambda>n. n\<lparr>layout_children := None\<rparr>) (ps_doc s), ps_hoisted := []\<rparr>);
                Some (place_children env (is_flex_or_grid style) (fst b) cs s3) });
          Some (settle_hoisted env (fst b) (snd b) (ps_hoisted s) s2) });
    flush_boxes env rest s1 }"
  unfolding flush_boxes.simps [of env "b # rest"] list.case by (rule refl)

lemma agrees_paint_trans: "agrees X a b \<Longrightarrow> agrees X b c \<Longrightarrow> agrees X a c"
  by (simp add: agrees_def)

lemma agrees_subset: "agrees Y a b \<Longrightarrow> X \<subseteq> Y \<Longrightarrow> agrees X a b"
  by (auto simp: agrees_def)

lemma flushes_append:
  assumes a: "flushes env d us s hs s1" and b: "flushes env d vs s1 hs' s2" and disj: "members us \<inter> members vs = {}"
  shows "flushes env d (us @ vs) s (hs @ hs') s2"
proof -
  let ?flow = "\<lambda>u. fst (layers env d (snd u) (fst u))" and ?up = "\<lambda>u. snd (layers env d (snd u) (fst u))"
  have "(\<forall>u\<in>set (us @ vs). \<exists>xs. draw_nodes env (snd v) (fst v) [root (fst u)] = Some xs \<and> mset xs = mset (?flow u))
      \<and> (\<exists>ys. draw_nodes env (snd v) (fst v) (map hc_node (hs @ hs')) = Some ys \<and> mset ys = mset (concat (map ?up (us @ vs))))"
    if v: "agrees (members (us @ vs)) v (ps_view s2)" for v
  proof -
    have "agrees (members vs) v (ps_view s2)" using v by (rule agrees_subset) simp
    then have dv: "\<forall>u\<in>set vs. \<exists>xs. draw_nodes env (snd v) (fst v) [root (fst u)] = Some xs \<and> mset xs = mset (?flow u)"
      "\<exists>ys. draw_nodes env (snd v) (fst v) (map hc_node hs') = Some ys \<and> mset ys = mset (concat (map ?up vs))"
      using b unfolding flushes_def by blast+
    have "agrees (- members vs) (ps_view s2) (ps_view s1)" using b unfolding flushes_def by blast
    then have "agrees (members us) (ps_view s2) (ps_view s1)" by (rule agrees_subset) (use disj in blast)
    moreover have "agrees (members us) v (ps_view s2)" using v by (rule agrees_subset) simp
    ultimately have "agrees (members us) v (ps_view s1)" by (rule agrees_paint_trans [rotated])
    then have du: "\<forall>u\<in>set us. \<exists>xs. draw_nodes env (snd v) (fst v) [root (fst u)] = Some xs \<and> mset xs = mset (?flow u)"
      "\<exists>ys. draw_nodes env (snd v) (fst v) (map hc_node hs) = Some ys \<and> mset ys = mset (concat (map ?up us))"
      using a unfolding flushes_def by blast+
    show ?thesis using du dv unfolding draw_nodes_def by (fastforce dest: walk_append)
  qed
  moreover have "agrees (- members (us @ vs)) (ps_view s2) (ps_view s)"
    using a b unfolding flushes_def by (auto simp: agrees_def)
  moreover have "lists_only (ps_doc s) (ps_doc s2)" using a b unfolding flushes_def by (blast intro: lists_only_trans)
  ultimately show ?thesis using a b unfolding flushes_def by simp
qed

lemma place_children_fields:
  "ps_contexts (place_children env flex i cs s) = ps_contexts s"
  "ps_doc (place_children env flex i cs s) = update_node i (\<lambda>n. n\<lparr>
        paint_children := Some (sort_key (node_to_paint_order env flex) (filter (\<lambda>c. \<not> is_hoisted env flex c) (if flex then sort_key (node_order env) cs else cs))),
        layout_children := Some (if flex then sort_key (node_order env) cs else cs)\<rparr>) (ps_doc s)"
  "ps_hoisted (place_children env flex i cs s) = ps_hoisted s @ map (hoisted_child env) (filter (is_hoisted env flex) (if flex then sort_key (node_order env) cs else cs))"
  by (simp_all add: place_children_def Let_def)

lemma settle_fields:
  "ps_doc (settle_hoisted env i own outer s) = ps_doc s"
  "ps_contexts (settle_hoisted env i own outer s) j = (if own \<and> j = i then Some (compute_content_size env (hp_sort
      \<lparr> hp_children = ps_hoisted s, hp_negative = 0, hp_area = rect_zero \<rparr>)) else ps_contexts s j)"
  "ps_hoisted (settle_hoisted env i own outer s) = outer @ (if own then [] else map (shift_hoisted env i) (ps_hoisted s))"
  by (simp_all add: settle_hoisted_def)

lemma content_size_parts:
  "neg_z_children (compute_content_size env h) = neg_z_children h" "pos_z_children (compute_content_size env h) = pos_z_children h"
  by (simp_all add: compute_content_size_def neg_z_children_def pos_z_children_def)

lemma hoisted_nodes [simp]:
  "map hc_node (map (hoisted_child env) cs) = cs" "map hc_node (map (shift_hoisted env i) hs) = map hc_node hs"
  by (simp_all add: hoisted_child_def shift_hoisted_def comp_def)

abbreviation "listed x \<equiv> case x of None \<Rightarrow> [] | Some ys \<Rightarrow> ys"

text \<open>The last steps for a box: it draws itself, what it paints in place and, in its own context, what is
  hoisted to it, unless it is hidden.\<close>
lemma settle_draws:
  assumes i: "nodes (fst a) i = Some n"
    and ctx: "snd a i = (if own then Some (compute_content_size env (hp_sort \<lparr> hp_children = hs, hp_negative = 0, hp_area = ar \<rparr>)) else None)"
    and f: "draw_nodes env (snd a) (fst a) (listed (paint_children n)) = Some xs"
    and u: "draw_nodes env (snd a) (fst a) (map hc_node hs) = Some ys"
  shows "\<exists>zs. draw_nodes env (snd a) (fst a) [i] = Some zs
    \<and> mset zs = (if render_hidden env n i then {#} else mset (i # xs @ (if own then ys else [])))"
proof -
  have el: "element_data n = None \<Longrightarrow> render_hidden env n i" by (simp add: render_hidden_def split: option.split)
  have "\<exists>zs. walk_boxes (render_hidden env) (snd a) (fst a) (drawn_children (snd a) n i) = Some zs \<and> mset zs = mset (xs @ (if own then ys else []))"
  proof (cases own)
    case True
    let ?h = "\<lparr> hp_children = hs, hp_negative = 0, hp_area = ar \<rparr>"
    have "mset (map hc_node (neg_z_children (hp_sort ?h)) @ map hc_node (pos_z_children (hp_sort ?h))) = mset (map hc_node hs)"
      unfolding map_append [symmetric] neg_pos_children using hp_sort_perm [of ?h] by (metis hoisted_paint_children.select_convs(1) mset_map)
    then have "mset (listed (paint_children n) @ map hc_node hs) = mset (drawn_children (snd a) n i)"
      using ctx True by (simp add: drawn_children_def hoisted_of_def content_size_parts ac_simps)
    from walk_perm [OF this walk_append [OF f [unfolded draw_nodes_def] u [unfolded draw_nodes_def]]] True show ?thesis by simp
  next
    case False
    then show ?thesis using ctx f by (simp add: drawn_children_def hoisted_of_def draw_nodes_def)
  qed
  then show ?thesis using i el by (auto simp: draw_nodes_def walk_Cons node_at_def)
qed

lemma hidden_upd [simp]:
  "element_data (n\<lparr>paint_children := p\<rparr>) = element_data n" "element_data (n\<lparr>layout_children := l\<rparr>) = element_data n"
  "render_hidden env (n\<lparr>paint_children := p\<rparr>) i = render_hidden env n i"
  "render_hidden env (n\<lparr>layout_children := l\<rparr>) i = render_hidden env n i"
  by (simp_all add: element_data_def render_hidden_def)

lemma flush_unstyled:
  assumes n: "nodes d i = Some n" and st: "pv_styles env i = None" and a: "agrees (set (preorder (T i ts))) (ps_view s) (d, ctx)"
  shows "flushes env d [(T i ts, own)] s [] s"
proof -
  have i: "nodes (ps_doc s) i = Some n" using a n by (simp add: agrees_def)
  have h: "render_hidden env n i" using st by (simp add: render_hidden_def)
  have "draw_nodes env (snd v) (fst v) [i] = Some []" if "agrees (set (preorder (T i ts))) v (ps_view s)" for v
    using that i h by (simp add: agrees_def draw_nodes_def walk_Cons node_at_def)
  then show ?thesis using i st n by (simp add: flushes_def flush_Cons node_at_def agrees_def draw_nodes_def)
qed

lemma flush_childless:
  assumes n: "nodes d i = Some n" "layout_children n = None" "paint_children n = None" and st: "pv_styles env i = Some style"
    and own: "\<not> own \<longrightarrow> ctx i = None" and a: "agrees {i} (ps_view s) (d, ctx)"
  shows "\<exists>s1. flushes env d [(T i [], own)] s [] s1"
proof -
  let ?s1 = "settle_hoisted env i own (ps_hoisted s) (s\<lparr>ps_hoisted := []\<rparr>)"
  have i: "nodes (ps_doc s) i = Some n" "ps_contexts s i = ctx i" using a n by (simp_all add: agrees_def)
  have dr: "\<exists>xs. draw_nodes env (snd v) (fst v) [i] = Some xs \<and> mset xs = mset (fst (layers env d own (T i [])))"
    if v: "agrees {i} v (ps_view ?s1)" for v
  proof -
    have "nodes (fst v) i = Some n" "snd v i = (if own then Some (compute_content_size env (hp_sort
        \<lparr> hp_children = [], hp_negative = 0, hp_area = rect_zero \<rparr>)) else None)"
      using v i own by (auto simp: agrees_def settle_fields)
    from settle_draws [OF this, where xs = "[]" and ys = "[]"] show ?thesis using n st by (fastforce simp: draw_nodes_def Let_def)
  qed
  have "flushes env d [(T i [], own)] s [] ?s1"
    using i st n dr by (simp add: flushes_def flush_Cons node_at_def settle_fields agrees_def) (simp add: draw_nodes_def Let_def)
  then show ?thesis by blast
qed

text \<open>The box's own list and those of its children.\<close>
lemma lists_only_parent:
  assumes i: "nodes d i = Some n" "layout_children n = Some cs" and k: "lists_only (update_node i (\<lambda>n. n\<lparr>layout_children := None\<rparr>) d) d3"
    and n3: "nodes d3 i = Some (n\<lparr>layout_children := None\<rparr>)" and ms: "mset cs1 = mset cs"
  shows "lists_only d (update_node i (\<lambda>n. n\<lparr>paint_children := p, layout_children := Some cs1\<rparr>) d3)"
proof -
  have "rel_option same_but_lists (nodes d j) (nodes (update_node i (\<lambda>n. n\<lparr>paint_children := p, layout_children := Some cs1\<rparr>) d3) j)" for j
  proof (cases "j = i")
    case True
    have "same_but_lists n (n\<lparr>layout_children := None, paint_children := p, layout_children := Some cs1\<rparr>)"
      using i(2) ms by (cases n) (simp add: same_but_lists_def)
    then show ?thesis using True i(1) n3 by simp
  next
    case False
    have "rel_option same_but_lists (nodes (update_node i (\<lambda>n. n\<lparr>layout_children := None\<rparr>) d) j) (nodes d3 j)"
      using k unfolding lists_only_def by blast
    then show ?thesis using False by simp
  qed
  moreover have "(update_node i f d3)\<lparr>nodes := nodes d\<rparr> = d" for f
    using k by (cases d; cases d3) (simp add: lists_only_def update_node_def split: option.splits)
  ultimately show ?thesis by (simp add: lists_only_def)
qed

lemma flush_parent:
  fixes env :: "('f::{linorder, zero, plus, minus}) paint_env"
  assumes n: "nodes d i = Some n" "layout_children n = Some (map root ts)" and st: "pv_styles env i = Some style"
    and own: "\<not> own \<longrightarrow> ctx i = None" and a: "agrees (set (preorder (T i ts))) (ps_view s) (d, ctx)" and i: "i \<notin> set (concat (map preorder ts))"
    and kids: "\<And>s'. agrees (set (concat (map preorder ts))) (ps_view s') (d, ctx) \<Longrightarrow> \<exists>hs s3. flushes env d
       (map (\<lambda>u. (u, is_stacking_context_root env (is_flex_or_grid style) (root u))) ts) s' hs s3"
  shows "\<exists>hs s1. flushes env d [(T i ts, own)] s hs s1 \<and> (own \<longrightarrow> hs = [])"
proof -
  let ?flex = "is_flex_or_grid style" and ?cs = "map root ts" and ?Y = "set (concat (map preorder ts))"
  let ?own = "\<lambda>u. is_stacking_context_root env ?flex (root u)"
  let ?us = "map (\<lambda>u. (u, ?own u)) ts" and ?h = "\<lambda>u. is_hoisted env ?flex (root u)" and ?l = "\<lambda>u. layers env d (?own u) u"
  let ?s' = "s\<lparr>ps_doc := update_node i (\<lambda>n. n\<lparr>layout_children := None\<rparr>) (ps_doc s), ps_hoisted := []\<rparr>"
  have si: "nodes (ps_doc s) i = Some n" "ps_contexts s i = ctx i" using a n by (simp_all add: agrees_def)
  have "agrees ?Y (ps_view ?s') (d, ctx)" using a i by (auto simp: agrees_def)
  from kids [OF this] obtain hs s3 where k: "flushes env d ?us ?s' hs s3" by blast
  have mem: "members ?us = ?Y" by (simp add: comp_def)
  have f3: "flush_boxes env (map (\<lambda>c. (c, is_stacking_context_root env ?flex c)) ?cs) ?s' = Some s3"
  proof -
    have "flush_boxes env (starts ?us @ []) ?s' = flush_boxes env [] s3" using k unfolding flushes_def by blast
    then show ?thesis by (simp add: comp_def)
  qed
  have h3: "ps_hoisted s3 = hs" and out3: "agrees (- ?Y) (ps_view s3) (ps_view ?s')" and lo: "lists_only (ps_doc ?s') (ps_doc s3)"
    using k unfolding flushes_def mem by simp_all
  have n3: "nodes (ps_doc s3) i = Some (n\<lparr>layout_children := None\<rparr>)" "ps_contexts s3 i = ctx i"
    using out3 i si by (simp_all add: agrees_def)
  let ?s4 = "place_children env ?flex i ?cs s3"
  let ?s1 = "settle_hoisted env i own (ps_hoisted s) ?s4"
  let ?cs1 = "if ?flex then sort_key (node_order env) ?cs else ?cs"
  let ?paint = "sort_key (node_to_paint_order env ?flex) (filter (\<lambda>c. \<not> is_hoisted env ?flex c) ?cs1)"
  let ?hs1 = "hs @ map (hoisted_child env) (filter (is_hoisted env ?flex) ?cs1)"
  let ?new = "if own then [] else map (shift_hoisted env i) ?hs1"
  let ?n1 = "n\<lparr>layout_children := None, paint_children := Some ?paint, layout_children := Some ?cs1\<rparr>"
  have "(\<exists>zs. draw_nodes env (snd v) (fst v) [i] = Some zs \<and> mset zs = mset (fst (layers env d own (T i ts))))
    \<and> (\<exists>ys. draw_nodes env (snd v) (fst v) (map hc_node ?new) = Some ys \<and> mset ys = mset (snd (layers env d own (T i ts))))"
    if v: "agrees (set (preorder (T i ts))) v (ps_view ?s1)" for v
  proof -
    let ?draw = "walk_boxes (render_hidden env) (snd v) (fst v)"
    have "agrees ?Y v (ps_view s3)" using v i by (auto simp: agrees_def settle_fields place_children_fields)
    then have kid: "\<forall>u\<in>set ts. \<exists>xs. ?draw [root u] = Some xs \<and> mset xs = mset (fst (?l u))"
      and up: "\<exists>ys. ?draw (map hc_node hs) = Some ys \<and> mset ys = mset (concat (map (\<lambda>u. snd (?l u)) ts))"
      using k unfolding flushes_def mem draw_nodes_def by (auto simp: comp_def)
    have cc: "filter P ?cs = concat (map (\<lambda>u. if P (root u) then [root u] else []) ts)" for P by (induction ts) simp_all
    have part: "\<exists>xs. ?draw (filter P ?cs) = Some xs \<and> mset xs = mset (concat (map (\<lambda>u. if P (root u) then fst (?l u) else []) ts))" for P
      unfolding cc by (rule walk_concat) (use kid in auto)
    have mf: "mset (filter P ?cs1) = mset (filter P ?cs)" for P by (simp add: mset_filter)
    obtain xs where xs: "?draw ?paint = Some xs" "mset xs = mset (concat (map (\<lambda>u. if \<not> ?h u then fst (?l u) else []) ts))"
    proof -
      have "mset (filter (\<lambda>c. \<not> is_hoisted env ?flex c) ?cs) = mset ?paint" by (simp only: mset_sort mf)
      from walk_perm [OF this] part [of "\<lambda>c. \<not> is_hoisted env ?flex c"] that show ?thesis by fastforce
    qed
    obtain ys where ys: "?draw (filter (is_hoisted env ?flex) ?cs1) = Some ys" "mset ys = mset (concat (map (\<lambda>u. if ?h u then fst (?l u) else []) ts))"
      using part [of "is_hoisted env ?flex"] walk_perm [OF mf [of "is_hoisted env ?flex", symmetric]] that by fastforce
    obtain zs where zs: "?draw (map hc_node hs) = Some zs" "mset zs = mset (concat (map (\<lambda>u. snd (?l u)) ts))" using up by blast
    have hoist: "draw_nodes env (snd v) (fst v) (map hc_node ?hs1) = Some (zs @ ys)"
      using walk_append [OF zs(1) ys(1)] by (simp add: draw_nodes_def comp_def hoisted_child_def)
    have vi: "nodes (fst v) i = Some ?n1" "snd v i = (if own then Some (compute_content_size env (hp_sort
        \<lparr> hp_children = ?hs1, hp_negative = 0, hp_area = rect_zero \<rparr>)) else None)"
      using v n3 own by (simp_all add: agrees_def settle_fields place_children_fields h3)
    have "draw_nodes env (snd v) (fst v) (listed (paint_children ?n1)) = Some xs" using xs(1) by (simp add: draw_nodes_def)
    from settle_draws [OF vi this hoist] obtain ws where ws: "draw_nodes env (snd v) (fst v) [i] = Some ws"
      "mset ws = (if render_hidden env ?n1 i then {#} else mset (i # xs @ (if own then zs @ ys else [])))" by blast
    have "mset (concat (map (\<lambda>u. if \<not> ?h u then fst (?l u) else []) ts)) = mset (concat (map (\<lambda>u. if ?h u then [] else fst (?l u)) ts))"
      by (metis (no_types, lifting))
    then have "mset ws = mset (fst (layers env d own (T i ts)))" using ws(2) xs(2) ys(2) zs(2) n st by (simp add: Let_def comp_def ac_simps)
    moreover have "map hc_node ?new = (if own then [] else map hc_node ?hs1)" by (simp add: comp_def shift_hoisted_def)
    ultimately show ?thesis using ws(1) hoist ys(2) zs(2) n st by (auto simp: Let_def comp_def draw_nodes_def ac_simps)
  qed
  moreover have "flush_boxes env ((i, own) # rest) s = flush_boxes env rest ?s1" for rest using f3 si st n(2) by (simp add: flush_Cons node_at_def)
  moreover have "ps_hoisted ?s1 = ps_hoisted s @ ?new" by (simp add: settle_fields place_children_fields h3)
  moreover have "agrees (- set (preorder (T i ts))) (ps_view ?s1) (ps_view s)"
    using out3 by (simp add: agrees_def settle_fields place_children_fields)
  moreover have "lists_only (ps_doc s) (ps_doc ?s1)"
    unfolding settle_fields place_children_fields by (rule lists_only_parent [OF si(1) n(2) _ n3(1)]) (use lo in simp_all)
  ultimately have "flushes env d [(T i ts, own)] s ?new ?s1" unfolding flushes_def by simp
  then show ?thesis by (intro exI [of _ ?new] exI [of _ ?s1]) simp
qed

lemma flush_tree:
  "layout_represents d t \<Longrightarrow> distinct (preorder t) \<Longrightarrow> paint_ok env d ctx own t \<Longrightarrow> agrees (set (preorder t)) (ps_view s) (d, ctx) \<Longrightarrow>
   \<exists>hs s1. flushes env d [(t, own)] s hs s1 \<and> (own \<longrightarrow> hs = [])"
proof (induction t arbitrary: own s)
  case (T i ts)
  obtain n where n: "nodes d i = Some n" "listed (layout_children n) = map root ts"
    "\<forall>t\<in>set ts. layout_represents d t" using T.prems(1) by (auto split: option.splits)
  show ?case
  proof (cases "pv_styles env i")
    case None
    from flush_unstyled [OF n(1) this T.prems(4)] show ?thesis by blast
  next
    case (Some style)
    let ?own = "\<lambda>u. is_stacking_context_root env (is_flex_or_grid style) (root u)"
    have p: "layout_children n = None \<longrightarrow> paint_children n = None" "\<not> own \<longrightarrow> ctx i = None"
      "\<forall>t\<in>set ts. paint_ok env d ctx (?own t) t" using T.prems(3) n(1) Some by simp_all
    have kids: "\<exists>hs s3. flushes env d (map (\<lambda>u. (u, ?own u)) us) s' hs s3"
      if "set us \<subseteq> set ts" "distinct (concat (map preorder us))" "agrees (set (concat (map preorder us))) (ps_view s') (d, ctx)" for us s'
      using that
    proof (induction us arbitrary: s')
      case Nil
      have "flushes env d [] s' [] s'" by (simp add: flushes_def agrees_def draw_nodes_def)
      then show ?case by auto
    next
      case (Cons u us)
      have u: "u \<in> set ts" "distinct (preorder u)" "layout_represents d u" "paint_ok env d ctx (?own u) u" using Cons.prems n(3) p(3) by auto
      have "agrees (set (preorder u)) (ps_view s') (d, ctx)" using Cons.prems(3) by (rule agrees_subset) simp
      from T.IH [OF u(1,3,2,4) this] obtain h1 s1 where f1: "flushes env d [(u, ?own u)] s' h1 s1" by blast
      have disj: "members [(u, ?own u)] \<inter> members (map (\<lambda>u. (u, ?own u)) us) = {}" using Cons.prems(2) by (simp add: comp_def)
      have "agrees (- set (preorder u)) (ps_view s1) (ps_view s')" using f1 by (simp add: flushes_def)
      then have "agrees (set (concat (map preorder us))) (ps_view s1) (ps_view s')" by (rule agrees_subset) (use Cons.prems(2) in auto)
      moreover have "agrees (set (concat (map preorder us))) (ps_view s') (d, ctx)" using Cons.prems(3) by (rule agrees_subset) simp
      ultimately have "agrees (set (concat (map preorder us))) (ps_view s1) (d, ctx)" by (rule agrees_paint_trans)
      then obtain h2 s2 where f2: "flushes env d (map (\<lambda>u. (u, ?own u)) us) s1 h2 s2" using Cons.IH [of s1] Cons.prems by auto
      from flushes_append [OF f1 f2 disj] show ?case by auto
    qed
    show ?thesis
    proof (cases "layout_children n")
      case None
      then have ts: "ts = []" using n(2) by simp
      have "agrees {i} (ps_view s) (d, ctx)" using T.prems(4) ts by simp
      from flush_childless [where own = own and ctx = ctx, OF n(1) None p(1) [rule_format, OF None] Some p(2) this] show ?thesis using ts by blast
    next
      case cs: (Some cs)
      have i: "i \<notin> set (concat (map preorder ts))" and dt: "distinct (concat (map preorder ts))" using T.prems(2) by simp_all
      have c: "layout_children n = Some (map root ts)" using n(2) cs by simp
      show ?thesis
        by (rule flush_parent [where own = own and ctx = ctx, OF n(1) c Some p(2) T.prems(4) i]) (rule kids [OF subset_refl dt])
    qed
  qed
qed

text \<open>C39. Every box that is not hidden is drawn once.  After the lists for painting are built for a layout
  tree, drawing its root returns and draws, each once, exactly the boxes that neither are hidden
  nor depend on a hidden box for being drawn, whatever is hoisted to a stacking context for its
  \<open>z-index\<close>.  A box is hidden by \<open>display: none\<close>, no style, \<open>type=hidden\<close> on an input, \<open>visibility\<close> other
  than visible, \<open>opacity: 0\<close>, or by being out of view.  Building the lists changes no node but
  in its painting list and the order of its boxes, and nothing outside the tree.  A
  box that lost its stacking context must not have one left.\<close>
theorem every_box_drawn_once:
  assumes t: "layout_represents d t" "distinct (preorder t)" and ok: "paint_ok env d ctx True t"
  shows "\<exists>d1 ctx1 xs. flush_styles_to_layout env (root t) (d, ctx) = Some (d1, ctx1)
    \<and> draw_nodes env ctx1 d1 [root t] = Some xs \<and> distinct xs \<and> mset xs = mset (shown_boxes env d True False False t)
    \<and> lists_only d d1 \<and> (\<forall>i. i \<notin> set (preorder t) \<longrightarrow> nodes d1 i = nodes d i \<and> ctx1 i = ctx i)"
proof -
  let ?s = "\<lparr> ps_doc = d, ps_contexts = ctx, ps_hoisted = [] \<rparr>"
  have "agrees (set (preorder t)) (ps_view ?s) (d, ctx)" by (simp add: agrees_def)
  from flush_tree [OF t ok this] obtain s1 where f: "flushes env d [(t, True)] ?s [] s1" by auto
  have "flush_boxes env ([(root t, True)] @ []) ?s = flush_boxes env [] s1" using f unfolding flushes_def by fastforce
  then have run: "flush_styles_to_layout env (root t) (d, ctx) = Some (ps_doc s1, ps_contexts s1)" by (simp add: flush_styles_to_layout_def)
  obtain xs where xs: "draw_nodes env (ps_contexts s1) (ps_doc s1) [root t] = Some xs" "mset xs = mset (fst (layers env d True t))"
    using f unfolding flushes_def by (fastforce simp: agrees_def)
  have "snd (layers env d True t) = []" by (cases t) (simp split: option.split add: Let_def)
  then have ms: "mset xs = mset (shown_boxes env d True False False t)" using xs(2) by (simp add: shown_layers)
  have "distinct (shown_boxes env d True False False t)" using t(2) shown_subseq by (rule distinct_subseq)
  then have "distinct xs" using ms by (metis mset_eq_imp_distinct_iff)
  moreover have "lists_only d (ps_doc s1)" "\<forall>i. i \<notin> set (preorder t) \<longrightarrow> nodes (ps_doc s1) i = nodes d i \<and> ps_contexts s1 i = ctx i"
    using f by (simp_all add: flushes_def agrees_def)
  ultimately show ?thesis using run xs(1) ms by blast
qed

text \<open>Two boxes in one, the inner of which is positioned with a \<open>z-index\<close>.\<close>
definition ex_layers :: document where
  "ex_layers = ex_document
     [(n1, ex_box n1 None [n2] (Element (ex_element ''div'' [] False))),
      (n2, ex_box n2 (Some n1) [n3, n4] (Element (ex_element ''div'' [] False))),
      (n3, ex_box n3 (Some n2) [] (Element (ex_element ''div'' [] False))),
      (n4, ex_box n4 (Some n2) [] (Element (ex_element ''div'' [] False)))] []"

definition ex_paint_env :: "int paint_env" where
  "ex_paint_env = \<lparr> pv_styles = (\<lambda>i. Some \<lparr> bs_outside = OBlock, bs_inside = Flow,
       bs_position = (if i = n3 then Relative else Static), bs_floating = False,
       bs_overflow_x = OverflowVisible, bs_overflow_y = OverflowVisible, bs_transform = False, bs_perspective = False,
       bs_filter = False, bs_contain = {}, bs_will_change = {} \<rparr>),
     pv_z = (\<lambda>i. if i = n3 then Some 1 else None), pv_order = (\<lambda>_. 0), pv_opaque = (\<lambda>_. True), pv_transformed = (\<lambda>_. False),
     pv_location = (\<lambda>i. if i = n2 then (5, 5) else (1, 1)), pv_size = (\<lambda>_. (10, 10)), pv_scroll = (\<lambda>_. (0, 0)),
     pv_visible = (\<lambda>i. i \<noteq> n2), pv_clear = (\<lambda>_. False), pv_culled = (\<lambda>_. False) \<rparr>"

text \<open>The middle box is not visible: with it goes its other child, but not the one hoisted past it.\<close>
theorem every_box_drawn_once_witness:
  "\<exists>d1 ctx1 xs. flush_styles_to_layout ex_paint_env n1 (ex_layers, Map.empty) = Some (d1, ctx1)
    \<and> draw_nodes ex_paint_env ctx1 d1 [n1] = Some xs \<and> distinct xs \<and> mset xs = {#n1, n3#} \<and> lists_only ex_layers d1"
proof -
  let ?t = "T n1 [T n2 [T n3 [], T n4 []]]"
  have "layout_represents ex_layers ?t" "distinct (preorder ?t)" "paint_ok ex_paint_env ex_layers Map.empty True ?t" by code_simp+
  from every_box_drawn_once [OF this] have "\<exists>d1 ctx1 xs. flush_styles_to_layout ex_paint_env n1 (ex_layers, Map.empty) = Some (d1, ctx1)
    \<and> draw_nodes ex_paint_env ctx1 d1 [n1] = Some xs \<and> distinct xs \<and> mset xs = mset (shown_boxes ex_paint_env ex_layers True False False ?t)
    \<and> lists_only ex_layers d1" by (metis tree.sel(1))
  moreover have "shown_boxes ex_paint_env ex_layers True False False ?t = [n1, n3]" by code_simp
  ultimately show ?thesis by simp
qed

text \<open>A stacking context is set but never taken away: when the middle box had one while the inner was
  hoisted to it, the inner box is drawn twice.\<close>
lemma stale_context_draws_twice:
  "Option.bind (flush_styles_to_layout ex_paint_env n1 (ex_layers, [n2 \<mapsto>
       \<lparr> hp_children = [\<lparr> hc_node = n3, hc_z = 1, hc_pos = (0, 0) \<rparr>], hp_negative = 0, hp_area = rect_zero \<rparr>]))
     (\<lambda>(d, ctx). draw_nodes (ex_paint_env\<lparr>pv_visible := (\<lambda>_. True)\<rparr>) ctx d [n1]) = Some [n1, n2, n4, n3, n3]"
  by code_simp

end
