(* ===== verification/Hit_Test.thy ===== *)
theory Hit_Test
  imports Box_Paint_Order "HOL-Library.Sublist"
begin

text \<open>
  Hit testing (\<open>Node::hit_inner\<close> in \<open>strake-dom/src/node/node.rs\<close>) against drawing: the box that
  is hit is the one drawn last among those that take the point.  Styles, layouts, inverse transforms,
  thumbs of scrollbars and the text under a point are parameters.
\<close>

section \<open>One box\<close>

text \<open>What the text layout of an inline root has at a point: nothing, a cluster without a glyph, or
  one of a node.\<close>
datatype text_hit = NoCluster | ClusterNoGlyph | ClusterNode node_id

record ('f, 'sb) hit_env =
  ht_hidden :: "node_id \<Rightarrow> bool"
  ht_pointer_none :: "node_id \<Rightarrow> bool"
  ht_location :: "node_id \<Rightarrow> 'f \<times> 'f"
  ht_scroll :: "node_id \<Rightarrow> 'f \<times> 'f"
  ht_inverse :: "node_id \<Rightarrow> ('f \<times> 'f \<Rightarrow> 'f \<times> 'f) option"
  ht_size :: "node_id \<Rightarrow> 'f \<times> 'f"
  ht_content_end :: "node_id \<Rightarrow> 'f \<times> 'f"
  ht_overflow :: "node_id \<Rightarrow> 'f rect"
  ht_inset :: "node_id \<Rightarrow> 'f \<times> 'f"
  ht_thumb :: "node_id \<Rightarrow> 'f \<times> 'f \<Rightarrow> 'sb option"
  ht_text :: "node_id \<Rightarrow> 'f \<times> 'f \<Rightarrow> text_hit"

record 'f point_hit =
  ph_node :: node_id
  ph_point :: "'f \<times> 'f"
  ph_text :: bool

definition pt_minus :: "('f::minus) \<times> 'f \<Rightarrow> 'f \<times> 'f \<Rightarrow> 'f \<times> 'f" where
  "pt_minus p q = (fst p - fst q, snd p - snd q)"

definition pt_plus :: "('f::plus) \<times> 'f \<Rightarrow> 'f \<times> 'f \<Rightarrow> 'f \<times> 'f" where
  "pt_plus p q = (fst p + fst q, snd p + snd q)"

definition local_point :: "('f::{plus, minus}, 'sb) hit_env \<Rightarrow> node_id \<Rightarrow> 'f \<times> 'f \<Rightarrow> 'f \<times> 'f" where
  "local_point env i p = (let q = pt_plus (pt_minus p (ht_location env i)) (ht_scroll env i)
     in case ht_inverse env i of None \<Rightarrow> q | Some t \<Rightarrow> t q)"

text \<open>Within the box that starts at zero and ends, scrolled, at a point.\<close>
definition within_end :: "('f::{linorder, zero, plus}, 'sb) hit_env \<Rightarrow> node_id \<Rightarrow> 'f \<times> 'f \<Rightarrow> 'f \<times> 'f \<Rightarrow> bool" where
  "within_end env i q fin \<longleftrightarrow> \<not> (fst q < 0 \<or> fst q > fst fin + fst (ht_scroll env i) \<or> snd q < 0 \<or> snd q > snd fin + snd (ht_scroll env i))"

definition matches_hoisted :: "('f::{linorder, zero, plus}, 'sb) hit_env \<Rightarrow> 'f contexts \<Rightarrow> node_id \<Rightarrow> 'f \<times> 'f \<Rightarrow> bool" where
  "matches_hoisted env ctx i q = (case ctx i of
      None \<Rightarrow> False
    | Some h \<Rightarrow> let a = hp_area h; s = ht_scroll env i in
        fst q \<ge> rc_left a + fst s \<and> fst q \<le> rc_right a + fst s \<and> snd q \<ge> rc_top a + snd s \<and> snd q \<le> rc_bottom a + snd s)"

definition hit_entered :: "('f::{linorder, zero, plus, minus}, 'sb) hit_env \<Rightarrow> 'f contexts \<Rightarrow> node_id \<Rightarrow> 'f \<times> 'f \<Rightarrow> bool" where
  "hit_entered env ctx i p \<longleftrightarrow>
     (let q = local_point env i p; o1 = ht_overflow env i in
      \<not> ht_hidden env i
      \<and> (within_end env i q (ht_size env i) \<or> within_end env i q (ht_content_end env i) \<or> matches_hoisted env ctx i q
         \<or> (fst q \<ge> rc_left o1 \<and> fst q \<le> rc_right o1 \<and> snd q \<ge> rc_top o1 \<and> snd q \<le> rc_bottom o1)))"

text \<open>The point in which the contents are tested.\<close>
definition content_point :: "('f::{plus, minus}, 'sb) hit_env \<Rightarrow> node \<Rightarrow> node_id \<Rightarrow> 'f \<times> 'f \<Rightarrow> 'f \<times> 'f" where
  "content_point env n i p = (let q = local_point env i p
     in if is_inline_root (flags n) then pt_minus q (ht_inset env i) else q)"

definition at_hoisted :: "('f::minus) \<times> 'f \<Rightarrow> 'f hoisted_paint_child \<Rightarrow> node_id \<times> ('f \<times> 'f)" where
  "at_hoisted q h = (hc_node h, pt_minus q (hc_pos h))"

text \<open>The boxes tested below a box, from the lowest to the topmost.\<close>
definition tested_children ::
    "('f::{linorder, zero, plus, minus}, 'sb) hit_env \<Rightarrow> 'f contexts \<Rightarrow> node \<Rightarrow> node_id \<Rightarrow> 'f \<times> 'f \<Rightarrow> (node_id \<times> ('f \<times> 'f)) list" where
  "tested_children env ctx n i p =
    (let q = content_point env n i p; hoisted = matches_hoisted env ctx i (local_point env i p) in
     (if hoisted then map (at_hoisted q) (fst (hoisted_of ctx i)) else [])
     @ map (\<lambda>c. (c, q)) (case paint_children n of None \<Rightarrow> [] | Some cs \<Rightarrow> cs)
     @ (if hoisted then map (at_hoisted q) (snd (hoisted_of ctx i)) else []))"

text \<open>What the box itself takes; the first \<open>None\<close> is a panic.\<close>
definition own_hit :: "('f::{linorder, zero, plus, minus}, 'sb) hit_env \<Rightarrow> document \<Rightarrow> node \<Rightarrow> node_id \<Rightarrow> 'f \<times> 'f \<Rightarrow> 'f point_hit option may_panic" where
  "own_hit env d n i p =
    (let q = content_point env n i p;
         self = (if within_end env i (local_point env i p) (ht_size env i) \<and> \<not> ht_pointer_none env i
                 then Some \<lparr> ph_node = i, ph_point = q, ph_text = False \<rparr> else None)
     in if is_inline_root (flags n) then
          (if element_data n = None then None
           else (case ht_text env i q of
               NoCluster \<Rightarrow> Some self
             | ClusterNoGlyph \<Rightarrow> Some None
             | ClusterNode t \<Rightarrow> do {
                 _ \<leftarrow> node_at d t;
                 Some (if ht_pointer_none env t then self else Some \<lparr> ph_node = t, ph_point = q, ph_text = True \<rparr>) }))
        else Some self)"

section \<open>The test\<close>

definition note_scrollbar :: "('f::{linorder, zero, plus, minus}, 'sb) hit_env \<Rightarrow> node_id \<Rightarrow> 'f \<times> 'f \<Rightarrow> 'sb option \<Rightarrow> 'sb option" where
  "note_scrollbar env i p sb = (let q = local_point env i p in
     if within_end env i q (ht_size env i)
     then (case ht_thumb env i (pt_minus q (ht_scroll env i)) of None \<Rightarrow> sb | Some b \<Rightarrow> Some b) else sb)"

text \<open>The boxes of a list in turn, the first of which that takes its point is hit.\<close>
partial_function (option) hit_first ::
    "('f::{linorder, zero, plus, minus}, 'sb) hit_env \<Rightarrow> 'f contexts \<Rightarrow> document \<Rightarrow> (node_id \<times> ('f \<times> 'f)) list \<Rightarrow> 'sb option
     \<Rightarrow> ('f point_hit option \<times> 'sb option) option" where
  "hit_first env ctx d is sb = (case is of
      [] \<Rightarrow> Some (None, sb)
    | b # rest \<Rightarrow> do {
        n \<leftarrow> node_at d (fst b);
        r \<leftarrow> (if \<not> hit_entered env ctx (fst b) (snd b) then Some (None, sb)
          else do {
            r1 \<leftarrow> hit_first env ctx d (rev (tested_children env ctx n (fst b) (snd b))) (note_scrollbar env (fst b) (snd b) sb);
            (if fst r1 \<noteq> None then Some r1
             else do { own \<leftarrow> own_hit env d n (fst b) (snd b); Some (own, snd r1) }) });
        (if fst r \<noteq> None then Some r else hit_first env ctx d rest (snd r)) })"

declare hit_first.simps [code]

definition hit_inner ::
    "('f::{linorder, zero, plus, minus}, 'sb) hit_env \<Rightarrow> 'f contexts \<Rightarrow> document \<Rightarrow> node_id \<Rightarrow> 'f \<times> 'f \<Rightarrow> 'sb option
     \<Rightarrow> ('f point_hit option \<times> 'sb option) may_panic" where
  "hit_inner env ctx d i p sb = hit_first env ctx d [(i, p)] sb"

section \<open>The candidates in drawing order\<close>

text \<open>Every box that takes the point, with what it takes, in the order they are drawn.\<close>
partial_function (option) candidates ::
    "('f::{linorder, zero, plus, minus}, 'sb) hit_env \<Rightarrow> 'f contexts \<Rightarrow> document \<Rightarrow> (node_id \<times> ('f \<times> 'f)) list \<Rightarrow> (node_id \<times> 'f point_hit) list option" where
  "candidates env ctx d is = (case is of
      [] \<Rightarrow> Some []
    | b # rest \<Rightarrow> do {
        n \<leftarrow> node_at d (fst b);
        found \<leftarrow> (if \<not> hit_entered env ctx (fst b) (snd b) then Some []
          else do {
            own \<leftarrow> own_hit env d n (fst b) (snd b);
            above \<leftarrow> candidates env ctx d (tested_children env ctx n (fst b) (snd b));
            Some ((case own of None \<Rightarrow> [] | Some h \<Rightarrow> [(fst b, h)]) @ above) });
        others \<leftarrow> candidates env ctx d rest;
        Some (found @ others) })"

declare candidates.simps [code]

definition topmost :: "(node_id \<times> 'f point_hit) list \<Rightarrow> 'f point_hit option" where
  "topmost cs = (if cs = [] then None else Some (snd (last cs)))"

end
