(* ===== verification/Hit_Order.thy ===== *)
theory Hit_Order
  imports Hit_Test
begin

text \<open>
  Hit testing is drawing backwards: the test returns what the topmost candidate takes, and the
  candidates are met in drawing order.
\<close>

lemma hit_Nil [simp]: "hit_first env ctx d [] sb = Some (None, sb)"
  by (subst hit_first.simps) simp

lemma hit_Cons: "hit_first env ctx d (b # rest) sb = do {
    n \<leftarrow> node_at d (fst b);
    r \<leftarrow> (if \<not> hit_entered env ctx (fst b) (snd b) then Some (None, sb)
      else do {
        r1 \<leftarrow> hit_first env ctx d (rev (tested_children env ctx n (fst b) (snd b))) (note_scrollbar env (fst b) (snd b) sb);
        (if fst r1 \<noteq> None then Some r1
         else do { own \<leftarrow> own_hit env d n (fst b) (snd b); Some (own, snd r1) }) });
    (if fst r \<noteq> None then Some r else hit_first env ctx d rest (snd r)) }"
  unfolding hit_first.simps [of env ctx d "b # rest" sb] list.case by (rule refl)

lemma hit_append: "hit_first env ctx d (as @ bs) sb = do {
    r \<leftarrow> hit_first env ctx d as sb;
    (if fst r \<noteq> None then Some r else hit_first env ctx d bs (snd r)) }"
proof (induction as arbitrary: sb)
  case (Cons a as)
  have "(\<lambda>r. if fst r \<noteq> None then Some r else hit_first env ctx d (as @ bs) (snd r))
    = (\<lambda>r. do { r' \<leftarrow> (if fst r \<noteq> None then Some r else hit_first env ctx d as (snd r));
           (if fst r' \<noteq> None then Some r' else hit_first env ctx d bs (snd r')) })"
    using Cons.IH by (intro ext) simp
  then show ?case unfolding append_Cons hit_Cons [of env ctx d a] bind_assoc by (simp only:)
qed simp

lemma candidates_Nil [simp]: "candidates env ctx d [] = Some []"
  by (subst candidates.simps) simp

lemma candidates_Cons: "candidates env ctx d (b # rest) = do {
    n \<leftarrow> node_at d (fst b);
    found \<leftarrow> (if \<not> hit_entered env ctx (fst b) (snd b) then Some []
      else do {
        own \<leftarrow> own_hit env d n (fst b) (snd b);
        above \<leftarrow> candidates env ctx d (tested_children env ctx n (fst b) (snd b));
        Some ((case own of None \<Rightarrow> [] | Some h \<Rightarrow> [(fst b, h)]) @ above) });
    others \<leftarrow> candidates env ctx d rest;
    Some (found @ others) }"
  unfolding candidates.simps [of env ctx d "b # rest"] list.case by (rule refl)

lemma topmost_append: "topmost (as @ bs) = (if topmost bs \<noteq> None then topmost bs else topmost as)"
  by (simp add: topmost_def)

text \<open>What is drawn is drawn by elements, and the texts that are hit live.\<close>
definition drawn_ok :: "('f, 'sb) hit_env \<Rightarrow> 'f contexts \<Rightarrow> document \<Rightarrow> bool" where
  "drawn_ok env ctx d \<longleftrightarrow>
     (\<forall>i n c. nodes d i = Some n \<longrightarrow> c \<in> set (drawn_children ctx n i) \<longrightarrow> (\<exists>m. nodes d c = Some m \<and> element_data m \<noteq> None))
   \<and> (\<forall>i q t. ht_text env i q = ClusterNode t \<longrightarrow> nodes d t \<noteq> None)"

lemma tested_drawn: "subseq (map fst (tested_children env ctx n i p)) (drawn_children ctx n i)"
proof -
  have h: "map fst (map (at_hoisted q) hs) = map hc_node hs" for q :: "'a \<times> 'a" and hs by (simp add: at_hoisted_def)
  have m: "map fst (map (\<lambda>c. (c, q)) cs) = cs" for q :: "'a \<times> 'a" and cs :: "node_id list" by (simp add: comp_def)
  have "subseq (if b then xs else []) xs" for b and xs :: "node_id list" by simp
  then show ?thesis unfolding tested_children_def drawn_children_def Let_def map_append if_distrib [of "map fst"] h m list.map
    by (intro list_emb_append_mono subseq_order.order_refl)
qed

lemma own_hit_total:
  assumes "drawn_ok env ctx d" "element_data n \<noteq> None" shows "\<exists>own. own_hit env d n i p = Some own"
proof -
  have "nodes d t \<noteq> None" if "ht_text env i q = ClusterNode t" for q t using assms(1) that unfolding drawn_ok_def by blast
  then have "ht_text env i q = ClusterNode t \<Longrightarrow> \<exists>m. nodes d t = Some m" for q t by blast
  then show ?thesis using assms(2)
    by (cases "ht_text env i (content_point env n i p)") (fastforce simp: own_hit_def Let_def node_at_def)+
qed

text \<open>What both walks do with a list of boxes.\<close>
definition tests_as :: "('f::{linorder, zero, plus, minus}, 'sb) hit_env \<Rightarrow> 'f contexts \<Rightarrow> document \<Rightarrow> node_id list \<Rightarrow> node_id list \<Rightarrow> bool" where
  "tests_as env ctx d is xs \<longleftrightarrow> (\<forall>ps. subseq (map fst ps) is \<longrightarrow> (\<exists>cs. candidates env ctx d ps = Some cs \<and> subseq (map fst cs) xs
     \<and> (\<forall>sb. \<exists>sb'. hit_first env ctx d (rev ps) sb = Some (topmost cs, sb'))))"

lemma tests_one:
  assumes ok: "drawn_ok env ctx d" and n: "nodes d i = Some n" "element_data n \<noteq> None"
    and below: "tests_as env ctx d (drawn_children ctx n i) xs"
  shows "\<exists>cs. candidates env ctx d [(i, p)] = Some cs \<and> subseq (map fst cs) (i # xs)
    \<and> (\<forall>sb. \<exists>sb'. hit_first env ctx d [(i, p)] sb = Some (topmost cs, sb'))"
proof (cases "hit_entered env ctx i p")
  case False
  then show ?thesis using n(1) by (intro exI [of _ "[]"]) (simp add: candidates_Cons hit_Cons node_at_def topmost_def)
next
  case True
  obtain cs where cs: "candidates env ctx d (tested_children env ctx n i p) = Some cs" "subseq (map fst cs) xs"
    "\<forall>sb. \<exists>sb'. hit_first env ctx d (rev (tested_children env ctx n i p)) sb = Some (topmost cs, sb')"
    using below tested_drawn [of env ctx n i p] unfolding tests_as_def by blast
  obtain own where own: "own_hit env d n i p = Some own" using own_hit_total [OF ok n(2)] by blast
  let ?cs = "(case own of None \<Rightarrow> [] | Some h \<Rightarrow> [(i, h)]) @ cs"
  have "topmost ?cs = (if topmost cs \<noteq> None then topmost cs else own)" by (cases own) (simp_all add: topmost_def)
  moreover have "\<exists>sb'. hit_first env ctx d [(i, p)] sb = Some (if topmost cs \<noteq> None then topmost cs else own, sb')" for sb
  proof -
    obtain sb' where "hit_first env ctx d (rev (tested_children env ctx n i p)) (note_scrollbar env i p sb) = Some (topmost cs, sb')" using cs(3) by blast
    then show ?thesis using True n(1) own by (auto simp: hit_Cons node_at_def)
  qed
  moreover have "candidates env ctx d [(i, p)] = Some ?cs" using True n(1) own cs(1) by (cases own) (simp_all add: candidates_Cons node_at_def)
  moreover have "subseq (map fst ?cs) (i # xs)" using cs(2) by (cases own) (simp_all add: list_emb_Cons)
  ultimately show ?thesis by (intro exI [of _ ?cs]) simp
qed

lemma tests_Nil: "tests_as env ctx d [] []"
  unfolding tests_as_def by (auto simp: topmost_def dest!: list_emb_length)

lemma tests_hidden:
  "nodes d i = Some n \<Longrightarrow> ht_hidden env i \<Longrightarrow> \<exists>cs. candidates env ctx d [(i, p)] = Some cs \<and> subseq (map fst cs) []
    \<and> (\<forall>sb. \<exists>sb'. hit_first env ctx d [(i, p)] sb = Some (topmost cs, sb'))"
  by (intro exI [of _ "[]"]) (simp add: candidates_Cons hit_Cons node_at_def topmost_def hit_entered_def Let_def)

lemma tests_Cons:
  assumes one: "\<And>p. \<exists>cs. candidates env ctx d [(i, p)] = Some cs \<and> subseq (map fst cs) xs
     \<and> (\<forall>sb. \<exists>sb'. hit_first env ctx d [(i, p)] sb = Some (topmost cs, sb'))"
    and rest: "tests_as env ctx d is ys"
  shows "tests_as env ctx d (i # is) (xs @ ys)"
  unfolding tests_as_def
proof (intro allI impI)
  fix ps :: "(node_id \<times> ('a \<times> 'a)) list" assume ps: "subseq (map fst ps) (i # is)"
  show "\<exists>cs. candidates env ctx d ps = Some cs \<and> subseq (map fst cs) (xs @ ys)
     \<and> (\<forall>sb. \<exists>sb'. hit_first env ctx d (rev ps) sb = Some (topmost cs, sb'))"
  proof (cases "subseq (map fst ps) is")
    case True
    then obtain cs where "candidates env ctx d ps = Some cs" "subseq (map fst cs) ys" "\<forall>sb. \<exists>sb'. hit_first env ctx d (rev ps) sb = Some (topmost cs, sb')"
      using rest unfolding tests_as_def by blast
    then show ?thesis by (meson subseq_drop_many)
  next
    case False
    then obtain p qs where q: "ps = (i, p) # qs" "subseq (map fst qs) is"
      using ps by (cases ps) (auto split: if_splits)
    obtain cs where cs: "candidates env ctx d qs = Some cs" "subseq (map fst cs) ys" "\<forall>sb. \<exists>sb'. hit_first env ctx d (rev qs) sb = Some (topmost cs, sb')"
      using rest q(2) unfolding tests_as_def by blast
    obtain c1 where c1: "candidates env ctx d [(i, p)] = Some c1" "subseq (map fst c1) xs"
      "\<forall>sb. \<exists>sb'. hit_first env ctx d [(i, p)] sb = Some (topmost c1, sb')" using one by blast
    have "candidates env ctx d ps = Some (c1 @ cs)"
      using c1(1) cs(1) unfolding q(1) candidates_Cons [of env ctx d "(i, p)" qs] candidates_Cons [of env ctx d "(i, p)" "[]"]
      by (auto simp: bind_eq_Some_conv)
    moreover have "subseq (map fst (c1 @ cs)) (xs @ ys)" unfolding map_append by (rule list_emb_append_mono [OF c1(2) cs(2)])
    moreover have "\<exists>sb'. hit_first env ctx d (rev ps) sb = Some (topmost (c1 @ cs), sb')" for sb
    proof -
      obtain sb1 where sb1: "hit_first env ctx d (rev qs) sb = Some (topmost cs, sb1)" using cs(3) by blast
      obtain sb2 where "hit_first env ctx d [(i, p)] sb1 = Some (topmost c1, sb2)" using c1(3) by blast
      then show ?thesis using sb1 by (simp add: q(1) hit_append topmost_append)
    qed
    ultimately show ?thesis by blast
  qed
qed

text \<open>A walk of boxes, as an induction rule over the boxes walked.\<close>
lemma walk_induct [consumes 1, case_names Nil Skip Enter]:
  assumes xs: "walk_boxes P ctx d is = Some xs"
    and nil: "Q [] []"
    and skip: "\<And>i n rest zs. nodes d i = Some n \<Longrightarrow> element_data n = None \<or> P n i \<Longrightarrow> walk_boxes P ctx d rest = Some zs \<Longrightarrow> Q rest zs \<Longrightarrow> Q (i # rest) zs"
    and enter: "\<And>i n rest ys zs. nodes d i = Some n \<Longrightarrow> element_data n \<noteq> None \<Longrightarrow> \<not> P n i \<Longrightarrow>
      walk_boxes P ctx d (drawn_children ctx n i) = Some ys \<Longrightarrow> Q (drawn_children ctx n i) ys \<Longrightarrow> walk_boxes P ctx d rest = Some zs \<Longrightarrow> Q rest zs \<Longrightarrow> Q (i # rest) (i # ys @ zs)"
  shows "Q is xs"
proof -
  let ?R = "\<lambda>p c e is xs. p = P \<longrightarrow> c = ctx \<longrightarrow> e = d \<longrightarrow> walk_boxes P ctx d is = Some xs \<and> Q is xs"
  have "?R P ctx d is xs"
  proof (rule walk_boxes.raw_induct [of ?R, rotated], rule xs, intro impI)
    fix walk p c e and js xs :: "node_id list"
    assume IH: "\<And>p c e js xs. walk p c e js = Some xs \<Longrightarrow> ?R p c e js xs"
      and run: "(case js of [] \<Rightarrow> Some [] | i # rest \<Rightarrow> do {
          n \<leftarrow> node_at e i;
          drawn \<leftarrow> (if element_data n = None \<or> p n i then Some []
            else do { xs \<leftarrow> walk p c e (drawn_children c n i); Some (i # xs) });
          others \<leftarrow> walk p c e rest;
          Some (drawn @ others) }) = Some xs"
      and eqs: "p = P" "c = ctx" "e = d"
    show "walk_boxes P ctx d js = Some xs \<and> Q js xs"
    proof (cases js)
      case Nil then show ?thesis using run nil by simp
    next
      case (Cons i rest)
      obtain n zs where n: "nodes d i = Some n" and zs: "walk P ctx d rest = Some zs"
        using run eqs Cons by (auto simp: node_at_def bind_eq_Some_conv)
      have r: "walk_boxes P ctx d rest = Some zs" "Q rest zs" using IH [OF zs] by simp_all
      show ?thesis
      proof (cases "element_data n = None \<or> P n i")
        case True
        then have "xs = zs" using run eqs Cons n zs by (auto simp: node_at_def)
        then show ?thesis using Cons n True r skip [OF n True r] by (simp add: walk_Cons node_at_def)
      next
        case False
        then obtain ys where ys: "walk P ctx d (drawn_children ctx n i) = Some ys" "xs = i # ys @ zs"
          using run eqs Cons n zs by (auto simp: node_at_def bind_eq_Some_conv)
        have y: "walk_boxes P ctx d (drawn_children ctx n i) = Some ys" "Q (drawn_children ctx n i) ys" using IH [OF ys(1)] by simp_all
        then show ?thesis using Cons n False r ys(2) enter [OF n _ _ y r] by (simp add: walk_Cons node_at_def)
      qed
    qed
  qed
  then show ?thesis by simp
qed

text \<open>What is drawn is met in the same order as when nothing is hidden.\<close>
lemma walk_skips: "walk_boxes (\<lambda>_ _. False) ctx d is = Some ws \<Longrightarrow> \<exists>xs. walk_boxes P ctx d is = Some xs \<and> subseq xs ws"
proof (induction rule: walk_induct)
  case (Skip i n rest zs)
  then show ?case by (auto simp: walk_Cons node_at_def)
next
  case (Enter i n rest ys zs)
  then obtain us vs where uv: "walk_boxes P ctx d (drawn_children ctx n i) = Some us" "subseq us ys"
    "walk_boxes P ctx d rest = Some vs" "subseq vs zs" by blast
  have "subseq vs (i # ys @ zs)" "subseq (i # us @ vs) (i # ys @ zs)" using uv(2,4) by (simp_all add: list_emb_append_mono subseq_drop_many list_emb_Cons)
  then show ?case using Enter.hyps(1,2) uv(1,3) by (cases "P n i") (simp_all add: walk_Cons node_at_def)
qed simp

text \<open>Whatever boxes are left out of the walk, if hit testing does not enter them.\<close>
lemma tests_list:
  assumes ok: "drawn_ok env ctx d" and hid: "\<forall>j m. nodes d j = Some m \<longrightarrow> P m j \<longrightarrow> ht_hidden env j"
  shows "walk_boxes P ctx d is = Some xs \<Longrightarrow> \<forall>i\<in>set is. \<exists>m. nodes d i = Some m \<and> element_data m \<noteq> None \<Longrightarrow> tests_as env ctx d is xs"
proof (induction rule: walk_induct)
  case Nil
  show ?case by (rule tests_Nil)
next
  case (Skip i n rest zs)
  then have "ht_hidden env i" using hid by auto
  from tests_Cons [OF tests_hidden [OF Skip.hyps(1) this]] Skip show ?case by fastforce
next
  case (Enter i n rest ys zs)
  have "\<forall>i\<in>set (drawn_children ctx n i). \<exists>m. nodes d i = Some m \<and> element_data m \<noteq> None" using ok Enter.hyps(1) unfolding drawn_ok_def by blast
  then have "tests_as env ctx d (drawn_children ctx n i) ys" by (rule Enter.IH(1))
  from tests_Cons [OF tests_one [OF ok Enter.hyps(1,2) this]] Enter show ?case by fastforce
qed


section \<open>Examples\<close>

text \<open>Two overlapping boxes, the first of which is hoisted over the second.\<close>
definition ex_hit_box :: "node_id \<Rightarrow> u32 \<Rightarrow> node_id list \<Rightarrow> node" where
  "ex_hit_box i f cs = (ex_node i None [] (Element (ex_element ''div'' [] False)))\<lparr>flags := f, paint_children := Some cs\<rparr>"

definition ex_hit_doc :: "u32 \<Rightarrow> document" where
  "ex_hit_doc f = ex_document [(n1, ex_hit_box n1 0 [n2]), (n2, ex_hit_box n2 f [n4]), (n3, ex_hit_box n3 0 []), (n4, ex_hit_box n4 0 [])] []"

definition ex_hit_contexts :: "int contexts" where
  "ex_hit_contexts = [n1 \<mapsto> \<lparr> hp_children = [\<lparr> hc_node = n3, hc_z = 1, hc_pos = (0, 0) \<rparr>], hp_negative = 0,
     hp_area = \<lparr> rc_left = 0, rc_top = 0, rc_right = 20, rc_bottom = 20 \<rparr> \<rparr>]"

text \<open>The text of the second box, if it is an inline root, has no glyph at the origin.\<close>
definition ex_hit_env :: "int \<Rightarrow> (int, unit) hit_env" where
  "ex_hit_env inset = \<lparr> ht_hidden = (\<lambda>_. False), ht_pointer_none = (\<lambda>_. False),
     ht_location = (\<lambda>i. if i = n4 then (10, 10) else (0, 0)), ht_scroll = (\<lambda>_. (0, 0)), ht_inverse = (\<lambda>_. None),
     ht_size = (\<lambda>i. if i = n4 then (5, 5) else if i = n3 then (12, 12) else (20, 20)), ht_content_end = (\<lambda>_. (0, 0)), ht_overflow = (\<lambda>_. rect_zero),
     ht_inset = (\<lambda>_. (inset, inset)), ht_thumb = (\<lambda>_ _. None),
     ht_text = (\<lambda>_ q. if q = (0, 0) then ClusterNoGlyph else NoCluster) \<rparr>"

lemma ex_hit_nodes: "nodes (ex_hit_doc f) i = (if i = n1 then Some (ex_hit_box n1 0 [n2]) else if i = n2 then Some (ex_hit_box n2 f [n4])
    else if i = n3 then Some (ex_hit_box n3 0 []) else if i = n4 then Some (ex_hit_box n4 0 []) else None)"
  by (simp add: ex_hit_doc_def ex_document_def)

lemma ex_hit_box_fields [simp]: "paint_children (ex_hit_box i f cs) = Some cs" "element_data (ex_hit_box i f cs) = Some (ex_element ''div'' [] False)" "flags (ex_hit_box i f cs) = f"
  by (simp_all add: ex_hit_box_def element_data_def ex_node_def node_new_def)

text \<open>One box is transparent: it is hit, but not drawn.\<close>
definition ex_clear_env :: "node_id \<Rightarrow> int paint_env" where
  "ex_clear_env c = ex_paint_env\<lparr>pv_visible := (\<lambda>_. True), pv_clear := (\<lambda>i. i = c)\<rparr>"


text \<open>The location of a box in an inline root counts from the border, but the test takes the inset of
  the root off first: with an inset of ten the inner box is missed where it is drawn.\<close>
lemma inset_taken_twice:
  "map_option (map_option ph_node \<circ> fst) (hit_inner (ex_hit_env 10) Map.empty (ex_hit_doc IS_INLINE_ROOT) n2 (12, 12) None) = Some (Some n2)"
  "map_option (map_option ph_node \<circ> fst) (hit_inner (ex_hit_env 10) Map.empty (ex_hit_doc 0) n2 (12, 12) None) = Some (Some n4)"
  by code_simp+

text \<open>Text that has no glyph at the point makes the box below it transparent.\<close>
lemma glyphless_text_is_missed:
  "map_option fst (hit_inner (ex_hit_env 0) Map.empty (ex_hit_doc IS_INLINE_ROOT) n2 (0, 0) None) = Some None"
  by code_simp

end
