(* ===== verification/Spec2Isabelle.thy ===== *)
theory Spec2Isabelle
  imports Dom_Queries Dom_Attributes Dom_Focus Supervisor_Lifecycle Permissions Shell_Windows Web_Storage Safe_Storage
    Updater Menus Sessions Os_Bridges Hover_Events Browser_Invariant Script_Timer_Safety Script_Event_Order Script_Load_Order
    Table_Cells List_Markers Box_Inline_Order Hit_Order
begin

text \<open>
  A verification development for Strake, a browser engine with an Electron-compatible host and a
  small browser on top of it.

  \<^bold>\<open>The program.\<close>  \<open>packages/strake-dom\<close> keeps a document: a slot map of nodes, the operations that
  change them, traversal, the interaction state (focus, hover, selection, forms), the default actions
  of events, and the construction of boxes.  \<open>packages/strake-paint\<close> draws the boxes,
  \<open>packages/strake-vibey-script\<close> runs the scripts of a page (timers, listeners, loading),
  \<open>packages/strake-electron-compat\<close> holds the state behind the Electron modules (application,
  windows, messages, storage, permissions, updates), \<open>packages/strake-fallback-supervisor\<close> drives the
  worker that shows pages the engine cannot, and \<open>apps/browser\<close> is the browser.  The parts meet in
  the document: scripts and the mutation API change it, events read and change its interaction state,
  layout derives boxes from it and painting and hit testing read those.

  \<^bold>\<open>How it is modelled.\<close>  A struct is a record, an enum a datatype, a method a function from the state
  to the new state.  Code that can panic or might not return has a result of type \<open>'a option\<close>,
  written \<open>'a may_panic\<close> in \<open>Prelude\<close>, where \<open>None\<close> stands for the panic or the missing return;
  a Rust \<open>Option\<close> is then an inner option and an error a sum type or a datatype of its own.  Loops and
  recursions that follow links of the store are \<open>partial_function (option)\<close>, so that a cycle of links
  is a result of \<open>None\<close> and returning is part of the properties.  There is no fuel, with one
  exception: \<open>flush_eager_ops\<close> takes the depth of nested flushes.  One level is shown to be enough to
  take any node out of any document, and to put nodes into a \<open>plain\<close> one, without file inputs and
  without button-like inputs that have a value.  Those inputs make children of their own when they enter a
  document, through a nested insertion, and the properties of insertion leave them out; the lemma
  \<open>button_label_added_again\<close> evaluates one with two levels.  Machine integers are words with the wrap-around of a release build (node ids, window,
  session and surface ids, counters, sizes of screens); where a counter must not wrap a property says
  so.  Strings are byte strings.  Lengths and times in floating point are values of a linear order
  with the arithmetic that is used; the doubles of sliders are their bits, with the order read off
  the bits and the rounding operations a parameter (\<open>f64_ops\<close>); floats that are only stored are bits, durations and instants are
  natural numbers.  A hash map is a map, or an association list where its order can be seen.
  Listeners and callbacks are opaque values, and firing returns the calls.  What belongs to other
  crates is a parameter of the definitions that use it: computed styles (\<open>box_styles\<close>), layouts,
  URL, JSON and HTML parsers, the text shaper, the script engine (what a script does is a tree of
  calls), the key chain, the worker, the clock, the environment.  Effects on the outside are logs.

  \<^bold>\<open>Shared theories.\<close>  \<open>Prelude\<close> (options, maps, words, the monad), \<open>Rust_String\<close> (the string
  operations of the standard library), and two interfaces: \<open>Keyed_List\<close> (lookup after insertion and
  removal; interpreted for the attributes of an element and the items of a storage area) and
  \<open>Id_Registry\<close> (ids are fresh and never reused; interpreted for windows, surfaces and power blockers).

  \<^bold>\<open>The document\<close> (\<open>strake-dom/src\<close>, \<open>strake-traits/src\<close>).
  \<^item> \<open>Net_Types\<close>: requests, form entries and navigations (\<open>net.rs\<close>, \<open>navigation.rs\<close>).
  \<^item> \<open>Dom_Tree\<close>, \<open>Dom_Node\<close>: the store, node and element data, marks of dirty and damaged descendants,
    attributes, snapshots (\<open>node_id.rs\<close>, \<open>tree.rs\<close>, \<open>node/*.rs\<close>, \<open>document.rs\<close>).  Marking
    stops at the first marked ancestor and marks exactly those before it.  \<open>Range_Input\<close>: the state
    of a slider and its bounds (\<open>node/element.rs\<close>).
  \<^item> \<open>Dom_Shape\<close>: the rose tree that a store represents; \<open>Dom_Traversal\<close>, \<open>Dom_Order\<close>,
    \<open>Dom_Compare\<close>, \<open>Dom_Queries\<close>: iterators, searches, comparison of positions, lookups
    (\<open>traversal.rs\<close>, \<open>query_selector.rs\<close>) against preorder and paths of that tree.
  \<^item> \<open>Dom_Mutation\<close>, \<open>Dom_Lifetime\<close>: every operation of \<open>mutator.rs\<close>; \<open>Dom_Structure\<close>, \<open>Dom_Links\<close>,
    \<open>Dom_Refinement\<close>, \<open>Dom_Insert\<close>, \<open>Dom_Edit\<close>, \<open>Dom_Flush\<close>: each is a change of links that refines an
    update of the tree, whatever the flush of eager operations does within the contract of the locale
    \<open>eager_flush\<close>, which the code's flush fulfils; \<open>Dom_Attributes\<close>: attributes and what follows them.
  \<^item> \<open>Dom_Interaction\<close>, \<open>Dom_Paths\<close>, \<open>Dom_Focus\<close>: hover, activation and focus; the states of the
    elements are those of the path from the hovered and active node at any time (locale
    \<open>state_change\<close>), and the tab key goes round all focusable elements.
  \<^item> \<open>Dom_Form\<close> (\<open>form.rs\<close>, \<open>url.rs\<close>): the entries of a form and the navigation a submission asks for;
    \<open>Dom_Selection\<close> (\<open>selection.rs\<close>): text selections and their ranges.
  \<^item> \<open>Dom_Events\<close>, \<open>Dom_Activation\<close>, \<open>Dom_Pointer\<close>, \<open>Event_Driver\<close> (\<open>events.rs\<close>, \<open>events/*.rs\<close>): events,
    default actions and their dispatch; \<open>Dom_Click\<close>, \<open>Hover_Events\<close>: what a click does, and that enter
    and leave events balance.  \<open>Dom_Example\<close>, \<open>Dom_Form_Example\<close>, \<open>Event_Example\<close> hold the documents
    on which the properties are evaluated.

  \<^bold>\<open>Boxes\<close> (\<open>strake-dom/src/layout\<close>, \<open>node/node.rs\<close>, \<open>strake-paint/src/render.rs\<close>).
  \<^item> \<open>Table_Layout\<close>, \<open>Table_Cells\<close> (\<open>table.rs\<close>): where cells go and which collapsed border wins.
  \<^item> \<open>List_Markers\<close> (\<open>list.rs\<close>, the start of a list in \<open>construct.rs\<close>): numbering and markers.
  \<^item> \<open>Box_Reparent\<close>, \<open>Box_Placement\<close> (\<open>construct.rs\<close>): absolutely positioned boxes move below their
    containing blocks; the pass settles.
  \<^item> \<open>Box_Pseudo\<close>, \<open>Box_Inline\<close>, \<open>Box_Inline_Order\<close> (\<open>construct.rs\<close>): pseudo elements, and the two phases of
    inline layout, which agree.
  \<^item> \<open>Box_Paint\<close>, \<open>Box_Paint_Order\<close> (\<open>damage.rs\<close>, \<open>render.rs\<close>): the lists for painting; every box is
    drawn once unless it is hidden or drawn by a hidden one, where no stacking context is left from
    before.  \<open>Hit_Test\<close>, \<open>Hit_Order\<close> (\<open>node.rs\<close>): the box that is hit is the topmost one in that order;
    a box with no opacity is hit though it is not drawn.

  \<^bold>\<open>Scripts\<close> (\<open>strake-vibey-script/src\<close>).
  \<^item> \<open>Script_Timers\<close>, \<open>Script_Tasks\<close>, \<open>Script_Timer_Safety\<close> (\<open>timers.rs\<close>, \<open>clock.rs\<close>, \<open>runtime.rs\<close>):
    the timer queue and the loop that runs due timers; a cleared timer never fires.
  \<^item> \<open>Script_Events\<close>, \<open>Script_Event_Order\<close> (\<open>runtime.rs\<close>, \<open>dom/event.rs\<close>, \<open>dom/node.rs\<close>): listeners and
    the delivery of an event against the algorithm of the standard, for pages that use neither
    once-listeners nor an \<open>on<event>\<close> property for the event and remove no listener; what differs with
    them has a lemma each.
  \<^item> \<open>Script_Loading\<close>, \<open>Script_Load_Order\<close> (\<open>document.rs\<close>, \<open>runtime.rs\<close>): the scripts of a page run once,
    in document order.

  \<^bold>\<open>The Electron host\<close> (\<open>strake-electron-compat/src\<close>), one theory per module or group of modules:
  \<open>App_Lifecycle\<close> (\<open>app.rs\<close>), \<open>Ipc\<close> (\<open>ipc.rs\<close>, \<open>message_channel.rs\<close>), \<open>Windows\<close> (\<open>window.rs\<close>), \<open>Screens\<close>
  (\<open>screen.rs\<close>), \<open>Shell_Windows\<close> (\<open>shell.rs\<close>), \<open>Permissions\<close>, \<open>Web_Storage\<close>, \<open>Safe_Storage\<close> (with the
  locale \<open>sealing\<close> for a key chain), \<open>Updater\<close>, \<open>Menus\<close>, \<open>Sessions\<close> (\<open>session.rs\<close>, \<open>protocol.rs\<close>) and
  \<open>Os_Bridges\<close> (clipboard, crash reporter, power, notifications, theme, add-ons, dialogs, shell).

  \<^bold>\<open>The fallback worker\<close> (\<open>strake-fallback-supervisor/src\<close>).  \<open>Supervisor\<close> models the supervisor with
  every event, \<open>Supervisor_Lifecycle\<close> its invariant, the eviction of an idle worker, the protocol
  towards the backend (locale \<open>worker_backend\<close>) and the frames that are dropped.

  \<^bold>\<open>The browser\<close> (\<open>apps/browser\<close>).  \<open>Browser_History\<close> (visits in memory and on disk agree),
  \<open>Nav_History\<close> (locale \<open>page_history\<close>), \<open>Url_Suggestions\<close>, \<open>Browser_Pages\<close>, \<open>Browser_App\<close> and
  \<open>Browser_Invariant\<close>: tabs, toolbar and pages; nothing the user does makes the browser panic.

  \<^bold>\<open>What the groups of lemmas show.\<close>  For each component: that its state invariant is kept by every
  operation, what each operation does on each branch, and, where there is an abstract view (the tree
  of a store, the queue of a channel, the map of a storage area, the list of visited pages, the
  algorithm of a standard), that the code refines it.  Behaviour that falls short of its documentation
  or of the standard has a lemma on a concrete input beside the property it limits.

  \<^bold>\<open>Not modelled.\<close>
  \<^item> Third-party code: style computation (Stylo), Taffy, Parley, Vello, winit, JavaScript engines and
    the glue to them (\<open>strake-dom/src/stylo*.rs\<close>, \<open>stylo_taffy\<close>, \<open>strake-shell\<close>, \<open>accesskit_xplat\<close>,
    \<open>dioxus-native\<close>, \<open>dioxus-native-dom\<close>, \<open>strake-html\<close>, \<open>strake-net\<close>).
  \<^item> \<open>strake-vibey-script/src/electron.rs\<close> and most of \<open>dom/*.rs\<close>: bindings and JavaScript source text
    that expose the modelled operations to pages; their meaning is that of the engine.
  \<^item> \<open>strake-paint\<close> apart from which boxes are drawn and in which order: what is drawn for one box, its
    clips and whether it is out of view are arithmetic on floats handed to the renderer.
  \<^item> Of layout: the sizes of boxes (Taffy), line breaking and floats in lines (\<open>layout/inline.rs\<close>),
    intrinsic sizes of replaced elements, and the images and resources a resolve pass requests.
  \<^item> Test harness, benchmarks, examples, the web platform test runner and the tools under \<open>apps\<close>
    (\<open>bump\<close>, \<open>pack\<close>, \<open>readme\<close>, \<open>run\<close>): they read files and start processes.
  \<^item> Locks and threads: every operation holds its lock for its whole body, so operations are steps.
\<close>

end
